(* ===== verification/Prelude.thy ===== *)
theory Prelude
  imports Main "HOL-Library.Word"
begin

text \<open>
  What the components share: names for the machine types of the C code, the arithmetic of
  \<open>size_t\<close>, C strings, and the shape of the incremental filters of the socket library
  (a byte loop over a state), with the contract under which such a filter and its inverse
  compose to the identity.
\<close>

section \<open>Machine types\<close>

type_synonym u8 = "8 word"
type_synonym u32 = "32 word"
type_synonym u64 = "64 word"
type_synonym bytes = "u8 list"

named_theorems layout_simps \<open>positions, sizes and masks of the packed formats\<close>

text \<open>A \<open>size_t\<close> has 64 bits; the subtraction of two of them wraps.\<close>

definition size_sub :: "nat \<Rightarrow> nat \<Rightarrow> nat" where
  "size_sub a b = nat ((int a - int b) mod 2 ^ 64)"

lemma size_sub_le: "b \<le> a \<Longrightarrow> a < 2 ^ 64 \<Longrightarrow> size_sub a b = a - b"
  by (simp add: size_sub_def flip: of_nat_diff)

text \<open>A number below \<open>2^n\<close> has no bit at or above \<open>n\<close>.\<close>

lemma bit_nat_small: "m < 2 ^ n \<Longrightarrow> bit (m :: nat) k \<Longrightarrow> k < n"
  by (metis bit_take_bit_iff take_bit_nat_eq_self)

lemma bit_int_small: "0 \<le> u \<Longrightarrow> u < 2 ^ n \<Longrightarrow> bit (u :: int) k \<Longrightarrow> k < n"
  by (metis bit_take_bit_iff take_bit_int_eq_self)

lemma unat_u8_less: "unat (c :: u8) < 256"
  using unsigned_less [of c] by simp

section \<open>Byte loops\<close>

text \<open>
  \<open>while (input < last) state = step(*input++, state, &buffer);\<close> is \<open>feed\<close>: the state
  is threaded through, what each step appends to the buffer is concatenated.
\<close>

fun feed :: "('s \<Rightarrow> 'a \<Rightarrow> 's \<times> 'b list) \<Rightarrow> 's \<Rightarrow> 'a list \<Rightarrow> 's \<times> 'b list" where
  "feed step s [] = (s, [])"
| "feed step s (x # xs) =
     (let (s', out) = step s x; (s'', out') = feed step s' xs in (s'', out @ out'))"

lemma feed_append:
  "feed step s (xs @ ys) =
     (let (s', out) = feed step s xs; (s'', out') = feed step s' ys in (s'', out @ out'))"
  by (induction xs arbitrary: s) (auto simp: case_prod_beta Let_def)

lemma feed_appendI:
  "feed step s xs = (s', out) \<Longrightarrow> feed step s' ys = (s'', out') \<Longrightarrow>
   feed step s (xs @ ys) = (s'', out @ out')"
  by (simp add: feed_append)

lemma snd_feed_Cons: "snd (feed step s (x # xs)) = snd (step s x) @ snd (feed step (fst (step s x)) xs)"
  by (simp add: case_prod_beta Let_def)

lemma feed_invariant:
  assumes "feed step s xs = (s', out)" and "I s"
    and "\<And>s x s' out. I s \<Longrightarrow> step s x = (s', out) \<Longrightarrow> I s'"
  shows "I s'"
  using assms(1,2)
proof (induction xs arbitrary: s out)
  case Nil
  then show ?case by simp
next
  case (Cons x xs)
  obtain s1 o1 where st: "step s x = (s1, o1)" by (cases "step s x")
  with assms(3) Cons.prems(2) have "I s1" by blast
  moreover obtain o2 where "feed step s1 xs = (s', o2)"
    using Cons.prems(1) st by (auto simp: case_prod_beta Let_def prod_eq_iff)
  ultimately show ?case using Cons.IH by blast
qed

section \<open>A streaming codec\<close>

text \<open>
  The contract between an incremental encoder and its decoder: \<open>pending s\<close> are the bytes
  the encoder has accepted and not yet written. Each encoder step writes a piece that takes
  the decoder from its idle state back to its idle state and yields the bytes that stopped
  being pending; the final flush yields the rest.
\<close>

locale stream_codec =
  fixes enc :: "'s \<Rightarrow> 'a \<Rightarrow> 's \<times> 'b list"
    and flush :: "'s \<Rightarrow> 'b list"
    and dec :: "'d \<Rightarrow> 'b \<Rightarrow> 'd \<times> 'a list"
    and idle :: "'d"
    and pending :: "'s \<Rightarrow> 'a list"
    and ok :: "'s \<Rightarrow> bool"
  assumes enc_ok: "ok s \<Longrightarrow> enc s x = (s', out) \<Longrightarrow> ok s'"
    and enc_dec: "ok s \<Longrightarrow> enc s x = (s', out) \<Longrightarrow>
          \<exists>ys. feed dec idle out = (idle, ys) \<and> pending s @ [x] = ys @ pending s'"
    and flush_dec: "ok s \<Longrightarrow> feed dec idle (flush s) = (idle, pending s)"
begin

lemma feed_ok: "ok s \<Longrightarrow> feed enc s xs = (s', out) \<Longrightarrow> ok s'"
  by (rule feed_invariant [where I = ok]) (auto intro: enc_ok)

lemma feed_dec:
  "ok s \<Longrightarrow> feed enc s xs = (s', out) \<Longrightarrow>
   \<exists>ys. feed dec idle out = (idle, ys) \<and> pending s @ xs = ys @ pending s'"
proof (induction xs arbitrary: s out)
  case Nil
  then show ?case by simp
next
  case (Cons x xs)
  obtain s1 o1 where st: "enc s x = (s1, o1)" by (cases "enc s x")
  obtain o2 where fd: "feed enc s1 xs = (s', o2)" and out: "out = o1 @ o2"
    using Cons.prems(2) st by (auto simp: case_prod_beta Let_def prod_eq_iff)
  obtain y1 where y1: "feed dec idle o1 = (idle, y1)" "pending s @ [x] = y1 @ pending s1"
    using enc_dec [OF Cons.prems(1) st] by blast
  obtain y2 where y2: "feed dec idle o2 = (idle, y2)" "pending s1 @ xs = y2 @ pending s'"
    using Cons.IH [OF enc_ok [OF Cons.prems(1) st] fd] by blast
  have "pending s @ x # xs = (y1 @ y2) @ pending s'"
    using y1(2) y2(2) by (metis append.assoc append_Cons append_Nil)
  then show ?case using feed_appendI [OF y1(1) y2(1)] out by blast
qed

lemma round_trip:
  assumes "ok s" and "feed enc s xs = (s', out)"
  shows "feed dec idle (out @ flush s') = (idle, pending s @ xs)"
proof -
  obtain ys where "feed dec idle out = (idle, ys)" "pending s @ xs = ys @ pending s'"
    using feed_dec [OF assms] by blast
  then show ?thesis
    using feed_appendI flush_dec [OF feed_ok [OF assms]] by metis
qed

end

end
