(* ===== verification/Opcodes.thy ===== *)
theory Opcodes
  imports Prelude
begin

text \<open>
  \<open>lopcodes.h\<close> and \<open>lopcodes.c\<close>: the 32-bit instruction word, its fields, the macros
  that read and write them, and the table of instruction properties.
\<close>

unbundle bit_operations_syntax

type_synonym instruction = u32

section \<open>The opcodes\<close>

datatype OpCode =
    OP_MOVE | OP_LOADK | OP_LOADBOOL | OP_LOADNIL | OP_GETUPVAL | OP_GETGLOBAL | OP_GETTABLE
  | OP_SETGLOBAL | OP_SETUPVAL | OP_SETTABLE | OP_NEWTABLE | OP_SELF | OP_ADD | OP_SUB
  | OP_MUL | OP_DIV | OP_MOD | OP_POW | OP_UNM | OP_NOT | OP_LEN | OP_CONCAT | OP_JMP
  | OP_EQ | OP_LT | OP_LE | OP_TEST | OP_TESTSET | OP_CALL | OP_TAILCALL | OP_RETURN
  | OP_FORLOOP | OP_FORPREP | OP_TFORLOOP | OP_SETLIST | OP_CLOSE | OP_CLOSURE | OP_VARARG

text \<open>The enumeration in its order; \<open>op_num\<close> is the conversion of the enum to an integer.\<close>

definition opcodes :: "OpCode list" where
  "opcodes =
    [OP_MOVE, OP_LOADK, OP_LOADBOOL, OP_LOADNIL, OP_GETUPVAL, OP_GETGLOBAL, OP_GETTABLE,
     OP_SETGLOBAL, OP_SETUPVAL, OP_SETTABLE, OP_NEWTABLE, OP_SELF, OP_ADD, OP_SUB,
     OP_MUL, OP_DIV, OP_MOD, OP_POW, OP_UNM, OP_NOT, OP_LEN, OP_CONCAT, OP_JMP,
     OP_EQ, OP_LT, OP_LE, OP_TEST, OP_TESTSET, OP_CALL, OP_TAILCALL, OP_RETURN,
     OP_FORLOOP, OP_FORPREP, OP_TFORLOOP, OP_SETLIST, OP_CLOSE, OP_CLOSURE, OP_VARARG]"

definition NUM_OPCODES :: nat where
  "NUM_OPCODES = length opcodes"

fun op_num :: "OpCode \<Rightarrow> nat" where
  "op_num OP_MOVE = 0" | "op_num OP_LOADK = 1" | "op_num OP_LOADBOOL = 2"
| "op_num OP_LOADNIL = 3" | "op_num OP_GETUPVAL = 4" | "op_num OP_GETGLOBAL = 5"
| "op_num OP_GETTABLE = 6" | "op_num OP_SETGLOBAL = 7" | "op_num OP_SETUPVAL = 8"
| "op_num OP_SETTABLE = 9" | "op_num OP_NEWTABLE = 10" | "op_num OP_SELF = 11"
| "op_num OP_ADD = 12" | "op_num OP_SUB = 13" | "op_num OP_MUL = 14" | "op_num OP_DIV = 15"
| "op_num OP_MOD = 16" | "op_num OP_POW = 17" | "op_num OP_UNM = 18" | "op_num OP_NOT = 19"
| "op_num OP_LEN = 20" | "op_num OP_CONCAT = 21" | "op_num OP_JMP = 22" | "op_num OP_EQ = 23"
| "op_num OP_LT = 24" | "op_num OP_LE = 25" | "op_num OP_TEST = 26"
| "op_num OP_TESTSET = 27" | "op_num OP_CALL = 28" | "op_num OP_TAILCALL = 29"
| "op_num OP_RETURN = 30" | "op_num OP_FORLOOP = 31" | "op_num OP_FORPREP = 32"
| "op_num OP_TFORLOOP = 33" | "op_num OP_SETLIST = 34" | "op_num OP_CLOSE = 35"
| "op_num OP_CLOSURE = 36" | "op_num OP_VARARG = 37"

text \<open>The conversion back, defined only for the numbers of the enumeration.\<close>

definition op_of_num :: "nat \<Rightarrow> OpCode option" where
  "op_of_num n = (if n < NUM_OPCODES then Some (opcodes ! n) else None)"

lemma NUM_OPCODES_eq [simp]: "NUM_OPCODES = 38"
  by (simp add: NUM_OPCODES_def opcodes_def)

lemma op_num_less: "op_num c < NUM_OPCODES"
  by (cases c) simp_all

lemma op_of_num_op_num [simp]: "op_of_num (op_num c) = Some c"
  by (cases c) (simp_all add: op_of_num_def opcodes_def)

section \<open>Sizes and positions of the arguments\<close>

abbreviation SIZE_C :: nat where "SIZE_C \<equiv> 9"
abbreviation SIZE_B :: nat where "SIZE_B \<equiv> 9"
abbreviation SIZE_Bx :: nat where "SIZE_Bx \<equiv> SIZE_C + SIZE_B"
abbreviation SIZE_A :: nat where "SIZE_A \<equiv> 8"
abbreviation SIZE_OP :: nat where "SIZE_OP \<equiv> 6"
abbreviation POS_OP :: nat where "POS_OP \<equiv> 0"
abbreviation POS_A :: nat where "POS_A \<equiv> POS_OP + SIZE_OP"
abbreviation POS_C :: nat where "POS_C \<equiv> POS_A + SIZE_A"
abbreviation POS_B :: nat where "POS_B \<equiv> POS_C + SIZE_C"
abbreviation POS_Bx :: nat where "POS_Bx \<equiv> POS_C"

definition MAXARG_Bx :: int where "MAXARG_Bx = push_bit SIZE_Bx 1 - 1"
definition MAXARG_sBx :: int where "MAXARG_sBx = drop_bit 1 MAXARG_Bx"
definition MAXARG_A :: int where "MAXARG_A = push_bit SIZE_A 1 - 1"
definition MAXARG_B :: int where "MAXARG_B = push_bit SIZE_B 1 - 1"
definition MAXARG_C :: int where "MAXARG_C = push_bit SIZE_C 1 - 1"

definition MASK1 :: "nat \<Rightarrow> nat \<Rightarrow> instruction" where
  "MASK1 n p = push_bit p (NOT (push_bit n (NOT 0)))"

definition MASK0 :: "nat \<Rightarrow> nat \<Rightarrow> instruction" where
  "MASK0 n p = NOT (MASK1 n p)"

lemma MAXARG_eq [layout_simps]:
  "MAXARG_Bx = 262143" "MAXARG_sBx = 131071" "MAXARG_A = 255" "MAXARG_B = 511" "MAXARG_C = 511"
  by (simp_all add: MAXARG_Bx_def MAXARG_sBx_def MAXARG_A_def MAXARG_B_def MAXARG_C_def
      push_bit_eq_mult drop_bit_eq_div)

section \<open>The field macros\<close>

text \<open>
  \<open>cast(int, ...)\<close> of a field is its unsigned value, \<open>cast(Instruction, u)\<close> of an
  \<open>int\<close> the value modulo \<open>2^32\<close>.
\<close>

definition GET_OPCODE :: "instruction \<Rightarrow> nat" where
  "GET_OPCODE i = unat (drop_bit POS_OP i AND MASK1 SIZE_OP 0)"

definition SET_OPCODE :: "instruction \<Rightarrow> OpCode \<Rightarrow> instruction" where
  "SET_OPCODE i c =
     (i AND MASK0 SIZE_OP POS_OP) OR (push_bit POS_OP (of_nat (op_num c)) AND MASK1 SIZE_OP POS_OP)"

definition GETARG_A :: "instruction \<Rightarrow> int" where
  "GETARG_A i = uint (drop_bit POS_A i AND MASK1 SIZE_A 0)"

definition SETARG_A :: "instruction \<Rightarrow> int \<Rightarrow> instruction" where
  "SETARG_A i u =
     (i AND MASK0 SIZE_A POS_A) OR (push_bit POS_A (word_of_int u) AND MASK1 SIZE_A POS_A)"

definition GETARG_B :: "instruction \<Rightarrow> int" where
  "GETARG_B i = uint (drop_bit POS_B i AND MASK1 SIZE_B 0)"

definition SETARG_B :: "instruction \<Rightarrow> int \<Rightarrow> instruction" where
  "SETARG_B i b =
     (i AND MASK0 SIZE_B POS_B) OR (push_bit POS_B (word_of_int b) AND MASK1 SIZE_B POS_B)"

definition GETARG_C :: "instruction \<Rightarrow> int" where
  "GETARG_C i = uint (drop_bit POS_C i AND MASK1 SIZE_C 0)"

definition SETARG_C :: "instruction \<Rightarrow> int \<Rightarrow> instruction" where
  "SETARG_C i b =
     (i AND MASK0 SIZE_C POS_C) OR (push_bit POS_C (word_of_int b) AND MASK1 SIZE_C POS_C)"

definition GETARG_Bx :: "instruction \<Rightarrow> int" where
  "GETARG_Bx i = uint (drop_bit POS_Bx i AND MASK1 SIZE_Bx 0)"

definition SETARG_Bx :: "instruction \<Rightarrow> int \<Rightarrow> instruction" where
  "SETARG_Bx i b =
     (i AND MASK0 SIZE_Bx POS_Bx) OR (push_bit POS_Bx (word_of_int b) AND MASK1 SIZE_Bx POS_Bx)"

definition GETARG_sBx :: "instruction \<Rightarrow> int" where
  "GETARG_sBx i = GETARG_Bx i - MAXARG_sBx"

definition SETARG_sBx :: "instruction \<Rightarrow> int \<Rightarrow> instruction" where
  "SETARG_sBx i b = SETARG_Bx i (uint (word_of_int (b + MAXARG_sBx) :: u32))"

definition CREATE_ABC :: "OpCode \<Rightarrow> int \<Rightarrow> int \<Rightarrow> int \<Rightarrow> instruction" where
  "CREATE_ABC c a b cc =
     push_bit POS_OP (of_nat (op_num c)) OR push_bit POS_A (word_of_int a)
     OR push_bit POS_B (word_of_int b) OR push_bit POS_C (word_of_int cc)"

definition CREATE_ABx :: "OpCode \<Rightarrow> int \<Rightarrow> int \<Rightarrow> instruction" where
  "CREATE_ABx c a bc =
     push_bit POS_OP (of_nat (op_num c)) OR push_bit POS_A (word_of_int a)
     OR push_bit POS_Bx (word_of_int bc)"

section \<open>Reading and writing fields\<close>

lemma bit_MASK1: "bit (MASK1 n p) k \<longleftrightarrow> p \<le> k \<and> k < n + p \<and> k < 32"
  by (auto simp: MASK1_def bit_simps)

lemma bit_MASK0: "bit (MASK0 n p) k \<longleftrightarrow> k < 32 \<and> \<not> (p \<le> k \<and> k < n + p)"
  by (auto simp: MASK0_def bit_simps bit_MASK1)

lemma get_field: "drop_bit p i AND MASK1 n 0 = take_bit n (drop_bit p i)"
  by (rule bit_word_eqI) (auto simp: bit_simps bit_MASK1)


text \<open>
  The two laws of a field macro: a field just written reads back as the low bits of what was
  written, and a field that does not overlap the written one is unchanged.
\<close>

lemma get_set_same:
  "p + n \<le> 32 \<Longrightarrow>
   drop_bit p ((i AND MASK0 n p) OR (push_bit p v AND MASK1 n p)) AND MASK1 n 0 = take_bit n v"
  by (rule bit_word_eqI) (auto simp: bit_simps bit_MASK1 bit_MASK0)

lemma get_set_other:
  "p + n \<le> q \<or> q + m \<le> p \<Longrightarrow>
   drop_bit q ((i AND MASK0 n p) OR (push_bit p v AND MASK1 n p)) AND MASK1 m 0
     = drop_bit q i AND MASK1 m 0"
  by (rule bit_word_eqI) (auto simp: bit_simps bit_MASK1 bit_MASK0 dest: bit_imp_le_length)

lemma uint_take_bit_word_of_int:
  "n \<le> 32 \<Longrightarrow> uint (take_bit n (word_of_int u) :: u32) = u mod 2 ^ n"
  by (simp add: unsigned_take_bit_eq uint_word_of_int_eq flip: take_bit_eq_mod)

lemma unat_take_bit_op_num: "unat (take_bit 6 (of_nat (op_num c)) :: u32) = op_num c"
  by (cases c) (simp_all add: unsigned_take_bit_eq take_bit_eq_mod)

lemmas field_defs =
  GET_OPCODE_def SET_OPCODE_def GETARG_A_def SETARG_A_def GETARG_B_def SETARG_B_def
  GETARG_C_def SETARG_C_def GETARG_Bx_def SETARG_Bx_def

lemma get_set_A: "GETARG_A (SETARG_A i u) = u mod 256"
  using get_set_same [of 6 8 i "word_of_int u"]
  by (simp add: field_defs uint_take_bit_word_of_int)

lemma get_set_B: "GETARG_B (SETARG_B i u) = u mod 512"
  using get_set_same [of 23 9 i "word_of_int u"]
  by (simp add: field_defs uint_take_bit_word_of_int)

lemma get_set_C: "GETARG_C (SETARG_C i u) = u mod 512"
  using get_set_same [of 14 9 i "word_of_int u"]
  by (simp add: field_defs uint_take_bit_word_of_int)

lemma get_set_Bx: "GETARG_Bx (SETARG_Bx i u) = u mod 262144"
  using get_set_same [of 14 18 i "word_of_int u"]
  by (simp add: field_defs uint_take_bit_word_of_int)

lemma get_set_OP: "GET_OPCODE (SET_OPCODE i c) = op_num c"
  using get_set_same [of 0 6 i "of_nat (op_num c)"]
  by (simp add: field_defs unat_take_bit_op_num)

lemma get_set_frame:
  "GETARG_A (SET_OPCODE i c) = GETARG_A i" "GETARG_B (SET_OPCODE i c) = GETARG_B i"
  "GETARG_C (SET_OPCODE i c) = GETARG_C i" "GET_OPCODE (SETARG_A i u) = GET_OPCODE i"
  "GETARG_B (SETARG_A i u) = GETARG_B i" "GETARG_C (SETARG_A i u) = GETARG_C i"
  "GET_OPCODE (SETARG_B i u) = GET_OPCODE i" "GETARG_A (SETARG_B i u) = GETARG_A i"
  "GETARG_C (SETARG_B i u) = GETARG_C i" "GET_OPCODE (SETARG_C i u) = GET_OPCODE i"
  "GETARG_A (SETARG_C i u) = GETARG_A i" "GETARG_B (SETARG_C i u) = GETARG_B i"
  "GET_OPCODE (SETARG_Bx i u) = GET_OPCODE i" "GETARG_A (SETARG_Bx i u) = GETARG_A i"
  "GETARG_Bx (SETARG_A i u) = GETARG_Bx i" "GETARG_Bx (SET_OPCODE i c) = GETARG_Bx i"
  unfolding field_defs by (subst get_set_other, simp, rule refl)+

section \<open>Whole instructions\<close>

lemma bit_op_num: "bit (op_num c) k \<Longrightarrow> k < 6"
  by (rule bit_nat_small [of "op_num c"]) (use op_num_less [of c] in simp)

lemma uint_small_word_of_int:
  "0 \<le> u \<Longrightarrow> u < 2 ^ n \<Longrightarrow> n \<le> 32 \<Longrightarrow> uint (take_bit n (word_of_int u) :: u32) = u"
  by (simp add: uint_take_bit_word_of_int)

lemma fields_CREATE_ABC:
  assumes "0 \<le> a" "a < 256" "0 \<le> b" "b < 512" "0 \<le> cc" "cc < 512"
  shows "GET_OPCODE (CREATE_ABC c a b cc) = op_num c" "GETARG_A (CREATE_ABC c a b cc) = a"
    "GETARG_B (CREATE_ABC c a b cc) = b" "GETARG_C (CREATE_ABC c a b cc) = cc"
proof -
  note bits = bit_op_num bit_int_small [of a 8] bit_int_small [of b 9] bit_int_small [of cc 9]
  let ?i = "CREATE_ABC c a b cc"
  have "drop_bit 0 ?i AND MASK1 6 0 = take_bit 6 (of_nat (op_num c))"
    by (rule bit_word_eqI) (auto simp: CREATE_ABC_def bit_simps bit_MASK1)
  then show "GET_OPCODE ?i = op_num c"
    by (simp add: field_defs unat_take_bit_op_num)
  have "drop_bit 6 ?i AND MASK1 8 0 = take_bit 8 (word_of_int a)"
    by (rule bit_word_eqI)
      (use assms in \<open>auto simp: CREATE_ABC_def bit_simps bit_MASK1 dest: bits\<close>)
  then show "GETARG_A ?i = a" using assms uint_small_word_of_int [of a 8]
    by (simp add: field_defs)
  have "drop_bit 23 ?i AND MASK1 9 0 = take_bit 9 (word_of_int b)"
    by (rule bit_word_eqI)
      (use assms in \<open>auto simp: CREATE_ABC_def bit_simps bit_MASK1 dest: bits\<close>)
  then show "GETARG_B ?i = b" using assms uint_small_word_of_int [of b 9]
    by (simp add: field_defs)
  have "drop_bit 14 ?i AND MASK1 9 0 = take_bit 9 (word_of_int cc)"
    by (rule bit_word_eqI)
      (use assms in \<open>auto simp: CREATE_ABC_def bit_simps bit_MASK1 dest: bits\<close>)
  then show "GETARG_C ?i = cc" using assms uint_small_word_of_int [of cc 9]
    by (simp add: field_defs)
qed


text \<open>Every bit of a word belongs to one of the four fields of the \<open>iABC\<close> format.\<close>

lemma word_of_fields:
  "push_bit 0 (drop_bit 0 i AND MASK1 6 0) OR push_bit 6 (drop_bit 6 i AND MASK1 8 0)
   OR push_bit 23 (drop_bit 23 i AND MASK1 9 0) OR push_bit 14 (drop_bit 14 i AND MASK1 9 0) = i"
proof (rule bit_word_eqI)
  fix k
  assume "k < LENGTH(32)"
  then consider "k < 6" | "6 \<le> k" "k < 14" | "14 \<le> k" "k < 23" | "23 \<le> k" "k < 32"
    by fastforce
  then show "bit (push_bit 0 (drop_bit 0 i AND MASK1 6 0) OR push_bit 6 (drop_bit 6 i AND MASK1 8 0)
     OR push_bit 23 (drop_bit 23 i AND MASK1 9 0) OR push_bit 14 (drop_bit 14 i AND MASK1 9 0)) k
     = bit i k"
    by cases (auto simp: bit_simps bit_MASK1)
qed

lemma op_of_num_Some: "op_of_num n = Some c \<Longrightarrow> op_num c = n"
proof -
  assume a: "op_of_num n = Some c"
  then have n: "n < 38" "c = opcodes ! n" by (auto simp: op_of_num_def split: if_splits)
  have "map op_num opcodes = [0..<38]" by (simp add: opcodes_def upt_rec)
  then have "map op_num opcodes ! n = [0..<38] ! n" by simp
  moreover have "length opcodes = 38" by (simp add: opcodes_def)
  ultimately show ?thesis using n by simp
qed

text \<open>
  Encoding then decoding: for operands that fit their fields, the four getters
  applied to \<open>CREATE_ABC\<close> return the opcode and the operands it was built from.
\<close>

theorem CREATE_ABC_decodes:
  assumes "0 \<le> a" "a \<le> MAXARG_A" "0 \<le> b" "b \<le> MAXARG_B" "0 \<le> cc" "cc \<le> MAXARG_C"
  shows "op_of_num (GET_OPCODE (CREATE_ABC c a b cc)) = Some c
    \<and> GETARG_A (CREATE_ABC c a b cc) = a \<and> GETARG_B (CREATE_ABC c a b cc) = b
    \<and> GETARG_C (CREATE_ABC c a b cc) = cc"
  using assms by (simp add: fields_CREATE_ABC layout_simps)

theorem CREATE_ABC_decodes_witness:
  "op_of_num (GET_OPCODE (CREATE_ABC OP_ADD 3 257 511)) = Some OP_ADD
    \<and> GETARG_A (CREATE_ABC OP_ADD 3 257 511) = 3 \<and> GETARG_B (CREATE_ABC OP_ADD 3 257 511) = 257
    \<and> GETARG_C (CREATE_ABC OP_ADD 3 257 511) = 511"
  by (rule CREATE_ABC_decodes) (simp_all add: layout_simps)

text \<open>
  Decoding then encoding: a 32-bit word whose opcode field is a member of the
  enumeration is rebuilt exactly by \<open>CREATE_ABC\<close> from its decoded fields, so no bit of an
  instruction lies outside the fields.
\<close>

theorem CREATE_ABC_rebuilds:
  assumes "op_of_num (GET_OPCODE i) = Some c"
  shows "CREATE_ABC c (GETARG_A i) (GETARG_B i) (GETARG_C i) = i"
proof -
  have "of_nat (op_num c) = drop_bit 0 i AND MASK1 6 0"
    using op_of_num_Some [OF assms] by (simp add: GET_OPCODE_def)
  then show ?thesis
    using word_of_fields [of i] by (simp add: CREATE_ABC_def field_defs)
qed

theorem CREATE_ABC_rebuilds_witness:
  "CREATE_ABC OP_CLOSE (GETARG_A 0xDEADBEE3) (GETARG_B 0xDEADBEE3) (GETARG_C 0xDEADBEE3) = 0xDEADBEE3"
proof -
  have "GET_OPCODE 0xDEADBEE3 = 35"
    unfolding GET_OPCODE_def get_field by simp
  then have "op_of_num (GET_OPCODE 0xDEADBEE3) = Some OP_CLOSE"
    by (simp add: op_of_num_def opcodes_def)
  then show ?thesis by (rule CREATE_ABC_rebuilds)
qed

section \<open>Signed jump offsets and constant operands\<close>

text \<open>\<open>sBx\<close> is stored in excess \<open>MAXARG_sBx\<close>.\<close>

lemma GETARG_Bx_range: "0 \<le> GETARG_Bx i \<and> GETARG_Bx i \<le> MAXARG_Bx"
proof -
  have "GETARG_Bx i = uint (take_bit 18 (drop_bit 14 i))"
    by (simp add: GETARG_Bx_def get_field)
  also have "\<dots> < 2 ^ 18"
    unfolding unsigned_take_bit_eq by (rule take_bit_int_less_exp)
  finally show ?thesis
    by (simp add: layout_simps GETARG_Bx_def)
qed

lemma GETARG_sBx_range: "- MAXARG_sBx \<le> GETARG_sBx i \<and> GETARG_sBx i \<le> MAXARG_sBx + 1"
  using GETARG_Bx_range [of i] by (simp add: GETARG_sBx_def layout_simps)

text \<open>
  A jump offset between \<open>-MAXARG_sBx\<close> and \<open>MAXARG_sBx + 1\<close> written into an
  instruction reads back as itself, and the write leaves the opcode and the register field
  as they were.
\<close>

theorem SETARG_sBx_roundtrip:
  assumes "- MAXARG_sBx \<le> b" "b \<le> MAXARG_sBx + 1"
  shows "GETARG_sBx (SETARG_sBx i b) = b \<and> GET_OPCODE (SETARG_sBx i b) = GET_OPCODE i
    \<and> GETARG_A (SETARG_sBx i b) = GETARG_A i"
proof -
  have "uint (word_of_int (b + MAXARG_sBx) :: u32) = b + MAXARG_sBx"
    unfolding uint_word_of_int using assms by (simp add: layout_simps)
  moreover have "(b + MAXARG_sBx) mod 262144 = b + MAXARG_sBx"
    using assms by (simp add: layout_simps)
  ultimately show ?thesis
    by (simp add: GETARG_sBx_def SETARG_sBx_def get_set_Bx get_set_frame)
qed

theorem SETARG_sBx_roundtrip_witness:
  "GETARG_sBx (SETARG_sBx 22 (- 5)) = - 5 \<and> GET_OPCODE (SETARG_sBx 22 (- 5)) = GET_OPCODE 22
    \<and> GETARG_A (SETARG_sBx 22 (- 5)) = GETARG_A 22"
  by (rule SETARG_sBx_roundtrip) (simp_all add: layout_simps)

definition BITRK :: int where "BITRK = push_bit (SIZE_B - 1) 1"
definition ISK :: "int \<Rightarrow> bool" where "ISK x = (x AND BITRK \<noteq> 0)"
definition INDEXK :: "int \<Rightarrow> int" where "INDEXK r = r AND NOT BITRK"
definition MAXINDEXRK :: int where "MAXINDEXRK = BITRK - 1"
definition RKASK :: "int \<Rightarrow> int" where "RKASK x = x OR BITRK"
definition NO_REG :: int where "NO_REG = MAXARG_A"

lemma BITRK_eq [layout_simps]: "BITRK = 256" "MAXINDEXRK = 255"
  by (simp_all add: BITRK_def MAXINDEXRK_def push_bit_eq_mult)

lemma bit_BITRK: "bit BITRK k \<longleftrightarrow> k = 8"
  unfolding BITRK_def by (auto simp only: bit_push_bit_iff bit_1_iff) simp

lemma ISK_bit: "ISK x \<longleftrightarrow> bit x 8"
proof -
  have "x AND BITRK = (if bit x 8 then BITRK else 0)"
    by (rule bit_eqI) (auto simp: bit_simps bit_BITRK)
  then show ?thesis by (simp add: ISK_def layout_simps)
qed

lemma RK_roundtrip:
  assumes "0 \<le> x" "x \<le> MAXINDEXRK"
  shows "ISK (RKASK x)" "INDEXK (RKASK x) = x" "\<not> ISK x"
proof -
  have b: "bit x k \<Longrightarrow> k < 8" for k
    using assms by (intro bit_int_small [of x 8]) (simp_all add: layout_simps)
  show "ISK (RKASK x)" by (simp add: ISK_bit RKASK_def bit_simps bit_BITRK)
  show "INDEXK (RKASK x) = x"
    by (rule bit_eqI) (auto simp: INDEXK_def RKASK_def bit_simps bit_BITRK dest: b)
  show "\<not> ISK x" using b [of 8] by (auto simp: ISK_bit)
qed

section \<open>Instruction properties\<close>

datatype OpMode = iABC | iABx | iAsBx
datatype OpArgMask = OpArgN | OpArgU | OpArgR | OpArgK

fun opmode_num :: "OpMode \<Rightarrow> u8" where
  "opmode_num iABC = 0" | "opmode_num iABx = 1" | "opmode_num iAsBx = 2"

fun argmask_num :: "OpArgMask \<Rightarrow> u8" where
  "argmask_num OpArgN = 0" | "argmask_num OpArgU = 1" | "argmask_num OpArgR = 2"
| "argmask_num OpArgK = 3"

definition opmode :: "u8 \<Rightarrow> u8 \<Rightarrow> OpArgMask \<Rightarrow> OpArgMask \<Rightarrow> OpMode \<Rightarrow> u8" where
  "opmode t a b c m =
     push_bit 7 t OR push_bit 6 a OR push_bit 4 (argmask_num b) OR push_bit 2 (argmask_num c)
     OR opmode_num m"

definition luaP_opmodes :: "u8 list" where
  "luaP_opmodes =
    [opmode 0 1 OpArgR OpArgN iABC, opmode 0 1 OpArgK OpArgN iABx, opmode 0 1 OpArgU OpArgU iABC,
     opmode 0 1 OpArgR OpArgN iABC, opmode 0 1 OpArgU OpArgN iABC, opmode 0 1 OpArgK OpArgN iABx,
     opmode 0 1 OpArgR OpArgK iABC, opmode 0 0 OpArgK OpArgN iABx, opmode 0 0 OpArgU OpArgN iABC,
     opmode 0 0 OpArgK OpArgK iABC, opmode 0 1 OpArgU OpArgU iABC, opmode 0 1 OpArgR OpArgK iABC,
     opmode 0 1 OpArgK OpArgK iABC, opmode 0 1 OpArgK OpArgK iABC, opmode 0 1 OpArgK OpArgK iABC,
     opmode 0 1 OpArgK OpArgK iABC, opmode 0 1 OpArgK OpArgK iABC, opmode 0 1 OpArgK OpArgK iABC,
     opmode 0 1 OpArgR OpArgN iABC, opmode 0 1 OpArgR OpArgN iABC, opmode 0 1 OpArgR OpArgN iABC,
     opmode 0 1 OpArgR OpArgR iABC, opmode 0 0 OpArgR OpArgN iAsBx, opmode 1 0 OpArgK OpArgK iABC,
     opmode 1 0 OpArgK OpArgK iABC, opmode 1 0 OpArgK OpArgK iABC, opmode 1 1 OpArgR OpArgU iABC,
     opmode 1 1 OpArgR OpArgU iABC, opmode 0 1 OpArgU OpArgU iABC, opmode 0 1 OpArgU OpArgU iABC,
     opmode 0 0 OpArgU OpArgN iABC, opmode 0 1 OpArgR OpArgN iAsBx, opmode 0 1 OpArgR OpArgN iAsBx,
     opmode 1 0 OpArgN OpArgU iABC, opmode 0 0 OpArgU OpArgU iABC, opmode 0 0 OpArgN OpArgN iABC,
     opmode 0 1 OpArgU OpArgN iABx, opmode 0 1 OpArgU OpArgN iABC]"

definition num_opmode :: "u8 \<Rightarrow> OpMode option" where
  "num_opmode w = (if w = 0 then Some iABC else if w = 1 then Some iABx
     else if w = 2 then Some iAsBx else None)"

definition num_argmask :: "u8 \<Rightarrow> OpArgMask" where
  "num_argmask w = (if w = 0 then OpArgN else if w = 1 then OpArgU
     else if w = 2 then OpArgR else OpArgK)"

definition getOpMode :: "OpCode \<Rightarrow> OpMode option" where
  "getOpMode m = num_opmode (luaP_opmodes ! op_num m AND 3)"

definition getBMode :: "OpCode \<Rightarrow> OpArgMask" where
  "getBMode m = num_argmask (drop_bit 4 (luaP_opmodes ! op_num m) AND 3)"

definition getCMode :: "OpCode \<Rightarrow> OpArgMask" where
  "getCMode m = num_argmask (drop_bit 2 (luaP_opmodes ! op_num m) AND 3)"

definition testAMode :: "OpCode \<Rightarrow> bool" where
  "testAMode m = (luaP_opmodes ! op_num m AND push_bit 6 1 \<noteq> 0)"

definition testTMode :: "OpCode \<Rightarrow> bool" where
  "testTMode m = (luaP_opmodes ! op_num m AND push_bit 7 1 \<noteq> 0)"

definition LFIELDS_PER_FLUSH :: int where "LFIELDS_PER_FLUSH = 50"

lemma luaP_opmodes_eval:
  "luaP_opmodes =
    [96, 113, 84, 96, 80, 113, 108, 49, 16, 60, 84, 108, 124, 124, 124, 124, 124, 124, 96, 96, 96, 104, 34, 188, 188, 188, 228, 228, 84, 84, 16, 98, 98, 132, 20, 0, 81, 80]"
  by (simp add: luaP_opmodes_def opmode_def)

lemmas opmode_table = luaP_opmodes_eval getOpMode_def getBMode_def getCMode_def testAMode_def
  testTMode_def num_opmode_def num_argmask_def

lemma getOpMode_total: "\<exists>m. getOpMode c = Some m"
  by (cases c) (simp_all add: opmode_table)

lemma getOpMode_iAsBx: "getOpMode c = Some iAsBx \<longleftrightarrow> c \<in> {OP_JMP, OP_FORLOOP, OP_FORPREP}"
  by (cases c) (simp_all add: opmode_table)

lemma testTMode_iff:
  "testTMode c \<longleftrightarrow> c \<in> {OP_EQ, OP_LT, OP_LE, OP_TEST, OP_TESTSET, OP_TFORLOOP}"
  by (cases c) (simp_all add: opmode_table)

end
