(* ===== verification/Objects.thy ===== *)
theory Objects
  imports Prelude
begin

text \<open>
  The arithmetic and text helpers of \<open>lobject.c\<close>: the floating point byte that encodes
  the size hints of a table constructor, the integer logarithm behind the sizes of hash
  parts, and the display name of a chunk.
\<close>

unbundle bit_operations_syntax

section \<open>Floating point bytes\<close>

text \<open>The loop of \<open>luaO_int2fb\<close>; \<open>x + 1\<close> wraps, as on \<open>unsigned int\<close>.\<close>

function int2fb_loop :: "u32 \<Rightarrow> nat \<Rightarrow> u32 \<times> nat" where
  "int2fb_loop x e = (if 16 \<le> x then int2fb_loop (drop_bit 1 (x + 1)) (e + 1) else (x, e))"
  by pat_completeness auto
termination
proof (relation "measure (\<lambda>(x, e). unat x)")
  fix x :: u32 and e :: nat
  assume "16 \<le> x"
  then have "16 \<le> unat x" by (simp add: word_le_nat_alt)
  moreover have "unat (x + 1) \<le> unat x + 1"
    by (simp add: unat_word_ariths)
  ultimately have "unat (x + 1) div 2 < unat x" by simp
  then show "((drop_bit 1 (x + 1), e + 1), x, e) \<in> measure (\<lambda>(x, e). unat x)"
    unfolding in_measure prod.case unat_drop_bit_eq by (simp add: drop_bit_eq_div)
qed simp

declare int2fb_loop.simps [simp del]

definition luaO_int2fb :: "u32 \<Rightarrow> int" where
  "luaO_int2fb x =
     (let (x, e) = int2fb_loop x 0
      in if x < 8 then uint x else push_bit 3 (int e + 1) OR (uint x - 8))"

definition luaO_fb2int :: "int \<Rightarrow> int" where
  "luaO_fb2int x =
     (let e = drop_bit 3 x AND 31
      in if e = 0 then x else signed_take_bit 31 (push_bit (nat (e - 1)) ((x AND 7) + 8)))"

lemma int2fb_loop_bounds:
  assumes "int2fb_loop x e = (x', e')" "unat x < 2 ^ 31"
  shows "e \<le> e' \<and> x' < 16 \<and> unat x \<le> unat x' * 2 ^ (e' - e)
    \<and> unat x' * 2 ^ (e' - e) < unat x + 2 ^ (e' - e)
    \<and> (e < e' \<longrightarrow> 8 \<le> x' \<and> 15 * 2 ^ (e' - e) < 2 * unat x)"
  using assms
proof (induction x e rule: int2fb_loop.induct)
  case (1 x e)
  show ?case
  proof (cases "16 \<le> x")
    case False
    with 1 show ?thesis by (auto simp: int2fb_loop.simps [of x e])
  next
    case True
    then have ge: "16 \<le> unat x" by (simp add: word_le_nat_alt)
    have ux: "unat (x + 1) = unat x + 1"
      using 1(3) by (simp add: unat_word_ariths)
    define y where "y = drop_bit 1 (x + 1)"
    have uy: "unat y = (unat x + 1) div 2"
      unfolding y_def unat_drop_bit_eq ux by (simp add: drop_bit_eq_div)
    have rec: "int2fb_loop y (e + 1) = (x', e')"
      using 1(2) True by (simp add: int2fb_loop.simps [of x e] y_def)
    have y31: "unat y < 2 ^ 31" using uy 1(3) by simp
    have IH: "e + 1 \<le> e'" "x' < 16" "unat y \<le> unat x' * 2 ^ (e' - (e + 1))"
      "unat x' * 2 ^ (e' - (e + 1)) < unat y + 2 ^ (e' - (e + 1))"
      "e + 1 < e' \<longrightarrow> 8 \<le> x' \<and> 15 * 2 ^ (e' - (e + 1)) < 2 * unat y"
      using 1(1) [OF True] rec y31 unfolding y_def by auto
    define d where "d = e' - (e + 1)"
    have d: "e' - e = Suc d" using IH(1) by (simp add: d_def)
    have x8: "8 \<le> x'"
    proof (cases "e + 1 < e'")
      case False
      then have "e' = e + 1" using IH(1) by simp
      with IH(3) uy ge have "8 \<le> unat x'" by simp
      then show ?thesis by (simp add: word_le_nat_alt)
    qed (use IH(5) in simp)
    have "15 * 2 ^ Suc d < 2 * unat x"
    proof (cases "e + 1 < e'")
      case True
      with IH(5) have "15 * 2 ^ d < 2 * unat y" by (simp add: d_def)
      moreover have "d \<noteq> 0" using True by (simp add: d_def)
      then have "even (15 * 2 ^ d :: nat)" by simp
      ultimately have "15 * 2 ^ d + 2 \<le> 2 * unat y" by presburger
      then show ?thesis using uy by simp
    next
      case False
      then have "d = 0" using IH(1) by (simp add: d_def)
      then show ?thesis using ge by simp
    qed
    moreover have "unat x \<le> unat x' * 2 ^ Suc d \<and> unat x' * 2 ^ Suc d < unat x + 2 ^ Suc d"
    proof -
      have "(unat x + 1) div 2 \<le> unat x' * 2 ^ d" "unat x' * 2 ^ d < (unat x + 1) div 2 + 2 ^ d"
        using IH(3,4) uy by (simp_all add: d_def)
      then have "unat x \<le> 2 * (unat x' * 2 ^ d) \<and> 2 * (unat x' * 2 ^ d) < unat x + 2 * 2 ^ d"
        by linarith
      then show ?thesis by (simp add: ac_simps)
    qed
    ultimately show ?thesis
      using IH(1,2) x8 unfolding d by auto
  qed
qed

lemma fb_pack:
  fixes m e :: int
  assumes "8 \<le> m" "m < 16" "0 \<le> e" "e < 31"
  shows "push_bit 3 (e + 1) OR (m - 8) = 8 * (e + 1) + (m - 8)"
    "(8 * (e + 1) + (m - 8)) AND 7 = m - 8" "drop_bit 3 (8 * (e + 1) + (m - 8)) AND 31 = e + 1"
proof -
  have small: "bit (m - 8) n \<Longrightarrow> n < 3" for n
    using assms by (intro bit_int_small [of "m - 8"]) simp_all
  have "push_bit 3 (e + 1) AND (m - 8) = 0"
    by (rule bit_eqI) (auto simp: bit_simps dest: small)
  then have "push_bit 3 (e + 1) OR (m - 8) = push_bit 3 (e + 1) + (m - 8)"
    by (simp add: disjunctive_add_eq_or)
  then show "push_bit 3 (e + 1) OR (m - 8) = 8 * (e + 1) + (m - 8)"
    by (simp add: push_bit_eq_mult)
  have m7: "(7 :: int) = mask 3" and m31: "(31 :: int) = mask 5" by (simp_all add: mask_eq_exp_minus_1)
  show "(8 * (e + 1) + (m - 8)) AND 7 = m - 8"
    using assms by (simp add: m7 flip: take_bit_eq_mask) (simp add: take_bit_eq_mod, presburger)
  have "drop_bit 3 (8 * (e + 1) + (m - 8)) = (8 * (e + 1) + (m - 8)) div 8"
    by (simp add: drop_bit_eq_div)
  also have "\<dots> = e + 1"
    using assms by presburger
  finally show "drop_bit 3 (8 * (e + 1) + (m - 8)) AND 31 = e + 1"
    unfolding m31 using assms by (simp flip: take_bit_eq_mask) (simp add: take_bit_eq_mod)
qed


lemma fb2int_small: "0 \<le> x \<Longrightarrow> x < 8 \<Longrightarrow> luaO_fb2int x = x"
  by (simp add: luaO_fb2int_def drop_bit_eq_div)

lemma int2fb_value:
  assumes "unat x \<le> 2 ^ 30"
  obtains m e where "luaO_fb2int (luaO_int2fb x) = int m * 2 ^ e" "0 \<le> luaO_int2fb x"
    "luaO_int2fb x \<le> 255" "unat x \<le> m * 2 ^ e" "m * 2 ^ e < unat x + 2 ^ e"
    "0 < e \<longrightarrow> 15 * 2 ^ e < 2 * unat x"
proof -
  obtain w e where w: "int2fb_loop x 0 = (w, e)" by (cases "int2fb_loop x 0")
  define m where "m = unat w"
  have uw: "uint w = int m" by (simp add: m_def)
  have m8: "w < 8 \<longleftrightarrow> m < 8" by (simp add: m_def word_less_nat_alt)
  have b: "m < 16" "unat x \<le> m * 2 ^ e" "m * 2 ^ e < unat x + 2 ^ e"
    "0 < e \<longrightarrow> 8 \<le> m \<and> 15 * 2 ^ e < 2 * unat x"
    using int2fb_loop_bounds [OF w] assms
    by (auto simp: m_def word_less_nat_alt word_le_nat_alt)
  show thesis
  proof (cases "m < 8")
    case True
    then have e0: "e = 0" using b(4) by auto
    have "luaO_int2fb x = int m" using True by (simp add: luaO_int2fb_def w m8 uw)
    moreover have "luaO_fb2int (int m) = int m" using True by (intro fb2int_small) simp_all
    ultimately show thesis using True b(2,3) e0 that [of m 0] by simp
  next
    case False
    then have ge8: "8 \<le> m" by simp
    have e27: "e < 28"
    proof (rule ccontr)
      assume "\<not> e < 28"
      then have "(2::nat) ^ 28 \<le> 2 ^ e" by (intro power_increasing) simp_all
      then show False using b(4) \<open>\<not> e < 28\<close> assms by simp
    qed
    note pack = fb_pack [of "int m" "int e"]
    have fb: "luaO_int2fb x = 8 * (int e + 1) + (int m - 8)"
      unfolding luaO_int2fb_def w Let_def prod.case uw m8
      using ge8 b(1) e27 pack(1) by simp
    have "(2::nat) ^ e \<le> 2 ^ 27" using e27 by (intro power_increasing) simp_all
    then have "m * 2 ^ e < 2 ^ 31" using b(3) assms by simp
    then have "int (m * 2 ^ e) < int (2 ^ 31)" by (simp only: of_nat_less_iff)
    then have small: "int m * 2 ^ e < 2 ^ 31" by simp
    have "luaO_fb2int (luaO_int2fb x) = signed_take_bit 31 (push_bit e (int m))"
    proof -
      have "nat (int e + 1 - 1) = e" "int e + 1 \<noteq> 0" "int m - 8 + 8 = int m" by simp_all
      then show ?thesis
        unfolding fb luaO_fb2int_def Let_def using ge8 b(1) e27 pack(2,3) by simp
    qed
    also have "\<dots> = int m * 2 ^ e"
      unfolding push_bit_eq_mult
      using small order_trans [of "- (2 ^ 31)" 0 "int m * 2 ^ e"]
      by (intro signed_take_bit_int_eq_self) simp_all
    finally have v: "luaO_fb2int (luaO_int2fb x) = int m * 2 ^ e" .
    have "0 \<le> luaO_int2fb x" "luaO_int2fb x \<le> 255"
      unfolding fb using ge8 b(1) e27 by simp_all
    then show thesis
      using b(4) by (intro that [OF v _ _ b(2,3)]) simp_all
  qed
qed

text \<open>
  The size hint of a table constructor survives its one-byte encoding: for every
  size up to \<open>2^30\<close> the byte fits the nine-bit operand with room to spare, the decoded size
  is never smaller than the requested one and exceeds it by at most two fifteenths.
\<close>

theorem fb2int_int2fb:
  assumes "unat x \<le> 2 ^ 30"
  shows "0 \<le> luaO_int2fb x \<and> luaO_int2fb x \<le> 255
    \<and> int (unat x) \<le> luaO_fb2int (luaO_int2fb x)
    \<and> 15 * (luaO_fb2int (luaO_int2fb x) - int (unat x)) \<le> 2 * int (unat x)"
proof -
  obtain m e where me: "luaO_fb2int (luaO_int2fb x) = int m * 2 ^ e" "0 \<le> luaO_int2fb x"
    "luaO_int2fb x \<le> 255" "unat x \<le> m * 2 ^ e" "m * 2 ^ e < unat x + 2 ^ e"
    "0 < e \<longrightarrow> 15 * 2 ^ e < 2 * unat x"
    by (rule int2fb_value [OF assms])
  have "15 * (m * 2 ^ e) \<le> 17 * unat x"
    using me(4-6) by (cases "e = 0") auto
  then have "int (15 * (m * 2 ^ e)) \<le> int (17 * unat x)"
    by (simp only: of_nat_le_iff)
  then have "15 * (int m * 2 ^ e) \<le> 17 * int (unat x)"
    by simp
  moreover have "int (unat x) \<le> int m * 2 ^ e"
    using me(4) by (metis of_nat_le_iff of_nat_mult of_nat_numeral of_nat_power)
  ultimately show ?thesis using me(1-3) by simp
qed

theorem fb2int_int2fb_witness:
  "0 \<le> luaO_int2fb 1000 \<and> luaO_int2fb 1000 \<le> 255
    \<and> int (unat (1000 :: u32)) \<le> luaO_fb2int (luaO_int2fb 1000)
    \<and> 15 * (luaO_fb2int (luaO_int2fb 1000) - int (unat (1000 :: u32))) \<le> 2 * int (unat (1000 :: u32))"
  by (rule fb2int_int2fb) simp

section \<open>The integer logarithm\<close>

text \<open>The table holds one plus the position of the leading bit, and 0 for 0.\<close>

definition log_2 :: "int list" where
  "log_2 = [0, 1] @ replicate 2 2 @ replicate 4 3 @ replicate 8 4 @ replicate 16 5
     @ replicate 32 6 @ replicate 64 7 @ replicate 128 8"

function log2_loop :: "u32 \<Rightarrow> int \<Rightarrow> u32 \<times> int" where
  "log2_loop x l = (if 256 \<le> x then log2_loop (drop_bit 8 x) (l + 8) else (x, l))"
  by pat_completeness auto
termination
proof (relation "measure (\<lambda>(x, l). unat x)")
  fix x :: u32 and l :: int
  assume "256 \<le> x"
  then have "256 \<le> unat x" by (simp add: word_le_nat_alt)
  then show "((drop_bit 8 x, l + 8), x, l) \<in> measure (\<lambda>(x, l). unat x)"
    unfolding in_measure prod.case unat_drop_bit_eq by (simp add: drop_bit_eq_div)
qed simp

declare log2_loop.simps [simp del]

definition luaO_log2 :: "u32 \<Rightarrow> int" where
  "luaO_log2 x = (let (x', l) = log2_loop x (-1) in l + log_2 ! unat x')"

definition ceillog2 :: "u32 \<Rightarrow> int" where
  "ceillog2 x = luaO_log2 (x - 1) + 1"

lemma log_2_nth:
  assumes "0 < n" "n < 256"
  shows "0 < log_2 ! n \<and> 2 ^ nat (log_2 ! n - 1) \<le> n \<and> n < 2 ^ nat (log_2 ! n)"
proof -
  have "list_all (\<lambda>n. 0 < log_2 ! n \<and> 2 ^ nat (log_2 ! n - 1) \<le> n \<and> n < 2 ^ nat (log_2 ! n)) [1..<256]"
    by code_simp
  then show ?thesis using assms by (simp add: list_all_iff)
qed


lemma log2_loop_bounds:
  assumes "log2_loop x l = (x', l')"
  shows "\<exists>k. l' = l + 8 * int k \<and> unat x' = unat x div 2 ^ (8 * k) \<and> unat x' < 256
    \<and> (0 < unat x \<longrightarrow> 0 < unat x')"
  using assms
proof (induction x l rule: log2_loop.induct)
  case (1 x l)
  show ?case
  proof (cases "256 \<le> x")
    case False
    then have "unat x < 256" by (simp add: word_le_nat_alt)
    with 1 False show ?thesis
      by (intro exI [of _ 0]) (simp add: log2_loop.simps [of x l])
  next
    case True
    then have ge: "256 \<le> unat x" by (simp add: word_le_nat_alt)
    have ud: "unat (drop_bit 8 x) = unat x div 256"
      unfolding unat_drop_bit_eq by (simp add: drop_bit_eq_div)
    obtain k where k: "l' = l + 8 + 8 * int k" "unat x' = unat x div 256 div 2 ^ (8 * k)"
      "unat x' < 256" "0 < unat x div 256 \<longrightarrow> 0 < unat x'"
      using 1 True ud by (auto simp: log2_loop.simps [of x l])
    have "unat x div 256 div 2 ^ (8 * k) = unat x div 2 ^ (8 * Suc k)"
      by (simp add: div_mult2_eq power_add)
    then show ?thesis using k ge by (intro exI [of _ "Suc k"]) auto
  qed
qed

lemma log2_floor:
  assumes "0 < x"
  shows "0 \<le> luaO_log2 x \<and> 2 ^ nat (luaO_log2 x) \<le> unat x \<and> unat x < 2 ^ (nat (luaO_log2 x) + 1)"
proof -
  obtain x' l' where loop: "log2_loop x (-1) = (x', l')" by (cases "log2_loop x (-1)")
  have pos: "0 < unat x" using assms by (simp add: word_less_nat_alt)
  obtain k where k: "l' = - 1 + 8 * int k" "unat x' = unat x div 2 ^ (8 * k)"
    "unat x' < 256" "0 < unat x'"
    using log2_loop_bounds [OF loop] pos by auto
  define n where "n = nat (log_2 ! unat x' - 1)"
  have n: "log_2 ! unat x' = int n + 1" "2 ^ n \<le> unat x'" "unat x' < 2 ^ (n + 1)"
    using log_2_nth [OF k(4,3)] by (auto simp: n_def nat_diff_distrib nat_add_distrib)
  have r: "luaO_log2 x = int (8 * k + n)"
    using k(1) n(1) by (simp add: luaO_log2_def loop)
  have "2 ^ n * 2 ^ (8 * k) \<le> unat x"
    using n(2) unfolding k(2) by (metis less_eq_div_iff_mult_less_eq zero_less_numeral zero_less_power)
  moreover have "unat x < 2 ^ (n + 1) * 2 ^ (8 * k)"
    using n(3) unfolding k(2) by (metis div_less_iff_less_mult zero_less_numeral zero_less_power)
  ultimately show ?thesis
    unfolding r by (simp add: power_add ac_simps nat_add_distrib nat_mult_distrib)
qed

text \<open>
  \<open>luaO_log2\<close> is the floor of the binary logarithm on every positive 32-bit
  value: \<open>2^r \<le> x < 2^(r+1)\<close> for its result \<open>r\<close>.
\<close>

theorem luaO_log2_floor:
  assumes "0 < x"
  shows "0 \<le> luaO_log2 x \<and> 2 ^ nat (luaO_log2 x) \<le> unat x \<and> unat x < 2 ^ (nat (luaO_log2 x) + 1)"
  by (rule log2_floor [OF assms])

theorem luaO_log2_floor_witness:
  "0 \<le> luaO_log2 70000 \<and> 2 ^ nat (luaO_log2 70000) \<le> unat (70000 :: u32)
    \<and> unat (70000 :: u32) < 2 ^ (nat (luaO_log2 70000) + 1)"
  by (rule luaO_log2_floor) simp

text \<open>Its rounded-up companion gives the least power of two that is large enough.\<close>

lemma ceillog2_least:
  assumes "1 < x"
  shows "0 < ceillog2 x \<and> unat x \<le> 2 ^ nat (ceillog2 x) \<and> 2 ^ (nat (ceillog2 x) - 1) < unat x"
proof -
  have "x \<noteq> 0" using assms by auto
  then have ux: "unat (x - 1) = unat x - 1" "1 < unat x"
    using assms by (simp_all add: word_less_nat_alt unat_minus_one)
  then have "0 < x - 1" by (simp add: word_less_nat_alt)
  from log2_floor [OF this] show ?thesis
    using ux by (auto simp: ceillog2_def nat_add_distrib)
qed

lemma ceillog2_1: "ceillog2 1 = 0"
  by (simp add: ceillog2_def luaO_log2_def log2_loop.simps log_2_def)


section \<open>Display names of chunks\<close>

text \<open>
  \<open>luaO_chunkid\<close> writes a C string into \<open>out[bufflen]\<close>; the model returns that string
  (its final NUL left out). \<open>source\<close> is the C string without its NUL. The two \<open>sizeof\<close>
  constants count the NUL of the literal.
\<close>

definition strcspn :: "string \<Rightarrow> char set \<Rightarrow> nat" where
  "strcspn s reject = length (takeWhile (\<lambda>c. c \<notin> reject) s)"

definition newlines :: "char set" where
  "newlines = {CHR 0x0A, CHR 0x0D}"

definition luaO_chunkid :: "string \<Rightarrow> nat \<Rightarrow> string" where
  "luaO_chunkid source bufflen =
     (if source \<noteq> [] \<and> hd source = CHR ''='' then take (bufflen - 1) (tl source)
      else if source \<noteq> [] \<and> hd source = CHR ''@'' then
        (let source = tl source; bufflen = size_sub bufflen 8; l = length source
         in if l > bufflen then ''...'' @ drop (l - bufflen) source else source)
      else
        (let len = strcspn source newlines; bufflen = size_sub bufflen 17;
             len = (if len > bufflen then bufflen else len)
         in ''[string '' @ [CHR 0x22]
            @ (if len < length source then take len source @ ''...'' else source)
            @ [CHR 0x22, CHR '']'']))"

text \<open>
  The display name of a chunk always fits its buffer: with a buffer of at least
  17 bytes, the string and its final NUL take at most \<open>bufflen\<close> bytes, whatever the source.
\<close>

theorem luaO_chunkid_fits:
  assumes "17 \<le> bufflen" "bufflen < 2 ^ 64"
  shows "length (luaO_chunkid source bufflen) + 1 \<le> bufflen"
  using assms by (auto simp: luaO_chunkid_def Let_def size_sub_le)

theorem luaO_chunkid_fits_witness: "length (luaO_chunkid ''@/a/very/long/file/name.lua'' 20) + 1 \<le> 20"
  by (rule luaO_chunkid_fits) simp_all

lemma take_strcspn: "n \<le> strcspn s r \<Longrightarrow> c \<in> set (take n s) \<Longrightarrow> c \<notin> r"
proof -
  assume n: "n \<le> strcspn s r" and c: "c \<in> set (take n s)"
  have "take n s = take n (takeWhile (\<lambda>c. c \<notin> r) s)"
    using n by (metis strcspn_def min.absorb1 take_take takeWhile_eq_take)
  then show ?thesis using c by (metis in_set_takeD set_takeWhileD)
qed

text \<open>
  The display name of a chunk loaded from a string is one line: it never contains
  a line break, even when the source text does.
\<close>

theorem luaO_chunkid_one_line:
  assumes "source = [] \<or> hd source \<noteq> CHR ''='' \<and> hd source \<noteq> CHR ''@''"
  shows "set (luaO_chunkid source bufflen) \<inter> newlines = {}"
proof -
  define len where "len = (if strcspn source newlines > size_sub bufflen 17
    then size_sub bufflen 17 else strcspn source newlines)"
  have eq: "luaO_chunkid source bufflen = ''[string '' @ [CHR 0x22]
      @ (if len < length source then take len source @ ''...'' else source) @ [CHR 0x22, CHR '']'']"
    using assms by (auto simp: luaO_chunkid_def len_def Let_def)
  have le: "len \<le> strcspn source newlines" by (simp add: len_def)
  have all: "\<not> len < length source \<Longrightarrow> set (take len source) = set source" by simp
  have "c \<in> set (take len source) \<Longrightarrow> c \<notin> newlines" for c
    by (rule take_strcspn [OF le])
  with all have "set (if len < length source then take len source @ ''...'' else source) \<inter> newlines = {}"
    by (cases "len < length source") (auto simp: newlines_def)
  then show ?thesis unfolding eq by (auto simp: newlines_def)
qed

theorem luaO_chunkid_one_line_witness:
  "set (luaO_chunkid (''return 1'' @ [CHR 0x0A] @ ''-- end'') 60) \<inter> newlines = {}"
  by (rule luaO_chunkid_one_line) simp

end
