(* ===== verification/Base64.thy ===== *)
theory Base64
  imports Prelude
begin

text \<open>
  The Base64 filters of \<open>socket/mime.c\<close>. An atom (the bytes waiting for their group to be
  complete) is the list of its valid bytes; a filter step takes the next byte, returns the
  new atom and the bytes appended to the buffer.
\<close>

unbundle bit_operations_syntax

section \<open>Tables\<close>

text \<open>The alphabet, in ASCII.\<close>

definition b64base :: bytes where
  "b64base = map of_nat ([65..<91] @ [97..<123] @ [48..<58] @ [43, 47])"

text \<open>Its inverse: 255 for a byte outside the alphabet, 0 for the padding character.\<close>

definition b64unbase :: bytes where
  "b64unbase = replicate 43 255 @ [62] @ replicate 3 255 @ [63] @ map of_nat [52..<62]
     @ replicate 3 255 @ [0] @ replicate 3 255 @ map of_nat [0..<26] @ replicate 6 255
     @ map of_nat [26..<52] @ replicate 133 255"

section \<open>Steps\<close>

definition b64encode :: "bytes \<Rightarrow> u8 \<Rightarrow> bytes \<times> bytes" where
  "b64encode atom c =
     (let input = atom @ [c]
      in if length input = 3 then
           (let value = 0 :: u64;
                value = value + ucast (input ! 0); value = push_bit 8 value;
                value = value + ucast (input ! 1); value = push_bit 8 value;
                value = value + ucast (input ! 2);
                code3 = b64base ! unat (value AND 0x3f); value = drop_bit 6 value;
                code2 = b64base ! unat (value AND 0x3f); value = drop_bit 6 value;
                code1 = b64base ! unat (value AND 0x3f); value = drop_bit 6 value;
                code0 = b64base ! unat value
            in ([], [code0, code1, code2, code3]))
         else (input, []))"

definition b64pad :: "bytes \<Rightarrow> bytes" where
  "b64pad input =
     (if length input = 1 then
        (let value = push_bit 4 (ucast (input ! 0)) :: u64;
             code1 = b64base ! unat (value AND 0x3f); value = drop_bit 6 value;
             code0 = b64base ! unat value
         in [code0, code1, 61, 61])
      else if length input = 2 then
        (let value = ucast (input ! 0) :: u64; value = push_bit 8 value;
             value = value OR ucast (input ! 1); value = push_bit 2 value;
             code2 = b64base ! unat (value AND 0x3f); value = drop_bit 6 value;
             code1 = b64base ! unat (value AND 0x3f); value = drop_bit 6 value;
             code0 = b64base ! unat value
         in [code0, code1, code2, 61])
      else [])"

definition b64decode :: "bytes \<Rightarrow> u8 \<Rightarrow> bytes \<times> bytes" where
  "b64decode atom c =
     (if b64unbase ! unat c > 64 then (atom, [])
      else
        (let input = atom @ [c]
         in if length input = 4 then
              (let value = ucast (b64unbase ! unat (input ! 0)) :: u32; value = push_bit 6 value;
                   value = value OR ucast (b64unbase ! unat (input ! 1)); value = push_bit 6 value;
                   value = value OR ucast (b64unbase ! unat (input ! 2)); value = push_bit 6 value;
                   value = value OR ucast (b64unbase ! unat (input ! 3));
                   decoded2 = ucast (value AND 0xff); value = drop_bit 8 value;
                   decoded1 = ucast (value AND 0xff); value = drop_bit 8 value;
                   decoded0 = ucast value;
                   valid = (if input ! 2 = 61 then 1 else if input ! 3 = 61 then 2 else 3)
               in ([], take valid [decoded0, decoded1, decoded2]))
            else (input, [])))"

section \<open>Filters\<close>

text \<open>
  The Lua functions take two optional strings and return two; \<open>None\<close> is \<open>nil\<close>. The second
  string absent means the end of the input: the atom is padded.
\<close>

definition mime_global_b64 :: "bytes option \<Rightarrow> bytes option \<Rightarrow> bytes option \<times> bytes option" where
  "mime_global_b64 arg1 arg2 =
     (case arg1 of
        None \<Rightarrow> (None, None)
      | Some input \<Rightarrow>
          (let (atom, out) = feed b64encode [] input
           in case arg2 of
                None \<Rightarrow>
                  (let out = out @ b64pad atom
                   in if length out = 0 then (None, None) else (Some out, None))
              | Some input2 \<Rightarrow>
                  (let (atom, out2) = feed b64encode atom input2
                   in (Some (out @ out2), Some atom))))"

definition mime_global_unb64 :: "bytes option \<Rightarrow> bytes option \<Rightarrow> bytes option \<times> bytes option" where
  "mime_global_unb64 arg1 arg2 =
     (case arg1 of
        None \<Rightarrow> (None, None)
      | Some input \<Rightarrow>
          (let (atom, out) = feed b64decode [] input
           in case arg2 of
                None \<Rightarrow> if length out = 0 then (None, None) else (Some out, None)
              | Some input2 \<Rightarrow>
                  (let (atom, out2) = feed b64decode atom input2
                   in (Some (out @ out2), Some atom))))"

section \<open>The alphabet and its inverse\<close>

lemma length_b64base: "length b64base = 64"
  by (simp add: b64base_def)

lemma b64_tables:
  "list_all (\<lambda>n. b64unbase ! unat (b64base ! n) = of_nat n \<and> b64base ! n \<noteq> 61
     \<and> b64unbase ! unat (b64base ! n) \<le> 64) [0..<64]"
  by code_simp

lemma b64unbase_b64base:
  fixes w :: "'a::len word"
  assumes "unat w < 64"
  shows "b64unbase ! unat (b64base ! unat w) = ucast w" "b64base ! unat w \<noteq> 61"
  using b64_tables assms by (auto simp: list_all_iff)

lemma b64unbase_pad: "b64unbase ! 61 = 0"
  by (simp add: b64unbase_def nth_append)

lemma unat_and_63: "unat ((w :: u64) AND 0x3f) < 64"
proof -
  have "w AND 0x3f = take_bit 6 w" by (simp add: take_bit_eq_mask mask_eq_exp_minus_1)
  then show ?thesis using take_bit_nat_less_exp [of 6 "unat w"] by (simp add: unsigned_take_bit_eq)
qed

section \<open>Groups of three bytes\<close>

text \<open>Three bytes as one 24-bit value, and the four sextets joined again.\<close>

definition pack3 :: "u8 \<Rightarrow> u8 \<Rightarrow> u8 \<Rightarrow> u64" where
  "pack3 a b c = push_bit 8 (push_bit 8 (ucast a) + ucast b) + ucast c"

lemma byte_plus: "push_bit 8 (x :: u64) + ucast (b :: u8) = push_bit 8 x OR ucast b"
proof (rule disjunctive_add_eq_or)
  show "push_bit 8 x AND ucast b = 0"
    by (rule bit_word_eqI) (auto simp: bit_simps dest: bit_imp_le_length)
qed

lemma bit_pack3:
  "bit (pack3 a b c) n \<longleftrightarrow>
     n < 8 \<and> bit c n \<or> 8 \<le> n \<and> n < 16 \<and> bit b (n - 8) \<or> 16 \<le> n \<and> n < 24 \<and> bit a (n - 16)"
  unfolding pack3_def byte_plus
  by (auto simp: bit_simps dest: bit_imp_le_length)

lemma and_63: "w AND 0x3f = take_bit 6 w" for w :: "'a::len word"
  by (simp add: take_bit_eq_mask mask_eq_exp_minus_1)

lemma and_ff: "w AND 0xff = take_bit 8 w" for w :: "'a::len word"
  by (simp add: take_bit_eq_mask mask_eq_exp_minus_1)

lemma unat_take_bit_6: "unat (take_bit 6 (w :: u64)) < 64"
  using take_bit_nat_less_exp [of 6 "unat w"] by (simp add: unsigned_take_bit_eq)

lemma unat_pack3_18: "unat (drop_bit 18 (pack3 a b c)) < 64"
proof -
  have "drop_bit 18 (pack3 a b c) = take_bit 6 (drop_bit 18 (pack3 a b c))"
    by (rule bit_word_eqI) (auto simp: bit_simps bit_pack3)
  then show ?thesis using unat_take_bit_6 by metis
qed

definition join4 :: "u8 \<Rightarrow> u8 \<Rightarrow> u8 \<Rightarrow> u8 \<Rightarrow> u32" where
  "join4 s0 s1 s2 s3 =
     push_bit 6 (push_bit 6 (push_bit 6 (ucast s0) OR ucast s1) OR ucast s2) OR ucast s3"

lemma join4_pack3:
  "join4 (ucast (drop_bit 18 (pack3 a b c))) (ucast (drop_bit 12 (pack3 a b c) AND 0x3f))
     (ucast (drop_bit 6 (pack3 a b c) AND 0x3f)) (ucast (pack3 a b c AND 0x3f)) = ucast (pack3 a b c)"
proof (rule bit_word_eqI)
  fix n
  assume "n < LENGTH(32)"
  then consider "n < 6" | "6 \<le> n" "n < 12" | "12 \<le> n" "n < 18" | "18 \<le> n" "n < 24" | "24 \<le> n" "n < 32"
    by fastforce
  then show "bit (join4 (ucast (drop_bit 18 (pack3 a b c))) (ucast (drop_bit 12 (pack3 a b c) AND 0x3f))
     (ucast (drop_bit 6 (pack3 a b c) AND 0x3f)) (ucast (pack3 a b c AND 0x3f))) n
     = bit (ucast (pack3 a b c) :: u32) n"
    by cases (simp_all add: join4_def and_63 bit_simps less_diff_conv2, auto simp: bit_pack3)
qed

lemma bytes_pack3:
  "ucast (ucast (pack3 a b c) AND (0xff :: u32)) = c"
  "ucast (drop_bit 8 (ucast (pack3 a b c)) AND (0xff :: u32)) = b"
  "ucast (drop_bit 8 (drop_bit 8 (ucast (pack3 a b c) :: u32))) = a"
  by (rule bit_word_eqI; auto simp: and_ff bit_simps bit_pack3)+


lemma b64encode_full:
  "b64encode [a, b] c =
     ([], [b64base ! unat (drop_bit 18 (pack3 a b c)), b64base ! unat (drop_bit 12 (pack3 a b c) AND 0x3f),
           b64base ! unat (drop_bit 6 (pack3 a b c) AND 0x3f), b64base ! unat (pack3 a b c AND 0x3f)])"
  by (simp add: b64encode_def Let_def pack3_def drop_bit_drop_bit)

lemma b64encode_short: "length atom < 2 \<Longrightarrow> b64encode atom c = (atom @ [c], [])"
  by (simp add: b64encode_def)

lemma b64pad_1:
  "b64pad [a] = [b64base ! unat (drop_bit 18 (pack3 a 0 0)),
     b64base ! unat (drop_bit 12 (pack3 a 0 0) AND 0x3f), 61, 61]"
proof -
  have "push_bit 4 (ucast a) = drop_bit 12 (pack3 a 0 0)"
    by (rule bit_word_eqI) (auto simp: bit_simps bit_pack3 dest: bit_imp_le_length)
  then show ?thesis by (simp add: b64pad_def Let_def drop_bit_drop_bit)
qed

lemma b64pad_2:
  "b64pad [a, b] = [b64base ! unat (drop_bit 18 (pack3 a b 0)),
     b64base ! unat (drop_bit 12 (pack3 a b 0) AND 0x3f),
     b64base ! unat (drop_bit 6 (pack3 a b 0) AND 0x3f), 61]"
proof -
  have eq: "push_bit 2 (push_bit 8 (ucast a) OR ucast b) = drop_bit 6 (pack3 a b 0)"
    by (rule bit_word_eqI) (auto simp: bit_simps bit_pack3 dest: bit_imp_le_length)
  have "b64pad [a, b] =
    (let value = push_bit 2 (push_bit 8 (ucast a) OR ucast b) :: u64
     in [b64base ! unat (drop_bit 6 (drop_bit 6 value)), b64base ! unat (drop_bit 6 value AND 0x3f),
         b64base ! unat (value AND 0x3f), 61])"
    by (simp add: b64pad_def Let_def)
  then show ?thesis unfolding eq by (simp add: drop_bit_drop_bit)
qed

definition quad_bytes :: "u32 \<Rightarrow> bytes" where
  "quad_bytes v = [ucast (drop_bit 8 (drop_bit 8 v)), ucast (drop_bit 8 v AND 0xff), ucast (v AND 0xff)]"

lemma b64decode_4:
  assumes "b64unbase ! unat c0 \<le> 64" "b64unbase ! unat c1 \<le> 64"
    "b64unbase ! unat c2 \<le> 64" "b64unbase ! unat c3 \<le> 64"
  shows "feed b64decode [] [c0, c1, c2, c3] =
    ([], take (if c2 = 61 then 1 else if c3 = 61 then 2 else 3)
       (quad_bytes (join4 (b64unbase ! unat c0) (b64unbase ! unat c1)
          (b64unbase ! unat c2) (b64unbase ! unat c3))))"
  using assms
  by (simp add: b64decode_def Let_def join4_def quad_bytes_def linorder_not_less [symmetric])

lemma quad_pack3:
  "quad_bytes (join4 (ucast (drop_bit 18 (pack3 a b c))) (ucast (drop_bit 12 (pack3 a b c) AND 0x3f))
     (ucast (drop_bit 6 (pack3 a b c) AND 0x3f)) (ucast (pack3 a b c AND 0x3f))) = [a, b, c]"
  by (simp only: join4_pack3 quad_bytes_def bytes_pack3)

lemma b64unbase_code_le:
  assumes "unat (w :: u64) < 64"
  shows "b64unbase ! unat (b64base ! unat w) \<le> 64"
proof -
  have "unat w \<in> set [0..<64]" using assms by simp
  then show ?thesis using b64_tables unfolding list_all_iff by blast
qed

lemma b64unbase_pad_le: "b64unbase ! unat (61 :: u8) \<le> 64"
  by (simp add: b64unbase_pad)

lemmas sextet_bounds = unat_pack3_18 unat_and_63

lemma decode_group:
  "feed b64decode [] [b64base ! unat (drop_bit 18 (pack3 a b c)),
     b64base ! unat (drop_bit 12 (pack3 a b c) AND 0x3f), 
     b64base ! unat (drop_bit 6 (pack3 a b c) AND 0x3f), b64base ! unat (pack3 a b c AND 0x3f)]
   = ([], [a, b, c])"
  by (subst b64decode_4; (intro b64unbase_code_le sextet_bounds)?)
    (simp add: b64unbase_b64base sextet_bounds quad_pack3)

lemma decode_pad_2: "feed b64decode [] (b64pad [a, b]) = ([], [a, b])"
proof -
  have z: "ucast (pack3 a b 0 AND 0x3f) = b64unbase ! unat (61 :: u8)"
    by (rule bit_word_eqI) (auto simp: b64unbase_pad and_63 bit_simps bit_pack3)
  show ?thesis
    unfolding b64pad_2
    by (subst b64decode_4; (intro b64unbase_code_le b64unbase_pad_le sextet_bounds)?)
      (use quad_pack3 [of a b 0] in \<open>simp only: z b64unbase_b64base sextet_bounds\<close>, simp)
qed

lemma decode_pad_1: "feed b64decode [] (b64pad [a]) = ([], [a])"
proof -
  have z: "ucast (pack3 a 0 0 AND 0x3f) = b64unbase ! unat (61 :: u8)"
    "ucast (drop_bit 6 (pack3 a 0 0) AND 0x3f) = b64unbase ! unat (61 :: u8)"
    by (rule bit_word_eqI; auto simp: b64unbase_pad and_63 bit_simps bit_pack3)+
  show ?thesis
    unfolding b64pad_1
    by (subst b64decode_4; (intro b64unbase_code_le b64unbase_pad_le sextet_bounds)?)
      (use quad_pack3 [of a 0 0] in \<open>simp only: z b64unbase_b64base sextet_bounds\<close>, simp)
qed


section \<open>Decoding what was encoded\<close>

text \<open>An atom of the encoder holds at most two bytes.\<close>

definition b64_ok :: "bytes \<Rightarrow> bool" where
  "b64_ok atom \<longleftrightarrow> length atom < 3"

interpretation b64: stream_codec b64encode b64pad b64decode "[]" "\<lambda>s. s" b64_ok
proof
  fix s x s' out
  assume ok: "b64_ok s" and st: "b64encode s x = (s', out)"
  consider "length s < 2" | a b where "s = [a, b]"
    using ok by (cases s; cases "tl s") (auto simp: b64_ok_def)
  then show "\<exists>ys. feed b64decode [] out = ([], ys) \<and> s @ [x] = ys @ s'"
  proof cases
    case 1
    then show ?thesis using st by (simp add: b64encode_short)
  next
    case 2
    then show ?thesis using st b64encode_full [of a b x] decode_group [of a b x] by auto
  qed
  show "b64_ok s'"
    using ok st by (auto simp: b64_ok_def b64encode_def Let_def split: if_splits)
next
  fix s
  assume "b64_ok s"
  then consider "s = []" | a where "s = [a]" | a b where "s = [a, b]"
    by (cases s; cases "tl s") (auto simp: b64_ok_def)
  then show "feed b64decode [] (b64pad s) = ([], s)"
    by cases (simp_all only: decode_pad_1 decode_pad_2, simp add: b64pad_def)
qed


section \<open>Properties\<close>

lemma feed_b64_short: "length c < 3 \<Longrightarrow> feed b64encode [] c = (c, [])"
  by (cases c; cases "tl c"; cases "tl (tl c)") (auto simp: b64encode_short)

lemma b64_final:
  "mime_global_b64 (Some c) None =
     (let out = (case feed b64encode [] c of (atom, out) \<Rightarrow> out @ b64pad atom)
      in (if out = [] then None else Some out, None))"
  by (simp add: mime_global_b64_def Let_def split: prod.splits)

text \<open>
  Property C32. Base64 round trip: encoding any non-empty byte string in one final call
  and decoding the result in one final call gives the byte string back.
\<close>

theorem b64_roundtrip:
  assumes "xs \<noteq> []"
  shows "\<exists>e. mime_global_b64 (Some xs) None = (Some e, None)
    \<and> mime_global_unb64 (Some e) None = (Some xs, None)"
proof -
  obtain atom out where f: "feed b64encode [] xs = (atom, out)" by (cases "feed b64encode [] xs")
  have d: "feed b64decode [] (out @ b64pad atom) = ([], xs)"
    using b64.round_trip [OF _ f] by (simp add: b64_ok_def)
  then have "out @ b64pad atom \<noteq> []" using assms by auto
  then show ?thesis
    using assms d by (simp add: b64_final f mime_global_unb64_def)
qed

theorem b64_roundtrip_witness:
  "\<exists>e. mime_global_b64 (Some [0, 255, 61, 13]) None = (Some e, None)
    \<and> mime_global_unb64 (Some e) None = (Some [0, 255, 61, 13], None)"
  by (rule b64_roundtrip) simp

text \<open>
  Base64 can be applied piecewise: if a call on the pieces \<open>c\<close> and \<open>d\<close> returns
  the text \<open>a\<close> and the left-over \<open>b\<close>, then \<open>b\<close> has at most two bytes, and \<open>a\<close> followed by the
  final encoding of \<open>b\<close> is the encoding of \<open>c @ d\<close> in one final call.
\<close>

theorem b64_piecewise:
  assumes "mime_global_b64 (Some c) (Some d) = (Some a, Some b)"
  shows "length b < 3 \<and>
    mime_global_b64 (Some (c @ d)) None =
      (let out = a @ (case fst (mime_global_b64 (Some b) None) of None \<Rightarrow> [] | Some r \<Rightarrow> r)
       in (if out = [] then None else Some out, None))"
proof -
  obtain s1 o1 where f1: "feed b64encode [] c = (s1, o1)" by (cases "feed b64encode [] c")
  obtain s2 o2 where f2: "feed b64encode s1 d = (s2, o2)" by (cases "feed b64encode s1 d")
  have ab: "a = o1 @ o2" "b = s2"
    using assms by (simp_all add: mime_global_b64_def f1 f2)
  have f: "feed b64encode [] (c @ d) = (b, a)"
    using feed_appendI [OF f1 f2] ab by simp
  have len: "length b < 3"
    using b64.feed_ok [OF _ f] by (simp add: b64_ok_def)
  then show ?thesis
    by (simp add: b64_final f feed_b64_short Let_def)
qed

theorem b64_piecewise_witness:
  "length [3 :: u8] < 3 \<and>
    mime_global_b64 (Some ([1] @ [2, 4, 3])) None =
      (let out = [65, 81, 73, 69] @
         (case fst (mime_global_b64 (Some [3]) None) of None \<Rightarrow> [] | Some r \<Rightarrow> r)
       in (if out = [] then None else Some out, None))"
proof -
  have "mime_global_b64 (Some [1]) (Some [2, 4, 3]) = (Some [65, 81, 73, 69], Some [3])"
    by code_simp
  then show ?thesis by (rule b64_piecewise)
qed

lemma b64base_mem: "n < 64 \<Longrightarrow> b64base ! n \<in> set b64base"
  by (simp add: length_b64base)

lemma b64_feed_shape:
  assumes "feed b64encode s xs = (s', out)" "length s < 3"
  shows "set out \<subseteq> set b64base \<and> length s' < 3
    \<and> 3 * length out + 4 * length s' = 4 * (length s + length xs)"
  using assms
proof (induction xs arbitrary: s out)
  case Nil
  then show ?case by simp
next
  case (Cons x xs)
  obtain s1 o1 where st: "b64encode s x = (s1, o1)" by (cases "b64encode s x")
  obtain o2 where fd: "feed b64encode s1 xs = (s', o2)" and out: "out = o1 @ o2"
    using Cons.prems(1) st by (auto simp: case_prod_beta Let_def prod_eq_iff)
  consider "length s < 2" | a b where "s = [a, b]"
    using Cons.prems(2) by (cases s; cases "tl s") auto
  then have s1: "set o1 \<subseteq> set b64base \<and> length s1 < 3
    \<and> 3 * length o1 + 4 * length s1 = 4 * (length s + 1)"
  proof cases
    case 1
    then show ?thesis using st by (auto simp: b64encode_short)
  next
    case 2
    then show ?thesis
      using st by (auto simp: b64encode_full b64base_mem sextet_bounds)
  qed
  then show ?case using Cons.IH [OF fd] out by auto
qed

text \<open>
  The encoded text of \<open>n\<close> bytes is the next multiple of four characters at or
  above \<open>4n/3\<close>, and every character is in the alphabet or the padding character.
\<close>

theorem b64_output_shape:
  assumes "mime_global_b64 (Some xs) None = (Some e, r)"
  shows "length e = 4 * ((length xs + 2) div 3) \<and> set e \<subseteq> insert 61 (set b64base)"
proof -
  obtain atom out where f: "feed b64encode [] xs = (atom, out)" by (cases "feed b64encode [] xs")
  have e: "e = out @ b64pad atom"
    using assms by (auto simp: b64_final f Let_def split: if_splits)
  have sh: "set out \<subseteq> set b64base" "length atom < 3"
    "3 * length out + 4 * length atom = 4 * length xs"
    using b64_feed_shape [OF f] by auto
  consider "atom = []" | a where "atom = [a]" | a b where "atom = [a, b]"
    using sh(2) by (cases atom; cases "tl atom") auto
  then have "length (b64pad atom) = (if atom = [] then 0 else 4)
    \<and> set (b64pad atom) \<subseteq> insert 61 (set b64base)"
    by cases (auto simp: b64pad_1 b64pad_2 b64base_mem sextet_bounds, simp_all add: b64pad_def)
  moreover have "length out + (if atom = [] then 0 else 4) = 4 * ((length xs + 2) div 3)"
  proof -
    consider "length atom = 0" "atom = []" | "length atom = 1" "atom \<noteq> []" | "length atom = 2" "atom \<noteq> []"
      using sh(2) by (cases atom; cases "tl atom") auto
    then show ?thesis using sh(3) by cases (simp_all, presburger+)
  qed
  ultimately show ?thesis using e sh(1) by auto
qed

theorem b64_output_shape_witness:
  "length [65, 81, 73, 61 :: u8] = 4 * ((length [1, 2 :: u8] + 2) div 3)
    \<and> set [65, 81, 73, 61] \<subseteq> insert 61 (set b64base)"
proof -
  have "mime_global_b64 (Some [1, 2]) None = (Some [65, 81, 73, 61], None)"
    by code_simp
  then show ?thesis by (rule b64_output_shape)
qed

end
