(* ===== verification/Quoted.thy ===== *)
theory Quoted
  imports Prelude
begin

text \<open>
  The quoted-printable filters of \<open>socket/mime.c\<close>: the encoder, which keeps back up to two
  bytes until it knows whether a line break follows, the decoder, and the soft line wrapper.
\<close>

unbundle bit_operations_syntax

section \<open>Tables\<close>

abbreviation CR :: u8 where "CR \<equiv> 13"
abbreviation LF :: u8 where "LF \<equiv> 10"
abbreviation EQ :: u8 where "EQ \<equiv> 61"

definition CRLF :: bytes where "CRLF = [CR, LF]"
definition EQCRLF :: bytes where "EQCRLF = [EQ, CR, LF]"

datatype qp_class = QP_PLAIN | QP_QUOTED | QP_CR | QP_IF_LAST

definition qpclass :: "qp_class list" where
  "qpclass = replicate 9 QP_QUOTED @ [QP_IF_LAST] @ replicate 3 QP_QUOTED @ [QP_CR]
     @ replicate 18 QP_QUOTED @ [QP_IF_LAST] @ replicate 28 QP_PLAIN @ [QP_QUOTED]
     @ replicate 65 QP_PLAIN @ replicate 129 QP_QUOTED"

definition qpbase :: bytes where
  "qpbase = map of_nat ([48..<58] @ [65..<71])"

definition qpunbase :: bytes where
  "qpunbase = replicate 48 255 @ map of_nat [0..<10] @ replicate 7 255 @ map of_nat [10..<16]
     @ replicate 26 255 @ map of_nat [10..<16] @ replicate 153 255"

section \<open>Encoder\<close>

definition qpquote :: "u8 \<Rightarrow> bytes" where
  "qpquote c = [EQ, qpbase ! unat (drop_bit 4 c), qpbase ! unat (c AND 0x0F)]"

text \<open>
  The loop of \<open>qpencode\<close> over the accumulated bytes: the result is what stays in the atom
  (\<open>return size\<close>) and what is appended to the buffer. \<open>return 0\<close> empties the atom.
\<close>

fun qpencode_loop :: "bytes \<Rightarrow> bytes \<Rightarrow> bytes \<times> bytes" where
  "qpencode_loop marker [] = ([], [])"
| "qpencode_loop marker (c # rest) =
     (case qpclass ! unat c of
        QP_CR \<Rightarrow>
          if length rest < 1 then (c # rest, [])
          else if rest ! 0 = LF then ([], marker)
          else (let (s, out) = qpencode_loop marker rest in (s, qpquote c @ out))
      | QP_IF_LAST \<Rightarrow>
          if length rest < 2 then (c # rest, [])
          else if rest ! 0 = CR \<and> rest ! 1 = LF then ([], qpquote c @ marker)
          else (let (s, out) = qpencode_loop marker rest in (s, c # out))
      | QP_QUOTED \<Rightarrow> (let (s, out) = qpencode_loop marker rest in (s, qpquote c @ out))
      | QP_PLAIN \<Rightarrow> (let (s, out) = qpencode_loop marker rest in (s, c # out)))"

definition qpencode :: "bytes \<Rightarrow> bytes \<Rightarrow> u8 \<Rightarrow> bytes \<times> bytes" where
  "qpencode marker atom c = qpencode_loop marker (atom @ [c])"

definition qppad :: "bytes \<Rightarrow> bytes" where
  "qppad atom =
     concat (map (\<lambda>c. if qpclass ! unat c = QP_PLAIN then [c] else qpquote c) atom)
     @ (if length atom > 0 then EQCRLF else [])"

text \<open>
  \<open>if (!(*lua_tostring(L, -1)))\<close> tests the first byte of the C string: it is 0 when the
  result is empty and also when its first byte is 0.
\<close>

definition first_byte_zero :: "bytes \<Rightarrow> bool" where
  "first_byte_zero s = (case s of [] \<Rightarrow> True | c # _ \<Rightarrow> c = 0)"

lemma first_byte_zero_simps [simp]: "first_byte_zero []" "first_byte_zero (c # s) \<longleftrightarrow> c = 0"
  by (simp_all add: first_byte_zero_def)

definition mime_global_qp ::
  "bytes option \<Rightarrow> bytes option \<Rightarrow> bytes option \<Rightarrow> bytes option \<times> bytes option" where
  "mime_global_qp arg1 arg2 arg3 =
     (let marker = (case arg3 of None \<Rightarrow> CRLF | Some m \<Rightarrow> m)
      in case arg1 of
           None \<Rightarrow> (None, None)
         | Some input \<Rightarrow>
             (let (atom, out) = feed (qpencode marker) [] input
              in case arg2 of
                   None \<Rightarrow>
                     (let out = out @ qppad atom
                      in if first_byte_zero out then (None, None) else (Some out, None))
                 | Some input2 \<Rightarrow>
                     (let (atom, out2) = feed (qpencode marker) atom input2
                      in (Some (out @ out2), Some atom))))"

section \<open>Decoder\<close>

definition qpdecode :: "bytes \<Rightarrow> u8 \<Rightarrow> bytes \<times> bytes" where
  "qpdecode atom c =
     (let input = atom @ [c]
      in if input ! 0 = EQ then
           (if length input < 3 then (input, [])
            else if input ! 1 = CR \<and> input ! 2 = LF then ([], [])
            else
              (let c = qpunbase ! unat (input ! 1); d = qpunbase ! unat (input ! 2)
               in if c > 15 \<or> d > 15 then ([], take 3 input)
                  else ([], [push_bit 4 c + d])))
         else if input ! 0 = CR then
           (if length input < 2 then (input, [])
            else if input ! 1 = LF then ([], take 2 input)
            else ([], []))
         else if input ! 0 = 9 \<or> input ! 0 > 31 \<and> input ! 0 < 127 then ([], [input ! 0])
         else ([], []))"

definition mime_global_unqp :: "bytes option \<Rightarrow> bytes option \<Rightarrow> bytes option \<times> bytes option" where
  "mime_global_unqp arg1 arg2 =
     (case arg1 of
        None \<Rightarrow> (None, None)
      | Some input \<Rightarrow>
          (let (atom, out) = feed qpdecode [] input
           in case arg2 of
                None \<Rightarrow> if first_byte_zero out then (None, None) else (Some out, None)
              | Some input2 \<Rightarrow>
                  (let (atom, out2) = feed qpdecode atom input2
                   in (Some (out @ out2), Some atom))))"

section \<open>Soft line breaks\<close>

text \<open>The state of the wrapper is the room left in the current line.\<close>

definition qpwrp_step :: "int \<Rightarrow> int \<Rightarrow> u8 \<Rightarrow> int \<times> bytes" where
  "qpwrp_step len left c =
     (if c = CR then (left, [])
      else if c = LF then (len, CRLF)
      else if c = EQ then
        (if left \<le> 3 then (len - 1, EQCRLF @ [c]) else (left - 1, [c]))
      else
        (if left \<le> 1 then (len - 1, EQCRLF @ [c]) else (left - 1, [c])))"

definition mime_global_qpwrp :: "int \<Rightarrow> bytes option \<Rightarrow> int option \<Rightarrow> bytes option \<times> int" where
  "mime_global_qpwrp left arg2 arg3 =
     (let len = (case arg3 of None \<Rightarrow> 76 | Some n \<Rightarrow> n)
      in case arg2 of
           None \<Rightarrow> (if left < len then Some EQCRLF else None, len)
         | Some input \<Rightarrow>
             (let (left, out) = feed (qpwrp_step len) left input in (Some out, left)))"

section \<open>Lemmas on the tables\<close>

definition qp_class_of :: "nat \<Rightarrow> qp_class" where
  "qp_class_of n =
     (if n = 13 then QP_CR else if n = 9 \<or> n = 32 then QP_IF_LAST
      else if 33 \<le> n \<and> n \<le> 60 \<or> 62 \<le> n \<and> n \<le> 126 then QP_PLAIN else QP_QUOTED)"

lemma qpclass_eq: "qpclass = map qp_class_of [0..<256]"
  by code_simp

lemma qpclass_nth: "qpclass ! unat (c :: u8) = qp_class_of (unat c)"
  using unat_u8_less [of c] by (simp add: qpclass_eq)

lemma qp_hex:
  "list_all (\<lambda>n. qpunbase ! unat (qpbase ! n) = of_nat n \<and> qpunbase ! unat (qpbase ! n) \<le> 15
     \<and> qpbase ! n \<noteq> CR \<and> qpbase ! n \<noteq> EQ \<and> qpbase ! n \<noteq> LF \<and> qpclass ! unat (qpbase ! n) = QP_PLAIN) [0..<16]"
  by code_simp

lemma nibble_less: "unat (drop_bit 4 (c :: u8)) < 16" "unat (c AND 0x0F) < 16"
proof -
  show "unat (drop_bit 4 c) < 16"
    unfolding unat_drop_bit_eq using unat_u8_less [of c] by (simp add: drop_bit_eq_div)
  have "c AND 0x0F = take_bit 4 c" by (simp add: take_bit_eq_mask mask_eq_exp_minus_1)
  then show "unat (c AND 0x0F) < 16"
    using take_bit_nat_less_exp [of 4 "unat c"] by (simp add: unsigned_take_bit_eq)
qed

lemma qp_hex_word:
  assumes "unat (w :: u8) < 16"
  shows "qpunbase ! unat (qpbase ! unat w) = w" "w \<le> 15" "qpbase ! unat w \<noteq> CR"
    "qpbase ! unat w \<noteq> EQ" "qpbase ! unat w \<noteq> LF"
proof -
  have "unat w \<in> set [0..<16]" using assms by simp
  then have "qpunbase ! unat (qpbase ! unat w) = of_nat (unat w) \<and> qpbase ! unat w \<noteq> CR
    \<and> qpbase ! unat w \<noteq> EQ \<and> qpbase ! unat w \<noteq> LF"
    using qp_hex unfolding list_all_iff by blast
  then show "qpunbase ! unat (qpbase ! unat w) = w" "qpbase ! unat w \<noteq> CR"
    "qpbase ! unat w \<noteq> EQ" "qpbase ! unat w \<noteq> LF"
    by simp_all
  show "w \<le> 15" using assms by (simp add: word_le_nat_alt)
qed

lemma nibbles_join: "push_bit 4 (drop_bit 4 c) + (c AND 0x0F) = (c :: u8)"
proof -
  have m: "c AND 0x0F = take_bit 4 c" by (simp add: take_bit_eq_mask mask_eq_exp_minus_1)
  have "push_bit 4 (drop_bit 4 c) + take_bit 4 c = push_bit 4 (drop_bit 4 c) OR take_bit 4 c"
    by (rule disjunctive_add_eq_or) (rule bit_word_eqI, auto simp: bit_simps)
  also have "\<dots> = c"
    by (rule bit_word_eqI) (auto simp: bit_simps)
  finally show ?thesis by (simp only: m)
qed

section \<open>What the decoder makes of each piece\<close>

lemma dec_quote: "feed qpdecode [] (qpquote c) = ([], [c])"
  using qp_hex_word [OF nibble_less(1), of c] qp_hex_word [OF nibble_less(2), of c]
  by (simp add: qpquote_def qpdecode_def Let_def nibbles_join linorder_not_less [symmetric])

lemma dec_plain:
  "c = 9 \<or> 31 < c \<and> c < 127 \<Longrightarrow> c \<noteq> EQ \<Longrightarrow> feed qpdecode [] [c] = ([], [c])"
  by (auto simp: qpdecode_def Let_def)

lemma dec_CRLF: "feed qpdecode [] CRLF = ([], CRLF)"
  by (simp add: qpdecode_def CRLF_def)

lemma dec_EQCRLF: "feed qpdecode [] EQCRLF = ([], [])"
  by (simp add: qpdecode_def EQCRLF_def)

lemma qp_plainD: "qpclass ! unat c = QP_PLAIN \<Longrightarrow> 31 < c \<and> c < 127 \<and> c \<noteq> EQ"
  by (auto simp: qpclass_nth qp_class_of_def word_less_nat_alt word_unat_eq_iff split: if_splits)

lemma qp_if_lastD: "qpclass ! unat c = QP_IF_LAST \<Longrightarrow> (c = 9 \<or> 31 < c \<and> c < 127) \<and> c \<noteq> EQ"
  by (auto simp: qpclass_nth qp_class_of_def word_less_nat_alt word_unat_eq_iff split: if_splits)

lemma qp_crD: "qpclass ! unat c = QP_CR \<longleftrightarrow> c = CR"
  by (auto simp: qpclass_nth qp_class_of_def word_unat_eq_iff)

text \<open>What the atom of the encoder can hold between two bytes.\<close>

definition qp_ok :: "bytes \<Rightarrow> bool" where
  "qp_ok s \<longleftrightarrow> s = [] \<or> qpclass ! unat (hd s) = QP_CR \<and> length s = 1
     \<or> qpclass ! unat (hd s) = QP_IF_LAST \<and> length s \<le> 2"

lemma qpencode_loop_dec:
  assumes "qpencode_loop CRLF inp = (s', out)" "length inp \<le> 3"
    "inp \<noteq> [] \<Longrightarrow> qpclass ! unat (hd inp) = QP_CR \<Longrightarrow> length inp \<le> 2"
  shows "qp_ok s' \<and> (\<exists>ys. feed qpdecode [] out = ([], ys) \<and> inp = ys @ s')"
  using assms
proof (induction inp arbitrary: s' out)
  case Nil
  then show ?case by (simp add: qp_ok_def)
next
  case (Cons c rest)
  have step: "qp_ok s' \<and> (\<exists>ys. feed qpdecode [] out = ([], ys) \<and> c # rest = ys @ s')"
    if st: "qpencode_loop CRLF rest = (s', o2)" and o: "out = o1 @ o2"
      and d: "feed qpdecode [] o1 = ([], [c])" for o1 o2
  proof -
    have "length rest \<le> 2" using Cons.prems(2) by simp
    then obtain ys where "qp_ok s'" "feed qpdecode [] o2 = ([], ys)" "rest = ys @ s'"
      using Cons.IH [OF st] by auto
    then show ?thesis using feed_appendI [OF d] o by auto
  qed
  show ?case
  proof (cases "qpclass ! unat c")
    case QP_PLAIN
    then show ?thesis
      using Cons.prems(1) step [of _ "[c]"] dec_plain qp_plainD
      by (auto simp: Let_def split: prod.splits)
  next
    case QP_QUOTED
    then show ?thesis
      using Cons.prems(1) step [of _ "qpquote c"] dec_quote
      by (auto simp: Let_def split: prod.splits)
  next
    case QP_CR
    then have "length (c # rest) \<le> 2"
      using Cons.prems(3) by (metis list.sel(1) list.distinct(1))
    then have c: "c = CR" "length rest \<le> 1"
      using QP_CR qp_crD by simp_all
    consider "rest = []" | "rest = [LF]" | d where "rest = [d]" "d \<noteq> LF"
      using c(2) by (cases rest) auto
    then show ?thesis
    proof cases
      case 1
      then show ?thesis using QP_CR Cons.prems(1) by (auto simp: qp_ok_def)
    next
      case 2
      then show ?thesis using QP_CR Cons.prems(1) c dec_CRLF by (auto simp: qp_ok_def CRLF_def)
    next
      case 3
      then show ?thesis
        using Cons.prems(1) QP_CR step [of _ "qpquote c"] dec_quote
        by (auto simp: Let_def split: prod.splits)
    qed
  next
    case QP_IF_LAST
    show ?thesis
    proof (cases "length rest < 2")
      case True
      then show ?thesis using QP_IF_LAST Cons.prems(1) by (auto simp: qp_ok_def)
    next
      case False
      then obtain x y where r: "rest = [x, y]"
        using Cons.prems(2) by (cases rest; cases "tl rest") auto
      show ?thesis
      proof (cases "x = CR \<and> y = LF")
        case True
        then show ?thesis
          using QP_IF_LAST Cons.prems(1) r feed_appendI [OF dec_quote dec_CRLF, of c]
          by (auto simp: qp_ok_def CRLF_def)
      next
        case False
        obtain s2 o2 where st: "qpencode_loop CRLF rest = (s2, o2)"
          by (cases "qpencode_loop CRLF rest")
        have "\<not> (rest ! 0 = CR \<and> rest ! 1 = LF)" "\<not> length rest < 2"
          using False r by auto
        then have "s2 = s'" "out = [c] @ o2"
          using Cons.prems(1) QP_IF_LAST st by auto
        moreover have "feed qpdecode [] [c] = ([], [c])"
          using dec_plain qp_if_lastD [OF QP_IF_LAST] by blast
        ultimately show ?thesis using step [of o2 "[c]"] st by simp
      qed
    qed
  qed
qed


section \<open>Round trip\<close>

interpretation qp: stream_codec "qpencode CRLF" qppad qpdecode "[]" "\<lambda>s. s" qp_ok
proof
  fix s x s' out
  assume ok: "qp_ok s" and st: "qpencode CRLF s x = (s', out)"
  have "length (s @ [x]) \<le> 3" "qpclass ! unat (hd (s @ [x])) = QP_CR \<Longrightarrow> length (s @ [x]) \<le> 2"
    using ok by (cases "s = []"; auto simp: qp_ok_def)+
  then show "qp_ok s'" "\<exists>ys. feed qpdecode [] out = ([], ys) \<and> s @ [x] = ys @ s'"
    using qpencode_loop_dec [of "s @ [x]" s' out] st by (auto simp: qpencode_def)
next
  fix s
  have "feed qpdecode [] (concat (map (\<lambda>c. if qpclass ! unat c = QP_PLAIN then [c] else qpquote c) s))
    = ([], s)"
  proof (induction s)
    case Nil
    then show ?case by simp
  next
    case (Cons c s)
    have "feed qpdecode [] (if qpclass ! unat c = QP_PLAIN then [c] else qpquote c) = ([], [c])"
      using dec_plain [of c] qp_plainD [of c] dec_quote [of c] by auto
    from feed_appendI [OF this Cons.IH] show ?case by simp
  qed
  from feed_appendI [OF this dec_EQCRLF] this
  show "feed qpdecode [] (qppad s) = ([], s)"
    by (auto simp: qppad_def)
qed

text \<open>The encoded text never starts with a zero byte, so the test for emptiness is exact.\<close>

lemma qpquote_Cons: "\<exists>r. qpquote c = EQ # r"
  by (simp add: qpquote_def)

lemma qpclass_0: "qpclass ! 0 = QP_QUOTED"
  using qpclass_nth [of 0] by (simp add: qp_class_of_def)

lemma qp_first_not_zero: "(qpencode_loop CRLF inp = (s', out) \<longrightarrow> out \<noteq> [] \<longrightarrow> hd out \<noteq> 0)"
proof (induction inp arbitrary: s' out)
  case Nil
  then show ?case by simp
next
  case (Cons c rest)
  have "c = 0 \<Longrightarrow> qpclass ! unat c = QP_QUOTED" by (simp add: qpclass_0)
  then show ?case
    using Cons.IH qpquote_Cons [of c]
    by (cases "qpclass ! unat c")
      (auto simp: Let_def CRLF_def split: if_splits prod.splits)
qed

lemma qp_feed_first_not_zero:
  "feed (qpencode CRLF) s xs = (s', out) \<Longrightarrow> out \<noteq> [] \<Longrightarrow> hd out \<noteq> 0"
proof (induction xs arbitrary: s out)
  case Nil
  then show ?case by simp
next
  case (Cons x xs)
  obtain s1 o1 where st: "qpencode CRLF s x = (s1, o1)" by (cases "qpencode CRLF s x")
  obtain o2 where fd: "feed (qpencode CRLF) s1 xs = (s', o2)" and out: "out = o1 @ o2"
    using Cons.prems(1) st by (auto simp: case_prod_beta Let_def prod_eq_iff)
  show ?case
    using Cons.IH [OF fd] Cons.prems(2) out qp_first_not_zero [of "s @ [x]" s1 o1] st
    by (cases o1) (auto simp: qpencode_def)
qed

lemma qppad_first_not_zero: "qppad s \<noteq> [] \<Longrightarrow> hd (qppad s) \<noteq> 0"
proof (cases s)
  case (Cons c s')
  have "c = 0 \<Longrightarrow> qpclass ! unat c \<noteq> QP_PLAIN" by (simp add: qpclass_0)
  then show ?thesis using qpquote_Cons [of c] Cons by (auto simp: qppad_def)
qed (simp add: qppad_def)

lemma qp_final_ok:
  assumes "feed (qpencode CRLF) [] xs = (atom, out)" "xs \<noteq> []"
  shows "\<not> first_byte_zero (out @ qppad atom)"
proof -
  have "feed qpdecode [] (out @ qppad atom) = ([], xs)"
    using qp.round_trip [OF _ assms(1)] by (simp add: qp_ok_def)
  then have ne: "out @ qppad atom \<noteq> []" using assms(2) by auto
  then have "hd (out @ qppad atom) \<noteq> 0"
    using qp_feed_first_not_zero [OF assms(1)] qppad_first_not_zero [of atom]
    by (cases "out = []") auto
  then show ?thesis using ne by (auto simp: first_byte_zero_def split: list.splits)
qed

text \<open>
  Quoted-printable round trip: for every non-empty byte string, line breaks and
  lone carriage returns included, encoding in one final call with the default marker gives a
  text whose decoding yields exactly the byte string (the decoder is left in its idle state).
\<close>

theorem qp_roundtrip:
  assumes "xs \<noteq> []"
  shows "\<exists>e. mime_global_qp (Some xs) None None = (Some e, None)
    \<and> mime_global_unqp (Some e) (Some []) = (Some xs, Some [])"
proof -
  obtain atom out where f: "feed (qpencode CRLF) [] xs = (atom, out)"
    by (cases "feed (qpencode CRLF) [] xs")
  have d: "feed qpdecode [] (out @ qppad atom) = ([], xs)"
    using qp.round_trip [OF _ f] by (simp add: qp_ok_def)
  then show ?thesis
    using qp_final_ok [OF f assms]
    by (simp add: mime_global_qp_def mime_global_unqp_def f)
qed

theorem qp_roundtrip_witness:
  "\<exists>e. mime_global_qp (Some [32, 13, 10, 61, 13, 200, 32]) None None = (Some e, None)
    \<and> mime_global_unqp (Some e) (Some []) = (Some [32, 13, 10, 61, 13, 200, 32], Some [])"
  by (rule qp_roundtrip) simp

text \<open>
  The final call of the decoder loses data: whenever the decoded bytes start
  with a zero byte, \<open>unqp\<close> returns \<open>nil\<close> instead of them, because emptiness is tested on
  the C string; the encoded form of any such byte string shows it.
\<close>

theorem unqp_drops_leading_zero:
  "\<exists>e. mime_global_qp (Some (0 # xs)) None None = (Some e, None)
    \<and> mime_global_unqp (Some e) None = (None, None)"
proof -
  define ys where "ys = 0 # xs"
  then have "ys \<noteq> []" by simp
  obtain atom out where f: "feed (qpencode CRLF) [] ys = (atom, out)"
    by (cases "feed (qpencode CRLF) [] ys")
  have d: "feed qpdecode [] (out @ qppad atom) = ([], ys)"
    using qp.round_trip [OF _ f] by (simp add: qp_ok_def)
  have "first_byte_zero ys" by (simp add: ys_def)
  then show ?thesis
    using qp_final_ok [OF f \<open>ys \<noteq> []\<close>] d unfolding ys_def [symmetric]
    by (simp add: mime_global_qp_def mime_global_unqp_def f)
qed

end
