(* ===== verification/Lines.thy ===== *)
theory Lines
  imports Quoted "HOL-Library.Sublist"
begin

text \<open>
  The line filters of \<open>socket/mime.c\<close>: the wrapper for plain and Base64 text, the conversion
  of line breaks, the dot stuffing of SMTP; and what the two wrappers do to line lengths and
  to the decoded text.
\<close>

section \<open>Filters\<close>

definition wrp_step :: "int \<Rightarrow> int \<Rightarrow> u8 \<Rightarrow> int \<times> bytes" where
  "wrp_step len left c =
     (if c = CR then (left, [])
      else if c = LF then (len, CRLF)
      else if left \<le> 0 then (len - 1, CRLF @ [c])
      else (left - 1, [c]))"

definition mime_global_wrp :: "int \<Rightarrow> bytes option \<Rightarrow> int option \<Rightarrow> bytes option \<times> int" where
  "mime_global_wrp left arg2 arg3 =
     (let len = (case arg3 of None \<Rightarrow> 76 | Some n \<Rightarrow> n)
      in case arg2 of
           None \<Rightarrow> (if left < len then Some CRLF else None, len)
         | Some input \<Rightarrow>
             (let (left, out) = feed (wrp_step len) left input in (Some out, left)))"

text \<open>
  The context of the line-break converter is the last byte when it was an unpaired
  candidate, and 0 otherwise.
\<close>

definition eolcandidate :: "int \<Rightarrow> bool" where
  "eolcandidate c \<longleftrightarrow> c = 13 \<or> c = 10"

definition eolprocess :: "bytes \<Rightarrow> int \<Rightarrow> u8 \<Rightarrow> int \<times> bytes" where
  "eolprocess marker last_c c =
     (let c' = uint c
      in if eolcandidate c' then
           (if eolcandidate last_c then (0, if c' = last_c then marker else [])
            else (c', marker))
         else (0, [c]))"

definition mime_global_eol :: "int \<Rightarrow> bytes option \<Rightarrow> bytes option \<Rightarrow> bytes option \<times> int" where
  "mime_global_eol ctx arg2 arg3 =
     (let marker = (case arg3 of None \<Rightarrow> CRLF | Some m \<Rightarrow> m)
      in case arg2 of
           None \<Rightarrow> (None, 0)
         | Some input \<Rightarrow> (let (ctx, out) = feed (eolprocess marker) ctx input in (Some out, ctx)))"

definition dot :: "nat \<Rightarrow> u8 \<Rightarrow> nat \<times> bytes" where
  "dot state c =
     (if c = CR then (1, [c])
      else if c = LF then (if state = 1 then 2 else 0, [c])
      else if c = 46 then (0, [c] @ (if state = 2 then [46] else []))
      else (0, [c]))"

definition mime_global_dot :: "nat \<Rightarrow> bytes option \<Rightarrow> bytes option \<times> nat" where
  "mime_global_dot state arg2 =
     (case arg2 of
        None \<Rightarrow> (None, 2)
      | Some input \<Rightarrow> (let (state, out) = feed dot state input in (Some out, state)))"

section \<open>Lines of a text\<close>

text \<open>The lines of a text, cut at its CRLF pairs; there is always a last, possibly empty, line.\<close>

fun split_crlf :: "bytes \<Rightarrow> bytes list" where
  "split_crlf [] = [[]]"
| "split_crlf (a # rest) =
     (if a = CR \<and> rest \<noteq> [] \<and> hd rest = LF then [] # split_crlf (tl rest)
      else (case split_crlf rest of [] \<Rightarrow> [[a]] | l # ls \<Rightarrow> (a # l) # ls))"

lemma split_crlf_ne [simp]: "split_crlf xs \<noteq> []"
  by (cases xs) (auto split: list.splits)

lemma split_crlf_char:
  "c \<noteq> CR \<Longrightarrow> split_crlf (c # xs) = (c # hd (split_crlf xs)) # tl (split_crlf xs)"
  by (cases "split_crlf xs") auto

lemma split_crlf_CRLF: "split_crlf (CRLF @ xs) = [] # split_crlf xs"
  by (simp add: CRLF_def)

text \<open>
  \<open>fits len left ls\<close>: the first line takes at most \<open>left\<close> bytes, every other line at most
  \<open>len\<close>; \<open>room len left ls\<close> is what is left after the last line.
\<close>

definition fits :: "int \<Rightarrow> int \<Rightarrow> bytes list \<Rightarrow> bool" where
  "fits len left ls \<longleftrightarrow> int (length (hd ls)) \<le> left \<and> (\<forall>l \<in> set (tl ls). int (length l) \<le> len)"

definition room :: "int \<Rightarrow> int \<Rightarrow> bytes list \<Rightarrow> int" where
  "room len left ls = (if tl ls = [] then left else len) - int (length (last ls))"

lemma fits_char:
  assumes "c \<noteq> CR" "fits len (left - 1) (split_crlf xs)"
  shows "fits len left (split_crlf (c # xs))"
  using assms(2) unfolding split_crlf_char [OF assms(1)] by (simp add: fits_def)

lemma fits_CRLF:
  assumes "0 \<le> left" "fits len len (split_crlf xs)"
  shows "fits len left (split_crlf (CRLF @ xs))"
proof -
  have "l \<in> set (split_crlf xs) \<Longrightarrow> int (length l) \<le> len" for l
    using assms(2) split_crlf_ne [of xs]
    by (cases "split_crlf xs") (auto simp: fits_def)
  then show ?thesis unfolding split_crlf_CRLF using assms(1) by (simp add: fits_def)
qed

lemma room_char: "c \<noteq> CR \<Longrightarrow> room len left (split_crlf (c # xs)) = room len (left - 1) (split_crlf xs)"
  using split_crlf_ne [of xs]
  by (cases "split_crlf xs") (auto simp: room_def split_crlf_char)

lemma room_CRLF: "room len left (split_crlf (CRLF @ xs)) = room len len (split_crlf xs)"
  using split_crlf_ne [of xs]
  by (cases "split_crlf xs") (auto simp: room_def split_crlf_CRLF)

lemma feed_Cons:
  assumes "feed step s (x # xs) = (s', out)"
  obtains s1 o1 o2 where "step s x = (s1, o1)" "feed step s1 xs = (s', o2)" "out = o1 @ o2"
  using assms by (auto simp: Let_def split: prod.splits)

section \<open>Wrapping\<close>

definition not_break :: "u8 \<Rightarrow> bool" where
  "not_break c \<longleftrightarrow> c \<noteq> CR \<and> c \<noteq> LF"

lemma not_break_simps [simp]: "\<not> not_break CR" "\<not> not_break LF"
  "c \<noteq> CR \<Longrightarrow> c \<noteq> LF \<Longrightarrow> not_break c"
  by (simp_all add: not_break_def)

lemma wrp_lines:
  assumes "feed (wrp_step len) left xs = (left', out)" "0 \<le> left" "left \<le> len" "1 \<le> len"
  shows "fits len left (split_crlf out) \<and> left' = room len left (split_crlf out)
    \<and> filter not_break out = filter not_break xs"
  using assms
proof (induction xs arbitrary: left out)
  case Nil
  then show ?case by (simp add: fits_def room_def)
next
  case (Cons c xs)
  obtain l1 o1 o2 where st: "wrp_step len left c = (l1, o1)"
    and fd: "feed (wrp_step len) l1 xs = (left', o2)" and out: "out = o1 @ o2"
    using Cons.prems(1) by (rule feed_Cons)
  have l1: "0 \<le> l1" "l1 \<le> len"
    using st Cons.prems(2-4) by (auto simp: wrp_step_def split: if_splits)
  note IH = Cons.IH [OF fd l1 Cons.prems(4)]
  have crlf: "filter not_break CRLF = []" by (simp add: CRLF_def)
  consider "c = CR" | "c = LF" | "c \<noteq> CR" "c \<noteq> LF" "left \<le> 0" | "c \<noteq> CR" "c \<noteq> LF" "0 < left"
    by fastforce
  then show ?case
  proof cases
    case 1
    then show ?thesis using st IH out by (simp add: wrp_step_def)
  next
    case 2
    then show ?thesis
      using st IH out Cons.prems(2) fits_CRLF room_CRLF crlf
      by (auto simp: wrp_step_def)
  next
    case 3
    then have "l1 = len - 1" "out = CRLF @ (c # o2)" using st out by (auto simp: wrp_step_def)
    then show ?thesis
      using 3 IH Cons.prems(2) fits_char [of c len len o2] fits_CRLF [of left len "c # o2"]
        room_char [of c len len o2] room_CRLF [of len left "c # o2"] crlf
      by auto
  next
    case 4
    then have "l1 = left - 1" "out = c # o2" using st out by (auto simp: wrp_step_def)
    then show ?thesis
      using 4 IH fits_char [of c len left o2] room_char [of c len left o2]
      by auto
  qed
qed

text \<open>
  The wrapper keeps its promise: started with at most \<open>len\<close> bytes left in the
  current line, no line of its output is longer than \<open>len\<close>, the first one not longer than
  what was left; the number it returns is the room left in the last line; and apart from
  line breaks the text is unchanged.
\<close>

theorem mime_global_wrp_lines:
  assumes "mime_global_wrp left (Some xs) (Some len) = (Some out, left')"
    and "0 \<le> left" "left \<le> len" "1 \<le> len"
  shows "fits len left (split_crlf out) \<and> left' = room len left (split_crlf out)
    \<and> filter not_break out = filter not_break xs"
  using assms wrp_lines by (simp add: mime_global_wrp_def split: prod.splits)

theorem mime_global_wrp_lines_witness:
  "fits 3 2 (split_crlf [65, 66, 13, 10, 67, 13, 10, 68]) \<and> 2 = room 3 2 (split_crlf [65, 66, 13, 10, 67, 13, 10, 68])
    \<and> filter not_break [65, 66, 13, 10, 67, 13, 10, 68] = filter not_break [65, 66, 67, 10, 68]"
proof -
  have "mime_global_wrp 2 (Some [65, 66, 67, 10, 68]) (Some 3)
    = (Some [65, 66, 13, 10, 67, 13, 10, 68], 2)"
    by code_simp
  then show ?thesis by (rule mime_global_wrp_lines) simp_all
qed

lemma qpwrp_lines:
  assumes "feed (qpwrp_step len) left xs = (left', out)" "1 \<le> left" "left \<le> len" "2 \<le> len"
  shows "fits len left (split_crlf out) \<and> 1 \<le> left' \<and> left' \<le> len"
  using assms
proof (induction xs arbitrary: left out)
  case Nil
  then show ?case by (simp add: fits_def)
next
  case (Cons c xs)
  obtain l1 o1 o2 where st: "qpwrp_step len left c = (l1, o1)"
    and fd: "feed (qpwrp_step len) l1 xs = (left', o2)" and out: "out = o1 @ o2"
    using Cons.prems(1) by (rule feed_Cons)
  have l1: "1 \<le> l1" "l1 \<le> len"
    using st Cons.prems(2-4) by (auto simp: qpwrp_step_def split: if_splits)
  note IH = Cons.IH [OF fd l1 Cons.prems(4)]
  have soft: "fits len len (split_crlf ys) \<Longrightarrow> fits len left (split_crlf (EQCRLF @ ys))" for ys
    using fits_char [of EQ len left "CRLF @ ys"] fits_CRLF [of "left - 1" len ys] Cons.prems(2)
    by (simp add: EQCRLF_def CRLF_def)
  consider "c = CR" | "c = LF" | "c \<noteq> CR" "out = EQCRLF @ (c # o2)" "l1 = len - 1"
    | "c \<noteq> CR" "out = c # o2" "l1 = left - 1"
    using st out by (auto simp: qpwrp_step_def split: if_splits)
  then show ?case
  proof cases
    case 1
    then show ?thesis using st IH out by (simp add: qpwrp_step_def)
  next
    case 2
    then show ?thesis
      using st IH out Cons.prems(2) fits_CRLF [of left len o2] by (auto simp: qpwrp_step_def)
  next
    case 3
    then show ?thesis using IH fits_char [of c len len o2] soft [of "c # o2"] by simp
  next
    case 4
    then show ?thesis using IH fits_char [of c len left o2] by simp
  qed
qed

text \<open>
  The soft wrapper bounds lines too: no line of its output, the soft break's
  equals sign included, is longer than \<open>len\<close> bytes (the first one not longer than what was
  left), and the room it reports stays between 1 and \<open>len\<close>.
\<close>

theorem mime_global_qpwrp_lines:
  assumes "mime_global_qpwrp left (Some xs) (Some len) = (Some out, left')"
    and "1 \<le> left" "left \<le> len" "2 \<le> len"
  shows "fits len left (split_crlf out) \<and> 1 \<le> left' \<and> left' \<le> len"
  using assms qpwrp_lines by (simp add: mime_global_qpwrp_def split: prod.splits)

theorem mime_global_qpwrp_lines_witness:
  "fits 4 2 (split_crlf [65, 61, 13, 10, 61, 48, 48]) \<and> (1::int) \<le> 1 \<and> (1::int) \<le> 4"
proof -
  have "mime_global_qpwrp 2 (Some [65, 61, 48, 48]) (Some 4) = (Some [65, 61, 13, 10, 61, 48, 48], 1)"
    by code_simp
  then show ?thesis by (rule mime_global_qpwrp_lines) simp_all
qed


section \<open>Line breaks\<close>

text \<open>
  What counts as one line break: a pair of two different candidates, or one candidate that
  is not followed by a different one; two equal candidates are two line breaks, taken together.
\<close>

abbreviation brk :: "u8 \<Rightarrow> bool" where "brk c \<equiv> c = CR \<or> c = LF"

fun eol_spec :: "bytes \<Rightarrow> bytes \<Rightarrow> bytes" where
  "eol_spec m [] = []"
| "eol_spec m [c] = (if brk c then m else [c])"
| "eol_spec m (c # d # xs) =
     (if brk c then
        (if brk d then (if c = d then m @ m else m) @ eol_spec m xs
         else m @ eol_spec m (d # xs))
      else c # eol_spec m (d # xs))"

lemma eolcandidate_uint: "eolcandidate (uint (c :: u8)) \<longleftrightarrow> brk c"
  by (auto simp: eolcandidate_def word_uint_eq_iff)

lemma eolcandidate_num [simp]: "\<not> eolcandidate 0" "eolcandidate 10" "eolcandidate 13"
  by (simp_all add: eolcandidate_def)

lemma uint_eq_word: "uint c = uint d \<longleftrightarrow> c = d"
  by (simp add: word_uint_eq_iff)

lemma eol_feed: "snd (feed (eolprocess m) 0 xs) = eol_spec m xs"
proof (induction m xs rule: eol_spec.induct)
  case (2 m c)
  then show ?case by (simp add: eolprocess_def eolcandidate_uint)
next
  case (3 m c d xs)
  show ?case
    using 3 by (auto simp: eolprocess_def eolcandidate_uint uint_eq_word Let_def split: prod.splits)
qed simp

text \<open>
  A one-call line-break conversion follows the grammar of line breaks: a pair of
  different candidates gives one marker, a repeated candidate one marker each, a lone one a
  marker, and every other byte is kept.
\<close>

theorem mime_global_eol_spec:
  "fst (mime_global_eol 0 (Some xs) (Some m)) = Some (eol_spec m xs)"
  using eol_feed [of m xs] by (simp add: mime_global_eol_def Let_def case_prod_beta)

inductive canonical :: "bytes \<Rightarrow> bool" where
  canonical_Nil: "canonical []"
| canonical_char: "\<not> brk c \<Longrightarrow> canonical xs \<Longrightarrow> canonical (c # xs)"
| canonical_CRLF: "canonical xs \<Longrightarrow> canonical (CRLF @ xs)"

lemma canonical_eol_spec: "canonical (eol_spec CRLF xs)"
proof (induction "CRLF" xs rule: eol_spec.induct)
  case (2 c)
  then show ?case
    using canonical_CRLF [OF canonical_Nil] by (auto intro: canonical.intros)
next
  case (3 c d xs)
  then show ?case
    by (auto intro: canonical.intros)
qed (auto intro: canonical.intros)

lemma eol_spec_char: "\<not> brk c \<Longrightarrow> eol_spec m (c # xs) = c # eol_spec m xs"
  by (cases xs) auto

lemma eol_spec_canonical: "canonical xs \<Longrightarrow> eol_spec CRLF xs = xs"
  by (induction rule: canonical.induct) (auto simp: eol_spec_char CRLF_def)

text \<open>
  Converting to CRLF is idempotent: a text that went through the converter once
  is left as it is by a second pass.
\<close>

theorem mime_global_eol_idempotent:
  assumes "fst (mime_global_eol 0 (Some xs) None) = Some ys"
  shows "fst (mime_global_eol 0 (Some ys) None) = Some ys"
proof -
  have eq: "fst (mime_global_eol 0 (Some zs) None) = Some (eol_spec CRLF zs)" for zs
    using eol_feed [of CRLF zs] by (simp add: mime_global_eol_def Let_def case_prod_beta)
  then show ?thesis
    using assms eol_spec_canonical [OF canonical_eol_spec, of xs] by simp
qed

theorem mime_global_eol_idempotent_witness:
  "fst (mime_global_eol 0 (Some [65, 13, 10, 13, 10]) None) = Some [65, 13, 10, 13, 10]"
proof -
  have "fst (mime_global_eol 0 (Some [65, 10, 13]) None) = Some [65, 13, 10]" by code_simp
  have "fst (mime_global_eol 0 (Some [65, 10, 10]) None) = Some [65, 13, 10, 13, 10]" by code_simp
  then show ?thesis by (rule mime_global_eol_idempotent)
qed

section \<open>Dot stuffing\<close>

text \<open>In a stuffed text a dot at the start of a line is always followed by another dot.\<close>

fun stuffed :: "bytes \<Rightarrow> bool" where
  "stuffed [] = True"
| "stuffed (x # xs) =
     ((prefix [CR, LF, 46] (x # xs) \<longrightarrow> prefix [CR, LF, 46, 46] (x # xs)) \<and> stuffed xs)"

lemma stuffed_no_terminator: "stuffed xs \<Longrightarrow> \<not> sublist [CR, LF, 46, CR, LF] xs"
proof (induction xs)
  case (Cons x xs)
  show ?case
  proof
    assume "sublist [CR, LF, 46, CR, LF] (x # xs)"
    then have "prefix [CR, LF, 46, CR, LF] (x # xs)"
      using Cons by (auto simp: sublist_Cons_right)
    then obtain zs where "x # xs = [CR, LF, 46, CR, LF] @ zs" by (rule prefixE)
    then show False using Cons.prems by simp
  qed
qed simp

text \<open>The bytes already written that the state remembers.\<close>

fun dot_context :: "nat \<Rightarrow> bytes" where
  "dot_context n = (if n = 1 then [CR] else if n = 2 then [CR, LF] else [])"

lemma dot_feed_stuffed:
  "state \<le> 2 \<Longrightarrow> stuffed (dot_context state @ snd (feed dot state xs))"
proof (induction xs arbitrary: state)
  case Nil
  then show ?case by simp
next
  case (Cons c xs)
  have IH: "stuffed (snd (feed dot 0 xs))" "stuffed (CR # snd (feed dot 1 xs))"
    "stuffed (CR # LF # snd (feed dot 2 xs))"
    using Cons.IH [of 0] Cons.IH [of 1] Cons.IH [of 2] by simp_all
  have st: "dot s CR = (1, [CR])" "dot s LF = (if s = 1 then 2 else 0, [LF])"
    "dot s 46 = (0, [46] @ (if s = 2 then [46] else []))"
    "d \<notin> {CR, LF, 46} \<Longrightarrow> dot s d = (0, [d])" for s d
    by (simp_all add: dot_def)
  consider "state = 0" | "state = 1" | "state = 2" using Cons.prems by fastforce
  moreover have "c = CR \<or> c = LF \<or> c = 46 \<or> c \<notin> {CR, LF, 46}" by blast
  ultimately show ?case
    using IH by cases (elim disjE; simp add: snd_feed_Cons st del: feed.simps)+
qed

text \<open>
  Property C36. SMTP safety: a message stuffed from the initial state of a body (just after a
  line break) cannot end the transmission early, the end marker \<open>CRLF . CRLF\<close> does not occur
  in it, not even across the line break that precedes it.
\<close>

theorem mime_global_dot_safe:
  assumes "mime_global_dot 2 (Some xs) = (Some out, state)"
  shows "\<not> sublist [CR, LF, 46, CR, LF] (CRLF @ out)"
  using assms stuffed_no_terminator [OF dot_feed_stuffed [of 2 xs]]
  by (simp add: mime_global_dot_def CRLF_def split: prod.splits)

theorem mime_global_dot_safe_witness:
  "\<not> sublist [CR, LF, 46, CR, LF] (CRLF @ [46, 46, 13, 10, 46, 46])"
proof -
  have "mime_global_dot 2 (Some [46, 13, 10, 46]) = (Some [46, 46, 13, 10, 46, 46], 0)"
    by code_simp
  then show ?thesis by (rule mime_global_dot_safe)
qed


section \<open>Soft breaks and the encoded text\<close>

text \<open>An encoded text is a sequence of plain bytes, escapes, soft breaks and line breaks.\<close>

inductive qp_token :: "bytes \<Rightarrow> bool" where
  qp_token_plain: "c = 9 \<or> 31 < c \<and> c < 127 \<Longrightarrow> c \<noteq> EQ \<Longrightarrow> qp_token [c]"
| qp_token_quote: "qp_token (qpquote c)"
| qp_token_soft: "qp_token EQCRLF"
| qp_token_break: "qp_token CRLF"

inductive qp_text :: "bytes \<Rightarrow> bool" where
  qp_text_Nil: "qp_text []"
| qp_text_token: "qp_token t \<Longrightarrow> qp_text xs \<Longrightarrow> qp_text (t @ xs)"

lemma qp_text_append: "qp_text xs \<Longrightarrow> qp_text ys \<Longrightarrow> qp_text (xs @ ys)"
  by (induction rule: qp_text.induct) (auto intro: qp_text.intros)

lemma qp_text_single: "qp_token t \<Longrightarrow> qp_text t"
  using qp_text_token [OF _ qp_text_Nil] by simp

lemma qp_text_loop: "qpencode_loop CRLF inp = (s', out) \<Longrightarrow> qp_text out"
proof (induction inp arbitrary: s' out)
  case Nil
  then show ?case by (auto intro: qp_text.intros)
next
  case (Cons c rest)
  obtain s2 o2 where st: "qpencode_loop CRLF rest = (s2, o2)" by (cases "qpencode_loop CRLF rest")
  note IH = Cons.IH [OF st]
  have q: "qp_text (qpquote c @ o2)" "qp_text CRLF" "qp_text (qpquote c @ CRLF)" "qp_text []"
    using IH qp_text_token [OF qp_token_quote] qp_text_single [OF qp_token_break] qp_text_Nil
    by auto
  have p: "qpclass ! unat c = QP_PLAIN \<or> qpclass ! unat c = QP_IF_LAST \<Longrightarrow> qp_text (c # o2)"
    using IH qp_plainD [of c] qp_if_lastD [of c]
      qp_text_token [OF qp_token_plain, of c o2] by auto
  show ?case
    using Cons.prems st q p
    by (cases "qpclass ! unat c") (auto split: if_splits)
qed

lemma qp_text_feed: "feed (qpencode CRLF) s xs = (s', out) \<Longrightarrow> qp_text out"
proof (induction xs arbitrary: s out)
  case Nil
  then show ?case by (auto intro: qp_text.intros)
next
  case (Cons x xs)
  obtain s1 o1 o2 where st: "qpencode CRLF s x = (s1, o1)"
    and fd: "feed (qpencode CRLF) s1 xs = (s', o2)" and out: "out = o1 @ o2"
    using Cons.prems by (rule feed_Cons)
  have "qp_text o1" using st unfolding qpencode_def by (rule qp_text_loop)
  then show ?case using Cons.IH [OF fd] out by (simp add: qp_text_append)
qed

lemma qp_text_pad: "qp_text (qppad s)"
proof -
  have "qp_token (if qpclass ! unat c = QP_PLAIN then [c] else qpquote c)" for c
    using qp_plainD [of c] by (auto intro: qp_token.intros)
  then have "qp_text (concat (map (\<lambda>c. if qpclass ! unat c = QP_PLAIN then [c] else qpquote c) s))"
    by (induction s) (auto intro: qp_text.intros simp: qp_text_append qp_text_single)
  then show ?thesis
    by (auto simp: qppad_def intro: qp_text_append qp_text_single qp_token.intros)
qed

text \<open>
  Wrapping one token writes the token, perhaps after a soft break: an escape is never cut.
\<close>

lemma qpwrp_token:
  assumes "qp_token t" "1 \<le> left" "left \<le> len" "4 \<le> len"
  shows "\<exists>l' s. feed (qpwrp_step len) left t = (l', s @ t) \<and> (s = [] \<or> s = EQCRLF)
    \<and> 1 \<le> l' \<and> l' \<le> len"
  using assms
proof (cases rule: qp_token.cases)
  case (qp_token_plain c)
  then have "c \<noteq> CR" "c \<noteq> LF" by auto
  then show ?thesis using qp_token_plain assms by (auto simp: qpwrp_step_def)
next
  case (qp_token_quote c)
  note hex = qp_hex_word [OF nibble_less(1), of c] qp_hex_word [OF nibble_less(2), of c]
  show ?thesis using qp_token_quote assms hex by (auto simp: qpquote_def qpwrp_step_def)
next
  case qp_token_soft
  then show ?thesis using assms by (auto simp: EQCRLF_def CRLF_def qpwrp_step_def)
next
  case qp_token_break
  then show ?thesis using assms by (auto simp: CRLF_def qpwrp_step_def)
qed

lemma dec_token: "qp_token t \<Longrightarrow> \<exists>y. feed qpdecode [] t = ([], y)"
proof (induction rule: qp_token.induct)
  case (qp_token_plain c)
  then show ?case using dec_plain by blast
qed (use dec_quote dec_EQCRLF dec_CRLF in blast)+

lemma qpwrp_decodes:
  assumes "qp_text xs" "feed (qpwrp_step len) left xs = (left', out)"
    "1 \<le> left" "left \<le> len" "4 \<le> len"
  shows "feed qpdecode [] out = feed qpdecode [] xs"
  using assms
proof (induction arbitrary: left out rule: qp_text.induct)
  case qp_text_Nil
  then show ?case by simp
next
  case (qp_text_token t xs)
  obtain l1 s where t: "feed (qpwrp_step len) left t = (l1, s @ t)" "s = [] \<or> s = EQCRLF"
    "1 \<le> l1" "l1 \<le> len"
    using qpwrp_token [OF qp_text_token.hyps(1) qp_text_token.prems(2-4)] by blast
  obtain o2 where o2: "feed (qpwrp_step len) l1 xs = (left', o2)" "out = (s @ t) @ o2"
    using qp_text_token.prems(1) t(1) by (auto simp: feed_append Let_def split: prod.splits)
  obtain y where y: "feed qpdecode [] t = ([], y)"
    using dec_token [OF qp_text_token.hyps(1)] by blast
  have "feed qpdecode [] (s @ t) = ([], y)"
    using t(2) y feed_appendI [OF dec_EQCRLF y] by auto
  then show ?case
    using qp_text_token.IH [OF o2(1) t(3,4) qp_text_token.prems(4)] y
    unfolding o2(2) by (simp add: feed_append [of qpdecode "[]"] del: append_assoc)
qed

text \<open>
  Property C35. The whole chain for a mail body: encoding a non-empty byte string, wrapping
  the encoded text to lines of \<open>len\<close> bytes and decoding it gives the byte string back, for
  any line length of at least 4 and any number of bytes left in the first line.
\<close>

theorem qp_wrap_roundtrip:
  assumes "xs \<noteq> []" "1 \<le> left" "left \<le> len" "4 \<le> len"
  shows "\<exists>e w n. mime_global_qp (Some xs) None None = (Some e, None)
    \<and> mime_global_qpwrp left (Some e) (Some len) = (Some w, n)
    \<and> mime_global_unqp (Some w) (Some []) = (Some xs, Some [])"
proof -
  obtain atom out where f: "feed (qpencode CRLF) [] xs = (atom, out)"
    by (cases "feed (qpencode CRLF) [] xs")
  define e where "e = out @ qppad atom"
  obtain n w where w: "feed (qpwrp_step len) left e = (n, w)"
    by (cases "feed (qpwrp_step len) left e")
  have "feed qpdecode [] e = ([], xs)"
    using qp.round_trip [OF _ f] by (simp add: qp_ok_def e_def)
  moreover have "qp_text e"
    using qp_text_feed [OF f] qp_text_pad by (simp add: e_def qp_text_append)
  ultimately have d: "feed qpdecode [] w = ([], xs)"
    using qpwrp_decodes [OF _ w assms(2-4)] by simp
  have "mime_global_qp (Some xs) None None = (Some e, None)"
    using qp_final_ok [OF f assms(1)] by (simp add: mime_global_qp_def f e_def)
  then show ?thesis using w d by (simp add: mime_global_qpwrp_def mime_global_unqp_def)
qed

theorem qp_wrap_roundtrip_witness:
  "\<exists>e w n. mime_global_qp (Some [61, 61, 65]) None None = (Some e, None)
    \<and> mime_global_qpwrp 2 (Some e) (Some 5) = (Some w, n)
    \<and> mime_global_unqp (Some w) (Some []) = (Some [61, 61, 65], Some [])"
  by (rule qp_wrap_roundtrip) simp_all

end
