(* ===== verification/Numbers.thy ===== *)
theory Numbers
  imports Prelude
begin

text \<open>
  \<open>lua_Number\<close> is a C \<open>double\<close>: its 64 bits, read as IEEE 754 binary64. Only what the table
  needs is defined: equality, the NaN test, and the conversions from and to a C \<open>int\<close>.
\<close>

unbundle bit_operations_syntax

type_synonym lua_Number = u64

section \<open>Fields and tests\<close>

definition num_exp :: "lua_Number \<Rightarrow> nat" where
  "num_exp w = unat w div 2 ^ 52 mod 2 ^ 11"

definition num_man :: "lua_Number \<Rightarrow> nat" where
  "num_man w = unat w mod 2 ^ 52"

definition num_neg :: "lua_Number \<Rightarrow> bool" where
  "num_neg w \<longleftrightarrow> 2 ^ 63 \<le> unat w"

definition num_zero :: "lua_Number \<Rightarrow> bool" where
  "num_zero w \<longleftrightarrow> num_exp w = 0 \<and> num_man w = 0"

definition num_nan :: "lua_Number \<Rightarrow> bool" where
  "num_nan w \<longleftrightarrow> num_exp w = 2047 \<and> num_man w \<noteq> 0"

text \<open>IEEE equality: a NaN equals nothing, the two zeros are equal.\<close>

definition luai_numeq :: "lua_Number \<Rightarrow> lua_Number \<Rightarrow> bool" where
  "luai_numeq a b \<longleftrightarrow>
     \<not> num_nan a \<and> \<not> num_nan b \<and> (a = b \<or> num_zero a \<and> num_zero b)"

definition luai_numisnan :: "lua_Number \<Rightarrow> bool" where
  "luai_numisnan a \<longleftrightarrow> \<not> luai_numeq a a"

lemma luai_numisnan_iff: "luai_numisnan a \<longleftrightarrow> num_nan a"
  by (simp add: luai_numisnan_def luai_numeq_def)

lemma numeq_sym: "luai_numeq a b \<longleftrightarrow> luai_numeq b a"
  by (auto simp: luai_numeq_def)

lemma numeq_trans: "luai_numeq a b \<Longrightarrow> luai_numeq b c \<Longrightarrow> luai_numeq a c"
  by (auto simp: luai_numeq_def)

lemma numeq_refl: "luai_numeq a a \<longleftrightarrow> \<not> num_nan a"
  by (simp add: luai_numeq_def)

section \<open>Conversions\<close>

text \<open>Position of the leading bit.\<close>

fun top_bit :: "nat \<Rightarrow> nat" where
  "top_bit n = (if n \<le> 1 then 0 else Suc (top_bit (n div 2)))"

declare top_bit.simps [simp del]

text \<open>\<open>cast_num\<close> of an \<open>int\<close>, which is exact.\<close>

definition cast_num :: "int \<Rightarrow> lua_Number" where
  "cast_num i =
     (if i = 0 then 0
      else (let n = nat \<bar>i\<bar>; e = top_bit n
            in of_nat ((if i < 0 then 2 ^ 63 else 0) + (e + 1023) * 2 ^ 52
                       + (n - 2 ^ e) * 2 ^ (52 - e))))"

text \<open>
  \<open>(int)d\<close>: truncation towards zero. Outside the range of \<open>int\<close> (and for a NaN) C leaves
  the result undefined; the model takes the value the x86-64 instruction gives. The code
  only uses the result after testing that it converts back to the same number.
\<close>

definition lua_number2int :: "lua_Number \<Rightarrow> int" where
  "lua_number2int d =
     (let e = num_exp d; m = 2 ^ 52 + num_man d
      in if e < 1023 then 0
         else if e \<le> 1053 then
           (let n = int (m div 2 ^ (1075 - e)) in if num_neg d then - n else n)
         else - (2 ^ 31))"

lemma top_bit_bounds: "0 < n \<Longrightarrow> 2 ^ top_bit n \<le> n \<and> n < 2 * 2 ^ top_bit n"
proof (induction n rule: top_bit.induct)
  case (1 n)
  show ?case
  proof (cases "n \<le> 1")
    case True
    then have "n = 1" using 1(2) by simp
    moreover have "top_bit 1 = 0" by (subst top_bit.simps) simp
    ultimately show ?thesis by simp
  next
    case False
    then have "2 ^ top_bit (n div 2) \<le> n div 2 \<and> n div 2 < 2 * 2 ^ top_bit (n div 2)"
      using 1 by simp
    then show ?thesis using False by (auto simp: top_bit.simps [of n])
  qed
qed

lemma top_bit_less: "0 < n \<Longrightarrow> n < 2 ^ k \<Longrightarrow> top_bit n < k"
  using top_bit_bounds [of n] by (metis leD linorder_not_less order_le_less_trans
      power_increasing one_le_numeral)

lemma cast_num_fields:
  assumes "i \<noteq> 0" "\<bar>i\<bar> \<le> 2 ^ 31"
  defines "n \<equiv> nat \<bar>i\<bar>"
  defines "e \<equiv> top_bit n"
  shows "num_exp (cast_num i) = e + 1023" "num_man (cast_num i) = (n - 2 ^ e) * 2 ^ (52 - e)"
    "num_neg (cast_num i) \<longleftrightarrow> i < 0" "e \<le> 31" "2 ^ e \<le> n" "n < 2 * 2 ^ e"
proof -
  have n: "0 < n" "n \<le> 2 ^ 31" using assms(1,2) by (auto simp: n_def nat_le_iff)
  then show e: "e \<le> 31"
    using top_bit_less [of n 32] by (simp add: e_def)
  show b: "2 ^ e \<le> n" "n < 2 * 2 ^ e" using top_bit_bounds [OF n(1)] by (simp_all add: e_def)
  define m where "m = (n - 2 ^ e) * 2 ^ (52 - e)"
  have "n - 2 ^ e < 2 ^ e" using b by simp
  then have "m < 2 ^ e * 2 ^ (52 - e)" by (simp add: m_def)
  also have "\<dots> = 2 ^ 52" using e by (simp flip: power_add)
  finally have m: "m < 2 ^ 52" .
  define s where "s = (if i < 0 then 2 ^ 63 else 0 :: nat)"
  define N where "N = s + (e + 1023) * 2 ^ 52 + m"
  have "cast_num i = of_nat N"
    unfolding N_def m_def s_def e_def n_def cast_num_def Let_def using assms(1) by (simp only: if_False)
  moreover have "N < 2 ^ 64"
    using m e by (simp add: s_def N_def)
  ultimately have "unat (cast_num i) = N"
    by (simp add: unat_of_nat)
  then have u: "unat (cast_num i) = s + (e + 1023) * 2 ^ 52 + m" by (simp only: N_def)
  define k where "k = (if i < 0 then 2048 else 0) + (e + 1023)"
  have u': "unat (cast_num i) = m + k * 2 ^ 52" unfolding u by (simp add: s_def k_def)
  have "unat (cast_num i) div 2 ^ 52 = k" unfolding u' using m by simp
  then show "num_exp (cast_num i) = e + 1023"
    unfolding num_exp_def using e by (cases "i < 0") (simp_all add: k_def mod_nat_eqI)
  show "num_man (cast_num i) = (n - 2 ^ e) * 2 ^ (52 - e)"
    unfolding num_man_def u' using m by (simp add: m_def [symmetric])
  show "num_neg (cast_num i) \<longleftrightarrow> i < 0"
    unfolding num_neg_def u using m e by (simp add: s_def)
qed

lemma number2int_cast_num:
  assumes "- (2 ^ 31) \<le> i" "i < 2 ^ 31"
  shows "lua_number2int (cast_num i) = i"
proof (cases "i = 0")
  case True
  then show ?thesis by (simp add: cast_num_def lua_number2int_def num_exp_def)
next
  case False
  have ab: "\<bar>i\<bar> \<le> 2 ^ 31" using assms by simp
  define n where "n = nat \<bar>i\<bar>"
  define e where "e = top_bit n"
  note f = cast_num_fields [OF False ab, folded n_def, folded e_def]
  show ?thesis
  proof (cases "e = 31")
    case True
    then have "2 ^ 31 \<le> n" using f(5) by simp
    then have "i = - (2 ^ 31)" using assms by (auto simp: n_def)
    then show ?thesis using f(1) True by (simp add: lua_number2int_def)
  next
    case False
    then have e30: "e \<le> 30" using f(4) by simp
    have "2 ^ 52 + (n - 2 ^ e) * 2 ^ (52 - e) = (2 ^ e + (n - 2 ^ e)) * 2 ^ (52 - e)"
      using e30 by (simp add: add_mult_distrib flip: power_add)
    also have "\<dots> = n * 2 ^ (52 - e)" using f(5) by simp
    finally have m: "2 ^ 52 + (n - 2 ^ e) * 2 ^ (52 - e) = n * 2 ^ (52 - e)" .
    have ex: "1075 - (e + 1023) = 52 - e" by simp
    have "lua_number2int (cast_num i) = (if i < 0 then - int n else int n)"
      unfolding lua_number2int_def f(1-3) Let_def m ex using e30 by simp
    then show ?thesis by (simp add: n_def)
  qed
qed

lemma num_fields_0: "num_exp 0 = 0" "num_man 0 = 0"
  by (simp_all add: num_exp_def num_man_def)

lemma num_exp_cast_num: "i \<noteq> 0 \<Longrightarrow> \<bar>i\<bar> \<le> 2 ^ 31 \<Longrightarrow> 1023 \<le> num_exp (cast_num i) \<and> num_exp (cast_num i) \<le> 1054"
  using cast_num_fields(1,4) by force

lemma cast_num_not_nan: "\<bar>i\<bar> \<le> 2 ^ 31 \<Longrightarrow> \<not> num_nan (cast_num i)"
proof (cases "i = 0")
  case True
  then show ?thesis by (simp add: num_nan_def cast_num_def num_fields_0)
next
  case False
  moreover assume "\<bar>i\<bar> \<le> 2 ^ 31"
  ultimately have "num_exp (cast_num i) \<noteq> 2047" using num_exp_cast_num by fastforce
  then show ?thesis by (simp add: num_nan_def)
qed

lemma cast_num_zero: "\<bar>i\<bar> \<le> 2 ^ 31 \<Longrightarrow> num_zero (cast_num i) \<longleftrightarrow> i = 0"
proof (cases "i = 0")
  case True
  then show ?thesis by (simp add: num_zero_def cast_num_def num_fields_0)
next
  case False
  moreover assume "\<bar>i\<bar> \<le> 2 ^ 31"
  ultimately have "num_exp (cast_num i) \<noteq> 0" using num_exp_cast_num by fastforce
  then show ?thesis using False by (simp add: num_zero_def)
qed

text \<open>Different integers are different numbers.\<close>

lemma numeq_cast_num:
  assumes "- (2 ^ 31) \<le> i" "i < 2 ^ 31" "- (2 ^ 31) \<le> j" "j < 2 ^ 31"
  shows "luai_numeq (cast_num i) (cast_num j) \<longleftrightarrow> i = j"
proof -
  have "\<bar>i\<bar> \<le> 2 ^ 31" "\<bar>j\<bar> \<le> 2 ^ 31" using assms by simp_all
  then show ?thesis
    using number2int_cast_num [OF assms(1,2)] number2int_cast_num [OF assms(3,4)]
      cast_num_not_nan cast_num_zero
    by (metis luai_numeq_def)
qed

lemma lua_number2int_range: "- (2 ^ 31) \<le> lua_number2int d \<and> lua_number2int d < 2 ^ 31"
proof -
  have "(2 ^ 52 + num_man d) div 2 ^ (1075 - num_exp d) < 2 ^ 31"
    if "1023 \<le> num_exp d" "num_exp d \<le> 1053"
  proof -
    have "num_man d < 2 ^ 52" by (simp add: num_man_def)
    then have "2 ^ 52 + num_man d < 2 ^ 31 * 2 ^ 22" by simp
    also have "\<dots> \<le> 2 ^ 31 * 2 ^ (1075 - num_exp d)"
      using that by (intro mult_left_mono power_increasing) auto
    finally show ?thesis by (simp add: div_less_iff_less_mult)
  qed
  then have "int ((2 ^ 52 + num_man d) div 2 ^ (1075 - num_exp d)) < 2 ^ 31"
    if "1023 \<le> num_exp d" "num_exp d \<le> 1053"
    using that by (metis of_nat_less_numeral_power_cancel_iff)
  then show ?thesis
    by (auto simp: lua_number2int_def Let_def not_less)
qed

end
