(* ===== verification/Values.thy ===== *)
theory Values
  imports Numbers
begin

text \<open>
  Tagged values (\<open>TValue\<close> of \<open>lobject.h\<close>) and raw equality (\<open>lobject.c\<close>). A collectable
  object is its address; a string is its content, because strings are interned (theory
  Strings), so that equal contents and equal addresses are the same thing.
\<close>

section \<open>Values\<close>

datatype TValue =
    TNil
  | TBoolean bool
  | TLightUserdata u64
  | TNumber lua_Number
  | TString bytes
  | TTable u64
  | TFunction u64
  | TUserdata u64
  | TThread u64
  | TDeadKey u64

definition ttype :: "TValue \<Rightarrow> int" where
  "ttype v = (case v of TNil \<Rightarrow> 0 | TBoolean _ \<Rightarrow> 1 | TLightUserdata _ \<Rightarrow> 2 | TNumber _ \<Rightarrow> 3
     | TString _ \<Rightarrow> 4 | TTable _ \<Rightarrow> 5 | TFunction _ \<Rightarrow> 6 | TUserdata _ \<Rightarrow> 7 | TThread _ \<Rightarrow> 8
     | TDeadKey _ \<Rightarrow> 11)"

definition l_isfalse :: "TValue \<Rightarrow> bool" where
  "l_isfalse v \<longleftrightarrow> v = TNil \<or> v = TBoolean False"

fun luaO_rawequalObj :: "TValue \<Rightarrow> TValue \<Rightarrow> bool" where
  "luaO_rawequalObj t1 t2 =
     (if ttype t1 \<noteq> ttype t2 then False
      else (case (t1, t2) of
          (TNil, TNil) \<Rightarrow> True
        | (TNumber a, TNumber b) \<Rightarrow> luai_numeq a b
        | (TBoolean a, TBoolean b) \<Rightarrow> a = b
        | (TLightUserdata a, TLightUserdata b) \<Rightarrow> a = b
        | _ \<Rightarrow> t1 = t2))"

declare luaO_rawequalObj.simps [simp del]

lemma rawequal_sym: "luaO_rawequalObj a b = luaO_rawequalObj b a"
  by (cases a; cases b) (auto simp: luaO_rawequalObj.simps ttype_def numeq_sym)

lemma rawequal_trans: "luaO_rawequalObj a b \<Longrightarrow> luaO_rawequalObj b c \<Longrightarrow> luaO_rawequalObj a c"
  by (cases a; cases b; cases c)
     (auto simp: luaO_rawequalObj.simps ttype_def split: if_splits dest: numeq_trans)

lemma rawequal_cases:
  "luaO_rawequalObj a b \<longleftrightarrow>
     (case a of TNumber x \<Rightarrow> (\<exists>y. b = TNumber y \<and> luai_numeq x y) | _ \<Rightarrow> a = b)"
  by (cases a; cases b) (auto simp: luaO_rawequalObj.simps ttype_def)

lemma rawequal_number: "luaO_rawequalObj (TNumber x) b \<longleftrightarrow> (\<exists>y. b = TNumber y \<and> luai_numeq x y)"
  by (simp add: rawequal_cases)

lemma rawequal_other: "(\<And>x. a \<noteq> TNumber x) \<Longrightarrow> luaO_rawequalObj a b \<longleftrightarrow> a = b"
  by (cases a) (auto simp: rawequal_cases)

lemma rawequal_nil [simp]: "luaO_rawequalObj a TNil \<longleftrightarrow> a = TNil" "luaO_rawequalObj TNil a \<longleftrightarrow> a = TNil"
  by (cases a; auto simp: rawequal_cases)+

section \<open>Outcomes\<close>

text \<open>
  What a core function does: it returns, it raises a Lua error with a message, or it is
  \<open>Stuck\<close>, which stands for a loop that never ends or a null pointer dereferenced.
\<close>

datatype 'a outcome = Ok 'a | RunError string | Stuck

fun bind_outcome :: "'a outcome \<Rightarrow> ('a \<Rightarrow> 'b outcome) \<Rightarrow> 'b outcome" where
  "bind_outcome (Ok a) f = f a"
| "bind_outcome (RunError e) f = RunError e"
| "bind_outcome Stuck f = Stuck"

text \<open>A loop over a list of items whose body may raise.\<close>

fun each :: "('a \<Rightarrow> 's \<Rightarrow> 's outcome) \<Rightarrow> 'a list \<Rightarrow> 's \<Rightarrow> 's outcome" where
  "each f [] s = Ok s"
| "each f (x # xs) s = bind_outcome (f x s) (each f xs)"

lemma bind_outcome_eq_Ok: "bind_outcome m f = Ok b \<longleftrightarrow> (\<exists>a. m = Ok a \<and> f a = Ok b)"
  by (cases m) auto

lemma each_invariant:
  assumes "P 0 s"
    and "\<And>i s. i < length xs \<Longrightarrow> P i s \<Longrightarrow> \<exists>s'. f (xs ! i) s = Ok s' \<and> P (Suc i) s'"
  shows "\<exists>s'. each f xs s = Ok s' \<and> P (length xs) s'"
  using assms
proof (induction xs arbitrary: s P)
  case (Cons x xs)
  obtain s1 where s1: "f x s = Ok s1" "P (Suc 0) s1"
    using Cons.prems(1) Cons.prems(2) [of 0 s] by auto
  have "\<exists>s'. each f xs s1 = Ok s' \<and> P (Suc (length xs)) s'"
    using Cons.IH [of "\<lambda>i. P (Suc i)" s1] s1(2) Cons.prems(2) [of "Suc _"] by simp
  then show ?case using s1(1) by simp
qed simp

end
