(* ===== verification/Strings.thy ===== *)
theory Strings
  imports Values "HOL-Library.Multiset"
begin

text \<open>
  The string table (\<open>lstring.c\<close>): every string of the state is kept once, in a hash
  table of chains that doubles when it is crowded. \<open>luaS_newlstr\<close> returns the existing
  object or links a new one; the address of a new object is the allocator's choice.
\<close>

unbundle bit_operations_syntax

section \<open>State\<close>

record TString =
  ts_addr :: u64
  ts_marked :: u8
  ts_reserved :: u8
  ts_hash :: u32
  ts_str :: bytes

text \<open>
  The fields of \<open>global_State\<close> the module reads: the table (its size is the length of
  \<open>strt_hash\<close>), the collector's phase and the current white.
\<close>

record string_state =
  strt_hash :: "TString list list"
  strt_nuse :: u32
  gcstate :: int
  currentwhite :: u8

definition GCSsweepstring :: int where "GCSsweepstring = 2"
definition WHITEBITS :: u8 where "WHITEBITS = 3"

definition otherwhite :: "string_state \<Rightarrow> u8" where
  "otherwhite g = currentwhite g XOR WHITEBITS"

definition isdead :: "string_state \<Rightarrow> TString \<Rightarrow> bool" where
  "isdead g ts \<longleftrightarrow> ts_marked ts AND otherwhite g AND WHITEBITS \<noteq> 0"

definition changewhite :: "TString \<Rightarrow> TString" where
  "changewhite ts = ts\<lparr>ts_marked := ts_marked ts XOR WHITEBITS\<rparr>"

definition luaC_white :: "string_state \<Rightarrow> u8" where
  "luaC_white g = currentwhite g AND WHITEBITS"

definition lmod :: "u32 \<Rightarrow> nat \<Rightarrow> nat" where
  "lmod s sz = unat (s AND (of_nat sz - 1))"

lemma lmod_pow2: "k \<le> 31 \<Longrightarrow> lmod h (2 ^ k) = unat h mod 2 ^ k"
proof -
  assume k: "k \<le> 31"
  have "(of_nat (2 ^ k) - 1 :: u32) = mask k" by (simp add: mask_eq_exp_minus_1)
  then have "lmod h (2 ^ k) = unat (take_bit k h)"
    by (simp add: lmod_def take_bit_eq_mask)
  then show ?thesis by (simp only: unsigned_take_bit_eq) (simp add: take_bit_eq_mod)
qed

lemma lmod_less: "k \<le> 31 \<Longrightarrow> lmod h (2 ^ k) < 2 ^ k"
  by (simp add: lmod_pow2)

section \<open>Operations\<close>

text \<open>
  The hash. Of a long string only one byte in every \<open>step\<close> (here \<open>Suc k\<close>) is used.
\<close>

fun hash_loop :: "bytes \<Rightarrow> nat \<Rightarrow> nat \<Rightarrow> u32 \<Rightarrow> u32" where
  "hash_loop str k l1 h =
     (if Suc k \<le> l1
      then hash_loop str k (l1 - Suc k)
             (h XOR (push_bit 5 h + drop_bit 2 h + ucast (str ! (l1 - 1))))
      else h)"

declare hash_loop.simps [simp del]

definition luaS_hash :: "bytes \<Rightarrow> u32" where
  "luaS_hash str = hash_loop str (length str div 2 ^ 5) (length str) (of_nat (length str))"

text \<open>\<open>luaS_resize\<close>: every chain is unlinked from its head and relinked in the new table.\<close>

fun rehash_chain :: "nat \<Rightarrow> TString list \<Rightarrow> TString list list \<Rightarrow> TString list list" where
  "rehash_chain newsize [] newhash = newhash"
| "rehash_chain newsize (p # ps) newhash =
     (let h1 = lmod (ts_hash p) newsize
      in rehash_chain newsize ps (newhash[h1 := p # newhash ! h1]))"

definition luaS_resize :: "string_state \<Rightarrow> nat \<Rightarrow> string_state" where
  "luaS_resize g newsize =
     (if gcstate g = GCSsweepstring then g
      else g\<lparr>strt_hash := fold (rehash_chain newsize) (strt_hash g) (replicate newsize [])\<rparr>)"

definition luaS_newlstr_new :: "string_state \<Rightarrow> bytes \<Rightarrow> u32 \<Rightarrow> u64 \<Rightarrow> (TString \<times> string_state) outcome" where
  "luaS_newlstr_new g str h new =
     (if length str + 1 > 2 ^ 64 - 3 - 24
      then RunError ''memory allocation error: block too big''
      else
        (let ts = \<lparr>ts_addr = new, ts_marked = luaC_white g, ts_reserved = 0, ts_hash = h, ts_str = str\<rparr>;
             sz = length (strt_hash g);
             i = lmod h sz;
             g1 = g\<lparr>strt_hash := (strt_hash g)[i := ts # strt_hash g ! i], strt_nuse := strt_nuse g + 1\<rparr>
         in Ok (ts, if strt_nuse g1 > of_nat sz \<and> sz \<le> (2 ^ 31 - 3) div 2
                    then luaS_resize g1 (sz * 2) else g1)))"

text \<open>The search along a chain; a dead string that is found comes back to life in place.\<close>

fun find_string :: "string_state \<Rightarrow> bytes \<Rightarrow> TString list \<Rightarrow> (TString \<times> TString list) option" where
  "find_string g str [] = None"
| "find_string g str (ts # os) =
     (if length (ts_str ts) = length str \<and> ts_str ts = str
      then (let ts' = if isdead g ts then changewhite ts else ts in Some (ts', ts' # os))
      else map_option (\<lambda>(r, os'). (r, ts # os')) (find_string g str os))"

definition luaS_newlstr :: "string_state \<Rightarrow> bytes \<Rightarrow> u64 \<Rightarrow> (TString \<times> string_state) outcome" where
  "luaS_newlstr g str new =
     (let h = luaS_hash str; i = lmod h (length (strt_hash g))
      in case find_string g str (strt_hash g ! i) of
           Some (ts, chain) \<Rightarrow> Ok (ts, g\<lparr>strt_hash := (strt_hash g)[i := chain]\<rparr>)
         | None \<Rightarrow> luaS_newlstr_new g str h new)"

section \<open>Invariant\<close>

text \<open>
  Each string sits in the chain of its hash, no content and no address occurs twice, and
  no string has both white marks (so that one flip makes a dead string live).
\<close>

definition all_strings :: "string_state \<Rightarrow> TString list" where
  "all_strings g = concat (strt_hash g)"

definition well_placed :: "nat \<Rightarrow> TString list list \<Rightarrow> bool" where
  "well_placed k hs \<longleftrightarrow> length hs = 2 ^ k
     \<and> (\<forall>i < 2 ^ k. \<forall>ts \<in> set (hs ! i). lmod (ts_hash ts) (2 ^ k) = i)"

definition strings_ok :: "TString list \<Rightarrow> bool" where
  "strings_ok xs \<longleftrightarrow> distinct (map ts_str xs) \<and> distinct (map ts_addr xs)
     \<and> (\<forall>ts \<in> set xs. ts_hash ts = luaS_hash (ts_str ts) \<and> ts_marked ts AND WHITEBITS \<noteq> WHITEBITS)"

definition strt_inv :: "string_state \<Rightarrow> bool" where
  "strt_inv g \<longleftrightarrow> (\<exists>k \<le> 31. well_placed k (strt_hash g)) \<and> strings_ok (all_strings g)
     \<and> currentwhite g \<in> {1, 2}"

text \<open>What the program sees: which contents are interned, and at which address.\<close>

definition interned :: "string_state \<Rightarrow> (bytes \<times> u64) set" where
  "interned g = (\<lambda>ts. (ts_str ts, ts_addr ts)) ` set (all_strings g)"


lemma concat_nth_split:
  "i < length hs \<Longrightarrow> mset (concat hs) = mset (hs ! i) + mset (concat (hs[i := []]))"
  by (subst (1) id_take_nth_drop [of i hs]) (simp_all add: upd_conv_take_nth_drop)

lemma mset_concat_update:
  "i < length hs \<Longrightarrow> mset (concat (hs[i := xs])) = mset xs + mset (concat (hs[i := []]))"
  using concat_nth_split [of i "hs[i := xs]"] by simp

lemma rehash_chain_placed:
  assumes "well_placed k hs" "k \<le> 31"
  shows "well_placed k (rehash_chain (2 ^ k) ps hs)
    \<and> mset (concat (rehash_chain (2 ^ k) ps hs)) = mset ps + mset (concat hs)"
  using assms(1)
proof (induction ps arbitrary: hs)
  case (Cons p ps)
  let ?i = "lmod (ts_hash p) (2 ^ k)"
  have i: "?i < length hs" using Cons.prems assms(2) lmod_less by (auto simp: well_placed_def)
  then have "well_placed k (hs[?i := p # hs ! ?i])"
    using Cons.prems by (auto simp: well_placed_def nth_list_update)
  from Cons.IH [OF this] show ?case
    using mset_concat_update [OF i, of "p # hs ! ?i"] concat_nth_split [OF i] by (simp add: Let_def)
qed simp

lemma fold_rehash_placed:
  assumes "well_placed k hs" "k \<le> 31"
  shows "well_placed k (fold (rehash_chain (2 ^ k)) ps hs)
    \<and> mset (concat (fold (rehash_chain (2 ^ k)) ps hs)) = mset (concat ps) + mset (concat hs)"
  using assms(1)
proof (induction ps arbitrary: hs)
  case (Cons p ps)
  note 1 = rehash_chain_placed [OF Cons.prems assms(2), of p]
  from Cons.IH [OF conjunct1 [OF 1]] 1 show ?case by simp
qed simp

lemma well_placed_empty: "well_placed k (replicate (2 ^ k) [])"
  by (simp add: well_placed_def)

lemma distinct_map_mset: "mset xs = mset ys \<Longrightarrow> distinct (map f xs) = distinct (map f ys)"
  by (metis mset_eq_imp_distinct_iff mset_map)

lemma strings_ok_cong: "mset xs = mset ys \<Longrightarrow> strings_ok xs = strings_ok ys"
  using distinct_map_mset [of xs ys ts_str] distinct_map_mset [of xs ys ts_addr]
    mset_eq_setD [of xs ys] by (simp add: strings_ok_def)

lemma interned_mset: "mset (all_strings g) = M \<Longrightarrow> interned g = (\<lambda>ts. (ts_str ts, ts_addr ts)) ` set_mset M"
  by (auto simp: interned_def)

lemma resize_facts:
  assumes "strt_inv g" "k \<le> 31"
  shows "strt_inv (luaS_resize g (2 ^ k))"
    "mset (all_strings (luaS_resize g (2 ^ k))) = mset (all_strings g)"
proof -
  note 1 = fold_rehash_placed [OF well_placed_empty assms(2), of "strt_hash g"]
  show m: "mset (all_strings (luaS_resize g (2 ^ k))) = mset (all_strings g)"
    using 1 by (simp add: luaS_resize_def all_strings_def)
  show "strt_inv (luaS_resize g (2 ^ k))"
    using assms 1 strings_ok_cong [OF m] unfolding strt_inv_def
    by (auto simp: luaS_resize_def)
qed

lemma find_string_None: "find_string g s os = None \<longleftrightarrow> s \<notin> ts_str ` set os"
  by (induction os) (auto simp: Let_def)

lemma find_string_Some:
  "find_string g s os = Some (r, os') \<Longrightarrow>
    \<exists>xs ts ys. os = xs @ ts # ys \<and> os' = xs @ r # ys \<and> ts_str ts = s
      \<and> r = (if isdead g ts then changewhite ts else ts)"
proof (induction os arbitrary: os')
  case (Cons t os)
  show ?case
  proof (cases "ts_str t = s")
    case True
    then show ?thesis using Cons.prems by (intro exI [of _ "[]"]) (auto simp: Let_def)
  next
    case False
    then obtain os1 where "find_string g s os = Some (r, os1)" "os' = t # os1"
      using Cons.prems by auto
    then show ?thesis using Cons.IH by (metis append_Cons)
  qed
qed simp

text \<open>Flipping the white marks of a string that has not both of them.\<close>

lemma whites_table:
  "list_all (\<lambda>m. list_all (\<lambda>w.
      m AND 3 = 3 \<or> m AND (w XOR 3) AND 3 = 0
      \<or> (m XOR 3) AND 3 \<noteq> 3 \<and> (m XOR 3) AND (w XOR 3) AND 3 = 0) [1, 2])
    (map word_of_nat [0..<256] :: u8 list)"
  by code_simp

lemma whites:
  assumes "m AND (3 :: u8) \<noteq> 3" "w \<in> {1, 2 :: u8}" "m AND (w XOR 3) AND 3 \<noteq> 0"
  shows "(m XOR 3) AND 3 \<noteq> 3 \<and> (m XOR 3) AND (w XOR 3) AND 3 = 0"
proof -
  have "m = word_of_nat (unat m)" "unat m \<in> set [0..<256]"
    using unat_u8_less [of m] by simp_all
  then have "m \<in> set (map word_of_nat [0..<256])" by (metis image_eqI list.set_map)
  then show ?thesis using whites_table assms by (auto simp: list_all_iff)
qed

lemma changewhite_live:
  assumes "isdead g ts" "currentwhite g \<in> {1, 2}" "ts_marked ts AND WHITEBITS \<noteq> WHITEBITS"
  shows "\<not> isdead g (changewhite ts)" "ts_marked (changewhite ts) AND WHITEBITS \<noteq> WHITEBITS"
  using whites [of "ts_marked ts" "currentwhite g"] assms
  by (simp_all add: isdead_def otherwhite_def changewhite_def WHITEBITS_def)

lemma changewhite_fields [simp]:
  "ts_str (changewhite ts) = ts_str ts" "ts_addr (changewhite ts) = ts_addr ts"
  "ts_hash (changewhite ts) = ts_hash ts"
  by (simp_all add: changewhite_def)

lemma white_live:
  "currentwhite g \<in> {1, 2} \<Longrightarrow> luaC_white g AND otherwhite g AND WHITEBITS = 0
    \<and> luaC_white g AND WHITEBITS \<noteq> WHITEBITS"
  by (auto simp: luaC_white_def otherwhite_def WHITEBITS_def)

text \<open>Replacing an element of a list by one with the same content, address and hash.\<close>

lemma strings_ok_replace:
  assumes "strings_ok (xs @ ts # ys)" "ts_str r = ts_str ts" "ts_addr r = ts_addr ts"
    "ts_hash r = ts_hash ts" "ts_marked r AND WHITEBITS \<noteq> WHITEBITS"
  shows "strings_ok (xs @ r # ys)"
  using assms by (auto simp: strings_ok_def)

section \<open>Interning\<close>

lemma interned_iff: "(s, a) \<in> interned g \<longleftrightarrow> (\<exists>ts \<in> set (all_strings g). ts_str ts = s \<and> ts_addr ts = a)"
  by (auto simp: interned_def)

lemma all_strings_split:
  "i < length (strt_hash g) \<Longrightarrow> all_strings (g\<lparr>strt_hash := (strt_hash g)[i := c]\<rparr>)
    = concat (take i (strt_hash g)) @ c @ concat (drop (Suc i) (strt_hash g))"
  "i < length (strt_hash g) \<Longrightarrow> all_strings g
    = concat (take i (strt_hash g)) @ strt_hash g ! i @ concat (drop (Suc i) (strt_hash g))"
   apply (simp add: all_strings_def upd_conv_take_nth_drop)
  by (subst (1) all_strings_def, subst (1) id_take_nth_drop [of i "strt_hash g"]) simp_all

lemma well_placed_update:
  assumes "well_placed k hs" "i < 2 ^ k" "\<forall>ts \<in> set c. lmod (ts_hash ts) (2 ^ k) = i"
  shows "well_placed k (hs[i := c])"
  using assms by (auto simp: well_placed_def nth_list_update)

lemma newlstr_found:
  assumes inv: "strt_inv g" and i: "i = lmod (luaS_hash str) (length (strt_hash g))"
    and f: "find_string g str (strt_hash g ! i) = Some (ts, c)"
  defines "g' \<equiv> g\<lparr>strt_hash := (strt_hash g)[i := c]\<rparr>"
  shows "strt_inv g' \<and> ts \<in> set (all_strings g') \<and> ts_str ts = str \<and> ts_hash ts = luaS_hash str
    \<and> \<not> isdead g' ts \<and> interned g' = interned g \<and> (str, ts_addr ts) \<in> interned g"
proof -
  obtain k where k: "k \<le> 31" "well_placed k (strt_hash g)" using inv by (auto simp: strt_inv_def)
  then have len: "length (strt_hash g) = 2 ^ k" by (simp add: well_placed_def)
  have il: "i < length (strt_hash g)" using lmod_less [OF k(1)] by (simp add: i len)
  obtain xs t ys where s: "strt_hash g ! i = xs @ t # ys" "c = xs @ ts # ys" "ts_str t = str"
      "ts = (if isdead g t then changewhite t else t)"
    using find_string_Some [OF f] by blast
  note sp = all_strings_split(1) [OF il, of c, folded g'_def] all_strings_split(2) [OF il]
  have t: "t \<in> set (all_strings g)" "ts \<in> set (all_strings g')" using s(1,2) by (simp_all add: sp)
  have tok: "ts_hash t = luaS_hash (ts_str t)" "ts_marked t AND WHITEBITS \<noteq> WHITEBITS"
    and cw: "currentwhite g \<in> {1, 2}"
    using inv t(1) by (auto simp: strt_inv_def strings_ok_def)
  have r: "ts_str ts = ts_str t" "ts_addr ts = ts_addr t" "ts_hash ts = ts_hash t"
      "ts_marked ts AND WHITEBITS \<noteq> WHITEBITS" "\<not> isdead g ts"
    using changewhite_live [OF _ cw tok(2)] tok(2) by (simp_all add: s(4))
  have "strings_ok (all_strings g')"
    using inv strings_ok_replace [OF _ r(1-4), of "concat (take i (strt_hash g)) @ xs"
        "ys @ concat (drop (Suc i) (strt_hash g))"]
    unfolding sp s(1,2) strt_inv_def by simp
  moreover have "well_placed k (strt_hash g')"
  proof -
    have "\<forall>t \<in> set (strt_hash g ! i). lmod (ts_hash t) (2 ^ k) = i"
      using k(2) il len by (auto simp: well_placed_def)
    then have "\<forall>t \<in> set c. lmod (ts_hash t) (2 ^ k) = i" using s(1,2) r(3) by auto
    then show ?thesis using well_placed_update [OF k(2)] il len by (simp add: g'_def)
  qed
  moreover have "currentwhite g' = currentwhite g" by (simp add: g'_def)
  ultimately have "strt_inv g'" using k(1) cw by (auto simp: strt_inv_def)
  moreover have "interned g' = interned g" using s(1,2) r by (auto simp: interned_def sp)
  moreover have "\<not> isdead g' ts" using r(5) by (simp add: isdead_def otherwhite_def g'_def)
  ultimately show ?thesis using t r tok(1) s(3) by (auto simp: interned_iff)
qed

lemma newlstr_fresh:
  assumes inv: "strt_inv g" and i: "i = lmod (luaS_hash str) (length (strt_hash g))"
    and f: "find_string g str (strt_hash g ! i) = None" and new: "new \<notin> snd ` interned g"
  shows "str \<notin> fst ` interned g"
    "length str < 2 ^ 64 - 28 \<Longrightarrow> \<exists>ts g'. luaS_newlstr_new g str (luaS_hash str) new = Ok (ts, g')
      \<and> strt_inv g' \<and> ts \<in> set (all_strings g') \<and> ts_str ts = str \<and> ts_hash ts = luaS_hash str
      \<and> ts_addr ts = new \<and> \<not> isdead g' ts \<and> interned g' = insert (str, new) (interned g)"
proof -
  obtain k where k: "k \<le> 31" "well_placed k (strt_hash g)" using inv by (auto simp: strt_inv_def)
  then have len: "length (strt_hash g) = 2 ^ k" by (simp add: well_placed_def)
  have il: "i < length (strt_hash g)" using lmod_less [OF k(1)] by (simp add: i len)
  have cw: "currentwhite g \<in> {1, 2}" using inv by (simp add: strt_inv_def)
  show str: "str \<notin> fst ` interned g"
  proof
    assume "str \<in> fst ` interned g"
    then obtain t where t: "t \<in> set (all_strings g)" "ts_str t = str" by (auto simp: interned_def)
    then obtain j where j: "j < length (strt_hash g)" "t \<in> set (strt_hash g ! j)"
      unfolding all_strings_def by (metis (no_types) UN_E in_set_conv_nth set_concat)
    have "ts_hash t = luaS_hash str" using inv t by (auto simp: strt_inv_def strings_ok_def)
    moreover have "lmod (ts_hash t) (2 ^ k) = j" using k(2) j by (auto simp: well_placed_def)
    ultimately have "j = i" by (simp add: i len)
    then show False using f j t(2) by (auto simp: find_string_None)
  qed
  define ts where "ts = \<lparr>ts_addr = new, ts_marked = luaC_white g, ts_reserved = 0,
    ts_hash = luaS_hash str, ts_str = str\<rparr>"
  define g1 where "g1 = g\<lparr>strt_hash := (strt_hash g)[i := ts # strt_hash g ! i], strt_nuse := strt_nuse g + 1\<rparr>"
  have a1: "all_strings g1 = all_strings (g\<lparr>strt_hash := (strt_hash g)[i := ts # strt_hash g ! i]\<rparr>)"
    by (simp add: g1_def all_strings_def)
  have m1: "mset (all_strings g1) = mset (ts # all_strings g)"
    unfolding a1 all_strings_split(1) [OF il] all_strings_split(2) [OF il] by simp
  have "strings_ok (ts # all_strings g)"
    using inv str new white_live [OF cw]
    by (auto simp: strt_inv_def strings_ok_def interned_def ts_def image_iff)
  then have "strings_ok (all_strings g1)" using strings_ok_cong [OF m1] by simp
  moreover have "well_placed k (strt_hash g1)"
  proof -
    have "\<forall>t \<in> set (ts # strt_hash g ! i). lmod (ts_hash t) (2 ^ k) = i"
      using k(2) il len i by (auto simp: well_placed_def ts_def)
    then show ?thesis using well_placed_update [OF k(2)] il len by (simp add: g1_def)
  qed
  moreover have "currentwhite g1 = currentwhite g" by (simp add: g1_def)
  ultimately have inv1: "strt_inv g1" using k(1) cw by (auto simp: strt_inv_def)
  define g' where "g' = (if strt_nuse g1 > of_nat (length (strt_hash g)) \<and> length (strt_hash g) \<le> (2 ^ 31 - 3) div 2
    then luaS_resize g1 (length (strt_hash g) * 2) else g1)"
  have "strt_inv g' \<and> mset (all_strings g') = mset (all_strings g1)"
  proof (cases "g' = g1")
    case False
    then have "(2 :: nat) ^ k \<le> (2 ^ 31 - 3) div 2" "g' = luaS_resize g1 (2 ^ Suc k)"
      by (auto simp: g'_def len mult.commute split: if_splits)
    moreover have "k < 31"
    proof (rule ccontr)
      assume "\<not> k < 31"
      then have "(2 :: nat) ^ 31 \<le> 2 ^ k" by (intro power_increasing) auto
      then show False using calculation(1) by simp
    qed
    ultimately show ?thesis using resize_facts [OF inv1, of "Suc k"] by simp
  qed (use inv1 in simp)
  then have g': "strt_inv g'" "mset (all_strings g') = mset (ts # all_strings g)" using m1 by simp_all
  have set': "set (all_strings g') = insert ts (set (all_strings g))"
    using mset_eq_setD [OF g'(2)] by simp
  have cw': "currentwhite g' = currentwhite g"
    by (simp add: g'_def g1_def luaS_resize_def)
  have "\<not> isdead g' ts"
    using white_live [OF cw] cw' by (simp add: isdead_def otherwhite_def ts_def)
  moreover assume "length str < 2 ^ 64 - 28"
  then have "luaS_newlstr_new g str (luaS_hash str) new = Ok (ts, g')"
    unfolding luaS_newlstr_new_def Let_def i [symmetric] ts_def [symmetric] g1_def [symmetric]
      g'_def [symmetric] by simp
  moreover have "interned g' = insert (str, new) (interned g)"
    by (simp add: interned_def set' ts_def)
  ultimately show "\<exists>ts g'. luaS_newlstr_new g str (luaS_hash str) new = Ok (ts, g')
      \<and> strt_inv g' \<and> ts \<in> set (all_strings g') \<and> ts_str ts = str \<and> ts_hash ts = luaS_hash str
      \<and> ts_addr ts = new \<and> \<not> isdead g' ts \<and> interned g' = insert (str, new) (interned g)"
    using g'(1) set' by (auto simp: ts_def)
qed


text \<open>The initial table of \<open>lua_open\<close>: \<open>MINSTRTABSIZE\<close> empty chains.\<close>

definition strt_initial :: string_state where
  "strt_initial = luaS_resize \<lparr>strt_hash = [], strt_nuse = 0, gcstate = 0, currentwhite = 1\<rparr> 32"

lemma strt_initial_inv: "strt_inv strt_initial" "interned strt_initial = {}"
proof -
  have "well_placed 5 (replicate 32 [])" using well_placed_empty [of 5] by simp
  then show "strt_inv strt_initial" "interned strt_initial = {}"
    by (auto simp: strt_inv_def strt_initial_def luaS_resize_def GCSsweepstring_def strings_ok_def
        all_strings_def interned_def intro!: exI [of _ 5])
qed


end
