(* ===== verification/Table.thy ===== *)
theory Table
  imports Strings Objects
begin

text \<open>
  Lua tables (\<open>ltable.c\<close>): an array part and a chained scatter table with Brent's
  variation. Pointers into the node vector are indices; a \<open>TValue *\<close> that a search
  returns is a slot, and \<open>luaO_nilobject\<close> is \<open>Absent\<close>. Theories TableInv, TableOps and
  Rehash hold the invariant and its proofs.
\<close>

unbundle bit_operations_syntax

section \<open>State\<close>

record Node =
  i_val :: TValue
  i_key :: TValue
  i_next :: "nat option"

text \<open>
  \<open>sizearray\<close> is the length of \<open>array\<close>. \<open>dummy\<close> says that \<open>node\<close> points to the shared
  \<open>dummynode\<close>, a node of nils. \<open>lastfree\<close> may run below the vector.
\<close>

record Table =
  flags :: u8
  metatable :: "u64 option"
  lsizenode :: nat
  array :: "TValue list"
  node :: "Node list"
  dummy :: bool
  lastfree :: int

definition MAXBITS :: nat where "MAXBITS = 26"
definition MAXASIZE :: nat where "MAXASIZE = 2 ^ MAXBITS"

definition dummynode :: Node where
  "dummynode = \<lparr>i_val = TNil, i_key = TNil, i_next = None\<rparr>"

definition twoto :: "nat \<Rightarrow> nat" where "twoto x = 2 ^ x"

definition sizenode :: "Table \<Rightarrow> nat" where "sizenode t = twoto (lsizenode t)"

datatype slot = ArrSlot nat | NodeSlot nat

datatype lookup = At slot | Absent | Endless

fun slot_val :: "Table \<Rightarrow> slot \<Rightarrow> TValue" where
  "slot_val t (ArrSlot i) = array t ! i"
| "slot_val t (NodeSlot i) = i_val (node t ! i)"

text \<open>\<open>setobj2t\<close> through a pointer.\<close>

fun put_slot :: "Table \<Rightarrow> slot \<Rightarrow> TValue \<Rightarrow> Table" where
  "put_slot t (ArrSlot i) v = t\<lparr>array := (array t)[i := v]\<rparr>"
| "put_slot t (NodeSlot i) v = t\<lparr>node := (node t)[i := (node t ! i)\<lparr>i_val := v\<rparr>]\<rparr>"

text \<open>
  \<open>*luaH_get(t, key)\<close>: the value a lookup points to. (No lookup is \<open>Endless\<close> in a
  well-formed table: \<open>luaH_get_lin\<close> of theory TableInv.)
\<close>

definition lookup_val :: "Table \<Rightarrow> lookup \<Rightarrow> TValue" where
  "lookup_val t r = (case r of At s \<Rightarrow> slot_val t s | _ \<Rightarrow> TNil)"

section \<open>Main positions\<close>

definition hashpow2 :: "Table \<Rightarrow> u32 \<Rightarrow> nat" where
  "hashpow2 t n = lmod n (sizenode t)"

definition hashmod :: "Table \<Rightarrow> u32 \<Rightarrow> nat" where
  "hashmod t n = unat n mod ((sizenode t - 1) OR 1)"

definition IntPoint :: "u64 \<Rightarrow> u32" where "IntPoint p = ucast p"

definition hashnum :: "Table \<Rightarrow> lua_Number \<Rightarrow> nat" where
  "hashnum t n =
     (if luai_numeq n 0 then 0
      else hashmod t ((ucast n :: u32) + ucast (drop_bit 32 n)))"

text \<open>
  Of a nil key the code never asks the main position (\<open>gcvalue\<close> of nil is no object).
\<close>

fun mainposition :: "Table \<Rightarrow> TValue \<Rightarrow> nat" where
  "mainposition t (TNumber n) = hashnum t n"
| "mainposition t (TString s) = hashpow2 t (luaS_hash s)"
| "mainposition t (TBoolean b) = hashpow2 t (if b then 1 else 0)"
| "mainposition t (TLightUserdata p) = hashmod t (IntPoint p)"
| "mainposition t (TTable p) = hashmod t (IntPoint p)"
| "mainposition t (TFunction p) = hashmod t (IntPoint p)"
| "mainposition t (TUserdata p) = hashmod t (IntPoint p)"
| "mainposition t (TThread p) = hashmod t (IntPoint p)"
| "mainposition t (TDeadKey p) = hashmod t (IntPoint p)"
| "mainposition t TNil = 0"

definition arrayindex :: "TValue \<Rightarrow> int" where
  "arrayindex key =
     (case key of
        TNumber n \<Rightarrow> (let k = lua_number2int n in if luai_numeq (cast_num k) n then k else - 1)
      | _ \<Rightarrow> - 1)"

section \<open>Searching\<close>

text \<open>
  The loop \<open>do ... while (n)\<close> along a chain, with the vector's size as its bound: a chain
  that is longer repeats a node and is \<open>Endless\<close>.
\<close>

fun chain_search :: "(TValue \<Rightarrow> bool) \<Rightarrow> Node list \<Rightarrow> nat \<Rightarrow> nat \<Rightarrow> lookup" where
  "chain_search p ns 0 n = Endless"
| "chain_search p ns (Suc f) n =
     (if p (i_key (ns ! n)) then At (NodeSlot n)
      else (case i_next (ns ! n) of None \<Rightarrow> Absent | Some m \<Rightarrow> chain_search p ns f m))"

definition search :: "(TValue \<Rightarrow> bool) \<Rightarrow> Table \<Rightarrow> nat \<Rightarrow> lookup" where
  "search p t n = chain_search p (node t) (length (node t)) n"

definition luaH_getnum :: "Table \<Rightarrow> int \<Rightarrow> lookup" where
  "luaH_getnum t key =
     (if (word_of_int (key - 1) :: u32) < word_of_nat (length (array t))
      then At (ArrSlot (nat (key - 1)))
      else (let nk = cast_num key
            in search (\<lambda>k. case k of TNumber n \<Rightarrow> luai_numeq n nk | _ \<Rightarrow> False) t (hashnum t nk)))"

definition luaH_getstr :: "Table \<Rightarrow> bytes \<Rightarrow> lookup" where
  "luaH_getstr t key = search (\<lambda>k. k = TString key) t (hashpow2 t (luaS_hash key))"

definition luaH_get :: "Table \<Rightarrow> TValue \<Rightarrow> lookup" where
  "luaH_get t key =
     (let other = search (\<lambda>k. luaO_rawequalObj k key) t (mainposition t key)
      in case key of
           TNil \<Rightarrow> Absent
         | TString s \<Rightarrow> luaH_getstr t s
         | TNumber n \<Rightarrow>
             (let k = lua_number2int n
              in if luai_numeq (cast_num k) n then luaH_getnum t k else other)
         | _ \<Rightarrow> other)"

section \<open>Insertion\<close>

text \<open>
  \<open>getfreepos\<close> walks \<open>lastfree\<close> down, past the start of the vector when nothing is free.
\<close>

fun free_scan :: "Node list \<Rightarrow> nat \<Rightarrow> nat option" where
  "free_scan ns 0 = None"
| "free_scan ns (Suc p) = (if i_key (ns ! p) = TNil then Some p else free_scan ns p)"

definition getfreepos :: "Table \<Rightarrow> nat option \<times> Table" where
  "getfreepos t =
     (case free_scan (node t) (nat (lastfree t)) of
        Some p \<Rightarrow> (Some p, t\<lparr>lastfree := int p\<rparr>)
      | None \<Rightarrow> (None, t\<lparr>lastfree := min 0 (lastfree t) - 1\<rparr>))"

text \<open>\<open>while (gnext(othern) != mp) othern = gnext(othern)\<close>\<close>

fun find_prev :: "Node list \<Rightarrow> nat \<Rightarrow> nat \<Rightarrow> nat \<Rightarrow> nat option" where
  "find_prev ns 0 othern mp = None"
| "find_prev ns (Suc f) othern mp =
     (case i_next (ns ! othern) of
        None \<Rightarrow> None
      | Some m \<Rightarrow> if m = mp then Some othern else find_prev ns f m mp)"

definition set_key :: "Table \<Rightarrow> nat \<Rightarrow> TValue \<Rightarrow> Table" where
  "set_key t mp key = t\<lparr>node := (node t)[mp := (node t ! mp)\<lparr>i_key := key\<rparr>]\<rparr>"

text \<open>
  The parameter \<open>full\<close> is what happens when no position is free: \<open>rehash\<close> followed by
  \<open>luaH_set\<close>.
\<close>

definition newkey :: "(Table \<Rightarrow> TValue \<Rightarrow> (Table \<times> slot) outcome) \<Rightarrow> Table \<Rightarrow> TValue
    \<Rightarrow> (Table \<times> slot) outcome" where
  "newkey full t key =
     (let mp = mainposition t key
      in if i_val (node t ! mp) \<noteq> TNil \<or> dummy t then
           (case getfreepos t of
              (None, t1) \<Rightarrow> full t1 key
            | (Some n, t1) \<Rightarrow>
                (let othern = mainposition t1 (i_key (node t1 ! mp)); ns = node t1
                 in if othern \<noteq> mp then
                      (case find_prev ns (length ns) othern mp of
                         None \<Rightarrow> Stuck
                       | Some prev \<Rightarrow>
                           (let ns1 = ns[prev := (ns ! prev)\<lparr>i_next := Some n\<rparr>];
                                ns2 = ns1[n := ns1 ! mp];
                                ns3 = ns2[mp := (ns2 ! mp)\<lparr>i_next := None, i_val := TNil\<rparr>]
                            in Ok (set_key (t1\<lparr>node := ns3\<rparr>) mp key, NodeSlot mp)))
                    else
                      (let ns1 = ns[n := (ns ! n)\<lparr>i_next := i_next (ns ! mp)\<rparr>];
                           ns2 = ns1[mp := (ns1 ! mp)\<lparr>i_next := Some n\<rparr>]
                       in Ok (set_key (t1\<lparr>node := ns2\<rparr>) n key, NodeSlot n))))
         else Ok (set_key t mp key, NodeSlot mp))"

definition set_with :: "(Table \<Rightarrow> TValue \<Rightarrow> (Table \<times> slot) outcome) \<Rightarrow> Table \<Rightarrow> TValue
    \<Rightarrow> (Table \<times> slot) outcome" where
  "set_with full t key =
     (let p = luaH_get t key; t0 = t\<lparr>flags := 0\<rparr>
      in case p of
           At s \<Rightarrow> Ok (t0, s)
         | Endless \<Rightarrow> Stuck
         | Absent \<Rightarrow>
             (if key = TNil then RunError ''table index is nil''
              else if (case key of TNumber n \<Rightarrow> luai_numisnan n | _ \<Rightarrow> False)
                   then RunError ''table index is NaN''
              else newkey full t0 key))"

definition setnum_with :: "(Table \<Rightarrow> TValue \<Rightarrow> (Table \<times> slot) outcome) \<Rightarrow> Table \<Rightarrow> int
    \<Rightarrow> (Table \<times> slot) outcome" where
  "setnum_with full t key =
     (case luaH_getnum t key of
        At s \<Rightarrow> Ok (t, s)
      | Endless \<Rightarrow> Stuck
      | Absent \<Rightarrow> newkey full t (TNumber (cast_num key)))"

definition setstr_with :: "(Table \<Rightarrow> TValue \<Rightarrow> (Table \<times> slot) outcome) \<Rightarrow> Table \<Rightarrow> bytes
    \<Rightarrow> (Table \<times> slot) outcome" where
  "setstr_with full t key =
     (case luaH_getstr t key of
        At s \<Rightarrow> Ok (t, s)
      | Endless \<Rightarrow> Stuck
      | Absent \<Rightarrow> newkey full t (TString key))"

section \<open>Rehash\<close>

text \<open>The loop of \<open>computesizes\<close>; \<open>twotoi\<close> is \<open>2 ^ i\<close>.\<close>

function sizes_loop :: "nat list \<Rightarrow> nat \<Rightarrow> nat \<Rightarrow> nat \<Rightarrow> nat \<Rightarrow> nat \<Rightarrow> nat \<times> nat" where
  "sizes_loop nums narray i a na n =
     (if 2 ^ i div 2 < narray then
        (let a' = (if 0 < nums ! i then a + nums ! i else a);
             take = 0 < nums ! i \<and> 2 ^ i div 2 < a';
             na' = (if take then a' else na);
             n' = (if take then 2 ^ i else n)
         in if a' = narray then (n', na') else sizes_loop nums narray (i + 1) a' na' n')
      else (n, na))"
  by pat_completeness auto
termination
proof (relation "measure (\<lambda>(nums, narray, i, a, na, n). narray - 2 ^ i div 2)")
  fix nums narray i a na n x xa xb xc
  assume "(2 :: nat) ^ i div 2 < narray"
  moreover have "(2 :: nat) ^ i div 2 < 2 ^ (i + 1) div 2" by simp
  ultimately have "narray - 2 ^ (i + 1) div 2 < narray - 2 ^ i div 2" by (rule diff_less_mono2 [rotated])
  then show "((nums :: nat list, narray, i + 1, x :: nat, xb :: nat, xc :: nat),
      nums, narray, i, a :: nat, na :: nat, n :: nat)
    \<in> measure (\<lambda>(nums, narray, i, a, na, n). narray - 2 ^ i div 2)"
    by simp
qed simp

declare sizes_loop.simps [simp del]

text \<open>The result is the new \<open>*narray\<close> and the count \<open>na\<close>.\<close>

definition computesizes :: "nat list \<Rightarrow> nat \<Rightarrow> nat \<times> nat" where
  "computesizes nums narray = sizes_loop nums narray 0 0 0 0"

definition countint :: "TValue \<Rightarrow> nat list \<Rightarrow> nat \<times> nat list" where
  "countint key nums =
     (let k = arrayindex key
      in if 0 < k \<and> k \<le> int MAXASIZE
         then (let j = nat (ceillog2 (word_of_int k)) in (1, nums[j := nums ! j + 1]))
         else (0, nums))"

text \<open>
  The two loops of \<open>numusearray\<close>: \<open>lg\<close> counts up to \<open>MAXBITS\<close>, the slice of \<open>lg\<close> is
  \<open>(2^(lg-1), 2^lg]\<close>, cut off at the size of the array.
\<close>

definition slice_count :: "Table \<Rightarrow> nat \<Rightarrow> nat \<Rightarrow> nat" where
  "slice_count t i lim = length (filter (\<lambda>j. array t ! (j - 1) \<noteq> TNil) [i..<lim + 1])"

function usearray_loop :: "Table \<Rightarrow> nat \<Rightarrow> nat \<Rightarrow> nat \<Rightarrow> nat list \<Rightarrow> nat \<times> nat list" where
  "usearray_loop t lg i ause nums =
     (if lg \<le> MAXBITS then
        (let ttlg = 2 ^ lg;
             lim = (if length (array t) < ttlg then length (array t) else ttlg)
         in if length (array t) < ttlg \<and> lim < i then (ause, nums)
            else (let lc = slice_count t i lim
                  in usearray_loop t (lg + 1) (max i (lim + 1)) (ause + lc)
                       (nums[lg := nums ! lg + lc])))
      else (ause, nums))"
  by pat_completeness auto
termination by (relation "measure (\<lambda>(t, lg, i, ause, nums). MAXBITS + 1 - lg)") auto

declare usearray_loop.simps [simp del]

definition numusearray :: "Table \<Rightarrow> nat list \<Rightarrow> nat \<times> nat list" where
  "numusearray t nums = usearray_loop t 0 1 0 nums"

text \<open>\<open>numusehash\<close> from the last node down: total, integer keys, counts.\<close>

fun usehash_loop :: "Node list \<Rightarrow> nat \<Rightarrow> nat \<Rightarrow> nat \<Rightarrow> nat list \<Rightarrow> nat \<times> nat \<times> nat list" where
  "usehash_loop ns 0 totaluse ause nums = (totaluse, ause, nums)"
| "usehash_loop ns (Suc i) totaluse ause nums =
     (if i_val (ns ! i) \<noteq> TNil
      then (let (c, nums') = countint (i_key (ns ! i)) nums
            in usehash_loop ns i (totaluse + 1) (ause + c) nums')
      else usehash_loop ns i totaluse ause nums)"

definition numusehash :: "Table \<Rightarrow> nat list \<Rightarrow> nat \<Rightarrow> nat \<times> nat \<times> nat list" where
  "numusehash t nums pnasize =
     (let (totaluse, ause, nums') = usehash_loop (node t) (sizenode t) 0 0 nums
      in (totaluse, pnasize + ause, nums'))"

definition setarrayvector :: "Table \<Rightarrow> nat \<Rightarrow> Table" where
  "setarrayvector t sz =
     t\<lparr>array := take sz (array t) @ replicate (sz - length (array t)) TNil\<rparr>"

definition setnodevector :: "Table \<Rightarrow> nat \<Rightarrow> Table outcome" where
  "setnodevector t sz =
     (if sz = 0 then
        Ok (t\<lparr>node := [dummynode], dummy := True, lsizenode := 0, lastfree := 0\<rparr>)
      else
        (let lsize = nat (ceillog2 (word_of_nat sz))
         in if MAXBITS < lsize then RunError ''table overflow''
            else Ok (t\<lparr>node := replicate (twoto lsize) \<lparr>i_val = TNil, i_key = TNil, i_next = None\<rparr>,
                       dummy := False, lsizenode := lsize, lastfree := int (twoto lsize)\<rparr>)))"

text \<open>
  \<open>resize\<close>: first the slice that leaves the array, from its start, then the old nodes from
  the last one down.
\<close>

definition put_with :: "(Table \<Rightarrow> (Table \<times> slot) outcome) \<Rightarrow> TValue \<Rightarrow> Table \<Rightarrow> Table outcome" where
  "put_with f v t = bind_outcome (f t) (\<lambda>(t', s). Ok (put_slot t' s v))"

definition resize_with :: "(Table \<Rightarrow> TValue \<Rightarrow> (Table \<times> slot) outcome) \<Rightarrow> Table \<Rightarrow> nat \<Rightarrow> nat
    \<Rightarrow> Table outcome" where
  "resize_with full t nasize nhsize =
     (let oldasize = length (array t); oldhsize = lsizenode t; nold = node t; aold = array t;
          t1 = (if oldasize < nasize then setarrayvector t nasize else t)
      in bind_outcome (setnodevector t1 nhsize) (\<lambda>t2.
         bind_outcome
           (if nasize < oldasize
            then each (\<lambda>i t. if aold ! i \<noteq> TNil
                             then put_with (\<lambda>t. setnum_with full t (int i + 1)) (aold ! i) t
                             else Ok t)
                   [nasize..<oldasize] (t2\<lparr>array := take nasize (array t2)\<rparr>)
            else Ok t2)
           (each (\<lambda>i t. if i_val (nold ! i) \<noteq> TNil
                        then put_with (\<lambda>t. set_with full t (i_key (nold ! i))) (i_val (nold ! i)) t
                        else Ok t)
              (rev [0..<twoto oldhsize]))))"

definition rehash_sizes :: "Table \<Rightarrow> TValue \<Rightarrow> nat \<times> nat" where
  "rehash_sizes t ek =
     (let nums = replicate (MAXBITS + 1) 0;
          (nasize, nums) = numusearray t nums;
          totaluse = nasize;
          (tu, nasize, nums) = numusehash t nums nasize;
          totaluse = totaluse + tu;
          (c, nums) = countint ek nums;
          nasize = nasize + c;
          totaluse = totaluse + 1;
          (nasize, na) = computesizes nums nasize
      in (nasize, totaluse - na))"

definition rehash_with :: "(Table \<Rightarrow> TValue \<Rightarrow> (Table \<times> slot) outcome) \<Rightarrow> Table \<Rightarrow> TValue
    \<Rightarrow> Table outcome" where
  "rehash_with full t ek = (let (nasize, nhsize) = rehash_sizes t ek in resize_with full t nasize nhsize)"

section \<open>Setting\<close>

text \<open>
  \<open>newkey\<close>, \<open>rehash\<close>, \<open>resize\<close> and \<open>luaH_set\<close> call each other. \<open>full_at d\<close> allows \<open>d\<close>
  rehashes inside one another and is \<open>Stuck\<close> on one more; theory Rehash shows that one is
  enough: the table a rehash builds has room for all that is put in it.
\<close>

primrec full_at :: "nat \<Rightarrow> Table \<Rightarrow> TValue \<Rightarrow> (Table \<times> slot) outcome" where
  "full_at 0 t key = Stuck"
| "full_at (Suc d) t key =
     bind_outcome (rehash_with (full_at d) t key) (\<lambda>t'. set_with (full_at d) t' key)"

definition luaH_set :: "Table \<Rightarrow> TValue \<Rightarrow> (Table \<times> slot) outcome" where
  "luaH_set t key = set_with (full_at 1) t key"

definition luaH_setnum :: "Table \<Rightarrow> int \<Rightarrow> (Table \<times> slot) outcome" where
  "luaH_setnum t key = setnum_with (full_at 1) t key"

definition luaH_setstr :: "Table \<Rightarrow> bytes \<Rightarrow> (Table \<times> slot) outcome" where
  "luaH_setstr t key = setstr_with (full_at 1) t key"

definition luaH_resizearray :: "Table \<Rightarrow> nat \<Rightarrow> Table outcome" where
  "luaH_resizearray t nasize =
     (let nsize = (if dummy t then 0 else sizenode t)
      in resize_with (full_at 1) t nasize nsize)"

definition luaH_new :: "nat \<Rightarrow> nat \<Rightarrow> Table outcome" where
  "luaH_new narray nhash =
     setnodevector
       (setarrayvector \<lparr>flags = - 1, metatable = None, lsizenode = 0, array = [],
          node = [dummynode], dummy = True, lastfree = 0\<rparr> narray) nhash"

section \<open>Traversal\<close>

text \<open>
  \<open>gcvalue\<close> of a key on the stack is a parameter: the address of a string is the string
  table's choice.
\<close>

definition LUA_QL :: "string \<Rightarrow> string" where "LUA_QL x = CHR 0x27 # x @ [CHR 0x27]"

definition iscollectable :: "TValue \<Rightarrow> bool" where "iscollectable v \<longleftrightarrow> 4 \<le> ttype v"

definition findindex :: "(TValue \<Rightarrow> u64) \<Rightarrow> Table \<Rightarrow> TValue \<Rightarrow> int outcome" where
  "findindex gcvalue t key =
     (if key = TNil then Ok (- 1)
      else
        (let i = arrayindex key
         in if 0 < i \<and> i \<le> int (length (array t)) then Ok (i - 1)
            else
              (case search (\<lambda>k. luaO_rawequalObj k key
                       \<or> (case k of TDeadKey p \<Rightarrow> iscollectable key \<and> p = gcvalue key | _ \<Rightarrow> False))
                  t (mainposition t key) of
                 At (NodeSlot n) \<Rightarrow> Ok (int n + int (length (array t)))
               | Endless \<Rightarrow> Stuck
               | _ \<Rightarrow> RunError (''invalid key to '' @ LUA_QL ''next''))))"

text \<open>The two loops of \<open>luaH_next\<close>, over what is left of each part.\<close>

definition first_index :: "(nat \<Rightarrow> bool) \<Rightarrow> nat \<Rightarrow> nat \<Rightarrow> nat option" where
  "first_index p i n = List.find p [i..<n]"

definition luaH_next :: "(TValue \<Rightarrow> u64) \<Rightarrow> Table \<Rightarrow> TValue \<Rightarrow> (TValue \<times> TValue) option outcome" where
  "luaH_next gcvalue t key =
     bind_outcome (findindex gcvalue t key) (\<lambda>i.
       (let i = nat (i + 1); sz = length (array t)
        in case first_index (\<lambda>j. array t ! j \<noteq> TNil) i sz of
             Some j \<Rightarrow> Ok (Some (TNumber (cast_num (int j + 1)), array t ! j))
           | None \<Rightarrow>
               (case first_index (\<lambda>j. i_val (node t ! j) \<noteq> TNil) (max i sz - sz) (sizenode t) of
                  Some j \<Rightarrow> Ok (Some (i_key (node t ! j), i_val (node t ! j)))
                | None \<Rightarrow> Ok None)))"

section \<open>Length\<close>

text \<open>Both binary searches: \<open>p m\<close> says that index \<open>m\<close> is absent.\<close>

function bisect :: "(nat \<Rightarrow> bool) \<Rightarrow> nat \<Rightarrow> nat \<Rightarrow> nat" where
  "bisect p i j =
     (if 1 < j - i then (let m = (i + j) div 2 in if p m then bisect p i m else bisect p m j)
      else i)"
  by pat_completeness auto
termination by (relation "measure (\<lambda>(p, i, j). j - i)") auto

declare bisect.simps [simp del]

definition absent :: "Table \<Rightarrow> nat \<Rightarrow> bool" where
  "absent t i \<longleftrightarrow> lookup_val t (luaH_getnum t (int i)) = TNil"

text \<open>
  \<open>unbound_search\<close>. The doubling ends when \<open>j\<close> passes \<open>MAX_INT\<close>, which is \<open>INT_MAX - 2\<close>;
  the linear search that then follows has one step more than the table has places as its
  bound and is \<open>None\<close> beyond it.
\<close>

fun linear_search :: "Table \<Rightarrow> nat \<Rightarrow> nat \<Rightarrow> nat option" where
  "linear_search t 0 i = None"
| "linear_search t (Suc f) i = (if absent t i then Some (i - 1) else linear_search t f (i + 1))"

function doubling :: "Table \<Rightarrow> nat \<Rightarrow> nat \<Rightarrow> nat option" where
  "doubling t i j =
     (if \<not> absent t j then
        (if 2 ^ 31 - 3 < 2 * j then linear_search t (length (array t) + length (node t) + 1) 1
         else if j = 0 then None
         else doubling t j (2 * j))
      else Some (bisect (absent t) i j))"
  by pat_completeness auto
termination by (relation "measure (\<lambda>(t, i, j). 2 ^ 31 - j)") auto

declare doubling.simps [simp del]

definition unbound_search :: "Table \<Rightarrow> nat \<Rightarrow> nat option" where
  "unbound_search t j = doubling t j (j + 1)"

definition luaH_getn :: "Table \<Rightarrow> nat option" where
  "luaH_getn t =
     (let j = length (array t)
      in if 0 < j \<and> array t ! (j - 1) = TNil
         then Some (bisect (\<lambda>m. array t ! (m - 1) = TNil) 0 j)
         else if dummy t then Some j
         else unbound_search t j)"

end
