(* ===== verification/TableInv.thy ===== *)
theory TableInv
  imports Table
begin

text \<open>
  The invariant of the hash part of a table, what it says of searches, and the three ways
  in which \<open>newkey\<close> links a key (write over a dead entry, chain after the main position,
  move the colliding node). The lemmas are about a node vector and any hash function.
\<close>

unbundle bit_operations_syntax

section \<open>Chains\<close>

text \<open>\<open>chain ns i xs\<close>: the nodes reached from \<open>i\<close> by \<open>gnext\<close>, in order, to the end.\<close>

fun chain :: "Node list \<Rightarrow> nat \<Rightarrow> nat list \<Rightarrow> bool" where
  "chain ns i [] = False"
| "chain ns i (x # xs) \<longleftrightarrow> x = i \<and> i < length ns
     \<and> (case i_next (ns ! i) of None \<Rightarrow> xs = [] | Some j \<Rightarrow> chain ns j xs)"

lemma chain_unique: "chain ns i xs \<Longrightarrow> chain ns i ys \<Longrightarrow> xs = ys"
proof (induction xs arbitrary: i ys)
  case (Cons x xs)
  then obtain zs where ys: "ys = x # zs" by (cases ys) auto
  show ?case
  proof (cases "i_next (ns ! i)")
    case None
    then show ?thesis using Cons.prems ys by simp
  next
    case (Some j)
    then have "chain ns j xs" "chain ns j zs" using Cons.prems ys by simp_all
    then show ?thesis using Cons.IH ys by blast
  qed
qed simp

lemma chain_suffix: "chain ns i (xs @ y # ys) \<Longrightarrow> chain ns y (y # ys)"
proof (induction xs arbitrary: i)
  case (Cons x xs)
  then show ?case by (cases "i_next (ns ! i)") auto
qed simp

lemma chain_set_less: "chain ns i xs \<Longrightarrow> x \<in> set xs \<Longrightarrow> x < length ns"
  by (metis chain.simps(2) chain_suffix split_list)

lemma chain_distinct: "chain ns i xs \<Longrightarrow> distinct xs"
proof (rule ccontr)
  assume c: "chain ns i xs" and "\<not> distinct xs"
  then obtain as y bs cs where xs: "xs = as @ y # bs @ y # cs"
    using not_distinct_decomp [of xs] by auto
  have "chain ns y (y # bs @ y # cs)" using chain_suffix c xs by simp
  moreover have "chain ns y (y # cs)" using chain_suffix [of ns y "y # bs" y cs] calculation by simp
  ultimately have "y # bs @ y # cs = y # cs" by (rule chain_unique)
  then show False using arg_cong [where f = length] by fastforce
qed

lemma chain_length:
  assumes "chain ns i xs"
  shows "length xs \<le> length ns"
proof -
  have "set xs \<subseteq> {..<length ns}" using chain_set_less [OF assms] by auto
  then have "card (set xs) \<le> length ns" by (metis card_lessThan card_mono finite_lessThan)
  then show ?thesis by (simp add: distinct_card [OF chain_distinct [OF assms]])
qed

lemma chain_cong:
  "length ns' = length ns \<Longrightarrow> (\<And>i. i < length ns \<Longrightarrow> i_next (ns' ! i) = i_next (ns ! i))
    \<Longrightarrow> chain ns' i xs = chain ns i xs"
  by (induction xs arbitrary: i) (auto split: option.splits)

lemma chain_hd: "chain ns i xs \<Longrightarrow> i \<in> set xs"
  by (cases xs) auto

lemma chain_search_find:
  "chain ns i xs \<Longrightarrow> length xs \<le> f \<Longrightarrow> chain_search p ns f i =
    (case List.find (\<lambda>n. p (i_key (ns ! n))) xs of None \<Rightarrow> Absent | Some n \<Rightarrow> At (NodeSlot n))"
proof (induction xs arbitrary: i f)
  case (Cons x xs)
  then obtain f' where f: "f = Suc f'" "length xs \<le> f'" by (cases f) auto
  show ?case
  proof (cases "i_next (ns ! i)")
    case (Some j)
    then have "chain ns j xs" using Cons.prems by simp
    from Cons.IH [OF this f(2)] show ?thesis using Cons.prems f(1) Some by simp
  qed (use Cons.prems f in simp)
qed simp

lemma find_prev_pred:
  "chain ns i xs \<Longrightarrow> m \<in> set xs \<Longrightarrow> m \<noteq> i \<Longrightarrow> length xs \<le> f \<Longrightarrow>
    \<exists>q. find_prev ns f i m = Some q \<and> q \<in> set xs \<and> i_next (ns ! q) = Some m"
proof (induction xs arbitrary: i f)
  case (Cons x xs)
  then obtain f' where f: "f = Suc f'" "length xs \<le> f'" by (cases f) auto
  have "m \<in> set xs" using Cons.prems by auto
  then obtain j where j: "i_next (ns ! i) = Some j" "chain ns j xs"
    using Cons.prems(1) by (cases "i_next (ns ! i)") auto
  show ?case
  proof (cases "j = m")
    case True
    then show ?thesis using j f Cons.prems(1) by simp
  next
    case False
    then obtain q where "find_prev ns f' j m = Some q" "q \<in> set xs" "i_next (ns ! q) = Some m"
      using Cons.IH [OF j(2) \<open>m \<in> set xs\<close>] f(2) by blast
    then show ?thesis using j f False by simp
  qed
qed simp

section \<open>The invariant of a node vector\<close>

definition live :: "TValue \<Rightarrow> bool" where
  "live k \<longleftrightarrow> (case k of TNil \<Rightarrow> False | TDeadKey _ \<Rightarrow> False | TNumber n \<Rightarrow> \<not> num_nan n | _ \<Rightarrow> True)"

text \<open>
  Links stay between nodes with keys, no node has two predecessors, and every chain ends.
\<close>

definition links_ok :: "Node list \<Rightarrow> bool" where
  "links_ok ns \<longleftrightarrow>
     (\<forall>i < length ns. \<exists>xs. chain ns i xs)
     \<and> (\<forall>i < length ns. \<forall>j. i_next (ns ! i) = Some j \<longrightarrow> i_key (ns ! i) \<noteq> TNil \<and> i_key (ns ! j) \<noteq> TNil)
     \<and> (\<forall>i < length ns. \<forall>j < length ns. \<forall>k.
          i_next (ns ! i) = Some k \<and> i_next (ns ! j) = Some k \<longrightarrow> i = j)"

definition reaches :: "Node list \<Rightarrow> nat \<Rightarrow> nat \<Rightarrow> bool" where
  "reaches ns i j \<longleftrightarrow> (\<exists>xs. chain ns i xs \<and> j \<in> set xs)"

text \<open>
  The invariant the source states: if a live key is not in its main position, then the
  node there is in its own main position (unless the collector has marked its key dead,
  which it only does when the value is nil). With it: every live key is reached from its
  main position, no two live keys are equal, and a node with a value has a live key.
\<close>

definition keys_ok :: "(TValue \<Rightarrow> nat) \<Rightarrow> Node list \<Rightarrow> bool" where
  "keys_ok h ns \<longleftrightarrow>
     (\<forall>i < length ns. live (i_key (ns ! i)) \<longrightarrow>
        (let p = h (i_key (ns ! i))
         in p < length ns \<and> reaches ns p i \<and> i_key (ns ! p) \<noteq> TNil
            \<and> (live (i_key (ns ! p)) \<longrightarrow> h (i_key (ns ! p)) = p)))
     \<and> (\<forall>i < length ns. \<forall>j < length ns. live (i_key (ns ! i)) \<and> live (i_key (ns ! j))
          \<and> luaO_rawequalObj (i_key (ns ! i)) (i_key (ns ! j)) \<longrightarrow> i = j)
     \<and> (\<forall>i < length ns. i_val (ns ! i) \<noteq> TNil \<longrightarrow> live (i_key (ns ! i)))"

text \<open>The pairs of the vector, and a key that is not there.\<close>

definition entries :: "Node list \<Rightarrow> (TValue \<times> TValue) set" where
  "entries ns = {(i_key n, i_val n) | n. n \<in> set ns \<and> i_val n \<noteq> TNil}"

definition fresh :: "Node list \<Rightarrow> TValue \<Rightarrow> bool" where
  "fresh ns k \<longleftrightarrow> live k \<and> (\<forall>i < length ns. live (i_key (ns ! i)) \<longrightarrow> \<not> luaO_rawequalObj (i_key (ns ! i)) k)"

definition used :: "Node list \<Rightarrow> nat set" where
  "used ns = {i. i < length ns \<and> i_key (ns ! i) \<noteq> TNil}"

lemma live_not_nil: "live k \<Longrightarrow> k \<noteq> TNil"
  by (auto simp: live_def)

lemma live_refl: "live k \<Longrightarrow> luaO_rawequalObj k k"
  by (cases k) (auto simp: live_def rawequal_cases numeq_refl)

lemma entries_nth: "(k, v) \<in> entries ns \<longleftrightarrow> (\<exists>i < length ns. i_key (ns ! i) = k \<and> i_val (ns ! i) = v \<and> v \<noteq> TNil)"
  by (auto simp: entries_def in_set_conv_nth)

lemma reaches_refl: "links_ok ns \<Longrightarrow> i < length ns \<Longrightarrow> reaches ns i i"
  unfolding links_ok_def reaches_def using chain_hd by blast

lemma keys_okI:
  assumes "\<And>i. i < length ns \<Longrightarrow> live (i_key (ns ! i)) \<Longrightarrow> h (i_key (ns ! i)) < length ns
      \<and> reaches ns (h (i_key (ns ! i))) i \<and> i_key (ns ! h (i_key (ns ! i))) \<noteq> TNil
      \<and> (live (i_key (ns ! h (i_key (ns ! i)))) \<longrightarrow> h (i_key (ns ! h (i_key (ns ! i)))) = h (i_key (ns ! i)))"
    and "\<And>i j. i < length ns \<Longrightarrow> j < length ns \<Longrightarrow> live (i_key (ns ! i)) \<Longrightarrow> live (i_key (ns ! j))
      \<Longrightarrow> luaO_rawequalObj (i_key (ns ! i)) (i_key (ns ! j)) \<Longrightarrow> i = j"
    and "\<And>i. i < length ns \<Longrightarrow> i_val (ns ! i) \<noteq> TNil \<Longrightarrow> live (i_key (ns ! i))"
  shows "keys_ok h ns"
  unfolding keys_ok_def Let_def using assms by blast

lemma keys_okD:
  assumes "keys_ok h ns" "i < length ns"
  shows "live (i_key (ns ! i)) \<Longrightarrow> h (i_key (ns ! i)) < length ns
      \<and> reaches ns (h (i_key (ns ! i))) i \<and> i_key (ns ! h (i_key (ns ! i))) \<noteq> TNil
      \<and> (live (i_key (ns ! h (i_key (ns ! i)))) \<longrightarrow> h (i_key (ns ! h (i_key (ns ! i)))) = h (i_key (ns ! i)))"
    "j < length ns \<Longrightarrow> live (i_key (ns ! i)) \<Longrightarrow> live (i_key (ns ! j))
      \<Longrightarrow> luaO_rawequalObj (i_key (ns ! i)) (i_key (ns ! j)) \<Longrightarrow> i = j"
    "i_val (ns ! i) \<noteq> TNil \<Longrightarrow> live (i_key (ns ! i))"
  using assms unfolding keys_ok_def Let_def by blast+

lemma links_okI:
  assumes "\<And>i. i < length ns \<Longrightarrow> \<exists>xs. chain ns i xs"
    and "\<And>i j. i < length ns \<Longrightarrow> i_next (ns ! i) = Some j \<Longrightarrow> i_key (ns ! i) \<noteq> TNil \<and> i_key (ns ! j) \<noteq> TNil"
    and "\<And>i j k. i < length ns \<Longrightarrow> j < length ns \<Longrightarrow> i_next (ns ! i) = Some k \<Longrightarrow> i_next (ns ! j) = Some k \<Longrightarrow> i = j"
  shows "links_ok ns"
  unfolding links_ok_def using assms by blast

lemma links_okD:
  assumes "links_ok ns" "i < length ns"
  shows "\<exists>xs. chain ns i xs"
    "i_next (ns ! i) = Some j \<Longrightarrow> i_key (ns ! i) \<noteq> TNil \<and> i_key (ns ! j) \<noteq> TNil \<and> j < length ns"
    "j < length ns \<Longrightarrow> i_next (ns ! i) = Some k \<Longrightarrow> i_next (ns ! j) = Some k \<Longrightarrow> i = j"
proof -
  show ch: "\<exists>xs. chain ns i xs" using assms unfolding links_ok_def by blast
  then obtain xs where xs: "chain ns i xs" ..
  have "j < length ns" if "i_next (ns ! i) = Some j"
    using xs that by (cases xs; cases "tl xs") auto
  then show "i_next (ns ! i) = Some j \<Longrightarrow> i_key (ns ! i) \<noteq> TNil \<and> i_key (ns ! j) \<noteq> TNil \<and> j < length ns"
    using assms unfolding links_ok_def by blast
  show "j < length ns \<Longrightarrow> i_next (ns ! i) = Some k \<Longrightarrow> i_next (ns ! j) = Some k \<Longrightarrow> i = j"
    using assms unfolding links_ok_def by blast
qed

section \<open>Linking a key\<close>

lemma no_link_to_nil:
  assumes "links_ok ns" "chain ns i xs" "x \<in> set xs" "x \<noteq> i"
  shows "i_key (ns ! x) \<noteq> TNil"
  using assms(2-)
proof (induction xs arbitrary: i)
  case (Cons y ys)
  then have x: "x \<in> set ys" and i: "i < length ns" by auto
  then obtain j where j: "i_next (ns ! i) = Some j" "chain ns j ys"
    using Cons.prems(1) by (cases "i_next (ns ! i)") auto
  show ?case
  proof (cases "x = j")
    case True
    then show ?thesis using assms(1) j(1) i unfolding links_ok_def by blast
  next
    case False
    then show ?thesis using Cons.IH [OF j(2) x] by blast
  qed
qed simp

lemma chain_next: "chain ns i xs \<Longrightarrow> i_next (ns ! i) = Some j \<Longrightarrow> chain ns j (tl xs)"
  by (cases xs) auto

lemma chain_None: "chain ns i xs \<Longrightarrow> i_next (ns ! i) = None \<Longrightarrow> xs = [i]"
  by (cases xs) auto

text \<open>Over a dead entry: only the key of \<open>m\<close> changes.\<close>

lemma insert_over:
  assumes l: "links_ok ns" and k: "keys_ok h ns" and f: "fresh ns k"
    and m: "m < length ns" "h k = m" "i_val (ns ! m) = TNil"
  defines "ns' \<equiv> ns[m := (ns ! m)\<lparr>i_key := k\<rparr>]"
  shows "links_ok ns'" "keys_ok h ns'" "entries ns' = entries ns" "used ns' \<subseteq> insert m (used ns)"
    "i_key (ns' ! m) = k" "i_val (ns' ! m) = TNil"
proof -
  have len: "length ns' = length ns" by (simp add: ns'_def)
  have nxt: "i_next (ns' ! i) = i_next (ns ! i)" if "i < length ns" for i
    using that by (cases "i = m") (simp_all add: ns'_def)
  have key: "i_key (ns' ! i) = (if i = m then k else i_key (ns ! i))" if "i < length ns" for i
    using that by (cases "i = m") (simp_all add: ns'_def)
  have val: "i_val (ns' ! i) = i_val (ns ! i)" if "i < length ns" for i
    using that by (cases "i = m") (simp_all add: ns'_def)
  have ch: "chain ns' i xs = chain ns i xs" for i xs
    by (rule chain_cong [OF len nxt])
  have re: "reaches ns' i j = reaches ns i j" for i j
    by (simp add: reaches_def ch)
  have kn: "k \<noteq> TNil" "live k" using f live_not_nil by (auto simp: fresh_def)
  show "links_ok ns'"
  proof (rule links_okI, unfold len ch)
    show "\<And>i. i < length ns \<Longrightarrow> \<exists>xs. chain ns i xs" by (rule links_okD(1) [OF l])
    show "i_key (ns' ! i) \<noteq> TNil \<and> i_key (ns' ! j) \<noteq> TNil"
      if "i < length ns" "i_next (ns' ! i) = Some j" for i j
      using links_okD(2) [OF l that(1), of j] that kn(1) by (simp add: nxt key)
    show "i = j" if "i < length ns" "j < length ns" "i_next (ns' ! i) = Some z" "i_next (ns' ! j) = Some z" for i j z
      using links_okD(3) [OF l that(1,2), of z] that by (simp add: nxt)
  qed
  show "keys_ok h ns'"
  proof (rule keys_okI, unfold len re)
    fix i assume i: "i < length ns" "live (i_key (ns' ! i))"
    show "h (i_key (ns' ! i)) < length ns \<and> reaches ns (h (i_key (ns' ! i))) i
      \<and> i_key (ns' ! h (i_key (ns' ! i))) \<noteq> TNil
      \<and> (live (i_key (ns' ! h (i_key (ns' ! i)))) \<longrightarrow>
          h (i_key (ns' ! h (i_key (ns' ! i)))) = h (i_key (ns' ! i)))"
    proof (cases "i = m")
      case True
      then show ?thesis using m kn reaches_refl [OF l m(1)] by (simp add: key)
    next
      case False
      then have "live (i_key (ns ! i))" using i key by simp
      from keys_okD(1) [OF k i(1) this] show ?thesis
        using False m kn i(1) by (auto simp: key)
    qed
  next
    fix i j assume ij: "i < length ns" "j < length ns" "live (i_key (ns' ! i))" "live (i_key (ns' ! j))"
      "luaO_rawequalObj (i_key (ns' ! i)) (i_key (ns' ! j))"
    then show "i = j"
      using f keys_okD(2) [OF k ij(1,2)] unfolding fresh_def
      by (auto simp: key rawequal_sym split: if_splits)
  next
    fix i assume "i < length ns" "i_val (ns' ! i) \<noteq> TNil"
    then show "live (i_key (ns' ! i))"
      using keys_okD(3) [OF k] kn by (auto simp: key val)
  qed
  have "(a, b) \<in> entries ns' \<longleftrightarrow> (a, b) \<in> entries ns" for a b
    unfolding entries_nth len using m(3) by (metis key val)
  then show "entries ns' = entries ns" by auto
  show "used ns' \<subseteq> insert m (used ns)" by (auto simp: used_def len key)
  show "i_key (ns' ! m) = k" "i_val (ns' ! m) = TNil" using m by (simp_all add: key val)
qed

text \<open>After the main position: the free node \<open>n\<close> is linked behind \<open>m\<close>.\<close>

lemma insert_after:
  assumes l: "links_ok ns" and k: "keys_ok h ns" and f: "fresh ns k"
    and m: "m < length ns" "h k = m" "i_val (ns ! m) \<noteq> TNil" "h (i_key (ns ! m)) = m"
    and n: "n < length ns" "i_key (ns ! n) = TNil"
    and len: "length ns' = length ns"
    and nxt: "\<And>i. i < length ns \<Longrightarrow> i_next (ns' ! i) =
      (if i = m then Some n else if i = n then i_next (ns ! m) else i_next (ns ! i))"
    and key: "\<And>i. i < length ns \<Longrightarrow> i_key (ns' ! i) = (if i = n then k else i_key (ns ! i))"
    and val: "\<And>i. i < length ns \<Longrightarrow> i_val (ns' ! i) = i_val (ns ! i)"
  shows "links_ok ns'" "keys_ok h ns'" "entries ns' = entries ns" "used ns' \<subseteq> insert n (used ns)"
    "i_key (ns' ! n) = k" "i_val (ns' ! n) = TNil"
proof -
  have kn: "k \<noteq> TNil" "live k" using f live_not_nil by (auto simp: fresh_def)
  have lm: "live (i_key (ns ! m))" using keys_okD(3) [OF k m(1,3)] .
  then have nm: "n \<noteq> m" and km: "i_key (ns ! m) \<noteq> TNil" using n(2) live_not_nil by auto
  have nv: "i_val (ns ! n) = TNil" using keys_okD(3) [OF k n(1)] n(2) by (auto simp: live_def)
  define ins where "ins xs = concat (map (\<lambda>x. if x = m then [m, n] else [x]) xs)" for xs
  have ins_set: "set xs \<subseteq> set (ins xs)" for xs by (auto simp: ins_def)
  have chain_ins: "chain ns' i (ins xs)" if "chain ns i xs" "n \<notin> set xs" for i xs
    using that
  proof (induction xs arbitrary: i)
    case (Cons x xs)
    have "x = i" and i: "i < length ns" using Cons.prems by auto
    have rest: "chain ns' j (ins xs)" if "i_next (ns ! i) = Some j" for j
      using Cons.IH [of j] Cons.prems that by simp
    have none: "xs = []" if "i_next (ns ! i) = None" using Cons.prems that by simp
    show ?case
    proof (cases "i = m")
      case True
      then show ?thesis
        using i rest none n(1) nm \<open>x = i\<close>
        by (cases "i_next (ns ! m)") (auto simp: ins_def len nxt)
    next
      case False
      moreover have "i \<noteq> n" using Cons.prems(2) \<open>x = i\<close> by simp
      ultimately show ?thesis
        using i rest none \<open>x = i\<close>
        by (cases "i_next (ns ! i)") (auto simp: ins_def len nxt)
    qed
  qed simp
  have out: "n \<notin> set xs" if "chain ns i xs" "i \<noteq> n" for i xs
    using no_link_to_nil [OF l that(1), of n] n(2) that(2) by auto
  have re: "reaches ns' p i" if "reaches ns p i" "p \<noteq> n" for p i
    using that chain_ins out ins_set unfolding reaches_def by blast
  obtain xm where xm: "chain ns m xm" using links_okD(1) [OF l m(1)] ..
  have cn: "\<exists>xs. chain ns' n xs"
  proof (cases "i_next (ns ! m)")
    case None
    then have "chain ns' n [n]" using n nm by (simp add: len nxt)
    then show ?thesis ..
  next
    case (Some j)
    have "chain ns j (tl xm)" using chain_next [OF xm Some] .
    moreover have "j \<noteq> n" using links_okD(2) [OF l m(1) Some] n(2) by auto
    ultimately have "chain ns' j (ins (tl xm))" using chain_ins out by blast
    then have "chain ns' n (n # ins (tl xm))" using n nm Some by (simp add: len nxt)
    then show ?thesis ..
  qed
  have mn: "reaches ns' m n"
  proof -
    have "m \<in> set xm" using chain_hd [OF xm] .
    then have "n \<in> set (ins xm)" by (auto simp: ins_def)
    moreover have "chain ns' m (ins xm)" using chain_ins [OF xm out [OF xm]] nm by simp
    ultimately show ?thesis unfolding reaches_def by blast
  qed
  show "links_ok ns'"
  proof (rule links_okI, unfold len)
    fix i assume "i < length ns"
    then obtain xs where "chain ns i xs" using links_okD(1) [OF l] by blast
    then show "\<exists>xs. chain ns' i xs" using chain_ins out cn by (cases "i = n") blast+
  next
    fix i j assume i: "i < length ns" "i_next (ns' ! i) = Some j"
    consider "i = m" "j = n" | "i = n" "i_next (ns ! m) = Some j" | "i \<noteq> m" "i \<noteq> n" "i_next (ns ! i) = Some j"
      using i nm by (auto simp: nxt split: if_splits)
    then show "i_key (ns' ! i) \<noteq> TNil \<and> i_key (ns' ! j) \<noteq> TNil"
    proof cases
      case 1
      then show ?thesis using kn km nm m n by (simp add: key)
    next
      case 2
      then show ?thesis using kn links_okD(2) [OF l m(1)] n by (simp add: key)
    next
      case 3
      then show ?thesis using kn links_okD(2) [OF l i(1)] i by (simp add: key)
    qed
  next
    fix i j z assume i: "i < length ns" "j < length ns" "i_next (ns' ! i) = Some z" "i_next (ns' ! j) = Some z"
    have notn: "z \<noteq> n" if "a < length ns" "i_next (ns ! a) = Some z" for a
      using links_okD(2) [OF l that] n(2) by auto
    show "i = j"
      using i notn [OF m(1)] notn [OF i(1)] notn [OF i(2)]
        links_okD(3) [OF l i(1) m(1)] links_okD(3) [OF l i(2) m(1)] links_okD(3) [OF l i(1) i(2)]
      by (auto simp: nxt split: if_splits)
  qed
  show "keys_ok h ns'"
  proof (rule keys_okI, unfold len)
    fix i assume i: "i < length ns" "live (i_key (ns' ! i))"
    show "h (i_key (ns' ! i)) < length ns \<and> reaches ns' (h (i_key (ns' ! i))) i
      \<and> i_key (ns' ! h (i_key (ns' ! i))) \<noteq> TNil
      \<and> (live (i_key (ns' ! h (i_key (ns' ! i)))) \<longrightarrow>
          h (i_key (ns' ! h (i_key (ns' ! i)))) = h (i_key (ns' ! i)))"
    proof (cases "i = n")
      case True
      then show ?thesis using m kn mn km nm n by (simp add: key)
    next
      case False
      then have "live (i_key (ns ! i))" using i key by simp
      from keys_okD(1) [OF k i(1) this] show ?thesis
        using False m kn i(1) n re by (auto simp: key)
    qed
  next
    fix i j assume ij: "i < length ns" "j < length ns" "live (i_key (ns' ! i))" "live (i_key (ns' ! j))"
      "luaO_rawequalObj (i_key (ns' ! i)) (i_key (ns' ! j))"
    then show "i = j"
      using f keys_okD(2) [OF k ij(1,2)] unfolding fresh_def
      by (auto simp: key rawequal_sym split: if_splits)
  next
    fix i assume "i < length ns" "i_val (ns' ! i) \<noteq> TNil"
    then show "live (i_key (ns' ! i))"
      using keys_okD(3) [OF k] kn by (auto simp: key val)
  qed
  have "(a, b) \<in> entries ns' \<longleftrightarrow> (a, b) \<in> entries ns" for a b
    unfolding entries_nth len using nv n by (metis key val)
  then show "entries ns' = entries ns" by auto
  show "used ns' \<subseteq> insert n (used ns)" by (auto simp: used_def len key)
  show "i_key (ns' ! n) = k" "i_val (ns' ! n) = TNil" using n nv by (simp_all add: key val)
qed

text \<open>The colliding node moves from \<open>m\<close> to the free node \<open>n\<close>; \<open>q\<close> is its predecessor.\<close>

lemma insert_move:
  assumes l: "links_ok ns" and k: "keys_ok h ns" and f: "fresh ns k"
    and m: "m < length ns" "h k = m" "i_val (ns ! m) \<noteq> TNil" "h (i_key (ns ! m)) \<noteq> m"
    and n: "n < length ns" "i_key (ns ! n) = TNil"
    and q: "q < length ns" "i_next (ns ! q) = Some m"
    and len: "length ns' = length ns"
    and nxt: "\<And>i. i < length ns \<Longrightarrow> i_next (ns' ! i) =
      (if i = m then None else if i = n then i_next (ns ! m) else if i = q then Some n else i_next (ns ! i))"
    and key: "\<And>i. i < length ns \<Longrightarrow> i_key (ns' ! i) =
      (if i = m then k else if i = n then i_key (ns ! m) else i_key (ns ! i))"
    and val: "\<And>i. i < length ns \<Longrightarrow> i_val (ns' ! i) =
      (if i = m then TNil else if i = n then i_val (ns ! m) else i_val (ns ! i))"
  shows "links_ok ns'" "keys_ok h ns'" "entries ns' = entries ns" "used ns' \<subseteq> insert n (used ns)"
    "i_key (ns' ! m) = k" "i_val (ns' ! m) = TNil"
proof -
  have kn: "k \<noteq> TNil" "live k" using f live_not_nil by (auto simp: fresh_def)
  have lm: "live (i_key (ns ! m))" using keys_okD(3) [OF k m(1,3)] .
  then have nm: "n \<noteq> m" and km: "i_key (ns ! m) \<noteq> TNil" using n(2) live_not_nil by auto
  have nv: "i_val (ns ! n) = TNil" using keys_okD(3) [OF k n(1)] n(2) by (auto simp: live_def)
  have qn: "q \<noteq> n" using links_okD(2) [OF l q] n(2) by auto
  have qm: "q \<noteq> m"
  proof
    assume "q = m"
    obtain xs where xs: "chain ns m xs" using links_okD(1) [OF l m(1)] ..
    then have "chain ns m (tl xs)" using chain_next q \<open>q = m\<close> by blast
    with xs have "xs = tl xs" by (rule chain_unique)
    then show False using xs by (cases xs) auto
  qed
  define ren where "ren x = (if x = m then n else x)" for x
  have chain_ren: "chain ns' (ren i) (map ren xs)" if "chain ns i xs" "n \<notin> set xs" for i xs
    using that
  proof (induction xs arbitrary: i)
    case (Cons x xs)
    have "x = i" and i: "i < length ns" using Cons.prems by auto
    have "i \<noteq> n" using Cons.prems(2) \<open>x = i\<close> by simp
    have eq: "i_next (ns' ! ren i) = map_option ren (i_next (ns ! i))"
      using i n \<open>i \<noteq> n\<close> nm qm q links_okD(3) [OF l i q(1)]
      by (cases "i_next (ns ! i)") (auto simp: ren_def nxt)
    have rest: "chain ns' (ren j) (map ren xs)" if "i_next (ns ! i) = Some j" for j
      using Cons.IH [of j] Cons.prems that by simp
    have none: "xs = []" if "i_next (ns ! i) = None" using Cons.prems that by simp
    have "ren i < length ns'" using i n by (simp add: ren_def len)
    then show ?case
      using rest none \<open>x = i\<close> eq by (cases "i_next (ns ! i)") auto
  qed simp
  have out: "n \<notin> set xs" if "chain ns i xs" "i \<noteq> n" for i xs
    using no_link_to_nil [OF l that(1), of n] n(2) that(2) by auto
  have re: "reaches ns' p (ren i)" if r: "reaches ns p i" and p: "p \<noteq> n" "p \<noteq> m" for p i
  proof -
    obtain xs where xs: "chain ns p xs" "i \<in> set xs" using r by (auto simp: reaches_def)
    then have "chain ns' (ren p) (map ren xs)" using chain_ren out p(1) by blast
    moreover have "ren p = p" using p by (simp add: ren_def)
    ultimately show ?thesis using xs(2) unfolding reaches_def by auto
  qed
  have cm: "chain ns' m [m]" using m by (simp add: len nxt)
  show "links_ok ns'"
  proof (rule links_okI, unfold len)
    fix i assume i: "i < length ns"
    obtain xs where xs: "chain ns m xs" using links_okD(1) [OF l m(1)] ..
    have "chain ns' n (map ren xs)" using chain_ren [OF xs] out [OF xs] nm by (simp add: ren_def)
    moreover obtain ys where ys: "chain ns i ys" using links_okD(1) [OF l i] ..
    moreover have "i \<noteq> n \<Longrightarrow> i \<noteq> m \<Longrightarrow> chain ns' i (map ren ys)"
      using chain_ren [OF ys] out [OF ys] by (simp add: ren_def)
    ultimately show "\<exists>xs. chain ns' i xs" using cm by blast
  next
    fix i j assume i: "i < length ns" "i_next (ns' ! i) = Some j"
    consider "i = n" "i_next (ns ! m) = Some j" | "i = q" "j = n"
      | "i \<noteq> m" "i \<noteq> n" "i \<noteq> q" "i_next (ns ! i) = Some j"
      using i qm by (auto simp: nxt split: if_splits)
    then show "i_key (ns' ! i) \<noteq> TNil \<and> i_key (ns' ! j) \<noteq> TNil"
    proof cases
      case 1
      then show ?thesis using kn km links_okD(2) [OF l m(1)] n nm by (auto simp: key)
    next
      case 2
      then show ?thesis using kn km links_okD(2) [OF l q] n qm qn q(1) nm by (auto simp: key)
    next
      case 3
      then show ?thesis using kn km links_okD(2) [OF l i(1)] i by (auto simp: key)
    qed
  next
    fix i j z assume i: "i < length ns" "j < length ns" "i_next (ns' ! i) = Some z" "i_next (ns' ! j) = Some z"
    have notn: "z \<noteq> n" if "a < length ns" "i_next (ns ! a) = Some z" for a
      using links_okD(2) [OF l that] n(2) by auto
    show "i = j"
      using i notn [OF m(1)] notn [OF i(1)] notn [OF i(2)]
        links_okD(3) [OF l i(1) m(1)] links_okD(3) [OF l i(2) m(1)] links_okD(3) [OF l i(1) i(2)]
      by (auto simp: nxt split: if_splits)
  qed
  show "keys_ok h ns'"
  proof (rule keys_okI, unfold len)
    have main: "p < length ns \<and> p \<noteq> n \<and> p \<noteq> m \<and> reaches ns' p (ren i) \<and> i_key (ns' ! p) \<noteq> TNil
        \<and> (live (i_key (ns' ! p)) \<longrightarrow> h (i_key (ns' ! p)) = p)"
      if i: "i < length ns" "live (i_key (ns ! i))" "p = h (i_key (ns ! i))" for i p
    proof -
      note d = keys_okD(1) [OF k i(1,2), folded i(3)]
      then have "p \<noteq> n" "p \<noteq> m" using n(2) lm m(4) by auto
      then show ?thesis using d re by (simp add: key)
    qed
    fix i assume i: "i < length ns" "live (i_key (ns' ! i))"
    show "h (i_key (ns' ! i)) < length ns \<and> reaches ns' (h (i_key (ns' ! i))) i
      \<and> i_key (ns' ! h (i_key (ns' ! i))) \<noteq> TNil
      \<and> (live (i_key (ns' ! h (i_key (ns' ! i)))) \<longrightarrow>
          h (i_key (ns' ! h (i_key (ns' ! i)))) = h (i_key (ns' ! i)))"
    proof (cases "i = m")
      case True
      moreover have "reaches ns' m m" using cm chain_hd unfolding reaches_def by blast
      ultimately show ?thesis using m kn by (simp add: key)
    next
      case False
      show ?thesis
      proof (cases "i = n")
        case True
        then have "i_key (ns' ! i) = i_key (ns ! m)" using n nm by (simp add: key)
        then show ?thesis using main [OF m(1) lm refl] True by (simp add: ren_def)
      next
        case False
        then have e: "i_key (ns' ! i) = i_key (ns ! i)" using \<open>i \<noteq> m\<close> i by (simp add: key)
        with i(2) have "live (i_key (ns ! i))" by simp
        from main [OF i(1) this refl] show ?thesis
          using False \<open>i \<noteq> m\<close> e by (simp add: ren_def)
      qed
    qed
  next
    fix i j assume ij: "i < length ns" "j < length ns" "live (i_key (ns' ! i))" "live (i_key (ns' ! j))"
      "luaO_rawequalObj (i_key (ns' ! i)) (i_key (ns' ! j))"
    have fr: "\<not> luaO_rawequalObj (i_key (ns ! a)) k" "\<not> luaO_rawequalObj k (i_key (ns ! a))"
      if "a < length ns" "live (i_key (ns ! a))" for a
      using f that unfolding fresh_def by (auto simp: rawequal_sym)
    have nl: "\<not> live (i_key (ns ! n))" using n by (simp add: live_def)
    show "i = j"
      using ij nl lm m(1) fr keys_okD(2) [OF k ij(1,2)] keys_okD(2) [OF k ij(1) m(1)]
        keys_okD(2) [OF k m(1) ij(2)]
      by (auto simp: key split: if_splits)
  next
    fix i assume "i < length ns" "i_val (ns' ! i) \<noteq> TNil"
    then show "live (i_key (ns' ! i))"
      using keys_okD(3) [OF k] kn lm by (auto simp: key val split: if_splits)
  qed
  have "(a, b) \<in> entries ns' \<longleftrightarrow> (a, b) \<in> entries ns" for a b
  proof
    assume "(a, b) \<in> entries ns'"
    then obtain i where i: "i < length ns" "i_key (ns' ! i) = a" "i_val (ns' ! i) = b" "b \<noteq> TNil"
      unfolding entries_nth len by blast
    then have "i \<noteq> m" by (auto simp: val)
    with i show "(a, b) \<in> entries ns" unfolding entries_nth using m by (metis key val)
  next
    assume "(a, b) \<in> entries ns"
    then obtain i where i: "i < length ns" "i_key (ns ! i) = a" "i_val (ns ! i) = b" "b \<noteq> TNil"
      unfolding entries_nth by blast
    then have "ren i < length ns" "i_key (ns' ! ren i) = a" "i_val (ns' ! ren i) = b"
      using n nv nm by (auto simp: ren_def key val)
    then show "(a, b) \<in> entries ns'" unfolding entries_nth len using i(4) by blast
  qed
  then show "entries ns' = entries ns" by auto
  show "used ns' \<subseteq> insert n (used ns)" using km m(1) by (auto simp: used_def len key split: if_splits)
  show "i_key (ns' ! m) = k" "i_val (ns' ! m) = TNil" using m by (simp_all add: key val)
qed

end
