(* ===== verification/TableOps.thy ===== *)
theory TableOps
  imports TableInv
begin

text \<open>
  The invariant of a table, lookups against a linear search, and what \<open>newkey\<close> and
  \<open>luaH_set\<close> do while there is a free position.
\<close>

unbundle bit_operations_syntax

section \<open>Main positions\<close>

lemma mainposition_cong: "lsizenode t = lsizenode t' \<Longrightarrow> mainposition t = mainposition t'"
proof
  fix k assume "lsizenode t = lsizenode t'"
  then have "sizenode t = sizenode t'" by (simp add: sizenode_def)
  then show "mainposition t k = mainposition t' k"
    by (cases k) (simp_all add: hashnum_def hashmod_def hashpow2_def)
qed

lemma mainposition_update [simp]:
  "mainposition (t\<lparr>flags := f\<rparr>) = mainposition t"
  "mainposition (t\<lparr>metatable := mt\<rparr>) = mainposition t"
  "mainposition (t\<lparr>array := a\<rparr>) = mainposition t"
  "mainposition (t\<lparr>node := ns\<rparr>) = mainposition t"
  "mainposition (t\<lparr>lastfree := lf\<rparr>) = mainposition t"
  by (rule mainposition_cong, simp)+

lemma sizenode_update [simp]:
  "sizenode (t\<lparr>flags := f\<rparr>) = sizenode t"
  "sizenode (t\<lparr>metatable := mt\<rparr>) = sizenode t"
  "sizenode (t\<lparr>array := a\<rparr>) = sizenode t"
  "sizenode (t\<lparr>node := ns\<rparr>) = sizenode t"
  "sizenode (t\<lparr>lastfree := lf\<rparr>) = sizenode t"
  by (simp_all add: sizenode_def)

lemma hashmod_less: "hashmod t n < sizenode t"
proof (cases "lsizenode t")
  case 0
  then show ?thesis by (simp add: hashmod_def sizenode_def twoto_def)
next
  case (Suc k)
  then have s: "sizenode t = 2 * 2 ^ k" by (simp add: sizenode_def twoto_def)
  then have "odd (sizenode t - 1)" by simp
  then have "(sizenode t - 1) OR 1 = sizenode t - 1" by (simp only: or_one_eq) simp
  moreover have "(0 :: nat) < 2 ^ k" by simp
  then have "0 < sizenode t - 1" unfolding s by linarith
  then have "unat n mod (sizenode t - 1) < sizenode t - 1" by (rule mod_less_divisor)
  moreover have "hashmod t n = unat n mod ((sizenode t - 1) OR 1)" by (simp only: hashmod_def)
  ultimately show ?thesis by (metis diff_le_self order_less_le_trans)
qed

lemma mainposition_less:
  assumes "lsizenode t \<le> MAXBITS"
  shows "mainposition t k < sizenode t"
proof -
  have p: "hashpow2 t n < sizenode t" for n
    using lmod_less [of "lsizenode t" n] assms by (simp add: hashpow2_def sizenode_def twoto_def MAXBITS_def)
  have "0 < sizenode t" by (simp add: sizenode_def twoto_def)
  then have "hashnum t n < sizenode t" for n
    using hashmod_less by (simp add: hashnum_def)
  then show ?thesis using p hashmod_less \<open>0 < sizenode t\<close> by (cases k) simp_all
qed

lemma numeq_zero_cong: "luai_numeq a b \<Longrightarrow> luai_numeq a 0 = luai_numeq b 0"
  using numeq_sym numeq_trans by blast

lemma numeq_eq_or_zero:
  assumes "luai_numeq a b" "a \<noteq> b"
  shows "luai_numeq a 0" "luai_numeq b 0"
proof -
  have "num_zero 0" by (simp add: num_zero_def num_exp_def num_man_def)
  moreover have "\<not> num_nan 0" by (simp add: num_nan_def num_exp_def num_man_def)
  ultimately show "luai_numeq a 0" "luai_numeq b 0" using assms by (auto simp: luai_numeq_def)
qed

lemma mainposition_rawequal:
  assumes "luaO_rawequalObj a b"
  shows "mainposition t a = mainposition t b"
proof (cases "a = b")
  case False
  then obtain x y where "a = TNumber x" "b = TNumber y" "luai_numeq x y"
    using assms by (cases a) (auto simp: rawequal_cases)
  then show ?thesis using numeq_eq_or_zero [of x y] False by (simp add: hashnum_def)
qed simp

section \<open>Integer keys\<close>

lemma arrayindex_range: "- (2 ^ 31) \<le> arrayindex k \<and> arrayindex k < 2 ^ 31"
  using lua_number2int_range by (cases k) (auto simp: arrayindex_def Let_def)

lemma arrayindex_number:
  "0 < arrayindex k \<Longrightarrow> \<exists>n. k = TNumber n \<and> luai_numeq (cast_num (arrayindex k)) n \<and> arrayindex k = lua_number2int n"
  by (cases k) (auto simp: arrayindex_def Let_def split: if_splits)

lemma number2int_numeq: "luai_numeq a b \<Longrightarrow> lua_number2int a = lua_number2int b"
proof (cases "a = b")
  case False
  assume "luai_numeq a b"
  then have "num_zero a" "num_zero b" using False by (auto simp: luai_numeq_def)
  then show ?thesis by (simp add: lua_number2int_def num_zero_def)
qed simp

lemma arrayindex_rawequal:
  assumes "luaO_rawequalObj a b"
  shows "arrayindex a = arrayindex b"
proof (cases "a = b")
  case False
  then obtain x y where e: "a = TNumber x" "b = TNumber y" "luai_numeq x y"
    using assms by (cases a) (auto simp: rawequal_cases)
  then have "luai_numeq z x = luai_numeq z y" for z using numeq_trans numeq_sym by blast
  then show ?thesis using number2int_numeq [OF e(3)] by (simp add: arrayindex_def e)
qed simp

lemma arrayindex_int: "0 < i \<Longrightarrow> i < 2 ^ 31 \<Longrightarrow> arrayindex (TNumber (cast_num i)) = i"
proof -
  assume "0 < i" "i < 2 ^ 31"
  then show ?thesis
    using number2int_cast_num [of i] cast_num_not_nan [of i]
    by (simp add: arrayindex_def numeq_refl)
qed

text \<open>Two keys with the same positive index are the same number.\<close>

lemma arrayindex_inj:
  assumes "0 < arrayindex a" "arrayindex a = arrayindex b"
  shows "luaO_rawequalObj a b"
proof -
  obtain x where x: "a = TNumber x" "luai_numeq (cast_num (arrayindex a)) x"
    using arrayindex_number [OF assms(1)] by blast
  obtain y where y: "b = TNumber y" "luai_numeq (cast_num (arrayindex b)) y"
    using arrayindex_number [of b] assms by auto
  have "luai_numeq x y" using x(2) y(2) assms(2) numeq_sym numeq_trans by metis
  then show ?thesis by (simp add: x y rawequal_cases)
qed

section \<open>The invariant of a table\<close>

definition arraykey :: "Table \<Rightarrow> TValue \<Rightarrow> bool" where
  "arraykey t k \<longleftrightarrow> 0 < arrayindex k \<and> arrayindex k \<le> int (length (array t))"

text \<open>
  Besides the two invariants of the vector: sizes within bounds, no key of the hash part
  belongs in the array part, and no position from \<open>lastfree\<close> on is free.
\<close>

definition table_inv :: "Table \<Rightarrow> bool" where
  "table_inv t \<longleftrightarrow>
     lsizenode t \<le> MAXBITS \<and> length (node t) = sizenode t \<and> length (array t) \<le> MAXASIZE
     \<and> links_ok (node t) \<and> keys_ok (mainposition t) (node t)
     \<and> (\<forall>i < length (node t). live (i_key (node t ! i)) \<longrightarrow> \<not> arraykey t (i_key (node t ! i)))
     \<and> lastfree t \<le> int (sizenode t)
     \<and> (if dummy t then node t = [dummynode] \<and> lastfree t \<le> 0
        else (\<forall>i < length (node t). lastfree t \<le> int i \<longrightarrow> i_key (node t ! i) \<noteq> TNil))"

text \<open>What a table holds under a key, found by a linear search.\<close>

definition lin_get :: "Node list \<Rightarrow> TValue \<Rightarrow> TValue" where
  "lin_get ns k = (case List.find (\<lambda>n. luaO_rawequalObj (i_key n) k) ns of None \<Rightarrow> TNil | Some n \<Rightarrow> i_val n)"

definition content :: "Table \<Rightarrow> TValue \<Rightarrow> TValue" where
  "content t k = (if arraykey t k then array t ! nat (arrayindex k - 1) else lin_get (node t) k)"

lemma table_invD:
  assumes "table_inv t"
  shows "lsizenode t \<le> MAXBITS" "length (node t) = sizenode t" "length (array t) \<le> MAXASIZE"
    "links_ok (node t)" "keys_ok (mainposition t) (node t)" "lastfree t \<le> int (sizenode t)"
    "i < length (node t) \<Longrightarrow> live (i_key (node t ! i)) \<Longrightarrow> \<not> arraykey t (i_key (node t ! i))"
    "dummy t \<Longrightarrow> node t = [dummynode] \<and> lastfree t \<le> 0"
    "\<not> dummy t \<Longrightarrow> i < length (node t) \<Longrightarrow> lastfree t \<le> int i \<Longrightarrow> i_key (node t ! i) \<noteq> TNil"
    "mainposition t k < length (node t)"
  using assms mainposition_less [of t k] by (auto simp: table_inv_def split: if_splits)

lemma table_inv_flags [simp]: "table_inv (t\<lparr>flags := f\<rparr>) = table_inv t"
  by (simp add: table_inv_def arraykey_def)

lemma content_flags [simp]: "content (t\<lparr>flags := f\<rparr>) = content t"
  by (rule ext) (simp add: content_def arraykey_def)

lemma live_rawequal: "luaO_rawequalObj a b \<Longrightarrow> live a \<longleftrightarrow> live b"
  by (cases a) (auto simp: rawequal_cases live_def luai_numeq_def split: TValue.splits)

lemma lin_get_hit:
  assumes "keys_ok h ns" "i < length ns" "live (i_key (ns ! i))" "luaO_rawequalObj (i_key (ns ! i)) k"
  shows "lin_get ns k = i_val (ns ! i)"
proof -
  obtain n where n: "List.find (\<lambda>n. luaO_rawequalObj (i_key n) k) ns = Some n"
    using assms(2,4) by (cases "List.find (\<lambda>n. luaO_rawequalObj (i_key n) k) ns") (auto simp: find_None_iff)
  then obtain j where j: "j < length ns" "n = ns ! j" "luaO_rawequalObj (i_key (ns ! j)) k"
    by (auto simp: find_Some_iff)
  have eq: "luaO_rawequalObj (i_key (ns ! i)) (i_key (ns ! j))"
    using assms(4) j(3) rawequal_sym rawequal_trans by blast
  then have "live (i_key (ns ! j))" using assms(3) live_rawequal by blast
  then have "i = j" using keys_okD(2) [OF assms(1,2) j(1) assms(3) _ eq] by blast
  then show ?thesis by (simp add: lin_get_def n j(2))
qed

lemma lin_get_miss:
  "(\<And>i. i < length ns \<Longrightarrow> \<not> luaO_rawequalObj (i_key (ns ! i)) k) \<Longrightarrow> lin_get ns k = TNil"
proof -
  assume "\<And>i. i < length ns \<Longrightarrow> \<not> luaO_rawequalObj (i_key (ns ! i)) k"
  then have "List.find (\<lambda>n. luaO_rawequalObj (i_key n) k) ns = None"
    by (auto simp: find_None_iff in_set_conv_nth)
  then show ?thesis by (simp add: lin_get_def)
qed

lemma search_hit:
  assumes inv: "table_inv t" and k: "live k" and i: "i < length (node t)" "luaO_rawequalObj (i_key (node t ! i)) k"
    and p: "\<And>a. p a \<longleftrightarrow> luaO_rawequalObj a k"
  shows "search p t (mainposition t k) = At (NodeSlot i)"
proof -
  let ?ns = "node t"
  have li: "live (i_key (?ns ! i))" using live_rawequal [OF i(2)] k by simp
  have "mainposition t (i_key (?ns ! i)) = mainposition t k" by (rule mainposition_rawequal [OF i(2)])
  then obtain xs where xs: "chain ?ns (mainposition t k) xs" "i \<in> set xs"
    using keys_okD(1) [OF table_invD(5) [OF inv] i(1) li] by (auto simp: reaches_def)
  have "List.find (\<lambda>n. p (i_key (?ns ! n))) xs \<noteq> None"
    using xs(2) i(2) p by (auto simp: find_None_iff)
  then obtain j where j: "List.find (\<lambda>n. p (i_key (?ns ! n))) xs = Some j" by auto
  then have "p (i_key (?ns ! j))" "j \<in> set xs" by (auto simp: find_Some_iff)
  then have jr: "luaO_rawequalObj (i_key (?ns ! j)) k" "j < length ?ns"
    using p chain_set_less [OF xs(1)] by simp_all
  then have "luaO_rawequalObj (i_key (?ns ! i)) (i_key (?ns ! j))"
    using i(2) rawequal_sym rawequal_trans by blast
  moreover have "live (i_key (?ns ! j))" using live_rawequal [OF jr(1)] k by simp
  ultimately have "i = j" using keys_okD(2) [OF table_invD(5) [OF inv] i(1) jr(2) li] by blast
  then show ?thesis
    unfolding search_def using chain_search_find [OF xs(1) chain_length [OF xs(1)], of p] j by simp
qed

lemma search_miss:
  assumes inv: "table_inv t" and m: "m < length (node t)"
    and p: "\<And>i. i < length (node t) \<Longrightarrow> \<not> p (i_key (node t ! i))"
  shows "search p t m = Absent"
proof -
  obtain xs where xs: "chain (node t) m xs" using links_okD(1) [OF table_invD(4) [OF inv] m] ..
  then have "List.find (\<lambda>n. p (i_key (node t ! n))) xs = None"
    using p chain_set_less [OF xs] by (auto simp: find_None_iff)
  then show ?thesis
    unfolding search_def using chain_search_find [OF xs chain_length [OF xs], of p] by simp
qed

section \<open>Lookups\<close>

lemma getnum_array:
  assumes "length (array t) \<le> MAXASIZE" "- (2 ^ 31) \<le> i" "i < 2 ^ 31"
  shows "(word_of_int (i - 1) :: u32) < word_of_nat (length (array t))
    \<longleftrightarrow> 0 < i \<and> i \<le> int (length (array t))"
proof -
  define l where "l = length (array t)"
  have l: "l \<le> 2 ^ 26" using assms(1) by (simp add: l_def MAXASIZE_def MAXBITS_def)
  have "uint (word_of_nat l :: u32) = int l"
    using l by (simp add: uint_nat unat_of_nat)
  moreover have "uint (word_of_int (i - 1) :: u32) = (i - 1) mod 2 ^ 32"
    by (simp only: uint_word_of_int_eq take_bit_eq_mod) simp
  moreover have "(i - 1) mod 2 ^ 32 < int l \<longleftrightarrow> 0 < i \<and> i \<le> int l"
  proof (cases "0 < i")
    case True
    then have "(i - 1) mod 2 ^ 32 = i - 1" using assms(3) by (intro mod_pos_pos_trivial) auto
    then show ?thesis using True by auto
  next
    case False
    have "(i - 1) mod 2 ^ 32 = (i - 1 + 2 ^ 32) mod 2 ^ 32" by (simp only: mod_add_self2)
    also have "\<dots> = i - 1 + 2 ^ 32" using False assms(2) by (intro mod_pos_pos_trivial) auto
    finally show ?thesis using False l assms(2) by auto
  qed
  ultimately show ?thesis by (simp add: word_less_def l_def)
qed

lemma getnum_pred:
  "(case a of TNumber n \<Rightarrow> luai_numeq n x | _ \<Rightarrow> False) \<longleftrightarrow> luaO_rawequalObj a (TNumber x)"
  by (cases a) (auto simp: rawequal_cases)

lemma getnum_key:
  assumes "table_inv t" "- (2 ^ 31) \<le> i" "i < 2 ^ 31" "luai_numeq (cast_num i) n" "k = TNumber n"
  shows "luaH_getnum t i = (if arraykey t k then At (ArrSlot (nat (arrayindex k - 1)))
    else search (\<lambda>a. luaO_rawequalObj a (TNumber (cast_num i))) t (mainposition t k))"
proof -
  have nn: "\<not> num_nan (cast_num i)" using assms(4) by (simp add: luai_numeq_def)
  have "lua_number2int (cast_num i) = i" using number2int_cast_num assms(2,3) by simp
  then have "arrayindex (TNumber (cast_num i)) = i" using nn by (simp add: arrayindex_def numeq_refl)
  moreover have r: "luaO_rawequalObj (TNumber (cast_num i)) k" using assms(4,5) by (simp add: rawequal_cases)
  ultimately have k: "arrayindex k = i" using arrayindex_rawequal by metis
  have "mainposition t k = hashnum t (cast_num i)" using mainposition_rawequal [OF r, of t] by simp
  then show ?thesis
    unfolding luaH_getnum_def Let_def getnum_pred
      getnum_array [OF table_invD(3) [OF assms(1)] assms(2,3)] arraykey_def k by simp
qed

text \<open>\<open>luaH_get\<close> is the search along the key's chain, or the array slot.\<close>

lemma luaH_get_search:
  assumes "table_inv t" "k \<noteq> TNil"
  shows "arraykey t k \<Longrightarrow> luaH_get t k = At (ArrSlot (nat (arrayindex k - 1)))"
    "\<not> arraykey t k \<Longrightarrow> \<exists>p. (\<forall>a. p a \<longleftrightarrow> luaO_rawequalObj a k) \<and> luaH_get t k = search p t (mainposition t k)"
proof -
  have num: "luaH_get t k = luaH_getnum t (lua_number2int n) \<and> luai_numeq (cast_num (lua_number2int n)) n
      \<or> arrayindex k = - 1 \<and> luaH_get t k = search (\<lambda>a. luaO_rawequalObj a k) t (mainposition t k)"
    if "k = TNumber n" for n
    using that by (auto simp: luaH_get_def Let_def arrayindex_def)
  have rng: "- (2 ^ 31) \<le> lua_number2int n" "lua_number2int n < 2 ^ 31" for n
    using lua_number2int_range by blast+
  show "arraykey t k \<Longrightarrow> luaH_get t k = At (ArrSlot (nat (arrayindex k - 1)))"
  proof -
    assume ak: "arraykey t k"
    then obtain n where n: "k = TNumber n" using arrayindex_number [of k] by (auto simp: arraykey_def)
    then show ?thesis using num [OF n] ak getnum_key [OF assms(1) rng _ n] by (auto simp: arraykey_def)
  qed
  show "\<not> arraykey t k \<Longrightarrow> \<exists>p. (\<forall>a. p a \<longleftrightarrow> luaO_rawequalObj a k) \<and> luaH_get t k = search p t (mainposition t k)"
  proof -
    assume ak: "\<not> arraykey t k"
    show ?thesis
    proof (cases "\<exists>n. k = TNumber n")
      case True
      then obtain n where n: "k = TNumber n" ..
      have cong: "luaO_rawequalObj a (TNumber (cast_num (lua_number2int n))) \<longleftrightarrow> luaO_rawequalObj a k"
        if "luai_numeq (cast_num (lua_number2int n)) n" for a
      proof -
        have "luaO_rawequalObj (TNumber (cast_num (lua_number2int n))) k"
          using that by (simp add: n rawequal_cases)
        then show ?thesis using rawequal_sym rawequal_trans by blast
      qed
      show ?thesis using num [OF n] getnum_key [OF assms(1) rng _ n] ak cong by auto
    next
      case False
      have "\<exists>p. (\<forall>a. p a \<longleftrightarrow> luaO_rawequalObj a (TString s)) \<and> luaH_get t (TString s) = search p t (mainposition t (TString s))" for s
      proof (intro exI conjI allI)
        show "a = TString s \<longleftrightarrow> luaO_rawequalObj a (TString s)" for a
          by (cases a) (auto simp: rawequal_cases)
      qed (simp add: luaH_get_def luaH_getstr_def Let_def)
      then show ?thesis using False assms(2) by (cases k) (auto simp: luaH_get_def Let_def)
    qed
  qed
qed

lemma luaH_get_cases:
  assumes inv: "table_inv t" and k: "\<And>p. k \<noteq> TDeadKey p"
  obtains (arr) "arraykey t k" "luaH_get t k = At (ArrSlot (nat (arrayindex k - 1)))"
    | (hit) i where "\<not> arraykey t k" "live k" "i < length (node t)" "live (i_key (node t ! i))"
        "luaO_rawequalObj (i_key (node t ! i)) k" "luaH_get t k = At (NodeSlot i)"
    | (miss) "\<not> arraykey t k" "luaH_get t k = Absent" "content t k = TNil"
        "\<And>i. live k \<Longrightarrow> i < length (node t) \<Longrightarrow> \<not> luaO_rawequalObj (i_key (node t ! i)) k"
proof (cases "arraykey t k")
  case True
  then have "k \<noteq> TNil" by (auto simp: arraykey_def arrayindex_def)
  then show ?thesis using arr True luaH_get_search(1) [OF inv _ True] by blast
next
  case ak: False
  show ?thesis
  proof (cases "k = TNil")
    case True
    have "lin_get (node t) TNil = TNil"
    proof (cases "List.find (\<lambda>n. luaO_rawequalObj (i_key n) TNil) (node t)")
      case (Some n)
      then obtain i where "i < length (node t)" "n = node t ! i" "i_key n = TNil"
        by (auto simp: find_Some_iff)
      then have "i_val n = TNil" using keys_okD(3) [OF table_invD(5) [OF inv]] live_not_nil by blast
      then show ?thesis by (simp only: lin_get_def Some option.case)
    qed (simp only: lin_get_def option.case)
    then show ?thesis using miss ak True by (simp add: content_def luaH_get_def Let_def live_def)
  next
    case False
    obtain p where p: "\<And>a. p a \<longleftrightarrow> luaO_rawequalObj a k" "luaH_get t k = search p t (mainposition t k)"
      using luaH_get_search(2) [OF inv False ak] by blast
    show ?thesis
    proof (cases "\<exists>i < length (node t). luaO_rawequalObj (i_key (node t ! i)) k")
      case True
      then obtain i where i: "i < length (node t)" "luaO_rawequalObj (i_key (node t ! i)) k" by blast
      have "live k"
      proof -
        have "luaO_rawequalObj k (i_key (node t ! i))" using i(2) rawequal_sym by blast
        then show ?thesis
          using \<open>k \<noteq> TNil\<close> k by (cases k) (auto simp: live_def rawequal_number luai_numeq_def)
      qed
      then show ?thesis using hit ak i search_hit [OF inv _ i p(1)] p(2) live_rawequal [OF i(2)] by simp
    next
      case False
      then have "content t k = TNil" using ak lin_get_miss by (auto simp: content_def)
      moreover have "luaH_get t k = Absent"
        using search_miss [OF inv table_invD(10) [OF inv]] p False by simp
      ultimately show ?thesis using miss ak False by blast
    qed
  qed
qed

lemma content_hit:
  assumes "table_inv t" "\<not> arraykey t k" "i < length (node t)" "live (i_key (node t ! i))"
    "luaO_rawequalObj (i_key (node t ! i)) k"
  shows "content t k = i_val (node t ! i)"
  using assms lin_get_hit [OF table_invD(5) [OF assms(1)] assms(3-5)] by (simp add: content_def)

lemma luaH_get_linear_core:
  assumes "table_inv t" "\<forall>p. k \<noteq> TDeadKey p"
  shows "luaH_get t k \<noteq> Endless \<and> lookup_val t (luaH_get t k) = content t k"
proof (rule luaH_get_cases [OF assms(1) spec [OF assms(2)]])
  fix i
  assume "\<not> arraykey t k" "i < length (node t)" "live (i_key (node t ! i))"
    "luaO_rawequalObj (i_key (node t ! i)) k" "luaH_get t k = At (NodeSlot i)"
  then show ?thesis using content_hit [OF assms(1)] by (simp add: lookup_val_def)
qed (simp_all add: lookup_val_def content_def)

section \<open>Insertion\<close>

lemma free_scan_None: "free_scan ns p = None \<longleftrightarrow> (\<forall>i < p. i_key (ns ! i) \<noteq> TNil)"
  by (induction p) (auto simp: less_Suc_eq)

lemma free_scan_Some:
  "free_scan ns p = Some q \<Longrightarrow> q < p \<and> i_key (ns ! q) = TNil \<and> (\<forall>i. q < i \<and> i < p \<longrightarrow> i_key (ns ! i) \<noteq> TNil)"
  by (induction p) (auto simp: less_Suc_eq split: if_splits)

text \<open>No free position: all nodes are used, or the hash part is the dummy node.\<close>

definition no_room :: "Table \<Rightarrow> bool" where
  "no_room t \<longleftrightarrow> dummy t \<or> used (node t) = {..<length (node t)}"

lemma getfreepos_cases:
  assumes "table_inv t"
  obtains (full) lf where "no_room t" "getfreepos t = (None, t\<lparr>lastfree := lf\<rparr>)" "lf < 0"
    | (free) n where "\<not> dummy t" "getfreepos t = (Some n, t\<lparr>lastfree := int n\<rparr>)" "n < length (node t)"
        "i_key (node t ! n) = TNil" "\<And>i. n < i \<Longrightarrow> i < length (node t) \<Longrightarrow> i_key (node t ! i) \<noteq> TNil"
        "int n < lastfree t"
proof (cases "free_scan (node t) (nat (lastfree t))")
  case None
  have nil: "i_key (node t ! i) \<noteq> TNil" if "i < length (node t)" "\<not> dummy t" for i
    using that table_invD(9) [OF assms that(2,1)] None free_scan_None by (cases "lastfree t \<le> int i") auto
  have "no_room t" using nil by (auto simp: no_room_def used_def)
  moreover have "min 0 (lastfree t) - 1 < 0" by simp
  ultimately show ?thesis using full None unfolding getfreepos_def by simp
next
  case (Some n)
  note n = free_scan_Some [OF Some]
  have nl: "n < length (node t)" "int n < lastfree t"
    using n table_invD(2,6) [OF assms] by (auto simp: zless_nat_eq_int_zless)
  have "\<not> dummy t"
  proof
    assume "dummy t"
    then show False using nl(2) table_invD(8) [OF assms] by simp
  qed
  moreover have "i_key (node t ! i) \<noteq> TNil" if "n < i" "i < length (node t)" for i
    using n table_invD(9) [OF assms \<open>\<not> dummy t\<close> that(2)] that by (cases "i < nat (lastfree t)") auto
  ultimately show ?thesis
    using free [of n] n nl Some unfolding getfreepos_def by simp
qed

lemma table_inv_nodes:
  assumes "table_inv t" "\<not> dummy t" "length ns = length (node t)" "links_ok ns" "keys_ok (mainposition t) ns"
    and "\<And>i. i < length (node t) \<Longrightarrow> i_key (ns ! i) \<in> insert k (i_key ` set (node t))"
    and "\<not> arraykey t k" "lf \<le> int (sizenode t)"
    and "\<And>i. i < length (node t) \<Longrightarrow> lf \<le> int i \<Longrightarrow> i_key (ns ! i) \<noteq> TNil"
  shows "table_inv (t\<lparr>lastfree := lf, node := ns\<rparr>)"
proof -
  have "\<not> arraykey t (i_key (ns ! i))" if "i < length (node t)" "live (i_key (ns ! i))" for i
  proof -
    have "i_key (ns ! i) = k \<or> (\<exists>j < length (node t). i_key (ns ! i) = i_key (node t ! j))"
      using assms(6) [OF that(1)] by (auto simp: in_set_conv_nth)
    then show ?thesis using assms(7) table_invD(7) [OF assms(1)] that(2) by metis
  qed
  then show ?thesis
    using assms table_invD(1-3) [OF assms(1)] unfolding table_inv_def
    by (simp add: arraykey_def)
qed

definition linked :: "Table \<Rightarrow> TValue \<Rightarrow> Table \<Rightarrow> nat \<Rightarrow> bool" where
  "linked t k t' i \<longleftrightarrow> table_inv t' \<and> i < length (node t') \<and> i_key (node t' ! i) = k \<and> i_val (node t' ! i) = TNil
     \<and> entries (node t') = entries (node t) \<and> array t' = array t \<and> lsizenode t' = lsizenode t
     \<and> dummy t' = dummy t \<and> metatable t' = metatable t \<and> flags t' = flags t
     \<and> (\<exists>j. used (node t') \<subseteq> insert j (used (node t)))"

lemma newkey_cases:
  assumes inv: "table_inv t" and f: "fresh (node t) k" and a: "\<not> arraykey t k"
  obtains (full) lf where "no_room t" "lf < 0" "newkey full t k = full (t\<lparr>lastfree := lf\<rparr>) k"
    | (link) t' i where "newkey full t k = Ok (t', NodeSlot i)" "linked t k t' i"
proof -
  define ns where "ns = node t"
  define m where "m = mainposition t k"
  note d = table_invD [OF inv, folded ns_def]
  have m: "m < length ns" unfolding m_def by (rule d(10))
  have kn: "k \<noteq> TNil" using f live_not_nil by (auto simp: fresh_def)
  note f = f [folded ns_def]
  show ?thesis
  proof (cases "i_val (ns ! m) \<noteq> TNil \<or> dummy t")
    case False
    define ns' where "ns' = ns[m := (ns ! m)\<lparr>i_key := k\<rparr>]"
    have nil: "i_val (ns ! m) = TNil" and nd: "\<not> dummy t" using False by simp_all
    note io = insert_over [OF d(4,5) f m m_def [symmetric] nil, folded ns'_def]
    have key: "i_key (ns' ! i) = (if i = m then k else i_key (ns ! i))" if "i < length ns" for i
      using that by (cases "i = m") (simp_all add: ns'_def)
    have "newkey full t k = Ok (t\<lparr>lastfree := lastfree t, node := ns'\<rparr>, NodeSlot m)"
      using False by (simp add: newkey_def Let_def m_def [symmetric] ns_def [symmetric] set_key_def ns'_def)
    moreover have "table_inv (t\<lparr>lastfree := lastfree t, node := ns'\<rparr>)"
      using io(1,2) d(6) d(9) [OF nd] kn key a
      by (intro table_inv_nodes [OF inv nd]) (auto simp: ns_def [symmetric] ns'_def key)
    ultimately show ?thesis
      using link io m by (simp add: linked_def ns_def [symmetric] ns'_def) blast
  next
    case True
    from inv show ?thesis
    proof (cases rule: getfreepos_cases)
      case (full lf)
      then have "newkey full t k = full (t\<lparr>lastfree := lf\<rparr>) k"
        using True by (simp add: newkey_def Let_def m_def [symmetric] ns_def [symmetric])
      then show ?thesis using \<open>no_room t\<close> \<open>lf < 0\<close> that(1) by blast
    next
      case (free n)
      note n = free(3,4) [folded ns_def]
      have nd: "\<not> dummy t" by (rule free(1))
      then have mv: "i_val (ns ! m) \<noteq> TNil" using True by simp
      have nm: "n \<noteq> m" using n(2) d(5) keys_okD(3) [OF d(5) m mv] live_not_nil by auto
      define t1 where "t1 = t\<lparr>lastfree := int n\<rparr>"
      have t1: "node t1 = ns" "mainposition t1 = mainposition t" by (simp_all add: t1_def ns_def)
      have nk: "newkey full t k =
        (let othern = mainposition t (i_key (ns ! m))
         in if othern \<noteq> m then
              (case find_prev ns (length ns) othern m of
                 None \<Rightarrow> Stuck
               | Some prev \<Rightarrow>
                   (let ns1 = ns[prev := (ns ! prev)\<lparr>i_next := Some n\<rparr>];
                        ns2 = ns1[n := ns1 ! m];
                        ns3 = ns2[m := (ns2 ! m)\<lparr>i_next := None, i_val := TNil\<rparr>]
                    in Ok (set_key (t1\<lparr>node := ns3\<rparr>) m k, NodeSlot m)))
            else
              (let ns1 = ns[n := (ns ! n)\<lparr>i_next := i_next (ns ! m)\<rparr>];
                   ns2 = ns1[m := (ns1 ! m)\<lparr>i_next := Some n\<rparr>]
               in Ok (set_key (t1\<lparr>node := ns2\<rparr>) n k, NodeSlot n)))"
        using True unfolding newkey_def Let_def m_def [symmetric] ns_def [symmetric]
          free(2) [folded t1_def] prod.case option.case t1 by simp
      have low: "i_key (ns ! i) \<noteq> TNil" if "n < i" "i < length ns" for i
        using free(5) that by (simp add: ns_def)
      have nsz: "int n \<le> int (sizenode t)" using n(1) d(2) by simp
      define o' where "o' = mainposition t (i_key (ns ! m))"
      show ?thesis
      proof (cases "o' = m")
        case True
        define ns1 where "ns1 = ns[n := (ns ! n)\<lparr>i_next := i_next (ns ! m)\<rparr>]"
        define ns2 where "ns2 = ns1[m := (ns1 ! m)\<lparr>i_next := Some n\<rparr>]"
        define ns' where "ns' = ns2[n := (ns2 ! n)\<lparr>i_key := k\<rparr>]"
        have len: "length ns' = length ns" by (simp add: ns'_def ns2_def ns1_def)
        have ne: "newkey full t k = Ok (t\<lparr>lastfree := int n, node := ns'\<rparr>, NodeSlot n)"
          using True unfolding nk Let_def o'_def [symmetric]
          by (simp add: ns1_def [symmetric] ns2_def [symmetric] set_key_def t1_def ns'_def)
        have nxt: "i_next (ns' ! i) = (if i = m then Some n else if i = n then i_next (ns ! m) else i_next (ns ! i))"
          and key: "i_key (ns' ! i) = (if i = n then k else i_key (ns ! i))"
          and val: "i_val (ns' ! i) = i_val (ns ! i)" if "i < length ns" for i
          using that m n nm by (simp_all add: ns'_def ns2_def ns1_def nth_list_update)
        note ia = insert_after [OF d(4,5) f m m_def [symmetric] mv True [unfolded o'_def] n len nxt key val]
        have "table_inv (t\<lparr>lastfree := int n, node := ns'\<rparr>)"
          using ia(1,2) kn low nsz n
          by (intro table_inv_nodes [OF inv nd]) (auto simp: ns_def [symmetric] len key a)
        then show ?thesis
          using link ne ia(3-6) n len by (simp add: linked_def ns_def [symmetric]) blast
      next
        case False
        have "live (i_key (ns ! m))" using keys_okD(3) [OF d(5) m mv] .
        then have "reaches ns o' m" using keys_okD(1) [OF d(5) m] by (simp add: o'_def)
        then obtain xs where xs: "chain ns o' xs" "m \<in> set xs" by (auto simp: reaches_def)
        obtain q where q: "find_prev ns (length ns) o' m = Some q" "q \<in> set xs" "i_next (ns ! q) = Some m"
          using find_prev_pred [OF xs _ chain_length [OF xs(1)]] False by blast
        have ql: "q < length ns" using chain_set_less [OF xs(1) q(2)] .
        have qn: "q \<noteq> n" using links_okD(2) [OF d(4) ql q(3)] n(2) by auto
        have qm: "q \<noteq> m"
        proof
          assume "q = m"
          obtain ys where ys: "chain ns m ys" using links_okD(1) [OF d(4) m] ..
          then have "chain ns m (tl ys)" using chain_next q(3) \<open>q = m\<close> by blast
          with ys have "ys = tl ys" by (rule chain_unique)
          then show False using ys by (cases ys) auto
        qed
        define ns1 where "ns1 = ns[q := (ns ! q)\<lparr>i_next := Some n\<rparr>]"
        define ns2 where "ns2 = ns1[n := ns1 ! m]"
        define ns3 where "ns3 = ns2[m := (ns2 ! m)\<lparr>i_next := None, i_val := TNil\<rparr>]"
        define ns' where "ns' = ns3[m := (ns3 ! m)\<lparr>i_key := k\<rparr>]"
        have len: "length ns' = length ns" by (simp add: ns'_def ns3_def ns2_def ns1_def)
        have ne: "newkey full t k = Ok (t\<lparr>lastfree := int n, node := ns'\<rparr>, NodeSlot m)"
          using False unfolding nk Let_def o'_def [symmetric] q(1)
          by (simp add: ns1_def [symmetric] ns2_def [symmetric] ns3_def [symmetric] set_key_def t1_def ns'_def)
        have nxt: "i_next (ns' ! i) = (if i = m then None else if i = n then i_next (ns ! m)
              else if i = q then Some n else i_next (ns ! i))"
          and key: "i_key (ns' ! i) = (if i = m then k else if i = n then i_key (ns ! m) else i_key (ns ! i))"
          and val: "i_val (ns' ! i) = (if i = m then TNil else if i = n then i_val (ns ! m) else i_val (ns ! i))"
          if "i < length ns" for i
          using that m n nm ql qn qm by (simp_all add: ns'_def ns3_def ns2_def ns1_def nth_list_update)
        note im = insert_move [OF d(4,5) f m m_def [symmetric] mv False [unfolded o'_def] n ql q(3) len nxt key val]
        have km: "i_key (ns ! m) \<noteq> TNil" using \<open>live (i_key (ns ! m))\<close> live_not_nil by blast
        have "table_inv (t\<lparr>lastfree := int n, node := ns'\<rparr>)"
          using im(1,2) kn low nsz n km m
          by (intro table_inv_nodes [OF inv nd]) (auto simp: ns_def [symmetric] len key a)
        then show ?thesis
          using link ne im(3-6) m len by (simp add: linked_def ns_def [symmetric]) blast
      qed
    qed
  qed
qed

section \<open>Contents\<close>

lemma lin_get_entries:
  assumes "keys_ok h ns"
  shows "lin_get ns k = v \<and> v \<noteq> TNil \<longleftrightarrow> (\<exists>k'. luaO_rawequalObj k' k \<and> (k', v) \<in> entries ns)"
proof
  assume l: "lin_get ns k = v \<and> v \<noteq> TNil"
  then obtain n where "List.find (\<lambda>n. luaO_rawequalObj (i_key n) k) ns = Some n" "i_val n = v"
    by (auto simp: lin_get_def split: option.splits)
  then show "\<exists>k'. luaO_rawequalObj k' k \<and> (k', v) \<in> entries ns"
    using l unfolding entries_nth by (auto simp: find_Some_iff)
next
  assume "\<exists>k'. luaO_rawequalObj k' k \<and> (k', v) \<in> entries ns"
  then obtain i where i: "i < length ns" "luaO_rawequalObj (i_key (ns ! i)) k" "i_val (ns ! i) = v" "v \<noteq> TNil"
    unfolding entries_nth by blast
  then have "live (i_key (ns ! i))" using keys_okD(3) [OF assms] by blast
  then show "lin_get ns k = v \<and> v \<noteq> TNil" using lin_get_hit [OF assms i(1) _ i(2)] i by simp
qed

lemma content_entries:
  assumes "table_inv t" "table_inv t'" "array t' = array t" "entries (node t') = entries (node t)"
  shows "content t' k = content t k"
proof -
  have "lin_get (node t') k = lin_get (node t) k"
    using lin_get_entries [OF table_invD(5) [OF assms(1)], of k] lin_get_entries [OF table_invD(5) [OF assms(2)], of k]
    unfolding assms(4) by metis
  then show ?thesis by (simp add: content_def arraykey_def assms(3))
qed

lemma put_node:
  assumes inv: "table_inv t" and i: "i < length (node t)" "live (i_key (node t ! i))"
  shows "table_inv (put_slot t (NodeSlot i) v)"
    "content (put_slot t (NodeSlot i) v) k = (if luaO_rawequalObj (i_key (node t ! i)) k then v else content t k)"
proof -
  define ns where "ns = (node t)[i := (node t ! i)\<lparr>i_val := v\<rparr>]"
  have t': "put_slot t (NodeSlot i) v = t\<lparr>node := ns\<rparr>" by (simp add: ns_def)
  have len: "length ns = length (node t)" by (simp add: ns_def)
  have nxt: "i_next (ns ! j) = i_next (node t ! j)" and key: "i_key (ns ! j) = i_key (node t ! j)"
    and val: "i_val (ns ! j) = (if j = i then v else i_val (node t ! j))" if "j < length (node t)" for j
    using that by (cases "j = i"; simp add: ns_def)+
  have ch: "chain ns = chain (node t)" by (intro ext chain_cong len nxt)
  have "links_ok ns"
  proof (rule links_okI, unfold len ch)
    note l = links_okD [OF table_invD(4) [OF inv]]
    show "\<exists>xs. chain (node t) j xs" if "j < length (node t)" for j by (rule l(1) [OF that])
    show "i_key (ns ! j) \<noteq> TNil \<and> i_key (ns ! a) \<noteq> TNil"
      if "j < length (node t)" "i_next (ns ! j) = Some a" for j a
      using l(2) [OF that(1), of a] that by (simp add: nxt key)
    show "j = a" if "j < length (node t)" "a < length (node t)" "i_next (ns ! j) = Some b"
      "i_next (ns ! a) = Some b" for j a b
      using l(3) [OF that(1,2), of b] that by (simp add: nxt)
  qed
  moreover have ko: "keys_ok (mainposition t) ns"
  proof -
    note k = keys_okD [OF table_invD(5) [OF inv]]
    show ?thesis
    proof (rule keys_okI, unfold len reaches_def ch)
      fix j assume j: "j < length (node t)" "live (i_key (ns ! j))"
      then show "mainposition t (i_key (ns ! j)) < length (node t) \<and>
        (\<exists>xs. chain (node t) (mainposition t (i_key (ns ! j))) xs \<and> j \<in> set xs) \<and>
        i_key (ns ! mainposition t (i_key (ns ! j))) \<noteq> TNil \<and>
        (live (i_key (ns ! mainposition t (i_key (ns ! j)))) \<longrightarrow>
           mainposition t (i_key (ns ! mainposition t (i_key (ns ! j)))) = mainposition t (i_key (ns ! j)))"
        using k(1) [OF j(1)] key by (simp add: reaches_def)
    next
      fix j l assume "j < length (node t)" "l < length (node t)" "live (i_key (ns ! j))" "live (i_key (ns ! l))"
        "luaO_rawequalObj (i_key (ns ! j)) (i_key (ns ! l))"
      then show "j = l" using k(2) key by simp
    next
      fix j assume "j < length (node t)" "i_val (ns ! j) \<noteq> TNil"
      then show "live (i_key (ns ! j))" using k(3) key val i by (cases "j = i") simp_all
    qed
  qed
  moreover have "dummy t \<Longrightarrow> False"
    using i table_invD(8) [OF inv] by (simp add: dummynode_def live_def)
  ultimately show inv': "table_inv (put_slot t (NodeSlot i) v)"
    using inv unfolding t' table_inv_def by (auto simp: len key arraykey_def)
  have "lin_get ns k = (if luaO_rawequalObj (i_key (node t ! i)) k then v else lin_get (node t) k)"
  proof (cases "luaO_rawequalObj (i_key (node t ! i)) k")
    case True
    then show ?thesis using lin_get_hit [OF ko, of i k] i by (simp add: len key val)
  next
    case False
    show ?thesis
    proof (cases "\<exists>j < length (node t). luaO_rawequalObj (i_key (node t ! j)) k")
      case True
      then obtain j where j: "j < length (node t)" "luaO_rawequalObj (i_key (node t ! j)) k" by blast
      then have "j \<noteq> i" using False by auto
      show ?thesis
      proof (cases "live (i_key (node t ! j))")
        case True
        then show ?thesis
          using lin_get_hit [OF ko, of j k] lin_get_hit [OF table_invD(5) [OF inv] j(1) True j(2)] j \<open>j \<noteq> i\<close> False
          by (simp add: len key val)
      next
        case nl: False
        have nil: "lin_get ns' k = TNil" if kh: "keys_ok h ns'" for h ns'
        proof (rule ccontr)
          assume "lin_get ns' k \<noteq> TNil"
          then obtain k' where "luaO_rawequalObj k' k" "(k', lin_get ns' k) \<in> entries ns'"
            using lin_get_entries [OF kh, of k "lin_get ns' k"] by blast
          then have "live k'" using keys_okD(3) [OF kh] unfolding entries_nth by metis
          then show False using nl live_rawequal \<open>luaO_rawequalObj k' k\<close> j(2) by blast
        qed
        show ?thesis using False nil [OF ko] nil [OF table_invD(5) [OF inv]] by simp
      qed
    next
      case none: False
      have "lin_get ns k = TNil" using none by (intro lin_get_miss) (auto simp: len key)
      moreover have "lin_get (node t) k = TNil" using none by (intro lin_get_miss) auto
      ultimately show ?thesis using False by simp
    qed
  qed
  moreover have "\<not> luaO_rawequalObj (i_key (node t ! i)) k" if "arraykey t k"
    using that table_invD(7) [OF inv i] arrayindex_rawequal unfolding arraykey_def by metis
  ultimately show "content (put_slot t (NodeSlot i) v) k =
      (if luaO_rawequalObj (i_key (node t ! i)) k then v else content t k)"
    unfolding content_def t' by (simp add: arraykey_def)
qed

lemma put_array:
  assumes "table_inv t" "i < length (array t)"
  shows "table_inv (put_slot t (ArrSlot i) v)"
    "content (put_slot t (ArrSlot i) v) k = (if arrayindex k = int i + 1 then v else content t k)"
proof -
  show "table_inv (put_slot t (ArrSlot i) v)"
    using assms unfolding table_inv_def by (simp add: arraykey_def)
  have "nat (arrayindex k - 1) = i \<longleftrightarrow> arrayindex k = int i + 1" if "0 < arrayindex k"
    using that by auto
  then show "content (put_slot t (ArrSlot i) v) k = (if arrayindex k = int i + 1 then v else content t k)"
    using assms(2) unfolding content_def arraykey_def by (auto simp: nth_list_update)
qed

text \<open>
  \<open>points t k t' s\<close>: \<open>s\<close> is the place of \<open>k\<close> in \<open>t'\<close>, which holds what \<open>t\<close> holds, and
  storing there changes what the table holds under \<open>k\<close> and nothing else. At most one more
  node is in use.
\<close>

definition points :: "Table \<Rightarrow> TValue \<Rightarrow> Table \<Rightarrow> slot \<Rightarrow> bool" where
  "points t k t' s \<longleftrightarrow> table_inv t' \<and> slot_val t' s = content t k
     \<and> (\<forall>v. table_inv (put_slot t' s v)
          \<and> (\<forall>k'. live k' \<longrightarrow> content (put_slot t' s v) k' = (if luaO_rawequalObj k k' then v else content t k'))
          \<and> length (array (put_slot t' s v)) = length (array t) \<and> lsizenode (put_slot t' s v) = lsizenode t
          \<and> dummy (put_slot t' s v) = dummy t \<and> metatable (put_slot t' s v) = metatable t
          \<and> (\<exists>j. used (node (put_slot t' s v)) \<subseteq> (if arraykey t k then {} else {j}) \<union> used (node t)))"

lemma points_flags: "points t k t' s \<Longrightarrow> points (t\<lparr>flags := f\<rparr>) k t' s"
  unfolding points_def by (simp add: arraykey_def)

lemma used_put [simp]: "used (node (put_slot t s v)) = used (node t)"
proof (cases s)
  case (NodeSlot i)
  then show ?thesis
    by (cases "i < length (node t)") (auto simp: used_def nth_list_update)
qed simp

lemma put_slot_fields [simp]:
  "length (array (put_slot t s v)) = length (array t)" "lsizenode (put_slot t s v) = lsizenode t"
  "dummy (put_slot t s v) = dummy t" "metatable (put_slot t s v) = metatable t"
  "flags (put_slot t s v) = flags t" "length (node (put_slot t s v)) = length (node t)"
  by (cases s; simp)+

lemma points_array:
  assumes "table_inv t" "arraykey t k"
  shows "points t k t (ArrSlot (nat (arrayindex k - 1)))"
proof -
  define i where "i = nat (arrayindex k - 1)"
  have i: "i < length (array t)" "int i + 1 = arrayindex k" using assms(2) by (auto simp: i_def arraykey_def)
  have "arrayindex k' = arrayindex k \<longleftrightarrow> luaO_rawequalObj k k'" for k'
    using assms(2) arrayindex_inj arrayindex_rawequal unfolding arraykey_def by metis
  then show ?thesis
    using put_array [OF assms(1) i(1)] assms i unfolding points_def i_def [symmetric]
    by (simp del: put_slot.simps) (simp add: content_def i_def)
qed

lemma points_node:
  assumes "table_inv t" "\<not> arraykey t k" "i < length (node t)" "live (i_key (node t ! i))"
    "luaO_rawequalObj (i_key (node t ! i)) k"
  shows "points t k t (NodeSlot i)"
proof -
  have "luaO_rawequalObj (i_key (node t ! i)) k' \<longleftrightarrow> luaO_rawequalObj k k'" for k'
    using assms(5) rawequal_sym rawequal_trans by blast
  then show ?thesis
    using put_node [OF assms(1,3,4)] content_hit [OF assms] assms(1) unfolding points_def
    by (simp del: put_slot.simps)
qed

lemma points_linked:
  assumes "table_inv t" "live k" "\<not> arraykey t k" "content t k = TNil" "linked t k t' i"
  shows "points t k t' (NodeSlot i)"
proof -
  have l: "table_inv t'" "i < length (node t')" "i_key (node t' ! i) = k" "i_val (node t' ! i) = TNil"
    "entries (node t') = entries (node t)" "array t' = array t" "lsizenode t' = lsizenode t"
    "dummy t' = dummy t" "metatable t' = metatable t"
    using assms(5) by (simp_all add: linked_def)
  obtain j where j: "used (node t') \<subseteq> insert j (used (node t))" using assms(5) by (auto simp: linked_def)
  have lk: "live (i_key (node t' ! i))" using l(3) assms(2) by simp
  show ?thesis
    unfolding points_def
    using put_node [OF l(1,2) lk] content_entries [OF assms(1) l(1,6,5)] l assms(3,4) j
    by (simp del: put_slot.simps) (auto simp: l(4))
qed

end
