(* ===== verification/Sizes.thy ===== *)
theory Sizes
  imports TableOps
begin

text \<open>
  How \<open>rehash\<close> chooses the sizes: the counts of integer keys per slice, and
  \<open>computesizes\<close>, which finds the largest array that is more than half used.
\<close>

unbundle bit_operations_syntax

definition slice :: "nat \<Rightarrow> nat set" where
  "slice j = {i. 2 ^ j div 2 < i \<and> i \<le> 2 ^ j}"

text \<open>\<open>nums\<close> counts the integer keys \<open>S\<close> slice by slice.\<close>

definition nums_ok :: "nat list \<Rightarrow> nat set \<Rightarrow> bool" where
  "nums_ok nums S \<longleftrightarrow> finite S \<and> length nums = MAXBITS + 1
     \<and> (\<forall>j \<le> MAXBITS. nums ! j = card (S \<inter> slice j))"

definition first_in :: "nat set \<Rightarrow> nat \<Rightarrow> nat" where
  "first_in S m = card (S \<inter> {1..m})"

lemma first_in_slice:
  assumes "finite S"
  shows "first_in S (2 ^ j) = first_in S (2 ^ j div 2) + card (S \<inter> slice j)"
proof -
  have "S \<inter> {1..2 ^ j} = (S \<inter> {1..2 ^ j div 2}) \<union> (S \<inter> slice j)"
    by (auto simp: slice_def)
  moreover have "(S \<inter> {1..2 ^ j div 2}) \<inter> (S \<inter> slice j) = {}" by (auto simp: slice_def)
  ultimately show ?thesis unfolding first_in_def using assms by (simp add: card_Un_disjoint)
qed

lemma first_in_le: "first_in S m \<le> m"
proof -
  have "card (S \<inter> {1..m}) \<le> card {1..m}" by (intro card_mono) auto
  then show ?thesis by (simp add: first_in_def)
qed

lemma first_in_card: "finite S \<Longrightarrow> first_in S m \<le> card S"
  by (auto simp: first_in_def intro: card_mono)

lemma first_in_mono: "finite S \<Longrightarrow> m \<le> n \<Longrightarrow> first_in S m \<le> first_in S n"
  unfolding first_in_def by (intro card_mono) auto

text \<open>
  A size \<open>n\<close> with its count \<open>na\<close> is the best choice among the powers of two below \<open>2 ^ b\<close>.
\<close>

definition best :: "nat set \<Rightarrow> nat \<Rightarrow> nat \<Rightarrow> nat \<Rightarrow> bool" where
  "best S b n na \<longleftrightarrow> na = first_in S n \<and> (n = 0 \<or> (\<exists>p < b. n = 2 ^ p \<and> 2 ^ p div 2 < first_in S (2 ^ p)))
     \<and> (\<forall>p < b. 2 ^ p div 2 < first_in S (2 ^ p) \<longrightarrow> 2 ^ p \<le> n)"

lemma best_extend:
  assumes "best S b n na" "\<And>p. b \<le> p \<Longrightarrow> p < c \<Longrightarrow> first_in S (2 ^ p) \<le> 2 ^ p div 2" "b \<le> c"
  shows "best S c n na"
proof -
  have "n = 0 \<or> (\<exists>p < c. n = 2 ^ p \<and> 2 ^ p div 2 < first_in S (2 ^ p))"
    using assms(1,3) unfolding best_def by (metis order_less_le_trans)
  moreover have "2 ^ p \<le> n" if "p < c" "2 ^ p div 2 < first_in S (2 ^ p)" for p
    using that assms(1) assms(2) [of p] unfolding best_def by (cases "p < b") auto
  ultimately show ?thesis using assms(1) unfolding best_def by blast
qed

lemma best_Suc:
  assumes "best S b n na"
  shows "2 ^ b div 2 < first_in S (2 ^ b) \<Longrightarrow> best S (Suc b) (2 ^ b) (first_in S (2 ^ b))"
    "\<not> 2 ^ b div 2 < first_in S (2 ^ b) \<Longrightarrow> best S (Suc b) n na"
proof -
  assume b: "2 ^ b div 2 < first_in S (2 ^ b)"
  have "(2 :: nat) ^ p \<le> 2 ^ b" if "p < Suc b" for p using that by (intro power_increasing) auto
  then show "best S (Suc b) (2 ^ b) (first_in S (2 ^ b))" using b by (auto simp: best_def)
next
  assume "\<not> 2 ^ b div 2 < first_in S (2 ^ b)"
  then show "best S (Suc b) n na"
    by (intro best_extend [OF assms]) (auto simp: less_Suc_eq)
qed

lemma sizes_loop_best:
  assumes S: "nums_ok nums S" "S \<subseteq> {1..2 ^ MAXBITS}" "narray = card S"
  shows "i \<le> MAXBITS + 1 \<Longrightarrow> a = first_in S (2 ^ i div 2) \<Longrightarrow> best S i n na \<Longrightarrow>
    sizes_loop nums narray i a na n = (n', na') \<Longrightarrow> best S (MAXBITS + 1) n' na'"
  using S
proof (induction nums narray i a na n rule: sizes_loop.induct)
  case (1 nums narray i a na n)
  have fin: "finite S" using 1(6) by (simp add: nums_ok_def)
  have grow: "2 ^ i \<le> (2 :: nat) ^ p div 2" if "i < p" for p
  proof -
    have "(2 :: nat) ^ Suc i \<le> 2 ^ p" using that by (intro power_increasing) auto
    then show ?thesis by simp
  qed
  show ?case
  proof (cases "2 ^ i div 2 < narray")
    case False
    have "first_in S (2 ^ p) \<le> 2 ^ p div 2" if "i \<le> p" for p
    proof -
      have "first_in S (2 ^ p) \<le> 2 ^ i div 2" using first_in_card [OF fin, of "2 ^ p"] 1(8) False by simp
      also have "\<dots> \<le> 2 ^ p div 2" using that by (intro div_le_mono power_increasing) auto
      finally show ?thesis .
    qed
    moreover have "n' = n" "na' = na" using 1(5) False by (simp_all add: sizes_loop.simps [of nums])
    ultimately show ?thesis using best_extend [OF 1(4)] 1(2) by simp
  next
    case True
    have "card S \<le> 2 ^ MAXBITS" using card_mono [OF _ 1(7)] by simp
    then have "(2 :: nat) ^ i div 2 < 2 ^ MAXBITS" using True 1(8) by simp
    then have i: "i \<le> MAXBITS" using grow [of "MAXBITS + 1"] 1(2) by (cases "i = MAXBITS + 1") auto
    define a' where "a' = (if 0 < nums ! i then a + nums ! i else a)"
    have ni: "nums ! i = card (S \<inter> slice i)" using 1(6) i by (simp add: nums_ok_def)
    have a': "a' = first_in S (2 ^ i)"
      using first_in_slice [OF fin, of i] 1(3) ni by (simp add: a'_def)
    define tk where "tk \<longleftrightarrow> 0 < nums ! i \<and> 2 ^ i div 2 < a'"
    have tk: "tk \<longleftrightarrow> 2 ^ i div 2 < first_in S (2 ^ i)"
    proof -
      have "0 < nums ! i" if "2 ^ i div 2 < a'"
        using that 1(3) first_in_le [of S "2 ^ i div 2"] by (auto simp: a'_def split: if_splits)
      then show ?thesis using a' by (auto simp: tk_def)
    qed
    define n1 where "n1 = (if tk then 2 ^ i else n)"
    define na1 where "na1 = (if tk then a' else na)"
    have best1: "best S (Suc i) n1 na1"
      using best_Suc [OF 1(4)] tk a' by (simp add: n1_def na1_def)
    have unf: "sizes_loop nums narray i a na n =
        (if a' = narray then (n1, na1) else sizes_loop nums narray (i + 1) a' na1 n1)"
      by (subst sizes_loop.simps) (simp only: True if_True Let_def a'_def [symmetric] tk_def [symmetric]
          n1_def [symmetric] na1_def [symmetric])
    show ?thesis
    proof (cases "a' = narray")
      case True
      have "first_in S (2 ^ p) \<le> 2 ^ p div 2" if "Suc i \<le> p" for p
      proof -
        have "first_in S (2 ^ p) \<le> first_in S (2 ^ i)" using first_in_card [OF fin, of "2 ^ p"] True 1(8) a' by simp
        also have "\<dots> \<le> 2 ^ i" by (rule first_in_le)
        also have "\<dots> \<le> 2 ^ p div 2" using that by (intro grow) simp
        finally show ?thesis .
      qed
      moreover have "n' = n1" "na' = na1" using 1(5) True by (simp_all add: unf)
      ultimately show ?thesis using best_extend [OF best1] i by simp
    next
      case False
      have "sizes_loop nums narray (i + 1) a' na1 n1 = (n', na')" using 1(5) False by (simp add: unf)
      moreover have "a' = first_in S (2 ^ (i + 1) div 2)" using a' by simp
      moreover have "best S (i + 1) n1 na1" using best1 by simp
      ultimately show ?thesis
        using 1(1) [OF True a'_def _ _ _ False, OF tk_def] i 1(6-8) 
        unfolding n1_def na1_def tk_def by simp
    qed
  qed
qed

lemma computesizes_optimal_core:
  assumes "nums_ok nums S" "S \<subseteq> {1..MAXASIZE}"
  shows "\<exists>n na. computesizes nums (card S) = (n, na) \<and> na = card (S \<inter> {1..n}) \<and> n \<le> MAXASIZE
    \<and> (n = 0 \<or> n div 2 < na \<and> (\<exists>p. n = 2 ^ p))
    \<and> (\<forall>p. n < 2 ^ p \<longrightarrow> card (S \<inter> {1..2 ^ p}) \<le> 2 ^ p div 2)"
proof -
  obtain n na where e: "computesizes nums (card S) = (n, na)" by fastforce
  have "best S (MAXBITS + 1) n na"
    using sizes_loop_best [OF assms(1) _ refl, of 0 0 0 0 n na] assms(2) e
    by (simp add: computesizes_def MAXASIZE_def best_def first_in_def)
  then have b: "na = card (S \<inter> {1..n})" "n = 0 \<or> (\<exists>p < MAXBITS + 1. n = 2 ^ p \<and> 2 ^ p div 2 < na)"
      "\<And>p. p < MAXBITS + 1 \<Longrightarrow> n < 2 ^ p \<Longrightarrow> card (S \<inter> {1..2 ^ p}) \<le> 2 ^ p div 2"
    by (auto simp: best_def first_in_def not_less [symmetric])
  have "card (S \<inter> {1..2 ^ p}) \<le> 2 ^ p div 2" if "n < 2 ^ p" for p
  proof (cases "p < MAXBITS + 1")
    case False
    have "card S \<le> 2 ^ MAXBITS" using card_mono [OF _ assms(2)] by (simp add: MAXASIZE_def)
    moreover have "card (S \<inter> {1..2 ^ p}) \<le> card S"
      using assms(1) by (intro card_mono) (auto simp: nums_ok_def)
    moreover have "(2 :: nat) ^ (MAXBITS + 1) \<le> 2 ^ p" using False by (intro power_increasing) auto
    ultimately show ?thesis by simp
  qed (use b(3) that in blast)
  moreover have "n \<le> MAXASIZE"
  proof -
    have "(2 :: nat) ^ p \<le> 2 ^ MAXBITS" if "p < MAXBITS + 1" for p using that by (intro power_increasing) auto
    then show ?thesis using b(2) by (auto simp: MAXASIZE_def)
  qed
  ultimately show ?thesis using e b(1,2) by auto
qed



section \<open>Counting\<close>

text \<open>The integer keys that count as array indices: of a key, of an array part, of a vector.\<close>

definition key_index :: "TValue \<Rightarrow> nat set" where
  "key_index k = (if 0 < arrayindex k \<and> arrayindex k \<le> int MAXASIZE then {nat (arrayindex k)} else {})"

definition array_indices :: "TValue list \<Rightarrow> nat set" where
  "array_indices a = {i. 1 \<le> i \<and> i \<le> length a \<and> a ! (i - 1) \<noteq> TNil}"

definition filled :: "Node list \<Rightarrow> nat set" where
  "filled ns = {j. j < length ns \<and> i_val (ns ! j) \<noteq> TNil}"

lemma finite_key_index [simp]: "finite (key_index k)"
  by (simp add: key_index_def)

lemma finite_array_indices [simp]: "finite (array_indices a)"
  by (rule finite_subset [of _ "{..length a}"]) (auto simp: array_indices_def)

lemma finite_filled [simp]: "finite (filled ns)"
  by (rule finite_subset [of _ "{..length ns}"]) (auto simp: filled_def)

lemma finite_used [simp]: "finite (used ns)"
  by (rule finite_subset [of _ "{..length ns}"]) (auto simp: used_def)

lemma slice_ceillog2:
  assumes "1 \<le> k" "k \<le> MAXASIZE"
  shows "k \<in> slice j \<longleftrightarrow> j = nat (ceillog2 (word_of_nat k))" "nat (ceillog2 (word_of_nat k)) \<le> MAXBITS"
proof -
  define c where "c = nat (ceillog2 (word_of_nat k))"
  have u: "unat (word_of_nat k :: u32) = k"
    using assms(2) by (simp add: unat_of_nat MAXASIZE_def MAXBITS_def)
  have c: "k \<in> slice c"
  proof (cases "k = 1")
    case True
    then show ?thesis using ceillog2_1 by (simp add: c_def slice_def)
  next
    case False
    then have "1 < (word_of_nat k :: u32)" using assms(1) u by (simp add: word_less_nat_alt)
    from ceillog2_least [OF this] show ?thesis
      unfolding u c_def [symmetric] slice_def
      by (cases c) (auto simp: c_def)
  qed
  have uniq: "j = c" if "k \<in> slice j"
  proof (rule ccontr)
    have dis: False if "k \<in> slice a" "k \<in> slice b" "a < b" for a b
    proof -
      have "(2 :: nat) ^ Suc a \<le> 2 ^ b" using that(3) by (intro power_increasing) auto
      then have "(2 :: nat) ^ a \<le> 2 ^ b div 2" by simp
      then show False using that(1,2) unfolding slice_def by simp
    qed
    assume "j \<noteq> c"
    then show False using dis that c by (meson linorder_neqE_nat)
  qed
  then show "k \<in> slice j \<longleftrightarrow> j = nat (ceillog2 (word_of_nat k))" using c unfolding c_def by auto
  show "nat (ceillog2 (word_of_nat k)) \<le> MAXBITS"
  proof (rule ccontr)
    assume "\<not> nat (ceillog2 (word_of_nat k)) \<le> MAXBITS"
    then have "(2 :: nat) ^ Suc MAXBITS \<le> 2 ^ c" by (intro power_increasing) (auto simp: c_def)
    then show False using c assms(2) by (simp add: slice_def MAXASIZE_def)
  qed
qed

lemma nums_ok_insert:
  assumes "nums_ok nums S" "k \<notin> S" "1 \<le> k" "k \<le> MAXASIZE"
  defines "j \<equiv> nat (ceillog2 (word_of_nat k))"
  shows "nums_ok (nums[j := nums ! j + 1]) (insert k S)"
proof -
  have j: "j \<le> MAXBITS" "k \<in> slice l \<longleftrightarrow> l = j" for l
    using slice_ceillog2 [OF assms(3,4)] by (simp_all add: j_def)
  have "(nums[j := nums ! j + 1]) ! l = card (insert k S \<inter> slice l)" if "l \<le> MAXBITS" for l
  proof (cases "l = j")
    case True
    then have "insert k S \<inter> slice l = insert k (S \<inter> slice l)" using j by auto
    then show ?thesis using assms(1,2) True that unfolding nums_ok_def by simp
  next
    case False
    then have "insert k S \<inter> slice l = S \<inter> slice l" using j by auto
    then show ?thesis using assms(1) False that unfolding nums_ok_def by simp
  qed
  then show ?thesis using assms(1) unfolding nums_ok_def by simp
qed

lemma countint_ok:
  assumes "nums_ok nums S" "key_index k \<inter> S = {}"
  shows "\<exists>nums'. countint k nums = (card (key_index k), nums') \<and> nums_ok nums' (S \<union> key_index k)"
proof (cases "0 < arrayindex k \<and> arrayindex k \<le> int MAXASIZE")
  case True
  define n where "n = nat (arrayindex k)"
  have n: "key_index k = {n}" "1 \<le> n" "n \<le> MAXASIZE" "arrayindex k = int n"
    using True by (auto simp: key_index_def n_def)
  then show ?thesis
    using nums_ok_insert [OF assms(1) _ n(2,3)] assms(2)
    by (simp add: countint_def n(4) Let_def del: One_nat_def)
next
  case False
  then show ?thesis using assms by (auto simp: countint_def Let_def key_index_def)
qed

lemma nums_ok_add:
  assumes "nums_ok nums S" "finite X" "X \<inter> S = {}" "X \<subseteq> slice j" "j \<le> MAXBITS"
  shows "nums_ok (nums[j := nums ! j + card X]) (S \<union> X)"
proof -
  have disj: "slice j \<inter> slice l = {}" if "l \<noteq> j" for l
  proof -
    have "False" if "k \<in> slice a" "k \<in> slice b" "a < b" for a b k
    proof -
      have "(2 :: nat) ^ Suc a \<le> 2 ^ b" using that(3) by (intro power_increasing) auto
      then have "(2 :: nat) ^ a \<le> 2 ^ b div 2" by simp
      then show False using that(1,2) unfolding slice_def by simp
    qed
    then show ?thesis using that by (meson disjoint_iff linorder_neqE_nat)
  qed
  have "(nums[j := nums ! j + card X]) ! l = card ((S \<union> X) \<inter> slice l)" if "l \<le> MAXBITS" for l
  proof (cases "l = j")
    case True
    have "(S \<union> X) \<inter> slice l = (S \<inter> slice l) \<union> X" "(S \<inter> slice l) \<inter> X = {}" using True assms(3,4) by auto
    then show ?thesis using assms(1,2) True that unfolding nums_ok_def by (simp add: card_Un_disjoint)
  next
    case False
    then have "(S \<union> X) \<inter> slice l = S \<inter> slice l" using disj assms(4) by auto
    then show ?thesis using assms(1) False that unfolding nums_ok_def by simp
  qed
  then show ?thesis using assms(1,2) unfolding nums_ok_def by simp
qed

lemma slice_count_card:
  "1 \<le> i \<Longrightarrow> lim \<le> length (array t) \<Longrightarrow> slice_count t i lim = card (array_indices (array t) \<inter> {i..lim})"
proof -
  assume a: "1 \<le> i" "lim \<le> length (array t)"
  have "slice_count t i lim = card (set (filter (\<lambda>j. array t ! (j - 1) \<noteq> TNil) [i..<lim + 1]))"
    unfolding slice_count_def by (intro distinct_card [symmetric]) simp
  also have "set (filter (\<lambda>j. array t ! (j - 1) \<noteq> TNil) [i..<lim + 1]) = array_indices (array t) \<inter> {i..lim}"
    using a by (auto simp: array_indices_def)
  finally show ?thesis .
qed

lemma usearray_loop_ok:
  assumes "length (array t) \<le> MAXASIZE"
  defines "A \<equiv> array_indices (array t)"
  shows "lg \<le> MAXBITS + 1 \<Longrightarrow> i = min (length (array t)) (2 ^ lg div 2) + 1
    \<Longrightarrow> nums_ok nums (A \<inter> {1..2 ^ lg div 2}) \<Longrightarrow> ause = card (A \<inter> {1..2 ^ lg div 2})
    \<Longrightarrow> \<exists>nums'. usearray_loop t lg i ause nums = (card A, nums') \<and> nums_ok nums' A"
proof (induction "MAXBITS + 1 - lg" arbitrary: lg i nums ause)
  case 0
  then have "lg = MAXBITS + 1" by simp
  moreover have "A \<inter> {1..2 ^ MAXBITS} = A" using assms(1) by (auto simp: A_def array_indices_def MAXASIZE_def)
  moreover have "usearray_loop t (MAXBITS + 1) i ause nums = (ause, nums)"
    by (subst usearray_loop.simps) simp
  ultimately show ?case using 0 by simp
next
  case (Suc x)
  define len where "len = length (array t)"
  define lim where "lim = (if len < 2 ^ lg then len else 2 ^ lg)"
  have lg: "lg \<le> MAXBITS" using Suc(2) by simp
  have lim: "lim = min len (2 ^ lg)" by (simp add: lim_def min_def)
  show ?case
  proof (cases "len < 2 ^ lg \<and> lim < i")
    case True
    then have "len \<le> 2 ^ lg div 2" using Suc(4) by (auto simp: lim_def len_def [symmetric] min_def split: if_splits)
    then have "A \<inter> {1..2 ^ lg div 2} = A" by (auto simp: A_def array_indices_def len_def)
    moreover have "usearray_loop t lg i ause nums = (ause, nums)"
      using True lg unfolding usearray_loop.simps [of t lg] Let_def len_def [symmetric] lim_def [symmetric]
      by simp
    ultimately show ?thesis using Suc by simp
  next
    case False
    define lc where "lc = slice_count t i lim"
    define X where "X = A \<inter> {i..lim}"
    have lc: "lc = card X"
      using slice_count_card [of i lim t] Suc(4) by (simp add: lc_def X_def A_def lim len_def)
    have two: "(2 :: nat) ^ lg div 2 \<le> 2 ^ lg" by simp
    have un: "A \<inter> {1..2 ^ lg div 2} \<union> X = A \<inter> {1..2 ^ Suc lg div 2}"
      using Suc(4) two by (auto simp: X_def A_def array_indices_def lim len_def [symmetric])
    have di: "X \<inter> (A \<inter> {1..2 ^ lg div 2}) = {}"
      using Suc(4) by (auto simp: X_def A_def array_indices_def len_def [symmetric])
    have sl: "X \<subseteq> slice lg"
      using Suc(4) by (auto simp: X_def A_def array_indices_def slice_def lim len_def [symmetric])
    have fX: "finite X" by (simp add: X_def A_def)
    have nums': "nums_ok (nums[lg := nums ! lg + lc]) (A \<inter> {1..2 ^ Suc lg div 2})"
      using nums_ok_add [OF Suc(5) fX di sl lg] unfolding lc un .
    have ause': "ause + lc = card (A \<inter> {1..2 ^ Suc lg div 2})"
      using Suc(6) lc card_Un_disjoint [OF _ fX, of "A \<inter> {1..2 ^ lg div 2}"] di un
      by (simp add: Int_commute)
    have "max i (lim + 1) = min len (2 ^ Suc lg div 2) + 1"
      using Suc(4) two by (simp add: lim len_def [symmetric])
    then have i': "max i (lim + 1) = min (length (array t)) (2 ^ Suc lg div 2) + 1" by (simp add: len_def)
    have unf: "usearray_loop t lg i ause nums =
        usearray_loop t (Suc lg) (max i (lim + 1)) (ause + lc) (nums[lg := nums ! lg + lc])"
      unfolding usearray_loop.simps [of t lg] Let_def len_def [symmetric] lim_def [symmetric]
        lc_def [symmetric] by (simp only: False lg if_False if_True Suc_eq_plus1)
    show ?thesis
      unfolding unf using Suc(1) [OF _ _ i' nums' ause'] Suc(2) lg by simp
  qed
qed

lemma nums_ok_zero: "nums_ok (replicate (MAXBITS + 1) 0) {}"
  unfolding nums_ok_def by (auto simp del: replicate.simps simp: nth_replicate)

lemma numusearray_ok:
  "length (array t) \<le> MAXASIZE \<Longrightarrow> \<exists>nums. numusearray t (replicate (MAXBITS + 1) 0) =
    (card (array_indices (array t)), nums) \<and> nums_ok nums (array_indices (array t))"
  unfolding numusearray_def using nums_ok_zero by (intro usearray_loop_ok) auto

lemma usehash_loop_ok:
  assumes "i \<le> length ns"
    and "\<And>j. j < i \<Longrightarrow> j \<in> filled ns \<Longrightarrow> key_index (i_key (ns ! j)) \<inter> S = {}"
    and "\<And>j l. j < i \<Longrightarrow> l < i \<Longrightarrow> j \<noteq> l \<Longrightarrow> j \<in> filled ns \<Longrightarrow> l \<in> filled ns
      \<Longrightarrow> key_index (i_key (ns ! j)) \<inter> key_index (i_key (ns ! l)) = {}"
    and "nums_ok nums S"
  shows "\<exists>nums'. usehash_loop ns i totaluse ause nums =
      (totaluse + card (filled ns \<inter> {..<i}),
       ause + card (\<Union>j \<in> filled ns \<inter> {..<i}. key_index (i_key (ns ! j))), nums')
    \<and> nums_ok nums' (S \<union> (\<Union>j \<in> filled ns \<inter> {..<i}. key_index (i_key (ns ! j))))"
  using assms
proof (induction i arbitrary: totaluse ause nums S)
  case (Suc i)
  show ?case
  proof (cases "i \<in> filled ns")
    case False
    have eq: "filled ns \<inter> {..<Suc i} = filled ns \<inter> {..<i}" using False by (auto simp: less_Suc_eq)
    have "usehash_loop ns (Suc i) totaluse ause nums = usehash_loop ns i totaluse ause nums"
      using False Suc.prems(1) by (simp add: filled_def)
    then show ?thesis using Suc.IH [OF _ _ _ Suc.prems(4), of totaluse ause] Suc.prems unfolding eq by simp
  next
    case True
    let ?K = "key_index (i_key (ns ! i))" and ?F = "filled ns \<inter> {..<i}"
    have eq: "filled ns \<inter> {..<Suc i} = insert i ?F" using True by (auto simp: less_Suc_eq)
    have ni: "i \<notin> ?F" by simp
    let ?U = "\<Union>j \<in> ?F. key_index (i_key (ns ! j))"
    obtain nums1 where n1: "countint (i_key (ns ! i)) nums = (card ?K, nums1)" "nums_ok nums1 (S \<union> ?K)"
      using countint_ok [OF Suc.prems(4) Suc.prems(2) [OF _ True]] by auto
    have "usehash_loop ns (Suc i) totaluse ause nums = usehash_loop ns i (totaluse + 1) (ause + card ?K) nums1"
      using True n1(1) by (simp add: filled_def)
    moreover have "\<exists>nums'. usehash_loop ns i (totaluse + 1) (ause + card ?K) nums1 =
        (totaluse + 1 + card ?F, ause + card ?K + card ?U, nums') \<and> nums_ok nums' (S \<union> ?K \<union> ?U)"
    proof (rule Suc.IH)
      show "i \<le> length ns" "nums_ok nums1 (S \<union> ?K)" using Suc.prems(1) n1(2) by simp_all
      show "key_index (i_key (ns ! j)) \<inter> (S \<union> ?K) = {}" if "j < i" "j \<in> filled ns" for j
        using Suc.prems(2) [of j] Suc.prems(3) [of j i] that True by auto
      show "key_index (i_key (ns ! j)) \<inter> key_index (i_key (ns ! l)) = {}"
        if "j < i" "l < i" "j \<noteq> l" "j \<in> filled ns" "l \<in> filled ns" for j l
        using Suc.prems(3) [of j l] that by simp
    qed
    moreover have "card (?K \<union> ?U) = card ?K + card ?U"
    proof (rule card_Un_disjoint)
      have "?K \<inter> key_index (i_key (ns ! l)) = {}" if "l \<in> ?F" for l
        using Suc.prems(3) [of i l] True that by simp
      then show "?K \<inter> ?U = {}" by blast
    qed simp_all
    ultimately show ?thesis unfolding eq using ni by (simp add: Un_assoc add.assoc)
  qed
qed simp

section \<open>The sizes of a rehash\<close>

text \<open>
  All keys that count: those of the array part, of the hash part, and the extra key, which
  is not in the table.
\<close>

definition all_indices :: "Table \<Rightarrow> TValue \<Rightarrow> nat set" where
  "all_indices t ek = array_indices (array t)
     \<union> (\<Union>j \<in> filled (node t). key_index (i_key (node t ! j))) \<union> key_index ek"

definition total_use :: "Table \<Rightarrow> nat" where
  "total_use t = card (array_indices (array t)) + card (filled (node t)) + 1"

lemma key_index_disjoint:
  assumes "\<not> luaO_rawequalObj a b"
  shows "key_index a \<inter> key_index b = {}"
proof (rule ccontr)
  assume "key_index a \<inter> key_index b \<noteq> {}"
  then have "0 < arrayindex a" "0 < arrayindex b" "nat (arrayindex a) = nat (arrayindex b)"
    by (auto simp: key_index_def split: if_splits)
  then have "0 < arrayindex a" "arrayindex a = arrayindex b" by linarith+
  then show False using assms arrayindex_inj by blast
qed

lemma key_index_array:
  "\<not> arraykey t k \<Longrightarrow> key_index k \<inter> array_indices (array t) = {}"
  by (auto simp: key_index_def array_indices_def arraykey_def)

lemma rehash_sizes_ok:
  assumes inv: "table_inv t" and ek: "\<not> arraykey t ek"
    "\<And>i. i < length (node t) \<Longrightarrow> live (i_key (node t ! i)) \<Longrightarrow> \<not> luaO_rawequalObj (i_key (node t ! i)) ek"
  shows "\<exists>n na. rehash_sizes t ek = (n, total_use t - na) \<and> n \<le> MAXASIZE
    \<and> na = card (all_indices t ek \<inter> {1..n})"
proof -
  note d = table_invD [OF inv]
  let ?A = "array_indices (array t)" and ?F = "filled (node t)"
  let ?K = "\<lambda>j. key_index (i_key (node t ! j))"
  let ?U = "\<Union>j \<in> ?F. ?K j"
  have lv: "j < length (node t)" "live (i_key (node t ! j))" if "j \<in> ?F" for j
    using that keys_okD(3) [OF d(5), of j] by (auto simp: filled_def)
  have KA: "?K j \<inter> ?A = {}" if "j \<in> ?F" for j
    using key_index_array d(7) lv [OF that] by blast
  have KK: "?K j \<inter> ?K l = {}" if "j \<in> ?F" "l \<in> ?F" "j \<noteq> l" for j l
    using key_index_disjoint keys_okD(2) [OF d(5)] lv that by metis
  have KE: "?K j \<inter> key_index ek = {}" if "j \<in> ?F" for j
    using key_index_disjoint ek(2) lv [OF that] by blast
  have F: "?F \<inter> {..<sizenode t} = ?F" using d(2) by (auto simp: filled_def)
  obtain nums1 where n1: "numusearray t (replicate (MAXBITS + 1) 0) = (card ?A, nums1)" "nums_ok nums1 ?A"
    using numusearray_ok [OF d(3)] by blast
  have "\<exists>nums'. usehash_loop (node t) (sizenode t) 0 0 nums1 =
      (0 + card (?F \<inter> {..<sizenode t}), 0 + card (\<Union>j \<in> ?F \<inter> {..<sizenode t}. ?K j), nums')
    \<and> nums_ok nums' (?A \<union> (\<Union>j \<in> ?F \<inter> {..<sizenode t}. ?K j))"
    using KA KK n1(2) d(2) by (intro usehash_loop_ok) auto
  then obtain nums2 where n2: "usehash_loop (node t) (sizenode t) 0 0 nums1 = (card ?F, card ?U, nums2)"
      "nums_ok nums2 (?A \<union> ?U)"
    unfolding F by auto
  have "key_index ek \<inter> (?A \<union> ?U) = {}"
    using key_index_array [OF ek(1)] KE by blast
  then obtain nums3 where n3: "countint ek nums2 = (card (key_index ek), nums3)"
      "nums_ok nums3 (?A \<union> ?U \<union> key_index ek)"
    using countint_ok [OF n2(2)] by blast
  have AU: "card (?A \<union> ?U) = card ?A + card ?U"
    using KA by (intro card_Un_disjoint) auto
  have AUE: "card (all_indices t ek) = card ?A + card ?U + card (key_index ek)"
    unfolding all_indices_def AU [symmetric]
    using key_index_array [OF ek(1)] KE by (intro card_Un_disjoint) auto
  have sub: "all_indices t ek \<subseteq> {1..MAXASIZE}"
    using d(3) by (auto simp: all_indices_def array_indices_def key_index_def)
  have "nums_ok nums3 (all_indices t ek)" using n3(2) by (simp add: all_indices_def)
  from computesizes_optimal_core [OF this sub]
  obtain n na where c: "computesizes nums3 (card (all_indices t ek)) = (n, na)" "n \<le> MAXASIZE"
    "na = card (all_indices t ek \<inter> {1..n})" by blast
  have "rehash_sizes t ek = (n, total_use t - na)"
    unfolding rehash_sizes_def Let_def n1(1) prod.case numusehash_def n2(1) n3(1)
    using c(1) by (simp add: AUE total_use_def add.assoc)
  then show ?thesis using c by blast
qed

end
