(* ===== verification/Rehash.thy ===== *)
theory Rehash
  imports Sizes
begin

text \<open>
  \<open>resize\<close>, \<open>rehash\<close> and \<open>luaH_set\<close>: a rehash builds a table with room for all that it
  holds and for the key that caused it, so that it never nests, and storing through the
  slot that \<open>luaH_set\<close> returns changes one key of the table.
\<close>

section \<open>Setting while there is room\<close>

definition room :: "Table \<Rightarrow> bool" where
  "room t \<longleftrightarrow> \<not> dummy t \<and> card (used (node t)) < length (node t)"

lemma room_no_room: "room t \<Longrightarrow> \<not> no_room t"
proof
  assume r: "room t" and "no_room t"
  then have "used (node t) = {..<length (node t)}" by (simp add: room_def no_room_def)
  then have "card (used (node t)) = length (node t)" by (simp only: card_lessThan)
  then show False using r by (simp add: room_def)
qed

lemma hash_flags [simp]:
  "hashnum (t\<lparr>flags := f\<rparr>) = hashnum t" "hashpow2 (t\<lparr>flags := f\<rparr>) = hashpow2 t"
  "search p (t\<lparr>flags := f\<rparr>) = search p t"
  by (rule ext; simp add: hashnum_def hashmod_def hashpow2_def search_def)+

lemma luaH_get_flags [simp]: "luaH_get (t\<lparr>flags := f\<rparr>) k = luaH_get t k"
proof -
  have "luaH_getnum (t\<lparr>flags := f\<rparr>) i = luaH_getnum t i" for i
    by (simp add: luaH_getnum_def Let_def)
  moreover have "luaH_getstr (t\<lparr>flags := f\<rparr>) s = luaH_getstr t s" for s
    by (simp add: luaH_getstr_def)
  ultimately show ?thesis by (cases k) (simp_all add: luaH_get_def Let_def)
qed

text \<open>\<open>luaH_set\<close> and \<open>luaH_setnum\<close> on a live key, without the assignment to \<open>flags\<close>.\<close>

definition locate :: "(Table \<Rightarrow> TValue \<Rightarrow> (Table \<times> slot) outcome) \<Rightarrow> Table \<Rightarrow> TValue \<Rightarrow> (Table \<times> slot) outcome" where
  "locate full t k = (case luaH_get t k of At s \<Rightarrow> Ok (t, s) | Endless \<Rightarrow> Stuck | Absent \<Rightarrow> newkey full t k)"

lemma set_with_locate: "live k \<Longrightarrow> set_with full t k = locate full (t\<lparr>flags := 0\<rparr>) k"
  unfolding set_with_def locate_def Let_def
  by (cases k) (auto simp: live_def luai_numisnan_iff split: lookup.splits)

lemma setnum_with_locate:
  assumes "0 < i" "i < 2 ^ 31"
  shows "setnum_with full t i = locate full t (TNumber (cast_num i))"
proof -
  have "lua_number2int (cast_num i) = i" using number2int_cast_num assms by simp
  moreover have "luai_numeq (cast_num i) (cast_num i)" using cast_num_not_nan [of i] assms by (simp add: numeq_refl)
  ultimately have "luaH_get t (TNumber (cast_num i)) = luaH_getnum t i" by (simp add: luaH_get_def Let_def)
  then show ?thesis by (simp add: setnum_with_def locate_def)
qed

lemma setstr_with_locate: "setstr_with full t s = locate full t (TString s)"
  by (simp add: setstr_with_def locate_def luaH_get_def Let_def)

lemma live_cast_num: "0 < i \<Longrightarrow> i < 2 ^ 31 \<Longrightarrow> live (TNumber (cast_num i))"
  using cast_num_not_nan [of i] by (simp add: live_def)

lemma live_not_dead: "live k \<Longrightarrow> k \<noteq> TDeadKey p"
  by (auto simp: live_def)

lemma locate_cases:
  assumes inv: "table_inv t" and k: "live k"
  obtains (ok) t' s where "locate full t k = Ok (t', s)" "points t k t' s" "flags t' = flags t"
    | (full) lf where "no_room t" "lf < 0" "content t k = TNil" "\<not> arraykey t k" "fresh (node t) k"
        "locate full t k = full (t\<lparr>lastfree := lf\<rparr>) k"
proof (rule luaH_get_cases [OF inv live_not_dead [OF k]])
  assume "arraykey t k" "luaH_get t k = At (ArrSlot (nat (arrayindex k - 1)))"
  then show ?thesis using ok points_array [OF inv] by (simp add: locate_def)
next
  fix i
  assume "\<not> arraykey t k" "i < length (node t)" "live (i_key (node t ! i))"
    "luaO_rawequalObj (i_key (node t ! i)) k" "luaH_get t k = At (NodeSlot i)"
  then show ?thesis using ok points_node [OF inv] by (simp add: locate_def)
next
  assume a: "\<not> arraykey t k" "luaH_get t k = Absent" "content t k = TNil"
    and m: "\<And>i. live k \<Longrightarrow> i < length (node t) \<Longrightarrow> \<not> luaO_rawequalObj (i_key (node t ! i)) k"
  have f: "fresh (node t) k" using k m by (simp add: fresh_def)
  from inv f a(1) show ?thesis
  proof (cases rule: newkey_cases [of t k full])
    case (full lf)
    then show ?thesis using that(2) a f by (simp add: locate_def)
  next
    case (link t' i)
    then show ?thesis
      using ok points_linked [OF inv k a(1,3)] a(2) by (simp add: locate_def linked_def)
  qed
qed

text \<open>What a store under \<open>k\<close> does to a table.\<close>

definition stored :: "Table \<Rightarrow> TValue \<Rightarrow> TValue \<Rightarrow> Table \<Rightarrow> bool" where
  "stored t k v t' \<longleftrightarrow> table_inv t'
     \<and> (\<forall>k'. live k' \<longrightarrow> content t' k' = (if luaO_rawequalObj k k' then v else content t k'))
     \<and> length (array t') = length (array t) \<and> lsizenode t' = lsizenode t \<and> dummy t' = dummy t
     \<and> metatable t' = metatable t
     \<and> card (used (node t')) \<le> card (used (node t)) + (if arraykey t k then 0 else 1)"

lemma stored_points: "points t k t' s \<Longrightarrow> stored t k v (put_slot t' s v)"
proof -
  assume p: "points t k t' s"
  then obtain j where j: "used (node t') \<subseteq> (if arraykey t k then {} else {j}) \<union> used (node t)"
    unfolding points_def by auto
  then have "card (used (node t')) \<le> card ((if arraykey t k then {} else {j}) \<union> used (node t))"
    by (intro card_mono) auto
  also have "\<dots> \<le> card (if arraykey t k then {} else {j}) + card (used (node t))" by (rule card_Un_le)
  also have "card (if arraykey t k then {} else {j}) = (if arraykey t k then 0 else 1)" by simp
  finally have "card (used (node t')) \<le> card (used (node t)) + (if arraykey t k then 0 else 1)" by linarith
  then show ?thesis using p unfolding points_def stored_def by (simp del: put_slot.simps)
qed

lemma put_locate:
  assumes "table_inv t" "live k" "room t \<or> arraykey t k"
  shows "\<exists>t'. put_with (\<lambda>t. locate full t k) v t = Ok t' \<and> stored t k v t' \<and> flags t' = flags t"
  using assms(1,2)
proof (cases rule: locate_cases [of t k full])
  case (ok t' s)
  then show ?thesis using stored_points by (auto simp: put_with_def)
next
  case (full lf)
  then show ?thesis using assms(3) room_no_room by auto
qed

section \<open>Putting a list of pairs\<close>

text \<open>
  \<open>put_items\<close> is the shape of both loops of \<open>resize\<close>: for every item with a value, the
  value is stored under the item's key; \<open>g\<close> is what the loop calls to find the slot.
\<close>

lemma put_items:
  assumes "table_inv s"
    and "\<And>x. x \<in> set xs \<Longrightarrow> val x \<noteq> TNil \<Longrightarrow> live (key x) \<and> c (key x) = val x"
    and "\<And>x t. x \<in> set xs \<Longrightarrow> val x \<noteq> TNil \<Longrightarrow> table_inv t \<Longrightarrow> room t \<or> arraykey t (key x) \<Longrightarrow>
      \<exists>t'. put_with (\<lambda>t. g x t) (val x) t = Ok t' \<and> stored t (key x) (val x) t'"
    and "\<And>a b. luaO_rawequalObj a b \<Longrightarrow> c a = c b"
    and "card (used (node s)) + length (filter (\<lambda>x. val x \<noteq> TNil \<and> \<not> arraykey s (key x)) xs) \<le> length (node s)"
    and "dummy s \<Longrightarrow> filter (\<lambda>x. val x \<noteq> TNil \<and> \<not> arraykey s (key x)) xs = []"
  shows "\<exists>s'. each (\<lambda>x t. if val x \<noteq> TNil then put_with (\<lambda>t. g x t) (val x) t else Ok t) xs s = Ok s'
    \<and> table_inv s' \<and> length (array s') = length (array s) \<and> lsizenode s' = lsizenode s \<and> dummy s' = dummy s
    \<and> metatable s' = metatable s
    \<and> card (used (node s')) \<le> card (used (node s))
        + length (filter (\<lambda>x. val x \<noteq> TNil \<and> \<not> arraykey s (key x)) xs)
    \<and> (\<forall>k. live k \<longrightarrow> content s' k =
          (if \<exists>x \<in> set xs. val x \<noteq> TNil \<and> luaO_rawequalObj (key x) k then c k else content s k))"
  using assms(1-3) assms(5,6)
proof (induction xs arbitrary: s)
  case (Cons x xs)
  show ?case
  proof (cases "val x = TNil")
    case True
    then show ?thesis using Cons.IH [OF Cons.prems(1)] Cons.prems by simp
  next
    case False
    let ?p = "\<lambda>s x. val x \<noteq> TNil \<and> \<not> arraykey s (key x)"
    have x: "live (key x)" "c (key x) = val x" using Cons.prems(2) [of x] False by simp_all
    have "room s \<or> arraykey s (key x)"
      using Cons.prems(4,5) False by (cases "arraykey s (key x)") (auto simp: room_def)
    then obtain s1 where s1: "put_with (\<lambda>t. g x t) (val x) s = Ok s1" "stored s (key x) (val x) s1"
      using Cons.prems(3) [of x s] Cons.prems(1) False by auto
    have ak: "arraykey s1 = arraykey s" using s1(2) by (auto simp: stored_def arraykey_def)
    have len: "length (node s1) = length (node s)"
      using table_invD(2) [OF Cons.prems(1)] table_invD(2) [of s1] s1(2) by (simp add: stored_def sizenode_def)
    have "\<exists>s'. each (\<lambda>x t. if val x \<noteq> TNil then put_with (\<lambda>t. g x t) (val x) t else Ok t) xs s1 = Ok s'
      \<and> table_inv s' \<and> length (array s') = length (array s1) \<and> lsizenode s' = lsizenode s1 \<and> dummy s' = dummy s1
      \<and> metatable s' = metatable s1
      \<and> card (used (node s')) \<le> card (used (node s1)) + length (filter (?p s1) xs)
      \<and> (\<forall>k. live k \<longrightarrow> content s' k =
          (if \<exists>x \<in> set xs. val x \<noteq> TNil \<and> luaO_rawequalObj (key x) k then c k else content s1 k))"
    proof (rule Cons.IH)
      show "table_inv s1" using s1(2) by (simp add: stored_def)
      show "card (used (node s1)) + length (filter (?p s1) xs) \<le> length (node s1)"
        using s1(2) Cons.prems(4) False unfolding ak len by (auto simp: stored_def split: if_splits)
      show "dummy s1 \<Longrightarrow> filter (?p s1) xs = []"
        using s1(2) Cons.prems(5) unfolding ak by (auto simp: stored_def split: if_splits)
    qed (use Cons.prems(2,3) in auto)
    then obtain s' where s': "each (\<lambda>x t. if val x \<noteq> TNil then put_with (\<lambda>t. g x t) (val x) t else Ok t) xs s1 = Ok s'"
      "table_inv s'" "length (array s') = length (array s1)" "lsizenode s' = lsizenode s1" "dummy s' = dummy s1"
      "metatable s' = metatable s1"
      "card (used (node s')) \<le> card (used (node s1)) + length (filter (?p s1) xs)"
      "\<And>k. live k \<Longrightarrow> content s' k =
          (if \<exists>x \<in> set xs. val x \<noteq> TNil \<and> luaO_rawequalObj (key x) k then c k else content s1 k)"
      by blast
    have ct: "content s' k = (if \<exists>x \<in> set (x # xs). val x \<noteq> TNil \<and> luaO_rawequalObj (key x) k then c k else content s k)"
      if k: "live k" for k
    proof (cases "luaO_rawequalObj (key x) k")
      case True
      then have "content s1 k = c k" using s1(2) k x(2) assms(4) [OF True] by (simp add: stored_def)
      then show ?thesis using s'(8) [OF k] True False by simp
    next
      case ne: False
      then have e: "content s1 k = content s k" using s1(2) k by (simp add: stored_def)
      have "(\<exists>y \<in> set (x # xs). val y \<noteq> TNil \<and> luaO_rawequalObj (key y) k) \<longleftrightarrow>
          (\<exists>y \<in> set xs. val y \<noteq> TNil \<and> luaO_rawequalObj (key y) k)" using ne by simp
      then show ?thesis using s'(8) [OF k] by (simp only: e)
    qed
    have "card (used (node s')) \<le> card (used (node s)) + length (filter (?p s) (x # xs))"
      using s'(7) s1(2) False unfolding ak by (auto simp: stored_def split: if_splits)
    then show ?thesis
      using s' s1 False ct by (simp add: stored_def)
  qed
qed simp

section \<open>Resizing\<close>

lemma content_rawequal:
  assumes "luaO_rawequalObj a b"
  shows "content t a = content t b"
proof -
  have "luaO_rawequalObj x a \<longleftrightarrow> luaO_rawequalObj x b" for x
    using assms rawequal_sym rawequal_trans by blast
  then show ?thesis using arrayindex_rawequal [OF assms] by (simp add: content_def arraykey_def lin_get_def)
qed

lemma content_in_hash:
  assumes "table_inv t" "live k" "\<not> arraykey t k" "content t k \<noteq> TNil"
  shows "\<exists>j \<in> filled (node t). luaO_rawequalObj (i_key (node t ! j)) k"
proof -
  have "lin_get (node t) k \<noteq> TNil" using assms(3,4) by (simp add: content_def)
  then obtain k' where "luaO_rawequalObj k' k" "(k', lin_get (node t) k) \<in> entries (node t)"
    using lin_get_entries [OF table_invD(5) [OF assms(1)], of k "lin_get (node t) k"] by blast
  then show ?thesis unfolding entries_nth filled_def by auto
qed

lemma content_filled:
  assumes "table_inv t" "j \<in> filled (node t)"
  shows "live (i_key (node t ! j))" "content t (i_key (node t ! j)) = i_val (node t ! j)"
proof -
  have j: "j < length (node t)" "i_val (node t ! j) \<noteq> TNil" using assms(2) by (auto simp: filled_def)
  then show l: "live (i_key (node t ! j))" using keys_okD(3) [OF table_invD(5) [OF assms(1)]] by blast
  show "content t (i_key (node t ! j)) = i_val (node t ! j)"
    using content_hit [OF assms(1) table_invD(7) [OF assms(1) j(1) l] j(1) l live_refl [OF l]] .
qed

lemma empty_vector:
  fixes ns :: "Node list" and h :: "TValue \<Rightarrow> nat"
  assumes "\<forall>i < length ns. ns ! i = \<lparr>i_val = TNil, i_key = TNil, i_next = None\<rparr>"
  shows "links_ok ns" "keys_ok h ns" "used ns = {}" "\<And>k. lin_get ns k = TNil"
proof -
  have "chain ns i [i]" if "i < length ns" for i using assms that by simp
  then show "links_ok ns" using assms by (intro links_okI) (blast, simp_all)
  show "keys_ok h ns" using assms by (intro keys_okI) (auto simp: live_def)
  show "used ns = {}" using assms by (auto simp: used_def)
  show "lin_get ns k = TNil" for k
    using assms by (auto simp: lin_get_def find_Some_iff split: option.split)
qed

text \<open>A table with a fresh hash part.\<close>

lemma setnodevector_ok:
  assumes "sz \<le> MAXASIZE" "length (array t) \<le> MAXASIZE"
  shows "\<exists>t'. setnodevector t sz = Ok t' \<and> table_inv t' \<and> array t' = array t \<and> metatable t' = metatable t
    \<and> flags t' = flags t \<and> used (node t') = {} \<and> (\<forall>k. lin_get (node t') k = TNil)
    \<and> (dummy t' \<longleftrightarrow> sz = 0) \<and> sz \<le> length (node t') \<and> length (node t') = sizenode t'
    \<and> (\<forall>i < length (node t'). i_key (node t' ! i) = TNil)"
proof (cases "sz = 0")
  case True
  define t' where "t' = t\<lparr>node := [dummynode], dummy := True, lsizenode := 0, lastfree := 0\<rparr>"
  have e: "\<forall>i < length (node t'). node t' ! i = \<lparr>i_val = TNil, i_key = TNil, i_next = None\<rparr>"
    by (simp add: t'_def dummynode_def)
  have "table_inv t'"
    using empty_vector(1,2) [OF e] assms(2) e unfolding table_inv_def
    by (simp add: t'_def sizenode_def twoto_def live_def dummynode_def)
  then show ?thesis
    using empty_vector [OF e] True
    by (auto simp: setnodevector_def t'_def sizenode_def twoto_def dummynode_def)
next
  case False
  define l where "l = nat (ceillog2 (word_of_nat sz))"
  have "sz \<in> slice l" "l \<le> MAXBITS"
    using slice_ceillog2(1) [of sz l] slice_ceillog2(2) [of sz] False assms(1) by (simp_all add: l_def)
  then have l: "sz \<le> 2 ^ l" "l \<le> MAXBITS" by (simp_all add: slice_def)
  define t' where "t' = t\<lparr>node := replicate (twoto l) \<lparr>i_val = TNil, i_key = TNil, i_next = None\<rparr>,
    dummy := False, lsizenode := l, lastfree := int (twoto l)\<rparr>"
  have e: "\<forall>i < length (node t'). node t' ! i = \<lparr>i_val = TNil, i_key = TNil, i_next = None\<rparr>"
    by (simp add: t'_def)
  have len: "length (node t') = sizenode t'" "sizenode t' = 2 ^ l"
    by (simp_all add: t'_def sizenode_def twoto_def)
  have "table_inv t'"
    using empty_vector(1,2) [OF e] assms(2) e l(2) len unfolding table_inv_def
    by (auto simp: t'_def live_def twoto_def)
  moreover have "setnodevector t sz = Ok t'"
    using False l(2) unfolding setnodevector_def l_def [symmetric] Let_def by (simp add: t'_def)
  ultimately show ?thesis
    using empty_vector [OF e] False e l(1) len by (auto simp: t'_def)
qed

text \<open>How many values have to move to the hash part when the array gets \<open>n\<close> slots.\<close>

definition to_hash :: "Table \<Rightarrow> nat \<Rightarrow> nat" where
  "to_hash t n = card (array_indices (array t) \<inter> {n<..})
     + card {j \<in> filled (node t). \<not> (0 < arrayindex (i_key (node t ! j)) \<and> arrayindex (i_key (node t ! j)) \<le> int n)}"

lemma stored_flags: "stored (t\<lparr>flags := f\<rparr>) k v t' = stored t k v t'"
  by (simp add: stored_def arraykey_def)

lemma put_set_with:
  assumes "table_inv t" "live k" "room t \<or> arraykey t k"
  shows "\<exists>t'. put_with (\<lambda>t. set_with full t k) v t = Ok t' \<and> stored t k v t'"
proof -
  have "room (t\<lparr>flags := 0\<rparr>) \<or> arraykey (t\<lparr>flags := 0\<rparr>) k"
    using assms(3) by (simp add: room_def arraykey_def)
  from put_locate [OF _ assms(2) this, of full v] assms(1) show ?thesis
    by (simp add: put_with_def set_with_locate [OF assms(2)] stored_flags) blast
qed

lemma put_setnum_with:
  assumes "table_inv t" "0 < i" "i < 2 ^ 31" "room t \<or> arraykey t (TNumber (cast_num i))"
  shows "\<exists>t'. put_with (\<lambda>t. setnum_with full t i) v t = Ok t' \<and> stored t (TNumber (cast_num i)) v t'"
  using put_locate [OF assms(1) live_cast_num [OF assms(2,3)] assms(4), of full v]
  by (simp add: put_with_def setnum_with_locate [OF assms(2,3)]) blast

lemma int_key:
  assumes "i < MAXASIZE"
  shows "arrayindex (TNumber (cast_num (int i + 1))) = int i + 1" "live (TNumber (cast_num (int i + 1)))"
proof -
  have "int i + 1 < 2 ^ 31" using assms by (simp add: MAXASIZE_def MAXBITS_def)
  then show "arrayindex (TNumber (cast_num (int i + 1))) = int i + 1" "live (TNumber (cast_num (int i + 1)))"
    using arrayindex_int live_cast_num by simp_all
qed

lemma resize_ok:
  assumes inv: "table_inv t" and n: "n \<le> MAXASIZE" and h: "h \<le> MAXASIZE" and fit: "to_hash t n \<le> h"
  shows "\<exists>t'. resize_with full t n h = Ok t' \<and> table_inv t' \<and> length (array t') = n \<and> metatable t' = metatable t
    \<and> (\<forall>k. live k \<longrightarrow> content t' k = content t k)
    \<and> card (used (node t')) \<le> to_hash t n \<and> (dummy t' \<longleftrightarrow> h = 0) \<and> h \<le> length (node t')"
proof -
  define old where "old = length (array t)"
  note d = table_invD [OF inv]
  have old: "old \<le> MAXASIZE" using d(3) by (simp add: old_def)
  define t1 where "t1 = (if old < n then setarrayvector t n else t)"
  have t1: "array t1 = (if old < n then array t @ replicate (n - old) TNil else array t)" "metatable t1 = metatable t"
    by (simp_all add: t1_def setarrayvector_def old_def)
  have "length (array t1) \<le> MAXASIZE" using n old by (simp add: t1 old_def [symmetric])
  from setnodevector_ok [OF h this] obtain t2 where t2: "setnodevector t1 h = Ok t2" "table_inv t2"
    "array t2 = array t1" "metatable t2 = metatable t" "used (node t2) = {}" "\<And>k. lin_get (node t2) k = TNil"
    "dummy t2 \<longleftrightarrow> h = 0" "h \<le> length (node t2)"
    "\<And>i. i < length (node t2) \<Longrightarrow> i_key (node t2 ! i) = TNil"
    using t1(2) by auto
  define t3 where "t3 = t2\<lparr>array := take n (array t2)\<rparr>"
  have a3: "array t3 = take n (array t) @ replicate (n - old) TNil" by (simp add: t3_def t2 t1 old_def)
  have l3: "length (array t3) = n" by (simp add: a3 old_def [symmetric])
  have inv3: "table_inv t3"
    using t2(2) n unfolding table_inv_def t3_def
    by (auto simp: t2(9) live_def min_def arraykey_def)
  have f3: "metatable t3 = metatable t" "used (node t3) = {}" "dummy t3 \<longleftrightarrow> h = 0" "h \<le> length (node t3)"
    using t2 by (simp_all add: t3_def)
  have c3: "content t3 k = (if 0 < arrayindex k \<and> arrayindex k \<le> int (min n old)
      then array t ! nat (arrayindex k - 1) else TNil)" for k
  proof -
    have "lin_get (node t3) k = TNil" by (simp add: t3_def t2(6))
    then show ?thesis
      by (auto simp: content_def arraykey_def l3 a3 nth_append old_def [symmetric])
  qed
  \<comment> \<open>the vanishing slice\<close>
  define key1 where "key1 i = TNumber (cast_num (int i + 1))" for i :: nat
  define xs where "xs = (if n < old then [n..<old] else [])"
  have idx1: "arrayindex (key1 i) = int i + 1" "live (key1 i)" if "i < old" for i
    using int_key [of i] that old by (simp_all add: key1_def)
  have ck1: "content t (key1 i) = array t ! i" if "i < old" for i
    using idx1 [OF that] that by (simp add: content_def arraykey_def old_def)
  have n1: "length (filter (\<lambda>i. array t ! i \<noteq> TNil \<and> \<not> arraykey t3 (key1 i)) xs)
      = card (array_indices (array t) \<inter> {n<..})"
  proof -
    have "length (filter (\<lambda>i. array t ! i \<noteq> TNil \<and> \<not> arraykey t3 (key1 i)) xs)
        = card (set (filter (\<lambda>i. array t ! i \<noteq> TNil \<and> \<not> arraykey t3 (key1 i)) xs))"
      by (intro distinct_card [symmetric]) (simp add: xs_def)
    also have "\<dots> = card (Suc ` set (filter (\<lambda>i. array t ! i \<noteq> TNil \<and> \<not> arraykey t3 (key1 i)) xs))"
      by (intro card_image [symmetric]) simp
    also have "Suc ` set (filter (\<lambda>i. array t ! i \<noteq> TNil \<and> \<not> arraykey t3 (key1 i)) xs)
        = array_indices (array t) \<inter> {n<..}"
    proof (intro equalityI subsetI)
      fix j assume "j \<in> array_indices (array t) \<inter> {n<..}"
      then have j: "1 \<le> j" "j \<le> old" "n < j" "array t ! (j - 1) \<noteq> TNil" by (auto simp: array_indices_def old_def)
      then have "\<not> arraykey t3 (key1 (j - 1))" using idx1(1) [of "j - 1"] by (simp add: arraykey_def l3)
      then have "j - 1 \<in> set (filter (\<lambda>i. array t ! i \<noteq> TNil \<and> \<not> arraykey t3 (key1 i)) xs)" "j = Suc (j - 1)"
        using j by (auto simp: xs_def)
      then show "j \<in> Suc ` set (filter (\<lambda>i. array t ! i \<noteq> TNil \<and> \<not> arraykey t3 (key1 i)) xs)" by blast
    qed (auto simp: array_indices_def xs_def old_def split: if_splits)
    finally show ?thesis .
  qed
  define j1 where "j1 i t' = (if array t ! i \<noteq> TNil then put_with (\<lambda>t. setnum_with full t (int i + 1)) (array t ! i) t' else Ok t')" for i t'
  have crw: "\<And>a b. luaO_rawequalObj a b \<Longrightarrow> content t a = content t b" by (rule content_rawequal)
  have "\<exists>s'. each j1 xs t3 = Ok s' \<and> table_inv s' \<and> length (array s') = length (array t3)
    \<and> lsizenode s' = lsizenode t3 \<and> dummy s' = dummy t3 \<and> metatable s' = metatable t3
    \<and> card (used (node s')) \<le> card (used (node t3))
        + length (filter (\<lambda>x. array t ! x \<noteq> TNil \<and> \<not> arraykey t3 (key1 x)) xs)
    \<and> (\<forall>k. live k \<longrightarrow> content s' k =
          (if \<exists>x \<in> set xs. array t ! x \<noteq> TNil \<and> luaO_rawequalObj (key1 x) k then content t k else content t3 k))"
    unfolding j1_def
  proof (rule put_items [OF inv3 _ _ crw])
    fix x assume "x \<in> set xs"
    then have x: "x < old" by (simp add: xs_def split: if_splits)
    show "live (key1 x) \<and> content t (key1 x) = array t ! x" using idx1 ck1 x by simp
    show "\<exists>t'. put_with (\<lambda>t. setnum_with full t (int x + 1)) (array t ! x) s = Ok t' \<and> stored s (key1 x) (array t ! x) t'"
      if "table_inv s" "room s \<or> arraykey s (key1 x)" for s
      unfolding key1_def
      by (rule put_setnum_with) (use that x old in \<open>simp_all add: key1_def MAXASIZE_def MAXBITS_def\<close>)
  next
    show "card (used (node t3)) + length (filter (\<lambda>x. array t ! x \<noteq> TNil \<and> \<not> arraykey t3 (key1 x)) xs) \<le> length (node t3)"
      using n1 f3 fit by (simp add: to_hash_def)
    show "filter (\<lambda>x. array t ! x \<noteq> TNil \<and> \<not> arraykey t3 (key1 x)) xs = []" if "dummy t3"
      using that f3 fit n1 by (simp add: to_hash_def)
  qed
  then obtain s1 where s1: "each j1 xs t3 = Ok s1" "table_inv s1" "length (array s1) = n"
    "lsizenode s1 = lsizenode t3" "dummy s1 = dummy t3" "metatable s1 = metatable t"
    "card (used (node s1)) \<le> card (array_indices (array t) \<inter> {n<..})"
    "\<And>k. live k \<Longrightarrow> content s1 k =
       (if \<exists>x \<in> set xs. array t ! x \<noteq> TNil \<and> luaO_rawequalObj (key1 x) k then content t k else content t3 k)"
    unfolding n1 f3 l3 by auto
  have len1: "length (node s1) = length (node t3)"
    using table_invD(2) [OF s1(2)] table_invD(2) [OF inv3] s1(4) by (simp add: sizenode_def)
  \<comment> \<open>the old nodes\<close>
  define ns where "ns = node t"
  define ys where "ys = rev [0..<twoto (lsizenode t)]"
  define key2 where "key2 j = i_key (ns ! j)" for j
  define val2 where "val2 j = i_val (ns ! j)" for j
  have sy: "set ys = {..<length ns}" using d(2) by (auto simp: ys_def ns_def sizenode_def)
  have fy: "j \<in> filled ns" if "j \<in> set ys" "val2 j \<noteq> TNil" for j
    using that by (simp add: sy filled_def val2_def)
  have kv: "live (key2 j)" "content t (key2 j) = val2 j" if "j \<in> set ys" "val2 j \<noteq> TNil" for j
    using content_filled [OF inv, of j] fy [OF that] by (simp_all add: key2_def val2_def ns_def)
  have ak1: "arraykey s1 k \<longleftrightarrow> 0 < arrayindex k \<and> arrayindex k \<le> int n" for k
    by (simp add: arraykey_def s1(3))
  have n2: "length (filter (\<lambda>j. val2 j \<noteq> TNil \<and> \<not> arraykey s1 (key2 j)) ys)
      = card {j \<in> filled ns. \<not> (0 < arrayindex (key2 j) \<and> arrayindex (key2 j) \<le> int n)}"
  proof -
    have "length (filter (\<lambda>j. val2 j \<noteq> TNil \<and> \<not> arraykey s1 (key2 j)) ys)
        = card (set (filter (\<lambda>j. val2 j \<noteq> TNil \<and> \<not> arraykey s1 (key2 j)) ys))"
      by (intro distinct_card [symmetric]) (simp add: ys_def)
    also have "set (filter (\<lambda>j. val2 j \<noteq> TNil \<and> \<not> arraykey s1 (key2 j)) ys)
        = {j \<in> filled ns. \<not> (0 < arrayindex (key2 j) \<and> arrayindex (key2 j) \<le> int n)}"
      by (auto simp: sy filled_def ak1 val2_def)
    finally show ?thesis .
  qed
  have fit': "card (used (node s1)) + length (filter (\<lambda>j. val2 j \<noteq> TNil \<and> \<not> arraykey s1 (key2 j)) ys) \<le> to_hash t n"
    using s1(7) n2 by (simp add: to_hash_def key2_def ns_def)
  define j2 where "j2 j t' = (if val2 j \<noteq> TNil then put_with (\<lambda>t. set_with full t (key2 j)) (val2 j) t' else Ok t')" for j t'
  have "\<exists>s'. each j2 ys s1 = Ok s' \<and> table_inv s' \<and> length (array s') = length (array s1)
    \<and> lsizenode s' = lsizenode s1 \<and> dummy s' = dummy s1 \<and> metatable s' = metatable s1
    \<and> card (used (node s')) \<le> card (used (node s1))
        + length (filter (\<lambda>x. val2 x \<noteq> TNil \<and> \<not> arraykey s1 (key2 x)) ys)
    \<and> (\<forall>k. live k \<longrightarrow> content s' k =
          (if \<exists>x \<in> set ys. val2 x \<noteq> TNil \<and> luaO_rawequalObj (key2 x) k then content t k else content s1 k))"
    unfolding j2_def
  proof (rule put_items [OF s1(2) _ _ crw])
    fix x assume x: "x \<in> set ys" "val2 x \<noteq> TNil"
    show "live (key2 x) \<and> content t (key2 x) = val2 x" using kv x by simp
    show "\<exists>t'. put_with (\<lambda>t. set_with full t (key2 x)) (val2 x) s = Ok t' \<and> stored s (key2 x) (val2 x) t'"
      if "table_inv s" "room s \<or> arraykey s (key2 x)" for s
      by (rule put_set_with) (use that kv x in auto)
  next
    show "card (used (node s1)) + length (filter (\<lambda>x. val2 x \<noteq> TNil \<and> \<not> arraykey s1 (key2 x)) ys) \<le> length (node s1)"
      using fit' fit f3(4) len1 by linarith
    show "filter (\<lambda>x. val2 x \<noteq> TNil \<and> \<not> arraykey s1 (key2 x)) ys = []" if "dummy s1"
      using that fit' fit f3(3) s1(5) by simp
  qed
  then obtain s2 where s2: "each j2 ys s1 = Ok s2" "table_inv s2" "length (array s2) = n"
    "lsizenode s2 = lsizenode t3" "dummy s2 = dummy t3" "metatable s2 = metatable t"
    "card (used (node s2)) \<le> to_hash t n"
    "\<And>k. live k \<Longrightarrow> content s2 k =
       (if \<exists>x \<in> set ys. val2 x \<noteq> TNil \<and> luaO_rawequalObj (key2 x) k then content t k else content s1 k)"
    using s1 fit' by auto
  have cont: "content s2 k = content t k" if k: "live k" for k
  proof (cases "(\<exists>x \<in> set ys. val2 x \<noteq> TNil \<and> luaO_rawequalObj (key2 x) k)
      \<or> (\<exists>x \<in> set xs. array t ! x \<noteq> TNil \<and> luaO_rawequalObj (key1 x) k)")
    case True
    then show ?thesis using s2(8) [OF k] s1(8) [OF k] by auto
  next
    case False
    then have e: "content s2 k = content t3 k" using s2(8) [OF k] s1(8) [OF k] by (simp only: if_False) auto
    have hash: "content t k = TNil" if na: "\<not> arraykey t k"
    proof (rule ccontr)
      assume "content t k \<noteq> TNil"
      then obtain j where "j \<in> filled (node t)" "luaO_rawequalObj (i_key (node t ! j)) k"
        using content_in_hash [OF inv k na] by blast
      then show False using False by (auto simp: sy filled_def ns_def val2_def key2_def)
    qed
    show ?thesis
    proof (cases "arraykey t k")
      case ak: True
      define i where "i = nat (arrayindex k - 1)"
      have i: "i < old" "arrayindex k = int i + 1" using ak by (auto simp: i_def arraykey_def old_def)
      have ct: "content t k = array t ! i" using ak by (simp add: content_def i_def)
      have "luaO_rawequalObj (key1 i) k" using idx1(1) [OF i(1)] i(2) by (intro arrayindex_inj) auto
      then have "array t ! i = TNil" if "n \<le> i" using False that i(1) by (auto simp: xs_def)
      then show ?thesis using e ct i by (auto simp: c3)
    next
      case False
      then show ?thesis using e hash by (auto simp: c3 arraykey_def old_def)
    qed
  qed
  have "resize_with full t n h = Ok s2"
  proof -
    have e1: "(if n < old
        then each (\<lambda>i ta. if array t ! i \<noteq> TNil
              then put_with (\<lambda>t. setnum_with full t (int i + 1)) (array t ! i) ta else Ok ta)
            [n..<old] (t2\<lparr>array := take n (array t2)\<rparr>)
        else Ok t2) = Ok s1"
    proof (cases "n < old")
      case True
      then show ?thesis using s1(1) unfolding j1_def xs_def t3_def by simp
    next
      case False
      then have "array t2 = take n (array t2)" by (simp add: t2(3) t1 old_def [symmetric])
      then have "t3 = t2" unfolding t3_def by simp
      then show ?thesis using s1(1) False by (simp add: xs_def)
    qed
    show ?thesis
      unfolding resize_with_def Let_def old_def [symmetric] t1_def [symmetric] t2(1) bind_outcome.simps e1
      using s2(1) unfolding j2_def ys_def key2_def val2_def ns_def by simp
  qed
  moreover have "length (node s2) = length (node t3)"
    using table_invD(2) [OF s2(2)] table_invD(2) [OF inv3] s2(4) by (simp add: sizenode_def)
  ultimately show ?thesis using s2 cont f3 by auto
qed

section \<open>Rehashing\<close>

lemma to_hash_total:
  assumes inv: "table_inv t" and ek: "\<not> arraykey t ek"
    "\<And>i. i < length (node t) \<Longrightarrow> live (i_key (node t ! i)) \<Longrightarrow> \<not> luaO_rawequalObj (i_key (node t ! i)) ek"
    and n: "n \<le> MAXASIZE"
  shows "total_use t - card (all_indices t ek \<inter> {1..n})
    = to_hash t n + (if 0 < arrayindex ek \<and> arrayindex ek \<le> int n then 0 else 1)"
proof -
  note d = table_invD [OF inv]
  let ?A = "array_indices (array t)" and ?F = "filled (node t)"
  let ?idx = "\<lambda>j. arrayindex (i_key (node t ! j))"
  let ?in = "{j \<in> ?F. 0 < ?idx j \<and> ?idx j \<le> int n}"
  let ?out = "{j \<in> ?F. \<not> (0 < ?idx j \<and> ?idx j \<le> int n)}"
  let ?e = "key_index ek \<inter> {1..n}"
  have lv: "j < length (node t)" "live (i_key (node t ! j))" if "j \<in> ?F" for j
    using that keys_okD(3) [OF d(5), of j] by (auto simp: filled_def)
  have A: "card ?A = card (?A \<inter> {1..n}) + card (?A \<inter> {n<..})"
  proof -
    have "?A = (?A \<inter> {1..n}) \<union> (?A \<inter> {n<..})" by (auto simp: array_indices_def)
    then have "card ?A = card ((?A \<inter> {1..n}) \<union> (?A \<inter> {n<..}))" by simp
    also have "\<dots> = card (?A \<inter> {1..n}) + card (?A \<inter> {n<..})" by (intro card_Un_disjoint) auto
    finally show ?thesis .
  qed
  have F: "card ?F = card ?in + card ?out"
  proof -
    have "?F = ?in \<union> ?out" by auto
    then have "card ?F = card (?in \<union> ?out)" by simp
    also have "\<dots> = card ?in + card ?out" by (intro card_Un_disjoint) auto
    finally show ?thesis .
  qed
  have inj: "inj_on (\<lambda>j. nat (?idx j)) ?in"
  proof (rule inj_onI)
    fix a b assume a: "a \<in> ?in" "b \<in> ?in" "nat (?idx a) = nat (?idx b)"
    then have "luaO_rawequalObj (i_key (node t ! a)) (i_key (node t ! b))"
      by (intro arrayindex_inj) auto
    then show "a = b" using keys_okD(2) [OF d(5), of a b] lv a by blast
  qed
  have K: "(\<Union>j \<in> ?F. key_index (i_key (node t ! j))) \<inter> {1..n} = (\<lambda>j. nat (?idx j)) ` ?in"
  proof (intro equalityI subsetI)
    fix x assume "x \<in> (\<Union>j \<in> ?F. key_index (i_key (node t ! j))) \<inter> {1..n}"
    then obtain j where j: "j \<in> ?F" "0 < ?idx j" "x = nat (?idx j)" "x \<le> n"
      by (auto simp: key_index_def split: if_splits)
    then have "j \<in> ?in" by auto
    then show "x \<in> (\<lambda>j. nat (?idx j)) ` ?in" using j(3) by blast
  qed (use n in \<open>auto simp: key_index_def\<close>)
  have KA: "(\<Union>j \<in> ?F. key_index (i_key (node t ! j))) \<inter> ?A = {}"
    using key_index_array d(7) lv by blast
  have KE: "(\<Union>j \<in> ?F. key_index (i_key (node t ! j))) \<inter> key_index ek = {}"
    using key_index_disjoint ek(2) lv by blast
  have AE: "?A \<inter> key_index ek = {}" using key_index_array [OF ek(1)] by blast
  have "all_indices t ek \<inter> {1..n} = (?A \<inter> {1..n}) \<union> (\<lambda>j. nat (?idx j)) ` ?in \<union> ?e"
    unfolding all_indices_def K [symmetric] by blast
  also have "card \<dots> = card ((?A \<inter> {1..n}) \<union> (\<lambda>j. nat (?idx j)) ` ?in) + card ?e"
    unfolding K [symmetric] using KE AE by (intro card_Un_disjoint) (auto simp: K)
  also have "card ((?A \<inter> {1..n}) \<union> (\<lambda>j. nat (?idx j)) ` ?in) = card (?A \<inter> {1..n}) + card ?in"
  proof -
    have "(?A \<inter> {1..n}) \<inter> (\<lambda>j. nat (?idx j)) ` ?in = {}" unfolding K [symmetric] using KA by blast
    then show ?thesis by (simp add: card_Un_disjoint card_image [OF inj])
  qed
  finally have na: "card (all_indices t ek \<inter> {1..n}) = card (?A \<inter> {1..n}) + card ?in + card ?e" .
  have "card ?e = (if 0 < arrayindex ek \<and> arrayindex ek \<le> int n then 1 else 0)"
  proof (cases "0 < arrayindex ek \<and> arrayindex ek \<le> int n")
    case True
    then have "nat (arrayindex ek) \<in> {1..n}" by auto
    then have "{nat (arrayindex ek)} \<inter> {1..n} = {nat (arrayindex ek)}" by blast
    then show ?thesis using True n by (simp add: key_index_def del: One_nat_def)
  qed (auto simp: key_index_def)
  then show ?thesis unfolding total_use_def to_hash_def na A F by simp
qed

lemma setnodevector_overflow:
  assumes "MAXASIZE < sz" "sz < 2 ^ 32"
  shows "setnodevector t sz = RunError ''table overflow''"
proof -
  have u: "unat (word_of_nat sz :: u32) = sz" using assms(2) by (simp add: unat_of_nat)
  have "1 < (word_of_nat sz :: u32)" using assms(1) u by (simp add: word_less_nat_alt MAXASIZE_def MAXBITS_def)
  from ceillog2_least [OF this] have "sz \<le> 2 ^ nat (ceillog2 (word_of_nat sz))" unfolding u by blast
  moreover have "(2 :: nat) ^ nat (ceillog2 (word_of_nat sz)) \<le> 2 ^ MAXBITS"
    if "nat (ceillog2 (word_of_nat sz)) \<le> MAXBITS" using that by (intro power_increasing) auto
  ultimately have "MAXBITS < nat (ceillog2 (word_of_nat sz))"
    using assms(1) unfolding MAXASIZE_def by (meson leD le_less_trans not_less)
  then show ?thesis using assms(1) by (simp add: setnodevector_def Let_def)
qed

lemma total_use_bound:
  assumes "table_inv t"
  shows "total_use t \<le> 2 * MAXASIZE + 1"
proof -
  note d = table_invD [OF assms]
  have "card (array_indices (array t)) \<le> card {1..length (array t)}"
    by (intro card_mono) (auto simp: array_indices_def)
  then have "card (array_indices (array t)) \<le> MAXASIZE" using d(3) by simp
  moreover have "card (filled (node t)) \<le> MAXASIZE"
  proof -
    have "card (filled (node t)) \<le> card {..<length (node t)}"
      by (intro card_mono) (auto simp: filled_def)
    also have "\<dots> = 2 ^ lsizenode t" using d(2) by (simp add: sizenode_def twoto_def)
    also have "\<dots> \<le> MAXASIZE" unfolding MAXASIZE_def using d(1) by (intro power_increasing) auto
    finally show ?thesis .
  qed
  ultimately show ?thesis by (simp add: total_use_def)
qed

text \<open>
  \<open>assigns t k t' s\<close>: as \<open>points\<close>, but the table may have been rehashed in between.
\<close>

definition assigns :: "Table \<Rightarrow> TValue \<Rightarrow> Table \<Rightarrow> slot \<Rightarrow> bool" where
  "assigns t k t' s \<longleftrightarrow> table_inv t' \<and> slot_val t' s = content t k \<and> metatable t' = metatable t
     \<and> (\<forall>v. table_inv (put_slot t' s v) \<and> metatable (put_slot t' s v) = metatable t
          \<and> (\<forall>k'. live k' \<longrightarrow> content (put_slot t' s v) k' = (if luaO_rawequalObj k k' then v else content t k')))"

lemma points_assigns: "points t k t' s \<Longrightarrow> assigns t k t' s"
proof -
  assume p: "points t k t' s"
  then have "metatable (put_slot t' s v) = metatable t" for v unfolding points_def by blast
  then have "metatable t' = metatable t" by simp
  then show ?thesis using p unfolding points_def assigns_def by blast
qed

lemma full_at_Suc:
  assumes inv: "table_inv t" and k: "live k" "\<not> arraykey t k" "fresh (node t) k"
  shows "(\<exists>t' s. full_at (Suc d) t k = Ok (t', s) \<and> assigns t k t' s \<and> flags t' = 0)
    \<or> full_at (Suc d) t k = RunError ''table overflow'' \<and> MAXASIZE < total_use t"
proof -
  have nk: "\<And>i. i < length (node t) \<Longrightarrow> live (i_key (node t ! i)) \<Longrightarrow> \<not> luaO_rawequalObj (i_key (node t ! i)) k"
    using k(3) by (simp add: fresh_def)
  obtain n where n: "rehash_sizes t k = (n, total_use t - card (all_indices t k \<inter> {1..n}))" "n \<le> MAXASIZE"
    using rehash_sizes_ok [OF inv k(2) nk] by blast
  define e :: nat where "e = (if 0 < arrayindex k \<and> arrayindex k \<le> int n then 0 else 1)"
  define h where "h = to_hash t n + e"
  have sz: "rehash_sizes t k = (n, h)"
    using n(1) to_hash_total [OF inv k(2) nk n(2)] by (simp add: h_def e_def)
  show ?thesis
  proof (cases "h \<le> MAXASIZE")
    case False
    have "h \<le> total_use t" using n(1) sz by simp
    then have "h < 2 ^ 32" using total_use_bound [OF inv] by (simp add: MAXASIZE_def MAXBITS_def)
    then have "rehash_with (full_at d) t k = RunError ''table overflow''"
      using setnodevector_overflow [of h] False
      by (simp add: rehash_with_def sz resize_with_def Let_def)
    then show ?thesis using False \<open>h \<le> total_use t\<close> by simp
  next
    case True
    obtain t1 where t1: "resize_with (full_at d) t n h = Ok t1" "table_inv t1" "length (array t1) = n"
      "metatable t1 = metatable t" "\<And>k'. live k' \<Longrightarrow> content t1 k' = content t k'"
      "card (used (node t1)) \<le> to_hash t n" "dummy t1 \<longleftrightarrow> h = 0" "h \<le> length (node t1)"
      using resize_ok [OF inv n(2) True, of "full_at d"] by (auto simp: h_def)
    define t2 where "t2 = t1\<lparr>flags := 0\<rparr>"
    have t2: "table_inv t2" "metatable t2 = metatable t" "content t2 = content t1"
      using t1 by (simp_all add: t2_def)
    have room: "\<not> no_room t2" if "\<not> arraykey t2 k"
    proof -
      have "e = 1" using that t1(3) by (auto simp: e_def arraykey_def t2_def)
      then have "room t2" using t1 by (simp add: room_def t2_def h_def)
      then show ?thesis by (rule room_no_room)
    qed
    have f: "full_at (Suc d) t k = locate (full_at d) t2 k"
      using t1(1) by (simp add: rehash_with_def sz set_with_locate [OF k(1)] t2_def)
    from t2(1) k(1) show ?thesis
    proof (cases rule: locate_cases [of t2 k "full_at d"])
      case (ok t' s)
      then have "assigns t2 k t' s" by (intro points_assigns)
      then have "assigns t k t' s"
        using t2 t1(5) k(1) unfolding assigns_def by auto
      then show ?thesis using ok f by (simp add: t2_def)
    next
      case (full lf)
      then show ?thesis using room by blast
    qed
  qed
qed

lemma table_inv_lastfree:
  assumes "table_inv t" "no_room t" "lf < 0"
  shows "table_inv (t\<lparr>lastfree := lf\<rparr>)" "content (t\<lparr>lastfree := lf\<rparr>) = content t"
proof -
  show "table_inv (t\<lparr>lastfree := lf\<rparr>)"
    using assms unfolding table_inv_def no_room_def by (auto simp: arraykey_def used_def)
  show "content (t\<lparr>lastfree := lf\<rparr>) = content t"
    by (rule ext) (simp add: content_def arraykey_def)
qed

lemma locate_full:
  assumes inv: "table_inv t" and k: "live k"
  shows "(\<exists>t' s. locate (full_at (Suc d)) t k = Ok (t', s) \<and> assigns t k t' s \<and> (flags t' = flags t \<or> flags t' = 0))
    \<or> locate (full_at (Suc d)) t k = RunError ''table overflow'' \<and> MAXASIZE < total_use t"
  using inv k
proof (cases rule: locate_cases [of t k "full_at (Suc d)"])
  case (ok t' s)
  then show ?thesis using points_assigns by blast
next
  case (full lf)
  define t1 where "t1 = t\<lparr>lastfree := lf\<rparr>"
  have t1: "table_inv t1" "content t1 = content t" "metatable t1 = metatable t" "\<not> arraykey t1 k" "fresh (node t1) k"
    using table_inv_lastfree [OF inv full(1,2)] full by (simp_all add: t1_def arraykey_def)
  have "assigns t1 k t' s \<Longrightarrow> assigns t k t' s" for t' s
    using t1 by (simp add: assigns_def)
  moreover have "total_use t1 = total_use t" by (simp add: t1_def total_use_def)
  ultimately show ?thesis
    using full_at_Suc [OF t1(1) k t1(4,5), of d] full(6) unfolding t1_def [symmetric] by auto
qed

lemma luaH_set_core:
  assumes "table_inv t" "live k"
  shows "(\<exists>t' s. luaH_set t k = Ok (t', s) \<and> assigns t k t' s \<and> flags t' = 0)
    \<or> luaH_set t k = RunError ''table overflow'' \<and> MAXASIZE < total_use t"
proof -
  have "assigns (t\<lparr>flags := 0\<rparr>) k t' s = assigns t k t' s" for t' s
    by (simp add: assigns_def)
  moreover have "total_use (t\<lparr>flags := 0\<rparr>) = total_use t" by (simp add: total_use_def)
  ultimately show ?thesis
    using locate_full [of "t\<lparr>flags := 0\<rparr>" k 0] assms
    by (simp add: luaH_set_def set_with_locate)
qed

text \<open>
  Property C1. \<open>luaH_set\<close> on any table and any key that may be stored (not nil, not NaN)
  either raises ''table overflow'', which takes a table of at least 2^26 values, or returns the place of the key: the place holds what
  the table held under the key, and storing any value there changes what the table holds
  under that key and under no other, keeps the invariant and the metatable. In particular
  it always returns, although it calls \<open>rehash\<close>, which calls \<open>luaH_set\<close> again: the table
  that a rehash builds never has to be rehashed while it is filled.
\<close>

theorem luaH_set_correct:
  assumes "table_inv t" "live k"
  shows "(\<exists>t' s. luaH_set t k = Ok (t', s) \<and> flags t' = 0 \<and> table_inv t' \<and> slot_val t' s = content t k
      \<and> (\<forall>v. table_inv (put_slot t' s v) \<and> metatable (put_slot t' s v) = metatable t
           \<and> (\<forall>k'. live k' \<longrightarrow>
                content (put_slot t' s v) k' = (if luaO_rawequalObj k k' then v else content t k'))))
    \<or> luaH_set t k = RunError ''table overflow'' \<and> MAXASIZE < total_use t"
  using luaH_set_core [OF assms] unfolding assigns_def by blast

lemma luaH_set_nil: "table_inv t \<Longrightarrow> luaH_set t TNil = RunError ''table index is nil''"
  by (simp add: luaH_set_def set_with_def Let_def luaH_get_def)

lemma luaH_set_nan:
  assumes "table_inv t" "num_nan n"
  shows "luaH_set t (TNumber n) = RunError ''table index is NaN''"
proof -
  have nan: "\<not> live (TNumber n)" using assms(2) by (simp add: live_def)
  have "luaH_get t (TNumber n) = Absent"
  proof (rule luaH_get_cases [OF assms(1), of "TNumber n"])
    assume "arraykey t (TNumber n)"
    then have "luai_numeq (cast_num (arrayindex (TNumber n))) n"
      using arrayindex_number [of "TNumber n"] by (auto simp: arraykey_def)
    then show ?thesis using assms(2) by (simp add: luai_numeq_def)
  qed (use nan in simp_all)
  then show ?thesis
    using assms(2) by (simp add: luaH_set_def set_with_def Let_def luai_numisnan_iff)
qed

text \<open>
  The two keys that may not be stored raise the errors the manual documents,
  and leave the table as it is.
\<close>

theorem luaH_set_errors:
  assumes "table_inv t" "num_nan n"
  shows "luaH_set t TNil = RunError ''table index is nil''
    \<and> luaH_set t (TNumber n) = RunError ''table index is NaN''"
  using luaH_set_nil [OF assms(1)] luaH_set_nan [OF assms] by blast

section \<open>Witnesses\<close>

definition new_table :: Table where
  "new_table = \<lparr>flags = - 1, metatable = None, lsizenode = 0, array = [],
     node = [dummynode], dummy = True, lastfree = 0\<rparr>"

text \<open>
  \<open>luaH_new\<close> with any size hints up to the maximum returns an empty table that
  satisfies the invariant.
\<close>

theorem luaH_new_inv:
  assumes "narray \<le> MAXASIZE" "nhash \<le> MAXASIZE"
  shows "\<exists>t. luaH_new narray nhash = Ok t \<and> table_inv t \<and> (\<forall>k. content t k = TNil)
    \<and> length (array t) = narray \<and> metatable t = None"
proof -
  define t0 where "t0 = setarrayvector new_table narray"
  have t0: "array t0 = replicate narray TNil" "metatable t0 = None"
    by (simp_all add: t0_def setarrayvector_def new_table_def)
  have "length (array t0) \<le> MAXASIZE" using assms(1) by (simp add: t0)
  from setnodevector_ok [OF assms(2) this] obtain t where t: "setnodevector t0 nhash = Ok t" "table_inv t"
    "array t = array t0" "metatable t = None" "\<And>k. lin_get (node t) k = TNil"
    using t0(2) by auto
  have "content t k = TNil" for k
    using t(5) by (auto simp: content_def t(3) t0 arraykey_def)
  then show ?thesis
    using t t0 by (intro exI [of _ t]) (simp add: luaH_new_def t0_def [symmetric] new_table_def [symmetric])
qed

lemma new_table_inv: "table_inv new_table"
proof -
  have "\<forall>i < length (node new_table). node new_table ! i = \<lparr>i_val = TNil, i_key = TNil, i_next = None\<rparr>"
    by (simp add: new_table_def dummynode_def)
  note e = empty_vector(1,2) [OF this]
  show ?thesis
    unfolding table_inv_def using e(1) e(2) [of "mainposition new_table"]
    by (simp add: new_table_def sizenode_def twoto_def dummynode_def live_def)
qed

theorem luaH_new_inv_witness:
  "\<exists>t. luaH_new 4 2 = Ok t \<and> table_inv t \<and> (\<forall>k. content t k = TNil)
    \<and> length (array t) = 4 \<and> metatable t = None"
  by (rule luaH_new_inv) (simp_all add: MAXASIZE_def MAXBITS_def)

theorem luaH_set_errors_witness:
  "luaH_set new_table TNil = RunError ''table index is nil''
    \<and> luaH_set new_table (TNumber (2 ^ 63 - 1)) = RunError ''table index is NaN''"
  by (rule luaH_set_errors [OF new_table_inv]) (simp add: num_nan_def num_exp_def num_man_def)

theorem luaH_set_correct_witness:
  "(\<exists>t' s. luaH_set new_table (TString [65]) = Ok (t', s) \<and> flags t' = 0 \<and> table_inv t'
      \<and> slot_val t' s = content new_table (TString [65])
      \<and> (\<forall>v. table_inv (put_slot t' s v) \<and> metatable (put_slot t' s v) = metatable new_table
           \<and> (\<forall>k'. live k' \<longrightarrow> content (put_slot t' s v) k' =
                (if luaO_rawequalObj (TString [65]) k' then v else content new_table k'))))
    \<or> luaH_set new_table (TString [65]) = RunError ''table overflow'' \<and> MAXASIZE < total_use new_table"
  by (rule luaH_set_correct [OF new_table_inv]) (simp add: live_def)

text \<open>
  Property C2. Looking a key up by its hash finds what a linear search of the table finds,
  for every key of every type (nil and NaN among them), and the walk along the chain ends:
  the two-part representation, the choice of the specialised search for integers and
  strings, and the collisions are not observable.
\<close>

theorem luaH_get_linear:
  assumes "table_inv t" "\<forall>p. k \<noteq> TDeadKey p"
  shows "luaH_get t k \<noteq> Endless \<and> lookup_val t (luaH_get t k) = content t k"
  using assms by (rule luaH_get_linear_core)

theorem luaH_get_linear_witness:
  "luaH_get new_table (TString [65]) \<noteq> Endless
    \<and> lookup_val new_table (luaH_get new_table (TString [65])) = content new_table (TString [65])"
  by (rule luaH_get_linear [OF new_table_inv]) simp

end
