(* ===== verification/Traverse.thy ===== *)
theory Traverse
  imports Rehash
begin

text \<open>
  Traversal with \<open>luaH_next\<close> and the length operator \<open>luaH_getn\<close>.
\<close>

section \<open>Traversal\<close>

text \<open>All pairs of a table in the order of the traversal.\<close>

definition array_pairs :: "Table \<Rightarrow> (TValue \<times> TValue) list" where
  "array_pairs t = map (\<lambda>i. (TNumber (cast_num (int i + 1)), array t ! i))
     (filter (\<lambda>i. array t ! i \<noteq> TNil) [0..<length (array t)])"

definition node_pairs :: "Table \<Rightarrow> (TValue \<times> TValue) list" where
  "node_pairs t = map (\<lambda>j. (i_key (node t ! j), i_val (node t ! j)))
     (filter (\<lambda>j. i_val (node t ! j) \<noteq> TNil) [0..<sizenode t])"

definition pairs :: "Table \<Rightarrow> (TValue \<times> TValue) list" where
  "pairs t = array_pairs t @ node_pairs t"

text \<open>No dead key still points to where a key with a value now is.\<close>

definition no_reuse :: "(TValue \<Rightarrow> u64) \<Rightarrow> Table \<Rightarrow> bool" where
  "no_reuse gcvalue t \<longleftrightarrow> (\<forall>i \<in> filled (node t). \<forall>j < length (node t). \<forall>p.
     i_key (node t ! j) = TDeadKey p \<longrightarrow> iscollectable (i_key (node t ! i)) \<longrightarrow> p \<noteq> gcvalue (i_key (node t ! i)))"

text \<open>The first index with a property, and where a filtered range goes on from an element.\<close>

lemma first_index_drop:
  "first_index p i n = (case filter p [i..<n] of [] \<Rightarrow> None | j # _ \<Rightarrow> Some j)"
proof -
  have "List.find p xs = (case filter p xs of [] \<Rightarrow> None | j # _ \<Rightarrow> Some j)" for xs
    by (induction xs) auto
  then show ?thesis by (simp add: first_index_def)
qed

lemma filter_upt_split:
  assumes "k < length (filter p [a..<n])"
  shows "filter p [Suc (filter p [a..<n] ! k)..<n] = drop (Suc k) (filter p [a..<n])"
  using assms
proof (induction "n - a" arbitrary: a k)
  case (Suc d)
  then have a: "a < n" by simp
  then have u: "[a..<n] = a # [Suc a..<n]" by (rule upt_conv_Cons)
  show ?case
  proof (cases "p a")
    case pa: True
    show ?thesis
    proof (cases k)
      case 0
      then show ?thesis using pa u by simp
    next
      case (Suc k')
      then show ?thesis using Suc.hyps(1) [of "Suc a" k'] Suc.hyps(2) Suc.prems pa u a by simp
    qed
  next
    case False
    then show ?thesis using Suc.hyps(1) [of "Suc a" k] Suc.hyps(2) Suc.prems u a by simp
  qed
qed simp

lemma search_cong:
  assumes "table_inv t" "n < length (node t)"
    and "\<And>i. i < length (node t) \<Longrightarrow> p (i_key (node t ! i)) = q (i_key (node t ! i))"
  shows "search p t n = search q t n"
proof -
  obtain xs where xs: "chain (node t) n xs" using links_okD(1) [OF table_invD(4) [OF assms(1)] assms(2)] ..
  have "List.find (\<lambda>i. p (i_key (node t ! i))) xs = List.find (\<lambda>i. q (i_key (node t ! i))) xs"
    using assms(3) chain_set_less [OF xs] by (intro find_cong) auto
  then show ?thesis
    unfolding search_def using chain_search_find [OF xs chain_length [OF xs]] by simp
qed

lemma findindex_array:
  assumes "table_inv t" "i < length (array t)"
  shows "findindex gc t (TNumber (cast_num (int i + 1))) = Ok (int i)"
proof -
  have "i < MAXASIZE" using assms(2) table_invD(3) [OF assms(1)] by simp
  from int_key(1) [OF this] show ?thesis using assms(2) by (simp add: findindex_def Let_def)
qed

lemma findindex_node:
  assumes inv: "table_inv t" and j: "j \<in> filled (node t)" and nr: "no_reuse gc t"
  shows "findindex gc t (i_key (node t ! j)) = Ok (int j + int (length (array t)))"
proof -
  let ?k = "i_key (node t ! j)"
  have jl: "j < length (node t)" using j by (simp add: filled_def)
  have k: "live ?k" using content_filled(1) [OF inv j] .
  have na: "\<not> arraykey t ?k" using table_invD(7) [OF inv jl k] .
  let ?p = "\<lambda>a. luaO_rawequalObj a ?k \<or> (case a of TDeadKey p \<Rightarrow> iscollectable ?k \<and> p = gc ?k | _ \<Rightarrow> False)"
  have "search ?p t (mainposition t ?k) = search (\<lambda>a. luaO_rawequalObj a ?k) t (mainposition t ?k)"
  proof (rule search_cong [OF inv table_invD(10) [OF inv]])
    fix i assume i: "i < length (node t)"
    show "?p (i_key (node t ! i)) = luaO_rawequalObj (i_key (node t ! i)) ?k"
      using nr i j unfolding no_reuse_def by (cases "i_key (node t ! i)") auto
  qed
  also have "\<dots> = At (NodeSlot j)" by (rule search_hit [OF inv k jl live_refl [OF k]]) simp
  finally show ?thesis
    using na live_not_nil [OF k] by (simp add: findindex_def Let_def arraykey_def)
qed

text \<open>What comes after a position, in terms of the two filtered ranges.\<close>

lemma luaH_next_at:
  assumes "findindex gc t k = Ok i" "- 1 \<le> i" "table_inv t"
  shows "luaH_next gc t k =
    (case map (\<lambda>i. (TNumber (cast_num (int i + 1)), array t ! i)) (filter (\<lambda>i. array t ! i \<noteq> TNil) [nat (i + 1)..<length (array t)])
        @ map (\<lambda>j. (i_key (node t ! j), i_val (node t ! j)))
            (filter (\<lambda>j. i_val (node t ! j) \<noteq> TNil) [nat (i + 1) - length (array t)..<sizenode t])
     of [] \<Rightarrow> Ok None | p # _ \<Rightarrow> Ok (Some p))"
  unfolding luaH_next_def assms(1) bind_outcome.simps Let_def first_index_drop
  by (auto simp: max_def split: list.split)

lemma luaH_next_step:
  assumes inv: "table_inv t" and nr: "no_reuse gc t" and i: "i \<le> length (pairs t)"
  shows "luaH_next gc t (if i = 0 then TNil else fst (pairs t ! (i - 1))) =
    Ok (if i < length (pairs t) then Some (pairs t ! i) else None)"
proof -
  let ?A = "filter (\<lambda>i. array t ! i \<noteq> TNil) [0..<length (array t)]"
  let ?N = "filter (\<lambda>j. i_val (node t ! j) \<noteq> TNil) [0..<sizenode t]"
  let ?fa = "\<lambda>i. (TNumber (cast_num (int i + 1)), array t ! i)"
  let ?fn = "\<lambda>j. (i_key (node t ! j), i_val (node t ! j))"
  have pairs: "pairs t = map ?fa ?A @ map ?fn ?N" by (simp add: pairs_def array_pairs_def node_pairs_def)
  define k where "k = (if i = 0 then TNil else fst (pairs t ! (i - 1)))"
  have nx: "luaH_next gc t k = (case drop i (pairs t) of [] \<Rightarrow> Ok None | p # _ \<Rightarrow> Ok (Some p))"
  proof (cases "i = 0")
    case True
    then have "findindex gc t k = Ok (- 1)" by (simp add: k_def findindex_def)
    from luaH_next_at [OF this _ inv] show ?thesis using True by (simp add: pairs)
  next
    case i0: False
    show ?thesis
    proof (cases "i - 1 < length ?A")
      case True
      define a where "a = ?A ! (i - 1)"
      have "a \<in> set ?A" using nth_mem [OF True] by (simp add: a_def)
      then have a: "a < length (array t)" by simp
      have "k = TNumber (cast_num (int a + 1))" using i0 True by (simp add: k_def pairs nth_append a_def)
      then have "findindex gc t k = Ok (int a)" using findindex_array [OF inv a] by simp
      from luaH_next_at [OF this _ inv]
      have "luaH_next gc t k = (case map ?fa (filter (\<lambda>i. array t ! i \<noteq> TNil) [Suc a..<length (array t)]) @ map ?fn ?N
          of [] \<Rightarrow> Ok None | p # _ \<Rightarrow> Ok (Some p))"
        using a by (simp add: nat_add_distrib)
      also have "filter (\<lambda>i. array t ! i \<noteq> TNil) [Suc a..<length (array t)] = drop i ?A"
        using filter_upt_split [OF True] i0 by (simp add: a_def)
      also have "map ?fa (drop i ?A) @ map ?fn ?N = drop i (pairs t)"
        using True i0 by (simp add: pairs drop_map)
      finally show ?thesis .
    next
      case False
      define b where "b = i - 1 - length ?A"
      have b: "b < length ?N" using False i i0 by (simp add: b_def pairs)
      define j where "j = ?N ! b"
      have "j \<in> set ?N" using nth_mem [OF b] by (simp add: j_def)
      then have j: "j \<in> filled (node t)" using table_invD(2) [OF inv] by (simp add: filled_def)
      have "k = i_key (node t ! j)" using i0 False b by (simp add: k_def pairs nth_append j_def b_def)
      then have "findindex gc t k = Ok (int j + int (length (array t)))" using findindex_node [OF inv j nr] by simp
      from luaH_next_at [OF this _ inv]
      have "luaH_next gc t k = (case map ?fn (filter (\<lambda>j. i_val (node t ! j) \<noteq> TNil) [Suc j..<sizenode t])
          of [] \<Rightarrow> Ok None | p # _ \<Rightarrow> Ok (Some p))"
        by (simp add: nat_add_distrib)
      also have "filter (\<lambda>j. i_val (node t ! j) \<noteq> TNil) [Suc j..<sizenode t] = drop (Suc b) ?N"
        using filter_upt_split [OF b] by (simp add: j_def)
      also have "map ?fn (drop (Suc b) ?N) = drop i (pairs t)"
      proof -
        have "i = length (map ?fa ?A) + Suc b" using False i0 by (simp add: b_def)
        then show ?thesis unfolding pairs by (simp add: drop_map)
      qed
      finally show ?thesis .
    qed
  qed
  show ?thesis
  proof (cases "i < length (pairs t)")
    case True
    then have "drop i (pairs t) = pairs t ! i # drop (Suc i) (pairs t)" by (simp add: Cons_nth_drop_Suc)
    then show ?thesis using nx True by (simp add: k_def)
  qed (use nx i in \<open>simp add: k_def\<close>)
qed

lemma pairs_content:
  assumes inv: "table_inv t" and k: "live k"
  shows "(\<exists>k'. luaO_rawequalObj k' k \<and> (k', v) \<in> set (pairs t)) \<longleftrightarrow> content t k = v \<and> v \<noteq> TNil"
proof
  assume "\<exists>k'. luaO_rawequalObj k' k \<and> (k', v) \<in> set (pairs t)"
  then obtain k' where k': "luaO_rawequalObj k' k" "(k', v) \<in> set (pairs t)" by blast
  from k'(2) consider
      (arr) i where "i < length (array t)" "k' = TNumber (cast_num (int i + 1))" "v = array t ! i" "v \<noteq> TNil"
    | (nod) j where "j \<in> filled (node t)" "k' = i_key (node t ! j)" "v = i_val (node t ! j)"
    using table_invD(2) [OF inv] by (auto simp: pairs_def array_pairs_def node_pairs_def filled_def)
  then have "content t k' = v \<and> v \<noteq> TNil"
  proof cases
    case arr
    then have "arrayindex k' = int i + 1" using int_key(1) [of i] table_invD(3) [OF inv] by simp
    then show ?thesis using arr by (simp add: content_def arraykey_def)
  next
    case nod
    then show ?thesis using content_filled(2) [OF inv] by (simp add: filled_def)
  qed
  then show "content t k = v \<and> v \<noteq> TNil" using content_rawequal [OF k'(1)] by simp
next
  assume v: "content t k = v \<and> v \<noteq> TNil"
  show "\<exists>k'. luaO_rawequalObj k' k \<and> (k', v) \<in> set (pairs t)"
  proof (cases "arraykey t k")
    case True
    define i where "i = nat (arrayindex k - 1)"
    have i: "i < length (array t)" "arrayindex k = int i + 1" using True by (auto simp: i_def arraykey_def)
    have "arrayindex (TNumber (cast_num (int i + 1))) = int i + 1"
      using int_key(1) [of i] table_invD(3) [OF inv] i(1) by simp
    then have "luaO_rawequalObj (TNumber (cast_num (int i + 1))) k" using i(2) by (intro arrayindex_inj) auto
    moreover have "v = array t ! i" using v True by (simp add: content_def i_def)
    ultimately show ?thesis using i(1) v by (auto simp: pairs_def array_pairs_def)
  next
    case False
    then obtain j where j: "j \<in> filled (node t)" "luaO_rawequalObj (i_key (node t ! j)) k"
      using content_in_hash [OF inv k False] v by blast
    then have "i_val (node t ! j) = v"
      using content_filled(2) [OF inv j(1)] content_rawequal [OF j(2)] v by simp
    then show ?thesis using j table_invD(2) [OF inv] by (auto simp: pairs_def node_pairs_def filled_def)
  qed
qed

lemma sorted_filter_upt: "sorted_wrt (<) (filter p [a..<n])"
  by (intro sorted_wrt_filter) simp

lemma pairs_distinct:
  assumes inv: "table_inv t"
  shows "sorted_wrt (\<lambda>a b. \<not> luaO_rawequalObj (fst a) (fst b)) (pairs t)"
proof -
  have A: "arrayindex (TNumber (cast_num (int i + 1))) = int i + 1" if "i < length (array t)" for i
    using int_key(1) [of i] that table_invD(3) [OF inv] by simp
  have N: "j < length (node t)" "live (i_key (node t ! j))" "\<not> arraykey t (i_key (node t ! j))"
    if "j < sizenode t" "i_val (node t ! j) \<noteq> TNil" for j
    using that content_filled(1) [OF inv, of j] table_invD(2,7) [OF inv] by (auto simp: filled_def)
  have "sorted_wrt (\<lambda>a b. \<not> luaO_rawequalObj (fst a) (fst b)) (array_pairs t)"
    unfolding array_pairs_def sorted_wrt_map fst_conv
    by (rule sorted_wrt_mono_rel [OF _ sorted_filter_upt]) (use A arrayindex_rawequal in fastforce)
  moreover have "sorted_wrt (\<lambda>a b. \<not> luaO_rawequalObj (fst a) (fst b)) (node_pairs t)"
    unfolding node_pairs_def sorted_wrt_map fst_conv
  proof (rule sorted_wrt_mono_rel [OF _ sorted_filter_upt])
    fix i j assume "i \<in> set (filter (\<lambda>j. i_val (node t ! j) \<noteq> TNil) [0..<sizenode t])"
      "j \<in> set (filter (\<lambda>j. i_val (node t ! j) \<noteq> TNil) [0..<sizenode t])" "i < j"
    then show "\<not> luaO_rawequalObj (i_key (node t ! i)) (i_key (node t ! j))"
      using N [of i] N [of j] keys_okD(2) [OF table_invD(5) [OF inv], of i j] by auto
  qed
  moreover have "\<not> luaO_rawequalObj (fst a) (fst b)" if "a \<in> set (array_pairs t)" "b \<in> set (node_pairs t)" for a b
    using that A N arrayindex_rawequal unfolding array_pairs_def node_pairs_def arraykey_def by fastforce
  ultimately show ?thesis by (simp add: pairs_def sorted_wrt_append)
qed

text \<open>
  Property C3. A \<open>next\<close> traversal is complete and ends: started from nil and given each key
  it returned, \<open>luaH_next\<close> returns the pairs of the table one after the other, each exactly
  once and none that is nil, then reports the end. A pair is visited iff the table holds
  its value under its key, and no two visited keys are equal.
\<close>

theorem luaH_next_traversal:
  assumes "table_inv t" "no_reuse gcvalue t"
  shows "(\<forall>i \<le> length (pairs t).
      luaH_next gcvalue t (if i = 0 then TNil else fst (pairs t ! (i - 1)))
        = Ok (if i < length (pairs t) then Some (pairs t ! i) else None))
    \<and> (\<forall>k v. live k \<longrightarrow>
        (\<exists>k'. luaO_rawequalObj k' k \<and> (k', v) \<in> set (pairs t)) = (content t k = v \<and> v \<noteq> TNil))
    \<and> sorted_wrt (\<lambda>a b. \<not> luaO_rawequalObj (fst a) (fst b)) (pairs t)"
  using luaH_next_step [OF assms] pairs_content [OF assms(1)] pairs_distinct [OF assms(1)] by blast

definition one_slot :: Table where
  "one_slot = new_table\<lparr>array := [TBoolean True]\<rparr>"

lemma one_slot_inv: "table_inv one_slot"
proof -
  note d = table_invD [OF new_table_inv]
  have size: "sizenode new_table = 1" by (simp add: new_table_def sizenode_def twoto_def)
  have dum: "dummy new_table" "node new_table = [dummynode]" "\<not> live (i_key dummynode)"
    by (simp_all add: new_table_def dummynode_def live_def)
  show ?thesis
    unfolding table_inv_def one_slot_def
    using d(1,2,4-6) d(8) dum size by (simp add: MAXASIZE_def)
qed

theorem luaH_next_traversal_witness:
  "luaH_next (\<lambda>_. 0) one_slot TNil = Ok (Some (TNumber (cast_num 1), TBoolean True))"
proof -
  have p: "pairs one_slot = [(TNumber (cast_num 1), TBoolean True)]"
    by (simp add: pairs_def array_pairs_def node_pairs_def one_slot_def new_table_def dummynode_def
        sizenode_def twoto_def)
  have "no_reuse (\<lambda>_. 0) one_slot"
    by (simp add: no_reuse_def one_slot_def new_table_def filled_def dummynode_def)
  from luaH_next_traversal [OF one_slot_inv this] show ?thesis
    by (elim conjE allE [of _ 0]) (simp add: p)
qed

section \<open>Length\<close>

definition int_content :: "Table \<Rightarrow> nat \<Rightarrow> TValue" where
  "int_content t i = content t (TNumber (cast_num (int i)))"

lemma absent_content:
  assumes inv: "table_inv t" and i: "0 < i" "i < 2 ^ 31"
  shows "absent t i \<longleftrightarrow> int_content t i = TNil"
proof -
  have i': "0 < int i" "int i < 2 ^ 31" using i by simp_all
  let ?k = "TNumber (cast_num (int i))"
  have "luaH_get t ?k = luaH_getnum t (int i)"
    using number2int_cast_num [of "int i"] cast_num_not_nan [of "int i"] i'
    by (simp add: luaH_get_def Let_def numeq_refl)
  moreover have "lookup_val t (luaH_get t ?k) = content t ?k"
    by (rule luaH_get_linear_core [OF inv, THEN conjunct2]) simp
  ultimately show ?thesis by (simp add: absent_def int_content_def)
qed

lemma int_content_array: "table_inv t \<Longrightarrow> 0 < i \<Longrightarrow> i \<le> length (array t) \<Longrightarrow> int_content t i = array t ! (i - 1)"
proof -
  assume a: "table_inv t" "0 < i" "i \<le> length (array t)"
  then have "i < 2 ^ 31" using table_invD(3) [of t] by (simp add: MAXASIZE_def MAXBITS_def)
  then have "arrayindex (TNumber (cast_num (int i))) = int i" using a(2) by (intro arrayindex_int) simp_all
  moreover have "nat (int i - 1) = i - 1" using a(2) by simp
  ultimately show ?thesis using a by (simp add: int_content_def content_def arraykey_def)
qed

text \<open>Bisection between a present (or zero) and an absent index.\<close>

lemma bisect_boundary:
  "i < j \<Longrightarrow> i = 0 \<or> \<not> p i \<Longrightarrow> p j \<Longrightarrow>
    (bisect p i j = 0 \<or> \<not> p (bisect p i j)) \<and> p (bisect p i j + 1) \<and> i \<le> bisect p i j \<and> bisect p i j < j"
proof (induction p i j rule: bisect.induct)
  case (1 p i j)
  show ?case
  proof (cases "1 < j - i")
    case True
    define m where "m = (i + j) div 2"
    have m: "i < m" "m < j" using True by (auto simp: m_def)
    show ?thesis
    proof (cases "p m")
      case pm: True
      then have "bisect p i j = bisect p i m" using True by (simp add: bisect.simps [of p i j] m_def Let_def)
      then show ?thesis using 1(1) [OF True m_def pm m(1) 1(4) pm] m by auto
    next
      case pm: False
      then have "bisect p i j = bisect p m j" using True by (simp add: bisect.simps [of p i j] m_def Let_def)
      then show ?thesis using 1(2) [OF True m_def pm m(2) _ 1(5)] pm m by auto
    qed
  next
    case False
    then have "j = i + 1" using 1(3) by simp
    moreover have "bisect p i j = i" using False by (subst bisect.simps) simp
    ultimately show ?thesis using 1(4,5) by simp
  qed
qed

lemma present_bound:
  assumes inv: "table_inv t" and p: "\<And>i. 1 \<le> i \<Longrightarrow> i \<le> n \<Longrightarrow> int_content t i \<noteq> TNil" and n: "n < 2 ^ 31"
  shows "n \<le> length (array t) + length (node t)"
proof -
  let ?k = "\<lambda>i. TNumber (cast_num (int i))"
  have idx: "arrayindex (?k i) = int i" "live (?k i)" if "1 \<le> i" "i \<le> n" for i
    using that n arrayindex_int [of "int i"] live_cast_num [of "int i"] by simp_all
  have "\<exists>j \<in> filled (node t). luaO_rawequalObj (i_key (node t ! j)) (?k i)"
    if i: "length (array t) < i" "i \<le> n" for i
    using content_in_hash [OF inv idx(2)] idx(1) p [of i] i by (auto simp: int_content_def arraykey_def)
  then obtain f where f: "\<And>i. length (array t) < i \<Longrightarrow> i \<le> n \<Longrightarrow>
      f i \<in> filled (node t) \<and> luaO_rawequalObj (i_key (node t ! f i)) (?k i)" by metis
  have "inj_on f {length (array t)<..n}"
  proof (rule inj_onI)
    fix a b assume ab: "a \<in> {length (array t)<..n}" "b \<in> {length (array t)<..n}" "f a = f b"
    then have "luaO_rawequalObj (?k a) (?k b)"
      using f [of a] f [of b] rawequal_sym rawequal_trans by (metis greaterThanAtMost_iff)
    then have "arrayindex (?k a) = arrayindex (?k b)" by (rule arrayindex_rawequal)
    then show "a = b" using idx(1) ab by simp
  qed
  then have "card {length (array t)<..n} \<le> card (filled (node t))"
    using f by (intro card_inj_on_le [of f]) auto
  also have "\<dots> \<le> card {..<length (node t)}" by (intro card_mono) (auto simp: filled_def)
  finally show ?thesis by simp
qed

definition boundary :: "Table \<Rightarrow> nat \<Rightarrow> bool" where
  "boundary t n \<longleftrightarrow> (n = 0 \<or> int_content t n \<noteq> TNil) \<and> int_content t (n + 1) = TNil"

lemma linear_search_boundary:
  assumes inv: "table_inv t"
  shows "0 < i \<Longrightarrow> (\<And>j. 1 \<le> j \<Longrightarrow> j < i \<Longrightarrow> int_content t j \<noteq> TNil)
    \<Longrightarrow> i + f = length (array t) + length (node t) + 2
    \<Longrightarrow> \<exists>n. linear_search t f i = Some n \<and> boundary t n"
proof (induction f arbitrary: i)
  case 0
  have "length (array t) + length (node t) + 1 < 2 ^ 31"
  proof -
    have "(2 :: nat) ^ lsizenode t \<le> 2 ^ MAXBITS" using table_invD(1) [OF inv] by (intro power_increasing) auto
    then have "length (node t) \<le> 2 ^ 26" using table_invD(2) [OF inv] by (simp add: sizenode_def twoto_def MAXBITS_def)
    then show ?thesis using table_invD(3) [OF inv] by (simp add: MAXASIZE_def MAXBITS_def)
  qed
  then have "i - 1 \<le> length (array t) + length (node t)"
    using 0 by (intro present_bound [OF inv]) auto
  then show ?case using 0 by simp
next
  case (Suc f)
  have "length (array t) + length (node t) + 2 < 2 ^ 31"
  proof -
    have "(2 :: nat) ^ lsizenode t \<le> 2 ^ MAXBITS" using table_invD(1) [OF inv] by (intro power_increasing) auto
    then have "length (node t) \<le> 2 ^ 26" using table_invD(2) [OF inv] by (simp add: sizenode_def twoto_def MAXBITS_def)
    then show ?thesis using table_invD(3) [OF inv] by (simp add: MAXASIZE_def MAXBITS_def)
  qed
  then have ab: "absent t i \<longleftrightarrow> int_content t i = TNil" using Suc.prems by (intro absent_content [OF inv]) auto
  show ?case
  proof (cases "absent t i")
    case True
    have "boundary t (i - 1)"
      using ab True Suc.prems(1,2) unfolding boundary_def by (cases "i = 1") auto
    then show ?thesis using True by simp
  next
    case False
    have "\<exists>n. linear_search t f (i + 1) = Some n \<and> boundary t n"
      using Suc.IH [of "i + 1"] Suc.prems ab False by (metis Suc_eq_plus1 add_Suc_shift less_Suc_eq zero_less_Suc)
    then show ?thesis using False by simp
  qed
qed

lemma doubling_boundary:
  assumes inv: "table_inv t"
  shows "i < j \<Longrightarrow> j \<le> 2 ^ 31 - 3 \<Longrightarrow> i = 0 \<or> int_content t i \<noteq> TNil \<Longrightarrow>
    \<exists>n. doubling t i j = Some n \<and> boundary t n"
  using inv
proof (induction t i j rule: doubling.induct)
  case (1 t i j)
  have ab: "absent t m \<longleftrightarrow> int_content t m = TNil" if "0 < m" "m \<le> j" for m
    using that 1(3) by (intro absent_content [OF 1(5)]) auto
  have j: "0 < j" using 1(2) by simp
  show ?case
  proof (cases "absent t j")
    case True
    have "(bisect (absent t) i j = 0 \<or> \<not> absent t (bisect (absent t) i j)) \<and> absent t (bisect (absent t) i j + 1)
        \<and> i \<le> bisect (absent t) i j \<and> bisect (absent t) i j < j"
      using 1(2,4) ab [of i] True by (intro bisect_boundary) auto
    then have "boundary t (bisect (absent t) i j)"
      using ab [of "bisect (absent t) i j"] ab [of "bisect (absent t) i j + 1"] by (auto simp: boundary_def)
    then show ?thesis using True by (simp add: doubling.simps [of t i j])
  next
    case False
    show ?thesis
    proof (cases "2 ^ 31 - 3 < 2 * j")
      case True
      have "\<exists>n. linear_search t (length (array t) + length (node t) + 1) 1 = Some n \<and> boundary t n"
        by (rule linear_search_boundary [OF 1(5)]) auto
      then show ?thesis using True False by (simp add: doubling.simps [of t i j])
    next
      case nl: False
      have "\<exists>n. doubling t j (2 * j) = Some n \<and> boundary t n"
        using 1(1) [OF False nl] j nl ab [of j] False 1(5) by simp
      then show ?thesis using nl False j by (simp add: doubling.simps [of t i j])
    qed
  qed
qed

lemma luaH_getn_border_core:
  assumes "table_inv t"
  shows "\<exists>n. luaH_getn t = Some n \<and> (n = 0 \<or> content t (TNumber (cast_num (int n))) \<noteq> TNil)
    \<and> content t (TNumber (cast_num (int (n + 1)))) = TNil"
proof -
  have "\<exists>n. luaH_getn t = Some n \<and> boundary t n"
  proof (cases "0 < length (array t) \<and> array t ! (length (array t) - 1) = TNil")
    case True
    let ?p = "\<lambda>m. array t ! (m - 1) = TNil"
    let ?n = "bisect ?p 0 (length (array t))"
    have b: "(?n = 0 \<or> \<not> ?p ?n) \<and> ?p (?n + 1) \<and> 0 \<le> ?n \<and> ?n < length (array t)"
      using True by (intro bisect_boundary) auto
    then have "boundary t ?n"
      using int_content_array [OF assms, of ?n] int_content_array [OF assms, of "?n + 1"]
      unfolding boundary_def by auto
    then show ?thesis using True by (simp add: luaH_getn_def Let_def)
  next
    case False
    have last: "length (array t) = 0 \<or> int_content t (length (array t)) \<noteq> TNil"
      using False int_content_array [OF assms, of "length (array t)"] by auto
    have j: "length (array t) + 1 \<le> 2 ^ 31 - 3" using table_invD(3) [OF assms] by (simp add: MAXASIZE_def MAXBITS_def)
    show ?thesis
    proof (cases "dummy t")
      case True
      let ?i = "length (array t) + 1"
      have "arrayindex (TNumber (cast_num (int ?i))) = int ?i" using j by (intro arrayindex_int) auto
      moreover have "lin_get (node t) k = TNil" for k
        using table_invD(8) [OF assms True] by (simp add: lin_get_def dummynode_def)
      ultimately have "int_content t ?i = TNil" by (simp add: int_content_def content_def arraykey_def)
      moreover have "luaH_getn t = Some (length (array t))"
        unfolding luaH_getn_def Let_def if_not_P [OF False] using True by simp
      ultimately show ?thesis using last by (auto simp: boundary_def)
    next
      case nd: False
      have "\<exists>n. doubling t (length (array t)) (length (array t) + 1) = Some n \<and> boundary t n"
        using last j by (intro doubling_boundary [OF assms]) auto
      moreover have "luaH_getn t = doubling t (length (array t)) (length (array t) + 1)"
        unfolding luaH_getn_def Let_def if_not_P [OF False] using nd by (simp add: unbound_search_def)
      ultimately show ?thesis by simp
    qed
  qed
  then show ?thesis unfolding boundary_def int_content_def by blast
qed

text \<open>
  Property C10. The length operator returns, and what it returns is a border of the table:
  zero or an index whose value is not nil, followed by an index whose value is nil. This
  holds whichever way it searches: by bisection of the array part, by doubling and
  bisection in the hash part, or linearly when doubling would leave the integers.
\<close>

theorem luaH_getn_border:
  assumes "table_inv t"
  shows "\<exists>n. luaH_getn t = Some n \<and> (n = 0 \<or> content t (TNumber (cast_num (int n))) \<noteq> TNil)
    \<and> content t (TNumber (cast_num (int (n + 1)))) = TNil"
  using assms by (rule luaH_getn_border_core)

theorem luaH_getn_border_witness:
  "\<exists>n. luaH_getn new_table = Some n \<and> (n = 0 \<or> content new_table (TNumber (cast_num (int n))) \<noteq> TNil)
    \<and> content new_table (TNumber (cast_num (int (n + 1)))) = TNil"
  by (rule luaH_getn_border [OF new_table_inv])

end
