(* ===== verification/Effects.thy ===== *)
theory Effects
  imports Main
begin

text \<open>
  Programs over an explicit state. A C function that may raise a Lua error is a function
  from the state to one of three results: it returns a value, it raises a Lua error
  (\<open>luaD_throw\<close>, with the status and the state at the throw), or it is \<open>Undef\<close>: it leaves
  what its caller may rely on. \<open>Undef\<close> stands for reading or writing outside the frame of
  the running function, for using a value through the wrong member of its union, for a
  null pointer, for a broken precondition of the Lua API, and for a loop that never ends.
\<close>

section \<open>Results and programs\<close>

datatype ('s, 'a) res = Val 'a 's | Raise int 's | Undef

type_synonym ('s, 'a) prog = "'s \<Rightarrow> ('s, 'a) res"

named_theorems effect_defs \<open>the combinators of programs\<close>

definition ret :: "'a \<Rightarrow> ('s, 'a) prog" where
  [effect_defs]: "ret a = (\<lambda>s. Val a s)"

definition bnd :: "('s, 'a) prog \<Rightarrow> ('a \<Rightarrow> ('s, 'b) prog) \<Rightarrow> ('s, 'b) prog" where
  [effect_defs]: "bnd m f = (\<lambda>s. case m s of Val a s' \<Rightarrow> f a s' | Raise e s' \<Rightarrow> Raise e s' | Undef \<Rightarrow> Undef)"

definition seq :: "('s, 'a) prog \<Rightarrow> ('s, 'b) prog \<Rightarrow> ('s, 'b) prog" where
  [effect_defs]: "seq m n = bnd m (\<lambda>_. n)"

fun steps :: "('s, unit) prog list \<Rightarrow> ('s, unit) prog" where
  "steps [] = ret ()"
| "steps (m # ms) = seq m (steps ms)"

definition raise :: "int \<Rightarrow> ('s, 'a) prog" where
  [effect_defs]: "raise e = (\<lambda>s. Raise e s)"

definition undef :: "('s, 'a) prog" where
  [effect_defs]: "undef = (\<lambda>s. Undef)"

definition get :: "('s \<Rightarrow> 'a) \<Rightarrow> ('s, 'a) prog" where
  [effect_defs]: "get f = (\<lambda>s. Val (f s) s)"

definition upd :: "('s \<Rightarrow> 's) \<Rightarrow> ('s, unit) prog" where
  [effect_defs]: "upd f = (\<lambda>s. Val () (f s))"

definition unless :: "bool \<Rightarrow> ('s, unit) prog \<Rightarrow> ('s, unit) prog" where
  [effect_defs]: "unless c m = (if c then ret () else m)"

text \<open>\<open>a && b\<close> of two C conditions with effects: \<open>b\<close> runs when \<open>a\<close> is true.\<close>

definition both :: "('s, bool) prog \<Rightarrow> ('s, bool) prog \<Rightarrow> ('s, bool) prog" where
  [effect_defs]: "both a b = bnd a (\<lambda>x. if x then b else ret False)"

fun all_of :: "('s, bool) prog list \<Rightarrow> ('s, bool) prog" where
  "all_of [] = ret True"
| "all_of (c # cs) = both c (all_of cs)"

section \<open>Running programs\<close>

lemma ret_run [simp]: "ret a s = Val a s" by (simp add: ret_def)
lemma get_run [simp]: "get f s = Val (f s) s" by (simp add: get_def)
lemma upd_run [simp]: "upd f s = Val () (f s)" by (simp add: upd_def)
lemma raise_run [simp]: "raise e s = Raise e s" by (simp add: raise_def)
lemma undef_run [simp]: "undef s = Undef" by (simp add: undef_def)
lemma unless_run [simp]: "unless c m s = (if c then Val () s else m s)" by (simp add: unless_def)

lemma bnd_Val: "m s = Val a s' \<Longrightarrow> bnd m f s = f a s'" by (simp add: bnd_def)
lemma bnd_Raise: "m s = Raise e s' \<Longrightarrow> bnd m f s = Raise e s'" by (simp add: bnd_def)
lemma bnd_Undef: "m s = Undef \<Longrightarrow> bnd m f s = Undef" by (simp add: bnd_def)
lemma seq_Val: "m s = Val a s' \<Longrightarrow> seq m n s = n s'" by (simp add: seq_def bnd_def)
lemma seq_Raise: "m s = Raise e s' \<Longrightarrow> seq m n s = Raise e s'" by (simp add: seq_def bnd_def)
lemma both_Val: "a s = Val x s' \<Longrightarrow> both a b s = (if x then b s' else Val False s')"
  by (simp add: both_def bnd_def)

lemmas run_simps = bnd_Val bnd_Raise bnd_Undef seq_Val seq_Raise both_Val

lemma bnd_eq_Val: "bnd m f s = Val b s'' \<longleftrightarrow> (\<exists>a s'. m s = Val a s' \<and> f a s' = Val b s'')"
  by (cases "m s") (simp_all add: bnd_def)

section \<open>Weakest preconditions\<close>

text \<open>
  \<open>wp m Q E s\<close>: from \<open>s\<close> the program \<open>m\<close> is not \<open>Undef\<close>, it returns only in \<open>Q\<close> and
  raises only in \<open>E\<close>.
\<close>

definition wp :: "('s, 'a) prog \<Rightarrow> ('a \<Rightarrow> 's \<Rightarrow> bool) \<Rightarrow> (int \<Rightarrow> 's \<Rightarrow> bool) \<Rightarrow> 's \<Rightarrow> bool" where
  "wp m Q E s \<longleftrightarrow> (case m s of Val a s' \<Rightarrow> Q a s' | Raise e s' \<Rightarrow> E e s' | Undef \<Rightarrow> False)"

named_theorems wps \<open>weakest preconditions, by rewriting\<close>

lemma wp_basic [wps]:
  "wp (ret a) Q E s = Q a s" "wp (get f) Q E s = Q (f s) s" "wp (upd g) R E s = R () (g s)"
  "wp (raise e) Q E s = E e s" "wp undef Q E s = False"
  by (simp_all add: wp_def)

lemma wp_ret: "wp (ret a) Q E = Q a"
  by (rule ext) (simp add: wp_basic)

lemma wp_bnd [wps]: "wp (bnd m f) Q E s = wp m (\<lambda>a. wp (f a) Q E) E s"
  by (cases "m s") (simp_all add: wp_def bnd_def)

lemma wp_seq [wps]: "wp (seq m n) Q E s = wp m (\<lambda>_. wp n Q E) E s"
  by (simp add: seq_def wp_bnd)

lemma wp_steps [wps]:
  "wp (steps []) Q E s = Q () s" "wp (steps (m # ms)) Q E s = wp m (\<lambda>_. wp (steps ms) Q E) E s"
  by (simp_all add: wps)

lemma wp_if [wps]: "wp (if c then m else n) Q E s = (if c then wp m Q E s else wp n Q E s)"
  by simp

lemma wp_unless [wps]: "wp (unless c m) Q E s = (if c then Q () s else wp m Q E s)"
  by (simp add: wp_def)

lemma wp_both [wps]: "wp (both a b) Q E s = wp a (\<lambda>x. if x then wp b Q E else Q False) E s"
  by (cases "a s") (simp_all add: wp_def both_def bnd_def)

lemma wp_mono:
  "wp m Q E s \<Longrightarrow> (\<And>a s. Q a s \<Longrightarrow> Q' a s) \<Longrightarrow> (\<And>e s. E e s \<Longrightarrow> E' e s) \<Longrightarrow> wp m Q' E' s"
  by (auto simp: wp_def split: res.splits)

lemma wp_Val: "m s = Val a s' \<Longrightarrow> wp m Q E s = Q a s'" by (simp add: wp_def)

end
