(* ===== verification/LuaState.thy ===== *)
theory LuaState
  imports Traverse Effects
begin

text \<open>
  The state of a Lua thread as a C function sees it (\<open>lstate.h\<close>, \<open>lobject.h\<close>), the slots an
  index denotes (\<open>lapi.c\<close>), and calls (\<open>ldo.c\<close>). The stack is the part from \<open>L->base\<close> up to
  \<open>L->top\<close>; the frames below it are untouched while the function runs and are the context
  of \<open>luaD_precall\<close>. Objects are their addresses; the heap maps addresses to objects, and an
  allocation hands out a new address. The collector never runs.
\<close>

section \<open>Constants\<close>

definition LUA_REGISTRYINDEX :: int where "LUA_REGISTRYINDEX = - 10000"
definition LUA_ENVIRONINDEX :: int where "LUA_ENVIRONINDEX = - 10001"
definition LUA_GLOBALSINDEX :: int where "LUA_GLOBALSINDEX = - 10002"
definition lua_upvalueindex :: "int \<Rightarrow> int" where "lua_upvalueindex i = LUA_GLOBALSINDEX - i"
definition LUA_MULTRET :: int where "LUA_MULTRET = - 1"
definition LUA_MINSTACK :: nat where "LUA_MINSTACK = 20"
definition LUAI_MAXCSTACK :: int where "LUAI_MAXCSTACK = 8000"
definition LUAI_MAXCCALLS :: nat where "LUAI_MAXCCALLS = 200"
definition LUA_ERRRUN :: int where "LUA_ERRRUN = 2"
definition LUA_ERRSYNTAX :: int where "LUA_ERRSYNTAX = 3"
definition LUA_ERRMEM :: int where "LUA_ERRMEM = 4"
definition LUA_ERRERR :: int where "LUA_ERRERR = 5"
definition LUA_TNONE :: int where "LUA_TNONE = - 1"
definition LUA_TNIL :: int where "LUA_TNIL = 0"
definition LUA_TBOOLEAN :: int where "LUA_TBOOLEAN = 1"
definition LUA_TNUMBER :: int where "LUA_TNUMBER = 3"
definition LUA_TSTRING :: int where "LUA_TSTRING = 4"
definition LUA_TTABLE :: int where "LUA_TTABLE = 5"
definition LUA_TFUNCTION :: int where "LUA_TFUNCTION = 6"
definition LUA_TTHREAD :: int where "LUA_TTHREAD = 8"

lemmas lua_consts = LUA_REGISTRYINDEX_def LUA_ENVIRONINDEX_def LUA_GLOBALSINDEX_def LUA_MULTRET_def
  LUA_MINSTACK_def LUAI_MAXCSTACK_def LUA_ERRRUN_def LUA_ERRSYNTAX_def LUA_ERRMEM_def LUA_ERRERR_def
  LUA_TNONE_def LUA_TNIL_def LUA_TBOOLEAN_def LUA_TNUMBER_def LUA_TSTRING_def LUA_TTABLE_def
  LUA_TFUNCTION_def LUA_TTHREAD_def

text \<open>A C string literal as bytes.\<close>

definition lit :: "string \<Rightarrow> bytes" where "lit s = map of_char s"

text \<open>The C string at the start of a buffer.\<close>

definition c_string :: "bytes \<Rightarrow> bytes" where "c_string b = takeWhile (\<lambda>c. c \<noteq> 0) b"

section \<open>Objects\<close>

text \<open>
  The C functions that can be called: those of \<open>jnlua.c\<close> by name, every other one through
  \<open>Lib_function\<close>.
\<close>

datatype cfunction =
    Gcjavaobject | Calljavafunction
  | Newstate_protected | Close_protected | Openlib_protected | Getglobal_protected | Setglobal_protected
  | Pushbytearray_protected | Pushjavafunction_protected | Pushjavaobject_protected
  | Pushlightjavaobject_protected | Pushstring_protected | Isjavaobject_protected | Equal_protected
  | Lessthan_protected | Tobytearray_protected | Tojavafunction_protected | Tojavaobject_protected
  | Tolightjavaobject_protected | Tostring_protected | Concat_protected | Createtable_protected
  | Findtable_protected | Getfield_protected | Gettable_protected | Newtable_protected | Next_protected
  | Rawset_protected | Rawseti_protected | Settable_protected | Setfield_protected
  | Getmetafield_protected | Ref_protected | Unref_protected | Tablesize_protected
  | Tablemove_protected | LuaLerror_protected | Throw_protected
  | Lib_function string

text \<open>
  Closures: environment, code, upvalues. The upvalues of a Lua function are shared variables
  and the state says what each holds.
\<close>

datatype Closure = CClosure u64 cfunction "TValue list" | LClosure u64 u64 "(bytes \<times> u64) list"

fun closure_env :: "Closure \<Rightarrow> u64" where
  "closure_env (CClosure e _ _) = e"
| "closure_env (LClosure e _ _) = e"

fun set_closure_env :: "u64 \<Rightarrow> Closure \<Rightarrow> Closure" where
  "set_closure_env e (CClosure _ f uv) = CClosure e f uv"
| "set_closure_env e (LClosure _ p uv) = LClosure e p uv"

text \<open>A full userdata; its block, as far as this program uses it, holds one pointer.\<close>

record Udata =
  u_metatable :: "u64 option"
  u_env :: u64
  u_len :: nat
  u_data :: u64

section \<open>State\<close>

record lua_State =
  stack :: "TValue list"
  func :: "u64 option"
  ci_top :: nat
  tables :: "u64 \<Rightarrow> Table option"
  closures :: "u64 \<Rightarrow> Closure option"
  udatas :: "u64 \<Rightarrow> Udata option"
  upvals :: "u64 \<Rightarrow> TValue option"
  registry :: TValue
  l_gt :: TValue
  g_mt :: "nat \<Rightarrow> u64 option"
  next_addr :: u64

text \<open>
  What the code calls and does not define: the C library's number parsing and printing and
  its collation, the addresses of strings, the source position of the caller (from the debug
  information of the functions that are running), and the Lua functions and C libraries that a
  call may reach. A called function gets its arguments as the stack and returns its results.
\<close>

record 's host =
  strtod :: "bytes \<Rightarrow> lua_Number \<times> nat"
  strtoul16 :: "bytes \<Rightarrow> lua_Number \<times> nat"
  lua_number2str :: "lua_Number \<Rightarrow> bytes"
  sprintf_p :: "u64 \<Rightarrow> bytes"
  strcoll :: "bytes \<Rightarrow> bytes \<Rightarrow> int"
  str_addr :: "bytes \<Rightarrow> u64"
  where1 :: "'s \<Rightarrow> bytes"
  call_foreign :: "u64 \<Rightarrow> TValue list \<Rightarrow> 's \<Rightarrow> ('s, TValue list) res"

definition gcvalue :: "('s, 'h) host_scheme \<Rightarrow> TValue \<Rightarrow> u64" where
  "gcvalue H v = (case v of TString s \<Rightarrow> str_addr H s | TTable a \<Rightarrow> a | TFunction a \<Rightarrow> a
     | TUserdata a \<Rightarrow> a | TThread a \<Rightarrow> a | TDeadKey a \<Rightarrow> a | _ \<Rightarrow> 0)"

definition alloc :: "('z lua_State_scheme, u64) prog" where
  "alloc s = (if next_addr s = - 1 then Raise LUA_ERRMEM s
              else Val (next_addr s) (s\<lparr>next_addr := next_addr s + 1\<rparr>))"

section \<open>Stack primitives\<close>

text \<open>
  \<open>setobj2s(L, L->top, v); api_incr_top(L)\<close>: the frame may grow up to \<open>L->ci->top\<close>. The core
  makes room itself before it pushes (\<open>rawpush\<close>).
\<close>

definition rawpush :: "TValue \<Rightarrow> ('z lua_State_scheme, unit) prog" where
  "rawpush v s = Val () (s\<lparr>stack := stack s @ [v]\<rparr>)"

definition luaA_pushobject :: "TValue \<Rightarrow> ('z lua_State_scheme, unit) prog" where
  "luaA_pushobject v s = (if length (stack s) < ci_top s then rawpush v s else Undef)"

definition top_value :: "nat \<Rightarrow> ('z lua_State_scheme, TValue) prog" where
  "top_value i s = (if 0 < i \<and> i \<le> length (stack s) then Val (stack s ! (length (stack s) - i)) s else Undef)"

definition drop_top :: "nat \<Rightarrow> ('z lua_State_scheme, unit) prog" where
  "drop_top n s = (if n \<le> length (stack s)
     then Val () (s\<lparr>stack := take (length (stack s) - n) (stack s)\<rparr>) else Undef)"

definition set_top_value :: "TValue \<Rightarrow> ('z lua_State_scheme, unit) prog" where
  "set_top_value v s = (if stack s \<noteq> [] then Val () (s\<lparr>stack := butlast (stack s) @ [v]\<rparr>) else Undef)"

section \<open>Indices\<close>

datatype addr = Stk nat | Registry | EnvIdx | Globals | Upval nat | NilObject

definition curr_func :: "'z lua_State_scheme \<Rightarrow> Closure option" where
  "curr_func s = (case func s of None \<Rightarrow> None | Some a \<Rightarrow> closures s a)"

definition index2adr :: "int \<Rightarrow> ('z lua_State_scheme, addr) prog" where
  "index2adr idx s =
     (if 0 < idx then Val (if idx \<le> int (length (stack s)) then Stk (nat (idx - 1)) else NilObject) s
      else if LUA_REGISTRYINDEX < idx then
        (if idx \<noteq> 0 \<and> - idx \<le> int (length (stack s)) then Val (Stk (nat (int (length (stack s)) + idx))) s
         else Undef)
      else if idx = LUA_REGISTRYINDEX then Val Registry s
      else if idx = LUA_ENVIRONINDEX then (if curr_func s = None then Undef else Val EnvIdx s)
      else if idx = LUA_GLOBALSINDEX then Val Globals s
      else (case curr_func s of
          Some (CClosure e f uv) \<Rightarrow>
            (let i = LUA_GLOBALSINDEX - idx
             in Val (if i \<le> int (length uv) then Upval (nat (i - 1)) else NilObject) s)
        | _ \<Rightarrow> Undef))"

fun read_addr :: "addr \<Rightarrow> 'z lua_State_scheme \<Rightarrow> TValue" where
  "read_addr (Stk i) s = stack s ! i"
| "read_addr Registry s = registry s"
| "read_addr EnvIdx s = (case curr_func s of Some cl \<Rightarrow> TTable (closure_env cl) | None \<Rightarrow> TNil)"
| "read_addr Globals s = l_gt s"
| "read_addr (Upval i) s = (case curr_func s of Some (CClosure e f uv) \<Rightarrow> uv ! i | _ \<Rightarrow> TNil)"
| "read_addr NilObject s = TNil"

text \<open>Storing into the shared nil object, or into the copy of the environment, is no store.\<close>

fun write_addr :: "addr \<Rightarrow> TValue \<Rightarrow> ('z lua_State_scheme, unit) prog" where
  "write_addr (Stk i) v s = Val () (s\<lparr>stack := (stack s)[i := v]\<rparr>)"
| "write_addr Registry v s = Val () (s\<lparr>registry := v\<rparr>)"
| "write_addr Globals v s = Val () (s\<lparr>l_gt := v\<rparr>)"
| "write_addr (Upval i) v s =
     (case (func s, curr_func s) of
        (Some a, Some (CClosure e f uv)) \<Rightarrow> Val () (s\<lparr>closures := (closures s)(a \<mapsto> CClosure e f (uv[i := v]))\<rparr>)
      | _ \<Rightarrow> Undef)"
| "write_addr _ v s = Undef"

definition index_value :: "int \<Rightarrow> ('z lua_State_scheme, TValue) prog" where
  "index_value idx = bnd (index2adr idx) (\<lambda>a. get (read_addr a))"

definition getcurrenv :: "('z lua_State_scheme, u64) prog" where
  "getcurrenv s = (case func s of
       None \<Rightarrow> (case l_gt s of TTable a \<Rightarrow> Val a s | _ \<Rightarrow> Undef)
     | Some a \<Rightarrow> (case closures s a of Some cl \<Rightarrow> Val (closure_env cl) s | None \<Rightarrow> Undef))"

section \<open>Objects behind values\<close>

definition hvalue :: "TValue \<Rightarrow> ('z lua_State_scheme, u64 \<times> Table) prog" where
  "hvalue v s = (case v of TTable a \<Rightarrow> (case tables s a of Some t \<Rightarrow> Val (a, t) s | None \<Rightarrow> Undef) | _ \<Rightarrow> Undef)"

definition clvalue :: "TValue \<Rightarrow> ('z lua_State_scheme, u64 \<times> Closure) prog" where
  "clvalue v s = (case v of TFunction a \<Rightarrow> (case closures s a of Some c \<Rightarrow> Val (a, c) s | None \<Rightarrow> Undef) | _ \<Rightarrow> Undef)"

definition uvalue :: "TValue \<Rightarrow> ('z lua_State_scheme, u64 \<times> Udata) prog" where
  "uvalue v s = (case v of TUserdata a \<Rightarrow> (case udatas s a of Some u \<Rightarrow> Val (a, u) s | None \<Rightarrow> Undef) | _ \<Rightarrow> Undef)"

definition put_table :: "u64 \<Rightarrow> Table \<Rightarrow> ('z lua_State_scheme, unit) prog" where
  "put_table a t = upd (\<lambda>s. s\<lparr>tables := (tables s)(a \<mapsto> t)\<rparr>)"

section \<open>Errors\<close>

text \<open>
  \<open>luaG_runerror\<close> from a C function: no position is added, the message goes on the stack
  (the core makes room for it) and the error is thrown; no message handler is installed.
\<close>

definition runerror :: "bytes \<Rightarrow> ('z lua_State_scheme, 'a) prog" where
  "runerror msg = seq (rawpush (TString msg)) (raise LUA_ERRRUN)"

definition luaG_runerror :: "string \<Rightarrow> ('z lua_State_scheme, 'a) prog" where
  "luaG_runerror msg = runerror (lit msg)"

definition luaT_typenames :: "string list" where
  "luaT_typenames = [''nil'', ''boolean'', ''userdata'', ''number'', ''string'', ''table'', ''function'',
     ''userdata'', ''thread'', ''proto'', ''upval'']"

definition typename_of :: "TValue \<Rightarrow> string" where
  "typename_of v = luaT_typenames ! nat (ttype v)"

text \<open>In a C function no name can be found for the value, so the short message is used.\<close>

definition luaG_typeerror :: "TValue \<Rightarrow> string \<Rightarrow> ('z lua_State_scheme, 'a) prog" where
  "luaG_typeerror v op = luaG_runerror (''attempt to '' @ op @ '' a '' @ typename_of v @ '' value'')"

definition luaG_concaterror :: "TValue \<Rightarrow> TValue \<Rightarrow> ('z lua_State_scheme, 'a) prog" where
  "luaG_concaterror p1 p2 =
     luaG_typeerror (if ttype p1 = LUA_TSTRING \<or> ttype p1 = LUA_TNUMBER then p2 else p1) ''concatenate''"

definition luaG_ordererror :: "TValue \<Rightarrow> TValue \<Rightarrow> ('z lua_State_scheme, 'a) prog" where
  "luaG_ordererror p1 p2 =
     (let t1 = typename_of p1; t2 = typename_of p2
      in if t1 ! 2 = t2 ! 2 then luaG_runerror (''attempt to compare two '' @ t1 @ '' values'')
         else luaG_runerror (''attempt to compare '' @ t1 @ '' with '' @ t2))"

text \<open>A table operation that raises does so through \<open>luaG_runerror\<close>.\<close>

fun lift_outcome :: "'a outcome \<Rightarrow> ('z lua_State_scheme, 'a) prog" where
  "lift_outcome (Ok a) = ret a"
| "lift_outcome (RunError msg) = luaG_runerror msg"
| "lift_outcome Stuck = undef"

definition lookup_prog :: "Table \<Rightarrow> lookup \<Rightarrow> ('z lua_State_scheme, TValue) prog" where
  "lookup_prog t r = (if r = Endless then undef else ret (lookup_val t r))"

section \<open>Calls\<close>

text \<open>
  \<open>luaD_poscall\<close>: the results move to where the function was; as many as the caller wanted,
  padded with nil, or all of them.
\<close>

definition luaD_poscall :: "TValue list \<Rightarrow> int \<Rightarrow> TValue list" where
  "luaD_poscall results wanted =
     (if wanted = LUA_MULTRET then results
      else take (nat wanted) results @ replicate (nat wanted - length results) TNil)"

text \<open>
  \<open>luaD_precall\<close> of the function at \<open>L->top - (nargs + 1)\<close> once it is known to be a function.
  A C function of this program (\<open>run\<close>) gets a frame that holds its arguments and
  \<open>LUA_MINSTACK\<close> free slots, and its result counts the values on the top of its frame. The
  caller's frame is put back around the results. An error leaves in the callee's frame.
\<close>

definition enter_frame :: "u64 \<Rightarrow> TValue list \<Rightarrow> 'z lua_State_scheme \<Rightarrow> 'z lua_State_scheme" where
  "enter_frame a args s = s\<lparr>stack := args, func := Some a, ci_top := length args + LUA_MINSTACK\<rparr>"

definition leave_frame :: "'z lua_State_scheme \<Rightarrow> TValue list \<Rightarrow> 'z lua_State_scheme \<Rightarrow> 'z lua_State_scheme" where
  "leave_frame s0 st s = s\<lparr>stack := st, func := func s0, ci_top := ci_top s0\<rparr>"

definition call_closure :: "('z lua_State_scheme, 'h) host_scheme \<Rightarrow> (cfunction \<Rightarrow> ('z lua_State_scheme, int) prog)
    \<Rightarrow> u64 \<Rightarrow> TValue list \<Rightarrow> ('z lua_State_scheme, TValue list) prog" where
  "call_closure H run a args s =
     (case closures s a of
        None \<Rightarrow> Undef
      | Some (CClosure e f uv) \<Rightarrow>
          (case f of
             Lib_function _ \<Rightarrow> call_foreign H a args (enter_frame a args s)
           | _ \<Rightarrow> bnd (run f) (\<lambda>n s'. if 0 \<le> n \<and> n \<le> int (length (stack s'))
                    then Val (drop (length (stack s') - nat n) (stack s')) s' else Undef) (enter_frame a args s))
      | Some (LClosure e p uv) \<Rightarrow> call_foreign H a args (enter_frame a args s))"

end
