(* ===== verification/Meta.thy ===== *)
theory Meta
  imports LuaState
begin

text \<open>
  Tag methods (\<open>ltm.c\<close>), the operations of the virtual machine that the API uses
  (\<open>lvm.c\<close>) and the call of a value (\<open>ldo.c\<close>). An argument \<open>C\<close> of an operation is
  \<open>luaD_call\<close>: \<open>C nargs nresults\<close> calls the function below the top \<open>nargs\<close> values.
\<close>

section \<open>Events\<close>

datatype TMS = TM_INDEX | TM_NEWINDEX | TM_GC | TM_MODE | TM_EQ | TM_ADD | TM_SUB | TM_MUL | TM_DIV
  | TM_MOD | TM_POW | TM_UNM | TM_LEN | TM_LT | TM_LE | TM_CONCAT | TM_CALL

fun tmname :: "TMS \<Rightarrow> string" where
  "tmname TM_INDEX = ''__index''" | "tmname TM_NEWINDEX = ''__newindex''" | "tmname TM_GC = ''__gc''"
| "tmname TM_MODE = ''__mode''" | "tmname TM_EQ = ''__eq''" | "tmname TM_ADD = ''__add''"
| "tmname TM_SUB = ''__sub''" | "tmname TM_MUL = ''__mul''" | "tmname TM_DIV = ''__div''"
| "tmname TM_MOD = ''__mod''" | "tmname TM_POW = ''__pow''" | "tmname TM_UNM = ''__unm''"
| "tmname TM_LEN = ''__len''" | "tmname TM_LT = ''__lt''" | "tmname TM_LE = ''__le''"
| "tmname TM_CONCAT = ''__concat''" | "tmname TM_CALL = ''__call''"

text \<open>The number of an event with fast access is its bit in the flags of a table.\<close>

fun event_bit :: "TMS \<Rightarrow> u8" where
  "event_bit TM_INDEX = 1" | "event_bit TM_NEWINDEX = 2" | "event_bit TM_GC = 4"
| "event_bit TM_MODE = 8" | "event_bit TM_EQ = 16" | "event_bit _ = 0"

definition luaT_gettm :: "u64 \<Rightarrow> TMS \<Rightarrow> ('z lua_State_scheme, TValue option) prog" where
  "luaT_gettm events event =
     bnd (hvalue (TTable events)) (\<lambda>(_, t).
     bnd (lookup_prog t (luaH_getstr t (lit (tmname event)))) (\<lambda>tm.
       if tm = TNil then seq (put_table events (t\<lparr>flags := or (flags t) (event_bit event)\<rparr>)) (ret None)
       else ret (Some tm)))"

definition fasttm :: "u64 option \<Rightarrow> TMS \<Rightarrow> ('z lua_State_scheme, TValue option) prog" where
  "fasttm et e =
     (case et of None \<Rightarrow> ret None
      | Some mt \<Rightarrow> bnd (hvalue (TTable mt)) (\<lambda>(_, t).
          if and (flags t) (event_bit e) \<noteq> 0 then ret None else luaT_gettm mt e))"

definition metatable_of :: "TValue \<Rightarrow> ('z lua_State_scheme, u64 option) prog" where
  "metatable_of v =
     (case v of TTable _ \<Rightarrow> bnd (hvalue v) (\<lambda>(_, t). ret (metatable t))
      | TUserdata _ \<Rightarrow> bnd (uvalue v) (\<lambda>(_, u). ret (u_metatable u))
      | _ \<Rightarrow> get (\<lambda>s. g_mt s (nat (ttype v))))"

definition luaT_gettmbyobj :: "TValue \<Rightarrow> TMS \<Rightarrow> ('z lua_State_scheme, TValue) prog" where
  "luaT_gettmbyobj v event =
     bnd (metatable_of v) (\<lambda>mt.
       case mt of None \<Rightarrow> ret TNil
       | Some a \<Rightarrow> bnd (hvalue (TTable a)) (\<lambda>(_, t). lookup_prog t (luaH_getstr t (lit (tmname event)))))"

section \<open>Calling a value\<close>

text \<open>
  \<open>luaD_precall\<close>: a value that is no function is called through its \<open>__call\<close> method, which
  gets the value as an extra first argument.
\<close>

definition luaD_precall :: "('z lua_State_scheme, 'h) host_scheme \<Rightarrow> (cfunction \<Rightarrow> ('z lua_State_scheme, int) prog)
    \<Rightarrow> nat \<Rightarrow> int \<Rightarrow> ('z lua_State_scheme, unit) prog" where
  "luaD_precall H run nargs nresults s =
     (if length (stack s) \<le> nargs then Undef
      else
        (let n = length (stack s) - (nargs + 1); below = take n (stack s);
             f = stack s ! n; args = drop (n + 1) (stack s)
         in bnd (case f of TFunction a \<Rightarrow> ret (a, args)
              | _ \<Rightarrow> bnd (luaT_gettmbyobj f TM_CALL) (\<lambda>tm.
                  case tm of TFunction a \<Rightarrow> ret (a, f # args) | _ \<Rightarrow> luaG_typeerror f ''call''))
            (\<lambda>(a, args). bnd (call_closure H run a args) (\<lambda>results.
               upd (leave_frame s (below @ luaD_poscall results nresults)))) s))"

text \<open>\<open>luaD_call\<close>, where \<open>d\<close> is how many more nested C calls the limit allows.\<close>

primrec luaD_call :: "('z lua_State_scheme, 'h) host_scheme
    \<Rightarrow> ((nat \<Rightarrow> int \<Rightarrow> ('z lua_State_scheme, unit) prog) \<Rightarrow> cfunction \<Rightarrow> ('z lua_State_scheme, int) prog)
    \<Rightarrow> nat \<Rightarrow> nat \<Rightarrow> int \<Rightarrow> ('z lua_State_scheme, unit) prog" where
  "luaD_call H run 0 nargs nresults = luaG_runerror ''C stack overflow''"
| "luaD_call H run (Suc d) nargs nresults = luaD_precall H (run (luaD_call H run d)) nargs nresults"

text \<open>\<open>luaD_pcall\<close> without a message handler: an error leaves its value where the function was.\<close>

definition luaD_seterrorobj :: "int \<Rightarrow> TValue list \<Rightarrow> TValue" where
  "luaD_seterrorobj errcode st =
     (if errcode = LUA_ERRMEM then TString (lit ''not enough memory'')
      else if errcode = LUA_ERRERR then TString (lit ''error in error handling'')
      else last st)"

definition luaD_pcall :: "('z lua_State_scheme, unit) prog \<Rightarrow> nat \<Rightarrow> ('z lua_State_scheme, int) prog" where
  "luaD_pcall f old_top s =
     (case f s of
        Val _ s' \<Rightarrow> Val 0 s'
      | Raise e s' \<Rightarrow>
          (if (e = LUA_ERRRUN \<or> e = LUA_ERRSYNTAX) \<and> stack s' = [] then Undef
           else Val e (leave_frame s (take old_top (stack s) @ [luaD_seterrorobj e (stack s')]) s'))
      | Undef \<Rightarrow> Undef)"

section \<open>Conversions\<close>

definition isspace :: "u8 \<Rightarrow> bool" where "isspace c \<longleftrightarrow> c = 32 \<or> 9 \<le> c \<and> c \<le> 13"

definition char_at :: "bytes \<Rightarrow> nat \<Rightarrow> u8" where "char_at s i = (if i < length s then s ! i else 0)"

definition luaO_str2d :: "('s, 'h) host_scheme \<Rightarrow> bytes \<Rightarrow> lua_Number option" where
  "luaO_str2d H s =
     (let (result, endptr) = strtod H s
      in if endptr = 0 then None
         else
           (let (result, endptr) = (if char_at s endptr \<in> {0x78, 0x58} then strtoul16 H s else (result, endptr))
            in if dropWhile isspace (drop endptr s) = [] then Some result else None))"

definition luaV_tonumber :: "('s, 'h) host_scheme \<Rightarrow> TValue \<Rightarrow> lua_Number option" where
  "luaV_tonumber H obj =
     (case obj of TNumber n \<Rightarrow> Some n | TString b \<Rightarrow> luaO_str2d H (c_string b) | _ \<Rightarrow> None)"

text \<open>\<open>tostring(L, o)\<close> on the value of a slot: whether it is a string now, and that string.\<close>

definition luaV_tostring :: "('s, 'h) host_scheme \<Rightarrow> TValue \<Rightarrow> TValue option" where
  "luaV_tostring H obj = (case obj of TNumber n \<Rightarrow> Some (TString (c_string (lua_number2str H n))) | _ \<Rightarrow> None)"

definition tostring_value :: "('s, 'h) host_scheme \<Rightarrow> TValue \<Rightarrow> TValue option" where
  "tostring_value H obj = (case obj of TString b \<Rightarrow> Some obj | _ \<Rightarrow> luaV_tostring H obj)"

section \<open>Tag method calls\<close>

definition callTMres :: "(nat \<Rightarrow> int \<Rightarrow> ('z lua_State_scheme, unit) prog)
    \<Rightarrow> TValue \<Rightarrow> TValue \<Rightarrow> TValue \<Rightarrow> ('z lua_State_scheme, TValue) prog" where
  "callTMres C f p1 p2 =
     seq (steps [rawpush f, rawpush p1, rawpush p2, C 2 1])
       (bnd (top_value 1) (\<lambda>v. seq (drop_top 1) (ret v)))"

definition callTM :: "(nat \<Rightarrow> int \<Rightarrow> ('z lua_State_scheme, unit) prog)
    \<Rightarrow> TValue \<Rightarrow> TValue \<Rightarrow> TValue \<Rightarrow> TValue \<Rightarrow> ('z lua_State_scheme, unit) prog" where
  "callTM C f p1 p2 p3 = steps [rawpush f, rawpush p1, rawpush p2, rawpush p3, C 3 0]"

definition MAXTAGLOOP :: nat where "MAXTAGLOOP = 100"

definition is_function :: "TValue \<Rightarrow> bool" where "is_function v \<longleftrightarrow> ttype v = LUA_TFUNCTION"

text \<open>
  One round of \<open>luaV_gettable\<close>: the value, or the tag method to go on with. The result of the
  whole loop is the value for the slot \<open>val\<close>.
\<close>

primrec gettable_loop :: "nat \<Rightarrow> (nat \<Rightarrow> int \<Rightarrow> ('z lua_State_scheme, unit) prog)
    \<Rightarrow> TValue \<Rightarrow> TValue \<Rightarrow> ('z lua_State_scheme, TValue) prog" where
  "gettable_loop 0 C t key = luaG_runerror ''loop in gettable''"
| "gettable_loop (Suc n) C t key =
     (let try_tm = (\<lambda>tm. if is_function tm then callTMres C tm t key else gettable_loop n C tm key)
      in case t of
        TTable _ \<Rightarrow>
          bnd (hvalue t) (\<lambda>(a, h). bnd (lookup_prog h (luaH_get h key)) (\<lambda>res.
            if res \<noteq> TNil then ret res
            else bnd (fasttm (metatable h) TM_INDEX) (\<lambda>tm.
              case tm of None \<Rightarrow> ret res | Some tm \<Rightarrow> try_tm tm)))
      | _ \<Rightarrow> bnd (luaT_gettmbyobj t TM_INDEX) (\<lambda>tm.
          if tm = TNil then luaG_typeerror t ''index'' else try_tm tm))"

definition luaV_gettable :: "(nat \<Rightarrow> int \<Rightarrow> ('z lua_State_scheme, unit) prog)
    \<Rightarrow> TValue \<Rightarrow> TValue \<Rightarrow> ('z lua_State_scheme, TValue) prog" where
  "luaV_gettable = gettable_loop MAXTAGLOOP"

text \<open>
  \<open>luaV_settable\<close>: \<open>luaH_set\<close> makes the slot before the tag method is looked for, and
  \<open>fasttm\<close> may set a flag in the same table when it is its own metatable, so the table is read
  again before the store.
\<close>

primrec settable_loop :: "nat \<Rightarrow> (nat \<Rightarrow> int \<Rightarrow> ('z lua_State_scheme, unit) prog)
    \<Rightarrow> TValue \<Rightarrow> TValue \<Rightarrow> TValue \<Rightarrow> ('z lua_State_scheme, unit) prog" where
  "settable_loop 0 C t key val = luaG_runerror ''loop in settable''"
| "settable_loop (Suc n) C t key val =
     (let try_tm = (\<lambda>tm. if is_function tm then callTM C tm t key val else settable_loop n C tm key val)
      in case t of
        TTable _ \<Rightarrow>
          bnd (hvalue t) (\<lambda>(a, h). bnd (lift_outcome (luaH_set h key)) (\<lambda>(h', slot).
          seq (put_table a h')
            (let store = bnd (hvalue t) (\<lambda>(_, h''). put_table a ((put_slot h'' slot val)\<lparr>flags := 0\<rparr>))
             in if slot_val h' slot \<noteq> TNil then store
                else bnd (fasttm (metatable h') TM_NEWINDEX) (\<lambda>tm.
                  case tm of None \<Rightarrow> store | Some tm \<Rightarrow> try_tm tm))))
      | _ \<Rightarrow> bnd (luaT_gettmbyobj t TM_NEWINDEX) (\<lambda>tm.
          if tm = TNil then luaG_typeerror t ''index'' else try_tm tm))"

definition luaV_settable :: "(nat \<Rightarrow> int \<Rightarrow> ('z lua_State_scheme, unit) prog)
    \<Rightarrow> TValue \<Rightarrow> TValue \<Rightarrow> TValue \<Rightarrow> ('z lua_State_scheme, unit) prog" where
  "luaV_settable = settable_loop MAXTAGLOOP"

definition call_binTM :: "(nat \<Rightarrow> int \<Rightarrow> ('z lua_State_scheme, unit) prog)
    \<Rightarrow> TValue \<Rightarrow> TValue \<Rightarrow> TMS \<Rightarrow> ('z lua_State_scheme, TValue option) prog" where
  "call_binTM C p1 p2 event =
     bnd (luaT_gettmbyobj p1 event) (\<lambda>tm1.
     bnd (if tm1 = TNil then luaT_gettmbyobj p2 event else ret tm1) (\<lambda>tm.
       if tm = TNil then ret None else bnd (callTMres C tm p1 p2) (\<lambda>v. ret (Some v))))"

definition get_compTM :: "u64 option \<Rightarrow> u64 option \<Rightarrow> TMS \<Rightarrow> ('z lua_State_scheme, TValue option) prog" where
  "get_compTM mt1 mt2 event =
     bnd (fasttm mt1 event) (\<lambda>tm1. case tm1 of None \<Rightarrow> ret None
     | Some v1 \<Rightarrow>
         if mt1 = mt2 then ret (Some v1)
         else bnd (fasttm mt2 event) (\<lambda>tm2. case tm2 of None \<Rightarrow> ret None
         | Some v2 \<Rightarrow> ret (if luaO_rawequalObj v1 v2 then Some v1 else None)))"

definition call_orderTM :: "(nat \<Rightarrow> int \<Rightarrow> ('z lua_State_scheme, unit) prog)
    \<Rightarrow> TValue \<Rightarrow> TValue \<Rightarrow> TMS \<Rightarrow> ('z lua_State_scheme, bool option) prog" where
  "call_orderTM C p1 p2 event =
     bnd (luaT_gettmbyobj p1 event) (\<lambda>tm1.
       if tm1 = TNil then ret None
       else bnd (luaT_gettmbyobj p2 event) (\<lambda>tm2.
         if \<not> luaO_rawequalObj tm1 tm2 then ret None
         else bnd (callTMres C tm1 p1 p2) (\<lambda>v. ret (Some (\<not> l_isfalse v)))))"

section \<open>Comparisons\<close>

text \<open>IEEE order: no NaN is in it, and the two zeros are equal.\<close>

definition num_key :: "lua_Number \<Rightarrow> int" where
  "num_key w = (if num_neg w then - int (unat w - 2 ^ 63) else int (unat w))"

definition luai_numlt :: "lua_Number \<Rightarrow> lua_Number \<Rightarrow> bool" where
  "luai_numlt a b \<longleftrightarrow> \<not> num_nan a \<and> \<not> num_nan b \<and> num_key a < num_key b"

text \<open>\<open>l_strcmp\<close>: the collation compares up to the first zero byte, then the rest after it.\<close>

function l_strcmp :: "(bytes \<Rightarrow> bytes \<Rightarrow> int) \<Rightarrow> bytes \<Rightarrow> bytes \<Rightarrow> int" where
  "l_strcmp coll l r =
     (let temp = coll (c_string l) (c_string r)
      in if temp \<noteq> 0 then temp
         else
           (let len = length (c_string l)
            in if len = length r then (if len = length l then 0 else 1)
               else if len = length l then - 1
               else l_strcmp coll (drop (len + 1) l) (drop (len + 1) r)))"
  by pat_completeness auto
termination
proof (relation "measure (\<lambda>(c, l, r). length l)", goal_cases)
  case (2 coll l r temp len)
  have "length (c_string l) \<le> length l" by (simp add: c_string_def length_takeWhile_le)
  then show ?case using 2 by simp
qed simp

declare l_strcmp.simps [simp del]

definition luaV_lessthan :: "('z lua_State_scheme, 'h) host_scheme \<Rightarrow> (nat \<Rightarrow> int \<Rightarrow> ('z lua_State_scheme, unit) prog)
    \<Rightarrow> TValue \<Rightarrow> TValue \<Rightarrow> ('z lua_State_scheme, bool) prog" where
  "luaV_lessthan H C l r =
     (if ttype l \<noteq> ttype r then luaG_ordererror l r
      else case (l, r) of
        (TNumber a, TNumber b) \<Rightarrow> ret (luai_numlt a b)
      | (TString a, TString b) \<Rightarrow> ret (l_strcmp (strcoll H) a b < 0)
      | _ \<Rightarrow> bnd (call_orderTM C l r TM_LT) (\<lambda>res. case res of Some b \<Rightarrow> ret b | None \<Rightarrow> luaG_ordererror l r))"

text \<open>\<open>equalobj\<close>: the types are compared first, then \<open>luaV_equalval\<close>.\<close>

definition luaV_equalval :: "(nat \<Rightarrow> int \<Rightarrow> ('z lua_State_scheme, unit) prog)
    \<Rightarrow> TValue \<Rightarrow> TValue \<Rightarrow> ('z lua_State_scheme, bool) prog" where
  "luaV_equalval C t1 t2 =
     (let try_tm = (\<lambda>mt1 mt2. bnd (get_compTM mt1 mt2 TM_EQ) (\<lambda>tm. case tm of None \<Rightarrow> ret False
            | Some tm \<Rightarrow> bnd (callTMres C tm t1 t2) (\<lambda>v. ret (\<not> l_isfalse v))))
      in case (t1, t2) of
        (TNil, TNil) \<Rightarrow> ret True
      | (TNumber a, TNumber b) \<Rightarrow> ret (luai_numeq a b)
      | (TBoolean a, TBoolean b) \<Rightarrow> ret (a = b)
      | (TLightUserdata a, TLightUserdata b) \<Rightarrow> ret (a = b)
      | (TUserdata a, TUserdata b) \<Rightarrow>
          if a = b then ret True
          else bnd (uvalue t1) (\<lambda>(_, u1). bnd (uvalue t2) (\<lambda>(_, u2). try_tm (u_metatable u1) (u_metatable u2)))
      | (TTable a, TTable b) \<Rightarrow>
          if a = b then ret True
          else bnd (hvalue t1) (\<lambda>(_, h1). bnd (hvalue t2) (\<lambda>(_, h2). try_tm (metatable h1) (metatable h2)))
      | _ \<Rightarrow> ret (t1 = t2))"

definition equalobj :: "(nat \<Rightarrow> int \<Rightarrow> ('z lua_State_scheme, unit) prog)
    \<Rightarrow> TValue \<Rightarrow> TValue \<Rightarrow> ('z lua_State_scheme, bool) prog" where
  "equalobj C o1 o2 = (if ttype o1 = ttype o2 then luaV_equalval C o1 o2 else ret False)"

section \<open>Concatenation\<close>

definition MAX_SIZET :: nat where "MAX_SIZET = 2 ^ 64 - 3"

definition tostring_slot :: "('z lua_State_scheme, 'h) host_scheme \<Rightarrow> nat \<Rightarrow> ('z lua_State_scheme, bool) prog" where
  "tostring_slot H i s =
     (case tostring_value H (stack s ! i) of
        Some v \<Rightarrow> bnd (write_addr (Stk i) v) (\<lambda>_. ret True) s
      | None \<Rightarrow> Val False s)"

definition slot_string :: "nat \<Rightarrow> 'z lua_State_scheme \<Rightarrow> bytes" where
  "slot_string i s = (case stack s ! i of TString b \<Rightarrow> b | _ \<Rightarrow> [])"

text \<open>
  The operands from \<open>lst - 1\<close> down that are strings, or numbers that become strings: \<open>m\<close> are
  left to look at, \<open>n\<close> were found, their lengths sum up to \<open>len\<close>.
\<close>

primrec concat_collect :: "('z lua_State_scheme, 'h) host_scheme \<Rightarrow> nat \<Rightarrow> nat \<Rightarrow> nat \<Rightarrow> nat
    \<Rightarrow> ('z lua_State_scheme, nat) prog" where
  "concat_collect H lst 0 n len = ret n"
| "concat_collect H lst (Suc m) n len =
     bnd (tostring_slot H (lst - n)) (\<lambda>ok.
       if \<not> ok then ret n
       else bnd (get (\<lambda>s. length (slot_string (lst - n) s))) (\<lambda>l.
         if MAX_SIZET - len \<le> l then luaG_runerror ''string length overflow''
         else concat_collect H lst m (Suc n) (len + l)))"

text \<open>One pass of \<open>luaV_concat\<close>; the result is the number of operands it replaced by one.\<close>

definition concat_pass :: "('z lua_State_scheme, 'h) host_scheme \<Rightarrow> (nat \<Rightarrow> int \<Rightarrow> ('z lua_State_scheme, unit) prog)
    \<Rightarrow> nat \<Rightarrow> nat \<Rightarrow> ('z lua_State_scheme, nat) prog" where
  "concat_pass H C ntotal lst =
     bnd (get (\<lambda>s. stack s ! (lst - 1))) (\<lambda>p1.
     bnd (if ttype p1 = LUA_TSTRING \<or> ttype p1 = LUA_TNUMBER then tostring_slot H lst else ret False) (\<lambda>ok.
       if \<not> ok then
         bnd (get (\<lambda>s. stack s ! lst)) (\<lambda>p2.
         bnd (call_binTM C p1 p2 TM_CONCAT) (\<lambda>r. case r of
             None \<Rightarrow> luaG_concaterror p1 p2
           | Some v \<Rightarrow> seq (write_addr (Stk (lst - 1)) v) (ret 2)))
       else
         bnd (get (slot_string lst)) (\<lambda>b.
           if b = [] then bnd (tostring_slot H (lst - 1)) (\<lambda>_. ret 2)
           else
             bnd (concat_collect H lst (ntotal - 1) 1 (length b)) (\<lambda>n.
             bnd (get (\<lambda>s. concat (map (\<lambda>i. slot_string i s) [lst + 1 - n..<lst + 1]))) (\<lambda>buffer.
             seq (write_addr (Stk (lst + 1 - n)) (TString buffer)) (ret n))))))"

primrec concat_loop :: "nat \<Rightarrow> ('z lua_State_scheme, 'h) host_scheme
    \<Rightarrow> (nat \<Rightarrow> int \<Rightarrow> ('z lua_State_scheme, unit) prog) \<Rightarrow> nat \<Rightarrow> nat \<Rightarrow> ('z lua_State_scheme, unit) prog" where
  "concat_loop 0 H C ntotal lst = undef"
| "concat_loop (Suc f) H C ntotal lst =
     bnd (concat_pass H C ntotal lst) (\<lambda>n.
       let ntotal' = ntotal - (n - 1)
       in if 1 < ntotal' then concat_loop f H C ntotal' (lst - (n - 1)) else ret ())"

definition luaV_concat :: "('z lua_State_scheme, 'h) host_scheme
    \<Rightarrow> (nat \<Rightarrow> int \<Rightarrow> ('z lua_State_scheme, unit) prog) \<Rightarrow> nat \<Rightarrow> nat \<Rightarrow> ('z lua_State_scheme, unit) prog" where
  "luaV_concat H C ntotal lst = concat_loop ntotal H C ntotal lst"

end
