(* ===== verification/Api.thy ===== *)
theory Api
  imports Meta
begin

text \<open>
  The Lua API (\<open>lapi.c\<close>), one definition per function. An argument \<open>C\<close> is \<open>luaD_call\<close> (theory
  Meta), \<open>H\<close> are the functions from outside. An index outside the frame is \<open>Undef\<close> where the
  code would touch the memory there; a positive index past the top denotes the nil object, as
  in the code. Threads, the collector and chunks (\<open>lua_load\<close>, \<open>lua_dump\<close>) are left out.
\<close>

section \<open>Stack manipulation\<close>

definition lua_checkstack :: "int \<Rightarrow> ('z lua_State_scheme, bool) prog" where
  "lua_checkstack sz s =
     (if LUAI_MAXCSTACK < sz \<or> LUAI_MAXCSTACK < int (length (stack s)) + sz then Val False s
      else Val True (s\<lparr>ci_top := (if 0 < sz then max (ci_top s) (length (stack s) + nat sz) else ci_top s)\<rparr>))"

definition lua_gettop :: "('z lua_State_scheme, int) prog" where
  "lua_gettop = get (\<lambda>s. int (length (stack s)))"

definition lua_settop :: "int \<Rightarrow> ('z lua_State_scheme, unit) prog" where
  "lua_settop idx s =
     (if 0 \<le> idx then
        (if int (ci_top s) < idx then Undef
         else Val () (s\<lparr>stack := take (nat idx) (stack s) @ replicate (nat idx - length (stack s)) TNil\<rparr>))
      else if - (idx + 1) \<le> int (length (stack s))
      then Val () (s\<lparr>stack := take (nat (int (length (stack s)) + idx + 1)) (stack s)\<rparr>)
      else Undef)"

definition lua_pop :: "int \<Rightarrow> ('z lua_State_scheme, unit) prog" where
  "lua_pop n = lua_settop (- n - 1)"

text \<open>\<open>lua_remove\<close> and \<open>lua_insert\<close> shift slots, so their index must be one of the stack.\<close>

definition lua_remove :: "int \<Rightarrow> ('z lua_State_scheme, unit) prog" where
  "lua_remove idx = bnd (index2adr idx) (\<lambda>a. case a of
       Stk p \<Rightarrow> upd (\<lambda>s. s\<lparr>stack := take p (stack s) @ drop (p + 1) (stack s)\<rparr>)
     | _ \<Rightarrow> undef)"

definition lua_insert :: "int \<Rightarrow> ('z lua_State_scheme, unit) prog" where
  "lua_insert idx = bnd (index2adr idx) (\<lambda>a. case a of
       Stk p \<Rightarrow> upd (\<lambda>s. s\<lparr>stack := take p (stack s) @ last (stack s) # drop p (butlast (stack s))\<rparr>)
     | _ \<Rightarrow> undef)"

definition set_curr_env :: "u64 \<Rightarrow> ('z lua_State_scheme, unit) prog" where
  "set_curr_env e s = (case func s of
       Some a \<Rightarrow> (case closures s a of
           Some cl \<Rightarrow> Val () (s\<lparr>closures := (closures s)(a \<mapsto> set_closure_env e cl)\<rparr>) | None \<Rightarrow> Undef)
     | None \<Rightarrow> Undef)"

definition lua_replace :: "int \<Rightarrow> ('z lua_State_scheme, unit) prog" where
  "lua_replace idx =
     seq (bnd (get func) (\<lambda>f. if idx = LUA_ENVIRONINDEX \<and> f = None then luaG_runerror ''no calling environment'' else ret ()))
     (bnd (top_value 1) (\<lambda>v.
      bnd (index2adr idx) (\<lambda>a.
        seq (if idx = LUA_ENVIRONINDEX then (case v of TTable e \<Rightarrow> set_curr_env e | _ \<Rightarrow> undef)
             else write_addr a v)
          (drop_top 1))))"

definition lua_pushvalue :: "int \<Rightarrow> ('z lua_State_scheme, unit) prog" where
  "lua_pushvalue idx = bnd (index_value idx) luaA_pushobject"

section \<open>Access\<close>

definition lua_type :: "int \<Rightarrow> ('z lua_State_scheme, int) prog" where
  "lua_type idx = bnd (index2adr idx) (\<lambda>a. if a = NilObject then ret LUA_TNONE else get (\<lambda>s. ttype (read_addr a s)))"

definition lua_typename :: "int \<Rightarrow> string" where
  "lua_typename t = (if t = LUA_TNONE then ''no value'' else luaT_typenames ! nat t)"

definition is_type :: "int \<Rightarrow> int \<Rightarrow> ('z lua_State_scheme, bool) prog" where
  "is_type t idx = bnd (lua_type idx) (\<lambda>t'. ret (t' = t))"

definition lua_isnil :: "int \<Rightarrow> ('z lua_State_scheme, bool) prog" where "lua_isnil = is_type LUA_TNIL"
definition lua_isboolean :: "int \<Rightarrow> ('z lua_State_scheme, bool) prog" where "lua_isboolean = is_type LUA_TBOOLEAN"
definition lua_isfunction :: "int \<Rightarrow> ('z lua_State_scheme, bool) prog" where "lua_isfunction = is_type LUA_TFUNCTION"
definition lua_istable :: "int \<Rightarrow> ('z lua_State_scheme, bool) prog" where "lua_istable = is_type LUA_TTABLE"
definition lua_isthread :: "int \<Rightarrow> ('z lua_State_scheme, bool) prog" where "lua_isthread = is_type LUA_TTHREAD"

definition lua_tocfunction :: "int \<Rightarrow> ('z lua_State_scheme, cfunction option) prog" where
  "lua_tocfunction idx = bnd (index_value idx) (\<lambda>v.
     if is_function v then bnd (clvalue v) (\<lambda>(_, c). ret (case c of CClosure e f uv \<Rightarrow> Some f | _ \<Rightarrow> None))
     else ret None)"

definition lua_iscfunction :: "int \<Rightarrow> ('z lua_State_scheme, bool) prog" where
  "lua_iscfunction idx = bnd (lua_tocfunction idx) (\<lambda>f. ret (f \<noteq> None))"

definition lua_isnumber :: "('s, 'h) host_scheme \<Rightarrow> int \<Rightarrow> ('z lua_State_scheme, bool) prog" where
  "lua_isnumber H idx = bnd (index_value idx) (\<lambda>v. ret (luaV_tonumber H v \<noteq> None))"

definition lua_isstring :: "int \<Rightarrow> ('z lua_State_scheme, bool) prog" where
  "lua_isstring idx = bnd (lua_type idx) (\<lambda>t. ret (t = LUA_TSTRING \<or> t = LUA_TNUMBER))"

definition lua_isuserdata :: "int \<Rightarrow> ('z lua_State_scheme, bool) prog" where
  "lua_isuserdata idx = bnd (index_value idx) (\<lambda>v. ret (ttype v \<in> {2, 7}))"

definition two_values :: "int \<Rightarrow> int \<Rightarrow> (TValue \<Rightarrow> TValue \<Rightarrow> ('z lua_State_scheme, bool) prog)
    \<Rightarrow> ('z lua_State_scheme, bool) prog" where
  "two_values index1 index2 f =
     bnd (index2adr index1) (\<lambda>a1. bnd (index2adr index2) (\<lambda>a2.
       if a1 = NilObject \<or> a2 = NilObject then ret False
       else bnd (get (read_addr a1)) (\<lambda>o1. bnd (get (read_addr a2)) (\<lambda>o2. f o1 o2))))"

definition lua_rawequal :: "int \<Rightarrow> int \<Rightarrow> ('z lua_State_scheme, bool) prog" where
  "lua_rawequal index1 index2 = two_values index1 index2 (\<lambda>o1 o2. ret (luaO_rawequalObj o1 o2))"

definition lua_equal :: "(nat \<Rightarrow> int \<Rightarrow> ('z lua_State_scheme, unit) prog) \<Rightarrow> int \<Rightarrow> int
    \<Rightarrow> ('z lua_State_scheme, bool) prog" where
  "lua_equal C index1 index2 = two_values index1 index2 (equalobj C)"

definition lua_lessthan :: "('z lua_State_scheme, 'h) host_scheme \<Rightarrow> (nat \<Rightarrow> int \<Rightarrow> ('z lua_State_scheme, unit) prog)
    \<Rightarrow> int \<Rightarrow> int \<Rightarrow> ('z lua_State_scheme, bool) prog" where
  "lua_lessthan H C index1 index2 = two_values index1 index2 (luaV_lessthan H C)"

definition lua_tonumber :: "('s, 'h) host_scheme \<Rightarrow> int \<Rightarrow> ('z lua_State_scheme, lua_Number) prog" where
  "lua_tonumber H idx = bnd (index_value idx) (\<lambda>v. ret (case luaV_tonumber H v of Some n \<Rightarrow> n | None \<Rightarrow> 0))"

text \<open>
  \<open>lua_number2integer\<close>: truncation to 64 bits. Outside that range C leaves the result
  undefined; the model takes the value the x86-64 instruction gives.
\<close>

definition lua_number2integer :: "lua_Number \<Rightarrow> int" where
  "lua_number2integer d =
     (let e = num_exp d; m = 2 ^ 52 + num_man d
      in if e < 1023 then 0
         else if e \<le> 1085 then
           (let n = int (if e \<le> 1075 then m div 2 ^ (1075 - e) else m * 2 ^ (e - 1075))
            in if num_neg d then - n else n)
         else - (2 ^ 63))"

definition lua_tointeger :: "('s, 'h) host_scheme \<Rightarrow> int \<Rightarrow> ('z lua_State_scheme, int) prog" where
  "lua_tointeger H idx = bnd (index_value idx) (\<lambda>v.
     ret (case luaV_tonumber H v of Some n \<Rightarrow> lua_number2integer n | None \<Rightarrow> 0))"

definition lua_toboolean :: "int \<Rightarrow> ('z lua_State_scheme, bool) prog" where
  "lua_toboolean idx = bnd (index_value idx) (\<lambda>v. ret (\<not> l_isfalse v))"

text \<open>\<open>lua_tolstring\<close> turns a number in place into a string; its result is the string or \<open>NULL\<close>.\<close>

definition lua_tolstring :: "('s, 'h) host_scheme \<Rightarrow> int \<Rightarrow> ('z lua_State_scheme, bytes option) prog" where
  "lua_tolstring H idx = bnd (index2adr idx) (\<lambda>a. bnd (get (read_addr a)) (\<lambda>v.
     case v of TString b \<Rightarrow> ret (Some b)
     | _ \<Rightarrow> (case luaV_tostring H v of
           Some v' \<Rightarrow> seq (write_addr a v') (ret (case v' of TString b \<Rightarrow> Some b | _ \<Rightarrow> None))
         | None \<Rightarrow> ret None)))"

definition lua_objlen :: "('s, 'h) host_scheme \<Rightarrow> int \<Rightarrow> ('z lua_State_scheme, nat) prog" where
  "lua_objlen H idx = bnd (index2adr idx) (\<lambda>a. bnd (get (read_addr a)) (\<lambda>v.
     case v of
       TString b \<Rightarrow> ret (length b)
     | TUserdata _ \<Rightarrow> bnd (uvalue v) (\<lambda>(_, u). ret (u_len u))
     | TTable _ \<Rightarrow> bnd (hvalue v) (\<lambda>(_, t). case luaH_getn t of Some n \<Rightarrow> ret n | None \<Rightarrow> undef)
     | TNumber _ \<Rightarrow> bnd (lua_tolstring H idx) (\<lambda>b. ret (case b of Some b \<Rightarrow> length b | None \<Rightarrow> 0))
     | _ \<Rightarrow> ret 0))"

text \<open>
  What \<open>lua_touserdata\<close> points to: the block of a full userdata, an address from outside, or
  nothing. The code reads the block as one pointer (\<open>deref\<close>); reading through an address
  from outside, or through \<open>NULL\<close>, is \<open>Undef\<close>.
\<close>

datatype pointer = Block u64 | Outside u64 | NullPtr

definition lua_touserdata :: "int \<Rightarrow> ('z lua_State_scheme, pointer) prog" where
  "lua_touserdata idx = bnd (index_value idx) (\<lambda>v.
     ret (case v of TUserdata a \<Rightarrow> Block a | TLightUserdata p \<Rightarrow> Outside p | _ \<Rightarrow> NullPtr))"

definition deref :: "pointer \<Rightarrow> ('z lua_State_scheme, u64) prog" where
  "deref p = (case p of Block a \<Rightarrow> bnd (uvalue (TUserdata a)) (\<lambda>(_, u). ret (u_data u)) | _ \<Rightarrow> undef)"

definition set_block :: "u64 \<Rightarrow> u64 \<Rightarrow> ('z lua_State_scheme, unit) prog" where
  "set_block a p = bnd (uvalue (TUserdata a)) (\<lambda>(_, u).
     upd (\<lambda>s. s\<lparr>udatas := (udatas s)(a \<mapsto> u\<lparr>u_data := p\<rparr>)\<rparr>))"

definition lua_topointer :: "int \<Rightarrow> ('z lua_State_scheme, u64) prog" where
  "lua_topointer idx = bnd (index_value idx) (\<lambda>v. ret (case v of TTable a \<Rightarrow> a | TFunction a \<Rightarrow> a | TThread a \<Rightarrow> a
     | TUserdata a \<Rightarrow> a | TLightUserdata p \<Rightarrow> p | _ \<Rightarrow> 0))"

section \<open>Push\<close>

definition lua_pushnil :: "('z lua_State_scheme, unit) prog" where "lua_pushnil = luaA_pushobject TNil"
definition lua_pushnumber :: "lua_Number \<Rightarrow> ('z lua_State_scheme, unit) prog" where
  "lua_pushnumber n = luaA_pushobject (TNumber n)"
definition lua_pushinteger :: "int \<Rightarrow> ('z lua_State_scheme, unit) prog" where
  "lua_pushinteger n = luaA_pushobject (TNumber (cast_num n))"
definition lua_pushlstring :: "bytes \<Rightarrow> ('z lua_State_scheme, unit) prog" where
  "lua_pushlstring b = luaA_pushobject (TString b)"
definition lua_pushstring :: "bytes option \<Rightarrow> ('z lua_State_scheme, unit) prog" where
  "lua_pushstring b = (case b of None \<Rightarrow> lua_pushnil | Some b \<Rightarrow> lua_pushlstring (c_string b))"
definition lua_pushliteral :: "string \<Rightarrow> ('z lua_State_scheme, unit) prog" where
  "lua_pushliteral str = lua_pushlstring (lit str)"
definition lua_pushboolean :: "bool \<Rightarrow> ('z lua_State_scheme, unit) prog" where
  "lua_pushboolean b = luaA_pushobject (TBoolean b)"
definition lua_pushlightuserdata :: "u64 \<Rightarrow> ('z lua_State_scheme, unit) prog" where
  "lua_pushlightuserdata p = luaA_pushobject (TLightUserdata p)"

text \<open>The number of upvalues is kept in a byte.\<close>

definition lua_pushcclosure :: "cfunction \<Rightarrow> int \<Rightarrow> ('z lua_State_scheme, unit) prog" where
  "lua_pushcclosure fn n s =
     (if n < 0 \<or> int (length (stack s)) < n then Undef
      else
        (let m = length (stack s) - nat n; uv = take (nat n mod 256) (drop m (stack s))
         in bnd getcurrenv (\<lambda>e. bnd alloc (\<lambda>a.
              seq (upd (\<lambda>s. s\<lparr>closures := (closures s)(a \<mapsto> CClosure e fn uv), stack := take m (stack s)\<rparr>))
                (luaA_pushobject (TFunction a)))) s))"

definition lua_pushcfunction :: "cfunction \<Rightarrow> ('z lua_State_scheme, unit) prog" where
  "lua_pushcfunction f = lua_pushcclosure f 0"

definition lua_newuserdata :: "nat \<Rightarrow> ('z lua_State_scheme, u64) prog" where
  "lua_newuserdata sz =
     bnd getcurrenv (\<lambda>e. bnd alloc (\<lambda>a.
       seq (upd (\<lambda>s. s\<lparr>udatas := (udatas s)(a \<mapsto> \<lparr>u_metatable = None, u_env = e, u_len = sz, u_data = 0\<rparr>)\<rparr>))
       (seq (luaA_pushobject (TUserdata a)) (ret a))))"

section \<open>Get\<close>

definition lua_gettable :: "(nat \<Rightarrow> int \<Rightarrow> ('z lua_State_scheme, unit) prog) \<Rightarrow> int \<Rightarrow> ('z lua_State_scheme, unit) prog" where
  "lua_gettable C idx = bnd (index_value idx) (\<lambda>t. bnd (top_value 1) (\<lambda>key.
     bnd (luaV_gettable C t key) set_top_value))"

definition lua_getfield :: "(nat \<Rightarrow> int \<Rightarrow> ('z lua_State_scheme, unit) prog) \<Rightarrow> int \<Rightarrow> bytes
    \<Rightarrow> ('z lua_State_scheme, unit) prog" where
  "lua_getfield C idx k = bnd (index_value idx) (\<lambda>t.
     bnd (luaV_gettable C t (TString (c_string k))) luaA_pushobject)"

definition lua_getglobal :: "(nat \<Rightarrow> int \<Rightarrow> ('z lua_State_scheme, unit) prog) \<Rightarrow> bytes \<Rightarrow> ('z lua_State_scheme, unit) prog" where
  "lua_getglobal C name = lua_getfield C LUA_GLOBALSINDEX name"

definition lua_rawget :: "int \<Rightarrow> ('z lua_State_scheme, unit) prog" where
  "lua_rawget idx = bnd (index_value idx) (\<lambda>v. bnd (hvalue v) (\<lambda>(_, t). bnd (top_value 1) (\<lambda>key.
     bnd (lookup_prog t (luaH_get t key)) set_top_value)))"

definition lua_rawgeti :: "int \<Rightarrow> int \<Rightarrow> ('z lua_State_scheme, unit) prog" where
  "lua_rawgeti idx n = bnd (index_value idx) (\<lambda>v. bnd (hvalue v) (\<lambda>(_, t).
     bnd (lookup_prog t (luaH_getnum t n)) luaA_pushobject))"

definition lua_createtable :: "int \<Rightarrow> int \<Rightarrow> ('z lua_State_scheme, unit) prog" where
  "lua_createtable narray nrec =
     (if narray < 0 \<or> nrec < 0 then undef
      else bnd alloc (\<lambda>a. bnd (lift_outcome (luaH_new (nat narray) (nat nrec))) (\<lambda>t.
        seq (put_table a t) (luaA_pushobject (TTable a)))))"

definition lua_newtable :: "('z lua_State_scheme, unit) prog" where "lua_newtable = lua_createtable 0 0"

definition lua_getmetatable :: "int \<Rightarrow> ('z lua_State_scheme, bool) prog" where
  "lua_getmetatable objindex = bnd (index_value objindex) (\<lambda>v. bnd (metatable_of v) (\<lambda>mt.
     case mt of None \<Rightarrow> ret False | Some a \<Rightarrow> seq (luaA_pushobject (TTable a)) (ret True)))"

text \<open>Threads have the globals of the one thread of the model.\<close>

definition lua_getfenv :: "int \<Rightarrow> ('z lua_State_scheme, unit) prog" where
  "lua_getfenv idx = bnd (index_value idx) (\<lambda>v. bnd
     (case v of
        TFunction _ \<Rightarrow> bnd (clvalue v) (\<lambda>(_, c). ret (TTable (closure_env c)))
      | TUserdata _ \<Rightarrow> bnd (uvalue v) (\<lambda>(_, u). ret (TTable (u_env u)))
      | TThread _ \<Rightarrow> get l_gt
      | _ \<Rightarrow> ret TNil) luaA_pushobject)"

section \<open>Set\<close>

definition lua_settable :: "(nat \<Rightarrow> int \<Rightarrow> ('z lua_State_scheme, unit) prog) \<Rightarrow> int \<Rightarrow> ('z lua_State_scheme, unit) prog" where
  "lua_settable C idx = bnd (top_value 2) (\<lambda>key. bnd (top_value 1) (\<lambda>val. bnd (index_value idx) (\<lambda>t.
     seq (luaV_settable C t key val) (drop_top 2))))"

definition lua_setfield :: "(nat \<Rightarrow> int \<Rightarrow> ('z lua_State_scheme, unit) prog) \<Rightarrow> int \<Rightarrow> bytes
    \<Rightarrow> ('z lua_State_scheme, unit) prog" where
  "lua_setfield C idx k = bnd (top_value 1) (\<lambda>val. bnd (index_value idx) (\<lambda>t.
     seq (luaV_settable C t (TString (c_string k)) val) (drop_top 1)))"

definition lua_setglobal :: "(nat \<Rightarrow> int \<Rightarrow> ('z lua_State_scheme, unit) prog) \<Rightarrow> bytes \<Rightarrow> ('z lua_State_scheme, unit) prog" where
  "lua_setglobal C name = lua_setfield C LUA_GLOBALSINDEX name"

definition lua_rawset :: "int \<Rightarrow> ('z lua_State_scheme, unit) prog" where
  "lua_rawset idx = bnd (top_value 2) (\<lambda>key. bnd (top_value 1) (\<lambda>val. bnd (index_value idx) (\<lambda>v.
     bnd (hvalue v) (\<lambda>(a, t). bnd (lift_outcome (luaH_set t key)) (\<lambda>(t', slot).
       seq (put_table a (put_slot t' slot val)) (drop_top 2))))))"

definition lua_rawseti :: "int \<Rightarrow> int \<Rightarrow> ('z lua_State_scheme, unit) prog" where
  "lua_rawseti idx n = bnd (top_value 1) (\<lambda>val. bnd (index_value idx) (\<lambda>v.
     bnd (hvalue v) (\<lambda>(a, t). bnd (lift_outcome (luaH_setnum t n)) (\<lambda>(t', slot).
       seq (put_table a (put_slot t' slot val)) (drop_top 1)))))"

definition top_table :: "('z lua_State_scheme, u64 option) prog" where
  "top_table = bnd (top_value 1) (\<lambda>v. case v of TNil \<Rightarrow> ret None | TTable a \<Rightarrow> ret (Some a) | _ \<Rightarrow> undef)"

definition lua_setmetatable :: "int \<Rightarrow> ('z lua_State_scheme, bool) prog" where
  "lua_setmetatable objindex = bnd (index_value objindex) (\<lambda>v. bnd top_table (\<lambda>mt.
     seq (case v of
         TTable _ \<Rightarrow> bnd (hvalue v) (\<lambda>(a, t). put_table a (t\<lparr>metatable := mt\<rparr>))
       | TUserdata _ \<Rightarrow> bnd (uvalue v) (\<lambda>(a, u). upd (\<lambda>s. s\<lparr>udatas := (udatas s)(a \<mapsto> u\<lparr>u_metatable := mt\<rparr>)\<rparr>))
       | _ \<Rightarrow> upd (\<lambda>s. s\<lparr>g_mt := (g_mt s)(nat (ttype v) := mt)\<rparr>))
     (seq (drop_top 1) (ret True))))"

definition lua_setfenv :: "int \<Rightarrow> ('z lua_State_scheme, bool) prog" where
  "lua_setfenv idx = bnd (index_value idx) (\<lambda>v. bnd (top_value 1) (\<lambda>env.
     case env of
       TTable e \<Rightarrow>
         bnd (case v of
             TFunction _ \<Rightarrow> bnd (clvalue v) (\<lambda>(a, c).
               seq (upd (\<lambda>s. s\<lparr>closures := (closures s)(a \<mapsto> set_closure_env e c)\<rparr>)) (ret True))
           | TUserdata _ \<Rightarrow> bnd (uvalue v) (\<lambda>(a, u).
               seq (upd (\<lambda>s. s\<lparr>udatas := (udatas s)(a \<mapsto> u\<lparr>u_env := e\<rparr>)\<rparr>)) (ret True))
           | TThread _ \<Rightarrow> seq (upd (\<lambda>s. s\<lparr>l_gt := TTable e\<rparr>)) (ret True)
           | _ \<Rightarrow> ret False)
           (\<lambda>res. seq (drop_top 1) (ret res))
     | _ \<Rightarrow> undef))"

section \<open>Calls and the rest\<close>

definition adjustresults :: "int \<Rightarrow> ('z lua_State_scheme, unit) prog" where
  "adjustresults nres = upd (\<lambda>s. if nres = LUA_MULTRET \<and> ci_top s \<le> length (stack s)
     then s\<lparr>ci_top := length (stack s)\<rparr> else s)"

definition lua_call :: "(nat \<Rightarrow> int \<Rightarrow> ('z lua_State_scheme, unit) prog) \<Rightarrow> nat \<Rightarrow> int
    \<Rightarrow> ('z lua_State_scheme, unit) prog" where
  "lua_call C nargs nresults = seq (C nargs nresults) (adjustresults nresults)"

text \<open>\<open>lua_pcall\<close> with no message handler.\<close>

definition lua_pcall :: "(nat \<Rightarrow> int \<Rightarrow> ('z lua_State_scheme, unit) prog) \<Rightarrow> nat \<Rightarrow> int
    \<Rightarrow> ('z lua_State_scheme, int) prog" where
  "lua_pcall C nargs nresults s =
     (if length (stack s) \<le> nargs then Undef
      else bnd (luaD_pcall (C nargs nresults) (length (stack s) - (nargs + 1)))
             (\<lambda>status. seq (adjustresults nresults) (ret status)) s)"

definition lua_error :: "('z lua_State_scheme, 'a) prog" where
  "lua_error = seq (bnd (top_value 1) (\<lambda>_. ret ())) (raise LUA_ERRRUN)"

definition lua_next :: "('s, 'h) host_scheme \<Rightarrow> int \<Rightarrow> ('z lua_State_scheme, bool) prog" where
  "lua_next H idx = bnd (index_value idx) (\<lambda>v. bnd (hvalue v) (\<lambda>(_, t). bnd (top_value 1) (\<lambda>key.
     bnd (lift_outcome (luaH_next (gcvalue H) t key)) (\<lambda>more.
       case more of
         Some (k, x) \<Rightarrow> seq (set_top_value k) (seq (luaA_pushobject x) (ret True))
       | None \<Rightarrow> seq (drop_top 1) (ret False)))))"

definition lua_concat :: "('z lua_State_scheme, 'h) host_scheme \<Rightarrow> (nat \<Rightarrow> int \<Rightarrow> ('z lua_State_scheme, unit) prog)
    \<Rightarrow> nat \<Rightarrow> ('z lua_State_scheme, unit) prog" where
  "lua_concat H C n s =
     (if length (stack s) < n then Undef
      else if 2 \<le> n then seq (luaV_concat H C n (length (stack s) - 1)) (drop_top (n - 1)) s
      else if n = 0 then lua_pushlstring [] s
      else Val () s)"

text \<open>\<open>aux_upvalue\<close>: the value of an upvalue, if there is one with this number.\<close>

definition aux_upvalue :: "TValue \<Rightarrow> int \<Rightarrow> ('z lua_State_scheme, (bytes \<times> TValue) option) prog" where
  "aux_upvalue fi n =
     (if \<not> is_function fi then ret None
      else bnd (clvalue fi) (\<lambda>(_, c). case c of
          CClosure e f uv \<Rightarrow> ret (if 1 \<le> n \<and> n \<le> int (length uv) then Some ([], uv ! nat (n - 1)) else None)
        | LClosure e p uv \<Rightarrow>
            (if 1 \<le> n \<and> n \<le> int (length uv)
             then bnd (get (\<lambda>s. upvals s (snd (uv ! nat (n - 1))))) (\<lambda>v.
                 case v of Some v \<Rightarrow> ret (Some (fst (uv ! nat (n - 1)), v)) | None \<Rightarrow> undef)
             else ret None)))"

definition lua_getupvalue :: "int \<Rightarrow> int \<Rightarrow> ('z lua_State_scheme, bytes option) prog" where
  "lua_getupvalue funcindex n = bnd (index_value funcindex) (\<lambda>fi. bnd (aux_upvalue fi n) (\<lambda>r.
     case r of None \<Rightarrow> ret None | Some (name, v) \<Rightarrow> seq (luaA_pushobject v) (ret (Some name))))"

end
