(* ===== verification/Auxlib.thy ===== *)
theory Auxlib
  imports Api
begin

text \<open>
  The auxiliary library (\<open>lauxlib.c\<close>): metatables by name, metafields, tables by dotted
  name, references, and errors.
\<close>

section \<open>Integers\<close>

text \<open>A conversion to \<open>int\<close>, and \<open>int\<close> arithmetic as it is compiled, keep the low 32 bits.\<close>

definition to_int :: "int \<Rightarrow> int" where "to_int i = signed_take_bit 31 i"

lemma to_int_id: "- (2 ^ 31) \<le> i \<Longrightarrow> i < 2 ^ 31 \<Longrightarrow> to_int i = i"
  by (simp add: to_int_def signed_take_bit_int_eq_self)

section \<open>Metatables\<close>

definition abs_index :: "int \<Rightarrow> ('z lua_State_scheme, int) prog" where
  "abs_index i = (if 0 < i \<or> i \<le> LUA_REGISTRYINDEX then ret i else bnd lua_gettop (\<lambda>top. ret (top + i + 1)))"

definition luaL_getmetatable :: "(nat \<Rightarrow> int \<Rightarrow> ('z lua_State_scheme, unit) prog) \<Rightarrow> bytes
    \<Rightarrow> ('z lua_State_scheme, unit) prog" where
  "luaL_getmetatable C n = lua_getfield C LUA_REGISTRYINDEX n"

definition luaL_newmetatable :: "(nat \<Rightarrow> int \<Rightarrow> ('z lua_State_scheme, unit) prog) \<Rightarrow> bytes
    \<Rightarrow> ('z lua_State_scheme, bool) prog" where
  "luaL_newmetatable C tname =
     seq (lua_getfield C LUA_REGISTRYINDEX tname)
       (bnd (lua_isnil (-1)) (\<lambda>n.
          if \<not> n then ret False
          else seq (steps [lua_pop 1, lua_newtable, lua_pushvalue (-1), lua_setfield C LUA_REGISTRYINDEX tname])
                 (ret True)))"

definition luaL_getmetafield :: "int \<Rightarrow> bytes \<Rightarrow> ('z lua_State_scheme, bool) prog" where
  "luaL_getmetafield obj event =
     bnd (lua_getmetatable obj) (\<lambda>has.
       if \<not> has then ret False
       else seq (steps [lua_pushstring (Some event), lua_rawget (-2)])
         (bnd (lua_isnil (-1)) (\<lambda>n.
            if n then seq (lua_pop 2) (ret False) else seq (lua_remove (-2)) (ret True))))"

definition luaL_callmeta :: "(nat \<Rightarrow> int \<Rightarrow> ('z lua_State_scheme, unit) prog) \<Rightarrow> int \<Rightarrow> bytes
    \<Rightarrow> ('z lua_State_scheme, bool) prog" where
  "luaL_callmeta C obj event =
     bnd (abs_index obj) (\<lambda>obj. bnd (luaL_getmetafield obj event) (\<lambda>has.
       if \<not> has then ret False
       else seq (steps [lua_pushvalue obj, lua_call C 1 1]) (ret True)))"

section \<open>Tables by name\<close>

function findtable_loop :: "(nat \<Rightarrow> int \<Rightarrow> ('z lua_State_scheme, unit) prog) \<Rightarrow> int \<Rightarrow> bytes
    \<Rightarrow> ('z lua_State_scheme, bytes option) prog" where
  "findtable_loop C szhint fname =
     (let e = length (takeWhile (\<lambda>c. c \<noteq> 0x2E) fname); part = take e fname; more = (e < length fname)
      in seq (steps [lua_pushlstring part, lua_rawget (-2)])
        (bnd (lua_isnil (-1)) (\<lambda>n.
         bnd (if n then
                seq (steps [lua_pop 1, lua_createtable 0 (if more then 1 else szhint),
                      lua_pushlstring part, lua_pushvalue (-2), lua_settable C (-4)]) (ret True)
              else bnd (lua_istable (-1)) (\<lambda>t. if t then ret True else seq (lua_pop 2) (ret False)))
           (\<lambda>ok.
             if \<not> ok then ret (Some fname)
             else seq (lua_remove (-2))
               (if more then findtable_loop C szhint (drop (e + 1) fname) else ret None)))))"
  by pat_completeness auto
termination by (relation "measure (\<lambda>(C, h, fname). length fname)") auto

declare findtable_loop.simps [simp del]

text \<open>The result is the part of the name in the way, or \<open>NULL\<close> with the table pushed.\<close>

definition luaL_findtable :: "(nat \<Rightarrow> int \<Rightarrow> ('z lua_State_scheme, unit) prog) \<Rightarrow> int \<Rightarrow> bytes \<Rightarrow> int
    \<Rightarrow> ('z lua_State_scheme, bytes option) prog" where
  "luaL_findtable C idx fname szhint = seq (lua_pushvalue idx) (findtable_loop C szhint (c_string fname))"

section \<open>References\<close>

definition FREELIST_REF :: int where "FREELIST_REF = 0"
definition LUA_REFNIL :: int where "LUA_REFNIL = - 1"

definition luaL_ref :: "('z lua_State_scheme, 'h) host_scheme \<Rightarrow> int \<Rightarrow> ('z lua_State_scheme, int) prog" where
  "luaL_ref H t =
     bnd (abs_index t) (\<lambda>t. bnd (lua_isnil (-1)) (\<lambda>n.
       if n then seq (lua_pop 1) (ret LUA_REFNIL)
       else
         seq (lua_rawgeti t FREELIST_REF)
         (bnd (lua_tointeger H (-1)) (\<lambda>i. let ref = to_int i in
          seq (lua_pop 1)
         (bnd (if ref \<noteq> 0 then seq (steps [lua_rawgeti t ref, lua_rawseti t FREELIST_REF]) (ret ref)
               else bnd (lua_objlen H t) (\<lambda>l. ret (to_int (to_int (int l) + 1))))
            (\<lambda>ref. seq (lua_rawseti t ref) (ret ref)))))))"

definition luaL_unref :: "int \<Rightarrow> int \<Rightarrow> ('z lua_State_scheme, unit) prog" where
  "luaL_unref t ref =
     (if 0 \<le> ref then
        bnd (abs_index t) (\<lambda>t. steps [lua_rawgeti t FREELIST_REF, lua_rawseti t ref,
          lua_pushinteger ref, lua_rawseti t FREELIST_REF])
      else ret ())"

section \<open>Errors\<close>

definition luaL_where :: "('z lua_State_scheme, 'h) host_scheme \<Rightarrow> ('z lua_State_scheme, unit) prog" where
  "luaL_where H s = rawpush (TString (where1 H s)) s"

text \<open>
  \<open>luaO_pushvfstring\<close> given no arguments: a directive that takes one reads an argument that was
  not passed (\<open>None\<close>); \<open>%%\<close> is a per cent sign, any other directive is copied. A per cent sign
  at the very end reads past the end of the format.
\<close>

fun format_no_args :: "bytes \<Rightarrow> bytes option" where
  "format_no_args [] = Some []"
| "format_no_args (c # fmt) =
     (if c \<noteq> 0x25 then map_option (Cons c) (format_no_args fmt)
      else case fmt of [] \<Rightarrow> None
        | d # fmt' \<Rightarrow>
            (if d \<in> {0x73, 0x63, 0x64, 0x66, 0x70} then None
             else if d = 0x25 then map_option (Cons 0x25) (format_no_args fmt')
             else map_option (\<lambda>r. 0x25 # d # r) (format_no_args fmt')))"

text \<open>\<open>luaL_error(L, fmt)\<close>.\<close>

definition luaL_error :: "('z lua_State_scheme, 'h) host_scheme \<Rightarrow> (nat \<Rightarrow> int \<Rightarrow> ('z lua_State_scheme, unit) prog)
    \<Rightarrow> bytes \<Rightarrow> ('z lua_State_scheme, 'a) prog" where
  "luaL_error H C fmt =
     (case format_no_args (c_string fmt) of
        None \<Rightarrow> undef
      | Some msg \<Rightarrow> seq (steps [luaL_where H, rawpush (TString msg), lua_concat H C 2]) lua_error)"

end
