(* ===== verification/JavaState.thy ===== *)
theory JavaState
  imports Auxlib
begin

text \<open>
  What \<open>jnlua.c\<close> adds to a Lua thread: the pending Java exception, the Java objects it
  handles, and its variables, which keep their values between calls. A Java object is a
  number, 0 is \<open>NULL\<close>. The functions of the Java Native Interface are parameters; those that
  can fail or make a new object also get the number of calls made so far, so that two calls
  need not give the same result.
\<close>

section \<open>Variables\<close>

record statics =
  newstate_obj :: u64
  openlib_lib :: int
  getglobal_name :: "bytes option"
  setglobal_name :: "bytes option"
  pushbytearray_b :: "bytes option"
  pushbytearray_length :: nat
  pushjavafunction_f :: u64
  pushjavaobject_object :: u64
  pushlightjavaobject_object :: u64
  pushstring_s :: "bytes option"
  pushstring_length :: nat
  isjavaobject_result :: bool
  equal_result :: bool
  lessthan_result :: bool
  tobytearray_result :: "bytes option"
  tojavafunction_result :: u64
  tojavaobject_result :: u64
  tolightjavaobject_result :: u64
  tostring_result :: "bytes option"
  concat_n :: int
  createtable_narr :: int
  createtable_nrec :: int
  findtable_fname :: "bytes option"
  findtable_szhint :: int
  findtable_result :: "bytes option"
  getfield_k :: "bytes option"
  next_result :: bool
  rawseti_n :: int
  setfield_k :: "bytes option"
  getmetafield_k :: "bytes option"
  getmetafield_result :: bool
  ref_result :: int
  unref_ref :: int
  tablesize_result :: int
  tablemove_from :: int
  tablemove_to :: int
  tablemove_count :: int
  luaLerror_val :: "bytes option"
  throw_status :: int

datatype jclass = LuaRuntimeException | LuaSyntaxException | LuaMemoryAllocationException
  | LuaMessageHandlerException | LuaError | NullPointerException | IllegalArgumentException
  | IllegalStateException | JavaError | JavaFunction

text \<open>A pending exception: thrown with a message, or an existing throwable.\<close>

datatype pending = ThrowNew jclass bytes | Thrown u64

record jstate = lua_State +
  exn :: "pending option"
  jni_calls :: nat
  has_env :: bool
  global_refs :: "u64 set"
  utf_held :: int
  byte_arrays :: "u64 \<Rightarrow> bytes"
  lua_error_of :: "u64 \<Rightarrow> u64"
  vars :: statics

record 's jni = "'s host" +
  new_global_ref :: "nat \<Rightarrow> u64 \<Rightarrow> u64"
  string_utf_chars :: "nat \<Rightarrow> u64 \<Rightarrow> bytes option"
  string_utf_length :: "u64 \<Rightarrow> nat"
  new_string_utf :: "nat \<Rightarrow> bytes \<Rightarrow> u64"
  new_byte_array :: "nat \<Rightarrow> nat \<Rightarrow> u64"
  array_elements_ok :: "nat \<Rightarrow> u64 \<Rightarrow> bool"
  is_instance_of :: "u64 \<Rightarrow> jclass \<Rightarrow> bool"
  new_object :: "nat \<Rightarrow> jclass \<Rightarrow> u64 \<Rightarrow> pending option \<Rightarrow> u64"
  throw_ok :: "nat \<Rightarrow> u64 \<Rightarrow> bool"
  call_int_method :: "u64 \<Rightarrow> u64 \<Rightarrow> 's \<Rightarrow> ('s, int) res"

type_synonym caller = "nat \<Rightarrow> int \<Rightarrow> (jstate, unit) prog"

definition var :: "(statics \<Rightarrow> 'a) \<Rightarrow> (jstate, 'a) prog" where "var f = get (\<lambda>s. f (vars s))"

definition set_var :: "(statics \<Rightarrow> statics) \<Rightarrow> (jstate, unit) prog" where
  "set_var f = upd (\<lambda>s. s\<lparr>vars := f (vars s)\<rparr>)"

section \<open>Functions of the Java Native Interface\<close>

definition jni_call :: "(nat \<Rightarrow> 'a) \<Rightarrow> (jstate, 'a) prog" where
  "jni_call f s = Val (f (jni_calls s)) (s\<lparr>jni_calls := jni_calls s + 1\<rparr>)"

definition NewGlobalRef :: "jstate jni \<Rightarrow> u64 \<Rightarrow> (jstate, u64) prog" where
  "NewGlobalRef H object = bnd (jni_call (\<lambda>c. new_global_ref H c object)) (\<lambda>r.
     seq (unless (r = 0) (upd (\<lambda>s. s\<lparr>global_refs := insert r (global_refs s)\<rparr>))) (ret r))"

definition DeleteGlobalRef :: "u64 \<Rightarrow> (jstate, unit) prog" where
  "DeleteGlobalRef r = upd (\<lambda>s. s\<lparr>global_refs := global_refs s - {r}\<rparr>)"

text \<open>Weak references are not tracked.\<close>

definition DeleteWeakGlobalRef :: "u64 \<Rightarrow> (jstate, unit) prog" where
  "DeleteWeakGlobalRef r = ret ()"

definition throw_new :: "jclass \<Rightarrow> bytes \<Rightarrow> (jstate, unit) prog" where
  "throw_new c msg = upd (\<lambda>s. s\<lparr>exn := Some (ThrowNew c msg)\<rparr>)"

definition NewStringUTF :: "jstate jni \<Rightarrow> bytes option \<Rightarrow> (jstate, u64) prog" where
  "NewStringUTF H b = (case b of None \<Rightarrow> undef | Some b \<Rightarrow> jni_call (\<lambda>c. new_string_utf H c (c_string b)))"

definition NewObject :: "jstate jni \<Rightarrow> jclass \<Rightarrow> u64 \<Rightarrow> pending option \<Rightarrow> (jstate, u64) prog" where
  "NewObject H c msg cause = jni_call (\<lambda>n. new_object H n c msg cause)"

section \<open>Checks\<close>

definition check :: "bool \<Rightarrow> jclass \<Rightarrow> string \<Rightarrow> (jstate, bool) prog" where
  "check cond c msg = (if cond then ret True else seq (throw_new c (lit msg)) (ret False))"

definition checkarg :: "bool \<Rightarrow> string \<Rightarrow> (jstate, bool) prog" where
  "checkarg cond msg = check cond IllegalArgumentException msg"

definition checkstate :: "bool \<Rightarrow> string \<Rightarrow> (jstate, bool) prog" where
  "checkstate cond msg = check cond IllegalStateException msg"

definition checknotnull :: "u64 \<Rightarrow> (jstate, bool) prog" where
  "checknotnull object = check (object \<noteq> 0) NullPointerException ''null''"

definition checknelems :: "int \<Rightarrow> (jstate, bool) prog" where
  "checknelems n = bnd lua_gettop (\<lambda>top. checkstate (n \<le> top) ''stack underflow'')"

definition validindex :: "int \<Rightarrow> (jstate, bool) prog" where "validindex index = ret True"

definition checkindex :: "int \<Rightarrow> (jstate, bool) prog" where
  "checkindex index = bnd (validindex index) (\<lambda>v. checkarg v ''illegal index'')"

definition checktype :: "int \<Rightarrow> int \<Rightarrow> (jstate, bool) prog" where
  "checktype index type = both (checkindex index) (bnd (lua_type index) (\<lambda>t. checkarg (t = type) ''illegal type''))"

definition checkrealindex :: "int \<Rightarrow> (jstate, bool) prog" where
  "checkrealindex index = bnd lua_gettop (\<lambda>top.
     let index = (if index \<le> 0 then top + index + 1 else index)
     in checkarg (1 \<le> index \<and> index \<le> top) ''illegal index'')"

definition checkstack :: "nat \<Rightarrow> (jstate, bool) prog" where
  "checkstack space = bnd (lua_checkstack (int space)) (\<lambda>ok. check ok IllegalStateException ''stack overflow'')"

section \<open>Strings and arrays\<close>

definition getstringchars :: "jstate jni \<Rightarrow> u64 \<Rightarrow> (jstate, bytes option) prog" where
  "getstringchars H string = bnd (checknotnull string) (\<lambda>ok.
     if \<not> ok then ret None
     else bnd (jni_call (\<lambda>c. string_utf_chars H c string)) (\<lambda>utf.
       seq (unless (utf = None) (upd (\<lambda>s. s\<lparr>utf_held := utf_held s + 1\<rparr>)))
         (bnd (check (utf \<noteq> None) LuaMemoryAllocationException ''JNI error: GetStringUTFChars() failed'') (\<lambda>ok.
            ret (if ok then utf else None)))))"

definition releasestringchars :: "(jstate, unit) prog" where
  "releasestringchars = upd (\<lambda>s. s\<lparr>utf_held := utf_held s - 1\<rparr>)"

section \<open>Java objects\<close>

definition JNLUA_JAVASTATE :: bytes where "JNLUA_JAVASTATE = lit ''jnlua.JavaState''"
definition JNLUA_OBJECT :: bytes where "JNLUA_OBJECT = lit ''jnlua.Object''"
definition JNLUA_MINSTACK :: nat where "JNLUA_MINSTACK = LUA_MINSTACK"

definition pushjavaobject :: "jstate jni \<Rightarrow> caller \<Rightarrow> u64 \<Rightarrow> (jstate, unit) prog" where
  "pushjavaobject H C object =
     bnd (lua_newuserdata 8) (\<lambda>user_data.
     seq (luaL_getmetatable C JNLUA_OBJECT)
     (bnd (NewGlobalRef H object) (\<lambda>r.
      seq (set_block user_data r)
     (seq (if r = 0 then seq (lua_pushliteral ''JNI error: NewGlobalRef() failed pushing Java object'') lua_error
           else ret ())
       (bnd (lua_setmetatable (-2)) (\<lambda>_. ret ()))))))"

definition pushlightjavaobject :: "jstate jni \<Rightarrow> u64 \<Rightarrow> (jstate, unit) prog" where
  "pushlightjavaobject H object = bnd (NewGlobalRef H object) lua_pushlightuserdata"

definition newjavaobject :: "jstate jni \<Rightarrow> u64 \<Rightarrow> (jstate, unit) prog" where
  "newjavaobject H object =
     seq (if object = 0 then seq (lua_pushliteral ''JNI error: NewGlobalRef() failed pushing Java object'') lua_error
          else ret ())
       (bnd (lua_newuserdata 8) (\<lambda>p. bnd (NewGlobalRef H object) (set_block p)))"

definition instance_or_null :: "jstate jni \<Rightarrow> jclass option \<Rightarrow> u64 \<Rightarrow> u64" where
  "instance_or_null H c object =
     (case c of Some c \<Rightarrow> if is_instance_of H object c then object else 0 | None \<Rightarrow> object)"

definition tojavaobject :: "jstate jni \<Rightarrow> caller \<Rightarrow> int \<Rightarrow> jclass option \<Rightarrow> (jstate, u64) prog" where
  "tojavaobject H C index c =
     bnd (lua_isuserdata index) (\<lambda>isu.
       if \<not> isu then ret 0
       else bnd (lua_getmetatable index) (\<lambda>has.
         if \<not> has then ret 0
         else seq (luaL_getmetatable C JNLUA_OBJECT)
           (bnd (lua_rawequal (-1) (-2)) (\<lambda>result.
            seq (lua_pop 2)
              (if \<not> result then ret 0
               else bnd (lua_touserdata index) (\<lambda>p. bnd (deref p) (\<lambda>object.
                 ret (instance_or_null H c object))))))))"

definition tolightjavaobject :: "jstate jni \<Rightarrow> int \<Rightarrow> jclass option \<Rightarrow> (jstate, u64) prog" where
  "tolightjavaobject H index c =
     bnd (lua_touserdata index) (\<lambda>p. bnd (deref p) (\<lambda>object. ret (instance_or_null H c object)))"

definition tostring :: "jstate jni \<Rightarrow> caller \<Rightarrow> int \<Rightarrow> (jstate, u64) prog" where
  "tostring H C index =
     bnd (luaL_callmeta C index (lit ''__tostring'')) (\<lambda>done.
     seq (if done then ret ()
          else bnd (lua_type index) (\<lambda>t.
            if t = LUA_TNUMBER \<or> t = LUA_TSTRING then lua_pushvalue index
            else if t = LUA_TBOOLEAN then bnd (lua_toboolean index) (\<lambda>b.
              lua_pushstring (Some (lit (if b then ''true'' else ''false''))))
            else if t = LUA_TNIL then lua_pushliteral ''nil''
            else bnd (lua_topointer index) (\<lambda>p.
              rawpush (TString (lit (lua_typename t @ '': '') @ sprintf_p H p)))))
     (bnd (lua_tolstring H (-1)) (\<lambda>b. bnd (NewStringUTF H b) (\<lambda>string.
      seq (lua_pop 1) (ret string)))))"

definition gcjavaobject :: "(jstate, int) prog" where
  "gcjavaobject = bnd (get has_env) (\<lambda>env.
     if \<not> env then ret 0
     else bnd (lua_touserdata 1) (\<lambda>p. bnd (deref p) (\<lambda>obj.
       bnd (lua_toboolean (lua_upvalueindex 1)) (\<lambda>weak.
         seq (if weak then DeleteWeakGlobalRef obj else DeleteGlobalRef obj) (ret 0)))))"

text \<open>
  \<open>calljavafunction\<close>: calls \<open>invoke\<close> of the Java function in its upvalue; an exception becomes
  a Lua error whose value is a Java \<open>LuaError\<close> with the exception as its cause. There is one
  Lua thread, so the Java state already refers to it.
\<close>

definition calljavafunction :: "jstate jni \<Rightarrow> caller \<Rightarrow> (jstate, int) prog" where
  "calljavafunction H C =
     seq (lua_getfield C LUA_REGISTRYINDEX JNLUA_JAVASTATE)
     (bnd (lua_isuserdata (-1)) (\<lambda>isu.
      if \<not> isu then seq (lua_pushliteral ''no Java state'') lua_error
      else
        bnd (lua_touserdata (-1)) (\<lambda>p. bnd (deref p) (\<lambda>javastate.
        seq (lua_pop 1) (seq (lua_pushvalue (lua_upvalueindex 1))
       (bnd (tojavaobject H C (-1) (Some JavaFunction)) (\<lambda>javafunction.
        seq (lua_pop 1)
         (if javafunction = 0 then seq (lua_pushliteral ''no Java function'') lua_error
          else bnd (call_int_method H javafunction javastate) (\<lambda>nresults.
            bnd (get exn) (\<lambda>throwable.
              if throwable = None then ret nresults
              else
                seq (luaL_where H)
                (bnd (tostring H C (-1)) (\<lambda>where.
                 bnd (NewObject H LuaError where throwable) (\<lambda>luaerror.
                 seq (if luaerror \<noteq> 0 then pushjavaobject H C luaerror
                      else lua_pushliteral ''JNI error: NewObject() failed creating Lua error'')
                 (seq (upd (\<lambda>s. s\<lparr>exn := None\<rparr>)) lua_error))))))))))))))"

section \<open>Throwing\<close>

definition exception_class :: "int \<Rightarrow> jclass option" where
  "exception_class status =
     (if status = LUA_ERRRUN then Some LuaRuntimeException
      else if status = LUA_ERRSYNTAX then Some LuaSyntaxException
      else if status = LUA_ERRMEM then Some LuaMemoryAllocationException
      else if status = LUA_ERRERR then Some LuaMessageHandlerException
      else None)"

definition throw_protected :: "jstate jni \<Rightarrow> caller \<Rightarrow> (jstate, int) prog" where
  "throw_protected H C = bnd (var throw_status) (\<lambda>status.
     case exception_class status of
       None \<Rightarrow> seq (rawpush (TString (lit ''unknown Lua status '' @ lua_number2str H (cast_num status)))) lua_error
     | Some c \<Rightarrow>
         bnd (tostring H C 1) (\<lambda>msg. bnd (NewObject H c msg None) (\<lambda>throwable.
         if throwable = 0 then seq (lua_pushliteral ''JNI error: NewObject() failed creating throwable'') lua_error
         else bnd (tojavaobject H C 1 (Some LuaError)) (\<lambda>luaerror.
           seq (if luaerror \<noteq> 0 \<and> c = LuaRuntimeException
                then upd (\<lambda>s. s\<lparr>lua_error_of := (lua_error_of s)(throwable := luaerror)\<rparr>) else ret ())
           (bnd (jni_call (\<lambda>n. throw_ok H n throwable)) (\<lambda>ok.
              if \<not> ok then seq (lua_pushliteral ''JNI error: Throw() failed'') lua_error
              else seq (upd (\<lambda>s. s\<lparr>exn := Some (Thrown throwable)\<rparr>)) (ret 0)))))))"

definition throw :: "jstate jni \<Rightarrow> caller \<Rightarrow> int \<Rightarrow> (jstate, unit) prog" where
  "throw H C status = bnd (checkstack JNLUA_MINSTACK) (\<lambda>ok.
     if \<not> ok then ret ()
     else
       seq (steps [set_var (throw_status_update (\<lambda>_. status)), lua_pushcfunction Throw_protected, lua_insert (-2)])
       (bnd (lua_pcall C 1 0) (\<lambda>status'.
          if status' = 0 then ret ()
          else bnd (lua_tolstring H (-1)) (\<lambda>message.
            throw_new JavaError (case message of Some m \<Rightarrow> c_string m | None \<Rightarrow> lit ''error throwing Lua exception'')))))"

definition JNLUA_PCALL :: "jstate jni \<Rightarrow> caller \<Rightarrow> nat \<Rightarrow> int \<Rightarrow> (jstate, unit) prog" where
  "JNLUA_PCALL H C nargs nresults = bnd (lua_pcall C nargs nresults) (\<lambda>status.
     if status = 0 then ret () else throw H C status)"

definition lua_absindex :: "int \<Rightarrow> (jstate, int) prog" where
  "lua_absindex index = (if 0 < index \<or> index \<le> LUA_REGISTRYINDEX then ret index
     else bnd lua_gettop (\<lambda>top. ret (top + index + 1)))"

end
