(* ===== verification/Protected.thy ===== *)
theory Protected
  imports JavaState
begin

text \<open>
  The functions of \<open>jnlua.c\<close> that run under \<open>lua_pcall\<close>, and \<open>run_c\<close>, which says what
  the code of each C function is. Arguments come in the frame and in the variables; the result
  is the number of values on the top of the frame that are results.
\<close>

section \<open>Life cycle, libraries, globals\<close>

definition newstate_protected :: "jstate jni \<Rightarrow> caller \<Rightarrow> (jstate, int) prog" where
  "newstate_protected H C =
     bnd (lua_newuserdata 8) (\<lambda>ref.
     seq (steps [lua_createtable 0 1, lua_pushboolean False, lua_pushcclosure Gcjavaobject 1,
           lua_setfield C (-2) (lit ''__gc'')])
     (bnd (bnd (var newstate_obj) (NewGlobalRef H)) (\<lambda>r.
      seq (set_block ref r)
        (if r = 0 then seq (lua_pushliteral ''JNI error: NewGlobalRef() failed setting up Lua state'') lua_error
         else
           seq (bnd (lua_setmetatable (-2)) (\<lambda>_. lua_setfield C LUA_REGISTRYINDEX JNLUA_JAVASTATE))
           (bnd (luaL_newmetatable C JNLUA_OBJECT) (\<lambda>_.
            seq (steps [lua_pushboolean False, lua_setfield C (-2) (lit ''__metatable''),
                   lua_pushboolean False, lua_pushcclosure Gcjavaobject 1, lua_setfield C (-2) (lit ''__gc'')])
              (ret 1)))))))"

definition close_protected :: "caller \<Rightarrow> (jstate, int) prog" where
  "close_protected C = seq (steps [lua_pushnil, lua_setfield C LUA_REGISTRYINDEX JNLUA_JAVASTATE]) (ret 0)"

text \<open>The libraries: the C function that opens each one and the name it is given.\<close>

definition library :: "int \<Rightarrow> (string \<times> string) option" where
  "library lib =
     (if lib = 0 then Some (''luaopen_base'', '''') else if lib = 1 then Some (''luaopen_table'', ''table'')
      else if lib = 2 then Some (''luaopen_io'', ''io'') else if lib = 3 then Some (''luaopen_os'', ''os'')
      else if lib = 4 then Some (''luaopen_string'', ''string'') else if lib = 5 then Some (''luaopen_math'', ''math'')
      else if lib = 6 then Some (''luaopen_debug'', ''debug'')
      else if lib = 7 then Some (''luaopen_package'', ''package'') else None)"

definition openlib_protected :: "caller \<Rightarrow> (jstate, int) prog" where
  "openlib_protected C = bnd (var openlib_lib) (\<lambda>lib.
     if lib = 8 then
       seq (steps [lua_getglobal C (lit ''package''), lua_getfield C (-1) (lit ''preload''),
              lua_pushcfunction (Lib_function ''luaopen_socket_core''),
              lua_setfield C (-2) (lit ''socket.core''), lua_pop 2]) (ret 0)
     else case library lib of
         None \<Rightarrow> ret 0
       | Some (openfunc, libname) \<Rightarrow>
           seq (steps [lua_pushcfunction (Lib_function openfunc), lua_pushstring (Some (lit libname)), lua_call C 1 0])
             (ret 0))"

text \<open>A name that a variable holds; the callers set it before they call.\<close>

definition with_name :: "(statics \<Rightarrow> bytes option) \<Rightarrow> (bytes \<Rightarrow> (jstate, 'a) prog) \<Rightarrow> (jstate, 'a) prog" where
  "with_name v f = bnd (var v) (\<lambda>n. case n of Some b \<Rightarrow> f b | None \<Rightarrow> undef)"

definition getglobal_protected :: "caller \<Rightarrow> (jstate, int) prog" where
  "getglobal_protected C = with_name getglobal_name (\<lambda>n. seq (lua_getglobal C n) (ret 1))"

definition setglobal_protected :: "caller \<Rightarrow> (jstate, int) prog" where
  "setglobal_protected C = with_name setglobal_name (\<lambda>n. seq (lua_setglobal C n) (ret 0))"

section \<open>Pushing\<close>

definition pushbytearray_protected :: "(jstate, int) prog" where
  "pushbytearray_protected = with_name pushbytearray_b (\<lambda>b. bnd (var pushbytearray_length) (\<lambda>n.
     if length b < n then undef else seq (lua_pushlstring (take n b)) (ret 1)))"

definition pushjavafunction_protected :: "jstate jni \<Rightarrow> caller \<Rightarrow> (jstate, int) prog" where
  "pushjavafunction_protected H C = bnd (var pushjavafunction_f) (\<lambda>f.
     seq (steps [pushjavaobject H C f, lua_pushcclosure Calljavafunction 1]) (ret 1))"

definition pushjavaobject_protected :: "jstate jni \<Rightarrow> caller \<Rightarrow> (jstate, int) prog" where
  "pushjavaobject_protected H C = bnd (var pushjavaobject_object) (\<lambda>obj. seq (pushjavaobject H C obj) (ret 1))"

definition pushlightjavaobject_protected :: "jstate jni \<Rightarrow> (jstate, int) prog" where
  "pushlightjavaobject_protected H =
     bnd (var pushlightjavaobject_object) (\<lambda>obj. seq (pushlightjavaobject H obj) (ret 1))"

text \<open>The characters of a string end with a zero byte, which the length does not count.\<close>

definition pushstring_protected :: "(jstate, int) prog" where
  "pushstring_protected = with_name pushstring_s (\<lambda>b. bnd (var pushstring_length) (\<lambda>n.
     if length b + 1 < n then undef else seq (lua_pushlstring (take n (b @ [0]))) (ret 1)))"

section \<open>Queries\<close>

definition isjavaobject_protected :: "jstate jni \<Rightarrow> caller \<Rightarrow> (jstate, int) prog" where
  "isjavaobject_protected H C = bnd (tojavaobject H C 1 None) (\<lambda>p.
     seq (set_var (isjavaobject_result_update (\<lambda>_. p \<noteq> 0))) (ret 0))"

definition equal_protected :: "caller \<Rightarrow> (jstate, int) prog" where
  "equal_protected C = bnd (lua_equal C 1 2) (\<lambda>r. seq (set_var (equal_result_update (\<lambda>_. r))) (ret 0))"

definition lessthan_protected :: "jstate jni \<Rightarrow> caller \<Rightarrow> (jstate, int) prog" where
  "lessthan_protected H C = bnd (lua_lessthan H C 1 2) (\<lambda>r. seq (set_var (lessthan_result_update (\<lambda>_. r))) (ret 0))"

definition tobytearray_protected :: "jstate jni \<Rightarrow> (jstate, int) prog" where
  "tobytearray_protected H = bnd (lua_tolstring H 1) (\<lambda>b. seq (set_var (tobytearray_result_update (\<lambda>_. b))) (ret 0))"

definition tojavafunction_protected :: "jstate jni \<Rightarrow> caller \<Rightarrow> (jstate, int) prog" where
  "tojavafunction_protected H C =
     seq (set_var (tojavafunction_result_update (\<lambda>_. 0)))
     (bnd (lua_tocfunction 1) (\<lambda>f.
      seq (if f = Some Calljavafunction then
             bnd (lua_getupvalue 1 1) (\<lambda>name.
               if name = None then ret ()
               else bnd (tojavaobject H C (-1) (Some JavaFunction)) (\<lambda>p.
                 set_var (tojavafunction_result_update (\<lambda>_. p))))
           else ret ()) (ret 0)))"

definition tojavaobject_protected :: "jstate jni \<Rightarrow> caller \<Rightarrow> (jstate, int) prog" where
  "tojavaobject_protected H C = bnd (tojavaobject H C 1 None) (\<lambda>p.
     seq (set_var (tojavaobject_result_update (\<lambda>_. p))) (ret 0))"

definition tolightjavaobject_protected :: "jstate jni \<Rightarrow> (jstate, int) prog" where
  "tolightjavaobject_protected H = bnd (tolightjavaobject H 1 None) (\<lambda>p.
     seq (set_var (tolightjavaobject_result_update (\<lambda>_. p))) (ret 0))"

definition tostring_protected :: "jstate jni \<Rightarrow> (jstate, int) prog" where
  "tostring_protected H = bnd (lua_tolstring H 1) (\<lambda>b. seq (set_var (tostring_result_update (\<lambda>_. b))) (ret 0))"

definition concat_protected :: "jstate jni \<Rightarrow> caller \<Rightarrow> (jstate, int) prog" where
  "concat_protected H C = bnd (var concat_n) (\<lambda>n. if n < 0 then undef else seq (lua_concat H C (nat n)) (ret 1))"

section \<open>Tables\<close>

definition createtable_protected :: "(jstate, int) prog" where
  "createtable_protected = bnd (var createtable_narr) (\<lambda>narr. bnd (var createtable_nrec) (\<lambda>nrec.
     seq (lua_createtable narr nrec) (ret 1)))"

definition findtable_protected :: "caller \<Rightarrow> (jstate, int) prog" where
  "findtable_protected C = with_name findtable_fname (\<lambda>fname. bnd (var findtable_szhint) (\<lambda>szhint.
     bnd (luaL_findtable C 1 fname szhint) (\<lambda>r.
       seq (set_var (findtable_result_update (\<lambda>_. r))) (ret (if r \<noteq> None then 0 else 1)))))"

definition getfield_protected :: "caller \<Rightarrow> (jstate, int) prog" where
  "getfield_protected C = with_name getfield_k (\<lambda>k. seq (lua_getfield C 1 k) (ret 1))"

definition gettable_protected :: "caller \<Rightarrow> (jstate, int) prog" where
  "gettable_protected C = seq (lua_gettable C 1) (ret 1)"

definition newtable_protected :: "(jstate, int) prog" where
  "newtable_protected = seq lua_newtable (ret 1)"

definition next_protected :: "jstate jni \<Rightarrow> (jstate, int) prog" where
  "next_protected H = bnd (lua_next H 1) (\<lambda>r.
     seq (set_var (next_result_update (\<lambda>_. r))) (ret (if r then 2 else 0)))"

definition rawset_protected :: "(jstate, int) prog" where
  "rawset_protected = seq (lua_rawset 1) (ret 0)"

definition rawseti_protected :: "(jstate, int) prog" where
  "rawseti_protected = bnd (var rawseti_n) (\<lambda>n. seq (lua_rawseti 1 n) (ret 0))"

definition settable_protected :: "caller \<Rightarrow> (jstate, int) prog" where
  "settable_protected C = seq (lua_settable C 1) (ret 0)"

definition setfield_protected :: "caller \<Rightarrow> (jstate, int) prog" where
  "setfield_protected C = with_name setfield_k (\<lambda>k. seq (lua_setfield C 1 k) (ret 0))"

definition getmetafield_protected :: "(jstate, int) prog" where
  "getmetafield_protected = with_name getmetafield_k (\<lambda>k. bnd (luaL_getmetafield 1 k) (\<lambda>r.
     seq (set_var (getmetafield_result_update (\<lambda>_. r))) (ret (if r then 1 else 0))))"

definition ref_protected :: "jstate jni \<Rightarrow> (jstate, int) prog" where
  "ref_protected H = bnd (luaL_ref H 1) (\<lambda>r. seq (set_var (ref_result_update (\<lambda>_. r))) (ret 0))"

definition unref_protected :: "(jstate, int) prog" where
  "unref_protected = bnd (var unref_ref) (\<lambda>r. seq (luaL_unref 1 r) (ret 0))"

text \<open>The loop of \<open>tablesize_protected\<close>, for at most \<open>f\<close> rounds.\<close>

primrec tablesize_loop :: "nat \<Rightarrow> jstate jni \<Rightarrow> int \<Rightarrow> (jstate, int) prog" where
  "tablesize_loop 0 H cnt = undef"
| "tablesize_loop (Suc f) H cnt = bnd (lua_next H (-2)) (\<lambda>more.
     if more then seq (lua_pop 1) (tablesize_loop f H (to_int (cnt + 1))) else ret cnt)"

text \<open>
  A traversal visits each slot of a table at most once, so the rounds are bounded by the number
  of slots.
\<close>

definition slots_of :: "jstate \<Rightarrow> nat" where
  "slots_of s = (case hd (stack s) of
     TTable a \<Rightarrow> (case tables s a of Some t \<Rightarrow> length (array t) + sizenode t | None \<Rightarrow> 0) | _ \<Rightarrow> 0)"

definition tablesize_protected :: "jstate jni \<Rightarrow> (jstate, int) prog" where
  "tablesize_protected H = bnd (get slots_of) (\<lambda>n.
     seq lua_pushnil (bnd (tablesize_loop (n + 1) H 0) (\<lambda>count.
       seq (set_var (tablesize_result_update (\<lambda>_. count))) (ret 0))))"

primrec tablemove_loop :: "int list \<Rightarrow> int \<Rightarrow> int \<Rightarrow> (jstate, unit) prog" where
  "tablemove_loop [] from to = ret ()"
| "tablemove_loop (i # is) from to =
     seq (steps [lua_rawgeti 1 (to_int (from + i)), lua_rawseti 1 (to_int (to + i))]) (tablemove_loop is from to)"

definition tablemove_protected :: "(jstate, int) prog" where
  "tablemove_protected =
     bnd (var tablemove_from) (\<lambda>from. bnd (var tablemove_to) (\<lambda>to. bnd (var tablemove_count) (\<lambda>count.
       seq (if from < to then tablemove_loop (rev [0..count - 1]) from to
            else if to < from then tablemove_loop [0..count - 1] from to
            else ret ()) (ret 0))))"

definition luaLerror_protected :: "jstate jni \<Rightarrow> caller \<Rightarrow> (jstate, int) prog" where
  "luaLerror_protected H C = with_name luaLerror_val (\<lambda>msg. luaL_error H C msg)"

section \<open>The code of a C function\<close>

fun run_c :: "jstate jni \<Rightarrow> caller \<Rightarrow> cfunction \<Rightarrow> (jstate, int) prog" where
  "run_c H C Gcjavaobject = gcjavaobject"
| "run_c H C Calljavafunction = calljavafunction H C"
| "run_c H C Newstate_protected = newstate_protected H C"
| "run_c H C Close_protected = close_protected C"
| "run_c H C Openlib_protected = openlib_protected C"
| "run_c H C Getglobal_protected = getglobal_protected C"
| "run_c H C Setglobal_protected = setglobal_protected C"
| "run_c H C Pushbytearray_protected = pushbytearray_protected"
| "run_c H C Pushjavafunction_protected = pushjavafunction_protected H C"
| "run_c H C Pushjavaobject_protected = pushjavaobject_protected H C"
| "run_c H C Pushlightjavaobject_protected = pushlightjavaobject_protected H"
| "run_c H C Pushstring_protected = pushstring_protected"
| "run_c H C Isjavaobject_protected = isjavaobject_protected H C"
| "run_c H C Equal_protected = equal_protected C"
| "run_c H C Lessthan_protected = lessthan_protected H C"
| "run_c H C Tobytearray_protected = tobytearray_protected H"
| "run_c H C Tojavafunction_protected = tojavafunction_protected H C"
| "run_c H C Tojavaobject_protected = tojavaobject_protected H C"
| "run_c H C Tolightjavaobject_protected = tolightjavaobject_protected H"
| "run_c H C Tostring_protected = tostring_protected H"
| "run_c H C Concat_protected = concat_protected H C"
| "run_c H C Createtable_protected = createtable_protected"
| "run_c H C Findtable_protected = findtable_protected C"
| "run_c H C Getfield_protected = getfield_protected C"
| "run_c H C Gettable_protected = gettable_protected C"
| "run_c H C Newtable_protected = newtable_protected"
| "run_c H C Next_protected = next_protected H"
| "run_c H C Rawset_protected = rawset_protected"
| "run_c H C Rawseti_protected = rawseti_protected"
| "run_c H C Settable_protected = settable_protected C"
| "run_c H C Setfield_protected = setfield_protected C"
| "run_c H C Getmetafield_protected = getmetafield_protected"
| "run_c H C Ref_protected = ref_protected H"
| "run_c H C Unref_protected = unref_protected"
| "run_c H C Tablesize_protected = tablesize_protected H"
| "run_c H C Tablemove_protected = tablemove_protected"
| "run_c H C LuaLerror_protected = luaLerror_protected H C"
| "run_c H C Throw_protected = throw_protected H C"
| "run_c H C (Lib_function _) = undef"

text \<open>\<open>luaD_call\<close> with the C functions of this program, \<open>d\<close> nested calls before the limit.\<close>

definition jcall :: "jstate jni \<Rightarrow> nat \<Rightarrow> caller" where
  "jcall H d = luaD_call H (run_c H) d"

end
