(* ===== verification/Jni.thy ===== *)
theory Jni
  imports Protected
begin

text \<open>
  The native methods of \<open>LuaState.java\<close> (\<open>Java_com_naef_jnlua_LuaState_*\<close> of \<open>jnlua.c\<close>), each with
  its checks in the order of the code. \<open>C\<close> is \<open>luaD_call\<close>. An integer result that is only 0
  or 1 is a bool. A result that is \<open>Raise\<close> is a Lua error that no \<open>lua_pcall\<close> catches.
\<close>

section \<open>Shape\<close>

definition enter :: "(jstate, 'a) prog \<Rightarrow> (jstate, 'a) prog" where
  "enter m = seq (upd (\<lambda>s. s\<lparr>has_env := True\<rparr>)) m"

lemma enter_run: "has_env s \<Longrightarrow> enter m s = m s"
proof -
  assume "has_env s"
  then have "s\<lparr>has_env := True\<rparr> = s" by simp
  then show ?thesis by (simp add: enter_def seq_def bnd_def)
qed

definition guarded :: "(jstate, bool) prog list \<Rightarrow> (jstate, unit) prog \<Rightarrow> (jstate, unit) prog" where
  "guarded cs body = bnd (all_of cs) (\<lambda>ok. if ok then body else ret ())"

text \<open>\<open>(x = getstringchars(string))\<close> as a condition, and the release at the end.\<close>

definition chars_into :: "jstate jni \<Rightarrow> (bytes option \<Rightarrow> statics \<Rightarrow> statics) \<Rightarrow> u64 \<Rightarrow> (jstate, bool) prog" where
  "chars_into H setter string = bnd (getstringchars H string) (\<lambda>utf.
     seq (set_var (setter utf)) (ret (utf \<noteq> None)))"

definition release :: "(statics \<Rightarrow> bytes option) \<Rightarrow> (jstate, unit) prog" where
  "release v = bnd (var v) (\<lambda>n. if n \<noteq> None then releasestringchars else ret ())"

text \<open>
  A value at an index is handed to a protected function: the function, then a copy of the
  value, is pushed.
\<close>

definition call_on :: "jstate jni \<Rightarrow> caller \<Rightarrow> cfunction \<Rightarrow> int \<Rightarrow> int \<Rightarrow> (jstate, unit) prog" where
  "call_on H C f index nresults = bnd (lua_absindex index) (\<lambda>index.
     steps [lua_pushcfunction f, lua_pushvalue index, JNLUA_PCALL H C 1 nresults])"

text \<open>
  The same with \<open>n\<close> values on the top as further arguments: function and table are moved below
  them.
\<close>

definition call_on_with :: "jstate jni \<Rightarrow> caller \<Rightarrow> cfunction \<Rightarrow> nat \<Rightarrow> int \<Rightarrow> int \<Rightarrow> (jstate, unit) prog" where
  "call_on_with H C f n index nresults = bnd (lua_absindex index) (\<lambda>index.
     steps [lua_pushcfunction f, lua_insert (- int n - 1), lua_pushvalue index, lua_insert (- int n - 1),
       JNLUA_PCALL H C (n + 1) nresults])"

section \<open>Life cycle, libraries, globals\<close>

definition lua_newstate :: "jstate jni \<Rightarrow> caller \<Rightarrow> bool \<Rightarrow> int \<Rightarrow> u64 \<Rightarrow> (jstate, bool) prog" where
  "lua_newstate H C initialized apiversion obj =
     (if \<not> initialized \<or> apiversion \<noteq> 2 then ret False
      else enter
        (seq (guarded [checkstack JNLUA_MINSTACK]
            (steps [set_var (newstate_obj_update (\<lambda>_. obj)), lua_pushcfunction Newstate_protected,
               JNLUA_PCALL H C 0 1]))
          (get (\<lambda>s. exn s = None))))"

definition lua_close_attached :: "jstate jni \<Rightarrow> caller \<Rightarrow> (jstate, bool) prog" where
  "lua_close_attached H C = enter
     (bnd (lua_checkstack (int JNLUA_MINSTACK)) (\<lambda>ok.
        if \<not> ok then ret False
        else seq (steps [lua_pushcfunction Close_protected, JNLUA_PCALL H C 0 0])
          (bnd (get exn) (\<lambda>e. if e \<noteq> None then ret False
             else seq (upd (\<lambda>s. s\<lparr>has_env := False\<rparr>)) (ret True)))))"

definition lua_openlib :: "jstate jni \<Rightarrow> caller \<Rightarrow> int \<Rightarrow> (jstate, unit) prog" where
  "lua_openlib H C lib = enter
     (guarded [checkstack JNLUA_MINSTACK, checkarg (0 \<le> lib \<and> lib \<le> 8) ''illegal library'']
       (steps [set_var (openlib_lib_update (\<lambda>_. lib)), lua_pushcfunction Openlib_protected, JNLUA_PCALL H C 0 0]))"

definition jni_getglobal :: "jstate jni \<Rightarrow> caller \<Rightarrow> u64 \<Rightarrow> (jstate, unit) prog" where
  "jni_getglobal H C name = seq (set_var (getglobal_name_update (\<lambda>_. None))) (enter
     (seq (guarded [checkstack JNLUA_MINSTACK, chars_into H (\<lambda>u. getglobal_name_update (\<lambda>_. u)) name]
            (steps [lua_pushcfunction Getglobal_protected, JNLUA_PCALL H C 0 1]))
       (release getglobal_name)))"

definition jni_setglobal :: "jstate jni \<Rightarrow> caller \<Rightarrow> u64 \<Rightarrow> (jstate, unit) prog" where
  "jni_setglobal H C name = seq (set_var (setglobal_name_update (\<lambda>_. None))) (enter
     (seq (guarded [checkstack JNLUA_MINSTACK, checknelems 1,
             chars_into H (\<lambda>u. setglobal_name_update (\<lambda>_. u)) name]
            (steps [lua_pushcfunction Setglobal_protected, lua_insert (-2), JNLUA_PCALL H C 1 0]))
       (release setglobal_name)))"

section \<open>Push\<close>

definition jni_pushboolean :: "int \<Rightarrow> (jstate, unit) prog" where
  "jni_pushboolean b = enter (guarded [checkstack JNLUA_MINSTACK] (lua_pushboolean (b \<noteq> 0)))"

definition jni_pushbytearray :: "jstate jni \<Rightarrow> caller \<Rightarrow> u64 \<Rightarrow> (jstate, unit) prog" where
  "jni_pushbytearray H C ba = seq (set_var (pushbytearray_b_update (\<lambda>_. None))) (enter
     (guarded [checkstack JNLUA_MINSTACK,
         (if ba = 0 then undef else bnd (jni_call (\<lambda>c. array_elements_ok H c ba)) (\<lambda>ok. bnd (get (\<lambda>s. byte_arrays s ba)) (\<lambda>b.
            seq (set_var (pushbytearray_b_update (\<lambda>_. if ok then Some b else None))) (ret ok))))]
       (seq (bnd (get (\<lambda>s. length (byte_arrays s ba))) (\<lambda>n. set_var (pushbytearray_length_update (\<lambda>_. n))))
          (steps [lua_pushcfunction Pushbytearray_protected, JNLUA_PCALL H C 0 1]))))"

definition jni_pushinteger :: "int \<Rightarrow> (jstate, unit) prog" where
  "jni_pushinteger n = enter (guarded [checkstack JNLUA_MINSTACK] (lua_pushinteger n))"

definition jni_pushjavafunction :: "jstate jni \<Rightarrow> caller \<Rightarrow> u64 \<Rightarrow> (jstate, unit) prog" where
  "jni_pushjavafunction H C f = enter (guarded [checkstack JNLUA_MINSTACK, checknotnull f]
     (steps [set_var (pushjavafunction_f_update (\<lambda>_. f)), lua_pushcfunction Pushjavafunction_protected,
        JNLUA_PCALL H C 0 1]))"

definition jni_pushjavaclosure :: "jstate jni \<Rightarrow> caller \<Rightarrow> u64 \<Rightarrow> int \<Rightarrow> (jstate, unit) prog" where
  "jni_pushjavaclosure H C f i = enter (guarded [checkstack JNLUA_MINSTACK, checknotnull f]
     (steps [set_var (pushjavafunction_f_update (\<lambda>_. f)), lua_pushcclosure Pushjavafunction_protected i,
        JNLUA_PCALL H C 0 1]))"

definition jni_pushjavaobject :: "jstate jni \<Rightarrow> caller \<Rightarrow> u64 \<Rightarrow> (jstate, unit) prog" where
  "jni_pushjavaobject H C object = enter (guarded [checkstack JNLUA_MINSTACK, checknotnull object]
     (steps [set_var (pushjavaobject_object_update (\<lambda>_. object)), lua_pushcfunction Pushjavaobject_protected,
        JNLUA_PCALL H C 0 1]))"

definition jni_pushlightjavaobject :: "jstate jni \<Rightarrow> caller \<Rightarrow> u64 \<Rightarrow> (jstate, unit) prog" where
  "jni_pushlightjavaobject H C object = enter (guarded [checkstack JNLUA_MINSTACK, checknotnull object]
     (steps [set_var (pushlightjavaobject_object_update (\<lambda>_. object)),
        lua_pushcfunction Pushlightjavaobject_protected, JNLUA_PCALL H C 0 1]))"

definition jni_pushlightuserdata :: "jstate jni \<Rightarrow> u64 \<Rightarrow> (jstate, unit) prog" where
  "jni_pushlightuserdata H object = enter (guarded [checkstack JNLUA_MINSTACK, checknotnull object]
     (bnd (NewGlobalRef H object) lua_pushlightuserdata))"

definition jni_newjavaobject :: "jstate jni \<Rightarrow> u64 \<Rightarrow> (jstate, unit) prog" where
  "jni_newjavaobject H object = enter (guarded [checkstack JNLUA_MINSTACK, checknotnull object]
     (newjavaobject H object))"

definition jni_pushnil :: "(jstate, unit) prog" where
  "jni_pushnil = enter (guarded [checkstack JNLUA_MINSTACK] lua_pushnil)"

definition jni_pushnumber :: "lua_Number \<Rightarrow> (jstate, unit) prog" where
  "jni_pushnumber n = enter (guarded [checkstack JNLUA_MINSTACK] (lua_pushnumber n))"

definition jni_pushstring :: "jstate jni \<Rightarrow> caller \<Rightarrow> u64 \<Rightarrow> (jstate, unit) prog" where
  "jni_pushstring H C str = seq (set_var (pushstring_s_update (\<lambda>_. None))) (enter
     (seq (guarded [checkstack JNLUA_MINSTACK, chars_into H (\<lambda>u. pushstring_s_update (\<lambda>_. u)) str]
            (steps [set_var (pushstring_length_update (\<lambda>_. string_utf_length H str)),
               lua_pushcfunction Pushstring_protected, JNLUA_PCALL H C 0 1]))
       (release pushstring_s)))"

section \<open>Type tests\<close>

definition type_test :: "int \<Rightarrow> (jstate, bool) prog \<Rightarrow> (jstate, bool) prog" where
  "type_test index test = enter (bnd (validindex index) (\<lambda>v. if \<not> v then ret False else test))"

definition jni_isboolean :: "int \<Rightarrow> (jstate, bool) prog" where
  "jni_isboolean index = type_test index (lua_isboolean index)"
definition jni_iscfunction :: "int \<Rightarrow> (jstate, bool) prog" where
  "jni_iscfunction index = type_test index (bnd (lua_tocfunction index) (\<lambda>f.
     ret (f \<noteq> None \<and> f \<noteq> Some Calljavafunction)))"
definition jni_isfunction :: "int \<Rightarrow> (jstate, bool) prog" where
  "jni_isfunction index = type_test index (lua_isfunction index)"
definition jni_isjavafunction :: "int \<Rightarrow> (jstate, bool) prog" where
  "jni_isjavafunction index = type_test index (bnd (lua_tocfunction index) (\<lambda>f. ret (f = Some Calljavafunction)))"
definition jni_isjavaobject :: "jstate jni \<Rightarrow> caller \<Rightarrow> int \<Rightarrow> (jstate, bool) prog" where
  "jni_isjavaobject H C index = type_test index
     (seq (guarded [checkstack JNLUA_MINSTACK] (call_on H C Isjavaobject_protected index 0))
       (var isjavaobject_result))"
definition jni_isnil :: "int \<Rightarrow> (jstate, bool) prog" where
  "jni_isnil index = type_test index (lua_isnil index)"
definition jni_isnone :: "int \<Rightarrow> (jstate, bool) prog" where
  "jni_isnone index = enter (bnd (validindex index) (\<lambda>v. ret (\<not> v)))"
definition jni_isnoneornil :: "int \<Rightarrow> (jstate, bool) prog" where
  "jni_isnoneornil index = enter (bnd (validindex index) (\<lambda>v. if \<not> v then ret True else lua_isnil index))"
definition jni_isnumber :: "jstate jni \<Rightarrow> int \<Rightarrow> (jstate, bool) prog" where
  "jni_isnumber H index = type_test index (lua_isnumber H index)"
definition jni_isstring :: "int \<Rightarrow> (jstate, bool) prog" where
  "jni_isstring index = type_test index (lua_isstring index)"
definition jni_istable :: "int \<Rightarrow> (jstate, bool) prog" where
  "jni_istable index = type_test index (lua_istable index)"
definition jni_isthread :: "int \<Rightarrow> (jstate, bool) prog" where
  "jni_isthread index = type_test index (lua_isthread index)"

section \<open>Queries\<close>

definition compare_on :: "jstate jni \<Rightarrow> caller \<Rightarrow> cfunction \<Rightarrow> (statics \<Rightarrow> bool) \<Rightarrow> int \<Rightarrow> int \<Rightarrow> (jstate, bool) prog" where
  "compare_on H C f result index1 index2 = enter
     (bnd (both (validindex index1) (validindex index2)) (\<lambda>v. if \<not> v then ret False
      else seq (guarded [checkstack JNLUA_MINSTACK]
          (bnd (lua_absindex index1) (\<lambda>index1. bnd (lua_absindex index2) (\<lambda>index2.
             steps [lua_pushcfunction f, lua_pushvalue index1, lua_pushvalue index2, JNLUA_PCALL H C 2 0]))))
        (var result)))"

definition jni_equal :: "jstate jni \<Rightarrow> caller \<Rightarrow> int \<Rightarrow> int \<Rightarrow> (jstate, bool) prog" where
  "jni_equal H C index1 index2 = compare_on H C Equal_protected equal_result index1 index2"

definition jni_lessthan :: "jstate jni \<Rightarrow> caller \<Rightarrow> int \<Rightarrow> int \<Rightarrow> (jstate, bool) prog" where
  "jni_lessthan H C index1 index2 = compare_on H C Lessthan_protected lessthan_result index1 index2"

definition checked :: "(jstate, bool) prog list \<Rightarrow> 'a \<Rightarrow> (jstate, 'a) prog \<Rightarrow> (jstate, 'a) prog" where
  "checked cs dflt body = enter (bnd (all_of cs) (\<lambda>ok. if ok then body else ret dflt))"

definition jni_objlen :: "jstate jni \<Rightarrow> int \<Rightarrow> (jstate, int) prog" where
  "jni_objlen H index = checked [checkindex index] 0 (bnd (lua_objlen H index) (\<lambda>n. ret (to_int (int n))))"
definition jni_rawequal :: "int \<Rightarrow> int \<Rightarrow> (jstate, bool) prog" where
  "jni_rawequal index1 index2 = checked [checkindex index1, checkindex index2] False (lua_rawequal index1 index2)"
definition jni_toboolean :: "int \<Rightarrow> (jstate, bool) prog" where
  "jni_toboolean index = checked [checkindex index] False (lua_toboolean index)"

definition jni_tobytearray :: "jstate jni \<Rightarrow> caller \<Rightarrow> int \<Rightarrow> (jstate, u64) prog" where
  "jni_tobytearray H C index = seq (set_var (tobytearray_result_update (\<lambda>_. None))) (enter
     (seq (guarded [checkstack JNLUA_MINSTACK, checkindex index] (call_on H C Tobytearray_protected index 0))
       (bnd (var tobytearray_result) (\<lambda>r. case r of None \<Rightarrow> ret 0
        | Some b \<Rightarrow>
            bnd (jni_call (\<lambda>c. new_byte_array H c (length b))) (\<lambda>ba.
              if ba = 0 then ret 0
              else bnd (jni_call (\<lambda>c. array_elements_ok H c ba)) (\<lambda>ok.
                if \<not> ok then ret 0
                else seq (upd (\<lambda>s. s\<lparr>byte_arrays := (byte_arrays s)(ba := b)\<rparr>)) (ret ba)))))))"

definition jni_tointeger :: "jstate jni \<Rightarrow> int \<Rightarrow> (jstate, int) prog" where
  "jni_tointeger H index = checked [checkindex index] 0 (bnd (lua_tointeger H index) (\<lambda>i. ret (to_int i)))"

definition object_result :: "jstate jni \<Rightarrow> caller \<Rightarrow> cfunction \<Rightarrow> (statics \<Rightarrow> u64) \<Rightarrow> int \<Rightarrow> (jstate, u64) prog" where
  "object_result H C f result index = enter
     (seq (guarded [checkstack JNLUA_MINSTACK, checkindex index] (call_on H C f index 0)) (var result))"

definition jni_tojavafunction :: "jstate jni \<Rightarrow> caller \<Rightarrow> int \<Rightarrow> (jstate, u64) prog" where
  "jni_tojavafunction H C index = object_result H C Tojavafunction_protected tojavafunction_result index"
definition jni_tojavaobject :: "jstate jni \<Rightarrow> caller \<Rightarrow> int \<Rightarrow> (jstate, u64) prog" where
  "jni_tojavaobject H C index = object_result H C Tojavaobject_protected tojavaobject_result index"
definition jni_tolightjavaobject :: "jstate jni \<Rightarrow> caller \<Rightarrow> int \<Rightarrow> (jstate, u64) prog" where
  "jni_tolightjavaobject H C index = object_result H C Tolightjavaobject_protected tolightjavaobject_result index"
definition jni_touserdata :: "int \<Rightarrow> (jstate, u64) prog" where
  "jni_touserdata index = checked [checkstack JNLUA_MINSTACK, checkindex index] 0
     (bnd (lua_touserdata index) deref)"
definition jni_tonumber :: "jstate jni \<Rightarrow> int \<Rightarrow> (jstate, lua_Number) prog" where
  "jni_tonumber H index = checked [checkindex index] 0 (lua_tonumber H index)"
definition jni_topointer :: "int \<Rightarrow> (jstate, u64) prog" where
  "jni_topointer index = checked [checkindex index] 0 (lua_topointer index)"

definition jni_tostring :: "jstate jni \<Rightarrow> caller \<Rightarrow> int \<Rightarrow> (jstate, u64) prog" where
  "jni_tostring H C index = seq (set_var (tostring_result_update (\<lambda>_. None))) (enter
     (seq (guarded [checkstack JNLUA_MINSTACK, checkindex index] (call_on H C Tostring_protected index 0))
       (bnd (var tostring_result) (\<lambda>r. if r = None then ret 0 else NewStringUTF H r))))"

definition jni_type :: "int \<Rightarrow> (jstate, int) prog" where
  "jni_type index = enter (bnd (validindex index) (\<lambda>v. if \<not> v then ret LUA_TNONE else lua_type index))"

section \<open>Stack\<close>

definition jni_concat :: "jstate jni \<Rightarrow> caller \<Rightarrow> int \<Rightarrow> (jstate, unit) prog" where
  "jni_concat H C n = enter
     (guarded [checkstack JNLUA_MINSTACK, checkarg (0 \<le> n) ''illegal count'', checknelems n]
       (steps [set_var (concat_n_update (\<lambda>_. n)), lua_pushcfunction Concat_protected, lua_insert (- n - 1),
          JNLUA_PCALL H C (nat n) 1]))"

definition jni_gettop :: "(jstate, int) prog" where "jni_gettop = enter lua_gettop"

definition jni_insert :: "int \<Rightarrow> (jstate, unit) prog" where
  "jni_insert index = enter (guarded [checkrealindex index] (lua_insert index))"

definition jni_pop :: "int \<Rightarrow> (jstate, unit) prog" where
  "jni_pop n = enter
     (guarded [bnd lua_gettop (\<lambda>top. checkarg (0 \<le> n \<and> n \<le> top) ''illegal count'')] (lua_pop n))"

definition jni_pushvalue :: "int \<Rightarrow> (jstate, unit) prog" where
  "jni_pushvalue index = enter (guarded [checkstack JNLUA_MINSTACK, checkindex index] (lua_pushvalue index))"

definition jni_remove :: "int \<Rightarrow> (jstate, unit) prog" where
  "jni_remove index = enter (guarded [checkrealindex index] (lua_remove index))"

definition jni_replace :: "int \<Rightarrow> (jstate, unit) prog" where
  "jni_replace index = enter (guarded [checkindex index, checknelems 1] (lua_replace index))"

definition jni_settop :: "int \<Rightarrow> (jstate, unit) prog" where
  "jni_settop index = enter
     (guarded [bnd lua_gettop (\<lambda>top.
         if 0 \<le> index then (if index \<le> top then ret True else checkstack (nat (index - top)))
         else checkrealindex index)]
       (lua_settop index))"

section \<open>Tables\<close>

definition jni_createtable :: "jstate jni \<Rightarrow> caller \<Rightarrow> int \<Rightarrow> int \<Rightarrow> (jstate, unit) prog" where
  "jni_createtable H C narr nrec = enter
     (guarded [checkstack JNLUA_MINSTACK, checkarg (0 \<le> narr) ''illegal array count'',
         checkarg (0 \<le> nrec) ''illegal record count'']
       (steps [set_var (createtable_narr_update (\<lambda>_. narr)), set_var (createtable_nrec_update (\<lambda>_. nrec)),
          lua_pushcfunction Createtable_protected, JNLUA_PCALL H C 0 1]))"

definition jni_findtable :: "jstate jni \<Rightarrow> caller \<Rightarrow> int \<Rightarrow> u64 \<Rightarrow> int \<Rightarrow> (jstate, u64) prog" where
  "jni_findtable H C index fname szhint =
     seq (steps [set_var (findtable_fname_update (\<lambda>_. None)), set_var (findtable_result_update (\<lambda>_. None))]) (enter
     (seq (guarded [checkstack JNLUA_MINSTACK, checkindex index,
             chars_into H (\<lambda>u. findtable_fname_update (\<lambda>_. u)) fname, checkarg (0 \<le> szhint) ''illegal size hint'']
            (seq (set_var (findtable_szhint_update (\<lambda>_. szhint)))
               (call_on H C Findtable_protected index LUA_MULTRET)))
     (seq (release findtable_fname)
       (bnd (var findtable_result) (\<lambda>r. if r = None then ret 0 else NewStringUTF H r)))))"

definition jni_getfield :: "jstate jni \<Rightarrow> caller \<Rightarrow> int \<Rightarrow> u64 \<Rightarrow> (jstate, unit) prog" where
  "jni_getfield H C index k = seq (set_var (getfield_k_update (\<lambda>_. None))) (enter
     (seq (guarded [checkstack JNLUA_MINSTACK, checktype index LUA_TTABLE, chars_into H (\<lambda>u. getfield_k_update (\<lambda>_. u)) k]
            (call_on H C Getfield_protected index 1))
       (release getfield_k)))"

definition jni_gettable :: "jstate jni \<Rightarrow> caller \<Rightarrow> int \<Rightarrow> (jstate, unit) prog" where
  "jni_gettable H C index = enter
     (guarded [checkstack JNLUA_MINSTACK, checktype index LUA_TTABLE] (call_on_with H C Gettable_protected 1 index 1))"

definition jni_newtable :: "jstate jni \<Rightarrow> caller \<Rightarrow> (jstate, unit) prog" where
  "jni_newtable H C = enter
     (guarded [checkstack JNLUA_MINSTACK] (steps [lua_pushcfunction Newtable_protected, JNLUA_PCALL H C 0 1]))"

definition jni_next :: "jstate jni \<Rightarrow> caller \<Rightarrow> int \<Rightarrow> (jstate, bool) prog" where
  "jni_next H C index = enter
     (seq (guarded [checkstack JNLUA_MINSTACK, checktype index LUA_TTABLE]
            (call_on_with H C Next_protected 1 index LUA_MULTRET))
       (var next_result))"

definition jni_rawget :: "int \<Rightarrow> (jstate, unit) prog" where
  "jni_rawget index = enter (guarded [checktype index LUA_TTABLE] (lua_rawget index))"

definition jni_rawgeti :: "int \<Rightarrow> int \<Rightarrow> (jstate, unit) prog" where
  "jni_rawgeti index n = enter
     (guarded [checkstack JNLUA_MINSTACK, checktype index LUA_TTABLE] (lua_rawgeti index n))"

definition jni_rawset :: "jstate jni \<Rightarrow> caller \<Rightarrow> int \<Rightarrow> (jstate, unit) prog" where
  "jni_rawset H C index = enter
     (guarded [checkstack JNLUA_MINSTACK, checktype index LUA_TTABLE, checknelems 2]
       (call_on_with H C Rawset_protected 2 index 0))"

definition jni_rawseti :: "jstate jni \<Rightarrow> caller \<Rightarrow> int \<Rightarrow> int \<Rightarrow> (jstate, unit) prog" where
  "jni_rawseti H C index n = enter
     (guarded [checkstack JNLUA_MINSTACK, checktype index LUA_TTABLE]
       (seq (set_var (rawseti_n_update (\<lambda>_. n))) (call_on_with H C Rawseti_protected 1 index 0)))"

definition jni_settable :: "jstate jni \<Rightarrow> caller \<Rightarrow> int \<Rightarrow> (jstate, unit) prog" where
  "jni_settable H C index = enter
     (guarded [checkstack JNLUA_MINSTACK, checktype index LUA_TTABLE, checknelems 2]
       (call_on_with H C Settable_protected 2 index 0))"

definition jni_setfield :: "jstate jni \<Rightarrow> caller \<Rightarrow> int \<Rightarrow> u64 \<Rightarrow> (jstate, unit) prog" where
  "jni_setfield H C index k = seq (set_var (setfield_k_update (\<lambda>_. None))) (enter
     (seq (guarded [checkstack JNLUA_MINSTACK, checktype index LUA_TTABLE, chars_into H (\<lambda>u. setfield_k_update (\<lambda>_. u)) k]
            (call_on_with H C Setfield_protected 1 index 0))
       (release setfield_k)))"

section \<open>Metatables and environments\<close>

definition jni_getmetatable :: "int \<Rightarrow> (jstate, bool) prog" where
  "jni_getmetatable index =
     checked [lua_checkstack (int JNLUA_MINSTACK), checkindex index] False (lua_getmetatable index)"

definition jni_setmetatable :: "int \<Rightarrow> (jstate, bool) prog" where
  "jni_setmetatable index =
     checked [checkindex index, checknelems 1, bnd (lua_type (-1)) (\<lambda>t. checkarg (t = LUA_TTABLE \<or> t = LUA_TNIL) ''illegal type'')]
       False (lua_setmetatable index)"

definition jni_getmetafield :: "jstate jni \<Rightarrow> caller \<Rightarrow> int \<Rightarrow> u64 \<Rightarrow> (jstate, bool) prog" where
  "jni_getmetafield H C index k = seq (set_var (getmetafield_k_update (\<lambda>_. None))) (enter
     (seq (guarded [checkstack JNLUA_MINSTACK, checkindex index, chars_into H (\<lambda>u. getmetafield_k_update (\<lambda>_. u)) k]
            (call_on H C Getmetafield_protected index LUA_MULTRET))
     (seq (release getmetafield_k) (var getmetafield_result))))"

definition jni_getfenv :: "int \<Rightarrow> (jstate, unit) prog" where
  "jni_getfenv index = enter (guarded [checkstack JNLUA_MINSTACK, checkindex index] (lua_getfenv index))"

definition jni_setfenv :: "int \<Rightarrow> (jstate, bool) prog" where
  "jni_setfenv index = checked [checkindex index, checktype (-1) LUA_TTABLE] False (lua_setfenv index)"

section \<open>References, sizes, moves, errors\<close>

definition jni_ref :: "jstate jni \<Rightarrow> caller \<Rightarrow> int \<Rightarrow> (jstate, int) prog" where
  "jni_ref H C index = enter
     (seq (guarded [checkstack JNLUA_MINSTACK, checktype index LUA_TTABLE] (call_on_with H C Ref_protected 1 index 0))
       (var ref_result))"

definition jni_unref :: "jstate jni \<Rightarrow> caller \<Rightarrow> int \<Rightarrow> int \<Rightarrow> (jstate, unit) prog" where
  "jni_unref H C index ref = enter
     (guarded [checkstack JNLUA_MINSTACK, checktype index LUA_TTABLE]
       (seq (set_var (unref_ref_update (\<lambda>_. ref))) (call_on H C Unref_protected index 0)))"

definition jni_tablesize :: "jstate jni \<Rightarrow> caller \<Rightarrow> int \<Rightarrow> (jstate, int) prog" where
  "jni_tablesize H C index = enter
     (seq (guarded [checkstack JNLUA_MINSTACK, checktype index LUA_TTABLE] (call_on H C Tablesize_protected index 0))
       (var tablesize_result))"

definition jni_tablemove :: "jstate jni \<Rightarrow> caller \<Rightarrow> int \<Rightarrow> int \<Rightarrow> int \<Rightarrow> int \<Rightarrow> (jstate, unit) prog" where
  "jni_tablemove H C index from to cnt = enter
     (guarded [checkstack JNLUA_MINSTACK, checktype index LUA_TTABLE, checkarg (0 \<le> cnt) ''illegal count'']
       (seq (steps [set_var (tablemove_from_update (\<lambda>_. from)), set_var (tablemove_to_update (\<lambda>_. to)),
               set_var (tablemove_count_update (\<lambda>_. cnt))])
          (call_on H C Tablemove_protected index 0)))"

definition jni_error :: "jstate jni \<Rightarrow> caller \<Rightarrow> u64 \<Rightarrow> (jstate, unit) prog" where
  "jni_error H C err = seq (set_var (luaLerror_val_update (\<lambda>_. None))) (enter
     (seq (guarded [checkstack JNLUA_MINSTACK, chars_into H (\<lambda>u. luaLerror_val_update (\<lambda>_. u)) err]
            (steps [lua_pushcfunction LuaLerror_protected, JNLUA_PCALL H C 0 1]))
       (release getglobal_name)))"

end
