(* ===== verification/Stack.thy ===== *)
theory Stack
  imports Auxlib
begin

text \<open>
  Running the operations of the API on a frame whose top values are known. The frame is written
  as what lies below, followed by the values the operation touches.
\<close>

section \<open>Pushing\<close>

lemma push_run: "length (stack s) < ci_top s \<Longrightarrow> luaA_pushobject v s = Val () (s\<lparr>stack := stack s @ [v]\<rparr>)"
  by (simp add: luaA_pushobject_def rawpush_def)

lemma pushcfunction_run:
  assumes "getcurrenv s = Val e s" "next_addr s \<noteq> - 1" "length (stack s) < ci_top s"
  shows "lua_pushcfunction f s = Val () (s\<lparr>closures := (closures s)(next_addr s \<mapsto> CClosure e f []),
    next_addr := next_addr s + 1, stack := stack s @ [TFunction (next_addr s)]\<rparr>)"
  using assms
  by (simp add: lua_pushcfunction_def lua_pushcclosure_def bnd_def seq_def alloc_def push_run Let_def)

section \<open>The top of the frame\<close>

lemma insert_run:
  "stack s = xs @ ys @ [v] \<Longrightarrow> length ys \<le> 9000 \<Longrightarrow>
   lua_insert (- int (length ys) - 1) s = Val () (s\<lparr>stack := xs @ v # ys\<rparr>)"
proof -
  assume a: "stack s = xs @ ys @ [v]" "length ys \<le> 9000"
  then have "index2adr (- int (length ys) - 1) s = Val (Stk (length xs)) s"
    by (simp add: index2adr_def LUA_REGISTRYINDEX_def nat_diff_distrib' flip: of_nat_Suc of_nat_add)
  moreover have "butlast (xs @ ys @ [v]) = xs @ ys" by (simp add: butlast_append)
  ultimately show ?thesis using a(1) by (simp add: lua_insert_def bnd_def)
qed

lemma top_adr: "stack s = xs @ [v] \<Longrightarrow> index2adr (- 1) s = Val (Stk (length xs)) s"
  by (simp add: index2adr_def LUA_REGISTRYINDEX_def nat_add_distrib)

lemma below_top_adr: "stack s = xs @ [w, v] \<Longrightarrow> index2adr (- 2) s = Val (Stk (length xs)) s"
  by (simp add: index2adr_def LUA_REGISTRYINDEX_def nat_add_distrib)

lemma index_value_top: "stack s = xs @ [v] \<Longrightarrow> index_value (- 1) s = Val v s"
  by (simp add: index_value_def bnd_def top_adr)

lemma index_value_below: "stack s = xs @ [w, v] \<Longrightarrow> index_value (- 2) s = Val w s"
  by (simp add: index_value_def bnd_def below_top_adr nth_append)

lemma lua_type_top: "stack s = xs @ [v] \<Longrightarrow> lua_type (- 1) s = Val (ttype v) s"
  by (simp add: lua_type_def bnd_def top_adr)

lemma top_value_top: "stack s = xs @ [v] \<Longrightarrow> top_value (Suc 0) s = Val v s" "stack s = xs @ [w, v] \<Longrightarrow> top_value 2 s = Val w s"
  by (simp_all add: top_value_def nth_append)

lemma lua_tolstring_top: "stack s = xs @ [TString b] \<Longrightarrow> lua_tolstring H (- 1) s = Val (Some b) s"
  by (simp add: lua_tolstring_def bnd_def top_adr)

lemma lua_pop_run:
  "stack s = xs @ [v] \<Longrightarrow> lua_pop 1 s = Val () (s\<lparr>stack := xs\<rparr>)"
  "stack s = xs @ [w, v] \<Longrightarrow> lua_pop 2 s = Val () (s\<lparr>stack := xs\<rparr>)"
  by (simp_all add: lua_pop_def lua_settop_def nat_add_distrib)

lemma drop_top_run:
  "stack s = xs @ [v] \<Longrightarrow> drop_top (Suc 0) s = Val () (s\<lparr>stack := xs\<rparr>)"
  "stack s = xs @ [w, v] \<Longrightarrow> drop_top 2 s = Val () (s\<lparr>stack := xs\<rparr>)"
  by (simp_all add: drop_top_def)

lemma set_top_run: "stack s = xs @ [v] \<Longrightarrow> set_top_value w s = Val () (s\<lparr>stack := xs @ [w]\<rparr>)"
  by (simp add: set_top_value_def)

section \<open>Integers as numbers\<close>

lemma number2integer_cast_num:
  assumes ab: "\<bar>i\<bar> \<le> 2 ^ 31"
  shows "lua_number2integer (cast_num i) = i"
proof (cases "i = 0")
  case True
  then show ?thesis by (simp add: cast_num_def lua_number2integer_def num_exp_def)
next
  case False
  define n where "n = nat \<bar>i\<bar>"
  define e where "e = top_bit n"
  note f = cast_num_fields [OF False ab, folded n_def, folded e_def]
  have "2 ^ 52 + (n - 2 ^ e) * 2 ^ (52 - e) = (2 ^ e + (n - 2 ^ e)) * 2 ^ (52 - e)"
    using f(4) by (simp add: add_mult_distrib flip: power_add)
  also have "\<dots> = n * 2 ^ (52 - e)" using f(5) by simp
  finally have m: "2 ^ 52 + (n - 2 ^ e) * 2 ^ (52 - e) = n * 2 ^ (52 - e)" .
  have ex: "1075 - (e + 1023) = 52 - e" by simp
  have "lua_number2integer (cast_num i) = (if i < 0 then - int n else int n)"
    unfolding lua_number2integer_def f(1-3) Let_def m ex using f(4) by simp
  then show ?thesis by (simp add: n_def)
qed

end
