(* ===== verification/JniRun.thy ===== *)
theory JniRun
  imports Jni Stack
begin

text \<open>
  Running the native methods: what their checks, the transfer of arguments and the protected
  call come to, on a state with room on the stack and with memory left.
\<close>

section \<open>Values named by an index\<close>

text \<open>
  \<open>names s n index v\<close>: \<open>index\<close> denotes \<open>v\<close>, which is not among the top \<open>n\<close> values.
\<close>

definition names :: "jstate \<Rightarrow> nat \<Rightarrow> int \<Rightarrow> TValue \<Rightarrow> bool" where
  "names s n index v \<longleftrightarrow>
     (\<exists>i. i < length (stack s) - n \<and> (index = int i + 1 \<or> index = int i - int (length (stack s))) \<and> v = stack s ! i)
     \<or> index = LUA_REGISTRYINDEX \<and> v = registry s \<or> index = LUA_GLOBALSINDEX \<and> v = l_gt s"

text \<open>A thread with an environment, room for a call and memory for \<open>m\<close> objects.\<close>

definition ready :: "nat \<Rightarrow> jstate \<Rightarrow> bool" where
  "ready m s \<longleftrightarrow> has_env s \<and> length (stack s) + LUA_MINSTACK \<le> nat LUAI_MAXCSTACK
     \<and> unat (next_addr s) + m < 2 ^ 64 - 1 \<and> (\<forall>a. closures s a \<noteq> None \<longrightarrow> a < next_addr s)
     \<and> (\<exists>e. getcurrenv s = Val e s)"

lemma ready_len: "ready m s \<Longrightarrow> length (stack s) \<le> 7980"
  by (simp add: ready_def lua_consts)

lemma names_adr:
  assumes "names s n index v" "length (stack s) \<le> 9000"
  obtains a where "index2adr index s = Val a s" "read_addr a s = v" "a \<noteq> NilObject"
proof -
  from assms(1) consider
      (pos) i where "i < length (stack s)" "index = int i + 1" "v = stack s ! i"
    | (neg) i where "i < length (stack s)" "index = int i - int (length (stack s))" "v = stack s ! i"
    | (reg) "index = LUA_REGISTRYINDEX" "v = registry s" | (glo) "index = LUA_GLOBALSINDEX" "v = l_gt s"
    unfolding names_def by fastforce
  then show thesis
  proof cases
    case pos
    then show thesis using that [of "Stk i"] by (simp add: index2adr_def)
  next
    case neg
    then show thesis using that [of "Stk i"] assms(2) by (simp add: index2adr_def LUA_REGISTRYINDEX_def)
  next
    case reg
    then show thesis using that [of Registry] by (simp add: index2adr_def LUA_REGISTRYINDEX_def)
  next
    case glo
    then show thesis using that [of Globals]
      by (simp add: index2adr_def LUA_REGISTRYINDEX_def LUA_GLOBALSINDEX_def LUA_ENVIRONINDEX_def)
  qed
qed

lemma names_value: "names s n index v \<Longrightarrow> length (stack s) \<le> 9000 \<Longrightarrow> index_value index s = Val v s"
  by (erule (1) names_adr) (simp add: index_value_def bnd_def)

lemma names_type: "names s n index v \<Longrightarrow> length (stack s) \<le> 9000 \<Longrightarrow> lua_type index s = Val (ttype v) s"
  by (erule (1) names_adr) (simp add: lua_type_def bnd_def)

text \<open>The index as \<open>lua_absindex\<close> returns it still denotes the value when values are put above it.\<close>

lemma names_abs:
  assumes "names s n index v" "length (stack s) \<le> 9000"
  obtains ix where "lua_absindex index s = Val ix s"
    "\<And>s'. take (length (stack s) - n) (stack s') = take (length (stack s) - n) (stack s) \<Longrightarrow>
        length (stack s) - n \<le> length (stack s') \<Longrightarrow> registry s' = registry s \<Longrightarrow> l_gt s' = l_gt s \<Longrightarrow>
        names s' 0 ix v"
proof -
  let ?b = "length (stack s) - n"
  from assms(1) consider
      (stk) i where "i < ?b" "index = int i + 1 \<or> index = int i - int (length (stack s))" "v = stack s ! i"
    | (reg) "index = LUA_REGISTRYINDEX" "v = registry s" | (glo) "index = LUA_GLOBALSINDEX" "v = l_gt s"
    unfolding names_def by blast
  then show thesis
  proof cases
    case stk
    then have "lua_absindex index s = Val (int i + 1) s"
      using assms(2) by (auto simp: lua_absindex_def lua_gettop_def bnd_def LUA_REGISTRYINDEX_def)
    moreover have "names s' 0 (int i + 1) v"
      if "take ?b (stack s') = take ?b (stack s)" "?b \<le> length (stack s')" for s'
    proof -
      have "stack s' ! i = stack s ! i" using that(1) stk(1) by (metis nth_take)
      then show ?thesis using stk that(2) unfolding names_def by auto
    qed
    ultimately show thesis using that by blast
  next
    case reg
    then show thesis using that [of index]
      by (simp add: lua_absindex_def LUA_REGISTRYINDEX_def names_def)
  next
    case glo
    then show thesis using that [of index]
      by (simp add: lua_absindex_def LUA_REGISTRYINDEX_def LUA_GLOBALSINDEX_def names_def)
  qed
qed

section \<open>Primitives\<close>

lemma checkstack_run:
  "length (stack s) + LUA_MINSTACK \<le> nat LUAI_MAXCSTACK \<Longrightarrow>
   checkstack JNLUA_MINSTACK s = Val True (s\<lparr>ci_top := max (ci_top s) (length (stack s) + LUA_MINSTACK)\<rparr>)"
  by (simp add: checkstack_def lua_checkstack_def bnd_def check_def JNLUA_MINSTACK_def lua_consts)

lemma checktype_run:
  "names s n index v \<Longrightarrow> length (stack s) \<le> 9000 \<Longrightarrow> ttype v = type \<Longrightarrow> checktype index type s = Val True s"
  by (simp add: checktype_def checkindex_def validindex_def both_def bnd_def checkarg_def check_def names_type)

lemma checknelems_run: "n \<le> int (length (stack s)) \<Longrightarrow> checknelems n s = Val True s"
  by (simp add: checknelems_def checkstate_def check_def bnd_def lua_gettop_def)

section \<open>Calls\<close>

lemma jcall_c:
  assumes st: "stack s = below @ TFunction a # args" and cl: "closures s a = Some (CClosure e f uv)"
    and f: "\<And>x. f \<noteq> Lib_function x"
  shows "jcall H (Suc d) (length args) nres s =
    (case run_c H (jcall H d) f (enter_frame a args s) of
       Val n s' \<Rightarrow> if 0 \<le> n \<and> n \<le> int (length (stack s'))
         then Val () (leave_frame s (below @ luaD_poscall (drop (length (stack s') - nat n) (stack s')) nres) s')
         else Undef
     | Raise x s' \<Rightarrow> Raise x s' | Undef \<Rightarrow> Undef)"
proof -
  have call: "call_closure H run a args s = bnd (run f) (\<lambda>n s'. if 0 \<le> n \<and> n \<le> int (length (stack s'))
                    then Val (drop (length (stack s') - nat n) (stack s')) s' else Undef) (enter_frame a args s)" for run
    using cl f by (auto simp: call_closure_def split: cfunction.split)
  show ?thesis
    unfolding jcall_def luaD_call.simps luaD_precall_def using st
    by (simp add: bnd_def call Let_def split: res.split)
qed

lemma pcall_c:
  assumes st: "stack s = below @ TFunction a # args" and cl: "closures s a = Some (CClosure e f uv)"
    and f: "\<And>x. f \<noteq> Lib_function x"
  shows "run_c H (jcall H d) f (enter_frame a args s) = Val n s' \<Longrightarrow> 0 \<le> n \<Longrightarrow> n \<le> int (length (stack s')) \<Longrightarrow>
      lua_pcall (jcall H (Suc d)) (length args) nres s =
      bnd (adjustresults nres) (\<lambda>_. ret 0) (leave_frame s (below @ luaD_poscall (drop (length (stack s') - nat n) (stack s')) nres) s')"
    and "run_c H (jcall H d) f (enter_frame a args s) = Raise LUA_ERRRUN s' \<Longrightarrow> stack s' \<noteq> [] \<Longrightarrow> nres \<noteq> LUA_MULTRET \<Longrightarrow>
      lua_pcall (jcall H (Suc d)) (length args) nres s =
      Val LUA_ERRRUN (leave_frame s (below @ [last (stack s')]) s')"
    and "run_c H (jcall H d) f (enter_frame a args s) = Undef \<Longrightarrow>
      lua_pcall (jcall H (Suc d)) (length args) nres s = Undef"
proof -
  have n: "length (stack s) - (length args + 1) = length below" "\<not> length (stack s) \<le> length args"
    using st by simp_all
  note j = jcall_c [OF st cl f, of H d nres]
  show "run_c H (jcall H d) f (enter_frame a args s) = Val n s' \<Longrightarrow> 0 \<le> n \<Longrightarrow> n \<le> int (length (stack s')) \<Longrightarrow>
      lua_pcall (jcall H (Suc d)) (length args) nres s =
      bnd (adjustresults nres) (\<lambda>_. ret 0) (leave_frame s (below @ luaD_poscall (drop (length (stack s') - nat n) (stack s')) nres) s')"
    unfolding lua_pcall_def n using n(2) by (simp add: bnd_def seq_def luaD_pcall_def j)
  show "run_c H (jcall H d) f (enter_frame a args s) = Raise LUA_ERRRUN s' \<Longrightarrow> stack s' \<noteq> [] \<Longrightarrow> nres \<noteq> LUA_MULTRET \<Longrightarrow>
      lua_pcall (jcall H (Suc d)) (length args) nres s =
      Val LUA_ERRRUN (leave_frame s (below @ [last (stack s')]) s')"
    unfolding lua_pcall_def n using n(2) st
    by (simp add: bnd_def seq_def luaD_pcall_def j luaD_seterrorobj_def adjustresults_def LUA_ERRRUN_def LUA_ERRMEM_def LUA_ERRERR_def)
  show "run_c H (jcall H d) f (enter_frame a args s) = Undef \<Longrightarrow>
      lua_pcall (jcall H (Suc d)) (length args) nres s = Undef"
    unfolding lua_pcall_def n using n(2) by (simp add: bnd_def luaD_pcall_def j)
qed

lemma adjust_run: "nres \<noteq> LUA_MULTRET \<Longrightarrow> bnd (adjustresults nres) (\<lambda>_. ret x) s = Val x s"
  by (simp add: bnd_def adjustresults_def)

text \<open>
  The transfer: with \<open>n\<close> arguments on the top and a value \<open>v\<close> named by the index, the protected
  function gets \<open>v\<close> and the arguments in its frame.
\<close>

definition with_closure :: "cfunction \<Rightarrow> u64 \<Rightarrow> jstate \<Rightarrow> jstate" where
  "with_closure f e s = s\<lparr>closures := (closures s)(next_addr s \<mapsto> CClosure e f []), next_addr := next_addr s + 1\<rparr>"

lemma with_closure_simps [simp]:
  "stack (with_closure f e s) = stack s" "ci_top (with_closure f e s) = ci_top s" "func (with_closure f e s) = func s"
  "tables (with_closure f e s) = tables s" "registry (with_closure f e s) = registry s" "l_gt (with_closure f e s) = l_gt s"
  "udatas (with_closure f e s) = udatas s" "g_mt (with_closure f e s) = g_mt s" "vars (with_closure f e s) = vars s"
  "exn (with_closure f e s) = exn s" "has_env (with_closure f e s) = has_env s"
  "closures (with_closure f e s) (next_addr s) = Some (CClosure e f [])"
  "next_addr (with_closure f e s) = next_addr s + 1"
  by (simp_all add: with_closure_def)

lemma call_on_with_run:
  assumes st: "stack s = below @ args" "length args = n" and nm: "names s n index v" and len: "length (stack s) \<le> 8000"
    and e: "getcurrenv s = Val e s" "next_addr s \<noteq> - 1" and top: "length (stack s) + 2 \<le> ci_top s"
  shows "call_on_with H C f n index nres s =
    JNLUA_PCALL H C (n + 1) nres ((with_closure f e s)\<lparr>stack := below @ TFunction (next_addr s) # v # args\<rparr>)"
proof -
  obtain ix where ix: "lua_absindex index s = Val ix s"
    "\<And>s'. take (length below) (stack s') = below \<Longrightarrow> length below \<le> length (stack s') \<Longrightarrow>
        registry s' = registry s \<Longrightarrow> l_gt s' = l_gt s \<Longrightarrow> names s' 0 ix v"
  proof -
    have "length (stack s) \<le> 9000" "length (stack s) - n = length below" "take (length below) (stack s) = below"
      using len st by simp_all
    from names_abs [OF nm this(1), unfolded this(2,3)] that show thesis by metis
  qed
  let ?f = "TFunction (next_addr s)"
  define s1 where "s1 = (with_closure f e s)\<lparr>stack := below @ args @ [?f]\<rparr>"
  define s2 where "s2 = (with_closure f e s)\<lparr>stack := below @ ?f # args\<rparr>"
  define s3 where "s3 = (with_closure f e s)\<lparr>stack := (below @ [?f]) @ args @ [v]\<rparr>"
  have "lua_pushcfunction f s = Val () s1"
    using pushcfunction_run [OF e] top st by (simp add: s1_def with_closure_def)
  moreover have "lua_insert (- int n - 1) s1 = Val () s2"
    using insert_run [of s1 below args ?f] len st by (simp add: s1_def s2_def)
  moreover have "lua_pushvalue ix s2 = Val () s3"
  proof -
    have "index_value ix s2 = Val v s2"
      by (rule names_value [OF ix(2)]) (use len st in \<open>simp_all add: s2_def\<close>)
    then show ?thesis using top st by (simp add: lua_pushvalue_def bnd_def push_run s2_def s3_def)
  qed
  moreover have "lua_insert (- int n - 1) s3 = Val () ((with_closure f e s)\<lparr>stack := below @ ?f # v # args\<rparr>)"
    using insert_run [of s3 "below @ [?f]" args v] len st by (simp add: s3_def)
  ultimately show ?thesis
    using ix(1) by (simp add: call_on_with_def bnd_def seq_def split: res.split)
qed

lemma call_on_run:
  assumes nm: "names s 0 index v" and len: "length (stack s) \<le> 8000"
    and e: "getcurrenv s = Val e s" "next_addr s \<noteq> - 1" and top: "length (stack s) + 2 \<le> ci_top s"
  shows "call_on H C f index nres s =
    JNLUA_PCALL H C 1 nres ((with_closure f e s)\<lparr>stack := stack s @ [TFunction (next_addr s), v]\<rparr>)"
proof -
  obtain ix where ix: "lua_absindex index s = Val ix s"
    "\<And>s'. take (length (stack s)) (stack s') = stack s \<Longrightarrow> length (stack s) \<le> length (stack s') \<Longrightarrow>
        registry s' = registry s \<Longrightarrow> l_gt s' = l_gt s \<Longrightarrow> names s' 0 ix v"
  proof -
    have "length (stack s) \<le> 9000" "length (stack s) - 0 = length (stack s)" "take (length (stack s)) (stack s) = stack s"
      using len by simp_all
    from names_abs [OF nm this(1), unfolded this(2,3)] that show thesis by metis
  qed
  define s1 where "s1 = (with_closure f e s)\<lparr>stack := stack s @ [TFunction (next_addr s)]\<rparr>"
  have "lua_pushcfunction f s = Val () s1"
    using pushcfunction_run [OF e] top by (simp add: s1_def with_closure_def)
  moreover have "lua_pushvalue ix s1 = Val () ((with_closure f e s)\<lparr>stack := stack s @ [TFunction (next_addr s), v]\<rparr>)"
  proof -
    have "index_value ix s1 = Val v s1"
      by (rule names_value [OF ix(2)]) (use len in \<open>simp_all add: s1_def\<close>)
    then show ?thesis using top by (simp add: lua_pushvalue_def bnd_def push_run s1_def)
  qed
  ultimately show ?thesis
    using ix(1) by (simp add: call_on_def bnd_def seq_def split: res.split)
qed

section \<open>Protected calls of the native methods\<close>

lemma JNLUA_PCALL_c:
  assumes st: "stack s = below @ TFunction a # args" and cl: "closures s a = Some (CClosure e f uv)"
    and f: "\<And>x. f \<noteq> Lib_function x" and nres: "nres \<noteq> LUA_MULTRET"
  shows "run_c H (jcall H d) f (enter_frame a args s) = Val n s' \<Longrightarrow> 0 \<le> n \<Longrightarrow> n \<le> int (length (stack s')) \<Longrightarrow>
      JNLUA_PCALL H (jcall H (Suc d)) (length args) nres s =
      Val () (leave_frame s (below @ luaD_poscall (drop (length (stack s') - nat n) (stack s')) nres) s')"
    and "run_c H (jcall H d) f (enter_frame a args s) = Raise LUA_ERRRUN s' \<Longrightarrow> stack s' \<noteq> [] \<Longrightarrow>
      JNLUA_PCALL H (jcall H (Suc d)) (length args) nres s =
      throw H (jcall H (Suc d)) LUA_ERRRUN (leave_frame s (below @ [last (stack s')]) s')"
    and "run_c H (jcall H d) f (enter_frame a args s) = Undef \<Longrightarrow>
      JNLUA_PCALL H (jcall H (Suc d)) (length args) nres s = Undef"
proof -
  have A: "lua_pcall C n nr s = Val 0 s' \<Longrightarrow> JNLUA_PCALL H C n nr s = Val () s'" for C n nr s s'
    by (simp add: JNLUA_PCALL_def bnd_def)
  have B: "lua_pcall C n nr s = Val LUA_ERRRUN s' \<Longrightarrow> JNLUA_PCALL H C n nr s = throw H C LUA_ERRRUN s'" for C n nr s s'
    by (simp add: JNLUA_PCALL_def bnd_def LUA_ERRRUN_def)
  have C: "lua_pcall C n nr s = Undef \<Longrightarrow> JNLUA_PCALL H C n nr s = Undef" for C n nr s
    by (simp add: JNLUA_PCALL_def bnd_def)
  note P = pcall_c [OF st cl f, of H d]
  show "run_c H (jcall H d) f (enter_frame a args s) = Val n s' \<Longrightarrow> 0 \<le> n \<Longrightarrow> n \<le> int (length (stack s')) \<Longrightarrow>
      JNLUA_PCALL H (jcall H (Suc d)) (length args) nres s =
      Val () (leave_frame s (below @ luaD_poscall (drop (length (stack s') - nat n) (stack s')) nres) s')"
    by (rule A) (simp only: P(1) adjust_run [OF nres])
  show "run_c H (jcall H d) f (enter_frame a args s) = Raise LUA_ERRRUN s' \<Longrightarrow> stack s' \<noteq> [] \<Longrightarrow>
      JNLUA_PCALL H (jcall H (Suc d)) (length args) nres s =
      throw H (jcall H (Suc d)) LUA_ERRRUN (leave_frame s (below @ [last (stack s')]) s')"
    by (rule B [OF P(2)]) (use nres in simp_all)
  show "run_c H (jcall H d) f (enter_frame a args s) = Undef \<Longrightarrow>
      JNLUA_PCALL H (jcall H (Suc d)) (length args) nres s = Undef"
    by (rule C [OF P(3)])
qed

text \<open>The state in which a native method makes its calls, after \<open>checkstack\<close>.\<close>

definition roomy :: "jstate \<Rightarrow> jstate" where
  "roomy s = s\<lparr>ci_top := max (ci_top s) (length (stack s) + LUA_MINSTACK)\<rparr>"

lemma roomy_simps [simp]:
  "stack (roomy s) = stack s" "func (roomy s) = func s" "tables (roomy s) = tables s" "registry (roomy s) = registry s"
  "l_gt (roomy s) = l_gt s" "next_addr (roomy s) = next_addr s" "closures (roomy s) = closures s"
  "udatas (roomy s) = udatas s" "g_mt (roomy s) = g_mt s" "vars (roomy s) = vars s" "exn (roomy s) = exn s"
  "has_env (roomy s) = has_env s" "length (stack s) + 20 \<le> ci_top (roomy s)"
  by (simp_all add: roomy_def LUA_MINSTACK_def)

lemma roomy_names [simp]: "names (roomy s) n index v = names s n index v"
  by (simp add: names_def)

lemma getcurrenv_iff:
  "getcurrenv s = Val e s' \<longleftrightarrow> s' = s \<and> (case func s of None \<Rightarrow> l_gt s = TTable e
     | Some a \<Rightarrow> (\<exists>cl. closures s a = Some cl \<and> closure_env cl = e))"
proof (cases "func s")
  case None
  then show ?thesis by (cases "l_gt s") (auto simp: getcurrenv_def)
next
  case (Some a)
  then show ?thesis by (cases "closures s a") (auto simp: getcurrenv_def)
qed

lemma getcurrenv_roomy: "getcurrenv s = Val e s \<Longrightarrow> getcurrenv (roomy s) = Val e (roomy s)"
  by (simp add: getcurrenv_iff split: option.splits)

lemma readyD:
  assumes "ready m s"
  shows "has_env s" "length (stack s) \<le> 7980" "checkstack JNLUA_MINSTACK s = Val True (roomy s)"
    "0 < m \<Longrightarrow> next_addr s \<noteq> - 1" "closures s (next_addr s) = None"
    "\<exists>e. getcurrenv s = Val e s \<and> getcurrenv (roomy s) = Val e (roomy s)"
proof -
  show "has_env s" using assms by (simp add: ready_def)
  show "length (stack s) \<le> 7980" by (rule ready_len [OF assms])
  show "checkstack JNLUA_MINSTACK s = Val True (roomy s)"
    unfolding roomy_def by (rule checkstack_run) (use assms in \<open>simp add: ready_def\<close>)
  show "next_addr s \<noteq> - 1" if "0 < m"
  proof
    assume "next_addr s = - 1"
    then have "unat (next_addr s) = 2 ^ 64 - 1" by (simp add: unsigned_minus_1_eq_mask mask_eq_exp_minus_1)
    then show False using assms that by (simp add: ready_def)
  qed
  show "closures s (next_addr s) = None" using assms by (fastforce simp: ready_def)
  show "\<exists>e. getcurrenv s = Val e s \<and> getcurrenv (roomy s) = Val e (roomy s)"
    using assms getcurrenv_roomy by (auto simp: ready_def)
qed

text \<open>A method that hands a value and \<open>n\<close> arguments to a C function which returns.\<close>

lemma call_on_with_Val:
  assumes r: "ready (Suc m) s" and st: "stack s = below @ args" "length args = n" and nm: "names s n index v"
    and f: "\<And>x. f \<noteq> Lib_function x" and nres: "nres \<noteq> LUA_MULTRET"
    and e: "getcurrenv s = Val e s"
  shows "run_c H (jcall H d) f (enter_frame (next_addr s) (v # args) (with_closure f e s)) = Val k s' \<Longrightarrow>
      0 \<le> k \<Longrightarrow> k \<le> int (length (stack s')) \<Longrightarrow>
      call_on_with H (jcall H (Suc d)) f n index nres (roomy s) =
      Val () (leave_frame (roomy s) (below @ luaD_poscall (drop (length (stack s') - nat k) (stack s')) nres) s')"
    and "run_c H (jcall H d) f (enter_frame (next_addr s) (v # args) (with_closure f e s)) = Raise LUA_ERRRUN s' \<Longrightarrow>
      stack s' \<noteq> [] \<Longrightarrow>
      call_on_with H (jcall H (Suc d)) f n index nres (roomy s) =
      throw H (jcall H (Suc d)) LUA_ERRRUN (leave_frame (roomy s) (below @ [last (stack s')]) s')"
    and "run_c H (jcall H d) f (enter_frame (next_addr s) (v # args) (with_closure f e s)) = Undef \<Longrightarrow>
      call_on_with H (jcall H (Suc d)) f n index nres (roomy s) = Undef"
proof -
  let ?s = "(with_closure f e (roomy s))\<lparr>stack := below @ TFunction (next_addr s) # v # args\<rparr>"
  have len: "length (stack s) \<le> 7980" by (rule ready_len [OF r])
  have c: "call_on_with H C f n index nres (roomy s) = JNLUA_PCALL H C (length (v # args)) nres ?s" for C
    using call_on_with_run [of "roomy s" below args n index v e H C f nres] st nm len getcurrenv_roomy [OF e]
      readyD(4) [OF r] roomy_simps(13) [of s]
    by simp
  have fr: "enter_frame (next_addr s) (v # args) ?s = enter_frame (next_addr s) (v # args) (with_closure f e s)"
    by (simp add: enter_frame_def with_closure_def roomy_def)
  have lv: "leave_frame ?s x y = leave_frame (roomy s) x y" for x y by (simp add: leave_frame_def)
  have cl: "closures ?s (next_addr s) = Some (CClosure e f [])" by (simp add: with_closure_def)
  have st': "stack ?s = below @ TFunction (next_addr s) # v # args" by simp
  note J = JNLUA_PCALL_c [where s = ?s and H = H and d = d, OF st' cl f nres, unfolded fr lv]
  show "run_c H (jcall H d) f (enter_frame (next_addr s) (v # args) (with_closure f e s)) = Val k s' \<Longrightarrow>
      0 \<le> k \<Longrightarrow> k \<le> int (length (stack s')) \<Longrightarrow>
      call_on_with H (jcall H (Suc d)) f n index nres (roomy s) =
      Val () (leave_frame (roomy s) (below @ luaD_poscall (drop (length (stack s') - nat k) (stack s')) nres) s')"
    unfolding c by (rule J(1))
  show "run_c H (jcall H d) f (enter_frame (next_addr s) (v # args) (with_closure f e s)) = Raise LUA_ERRRUN s' \<Longrightarrow>
      stack s' \<noteq> [] \<Longrightarrow>
      call_on_with H (jcall H (Suc d)) f n index nres (roomy s) =
      throw H (jcall H (Suc d)) LUA_ERRRUN (leave_frame (roomy s) (below @ [last (stack s')]) s')"
    unfolding c by (rule J(2))
  show "run_c H (jcall H d) f (enter_frame (next_addr s) (v # args) (with_closure f e s)) = Undef \<Longrightarrow>
      call_on_with H (jcall H (Suc d)) f n index nres (roomy s) = Undef"
    unfolding c by (rule J(3))
qed

lemma call_on_Val:
  assumes r: "ready (Suc m) s" and nm: "names s 0 index v"
    and f: "\<And>x. f \<noteq> Lib_function x" and nres: "nres \<noteq> LUA_MULTRET"
    and e: "getcurrenv s = Val e s"
  shows "run_c H (jcall H d) f (enter_frame (next_addr s) [v] (with_closure f e s)) = Val k s' \<Longrightarrow>
      0 \<le> k \<Longrightarrow> k \<le> int (length (stack s')) \<Longrightarrow>
      call_on H (jcall H (Suc d)) f index nres (roomy s) =
      Val () (leave_frame (roomy s) (stack s @ luaD_poscall (drop (length (stack s') - nat k) (stack s')) nres) s')"
    and "run_c H (jcall H d) f (enter_frame (next_addr s) [v] (with_closure f e s)) = Undef \<Longrightarrow>
      call_on H (jcall H (Suc d)) f index nres (roomy s) = Undef"
proof -
  let ?s = "(with_closure f e (roomy s))\<lparr>stack := stack s @ [TFunction (next_addr s), v]\<rparr>"
  have len: "length (stack s) \<le> 7980" by (rule ready_len [OF r])
  have c: "call_on H C f index nres (roomy s) = JNLUA_PCALL H C (length [v]) nres ?s" for C
    using call_on_run [of "roomy s" index v e H C f nres] nm len getcurrenv_roomy [OF e]
      readyD(4) [OF r] roomy_simps(13) [of s]
    by simp
  have fr: "enter_frame (next_addr s) [v] ?s = enter_frame (next_addr s) [v] (with_closure f e s)"
    by (simp add: enter_frame_def with_closure_def roomy_def)
  have lv: "leave_frame ?s x y = leave_frame (roomy s) x y" for x y by (simp add: leave_frame_def)
  have cl: "closures ?s (next_addr s) = Some (CClosure e f [])" by (simp add: with_closure_def)
  have st': "stack ?s = stack s @ TFunction (next_addr s) # [v]" by simp
  note J = JNLUA_PCALL_c [where s = ?s and H = H and d = d, OF st' cl f nres, unfolded fr lv]
  show "run_c H (jcall H d) f (enter_frame (next_addr s) [v] (with_closure f e s)) = Val k s' \<Longrightarrow>
      0 \<le> k \<Longrightarrow> k \<le> int (length (stack s')) \<Longrightarrow>
      call_on H (jcall H (Suc d)) f index nres (roomy s) =
      Val () (leave_frame (roomy s) (stack s @ luaD_poscall (drop (length (stack s') - nat k) (stack s')) nres) s')"
    unfolding c by (rule J(1))
  show "run_c H (jcall H d) f (enter_frame (next_addr s) [v] (with_closure f e s)) = Undef \<Longrightarrow>
      call_on H (jcall H (Suc d)) f index nres (roomy s) = Undef"
    unfolding c by (rule J(3))
qed

section \<open>A concrete state\<close>

text \<open>
  For the witnesses: a thread whose globals and registry are the same empty table, and a
  machine whose references are their objects and whose new objects are never null.
\<close>

definition no_vars :: statics where
  "no_vars = \<lparr>newstate_obj = 0, openlib_lib = 0, getglobal_name = None, setglobal_name = None,
     pushbytearray_b = None, pushbytearray_length = 0, pushjavafunction_f = 0, pushjavaobject_object = 0,
     pushlightjavaobject_object = 0, pushstring_s = None, pushstring_length = 0, isjavaobject_result = False,
     equal_result = False, lessthan_result = False, tobytearray_result = None, tojavafunction_result = 0,
     tojavaobject_result = 0, tolightjavaobject_result = 0, tostring_result = None, concat_n = 0,
     createtable_narr = 0, createtable_nrec = 0, findtable_fname = None, findtable_szhint = 0,
     findtable_result = None, getfield_k = None, next_result = False, rawseti_n = 0, setfield_k = None,
     getmetafield_k = None, getmetafield_result = False, ref_result = 0, unref_ref = 0, tablesize_result = 0,
     tablemove_from = 0, tablemove_to = 0, tablemove_count = 0, luaLerror_val = None, throw_status = 0\<rparr>"

definition sample_state :: "TValue list \<Rightarrow> jstate" where
  "sample_state st = \<lparr>stack = st, func = None, ci_top = LUA_MINSTACK, tables = [1 \<mapsto> new_table], closures = Map.empty,
     udatas = Map.empty, upvals = Map.empty, registry = TTable 1, l_gt = TTable 1, g_mt = Map.empty, next_addr = 2,
     exn = None, jni_calls = 0, has_env = True, global_refs = {}, utf_held = 0, byte_arrays = (\<lambda>_. []),
     lua_error_of = (\<lambda>_. 0), vars = no_vars\<rparr>"

definition sample_jni :: "jstate jni" where
  "sample_jni = \<lparr>strtod = (\<lambda>_. (0, 0)), strtoul16 = (\<lambda>_. (0, 0)), lua_number2str = (\<lambda>_. [0x30]), sprintf_p = (\<lambda>_. [0x30]),
     strcoll = (\<lambda>_ _. 0), str_addr = (\<lambda>_. 0), where1 = (\<lambda>_. []), call_foreign = (\<lambda>_ _ s. Val [] s),
     new_global_ref = (\<lambda>_ r. r), string_utf_chars = (\<lambda>_ _. Some [0x61]), string_utf_length = (\<lambda>_. 1),
     new_string_utf = (\<lambda>_ _. 3), new_byte_array = (\<lambda>_ _. 4), array_elements_ok = (\<lambda>_ _. True),
     is_instance_of = (\<lambda>_ _. True), new_object = (\<lambda>_ _ _ _. 5), throw_ok = (\<lambda>_ _. True),
     call_int_method = (\<lambda>_ _ s. Val 0 s)\<rparr>"

lemma sample_ready: "length st \<le> 100 \<Longrightarrow> m \<le> 1000 \<Longrightarrow> ready m (sample_state st)"
  by (simp add: ready_def sample_state_def getcurrenv_iff lua_consts)

lemma sample_names: "i + n < length st \<Longrightarrow> names (sample_state st) n (int i + 1) (st ! i)"
  unfolding names_def by (intro disjI1 exI [of _ i]) (simp add: sample_state_def)

lemma sample_fields [simp]:
  "stack (sample_state st) = st" "tables (sample_state st) = [1 \<mapsto> new_table]" "g_mt (sample_state st) = Map.empty"
  "jni_calls (sample_state st) = 0" "registry (sample_state st) = TTable 1" "l_gt (sample_state st) = TTable 1"
  "has_env (sample_state st) = True" "exn (sample_state st) = None" "func (sample_state st) = None"
  by (simp_all add: sample_state_def)

lemma new_table_use: "total_use new_table = 1"
proof -
  have "array_indices (array new_table) = {}" "filled (node new_table) = {}"
    by (auto simp: array_indices_def filled_def new_table_def dummynode_def nth_Cons')
  then show ?thesis by (simp add: total_use_def)
qed

end
