(* ===== verification/JniTables.thy ===== *)
theory JniTables
  imports JniRun
begin

text \<open>
  The native methods on tables: storing and reading through the whole stack of calls, errors
  that become Java exceptions, counting and moving entries.
\<close>

section \<open>Raw access in a frame\<close>

lemma index_value_arg: "stack s = v # xs \<Longrightarrow> index_value 1 s = Val v s"
  by (simp add: index_value_def index2adr_def bnd_def)

lemma lua_rawset_run:
  assumes "stack s = [TTable h, k, x]" "tables s h = Some t" "luaH_set t k = Ok (t', p)"
  shows "lua_rawset 1 s = Val () (s\<lparr>tables := (tables s)(h \<mapsto> put_slot t' p x), stack := [TTable h]\<rparr>)"
  using assms
  by (simp add: lua_rawset_def bnd_def seq_def top_value_def index_value_arg hvalue_def put_table_def drop_top_def)

lemma lua_rawset_error:
  assumes "stack s = [TTable h, k, x]" "tables s h = Some t" "luaH_set t k = RunError msg"
  shows "lua_rawset 1 s = Raise LUA_ERRRUN (s\<lparr>stack := [TTable h, k, x, TString (lit msg)]\<rparr>)"
  using assms
  by (simp add: lua_rawset_def bnd_def seq_def top_value_def index_value_arg hvalue_def luaG_runerror_def
      runerror_def rawpush_def)

section \<open>Throwing a message\<close>

text \<open>
  The Java objects made for an error with a string as its value: \<open>thrown H n msg\<close> is the
  exception when \<open>n\<close> calls into the JVM were made before.
\<close>

definition thrown :: "jstate jni \<Rightarrow> nat \<Rightarrow> bytes \<Rightarrow> u64" where
  "thrown H n msg = new_object H (n + 1) LuaRuntimeException (new_string_utf H n (c_string msg)) None"

lemma tostring_string:
  assumes "stack s = TString msg # xs" "g_mt s 4 = None" "length (stack s) < ci_top s"
  shows "tostring H C 1 s = Val (new_string_utf H (jni_calls s) (c_string msg)) (s\<lparr>jni_calls := jni_calls s + 1\<rparr>)"
proof -
  have "luaL_callmeta C 1 e s = Val False s" for e
    using assms
    by (simp add: luaL_callmeta_def abs_index_def bnd_def luaL_getmetafield_def lua_getmetatable_def
        index_value_arg metatable_of_def ttype_def)
  moreover have "lua_type 1 s = Val LUA_TSTRING s"
    using assms by (simp add: lua_type_def index2adr_def bnd_def ttype_def LUA_TSTRING_def)
  moreover have "lua_pushvalue 1 s = Val () (s\<lparr>stack := stack s @ [TString msg]\<rparr>)"
    using assms by (simp add: lua_pushvalue_def bnd_def index_value_arg push_run)
  moreover have "lua_tolstring H (- 1) (s\<lparr>stack := stack s @ [TString msg]\<rparr>) = Val (Some msg) (s\<lparr>stack := stack s @ [TString msg]\<rparr>)"
    by (rule lua_tolstring_top) simp
  moreover have "lua_pop 1 (s\<lparr>stack := stack s @ [TString msg], jni_calls := n\<rparr>) = Val () (s\<lparr>jni_calls := n\<rparr>)" for n
    by (subst lua_pop_run(1) [where xs = "stack s"]) simp_all
  ultimately show ?thesis
    by (simp add: tostring_def bnd_def seq_def NewStringUTF_def jni_call_def LUA_TSTRING_def LUA_TNUMBER_def)
qed

lemma tojavaobject_none:
  "index_value i s = Val v s \<Longrightarrow> ttype v \<notin> {2, 7} \<Longrightarrow> tojavaobject H C i c s = Val 0 s"
  by (simp add: tojavaobject_def lua_isuserdata_def bnd_def)

lemma throw_protected_string:
  assumes "stack s = [TString msg]" "g_mt s 4 = None" "1 < ci_top s" "throw_status (vars s) = LUA_ERRRUN"
    and "thrown H (jni_calls s) msg \<noteq> 0" "throw_ok H (jni_calls s + 2) (thrown H (jni_calls s) msg)"
  shows "throw_protected H C s =
    Val 0 (s\<lparr>jni_calls := jni_calls s + 3, exn := Some (Thrown (thrown H (jni_calls s) msg))\<rparr>)"
proof -
  let ?s = "s\<lparr>jni_calls := jni_calls s + 2\<rparr>"
  have "tojavaobject H C 1 c ?s = Val 0 ?s" for c
    by (rule tojavaobject_none [where v = "TString msg"]) (use assms(1) in \<open>simp_all add: index_value_arg ttype_def\<close>)
  moreover have "tostring H C 1 s = Val (new_string_utf H (jni_calls s) (c_string msg)) (s\<lparr>jni_calls := jni_calls s + 1\<rparr>)"
    using assms by (intro tostring_string) auto
  ultimately show ?thesis
    using assms
    by (simp add: throw_protected_def bnd_def seq_def var_def exception_class_def NewObject_def jni_call_def thrown_def
        numeral_2_eq_2 numeral_3_eq_3)
qed

lemma throw_string:
  assumes r: "ready (Suc m) s" and st: "stack s = below @ [TString msg]" and mt: "g_mt s 4 = None"
    and ok: "thrown H (jni_calls s) msg \<noteq> 0" "throw_ok H (jni_calls s + 2) (thrown H (jni_calls s) msg)"
  obtains s' where "throw H (jcall H (Suc d)) LUA_ERRRUN s = Val () s'" "stack s' = below"
    "exn s' = Some (Thrown (thrown H (jni_calls s) msg))" "tables s' = tables s" "registry s' = registry s"
    "l_gt s' = l_gt s" "func s' = func s" "g_mt s' = g_mt s"
proof -
  obtain e where e: "getcurrenv s = Val e s" using readyD(6) [OF r] by blast
  define s1 where "s1 = (roomy s)\<lparr>vars := (vars s)\<lparr>throw_status := LUA_ERRRUN\<rparr>\<rparr>"
  have e1: "getcurrenv s1 = Val e s1"
    using e by (simp add: getcurrenv_iff s1_def split: option.splits)
  define s2 where "s2 = (with_closure Throw_protected e s1)\<lparr>stack := stack s @ [TFunction (next_addr s)]\<rparr>"
  have p: "lua_pushcfunction Throw_protected s1 = Val () s2"
    using pushcfunction_run [OF e1] readyD(4) [OF r] roomy_simps(13) [of s]
    by (simp add: s1_def s2_def with_closure_def)
  define s3 where "s3 = s2\<lparr>stack := below @ TFunction (next_addr s) # [TString msg]\<rparr>"
  have i: "lua_insert (-2) s2 = Val () s3"
    using insert_run [of s2 below "[TString msg]" "TFunction (next_addr s)"] st by (simp add: s2_def s3_def)
  let ?fr = "enter_frame (next_addr s) [TString msg] s3"
  have "run_c H (jcall H d) Throw_protected ?fr =
      Val 0 (?fr\<lparr>jni_calls := jni_calls s + 3, exn := Some (Thrown (thrown H (jni_calls s) msg))\<rparr>)"
    using throw_protected_string [of ?fr msg H "jcall H d"] mt ok
    by (simp add: enter_frame_def s3_def s2_def s1_def LUA_MINSTACK_def roomy_def with_closure_def)
  note P = pcall_c(1) [where s = s3, OF _ _ _ this]
  have "lua_pcall (jcall H (Suc d)) (length [TString msg]) 0 s3 =
    bnd (adjustresults 0) (\<lambda>_. ret 0) (leave_frame s3 below
      (?fr\<lparr>jni_calls := jni_calls s + 3, exn := Some (Thrown (thrown H (jni_calls s) msg))\<rparr>))"
    by (subst P [of below e "[]" 0])
      (simp_all add: s3_def s2_def s1_def with_closure_def luaD_poscall_def LUA_MULTRET_def)
  also have "\<dots> = Val 0 (leave_frame s3 below
      (?fr\<lparr>jni_calls := jni_calls s + 3, exn := Some (Thrown (thrown H (jni_calls s) msg))\<rparr>))"
    by (rule adjust_run) (simp add: LUA_MULTRET_def)
  finally have c: "lua_pcall (jcall H (Suc d)) 1 0 s3 = Val 0 (leave_frame s3 below
      (?fr\<lparr>jni_calls := jni_calls s + 3, exn := Some (Thrown (thrown H (jni_calls s) msg))\<rparr>))" by simp
  have "set_var (throw_status_update (\<lambda>_. LUA_ERRRUN)) (roomy s) = Val () s1"
    by (simp add: set_var_def s1_def)
  then have "throw H (jcall H (Suc d)) LUA_ERRRUN s = Val () (leave_frame s3 below
      (?fr\<lparr>jni_calls := jni_calls s + 3, exn := Some (Thrown (thrown H (jni_calls s) msg))\<rparr>))"
    using readyD(3) [OF r] p i c by (simp add: throw_def bnd_def seq_def split: res.split)
  from that [OF this] show thesis
    by (simp add: leave_frame_def enter_frame_def s3_def s2_def s1_def with_closure_def roomy_def)
qed

section \<open>Storing and reading\<close>

lemma guarded_checks:
  assumes "ready m s" "names s n index v" "ttype v = LUA_TTABLE"
  shows "guarded [checkstack JNLUA_MINSTACK, checktype index LUA_TTABLE] body s = body (roomy s)"
    "k \<le> int (length (stack s)) \<Longrightarrow>
      guarded [checkstack JNLUA_MINSTACK, checktype index LUA_TTABLE, checknelems k] body s = body (roomy s)"
proof -
  have c: "checktype index LUA_TTABLE (roomy s) = Val True (roomy s)"
    using checktype_run [of "roomy s" n index v LUA_TTABLE] assms readyD(2) [OF assms(1)] by simp
  have k: "checknelems k (roomy s) = Val True (roomy s)" if "k \<le> int (length (stack s))"
    using checknelems_run [of k "roomy s"] that by simp
  show "guarded [checkstack JNLUA_MINSTACK, checktype index LUA_TTABLE] body s = body (roomy s)"
    using readyD(3) [OF assms(1)] c by (simp add: guarded_def both_def bnd_def)
  show "k \<le> int (length (stack s)) \<Longrightarrow>
      guarded [checkstack JNLUA_MINSTACK, checktype index LUA_TTABLE, checknelems k] body s = body (roomy s)"
    using readyD(3) [OF assms(1)] c k by (simp add: guarded_def both_def bnd_def)
qed

lemma ttype_table [simp]: "ttype (TTable h) = LUA_TTABLE"
  by (simp add: ttype_def LUA_TTABLE_def)

text \<open>What a method on the table at \<open>h\<close> leaves alone.\<close>

definition same_but_tables :: "jstate \<Rightarrow> jstate \<Rightarrow> bool" where
  "same_but_tables s s' \<longleftrightarrow> func s' = func s \<and> udatas s' = udatas s \<and> registry s' = registry s \<and> l_gt s' = l_gt s
     \<and> g_mt s' = g_mt s \<and> has_env s' = has_env s \<and> global_refs s' = global_refs s \<and> utf_held s' = utf_held s
     \<and> (\<forall>a c. closures s a = Some c \<longrightarrow> closures s' a = Some c)"

lemma same_leave_frame:
  assumes "closures s (next_addr s) = None"
  shows "same_but_tables s (leave_frame (roomy s) st ((enter_frame a args (with_closure f e s))\<lparr>tables := T, stack := x\<rparr>))"
  using assms by (simp add: same_but_tables_def leave_frame_def enter_frame_def with_closure_def roomy_def)

definition updated :: "Table \<Rightarrow> TValue \<Rightarrow> TValue \<Rightarrow> Table \<Rightarrow> bool" where
  "updated t k x t' \<longleftrightarrow> table_inv t' \<and> metatable t' = metatable t
     \<and> (\<forall>k'. live k' \<longrightarrow> content t' k' = (if luaO_rawequalObj k k' then x else content t k'))"

lemma luaH_set_updated:
  assumes "table_inv t" "live k" "total_use t \<le> MAXASIZE"
  obtains t' p where "luaH_set t k = Ok (t', p)" "updated t k x (put_slot t' p x)"
proof -
  obtain t' p where "luaH_set t k = Ok (t', p)" "assigns t k t' p"
    using luaH_set_core [OF assms(1,2)] assms(3) by auto
  moreover from this(2) have "updated t k x (put_slot t' p x)"
    unfolding assigns_def updated_def by blast
  ultimately show thesis using that by blast
qed

lemma jni_rawset_core:
  assumes r: "ready (Suc m) s" and st: "stack s = below @ [k, x]" and nm: "names s 2 index (TTable h)"
    and t: "tables s h = Some t" "table_inv t" "total_use t \<le> MAXASIZE" and k: "live k"
  obtains s' t' where "jni_rawset H (jcall H (Suc d)) index s = Val () s'" "stack s' = below"
    "tables s' = (tables s)(h \<mapsto> t')" "updated t k x t'" "exn s' = exn s" "same_but_tables s s'"
proof -
  obtain e where e: "getcurrenv s = Val e s" using readyD(6) [OF r] by blast
  obtain t' p where p: "luaH_set t k = Ok (t', p)" "updated t k x (put_slot t' p x)"
    using luaH_set_updated [OF t(2) k t(3)] .
  let ?fr = "enter_frame (next_addr s) (TTable h # [k, x]) (with_closure Rawset_protected e s)"
  let ?fr' = "?fr\<lparr>tables := (tables s)(h \<mapsto> put_slot t' p x), stack := [TTable h]\<rparr>"
  have "run_c H (jcall H d) Rawset_protected ?fr = Val 0 ?fr'"
    using lua_rawset_run [of ?fr h k x t t' p] t(1) p(1)
    by (simp add: rawset_protected_def seq_def bnd_def enter_frame_def)
  then have "call_on_with H (jcall H (Suc d)) Rawset_protected 2 index 0 (roomy s) =
      Val () (leave_frame (roomy s) (below @ luaD_poscall (drop (length (stack ?fr') - nat 0) (stack ?fr')) 0) ?fr')"
    by (intro call_on_with_Val(1) [OF r st _ nm]) (use e in \<open>simp_all add: LUA_MULTRET_def\<close>)
  then have "jni_rawset H (jcall H (Suc d)) index s = Val () (leave_frame (roomy s) below ?fr')"
    using guarded_checks(2) [OF r nm] st
    by (simp add: jni_rawset_def enter_run [OF readyD(1) [OF r]] luaD_poscall_def LUA_MULTRET_def)
  moreover have "same_but_tables s (leave_frame (roomy s) below ?fr')"
    by (rule same_leave_frame [OF readyD(5) [OF r]])
  ultimately show thesis
    using p(2) by (intro that) (simp_all add: leave_frame_def enter_frame_def)
qed

lemma jni_rawget_core:
  assumes "has_env s" "length (stack s) \<le> 8000" "names s 0 index (TTable h)" "stack s = below @ [k]"
    and "tables s h = Some t" "table_inv t" "\<And>p. k \<noteq> TDeadKey p"
  shows "jni_rawget index s = Val () (s\<lparr>stack := below @ [content t k]\<rparr>)"
proof -
  have "checktype index LUA_TTABLE s = Val True s" using checktype_run [OF assms(3)] assms(2) by simp
  moreover have "index_value index s = Val (TTable h) s" using names_value [OF assms(3)] assms(2) by simp
  moreover have "luaH_get t k \<noteq> Endless" "lookup_val t (luaH_get t k) = content t k"
    using luaH_get_linear_core [OF assms(6)] assms(7) by blast+
  ultimately show ?thesis
    using assms
    by (simp add: jni_rawget_def enter_run guarded_def both_def bnd_def lua_rawget_def hvalue_def top_value_top
        lookup_prog_def set_top_run)
qed

lemma updatedD:
  "updated t k x t' \<Longrightarrow> live k' \<Longrightarrow> content t' k' = (if luaO_rawequalObj k k' then x else content t k')"
  "updated t k x t' \<Longrightarrow> table_inv t'" "updated t k x t' \<Longrightarrow> metatable t' = metatable t"
  by (simp_all add: updated_def)

text \<open>
  Property C19. Storing through \<open>LuaState.rawSet\<close> and reading through \<open>LuaState.rawGet\<close> agree,
  through the checks, the protected call and the hash table below them: with a table at the index
  and a key that may be stored, \<open>lua_rawset\<close> returns, takes key and value off the stack and
  throws nothing; later, as long as the table is not changed, \<open>lua_rawget\<close> with any key that may
  be stored replaces it by the stored value if the keys are equal and by what the table held
  before if they are not.
\<close>

theorem jni_rawset_rawget:
  assumes "ready (Suc m) s" "stack s = below @ [k, x]" "names s 2 index (TTable h)"
    and "tables s h = Some t" "table_inv t" "total_use t \<le> MAXASIZE" "live k"
  shows "\<exists>s'. jni_rawset H (jcall H (Suc d)) index s = Val () s' \<and> stack s' = below \<and> exn s' = exn s
    \<and> (\<forall>s2 index2 below2 k2. has_env s2 \<longrightarrow> length (stack s2) \<le> 8000 \<longrightarrow> tables s2 h = tables s' h \<longrightarrow>
         names s2 0 index2 (TTable h) \<longrightarrow> stack s2 = below2 @ [k2] \<longrightarrow> live k2 \<longrightarrow>
         jni_rawget index2 s2 =
           Val () (s2\<lparr>stack := below2 @ [if luaO_rawequalObj k k2 then x else content t k2]\<rparr>))"
proof -
  obtain s' t' where s': "jni_rawset H (jcall H (Suc d)) index s = Val () s'" "stack s' = below"
    "tables s' = (tables s)(h \<mapsto> t')" "updated t k x t'" "exn s' = exn s"
    using jni_rawset_core [OF assms] by metis
  moreover have "jni_rawget index2 s2 = Val () (s2\<lparr>stack := below2 @ [if luaO_rawequalObj k k2 then x else content t k2]\<rparr>)"
    if "has_env s2" "length (stack s2) \<le> 8000" "tables s2 h = tables s' h" "names s2 0 index2 (TTable h)"
      "stack s2 = below2 @ [k2]" "live k2" for s2 index2 below2 k2
    using jni_rawget_core [OF that(1,2,4,5) _ updatedD(2) [OF s'(4)]] that(3,6) s'(3) live_not_dead
      updatedD(1) [OF s'(4)] by simp
  ultimately show ?thesis by blast
qed

section \<open>Errors\<close>

lemma ready_with_closure:
  assumes r: "ready (Suc m) s" and e: "getcurrenv s = Val e s" and len: "length (stack s') + 20 \<le> 8000"
    and s': "next_addr s' = next_addr s + 1" "closures s' = (closures s)(next_addr s \<mapsto> c)" "func s' = func s"
      "l_gt s' = l_gt s" "has_env s' = has_env s"
  shows "ready m s'"
proof -
  note d = r [unfolded ready_def]
  have u: "unat (next_addr s + 1) = unat (next_addr s) + 1"
    using d by (simp add: unat_word_ariths(1))
  have "getcurrenv s' = Val e s'"
    using e readyD(5) [OF r] s' by (auto simp: getcurrenv_iff split: option.splits)
  moreover have "a < next_addr s'" if "closures s' a \<noteq> None" for a
  proof -
    have "unat a < unat (next_addr s) + 1"
      using that d s'(2) by (cases "a = next_addr s") (auto simp: word_less_nat_alt less_Suc_eq)
    then show ?thesis using s'(1) u by (simp add: word_less_nat_alt)
  qed
  ultimately show ?thesis
    using d len s' u unfolding ready_def by (auto simp: LUA_MINSTACK_def LUAI_MAXCSTACK_def)
qed

definition key_error :: "TValue \<Rightarrow> string option" where
  "key_error k = (case k of TNil \<Rightarrow> Some ''table index is nil''
     | TNumber n \<Rightarrow> if num_nan n then Some ''table index is NaN'' else None | _ \<Rightarrow> None)"

lemma luaH_set_key_error: "table_inv t \<Longrightarrow> key_error k = Some msg \<Longrightarrow> luaH_set t k = RunError msg"
  using luaH_set_nil luaH_set_nan by (auto simp: key_error_def split: TValue.splits if_splits)


text \<open>
  The type check of the table methods does not protect the call when the table is
  itself one of the arguments: \<open>lua_rawset\<close> with the index of the value on the top, a table, and
  a string as the key passes every check, and then uses the string as a table, because the
  function and the table are moved below the arguments before the index is read again. The
  behaviour is undefined.
\<close>

theorem jni_rawset_self:
  assumes "ready (Suc m) s" "stack s = below @ [TString k, TTable h]"
  shows "jni_rawset H (jcall H (Suc d)) (- 1) s = Undef"
proof -
  note r = assms(1) and st = assms(2)
  obtain e where e: "getcurrenv s = Val e s" using readyD(6) [OF r] by blast
  let ?C = "jcall H (Suc d)"
  let ?f = "TFunction (next_addr s)"
  let ?w = "with_closure Rawset_protected e (roomy s)"
  have len: "length (stack s) \<le> 7980" by (rule readyD(2) [OF r])
  have nm: "names s 0 (- 1) (TTable h)"
    unfolding names_def by (intro disjI1 exI [of _ "Suc (length below)"]) (use st in \<open>simp add: nth_append\<close>)
  have abs: "lua_absindex (- 1) (roomy s) = Val (int (length below) + 2) (roomy s)"
    using st by (simp add: lua_absindex_def LUA_REGISTRYINDEX_def lua_gettop_def bnd_def)
  have p: "lua_pushcfunction Rawset_protected (roomy s) = Val () (?w\<lparr>stack := below @ [TString k, TTable h, ?f]\<rparr>)"
    using pushcfunction_run [OF getcurrenv_roomy [OF e]] readyD(4) [OF r] roomy_simps(13) [of s] st
    by (simp add: with_closure_def)
  have i: "lua_insert (- 3) (?w\<lparr>stack := below @ [TString k, TTable h, ?f]\<rparr>)
      = Val () (?w\<lparr>stack := below @ [?f, TString k, TTable h]\<rparr>)"
    using insert_run [of "?w\<lparr>stack := below @ [TString k, TTable h, ?f]\<rparr>" below "[TString k, TTable h]" ?f] by simp
  have v: "lua_pushvalue (int (length below) + 2) (?w\<lparr>stack := below @ [?f, TString k, TTable h]\<rparr>)
      = Val () (?w\<lparr>stack := below @ [?f, TString k, TTable h, TString k]\<rparr>)"
    using st roomy_simps(13) [of s]
    by (simp add: lua_pushvalue_def index_value_def index2adr_def bnd_def nat_add_distrib nth_append push_run)
  have i2: "lua_insert (- 3) (?w\<lparr>stack := below @ [?f, TString k, TTable h, TString k]\<rparr>)
      = Val () (?w\<lparr>stack := below @ [?f, TString k, TString k, TTable h]\<rparr>)"
    using insert_run [of "?w\<lparr>stack := below @ [?f, TString k, TTable h, TString k]\<rparr>" "below @ [?f]" "[TString k, TTable h]" "TString k"]
    by simp
  let ?s = "?w\<lparr>stack := below @ [?f, TString k, TString k, TTable h]\<rparr>"
  have cl: "closures ?s (next_addr s) = Some (CClosure e Rawset_protected [])" by (simp add: with_closure_def)
  have "run_c H (jcall H d) Rawset_protected (enter_frame (next_addr s) [TString k, TString k, TTable h] ?s) = Undef"
    by (simp add: rawset_protected_def seq_def bnd_def lua_rawset_def enter_frame_def top_value_def index_value_arg hvalue_def)
  from JNLUA_PCALL_c(3) [OF _ cl _ _ this, of below 0]
  have "JNLUA_PCALL H ?C 3 0 ?s = Undef" by (simp add: LUA_MULTRET_def numeral_3_eq_3)
  then have "call_on_with H ?C Rawset_protected 2 (- 1) 0 (roomy s) = Undef"
    using abs p i v i2 by (simp add: call_on_with_def bnd_def seq_def)
  then show ?thesis
    using guarded_checks(2) [OF r nm] st by (simp add: jni_rawset_def enter_run [OF readyD(1) [OF r]])
qed

section \<open>Counting\<close>

lemma pairs_bound:
  assumes "table_inv t"
  shows "length (pairs t) \<le> length (array t) + sizenode t" "length (pairs t) < 2 ^ 31"
proof -
  have "length (array_pairs t) \<le> length [0..<length (array t)]" "length (node_pairs t) \<le> length [0..<sizenode t]"
    unfolding array_pairs_def node_pairs_def length_map by (rule length_filter_le)+
  then show le: "length (pairs t) \<le> length (array t) + sizenode t" by (simp add: pairs_def)
  have "sizenode t \<le> MAXASIZE"
    unfolding sizenode_def twoto_def MAXASIZE_def using table_invD(1) [OF assms] by (intro power_increasing) auto
  then show "length (pairs t) < 2 ^ 31"
    using le table_invD(3) [OF assms] by (simp add: MAXASIZE_def MAXBITS_def)
qed

definition pair_key :: "Table \<Rightarrow> nat \<Rightarrow> TValue" where
  "pair_key t i = (if i = 0 then TNil else fst (pairs t ! (i - 1)))"

lemma lua_next_run:
  assumes "stack s = xs @ [TTable h, pair_key t i]" "tables s h = Some t" "table_inv t" "no_reuse (gcvalue H) t"
    and "length (stack s) < ci_top s" "i \<le> length (pairs t)"
  shows "lua_next H (- 2) s =
    (if i < length (pairs t) then Val True (s\<lparr>stack := xs @ [TTable h, pair_key t (Suc i), snd (pairs t ! i)]\<rparr>)
     else Val False (s\<lparr>stack := xs @ [TTable h]\<rparr>))"
proof -
  have "luaH_next (gcvalue H) t (pair_key t i) = Ok (if i < length (pairs t) then Some (pairs t ! i) else None)"
    unfolding pair_key_def by (rule luaH_next_step [OF assms(3,4,6)])
  moreover have "index_value (- 2) s = Val (TTable h) s" by (rule index_value_below [OF assms(1)])
  moreover have "top_value (Suc 0) s = Val (pair_key t i) s"
    using assms(1) by (intro top_value_top(1) [where xs = "xs @ [TTable h]"]) simp
  moreover have "set_top_value v s = Val () (s\<lparr>stack := xs @ [TTable h, v]\<rparr>)" for v
    using assms(1) set_top_run [where xs = "xs @ [TTable h]" and s = s and w = v] by simp
  moreover have "drop_top (Suc 0) s = Val () (s\<lparr>stack := xs @ [TTable h]\<rparr>)"
    using assms(1) drop_top_run(1) [where xs = "xs @ [TTable h]" and s = s] by simp
  ultimately show ?thesis
    using assms(1,2,5)
    by (cases "pairs t ! i") (simp add: lua_next_def bnd_def seq_def hvalue_def push_run pair_key_def)
qed

lemma tablesize_loop_run:
  assumes "table_inv t" "no_reuse (gcvalue H) t"
  shows "stack s = [TTable h, pair_key t i] \<Longrightarrow> tables s h = Some t \<Longrightarrow> 3 \<le> ci_top s \<Longrightarrow> i \<le> length (pairs t) \<Longrightarrow>
    length (pairs t) < i + f \<Longrightarrow>
    tablesize_loop f H (int i) s = Val (int (length (pairs t))) (s\<lparr>stack := [TTable h]\<rparr>)"
proof (induction f arbitrary: i s)
  case (Suc f)
  note n = lua_next_run [of s "[]" h t i H, OF _ Suc.prems(2) assms _ Suc.prems(4)]
  show ?case
  proof (cases "i < length (pairs t)")
    case True
    let ?s = "s\<lparr>stack := [TTable h, pair_key t (Suc i)]\<rparr>"
    have "lua_pop 1 (s\<lparr>stack := [TTable h, pair_key t (Suc i), x]\<rparr>) = Val () ?s" for x
      by (subst lua_pop_run(1) [where xs = "[TTable h, pair_key t (Suc i)]"]) simp_all
    moreover have "to_int (int i + 1) = int (Suc i)"
      using True pairs_bound(2) [OF assms(1)] by (simp add: to_int_id)
    moreover have "tablesize_loop f H (int (Suc i)) ?s = Val (int (length (pairs t))) (s\<lparr>stack := [TTable h]\<rparr>)"
      using Suc.IH [of ?s "Suc i"] Suc.prems True by simp
    ultimately show ?thesis using n Suc.prems True by (simp add: bnd_def seq_def)
  next
    case False
    then show ?thesis using n Suc.prems by (simp add: bnd_def)
  qed
qed simp

lemma tablesize_protected_run:
  assumes "stack s = [TTable h]" "tables s h = Some t" "3 \<le> ci_top s" "table_inv t" "no_reuse (gcvalue H) t"
  shows "tablesize_protected H s = Val 0 (s\<lparr>vars := (vars s)\<lparr>tablesize_result := int (length (pairs t))\<rparr>\<rparr>)"
proof -
  let ?s = "s\<lparr>stack := [TTable h, TNil]\<rparr>"
  have p: "lua_pushnil s = Val () ?s" using assms by (simp add: lua_pushnil_def push_run)
  have "slots_of s = length (array t) + sizenode t" using assms by (simp add: slots_of_def)
  then have "tablesize_loop (slots_of s + 1) H (int 0) ?s = Val (int (length (pairs t))) (?s\<lparr>stack := [TTable h]\<rparr>)"
    using assms pairs_bound(1) [OF assms(4)] by (intro tablesize_loop_run) (simp_all add: pair_key_def)
  moreover have "?s\<lparr>stack := [TTable h]\<rparr> = s" using assms(1) by simp
  ultimately show ?thesis
    using p by (simp add: tablesize_protected_def bnd_def seq_def set_var_def del: tablesize_loop.simps)
qed

text \<open>
  Property C21. \<open>LuaState.tableSize\<close> returns the number of entries of the table: the pairs that
  the table holds (in both of its parts), each counted once, whatever their keys are. The
  traversal it makes with \<open>lua_next\<close> ends, and the stack and the table are as before.
\<close>

theorem jni_tablesize_counts:
  assumes "ready (Suc m) s" "names s 0 index (TTable h)" "tables s h = Some t" "table_inv t"
    and "no_reuse (gcvalue H) t"
  shows "\<exists>s'. jni_tablesize H (jcall H (Suc d)) index s = Val (int (length (pairs t))) s'
    \<and> stack s' = stack s \<and> tables s' = tables s \<and> exn s' = exn s"
proof -
  note r = assms(1) and nm = assms(2)
  obtain e where e: "getcurrenv s = Val e s" using readyD(6) [OF r] by blast
  let ?fr = "enter_frame (next_addr s) [TTable h] (with_closure Tablesize_protected e s)"
  let ?fr' = "?fr\<lparr>vars := (vars s)\<lparr>tablesize_result := int (length (pairs t))\<rparr>\<rparr>"
  have "run_c H (jcall H d) Tablesize_protected ?fr = Val 0 ?fr'"
    using tablesize_protected_run [of ?fr h t H] assms(3-5)
    by (simp add: enter_frame_def with_closure_def LUA_MINSTACK_def)
  then have "call_on H (jcall H (Suc d)) Tablesize_protected index 0 (roomy s) =
      Val () (leave_frame (roomy s) (stack s @ luaD_poscall (drop (length (stack ?fr') - nat 0) (stack ?fr')) 0) ?fr')"
    by (intro call_on_Val(1) [OF r nm]) (use e in \<open>simp_all add: LUA_MULTRET_def\<close>)
  then have "jni_tablesize H (jcall H (Suc d)) index s =
      Val (int (length (pairs t))) (leave_frame (roomy s) (stack s) ?fr')"
    using guarded_checks(1) [OF r nm]
    by (simp add: jni_tablesize_def enter_run [OF readyD(1) [OF r]] seq_def bnd_def var_def luaD_poscall_def LUA_MULTRET_def
        leave_frame_def)
  then show ?thesis by (simp add: leave_frame_def enter_frame_def)
qed

section \<open>Witnesses\<close>

theorem jni_rawset_rawget_witness:
  "\<exists>s'. jni_rawset sample_jni (jcall sample_jni 1) 1 (sample_state [TTable 1, TString [65], TBoolean True]) = Val () s'
    \<and> stack s' = [TTable 1]"
proof -
  have "names (sample_state [TTable 1, TString [65], TBoolean True]) 2 1 (TTable 1)"
    using sample_names [of 0 2 "[TTable 1, TString [65], TBoolean True]"] by simp
  from jni_rawset_rawget [OF sample_ready _ this _ new_table_inv, of 0 "[TTable 1]" "TString [65]" "TBoolean True" sample_jni 0]
  show ?thesis by (auto simp: new_table_use MAXASIZE_def MAXBITS_def live_def)
qed


theorem jni_rawset_self_witness:
  "jni_rawset sample_jni (jcall sample_jni 1) (- 1) (sample_state [TString [65], TTable 1]) = Undef"
  using jni_rawset_self [OF sample_ready, of "[TString [65], TTable 1]" 0 "[]" "[65]" 1 sample_jni 0] by simp

theorem jni_tablesize_counts_witness:
  "\<exists>s'. jni_tablesize sample_jni (jcall sample_jni 1) 1 (sample_state [TTable 1]) = Val 0 s' \<and> stack s' = [TTable 1]"
proof -
  have "names (sample_state [TTable 1]) 0 1 (TTable 1)" using sample_names [of 0 0 "[TTable 1]"] by simp
  moreover have "pairs new_table = []"
    by (simp add: pairs_def array_pairs_def node_pairs_def new_table_def dummynode_def sizenode_def twoto_def)
  moreover have "no_reuse (gcvalue sample_jni) new_table"
    by (simp add: no_reuse_def new_table_def filled_def dummynode_def)
  ultimately show ?thesis
    using jni_tablesize_counts [OF sample_ready _ _ new_table_inv, of "[TTable 1]" 0 1 1 sample_jni 0] by auto
qed

end
