(* ===== verification/JniObjects.thy ===== *)
theory JniObjects
  imports JniTables
begin

text \<open>
  Java objects as Lua values, and what a protected call guarantees its caller.
\<close>

section \<open>The contract of a protected call\<close>

lemma bnd_upd_last:
  "bnd m (\<lambda>(a, b). bnd (f a b) (\<lambda>r. upd (g r))) s = Val u s' \<Longrightarrow> \<exists>r s0. s' = g r s0"
  by (auto simp: bnd_def split: res.splits) (rule exI, rule exI, rule refl)

lemma luaD_precall_shape:
  assumes "luaD_precall H run nargs nresults s = Val u s'"
  shows "\<exists>results s''. s' = leave_frame s (take (length (stack s) - (nargs + 1)) (stack s) @ luaD_poscall results nresults) s''"
  using assms unfolding luaD_precall_def Let_def
  by (auto dest!: bnd_upd_last split: if_splits)

lemma jcall_shape:
  assumes "jcall H d nargs nresults s = Val u s'"
  shows "\<exists>results s''. s' = leave_frame s (take (length (stack s) - (nargs + 1)) (stack s) @ luaD_poscall results nresults) s''"
proof (cases d)
  case 0
  then show ?thesis using assms by (simp add: jcall_def luaG_runerror_def runerror_def seq_def bnd_def rawpush_def)
next
  case (Suc d')
  then show ?thesis using assms luaD_precall_shape by (auto simp: jcall_def)
qed


section \<open>Java objects\<close>

lemma luaV_gettable_hit:
  assumes "tables s h = Some t" "table_inv t" "content t k \<noteq> TNil" "\<And>p. k \<noteq> TDeadKey p"
  shows "luaV_gettable C (TTable h) k s = Val (content t k) s"
proof -
  have "luaH_get t k \<noteq> Endless" "lookup_val t (luaH_get t k) = content t k"
    using luaH_get_linear_core [OF assms(2)] assms(4) by blast+
  then have "gettable_loop (Suc n) C (TTable h) k s = Val (content t k) s" for n
    using assms(1,3) by (simp add: bnd_def hvalue_def lookup_prog_def)
  moreover have "MAXTAGLOOP = Suc 99" by (simp add: MAXTAGLOOP_def)
  ultimately show ?thesis unfolding luaV_gettable_def by metis
qed

lemma c_string_object: "c_string JNLUA_OBJECT = JNLUA_OBJECT"
  by (simp add: c_string_def JNLUA_OBJECT_def lit_def)

text \<open>The registry holds the metatable of Java objects, as \<open>newstate_protected\<close> leaves it.\<close>

definition object_metatable :: "jstate \<Rightarrow> u64 \<Rightarrow> bool" where
  "object_metatable s m \<longleftrightarrow> (\<exists>r t. registry s = TTable r \<and> tables s r = Some t \<and> table_inv t
     \<and> content t (TString JNLUA_OBJECT) = TTable m)"

lemma getmetatable_run:
  assumes "object_metatable s m" "length (stack s) < ci_top s"
  shows "luaL_getmetatable C JNLUA_OBJECT s = Val () (s\<lparr>stack := stack s @ [TTable m]\<rparr>)"
proof -
  obtain r t where t: "registry s = TTable r" "tables s r = Some t" "table_inv t" "content t (TString JNLUA_OBJECT) = TTable m"
    using assms(1) by (auto simp: object_metatable_def)
  have "luaV_gettable C (TTable r) (TString JNLUA_OBJECT) s = Val (TTable m) s"
    using luaV_gettable_hit [OF t(2,3)] t(4) by simp
  moreover have "index_value LUA_REGISTRYINDEX s = Val (TTable r) s"
    using t(1) by (simp add: index_value_def index2adr_def bnd_def LUA_REGISTRYINDEX_def)
  ultimately show ?thesis
    using assms(2) by (simp add: luaL_getmetatable_def lua_getfield_def bnd_def c_string_object push_run)
qed

definition java_udata :: "u64 \<Rightarrow> u64 \<Rightarrow> u64 \<Rightarrow> Udata" where
  "java_udata e m g = \<lparr>u_metatable = Some m, u_env = e, u_len = 8, u_data = g\<rparr>"

lemma pushjavaobject_run:
  assumes m: "object_metatable s m" and room: "length (stack s) + 2 \<le> ci_top s"
    and e: "getcurrenv s = Val e s" and a: "next_addr s \<noteq> - 1"
    and g: "new_global_ref H (jni_calls s) obj = g" "g \<noteq> 0"
  shows "pushjavaobject H C obj s = Val () (s\<lparr>next_addr := next_addr s + 1,
    udatas := (udatas s)(next_addr s \<mapsto> java_udata e m g), stack := stack s @ [TUserdata (next_addr s)],
    jni_calls := jni_calls s + 1, global_refs := insert g (global_refs s)\<rparr>)"
proof -
  let ?u = "next_addr s"
  let ?s1 = "s\<lparr>next_addr := ?u + 1, udatas := (udatas s)(?u \<mapsto> \<lparr>u_metatable = None, u_env = e, u_len = 8, u_data = 0\<rparr>),
    stack := stack s @ [TUserdata ?u]\<rparr>"
  let ?s2 = "?s1\<lparr>stack := stack s @ [TUserdata ?u, TTable m]\<rparr>"
  let ?s3 = "?s2\<lparr>jni_calls := jni_calls s + 1, global_refs := insert g (global_refs s)\<rparr>"
  let ?s4 = "?s3\<lparr>udatas := (udatas s)(?u \<mapsto> \<lparr>u_metatable = None, u_env = e, u_len = 8, u_data = g\<rparr>)\<rparr>"
  have "lua_newuserdata 8 s = Val ?u ?s1"
    using e a room by (simp add: lua_newuserdata_def bnd_def seq_def alloc_def push_run)
  moreover have "luaL_getmetatable C JNLUA_OBJECT ?s1 = Val () ?s2"
    by (subst getmetatable_run [of _ m]) (use m room in \<open>simp_all add: object_metatable_def\<close>)
  moreover have "NewGlobalRef H obj ?s2 = Val g ?s3"
    using g by (simp add: NewGlobalRef_def jni_call_def bnd_def seq_def)
  moreover have "set_block ?u g ?s3 = Val () ?s4"
    by (simp add: set_block_def bnd_def uvalue_def)
  moreover have "lua_setmetatable (- 2) ?s4 = Val True (s\<lparr>next_addr := next_addr s + 1,
    udatas := (udatas s)(next_addr s \<mapsto> java_udata e m g), stack := stack s @ [TUserdata (next_addr s)],
    jni_calls := jni_calls s + 1, global_refs := insert g (global_refs s)\<rparr>)"
  proof -
    have "index_value (- 2) ?s4 = Val (TUserdata ?u) ?s4" by (rule index_value_below [where xs = "stack s"]) simp
    moreover have "top_value (Suc 0) ?s4 = Val (TTable m) ?s4"
      by (rule top_value_top(1) [where xs = "stack s @ [TUserdata ?u]"]) simp
    ultimately show ?thesis
      by (simp add: lua_setmetatable_def top_table_def bnd_def seq_def uvalue_def drop_top_def java_udata_def)
  qed
  ultimately show ?thesis using g(2) by (simp add: pushjavaobject_def bnd_def seq_def)
qed

lemma tojavaobject_run:
  assumes "stack s = [TUserdata u]" "udatas s u = Some (java_udata e m g)" "object_metatable s m" "3 \<le> ci_top s"
  shows "tojavaobject H C 1 c s = Val (instance_or_null H c g) s"
proof -
  let ?s1 = "s\<lparr>stack := [TUserdata u, TTable m]\<rparr>"
  let ?s2 = "s\<lparr>stack := [TUserdata u, TTable m, TTable m]\<rparr>"
  have iv: "index_value 1 s = Val (TUserdata u) s" using assms(1) by (simp add: index_value_arg)
  have "lua_isuserdata 1 s = Val True s"
    using iv by (simp add: lua_isuserdata_def bnd_def ttype_def)
  moreover have "lua_getmetatable 1 s = Val True ?s1"
    using iv assms by (simp add: lua_getmetatable_def bnd_def seq_def metatable_of_def uvalue_def java_udata_def push_run)
  moreover have "luaL_getmetatable C JNLUA_OBJECT ?s1 = Val () ?s2"
    by (subst getmetatable_run [of _ m]) (use assms in \<open>simp_all add: object_metatable_def\<close>)
  moreover have "lua_rawequal (- 1) (- 2) ?s2 = Val True ?s2"
    by (simp add: lua_rawequal_def two_values_def bnd_def top_adr [where xs = "[TUserdata u, TTable m]"]
        below_top_adr [where xs = "[TUserdata u]"] rawequal_cases)
  moreover have "lua_pop 2 ?s2 = Val () s"
    by (subst lua_pop_run(2) [where xs = "[TUserdata u]"]) (use assms(1) in simp_all)
  moreover have "lua_touserdata 1 s = Val (Block u) s" using iv by (simp add: lua_touserdata_def bnd_def)
  moreover have "deref (Block u) s = Val g s" using assms(2) by (simp add: deref_def bnd_def uvalue_def java_udata_def)
  ultimately show ?thesis by (simp add: tojavaobject_def bnd_def seq_def)
qed

text \<open>A protected function without arguments.\<close>

lemma call_none_Val:
  assumes r: "ready (Suc m) s" and f: "\<And>x. f \<noteq> Lib_function x" and nres: "nres \<noteq> LUA_MULTRET"
    and e: "getcurrenv s = Val e s"
    and run: "run_c H (jcall H d) f (enter_frame (next_addr s) [] (with_closure f e (s\<lparr>vars := v\<rparr>))) = Val k s'"
      "0 \<le> k" "k \<le> int (length (stack s'))"
  shows "steps [lua_pushcfunction f, JNLUA_PCALL H (jcall H (Suc d)) 0 nres] ((roomy s)\<lparr>vars := v\<rparr>) =
    Val () (leave_frame (roomy s) (stack s @ luaD_poscall (drop (length (stack s') - nat k) (stack s')) nres) s')"
proof -
  let ?r = "(roomy s)\<lparr>vars := v\<rparr>"
  let ?s = "(with_closure f e ?r)\<lparr>stack := stack s @ [TFunction (next_addr s)]\<rparr>"
  have e': "getcurrenv ?r = Val e ?r" using getcurrenv_roomy [OF e] by (simp add: getcurrenv_iff split: option.splits)
  have p: "lua_pushcfunction f ?r = Val () ?s"
    using pushcfunction_run [OF e'] readyD(4) [OF r] roomy_simps(13) [of s] by (simp add: with_closure_def)
  have fr: "enter_frame (next_addr s) [] ?s = enter_frame (next_addr s) [] (with_closure f e (s\<lparr>vars := v\<rparr>))"
    by (simp add: enter_frame_def with_closure_def roomy_def)
  have lv: "leave_frame ?s x y = leave_frame (roomy s) x y" for x y by (simp add: leave_frame_def)
  have cl: "closures ?s (next_addr s) = Some (CClosure e f [])" by (simp add: with_closure_def)
  have st': "stack ?s = stack s @ TFunction (next_addr s) # []" by simp
  have "JNLUA_PCALL H (jcall H (Suc d)) (length ([] :: TValue list)) nres ?s =
      Val () (leave_frame (roomy s) (stack s @ luaD_poscall (drop (length (stack s') - nat k) (stack s')) nres) s')"
    using run by (rule JNLUA_PCALL_c(1) [where s = ?s and H = H and d = d, OF st' cl f nres, unfolded fr lv])
  then show ?thesis using p by (simp add: seq_def bnd_def)
qed

lemma guarded_notnull:
  assumes "ready m s" "object \<noteq> 0"
  shows "guarded [checkstack JNLUA_MINSTACK, checknotnull object] body s = body (roomy s)"
  using readyD(3) [OF assms(1)] assms(2)
  by (simp add: guarded_def both_def bnd_def checknotnull_def check_def)

text \<open>The state after a Java object was pushed: a new closure and a new userdata, in that order.\<close>

definition pushed_object :: "jstate \<Rightarrow> u64 \<Rightarrow> u64 \<Rightarrow> u64 \<Rightarrow> jstate \<Rightarrow> bool" where
  "pushed_object s e mt g s1 \<longleftrightarrow> stack s1 = stack s @ [TUserdata (next_addr s + 1)]
     \<and> global_refs s1 = insert g (global_refs s) \<and> exn s1 = exn s
     \<and> udatas s1 (next_addr s + 1) = Some (java_udata e mt g) \<and> next_addr s1 = next_addr s + 2
     \<and> closures s1 = (closures s)(next_addr s \<mapsto> CClosure e Pushjavaobject_protected [])
     \<and> func s1 = func s \<and> l_gt s1 = l_gt s \<and> has_env s1 = has_env s \<and> registry s1 = registry s \<and> tables s1 = tables s"

lemma next_addr_unat:
  assumes "ready (Suc (Suc (Suc m))) s"
  shows "unat (next_addr s) + 3 < 2 ^ 64 - 1" "unat (next_addr s + 1) = unat (next_addr s) + 1"
    "unat (next_addr s + 2) = unat (next_addr s) + 2" "next_addr s + 1 \<noteq> - 1"
proof -
  show a: "unat (next_addr s) + 3 < 2 ^ 64 - 1" using assms by (simp add: ready_def)
  then show u: "unat (next_addr s + 1) = unat (next_addr s) + 1" "unat (next_addr s + 2) = unat (next_addr s) + 2"
    by (simp_all add: unat_word_ariths(1))
  show "next_addr s + 1 \<noteq> - 1"
  proof
    assume m1: "next_addr s + 1 = - 1"
    have "unat (next_addr s + 1) = unat (- 1 :: u64)" by (simp only: m1)
    also have "\<dots> = 2 ^ 64 - 1" by (simp add: unsigned_minus_1_eq_mask mask_eq_exp_minus_1)
    finally show False using a u by simp
  qed
qed

lemma jni_pushjavaobject_core:
  assumes r: "ready (Suc (Suc (Suc m))) s" and ob: "object_metatable s mt" and e: "getcurrenv s = Val e s"
    and obj: "object \<noteq> 0" "new_global_ref H (jni_calls s) object = g" "g \<noteq> 0"
  obtains s1 where "jni_pushjavaobject H (jcall H (Suc d)) object s = Val () s1" "pushed_object s e mt g s1"
proof -
  let ?a = "next_addr s"
  let ?v = "(vars s)\<lparr>pushjavaobject_object := object\<rparr>"
  let ?fr = "enter_frame ?a [] (with_closure Pushjavaobject_protected e (s\<lparr>vars := ?v\<rparr>))"
  let ?u = "?a + 1"
  let ?fr' = "?fr\<lparr>next_addr := ?u + 1, udatas := (udatas s)(?u \<mapsto> java_udata e mt g), stack := [TUserdata ?u],
    jni_calls := jni_calls s + 1, global_refs := insert g (global_refs s)\<rparr>"
  have "pushjavaobject H C object ?fr = Val () ?fr'" for C
    using pushjavaobject_run [of ?fr mt e H object g C] ob obj next_addr_unat(4) [OF r]
    by (simp add: enter_frame_def with_closure_def object_metatable_def getcurrenv_iff LUA_MINSTACK_def)
  then have "run_c H (jcall H d) Pushjavaobject_protected ?fr = Val 1 ?fr'"
    by (simp add: pushjavaobject_protected_def var_def bnd_def seq_def enter_frame_def with_closure_def)
  note call = call_none_Val [OF r _ _ e this, of 1]
  let ?s1 = "leave_frame (roomy s) (stack s @ [TUserdata ?u]) ?fr'"
  have "jni_pushjavaobject H (jcall H (Suc d)) object s = Val () ?s1"
    using call guarded_notnull [OF r obj(1)]
    by (simp add: jni_pushjavaobject_def enter_run [OF readyD(1) [OF r]] seq_def bnd_def set_var_def luaD_poscall_def
        LUA_MULTRET_def)
  moreover have "pushed_object s e mt g ?s1"
    by (simp add: pushed_object_def leave_frame_def enter_frame_def with_closure_def)
  ultimately show thesis by (rule that)
qed

lemma jni_tojavaobject_core:
  assumes r1: "ready (Suc m) s" and e: "getcurrenv s = Val e s" and nm: "names s 0 index (TUserdata u)"
    and u: "udatas s u = Some (java_udata e' mt g)" and ob: "object_metatable s mt"
  shows "\<exists>s2. jni_tojavaobject H (jcall H (Suc d)) index s = Val g s2 \<and> stack s2 = stack s"
proof -
  let ?f1 = "enter_frame (next_addr s) [TUserdata u] (with_closure Tojavaobject_protected e s)"
  let ?f2 = "?f1\<lparr>vars := (vars s)\<lparr>tojavaobject_result := g\<rparr>\<rparr>"
  have "tojavaobject H C 1 None ?f1 = Val g ?f1" for C
    by (subst tojavaobject_run [of _ u e' mt g])
      (use u ob in \<open>simp_all add: enter_frame_def with_closure_def object_metatable_def LUA_MINSTACK_def instance_or_null_def\<close>)
  then have "run_c H (jcall H d) Tojavaobject_protected ?f1 = Val 0 ?f2"
    by (simp add: tojavaobject_protected_def bnd_def seq_def set_var_def enter_frame_def with_closure_def)
  from call_on_Val(1) [OF r1 nm _ _ e this, of 0]
  have "call_on H (jcall H (Suc d)) Tojavaobject_protected index 0 (roomy s) = Val () (leave_frame (roomy s) (stack s) ?f2)"
    by (simp add: LUA_MULTRET_def luaD_poscall_def)
  then have "jni_tojavaobject H (jcall H (Suc d)) index s = Val g (leave_frame (roomy s) (stack s) ?f2)"
    using readyD(3) [OF r1]
    by (simp add: jni_tojavaobject_def object_result_def enter_run [OF readyD(1) [OF r1]] guarded_def both_def bnd_def
        seq_def checkindex_def validindex_def checkarg_def check_def var_def leave_frame_def)
  then show ?thesis by (simp add: leave_frame_def)
qed

text \<open>
  A Java object survives the way through Lua: \<open>lua_pushjavaobject\<close> pushes a userdata
  that holds a new global reference to the object, and \<open>lua_tojavaobject\<close> gives that reference
  back. It needs the metatable that \<open>newstate_protected\<close> leaves in the registry, and a global
  reference that the machine grants.
\<close>

theorem jni_javaobject_round_trip:
  assumes r: "ready (Suc (Suc (Suc m))) s" and len: "length (stack s) < 7980" and ob: "object_metatable s mt"
    and obj: "object \<noteq> 0" "new_global_ref H (jni_calls s) object = g" "g \<noteq> 0"
  shows "\<exists>s1 u. jni_pushjavaobject H (jcall H (Suc d)) object s = Val () s1 \<and> stack s1 = stack s @ [TUserdata u]
    \<and> global_refs s1 = insert g (global_refs s) \<and> exn s1 = exn s
    \<and> (\<exists>s2. jni_tojavaobject H (jcall H (Suc d)) (- 1) s1 = Val g s2 \<and> stack s2 = stack s1)"
proof -
  obtain e where e: "getcurrenv s = Val e s" using readyD(6) [OF r] by blast
  obtain s1 where s1: "jni_pushjavaobject H (jcall H (Suc d)) object s = Val () s1" "pushed_object s e mt g s1"
    by (rule jni_pushjavaobject_core [OF r ob e obj])
  note p = s1(2) [unfolded pushed_object_def] and a = next_addr_unat [OF r]
  have e1: "getcurrenv s1 = Val e s1"
    using e readyD(5) [OF r] p by (auto simp: getcurrenv_iff split: option.splits)
  have "b < next_addr s1" if "closures s1 b \<noteq> None" for b
  proof -
    have "unat b < unat (next_addr s) + 2"
      using that p r by (cases "b = next_addr s") (auto simp: ready_def word_less_nat_alt less_Suc_eq)
    then show ?thesis using p a(3) by (simp add: word_less_nat_alt)
  qed
  then have r1: "ready (Suc 0) s1"
    using r e1 p a len unfolding ready_def by (auto simp: LUA_MINSTACK_def LUAI_MAXCSTACK_def)
  have nm: "names s1 0 (- 1) (TUserdata (next_addr s + 1))"
    unfolding names_def by (intro disjI1 exI [of _ "length (stack s)"]) (simp add: p)
  have "object_metatable s1 mt" using ob p by (simp add: object_metatable_def)
  from jni_tojavaobject_core [OF r1 e1 nm _ this, of e g H d]
  show ?thesis using s1(1) p by blast
qed

text \<open>
  A light Java object does not survive: \<open>lua_pushlightjavaobject\<close> pushes a global
  reference itself as a light userdata, but \<open>lua_tolightjavaobject\<close> takes what \<open>lua_touserdata\<close>
  returns for the address of a reference and reads through it. The reference is an opaque handle of
  the Java machine, so the read is undefined. (It is right for what \<open>lua_newjavaobject\<close> pushes.)
\<close>

theorem jni_lightjavaobject_undefined:
  assumes r: "ready (Suc (Suc m)) s" and len: "length (stack s) < 7980" and obj: "object \<noteq> 0"
  shows "\<exists>s1. jni_pushlightjavaobject H (jcall H (Suc d)) object s = Val () s1
    \<and> stack s1 = stack s @ [TLightUserdata (new_global_ref H (jni_calls s) object)]
    \<and> jni_tolightjavaobject H (jcall H (Suc d)) (- 1) s1 = Undef"
proof -
  obtain e where e: "getcurrenv s = Val e s" using readyD(6) [OF r] by blast
  let ?g = "new_global_ref H (jni_calls s) object"
  let ?v = "(vars s)\<lparr>pushlightjavaobject_object := object\<rparr>"
  let ?fr = "enter_frame (next_addr s) [] (with_closure Pushlightjavaobject_protected e (s\<lparr>vars := ?v\<rparr>))"
  define fr' where "fr' = ?fr\<lparr>stack := [TLightUserdata ?g], jni_calls := jni_calls s + 1,
    global_refs := (if ?g = 0 then global_refs s else insert ?g (global_refs s))\<rparr>"
  have "run_c H (jcall H d) Pushlightjavaobject_protected ?fr = Val 1 fr'"
    by (simp add: pushlightjavaobject_protected_def pushlightjavaobject_def NewGlobalRef_def jni_call_def var_def bnd_def
        seq_def lua_pushlightuserdata_def push_run enter_frame_def with_closure_def LUA_MINSTACK_def fr'_def)
  note call = call_none_Val [OF r _ _ e this, of 1]
  define s1 where "s1 = leave_frame (roomy s) (stack s @ [TLightUserdata ?g]) fr'"
  have "jni_pushlightjavaobject H (jcall H (Suc d)) object s = Val () s1"
    using call guarded_notnull [OF r obj]
    by (simp add: jni_pushlightjavaobject_def enter_run [OF readyD(1) [OF r]] seq_def bnd_def set_var_def luaD_poscall_def
        LUA_MULTRET_def s1_def fr'_def)
  moreover have s1: "stack s1 = stack s @ [TLightUserdata ?g]" "next_addr s1 = next_addr s + 1"
    "closures s1 = (closures s)(next_addr s \<mapsto> CClosure e Pushlightjavaobject_protected [])"
    "func s1 = func s" "l_gt s1 = l_gt s" "has_env s1 = has_env s"
    by (simp_all add: s1_def fr'_def leave_frame_def enter_frame_def with_closure_def)
  moreover have "jni_tolightjavaobject H (jcall H (Suc d)) (- 1) s1 = Undef"
  proof -
    have r1: "ready (Suc m) s1"
      by (rule ready_with_closure [OF r e _ s1(2-6)]) (use len in \<open>simp add: s1(1)\<close>)
    obtain e1 where e1: "getcurrenv s1 = Val e1 s1" using readyD(6) [OF r1] by blast
    have nm: "names s1 0 (- 1) (TLightUserdata ?g)"
      unfolding names_def by (intro disjI1 exI [of _ "length (stack s)"]) (simp add: s1(1))
    have "run_c H (jcall H d) Tolightjavaobject_protected
        (enter_frame (next_addr s1) [TLightUserdata ?g] (with_closure Tolightjavaobject_protected e1 s1)) = Undef"
      by (simp add: tolightjavaobject_protected_def tolightjavaobject_def lua_touserdata_def bnd_def enter_frame_def
          index_value_arg deref_def)
    from call_on_Val(2) [OF r1 nm _ _ e1 this, of 0]
    have "call_on H (jcall H (Suc d)) Tolightjavaobject_protected (- 1) 0 (roomy s1) = Undef"
      by (simp add: LUA_MULTRET_def)
    then show ?thesis
      using readyD(3) [OF r1]
      by (simp add: jni_tolightjavaobject_def object_result_def enter_run [OF readyD(1) [OF r1]] guarded_def both_def bnd_def
          seq_def checkindex_def validindex_def checkarg_def check_def)
  qed
  ultimately show ?thesis by blast
qed

section \<open>Witnesses\<close>

text \<open>A thread whose registry names a metatable for Java objects.\<close>

definition sample_registry :: Table where
  "sample_registry = (case luaH_set new_table (TString JNLUA_OBJECT) of
     Ok (t, p) \<Rightarrow> put_slot t p (TTable 1) | _ \<Rightarrow> new_table)"

definition sample_objects :: "TValue list \<Rightarrow> jstate" where
  "sample_objects st = (sample_state st)\<lparr>tables := [1 \<mapsto> sample_registry]\<rparr>"

lemma sample_object_metatable: "object_metatable (sample_objects st) 1"
proof -
  obtain t p where t: "luaH_set new_table (TString JNLUA_OBJECT) = Ok (t, p)"
    "updated new_table (TString JNLUA_OBJECT) (TTable 1) (put_slot t p (TTable 1))"
    using luaH_set_updated [OF new_table_inv, of "TString JNLUA_OBJECT"]
    by (auto simp: live_def new_table_use MAXASIZE_def)
  then have "table_inv sample_registry" "content sample_registry (TString JNLUA_OBJECT) = TTable 1"
    using updatedD(1,2) [OF t(2)] by (simp_all add: sample_registry_def live_def rawequal_cases)
  then show ?thesis by (simp add: object_metatable_def sample_objects_def)
qed

lemma sample_objects_ready: "length st \<le> 100 \<Longrightarrow> m \<le> 1000 \<Longrightarrow> ready m (sample_objects st)"
  using sample_ready [of st m] by (simp add: ready_def sample_objects_def getcurrenv_iff split: option.splits)

theorem jni_javaobject_round_trip_witness:
  "\<exists>s1 u. jni_pushjavaobject sample_jni (jcall sample_jni 1) 7 (sample_objects []) = Val () s1 \<and> stack s1 = [TUserdata u]
    \<and> (\<exists>s2. jni_tojavaobject sample_jni (jcall sample_jni 1) (- 1) s1 = Val 7 s2)"
  using jni_javaobject_round_trip [OF sample_objects_ready _ sample_object_metatable, of "[]" 0 7 sample_jni 7 0]
  by (auto simp: sample_objects_def sample_jni_def)

theorem jni_lightjavaobject_undefined_witness:
  "\<exists>s1. jni_pushlightjavaobject sample_jni (jcall sample_jni 1) 7 (sample_state []) = Val () s1
    \<and> jni_tolightjavaobject sample_jni (jcall sample_jni 1) (- 1) s1 = Undef"
  using jni_lightjavaobject_undefined [OF sample_ready, of "[]" 0 7 sample_jni 0] by auto


end
