(* ===== verification/Events.thy ===== *)
theory Events
  imports Meta
begin

text \<open>
  What indexing promises. \<open>route\<close> is the way from a value along its \<open>__index\<close> or
  \<open>__newindex\<close> fields, given by the contents of the tables alone; \<open>luaV_gettable\<close> and
  \<open>luaV_settable\<close> follow it through the hash tables and the cache of absent events that
  \<open>fasttm\<close> keeps in the flags of a metatable.
\<close>

section \<open>The heap\<close>

definition event_field :: "Table \<Rightarrow> TMS \<Rightarrow> TValue" where
  "event_field t e = content t (TString (lit (tmname e)))"

text \<open>The cache: a bit that is set says that the event is absent.\<close>

definition flags_ok :: "Table \<Rightarrow> bool" where
  "flags_ok t \<longleftrightarrow> (\<forall>e. and (flags t) (event_bit e) \<noteq> 0 \<longrightarrow> event_field t e = TNil)"

text \<open>A value whose object is in the heap, and the metatable of a value.\<close>

definition valid :: "'z lua_State_scheme \<Rightarrow> TValue \<Rightarrow> bool" where
  "valid s v \<longleftrightarrow> (case v of TTable a \<Rightarrow> tables s a \<noteq> None | TUserdata a \<Rightarrow> udatas s a \<noteq> None | _ \<Rightarrow> True)"

definition metatable_at :: "'z lua_State_scheme \<Rightarrow> TValue \<Rightarrow> u64 option" where
  "metatable_at s v =
     (case v of TTable a \<Rightarrow> Option.bind (tables s a) metatable
      | TUserdata a \<Rightarrow> Option.bind (udatas s a) u_metatable
      | _ \<Rightarrow> g_mt s (nat (ttype v)))"

definition heap_ok :: "'z lua_State_scheme \<Rightarrow> bool" where
  "heap_ok s \<longleftrightarrow>
     (\<forall>a t. tables s a = Some t \<longrightarrow> table_inv t \<and> flags_ok t \<and> (\<forall>k. live k \<longrightarrow> valid s (content t k)))
     \<and> (\<forall>v m. valid s v \<longrightarrow> metatable_at s v = Some m \<longrightarrow> tables s m \<noteq> None)"

definition event_of :: "'z lua_State_scheme \<Rightarrow> TMS \<Rightarrow> TValue \<Rightarrow> TValue" where
  "event_of s e v =
     (case Option.bind (metatable_at s v) (tables s) of None \<Rightarrow> TNil | Some t \<Rightarrow> event_field t e)"

lemma heap_okD:
  assumes "heap_ok s"
  shows "tables s a = Some t \<Longrightarrow> table_inv t" "tables s a = Some t \<Longrightarrow> flags_ok t"
    "tables s a = Some t \<Longrightarrow> live k \<Longrightarrow> valid s (content t k)"
    "valid s v \<Longrightarrow> metatable_at s v = Some m \<Longrightarrow> \<exists>t. tables s m = Some t"
  using assms by (auto simp: heap_ok_def)

lemma valid_TNil [simp]: "valid s TNil" by (simp add: valid_def)

lemma live_TString [simp]: "live (TString b)" by (simp add: live_def)

lemma event_of_valid: "heap_ok s \<Longrightarrow> valid s (event_of s e v)"
  by (auto simp: event_of_def event_field_def heap_okD(3) split: option.split bind_splits)

lemma luaG_runerror_run: "luaG_runerror msg s = Raise LUA_ERRRUN (s\<lparr>stack := stack s @ [TString (lit msg)]\<rparr>)"
  by (simp add: luaG_runerror_def runerror_def seq_def bnd_def rawpush_def)

section \<open>Routes\<close>

text \<open>
  Where a chain ends: in a table, in a function that handles the event for a value, or in a
  value that cannot be indexed.
\<close>

datatype target = Here u64 | Calls TValue TValue | Bad TValue

definition goes_on :: "'z lua_State_scheme \<Rightarrow> TMS \<Rightarrow> TValue \<Rightarrow> TValue \<Rightarrow> bool" where
  "goes_on s e k v \<longleftrightarrow> event_of s e v \<noteq> TNil
     \<and> (case v of TTable a \<Rightarrow> (\<forall>t. tables s a = Some t \<longrightarrow> content t k = TNil) | _ \<Rightarrow> True)"

inductive route :: "'z lua_State_scheme \<Rightarrow> TMS \<Rightarrow> TValue \<Rightarrow> TValue \<Rightarrow> nat \<Rightarrow> target \<Rightarrow> bool"
  for s e k where
  in_table: "\<not> goes_on s e k (TTable a) \<Longrightarrow> route s e k (TTable a) 0 (Here a)"
| no_event: "\<not> goes_on s e k v \<Longrightarrow> ttype v \<noteq> LUA_TTABLE \<Longrightarrow> route s e k v 0 (Bad v)"
| handler: "goes_on s e k v \<Longrightarrow> is_function (event_of s e v) \<Longrightarrow> route s e k v 0 (Calls (event_of s e v) v)"
| further: "goes_on s e k v \<Longrightarrow> \<not> is_function (event_of s e v) \<Longrightarrow> route s e k (event_of s e v) n r \<Longrightarrow>
    route s e k v (Suc n) r"

inductive_cases route_0E: "route s e k v 0 r"
inductive_cases route_SucE: "route s e k v (Suc n) r"
inductive_simps route_Suc: "route s e k v (Suc n) r"

lemma table_type: "ttype v = LUA_TTABLE \<longleftrightarrow> (\<exists>a. v = TTable a)"
  by (cases v) (simp_all add: ttype_def LUA_TTABLE_def)

text \<open>There is one chain from a value, so one place where it ends.\<close>

lemma route_deterministic: "route s e k v n r \<Longrightarrow> route s e k v n' r' \<Longrightarrow> n' = n \<and> r' = r"
proof (induction arbitrary: n' r' rule: route.induct)
  case (in_table a)
  from in_table(2,1) show ?case by cases (auto simp: ttype_def LUA_TTABLE_def)
next
  case (no_event v)
  from no_event(3,1,2) show ?case by cases (auto simp: table_type)
next
  case (handler v)
  from handler(3,1,2) show ?case by cases auto
next
  case (further v n r)
  from further(5,1,2) show ?case by cases (auto dest: further.IH)
qed

section \<open>States with the same contents\<close>

text \<open>\<open>recached\<close>: only the caches differ. \<open>alike\<close>: the tables have the same contents.\<close>

definition recached :: "'z lua_State_scheme \<Rightarrow> 'z lua_State_scheme \<Rightarrow> bool" where
  "recached s s' \<longleftrightarrow> (\<exists>T. s' = s\<lparr>tables := T\<rparr>
     \<and> (\<forall>a. case tables s a of None \<Rightarrow> T a = None | Some t \<Rightarrow> \<exists>f. T a = Some (t\<lparr>flags := f\<rparr>)))"

definition alike :: "'z lua_State_scheme \<Rightarrow> 'z lua_State_scheme \<Rightarrow> bool" where
  "alike s s' \<longleftrightarrow> (\<exists>T. s' = s\<lparr>tables := T\<rparr>
     \<and> (\<forall>a. case tables s a of None \<Rightarrow> T a = None
            | Some t \<Rightarrow> \<exists>t'. T a = Some t' \<and> metatable t' = metatable t \<and> (\<forall>k. live k \<longrightarrow> content t' k = content t k)))"

lemma recached_refl [simp]: "recached s s"
proof -
  have "\<exists>f. tables s a = Some (t\<lparr>flags := f\<rparr>)" if "tables s a = Some t" for a t
    by (rule exI [of _ "flags t"]) (simp add: that)
  then show ?thesis
    unfolding recached_def by (intro exI [of _ "tables s"]) (simp split: option.split)
qed

lemma recached_alike: "recached s s' \<Longrightarrow> alike s s'"
proof -
  assume "recached s s'"
  then obtain T where T: "s' = s\<lparr>tables := T\<rparr>"
    "\<And>a. case tables s a of None \<Rightarrow> T a = None | Some t \<Rightarrow> \<exists>f. T a = Some (t\<lparr>flags := f\<rparr>)"
    unfolding recached_def by blast
  show ?thesis
    unfolding alike_def
  proof (intro exI conjI allI)
    show "s' = s\<lparr>tables := T\<rparr>" by (rule T(1))
    show "case tables s a of None \<Rightarrow> T a = None
      | Some t \<Rightarrow> \<exists>t'. T a = Some t' \<and> metatable t' = metatable t \<and> (\<forall>k. live k \<longrightarrow> content t' k = content t k)" for a
      using T(2) [of a] by (auto split: option.split)
  qed
qed

lemma alike_refl [simp]: "alike s s"
  by (rule recached_alike) simp

lemma alikeD:
  assumes "alike s s'"
  shows "tables s a = Some t \<Longrightarrow> \<exists>t'. tables s' a = Some t' \<and> metatable t' = metatable t \<and> (\<forall>k. live k \<longrightarrow> content t' k = content t k)"
    "tables s a = None \<Longrightarrow> tables s' a = None" "stack s' = stack s" "udatas s' = udatas s" "g_mt s' = g_mt s"
proof -
  obtain T where T: "s' = s\<lparr>tables := T\<rparr>" "\<And>a. case tables s a of None \<Rightarrow> T a = None
    | Some t \<Rightarrow> \<exists>t'. T a = Some t' \<and> metatable t' = metatable t \<and> (\<forall>k. live k \<longrightarrow> content t' k = content t k)"
    using assms unfolding alike_def by blast
  show "tables s a = Some t \<Longrightarrow> \<exists>t'. tables s' a = Some t' \<and> metatable t' = metatable t \<and> (\<forall>k. live k \<longrightarrow> content t' k = content t k)"
    "tables s a = None \<Longrightarrow> tables s' a = None" using T(2) [of a] by (simp_all add: T(1))
  show "stack s' = stack s" "udatas s' = udatas s" "g_mt s' = g_mt s" by (simp_all add: T(1))
qed

lemma alike_trans: "alike s1 s2 \<Longrightarrow> alike s2 s3 \<Longrightarrow> alike s1 s3"
proof -
  assume a: "alike s1 s2" "alike s2 s3"
  then obtain T T' where "s2 = s1\<lparr>tables := T\<rparr>" "s3 = s2\<lparr>tables := T'\<rparr>" unfolding alike_def by blast
  then have s3: "s3 = s1\<lparr>tables := tables s3\<rparr>" by simp
  show ?thesis
    unfolding alike_def
  proof (intro exI conjI allI)
    show "s3 = s1\<lparr>tables := tables s3\<rparr>" by (rule s3)
    fix b show "case tables s1 b of None \<Rightarrow> tables s3 b = None
      | Some t \<Rightarrow> \<exists>t'. tables s3 b = Some t' \<and> metatable t' = metatable t \<and> (\<forall>k. live k \<longrightarrow> content t' k = content t k)"
      using alikeD(2) [OF a(1)] alikeD(2) [OF a(2)]
      by (auto split: option.split dest!: alikeD(1) [OF a(1), of b] alikeD(1) [OF a(2), of b])
  qed
qed

lemma alike_None: "alike s s' \<Longrightarrow> tables s' a = None \<longleftrightarrow> tables s a = None"
  using alikeD(1,2) [of s s' a] by (cases "tables s a") auto

lemma alike_valid: "alike s s' \<Longrightarrow> valid s' v = valid s v"
  by (auto simp: valid_def alike_None alikeD(4) split: TValue.split)

lemma alike_metatable: "alike s s' \<Longrightarrow> metatable_at s' v = metatable_at s v"
proof -
  assume a: "alike s s'"
  have "Option.bind (tables s' b) metatable = Option.bind (tables s b) metatable" for b
    using alikeD(1,2) [OF a, of b] by (cases "tables s b") auto
  then show ?thesis by (simp add: metatable_at_def alikeD(4,5) [OF a] split: TValue.split)
qed

lemma alike_event: "alike s s' \<Longrightarrow> event_of s' e v = event_of s e v"
proof -
  assume a: "alike s s'"
  have "(case tables s' b of None \<Rightarrow> TNil | Some t \<Rightarrow> event_field t e) = (case tables s b of None \<Rightarrow> TNil | Some t \<Rightarrow> event_field t e)" for b
    using alikeD(1,2) [OF a, of b] by (cases "tables s b") (auto simp: event_field_def)
  then show ?thesis
    by (cases "metatable_at s v") (simp_all add: event_of_def alike_metatable [OF a])
qed

lemma alike_heap_ok:
  assumes "heap_ok s" "alike s s'" "\<And>a t. tables s' a = Some t \<Longrightarrow> table_inv t \<and> flags_ok t"
  shows "heap_ok s'"
proof -
  have "valid s (content t' k)" if "tables s' a = Some t'" "live k" for a t' k
  proof -
    have "tables s a \<noteq> None" using alike_None [OF assms(2), of a] that(1) by simp
    then obtain t where "tables s a = Some t" by blast
    then show ?thesis using alikeD(1) [OF assms(2)] that heap_okD(3) [OF assms(1)] by fastforce
  qed
  moreover have "tables s' m \<noteq> None" if "valid s v" "metatable_at s v = Some m" for v m
    using heap_okD(4) [OF assms(1) that] alike_None [OF assms(2), of m] by auto
  ultimately show ?thesis
    using assms(3) by (simp add: heap_ok_def alike_valid [OF assms(2)] alike_metatable [OF assms(2)])
qed

lemma arraykey_live: "arraykey t k \<Longrightarrow> live k"
  using arrayindex_number [of k] by (auto simp: arraykey_def live_def luai_numeq_def)

lemma content_dead:
  assumes "table_inv t" "\<not> live k" "\<And>p. k \<noteq> TDeadKey p"
  shows "content t k = TNil"
  by (rule luaH_get_cases [OF assms(1,3)]) (use assms(2) arraykey_live in blast)+

lemma alike_content:
  assumes "heap_ok s" "heap_ok s'" "alike s s'" "tables s a = Some t" "\<And>p. k \<noteq> TDeadKey p"
  obtains t' where "tables s' a = Some t'" "content t' k = content t k" "metatable t' = metatable t"
proof -
  obtain t' where t: "tables s' a = Some t'" "metatable t' = metatable t" "\<And>k. live k \<Longrightarrow> content t' k = content t k"
    using alikeD(1) [OF assms(3,4)] by blast
  have "content t' k = content t k"
    using t(3) content_dead [OF heap_okD(1) [OF assms(1,4)] _ assms(5)]
      content_dead [OF heap_okD(1) [OF assms(2) t(1)] _ assms(5)] by (cases "live k") auto
  then show thesis using that t by blast
qed

lemma alike_route:
  assumes "heap_ok s" "heap_ok s'" "alike s s'" "\<And>p. k \<noteq> TDeadKey p"
  shows "route s e k v n r \<Longrightarrow> route s' e k v n r"
proof -
  have goes: "goes_on s' e k w = goes_on s e k w" for w
  proof (cases w)
    case (TTable a)
    show ?thesis
    proof (cases "tables s a")
      case None
      then show ?thesis using alikeD(2) [OF assms(3)] by (simp add: goes_on_def alike_event [OF assms(3)] TTable)
    next
      case (Some t)
      then obtain t' where "tables s' a = Some t'" "content t' k = content t k"
        using alike_content [OF assms(1-3) Some assms(4)] by blast
      then show ?thesis by (simp add: goes_on_def alike_event [OF assms(3)] TTable Some)
    qed
  qed (simp_all add: goes_on_def alike_event [OF assms(3)])
  show "route s e k v n r \<Longrightarrow> route s' e k v n r"
  proof (induction rule: route.induct)
    case (handler v)
    then show ?case using route.handler [of s' e k v] by (simp add: goes alike_event [OF assms(3)])
  next
    case (further v n r)
    then show ?case using route.further [of s' e k v n r] by (simp add: goes alike_event [OF assms(3)])
  qed (simp_all add: goes route.in_table route.no_event)
qed

lemma alike_sym: "heap_ok s \<Longrightarrow> heap_ok s' \<Longrightarrow> alike s s' \<Longrightarrow> alike s' s"
proof -
  assume a: "alike s s'"
  then have "s = s'\<lparr>tables := tables s\<rparr>" by (auto simp: alike_def)
  then show ?thesis
    unfolding alike_def
  proof (intro exI conjI allI)
    fix b show "case tables s' b of None \<Rightarrow> tables s b = None
      | Some t \<Rightarrow> \<exists>t'. tables s b = Some t' \<and> metatable t' = metatable t \<and> (\<forall>k. live k \<longrightarrow> content t' k = content t k)"
      using alike_None [OF a, of b] alikeD(1) [OF a, of b] by (cases "tables s b") auto
  qed
qed

lemma alike_route_iff:
  assumes "heap_ok s" "heap_ok s'" "alike s s'" "\<And>p. k \<noteq> TDeadKey p"
  shows "route s' e k v n r \<longleftrightarrow> route s e k v n r"
  using alike_route [OF assms] alike_route [OF assms(2,1) alike_sym [OF assms(1-3)] assms(4)] by blast

lemma route_further:
  assumes "goes_on s e k v" "\<not> is_function (event_of s e v)"
  shows "route s e k v n r \<longleftrightarrow> (\<exists>m. n = Suc m \<and> route s e k (event_of s e v) m r)"
  using assms by (cases n) (auto elim: route_0E simp: route_Suc)

section \<open>Looking for an event\<close>

lemma bits_disjoint: "and (event_bit e) (event_bit e') \<noteq> 0 \<Longrightarrow> e = e'"
  by (cases e; cases e') simp_all

lemma flags_or:
  assumes "flags_ok t" "event_field t e = TNil"
  shows "flags_ok (t\<lparr>flags := or (flags t) (event_bit e)\<rparr>)"
  unfolding flags_ok_def
proof (intro allI impI)
  fix e' assume "and (flags (t\<lparr>flags := or (flags t) (event_bit e)\<rparr>)) (event_bit e') \<noteq> 0"
  then have "and (flags t) (event_bit e') \<noteq> 0 \<or> and (event_bit e) (event_bit e') \<noteq> 0"
    by (auto simp: bit.conj_disj_distrib2)
  then have "event_field t e' = TNil" using assms bits_disjoint by (auto simp: flags_ok_def)
  then show "event_field (t\<lparr>flags := or (flags t) (event_bit e)\<rparr>) e' = TNil" by (simp add: event_field_def)
qed

lemma getstr_run:
  assumes "table_inv t"
  shows "lookup_prog t (luaH_getstr t b) s = Val (content t (TString b)) s"
  using luaH_get_linear_core [OF assms, of "TString b"] by (simp add: luaH_get_def Let_def lookup_prog_def)

lemma get_lookup_run:
  assumes "table_inv t" "\<And>p. k \<noteq> TDeadKey p"
  shows "lookup_prog t (luaH_get t k) s = Val (content t k) s"
  using luaH_get_linear_core [OF assms(1)] assms(2) by (simp add: lookup_prog_def)

lemma recached_one:
  assumes "heap_ok s" "tables s m = Some t" "flags_ok (t\<lparr>flags := f\<rparr>)"
  shows "recached s (s\<lparr>tables := (tables s)(m \<mapsto> t\<lparr>flags := f\<rparr>)\<rparr>)"
    "heap_ok (s\<lparr>tables := (tables s)(m \<mapsto> t\<lparr>flags := f\<rparr>)\<rparr>)"
proof -
  have "\<exists>f. u = u\<lparr>flags := f\<rparr>" for u :: Table by (rule exI [of _ "flags u"]) simp
  then show r: "recached s (s\<lparr>tables := (tables s)(m \<mapsto> t\<lparr>flags := f\<rparr>)\<rparr>)"
    unfolding recached_def using assms(2)
    by (intro exI [of _ "(tables s)(m \<mapsto> t\<lparr>flags := f\<rparr>)"]) (auto split: option.split)
  show "heap_ok (s\<lparr>tables := (tables s)(m \<mapsto> t\<lparr>flags := f\<rparr>)\<rparr>)"
    by (rule alike_heap_ok [OF assms(1) recached_alike [OF r]])
      (use assms(2,3) heap_okD(1,2) [OF assms(1)] in \<open>auto split: if_splits\<close>)
qed

lemma fasttm_run:
  assumes ok: "heap_ok s" and v: "valid s (TTable a)" "tables s a = Some t"
  obtains s' where "fasttm (metatable t) e s = Val (if event_of s e (TTable a) = TNil then None else Some (event_of s e (TTable a))) s'"
    "recached s s'" "heap_ok s'"
proof (cases "metatable t")
  case None
  then show thesis using that [of s] ok v(2) by (simp add: fasttm_def event_of_def metatable_at_def)
next
  case (Some m)
  have at: "metatable_at s (TTable a) = Some m" using v(2) Some by (simp add: metatable_at_def)
  obtain mt where mt: "tables s m = Some mt" using heap_okD(4) [OF ok v(1) at] by blast
  note ti = heap_okD(1,2) [OF ok mt]
  have ev: "event_of s e (TTable a) = event_field mt e" by (simp add: event_of_def at mt)
  show thesis
  proof (cases "and (flags mt) (event_bit e) \<noteq> 0")
    case True
    then have "event_field mt e = TNil" using ti(2) by (simp add: flags_ok_def)
    then show thesis using that [of s] ok True mt Some by (simp add: fasttm_def bnd_def hvalue_def ev)
  next
    case False
    then have run: "fasttm (metatable t) e s =
        (if event_field mt e = TNil
         then Val None (s\<lparr>tables := (tables s)(m \<mapsto> mt\<lparr>flags := or (flags mt) (event_bit e)\<rparr>)\<rparr>)
         else Val (Some (event_field mt e)) s)"
      using mt Some
      by (simp add: fasttm_def luaT_gettm_def bnd_def seq_def hvalue_def getstr_run [OF ti(1)] put_table_def event_field_def)
    show thesis
    proof (cases "event_field mt e = TNil")
      case True
      then show thesis using that recached_one [OF ok mt flags_or [OF ti(2) True]] run ev by simp
    next
      case False
      then show thesis using that [of s] ok run ev by simp
    qed
  qed
qed

lemma gettmbyobj_run:
  assumes ok: "heap_ok s" and v: "valid s v"
  shows "luaT_gettmbyobj v e s = Val (event_of s e v) s"
proof -
  have at: "metatable_of v s = Val (metatable_at s v) s"
    using v by (auto simp: metatable_of_def metatable_at_def valid_def bnd_def hvalue_def uvalue_def split: TValue.split)
  show ?thesis
  proof (cases "metatable_at s v")
    case None
    then show ?thesis by (simp add: luaT_gettmbyobj_def bnd_def at event_of_def)
  next
    case (Some m)
    then obtain t where "tables s m = Some t" using heap_okD(4) [OF ok v] by blast
    then show ?thesis
      using Some heap_okD(1) [OF ok]
      by (simp add: luaT_gettmbyobj_def bnd_def at event_of_def hvalue_def getstr_run event_field_def)
  qed
qed

lemma recachedD: "recached s s' \<Longrightarrow> tables s a = Some t \<Longrightarrow> \<exists>f. tables s' a = Some (t\<lparr>flags := f\<rparr>)"
proof -
  assume "recached s s'" and t: "tables s a = Some t"
  then obtain T where "s' = s\<lparr>tables := T\<rparr>"
    "case tables s a of None \<Rightarrow> T a = None | Some t \<Rightarrow> \<exists>f. T a = Some (t\<lparr>flags := f\<rparr>)"
    unfolding recached_def by blast
  then show ?thesis using t by simp
qed

lemma recached_trans: "recached s1 s2 \<Longrightarrow> recached s2 s3 \<Longrightarrow> recached s1 s3"
proof -
  assume "recached s1 s2" "recached s2 s3"
  then obtain T T' where T: "s2 = s1\<lparr>tables := T\<rparr>" "s3 = s2\<lparr>tables := T'\<rparr>"
    "\<And>a. case tables s1 a of None \<Rightarrow> T a = None | Some t \<Rightarrow> \<exists>f. T a = Some (t\<lparr>flags := f\<rparr>)"
    "\<And>a. case tables s2 a of None \<Rightarrow> T' a = None | Some t \<Rightarrow> \<exists>f. T' a = Some (t\<lparr>flags := f\<rparr>)"
    unfolding recached_def by blast
  have "case tables s1 a of None \<Rightarrow> T' a = None | Some t \<Rightarrow> \<exists>f. T' a = Some (t\<lparr>flags := f\<rparr>)" for a
    using T(3,4) [of a] by (auto simp: T(1) split: option.splits)
  then show ?thesis unfolding recached_def using T(1,2) by (intro exI [of _ T']) simp
qed

section \<open>Indexing\<close>

definition raw_content :: "'z lua_State_scheme \<Rightarrow> u64 \<Rightarrow> TValue \<Rightarrow> TValue" where
  "raw_content s a k = (case tables s a of None \<Rightarrow> TNil | Some t \<Rightarrow> content t k)"

text \<open>What is done where the chain ends.\<close>

fun indexed :: "(nat \<Rightarrow> int \<Rightarrow> ('z lua_State_scheme, unit) prog) \<Rightarrow> TValue \<Rightarrow> target
    \<Rightarrow> ('z lua_State_scheme, TValue) prog" where
  "indexed C k (Here a) s = Val (raw_content s a k) s"
| "indexed C k (Calls f v) s = callTMres C f v k s"
| "indexed C k (Bad v) s = luaG_typeerror v ''index'' s"

lemma goes_on_other: "ttype v \<noteq> LUA_TTABLE \<Longrightarrow> goes_on s e k v \<longleftrightarrow> event_of s e v \<noteq> TNil"
  by (simp add: goes_on_def table_type split: TValue.split)

lemma goes_on_table:
  "tables s a = Some t \<Longrightarrow> goes_on s e k (TTable a) \<longleftrightarrow> event_of s e (TTable a) \<noteq> TNil \<and> content t k = TNil"
  by (simp add: goes_on_def)

lemma gettable_round:
  assumes ok: "heap_ok s" and v: "valid s v" and k: "\<And>p. k \<noteq> TDeadKey p"
  obtains s' where "recached s s'" "heap_ok s'"
    "gettable_loop (Suc f) C v k s =
      (if \<not> goes_on s TM_INDEX k v then indexed C k (case v of TTable a \<Rightarrow> Here a | _ \<Rightarrow> Bad v) s'
       else if is_function (event_of s TM_INDEX v) then callTMres C (event_of s TM_INDEX v) v k s'
       else gettable_loop f C (event_of s TM_INDEX v) k s')"
proof (cases "ttype v = LUA_TTABLE")
  case True
  then obtain a where a: "v = TTable a" by (auto simp: table_type)
  obtain t where t: "tables s a = Some t" using v by (auto simp: valid_def a)
  note ti = heap_okD(1) [OF ok t]
  show thesis
  proof (cases "content t k = TNil")
    case False
    then show thesis using that [of s] ok t
      by (simp add: a bnd_def hvalue_def get_lookup_run [OF ti k] goes_on_table raw_content_def)
  next
    case True
    obtain s' where s': "fasttm (metatable t) TM_INDEX s =
        Val (if event_of s TM_INDEX (TTable a) = TNil then None else Some (event_of s TM_INDEX (TTable a))) s'"
      "recached s s'" "heap_ok s'"
      by (rule fasttm_run [OF ok v [unfolded a] t])
    obtain t' where "tables s' a = Some t'" "content t' k = content t k"
      using alike_content [OF ok s'(3) recached_alike [OF s'(2)] t k] by blast
    then have "raw_content s' a k = TNil" by (simp add: raw_content_def True)
    then show thesis using that [OF s'(2,3)] t True
      by (simp add: a bnd_def hvalue_def get_lookup_run [OF ti k] goes_on_table s'(1) Let_def)
  qed
next
  case False
  then have "gettable_loop (Suc f) C v k = bnd (luaT_gettmbyobj v TM_INDEX) (\<lambda>tm.
      if tm = TNil then luaG_typeerror v ''index''
      else if is_function tm then callTMres C tm v k else gettable_loop f C tm k)"
    by (cases v) (simp_all add: ttype_def LUA_TTABLE_def cong: if_cong)
  then have "gettable_loop (Suc f) C v k s =
      (if event_of s TM_INDEX v = TNil then luaG_typeerror v ''index'' s
       else if is_function (event_of s TM_INDEX v) then callTMres C (event_of s TM_INDEX v) v k s
       else gettable_loop f C (event_of s TM_INDEX v) k s)"
    by (simp add: bnd_def gettmbyobj_run [OF ok v])
  then show thesis using that [of s] ok False
    by (cases v) (simp_all add: goes_on_other ttype_def LUA_TTABLE_def)
qed

lemma route_target: "\<not> goes_on s e k v \<Longrightarrow> route s e k v 0 (case v of TTable a \<Rightarrow> Here a | _ \<Rightarrow> Bad v)"
  by (cases v) (auto intro: route.in_table route.no_event simp: ttype_def LUA_TTABLE_def)

lemma gettable_follows:
  assumes "heap_ok s" "valid s v" "\<And>p. k \<noteq> TDeadKey p"
  shows "route s TM_INDEX k v n r \<Longrightarrow> n < f \<Longrightarrow>
      \<exists>s'. recached s s' \<and> heap_ok s' \<and> gettable_loop f C v k s = indexed C k r s'"
    and "\<forall>n < f. \<forall>r. \<not> route s TM_INDEX k v n r \<Longrightarrow>
      \<exists>s'. recached s s' \<and> heap_ok s' \<and> gettable_loop f C v k s = luaG_runerror ''loop in gettable'' s'"
proof -
  have "(\<forall>n < f. \<forall>r. route s TM_INDEX k v n r \<longrightarrow>
        (\<exists>s'. recached s s' \<and> heap_ok s' \<and> gettable_loop f C v k s = indexed C k r s'))
    \<and> ((\<forall>n < f. \<forall>r. \<not> route s TM_INDEX k v n r) \<longrightarrow>
        (\<exists>s'. recached s s' \<and> heap_ok s' \<and> gettable_loop f C v k s = luaG_runerror ''loop in gettable'' s'))"
    using assms(1,2)
  proof (induction f arbitrary: s v)
    case 0
    then show ?case by (auto intro: exI [of _ s])
  next
    case (Suc f)
    let ?v = "event_of s TM_INDEX v"
    obtain s1 where s1: "recached s s1" "heap_ok s1"
      "gettable_loop (Suc f) C v k s =
        (if \<not> goes_on s TM_INDEX k v then indexed C k (case v of TTable a \<Rightarrow> Here a | _ \<Rightarrow> Bad v) s1
         else if is_function ?v then callTMres C ?v v k s1 else gettable_loop f C ?v k s1)"
      by (rule gettable_round [OF Suc.prems assms(3)])
    note al = recached_alike [OF s1(1)]
    have end_here: ?case if c: "route s TM_INDEX k v 0 r" "gettable_loop (Suc f) C v k s = indexed C k r s1" for r
      using route_deterministic [OF c(1)] c s1(1,2) by blast
    consider "\<not> goes_on s TM_INDEX k v" | "goes_on s TM_INDEX k v" "is_function ?v"
      | "goes_on s TM_INDEX k v" "\<not> is_function ?v" by blast
    then show ?case
    proof cases
      case 1
      then show ?thesis using end_here [OF route_target [OF 1]] s1(3) by simp
    next
      case 2
      then show ?thesis using end_here [OF route.handler [OF 2]] s1(3) by simp
    next
      case 3
      have step: "route s TM_INDEX k v n r \<longleftrightarrow> (\<exists>m. n = Suc m \<and> route s1 TM_INDEX k ?v m r)" for n r
        using route_further [OF 3] alike_route_iff [OF Suc.prems(1) s1(2) al assms(3)] by simp
      have "valid s1 ?v" using alike_valid [OF al] event_of_valid [OF Suc.prems(1)] by simp
      note IH = Suc.IH [OF s1(2) this]
      have run: "gettable_loop (Suc f) C v k s = gettable_loop f C ?v k s1" using s1(3) 3 by simp
      have lift: "\<exists>s'. recached s s' \<and> heap_ok s' \<and> gettable_loop (Suc f) C v k s = g s'"
        if "\<exists>s'. recached s1 s' \<and> heap_ok s' \<and> gettable_loop f C ?v k s1 = g s'" for g
        using that recached_trans [OF s1(1)] run by auto
      show ?thesis
      proof (intro conjI allI impI)
        fix n r assume "n < Suc f" "route s TM_INDEX k v n r"
        then obtain m where "m < f" "route s1 TM_INDEX k ?v m r" by (auto simp: step)
        with IH show "\<exists>s'. recached s s' \<and> heap_ok s' \<and> gettable_loop (Suc f) C v k s = indexed C k r s'"
          by (intro lift) blast
      next
        assume "\<forall>n < Suc f. \<forall>r. \<not> route s TM_INDEX k v n r"
        then have "\<forall>n < f. \<forall>r. \<not> route s1 TM_INDEX k ?v n r" by (auto simp: step)
        with IH show "\<exists>s'. recached s s' \<and> heap_ok s' \<and> gettable_loop (Suc f) C v k s = luaG_runerror ''loop in gettable'' s'"
          by (intro lift) blast
      qed
    qed
  qed
  then show "route s TM_INDEX k v n r \<Longrightarrow> n < f \<Longrightarrow>
      \<exists>s'. recached s s' \<and> heap_ok s' \<and> gettable_loop f C v k s = indexed C k r s'"
    and "\<forall>n < f. \<forall>r. \<not> route s TM_INDEX k v n r \<Longrightarrow>
      \<exists>s'. recached s s' \<and> heap_ok s' \<and> gettable_loop f C v k s = luaG_runerror ''loop in gettable'' s'"
    by blast+
qed

section \<open>Assigning\<close>

definition set_in :: "'z lua_State_scheme \<Rightarrow> u64 \<Rightarrow> TValue \<Rightarrow> TValue \<Rightarrow> 'z lua_State_scheme \<Rightarrow> bool" where
  "set_in s a k v s' \<longleftrightarrow> (\<exists>T. s' = s\<lparr>tables := T\<rparr>
     \<and> (\<forall>b. case tables s b of None \<Rightarrow> T b = None
            | Some t \<Rightarrow> \<exists>t'. T b = Some t' \<and> metatable t' = metatable t
                \<and> (\<forall>k'. live k' \<longrightarrow> content t' k' = (if b = a \<and> luaO_rawequalObj k k' then v else content t k'))))"

fun assigned :: "(nat \<Rightarrow> int \<Rightarrow> ('z lua_State_scheme, unit) prog) \<Rightarrow> TValue \<Rightarrow> TValue \<Rightarrow> target
    \<Rightarrow> 'z lua_State_scheme \<Rightarrow> ('z lua_State_scheme, unit) res \<Rightarrow> bool" where
  "assigned C k val (Here a) s r \<longleftrightarrow> (\<exists>s'. r = Val () s' \<and> set_in s a k val s' \<and> heap_ok s')"
| "assigned C k val (Calls f v) s r \<longleftrightarrow> r = callTM C f v k val s"
| "assigned C k val (Bad v) s r \<longleftrightarrow> r = luaG_typeerror v ''index'' s"

definition overflowed :: "'z lua_State_scheme \<Rightarrow> ('z lua_State_scheme, unit) res \<Rightarrow> bool" where
  "overflowed s r \<longleftrightarrow> (\<exists>s' a t. alike s s' \<and> heap_ok s' \<and> r = luaG_runerror ''table overflow'' s'
     \<and> tables s' a = Some t \<and> MAXASIZE < total_use t)"

lemma put_slot_id: "put_slot t p (slot_val t p) = t"
  by (cases p) simp_all

lemma put_slot_flags: "put_slot (t\<lparr>flags := f\<rparr>) p v = (put_slot t p v)\<lparr>flags := f\<rparr>"
  by (cases p) simp_all

lemma assignsD:
  assumes "assigns t k t' p"
  shows "table_inv t'" "slot_val t' p = content t k" "metatable t' = metatable t" "table_inv (put_slot t' p v)"
    "metatable (put_slot t' p v) = metatable t"
    "live k' \<Longrightarrow> content (put_slot t' p v) k' = (if luaO_rawequalObj k k' then v else content t k')"
    "live k' \<Longrightarrow> content t' k' = content t k'"
proof -
  show r: "live k' \<Longrightarrow> content (put_slot t' p v) k' = (if luaO_rawequalObj k k' then v else content t k')" for v
    using assms by (simp add: assigns_def)
  show "live k' \<Longrightarrow> content t' k' = content t k'"
    using r [of "slot_val t' p"] assms content_rawequal [of k k' t] by (auto simp: put_slot_id assigns_def)
qed (use assms in \<open>simp_all add: assigns_def\<close>)

lemma flags_ok_0: "flags t = 0 \<Longrightarrow> flags_ok t"
  by (simp add: flags_ok_def)

lemma alike_one:
  assumes ok: "heap_ok s" and t: "tables s a = Some t" and
    t': "table_inv t'" "flags t' = 0" "metatable t' = metatable t" "\<And>k. live k \<Longrightarrow> content t' k = content t k"
  shows "alike s (s\<lparr>tables := (tables s)(a \<mapsto> t')\<rparr>)" "heap_ok (s\<lparr>tables := (tables s)(a \<mapsto> t')\<rparr>)"
proof -
  show al: "alike s (s\<lparr>tables := (tables s)(a \<mapsto> t')\<rparr>)"
    unfolding alike_def using t t'(3,4)
    by (intro exI [of _ "(tables s)(a \<mapsto> t')"]) (auto split: option.split)
  show "heap_ok (s\<lparr>tables := (tables s)(a \<mapsto> t')\<rparr>)"
    by (rule alike_heap_ok [OF ok al]) (use heap_okD(1,2) [OF ok] t' flags_ok_0 in \<open>auto split: if_splits\<close>)
qed

lemma set_in_one:
  assumes ok: "heap_ok s" and t: "tables s a = Some t" and v: "valid s v" and
    t': "table_inv t'" "flags t' = 0" "metatable t' = metatable t"
      "\<And>k'. live k' \<Longrightarrow> content t' k' = (if luaO_rawequalObj k k' then v else content t k')"
  shows "set_in s a k v (s\<lparr>tables := (tables s)(a \<mapsto> t')\<rparr>)" "heap_ok (s\<lparr>tables := (tables s)(a \<mapsto> t')\<rparr>)"
proof -
  let ?s = "s\<lparr>tables := (tables s)(a \<mapsto> t')\<rparr>"
  show "set_in s a k v ?s"
    unfolding set_in_def using t t'(3,4)
    by (intro exI [of _ "(tables s)(a \<mapsto> t')"]) (auto split: option.split)
  have val: "valid ?s = valid s" using t by (auto simp: valid_def fun_eq_iff split: TValue.split)
  have mt: "metatable_at ?s = metatable_at s" using t t'(3) by (auto simp: metatable_at_def fun_eq_iff split: TValue.split)
  have "table_inv u \<and> flags_ok u \<and> (\<forall>k. live k \<longrightarrow> valid s (content u k))" if "tables ?s b = Some u" for b u
    using that heap_okD(1-3) [OF ok] t t' v flags_ok_0 by (cases "b = a") auto
  moreover have "tables ?s m \<noteq> None" if "valid s w" "metatable_at s w = Some m" for w m
    using heap_okD(4) [OF ok that] by auto
  ultimately show "heap_ok ?s" unfolding heap_ok_def val mt by blast
qed

lemma bnd_ret: "bnd (ret x) f = f x"
  by (simp add: bnd_def fun_eq_iff)

lemma seq_put_table: "seq (put_table a t) m s = m (s\<lparr>tables := (tables s)(a \<mapsto> t)\<rparr>)"
  by (simp add: seq_def bnd_def put_table_def)

lemma settable_round:
  fixes s :: "'z lua_State_scheme"
  assumes ok: "heap_ok s" and v: "valid s v" "valid s val" and k: "live k"
  obtains (overflow) "overflowed s (settable_loop (Suc f) C v k val s)"
    | (round) s' where "alike s s'" "heap_ok s'"
      "if \<not> goes_on s TM_NEWINDEX k v
       then assigned C k val (case v of TTable a \<Rightarrow> Here a | _ \<Rightarrow> Bad v) s' (settable_loop (Suc f) C v k val s)
       else settable_loop (Suc f) C v k val s =
         (if is_function (event_of s TM_NEWINDEX v) then callTM C (event_of s TM_NEWINDEX v) v k val s'
          else settable_loop f C (event_of s TM_NEWINDEX v) k val s')"
proof (cases "ttype v = LUA_TTABLE")
  case True
  then obtain a where a: "v = TTable a" by (auto simp: table_type)
  obtain h where h: "tables s a = Some h" using v by (auto simp: valid_def a)
  have hv: "hvalue (TTable a) s = Val (a, h) s" by (simp add: hvalue_def h)
  from luaH_set_core [OF heap_okD(1) [OF ok h] k]
  consider t p where "luaH_set h k = Ok (t, p)" "assigns h k t p" "flags t = 0"
    | "luaH_set h k = RunError ''table overflow''" "MAXASIZE < total_use h" by blast
  then show thesis
  proof cases
    case 2
    then have "overflowed s (settable_loop (Suc f) C v k val s)"
      using ok h by (auto simp: overflowed_def a bnd_def hv luaG_runerror_run intro!: exI [of _ s] exI [of _ a])
    then show thesis by (rule overflow)
  next
    case 1
    note as = assignsD [OF 1(2)]
    let ?s1 = "s\<lparr>tables := (tables s)(a \<mapsto> t)\<rparr>"
    note s1 = alike_one [OF ok h as(1) 1(3) as(3,7)]
    have ev: "event_of ?s1 = event_of s" using alike_event [OF s1(1)] by (simp add: fun_eq_iff)
    define store :: "('z lua_State_scheme, unit) prog" where "store = bnd (hvalue (TTable a)) (\<lambda>(_, h''). put_table a ((put_slot h'' p val)\<lparr>flags := 0\<rparr>))"
    have stored: "assigned C k val (Here a) s' (store s')"
      if s': "recached ?s1 s'" "heap_ok s'" for s'
    proof -
      obtain g where g: "tables s' a = Some (t\<lparr>flags := g\<rparr>)"
        using recachedD [OF s'(1), of a t] by auto
      have "valid s' val" using v(2) alike_valid [OF s1(1)] alike_valid [OF recached_alike [OF s'(1)]] by simp
      note S = set_in_one [OF s'(2) g this, of "(put_slot t p val)\<lparr>flags := 0\<rparr>" k]
      then show ?thesis using as by (simp add: store_def bnd_def hvalue_def g put_table_def put_slot_flags)
    qed
    have run: "settable_loop (Suc f) C v k val s =
      (if content h k \<noteq> TNil then store ?s1
       else bnd (fasttm (metatable t) TM_NEWINDEX) (\<lambda>tm. case tm of None \<Rightarrow> store
         | Some tm \<Rightarrow> if is_function tm then callTM C tm (TTable a) k val else settable_loop f C tm k val) ?s1)"
      by (simp add: a bnd_Val [where m = "hvalue (TTable a)", OF hv] 1(1) bnd_ret seq_put_table as(2) Let_def flip: store_def)
    show thesis
    proof (cases "content h k = TNil")
      case False
      then show thesis using round [OF s1] stored [OF recached_refl s1(2)] run by (simp add: a goes_on_table [OF h])
    next
      case True
      have V: "valid ?s1 (TTable a)" "tables ?s1 a = Some t" by (simp_all add: valid_def)
      obtain s2 where s2: "fasttm (metatable t) TM_NEWINDEX ?s1 = Val
          (if event_of s TM_NEWINDEX (TTable a) = TNil then None else Some (event_of s TM_NEWINDEX (TTable a))) s2"
        "recached ?s1 s2" "heap_ok s2"
        by (rule fasttm_run [OF s1(2) V, of TM_NEWINDEX, unfolded ev])
      show thesis
        using round [OF alike_trans [OF s1(1) recached_alike [OF s2(2)]] s2(3)] stored [OF s2(2,3)] run True
        by (simp add: a goes_on_table [OF h] bnd_def s2(1))
    qed
  qed
next
  case False
  then have "settable_loop (Suc f) C v k val = bnd (luaT_gettmbyobj v TM_NEWINDEX) (\<lambda>tm.
      if tm = TNil then luaG_typeerror v ''index''
      else if is_function tm then callTM C tm v k val else settable_loop f C tm k val)"
    by (cases v) (simp_all add: ttype_def LUA_TTABLE_def cong: if_cong)
  then have "settable_loop (Suc f) C v k val s =
      (if event_of s TM_NEWINDEX v = TNil then luaG_typeerror v ''index'' s
       else if is_function (event_of s TM_NEWINDEX v) then callTM C (event_of s TM_NEWINDEX v) v k val s
       else settable_loop f C (event_of s TM_NEWINDEX v) k val s)"
    by (simp add: bnd_def gettmbyobj_run [OF ok v(1)])
  then show thesis using round [of s] ok False
    by (cases v) (simp_all add: goes_on_other ttype_def LUA_TTABLE_def)
qed

lemma settable_follows:
  assumes "heap_ok s" "valid s v" "valid s val" "live k"
  shows "overflowed s (settable_loop f C v k val s)
    \<or> (\<exists>s'. alike s s' \<and> heap_ok s' \<and>
        ((\<exists>n < f. \<exists>r. route s TM_NEWINDEX k v n r \<and> assigned C k val r s' (settable_loop f C v k val s))
         \<or> (\<forall>n < f. \<forall>r. \<not> route s TM_NEWINDEX k v n r)
           \<and> settable_loop f C v k val s = luaG_runerror ''loop in settable'' s'))"
  using assms(1-3)
proof (induction f arbitrary: s v)
  case 0
  then show ?case by (auto intro!: exI [of _ s])
next
  case (Suc f)
  let ?v = "event_of s TM_NEWINDEX v"
  have k: "\<And>p. k \<noteq> TDeadKey p" using assms(4) by (auto simp: live_def)
  show ?case
  proof (rule settable_round [OF Suc.prems assms(4), of f C])
    assume "overflowed s (settable_loop (Suc f) C v k val s)"
    then show ?thesis ..
  next
    fix s1
    assume al: "alike s s1" and ok1: "heap_ok s1" and
      run: "if \<not> goes_on s TM_NEWINDEX k v
       then assigned C k val (case v of TTable a \<Rightarrow> Here a | _ \<Rightarrow> Bad v) s1 (settable_loop (Suc f) C v k val s)
       else settable_loop (Suc f) C v k val s =
         (if is_function ?v then callTM C ?v v k val s1 else settable_loop f C ?v k val s1)"
    have end_here: ?thesis
      if "route s TM_NEWINDEX k v 0 r" "assigned C k val r s1 (settable_loop (Suc f) C v k val s)" for r
      using that al ok1 by blast
    consider "\<not> goes_on s TM_NEWINDEX k v" | "goes_on s TM_NEWINDEX k v" "is_function ?v"
      | "goes_on s TM_NEWINDEX k v" "\<not> is_function ?v" by blast
    then show ?thesis
    proof cases
      case 1
      then show ?thesis using end_here [OF route_target [OF 1]] run by simp
    next
      case 2
      then show ?thesis using end_here [OF route.handler [OF 2]] run by simp
    next
      case 3
      have step: "route s TM_NEWINDEX k v n r \<longleftrightarrow> (\<exists>m. n = Suc m \<and> route s1 TM_NEWINDEX k ?v m r)" for n r
        using route_further [OF 3] alike_route_iff [OF Suc.prems(1) ok1 al k] by simp
      have run: "settable_loop (Suc f) C v k val s = settable_loop f C ?v k val s1" using run 3 by simp
      have "valid s1 ?v" "valid s1 val"
        using alike_valid [OF al] event_of_valid [OF Suc.prems(1)] Suc.prems(3) by simp_all
      from Suc.IH [OF ok1 this] show ?thesis
      proof (elim disjE exE conjE)
        assume "overflowed s1 (settable_loop f C ?v k val s1)"
        then have "overflowed s (settable_loop (Suc f) C v k val s)"
          unfolding overflowed_def run using alike_trans [OF al] by blast
        then show ?thesis ..
      next
        fix s2 n r assume r: "alike s1 s2" "heap_ok s2" "n < f" "route s1 TM_NEWINDEX k ?v n r"
          "assigned C k val r s2 (settable_loop f C ?v k val s1)"
        then have "Suc n < Suc f" "route s TM_NEWINDEX k v (Suc n) r" by (simp_all add: step)
        then show ?thesis using alike_trans [OF al r(1)] r(2,5) run by metis
      next
        fix s2 assume r: "alike s1 s2" "heap_ok s2" "\<forall>n < f. \<forall>r. \<not> route s1 TM_NEWINDEX k ?v n r"
          "settable_loop f C ?v k val s1 = luaG_runerror ''loop in settable'' s2"
        then have "\<forall>n < Suc f. \<forall>r. \<not> route s TM_NEWINDEX k v n r" by (auto simp: step)
        then show ?thesis using alike_trans [OF al r(1)] r(2,4) run by metis
      qed
    qed
  qed
qed

text \<open>
  Property C11. Reading by index is what the metatables say: \<open>luaV_gettable\<close> ends where the chain
  of \<open>__index\<close> fields ends, with the value of the key in that table, the call of the handler or
  the error for a value that cannot be indexed; when the chain has a hundred values or more it
  raises "loop in gettable". The cache of absent events stays right and nothing else changes.
\<close>

theorem luaV_gettable_follows_chain:
  assumes "heap_ok s" "valid s v" "\<forall>p. k \<noteq> TDeadKey p"
  shows "(\<forall>n r. route s TM_INDEX k v n r \<and> n < 100 \<longrightarrow>
      (\<exists>s'. recached s s' \<and> heap_ok s' \<and> luaV_gettable C v k s = indexed C k r s'))
    \<and> ((\<nexists>n r. route s TM_INDEX k v n r \<and> n < 100) \<longrightarrow>
      (\<exists>s'. recached s s' \<and> heap_ok s' \<and> luaV_gettable C v k s = luaG_runerror ''loop in gettable'' s'))"
  using gettable_follows [OF assms(1,2), of k, where f = 100 and C = C] assms(3)
  unfolding luaV_gettable_def MAXTAGLOOP_def by blast

text \<open>
  Property C12. Assigning by index follows the chain of \<open>__newindex\<close> fields: it stores the value
  in the table where the chain ends, and there only, or calls the handler or raises the error;
  a chain of a hundred values or more raises "loop in settable". The one other result is the
  overflow of a table with more than \<open>2^26\<close> entries. Every table stays well formed, with a cache
  of absent events that is right, also when the key is the name of an event.
\<close>

theorem luaV_settable_follows_chain:
  assumes "heap_ok s" "valid s v" "valid s val" "live k"
  shows "overflowed s (luaV_settable C v k val s)
    \<or> (\<exists>s'. alike s s' \<and> heap_ok s' \<and>
        ((\<exists>n < 100. \<exists>r. route s TM_NEWINDEX k v n r \<and> assigned C k val r s' (luaV_settable C v k val s))
         \<or> (\<nexists>n r. route s TM_NEWINDEX k v n r \<and> n < 100)
           \<and> luaV_settable C v k val s = luaG_runerror ''loop in settable'' s'))"
  using settable_follows [OF assms, of 100 C] unfolding luaV_settable_def MAXTAGLOOP_def by blast

section \<open>A concrete heap\<close>

text \<open>
  Table 1 is empty, its metatable 2 sends the event \<open>e\<close> to table 3, which holds \<open>false\<close> under
  \<open>true\<close>.
\<close>

definition pair_table :: "TValue \<Rightarrow> TValue \<Rightarrow> Table" where
  "pair_table k v = \<lparr>flags = 0, metatable = None, lsizenode = 0, array = [],
     node = [\<lparr>i_val = v, i_key = k, i_next = None\<rparr>], dummy = False, lastfree = 0\<rparr>"

definition sample_heap :: "TMS \<Rightarrow> lua_State" where
  "sample_heap e = \<lparr>stack = [], func = None, ci_top = LUA_MINSTACK,
     tables = [1 \<mapsto> new_table\<lparr>metatable := Some 2\<rparr>, 2 \<mapsto> pair_table (TString (lit (tmname e))) (TTable 3),
       3 \<mapsto> pair_table (TBoolean True) (TBoolean False)],
     closures = Map.empty, udatas = Map.empty, upvals = Map.empty, registry = TTable 1, l_gt = TTable 1,
     g_mt = Map.empty, next_addr = 4\<rparr>"

lemma pair_table_inv: "live k \<Longrightarrow> table_inv (pair_table k v)"
proof -
  assume k: "live k"
  have "mainposition (pair_table k v) k = 0"
    using mainposition_less [of "pair_table k v" k] by (simp add: pair_table_def sizenode_def twoto_def)
  then have "keys_ok (mainposition (pair_table k v)) (node (pair_table k v))" "links_ok (node (pair_table k v))"
    using k by (auto simp: keys_ok_def links_ok_def pair_table_def reaches_def live_def intro!: exI [of _ "[0]"])
  then show ?thesis
    using live_not_nil [OF k] by (simp add: table_inv_def pair_table_def sizenode_def twoto_def arraykey_def)
qed

lemma no_arraykey: "array t = [] \<Longrightarrow> \<not> arraykey t k"
  by (simp add: arraykey_def)

lemma pair_table_content: "content (pair_table k v) k' = (if luaO_rawequalObj k k' then v else TNil)"
  using no_arraykey [of "pair_table k v"] by (simp add: content_def lin_get_def) (simp add: pair_table_def)

lemma new_table_content: "content (new_table\<lparr>metatable := m\<rparr>) k = TNil"
  using no_arraykey [of "new_table\<lparr>metatable := m\<rparr>"]
  by (simp add: content_def lin_get_def) (simp add: new_table_def dummynode_def)

lemma new_table_metatable: "table_inv (new_table\<lparr>metatable := m\<rparr>)"
  using new_table_inv by (simp add: table_inv_def arraykey_def)

lemma sample_heap_ok: "heap_ok (sample_heap e)"
proof -
  have f: "flags_ok (new_table\<lparr>metatable := Some 2\<rparr>)" "flags (pair_table k v) = 0" for k v
    by (simp_all add: flags_ok_def event_field_def new_table_content pair_table_def)
  have m: "metatable (pair_table k v) = None" for k v by (simp add: pair_table_def)
  show ?thesis
    by (auto simp: heap_ok_def sample_heap_def new_table_metatable pair_table_inv f flags_ok_0 new_table_content
        pair_table_content valid_def metatable_at_def m live_def split: if_splits TValue.splits)
qed

lemma sample_heap_route: "route (sample_heap e) e (TBoolean True) (TTable 1) 1 (Here 3)"
proof -
  have ev: "event_of (sample_heap e) e (TTable 1) = TTable 3" "event_of (sample_heap e) e (TTable 3) = TNil"
    by (simp_all add: event_of_def metatable_at_def sample_heap_def event_field_def pair_table_content rawequal_cases
        pair_table_def [of "TBoolean True"])
  then have "\<not> goes_on (sample_heap e) e (TBoolean True) (TTable 3)" "goes_on (sample_heap e) e (TBoolean True) (TTable 1)"
    by (simp_all add: goes_on_def sample_heap_def new_table_content)
  then show ?thesis
    using ev route.further [of "sample_heap e" e "TBoolean True" "TTable 1" 0 "Here 3"]
    by (simp add: route.in_table is_function_def ttype_def LUA_TFUNCTION_def)
qed

theorem luaV_gettable_follows_chain_witness:
  "\<exists>s'. heap_ok s' \<and> luaV_gettable (\<lambda>_ _. undef) (TTable 1) (TBoolean True) (sample_heap TM_INDEX) = Val (TBoolean False) s'"
proof -
  have "valid (sample_heap TM_INDEX) (TTable 1)" by (simp add: valid_def sample_heap_def)
  note G = luaV_gettable_follows_chain [OF sample_heap_ok this, of "TBoolean True" "\<lambda>_ _. undef"]
  have "\<exists>s'. recached (sample_heap TM_INDEX) s' \<and> heap_ok s' \<and> luaV_gettable (\<lambda>_ _. undef) (TTable 1) (TBoolean True)
      (sample_heap TM_INDEX) = indexed (\<lambda>_ _. undef) (TBoolean True) (Here 3) s'"
    by (rule conjunct1 [OF G, rule_format, of 1]) (simp, intro conjI sample_heap_route, simp)
  then obtain s' where s': "recached (sample_heap TM_INDEX) s'" "heap_ok s'"
    "luaV_gettable (\<lambda>_ _. undef) (TTable 1) (TBoolean True) (sample_heap TM_INDEX) = indexed (\<lambda>_ _. undef) (TBoolean True) (Here 3) s'"
    by blast
  have "tables (sample_heap TM_INDEX) 3 = Some (pair_table (TBoolean True) (TBoolean False))" by (simp add: sample_heap_def)
  then have "raw_content s' 3 (TBoolean True) = TBoolean False"
    using recachedD [OF s'(1)] by (force simp: raw_content_def pair_table_content rawequal_cases)
  then show ?thesis using s'(2,3) by auto
qed

theorem luaV_settable_follows_chain_witness:
  "overflowed (sample_heap TM_NEWINDEX) (luaV_settable (\<lambda>_ _. undef) (TTable 1) (TBoolean True) TNil (sample_heap TM_NEWINDEX))
   \<or> (\<exists>s' s''. luaV_settable (\<lambda>_ _. undef) (TTable 1) (TBoolean True) TNil (sample_heap TM_NEWINDEX) = Val () s''
        \<and> alike (sample_heap TM_NEWINDEX) s' \<and> set_in s' 3 (TBoolean True) TNil s'' \<and> heap_ok s'')"
proof -
  let ?r = "luaV_settable (\<lambda>_ _. undef) (TTable 1) (TBoolean True) TNil (sample_heap TM_NEWINDEX)"
  have "valid (sample_heap TM_NEWINDEX) (TTable 1)" "live (TBoolean True)" by (simp_all add: valid_def sample_heap_def live_def)
  from luaV_settable_follows_chain [OF sample_heap_ok this(1) valid_TNil this(2), of "\<lambda>_ _. undef"]
  consider "overflowed (sample_heap TM_NEWINDEX) ?r"
    | s' n r where "alike (sample_heap TM_NEWINDEX) s'" "route (sample_heap TM_NEWINDEX) TM_NEWINDEX (TBoolean True) (TTable 1) n r"
        "assigned (\<lambda>_ _. undef) (TBoolean True) TNil r s' ?r"
    using sample_heap_route [of TM_NEWINDEX] by fastforce
  then show ?thesis
  proof cases
    case 2
    then have "r = Here 3" using route_deterministic [OF sample_heap_route] by blast
    then show ?thesis using 2 by auto
  qed blast
qed

end
