(* ===== verification/IntKeys.thy ===== *)
theory IntKeys
  imports Traverse
begin

text \<open>
  Tables with integer keys, as an interface: \<open>int_store\<close> is what \<open>lua_rawgeti\<close> and
  \<open>lua_rawseti\<close> promise their clients, with its instance on the tables of \<open>ltable.c\<close>. The
  clients are the block move of \<open>jnlua.c\<close> and the references of \<open>lauxlib.c\<close>.
\<close>

section \<open>The interface\<close>

text \<open>
  \<open>room n t\<close>: \<open>n\<close> more stores will not fail. Only keys of type \<open>int\<close> are used; \<open>rest\<close> is
  what stores under such keys leave alone.
\<close>

definition int_key :: "int \<Rightarrow> bool" where
  "int_key i \<longleftrightarrow> - (2 ^ 31) \<le> i \<and> i < 2 ^ 31"

lemma int_key_0 [simp]: "int_key 0" by (simp add: int_key_def)

locale int_store =
  fixes lookup :: "'t \<Rightarrow> int \<Rightarrow> 'v" and store :: "'t \<Rightarrow> int \<Rightarrow> 'v \<Rightarrow> 't" and room :: "nat \<Rightarrow> 't \<Rightarrow> bool"
    and rest :: "'t \<Rightarrow> 'r"
  assumes room_store: "room (Suc n) t \<Longrightarrow> int_key i \<Longrightarrow> room n (store t i v)"
    and lookup_store: "room (Suc n) t \<Longrightarrow> int_key i \<Longrightarrow> int_key j \<Longrightarrow>
      lookup (store t i v) j = (if j = i then v else lookup t j)"
    and rest_store: "room (Suc n) t \<Longrightarrow> int_key i \<Longrightarrow> rest (store t i v) = rest t"
begin

text \<open>
  Moving the values at \<open>from + i\<close> to \<open>to + i\<close> for the \<open>i\<close> in a list: what an element reads must
  not have been overwritten.
\<close>

lemma move_list:
  assumes "room (length is + n) t" "distinct is"
    and "\<And>i. i \<in> set is \<Longrightarrow> int_key (from + i) \<and> int_key (to + i)"
    and "sorted_wrt (\<lambda>i i'. to + i \<noteq> from + i') is"
  shows "room n (foldl (\<lambda>t i. store t (to + i) (lookup t (from + i))) t is)"
    and "rest (foldl (\<lambda>t i. store t (to + i) (lookup t (from + i))) t is) = rest t"
    and "int_key j \<Longrightarrow> lookup (foldl (\<lambda>t i. store t (to + i) (lookup t (from + i))) t is) j =
      (if j - to \<in> set is then lookup t (from + (j - to)) else lookup t j)"
proof -
  have "room n (foldl (\<lambda>t i. store t (to + i) (lookup t (from + i))) t is)
    \<and> rest (foldl (\<lambda>t i. store t (to + i) (lookup t (from + i))) t is) = rest t
    \<and> (\<forall>j. int_key j \<longrightarrow> lookup (foldl (\<lambda>t i. store t (to + i) (lookup t (from + i))) t is) j =
      (if j - to \<in> set is then lookup t (from + (j - to)) else lookup t j))"
    using assms
  proof (induction "is" arbitrary: t)
    case (Cons i "is")
    let ?t = "store t (to + i) (lookup t (from + i))"
    have k: "int_key (from + i)" "int_key (to + i)" using Cons.prems(3) by simp_all
    have r: "room (Suc (length is + n)) t" using Cons.prems(1) by simp
    have "room (length is + n) ?t" by (rule room_store [OF r k(2)])
    note IH = Cons.IH [OF this]
    have get: "lookup ?t j = (if j = to + i then lookup t (from + i) else lookup t j)" if "int_key j" for j
      by (rule lookup_store [OF r k(2) that])
    have unread: "from + i' \<noteq> to + i" "int_key (from + i')" if "i' \<in> set is" for i'
      using Cons.prems(3,4) that by auto
    show ?case
    proof (intro conjI allI impI)
      show "room n (foldl (\<lambda>t i. store t (to + i) (lookup t (from + i))) t (i # is))"
        "rest (foldl (\<lambda>t i. store t (to + i) (lookup t (from + i))) t (i # is)) = rest t"
        using IH Cons.prems rest_store [OF r k(2)] by simp_all
      fix j assume j: "int_key j"
      show "lookup (foldl (\<lambda>t i. store t (to + i) (lookup t (from + i))) t (i # is)) j =
        (if j - to \<in> set (i # is) then lookup t (from + (j - to)) else lookup t j)"
      proof (cases "j - to \<in> set is")
        case True
        then show ?thesis using IH Cons.prems j get [OF unread(2) [OF True]] unread(1) [OF True] by simp
      next
        case False
        then show ?thesis using IH Cons.prems j get [OF j] by auto
      qed
    qed
  qed simp
  then show "room n (foldl (\<lambda>t i. store t (to + i) (lookup t (from + i))) t is)"
    and "rest (foldl (\<lambda>t i. store t (to + i) (lookup t (from + i))) t is) = rest t"
    and "int_key j \<Longrightarrow> lookup (foldl (\<lambda>t i. store t (to + i) (lookup t (from + i))) t is) j =
      (if j - to \<in> set is then lookup t (from + (j - to)) else lookup t j)" by auto
qed

text \<open>
  Upwards when the target is below the source and downwards when it is above, the move is
  right also when the two blocks overlap.
\<close>

lemma move_block:
  assumes "room (nat cnt + n) t" "0 \<le> cnt"
    and "\<And>i. 0 \<le> i \<Longrightarrow> i < cnt \<Longrightarrow> int_key (from + i) \<and> int_key (to + i)"
    and "is = [0..cnt - 1] \<and> to < from \<or> is = rev [0..cnt - 1] \<and> from < to"
  shows "room n (foldl (\<lambda>t i. store t (to + i) (lookup t (from + i))) t is)"
    and "rest (foldl (\<lambda>t i. store t (to + i) (lookup t (from + i))) t is) = rest t"
    and "int_key j \<Longrightarrow> lookup (foldl (\<lambda>t i. store t (to + i) (lookup t (from + i))) t is) j =
      (if to \<le> j \<and> j < to + cnt then lookup t (from + (j - to)) else lookup t j)"
proof -
  have up: "sorted_wrt (<) [0..cnt - 1]" by (simp add: sorted_wrt_upto)
  have s: "sorted_wrt (\<lambda>i i'. to + i \<noteq> from + i') is"
    using assms(4)
  proof (elim disjE conjE)
    assume i: "is = [0..cnt - 1]" "to < from"
    show ?thesis unfolding i(1) by (rule sorted_wrt_mono_rel [OF _ up]) (use i(2) in simp)
  next
    assume i: "is = rev [0..cnt - 1]" "from < to"
    show ?thesis unfolding i(1) sorted_wrt_rev by (rule sorted_wrt_mono_rel [OF _ up]) (use i(2) in simp)
  qed
  have "length is = nat cnt" "distinct is" and set: "set is = {0..cnt - 1}" using assms(2,4) by auto
  note M = move_list [OF _ this(2) _ s, of n t]
  show "room n (foldl (\<lambda>t i. store t (to + i) (lookup t (from + i))) t is)"
    and "rest (foldl (\<lambda>t i. store t (to + i) (lookup t (from + i))) t is) = rest t"
    by (rule M(1,2); use assms(1,3) \<open>length is = nat cnt\<close> set in auto)+
  show "int_key j \<Longrightarrow> lookup (foldl (\<lambda>t i. store t (to + i) (lookup t (from + i))) t is) j =
      (if to \<le> j \<and> j < to + cnt then lookup t (from + (j - to)) else lookup t j)"
    by (subst M(3)) (use assms(1,3) \<open>length is = nat cnt\<close> set in auto)
qed

end

section \<open>The instance\<close>

definition geti :: "Table \<Rightarrow> int \<Rightarrow> TValue" where
  "geti t i = lookup_val t (luaH_getnum t i)"

definition seti :: "Table \<Rightarrow> int \<Rightarrow> TValue \<Rightarrow> Table" where
  "seti t i v = (case luaH_setnum t i of Ok (t', p) \<Rightarrow> put_slot t' p v | _ \<Rightarrow> t)"

definition int_room :: "nat \<Rightarrow> Table \<Rightarrow> bool" where
  "int_room n t \<longleftrightarrow> table_inv t \<and> total_use t + n \<le> MAXASIZE + 1"

lemma getnum_get:
  assumes "int_key i"
  shows "luaH_getnum t i = luaH_get t (TNumber (cast_num i))"
proof -
  have "\<bar>i\<bar> \<le> 2 ^ 31" using assms by (auto simp: int_key_def)
  then have "lua_number2int (cast_num i) = i" "luai_numeq (cast_num i) (cast_num i)"
    using number2int_cast_num [of i] cast_num_not_nan [of i] assms by (simp_all add: int_key_def numeq_refl)
  then show ?thesis by (simp add: luaH_get_def Let_def)
qed

lemma live_int_key: "int_key i \<Longrightarrow> live (TNumber (cast_num i))"
proof -
  assume "int_key i"
  then have "\<bar>i\<bar> \<le> 2 ^ 31" by (auto simp: int_key_def)
  then show ?thesis using cast_num_not_nan by (simp add: live_def)
qed

lemma geti_content: "table_inv t \<Longrightarrow> int_key i \<Longrightarrow> geti t i = content t (TNumber (cast_num i))"
  using luaH_get_linear_core [of t "TNumber (cast_num i)"] by (simp add: geti_def getnum_get)

lemma getnum_not_Endless: "table_inv t \<Longrightarrow> int_key i \<Longrightarrow> luaH_getnum t i \<noteq> Endless"
  using luaH_get_linear_core [of t "TNumber (cast_num i)"] by (simp add: getnum_get)

lemma rawequal_int_key:
  "int_key i \<Longrightarrow> int_key j \<Longrightarrow> luaO_rawequalObj (TNumber (cast_num i)) (TNumber (cast_num j)) \<longleftrightarrow> i = j"
  using numeq_cast_num [of i j] by (simp add: rawequal_cases int_key_def)

lemma setnum_locate_all:
  assumes "int_key i"
  shows "setnum_with full t i = locate full t (TNumber (cast_num i))"
  unfolding setnum_with_def locate_def getnum_get [OF assms] ..

text \<open>How many entries a store adds.\<close>

definition key_class :: "TValue \<Rightarrow> TValue set" where
  "key_class k = {x. luaO_rawequalObj x k}"

lemma key_class_eq: "live a \<Longrightarrow> key_class a = key_class b \<longleftrightarrow> luaO_rawequalObj a b"
  using live_refl [of a] rawequal_sym rawequal_trans unfolding key_class_def by blast

lemma pairs_live: "table_inv t \<Longrightarrow> p \<in> set (pairs t) \<Longrightarrow> live (fst p) \<and> snd p \<noteq> TNil"
  using table_invD(2,3) [of t] int_key content_filled(1) [of t]
  by (auto simp: pairs_def array_pairs_def node_pairs_def filled_def)

lemma distinct_sorted_wrt: "sorted_wrt (\<lambda>a b. f a \<noteq> f b) xs \<Longrightarrow> distinct (map f xs)"
  by (induction xs) auto

definition classes :: "Table \<Rightarrow> TValue set set" where
  "classes t = {key_class k | k. live k \<and> content t k \<noteq> TNil}"

lemma classes_pairs:
  assumes "table_inv t"
  shows "classes t = (key_class \<circ> fst) ` set (pairs t)"
  unfolding classes_def
proof safe
  fix a b assume p: "(a, b) \<in> set (pairs t)"
  then have a: "live a" "b \<noteq> TNil" using pairs_live [OF assms p] by simp_all
  have "content t a = b" using pairs_content [OF assms a(1), of b] p live_refl [OF a(1)] by blast
  then show "\<exists>k. (key_class \<circ> fst) (a, b) = key_class k \<and> live k \<and> content t k \<noteq> TNil" using a by auto
next
  fix k assume k: "live k" "content t k \<noteq> TNil"
  then obtain k' where k': "luaO_rawequalObj k' k" "(k', content t k) \<in> set (pairs t)"
    using pairs_content [OF assms k(1), of "content t k"] by blast
  then have "key_class k = (key_class \<circ> fst) (k', content t k)"
    using key_class_eq [OF k(1)] rawequal_sym by auto
  then show "key_class k \<in> (key_class \<circ> fst) ` set (pairs t)" using k'(2) by (rule image_eqI)
qed

lemma card_classes:
  assumes "table_inv t"
  shows "card (classes t) = length (pairs t)" "finite (classes t)"
proof -
  have "distinct (map (key_class \<circ> fst) (pairs t))"
    by (rule distinct_sorted_wrt, rule sorted_wrt_mono_rel [OF _ pairs_distinct [OF assms]])
      (use pairs_live [OF assms] key_class_eq in auto)
  then show "card (classes t) = length (pairs t)"
    using distinct_card unfolding classes_pairs [OF assms] by fastforce
  show "finite (classes t)" unfolding classes_pairs [OF assms] by simp
qed

lemma total_use_pairs: "table_inv t \<Longrightarrow> total_use t = Suc (length (pairs t))"
proof -
  assume "table_inv t"
  then have "filled (node t) = set (filter (\<lambda>j. i_val (node t ! j) \<noteq> TNil) [0..<sizenode t])"
    using table_invD(2) [of t] by (auto simp: filled_def)
  then have "length (node_pairs t) = card (filled (node t))"
    using distinct_card [of "filter (\<lambda>j. i_val (node t ! j) \<noteq> TNil) [0..<sizenode t]"]
    by (simp add: node_pairs_def del: set_filter)
  moreover have "length (array_pairs t) = card (array_indices (array t))"
  proof -
    have "array_indices (array t) = Suc ` set (filter (\<lambda>i. array t ! i \<noteq> TNil) [0..<length (array t)])"
    proof safe
      fix i assume "i \<in> array_indices (array t)"
      then show "i \<in> Suc ` set (filter (\<lambda>i. array t ! i \<noteq> TNil) [0..<length (array t)])"
        by (intro image_eqI [of _ _ "i - 1"]) (auto simp: array_indices_def)
    qed (auto simp: array_indices_def)
    then show ?thesis
      using distinct_card [of "filter (\<lambda>i. array t ! i \<noteq> TNil) [0..<length (array t)]"]
      by (simp add: array_pairs_def card_image)
  qed
  ultimately show ?thesis by (simp add: total_use_def pairs_def)
qed

lemma total_use_store:
  assumes "table_inv t" "table_inv t'" "\<And>k'. live k' \<Longrightarrow> \<not> luaO_rawequalObj k k' \<Longrightarrow> content t' k' = content t k'"
  shows "total_use t' \<le> Suc (total_use t)"
proof -
  have "classes t' \<subseteq> insert (key_class k) (classes t)"
  proof
    fix c assume "c \<in> classes t'"
    then obtain k' where k': "c = key_class k'" "live k'" "content t' k' \<noteq> TNil" by (auto simp: classes_def)
    show "c \<in> insert (key_class k) (classes t)"
    proof (cases "luaO_rawequalObj k k'")
      case True
      then show ?thesis using k'(1) key_class_eq [OF k'(2)] rawequal_sym by auto
    next
      case False
      then show ?thesis using k' assms(3) by (auto simp: classes_def)
    qed
  qed
  then have "card (classes t') \<le> card (insert (key_class k) (classes t))"
    using card_classes(2) [OF assms(1)] by (intro card_mono) simp_all
  also have "\<dots> \<le> Suc (card (classes t))" using card_classes(2) [OF assms(1)] by (simp add: card_insert_if)
  finally show ?thesis using card_classes(1) assms(1,2) total_use_pairs by simp
qed

lemma setnum_run:
  assumes "int_room (Suc n) t" "int_key i"
  obtains t' p where "luaH_setnum t i = Ok (t', p)" "assigns t (TNumber (cast_num i)) t' p"
proof -
  have "table_inv t" "\<not> MAXASIZE < total_use t" using assms(1) by (simp_all add: int_room_def)
  then show thesis
    using locate_full [of t "TNumber (cast_num i)" 0] live_int_key [OF assms(2)] that
    by (auto simp: luaH_setnum_def setnum_locate_all [OF assms(2)])
qed

text \<open>The metatable, and the values under the keys that are no \<open>int\<close>.\<close>

definition other_keys :: "Table \<Rightarrow> u64 option \<times> (TValue \<Rightarrow> TValue)" where
  "other_keys t = (metatable t, \<lambda>k. if live k \<and> (\<forall>i. int_key i \<longrightarrow> \<not> luaO_rawequalObj (TNumber (cast_num i)) k)
     then content t k else TNil)"

lemma assignsM: "assigns t k t' p \<Longrightarrow> metatable (put_slot t' p v) = metatable t"
  by (simp add: assigns_def)

interpretation tables: int_store geti seti int_room other_keys
proof unfold_locales
  fix n :: nat and t :: Table and i :: int and v :: TValue
  assume r: "int_room (Suc n) t" and i: "int_key i"
  obtain t' p where t': "luaH_setnum t i = Ok (t', p)" "assigns t (TNumber (cast_num i)) t' p"
    using setnum_run [OF r i] .
  then have s: "seti t i v = put_slot t' p v" by (simp add: seti_def)
  have inv: "table_inv t" "table_inv (put_slot t' p v)"
    and c: "\<And>k'. live k' \<Longrightarrow> content (put_slot t' p v) k' =
      (if luaO_rawequalObj (TNumber (cast_num i)) k' then v else content t k')"
    using t'(2) r by (auto simp: assigns_def int_room_def)
  have "total_use (put_slot t' p v) \<le> Suc (total_use t)"
    by (rule total_use_store [OF inv, of "TNumber (cast_num i)"]) (use c in simp)
  then show "int_room n (seti t i v)" using r inv(2) by (simp add: int_room_def s)
  show "other_keys (seti t i v) = other_keys t"
    using c i assignsM [OF t'(2)] by (auto simp: other_keys_def s fun_eq_iff)
  fix j assume j: "int_key j"
  show "geti (seti t i v) j = (if j = i then v else geti t j)"
    using inv c [OF live_int_key [OF j]] rawequal_int_key [OF i j] by (auto simp: s geti_content j)
qed

end
