(* ===== verification/IntTables.thy ===== *)
theory IntTables
  imports IntKeys JniTables
begin

text \<open>
  The clients of integer keys: \<open>LuaState.tableMove\<close>, a block move, and the references of
  \<open>luaL_ref\<close> and \<open>luaL_unref\<close>.
\<close>

section \<open>Raw access by integer\<close>

lemma rawgeti_run:
  assumes "index_value ix s = Val (TTable h) s" "tables s h = Some t" "table_inv t" "int_key i" "length (stack s) < ci_top s"
  shows "lua_rawgeti ix i s = Val () (s\<lparr>stack := stack s @ [geti t i]\<rparr>)"
  using assms getnum_not_Endless [OF assms(3,4)]
  by (simp add: lua_rawgeti_def bnd_def hvalue_def lookup_prog_def geti_def push_run)

lemma rawseti_run:
  assumes "stack s = xs @ [v]" "index_value ix s = Val (TTable h) s" "tables s h = Some t" "int_room (Suc n) t" "int_key i"
  shows "lua_rawseti ix i s = Val () (s\<lparr>tables := (tables s)(h \<mapsto> seti t i v), stack := xs\<rparr>)"
proof -
  obtain t' p where "luaH_setnum t i = Ok (t', p)" using setnum_run [OF assms(4,5)] by metis
  moreover have "top_value (Suc 0) s = Val v s" by (rule top_value_top(1) [OF assms(1)])
  ultimately show ?thesis
    using assms(1-3)
    by (simp add: lua_rawseti_def bnd_def seq_def hvalue_def seti_def put_table_def drop_top_def)
qed

lemma same_stack: "stack s = xs \<Longrightarrow> s\<lparr>tables := T, stack := xs\<rparr> = s\<lparr>tables := T\<rparr>"
proof -
  assume "stack s = xs"
  then have "s\<lparr>stack := xs\<rparr> = s" by simp
  moreover have "s\<lparr>tables := T, stack := xs\<rparr> = (s\<lparr>stack := xs\<rparr>)\<lparr>tables := T\<rparr>" by simp
  ultimately show ?thesis by (simp only:)
qed

lemma rawseti_after:
  assumes "stack s = TTable h # xs @ [v]" "t1 = t2" "int_room (Suc n) t1" "int_key i"
  shows "lua_rawseti 1 i (s\<lparr>tables := (tables s)(h \<mapsto> t2)\<rparr>) =
    Val () (s\<lparr>tables := (tables s)(h \<mapsto> seti t1 i v), stack := TTable h # xs\<rparr>)"
proof -
  let ?s = "s\<lparr>tables := (tables s)(h \<mapsto> t2)\<rparr>"
  have "index_value 1 ?s = Val (TTable h) ?s" by (rule index_value_arg) (simp add: assms(1))
  moreover have "tables ?s h = Some t1" by (simp add: assms(2))
  moreover have "stack ?s = (TTable h # xs) @ [v]" by (simp add: assms(1))
  ultimately show ?thesis using rawseti_run [of ?s "TTable h # xs" v 1 h t1 n i] assms(3,4) by simp
qed

section \<open>Moving a block\<close>

lemma tablemove_loop_run:
  assumes "stack s = [TTable h]" "tables s h = Some t" "int_room (length is) t" "1 < ci_top s"
    and "\<And>i. i \<in> set is \<Longrightarrow> int_key (from + i) \<and> int_key (to + i)"
  shows "tablemove_loop is from to s =
    Val () (s\<lparr>tables := (tables s)(h \<mapsto> foldl (\<lambda>t i. seti t (to + i) (geti t (from + i))) t is)\<rparr>)"
  using assms
proof (induction "is" arbitrary: s t)
  case Nil
  then show ?case by (simp add: fun_upd_idem)
next
  case (Cons i "is")
  have k: "int_key (from + i)" "int_key (to + i)" using Cons.prems(5) by simp_all
  then have c: "to_int (from + i) = from + i" "to_int (to + i) = to + i"
    by (simp_all add: int_key_def to_int_id)
  have inv: "table_inv t" using Cons.prems(3) by (simp add: int_room_def)
  have r: "int_room (Suc (length is)) t" using Cons.prems(3) by simp
  let ?s1 = "s\<lparr>stack := [TTable h, geti t (from + i)]\<rparr>"
  have "lua_rawgeti 1 (from + i) s = Val () ?s1"
    using rawgeti_run [OF index_value_arg [OF Cons.prems(1)] Cons.prems(2) inv k(1)] Cons.prems(1,4) by simp
  moreover have "lua_rawseti 1 (to + i) ?s1 =
      Val () (s\<lparr>tables := (tables s)(h \<mapsto> seti t (to + i) (geti t (from + i)))\<rparr>)"
    using Cons.prems(1,2)
    by (subst rawseti_run [where xs = "[TTable h]", OF _ index_value_arg _ r k(2)]) (simp_all add: same_stack)
  ultimately show ?case
    using Cons.IH [of "s\<lparr>tables := (tables s)(h \<mapsto> seti t (to + i) (geti t (from + i)))\<rparr>" "seti t (to + i) (geti t (from + i))"]
      Cons.prems tables.room_store [OF r k(2)]
    by (simp add: seq_def bnd_def c cong: if_cong)
qed

text \<open>What \<open>tablemove_protected\<close> leaves of the table.\<close>

definition move_in :: "int \<Rightarrow> int \<Rightarrow> int \<Rightarrow> Table \<Rightarrow> Table" where
  "move_in from to cnt t = foldl (\<lambda>t i. seti t (to + i) (geti t (from + i))) t
     (if from < to then rev [0..cnt - 1] else if to < from then [0..cnt - 1] else [])"

lemma tablemove_protected_run:
  assumes "stack s = [TTable h]" "tables s h = Some t" "int_room (nat cnt) t" "1 < ci_top s"
    and "\<And>i. 0 \<le> i \<Longrightarrow> i < cnt \<Longrightarrow> int_key (from + i) \<and> int_key (to + i)"
    and "tablemove_from (vars s) = from" "tablemove_to (vars s) = to" "tablemove_count (vars s) = cnt"
  shows "tablemove_protected s = Val 0 (s\<lparr>tables := (tables s)(h \<mapsto> move_in from to cnt t)\<rparr>)"
proof -
  have "tablemove_loop is from to s = Val () (s\<lparr>tables := (tables s)(h \<mapsto> foldl (\<lambda>t i. seti t (to + i) (geti t (from + i))) t is)\<rparr>)"
    if "is = [0..cnt - 1] \<or> is = rev [0..cnt - 1]" for "is"
    by (rule tablemove_loop_run [OF assms(1,2) _ assms(4)]) (use that assms(3,5) in auto)
  then show ?thesis
    using assms(2,6-8) by (simp add: tablemove_protected_def bnd_def seq_def var_def move_in_def fun_upd_idem)
qed

lemma move_in_spec:
  assumes "int_room (nat cnt) t" "0 \<le> cnt"
    and "\<And>i. 0 \<le> i \<Longrightarrow> i < cnt \<Longrightarrow> int_key (from + i) \<and> int_key (to + i)"
  shows "table_inv (move_in from to cnt t)" "other_keys (move_in from to cnt t) = other_keys t"
    "int_key j \<Longrightarrow> geti (move_in from to cnt t) j =
      (if to \<le> j \<and> j < to + cnt then geti t (from + (j - to)) else geti t j)"
proof -
  define ks where "ks = (if from < to then rev [0..cnt - 1] else [0..cnt - 1])"
  have r: "int_room (nat cnt + 0) t" using assms(1) by simp
  have "table_inv (move_in from to cnt t) \<and> other_keys (move_in from to cnt t) = other_keys t \<and>
    (int_key j \<longrightarrow> geti (move_in from to cnt t) j =
      (if to \<le> j \<and> j < to + cnt then geti t (from + (j - to)) else geti t j))"
  proof (cases "from = to")
    case True
    then show ?thesis using assms(1) by (simp add: move_in_def int_room_def)
  next
    case False
    then have m: "move_in from to cnt t = foldl (\<lambda>t i. seti t (to + i) (geti t (from + i))) t ks"
      and o: "ks = [0..cnt - 1] \<and> to < from \<or> ks = rev [0..cnt - 1] \<and> from < to"
      by (auto simp: move_in_def ks_def)
    show ?thesis
      unfolding m using tables.move_block [OF r assms(2,3) o] by (simp add: int_room_def)
  qed
  then show "table_inv (move_in from to cnt t)" "other_keys (move_in from to cnt t) = other_keys t"
    "int_key j \<Longrightarrow> geti (move_in from to cnt t) j =
      (if to \<le> j \<and> j < to + cnt then geti t (from + (j - to)) else geti t j)" by blast+
qed

text \<open>
  Property C27. \<open>LuaState.tableMove\<close> moves a block of values like \<open>memmove\<close>, also when source and
  target overlap: afterwards the keys from \<open>to\<close> on hold the \<open>cnt\<close> values that were under the
  keys from \<open>from\<close> on, every other key (integer or not) holds what it held, and the metatable,
  the stack and the other tables are as before.
\<close>

theorem jni_tablemove_moves:
  assumes "ready (Suc m) s" "names s 0 index (TTable h)" "tables s h = Some t" "int_room (nat cnt) t" "0 \<le> cnt"
    and "\<forall>i. 0 \<le> i \<and> i < cnt \<longrightarrow> int_key (from + i) \<and> int_key (to + i)"
  shows "\<exists>s' t'. jni_tablemove H (jcall H (Suc d)) index from to cnt s = Val () s'
    \<and> stack s' = stack s \<and> exn s' = exn s \<and> tables s' = (tables s)(h \<mapsto> t') \<and> table_inv t'
    \<and> other_keys t' = other_keys t
    \<and> (\<forall>j. int_key j \<longrightarrow> geti t' j = (if to \<le> j \<and> j < to + cnt then geti t (from + (j - to)) else geti t j))"
proof -
  note r = assms(1) and nm = assms(2)
  have ks: "\<And>i. 0 \<le> i \<Longrightarrow> i < cnt \<Longrightarrow> int_key (from + i) \<and> int_key (to + i)" using assms(6) by blast
  obtain e where e: "getcurrenv s = Val e s" using readyD(6) [OF r] by blast
  let ?v = "(vars s)\<lparr>tablemove_from := from, tablemove_to := to, tablemove_count := cnt\<rparr>"
  let ?s = "s\<lparr>vars := ?v\<rparr>"
  have r': "ready (Suc m) ?s" "names ?s 0 index (TTable h)" "getcurrenv ?s = Val e ?s"
    using r nm e by (auto simp: ready_def names_def getcurrenv_iff split: option.splits)
  let ?fr = "enter_frame (next_addr ?s) [TTable h] (with_closure Tablemove_protected e ?s)"
  let ?fr' = "?fr\<lparr>tables := (tables s)(h \<mapsto> move_in from to cnt t)\<rparr>"
  have "run_c H (jcall H d) Tablemove_protected ?fr = Val 0 ?fr'"
    using tablemove_protected_run [of ?fr h t cnt "from" to] assms(3,4) ks
    by (simp add: enter_frame_def with_closure_def LUA_MINSTACK_def)
  then have c: "call_on H (jcall H (Suc d)) Tablemove_protected index 0 (roomy ?s) =
      Val () (leave_frame (roomy ?s) (stack ?s @ luaD_poscall (drop (length (stack ?fr') - nat 0) (stack ?fr')) 0) ?fr')"
    by (intro call_on_Val(1) [OF r'(1,2)]) (use r'(3) in \<open>simp_all add: LUA_MULTRET_def\<close>)
  have "jni_tablemove H (jcall H (Suc d)) index from to cnt s = Val () (leave_frame (roomy ?s) (stack s) ?fr')"
  proof -
    have "checktype index LUA_TTABLE (roomy s) = Val True (roomy s)"
      using checktype_run [of "roomy s" 0 index "TTable h" LUA_TTABLE] nm readyD(2) [OF r]
      by (simp add: ttype_def LUA_TTABLE_def)
    moreover have "checkarg (0 \<le> cnt) msg (roomy s) = Val True (roomy s)" for msg
      using assms(5) by (simp add: checkarg_def check_def)
    ultimately have "guarded [checkstack JNLUA_MINSTACK, checktype index LUA_TTABLE, checkarg (0 \<le> cnt) ''illegal count''] body s
        = body (roomy s)" for body
      using readyD(3) [OF r] by (simp add: guarded_def both_def bnd_def)
    moreover have "roomy ?s = (roomy s)\<lparr>vars := ?v\<rparr>" by (simp add: roomy_def)
    ultimately show ?thesis
      using c by (simp add: jni_tablemove_def enter_run [OF readyD(1) [OF r]] seq_def bnd_def set_var_def
          luaD_poscall_def LUA_MULTRET_def)
  qed
  then show ?thesis
    using move_in_spec [OF assms(4,5) ks]
    by (intro exI [of _ "leave_frame (roomy ?s) (stack s) ?fr'"] exI [of _ "move_in from to cnt t"])
      (simp add: leave_frame_def enter_frame_def with_closure_def)
qed

section \<open>A concrete table\<close>

text \<open>A thread whose table 1 is the list of one value.\<close>

definition slot_state :: "TValue list \<Rightarrow> jstate" where
  "slot_state st = (sample_state st)\<lparr>tables := [1 \<mapsto> one_slot]\<rparr>"

lemma slot_state_ready: "length st \<le> 100 \<Longrightarrow> m \<le> 1000 \<Longrightarrow> ready m (slot_state st)"
  using sample_ready [of st m] by (simp add: ready_def slot_state_def getcurrenv_iff split: option.splits)

lemma slot_state_names: "names (slot_state [TTable 1]) 0 1 (TTable 1)"
  using sample_names [of 0 0 "[TTable 1]"] by (simp add: names_def slot_state_def sample_state_def)

lemma one_slot_room: "int_room 2 one_slot"
proof -
  have "pairs one_slot = [(TNumber (cast_num 1), TBoolean True)]"
    by (simp add: pairs_def array_pairs_def node_pairs_def one_slot_def new_table_def dummynode_def sizenode_def twoto_def)
  then show ?thesis using total_use_pairs [OF one_slot_inv] one_slot_inv by (simp add: int_room_def MAXASIZE_def MAXBITS_def)
qed

lemma arrayindex_0: "arrayindex (TNumber (cast_num 0)) = 0"
  using number2int_cast_num [of 0] cast_num_not_nan [of 0] by (simp add: arrayindex_def Let_def numeq_refl)

lemma one_slot_geti: "geti one_slot 1 = TBoolean True" "geti one_slot 0 = TNil"
proof -
  have a: "array one_slot = [TBoolean True]" "node one_slot = [dummynode]" by (simp_all add: one_slot_def new_table_def)
  have "int_key 1" by (simp add: int_key_def)
  moreover have "arrayindex (TNumber (cast_num 1)) = 1" by (rule arrayindex_int) simp_all
  ultimately show "geti one_slot 1 = TBoolean True"
    using geti_content [OF one_slot_inv] a by (simp add: content_def arraykey_def)
  show "geti one_slot 0 = TNil"
    using arrayindex_0 geti_content [OF one_slot_inv int_key_0] a by (simp add: content_def arraykey_def lin_get_def dummynode_def)
qed

theorem jni_tablemove_moves_witness:
  "\<exists>s' t'. jni_tablemove sample_jni (jcall sample_jni 1) 1 1 2 1 (slot_state [TTable 1]) = Val () s'
    \<and> tables s' 1 = Some t' \<and> geti t' 2 = TBoolean True"
proof -
  have k: "\<forall>i. 0 \<le> i \<and> i < 1 \<longrightarrow> int_key (1 + i) \<and> int_key (2 + i)" by (simp add: int_key_def)
  have r: "int_room (nat 1) one_slot" using one_slot_room by (simp add: int_room_def)
  have t: "tables (slot_state [TTable 1]) 1 = Some one_slot" by (simp add: slot_state_def)
  have "ready (Suc 0) (slot_state [TTable 1])" by (rule slot_state_ready) simp_all
  from jni_tablemove_moves [OF this slot_state_names t r _ k, of sample_jni 0]
  obtain s' t' where "jni_tablemove sample_jni (jcall sample_jni 1) 1 1 2 1 (slot_state [TTable 1]) = Val () s'"
    "tables s' = (tables (slot_state [TTable 1]))(1 \<mapsto> t')"
    "\<And>j. int_key j \<Longrightarrow> geti t' j = (if 2 \<le> j \<and> j < 2 + 1 then geti one_slot (1 + (j - 2)) else geti one_slot j)"
    by auto
  moreover have "int_key 2" by (simp add: int_key_def)
  ultimately show ?thesis using one_slot_geti(1) by (intro exI [of _ s'] exI [of _ t']) simp
qed

end
