(* ===== verification/Refs.thy ===== *)
theory Refs
  imports IntTables
begin

text \<open>
  References (\<open>luaL_ref\<close>, \<open>luaL_unref\<close>): an allocator of integer keys in a table. The freed
  keys are linked through their own places, from key 0 on; without a freed key the next one is
  the border of the table plus one.
\<close>

section \<open>The allocator\<close>

text \<open>The free list that starts with a value.\<close>

primrec linked :: "(int \<Rightarrow> 'v) \<Rightarrow> ('v \<Rightarrow> bool) \<Rightarrow> (int \<Rightarrow> 'v) \<Rightarrow> 'v \<Rightarrow> int list \<Rightarrow> bool" where
  "linked look fin num v [] \<longleftrightarrow> fin v"
| "linked look fin num v (r # rs) \<longleftrightarrow> v = num r \<and> 0 < r \<and> int_key r \<and> linked look fin num (look r) rs"

text \<open>The references in use, with values, and the freed ones.\<close>

definition refs_ok :: "(int \<Rightarrow> 'v) \<Rightarrow> ('v \<Rightarrow> bool) \<Rightarrow> (int \<Rightarrow> 'v) \<Rightarrow> 'v \<Rightarrow> int set \<Rightarrow> int list \<Rightarrow> bool" where
  "refs_ok look fin num nil R fl \<longleftrightarrow> linked look fin num (look 0) fl \<and> distinct fl \<and> R \<inter> set fl = {}
     \<and> (\<forall>r \<in> R. 0 < r \<and> int_key r \<and> look r \<noteq> nil)"

lemma linked_cong: "(\<And>r. r \<in> set rs \<Longrightarrow> look r = look' r) \<Longrightarrow> linked look fin num v rs = linked look' fin num v rs"
  by (induction rs arbitrary: v) auto

lemma linked_key: "linked look fin num v rs \<Longrightarrow> r \<in> set rs \<Longrightarrow> 0 < r \<and> int_key r"
  by (induction rs arbitrary: v) auto

locale ref_store = int_store +
  fixes fin :: "'v \<Rightarrow> bool" and num :: "int \<Rightarrow> 'v" and nil :: 'v and border :: "'t \<Rightarrow> int"
  assumes border_key: "room n t \<Longrightarrow> 0 \<le> border t \<and> int_key (border t + 1)"
    and border_nil: "room n t \<Longrightarrow> lookup t (border t + 1) = nil"
begin

lemma lookup_store2:
  assumes "room (Suc (Suc n)) t" "int_key i" "int_key j" "int_key r"
  shows "lookup (store (store t i v) j w) r = (if r = j then w else if r = i then v else lookup t r)"
  using lookup_store [OF room_store [OF assms(1,2)] assms(3,4)] lookup_store [OF assms(1,2,4)] by simp

lemma reuse:
  assumes r: "room (Suc (Suc n)) t" and ok: "refs_ok (lookup t) fin num nil R (r # fl)" and v: "v \<noteq> nil"
  defines "t' \<equiv> store (store t 0 (lookup t r)) r v"
  shows "room n t'" "refs_ok (lookup t') fin num nil (insert r R) fl" "r \<notin> R" "lookup t' r = v"
    "q \<in> R \<Longrightarrow> lookup t' q = lookup t q"
proof -
  have k: "0 < r" "int_key r" "linked (lookup t) fin num (lookup t r) fl" "r \<notin> set fl" "distinct fl" "r \<notin> R" "R \<inter> set fl = {}"
    using ok by (auto simp: refs_ok_def)
  have R: "0 < q" "int_key q" "lookup t q \<noteq> nil" if "q \<in> R" for q using ok that by (auto simp: refs_ok_def)
  have get: "lookup t' q = (if q = r then v else if q = 0 then lookup t r else lookup t q)" if "int_key q" for q
    unfolding t'_def by (rule lookup_store2 [OF r int_key_0 k(2) that])
  show "room n t'" unfolding t'_def by (intro room_store r k(2) int_key_0)
  have "linked (lookup t') fin num (lookup t r) fl = linked (lookup t) fin num (lookup t r) fl"
    using k(4) get linked_key [OF k(3)] by (intro linked_cong) fastforce
  then show "refs_ok (lookup t') fin num nil (insert r R) fl"
    using k R get get [OF int_key_0] v by (auto simp: refs_ok_def)
  show "r \<notin> R" by (rule k(6))
  show "lookup t' r = v" by (simp add: get [OF k(2)])
  show "q \<in> R \<Longrightarrow> lookup t' q = lookup t q" using get [of q] R [of q] k(6) by auto
qed

lemma fresh:
  assumes r: "room (Suc n) t" and ok: "refs_ok (lookup t) fin num nil R []" and v: "v \<noteq> nil"
  defines "r \<equiv> border t + 1" and "t' \<equiv> store t (border t + 1) v"
  shows "room n t'" "refs_ok (lookup t') fin num nil (insert r R) []" "r \<notin> R" "lookup t' r = v"
    "q \<in> R \<Longrightarrow> lookup t' q = lookup t q"
proof -
  have k: "0 < r" "int_key r" "lookup t r = nil" using border_key [OF r] border_nil [OF r] by (auto simp: r_def)
  have R: "0 < q" "int_key q" "lookup t q \<noteq> nil" if "q \<in> R" for q using ok that by (auto simp: refs_ok_def)
  have get: "lookup t' q = (if q = r then v else lookup t q)" if "int_key q" for q
    unfolding t'_def r_def by (rule lookup_store [OF r k(2) [unfolded r_def] that])
  show "room n t'" unfolding t'_def by (rule room_store [OF r k(2) [unfolded r_def]])
  show "refs_ok (lookup t') fin num nil (insert r R) []"
    using k R get get [OF int_key_0] v ok by (auto simp: refs_ok_def)
  show "r \<notin> R" using R k(3) by blast
  show "lookup t' r = v" by (simp add: get [OF k(2)])
  show "q \<in> R \<Longrightarrow> lookup t' q = lookup t q" using get [of q] R [of q] k(3) by auto
qed

lemma release:
  assumes r: "room (Suc (Suc n)) t" and ok: "refs_ok (lookup t) fin num nil R fl" and "r \<in> R"
  defines "t' \<equiv> store (store t r (lookup t 0)) 0 (num r)"
  shows "room n t'" "refs_ok (lookup t') fin num nil (R - {r}) (r # fl)" "q \<in> R - {r} \<Longrightarrow> lookup t' q = lookup t q"
proof -
  have R: "0 < q" "int_key q" "lookup t q \<noteq> nil" "q \<notin> set fl" if "q \<in> R" for q using ok that by (auto simp: refs_ok_def)
  note k = R [OF assms(3)]
  have l: "linked (lookup t) fin num (lookup t 0) fl" "distinct fl" using ok by (auto simp: refs_ok_def)
  have get: "lookup t' q = (if q = 0 then num r else if q = r then lookup t 0 else lookup t q)" if "int_key q" for q
    unfolding t'_def by (rule lookup_store2 [OF r k(2) int_key_0 that])
  show "room n t'" unfolding t'_def by (intro room_store r k(2) int_key_0)
  have "linked (lookup t') fin num (lookup t 0) fl = linked (lookup t) fin num (lookup t 0) fl"
    using k(4) get linked_key [OF l(1)] by (intro linked_cong) fastforce
  then show "refs_ok (lookup t') fin num nil (R - {r}) (r # fl)"
    using k R l get get [OF int_key_0] by (auto simp: refs_ok_def)
  show "q \<in> R - {r} \<Longrightarrow> lookup t' q = lookup t q" using get [of q] R [of q] by auto
qed

end

section \<open>The border of a table\<close>

lemma bisect_less: "i < j \<Longrightarrow> bisect p i j < j"
proof (induction p i j rule: bisect.induct)
  case (1 p i j)
  show ?case
  proof (cases "1 < j - i")
    case True
    define m where "m = (i + j) div 2"
    have m: "i < m" "m < j" using True by (auto simp: m_def)
    show ?thesis
      using 1(1) [OF True m_def _ m(1)] 1(2) [OF True m_def _ m(2)] m(2) True
      by (cases "p m") (auto simp: bisect.simps [of p i j] m_def [symmetric] Let_def)
  qed (use 1(3) in \<open>simp add: bisect.simps [of p i j]\<close>)
qed

lemma linear_search_less: "linear_search t f i = Some n \<Longrightarrow> n < i + f"
  by (induction t f i rule: linear_search.induct) (auto split: if_splits)

lemma table_places:
  assumes "table_inv t"
  shows "length (array t) + length (node t) \<le> 2 ^ 27"
proof -
  have "(2 :: nat) ^ lsizenode t \<le> 2 ^ MAXBITS" using table_invD(1) [OF assms] by (intro power_increasing) auto
  then show ?thesis using table_invD(2,3) [OF assms] by (simp add: sizenode_def twoto_def MAXASIZE_def MAXBITS_def)
qed

lemma doubling_less:
  assumes "table_inv t"
  shows "doubling t i j = Some n \<Longrightarrow> i < j \<Longrightarrow> j \<le> 2 ^ 31 - 3 \<Longrightarrow> n < 2 ^ 31 - 1"
  using assms
proof (induction t i j rule: doubling.induct)
  case (1 t i j)
  have "linear_search t (length (array t) + length (node t) + 1) 1 = Some n \<Longrightarrow> n < 2 ^ 31 - 1"
    using linear_search_less [of t _ 1 n] table_places [OF 1(5)] by fastforce
  moreover have "bisect (absent t) i j < j" by (rule bisect_less [OF 1(3)])
  ultimately show ?case using 1 by (auto simp: doubling.simps [of t i j] split: if_splits)
qed

lemma luaH_getn_less:
  assumes "table_inv t" "luaH_getn t = Some n"
  shows "n < 2 ^ 31 - 1"
proof -
  have l: "length (array t) \<le> 2 ^ 27" using table_places [OF assms(1)] by simp
  show ?thesis
  proof (cases "0 < length (array t) \<and> array t ! (length (array t) - 1) = TNil")
    case True
    then show ?thesis using assms(2) bisect_less [of 0 "length (array t)" "\<lambda>m. array t ! (m - 1) = TNil"] l
      by (simp add: luaH_getn_def Let_def)
  next
    case False
    then have "n = length (array t) \<or> doubling t (length (array t)) (length (array t) + 1) = Some n"
      using assms(2) unfolding luaH_getn_def Let_def if_not_P [OF False] by (auto simp: unbound_search_def split: if_splits)
    then show ?thesis using doubling_less [OF assms(1)] l by fastforce
  qed
qed

section \<open>The instance\<close>

definition ends_list :: "TValue \<Rightarrow> bool" where "ends_list v \<longleftrightarrow> v = TNil \<or> v = TNumber 0"

definition table_border :: "Table \<Rightarrow> int" where
  "table_border t = (case luaH_getn t of Some n \<Rightarrow> int n | None \<Rightarrow> 0)"

interpretation table_refs: ref_store geti seti int_room other_keys ends_list "\<lambda>i. TNumber (cast_num i)" TNil table_border
proof unfold_locales
  fix n t assume "int_room n t"
  then have inv: "table_inv t" by (simp add: int_room_def)
  obtain m where m: "luaH_getn t = Some m" "content t (TNumber (cast_num (int (m + 1)))) = TNil"
    using luaH_getn_border_core [OF inv] by blast
  show k: "0 \<le> table_border t \<and> int_key (table_border t + 1)"
    using luaH_getn_less [OF inv m(1)] by (simp add: table_border_def m(1) int_key_def)
  then show "geti t (table_border t + 1) = TNil"
    using m geti_content [OF inv, of "table_border t + 1"] by (simp add: table_border_def algebra_simps)
qed

section \<open>Running\<close>

lemma tointeger_top: "stack s = xs @ [v] \<Longrightarrow> lua_tointeger H (- 1) s =
    Val (case luaV_tonumber H v of Some n \<Rightarrow> lua_number2integer n | None \<Rightarrow> 0) s"
  by (simp add: lua_tointeger_def bnd_def index_value_top)

text \<open>A frame with the table and a value, and what \<open>luaL_ref\<close> does before it stores the value.\<close>

lemma luaL_ref_run:
  assumes st: "stack s = [TTable h, v]" and t: "tables s h = Some t" "int_room 2 t" and top: "2 < ci_top s"
    and ok: "refs_ok (geti t) ends_list (\<lambda>i. TNumber (cast_num i)) TNil R fl" and v: "v \<noteq> TNil"
  shows "fl = r # rs \<Longrightarrow> luaL_ref H 1 s = Val r (s\<lparr>tables := (tables s)(h \<mapsto> seti (seti t 0 (geti t r)) r v), stack := [TTable h]\<rparr>)"
    and "fl = [] \<Longrightarrow> luaL_ref H 1 s =
      Val (table_border t + 1) (s\<lparr>tables := (tables s)(h \<mapsto> seti t (table_border t + 1) v), stack := [TTable h]\<rparr>)"
proof -
  have inv: "table_inv t" and r2: "int_room (Suc (Suc 0)) t" "int_room (Suc 0) t"
    using t(2) by (simp_all add: int_room_def)
  have nn: "lua_isnil (- 1) s = Val False s"
    using v lua_type_top [of s "[TTable h]" v] st
    by (cases v) (simp_all add: lua_isnil_def is_type_def bnd_def ttype_def LUA_TNIL_def)
  let ?s1 = "s\<lparr>stack := [TTable h, v, geti t 0]\<rparr>"
  have get0: "lua_rawgeti 1 0 s = Val () ?s1"
    using rawgeti_run [OF index_value_arg [OF st] t(1) inv int_key_0] st top by simp
  have S: "s\<lparr>stack := [TTable h, v]\<rparr> = s" using st by simp
  have pop: "lua_pop 1 ?s1 = Val () s" by (subst lua_pop_run(1) [where xs = "[TTable h, v]"]) (simp_all add: S)
  have top0: "lua_tointeger H (- 1) ?s1 = Val (case luaV_tonumber H (geti t 0) of Some n \<Rightarrow> lua_number2integer n | None \<Rightarrow> 0) ?s1"
    by (rule tointeger_top [where xs = "[TTable h, v]"]) simp
  show "luaL_ref H 1 s = Val r (s\<lparr>tables := (tables s)(h \<mapsto> seti (seti t 0 (geti t r)) r v), stack := [TTable h]\<rparr>)"
    if fl: "fl = r # rs"
  proof -
    have g: "geti t 0 = TNumber (cast_num r)" "0 < r" "int_key r" using ok by (auto simp: refs_ok_def fl)
    let ?s2 = "s\<lparr>stack := [TTable h, v, geti t r]\<rparr>"
    have "lua_rawgeti 1 r s = Val () ?s2"
      using rawgeti_run [OF index_value_arg [OF st] t(1) inv g(3)] st top by simp
    moreover have "lua_rawseti 1 0 ?s2 = Val () (s\<lparr>tables := (tables s)(h \<mapsto> seti t 0 (geti t r))\<rparr>)"
      using t(1) st
      by (subst rawseti_run [where xs = "[TTable h, v]", OF _ index_value_arg _ r2(1) int_key_0]) (simp_all add: same_stack)
    moreover have "lua_rawseti 1 r (s\<lparr>tables := (tables s)(h \<mapsto> seti t 0 (geti t r))\<rparr>) =
        Val () (s\<lparr>tables := (tables s)(h \<mapsto> seti (seti t 0 (geti t r)) r v), stack := [TTable h]\<rparr>)"
      by (rule rawseti_after [OF _ _ tables.room_store [OF r2(1) int_key_0] g(3)]) (simp_all add: st)
    ultimately show ?thesis
      using nn get0 pop top0 g
      by (simp add: luaL_ref_def abs_index_def bnd_def seq_def FREELIST_REF_def luaV_tonumber_def
          number2integer_cast_num to_int_id int_key_def)
  qed
  show "luaL_ref H 1 s =
      Val (table_border t + 1) (s\<lparr>tables := (tables s)(h \<mapsto> seti t (table_border t + 1) v), stack := [TTable h]\<rparr>)"
    if fl: "fl = []"
  proof -
    have "ends_list (geti t 0)" using ok by (simp add: refs_ok_def fl)
    then have g: "(case luaV_tonumber H (geti t 0) of Some n \<Rightarrow> lua_number2integer n | None \<Rightarrow> 0) = 0"
      using number2integer_cast_num [of 0] by (auto simp: ends_list_def luaV_tonumber_def cast_num_def)
    obtain n where n: "luaH_getn t = Some n" using luaH_getn_border_core [OF inv] by blast
    have b: "table_border t = int n" "int_key (int n + 1)"
      using n table_refs.border_key [OF t(2)] by (simp_all add: table_border_def)
    have len: "lua_objlen H 1 s = Val n s"
      using st t(1) n by (simp add: lua_objlen_def index2adr_def bnd_def hvalue_def)
    have "lua_rawseti 1 (int n + 1) s = Val () (s\<lparr>tables := (tables s)(h \<mapsto> seti t (int n + 1) v), stack := [TTable h]\<rparr>)"
      using st t(1) by (subst rawseti_run [where xs = "[TTable h]", OF _ index_value_arg _ r2(2) b(2)]) simp_all
    moreover have "to_int (to_int (int n) + 1) = int n + 1"
      using b(2) by (simp add: to_int_id int_key_def)
    ultimately show ?thesis
      using nn get0 pop top0 g len
      by (simp add: luaL_ref_def abs_index_def bnd_def seq_def FREELIST_REF_def b(1) to_int_def)
  qed
qed

lemma luaL_unref_run:
  assumes st: "stack s = [TTable h]" and t: "tables s h = Some t" "int_room 2 t" and top: "1 < ci_top s"
    and r: "0 < r" "int_key r"
  shows "luaL_unref 1 r s = Val () (s\<lparr>tables := (tables s)(h \<mapsto> seti (seti t r (geti t 0)) 0 (TNumber (cast_num r)))\<rparr>)"
proof -
  have inv: "table_inv t" and r2: "int_room (Suc (Suc 0)) t" using t(2) by (simp_all add: int_room_def)
  let ?s1 = "s\<lparr>stack := [TTable h, geti t 0]\<rparr>"
  let ?s2 = "s\<lparr>tables := (tables s)(h \<mapsto> seti t r (geti t 0))\<rparr>"
  note S = same_stack [OF st]
  have "lua_rawgeti 1 0 s = Val () ?s1"
    using rawgeti_run [OF index_value_arg [OF st] t(1) inv int_key_0] st top by simp
  moreover have "lua_rawseti 1 r ?s1 = Val () ?s2"
    using t(1) st
    by (subst rawseti_run [where xs = "[TTable h]", OF _ index_value_arg _ r2 r(2)]) (simp_all add: S)
  moreover have "lua_pushinteger r ?s2 = Val () (?s2\<lparr>stack := [TTable h, TNumber (cast_num r)]\<rparr>)"
    using st top by (simp add: lua_pushinteger_def push_run)
  moreover have "lua_rawseti 1 0 (?s2\<lparr>stack := [TTable h, TNumber (cast_num r)]\<rparr>) =
      Val () (s\<lparr>tables := (tables s)(h \<mapsto> seti (seti t r (geti t 0)) 0 (TNumber (cast_num r)))\<rparr>)"
  proof -
    let ?s3 = "s\<lparr>stack := [TTable h, TNumber (cast_num r)]\<rparr>"
    have "lua_rawseti 1 0 (?s3\<lparr>tables := (tables ?s3)(h \<mapsto> seti t r (geti t 0))\<rparr>) =
        Val () (?s3\<lparr>tables := (tables ?s3)(h \<mapsto> seti (seti t r (geti t 0)) 0 (TNumber (cast_num r))), stack := [TTable h]\<rparr>)"
      by (rule rawseti_after [OF _ refl tables.room_store [OF r2 r(2)] int_key_0]) simp
    moreover have "?s2\<lparr>stack := [TTable h, TNumber (cast_num r)]\<rparr> = ?s3\<lparr>tables := (tables ?s3)(h \<mapsto> seti t r (geti t 0))\<rparr>"
      by simp
    moreover have "?s3\<lparr>tables := T, stack := [TTable h]\<rparr> = s\<lparr>tables := T\<rparr>" for T
      using S [of T] by simp
    ultimately show ?thesis by (simp only:) simp
  qed
  ultimately show ?thesis
    using r(1) by (simp add: luaL_unref_def abs_index_def bnd_def seq_def FREELIST_REF_def)
qed

section \<open>References from Java\<close>

definition holds_refs :: "Table \<Rightarrow> int set \<Rightarrow> int list \<Rightarrow> bool" where
  "holds_refs t R fl \<longleftrightarrow> table_inv t \<and> refs_ok (geti t) ends_list (\<lambda>i. TNumber (cast_num i)) TNil R fl"

text \<open>What \<open>luaL_ref\<close> gives back and leaves of the table.\<close>

definition ref_key :: "Table \<Rightarrow> int list \<Rightarrow> int" where
  "ref_key t fl = (case fl of [] \<Rightarrow> table_border t + 1 | r # _ \<Rightarrow> r)"

definition ref_in :: "Table \<Rightarrow> int list \<Rightarrow> TValue \<Rightarrow> Table" where
  "ref_in t fl v = (case fl of [] \<Rightarrow> seti t (table_border t + 1) v | r # _ \<Rightarrow> seti (seti t 0 (geti t r)) r v)"

lemma ref_in_spec:
  assumes "int_room 2 t" "holds_refs t R fl" "v \<noteq> TNil"
  shows "holds_refs (ref_in t fl v) (insert (ref_key t fl) R) (tl fl)" "ref_key t fl \<notin> R" "0 < ref_key t fl"
    "geti (ref_in t fl v) (ref_key t fl) = v" "q \<in> R \<Longrightarrow> geti (ref_in t fl v) q = geti t q"
proof -
  have r: "int_room (Suc (Suc 0)) t" "int_room (Suc 0) t" using assms(1) by (simp_all add: int_room_def)
  have ok: "refs_ok (geti t) ends_list (\<lambda>i. TNumber (cast_num i)) TNil R fl" using assms(2) by (simp add: holds_refs_def)
  have "holds_refs (ref_in t fl v) (insert (ref_key t fl) R) (tl fl) \<and> ref_key t fl \<notin> R
    \<and> geti (ref_in t fl v) (ref_key t fl) = v \<and> (q \<in> R \<longrightarrow> geti (ref_in t fl v) q = geti t q)"
  proof (cases fl)
    case Nil
    note F = table_refs.fresh [OF r(2) ok [unfolded Nil] assms(3)]
    have "table_inv (seti t (table_border t + 1) v)" using F(1) unfolding int_room_def by blast
    then show ?thesis using F(2-5) by (simp add: holds_refs_def ref_in_def ref_key_def Nil)
  next
    case (Cons x xs)
    note F = table_refs.reuse [OF r(1) ok [unfolded Cons] assms(3)]
    have "table_inv (seti (seti t 0 (geti t x)) x v)" using F(1) unfolding int_room_def by blast
    then show ?thesis using F(2-5) by (simp add: holds_refs_def ref_in_def ref_key_def Cons)
  qed
  then show "holds_refs (ref_in t fl v) (insert (ref_key t fl) R) (tl fl)" "ref_key t fl \<notin> R"
    "geti (ref_in t fl v) (ref_key t fl) = v" "q \<in> R \<Longrightarrow> geti (ref_in t fl v) q = geti t q" by blast+
  then show "0 < ref_key t fl" by (simp add: holds_refs_def refs_ok_def)
qed

text \<open>
  Property C22. \<open>LuaState.ref\<close> is an allocator: it pops the value, returns a reference that is not
  in use (the one freed last, or else the border of the table plus one), the table holds the
  value under it, every reference in use keeps its value, and the list of freed references
  loses its head. So no two references in use are ever the same.
\<close>

theorem jni_ref_allocates:
  assumes "ready (Suc m) s" "stack s = below @ [v]" "v \<noteq> TNil" "names s 1 index (TTable h)" "tables s h = Some t"
    and "int_room 2 t" "holds_refs t R fl"
  shows "\<exists>s' t'. jni_ref H (jcall H (Suc d)) index s = Val (ref_key t fl) s'
    \<and> stack s' = below \<and> exn s' = exn s \<and> tables s' = (tables s)(h \<mapsto> t')
    \<and> ref_key t fl \<notin> R \<and> 0 < ref_key t fl \<and> geti t' (ref_key t fl) = v \<and> (\<forall>q \<in> R. geti t' q = geti t q)
    \<and> holds_refs t' (insert (ref_key t fl) R) (tl fl)"
proof -
  note r = assms(1) and st = assms(2) and nm = assms(4)
  obtain e where e: "getcurrenv s = Val e s" using readyD(6) [OF r] by blast
  let ?fr = "enter_frame (next_addr s) (TTable h # [v]) (with_closure Ref_protected e s)"
  let ?fr' = "?fr\<lparr>tables := (tables s)(h \<mapsto> ref_in t fl v), stack := [TTable h], vars := (vars s)\<lparr>ref_result := ref_key t fl\<rparr>\<rparr>"
  have ok: "refs_ok (geti t) ends_list (\<lambda>i. TNumber (cast_num i)) TNil R fl" using assms(7) by (simp add: holds_refs_def)
  have f: "stack ?fr = [TTable h, v]" "tables ?fr h = Some t" "2 < ci_top ?fr"
    using assms(5) by (simp_all add: enter_frame_def LUA_MINSTACK_def)
  have "luaL_ref H 1 ?fr = Val (ref_key t fl) (?fr\<lparr>tables := (tables s)(h \<mapsto> ref_in t fl v), stack := [TTable h]\<rparr>)"
    using luaL_ref_run [OF f(1,2) assms(6) f(3) ok assms(3), where H = H]
    by (cases fl) (simp_all add: ref_key_def ref_in_def enter_frame_def)
  then have "run_c H (jcall H d) Ref_protected ?fr = Val 0 ?fr'"
    by (simp add: ref_protected_def bnd_def seq_def set_var_def enter_frame_def)
  then have c: "call_on_with H (jcall H (Suc d)) Ref_protected 1 index 0 (roomy s) =
      Val () (leave_frame (roomy s) (below @ luaD_poscall (drop (length (stack ?fr') - nat 0) (stack ?fr')) 0) ?fr')"
    by (intro call_on_with_Val(1) [OF r st _ nm]) (use e in \<open>simp_all add: LUA_MULTRET_def\<close>)
  have "jni_ref H (jcall H (Suc d)) index s = Val (ref_key t fl) (leave_frame (roomy s) below ?fr')"
    using guarded_checks(1) [OF r nm] c
    by (simp add: jni_ref_def enter_run [OF readyD(1) [OF r]] seq_def bnd_def var_def luaD_poscall_def LUA_MULTRET_def
        leave_frame_def)
  then show ?thesis
    using ref_in_spec [OF assms(6,7,3)]
    by (intro exI [of _ "leave_frame (roomy s) below ?fr'"] exI [of _ "ref_in t fl v"])
      (simp add: leave_frame_def enter_frame_def with_closure_def)
qed

text \<open>
  Property C25. \<open>LuaState.unref\<close> frees a reference in use: the reference becomes the head of the
  list of freed references, so the next \<open>ref\<close> returns it, and all other references keep their
  values.
\<close>

theorem jni_unref_frees:
  assumes "ready (Suc m) s" "names s 0 index (TTable h)" "tables s h = Some t" "int_room 2 t" "holds_refs t R fl" "r \<in> R"
  shows "\<exists>s' t'. jni_unref H (jcall H (Suc d)) index r s = Val () s'
    \<and> stack s' = stack s \<and> exn s' = exn s \<and> tables s' = (tables s)(h \<mapsto> t')
    \<and> (\<forall>q \<in> R - {r}. geti t' q = geti t q) \<and> holds_refs t' (R - {r}) (r # fl)"
proof -
  note rd = assms(1) and nm = assms(2)
  have ok: "refs_ok (geti t) ends_list (\<lambda>i. TNumber (cast_num i)) TNil R fl" using assms(5) by (simp add: holds_refs_def)
  then have k: "0 < r" "int_key r" using assms(6) by (simp_all add: refs_ok_def)
  have r2: "int_room (Suc (Suc 0)) t" using assms(4) by (simp add: int_room_def)
  let ?t' = "seti (seti t r (geti t 0)) 0 (TNumber (cast_num r))"
  note rel = table_refs.release [OF r2 ok assms(6)]
  obtain e where e: "getcurrenv s = Val e s" using readyD(6) [OF rd] by blast
  let ?s = "s\<lparr>vars := (vars s)\<lparr>unref_ref := r\<rparr>\<rparr>"
  have s: "ready (Suc m) ?s" "names ?s 0 index (TTable h)" "getcurrenv ?s = Val e ?s"
    using rd nm e by (auto simp: ready_def names_def getcurrenv_iff split: option.splits)
  let ?fr = "enter_frame (next_addr ?s) [TTable h] (with_closure Unref_protected e ?s)"
  let ?fr' = "?fr\<lparr>tables := (tables s)(h \<mapsto> ?t')\<rparr>"
  have f: "stack ?fr = [TTable h]" "tables ?fr h = Some t" "1 < ci_top ?fr"
    using assms(3) by (simp_all add: enter_frame_def LUA_MINSTACK_def)
  have "run_c H (jcall H d) Unref_protected ?fr = Val 0 ?fr'"
    using luaL_unref_run [OF f(1,2) assms(4) f(3) k]
    by (simp add: unref_protected_def bnd_def seq_def var_def enter_frame_def)
  then have c: "call_on H (jcall H (Suc d)) Unref_protected index 0 (roomy ?s) =
      Val () (leave_frame (roomy ?s) (stack ?s @ luaD_poscall (drop (length (stack ?fr') - nat 0) (stack ?fr')) 0) ?fr')"
    by (intro call_on_Val(1) [OF s(1,2)]) (use s(3) in \<open>simp_all add: LUA_MULTRET_def\<close>)
  moreover have "roomy ?s = (roomy s)\<lparr>vars := (vars s)\<lparr>unref_ref := r\<rparr>\<rparr>" by (simp add: roomy_def)
  ultimately have "jni_unref H (jcall H (Suc d)) index r s = Val () (leave_frame (roomy ?s) (stack s) ?fr')"
    using guarded_checks(1) [OF rd nm]
    by (simp add: jni_unref_def enter_run [OF readyD(1) [OF rd]] seq_def bnd_def set_var_def luaD_poscall_def
        LUA_MULTRET_def)
  moreover have "holds_refs ?t' (R - {r}) (r # fl)" using rel(1,2) by (simp add: holds_refs_def int_room_def)
  ultimately show ?thesis
    using rel(3)
    by (intro exI [of _ "leave_frame (roomy ?s) (stack s) ?fr'"] exI [of _ ?t'])
      (simp add: leave_frame_def enter_frame_def with_closure_def)
qed

section \<open>Witnesses\<close>

lemma one_slot_refs: "holds_refs one_slot {1} []"
  by (simp add: holds_refs_def one_slot_inv refs_ok_def one_slot_geti ends_list_def int_key_def)

theorem jni_ref_allocates_witness:
  "\<exists>r s'. jni_ref sample_jni (jcall sample_jni 1) 1 (sample_state [TTable 1, TBoolean True]) = Val r s'
    \<and> 0 < r \<and> stack s' = [TTable 1] \<and> (\<exists>t'. tables s' 1 = Some t' \<and> geti t' r = TBoolean True \<and> holds_refs t' {r} [])"
proof -
  have r: "int_room 2 new_table" using new_table_inv by (simp add: int_room_def new_table_use MAXASIZE_def MAXBITS_def)
  have "geti new_table 0 = TNil"
    using geti_content [OF new_table_inv int_key_0] arrayindex_0
    by (simp add: content_def arraykey_def lin_get_def) (simp add: new_table_def dummynode_def)
  then have h: "holds_refs new_table {} []" by (simp add: holds_refs_def new_table_inv refs_ok_def ends_list_def)
  have n: "names (sample_state [TTable 1, TBoolean True]) 1 1 (TTable 1)"
    using sample_names [of 0 1 "[TTable 1, TBoolean True]"] by simp
  have "ready (Suc 0) (sample_state [TTable 1, TBoolean True])" by (rule sample_ready) simp_all
  from jni_ref_allocates [OF this _ _ n _ r h, of "[TTable 1]" "TBoolean True" sample_jni 0]
  show ?thesis by (intro exI [of _ "ref_key new_table []"]) auto
qed

theorem jni_unref_frees_witness:
  "\<exists>s' t'. jni_unref sample_jni (jcall sample_jni 1) 1 1 (slot_state [TTable 1]) = Val () s'
    \<and> tables s' 1 = Some t' \<and> holds_refs t' {} [1]"
proof -
  have t: "tables (slot_state [TTable 1]) 1 = Some one_slot" by (simp add: slot_state_def)
  have "ready (Suc 0) (slot_state [TTable 1])" by (rule slot_state_ready) simp_all
  from jni_unref_frees [OF this slot_state_names t one_slot_room one_slot_refs, of 1 sample_jni 0]
  show ?thesis by auto
qed

end
