(* ===== verification/Protos.thy ===== *)
theory Protos
  imports Opcodes Values
begin

text \<open>
  Function prototypes (\<open>lobject.h\<close>) and the code checker of \<open>ldebug.c\<close>, which decides whether
  precompiled code may run and which instruction last changed a register. Reading outside an
  array of the prototype is \<open>Outside_array\<close>; theory Checker shows that it does not happen.
\<close>

unbundle bit_operations_syntax

section \<open>Prototypes\<close>

record LocVar =
  varname :: "bytes option"
  startpc :: int
  endpc :: int

text \<open>
  The sizes of the arrays are the lengths of the lists, the single bytes are their values. A
  string that is \<open>NULL\<close> is \<open>None\<close>.
\<close>

datatype Proto = Proto
  (pt_k: "TValue list") (pt_code: "instruction list") (pt_p: "Proto list") (pt_lineinfo: "int list")
  (pt_locvars: "LocVar list") (pt_upvalues: "bytes option list") (pt_source: "bytes option")
  (pt_linedefined: int) (pt_lastlinedefined: int)
  (pt_nups: u8) (pt_numparams: u8) (pt_is_vararg: u8) (pt_maxstacksize: u8)

definition VARARG_HASARG :: u8 where "VARARG_HASARG = 1"
definition VARARG_ISVARARG :: u8 where "VARARG_ISVARARG = 2"
definition VARARG_NEEDSARG :: u8 where "VARARG_NEEDSARG = 4"
definition MAXSTACK :: int where "MAXSTACK = 250"

abbreviation sizek :: "Proto \<Rightarrow> int" where "sizek pt \<equiv> int (length (pt_k pt))"
abbreviation sizecode :: "Proto \<Rightarrow> int" where "sizecode pt \<equiv> int (length (pt_code pt))"
abbreviation sizep :: "Proto \<Rightarrow> int" where "sizep pt \<equiv> int (length (pt_p pt))"
abbreviation nups :: "Proto \<Rightarrow> int" where "nups pt \<equiv> uint (pt_nups pt)"
abbreviation maxstack :: "Proto \<Rightarrow> int" where "maxstack pt \<equiv> uint (pt_maxstacksize pt)"

section \<open>Checks\<close>

text \<open>
  A function of the checker goes on with a value, returns 0 at a check that fails, or reads
  outside an array.
\<close>

datatype 'a checked = Go 'a | Fails | Outside_array

definition andthen :: "'a checked \<Rightarrow> ('a \<Rightarrow> 'b checked) \<Rightarrow> 'b checked" where
  "andthen m f = (case m of Go a \<Rightarrow> f a | Fails \<Rightarrow> Fails | Outside_array \<Rightarrow> Outside_array)"

definition check_that :: "bool \<Rightarrow> unit checked" where
  "check_that c = (if c then Go () else Fails)"

definition checkreg :: "Proto \<Rightarrow> int \<Rightarrow> unit checked" where
  "checkreg pt reg = check_that (reg < maxstack pt)"

definition fetch :: "Proto \<Rightarrow> int \<Rightarrow> instruction checked" where
  "fetch pt i = (if 0 \<le> i \<and> i < sizecode pt then Go (pt_code pt ! nat i) else Outside_array)"

definition is_op :: "instruction \<Rightarrow> OpCode \<Rightarrow> bool" where
  "is_op i op \<longleftrightarrow> GET_OPCODE i = op_num op"

fun checks :: "unit checked list \<Rightarrow> unit checked" where
  "checks [] = Go ()"
| "checks (c # cs) = andthen c (\<lambda>_. checks cs)"

definition precheck :: "Proto \<Rightarrow> unit checked" where
  "precheck pt = checks
     [check_that (maxstack pt \<le> MAXSTACK),
      check_that (uint (pt_numparams pt) + uint (pt_is_vararg pt AND VARARG_HASARG) \<le> maxstack pt),
      check_that (pt_is_vararg pt AND VARARG_NEEDSARG = 0 \<or> pt_is_vararg pt AND VARARG_HASARG \<noteq> 0),
      check_that (int (length (pt_upvalues pt)) \<le> nups pt),
      check_that (int (length (pt_lineinfo pt)) = sizecode pt \<or> pt_lineinfo pt = []),
      if 0 < sizecode pt then andthen (fetch pt (sizecode pt - 1)) (\<lambda>i. check_that (is_op i OP_RETURN))
      else Fails]"

definition luaG_checkopenop :: "instruction \<Rightarrow> bool" where
  "luaG_checkopenop i \<longleftrightarrow>
     (is_op i OP_CALL \<or> is_op i OP_TAILCALL \<or> is_op i OP_RETURN \<or> is_op i OP_SETLIST) \<and> GETARG_B i = 0"

definition checkopenop :: "Proto \<Rightarrow> int \<Rightarrow> unit checked" where
  "checkopenop pt pc = andthen (fetch pt (pc + 1)) (\<lambda>i. check_that (luaG_checkopenop i))"

definition checkArgMode :: "Proto \<Rightarrow> int \<Rightarrow> OpArgMask \<Rightarrow> unit checked" where
  "checkArgMode pt r mode =
     (case mode of
        OpArgN \<Rightarrow> check_that (r = 0)
      | OpArgU \<Rightarrow> Go ()
      | OpArgR \<Rightarrow> checkreg pt r
      | OpArgK \<Rightarrow> check_that (if ISK r then INDEXK r < sizek pt else r < maxstack pt))"

text \<open>
  How many words before \<open>dest\<close> look like a \<open>SETLIST\<close> whose count is the next word: the loop over
  \<open>j\<close>, \<open>n\<close> steps of which are left.
\<close>

definition setlist_like :: "instruction \<Rightarrow> bool" where
  "setlist_like d \<longleftrightarrow> is_op d OP_SETLIST \<and> GETARG_C d = 0"

primrec setlists_before :: "Proto \<Rightarrow> int \<Rightarrow> nat \<Rightarrow> nat \<Rightarrow> nat checked" where
  "setlists_before pt dest 0 j = Go j"
| "setlists_before pt dest (Suc n) j =
     andthen (fetch pt (dest - 1 - int j)) (\<lambda>d. if setlist_like d then setlists_before pt dest n (Suc j) else Go j)"

definition check_dest :: "Proto \<Rightarrow> int \<Rightarrow> unit checked" where
  "check_dest pt dest =
     andthen (check_that (0 \<le> dest \<and> dest < sizecode pt)) (\<lambda>_.
       if 0 < dest then andthen (setlists_before pt dest (nat dest) 0) (\<lambda>j. check_that (even j)) else Go ())"

section \<open>Symbolic execution\<close>

text \<open>The operands \<open>b\<close> and \<open>c\<close> by the mode of the instruction, checked.\<close>

definition check_operands :: "Proto \<Rightarrow> int \<Rightarrow> instruction \<Rightarrow> OpCode \<Rightarrow> (int \<times> int) checked" where
  "check_operands pt pc i op =
     (case getOpMode op of
        Some iABC \<Rightarrow>
          (let b = GETARG_B i; c = GETARG_C i
           in andthen (checks [checkArgMode pt b (getBMode op), checkArgMode pt c (getCMode op)]) (\<lambda>_. Go (b, c)))
      | Some iABx \<Rightarrow>
          (let b = GETARG_Bx i
           in andthen (if getBMode op = OpArgK then check_that (b < sizek pt) else Go ()) (\<lambda>_. Go (b, 0)))
      | Some iAsBx \<Rightarrow>
          (let b = GETARG_sBx i
           in andthen (if getBMode op = OpArgR then check_dest pt (pc + 1 + b) else Go ()) (\<lambda>_. Go (b, 0)))
      | None \<Rightarrow> Go (0, 0))"

text \<open>The words after a \<open>CLOSURE\<close> that say where its upvalues come from.\<close>

primrec check_upvalues :: "Proto \<Rightarrow> int \<Rightarrow> nat \<Rightarrow> unit checked" where
  "check_upvalues pt pc 0 = Go ()"
| "check_upvalues pt pc (Suc n) =
     andthen (check_upvalues pt pc n) (\<lambda>_. andthen (fetch pt (pc + int (Suc n))) (\<lambda>i.
       check_that (is_op i OP_GETUPVAL \<or> is_op i OP_MOVE)))"

text \<open>
  The switch over the opcode: the new \<open>pc\<close> and \<open>last\<close>, before the \<open>pc++\<close> of the loop. \<open>b\<close> and
  \<open>c\<close> are as \<open>check_operands\<close> left them; \<open>LUA_MULTRET\<close> is -1.
\<close>

definition jumps :: "int \<Rightarrow> int \<Rightarrow> int \<Rightarrow> int \<Rightarrow> int" where
  "jumps lastpc reg pc b =
     (let dest = pc + 1 + b in if reg \<noteq> NO_REG \<and> pc < dest \<and> dest \<le> lastpc then pc + b else pc)"

definition check_op :: "Proto \<Rightarrow> int \<Rightarrow> int \<Rightarrow> int \<Rightarrow> int \<Rightarrow> OpCode \<Rightarrow> int \<Rightarrow> int \<Rightarrow> int \<Rightarrow> (int \<times> int) checked" where
  "check_op pt lastpc reg pc lst op a b c =
     (case op of
        OP_LOADBOOL \<Rightarrow>
          andthen (if c = 1
            then andthen (check_that (pc + 2 < sizecode pt)) (\<lambda>_. andthen (fetch pt (pc + 1)) (\<lambda>i.
              check_that (\<not> is_op i OP_SETLIST \<or> GETARG_C i \<noteq> 0)))
            else Go ()) (\<lambda>_. Go (pc, lst))
      | OP_LOADNIL \<Rightarrow> Go (pc, if a \<le> reg \<and> reg \<le> b then pc else lst)
      | OP_GETUPVAL \<Rightarrow> andthen (check_that (b < nups pt)) (\<lambda>_. Go (pc, lst))
      | OP_SETUPVAL \<Rightarrow> andthen (check_that (b < nups pt)) (\<lambda>_. Go (pc, lst))
      | OP_GETGLOBAL \<Rightarrow>
          (if b < sizek pt then andthen (check_that (ttype (pt_k pt ! nat b) = 4)) (\<lambda>_. Go (pc, lst)) else Outside_array)
      | OP_SETGLOBAL \<Rightarrow>
          (if b < sizek pt then andthen (check_that (ttype (pt_k pt ! nat b) = 4)) (\<lambda>_. Go (pc, lst)) else Outside_array)
      | OP_SELF \<Rightarrow> andthen (checkreg pt (a + 1)) (\<lambda>_. Go (pc, if reg = a + 1 then pc else lst))
      | OP_CONCAT \<Rightarrow> andthen (check_that (b < c)) (\<lambda>_. Go (pc, lst))
      | OP_TFORLOOP \<Rightarrow>
          andthen (checks [check_that (1 \<le> c), checkreg pt (a + 2 + c)]) (\<lambda>_. Go (pc, if a + 2 \<le> reg then pc else lst))
      | OP_FORLOOP \<Rightarrow> andthen (checkreg pt (a + 3)) (\<lambda>_. Go (jumps lastpc reg pc b, lst))
      | OP_FORPREP \<Rightarrow> andthen (checkreg pt (a + 3)) (\<lambda>_. Go (jumps lastpc reg pc b, lst))
      | OP_JMP \<Rightarrow> Go (jumps lastpc reg pc b, lst)
      | OP_CALL \<Rightarrow>
          andthen (checks [if b \<noteq> 0 then checkreg pt (a + b - 1) else Go (),
              if c - 1 = - 1 then checkopenop pt pc else if c - 1 \<noteq> 0 then checkreg pt (a + (c - 1) - 1) else Go ()])
            (\<lambda>_. Go (pc, if a \<le> reg then pc else lst))
      | OP_TAILCALL \<Rightarrow>
          andthen (checks [if b \<noteq> 0 then checkreg pt (a + b - 1) else Go (),
              if c - 1 = - 1 then checkopenop pt pc else if c - 1 \<noteq> 0 then checkreg pt (a + (c - 1) - 1) else Go ()])
            (\<lambda>_. Go (pc, if a \<le> reg then pc else lst))
      | OP_RETURN \<Rightarrow> andthen (if 0 < b - 1 then checkreg pt (a + (b - 1) - 1) else Go ()) (\<lambda>_. Go (pc, lst))
      | OP_SETLIST \<Rightarrow>
          andthen (checks [if 0 < b then checkreg pt (a + b) else Go (),
              if c = 0 then check_that (pc + 1 < sizecode pt - 1) else Go ()])
            (\<lambda>_. Go (if c = 0 then pc + 1 else pc, lst))
      | OP_CLOSURE \<Rightarrow>
          andthen (check_that (b < sizep pt)) (\<lambda>_. let nup = nups (pt_p pt ! nat b)
            in andthen (checks [check_that (pc + nup < sizecode pt), check_upvalues pt pc (nat nup)])
                 (\<lambda>_. Go (if reg \<noteq> NO_REG then pc + nup else pc, lst)))
      | OP_VARARG \<Rightarrow>
          andthen (checks [check_that (pt_is_vararg pt AND VARARG_ISVARARG \<noteq> 0 \<and> pt_is_vararg pt AND VARARG_NEEDSARG = 0),
              if b - 1 = - 1 then checkopenop pt pc else Go (), checkreg pt (a + (b - 1) - 1)])
            (\<lambda>_. Go (pc, lst))
      | _ \<Rightarrow> Go (pc, lst))"

definition check_skip :: "Proto \<Rightarrow> int \<Rightarrow> unit checked" where
  "check_skip pt pc = andthen (check_that (pc + 2 < sizecode pt)) (\<lambda>_.
     andthen (fetch pt (pc + 1)) (\<lambda>i. check_that (is_op i OP_JMP)))"

text \<open>One round of the loop, with its \<open>pc++\<close>.\<close>

definition symbexec_step :: "Proto \<Rightarrow> int \<Rightarrow> int \<Rightarrow> int \<Rightarrow> int \<Rightarrow> (int \<times> int) checked" where
  "symbexec_step pt lastpc reg pc lst =
     andthen (fetch pt pc) (\<lambda>i.
       case op_of_num (GET_OPCODE i) of None \<Rightarrow> Fails
       | Some op \<Rightarrow>
           (let a = GETARG_A i
            in andthen (checkreg pt a) (\<lambda>_.
               andthen (check_operands pt pc i op) (\<lambda>(b, c).
               andthen (if testTMode op then check_skip pt pc else Go ()) (\<lambda>_.
               andthen (check_op pt lastpc reg pc (if testAMode op \<and> a = reg then pc else lst) op a b c) (\<lambda>(pc', lst').
                 Go (pc' + 1, lst')))))))"

text \<open>The loop. A step that did not go forward would loop for ever; it is \<open>Outside_array\<close> here.\<close>

function symbexec_loop :: "Proto \<Rightarrow> int \<Rightarrow> int \<Rightarrow> int \<Rightarrow> int \<Rightarrow> int checked" where
  "symbexec_loop pt lastpc reg pc lst =
     (if pc < lastpc then
        andthen (symbexec_step pt lastpc reg pc lst) (\<lambda>(pc', lst').
          if pc < pc' then symbexec_loop pt lastpc reg pc' lst' else Outside_array)
      else Go lst)"
  by pat_completeness auto
termination by (relation "measure (\<lambda>(pt, lastpc, reg, pc, lst). nat (lastpc - pc))") auto

declare symbexec_loop.simps [simp del]

definition symbexec :: "Proto \<Rightarrow> int \<Rightarrow> int \<Rightarrow> instruction checked" where
  "symbexec pt lastpc reg =
     andthen (precheck pt) (\<lambda>_. andthen (symbexec_loop pt lastpc reg 0 (sizecode pt - 1)) (fetch pt))"

definition luaG_checkcode :: "Proto \<Rightarrow> bool" where
  "luaG_checkcode pt \<longleftrightarrow> (case symbexec pt (sizecode pt) NO_REG of Go i \<Rightarrow> i \<noteq> 0 | _ \<Rightarrow> False)"

end
