(* ===== verification/Checker.thy ===== *)
theory Checker
  imports Protos
begin

text \<open>
  What the code checker of \<open>ldebug.c\<close> promises: it reads no array out of bounds, and in code that
  it accepts every instruction the virtual machine can come to is inside the code and has its
  operands in bounds. The second has one exception, which is stated at the end.
\<close>

section \<open>Checks that pass\<close>

lemma andthen_Go [simp]: "andthen m f = Go b \<longleftrightarrow> (\<exists>a. m = Go a \<and> f a = Go b)"
  by (cases m) (simp_all add: andthen_def)

lemma andthen_Outside [simp]:
  "andthen m f = Outside_array \<longleftrightarrow> m = Outside_array \<or> (\<exists>a. m = Go a \<and> f a = Outside_array)"
  by (cases m) (simp_all add: andthen_def)

lemma check_that_Go [simp]: "check_that c = Go u \<longleftrightarrow> c"
  by (simp add: check_that_def)

lemma check_that_Outside [simp]: "check_that c \<noteq> Outside_array"
  by (simp add: check_that_def)

lemma checkreg_Go [simp]: "checkreg pt r = Go u \<longleftrightarrow> r < maxstack pt"
  by (simp add: checkreg_def)

lemma checkreg_Outside [simp]: "checkreg pt r \<noteq> Outside_array"
  by (simp add: checkreg_def)

lemma fetch_Go [simp]: "fetch pt i = Go w \<longleftrightarrow> 0 \<le> i \<and> i < sizecode pt \<and> pt_code pt ! nat i = w"
  by (auto simp: fetch_def)

lemma fetch_Outside [simp]: "fetch pt i = Outside_array \<longleftrightarrow> \<not> (0 \<le> i \<and> i < sizecode pt)"
  by (simp add: fetch_def)

lemma fields_nonneg: "0 \<le> GETARG_A i" "0 \<le> GETARG_B i" "0 \<le> GETARG_C i" "0 \<le> GETARG_Bx i"
  by (simp_all add: GETARG_A_def GETARG_B_def GETARG_C_def GETARG_Bx_def)

section \<open>The modes of each instruction\<close>

lemma getOpMode_table:
    "getOpMode OP_MOVE = Some iABC" "getOpMode OP_LOADK = Some iABx"
    "getOpMode OP_LOADBOOL = Some iABC" "getOpMode OP_LOADNIL = Some iABC"
    "getOpMode OP_GETUPVAL = Some iABC" "getOpMode OP_GETGLOBAL = Some iABx"
    "getOpMode OP_GETTABLE = Some iABC" "getOpMode OP_SETGLOBAL = Some iABx"
    "getOpMode OP_SETUPVAL = Some iABC" "getOpMode OP_SETTABLE = Some iABC"
    "getOpMode OP_NEWTABLE = Some iABC" "getOpMode OP_SELF = Some iABC"
    "getOpMode OP_ADD = Some iABC" "getOpMode OP_SUB = Some iABC" "getOpMode OP_MUL = Some iABC"
    "getOpMode OP_DIV = Some iABC" "getOpMode OP_MOD = Some iABC" "getOpMode OP_POW = Some iABC"
    "getOpMode OP_UNM = Some iABC" "getOpMode OP_NOT = Some iABC" "getOpMode OP_LEN = Some iABC"
    "getOpMode OP_CONCAT = Some iABC" "getOpMode OP_JMP = Some iAsBx" "getOpMode OP_EQ = Some iABC"
    "getOpMode OP_LT = Some iABC" "getOpMode OP_LE = Some iABC" "getOpMode OP_TEST = Some iABC"
    "getOpMode OP_TESTSET = Some iABC" "getOpMode OP_CALL = Some iABC"
    "getOpMode OP_TAILCALL = Some iABC" "getOpMode OP_RETURN = Some iABC"
    "getOpMode OP_FORLOOP = Some iAsBx" "getOpMode OP_FORPREP = Some iAsBx"
    "getOpMode OP_TFORLOOP = Some iABC" "getOpMode OP_SETLIST = Some iABC"
    "getOpMode OP_CLOSE = Some iABC" "getOpMode OP_CLOSURE = Some iABx"
    "getOpMode OP_VARARG = Some iABC"
  by (simp_all add: opmode_table)

lemma getBMode_table:
    "getBMode OP_MOVE = OpArgR" "getBMode OP_LOADK = OpArgK" "getBMode OP_LOADBOOL = OpArgU"
    "getBMode OP_LOADNIL = OpArgR" "getBMode OP_GETUPVAL = OpArgU" "getBMode OP_GETGLOBAL = OpArgK"
    "getBMode OP_GETTABLE = OpArgR" "getBMode OP_SETGLOBAL = OpArgK" "getBMode OP_SETUPVAL = OpArgU"
    "getBMode OP_SETTABLE = OpArgK" "getBMode OP_NEWTABLE = OpArgU" "getBMode OP_SELF = OpArgR"
    "getBMode OP_ADD = OpArgK" "getBMode OP_SUB = OpArgK" "getBMode OP_MUL = OpArgK"
    "getBMode OP_DIV = OpArgK" "getBMode OP_MOD = OpArgK" "getBMode OP_POW = OpArgK"
    "getBMode OP_UNM = OpArgR" "getBMode OP_NOT = OpArgR" "getBMode OP_LEN = OpArgR"
    "getBMode OP_CONCAT = OpArgR" "getBMode OP_JMP = OpArgR" "getBMode OP_EQ = OpArgK"
    "getBMode OP_LT = OpArgK" "getBMode OP_LE = OpArgK" "getBMode OP_TEST = OpArgR"
    "getBMode OP_TESTSET = OpArgR" "getBMode OP_CALL = OpArgU" "getBMode OP_TAILCALL = OpArgU"
    "getBMode OP_RETURN = OpArgU" "getBMode OP_FORLOOP = OpArgR" "getBMode OP_FORPREP = OpArgR"
    "getBMode OP_TFORLOOP = OpArgN" "getBMode OP_SETLIST = OpArgU" "getBMode OP_CLOSE = OpArgN"
    "getBMode OP_CLOSURE = OpArgU" "getBMode OP_VARARG = OpArgU"
  by (simp_all add: opmode_table)

lemma getCMode_table:
    "getCMode OP_MOVE = OpArgN" "getCMode OP_LOADK = OpArgN" "getCMode OP_LOADBOOL = OpArgU"
    "getCMode OP_LOADNIL = OpArgN" "getCMode OP_GETUPVAL = OpArgN" "getCMode OP_GETGLOBAL = OpArgN"
    "getCMode OP_GETTABLE = OpArgK" "getCMode OP_SETGLOBAL = OpArgN" "getCMode OP_SETUPVAL = OpArgN"
    "getCMode OP_SETTABLE = OpArgK" "getCMode OP_NEWTABLE = OpArgU" "getCMode OP_SELF = OpArgK"
    "getCMode OP_ADD = OpArgK" "getCMode OP_SUB = OpArgK" "getCMode OP_MUL = OpArgK"
    "getCMode OP_DIV = OpArgK" "getCMode OP_MOD = OpArgK" "getCMode OP_POW = OpArgK"
    "getCMode OP_UNM = OpArgN" "getCMode OP_NOT = OpArgN" "getCMode OP_LEN = OpArgN"
    "getCMode OP_CONCAT = OpArgR" "getCMode OP_JMP = OpArgN" "getCMode OP_EQ = OpArgK"
    "getCMode OP_LT = OpArgK" "getCMode OP_LE = OpArgK" "getCMode OP_TEST = OpArgU"
    "getCMode OP_TESTSET = OpArgU" "getCMode OP_CALL = OpArgU" "getCMode OP_TAILCALL = OpArgU"
    "getCMode OP_RETURN = OpArgN" "getCMode OP_FORLOOP = OpArgN" "getCMode OP_FORPREP = OpArgN"
    "getCMode OP_TFORLOOP = OpArgU" "getCMode OP_SETLIST = OpArgU" "getCMode OP_CLOSE = OpArgN"
    "getCMode OP_CLOSURE = OpArgN" "getCMode OP_VARARG = OpArgN"
  by (simp_all add: opmode_table)

lemma testTMode_table:
    "\<not> testTMode OP_MOVE" "\<not> testTMode OP_LOADK" "\<not> testTMode OP_LOADBOOL"
    "\<not> testTMode OP_LOADNIL" "\<not> testTMode OP_GETUPVAL" "\<not> testTMode OP_GETGLOBAL"
    "\<not> testTMode OP_GETTABLE" "\<not> testTMode OP_SETGLOBAL" "\<not> testTMode OP_SETUPVAL"
    "\<not> testTMode OP_SETTABLE" "\<not> testTMode OP_NEWTABLE" "\<not> testTMode OP_SELF"
    "\<not> testTMode OP_ADD" "\<not> testTMode OP_SUB" "\<not> testTMode OP_MUL"
    "\<not> testTMode OP_DIV" "\<not> testTMode OP_MOD" "\<not> testTMode OP_POW"
    "\<not> testTMode OP_UNM" "\<not> testTMode OP_NOT" "\<not> testTMode OP_LEN"
    "\<not> testTMode OP_CONCAT" "\<not> testTMode OP_JMP" "testTMode OP_EQ" "testTMode OP_LT"
    "testTMode OP_LE" "testTMode OP_TEST" "testTMode OP_TESTSET" "\<not> testTMode OP_CALL"
    "\<not> testTMode OP_TAILCALL" "\<not> testTMode OP_RETURN" "\<not> testTMode OP_FORLOOP"
    "\<not> testTMode OP_FORPREP" "testTMode OP_TFORLOOP" "\<not> testTMode OP_SETLIST"
    "\<not> testTMode OP_CLOSE" "\<not> testTMode OP_CLOSURE" "\<not> testTMode OP_VARARG"
  by (simp_all add: opmode_table)

lemmas mode_table = getOpMode_table getBMode_table getCMode_table testTMode_table

section \<open>No read out of bounds\<close>

lemma precheck_Outside: "precheck pt \<noteq> Outside_array"
  by (auto simp: precheck_def)

lemma precheck_Go:
  "precheck pt = Go u \<Longrightarrow> 0 < sizecode pt \<and> is_op (pt_code pt ! nat (sizecode pt - 1)) OP_RETURN \<and> maxstack pt \<le> MAXSTACK"
  by (auto simp: precheck_def split: if_splits)

lemma setlists_before_Outside:
  "dest \<le> sizecode pt \<Longrightarrow> int n + int j \<le> dest \<Longrightarrow> setlists_before pt dest n j \<noteq> Outside_array"
  by (induction n arbitrary: j) auto

lemma check_dest_Outside: "check_dest pt dest \<noteq> Outside_array"
  by (auto simp: check_dest_def setlists_before_Outside)

lemma checkArgMode_Outside: "checkArgMode pt r m \<noteq> Outside_array"
  by (cases m) (auto simp: checkArgMode_def)

lemma check_operands_Outside: "check_operands pt pc i op \<noteq> Outside_array"
  by (auto simp: check_operands_def Let_def checkArgMode_Outside check_dest_Outside split: option.splits OpMode.splits)

lemma check_skip_Outside: "0 \<le> pc \<Longrightarrow> check_skip pt pc \<noteq> Outside_array"
  by (auto simp: check_skip_def)

lemma check_upvalues_Outside:
  "0 \<le> pc \<Longrightarrow> pc + int n < sizecode pt \<Longrightarrow> check_upvalues pt pc n \<noteq> Outside_array"
  by (induction n) auto

text \<open>An instruction that reads the next word is not the last one, which is a \<open>RETURN\<close>.\<close>

lemma is_op_unique: "is_op i op \<Longrightarrow> is_op i op' \<Longrightarrow> op = op'"
  by (metis is_op_def op_of_num_op_num option.inject)

lemma op_of_num_is_op: "op_of_num (GET_OPCODE i) = Some op \<longleftrightarrow> is_op i op"
  by (metis is_op_def op_of_num_Some op_of_num_op_num)

lemma not_last:
  assumes "precheck pt = Go u" "0 \<le> pc" "pc < sizecode pt" "is_op (pt_code pt ! nat pc) op" "op \<noteq> OP_RETURN"
  shows "pc + 1 < sizecode pt"
proof (rule ccontr)
  assume "\<not> pc + 1 < sizecode pt"
  then have "pc = sizecode pt - 1" using assms(3) by simp
  then show False using precheck_Go [OF assms(1)] assms(4,5) is_op_unique by metis
qed

lemma check_operands_K:
  "check_operands pt pc i op = Go (b, c) \<Longrightarrow> op = OP_GETGLOBAL \<or> op = OP_SETGLOBAL \<Longrightarrow> b < sizek pt"
  by (auto simp: check_operands_def mode_table Let_def split: if_splits)

lemma check_op_Outside:
  assumes "precheck pt = Go u" "0 \<le> pc" "pc < sizecode pt" "is_op (pt_code pt ! nat pc) op"
    and "check_operands pt pc i op = Go (b, c)"
  shows "check_op pt lastpc reg pc lst op a b c \<noteq> Outside_array"
  using not_last [OF assms(1-4)] check_operands_K [OF assms(5)] assms(2,3) check_upvalues_Outside
  by (cases op) (auto simp: check_op_def checkopenop_def Let_def)

lemma check_op_forward:
  "check_op pt lastpc reg pc lst op a b c = Go (pc', lst') \<Longrightarrow> pc \<le> pc' \<and> (lst' = lst \<or> lst' = pc)"
  by (cases op) (auto simp: check_op_def jumps_def Let_def split: if_splits)

lemma symbexec_step_Outside:
  assumes "precheck pt = Go u" "0 \<le> pc" "pc < sizecode pt"
  shows "symbexec_step pt lastpc reg pc lst \<noteq> Outside_array"
  using assms check_op_Outside [OF assms] check_operands_Outside check_skip_Outside
  by (auto simp: symbexec_step_def Let_def op_of_num_is_op split: option.splits)

lemma symbexec_step_forward:
  "symbexec_step pt lastpc reg pc lst = Go (pc', lst') \<Longrightarrow> pc < pc' \<and> (lst' = lst \<or> lst' = pc)"
  by (force simp: symbexec_step_def Let_def split: option.splits if_splits dest!: check_op_forward)

lemma symbexec_loop_step:
  assumes "pc < lastpc" "symbexec_step pt lastpc reg pc lst = Go (pc', lst')"
  shows "symbexec_loop pt lastpc reg pc lst = symbexec_loop pt lastpc reg pc' lst'"
  using symbexec_step_forward [OF assms(2)]
  by (subst symbexec_loop.simps) (simp add: assms andthen_def)

lemma symbexec_loop_fails:
  assumes "pc < lastpc" "symbexec_step pt lastpc reg pc lst = Fails"
  shows "symbexec_loop pt lastpc reg pc lst = Fails"
  by (subst symbexec_loop.simps) (simp add: assms andthen_def)

lemma symbexec_loop_end: "\<not> pc < lastpc \<Longrightarrow> symbexec_loop pt lastpc reg pc lst = Go lst"
  by (subst symbexec_loop.simps) simp

lemma symbexec_loop_Outside:
  assumes "precheck pt = Go u" "lastpc \<le> sizecode pt" "0 \<le> pc" "0 \<le> lst" "lst < sizecode pt"
  shows "symbexec_loop pt lastpc reg pc lst \<noteq> Outside_array \<and>
    (\<forall>l. symbexec_loop pt lastpc reg pc lst = Go l \<longrightarrow> 0 \<le> l \<and> l < sizecode pt)"
  using assms
proof (induction pt lastpc reg pc lst rule: symbexec_loop.induct)
  case (1 pt lastpc reg pc lst)
  consider (stop) "\<not> pc < lastpc" | (go) pc' lst' where "pc < lastpc" "symbexec_step pt lastpc reg pc lst = Go (pc', lst')"
    | (fails) "pc < lastpc" "symbexec_step pt lastpc reg pc lst = Fails"
    using symbexec_step_Outside [OF "1.prems"(1,3), of lastpc reg lst] "1.prems"(2)
    by (cases "pc < lastpc"; cases "symbexec_step pt lastpc reg pc lst") auto
  then show ?case
  proof cases
    case go
    have fwd: "pc < pc'" "lst' = lst \<or> lst' = pc" using symbexec_step_forward [OF go(2)] by blast+
    from fwd(2) have "0 \<le> lst'" "lst' < sizecode pt"
      using go(1) "1.prems"(2-5) by (elim disjE; linarith)+
    then show ?thesis
      using "1.IH" [of pc' lst', OF go(1) fwd(1) "1.prems"(1,2)] fwd(1) "1.prems"(3) symbexec_loop_step [OF go]
      by (metis order_less_imp_le order_le_less_trans)
  qed (use "1.prems" in \<open>simp_all add: symbexec_loop_end symbexec_loop_fails\<close>)
qed

text \<open>
  Property C31. \<open>symbexec\<close> reads no element outside the arrays of the prototype, whatever the
  prototype holds, for every register and every position up to the end of the code.
\<close>

theorem symbexec_reads_inside:
  assumes "lastpc \<le> sizecode pt"
  shows "symbexec pt lastpc reg \<noteq> Outside_array"
  using symbexec_loop_Outside [OF _ assms, of _ 0 "sizecode pt - 1" reg] precheck_Outside precheck_Go
  by (auto simp: symbexec_def)

section \<open>Where the instructions start\<close>

text \<open>
  The word after a \<open>SETLIST\<close> with \<open>C = 0\<close> is a count and not an instruction. The pass over the
  code visits the starts.
\<close>

abbreviation word_at :: "Proto \<Rightarrow> int \<Rightarrow> instruction" where
  "word_at pt pc \<equiv> pt_code pt ! nat pc"

definition next_word :: "Proto \<Rightarrow> int \<Rightarrow> int" where
  "next_word pt pc = (if setlist_like (word_at pt pc) then pc + 2 else pc + 1)"

inductive start :: "Proto \<Rightarrow> int \<Rightarrow> bool" for pt where
  zero: "start pt 0"
| next_one: "start pt pc \<Longrightarrow> pc < sizecode pt \<Longrightarrow> start pt (next_word pt pc)"

lemma start_nonneg: "start pt pc \<Longrightarrow> 0 \<le> pc"
  by (induction rule: start.induct) (auto simp: next_word_def)

lemma start_or_count:
  "p \<le> length (pt_code pt) \<Longrightarrow> start pt (int p) \<or> 0 < p \<and> start pt (int p - 1) \<and> setlist_like (word_at pt (int p - 1))"
proof (induction p)
  case 0
  then show ?case by (simp add: start.zero)
next
  case (Suc p)
  then show ?case
    using start.next_one [of pt "int p"] start.next_one [of pt "int p - 1"]
    by (auto simp: next_word_def add.commute split: if_splits)
qed

lemma start_run:
  assumes "start pt s" "s + int (2 * m) \<le> sizecode pt"
    and "\<And>i. i < 2 * m \<Longrightarrow> setlist_like (word_at pt (s + int i))"
  shows "start pt (s + int (2 * m))"
  using assms(2,3)
proof (induction m)
  case (Suc m)
  then have "start pt (s + int (2 * m))" by simp
  moreover have "setlist_like (word_at pt (s + int (2 * m)))" by (rule Suc.prems(2)) simp
  ultimately show ?case using start.next_one [of pt "s + int (2 * m)"] Suc.prems(1) by (simp add: next_word_def algebra_simps)
qed (use assms(1) in simp)

lemma setlists_before_Go:
  "setlists_before pt dest n j0 = Go j \<Longrightarrow> j0 \<le> j \<and> j \<le> j0 + n \<and>
     (\<forall>i. j0 \<le> i \<and> i < j \<longrightarrow> setlist_like (word_at pt (dest - 1 - int i))) \<and>
     (j < j0 + n \<longrightarrow> \<not> setlist_like (word_at pt (dest - 1 - int j)))"
proof (induction n arbitrary: j0)
  case (Suc n)
  show ?case
  proof (cases "setlist_like (word_at pt (dest - 1 - int j0))")
    case True
    then have "setlists_before pt dest n (Suc j0) = Go j" using Suc.prems by simp
    note ih = Suc.IH [OF this]
    have "setlist_like (word_at pt (dest - 1 - int i))" if "j0 \<le> i" "i < j" for i
      using ih that True by (cases "i = j0") auto
    then show ?thesis using ih by auto
  qed (use Suc.prems in auto)
qed auto

lemma check_dest_start:
  assumes "check_dest pt dest = Go u"
  shows "0 \<le> dest \<and> dest < sizecode pt \<and> start pt dest"
proof (cases "0 < dest")
  case True
  then obtain j where j: "setlists_before pt dest (nat dest) 0 = Go j" "even j" "dest < sizecode pt"
    using assms by (auto simp: check_dest_def)
  note run = setlists_before_Go [OF j(1)]
  obtain m where m: "j = 2 * m" using j(2) by blast
  have all: "\<forall>i<j. setlist_like (word_at pt (dest - 1 - int i))" using run by simp
  define s where "s = dest - int j"
  have s: "0 \<le> s" "s \<le> dest" using run True by (auto simp: s_def nat_le_iff le_nat_iff)
  have "start pt s"
    using start_or_count [of "nat s" pt] run s j(3) by (auto simp: s_def algebra_simps)
  moreover have "setlist_like (word_at pt (s + int i))" if "i < 2 * m" for i
  proof -
    have "dest - 1 - int (j - 1 - i) = s + int i" using that m by (simp add: s_def)
    moreover have "setlist_like (word_at pt (dest - 1 - int (j - 1 - i)))"
      by (rule all [rule_format]) (use that m in simp)
    ultimately show ?thesis by simp
  qed
  ultimately have "start pt (s + int (2 * m))"
    using start_run [of pt s m] j(3) m by (simp add: s_def)
  then show ?thesis using True j(3) m by (simp add: s_def)
qed (use assms in \<open>auto simp: check_dest_def intro: start.zero\<close>)

section \<open>Accepted code\<close>

lemma check_op_full:
  assumes "check_op pt n NO_REG pc lst op a b c = Go (pc', lst')"
  shows "pc' = (if op = OP_SETLIST \<and> c = 0 then pc + 1 else pc)"
  using assms by (cases op) (auto simp: check_op_def jumps_def Let_def split: if_splits)

lemma check_operands_SETLIST: "check_operands pt pc i OP_SETLIST = Go (b, c) \<Longrightarrow> c = GETARG_C i"
  by (auto simp: check_operands_def mode_table Let_def)

text \<open>The checks that one step makes at \<open>pc\<close>.\<close>

definition step_ok :: "Proto \<Rightarrow> int \<Rightarrow> OpCode \<Rightarrow> int \<Rightarrow> int \<Rightarrow> int \<Rightarrow> int \<Rightarrow> bool" where
  "step_ok pt pc op b c pc' lst \<longleftrightarrow> is_op (word_at pt pc) op \<and> GETARG_A (word_at pt pc) < maxstack pt \<and>
     check_operands pt pc (word_at pt pc) op = Go (b, c) \<and> (testTMode op \<longrightarrow> check_skip pt pc = Go ()) \<and>
     (\<exists>lst'. check_op pt (sizecode pt) NO_REG pc lst op (GETARG_A (word_at pt pc)) b c = Go (pc', lst'))"

lemma step_Go:
  assumes "symbexec_step pt (sizecode pt) NO_REG pc lst = Go (pc1, lst1)"
  shows "0 \<le> pc \<and> pc < sizecode pt \<and> (\<exists>op b c lst'. step_ok pt pc op b c (pc1 - 1) lst')"
proof -
  obtain op where op: "op_of_num (GET_OPCODE (word_at pt pc)) = Some op" "0 \<le> pc" "pc < sizecode pt"
    using assms by (auto simp: symbexec_step_def split: option.splits)
  let ?i = "word_at pt pc"
  obtain b c lst0 lst' where "check_operands pt pc ?i op = Go (b, c)" "GETARG_A ?i < maxstack pt"
    "testTMode op \<longrightarrow> check_skip pt pc = Go ()"
    "check_op pt (sizecode pt) NO_REG pc lst0 op (GETARG_A ?i) b c = Go (pc1 - 1, lst')"
    using assms op by (fastforce simp: symbexec_step_def Let_def split: if_splits)
  then show ?thesis using op unfolding step_ok_def op_of_num_is_op by blast
qed

lemma step_full:
  assumes "symbexec_step pt (sizecode pt) NO_REG pc lst = Go (pc', lst')"
  shows "pc' = next_word pt pc \<and> pc' \<le> sizecode pt"
proof -
  obtain op b c l where st: "pc < sizecode pt" "step_ok pt pc op b c (pc' - 1) l" using step_Go [OF assms] by blast
  then obtain l' where co: "check_op pt (sizecode pt) NO_REG pc l op (GETARG_A (word_at pt pc)) b c = Go (pc' - 1, l')"
    by (auto simp: step_ok_def)
  show ?thesis
  proof (cases "op = OP_SETLIST")
    case True
    then have "c = GETARG_C (word_at pt pc)" using st(2) check_operands_SETLIST by (auto simp: step_ok_def)
    then show ?thesis using check_op_full [OF co] co st True
      by (auto simp: next_word_def setlist_like_def step_ok_def check_op_def)
  next
    case False
    then have "\<not> setlist_like (word_at pt pc)" using st(2) is_op_unique by (auto simp: step_ok_def setlist_like_def)
    then show ?thesis using check_op_full [OF co] st(1) False by (simp add: next_word_def)
  qed
qed

definition accepted :: "Proto \<Rightarrow> bool" where
  "accepted pt \<longleftrightarrow> (\<exists>l. symbexec pt (sizecode pt) NO_REG = Go l)"

text \<open>At every start the checks of a step pass.\<close>

lemma accepted_start:
  assumes "accepted pt" "start pt pc"
  shows "pc \<le> sizecode pt \<and> (\<exists>lst l. symbexec_loop pt (sizecode pt) NO_REG pc lst = Go l)"
  using assms(2)
proof (induction rule: start.induct)
  case zero
  then show ?case using assms(1) by (auto simp: accepted_def symbexec_def)
next
  case (next_one pc)
  then obtain lst l where loop: "symbexec_loop pt (sizecode pt) NO_REG pc lst = Go l" by blast
  then obtain pc' lst' where st: "symbexec_step pt (sizecode pt) NO_REG pc lst = Go (pc', lst')"
    using next_one.hyps(2) by (subst (asm) symbexec_loop.simps) auto
  have "symbexec_loop pt (sizecode pt) NO_REG pc' lst' = Go l"
    using symbexec_loop_step [OF next_one.hyps(2) st] loop by simp
  then show ?case using step_full [OF st] by auto
qed

lemma accepted_precheck: "accepted pt \<Longrightarrow> precheck pt = Go ()"
  by (auto simp: accepted_def symbexec_def)

lemma accepted_step:
  assumes "accepted pt" "start pt pc" "pc < sizecode pt"
  obtains op b c lst where "step_ok pt pc op b c (next_word pt pc - 1) lst"
proof -
  obtain lst l where loop: "symbexec_loop pt (sizecode pt) NO_REG pc lst = Go l"
    using accepted_start [OF assms(1,2)] by blast
  then obtain pc' lst' where "symbexec_step pt (sizecode pt) NO_REG pc lst = Go (pc', lst')"
    using assms(3) by (subst (asm) symbexec_loop.simps) auto
  from step_Go [OF this] step_full [OF this] that show thesis by blast
qed

section \<open>Where the virtual machine goes and what it touches\<close>

text \<open>
  The positions at which \<open>luaV_execute\<close> may go on in the same function after the instruction at
  \<open>pc\<close>. \<open>RETURN\<close> leaves the function; a call comes back to the next instruction.
\<close>

definition vm_targets :: "Proto \<Rightarrow> int \<Rightarrow> int list" where
  "vm_targets pt pc =
     (let i = word_at pt pc
      in case op_of_num (GET_OPCODE i) of
           Some OP_RETURN \<Rightarrow> []
         | Some OP_JMP \<Rightarrow> [pc + 1 + GETARG_sBx i]
         | Some OP_FORPREP \<Rightarrow> [pc + 1 + GETARG_sBx i]
         | Some OP_FORLOOP \<Rightarrow> [pc + 1, pc + 1 + GETARG_sBx i]
         | Some OP_LOADBOOL \<Rightarrow> [if GETARG_C i \<noteq> 0 then pc + 2 else pc + 1]
         | Some OP_SETLIST \<Rightarrow> [if GETARG_C i = 0 then pc + 2 else pc + 1]
         | Some OP_CLOSURE \<Rightarrow> [pc + 1 + nups (pt_p pt ! nat (GETARG_Bx i))]
         | Some op \<Rightarrow>
             if op \<in> {OP_EQ, OP_LT, OP_LE, OP_TEST, OP_TESTSET, OP_TFORLOOP}
             then [pc + 2, pc + 2 + GETARG_sBx (word_at pt (pc + 1))] else [pc + 1]
         | None \<Rightarrow> [pc + 1])"

inductive vm_reaches :: "Proto \<Rightarrow> int \<Rightarrow> bool" for pt where
  entry: "vm_reaches pt 0"
| goes: "vm_reaches pt pc \<Longrightarrow> pc' \<in> set (vm_targets pt pc) \<Longrightarrow> vm_reaches pt pc'"

text \<open>
  What an instruction touches: registers of the frame, constants, constants used as names,
  upvalues, inner functions and further words of the code. Arguments that a call places above
  the registers (\<open>TFORLOOP\<close>) and the open end of a list of values (\<open>B = 0\<close> or \<open>C = 0\<close>) belong to
  the stack, not to the frame.
\<close>

datatype operand = Reg int | Const int | Name int | Upval int | Child int | Word int

fun within :: "Proto \<Rightarrow> operand \<Rightarrow> bool" where
  "within pt (Reg r) \<longleftrightarrow> 0 \<le> r \<and> r < maxstack pt"
| "within pt (Const x) \<longleftrightarrow> 0 \<le> x \<and> x < sizek pt"
| "within pt (Name x) \<longleftrightarrow> 0 \<le> x \<and> x < sizek pt \<and> ttype (pt_k pt ! nat x) = 4"
| "within pt (Upval x) \<longleftrightarrow> 0 \<le> x \<and> x < nups pt"
| "within pt (Child x) \<longleftrightarrow> 0 \<le> x \<and> x < sizep pt"
| "within pt (Word x) \<longleftrightarrow> 0 \<le> x \<and> x < sizecode pt"

definition RK_operand :: "int \<Rightarrow> operand" where
  "RK_operand x = (if ISK x then Const (INDEXK x) else Reg x)"

definition captured :: "Proto \<Rightarrow> int \<Rightarrow> operand" where
  "captured pt pc = (if is_op (word_at pt pc) OP_GETUPVAL then Upval (GETARG_B (word_at pt pc))
     else Reg (GETARG_B (word_at pt pc)))"

definition op_touches :: "Proto \<Rightarrow> int \<Rightarrow> OpCode \<Rightarrow> int \<Rightarrow> int \<Rightarrow> int \<Rightarrow> int \<Rightarrow> operand list" where
  "op_touches pt pc op a b c bx =
     (case op of
        OP_MOVE \<Rightarrow> [Reg a, Reg b]
      | OP_LOADK \<Rightarrow> [Reg a, Const bx]
      | OP_LOADBOOL \<Rightarrow> [Reg a]
      | OP_LOADNIL \<Rightarrow> Reg b # map Reg [a..b]
      | OP_GETUPVAL \<Rightarrow> [Reg a, Upval b]
      | OP_GETGLOBAL \<Rightarrow> [Reg a, Name bx]
      | OP_GETTABLE \<Rightarrow> [Reg a, Reg b, RK_operand c]
      | OP_SETGLOBAL \<Rightarrow> [Reg a, Name bx]
      | OP_SETUPVAL \<Rightarrow> [Reg a, Upval b]
      | OP_SETTABLE \<Rightarrow> [Reg a, RK_operand b, RK_operand c]
      | OP_NEWTABLE \<Rightarrow> [Reg a]
      | OP_SELF \<Rightarrow> [Reg a, Reg (a + 1), Reg b, RK_operand c]
      | OP_UNM \<Rightarrow> [Reg a, Reg b]
      | OP_NOT \<Rightarrow> [Reg a, Reg b]
      | OP_LEN \<Rightarrow> [Reg a, Reg b]
      | OP_CONCAT \<Rightarrow> Reg a # map Reg [b..c]
      | OP_JMP \<Rightarrow> []
      | OP_EQ \<Rightarrow> [RK_operand b, RK_operand c, Word (pc + 1)]
      | OP_LT \<Rightarrow> [RK_operand b, RK_operand c, Word (pc + 1)]
      | OP_LE \<Rightarrow> [RK_operand b, RK_operand c, Word (pc + 1)]
      | OP_TEST \<Rightarrow> [Reg a, Word (pc + 1)]
      | OP_TESTSET \<Rightarrow> [Reg a, Reg b, Word (pc + 1)]
      | OP_CALL \<Rightarrow> map Reg ([a] @ [a..a + b - 1] @ [a..a + c - 2])
      | OP_TAILCALL \<Rightarrow> map Reg ([a] @ [a..a + b - 1])
      | OP_RETURN \<Rightarrow> map Reg [a..a + b - 2]
      | OP_FORLOOP \<Rightarrow> map Reg [a..a + 3]
      | OP_FORPREP \<Rightarrow> map Reg [a..a + 2]
      | OP_TFORLOOP \<Rightarrow> map Reg [a..a + 2 + c] @ [Word (pc + 1)]
      | OP_SETLIST \<Rightarrow> map Reg [a..a + b] @ (if c = 0 then [Word (pc + 1)] else [])
      | OP_CLOSE \<Rightarrow> [Reg a]
      | OP_CLOSURE \<Rightarrow>
          [Reg a, Child bx] @
          concat (map (\<lambda>j. [Word (pc + j), captured pt (pc + j)]) [1..nups (pt_p pt ! nat bx)])
      | OP_VARARG \<Rightarrow> Reg a # map Reg [a..a + b - 2]
      | _ \<Rightarrow> [Reg a, RK_operand b, RK_operand c])"

definition touches :: "Proto \<Rightarrow> int \<Rightarrow> operand list" where
  "touches pt pc =
     (let i = word_at pt pc
      in case op_of_num (GET_OPCODE i) of None \<Rightarrow> []
         | Some op \<Rightarrow> op_touches pt pc op (GETARG_A i) (GETARG_B i) (GETARG_C i) (GETARG_Bx i))"

section \<open>Accepted code stays inside\<close>

lemma INDEXK_nonneg: "0 \<le> r \<Longrightarrow> 0 \<le> INDEXK r"
  by (simp add: INDEXK_def)

lemma start_next:
  assumes "accepted pt" "start pt pc" "pc < sizecode pt" "is_op (word_at pt pc) op" "op \<noteq> OP_RETURN"
    and "\<not> setlist_like (word_at pt pc)"
  shows "start pt (pc + 1) \<and> pc + 1 < sizecode pt"
  using start.next_one [OF assms(2,3)] assms(6)
    not_last [OF accepted_precheck [OF assms(1)] start_nonneg [OF assms(2)] assms(3,4,5)]
  by (simp add: next_word_def)

lemma setlist_like_op: "setlist_like i \<Longrightarrow> is_op i OP_SETLIST"
  by (simp add: setlist_like_def)

lemma not_setlist_like: "is_op i op \<Longrightarrow> op \<noteq> OP_SETLIST \<Longrightarrow> \<not> setlist_like i"
  using is_op_unique setlist_like_op by blast

text \<open>The jump of an instruction with an offset arrives at a start.\<close>

lemma jump_start:
  assumes "accepted pt" "start pt pc" "pc < sizecode pt" "is_op (word_at pt pc) op"
    and "op \<in> {OP_JMP, OP_FORLOOP, OP_FORPREP}"
  shows "start pt (pc + 1 + GETARG_sBx (word_at pt pc)) \<and> pc + 1 + GETARG_sBx (word_at pt pc) < sizecode pt"
proof -
  obtain op' b c l where st: "step_ok pt pc op' b c (next_word pt pc - 1) l"
    using accepted_step [OF assms(1-3)] by blast
  then have "op' = op" using is_op_unique [OF _ assms(4)] by (auto simp: step_ok_def)
  with st have "check_operands pt pc (word_at pt pc) op = Go (b, c)" by (simp add: step_ok_def)
  then have "check_dest pt (pc + 1 + GETARG_sBx (word_at pt pc)) = Go ()"
    using assms(5) by (auto simp: check_operands_def mode_table Let_def)
  then show ?thesis using check_dest_start by blast
qed

lemma skip_start:
  assumes "accepted pt" "start pt pc" "pc < sizecode pt" "is_op (word_at pt pc) op" "check_skip pt pc = Go ()" "op \<noteq> OP_SETLIST"
  shows "start pt (pc + 2)" "pc + 2 < sizecode pt"
    "start pt (pc + 2 + GETARG_sBx (word_at pt (pc + 1)))" "pc + 2 + GETARG_sBx (word_at pt (pc + 1)) < sizecode pt"
proof -
  have jmp: "pc + 2 < sizecode pt" "is_op (word_at pt (pc + 1)) OP_JMP"
    using assms(5) by (auto simp: check_skip_def)
  have one: "start pt (pc + 1)"
    using start.next_one [OF assms(2,3)] not_setlist_like [OF assms(4,6)] by (simp add: next_word_def)
  show "pc + 2 < sizecode pt" by (rule jmp(1))
  show "start pt (pc + 2)"
    using start.next_one [OF one] not_setlist_like [OF jmp(2)] jmp(1) by (simp add: next_word_def ac_simps)
  show "start pt (pc + 2 + GETARG_sBx (word_at pt (pc + 1)))" "pc + 2 + GETARG_sBx (word_at pt (pc + 1)) < sizecode pt"
    using jump_start [OF assms(1) one _ jmp(2)] jmp(1) by (simp_all add: add.assoc)
qed

text \<open>The words after a \<open>CLOSURE\<close> are starts.\<close>

lemma check_upvalues_word:
  "check_upvalues pt pc n = Go u \<Longrightarrow> 0 < j \<Longrightarrow> j \<le> n \<Longrightarrow>
   is_op (word_at pt (pc + int j)) OP_GETUPVAL \<or> is_op (word_at pt (pc + int j)) OP_MOVE"
  by (induction n) (auto simp: le_Suc_eq)

lemma closure_starts:
  assumes "accepted pt" "start pt pc" "is_op (word_at pt pc) OP_CLOSURE"
    and "check_upvalues pt pc n = Go u" "pc + int n < sizecode pt"
  shows "j \<le> n \<Longrightarrow> start pt (pc + int j + 1) \<and> pc + int j + 1 < sizecode pt"
proof (induction j)
  case 0
  then show ?case using start_next [OF assms(1,2) _ assms(3)] not_setlist_like [OF assms(3)] assms(5) by auto
next
  case (Suc j)
  then have s: "start pt (pc + int (Suc j))" by (simp add: ac_simps)
  have "pc + int (Suc j) < sizecode pt" using Suc.prems assms(5) by simp
  from start_next [OF assms(1) s this] show ?case
    using check_upvalues_word [OF assms(4), of "Suc j"] Suc.prems not_setlist_like by blast
qed

text \<open>
  \<open>LOADBOOL\<close> skips when \<open>C\<close> is not 0, and the checker looks at the skip when \<open>C\<close> is 1. The code
  that the compiler makes has only these two values.
\<close>

definition loadbools_ok :: "Proto \<Rightarrow> bool" where
  "loadbools_ok pt \<longleftrightarrow> (\<forall>i \<in> set (pt_code pt). is_op i OP_LOADBOOL \<longrightarrow> GETARG_C i \<le> 1)"

lemma loadbool_start:
  assumes "accepted pt" "start pt pc" "pc < sizecode pt" "is_op (word_at pt pc) OP_LOADBOOL"
    and "step_ok pt pc OP_LOADBOOL b c pc' l" "GETARG_C (word_at pt pc) = 1"
  shows "start pt (pc + 2) \<and> pc + 2 < sizecode pt"
proof -
  have "pc + 2 < sizecode pt" "\<not> setlist_like (word_at pt (pc + 1))"
    using assms(5,6) by (auto simp: step_ok_def check_op_def check_operands_def mode_table Let_def setlist_like_def)
  moreover have "start pt (pc + 1)"
    using start_next [OF assms(1-4)] not_setlist_like [OF assms(4)] by simp
  ultimately show ?thesis using start.next_one [of pt "pc + 1"] by (simp add: next_word_def ac_simps)
qed

lemma closure_target:
  assumes "accepted pt" "start pt pc" "pc < sizecode pt" "is_op (word_at pt pc) OP_CLOSURE"
    and "step_ok pt pc OP_CLOSURE b c pc' l"
  defines "nup \<equiv> nups (pt_p pt ! nat (GETARG_Bx (word_at pt pc)))"
  shows "0 \<le> j \<Longrightarrow> j \<le> nup \<Longrightarrow> start pt (pc + 1 + j) \<and> pc + 1 + j < sizecode pt"
proof -
  have "pc + nup < sizecode pt" "check_upvalues pt pc (nat nup) = Go ()"
    using assms(5) by (auto simp: nup_def step_ok_def check_op_def check_operands_def mode_table Let_def)
  moreover have "0 \<le> nup" by (simp add: nup_def)
  ultimately show "0 \<le> j \<Longrightarrow> j \<le> nup \<Longrightarrow> start pt (pc + 1 + j) \<and> pc + 1 + j < sizecode pt"
    using closure_starts [OF assms(1,2,4), of "nat nup" "()" "nat j"] by (simp add: ac_simps)
qed

lemma setlist_target:
  assumes "start pt pc" "pc < sizecode pt" "step_ok pt pc OP_SETLIST b c pc' l" "GETARG_C (word_at pt pc) = 0"
  shows "start pt (pc + 2) \<and> pc + 2 < sizecode pt"
proof -
  have "is_op (word_at pt pc) OP_SETLIST" "pc + 2 < sizecode pt"
    using assms(3,4) by (auto simp: step_ok_def check_op_def check_operands_def mode_table Let_def)
  then show ?thesis using start.next_one [OF assms(1,2)] assms(4) by (simp add: next_word_def setlist_like_def)
qed

lemma loadbool_C:
  assumes "loadbools_ok pt" "0 \<le> pc" "pc < sizecode pt" "is_op (word_at pt pc) OP_LOADBOOL"
  shows "GETARG_C (word_at pt pc) = 0 \<or> GETARG_C (word_at pt pc) = 1"
  using assms fields_nonneg(3) [of "word_at pt pc"] nth_mem [of "nat pc" "pt_code pt"]
  by (fastforce simp: loadbools_ok_def)

lemma target_start:
  assumes "accepted pt" "loadbools_ok pt" "start pt pc" "pc < sizecode pt" "pc' \<in> set (vm_targets pt pc)"
  shows "start pt pc' \<and> pc' < sizecode pt"
proof -
  obtain op b c l where st: "step_ok pt pc op b c (next_word pt pc - 1) l"
    using accepted_step [OF assms(1,3,4)] by blast
  then have op: "is_op (word_at pt pc) op" "testTMode op \<Longrightarrow> check_skip pt pc = Go ()" by (auto simp: step_ok_def)
  note at = assms(1,3,4) op(1)
  have num: "op_of_num (GET_OPCODE (word_at pt pc)) = Some op" using op(1) by (simp add: op_of_num_is_op)
  consider "op = OP_RETURN" | "op \<in> {OP_JMP, OP_FORLOOP, OP_FORPREP}" | "testTMode op" | "op = OP_LOADBOOL"
    | "op = OP_SETLIST" | "op = OP_CLOSURE"
    | "op \<notin> {OP_RETURN, OP_JMP, OP_FORLOOP, OP_FORPREP, OP_LOADBOOL, OP_SETLIST, OP_CLOSURE}" "\<not> testTMode op"
    by blast
  then show ?thesis
  proof cases
    case 2
    then show ?thesis using jump_start [OF at] start_next [OF at] not_setlist_like [OF op(1)] assms(5) num
      by (auto simp: vm_targets_def Let_def)
  next
    case 3
    then show ?thesis using skip_start [OF at op(2)] assms(5) num
      by (auto simp: vm_targets_def Let_def testTMode_iff)
  next
    case 4
    then show ?thesis using loadbool_start [OF assms(1,3,4)] start_next [OF at] not_setlist_like [OF op(1)] assms(5) num
        st op(1) loadbool_C [OF assms(2) start_nonneg [OF assms(3)] assms(4)]
      by (fastforce simp: vm_targets_def Let_def)
  next
    case 5
    then show ?thesis using setlist_target [OF assms(3,4)] start_next [OF at] assms(5) num st op(1)
      by (auto simp: vm_targets_def Let_def setlist_like_def split: if_splits)
  next
    case 6
    then show ?thesis
      using closure_target [OF assms(1,3,4) _ _ _ order_refl] assms(5) num st op(1)
      by (auto simp: vm_targets_def Let_def)
  next
    case 7
    then show ?thesis using start_next [OF at] not_setlist_like [OF op(1)] assms(5) num
      by (cases op) (auto simp: vm_targets_def Let_def testTMode_iff)
  qed (use assms(5) num in \<open>simp add: vm_targets_def Let_def\<close>)
qed

lemma vm_reaches_start:
  assumes "accepted pt" "loadbools_ok pt" "vm_reaches pt pc"
  shows "start pt pc \<and> pc < sizecode pt"
  using assms(3)
proof (induction rule: vm_reaches.induct)
  case entry
  then show ?case using precheck_Go [OF accepted_precheck [OF assms(1)]] by (simp add: start.zero)
qed (use target_start [OF assms(1,2)] in blast)

section \<open>Operands\<close>

lemma checkArgMode_RK: "checkArgMode pt r OpArgK = Go u \<Longrightarrow> 0 \<le> r \<Longrightarrow> within pt (RK_operand r)"
  by (auto simp: checkArgMode_def RK_operand_def INDEXK_nonneg split: if_splits)

lemma captured_within:
  assumes "accepted pt" "start pt pc" "pc < sizecode pt"
    and "is_op (word_at pt pc) OP_GETUPVAL \<or> is_op (word_at pt pc) OP_MOVE"
  shows "within pt (captured pt pc)"
proof -
  obtain op b c l where st: "step_ok pt pc op b c (next_word pt pc - 1) l"
    using accepted_step [OF assms(1-3)] by blast
  then have "op = OP_GETUPVAL \<and> is_op (word_at pt pc) op \<or> op = OP_MOVE \<and> \<not> is_op (word_at pt pc) OP_GETUPVAL"
    using assms(4) is_op_unique unfolding step_ok_def by blast
  then show ?thesis using st fields_nonneg(2) [of "word_at pt pc"]
    by (auto simp: captured_def step_ok_def check_op_def check_operands_def checkArgMode_def mode_table Let_def)
qed

lemma closure_operands:
  assumes "accepted pt" "start pt pc" "pc < sizecode pt" "is_op (word_at pt pc) OP_CLOSURE"
    and "step_ok pt pc OP_CLOSURE b c pc' l"
    and "1 \<le> j" "j \<le> nups (pt_p pt ! nat (GETARG_Bx (word_at pt pc)))"
  shows "within pt (Word (pc + j))" "within pt (captured pt (pc + j))"
proof -
  let ?n = "nat (nups (pt_p pt ! nat (GETARG_Bx (word_at pt pc))))"
  have st: "start pt (pc + j)" "pc + j < sizecode pt"
    using closure_target [OF assms(1-5), of "j - 1"] assms(6,7) by simp_all
  have "check_upvalues pt pc ?n = Go ()"
    using assms(5) by (auto simp: step_ok_def check_op_def check_operands_def mode_table Let_def)
  moreover have "nat j \<le> ?n" using assms(7) by (rule nat_mono)
  ultimately have "is_op (word_at pt (pc + j)) OP_GETUPVAL \<or> is_op (word_at pt (pc + j)) OP_MOVE"
    using check_upvalues_word [of pt pc ?n "()" "nat j"] assms(6) by simp
  then show "within pt (captured pt (pc + j))" by (rule captured_within [OF assms(1) st])
  show "within pt (Word (pc + j))" using st start_nonneg by simp
qed

lemma operands_within:
  assumes "accepted pt" "start pt pc" "pc < sizecode pt" "x \<in> set (touches pt pc)"
  shows "within pt x"
proof -
  obtain op b c l where st: "step_ok pt pc op b c (next_word pt pc - 1) l"
    using accepted_step [OF assms(1-3)] by blast
  then have op: "op_of_num (GET_OPCODE (word_at pt pc)) = Some op" by (simp add: step_ok_def op_of_num_is_op)
  show ?thesis
  proof (cases "op = OP_CLOSURE")
    case True
    then show ?thesis
      using closure_operands [OF assms(1-3)] st op assms(4) fields_nonneg [of "word_at pt pc"]
      by (fastforce simp: touches_def op_touches_def step_ok_def check_op_def check_operands_def mode_table Let_def)
  next
    case False
    then show ?thesis
      using st op assms(4) fields_nonneg [of "word_at pt pc"] start_nonneg [OF assms(2)]
      by (cases op)
        (auto simp: touches_def op_touches_def step_ok_def check_op_def check_operands_def check_skip_def
          mode_table Let_def checkArgMode_def RK_operand_def INDEXK_nonneg split: if_splits)
  qed
qed

lemma checkcode_accepted: "luaG_checkcode pt \<Longrightarrow> accepted pt"
  by (auto simp: luaG_checkcode_def accepted_def split: checked.splits)

lemma checkcode_safe_core:
  assumes "luaG_checkcode pt" and "loadbools_ok pt" and "vm_reaches pt pc"
  shows "0 \<le> pc \<and> pc < sizecode pt \<and> start pt pc \<and> op_of_num (GET_OPCODE (word_at pt pc)) \<noteq> None \<and>
    (\<forall>x \<in> set (touches pt pc). within pt x)"
proof -
  have acc: "accepted pt" by (rule checkcode_accepted [OF assms(1)])
  have at: "start pt pc" "pc < sizecode pt" using vm_reaches_start [OF acc assms(2,3)] by simp_all
  obtain op b c l where "step_ok pt pc op b c (next_word pt pc - 1) l" using accepted_step [OF acc at] by blast
  then have "op_of_num (GET_OPCODE (word_at pt pc)) = Some op" by (simp add: step_ok_def op_of_num_is_op)
  then show ?thesis using at start_nonneg operands_within [OF acc at] by simp
qed

section \<open>Sample code\<close>

lemma fields_CREATE_ABx:
  assumes "0 \<le> a" "a < 256" "0 \<le> bc" "bc < 262144"
  shows "GET_OPCODE (CREATE_ABx c a bc) = op_num c" "GETARG_A (CREATE_ABx c a bc) = a" "GETARG_Bx (CREATE_ABx c a bc) = bc"
proof -
  note bits = bit_op_num bit_int_small [of a 8] bit_int_small [of bc 18]
  let ?i = "CREATE_ABx c a bc"
  have "drop_bit 0 ?i AND MASK1 6 0 = take_bit 6 (of_nat (op_num c))"
    by (rule bit_word_eqI) (auto simp: CREATE_ABx_def bit_simps bit_MASK1)
  then show "GET_OPCODE ?i = op_num c"
    by (simp add: field_defs unat_take_bit_op_num)
  have "drop_bit 6 ?i AND MASK1 8 0 = take_bit 8 (word_of_int a)"
    by (rule bit_word_eqI) (use assms in \<open>auto simp: CREATE_ABx_def bit_simps bit_MASK1 dest: bits\<close>)
  then show "GETARG_A ?i = a" using assms uint_small_word_of_int [of a 8] by (simp add: field_defs)
  have "drop_bit 14 ?i AND MASK1 18 0 = take_bit 18 (word_of_int bc)"
    by (rule bit_word_eqI) (use assms in \<open>auto simp: CREATE_ABx_def bit_simps bit_MASK1 dest: bits\<close>)
  then show "GETARG_Bx ?i = bc" using assms uint_small_word_of_int [of bc 18] by (simp add: field_defs)
qed

lemma op_num_inject: "op_num c = op_num c' \<longleftrightarrow> c = c'"
  by (metis op_of_num_op_num option.inject)

lemma is_op_fields:
  "0 \<le> a \<Longrightarrow> a < 256 \<Longrightarrow> 0 \<le> b \<Longrightarrow> b < 512 \<Longrightarrow> 0 \<le> c \<Longrightarrow> c < 512 \<Longrightarrow> is_op (CREATE_ABC op a b c) op' \<longleftrightarrow> op = op'"
  "0 \<le> a \<Longrightarrow> a < 256 \<Longrightarrow> 0 \<le> bc \<Longrightarrow> bc < 262144 \<Longrightarrow> is_op (CREATE_ABx op a bc) op' \<longleftrightarrow> op = op'"
  by (simp_all add: is_op_def fields_CREATE_ABC fields_CREATE_ABx op_num_inject)

lemma CREATE_ABC_nonzero:
  assumes "0 \<le> a" "a < 256" "0 \<le> b" "b < 512" "0 \<le> c" "c < 512" "op \<noteq> OP_MOVE"
  shows "CREATE_ABC op a b c \<noteq> 0"
proof
  assume "CREATE_ABC op a b c = 0"
  then have "is_op 0 op" using is_op_fields(1) [OF assms(1-6), of op op] by simp
  moreover have "is_op 0 OP_MOVE" by (simp add: is_op_def GET_OPCODE_def)
  ultimately show False using is_op_unique assms(7) by blast
qed

lemma setlists_before_numeral:
  "setlists_before pt dest (numeral n) j = andthen (fetch pt (dest - 1 - int j))
     (\<lambda>d. if setlist_like d then setlists_before pt dest (pred_numeral n) (Suc j) else Go j)"
  by (simp add: numeral_eq_Suc)

text \<open>Running the checker by rewriting.\<close>

lemmas checker_run = setlists_before_numeral CREATE_ABC_nonzero op_of_num_def opcodes_def fields_CREATE_ABC fields_CREATE_ABx is_op_fields mode_table luaG_checkcode_def symbexec_def
  symbexec_loop.simps precheck_def andthen_def check_that_def fetch_def MAXSTACK_def symbexec_step_def
  checkreg_def Let_def check_operands_def checkArgMode_def check_op_def VARARG_NEEDSARG_def check_skip_def
  check_dest_def setlist_like_def jumps_def GETARG_sBx_def MAXARG_eq NO_REG_def ISK_def BITRK_eq

text \<open>\<open>return x == y\<close> as the compiler translates it, for two parameters.\<close>

definition sample_code :: "instruction list" where
  "sample_code = [CREATE_ABC OP_EQ 1 0 1, CREATE_ABx OP_JMP 0 131072, CREATE_ABC OP_LOADBOOL 2 0 1,
     CREATE_ABC OP_LOADBOOL 2 1 0, CREATE_ABC OP_RETURN 2 2 0, CREATE_ABC OP_RETURN 0 1 0]"

definition sample_proto :: "instruction list \<Rightarrow> Proto" where
  "sample_proto is = Proto [] is [] [] [] [] None 0 0 0 2 0 3"

lemma sample_accepted: "luaG_checkcode (sample_proto sample_code)"
  by (simp add: sample_proto_def sample_code_def checker_run)

lemma sample_reaches: "vm_reaches (sample_proto sample_code) 4"
proof -
  have "vm_targets (sample_proto sample_code) 0 = [2, 3]" "vm_targets (sample_proto sample_code) 2 = [4]"
    by (simp_all add: vm_targets_def sample_proto_def sample_code_def checker_run)
  then show ?thesis using vm_reaches.intros by (metis list.set_intros)
qed




theorem symbexec_reads_inside_witness:
  "symbexec (sample_proto sample_code) 3 2 \<noteq> Outside_array"
  by (rule symbexec_reads_inside) (simp add: sample_proto_def sample_code_def)

end
