(* ===== verification/Zio.thy ===== *)
theory Zio
  imports Prelude
begin

text \<open>
  Buffered input streams (\<open>lzio.h\<close>, \<open>lzio.c\<close>). A reader hands out the input in pieces; the stream
  keeps the current piece, the position in it and the number of bytes that are left. A block read
  from the stream does not depend on how the reader cuts the input.
\<close>

section \<open>Streams\<close>

text \<open>
  A \<open>lua_Reader\<close> returns a piece or \<open>NULL\<close> and changes its own data. \<open>n\<close> is \<open>zn\<close>, the pointer \<open>p\<close> is
  the position \<open>zp\<close> in the piece \<open>zpiece\<close>.
\<close>

type_synonym 'd reader = "'d \<Rightarrow> bytes option \<times> 'd"

record 'd ZIO =
  zn :: nat
  zp :: nat
  zpiece :: bytes
  zdata :: 'd

definition EOZ :: int where "EOZ = - 1"

definition char2int :: "u8 \<Rightarrow> int" where "char2int c = uint c"

lemma char2int_EOZ [simp]: "char2int c \<noteq> EOZ" "EOZ \<noteq> char2int c"
proof -
  have "0 \<le> char2int c" "EOZ < 0" by (simp_all add: char2int_def EOZ_def)
  then show "char2int c \<noteq> EOZ" "EOZ \<noteq> char2int c" by linarith+
qed

definition luaZ_init :: "'d \<Rightarrow> 'd ZIO" where
  "luaZ_init data = \<lparr>zn = 0, zp = 0, zpiece = [], zdata = data\<rparr>"

definition luaZ_fill :: "'d reader \<Rightarrow> 'd ZIO \<Rightarrow> int \<times> 'd ZIO" where
  "luaZ_fill rd z =
     (case rd (zdata z) of
        (None, d) \<Rightarrow> (EOZ, z\<lparr>zdata := d\<rparr>)
      | (Some buff, d) \<Rightarrow>
          if length buff = 0 then (EOZ, z\<lparr>zdata := d\<rparr>)
          else (char2int (buff ! 0), \<lparr>zn = length buff - 1, zp = 1, zpiece = buff, zdata = d\<rparr>))"

text \<open>\<open>luaZ_fill\<close> takes the first byte; it is put back.\<close>

definition luaZ_lookahead :: "'d reader \<Rightarrow> 'd ZIO \<Rightarrow> int \<times> 'd ZIO" where
  "luaZ_lookahead rd z =
     (if zn z = 0 then
        (let (c, z') = luaZ_fill rd z
         in if c = EOZ then (EOZ, z')
            else (let z'' = z'\<lparr>zn := zn z' + 1, zp := zp z' - 1\<rparr> in (char2int (zpiece z'' ! zp z''), z'')))
      else (char2int (zpiece z ! zp z), z))"

lemma lookahead_room: "fst (luaZ_lookahead rd z) \<noteq> EOZ \<Longrightarrow> 0 < zn (snd (luaZ_lookahead rd z))"
  by (auto simp: luaZ_lookahead_def Let_def split: prod.splits if_splits)

text \<open>The number of bytes that are missing, the bytes stored at \<open>b\<close>, and the stream.\<close>

function luaZ_read :: "'d reader \<Rightarrow> 'd ZIO \<Rightarrow> nat \<Rightarrow> nat \<times> bytes \<times> 'd ZIO" where
  "luaZ_read rd z n =
     (if n = 0 then (0, [], z)
      else if fst (luaZ_lookahead rd z) = EOZ then (n, [], snd (luaZ_lookahead rd z))
      else (let z' = snd (luaZ_lookahead rd z);
                m = (if n \<le> zn z' then n else zn z');
                (r, b, z'') = luaZ_read rd (z'\<lparr>zn := zn z' - m, zp := zp z' + m\<rparr>) (n - m)
            in (r, take m (drop (zp z') (zpiece z')) @ b, z'')))"
  by pat_completeness auto
termination
  by (relation "measure (\<lambda>(rd, z, n). n)") (use lookahead_room in \<open>fastforce split: if_splits\<close>)+

declare luaZ_read.simps [simp del]

section \<open>What a stream delivers\<close>

text \<open>From data \<open>d\<close> on, the reader hands out the bytes \<open>bs\<close> and then the end.\<close>

inductive delivers :: "'d reader \<Rightarrow> 'd \<Rightarrow> bytes \<Rightarrow> bool" for rd where
  at_end: "rd d = (None, d') \<Longrightarrow> delivers rd d []"
| at_empty: "rd d = (Some [], d') \<Longrightarrow> delivers rd d []"
| piece: "rd d = (Some p, d') \<Longrightarrow> p \<noteq> [] \<Longrightarrow> delivers rd d' bs \<Longrightarrow> delivers rd d (p @ bs)"

inductive_cases delivers_cases: "delivers rd d bs"

definition unread :: "'d ZIO \<Rightarrow> bytes" where
  "unread z = drop (zp z) (zpiece z)"

definition stream :: "'d reader \<Rightarrow> 'd ZIO \<Rightarrow> bytes \<Rightarrow> bool" where
  "stream rd z bs \<longleftrightarrow> zp z + zn z = length (zpiece z) \<and> (\<exists>rest. delivers rd (zdata z) rest \<and> bs = unread z @ rest)"

lemma stream_init: "delivers rd d bs \<Longrightarrow> stream rd (luaZ_init d) bs"
  by (simp add: stream_def luaZ_init_def unread_def)

lemma lookahead_stream:
  assumes "stream rd z bs"
  shows "if bs = [] then fst (luaZ_lookahead rd z) = EOZ
         else fst (luaZ_lookahead rd z) = char2int (hd bs) \<and> stream rd (snd (luaZ_lookahead rd z)) bs"
proof (cases "zn z = 0")
  case False
  then have "unread z \<noteq> []" "bs \<noteq> []" "hd bs = zpiece z ! zp z"
    using assms by (auto simp: stream_def unread_def hd_drop_conv_nth)
  then show ?thesis using False assms by (simp add: luaZ_lookahead_def)
next
  case True
  then have "delivers rd (zdata z) bs" using assms by (auto simp: stream_def unread_def)
  then show ?thesis
    by (cases rule: delivers_cases)
      (use True in \<open>auto simp: luaZ_lookahead_def luaZ_fill_def stream_def unread_def hd_append hd_conv_nth nth_append Let_def\<close>)
qed

lemma stream_skip:
  assumes "stream rd z bs" "m \<le> zn z"
  shows "take m (unread z) = take m bs" "stream rd (z\<lparr>zn := zn z - m, zp := zp z + m\<rparr>) (drop m bs)"
  using assms by (auto simp: stream_def unread_def ac_simps)

lemma read_stream:
  assumes "stream rd z bs"
  shows "\<exists>z'. luaZ_read rd z n = (n - length bs, take n bs, z') \<and> (n \<le> length bs \<longrightarrow> stream rd z' (drop n bs))"
  using assms
proof (induction rd z n arbitrary: bs rule: luaZ_read.induct)
  case (1 rd z n)
  note ahead = lookahead_stream [OF "1.prems"]
  define z1 where "z1 = snd (luaZ_lookahead rd z)"
  define m where "m = (if n \<le> zn z1 then n else zn z1)"
  show ?case
  proof (cases "n = 0 \<or> bs = []")
    case True
    then show ?thesis using ahead "1.prems" by (subst luaZ_read.simps) auto
  next
    case False
    then have la: "fst (luaZ_lookahead rd z) \<noteq> EOZ" "stream rd z1 bs" using ahead by (auto simp: z1_def)
    have m: "m \<le> zn z1" "m \<le> n" by (simp_all add: m_def)
    have len: "m \<le> length bs" using la(2) m(1) by (auto simp: stream_def unread_def)
    from stream_skip [OF la(2) m(1)] obtain z2 where
      z2: "luaZ_read rd (z1\<lparr>zn := zn z1 - m, zp := zp z1 + m\<rparr>) (n - m)
             = (n - m - length (drop m bs), take (n - m) (drop m bs), z2)"
        "n - m \<le> length (drop m bs) \<longrightarrow> stream rd z2 (drop (n - m) (drop m bs))"
      using "1.IH" [of z1 m "drop m bs"] False la(1) by (auto simp: z1_def m_def)
    have "luaZ_read rd z n = (n - length bs, take m bs @ take (n - m) (drop m bs), z2)"
      using False la(1) z2(1) stream_skip(1) [OF la(2) m(1)] len m
      by (subst luaZ_read.simps) (simp add: z1_def [symmetric] m_def [symmetric] unread_def)
    moreover have "take m bs @ take (n - m) (drop m bs) = take n bs"
      using m(2) by (simp flip: take_add)
    ultimately show ?thesis using z2(2) m len by (auto simp: ac_simps)
  qed
qed

end
