(* ===== verification/Chunks.thy ===== *)
theory Chunks
  imports Meta Checker Zio
begin

text \<open>
  Binary chunks: writing a function prototype (\<open>ldump.c\<close>) and reading one (\<open>lundump.c\<close>). Integers
  are stored as the machine has them: little endian, an \<open>int\<close> in 4 bytes, a \<open>size_t\<close> and a number
  in 8.
\<close>

section \<open>Bytes of machine words\<close>

primrec word_bytes :: "nat \<Rightarrow> 'a::len word \<Rightarrow> bytes" where
  "word_bytes 0 w = []"
| "word_bytes (Suc n) w = ucast w # word_bytes n (drop_bit 8 w)"

primrec bytes_word :: "bytes \<Rightarrow> 'a::len word" where
  "bytes_word [] = 0"
| "bytes_word (b # bs) = ucast b OR push_bit 8 (bytes_word bs)"

definition int_bytes :: "int \<Rightarrow> bytes" where
  "int_bytes x = word_bytes 4 (word_of_int x :: u32)"

definition bytes_int :: "bytes \<Rightarrow> int" where
  "bytes_int bs = sint (bytes_word bs :: u32)"

definition size_bytes :: "nat \<Rightarrow> bytes" where
  "size_bytes n = word_bytes 8 (of_nat n :: u64)"

section \<open>The header\<close>

definition LUA_SIGNATURE :: bytes where "LUA_SIGNATURE = 0x1B # lit ''Lua''"
definition LUAC_VERSION :: u8 where "LUAC_VERSION = 0x51"
definition LUAC_FORMAT :: u8 where "LUAC_FORMAT = 0"
definition LUAC_HEADERSIZE :: nat where "LUAC_HEADERSIZE = 12"

text \<open>The byte order is the first byte of an \<open>int\<close> that is 1; \<open>0.5\<close> is not 0.\<close>

definition luaU_header :: bytes where
  "luaU_header = LUA_SIGNATURE @ [LUAC_VERSION, LUAC_FORMAT, hd (int_bytes 1), 4, 8, 4, 8, 0]"

section \<open>Dump\<close>

text \<open>
  A \<open>lua_Writer\<close> takes a block and returns a status and its new data; after a status that is not
  0 it is not called again.
\<close>

type_synonym 'd writer = "bytes \<Rightarrow> 'd \<Rightarrow> int \<times> 'd"

record 'd DumpState =
  D_data :: 'd
  D_strip :: bool
  D_status :: int

definition in_turn :: "('s \<Rightarrow> 's) list \<Rightarrow> 's \<Rightarrow> 's" where
  "in_turn fs s = fold (\<lambda>f s. f s) fs s"

definition DumpBlock :: "'d writer \<Rightarrow> bytes \<Rightarrow> 'd DumpState \<Rightarrow> 'd DumpState" where
  "DumpBlock w b D =
     (if D_status D = 0 then (let (st, d) = w b (D_data D) in D\<lparr>D_status := st, D_data := d\<rparr>) else D)"

definition DumpChar :: "'d writer \<Rightarrow> int \<Rightarrow> 'd DumpState \<Rightarrow> 'd DumpState" where
  "DumpChar w y = DumpBlock w [word_of_int y]"

definition DumpInt :: "'d writer \<Rightarrow> int \<Rightarrow> 'd DumpState \<Rightarrow> 'd DumpState" where
  "DumpInt w x = DumpBlock w (int_bytes x)"

definition DumpNumber :: "'d writer \<Rightarrow> lua_Number \<Rightarrow> 'd DumpState \<Rightarrow> 'd DumpState" where
  "DumpNumber w x = DumpBlock w (word_bytes 8 x)"

text \<open>The elements of the vector are given with the bytes of each.\<close>

definition DumpVector :: "'d writer \<Rightarrow> ('e \<Rightarrow> bytes) \<Rightarrow> 'e list \<Rightarrow> 'd DumpState \<Rightarrow> 'd DumpState" where
  "DumpVector w f b = in_turn [DumpInt w (int (length b)), DumpBlock w (concat (map f b))]"

definition DumpString :: "'d writer \<Rightarrow> bytes option \<Rightarrow> 'd DumpState \<Rightarrow> 'd DumpState" where
  "DumpString w s =
     (case s of
        None \<Rightarrow> DumpBlock w (size_bytes 0)
      | Some str \<Rightarrow>
          (let size = length str + 1 in in_turn [DumpBlock w (size_bytes size), DumpBlock w (str @ [0])]))"

definition DumpCode :: "'d writer \<Rightarrow> Proto \<Rightarrow> 'd DumpState \<Rightarrow> 'd DumpState" where
  "DumpCode w f = DumpVector w (word_bytes 4) (pt_code f)"

definition DumpConstant :: "'d writer \<Rightarrow> TValue \<Rightarrow> 'd DumpState \<Rightarrow> 'd DumpState" where
  "DumpConstant w v =
     in_turn [DumpChar w (ttype v),
       (case v of
          TBoolean b \<Rightarrow> DumpChar w (if b then 1 else 0)
        | TNumber n \<Rightarrow> DumpNumber w n
        | TString s \<Rightarrow> DumpString w (Some s)
        | _ \<Rightarrow> (\<lambda>D. D))]"

definition DumpConstants :: "'d writer \<Rightarrow> (Proto \<Rightarrow> 'd DumpState \<Rightarrow> 'd DumpState) \<Rightarrow> Proto
    \<Rightarrow> 'd DumpState \<Rightarrow> 'd DumpState" where
  "DumpConstants w DumpChild f =
     in_turn [DumpInt w (sizek f), fold (DumpConstant w) (pt_k f),
       DumpInt w (sizep f), fold DumpChild (pt_p f)]"

definition DumpLocVar :: "'d writer \<Rightarrow> LocVar \<Rightarrow> 'd DumpState \<Rightarrow> 'd DumpState" where
  "DumpLocVar w v = in_turn [DumpString w (varname v), DumpInt w (startpc v), DumpInt w (endpc v)]"

definition DumpDebug :: "'d writer \<Rightarrow> Proto \<Rightarrow> 'd DumpState \<Rightarrow> 'd DumpState" where
  "DumpDebug w f D =
     in_turn [DumpVector w int_bytes (if D_strip D then [] else pt_lineinfo f),
       DumpInt w (if D_strip D then 0 else int (length (pt_locvars f))),
       fold (DumpLocVar w) (if D_strip D then [] else pt_locvars f),
       DumpInt w (if D_strip D then 0 else int (length (pt_upvalues f))),
       fold (DumpString w) (if D_strip D then [] else pt_upvalues f)] D"

lemma DumpConstants_cong [fundef_cong]:
  assumes "f = f'" and "\<And>g. g \<in> set (pt_p f') \<Longrightarrow> d g = d' g"
  shows "DumpConstants w d f = DumpConstants w d' f'"
proof -
  have "fold d (pt_p f') = fold d' (pt_p f')"
    by (rule ext, rule fold_cong) (use assms(2) in auto)
  then show ?thesis using assms(1) by (simp add: DumpConstants_def)
qed

lemma size_pt_p: "g \<in> set (pt_p f) \<Longrightarrow> size g < size f"
  by (cases f) (auto dest: size_list_estimation' [where f = size, OF _ order_refl])

text \<open>\<open>p\<close> is the source of the enclosing function; the same source is not written again.\<close>

function DumpFunction :: "'d writer \<Rightarrow> Proto \<Rightarrow> bytes option \<Rightarrow> 'd DumpState \<Rightarrow> 'd DumpState" where
  "DumpFunction w f p =
     in_turn [\<lambda>D. DumpString w (if pt_source f = p \<or> D_strip D then None else pt_source f) D,
       DumpInt w (pt_linedefined f), DumpInt w (pt_lastlinedefined f),
       DumpChar w (nups f), DumpChar w (uint (pt_numparams f)),
       DumpChar w (uint (pt_is_vararg f)), DumpChar w (maxstack f),
       DumpCode w f, DumpConstants w (\<lambda>g. DumpFunction w g (pt_source f)) f, DumpDebug w f]"
  by pat_completeness auto
termination by (relation "measure (\<lambda>(w, f, p). size f)") (auto simp: size_pt_p)

declare DumpFunction.simps [simp del]

definition DumpHeader :: "'d writer \<Rightarrow> 'd DumpState \<Rightarrow> 'd DumpState" where
  "DumpHeader w = DumpBlock w luaU_header"

definition luaU_dump :: "Proto \<Rightarrow> 'd writer \<Rightarrow> 'd \<Rightarrow> bool \<Rightarrow> int \<times> 'd" where
  "luaU_dump f w data strip =
     (let D = in_turn [DumpHeader w, DumpFunction w f None] \<lparr>D_data = data, D_strip = strip, D_status = 0\<rparr>
      in (D_status D, D_data D))"

text \<open>The writer of \<open>string.dump\<close>: the data are the contents of its buffer.\<close>

definition str_dump_writer :: "bytes writer" where
  "str_dump_writer b B = (0, B @ b)"

section \<open>Undump\<close>

text \<open>
  The state of a load: the stream, the name of the chunk, the size of the buffer for strings, a
  count of the allocations and the message of the error. \<open>mem i n\<close> says whether the \<open>i\<close>-th
  allocation finds \<open>n\<close> bytes; the interned string may exist already, then its allocation is one
  that succeeds. The copies of the prototypes on the Lua stack, which keep them from being
  collected, are left out.
\<close>

record 'd LoadState =
  S_Z :: "'d ZIO"
  S_name :: bytes
  S_buffsize :: nat
  S_allocs :: nat
  S_errmsg :: bytes

type_synonym ('d, 'a) loader = "('d LoadState, 'a) prog"
type_synonym memory = "nat \<Rightarrow> nat \<Rightarrow> bool"

definition load_error :: "string \<Rightarrow> ('d, 'a) loader" where
  "load_error why =
     seq (upd (\<lambda>S. S\<lparr>S_errmsg := S_name S @ lit '': '' @ lit why @ lit '' in precompiled chunk''\<rparr>)) (raise LUA_ERRSYNTAX)"

definition luaM_toobig :: "('d, 'a) loader" where
  "luaM_toobig = seq (upd (S_errmsg_update (\<lambda>_. lit ''memory allocation error: block too big''))) (raise LUA_ERRRUN)"

definition luaM_realloc :: "memory \<Rightarrow> nat \<Rightarrow> ('d, unit) loader" where
  "luaM_realloc mem nsize S =
     (let S' = S\<lparr>S_allocs := S_allocs S + 1\<rparr>
      in if mem (S_allocs S) nsize \<or> nsize = 0 then Val () S' else Raise LUA_ERRMEM S')"

text \<open>\<open>cast(size_t, (n)+1) <= MAX_SIZET/(e)\<close> for an \<open>int n\<close>, with the sum as it is compiled.\<close>

definition luaM_newvector :: "memory \<Rightarrow> int \<Rightarrow> nat \<Rightarrow> ('d, unit) loader" where
  "luaM_newvector mem n e =
     (if unat (word_of_int (signed_take_bit 31 (n + 1)) :: u64) \<le> MAX_SIZET div e
      then luaM_realloc mem (nat n * e) else luaM_toobig)"

definition LUA_MINBUFFER :: nat where "LUA_MINBUFFER = 32"

definition luaZ_openspace :: "memory \<Rightarrow> nat \<Rightarrow> ('d, unit) loader" where
  "luaZ_openspace mem n =
     bnd (get S_buffsize) (\<lambda>sz.
       if n > sz then
         (let n = (if n < LUA_MINBUFFER then LUA_MINBUFFER else n)
          in seq (if (n + 1) mod 2 ^ 64 \<le> MAX_SIZET then luaM_realloc mem n else luaM_toobig)
               (upd (S_buffsize_update (\<lambda>_. n))))
       else ret ())"

text \<open>\<open>luaS_newlstr\<close>: a string is its contents (theory Strings).\<close>

definition new_string :: "memory \<Rightarrow> bytes \<Rightarrow> ('d, bytes) loader" where
  "new_string mem s =
     (if length s + 1 > MAX_SIZET - 24 then luaM_toobig
      else seq (luaM_realloc mem (length s + 1 + 24)) (ret s))"

definition LoadBlock :: "'d reader \<Rightarrow> nat \<Rightarrow> ('d, bytes) loader" where
  "LoadBlock rd sz S =
     (let (r, b, z) = luaZ_read rd (S_Z S) sz; S' = S\<lparr>S_Z := z\<rparr>
      in if r \<noteq> 0 then load_error ''unexpected end'' S' else Val b S')"

definition LoadChar :: "'d reader \<Rightarrow> ('d, u8) loader" where
  "LoadChar rd = bnd (LoadBlock rd 1) (\<lambda>b. ret (b ! 0))"

definition LoadInt :: "'d reader \<Rightarrow> ('d, int) loader" where
  "LoadInt rd = bnd (LoadBlock rd 4) (\<lambda>b. let x = bytes_int b in if x < 0 then load_error ''bad integer'' else ret x)"

definition LoadNumber :: "'d reader \<Rightarrow> ('d, lua_Number) loader" where
  "LoadNumber rd = bnd (LoadBlock rd 8) (\<lambda>b. ret (bytes_word b))"

definition LoadString :: "'d reader \<Rightarrow> memory \<Rightarrow> ('d, bytes option) loader" where
  "LoadString rd mem =
     bnd (LoadBlock rd 8) (\<lambda>b. let sz = unat (bytes_word b :: u64)
       in if sz = 0 then ret None
          else seq (luaZ_openspace mem sz) (bnd (LoadBlock rd sz) (\<lambda>s.
                 bnd (new_string mem (take (sz - 1) s)) (\<lambda>ts. ret (Some ts)))))"

text \<open>The elements of a vector are consecutive groups of \<open>e\<close> bytes.\<close>

primrec groups :: "nat \<Rightarrow> nat \<Rightarrow> bytes \<Rightarrow> bytes list" where
  "groups e 0 bs = []"
| "groups e (Suc n) bs = take e bs # groups e n (drop e bs)"

definition LoadVector :: "'d reader \<Rightarrow> memory \<Rightarrow> nat \<Rightarrow> ('d, bytes list) loader" where
  "LoadVector rd mem e =
     bnd (LoadInt rd) (\<lambda>n. seq (luaM_newvector mem n e)
       (bnd (LoadBlock rd (nat n * e)) (\<lambda>b. ret (groups e (nat n) b))))"

definition LoadCode :: "'d reader \<Rightarrow> memory \<Rightarrow> ('d, instruction list) loader" where
  "LoadCode rd mem = bnd (LoadVector rd mem 4) (\<lambda>v. ret (map bytes_word v))"

primrec load_times :: "nat \<Rightarrow> ('d, 'a) loader \<Rightarrow> ('d, 'a list) loader" where
  "load_times 0 m = ret []"
| "load_times (Suc n) m = bnd m (\<lambda>x. bnd (load_times n m) (\<lambda>xs. ret (x # xs)))"

text \<open>A loop that fills a new array.\<close>

definition load_array :: "'d reader \<Rightarrow> memory \<Rightarrow> nat \<Rightarrow> ('d, 'a) loader \<Rightarrow> ('d, 'a list) loader" where
  "load_array rd mem e m =
     bnd (LoadInt rd) (\<lambda>n. seq (luaM_newvector mem n e) (load_times (nat n) m))"

text \<open>A string constant that is \<open>NULL\<close> is stored as a string without an address.\<close>

definition LoadConstant :: "'d reader \<Rightarrow> memory \<Rightarrow> ('d, TValue) loader" where
  "LoadConstant rd mem =
     bnd (LoadChar rd) (\<lambda>t.
       if t = 0 then ret TNil
       else if t = 1 then bnd (LoadChar rd) (\<lambda>b. ret (TBoolean (b \<noteq> 0)))
       else if t = 3 then bnd (LoadNumber rd) (\<lambda>n. ret (TNumber n))
       else if t = 4 then bnd (LoadString rd mem) (\<lambda>s. case s of None \<Rightarrow> undef | Some s \<Rightarrow> ret (TString s))
       else load_error ''bad constant'')"

definition LoadConstants :: "'d reader \<Rightarrow> memory \<Rightarrow> ('d, Proto) loader \<Rightarrow> ('d, TValue list \<times> Proto list) loader" where
  "LoadConstants rd mem LoadChild =
     bnd (load_array rd mem 16 (LoadConstant rd mem)) (\<lambda>k.
     bnd (load_array rd mem 8 LoadChild) (\<lambda>p. ret (k, p)))"

definition LoadLocVar :: "'d reader \<Rightarrow> memory \<Rightarrow> ('d, LocVar) loader" where
  "LoadLocVar rd mem =
     bnd (LoadString rd mem) (\<lambda>v. bnd (LoadInt rd) (\<lambda>s. bnd (LoadInt rd) (\<lambda>e.
       ret \<lparr>varname = v, startpc = s, endpc = e\<rparr>)))"

definition LoadDebug :: "'d reader \<Rightarrow> memory \<Rightarrow> ('d, int list \<times> LocVar list \<times> bytes option list) loader" where
  "LoadDebug rd mem =
     bnd (LoadVector rd mem 4) (\<lambda>li.
     bnd (load_array rd mem 16 (LoadLocVar rd mem)) (\<lambda>lv.
     bnd (load_array rd mem 8 (LoadString rd mem)) (\<lambda>uv.
       ret (map bytes_int li, lv, uv))))"

definition sizeof_Proto :: nat where "sizeof_Proto = 120"

text \<open>\<open>d\<close> is what is left of \<open>LUAI_MAXCCALLS\<close> when the function starts: \<open>++nCcalls\<close> takes one.\<close>

primrec LoadFunction :: "'d reader \<Rightarrow> memory \<Rightarrow> nat \<Rightarrow> bytes \<Rightarrow> ('d, Proto) loader" where
  "LoadFunction rd mem 0 p = load_error ''code too deep''"
| "LoadFunction rd mem (Suc d) p =
     seq (luaM_realloc mem sizeof_Proto)
     (bnd (LoadString rd mem) (\<lambda>s. let source = (case s of None \<Rightarrow> p | Some s \<Rightarrow> s) in
      bnd (LoadInt rd) (\<lambda>linedefined.
      bnd (LoadInt rd) (\<lambda>lastlinedefined.
      bnd (LoadChar rd) (\<lambda>nu.
      bnd (LoadChar rd) (\<lambda>numparams.
      bnd (LoadChar rd) (\<lambda>is_vararg.
      bnd (LoadChar rd) (\<lambda>maxstacksize.
      bnd (LoadCode rd mem) (\<lambda>code.
      bnd (LoadConstants rd mem (LoadFunction rd mem d source)) (\<lambda>(k, ps).
      bnd (LoadDebug rd mem) (\<lambda>(lineinfo, locvars, upvalues).
        let f = Proto k code ps lineinfo locvars upvalues (Some source) linedefined lastlinedefined
                  nu numparams is_vararg maxstacksize
        in if \<not> luaG_checkcode f then load_error ''bad code'' else ret f)))))))))))"

definition LoadHeader :: "'d reader \<Rightarrow> ('d, unit) loader" where
  "LoadHeader rd = bnd (LoadBlock rd LUAC_HEADERSIZE) (\<lambda>s.
     if luaU_header \<noteq> s then load_error ''bad header'' else ret ())"

definition chunk_name :: "bytes \<Rightarrow> bytes" where
  "chunk_name name =
     (case name of [] \<Rightarrow> []
      | c # cs \<Rightarrow> if c = of_char CHR ''@'' \<or> c = of_char CHR ''='' then cs
                  else if c = hd LUA_SIGNATURE then lit ''binary string'' else name)"

definition luaU_undump :: "'d reader \<Rightarrow> memory \<Rightarrow> nat \<Rightarrow> bytes \<Rightarrow> ('d, Proto) loader" where
  "luaU_undump rd mem d name =
     seq (upd (S_name_update (\<lambda>_. chunk_name name)))
     (seq (LoadHeader rd) (bnd (new_string mem (lit ''=?'')) (LoadFunction rd mem d)))"

definition LoadState_of :: "'d ZIO \<Rightarrow> 'd LoadState" where
  "LoadState_of z = \<lparr>S_Z = z, S_name = [], S_buffsize = 0, S_allocs = 0, S_errmsg = []\<rparr>"

end
