(* ===== verification/Undump.thy ===== *)
theory Undump
  imports Chunks
begin

text \<open>
  What dumping and loading promise. A dump loaded again is the same function, and a dump that is
  cut short is refused; a load does not depend on the pieces in which the input arrives; whatever
  the input is, every function that comes out of a load has passed the code checker.
\<close>

section \<open>Words and their bytes\<close>

lemma length_word_bytes [simp]: "length (word_bytes n w) = n"
  by (induction n arbitrary: w) simp_all

lemma bytes_word_bytes: "bytes_word (word_bytes n w) = take_bit (8 * n) (w :: 'a::len word)"
proof (induction n arbitrary: w)
  case (Suc n)
  show ?case
    by (rule bit_word_eqI) (auto simp: Suc.IH bit_simps)
qed simp

lemma bytes_word_32: "bytes_word (word_bytes 4 w) = (w :: u32)"
  by (simp add: bytes_word_bytes take_bit_word_eq_self)

lemma bytes_word_64: "bytes_word (word_bytes 8 w) = (w :: u64)"
  by (simp add: bytes_word_bytes take_bit_word_eq_self)

definition is_int :: "int \<Rightarrow> bool" where "is_int x \<longleftrightarrow> - (2 ^ 31) \<le> x \<and> x < 2 ^ 31"

lemma bytes_int_bytes: "is_int x \<Longrightarrow> bytes_int (int_bytes x) = x"
  by (simp add: is_int_def bytes_int_def int_bytes_def bytes_word_32 signed_of_int signed_take_bit_int_eq_self)

lemma unat_size_bytes: "n < 2 ^ 64 \<Longrightarrow> unat (bytes_word (size_bytes n) :: u64) = n"
  by (simp add: size_bytes_def bytes_word_64 unsigned_of_nat take_bit_nat_eq_self)

lemma length_bytes [simp]: "length (int_bytes x) = 4" "length (size_bytes n) = 8"
  by (simp_all add: int_bytes_def size_bytes_def)

section \<open>Loaders and the bytes they take\<close>

text \<open>
  \<open>reads rd m bs a\<close>: on a stream that begins with \<open>bs\<close> the loader \<open>m\<close> returns \<open>a\<close> and takes just
  \<open>bs\<close>; on a stream that ends inside \<open>bs\<close> it raises a syntax error, the unexpected end.
\<close>

definition unexpected_end :: "bytes \<Rightarrow> bytes" where
  "unexpected_end name = name @ lit '': unexpected end in precompiled chunk''"

definition reads :: "'d reader \<Rightarrow> ('d, 'a) loader \<Rightarrow> bytes \<Rightarrow> 'a \<Rightarrow> bool" where
  "reads rd m bs a \<longleftrightarrow>
     (\<forall>S rest. stream rd (S_Z S) (bs @ rest) \<longrightarrow>
        (\<exists>S'. m S = Val a S' \<and> stream rd (S_Z S') rest \<and> S_name S' = S_name S)) \<and>
     (\<forall>S n. n < length bs \<and> stream rd (S_Z S) (take n bs) \<longrightarrow>
        (\<exists>S'. m S = Raise LUA_ERRSYNTAX S' \<and> S_errmsg S' = unexpected_end (S_name S)))"

lemma readsD:
  "reads rd m bs a \<Longrightarrow> stream rd (S_Z S) (bs @ rest) \<Longrightarrow>
     \<exists>S'. m S = Val a S' \<and> stream rd (S_Z S') rest \<and> S_name S' = S_name S"
  "reads rd m bs a \<Longrightarrow> n < length bs \<Longrightarrow> stream rd (S_Z S) (take n bs) \<Longrightarrow>
     \<exists>S'. m S = Raise LUA_ERRSYNTAX S' \<and> S_errmsg S' = unexpected_end (S_name S)"
  unfolding reads_def by blast+

named_theorems reading \<open>what the loaders read\<close>

lemma reads_bnd:
  fixes rd :: "'d reader"
  assumes "reads rd m bs1 a" "reads rd (f a) bs2 b" "bs = bs1 @ bs2"
  shows "reads rd (bnd m f) bs b"
  unfolding reads_def
proof (intro conjI allI impI)
  fix S :: "'d LoadState" and rest
  assume "stream rd (S_Z S) (bs @ rest)"
  then obtain S1 where S1: "m S = Val a S1" "stream rd (S_Z S1) (bs2 @ rest)" "S_name S1 = S_name S"
    using readsD(1) [OF assms(1), of S "bs2 @ rest"] assms(3) by auto
  with readsD(1) [OF assms(2)] obtain S2 where "f a S1 = Val b S2" "stream rd (S_Z S2) rest" "S_name S2 = S_name S1"
    by blast
  then show "\<exists>S'. bnd m f S = Val b S' \<and> stream rd (S_Z S') rest \<and> S_name S' = S_name S"
    using S1 by (simp add: bnd_def)
next
  fix S :: "'d LoadState" and n
  assume n: "n < length bs \<and> stream rd (S_Z S) (take n bs)"
  show "\<exists>S'. bnd m f S = Raise LUA_ERRSYNTAX S' \<and> S_errmsg S' = unexpected_end (S_name S)"
  proof (cases "n < length bs1")
    case True
    then have "stream rd (S_Z S) (take n bs1)" using n assms(3) by simp
    then obtain S' where "m S = Raise LUA_ERRSYNTAX S'" "S_errmsg S' = unexpected_end (S_name S)"
      using readsD(2) [OF assms(1) True] by blast
    then show ?thesis by (simp add: bnd_def)
  next
    case False
    then have "stream rd (S_Z S) (bs1 @ take (n - length bs1) bs2)" using n assms(3) by simp
    then obtain S1 where S1: "m S = Val a S1" "stream rd (S_Z S1) (take (n - length bs1) bs2)" "S_name S1 = S_name S"
      using readsD(1) [OF assms(1)] by blast
    moreover have "n - length bs1 < length bs2" using n False assms(3) by auto
    ultimately obtain S' where "f a S1 = Raise LUA_ERRSYNTAX S'" "S_errmsg S' = unexpected_end (S_name S1)"
      using readsD(2) [OF assms(2)] by blast
    then show ?thesis using S1 by (simp add: bnd_def)
  qed
qed

lemma reads_ret [reading]: "reads rd (ret a) [] a"
  by (simp add: reads_def)

lemma reads_silent: "(\<And>S. \<exists>S'. m S = Val a S' \<and> S_Z S' = S_Z S \<and> S_name S' = S_name S) \<Longrightarrow> reads rd m [] a"
  unfolding reads_def by (metis append_Nil length_0_conv less_zeroE list.size(3))

lemma reads_seq: "reads rd m [] () \<Longrightarrow> reads rd n bs b \<Longrightarrow> reads rd (seq m n) bs b"
  unfolding seq_def by (rule reads_bnd) auto

lemma reads_then: "reads rd m bs a \<Longrightarrow> f a = ret b \<Longrightarrow> reads rd (bnd m f) bs b"
  by (rule reads_bnd) (auto intro: reads_ret)

lemma reads_LoadBlock: "length bs = n \<Longrightarrow> reads (rd :: 'd reader) (LoadBlock rd n) bs bs"
  unfolding reads_def
proof (intro conjI allI impI)
  fix S :: "'d LoadState" and rest
  assume "length bs = n" "stream rd (S_Z S) (bs @ rest)"
  with read_stream [OF this(2), of n] show
    "\<exists>S'. LoadBlock rd n S = Val bs S' \<and> stream rd (S_Z S') rest \<and> S_name S' = S_name S"
    by (auto simp: LoadBlock_def)
next
  fix S :: "'d LoadState" and i
  assume "length bs = n" "i < length bs \<and> stream rd (S_Z S) (take i bs)"
  with read_stream [of rd "S_Z S" "take i bs" n] show
    "\<exists>S'. LoadBlock rd n S = Raise LUA_ERRSYNTAX S' \<and> S_errmsg S' = unexpected_end (S_name S)"
    by (auto simp: LoadBlock_def load_error_def unexpected_end_def lit_def seq_def bnd_def)
qed

lemma reads_LoadChar [reading]: "reads rd (LoadChar rd) [c] c"
  unfolding LoadChar_def by (rule reads_then [OF reads_LoadBlock]) simp_all

lemma reads_LoadInt: "0 \<le> x \<Longrightarrow> x < 2 ^ 31 \<Longrightarrow> reads rd (LoadInt rd) (int_bytes x) x"
  unfolding LoadInt_def by (rule reads_then [OF reads_LoadBlock]) (simp_all add: bytes_int_bytes is_int_def)

lemma reads_LoadNumber [reading]: "reads rd (LoadNumber rd) (word_bytes 8 x) x"
  unfolding LoadNumber_def by (rule reads_then [OF reads_LoadBlock]) (simp_all add: bytes_word_64)

section \<open>Strings, vectors and arrays\<close>

text \<open>Enough memory: every allocation succeeds.\<close>

definition mem_ok :: "memory \<Rightarrow> bool" where "mem_ok mem \<longleftrightarrow> (\<forall>i n. mem i n)"

lemma reads_realloc: "mem_ok mem \<Longrightarrow> reads rd (luaM_realloc mem n) [] ()"
  by (rule reads_silent) (simp add: luaM_realloc_def mem_ok_def)

lemma reads_newvector:
  assumes "mem_ok mem" "0 \<le> n" "n < 2 ^ 31 - 1" "e \<in> {4, 8, 16}"
  shows "reads rd (luaM_newvector mem n e) [] ()"
proof -
  have "unat (word_of_int (signed_take_bit 31 m) :: u64) = nat m" if "0 \<le> m" "m < 2 ^ 31" for m
    using that by (simp add: signed_take_bit_int_eq_self unsigned_of_int take_bit_int_eq_self)
  from this [of "n + 1"] have "unat (word_of_int (signed_take_bit 31 (n + 1)) :: u64) = nat (n + 1)"
    using assms(2,3) by simp
  moreover have "nat (n + 1) \<le> MAX_SIZET div e"
    using assms(2-4) by (auto simp: MAX_SIZET_def)
  ultimately show ?thesis using reads_realloc [OF assms(1)] by (simp add: luaM_newvector_def)
qed

lemma reads_openspace:
  assumes "mem_ok mem" "n < 2 ^ 63"
  shows "reads rd (luaZ_openspace mem n) [] ()"
  by (rule reads_silent)
    (use assms in \<open>auto simp: luaZ_openspace_def bnd_def seq_def luaM_realloc_def mem_ok_def MAX_SIZET_def
       LUA_MINBUFFER_def Let_def\<close>)

lemma reads_new_string: "mem_ok mem \<Longrightarrow> length s < 2 ^ 63 \<Longrightarrow> reads rd (new_string mem s) [] s"
  by (rule reads_silent) (auto simp: new_string_def seq_def bnd_def luaM_realloc_def mem_ok_def MAX_SIZET_def)

definition str_bytes :: "bytes option \<Rightarrow> bytes" where
  "str_bytes s = (case s of None \<Rightarrow> size_bytes 0 | Some b \<Rightarrow> size_bytes (length b + 1) @ b @ [0])"

definition str_ok :: "bytes option \<Rightarrow> bool" where
  "str_ok s \<longleftrightarrow> (case s of None \<Rightarrow> True | Some b \<Rightarrow> int (length b) + 1 < 2 ^ 63)"

lemma reads_LoadString:
  assumes "mem_ok mem" "str_ok s"
  shows "reads rd (LoadString rd mem) (str_bytes s) s"
proof (cases s)
  case None
  then show ?thesis unfolding LoadString_def str_bytes_def
    by (auto intro!: reads_then [OF reads_LoadBlock] simp: unat_size_bytes)
next
  case (Some b)
  then have len: "length b + 1 < 2 ^ 63" using assms(2) by (simp add: str_ok_def)
  then have sz: "unat (bytes_word (size_bytes (length b + 1)) :: u64) = length b + 1"
    by (intro unat_size_bytes) simp
  define f where "f = (\<lambda>s. bnd (new_string mem (take (length b + 1 - 1) s)) (\<lambda>ts. ret (Some ts) :: ('a, bytes option) loader))"
  have "reads rd (f (b @ [0])) [] s"
    unfolding f_def using Some len by (intro reads_then [OF reads_new_string [OF assms(1)]]) auto
  then have "reads rd (bnd (LoadBlock rd (length b + 1)) f) (b @ [0]) s"
    by (rule reads_bnd [OF reads_LoadBlock, rotated]) auto
  then show ?thesis
    unfolding LoadString_def str_bytes_def Some option.case
    by (intro reads_bnd [OF reads_LoadBlock]) (use sz len assms(1) in \<open>auto simp: f_def Let_def intro!: reads_seq reads_openspace\<close>)
qed

lemma reads_times:
  "(\<And>x. x \<in> set xs \<Longrightarrow> reads rd m (enc x) (g x)) \<Longrightarrow>
   reads rd (load_times (length xs) m) (concat (map enc xs)) (map g xs)"
proof (induction xs)
  case (Cons x xs)
  have "reads rd (bnd (load_times (length xs) m) (\<lambda>ys. ret (g x # ys))) (concat (map enc xs)) (map g (x # xs))"
    by (rule reads_then) (use Cons in auto)
  then show ?case using Cons.prems by (auto intro: reads_bnd)
qed (simp add: reads_ret)

definition count_ok :: "'e list \<Rightarrow> bool" where "count_ok xs \<longleftrightarrow> int (length xs) < 2 ^ 31 - 1"

lemma reads_array:
  assumes "mem_ok mem" "count_ok xs" "e \<in> {4, 8, 16}" "\<And>x. x \<in> set xs \<Longrightarrow> reads rd m (enc x) (g x)"
  shows "reads rd (load_array rd mem e m) (int_bytes (int (length xs)) @ concat (map enc xs)) (map g xs)"
  unfolding load_array_def
  using assms(1-3) reads_times [OF assms(4)]
  by (intro reads_bnd [OF reads_LoadInt] reads_seq reads_newvector) (auto simp: count_ok_def)

text \<open>A vector is written as its length and its elements.\<close>

definition vector_bytes :: "('e \<Rightarrow> bytes) \<Rightarrow> 'e list \<Rightarrow> bytes" where
  "vector_bytes enc xs = int_bytes (int (length xs)) @ concat (map enc xs)"

lemma groups_concat: "\<forall>x \<in> set xs. length (enc x) = e \<Longrightarrow> groups e (length xs) (concat (map enc xs)) = map enc xs"
  by (induction xs) auto

lemma reads_LoadVector:
  assumes "mem_ok mem" "count_ok xs" "\<And>x. length (enc x) = 4"
  shows "reads rd (LoadVector rd mem 4) (vector_bytes enc xs) (map enc xs)"
proof -
  have "length (concat (map enc xs)) = length xs * 4" using assms(3) by (induction xs) auto
  then have "reads rd (bnd (LoadBlock rd (length xs * 4)) (\<lambda>b. ret (groups 4 (length xs) b))) (concat (map enc xs)) (map enc xs)"
    using assms(3) by (intro reads_then [OF reads_LoadBlock]) (simp_all add: groups_concat)
  then show ?thesis unfolding LoadVector_def vector_bytes_def
    using assms(1,2) by (intro reads_bnd [OF reads_LoadInt] reads_seq reads_newvector) (auto simp: count_ok_def)
qed

section \<open>The bytes of a function\<close>

text \<open>The format of a chunk, and the function that a load makes of it.\<close>

definition const_bytes :: "TValue \<Rightarrow> bytes" where
  "const_bytes v = word_of_int (ttype v) #
     (case v of TBoolean b \<Rightarrow> [if b then 1 else 0] | TNumber n \<Rightarrow> word_bytes 8 n | TString s \<Rightarrow> str_bytes (Some s) | _ \<Rightarrow> [])"

definition const_ok :: "TValue \<Rightarrow> bool" where
  "const_ok v \<longleftrightarrow> (case v of TNil \<Rightarrow> True | TBoolean _ \<Rightarrow> True | TNumber _ \<Rightarrow> True | TString s \<Rightarrow> str_ok (Some s) | _ \<Rightarrow> False)"

definition locvar_bytes :: "LocVar \<Rightarrow> bytes" where
  "locvar_bytes v = str_bytes (varname v) @ int_bytes (startpc v) @ int_bytes (endpc v)"

definition natural :: "int \<Rightarrow> bool" where "natural x \<longleftrightarrow> 0 \<le> x \<and> x < 2 ^ 31"

definition locvar_ok :: "LocVar \<Rightarrow> bool" where
  "locvar_ok v \<longleftrightarrow> str_ok (varname v) \<and> natural (startpc v) \<and> natural (endpc v)"

definition debug_bytes :: "bool \<Rightarrow> Proto \<Rightarrow> bytes" where
  "debug_bytes strip f = vector_bytes int_bytes (if strip then [] else pt_lineinfo f) @
     vector_bytes locvar_bytes (if strip then [] else pt_locvars f) @
     vector_bytes str_bytes (if strip then [] else pt_upvalues f)"

lemma vector_bytes_cong [fundef_cong]:
  "xs = ys \<Longrightarrow> (\<And>x. x \<in> set ys \<Longrightarrow> f x = g x) \<Longrightarrow> vector_bytes f xs = vector_bytes g ys"
  unfolding vector_bytes_def by (metis map_cong)

function proto_bytes :: "bool \<Rightarrow> bytes option \<Rightarrow> Proto \<Rightarrow> bytes" where
  "proto_bytes strip p f =
     str_bytes (if pt_source f = p \<or> strip then None else pt_source f) @
     int_bytes (pt_linedefined f) @ int_bytes (pt_lastlinedefined f) @
     [pt_nups f] @ [pt_numparams f] @ [pt_is_vararg f] @ [pt_maxstacksize f] @
     vector_bytes (word_bytes 4) (pt_code f) @
     (vector_bytes const_bytes (pt_k f) @ vector_bytes (proto_bytes strip (pt_source f)) (pt_p f)) @
     debug_bytes strip f"
  by pat_completeness auto
termination by (relation "measure (\<lambda>(strip, p, f). size f)") (auto simp: size_pt_p)

declare proto_bytes.simps [simp del]

text \<open>A function without a source gets the source of the enclosing one, the outermost \<open>q\<close>.\<close>

function reload :: "bool \<Rightarrow> bytes \<Rightarrow> Proto \<Rightarrow> Proto" where
  "reload strip q f =
     (let s = (if strip then q else case pt_source f of None \<Rightarrow> q | Some b \<Rightarrow> b)
      in Proto (pt_k f) (pt_code f) (map (reload strip s) (pt_p f))
           (if strip then [] else pt_lineinfo f) (if strip then [] else pt_locvars f)
           (if strip then [] else pt_upvalues f) (Some s) (pt_linedefined f) (pt_lastlinedefined f)
           (pt_nups f) (pt_numparams f) (pt_is_vararg f) (pt_maxstacksize f))"
  by pat_completeness auto
termination by (relation "measure (\<lambda>(strip, q, f). size f)") (auto simp: size_pt_p)

declare reload.simps [simp del]

text \<open>
  What a dump can hold: constants of the four kinds that a compiler makes, lengths and lines that
  an \<open>int\<close> holds, and code that passes the checker, in the function and the functions inside it.
\<close>

definition proto_ok :: "Proto \<Rightarrow> bool" where
  "proto_ok f \<longleftrightarrow>
     luaG_checkcode f \<and> count_ok (pt_k f) \<and> count_ok (pt_code f) \<and> count_ok (pt_p f) \<and>
     count_ok (pt_lineinfo f) \<and> count_ok (pt_locvars f) \<and> count_ok (pt_upvalues f) \<and>
     natural (pt_linedefined f) \<and> natural (pt_lastlinedefined f) \<and> str_ok (pt_source f) \<and>
     list_all const_ok (pt_k f) \<and> list_all is_int (pt_lineinfo f) \<and>
     list_all locvar_ok (pt_locvars f) \<and> list_all str_ok (pt_upvalues f)"

text \<open>The function and those inside it satisfy \<open>P\<close>, and they nest at most \<open>d\<close> deep.\<close>

primrec nested :: "(Proto \<Rightarrow> bool) \<Rightarrow> nat \<Rightarrow> Proto \<Rightarrow> bool" where
  "nested P 0 f = False"
| "nested P (Suc d) f = (P f \<and> list_all (nested P d) (pt_p f))"

section \<open>The checker on a function loaded again\<close>

lemma symbexec_loop_cong:
  assumes "\<And>pc lst. symbexec_step pt n reg pc lst = symbexec_step pt' n reg pc lst"
  shows "symbexec_loop pt n reg pc lst = symbexec_loop pt' n reg pc lst"
proof (induction "nat (n - pc)" arbitrary: pc lst rule: less_induct)
  case less
  have "symbexec_loop pt n reg pc' lst' = symbexec_loop pt' n reg pc' lst'" if "pc < n" "pc < pc'" for pc' lst'
    using that by (intro less) simp
  then show ?case
    by (subst (1 2) symbexec_loop.simps) (auto simp: assms andthen_def split: checked.splits)
qed

lemma nth_outside: "length xs \<le> i \<Longrightarrow> xs ! i = [] ! (i - length xs)"
  by (induction xs arbitrary: i) (auto simp: nth_Cons' Suc_le_eq)

lemma same_checks:
  assumes "pt_code pt = pt_code pt'" "pt_k pt = pt_k pt'" "pt_nups pt = pt_nups pt'"
    "pt_is_vararg pt = pt_is_vararg pt'" "pt_maxstacksize pt = pt_maxstacksize pt'"
    "map pt_nups (pt_p pt) = map pt_nups (pt_p pt')"
  shows "symbexec_loop pt n reg pc lst = symbexec_loop pt' n reg pc lst"
proof -
  have p: "length (pt_p pt) = length (pt_p pt')" by (rule map_eq_imp_length_eq [OF assms(6)])
  have nup: "pt_nups (pt_p pt ! i) = pt_nups (pt_p pt' ! i)" for i
    using assms(6) p nth_map nth_outside by (metis linorder_not_less)
  have fetch: "fetch pt = fetch pt'" by (rule ext) (simp add: fetch_def assms(1))
  have reg: "checkreg pt = checkreg pt'" by (rule ext) (simp add: checkreg_def assms(5))
  have before: "setlists_before pt dest m j = setlists_before pt' dest m j" for dest m j
    by (induction m arbitrary: j) (simp_all add: fetch cong: if_cong)
  have dest: "check_dest pt = check_dest pt'" by (rule ext) (simp add: check_dest_def before assms(1))
  have mode: "checkArgMode pt = checkArgMode pt'"
    by (intro ext) (simp add: checkArgMode_def reg assms(2,5) split: OpArgMask.split)
  have operands: "check_operands pt = check_operands pt'"
    unfolding check_operands_def mode dest assms(2) by (rule refl)
  have upvalues: "check_upvalues pt = check_upvalues pt'"
  proof (intro ext)
    show "check_upvalues pt x m = check_upvalues pt' x m" for x m by (induction m) (simp_all add: fetch)
  qed
  have step: "check_op pt n reg pc lst op a b c = check_op pt' n reg pc lst op a b c" for pc lst op a b c
    unfolding check_op_def checkopenop_def fetch reg upvalues assms(1-4) p nup by (rule refl)
  have "symbexec_step pt n reg pc lst = symbexec_step pt' n reg pc lst" for pc lst
    unfolding symbexec_step_def fetch reg operands step check_skip_def assms(1) by (rule refl)
  then show ?thesis by (rule symbexec_loop_cong)
qed

lemma checkcode_reload: "luaG_checkcode f \<Longrightarrow> luaG_checkcode (reload strip q f)"
proof -
  let ?g = "reload strip q f"
  have same: "pt_code f = pt_code ?g" "pt_k f = pt_k ?g" "pt_nups f = pt_nups ?g"
    "pt_is_vararg f = pt_is_vararg ?g" "pt_maxstacksize f = pt_maxstacksize ?g"
    "pt_numparams f = pt_numparams ?g" "map pt_nups (pt_p f) = map pt_nups (pt_p ?g)"
    "pt_upvalues ?g = (if strip then [] else pt_upvalues f)" "pt_lineinfo ?g = (if strip then [] else pt_lineinfo f)"
    by (subst reload.simps, simp add: Let_def)+
  assume "luaG_checkcode f"
  then have "precheck f = Go ()" by (auto simp: luaG_checkcode_def symbexec_def split: checked.splits)
  then have "precheck ?g = Go ()"
    by (auto simp: precheck_def same(8,9) fetch_def same(1-6) [symmetric] split: if_splits)
  moreover have "fetch ?g = fetch f" by (rule ext) (simp add: fetch_def same(1))
  ultimately have "symbexec ?g (sizecode ?g) NO_REG = symbexec f (sizecode f) NO_REG"
    using same_checks [OF same(1-5,7)] \<open>precheck f = Go ()\<close> same(1) by (simp add: symbexec_def andthen_def)
  with \<open>luaG_checkcode f\<close> show ?thesis by (simp add: luaG_checkcode_def)
qed

section \<open>Loading the bytes of a function\<close>

lemma reads_LoadConstant:
  assumes "mem_ok mem" "const_ok v"
  shows "reads rd (LoadConstant rd mem) (const_bytes v) v"
proof -
  define f :: "u8 \<Rightarrow> ('a, TValue) loader" where "f = (\<lambda>t.
       if t = 0 then ret TNil
       else if t = 1 then bnd (LoadChar rd) (\<lambda>b. ret (TBoolean (b \<noteq> 0)))
       else if t = 3 then bnd (LoadNumber rd) (\<lambda>n. ret (TNumber n))
       else if t = 4 then bnd (LoadString rd mem) (\<lambda>s. case s of None \<Rightarrow> undef | Some s \<Rightarrow> ret (TString s))
       else load_error ''bad constant'')"
  have "str_ok (Some s)" if "v = TString s" for s using assms(2) that by (simp add: const_ok_def)
  then have "reads rd (f (word_of_int (ttype v)))
     (case v of TBoolean b \<Rightarrow> [if b then 1 else 0] | TNumber n \<Rightarrow> word_bytes 8 n
      | TString s \<Rightarrow> str_bytes (Some s) | _ \<Rightarrow> []) v"
    using assms(2)
    by (cases v) (auto simp: f_def ttype_def const_ok_def intro!: reads_ret reads_then [OF reads_LoadChar]
        reads_then [OF reads_LoadNumber] reads_then [OF reads_LoadString [OF assms(1)]])
  then show ?thesis
    unfolding LoadConstant_def const_bytes_def f_def [symmetric] by (rule reads_bnd [OF reads_LoadChar]) simp
qed

lemma reads_natural: "natural x \<Longrightarrow> reads rd (LoadInt rd) (int_bytes x) x"
  by (simp add: natural_def reads_LoadInt)

lemma reads_LoadLocVar:
  assumes "mem_ok mem" "locvar_ok v"
  shows "reads rd (LoadLocVar rd mem) (locvar_bytes v) v"
  unfolding LoadLocVar_def locvar_bytes_def
  by (intro reads_bnd [OF reads_LoadString [OF assms(1)] _ refl] reads_bnd [OF reads_natural _ refl]
      reads_then [OF reads_natural])
    (use assms(2) in \<open>auto simp: locvar_ok_def\<close>)

lemma reads_vector:
  assumes "mem_ok mem" "count_ok xs" "e \<in> {4, 8, 16}" "list_all P xs" "\<And>x. P x \<Longrightarrow> reads rd m (enc x) (g x)"
  shows "reads rd (load_array rd mem e m) (vector_bytes enc xs) (map g xs)"
  unfolding vector_bytes_def
  by (rule reads_array [OF assms(1-3)]) (use assms(4,5) in \<open>auto simp: list_all_iff\<close>)

lemma reads_vector_same:
  assumes "mem_ok mem" "count_ok xs" "e \<in> {4, 8, 16}" "list_all P xs" "\<And>x. P x \<Longrightarrow> reads rd m (enc x) x"
  shows "reads rd (load_array rd mem e m) (vector_bytes enc xs) xs"
  using reads_vector [OF assms, where g = "\<lambda>x. x"] by simp

lemma reads_LoadDebug:
  assumes "mem_ok mem" "proto_ok f"
  shows "reads rd (LoadDebug rd mem) (debug_bytes strip f)
     (if strip then [] else pt_lineinfo f, if strip then [] else pt_locvars f, if strip then [] else pt_upvalues f)"
proof -
  let ?li = "if strip then [] else pt_lineinfo f" and ?lv = "if strip then [] else pt_locvars f"
    and ?uv = "if strip then [] else pt_upvalues f"
  have ok: "count_ok ?li" "count_ok ?lv" "count_ok ?uv" "list_all is_int ?li" "list_all locvar_ok ?lv" "list_all str_ok ?uv"
    using assms(2) by (auto simp: proto_ok_def count_ok_def)
  have li: "map bytes_int (map int_bytes ?li) = ?li"
    using ok(4) by (auto simp: list_all_iff bytes_int_bytes intro!: map_idI)
  show ?thesis unfolding LoadDebug_def debug_bytes_def
    by (intro reads_bnd [OF reads_LoadVector [OF assms(1) ok(1)] _ refl]
        reads_bnd [OF reads_vector_same [OF assms(1) ok(2) _ ok(5) reads_LoadLocVar [OF assms(1)]] _ refl]
        reads_then [OF reads_vector_same [OF assms(1) ok(3) _ ok(6) reads_LoadString [OF assms(1)]]])
      (simp_all only: li, simp_all)
qed

lemma reads_LoadCode:
  assumes "mem_ok mem" "count_ok code"
  shows "reads rd (LoadCode rd mem) (vector_bytes (word_bytes 4) code) (code :: instruction list)"
  unfolding LoadCode_def
  by (rule reads_then [OF reads_LoadVector [OF assms]]) (simp_all add: comp_def bytes_word_32)

lemma proto_okD:
  assumes "proto_ok f"
  shows "luaG_checkcode f" "count_ok (pt_k f)" "count_ok (pt_code f)" "count_ok (pt_p f)"
    "natural (pt_linedefined f)" "natural (pt_lastlinedefined f)" "str_ok (pt_source f)" "list_all const_ok (pt_k f)"
  using assms by (simp_all add: proto_ok_def)

lemma reads_LoadFunction:
  assumes "mem_ok mem" "nested proto_ok d f" "strip \<or> (\<forall>b. p = Some b \<longrightarrow> b = q)"
  shows "reads rd (LoadFunction rd mem d q) (proto_bytes strip p f) (reload strip q f)"
  using assms(2,3)
proof (induction d arbitrary: f p q)
  case (Suc d)
  define s where "s = (if strip then q else case pt_source f of None \<Rightarrow> q | Some b \<Rightarrow> b)"
  define out where "out = (if pt_source f = p \<or> strip then None else pt_source f)"
  have ok: "proto_ok f" "list_all (nested proto_ok d) (pt_p f)" using Suc.prems(1) by simp_all
  note okd = proto_okD [OF ok(1)]
  have out: "str_ok out" "(case out of None \<Rightarrow> q | Some b \<Rightarrow> b) = s"
    using okd(7) Suc.prems(2) by (auto simp: out_def s_def str_ok_def split: option.split)
  have child: "reads rd (LoadFunction rd mem d s) (proto_bytes strip (pt_source f) g) (reload strip s g)"
    if "nested proto_ok d g" for g
    using that by (rule Suc.IH) (auto simp: s_def)
  have kp: "reads rd (LoadConstants rd mem (LoadFunction rd mem d s))
      (vector_bytes const_bytes (pt_k f) @ vector_bytes (proto_bytes strip (pt_source f)) (pt_p f))
      (pt_k f, map (reload strip s) (pt_p f))"
    unfolding LoadConstants_def
    by (intro reads_bnd [OF reads_vector_same [OF assms(1) okd(2) _ okd(8) reads_LoadConstant [OF assms(1)]] _ refl]
        reads_then [OF reads_vector [OF assms(1) okd(4) _ ok(2) child]]) simp_all
  have chk: "luaG_checkcode (reload strip q f)" by (rule checkcode_reload [OF okd(1)])
  show ?case
    unfolding LoadFunction.simps proto_bytes.simps [of strip p f] out_def [symmetric] Let_def
    by (intro reads_seq [OF reads_realloc [OF assms(1)]] reads_bnd [OF reads_LoadString [OF assms(1)] _ refl]
        reads_bnd [OF reads_natural _ refl] reads_bnd [OF reads_LoadChar _ refl]
        reads_bnd [OF reads_LoadCode [OF assms(1)] _ refl] reads_bnd [OF kp [folded out(2)] _ refl])
      (use out okd chk in \<open>auto intro!: reads_then [OF reads_LoadDebug [OF assms(1) ok(1)]]
         simp: s_def [symmetric] reload.simps [of strip q f] Let_def\<close>)
qed simp

section \<open>Writing the bytes of a function\<close>

text \<open>
  The interface of a writer that keeps what it gets: it never fails and appends the block to what
  it has collected.
\<close>

definition dumps :: "('d \<Rightarrow> bytes) \<Rightarrow> bool \<Rightarrow> ('d DumpState \<Rightarrow> 'd DumpState) \<Rightarrow> bytes \<Rightarrow> bool" where
  "dumps c strip m bs \<longleftrightarrow> (\<forall>D. D_status D = 0 \<and> D_strip D = strip \<longrightarrow>
     D_status (m D) = 0 \<and> D_strip (m D) = strip \<and> c (D_data (m D)) = c (D_data D) @ bs)"

lemma dumps_Nil: "dumps c strip (in_turn []) []"
  by (simp add: dumps_def in_turn_def)

lemma dumps_id: "dumps c strip (\<lambda>D. D) []"
  by (simp add: dumps_def)

lemma dumps_Cons: "dumps c strip m b1 \<Longrightarrow> dumps c strip (in_turn ms) b2 \<Longrightarrow> dumps c strip (in_turn (m # ms)) (b1 @ b2)"
  by (simp add: dumps_def in_turn_def)

lemma dumps_last: "dumps c strip m b \<Longrightarrow> dumps c strip (in_turn [m]) b"
  by (simp add: dumps_def in_turn_def)

lemma dumps_fold: "(\<And>x. x \<in> set xs \<Longrightarrow> dumps c strip (m x) (enc x)) \<Longrightarrow> dumps c strip (fold m xs) (concat (map enc xs))"
  by (induction xs) (auto simp: dumps_def)

lemma dumps_strip: "(\<And>D. D_strip D = strip \<Longrightarrow> m D = m' D) \<Longrightarrow> dumps c strip m' b \<Longrightarrow> dumps c strip m b"
  by (simp add: dumps_def)

lemmas dumps_intros = dumps_last dumps_Cons dumps_Nil dumps_id

locale block_writer =
  fixes w :: "'d writer" and collected :: "'d \<Rightarrow> bytes"
  assumes takes: "w b d = (st, d') \<Longrightarrow> st = 0 \<and> collected d' = collected d @ b"
begin

lemma dumps_block: "dumps collected strip (DumpBlock w b) b"
  using takes by (auto simp: dumps_def DumpBlock_def split: prod.split)

lemma dumps_char: "dumps collected strip (DumpChar w y) [word_of_int y]"
  unfolding DumpChar_def by (rule dumps_block)

lemma dumps_byte: "dumps collected strip (DumpChar w (uint y)) [y]"
  using dumps_char [of strip "uint y"] by simp

lemma dumps_int: "dumps collected strip (DumpInt w x) (int_bytes x)"
  unfolding DumpInt_def by (rule dumps_block)

lemma dumps_vector: "dumps collected strip (DumpVector w enc xs) (vector_bytes enc xs)"
  unfolding DumpVector_def vector_bytes_def by (intro dumps_intros dumps_int dumps_block)

lemma dumps_string: "dumps collected strip (DumpString w s) (str_bytes s)"
  by (cases s) (auto simp: DumpString_def str_bytes_def Let_def intro!: dumps_intros dumps_block)

lemma dumps_constant: "dumps collected strip (DumpConstant w v) (const_bytes v)"
proof -
  have "dumps collected strip (case v of TBoolean b \<Rightarrow> DumpChar w (if b then 1 else 0) | TNumber n \<Rightarrow> DumpNumber w n
      | TString s \<Rightarrow> DumpString w (Some s) | _ \<Rightarrow> (\<lambda>D. D))
    (case v of TBoolean b \<Rightarrow> [if b then 1 else 0] | TNumber n \<Rightarrow> word_bytes 8 n | TString s \<Rightarrow> str_bytes (Some s) | _ \<Rightarrow> [])"
    using dumps_char [of strip 1] dumps_char [of strip 0]
    by (cases v) (auto intro: dumps_id dumps_string simp: DumpNumber_def dumps_block)
  from dumps_Cons [OF dumps_char dumps_last [OF this]] show ?thesis
    by (simp add: DumpConstant_def const_bytes_def)
qed

lemma dumps_locvar: "dumps collected strip (DumpLocVar w v) (locvar_bytes v)"
  unfolding DumpLocVar_def locvar_bytes_def by (intro dumps_intros dumps_int dumps_string)

lemma dumps_counted:
  "(\<And>x. x \<in> set xs \<Longrightarrow> dumps collected strip (m x) (enc x)) \<Longrightarrow> dumps collected strip (in_turn ms) b \<Longrightarrow>
   dumps collected strip (in_turn (DumpInt w (int (length xs)) # fold m xs # ms)) (vector_bytes enc xs @ b)"
  unfolding vector_bytes_def append_assoc by (intro dumps_Cons dumps_int dumps_fold)

lemma dumps_debug: "dumps collected strip (DumpDebug w f) (debug_bytes strip f)"
proof (rule dumps_strip)
  let ?li = "if strip then [] else pt_lineinfo f" and ?lv = "if strip then [] else pt_locvars f"
    and ?uv = "if strip then [] else pt_upvalues f"
  let ?m = "in_turn [DumpVector w int_bytes ?li, DumpInt w (int (length ?lv)), fold (DumpLocVar w) ?lv,
    DumpInt w (int (length ?uv)), fold (DumpString w) ?uv]"
  show "DumpDebug w f D = ?m D" if "D_strip D = strip" for D using that by (simp add: DumpDebug_def)
  have "dumps collected strip ?m (vector_bytes int_bytes ?li @ vector_bytes locvar_bytes ?lv @ vector_bytes str_bytes ?uv @ [])"
    by (intro dumps_Cons dumps_counted dumps_vector dumps_locvar dumps_string dumps_Nil)
  then show "dumps collected strip ?m (debug_bytes strip f)" by (simp add: debug_bytes_def)
qed

lemma dumps_function: "dumps collected strip (DumpFunction w f p) (proto_bytes strip p f)"
proof (induction "size f" arbitrary: f p rule: less_induct)
  case less
  have "dumps collected strip (DumpConstants w (\<lambda>g. DumpFunction w g (pt_source f)) f)
      (vector_bytes const_bytes (pt_k f) @ vector_bytes (proto_bytes strip (pt_source f)) (pt_p f) @ [])"
    unfolding DumpConstants_def
    by (intro dumps_counted dumps_constant dumps_Nil less size_pt_p)
  moreover have "dumps collected strip (\<lambda>D. DumpString w (if pt_source f = p \<or> D_strip D then None else pt_source f) D)
      (str_bytes (if pt_source f = p \<or> strip then None else pt_source f))"
    by (rule dumps_strip [OF _ dumps_string]) simp
  ultimately show ?case
    unfolding DumpFunction.simps [of w f p] proto_bytes.simps [of strip p f] DumpCode_def append_Nil2
    by (intro dumps_Cons dumps_last dumps_int dumps_byte dumps_vector dumps_debug)
qed

lemma dump_collects:
  assumes "collected data = []"
  shows "fst (luaU_dump f w data strip) = 0 \<and>
    collected (snd (luaU_dump f w data strip)) = luaU_header @ proto_bytes strip None f"
proof -
  have "dumps collected strip (in_turn [DumpHeader w, DumpFunction w f None]) (luaU_header @ proto_bytes strip None f)"
    unfolding DumpHeader_def by (intro dumps_Cons dumps_last dumps_block dumps_function)
  then show ?thesis using assms by (simp add: dumps_def luaU_dump_def Let_def)
qed

end

interpretation buffer: block_writer str_dump_writer "\<lambda>B. B"
  by unfold_locales (simp add: str_dump_writer_def)

section \<open>Dump and load\<close>

lemma length_header: "length luaU_header = 12"
  by (simp add: luaU_header_def LUA_SIGNATURE_def lit_def)

lemma reads_LoadHeader: "reads rd (LoadHeader rd) luaU_header ()"
  unfolding LoadHeader_def
  by (rule reads_then [OF reads_LoadBlock])
    (simp_all add: LUAC_HEADERSIZE_def length_header)

definition dumped :: "bool \<Rightarrow> Proto \<Rightarrow> bytes" where
  "dumped strip f = snd (luaU_dump f str_dump_writer [] strip)"

lemma dumped_bytes: "dumped strip f = luaU_header @ proto_bytes strip None f"
  using buffer.dump_collects [of "[]" f strip] by (simp add: dumped_def)

lemma undump_reads:
  assumes "mem_ok mem" "nested proto_ok d f"
  shows "reads rd (seq (LoadHeader rd) (bnd (new_string mem (lit ''=?'')) (LoadFunction rd mem d)))
    (dumped strip f) (reload strip (lit ''=?'') f)"
proof -
  have "dumped strip f = luaU_header @ [] @ proto_bytes strip None f"
    by (simp add: dumped_bytes)
  then show ?thesis
    unfolding seq_def
    by (auto intro!: reads_bnd [OF reads_LoadHeader] reads_bnd [OF reads_new_string [OF assms(1)]]
        reads_LoadFunction assms simp: lit_def)
qed

lemma undump_run:
  "luaU_undump rd mem d name S = seq (LoadHeader rd) (bnd (new_string mem (lit ''=?'')) (LoadFunction rd mem d))
     (S\<lparr>S_name := chunk_name name\<rparr>)"
  by (simp add: luaU_undump_def seq_def bnd_def)

definition named_state :: "bytes \<Rightarrow> 'd \<Rightarrow> 'd LoadState" where
  "named_state name data = (LoadState_of (luaZ_init data))\<lparr>S_name := chunk_name name\<rparr>"

lemma undump_dump_core:
  assumes "nested proto_ok d f" and "mem_ok mem" and "delivers rd data (dumped strip f)"
  shows "\<exists>S'. luaU_undump rd mem d name (LoadState_of (luaZ_init data)) = Val (reload strip (lit ''=?'') f) S'"
  using readsD(1) [OF undump_reads [OF assms(2,1), of rd strip], where rest = "[]", of "named_state name data"]
    stream_init [OF assms(3)]
  unfolding undump_run named_state_def by (auto simp: LoadState_of_def)

text \<open>
  Property C14. A function that is dumped, with or without its debug information, and loaded again is
  the same function, whatever pieces the reader makes of the dump: the same code, constants and
  inner functions at every level, and the same debug information unless it was stripped. Only a
  missing source name is replaced by that of the enclosing function or by \<open>=?\<close>.
\<close>

theorem undump_dump:
  assumes "nested proto_ok d f" and "mem_ok mem" and "delivers rd data (dumped strip f)"
  shows "\<exists>S'. luaU_undump rd mem d name (LoadState_of (luaZ_init data)) = Val (reload strip (lit ''=?'') f) S'"
  by (rule undump_dump_core [OF assms])

text \<open>
  Property C30. A dump that is cut short anywhere is refused with a syntax error that names the chunk
  and says that the end was unexpected.
\<close>

theorem undump_truncated:
  assumes "nested proto_ok d f" and "mem_ok mem" and "n < length (dumped strip f)"
    and "delivers rd data (take n (dumped strip f))"
  shows "\<exists>S'. luaU_undump rd mem d name (LoadState_of (luaZ_init data)) = Raise LUA_ERRSYNTAX S' \<and>
    S_errmsg S' = unexpected_end (chunk_name name)"
  using readsD(2) [OF undump_reads [OF assms(2,1), of rd strip] assms(3), of "named_state name data"]
    stream_init [OF assms(4)]
  unfolding undump_run named_state_def by (auto simp: LoadState_of_def)

section \<open>What comes out of a load\<close>

definition yields :: "('d, 'a) loader \<Rightarrow> ('a \<Rightarrow> bool) \<Rightarrow> bool" where
  "yields m P \<longleftrightarrow> (\<forall>S a S'. m S = Val a S' \<longrightarrow> P a)"

lemma yields_bnd: "(\<And>a. yields (f a) P) \<Longrightarrow> yields (bnd m f) P"
  by (simp add: yields_def bnd_eq_Val) blast

lemma yields_seq: "yields n P \<Longrightarrow> yields (seq m n) P"
  unfolding seq_def by (rule yields_bnd)

lemma yields_bnd_that: "yields m Q \<Longrightarrow> (\<And>a. Q a \<Longrightarrow> yields (f a) P) \<Longrightarrow> yields (bnd m f) P"
  by (simp add: yields_def bnd_eq_Val) blast

lemma yields_ret: "P a \<Longrightarrow> yields (ret a) P"
  by (simp add: yields_def)

lemma yields_error: "yields (load_error why) P"
  by (simp add: yields_def load_error_def seq_def bnd_def)

lemma yields_times: "yields m P \<Longrightarrow> yields (load_times n m) (list_all P)"
proof (induction n)
  case (Suc n)
  then show ?case
    by (auto intro!: yields_bnd_that [where m = m and Q = P] yields_bnd_that [where Q = "list_all P"] yields_ret)
qed (simp add: yields_ret)

lemma yields_array: "yields m P \<Longrightarrow> yields (load_array rd mem e m) (list_all P)"
  unfolding load_array_def by (intro yields_bnd yields_seq yields_times)

lemma yields_LoadFunction: "yields (LoadFunction rd mem d p) (nested luaG_checkcode d)"
proof (induction d arbitrary: p)
  case (Suc d)
  have kp: "yields (LoadConstants rd mem (LoadFunction rd mem d s)) (\<lambda>(k, ps). list_all (nested luaG_checkcode d) ps)" for s
    unfolding LoadConstants_def
    by (rule yields_bnd, rule yields_bnd_that [OF yields_array [OF Suc.IH]], rule yields_ret) simp
  show ?case
    unfolding LoadFunction.simps Let_def
    by (rule yields_seq, rule yields_bnd, rule yields_bnd, rule yields_bnd, rule yields_bnd, rule yields_bnd,
        rule yields_bnd, rule yields_bnd, rule yields_bnd, rule yields_bnd_that [OF kp])
      (auto intro!: yields_bnd yields_ret yields_error)
qed (simp add: yields_error)

lemma nested_mono: "nested P d f \<Longrightarrow> (\<And>g. P g \<Longrightarrow> Q g) \<Longrightarrow> nested Q d f"
  by (induction d arbitrary: f) (auto simp: list_all_iff)


section \<open>The pieces of the input do not matter\<close>

text \<open>Two load states that differ in how the rest of the same input will arrive.\<close>

definition same_input :: "'d reader \<Rightarrow> 'e reader \<Rightarrow> 'd LoadState \<Rightarrow> 'e LoadState \<Rightarrow> bool" where
  "same_input rd1 rd2 S1 S2 \<longleftrightarrow>
     (\<exists>bs. stream rd1 (S_Z S1) bs \<and> stream rd2 (S_Z S2) bs) \<and> S_name S1 = S_name S2 \<and>
     S_buffsize S1 = S_buffsize S2 \<and> S_allocs S1 = S_allocs S2 \<and> S_errmsg S1 = S_errmsg S2"

definition same_result :: "('s \<Rightarrow> 't \<Rightarrow> bool) \<Rightarrow> ('s \<Rightarrow> 't \<Rightarrow> bool) \<Rightarrow> ('s, 'a) res \<Rightarrow> ('t, 'a) res \<Rightarrow> bool" where
  "same_result R E r1 r2 \<longleftrightarrow>
     (case (r1, r2) of
        (Val a s, Val b t) \<Rightarrow> a = b \<and> R s t
      | (Raise e s, Raise e' t) \<Rightarrow> e = e' \<and> E s t
      | (Undef, Undef) \<Rightarrow> True
      | _ \<Rightarrow> False)"

lemma same_result_weaken: "same_result R E r1 r2 \<Longrightarrow> same_result (\<lambda>_ _. True) E r1 r2"
  by (cases r1; cases r2) (simp_all add: same_result_def)

abbreviation same_message :: "'d LoadState \<Rightarrow> 'e LoadState \<Rightarrow> bool" where
  "same_message S1 S2 \<equiv> S_errmsg S1 = S_errmsg S2"

definition agree :: "'d reader \<Rightarrow> 'e reader \<Rightarrow> ('d, 'a) loader \<Rightarrow> ('e, 'a) loader \<Rightarrow> bool" where
  "agree rd1 rd2 m1 m2 \<longleftrightarrow>
     (\<forall>S1 S2. same_input rd1 rd2 S1 S2 \<longrightarrow> same_result (same_input rd1 rd2) same_message (m1 S1) (m2 S2))"

lemma agree_bnd:
  fixes rd1 :: "'d reader" and rd2 :: "'e reader"
  shows "agree rd1 rd2 m1 m2 \<Longrightarrow> (\<And>a. agree rd1 rd2 (f1 a) (f2 a)) \<Longrightarrow> agree rd1 rd2 (bnd m1 f1) (bnd m2 f2)"
  unfolding agree_def
proof (intro allI impI)
  fix S1 :: "'d LoadState" and S2 :: "'e LoadState"
  assume m: "\<forall>S1 S2. same_input rd1 rd2 S1 S2 \<longrightarrow> same_result (same_input rd1 rd2) same_message (m1 S1) (m2 S2)"
    and f: "\<And>a. \<forall>S1 S2. same_input rd1 rd2 S1 S2 \<longrightarrow> same_result (same_input rd1 rd2) same_message (f1 a S1) (f2 a S2)"
    and S: "same_input rd1 rd2 S1 S2"
  from m S have "same_result (same_input rd1 rd2) same_message (m1 S1) (m2 S2)" by blast
  then show "same_result (same_input rd1 rd2) same_message (bnd m1 f1 S1) (bnd m2 f2 S2)"
    using f by (cases "m1 S1"; cases "m2 S2") (simp_all add: same_result_def bnd_def)
qed

lemma agree_seq: "agree rd1 rd2 m1 m2 \<Longrightarrow> agree rd1 rd2 n1 n2 \<Longrightarrow> agree rd1 rd2 (seq m1 n1) (seq m2 n2)"
  unfolding seq_def by (rule agree_bnd)

lemma agree_basic:
  "agree rd1 rd2 (ret a) (ret a)" "agree rd1 rd2 undef undef"
  "agree rd1 rd2 (load_error why) (load_error why)" "agree rd1 rd2 luaM_toobig luaM_toobig"
  "agree rd1 rd2 (luaM_realloc mem n) (luaM_realloc mem n)"
  "agree rd1 rd2 (get S_buffsize) (get S_buffsize)"
  "agree rd1 rd2 (upd (S_buffsize_update g)) (upd (S_buffsize_update g))"
  "agree rd1 rd2 (upd (S_name_update h)) (upd (S_name_update h))"
  by (auto simp: agree_def same_input_def same_result_def load_error_def luaM_toobig_def luaM_realloc_def seq_def bnd_def Let_def)

lemma agree_LoadBlock: "agree rd1 rd2 (LoadBlock rd1 n) (LoadBlock rd2 n)"
  unfolding agree_def
proof (intro allI impI)
  fix S1 :: "'a LoadState" and S2 :: "'b LoadState"
  assume in12: "same_input rd1 rd2 S1 S2"
  then obtain bs where "stream rd1 (S_Z S1) bs" "stream rd2 (S_Z S2) bs" by (auto simp: same_input_def)
  with read_stream [of rd1 "S_Z S1" bs n] read_stream [of rd2 "S_Z S2" bs n] obtain z1 z2 where
    "luaZ_read rd1 (S_Z S1) n = (n - length bs, take n bs, z1)" "n \<le> length bs \<longrightarrow> stream rd1 z1 (drop n bs)"
    "luaZ_read rd2 (S_Z S2) n = (n - length bs, take n bs, z2)" "n \<le> length bs \<longrightarrow> stream rd2 z2 (drop n bs)"
    by blast
  then show "same_result (same_input rd1 rd2) same_message (LoadBlock rd1 n S1) (LoadBlock rd2 n S2)"
    using in12 by (auto simp: LoadBlock_def Let_def same_input_def same_result_def load_error_def seq_def bnd_def)
qed

lemma agree_if: "agree rd1 rd2 m1 m2 \<Longrightarrow> agree rd1 rd2 n1 n2 \<Longrightarrow> agree rd1 rd2 (if c then m1 else n1) (if c then m2 else n2)"
  by simp

lemma agree_option:
  "agree rd1 rd2 m1 m2 \<Longrightarrow> (\<And>x. agree rd1 rd2 (f1 x) (f2 x)) \<Longrightarrow>
   agree rd1 rd2 (case s of None \<Rightarrow> m1 | Some x \<Rightarrow> f1 x) (case s of None \<Rightarrow> m2 | Some x \<Rightarrow> f2 x)"
  by (cases s) simp_all

lemma agree_pair: "(\<And>x y. agree rd1 rd2 (f1 x y) (f2 x y)) \<Longrightarrow> agree rd1 rd2 (case q of (x, y) \<Rightarrow> f1 x y) (case q of (x, y) \<Rightarrow> f2 x y)"
  by (cases q) simp

lemmas agree_intros = agree_bnd agree_seq agree_basic agree_LoadBlock agree_if agree_option agree_pair

lemma agree_loaders:
  "agree rd1 rd2 (LoadChar rd1) (LoadChar rd2)" "agree rd1 rd2 (LoadInt rd1) (LoadInt rd2)"
  "agree rd1 rd2 (LoadNumber rd1) (LoadNumber rd2)" "agree rd1 rd2 (LoadHeader rd1) (LoadHeader rd2)"
  "agree rd1 rd2 (luaM_newvector mem i e) (luaM_newvector mem i e)"
  "agree rd1 rd2 (luaZ_openspace mem n) (luaZ_openspace mem n)"
  "agree rd1 rd2 (new_string mem s) (new_string mem s)"
  unfolding LoadChar_def LoadInt_def LoadNumber_def LoadHeader_def luaM_newvector_def luaZ_openspace_def new_string_def Let_def
  by (intro agree_intros)+

lemma agree_vectors:
  "agree rd1 rd2 (LoadString rd1 mem) (LoadString rd2 mem)"
  "agree rd1 rd2 (LoadVector rd1 mem e) (LoadVector rd2 mem e)"
  unfolding LoadString_def LoadVector_def Let_def by (intro agree_intros agree_loaders)+

lemma agree_times: "agree rd1 rd2 m1 m2 \<Longrightarrow> agree rd1 rd2 (load_times n m1) (load_times n m2)"
  by (induction n) (auto intro!: agree_intros)

lemma agree_array: "agree rd1 rd2 m1 m2 \<Longrightarrow> agree rd1 rd2 (load_array rd1 mem e m1) (load_array rd2 mem e m2)"
  unfolding load_array_def by (intro agree_intros agree_loaders agree_times)

lemma agree_parts:
  "agree rd1 rd2 (LoadCode rd1 mem) (LoadCode rd2 mem)"
  "agree rd1 rd2 (LoadConstant rd1 mem) (LoadConstant rd2 mem)"
  "agree rd1 rd2 (LoadLocVar rd1 mem) (LoadLocVar rd2 mem)"
  unfolding LoadCode_def LoadConstant_def LoadLocVar_def by (intro agree_intros agree_loaders agree_vectors)+

lemma agree_LoadFunction: "agree rd1 rd2 (LoadFunction rd1 mem d p) (LoadFunction rd2 mem d p)"
proof (induction d arbitrary: p)
  case (Suc d)
  show ?case
    unfolding LoadFunction.simps LoadConstants_def LoadDebug_def Let_def
    by (intro agree_intros agree_loaders agree_vectors agree_parts agree_array Suc.IH)
qed (simp add: agree_basic)

text \<open>
  Property C17. A load does not depend on the pieces in which its readers hand out the input: with
  the same bytes, the same memory and the same limits it returns the same function or raises the
  same error with the same message.
\<close>

theorem undump_pieces:
  assumes "delivers rd1 data1 bs" and "delivers rd2 data2 bs"
  shows "same_result (\<lambda>_ _. True) same_message
    (luaU_undump rd1 mem d name (LoadState_of (luaZ_init data1)))
    (luaU_undump rd2 mem d name (LoadState_of (luaZ_init data2)))"
proof -
  have "agree rd1 rd2 (luaU_undump rd1 mem d name) (luaU_undump rd2 mem d name)"
    unfolding luaU_undump_def by (intro agree_intros agree_loaders agree_LoadFunction)
  moreover have "same_input rd1 rd2 (LoadState_of (luaZ_init data1)) (LoadState_of (luaZ_init data2))"
    using stream_init [OF assms(1)] stream_init [OF assms(2)] by (auto simp: same_input_def LoadState_of_def)
  ultimately have "same_result (same_input rd1 rd2) same_message
      (luaU_undump rd1 mem d name (LoadState_of (luaZ_init data1)))
      (luaU_undump rd2 mem d name (LoadState_of (luaZ_init data2)))"
    unfolding agree_def by blast
  then show ?thesis by (rule same_result_weaken)
qed

section \<open>A sample chunk\<close>

text \<open>A reader that hands out a list in pieces of two bytes.\<close>

definition two_bytes :: "bytes reader" where
  "two_bytes d = (if d = [] then (None, []) else (Some (take 2 d), drop 2 d))"

lemma two_bytes_delivers: "delivers two_bytes d d"
proof (induction "length d" arbitrary: d rule: less_induct)
  case less
  show ?case
  proof (cases "d = []")
    case False
    then have "delivers two_bytes (drop 2 d) (drop 2 d)" by (intro less) simp
    from delivers.piece [of two_bytes d "take 2 d", OF _ _ this] False show ?thesis
      by (simp add: two_bytes_def)
  qed (auto intro: delivers.at_end simp: two_bytes_def)
qed

text \<open>A function with constants and an inner function that has another source.\<close>

definition sample_chunk :: Proto where
  "sample_chunk = Proto [TNumber 3, TString (lit ''x''), TBoolean True, TNil] sample_code
     [Proto [] [CREATE_ABC OP_RETURN 0 1 0] [] [1] [] [] (Some (lit ''b'')) 1 2 0 0 0 2]
     [] [\<lparr>varname = Some (lit ''v''), startpc = 0, endpc = 2\<rparr>] [] (Some (lit ''a'')) 0 9 0 2 0 3"

lemma sample_chunk_ok: "nested proto_ok (Suc (Suc 0)) sample_chunk"
  by (simp add: sample_chunk_def sample_code_def proto_ok_def count_ok_def natural_def str_ok_def const_ok_def
      is_int_def locvar_ok_def lit_def checker_run)

theorem undump_dump_witness:
  "\<exists>S'. luaU_undump two_bytes (\<lambda>_ _. True) (Suc (Suc 0)) (lit ''@f'') (LoadState_of (luaZ_init (dumped True sample_chunk)))
     = Val (reload True (lit ''=?'') sample_chunk) S'"
  by (rule undump_dump [OF sample_chunk_ok _ two_bytes_delivers]) (simp add: mem_ok_def)

theorem undump_truncated_witness:
  "\<exists>S'. luaU_undump two_bytes (\<lambda>_ _. True) (Suc (Suc 0)) (lit ''@f'') (LoadState_of (luaZ_init (take 9 (dumped True sample_chunk))))
     = Raise LUA_ERRSYNTAX S' \<and> S_errmsg S' = unexpected_end (lit ''f'')"
proof -
  have "9 < length (dumped True sample_chunk)" by (simp add: dumped_bytes length_header)
  moreover have "chunk_name (lit ''@f'') = lit ''f''" by code_simp
  ultimately show ?thesis
    using undump_truncated [OF sample_chunk_ok _ _ two_bytes_delivers, of "\<lambda>_ _. True" 9 True "lit ''@f''"]
    by (simp add: mem_ok_def)
qed


text \<open>The same input in one piece.\<close>

definition one_piece :: "bytes reader" where
  "one_piece d = (if d = [] then (None, []) else (Some d, []))"

theorem undump_pieces_witness:
  "same_result (\<lambda>_ _. True) same_message
    (luaU_undump two_bytes (\<lambda>_ _. True) 1 (lit ''f'') (LoadState_of (luaZ_init [1, 2, 3])))
    (luaU_undump one_piece (\<lambda>_ _. True) 1 (lit ''f'') (LoadState_of (luaZ_init [1, 2, 3])))"
proof (rule undump_pieces [OF two_bytes_delivers])
  have "delivers one_piece [] []" by (rule delivers.at_end) (simp add: one_piece_def)
  from delivers.piece [of one_piece "[1, 2, 3]" "[1, 2, 3]", OF _ _ this]
  show "delivers one_piece [1, 2, 3] [1, 2, 3]" by (simp add: one_piece_def)
qed

text \<open>
  A chunk whose string constant has size 0 leaves a string without an address in the constants, on
  which the later use of the constant falls.
\<close>

lemma LoadConstant_null:
  "LoadConstant two_bytes mem (LoadState_of (luaZ_init (4 # size_bytes 0))) = Undef"
  by code_simp

end
