(* ===== verification/Buffers.thy ===== *)
theory Buffers
  imports Stack
begin

text \<open>
  The string buffers of \<open>lauxlib.c\<close>: characters go to a fixed buffer and, when that is full, to
  strings on the stack, which are joined so that there are never many of them. What a buffer
  promises is that \<open>luaL_pushresult\<close> leaves one string, all that was added in order.
\<close>

section \<open>Operations\<close>

text \<open>
  \<open>lib\<close> adds what the libraries take from outside: \<open>BUFSIZ\<close> of the C library, and what the debug
  information says of the call that is running (kind and name), if there is a call.
\<close>

record 's lib = "'s host" +
  bufsiz :: nat
  called_as :: "(string \<times> bytes option) option"

type_synonym 'z lua_call = "nat \<Rightarrow> int \<Rightarrow> ('z lua_State_scheme, unit) prog"

record luaL_Buffer =
  buf :: bytes
  lvl :: nat

definition LIMIT :: nat where "LIMIT = LUA_MINSTACK div 2"

definition luaL_buffinit :: luaL_Buffer where
  "luaL_buffinit = \<lparr>buf = [], lvl = 0\<rparr>"

definition emptybuffer :: "luaL_Buffer \<Rightarrow> ('z lua_State_scheme, luaL_Buffer \<times> bool) prog" where
  "emptybuffer B =
     (if buf B = [] then ret (B, False)
      else seq (lua_pushlstring (buf B)) (ret (B\<lparr>buf := [], lvl := lvl B + 1\<rparr>, True)))"

text \<open>The loop of \<open>adjuststack\<close>; the last argument is \<open>B->lvl - toget\<close>.\<close>

primrec adjust_loop :: "('z lua_State_scheme, 'h) host_scheme \<Rightarrow> nat \<Rightarrow> nat \<Rightarrow> nat \<Rightarrow> nat \<Rightarrow> ('z lua_State_scheme, nat) prog" where
  "adjust_loop H lv toget toplen 0 = ret toget"
| "adjust_loop H lv toget toplen (Suc n) =
     bnd (lua_objlen H (- int (toget + 1))) (\<lambda>l.
       if LIMIT \<le> lv - toget + 1 \<or> l < toplen then adjust_loop H lv (toget + 1) (toplen + l) n
       else ret toget)"

definition adjuststack :: "('z lua_State_scheme, 'h) host_scheme \<Rightarrow> 'z lua_call \<Rightarrow> luaL_Buffer \<Rightarrow> ('z lua_State_scheme, luaL_Buffer) prog" where
  "adjuststack H C B =
     (if 1 < lvl B then
        bnd (lua_objlen H (- 1)) (\<lambda>toplen.
        bnd (adjust_loop H (lvl B) 1 toplen (lvl B - 1)) (\<lambda>toget.
        seq (lua_concat H C toget) (ret (B\<lparr>lvl := lvl B - toget + 1\<rparr>))))
      else ret B)"

definition luaL_prepbuffer :: "('z lua_State_scheme, 'h) host_scheme \<Rightarrow> 'z lua_call \<Rightarrow> luaL_Buffer \<Rightarrow> ('z lua_State_scheme, luaL_Buffer) prog" where
  "luaL_prepbuffer H C B = bnd (emptybuffer B) (\<lambda>(B, put). if put then adjuststack H C B else ret B)"

definition luaL_addchar :: "('z lua_State_scheme, 'h) lib_scheme \<Rightarrow> 'z lua_call \<Rightarrow> u8 \<Rightarrow> luaL_Buffer \<Rightarrow> ('z lua_State_scheme, luaL_Buffer) prog" where
  "luaL_addchar H C c B =
     bnd (if length (buf B) < bufsiz H then ret B else luaL_prepbuffer H C B) (\<lambda>B.
       ret (B\<lparr>buf := buf B @ [c]\<rparr>))"

text \<open>A loop that adds the characters of a list one by one.\<close>

primrec add_each :: "(u8 \<Rightarrow> 'b \<Rightarrow> ('s, 'b) prog) \<Rightarrow> bytes \<Rightarrow> 'b \<Rightarrow> ('s, 'b) prog" where
  "add_each put [] B = ret B"
| "add_each put (c # cs) B = bnd (put c B) (add_each put cs)"

definition luaL_addlstring :: "('z lua_State_scheme, 'h) lib_scheme \<Rightarrow> 'z lua_call \<Rightarrow>
    bytes \<Rightarrow> luaL_Buffer \<Rightarrow> ('z lua_State_scheme, luaL_Buffer) prog" where
  "luaL_addlstring H C = add_each (luaL_addchar H C)"

definition luaL_addstring :: "('z lua_State_scheme, 'h) lib_scheme \<Rightarrow> 'z lua_call \<Rightarrow> bytes \<Rightarrow> luaL_Buffer \<Rightarrow> ('z lua_State_scheme, luaL_Buffer) prog" where
  "luaL_addstring H C s = luaL_addlstring H C (c_string s)"

definition luaL_pushresult :: "('z lua_State_scheme, 'h) host_scheme \<Rightarrow> 'z lua_call \<Rightarrow> luaL_Buffer \<Rightarrow> ('z lua_State_scheme, luaL_Buffer) prog" where
  "luaL_pushresult H C B =
     bnd (emptybuffer B) (\<lambda>(B, _). seq (lua_concat H C (lvl B)) (ret (B\<lparr>lvl := 1\<rparr>)))"

text \<open>A value that is no string gives \<open>NULL\<close> with length 0: it is popped and nothing is added.\<close>

definition luaL_addvalue :: "('z lua_State_scheme, 'h) lib_scheme \<Rightarrow> 'z lua_call \<Rightarrow> luaL_Buffer \<Rightarrow> ('z lua_State_scheme, luaL_Buffer) prog" where
  "luaL_addvalue H C B =
     bnd (lua_tolstring H (- 1)) (\<lambda>s. let v = (case s of Some b \<Rightarrow> b | None \<Rightarrow> []) in
       if length v \<le> bufsiz H - length (buf B) then seq (lua_pop 1) (ret (B\<lparr>buf := buf B @ v\<rparr>))
       else bnd (emptybuffer B) (\<lambda>(B, put).
         seq (if put then lua_insert (- 2) else ret ()) (adjuststack H C (B\<lparr>lvl := lvl B + 1\<rparr>))))"

section \<open>Joining strings\<close>

text \<open>The top of the frame holds the strings \<open>ps\<close>.\<close>

definition strings :: "bytes list \<Rightarrow> TValue list" where
  "strings ps = map TString ps"

definition total_length :: "bytes list \<Rightarrow> nat" where
  "total_length ps = length (concat ps)"

lemma strings_simps [simp]:
  "strings [] = []" "strings (p # ps) = TString p # strings ps" "strings (ps @ qs) = strings ps @ strings qs"
  "length (strings ps) = length ps"
  by (simp_all add: strings_def)

lemma slot_run:
  assumes "stack s = xs @ TString b # ys"
  shows "tostring_slot H (length xs) s = Val True s" "slot_string (length xs) s = b" "stack s ! length xs = TString b"
  using assms by (simp_all add: tostring_slot_def tostring_value_def slot_string_def bnd_def)

text \<open>Collecting backwards: the operands are \<open>ps\<close>, of which the last ones, \<open>qs\<close>, are counted already.\<close>

lemma concat_collect_run:
  assumes "stack s = base @ strings (ps @ qs) @ extra" and "qs \<noteq> []" "total_length (ps @ qs) < MAX_SIZET"
  shows "concat_collect H (length base + length (ps @ qs) - 1) (length ps) (length qs) (total_length qs) s
    = Val (length (ps @ qs)) s"
  using assms
proof (induction ps arbitrary: qs rule: rev_induct)
  case (snoc p ps)
  have "stack s = (base @ strings ps) @ TString p # strings qs @ extra" using snoc.prems(1) by simp
  note slot = slot_run [OF this, simplified]
  have room: "\<not> MAX_SIZET - total_length qs \<le> length p"
    using snoc.prems(3) by (simp add: total_length_def)
  have "next": "concat_collect H (length base + length (ps @ p # qs) - 1) (length ps) (Suc (length qs)) (total_length qs + length p) s
      = Val (length (ps @ p # qs)) s"
    using snoc.IH [of "p # qs"] snoc.prems by (simp add: total_length_def add.commute)
  show ?case using room "next" by (simp add: bnd_def slot)
qed simp

lemma slots_concat:
  assumes "stack s = base @ strings ps @ extra"
  shows "concat (map (\<lambda>i. slot_string i s) [length base..<length base + length ps]) = concat ps"
proof -
  have "slot_string (length base + i) s = ps ! i" if "i < length ps" for i
    using that assms by (simp add: slot_string_def strings_def nth_append)
  then have "map (\<lambda>i. slot_string i s) [length base..<length base + length ps] = ps"
    by (intro nth_equalityI) simp_all
  then show ?thesis by simp
qed

lemma concat_pass_last:
  assumes "stack s = base @ strings (ps @ [b]) @ extra" and "ps \<noteq> []" "b \<noteq> []" "total_length (ps @ [b]) < MAX_SIZET"
  shows "concat_pass H C (length ps + 1) (length base + length ps) s =
    Val (length ps + 1) (s\<lparr>stack := base @ TString (concat (ps @ [b])) # drop (length base + 1) (stack s)\<rparr>)"
proof -
  obtain ps' p where ps: "ps = ps' @ [p]" using assms(2) by (cases ps rule: rev_cases) auto
  have "stack s = (base @ strings ps') @ TString p # TString b # extra" using assms(1) ps by simp
  from slot_run(3) [OF this] have below: "stack s ! (length base + length ps - Suc 0) = TString p" using ps by simp
  have "stack s = (base @ strings ps) @ TString b # extra" using assms(1) by simp
  note top = slot_run [OF this, simplified]
  have collect: "concat_collect H (length base + length ps) (length ps) (Suc 0) (length b) s = Val (length ps + 1) s"
    using concat_collect_run [of s base ps "[b]" extra H] assms by (simp add: total_length_def)
  have all: "concat (map (\<lambda>i. slot_string i s) [length base..<length base + length ps]) = concat ps"
    using slots_concat [of s base ps "TString b # extra"] assms(1) by simp
  have put: "(stack s)[length base := v] = base @ v # drop (length base + 1) (stack s)" for v
    using assms(1,2) by (cases ps) (simp_all add: list_update_append)
  show ?thesis
    using assms(3) by (simp add: concat_pass_def top below collect all put seq_def bnd_def ttype_def LUA_TSTRING_def)
qed

lemma concat_pass_empty:
  assumes "stack s = base @ strings (ps @ [p, []]) @ extra"
  shows "concat_pass H C (length ps + 2) (length base + length ps + 1) s = Val 2 s"
proof -
  have "stack s = (base @ strings ps) @ TString p # TString [] # extra" using assms(1) by simp
  note below = slot_run [OF this, simplified]
  have "stack s = (base @ strings (ps @ [p])) @ TString [] # extra" using assms(1) by simp
  note top = slot_run [OF this, simplified]
  show ?thesis
    by (simp add: concat_pass_def top below bnd_def ttype_def LUA_TSTRING_def)
qed

lemma concat_loop_run:
  assumes "stack s = base @ strings ps @ extra" and "2 \<le> length ps" "length ps \<le> f" "total_length ps < MAX_SIZET"
  shows "\<exists>rest. length rest = length ps - 1 + length extra \<and>
    concat_loop f H C (length ps) (length base + length ps - 1) s = Val () (s\<lparr>stack := base @ TString (concat ps) # rest\<rparr>)"
  using assms
proof (induction f arbitrary: ps extra)
  case (Suc f)
  obtain qs b where ps: "ps = qs @ [b]" using Suc.prems(2) by (cases ps rule: rev_cases) auto
  show ?case
  proof (cases "b = []")
    case False
    then have "concat_pass H C (length ps) (length base + length ps - 1) s =
        Val (length ps) (s\<lparr>stack := base @ TString (concat ps) # drop (length base + 1) (stack s)\<rparr>)"
      using concat_pass_last [of s base qs b extra H C] Suc.prems ps by (cases "qs = []") auto
    then show ?thesis
      using Suc.prems(1,2) by (intro exI [of _ "drop (length base + 1) (stack s)"]) (simp add: bnd_def)
  next
    case True
    obtain rs p where qs: "qs = rs @ [p]" using Suc.prems(2) ps by (cases qs rule: rev_cases) auto
    have pass: "concat_pass H C (length ps) (length base + length ps - 1) s = Val 2 s"
      using concat_pass_empty [of s base rs p extra H C] Suc.prems(1) ps qs True by simp
    show ?thesis
    proof (cases "rs = []")
      case True
      then show ?thesis using pass Suc.prems(1) ps qs \<open>b = []\<close>
        by (intro exI [of _ "TString [] # extra"]) (simp add: bnd_def)
    next
      case False
      then have "2 \<le> length qs" using qs by (cases rs) simp_all
      then obtain rest where "length rest = length qs - 1 + length (TString [] # extra)"
        "concat_loop f H C (length qs) (length base + length qs - 1) s = Val () (s\<lparr>stack := base @ TString (concat qs) # rest\<rparr>)"
        using Suc.IH [of qs "TString [] # extra"] Suc.prems ps True by (auto simp: total_length_def)
      then show ?thesis using pass ps \<open>b = []\<close> \<open>2 \<le> length qs\<close>
        by (intro exI [of _ rest]) (simp add: bnd_def Let_def)
    qed
  qed
qed simp

lemma lua_concat_run:
  assumes "stack s = base @ strings ps" and "ps \<noteq> []" "total_length ps < MAX_SIZET"
  shows "lua_concat H C (length ps) s = Val () (s\<lparr>stack := base @ [TString (concat ps)]\<rparr>)"
proof (cases "2 \<le> length ps")
  case True
  then obtain rest where "length rest = length ps - 1"
    "luaV_concat H C (length ps) (length base + length ps - 1) s = Val () (s\<lparr>stack := base @ TString (concat ps) # rest\<rparr>)"
    using concat_loop_run [of s base ps "[]" "length ps"] assms by (auto simp: luaV_concat_def)
  moreover have "Suc (Suc (length base + length ps - Suc 0)) - (length ps + length base) = 1" using True by arith
  ultimately show ?thesis using True assms(1) by (simp add: lua_concat_def seq_def bnd_def drop_top_def)
next
  case False
  then obtain p where "ps = [p]" using assms(2) by (cases ps) (auto simp: not_le less_Suc_eq)
  then show ?thesis using assms(1) by (simp add: lua_concat_def)
qed

section \<open>What a buffer holds\<close>

text \<open>
  Above \<open>base\<close> the frame holds the strings of the buffer; they and the characters that are not yet
  on the stack make up \<open>b\<close>. There are at most \<open>bound\<close> strings.
\<close>

definition holds :: "nat \<Rightarrow> TValue list \<Rightarrow> bytes \<Rightarrow> luaL_Buffer \<Rightarrow> 'z lua_State_scheme \<Rightarrow> bool" where
  "holds bound base b B s \<longleftrightarrow>
     (\<exists>ps. stack s = base @ strings ps \<and> lvl B = length ps \<and> concat ps @ buf B = b) \<and> lvl B \<le> bound"

text \<open>Only the stack changes.\<close>

definition restack :: "'z lua_State_scheme \<Rightarrow> 'z lua_State_scheme \<Rightarrow> bool" where
  "restack s s' \<longleftrightarrow> (\<exists>st. s' = s\<lparr>stack := st\<rparr>)"

lemma restack_refl [simp]: "restack s s"
  unfolding restack_def by (rule exI [of _ "stack s"]) simp

lemma restack_stack [simp]: "restack s (s\<lparr>stack := st\<rparr>)"
  by (auto simp: restack_def)

lemma restack_trans: "restack s s' \<Longrightarrow> restack s' s'' \<Longrightarrow> restack s s''"
  by (auto simp: restack_def)

lemma restackD: "restack s s' \<Longrightarrow> s' = s\<lparr>stack := stack s'\<rparr>"
  by (auto simp: restack_def)

lemma objlen_string:
  assumes "stack s = xs @ TString b # ys" "length ys \<le> 9000"
  shows "lua_objlen H (- 1 - int (length ys)) s = Val (length b) s"
proof -
  have "index2adr (- 1 - int (length ys)) s = Val (Stk (length xs)) s"
    using assms by (simp add: index2adr_def LUA_REGISTRYINDEX_def nat_diff_distrib' flip: of_nat_Suc of_nat_add)
  then show ?thesis using assms(1) by (simp add: lua_objlen_def bnd_def)
qed

lemma adjust_loop_run:
  assumes "stack s = base @ strings (ps @ qs)" and "length (ps @ qs) \<le> 100" "lv = length (ps @ qs)"
  shows "\<exists>n. length qs \<le> n \<and> n \<le> lv \<and> (n = lv \<or> lv - n + 1 < LIMIT) \<and>
    adjust_loop H lv (length qs) toplen (length ps) s = Val n s"
  using assms
proof (induction ps arbitrary: qs toplen rule: rev_induct)
  case (snoc p ps)
  have len: "lua_objlen H (- int (length qs + 1)) s = Val (length p) s"
    using objlen_string [of s "base @ strings ps" p "strings qs" H] snoc.prems by simp
  show ?case
  proof (cases "LIMIT \<le> lv - length qs + 1 \<or> length p < toplen")
    case True
    obtain n where "length (p # qs) \<le> n" "n \<le> lv" "n = lv \<or> lv - n + 1 < LIMIT"
      "adjust_loop H lv (length (p # qs)) (toplen + length p) (length ps) s = Val n s"
      using snoc.IH [of "p # qs" "toplen + length p"] snoc.prems by auto
    then show ?thesis using True len by (intro exI [of _ n]) (auto simp: bnd_def)
  next
    case False
    then show ?thesis using len snoc.prems by (intro exI [of _ "length qs"]) (auto simp: bnd_def)
  qed
qed simp

lemma adjuststack_run:
  assumes "holds 100 base b B s" and "length b < MAX_SIZET"
  shows "\<exists>B' s'. adjuststack H C B s = Val B' s' \<and> holds (max 1 (LIMIT - 1)) base b B' s' \<and> buf B' = buf B \<and> restack s s'"
proof (cases "1 < lvl B")
  case True
  obtain ps where ps: "stack s = base @ strings ps" "lvl B = length ps" "concat ps @ buf B = b" "length ps \<le> 100"
    using assms(1) by (auto simp: holds_def)
  obtain qs p where p: "ps = qs @ [p]" using True ps(2) by (cases ps rule: rev_cases) auto
  have len: "lua_objlen H (- 1) s = Val (length p) s"
    using objlen_string [of s "base @ strings qs" p "[]" H] ps(1) p by simp
  obtain n where n: "1 \<le> n" "n \<le> lvl B" "n = lvl B \<or> lvl B - n + 1 < LIMIT"
    "adjust_loop H (lvl B) 1 (length p) (lvl B - 1) s = Val n s"
    using adjust_loop_run [of s base qs "[p]" "lvl B" H "length p"] ps p by auto
  let ?low = "take (length ps - n) ps" and ?up = "drop (length ps - n) ps"
  have up: "length ?up = n" "?up \<noteq> []" using n ps(2) by auto
  have split: "stack s = (base @ strings ?low) @ strings ?up"
    unfolding ps(1) by (metis append.assoc append_take_drop_id strings_simps(3))
  have cat: "concat ?low @ concat ?up = concat ps" by (metis append_take_drop_id concat_append)
  then have "length (concat ?low) + length (concat ?up) + length (buf B) = length b"
    using ps(3) by (metis length_append)
  then have "length (concat ?up) < MAX_SIZET" using assms(2) by linarith
  then have run: "lua_concat H C n s = Val () (s\<lparr>stack := base @ strings (?low @ [concat ?up])\<rparr>)"
    using lua_concat_run [OF split up(2), of H C] up(1) by (simp add: total_length_def)
  let ?B = "B\<lparr>lvl := lvl B - n + 1\<rparr>" and ?s = "s\<lparr>stack := base @ strings (?low @ [concat ?up])\<rparr>"
  have "adjuststack H C B s = Val ?B ?s"
    using True n(4) by (simp add: adjuststack_def bnd_def seq_def len run)
  moreover have "holds (max 1 (LIMIT - 1)) base b ?B ?s"
    unfolding holds_def using cat ps(2,3) n(2,3)
    by (intro conjI exI [of _ "?low @ [concat ?up]"]) auto
  ultimately show ?thesis by (intro exI [of _ ?B] exI [of _ ?s]) simp
next
  case False
  then show ?thesis using assms(1)
    by (intro exI [of _ B] exI [of _ s]) (auto simp: adjuststack_def holds_def)
qed

lemma emptybuffer_run:
  assumes "holds k base b B s" and "length base + k < ci_top s"
  shows "\<exists>B' put s'. emptybuffer B s = Val (B', put) s' \<and> holds (k + 1) base b B' s' \<and> buf B' = [] \<and> restack s s' \<and>
    lvl B' = lvl B + (if put then 1 else 0) \<and> stack s' = stack s @ (if put then [TString (buf B)] else [])"
proof -
  obtain ps where ps: "stack s = base @ strings ps" "lvl B = length ps" "concat ps @ buf B = b" "length ps \<le> k"
    using assms(1) by (auto simp: holds_def)
  show ?thesis
  proof (cases "buf B = []")
    case True
    then show ?thesis using ps
      by (intro exI [of _ B] exI [of _ False] exI [of _ s]) (auto simp: emptybuffer_def holds_def)
  next
    case False
    let ?s = "s\<lparr>stack := stack s @ [TString (buf B)]\<rparr>"
    have "lua_pushlstring (buf B) s = Val () ?s"
      using ps(1,4) assms(2) by (simp add: lua_pushlstring_def push_run)
    moreover have "holds (k + 1) base b (B\<lparr>buf := [], lvl := lvl B + 1\<rparr>) ?s"
      unfolding holds_def using ps by (intro conjI exI [of _ "ps @ [buf B]"]) auto
    ultimately show ?thesis using False
      by (intro exI [of _ "B\<lparr>buf := [], lvl := lvl B + 1\<rparr>"] exI [of _ True] exI [of _ ?s])
        (simp add: emptybuffer_def seq_def bnd_def)
  qed
qed

text \<open>The state of a buffer between two operations.\<close>

definition buffer_ok :: "nat \<Rightarrow> TValue list \<Rightarrow> bytes \<Rightarrow> luaL_Buffer \<Rightarrow> 'z lua_State_scheme \<Rightarrow> bool" where
  "buffer_ok Z base b B s \<longleftrightarrow> holds (LIMIT - 1) base b B s \<and> length (buf B) \<le> Z \<and> 0 < Z \<and>
     length base + LIMIT + 1 < ci_top s \<and> length b < MAX_SIZET"

lemma LIMIT_val: "LIMIT = 10" by (simp add: LIMIT_def LUA_MINSTACK_def)

lemma restack_ci_top: "restack s s' \<Longrightarrow> ci_top s' = ci_top s"
  by (auto simp: restack_def)

lemma holds_mono: "holds k base b B s \<Longrightarrow> k \<le> k' \<Longrightarrow> holds k' base b B s"
  by (auto simp: holds_def)

lemma addchar_ok:
  assumes "buffer_ok (bufsiz H) base b B s" and "length b + 1 < MAX_SIZET"
  shows "\<exists>B' s'. luaL_addchar H C c B s = Val B' s' \<and> buffer_ok (bufsiz H) base (b @ [c]) B' s' \<and> restack s s'"
proof -
  have *: "buffer_ok (bufsiz H) base (b @ [c]) (B'\<lparr>buf := buf B' @ [c]\<rparr>) s'"
    if "holds (LIMIT - 1) base b B' s'" "length (buf B') < bufsiz H" "restack s s'" for B' s'
    using that assms by (auto simp: buffer_ok_def holds_def restack_ci_top)
  show ?thesis
  proof (cases "length (buf B) < bufsiz H")
    case True
    then show ?thesis using * [of B s] assms(1)
      by (auto simp: luaL_addchar_def bnd_def buffer_ok_def)
  next
    case False
    obtain B1 p s1 where 1: "emptybuffer B s = Val (B1, p) s1" "holds LIMIT base b B1 s1" "buf B1 = []" "restack s s1"
      using emptybuffer_run [of "LIMIT - 1" base b B s] assms(1) by (auto simp: buffer_ok_def LIMIT_val)
    have "p" using 1(1) False assms(1) by (auto simp: buffer_ok_def emptybuffer_def seq_def bnd_def lua_pushlstring_def split: res.splits if_splits)
    obtain B2 s2 where "adjuststack H C B1 s1 = Val B2 s2" "holds (LIMIT - 1) base b B2 s2" "buf B2 = []" "restack s1 s2"
      using adjuststack_run [of base b B1 s1 H C] holds_mono [OF 1(2)] 1(3) assms(2) by (auto simp: LIMIT_val)
    then show ?thesis using * [of B2 s2] False 1 \<open>p\<close> assms(1)
      by (auto simp: buffer_ok_def luaL_addchar_def luaL_prepbuffer_def bnd_def intro: restack_trans)
  qed
qed

text \<open>
  What a client needs to know of an operation \<open>put\<close> that adds one character: it succeeds while
  there is room, it adds the character behind the others, and what the client relies on of the
  state (\<open>same\<close>) does not change.
\<close>

locale byte_sink =
  fixes sink :: "bytes \<Rightarrow> 'b \<Rightarrow> 's \<Rightarrow> bool" and put :: "u8 \<Rightarrow> 'b \<Rightarrow> ('s, 'b) prog"
    and same :: "'s \<Rightarrow> 's \<Rightarrow> bool" and room :: nat
  assumes put_ok: "sink b B s \<Longrightarrow> length b + 1 < room \<Longrightarrow>
      \<exists>B' s'. put c B s = Val B' s' \<and> sink (b @ [c]) B' s' \<and> same s s'"
    and same_refl: "same s s" and same_trans: "same s s' \<Longrightarrow> same s' s'' \<Longrightarrow> same s s''"
begin

lemma add_each_ok:
  "sink b B s \<Longrightarrow> length b + length x < room \<Longrightarrow>
   \<exists>B' s'. add_each put x B s = Val B' s' \<and> sink (b @ x) B' s' \<and> same s s'"
proof (induction x arbitrary: b B s)
  case (Cons c x)
  obtain B1 s1 where 1: "put c B s = Val B1 s1" "sink (b @ [c]) B1 s1" "same s s1"
    using put_ok [OF Cons.prems(1)] Cons.prems(2) by fastforce
  obtain B2 s2 where "add_each put x B1 s1 = Val B2 s2" "sink ((b @ [c]) @ x) B2 s2" "same s1 s2"
    using Cons.IH [OF 1(2)] Cons.prems(2) by auto
  then show ?case using 1 same_trans by (auto simp: bnd_def)
qed (auto simp: same_refl)

end

interpretation buffer: byte_sink "\<lambda>b B s. buffer_ok (bufsiz H) base b B s" "luaL_addchar H C" restack MAX_SIZET
  for H base C
  by unfold_locales (auto intro: addchar_ok restack_trans)

lemma addlstring_ok:
  assumes "buffer_ok (bufsiz H) base b B s" and "length b + length x < MAX_SIZET"
  shows "\<exists>B' s'. luaL_addlstring H C x B s = Val B' s' \<and> buffer_ok (bufsiz H) base (b @ x) B' s' \<and> restack s s'"
  unfolding luaL_addlstring_def using assms by (rule buffer.add_each_ok)

lemma pushresult_ok:
  assumes "buffer_ok (bufsiz H) base b B s"
  shows "\<exists>B'. luaL_pushresult H C B s = Val B' (s\<lparr>stack := base @ [TString b]\<rparr>)"
proof -
  obtain B1 p s1 where 1: "emptybuffer B s = Val (B1, p) s1" "holds LIMIT base b B1 s1" "buf B1 = []" "restack s s1"
    using emptybuffer_run [of "LIMIT - 1" base b B s] assms(1) by (auto simp: buffer_ok_def LIMIT_val)
  obtain ps where ps: "stack s1 = base @ strings ps" "lvl B1 = length ps" "concat ps = b"
    using 1(2,3) by (auto simp: holds_def)
  have s1: "s1\<lparr>stack := st\<rparr> = s\<lparr>stack := st\<rparr>" for st using restackD [OF 1(4)] by (metis lua_State.surjective lua_State.update_convs(1))
  have "lua_concat H C (length ps) s1 = Val () (s\<lparr>stack := base @ [TString b]\<rparr>)"
  proof (cases "ps = []")
    case True
    have "length base < ci_top s1" using restack_ci_top [OF 1(4)] assms by (simp add: buffer_ok_def)
    then show ?thesis using True ps by (simp add: lua_concat_def lua_pushlstring_def push_run s1)
  next
    case False
    then show ?thesis using lua_concat_run [OF ps(1) False] assms ps(3) by (simp add: buffer_ok_def total_length_def s1)
  qed
  then show ?thesis using 1(1) ps(2) by (simp add: luaL_pushresult_def bnd_def seq_def)
qed

lemma tolstring_top:
  assumes "stack s = xs @ [v]" and "tostring_value H v = Some (TString b)"
  shows "lua_tolstring H (- 1) s = Val (Some b) (s\<lparr>stack := xs @ [TString b]\<rparr>)"
proof (cases v)
  case (TString b')
  then show ?thesis using assms by (simp add: lua_tolstring_top tostring_value_def)
next
  case (TNumber n)
  then show ?thesis using assms
    by (simp add: lua_tolstring_def bnd_def top_adr tostring_value_def luaV_tostring_def seq_def)
qed (use assms in \<open>simp_all add: tostring_value_def luaV_tostring_def\<close>)

lemma addvalue_large:
  assumes "stack s = base @ strings ps @ [TString x]" and "lvl B = length ps" "concat ps @ buf B = b" "length ps < LIMIT"
    and "length base + LIMIT + 1 < ci_top s" "length (b @ x) < MAX_SIZET"
  shows "\<exists>B' s'. bnd (emptybuffer B) (\<lambda>(B, put).
         seq (if put then lua_insert (- 2) else ret ()) (adjuststack H C (B\<lparr>lvl := lvl B + 1\<rparr>))) s = Val B' s' \<and>
    holds (LIMIT - 1) base (b @ x) B' s' \<and> buf B' = [] \<and> restack s s'"
proof -
  define qs where "qs = (if buf B = [] then ps else ps @ [buf B])"
  define B1 where "B1 = B\<lparr>buf := [], lvl := length qs\<rparr>"
  define s1 where "s1 = s\<lparr>stack := base @ strings (qs @ [x])\<rparr>"
  have first: "bnd (emptybuffer B) (\<lambda>(B, put).
      seq (if put then lua_insert (- 2) else ret ()) (adjuststack H C (B\<lparr>lvl := lvl B + 1\<rparr>))) s
    = adjuststack H C (B1\<lparr>lvl := lvl B1 + 1\<rparr>) s1"
  proof (cases "buf B = []")
    case True
    then have same: "B\<lparr>buf := [], lvl := n\<rparr> = B\<lparr>lvl := n\<rparr>" "s\<lparr>stack := base @ strings ps @ [TString x]\<rparr> = s" for n
      using assms(1,2) by (cases B, simp_all)
    show ?thesis using True assms(2)
      by (simp add: emptybuffer_def bnd_def seq_def qs_def B1_def s1_def same)
  next
    case False
    have "lua_pushlstring (buf B) s = Val () (s\<lparr>stack := stack s @ [TString (buf B)]\<rparr>)"
      using assms(1,4,5) by (simp add: lua_pushlstring_def push_run)
    moreover have "lua_insert (- 2) (s\<lparr>stack := stack s @ [TString (buf B)]\<rparr>) = Val () s1"
      using insert_run [of "s\<lparr>stack := stack s @ [TString (buf B)]\<rparr>" "base @ strings ps" "[TString x]" "TString (buf B)"] assms(1) False
      by (simp add: s1_def qs_def)
    ultimately show ?thesis using False assms(2)
      by (simp add: emptybuffer_def bnd_def seq_def qs_def B1_def)
  qed
  have "holds 100 base (b @ x) (B1\<lparr>lvl := lvl B1 + 1\<rparr>) s1"
    unfolding holds_def using assms(3,4)
    by (intro conjI exI [of _ "qs @ [x]"]) (auto simp: s1_def B1_def qs_def LIMIT_val)
  from adjuststack_run [OF this assms(6), of H C] show ?thesis
    unfolding first by (fastforce simp: B1_def s1_def LIMIT_val intro: restack_trans [OF restack_stack])
qed

lemma addvalue_ok:
  assumes "buffer_ok (bufsiz H) base b B (s\<lparr>stack := xs\<rparr>)" and "stack s = xs @ [v]" "tostring_value H v = Some (TString x)"
    and "length (b @ x) < MAX_SIZET"
  shows "\<exists>B' s'. luaL_addvalue H C B s = Val B' s' \<and> buffer_ok (bufsiz H) base (b @ x) B' s' \<and> restack s s'"
proof -
  obtain ps where ps: "xs = base @ strings ps" "lvl B = length ps" "concat ps @ buf B = b" "length ps < LIMIT"
    "length (buf B) \<le> bufsiz H" "0 < bufsiz H" "length base + LIMIT + 1 < ci_top s"
    using assms(1) by (auto simp: buffer_ok_def holds_def LIMIT_val)
  let ?s = "s\<lparr>stack := xs @ [TString x]\<rparr>"
  note top = tolstring_top [OF assms(2,3)]
  show ?thesis
  proof (cases "length x \<le> bufsiz H - length (buf B)")
    case True
    have "lua_pop 1 ?s = Val () (s\<lparr>stack := xs\<rparr>)" using lua_pop_run(1) [of ?s xs] by simp
    moreover have "buffer_ok (bufsiz H) base (b @ x) (B\<lparr>buf := buf B @ x\<rparr>) (s\<lparr>stack := xs\<rparr>)"
      using assms(1,4) True ps(5) by (auto simp: buffer_ok_def holds_def)
    ultimately show ?thesis using True top by (simp add: luaL_addvalue_def bnd_def seq_def Let_def)
  next
    case False
    obtain B' s' where "bnd (emptybuffer B) (\<lambda>(B, put).
         seq (if put then lua_insert (- 2) else ret ()) (adjuststack H C (B\<lparr>lvl := lvl B + 1\<rparr>))) ?s = Val B' s'"
      "holds (LIMIT - 1) base (b @ x) B' s'" "buf B' = []" "restack ?s s'"
      using addvalue_large [of ?s base ps x B b H C] ps assms(4) by auto
    then show ?thesis using False top assms(4) ps(6,7)
      by (auto simp: luaL_addvalue_def bnd_Val [where m = "lua_tolstring H (- 1)", OF top] buffer_ok_def restack_def)
  qed
qed

section \<open>A buffer from start to end\<close>

text \<open>What a client adds: characters, or a value that it has pushed.\<close>

datatype piece = Chars bytes | Pushed TValue

fun piece_text :: "('s, 'h) host_scheme \<Rightarrow> piece \<Rightarrow> bytes option" where
  "piece_text H (Chars b) = Some b"
| "piece_text H (Pushed v) = (case tostring_value H v of Some (TString b) \<Rightarrow> Some b | _ \<Rightarrow> None)"

fun add_piece :: "('z lua_State_scheme, 'h) lib_scheme \<Rightarrow> 'z lua_call \<Rightarrow> piece \<Rightarrow> luaL_Buffer \<Rightarrow> ('z lua_State_scheme, luaL_Buffer) prog" where
  "add_piece H C (Chars b) B = luaL_addlstring H C b B"
| "add_piece H C (Pushed v) B = seq (luaA_pushobject v) (luaL_addvalue H C B)"

primrec add_pieces :: "('z lua_State_scheme, 'h) lib_scheme \<Rightarrow> 'z lua_call \<Rightarrow> piece list \<Rightarrow> luaL_Buffer \<Rightarrow> ('z lua_State_scheme, luaL_Buffer) prog" where
  "add_pieces H C [] B = ret B"
| "add_pieces H C (p # ps) B = bnd (add_piece H C p B) (add_pieces H C ps)"

lemma add_piece_ok:
  assumes "buffer_ok (bufsiz H) base b B s" and "piece_text H p = Some x" "length (b @ x) < MAX_SIZET"
  shows "\<exists>B' s'. add_piece H C p B s = Val B' s' \<and> buffer_ok (bufsiz H) base (b @ x) B' s' \<and> restack s s'"
proof (cases p)
  case (Chars b)
  then show ?thesis using addlstring_ok [OF assms(1)] assms(2,3) by simp
next
  case (Pushed v)
  let ?s = "s\<lparr>stack := stack s @ [v]\<rparr>"
  have v: "tostring_value H v = Some (TString x)"
    using assms(2) Pushed by (simp split: option.splits TValue.splits)
  have "length (stack s) < ci_top s"
    using assms(1) by (auto simp: buffer_ok_def holds_def LIMIT_val)
  then have push: "luaA_pushobject v s = Val () ?s" by (rule push_run)
  have "buffer_ok (bufsiz H) base b B (?s\<lparr>stack := stack s\<rparr>)" using assms(1) by simp
  from addvalue_ok [OF this _ v assms(3), of C] obtain B' s' where
    "luaL_addvalue H C B ?s = Val B' s'" "buffer_ok (bufsiz H) base (b @ x) B' s'" "restack ?s s'" by auto
  then show ?thesis using push Pushed restack_trans [OF restack_stack] by (auto simp: seq_def bnd_def)
qed

lemma add_pieces_ok:
  assumes "buffer_ok (bufsiz H) base b B s" and "map (piece_text H) ps = map Some xs" "length (b @ concat xs) < MAX_SIZET"
  shows "\<exists>B' s'. add_pieces H C ps B s = Val B' s' \<and> buffer_ok (bufsiz H) base (b @ concat xs) B' s' \<and> restack s s'"
  using assms
proof (induction ps arbitrary: b B s xs)
  case (Cons p ps)
  obtain x ys where xs: "xs = x # ys" "piece_text H p = Some x" "map (piece_text H) ps = map Some ys"
    using Cons.prems(2) by auto
  obtain B1 s1 where 1: "add_piece H C p B s = Val B1 s1" "buffer_ok (bufsiz H) base (b @ x) B1 s1" "restack s s1"
    using add_piece_ok [OF Cons.prems(1) xs(2)] Cons.prems(3) xs(1) by fastforce
  obtain B2 s2 where "add_pieces H C ps B1 s1 = Val B2 s2" "buffer_ok (bufsiz H) base ((b @ x) @ concat ys) B2 s2" "restack s1 s2"
    using Cons.IH [OF 1(2) xs(3)] Cons.prems(3) xs(1) by auto
  then show ?case using 1 xs(1) by (auto simp: bnd_def intro: restack_trans)
qed auto

lemma buffinit_ok:
  "0 < bufsiz H \<Longrightarrow> length (stack s) + LIMIT + 1 < ci_top s \<Longrightarrow> buffer_ok (bufsiz H) (stack s) [] luaL_buffinit s"
  by (simp add: buffer_ok_def holds_def luaL_buffinit_def MAX_SIZET_def)

text \<open>A frame with room, and libraries that find nothing, for examples.\<close>

definition sample_frame :: "TValue list \<Rightarrow> lua_State" where
  "sample_frame st = \<lparr>stack = st, func = None, ci_top = length st + LUA_MINSTACK, tables = Map.empty,
     closures = Map.empty, udatas = Map.empty, upvals = Map.empty, registry = TNil, l_gt = TNil,
     g_mt = Map.empty, next_addr = 1\<rparr>"

definition sample_lib :: "lua_State lib" where
  "sample_lib = \<lparr>strtod = \<lambda>_. (0, 0), strtoul16 = \<lambda>_. (0, 0), lua_number2str = \<lambda>_. lit ''7'', sprintf_p = \<lambda>_. [],
     strcoll = \<lambda>_ _. 0, str_addr = \<lambda>_. 0, where1 = \<lambda>_. [], call_foreign = \<lambda>_ _ _. Undef, bufsiz = 4, called_as = None\<rparr>"

text \<open>
  Property C7. Whatever characters and values a client adds to a buffer, \<open>luaL_pushresult\<close> leaves
  one value more on the stack, the string of all that was added, in order; the stack below and the
  rest of the state are unchanged, and eleven free slots are enough for it.
\<close>

theorem luaL_buffer_collects:
  assumes "map (piece_text H) ps = map Some xs" and "length (concat xs) < MAX_SIZET"
    and "0 < bufsiz H" "length (stack s) + LIMIT + 1 < ci_top s"
  shows "\<exists>B. bnd (add_pieces H C ps luaL_buffinit) (luaL_pushresult H C) s
    = Val B (s\<lparr>stack := stack s @ [TString (concat xs)]\<rparr>)"
proof -
  obtain B1 s1 where 1: "add_pieces H C ps luaL_buffinit s = Val B1 s1"
    "buffer_ok (bufsiz H) (stack s) (concat xs) B1 s1" "restack s s1"
    using add_pieces_ok [OF buffinit_ok [OF assms(3,4)] assms(1), of C] assms(2) by auto
  from pushresult_ok [OF 1(2), of C] 1(1,3) show ?thesis by (auto simp: bnd_def restack_def)
qed

theorem luaL_buffer_collects_witness:
  "\<exists>B. bnd (add_pieces sample_lib (\<lambda>_ _. undef) [Chars (lit ''hello''), Pushed (TNumber 3), Pushed (TString (lit ''world''))] luaL_buffinit)
       (luaL_pushresult sample_lib (\<lambda>_ _. undef)) (sample_frame [TNil])
    = Val B (sample_frame [TNil] \<lparr>stack := [TNil, TString (lit ''hello7world'')]\<rparr>)"
proof -
  have "c_string (lit ''7'') = lit ''7''" by (simp add: c_string_def lit_def)
  then show ?thesis
    using luaL_buffer_collects [of sample_lib "[Chars (lit ''hello''), Pushed (TNumber 3), Pushed (TString (lit ''world''))]"
      "[lit ''hello'', lit ''7'', lit ''world'']" "sample_frame [TNil]" "\<lambda>_ _. undef"]
    by (simp add: sample_lib_def sample_frame_def tostring_value_def luaV_tostring_def MAX_SIZET_def LIMIT_val LUA_MINSTACK_def lit_def)
qed

end
