(* ===== verification/Arguments.thy ===== *)
theory Arguments
  imports Buffers
begin

text \<open>
  How a library function gets its arguments: the checks of \<open>lauxlib.c\<close>, which return the argument
  or raise an error that names it. Each says what it does on an argument of the right type.
\<close>

section \<open>Error messages\<close>

text \<open>\<open>luaL_error\<close> once its message is formatted.\<close>

definition luaL_errormsg :: "('z lua_State_scheme, 'h) host_scheme \<Rightarrow> 'z lua_call \<Rightarrow> bytes \<Rightarrow> ('z lua_State_scheme, 'a) prog" where
  "luaL_errormsg H C msg = seq (steps [luaL_where H, rawpush (TString msg), lua_concat H C 2]) lua_error"

text \<open>\<open>%d\<close> of \<open>luaO_pushvfstring\<close>.\<close>

definition fmt_int :: "('s, 'h) host_scheme \<Rightarrow> int \<Rightarrow> bytes" where
  "fmt_int H n = c_string (lua_number2str H (cast_num n))"

definition quoted :: "bytes \<Rightarrow> bytes" where "quoted b = lit [CHR 0x27] @ b @ lit [CHR 0x27]"

definition luaL_argerror :: "('z lua_State_scheme, 'h) lib_scheme \<Rightarrow> 'z lua_call \<Rightarrow> int \<Rightarrow> bytes \<Rightarrow> ('z lua_State_scheme, 'a) prog" where
  "luaL_argerror H C narg extramsg =
     (case called_as H of
        None \<Rightarrow> luaL_errormsg H C (lit ''bad argument #'' @ fmt_int H narg @ lit '' ('' @ extramsg @ lit '')'')
      | Some (namewhat, name) \<Rightarrow>
          (let narg = (if namewhat = ''method'' then narg - 1 else narg)
           in if namewhat = ''method'' \<and> narg = 0 then
                luaL_errormsg H C (lit ''calling '' @ quoted (case name of Some n \<Rightarrow> n | None \<Rightarrow> lit ''(null)'')
                  @ lit '' on bad self ('' @ extramsg @ lit '')'')
              else luaL_errormsg H C (lit ''bad argument #'' @ fmt_int H narg @ lit '' to ''
                  @ quoted (case name of Some n \<Rightarrow> n | None \<Rightarrow> lit ''?'') @ lit '' ('' @ extramsg @ lit '')'')))"

definition luaL_typerror :: "('z lua_State_scheme, 'h) lib_scheme \<Rightarrow> 'z lua_call \<Rightarrow> int \<Rightarrow> string \<Rightarrow> ('z lua_State_scheme, 'a) prog" where
  "luaL_typerror H C narg tname =
     bnd (lua_type narg) (\<lambda>t. let msg = lit (tname @ '' expected, got '' @ lua_typename t)
       in seq (rawpush (TString msg)) (luaL_argerror H C narg msg))"

definition tag_error :: "('z lua_State_scheme, 'h) lib_scheme \<Rightarrow> 'z lua_call \<Rightarrow> int \<Rightarrow> int \<Rightarrow> ('z lua_State_scheme, 'a) prog" where
  "tag_error H C narg tag = luaL_typerror H C narg (lua_typename tag)"

definition luaL_argcheck :: "('z lua_State_scheme, 'h) lib_scheme \<Rightarrow> 'z lua_call \<Rightarrow> bool \<Rightarrow> int \<Rightarrow> string \<Rightarrow> ('z lua_State_scheme, unit) prog" where
  "luaL_argcheck H C cond narg extramsg = (if cond then ret () else luaL_argerror H C narg (lit extramsg))"

section \<open>Checks\<close>

definition luaL_checkstack :: "('z lua_State_scheme, 'h) lib_scheme \<Rightarrow> 'z lua_call \<Rightarrow> int \<Rightarrow> string \<Rightarrow> ('z lua_State_scheme, unit) prog" where
  "luaL_checkstack H C space mes = bnd (lua_checkstack space) (\<lambda>ok.
     if ok then ret () else luaL_errormsg H C (lit (''stack overflow ('' @ mes @ '')'')))"

definition luaL_checktype :: "('z lua_State_scheme, 'h) lib_scheme \<Rightarrow> 'z lua_call \<Rightarrow> int \<Rightarrow> int \<Rightarrow> ('z lua_State_scheme, unit) prog" where
  "luaL_checktype H C narg t = bnd (lua_type narg) (\<lambda>t'. if t' \<noteq> t then tag_error H C narg t else ret ())"

definition luaL_checkany :: "('z lua_State_scheme, 'h) lib_scheme \<Rightarrow> 'z lua_call \<Rightarrow> int \<Rightarrow> ('z lua_State_scheme, unit) prog" where
  "luaL_checkany H C narg = bnd (lua_type narg) (\<lambda>t.
     if t = LUA_TNONE then luaL_argerror H C narg (lit ''value expected'') else ret ())"

definition luaL_checklstring :: "('z lua_State_scheme, 'h) lib_scheme \<Rightarrow> 'z lua_call \<Rightarrow> int \<Rightarrow> ('z lua_State_scheme, bytes) prog" where
  "luaL_checklstring H C narg = bnd (lua_tolstring H narg) (\<lambda>s.
     case s of Some b \<Rightarrow> ret b | None \<Rightarrow> tag_error H C narg LUA_TSTRING)"

definition lua_isnoneornil :: "int \<Rightarrow> ('z lua_State_scheme, bool) prog" where
  "lua_isnoneornil n = bnd (lua_type n) (\<lambda>t. ret (t \<le> 0))"

definition luaL_optlstring :: "('z lua_State_scheme, 'h) lib_scheme \<Rightarrow> 'z lua_call \<Rightarrow> int \<Rightarrow> bytes option \<Rightarrow> ('z lua_State_scheme, bytes option) prog" where
  "luaL_optlstring H C narg dflt = bnd (lua_isnoneornil narg) (\<lambda>none.
     if none then ret (map_option c_string dflt) else bnd (luaL_checklstring H C narg) (\<lambda>b. ret (Some b)))"

definition luaL_checknumber :: "('z lua_State_scheme, 'h) lib_scheme \<Rightarrow> 'z lua_call \<Rightarrow> int \<Rightarrow> ('z lua_State_scheme, lua_Number) prog" where
  "luaL_checknumber H C narg = bnd (lua_tonumber H narg) (\<lambda>d.
     bnd (if luai_numeq d 0 then bnd (lua_isnumber H narg) (\<lambda>n. ret (\<not> n)) else ret False) (\<lambda>bad.
       if bad then tag_error H C narg LUA_TNUMBER else ret d))"

definition luaL_optnumber :: "('z lua_State_scheme, 'h) lib_scheme \<Rightarrow> 'z lua_call \<Rightarrow> int \<Rightarrow> lua_Number \<Rightarrow> ('z lua_State_scheme, lua_Number) prog" where
  "luaL_optnumber H C narg dflt = bnd (lua_isnoneornil narg) (\<lambda>none.
     if none then ret dflt else luaL_checknumber H C narg)"

definition luaL_checkinteger :: "('z lua_State_scheme, 'h) lib_scheme \<Rightarrow> 'z lua_call \<Rightarrow> int \<Rightarrow> ('z lua_State_scheme, int) prog" where
  "luaL_checkinteger H C narg = bnd (lua_tointeger H narg) (\<lambda>d.
     bnd (if d = 0 then bnd (lua_isnumber H narg) (\<lambda>n. ret (\<not> n)) else ret False) (\<lambda>bad.
       if bad then tag_error H C narg LUA_TNUMBER else ret d))"

definition luaL_optinteger :: "('z lua_State_scheme, 'h) lib_scheme \<Rightarrow> 'z lua_call \<Rightarrow> int \<Rightarrow> int \<Rightarrow> ('z lua_State_scheme, int) prog" where
  "luaL_optinteger H C narg dflt = bnd (lua_isnoneornil narg) (\<lambda>none.
     if none then ret dflt else luaL_checkinteger H C narg)"

definition luaL_checkint :: "('z lua_State_scheme, 'h) lib_scheme \<Rightarrow> 'z lua_call \<Rightarrow> int \<Rightarrow> ('z lua_State_scheme, int) prog" where
  "luaL_checkint H C n = bnd (luaL_checkinteger H C n) (\<lambda>i. ret (to_int i))"

definition luaL_optint :: "('z lua_State_scheme, 'h) lib_scheme \<Rightarrow> 'z lua_call \<Rightarrow> int \<Rightarrow> int \<Rightarrow> ('z lua_State_scheme, int) prog" where
  "luaL_optint H C n d = bnd (luaL_optinteger H C n d) (\<lambda>i. ret (to_int i))"

fun option_number :: "bytes \<Rightarrow> bytes list \<Rightarrow> nat option" where
  "option_number name [] = None"
| "option_number name (x # xs) = (if c_string x = c_string name then Some 0 else map_option Suc (option_number name xs))"

definition luaL_checkoption :: "('z lua_State_scheme, 'h) lib_scheme \<Rightarrow> 'z lua_call \<Rightarrow> int \<Rightarrow> bytes option \<Rightarrow> bytes list \<Rightarrow> ('z lua_State_scheme, nat) prog" where
  "luaL_checkoption H C narg dflt lst =
     bnd (if dflt \<noteq> None then luaL_optlstring H C narg dflt else bnd (luaL_checklstring H C narg) (\<lambda>b. ret (Some b))) (\<lambda>name.
       case name of None \<Rightarrow> undef
       | Some name \<Rightarrow> (case option_number name lst of
           Some i \<Rightarrow> ret i
         | None \<Rightarrow> (let msg = lit ''invalid option '' @ quoted (c_string name)
                   in seq (rawpush (TString msg)) (luaL_argerror H C narg msg))))"

definition luaL_checkudata :: "('z lua_State_scheme, 'h) lib_scheme \<Rightarrow> 'z lua_call \<Rightarrow> int \<Rightarrow> bytes \<Rightarrow> ('z lua_State_scheme, pointer) prog" where
  "luaL_checkudata H C ud tname =
     bnd (lua_touserdata ud) (\<lambda>p.
     bnd (if p \<noteq> NullPtr then
            bnd (lua_getmetatable ud) (\<lambda>has. if has then
              seq (lua_getfield C LUA_REGISTRYINDEX tname) (lua_rawequal (- 1) (- 2)) else ret False)
          else ret False) (\<lambda>found.
       if found then seq (lua_pop 2) (ret p)
       else bnd (lua_type ud) (\<lambda>t. let msg = c_string tname @ lit ('' expected, got '' @ lua_typename t)
         in seq (rawpush (TString msg)) (luaL_argerror H C ud msg))))"

section \<open>Arguments of the right type\<close>

lemma arg_adr: "i < length (stack s) \<Longrightarrow> index2adr (int i + 1) s = Val (Stk i) s"
  by (simp add: index2adr_def)

lemma arg_none: "length (stack s) \<le> i \<Longrightarrow> index2adr (int i + 1) s = Val NilObject s"
  by (simp add: index2adr_def)

lemma checklstring_string:
  "i < length (stack s) \<Longrightarrow> stack s ! i = TString b \<Longrightarrow> luaL_checklstring H C (int i + 1) s = Val b s"
  by (simp add: luaL_checklstring_def lua_tolstring_def bnd_def arg_adr)

lemma checkinteger_number:
  "i < length (stack s) \<Longrightarrow> luaV_tonumber H (stack s ! i) = Some n \<Longrightarrow>
   luaL_checkinteger H C (int i + 1) s = Val (lua_number2integer n) s"
  by (simp add: luaL_checkinteger_def lua_tointeger_def lua_isnumber_def index_value_def bnd_def arg_adr)

lemma optinteger_number:
  "i < length (stack s) \<Longrightarrow> stack s ! i = TNumber n \<Longrightarrow>
   luaL_optinteger H C (int i + 1) dflt s = Val (lua_number2integer n) s"
  by (simp add: luaL_optinteger_def lua_isnoneornil_def lua_type_def bnd_def arg_adr ttype_def checkinteger_number luaV_tonumber_def)

lemma optinteger_none:
  "length (stack s) \<le> i \<or> stack s ! i = TNil \<Longrightarrow> luaL_optinteger H C (int i + 1) dflt s = Val dflt s"
  by (cases "length (stack s) \<le> i")
    (simp_all add: luaL_optinteger_def lua_isnoneornil_def lua_type_def bnd_def arg_adr arg_none ttype_def LUA_TNONE_def)

text \<open>A call without debug information, on a first argument of the wrong type.\<close>

lemma errormsg_run:
  assumes "length (stack s) + 2 \<le> 9000" "length (where1 H s) + length msg < MAX_SIZET"
  shows "luaL_errormsg H C msg s = Raise LUA_ERRRUN (s\<lparr>stack := stack s @ [TString (where1 H s @ msg)]\<rparr>)"
proof -
  let ?s = "s\<lparr>stack := stack s @ [TString (where1 H s), TString msg]\<rparr>"
  have "lua_concat H C 2 ?s = Val () (?s\<lparr>stack := stack s @ [TString (where1 H s @ msg)]\<rparr>)"
    using lua_concat_run [of ?s "stack s" "[where1 H s, msg]" H C] assms(2) by (simp add: total_length_def numeral_2_eq_2)
  then show ?thesis
    by (simp add: luaL_errormsg_def seq_def bnd_def luaL_where_def rawpush_def lua_error_def top_value_top)
qed

end
