(* ===== verification/Ctype.thy ===== *)
theory Ctype
  imports Meta
begin

text \<open>The character classes of \<open>ctype.h\<close> in the C locale, on bytes.\<close>

abbreviation chr :: "char \<Rightarrow> u8" where "chr c \<equiv> of_char c"

definition between :: "u8 \<Rightarrow> char \<Rightarrow> char \<Rightarrow> bool" where
  "between c a b \<longleftrightarrow> chr a \<le> c \<and> c \<le> chr b"

text \<open>\<open>isspace\<close>, and \<open>char_at\<close> that reads a C string, are in theory Meta.\<close>

definition islower :: "u8 \<Rightarrow> bool" where "islower c \<longleftrightarrow> between c CHR ''a'' CHR ''z''"
definition isupper :: "u8 \<Rightarrow> bool" where "isupper c \<longleftrightarrow> between c CHR ''A'' CHR ''Z''"
definition isalpha :: "u8 \<Rightarrow> bool" where "isalpha c \<longleftrightarrow> islower c \<or> isupper c"
definition isdigit :: "u8 \<Rightarrow> bool" where "isdigit c \<longleftrightarrow> between c CHR ''0'' CHR ''9''"
definition isalnum :: "u8 \<Rightarrow> bool" where "isalnum c \<longleftrightarrow> isalpha c \<or> isdigit c"
definition isxdigit :: "u8 \<Rightarrow> bool" where
  "isxdigit c \<longleftrightarrow> isdigit c \<or> between c CHR ''a'' CHR ''f'' \<or> between c CHR ''A'' CHR ''F''"
definition iscntrl :: "u8 \<Rightarrow> bool" where "iscntrl c \<longleftrightarrow> c < 0x20 \<or> c = 0x7F"
definition ispunct :: "u8 \<Rightarrow> bool" where "ispunct c \<longleftrightarrow> 0x20 < c \<and> c < 0x7F \<and> \<not> isalnum c"
definition tolower :: "u8 \<Rightarrow> u8" where "tolower c = (if isupper c then c + 0x20 else c)"
definition toupper :: "u8 \<Rightarrow> u8" where "toupper c = (if islower c then c - 0x20 else c)"

end
