(* ===== verification/Patterns.thy ===== *)
theory Patterns
  imports Ctype
begin

text \<open>
  Pattern matching of \<open>lstrlib.c\<close>: the backtracking matcher with its captures. Pointers into the
  subject and into the pattern are positions. The subject is followed by a zero byte; a pattern is
  a C string, so it ends at its first zero byte and holds none before it.
\<close>

section \<open>The subject and the pattern\<close>

lemma char_at_less: "char_at b i \<noteq> 0 \<Longrightarrow> i < length b"
  by (simp add: char_at_def split: if_splits)

definition L_ESC :: u8 where "L_ESC = chr CHR ''%''"
definition LUA_MAXCAPTURES :: nat where "LUA_MAXCAPTURES = 32"
definition CAP_UNFINISHED :: int where "CAP_UNFINISHED = - 1"
definition CAP_POSITION :: int where "CAP_POSITION = - 2"

record MatchState =
  level :: nat
  capture :: "(nat \<times> int) list"

text \<open>The matcher is given a fresh \<open>MatchState\<close>; only captures below its level are ever read.\<close>

definition new_ms :: MatchState where
  "new_ms = \<lparr>level = 0, capture = replicate LUA_MAXCAPTURES (0, 0)\<rparr>"

section \<open>Helpers of the matcher\<close>

definition check_capture :: "MatchState \<Rightarrow> u8 \<Rightarrow> nat outcome" where
  "check_capture ms l =
     (let l = uint l - 49
      in if l < 0 \<or> int (level ms) \<le> l \<or> snd (capture ms ! nat l) = CAP_UNFINISHED
         then RunError ''invalid capture index'' else Ok (nat l))"

primrec unfinished_below :: "(nat \<times> int) list \<Rightarrow> nat \<Rightarrow> nat option" where
  "unfinished_below cs 0 = None"
| "unfinished_below cs (Suc l) = (if snd (cs ! l) = CAP_UNFINISHED then Some l else unfinished_below cs l)"

definition capture_to_close :: "MatchState \<Rightarrow> nat outcome" where
  "capture_to_close ms =
     (case unfinished_below (capture ms) (level ms) of
        Some l \<Rightarrow> Ok l | None \<Rightarrow> RunError ''invalid pattern capture'')"

text \<open>The loop that looks for the \<open>]\<close>; \<open>p\<close> is behind the bracket and the \<open>^\<close>.\<close>

function bracket_end :: "bytes \<Rightarrow> nat \<Rightarrow> nat outcome" where
  "bracket_end pat p =
     (if char_at pat p = 0 then RunError ''malformed pattern (missing ']')''
      else (let q = (if char_at pat p = L_ESC \<and> char_at pat (p + 1) \<noteq> 0 then p + 2 else p + 1)
            in if char_at pat q \<noteq> chr CHR '']'' then bracket_end pat q else Ok (q + 1)))"
  by pat_completeness auto
termination
  by (relation "measure (\<lambda>(pat, p). length pat - p)") (auto simp: Let_def dest: char_at_less)

declare bracket_end.simps [simp del]

definition classend :: "bytes \<Rightarrow> nat \<Rightarrow> nat outcome" where
  "classend pat p =
     (if char_at pat p = L_ESC then
        if char_at pat (p + 1) = 0 then RunError ''malformed pattern (ends with '%')'' else Ok (p + 2)
      else if char_at pat p = chr CHR ''['' then
        bracket_end pat (if char_at pat (p + 1) = chr CHR ''^'' then p + 2 else p + 1)
      else Ok (p + 1))"

definition match_class :: "u8 \<Rightarrow> u8 \<Rightarrow> bool" where
  "match_class c cl =
     (let l = tolower cl; sel = (\<lambda>res. if islower cl then res else \<not> res)
      in if l = chr CHR ''a'' then sel (isalpha c)
         else if l = chr CHR ''c'' then sel (iscntrl c)
         else if l = chr CHR ''d'' then sel (isdigit c)
         else if l = chr CHR ''l'' then sel (islower c)
         else if l = chr CHR ''p'' then sel (ispunct c)
         else if l = chr CHR ''s'' then sel (isspace c)
         else if l = chr CHR ''u'' then sel (isupper c)
         else if l = chr CHR ''w'' then sel (isalnum c)
         else if l = chr CHR ''x'' then sel (isxdigit c)
         else if l = chr CHR ''z'' then sel (c = 0)
         else cl = c)"

text \<open>The loop over a set; \<open>p\<close> is the position before \<open>++p\<close>, the result whether \<open>c\<close> was found.\<close>

function in_set :: "u8 \<Rightarrow> bytes \<Rightarrow> nat \<Rightarrow> nat \<Rightarrow> bool" where
  "in_set c pat p ec =
     (let p = p + 1
      in if \<not> p < ec then False
         else if char_at pat p = L_ESC then
           match_class c (char_at pat (p + 1)) \<or> in_set c pat (p + 1) ec
         else if char_at pat (p + 1) = chr CHR ''-'' \<and> p + 2 < ec then
           char_at pat p \<le> c \<and> c \<le> char_at pat (p + 2) \<or> in_set c pat (p + 2) ec
         else char_at pat p = c \<or> in_set c pat p ec)"
  by pat_completeness auto
termination by (relation "measure (\<lambda>(c, pat, p, ec). ec - p)") auto

declare in_set.simps [simp del]

definition matchbracketclass :: "u8 \<Rightarrow> bytes \<Rightarrow> nat \<Rightarrow> nat \<Rightarrow> bool" where
  "matchbracketclass c pat p ec =
     (if char_at pat (p + 1) = chr CHR ''^'' then \<not> in_set c pat (p + 1) ec else in_set c pat p ec)"

definition singlematch :: "u8 \<Rightarrow> bytes \<Rightarrow> nat \<Rightarrow> nat \<Rightarrow> bool" where
  "singlematch c pat p ep =
     (if char_at pat p = chr CHR ''.'' then True
      else if char_at pat p = L_ESC then match_class c (char_at pat (p + 1))
      else if char_at pat p = chr CHR ''['' then matchbracketclass c pat p (ep - 1)
      else char_at pat p = c)"

text \<open>\<open>s\<close> is the position before \<open>++s\<close>.\<close>

function balance_loop :: "bytes \<Rightarrow> u8 \<Rightarrow> u8 \<Rightarrow> nat \<Rightarrow> int \<Rightarrow> nat option" where
  "balance_loop src b e s cont =
     (let s = s + 1
      in if \<not> s < length src then None
         else if src ! s = e then (if cont - 1 = 0 then Some (s + 1) else balance_loop src b e s (cont - 1))
         else if src ! s = b then balance_loop src b e s (cont + 1)
         else balance_loop src b e s cont)"
  by pat_completeness auto
termination by (relation "measure (\<lambda>(src, b, e, s, cont). length src - s)") auto

declare balance_loop.simps [simp del]

definition matchbalance :: "bytes \<Rightarrow> bytes \<Rightarrow> nat \<Rightarrow> nat \<Rightarrow> nat option outcome" where
  "matchbalance src pat s p =
     (if char_at pat p = 0 \<or> char_at pat (p + 1) = 0 then RunError ''unbalanced pattern''
      else if char_at src s \<noteq> char_at pat p then Ok None
      else Ok (balance_loop src (char_at pat p) (char_at pat (p + 1)) s 1))"

section \<open>The matcher\<close>

text \<open>
  The result of \<open>match\<close>: the position behind the match or \<open>NULL\<close>, and the captures. \<open>max_expand\<close> and
  the others call \<open>match\<close> at one position of the pattern, which is their first argument.
\<close>

type_synonym match_result = "(nat option \<times> MatchState) outcome"
type_synonym matcher = "nat \<Rightarrow> MatchState \<Rightarrow> match_result"

lemma bind_outcome_cong [fundef_cong]:
  "m = m' \<Longrightarrow> (\<And>a. m' = Ok a \<Longrightarrow> f a = f' a) \<Longrightarrow> bind_outcome m f = bind_outcome m' f'"
  by (cases m') simp_all

text \<open>\<open>if (res) return res;\<close> and otherwise go on.\<close>

definition or_else :: "match_result \<Rightarrow> (MatchState \<Rightarrow> match_result) \<Rightarrow> match_result" where
  "or_else m next = bind_outcome m (\<lambda>(res, ms). case res of Some e \<Rightarrow> Ok (Some e, ms) | None \<Rightarrow> next ms)"

function max_count :: "bytes \<Rightarrow> bytes \<Rightarrow> nat \<Rightarrow> nat \<Rightarrow> nat \<Rightarrow> nat \<Rightarrow> nat" where
  "max_count src pat p ep s i =
     (if s + i < length src \<and> singlematch (src ! (s + i)) pat p ep then max_count src pat p ep s (i + 1) else i)"
  by pat_completeness auto
termination by (relation "measure (\<lambda>(src, pat, p, ep, s, i). length src - (s + i))") auto

declare max_count.simps [simp del]

primrec max_loop :: "matcher \<Rightarrow> nat \<Rightarrow> nat \<Rightarrow> MatchState \<Rightarrow> match_result" where
  "max_loop M s 0 ms = or_else (M s ms) (\<lambda>ms. Ok (None, ms))"
| "max_loop M s (Suc i) ms = or_else (M (s + Suc i) ms) (max_loop M s i)"

definition max_expand :: "matcher \<Rightarrow> bytes \<Rightarrow> bytes \<Rightarrow> nat \<Rightarrow> nat \<Rightarrow> nat \<Rightarrow> MatchState \<Rightarrow> match_result" where
  "max_expand M src pat s p ep ms = max_loop M s (max_count src pat p ep s 0) ms"

function min_expand :: "matcher \<Rightarrow> bytes \<Rightarrow> bytes \<Rightarrow> nat \<Rightarrow> nat \<Rightarrow> nat \<Rightarrow> MatchState \<Rightarrow> match_result" where
  "min_expand M src pat s p ep ms =
     or_else (M s ms) (\<lambda>ms.
       if s < length src \<and> singlematch (src ! s) pat p ep then min_expand M src pat (s + 1) p ep ms
       else Ok (None, ms))"
  by pat_completeness auto
termination by (relation "measure (\<lambda>(M, src, pat, s, p, ep, ms). length src - s)") auto

declare min_expand.simps [simp del]

definition start_capture :: "matcher \<Rightarrow> nat \<Rightarrow> int \<Rightarrow> MatchState \<Rightarrow> match_result" where
  "start_capture M s what ms =
     (if LUA_MAXCAPTURES \<le> level ms then RunError ''too many captures''
      else or_else (M s (ms\<lparr>capture := (capture ms)[level ms := (s, what)], level := level ms + 1\<rparr>))
             (\<lambda>ms. Ok (None, ms\<lparr>level := level ms - 1\<rparr>)))"

definition end_capture :: "matcher \<Rightarrow> nat \<Rightarrow> MatchState \<Rightarrow> match_result" where
  "end_capture M s ms =
     bind_outcome (capture_to_close ms) (\<lambda>l.
       or_else (M s (ms\<lparr>capture := (capture ms)[l := (fst (capture ms ! l), int s - int (fst (capture ms ! l)))]\<rparr>))
         (\<lambda>ms. Ok (None, ms\<lparr>capture := (capture ms)[l := (fst (capture ms ! l), CAP_UNFINISHED)]\<rparr>)))"

text \<open>\<open>len\<close> is a \<open>size_t\<close>: the mark of a position capture is larger than any rest of the subject.\<close>

definition match_capture :: "bytes \<Rightarrow> MatchState \<Rightarrow> nat \<Rightarrow> u8 \<Rightarrow> nat option outcome" where
  "match_capture src ms s l =
     bind_outcome (check_capture ms l) (\<lambda>l.
       let (i, n) = capture ms ! l; len = unat (word_of_int n :: u64)
       in Ok (if len \<le> length src - s \<and> take len (drop i src) = take len (drop s src) then Some (s + len) else None))"

lemma bracket_end_after: "bracket_end pat p = Ok q \<Longrightarrow> p < q"
  by (induction pat p rule: bracket_end.induct)
    (subst (asm) bracket_end.simps, auto simp: Let_def split: if_splits)

lemma classend_after: "classend pat p = Ok ep \<Longrightarrow> p < ep"
  by (auto simp: classend_def dest: bracket_end_after split: if_splits)

lemma pattern_left: "char_at pat p \<noteq> 0 \<Longrightarrow> p < q \<Longrightarrow> length pat - q < length pat - p"
  by (drule char_at_less) arith

function do_match :: "bytes \<Rightarrow> bytes \<Rightarrow> nat \<Rightarrow> nat \<Rightarrow> MatchState \<Rightarrow> match_result" where
  "do_match src pat s p ms =
     (if char_at pat p = chr CHR ''('' then
        if char_at pat (p + 1) = chr CHR '')'' then start_capture (\<lambda>s ms. do_match src pat s (p + 2) ms) s CAP_POSITION ms
        else start_capture (\<lambda>s ms. do_match src pat s (p + 1) ms) s CAP_UNFINISHED ms
      else if char_at pat p = chr CHR '')'' then end_capture (\<lambda>s ms. do_match src pat s (p + 1) ms) s ms
      else if char_at pat p = L_ESC \<and> char_at pat (p + 1) = chr CHR ''b'' then
        bind_outcome (matchbalance src pat s (p + 2)) (\<lambda>r.
          case r of None \<Rightarrow> Ok (None, ms) | Some s \<Rightarrow> do_match src pat s (p + 4) ms)
      else if char_at pat p = L_ESC \<and> char_at pat (p + 1) = chr CHR ''f'' then
        if char_at pat (p + 2) \<noteq> chr CHR ''['' then RunError ''missing '[' after '%f' in pattern''
        else bind_outcome (classend pat (p + 2)) (\<lambda>ep.
          let previous = (if s = 0 then 0 else src ! (s - 1))
          in if matchbracketclass previous pat (p + 2) (ep - 1) \<or> \<not> matchbracketclass (char_at src s) pat (p + 2) (ep - 1)
             then Ok (None, ms) else do_match src pat s ep ms)
      else if char_at pat p = L_ESC \<and> isdigit (char_at pat (p + 1)) then
        bind_outcome (match_capture src ms s (char_at pat (p + 1))) (\<lambda>r.
          case r of None \<Rightarrow> Ok (None, ms) | Some s \<Rightarrow> do_match src pat s (p + 2) ms)
      else if char_at pat p = 0 then Ok (Some s, ms)
      else if char_at pat p = chr CHR ''$'' \<and> char_at pat (p + 1) = 0 then
        Ok (if s = length src then Some s else None, ms)
      else
        bind_outcome (classend pat p) (\<lambda>ep.
          let m = (s < length src \<and> singlematch (src ! s) pat p ep)
          in if char_at pat ep = chr CHR ''?'' then
               or_else (if m then do_match src pat (s + 1) (ep + 1) ms else Ok (None, ms))
                 (\<lambda>ms. do_match src pat s (ep + 1) ms)
             else if char_at pat ep = chr CHR ''*'' then
               max_expand (\<lambda>s ms. do_match src pat s (ep + 1) ms) src pat s p ep ms
             else if char_at pat ep = chr CHR ''+'' then
               if m then max_expand (\<lambda>s ms. do_match src pat s (ep + 1) ms) src pat (s + 1) p ep ms else Ok (None, ms)
             else if char_at pat ep = chr CHR ''-'' then
               min_expand (\<lambda>s ms. do_match src pat s (ep + 1) ms) src pat s p ep ms
             else if \<not> m then Ok (None, ms) else do_match src pat (s + 1) ep ms))"
  by pat_completeness auto
termination
  by (relation "measure (\<lambda>(src, pat, s, p, ms). length pat - p)") (auto intro!: pattern_left simp: L_ESC_def dest: classend_after)

declare do_match.simps [simp del]

end
