(* ===== verification/Matching.thy ===== *)
theory Matching
  imports Patterns
begin

text \<open>
  What the matcher promises. A relation says which parts of the subject a pattern matches, with
  every choice left open; the backtracking matcher finds a match when there is one, leaves the
  captures as they were when there is none, and stays inside the subject.
\<close>

section \<open>What a pattern matches\<close>

type_synonym captures = "(nat \<times> int) list"

definition caps_of :: "MatchState \<Rightarrow> captures" where
  "caps_of ms = take (level ms) (capture ms)"

definition ms_ok :: "MatchState \<Rightarrow> bool" where
  "ms_ok ms \<longleftrightarrow> length (capture ms) = LUA_MAXCAPTURES \<and> level ms \<le> LUA_MAXCAPTURES"

text \<open>An item that is none of the special ones: a single character class.\<close>

definition plain_item :: "bytes \<Rightarrow> nat \<Rightarrow> bool" where
  "plain_item pat p \<longleftrightarrow> char_at pat p \<notin> {chr CHR ''('', chr CHR '')'', 0} \<and>
     \<not> (char_at pat p = L_ESC \<and> (char_at pat (p + 1) \<in> {chr CHR ''b'', chr CHR ''f''} \<or> isdigit (char_at pat (p + 1)))) \<and>
     \<not> (char_at pat p = chr CHR ''$'' \<and> char_at pat (p + 1) = 0)"

text \<open>\<open>n\<close> characters from \<open>s\<close> on belong to the class of the item.\<close>

definition all_single :: "bytes \<Rightarrow> bytes \<Rightarrow> nat \<Rightarrow> nat \<Rightarrow> nat \<Rightarrow> nat \<Rightarrow> bool" where
  "all_single src pat p ep s n \<longleftrightarrow> (\<forall>i<n. s + i < length src \<and> singlematch (src ! (s + i)) pat p ep)"

definition quantifiers :: "u8 set" where
  "quantifiers = {chr CHR ''?'', chr CHR ''*'', chr CHR ''+'', chr CHR ''-''}"

definition allows :: "u8 \<Rightarrow> nat \<Rightarrow> bool" where
  "allows q n \<longleftrightarrow> (q = chr CHR ''?'' \<longrightarrow> n \<le> 1) \<and> (q = chr CHR ''+'' \<longrightarrow> 1 \<le> n)"

definition at_frontier :: "bytes \<Rightarrow> bytes \<Rightarrow> nat \<Rightarrow> nat \<Rightarrow> nat \<Rightarrow> bool" where
  "at_frontier src pat s p ep \<longleftrightarrow>
     \<not> matchbracketclass (if s = 0 then 0 else src ! (s - 1)) pat p (ep - 1) \<and>
     matchbracketclass (char_at src s) pat p (ep - 1)"

text \<open>Where the text of a capture, found again at \<open>s\<close>, ends.\<close>

definition again :: "bytes \<Rightarrow> captures \<Rightarrow> nat \<Rightarrow> u8 \<Rightarrow> nat option" where
  "again src c s l =
     (let k = uint l - 49; len = unat (word_of_int (snd (c ! nat k)) :: u64)
      in if k < 0 \<or> int (length c) \<le> k \<or> snd (c ! nat k) = CAP_UNFINISHED then None
         else if len \<le> length src - s \<and> take len (drop (fst (c ! nat k)) src) = take len (drop s src)
         then Some (s + len) else None)"

text \<open>
  \<open>pm src pat p s c s' c'\<close>: the pattern from \<open>p\<close> on can match the subject from \<open>s\<close> to \<open>s'\<close>, with the
  captures \<open>c\<close> before and \<open>c'\<close> after.
\<close>

inductive pm :: "bytes \<Rightarrow> bytes \<Rightarrow> nat \<Rightarrow> nat \<Rightarrow> captures \<Rightarrow> nat \<Rightarrow> captures \<Rightarrow> bool" for src pat where
  pattern_end: "char_at pat p = 0 \<Longrightarrow> pm src pat p s c s c"
| position: "char_at pat p = chr CHR ''('' \<Longrightarrow> char_at pat (p + 1) = chr CHR '')'' \<Longrightarrow> length c < LUA_MAXCAPTURES \<Longrightarrow>
    pm src pat (p + 2) s (c @ [(s, CAP_POSITION)]) s' c' \<Longrightarrow> pm src pat p s c s' c'"
| open_capture: "char_at pat p = chr CHR ''('' \<Longrightarrow> char_at pat (p + 1) \<noteq> chr CHR '')'' \<Longrightarrow> length c < LUA_MAXCAPTURES \<Longrightarrow>
    pm src pat (p + 1) s (c @ [(s, CAP_UNFINISHED)]) s' c' \<Longrightarrow> pm src pat p s c s' c'"
| close_capture: "char_at pat p = chr CHR '')'' \<Longrightarrow> unfinished_below c (length c) = Some l \<Longrightarrow>
    pm src pat (p + 1) s (c[l := (fst (c ! l), int s - int (fst (c ! l)))]) s' c' \<Longrightarrow> pm src pat p s c s' c'"
| balance: "char_at pat p = L_ESC \<Longrightarrow> char_at pat (p + 1) = chr CHR ''b'' \<Longrightarrow>
    matchbalance src pat s (p + 2) = Ok (Some s1) \<Longrightarrow> pm src pat (p + 4) s1 c s' c' \<Longrightarrow> pm src pat p s c s' c'"
| frontier: "char_at pat p = L_ESC \<Longrightarrow> char_at pat (p + 1) = chr CHR ''f'' \<Longrightarrow> char_at pat (p + 2) = chr CHR ''['' \<Longrightarrow>
    classend pat (p + 2) = Ok ep \<Longrightarrow> at_frontier src pat s (p + 2) ep \<Longrightarrow> pm src pat ep s c s' c' \<Longrightarrow> pm src pat p s c s' c'"
| back_ref: "char_at pat p = L_ESC \<Longrightarrow> isdigit (char_at pat (p + 1)) \<Longrightarrow> again src c s (char_at pat (p + 1)) = Some s1 \<Longrightarrow>
    pm src pat (p + 2) s1 c s' c' \<Longrightarrow> pm src pat p s c s' c'"
| subject_end: "char_at pat p = chr CHR ''$'' \<Longrightarrow> char_at pat (p + 1) = 0 \<Longrightarrow> s = length src \<Longrightarrow> pm src pat p s c s c"
| single: "plain_item pat p \<Longrightarrow> classend pat p = Ok ep \<Longrightarrow> char_at pat ep \<notin> quantifiers \<Longrightarrow>
    all_single src pat p ep s 1 \<Longrightarrow> pm src pat ep (s + 1) c s' c' \<Longrightarrow> pm src pat p s c s' c'"
| repeated: "plain_item pat p \<Longrightarrow> classend pat p = Ok ep \<Longrightarrow> char_at pat ep \<in> quantifiers \<Longrightarrow>
    allows (char_at pat ep) n \<Longrightarrow> all_single src pat p ep s n \<Longrightarrow> pm src pat (ep + 1) (s + n) c s' c' \<Longrightarrow>
    pm src pat p s c s' c'"

section \<open>A matcher and what it matches\<close>

text \<open>
  The result of a matcher against the set of matches \<open>Q\<close>: a match that is found is one of \<open>Q\<close>; when
  none is found there is none, and the captures are \<open>c\<close> again. Nothing is said about errors.
\<close>

definition refines :: "match_result \<Rightarrow> captures \<Rightarrow> (nat \<Rightarrow> captures \<Rightarrow> bool) \<Rightarrow> bool" where
  "refines m c Q \<longleftrightarrow>
     (case m of
        Ok (Some e, ms) \<Rightarrow> Q e (caps_of ms) \<and> ms_ok ms
      | Ok (None, ms) \<Rightarrow> caps_of ms = c \<and> ms_ok ms \<and> (\<forall>e c'. \<not> Q e c')
      | RunError _ \<Rightarrow> True
      | Stuck \<Rightarrow> False)"

lemma refines_error [simp]: "refines (RunError e) c Q"
  by (simp add: refines_def)

lemma refines_none: "ms_ok ms \<Longrightarrow> caps_of ms = c \<Longrightarrow> (\<And>e c'. \<not> Q e c') \<Longrightarrow> refines (Ok (None, ms)) c Q"
  by (simp add: refines_def)

lemma refines_weaken:
  assumes "refines m c Q" and "\<And>e c'. Q e c' \<longleftrightarrow> Q' e c'"
  shows "refines m c Q'"
proof -
  have "Q = Q'" by (intro ext) (rule assms(2))
  then show ?thesis using assms(1) by simp
qed

lemma refines_or_else:
  assumes "refines m c Q1" and "\<And>ms. caps_of ms = c \<Longrightarrow> ms_ok ms \<Longrightarrow> refines (next ms) d Q2"
    and "\<And>e c'. Q e c' \<longleftrightarrow> Q1 e c' \<or> Q2 e c'"
  shows "refines (or_else m next) d Q"
proof (cases m)
  case (Ok r)
  obtain res ms where r: "r = (res, ms)" by (cases r)
  show ?thesis
  proof (cases res)
    case None
    then have "caps_of ms = c" "ms_ok ms" "\<And>e c'. \<not> Q1 e c'" using assms(1) Ok r by (auto simp: refines_def)
    then show ?thesis using assms(2) [of ms] assms(3) Ok r None by (simp add: or_else_def refines_weaken)
  qed (use assms(1,3) Ok r in \<open>auto simp: or_else_def refines_def\<close>)
qed (use assms(1) in \<open>simp_all add: or_else_def refines_def\<close>)

lemma max_count_from:
  "all_single src pat p ep s i \<Longrightarrow> all_single src pat p ep s n \<longleftrightarrow> n \<le> max_count src pat p ep s i"
proof (induction src pat p ep s i rule: max_count.induct)
  case (1 src pat p ep s i)
  show ?case
  proof (cases "s + i < length src \<and> singlematch (src ! (s + i)) pat p ep")
    case True
    then have "all_single src pat p ep s (i + 1)" using "1.prems" by (auto simp: all_single_def less_Suc_eq)
    then show ?thesis using "1.IH" [OF True] True by (subst max_count.simps) simp
  next
    case False
    then have "all_single src pat p ep s n \<longleftrightarrow> n \<le> i"
      using "1.prems" by (auto simp: all_single_def not_le) (metis not_le)+
    then show ?thesis using False by (subst max_count.simps) auto
  qed
qed

lemma max_count_all: "all_single src pat p ep s n \<longleftrightarrow> n \<le> max_count src pat p ep s 0"
  by (rule max_count_from) (simp add: all_single_def)

lemma unfinished_below_Some: "unfinished_below cs n = Some l \<Longrightarrow> l < n \<and> snd (cs ! l) = CAP_UNFINISHED"
  by (induction n) (auto split: if_splits)

lemma unfinished_below_take: "n \<le> m \<Longrightarrow> unfinished_below (take m cs) n = unfinished_below cs n"
  by (induction n) auto

locale pattern_matcher =
  fixes M :: matcher and P :: "nat \<Rightarrow> captures \<Rightarrow> nat \<Rightarrow> captures \<Rightarrow> bool"
  assumes refined: "ms_ok ms \<Longrightarrow> refines (M s ms) (caps_of ms) (P s (caps_of ms))"
begin

lemma max_loop_refined:
  "ms_ok ms \<Longrightarrow> refines (max_loop M s i ms) (caps_of ms) (\<lambda>e c'. \<exists>k\<le>i. P (s + k) (caps_of ms) e c')"
proof (induction i arbitrary: ms)
  case 0
  show ?case unfolding max_loop.simps
    by (rule refines_or_else [OF refined [OF 0]]) (auto intro: refines_none)
next
  case (Suc i)
  show ?case unfolding max_loop.simps
  proof (rule refines_or_else [OF refined [OF Suc.prems]])
    show "refines (max_loop M s i ms') (caps_of ms) (\<lambda>e c'. \<exists>k\<le>i. P (s + k) (caps_of ms) e c')"
      if "caps_of ms' = caps_of ms" "ms_ok ms'" for ms'
      using Suc.IH [OF that(2)] that(1) by simp
  qed (auto simp: le_Suc_eq)
qed

lemma min_expand_refined:
  "ms_ok ms \<Longrightarrow> refines (min_expand M src pat s p ep ms) (caps_of ms)
     (\<lambda>e c'. \<exists>n. all_single src pat p ep s n \<and> P (s + n) (caps_of ms) e c')"
proof (induction "length src - s" arbitrary: s ms)
  case 0
  then have none: "all_single src pat p ep s n \<longleftrightarrow> n = 0" for n by (auto simp: all_single_def)
  show ?case
    by (subst min_expand.simps, rule refines_or_else [OF refined [OF 0(2)]])
      (use 0(1) none in \<open>auto intro: refines_none\<close>)
next
  case (Suc d)
  let ?one = "s < length src \<and> singlematch (src ! s) pat p ep"
  have Suc_ex: "(\<exists>n. Q n) \<longleftrightarrow> Q 0 \<or> (\<exists>n. Q (Suc n))" for Q by (metis not0_implies_Suc)
  have split: "all_single src pat p ep s (Suc n) \<longleftrightarrow> ?one \<and> all_single src pat p ep (s + 1) n" for n
    by (auto simp: all_single_def less_Suc_eq_0_disj)
  have zero: "all_single src pat p ep s 0" by (simp add: all_single_def)
  show ?case
  proof (subst min_expand.simps, rule refines_or_else [OF refined [OF Suc.prems]])
    fix ms' assume ms': "caps_of ms' = caps_of ms" "ms_ok ms'"
    show "refines (if ?one then min_expand M src pat (s + 1) p ep ms' else Ok (None, ms')) (caps_of ms)
        (\<lambda>e c'. ?one \<and> (\<exists>n. all_single src pat p ep (s + 1) n \<and> P (s + 1 + n) (caps_of ms) e c'))"
      using Suc.hyps(1) [OF _ ms'(2), of "s + 1"] Suc.hyps(2) ms' by (auto intro: refines_none)
  qed (subst Suc_ex, auto simp: split zero)
qed

lemma max_expand_refined:
  assumes "ms_ok ms"
  shows "refines (max_expand M src pat s p ep ms) (caps_of ms)
     (\<lambda>e c'. \<exists>n. all_single src pat p ep s n \<and> P (s + n) (caps_of ms) e c')"
  unfolding max_expand_def
  by (rule refines_weaken [OF max_loop_refined [OF assms]]) (simp add: max_count_all)

lemma start_capture_refined:
  assumes "ms_ok ms"
  shows "refines (start_capture M s what ms) (caps_of ms)
     (\<lambda>e c'. length (caps_of ms) < LUA_MAXCAPTURES \<and> P s (caps_of ms @ [(s, what)]) e c')"
proof (cases "LUA_MAXCAPTURES \<le> level ms")
  case False
  let ?ms = "ms\<lparr>capture := (capture ms)[level ms := (s, what)], level := level ms + 1\<rparr>"
  have ms: "ms_ok ?ms" "caps_of ?ms = caps_of ms @ [(s, what)]" "length (caps_of ms) = level ms"
    using assms False by (simp_all add: ms_ok_def caps_of_def take_Suc_conv_app_nth)
  show ?thesis
    unfolding start_capture_def if_not_P [OF False]
  proof (rule refines_or_else [OF refined [OF ms(1)]])
    fix ms' assume ms': "caps_of ms' = caps_of ?ms" "ms_ok ms'"
    then have "level ms' = Suc (level ms)" using ms(2,3) by (metis length_append_singleton length_take caps_of_def min.absorb2 ms_ok_def)
    then have "caps_of (ms'\<lparr>level := level ms' - 1\<rparr>) = caps_of ms"
      using ms' ms(2,3) by (auto simp: caps_of_def ms_ok_def take_Suc_conv_app_nth)
    then show "refines (Ok (None, ms'\<lparr>level := level ms' - 1\<rparr>)) (caps_of ms) (\<lambda>_ _. False)"
      using ms'(2) by (intro refines_none) (auto simp: ms_ok_def)
  qed (use ms False in simp)
qed (simp add: start_capture_def)

lemma end_capture_refined:
  assumes "ms_ok ms"
  shows "refines (end_capture M s ms) (caps_of ms)
     (\<lambda>e c'. \<exists>l. unfinished_below (caps_of ms) (length (caps_of ms)) = Some l \<and>
        P s ((caps_of ms)[l := (fst (caps_of ms ! l), int s - int (fst (caps_of ms ! l)))]) e c')"
proof -
  have len: "length (caps_of ms) = level ms" using assms by (simp add: caps_of_def ms_ok_def)
  have same: "unfinished_below (caps_of ms) (length (caps_of ms)) = unfinished_below (capture ms) (level ms)"
    unfolding len by (simp add: caps_of_def unfinished_below_take)
  show ?thesis
  proof (cases "unfinished_below (capture ms) (level ms)")
    case (Some l)
    note l = unfinished_below_Some [OF Some]
    define i where "i = fst (capture ms ! l)"
    let ?ms = "ms\<lparr>capture := (capture ms)[l := (i, int s - int i)]\<rparr>"
    have ms: "ms_ok ?ms" "caps_of ?ms = (caps_of ms)[l := (i, int s - int i)]" "fst (caps_of ms ! l) = i"
      "caps_of ms ! l = (i, CAP_UNFINISHED)"
      using assms l by (simp_all add: ms_ok_def caps_of_def take_update_swap i_def prod_eq_iff)
    have "refines (or_else (M s ?ms) (\<lambda>ms. Ok (None, ms\<lparr>capture := (capture ms)[l := (fst (capture ms ! l), CAP_UNFINISHED)]\<rparr>)))
        (caps_of ms) (P s ((caps_of ms)[l := (i, int s - int i)]))"
    proof (rule refines_or_else [OF refined [OF ms(1)]])
      fix ms' assume ms': "caps_of ms' = caps_of ?ms" "ms_ok ms'"
      then have "level ms' = level ms" by (metis caps_of_def len length_list_update length_take min.absorb2 ms(2) ms_ok_def)
      then have "capture ms' ! l = (i, int s - int i)"
        using ms'(1) ms(2) l len by (metis caps_of_def nth_list_update_eq nth_take)
      then have "caps_of (ms'\<lparr>capture := (capture ms')[l := (fst (capture ms' ! l), CAP_UNFINISHED)]\<rparr>)
          = (caps_of ms')[l := (i, CAP_UNFINISHED)]"
        using ms'(2) by (simp add: caps_of_def take_update_swap)
      also have "\<dots> = caps_of ms" using ms'(1) ms(2,4) by (metis list_update_id list_update_overwrite)
      finally show "refines (Ok (None, ms'\<lparr>capture := (capture ms')[l := (fst (capture ms' ! l), CAP_UNFINISHED)]\<rparr>))
          (caps_of ms) (\<lambda>_ _. False)"
        using ms'(2) by (intro refines_none) (auto simp: ms_ok_def)
    qed (use ms in simp)
    then show ?thesis using Some same ms(3) by (simp add: end_capture_def capture_to_close_def i_def)
  qed (simp add: end_capture_def capture_to_close_def)
qed

end

section \<open>The matcher refines the relation\<close>

text \<open>Which rule of \<open>pm\<close> can apply is settled by the character of the pattern.\<close>

lemma pm_position:
  assumes "char_at pat p = chr CHR ''(''" "char_at pat (p + 1) = chr CHR '')''"
  shows "pm src pat p s c s' c' \<longleftrightarrow> length c < LUA_MAXCAPTURES \<and> pm src pat (p + 2) s (c @ [(s, CAP_POSITION)]) s' c'"
  using assms by (subst pm.simps) (simp add: L_ESC_def plain_item_def)

lemma pm_open:
  assumes "char_at pat p = chr CHR ''(''" "char_at pat (p + 1) \<noteq> chr CHR '')''"
  shows "pm src pat p s c s' c' \<longleftrightarrow> length c < LUA_MAXCAPTURES \<and> pm src pat (p + 1) s (c @ [(s, CAP_UNFINISHED)]) s' c'"
  using assms by (subst pm.simps) (simp add: L_ESC_def plain_item_def)

lemma pm_close:
  assumes "char_at pat p = chr CHR '')''"
  shows "pm src pat p s c s' c' \<longleftrightarrow> (\<exists>l. unfinished_below c (length c) = Some l \<and>
     pm src pat (p + 1) s (c[l := (fst (c ! l), int s - int (fst (c ! l)))]) s' c')"
  using assms by (subst pm.simps) (simp add: L_ESC_def plain_item_def)

lemma pm_balance:
  assumes "char_at pat p = L_ESC" "char_at pat (p + 1) = chr CHR ''b''"
  shows "pm src pat p s c s' c' \<longleftrightarrow> (\<exists>s1. matchbalance src pat s (p + 2) = Ok (Some s1) \<and> pm src pat (p + 4) s1 c s' c')"
  using assms by (subst pm.simps) (simp add: L_ESC_def plain_item_def isdigit_def between_def)

lemma pm_frontier:
  assumes "char_at pat p = L_ESC" "char_at pat (p + 1) = chr CHR ''f''"
  shows "pm src pat p s c s' c' \<longleftrightarrow> char_at pat (p + 2) = chr CHR ''['' \<and>
     (\<exists>ep. classend pat (p + 2) = Ok ep \<and> at_frontier src pat s (p + 2) ep \<and> pm src pat ep s c s' c')"
  using assms by (subst pm.simps) (simp add: L_ESC_def plain_item_def isdigit_def between_def)

lemma pm_back_ref:
  assumes "char_at pat p = L_ESC" "isdigit (char_at pat (p + 1))"
  shows "pm src pat p s c s' c' \<longleftrightarrow> (\<exists>s1. again src c s (char_at pat (p + 1)) = Some s1 \<and> pm src pat (p + 2) s1 c s' c')"
proof -
  have "char_at pat (p + 1) \<noteq> chr CHR ''b''" "char_at pat (p + 1) \<noteq> chr CHR ''f''"
    using assms(2) by (auto simp: isdigit_def between_def)
  then show ?thesis using assms by (subst pm.simps) (simp add: L_ESC_def plain_item_def)
qed

lemma pm_end:
  assumes "char_at pat p = 0"
  shows "pm src pat p s c s' c' \<longleftrightarrow> s' = s \<and> c' = c"
  using assms by (subst pm.simps) (auto simp add: L_ESC_def plain_item_def)

lemma pm_dollar:
  assumes "char_at pat p = chr CHR ''$''" "char_at pat (p + 1) = 0"
  shows "pm src pat p s c s' c' \<longleftrightarrow> s = length src \<and> s' = s \<and> c' = c"
  using assms by (subst pm.simps) (auto simp add: L_ESC_def plain_item_def)

lemma pm_plain:
  assumes "plain_item pat p" "classend pat p = Ok ep"
  shows "pm src pat p s c s' c' \<longleftrightarrow>
     (if char_at pat ep \<in> quantifiers
      then \<exists>n. allows (char_at pat ep) n \<and> all_single src pat p ep s n \<and> pm src pat (ep + 1) (s + n) c s' c'
      else all_single src pat p ep s 1 \<and> pm src pat ep (s + 1) c s' c')"
proof -
  have not: "char_at pat p \<noteq> chr CHR ''(''" "char_at pat p \<noteq> chr CHR '')''" "char_at pat p \<noteq> 0"
    "char_at pat p = L_ESC \<Longrightarrow> char_at pat (p + 1) \<noteq> chr CHR ''b''"
    "char_at pat p = L_ESC \<Longrightarrow> char_at pat (p + 1) \<noteq> chr CHR ''f''"
    "char_at pat p = L_ESC \<Longrightarrow> \<not> isdigit (char_at pat (p + 1))"
    "char_at pat p = chr CHR ''$'' \<Longrightarrow> char_at pat (p + 1) \<noteq> 0"
    using assms(1) by (simp_all add: plain_item_def)
  have "pm src pat p s c s' c' \<longleftrightarrow>
     char_at pat ep \<notin> quantifiers \<and> all_single src pat p ep s 1 \<and> pm src pat ep (s + 1) c s' c' \<or>
     char_at pat ep \<in> quantifiers \<and>
     (\<exists>n. allows (char_at pat ep) n \<and> all_single src pat p ep s n \<and> pm src pat (ep + 1) (s + n) c s' c')"
    (is "?L = ?R")
  proof
    assume ?L
    then show ?R
      proof (cases rule: pm.cases)
      case (single ep')
      then show ?thesis using assms(2) by simp
    next
      case (repeated ep' n)
      then show ?thesis using assms(2) by auto
    qed (use not in blast)+
  next
    assume ?R
    then show ?L
      by (blast intro: pm.single [OF assms] pm.repeated [OF assms])
  qed
  then show ?thesis by auto
qed

lemma match_capture_again:
  assumes "ms_ok ms"
  shows "match_capture src ms s l = Ok r \<Longrightarrow> again src (caps_of ms) s l = r"
    "match_capture src ms s l \<noteq> Stuck"
  using assms
  by (auto simp: match_capture_def check_capture_def again_def Let_def caps_of_def ms_ok_def nat_less_iff
      split: prod.splits if_splits)

lemma matchbalance_not_stuck: "matchbalance src pat s p \<noteq> Stuck"
  by (simp add: matchbalance_def)

lemma bracket_end_not_stuck: "bracket_end pat p \<noteq> Stuck"
  by (induction pat p rule: bracket_end.induct) (subst bracket_end.simps, auto simp: Let_def)

lemma classend_not_stuck: "classend pat p \<noteq> Stuck"
  by (simp add: classend_def bracket_end_not_stuck)

lemma refines_bind:
  assumes "m \<noteq> Stuck" and "\<And>a. m = Ok a \<Longrightarrow> refines (f a) c Q"
  shows "refines (bind_outcome m f) c Q"
  using assms by (cases m) simp_all

lemma all_single_simps:
  "all_single src pat p ep s 0"
  "all_single src pat p ep s (Suc n) \<longleftrightarrow>
     (s < length src \<and> singlematch (src ! s) pat p ep) \<and> all_single src pat p ep (s + 1) n"
  by (auto simp: all_single_def less_Suc_eq_0_disj)


lemma do_match_plain:
  assumes "plain_item pat p"
  shows "do_match src pat s p ms =
     bind_outcome (classend pat p) (\<lambda>ep.
       let m = (s < length src \<and> singlematch (src ! s) pat p ep)
       in if char_at pat ep = chr CHR ''?'' then
            or_else (if m then do_match src pat (s + 1) (ep + 1) ms else Ok (None, ms))
              (\<lambda>ms. do_match src pat s (ep + 1) ms)
          else if char_at pat ep = chr CHR ''*'' then
            max_expand (\<lambda>s ms. do_match src pat s (ep + 1) ms) src pat s p ep ms
          else if char_at pat ep = chr CHR ''+'' then
            if m then max_expand (\<lambda>s ms. do_match src pat s (ep + 1) ms) src pat (s + 1) p ep ms else Ok (None, ms)
          else if char_at pat ep = chr CHR ''-'' then
            min_expand (\<lambda>s ms. do_match src pat s (ep + 1) ms) src pat s p ep ms
          else if \<not> m then Ok (None, ms) else do_match src pat (s + 1) ep ms)"
proof -
  have not: "char_at pat p \<noteq> chr CHR ''(''" "char_at pat p \<noteq> chr CHR '')''" "char_at pat p \<noteq> 0"
    "\<not> (char_at pat p = L_ESC \<and> char_at pat (p + 1) = chr CHR ''b'')"
    "\<not> (char_at pat p = L_ESC \<and> char_at pat (p + 1) = chr CHR ''f'')"
    "\<not> (char_at pat p = L_ESC \<and> isdigit (char_at pat (p + 1)))"
    "\<not> (char_at pat p = chr CHR ''$'' \<and> char_at pat (p + 1) = 0)"
    using assms by (simp_all add: plain_item_def)
  show ?thesis
    by (subst do_match.simps, simp only: not if_False simp_thms)
qed

lemma quantifiers_iff: "q \<in> quantifiers \<longleftrightarrow> q = chr CHR ''?'' \<or> q = chr CHR ''*'' \<or> q = chr CHR ''+'' \<or> q = chr CHR ''-''"
  by (simp add: quantifiers_def)

text \<open>What is known about the rest of the pattern while its first item is matched.\<close>

definition later_ok :: "bytes \<Rightarrow> bytes \<Rightarrow> nat \<Rightarrow> bool" where
  "later_ok src pat p \<longleftrightarrow> (\<forall>q>p. pattern_matcher (\<lambda>s ms. do_match src pat s q ms) (pm src pat q))"

abbreviation matches_ok :: "bytes \<Rightarrow> bytes \<Rightarrow> nat \<Rightarrow> nat \<Rightarrow> MatchState \<Rightarrow> match_result \<Rightarrow> bool" where
  "matches_ok src pat p s ms m \<equiv> refines m (caps_of ms) (pm src pat p s (caps_of ms))"

lemma later_ok_matcher: "later_ok src pat p \<Longrightarrow> p < q \<Longrightarrow> pattern_matcher (\<lambda>s ms. do_match src pat s q ms) (pm src pat q)"
  by (simp add: later_ok_def)

lemmas later_ok_matches = pattern_matcher.refined [OF later_ok_matcher]

lemma do_match_position:
  assumes later: "later_ok src pat p" and ok: "ms_ok ms"
    and here: "char_at pat p = chr CHR ''(''" "char_at pat (p + 1) = chr CHR '')''"
  shows "matches_ok src pat p s ms (do_match src pat s p ms)"
proof -
  from here have step: "do_match src pat s p ms = start_capture (\<lambda>s ms. do_match src pat s (p + 2) ms) s CAP_POSITION ms"
    by (subst do_match.simps) simp
  have nz: "p < p + 2" by simp
  show ?thesis unfolding step
    by (rule refines_weaken [OF pattern_matcher.start_capture_refined [OF later_ok_matcher [OF later nz] ok]])
      (simp add: pm_position [OF here])
qed

lemma do_match_open:
  assumes later: "later_ok src pat p" and ok: "ms_ok ms"
    and here: "char_at pat p = chr CHR ''(''" "char_at pat (p + 1) \<noteq> chr CHR '')''"
  shows "matches_ok src pat p s ms (do_match src pat s p ms)"
proof -
  from here have step: "do_match src pat s p ms = start_capture (\<lambda>s ms. do_match src pat s (p + 1) ms) s CAP_UNFINISHED ms"
    by (subst do_match.simps) simp
  have nz: "p < p + 1" by simp
  show ?thesis unfolding step
    by (rule refines_weaken [OF pattern_matcher.start_capture_refined [OF later_ok_matcher [OF later nz] ok]])
      (simp add: pm_open [OF here])
qed

lemma do_match_close:
  assumes later: "later_ok src pat p" and ok: "ms_ok ms"
    and here: "char_at pat p = chr CHR '')''"
  shows "matches_ok src pat p s ms (do_match src pat s p ms)"
proof -
  from here have step: "do_match src pat s p ms = end_capture (\<lambda>s ms. do_match src pat s (p + 1) ms) s ms"
    by (subst do_match.simps) simp
  have nz: "p < p + 1" by simp
  show ?thesis unfolding step
    by (rule refines_weaken [OF pattern_matcher.end_capture_refined [OF later_ok_matcher [OF later nz] ok]])
      (simp add: pm_close [OF here])
qed

lemma do_match_balance:
  assumes later: "later_ok src pat p" and ok: "ms_ok ms"
    and here: "char_at pat p = L_ESC" "char_at pat (p + 1) = chr CHR ''b''"
  shows "matches_ok src pat p s ms (do_match src pat s p ms)"
proof -
  from here have step: "do_match src pat s p ms = bind_outcome (matchbalance src pat s (p + 2)) (\<lambda>r.
        case r of None \<Rightarrow> Ok (None, ms) | Some s \<Rightarrow> do_match src pat s (p + 4) ms)"
    by (subst do_match.simps) (simp add: L_ESC_def)
  have nz: "p < p + 4" by simp
  show ?thesis unfolding step
  proof (rule refines_bind [OF matchbalance_not_stuck])
    fix r assume r: "matchbalance src pat s (p + 2) = Ok r"
    show "refines (case r of None \<Rightarrow> Ok (None, ms) | Some s \<Rightarrow> do_match src pat s (p + 4) ms)
        (caps_of ms) (pm src pat p s (caps_of ms))"
    proof (cases r)
      case None
      then show ?thesis using r ok by (simp add: refines_none pm_balance [OF here])
    next
      case (Some s1)
      show ?thesis unfolding Some option.case
        by (rule refines_weaken [OF later_ok_matches [OF later nz ok]]) (use r Some in \<open>simp add: pm_balance [OF here]\<close>)
    qed
  qed
qed

lemma do_match_frontier:
  assumes later: "later_ok src pat p" and ok: "ms_ok ms"
    and here: "char_at pat p = L_ESC" "char_at pat (p + 1) = chr CHR ''f''"
  shows "matches_ok src pat p s ms (do_match src pat s p ms)"
proof -
  define err where "err = (RunError ''missing '[' after '%f' in pattern'' :: match_result)"
  from here have step: "do_match src pat s p ms = (if char_at pat (p + 2) \<noteq> chr CHR ''['' then err
      else bind_outcome (classend pat (p + 2)) (\<lambda>ep.
        if \<not> at_frontier src pat s (p + 2) ep then Ok (None, ms) else do_match src pat s ep ms))"
    by (subst do_match.simps) (simp add: L_ESC_def err_def at_frontier_def Let_def)
  show ?thesis
  proof (cases "char_at pat (p + 2) = chr CHR ''[''")
    case True
    then have step: "do_match src pat s p ms = bind_outcome (classend pat (p + 2)) (\<lambda>ep.
        if \<not> at_frontier src pat s (p + 2) ep then Ok (None, ms) else do_match src pat s ep ms)"
      unfolding step by simp
    show ?thesis unfolding step
    proof (rule refines_bind [OF classend_not_stuck])
      fix ep assume ep: "classend pat (p + 2) = Ok ep"
      have nz: "p < ep" using classend_after [OF ep] by simp
      show "refines (if \<not> at_frontier src pat s (p + 2) ep then Ok (None, ms) else do_match src pat s ep ms)
          (caps_of ms) (pm src pat p s (caps_of ms))"
      proof (cases "at_frontier src pat s (p + 2) ep")
        case True
        then show ?thesis
          using refines_weaken [OF later_ok_matches [OF later nz ok]] ep \<open>char_at pat (p + 2) = _\<close>
          by (simp add: pm_frontier [OF here])
      next
        case False
        then show ?thesis using ep ok by (simp add: refines_none pm_frontier [OF here])
      qed
    qed
  qed (simp add: step err_def)
qed

lemma do_match_back_ref:
  assumes later: "later_ok src pat p" and ok: "ms_ok ms"
    and here: "char_at pat p = L_ESC" "isdigit (char_at pat (p + 1))"
  shows "matches_ok src pat p s ms (do_match src pat s p ms)"
proof -
  from here have step: "do_match src pat s p ms = bind_outcome (match_capture src ms s (char_at pat (p + 1))) (\<lambda>r.
        case r of None \<Rightarrow> Ok (None, ms) | Some s \<Rightarrow> do_match src pat s (p + 2) ms)"
    by (subst do_match.simps) (auto simp add: L_ESC_def isdigit_def between_def)
  have nz: "p < p + 2" by simp
  show ?thesis unfolding step
  proof (rule refines_bind [OF match_capture_again(2) [OF ok]])
    fix r assume "match_capture src ms s (char_at pat (p + 1)) = Ok r"
    note r = match_capture_again(1) [OF ok this]
    show "refines (case r of None \<Rightarrow> Ok (None, ms) | Some s \<Rightarrow> do_match src pat s (p + 2) ms)
        (caps_of ms) (pm src pat p s (caps_of ms))"
    proof (cases r)
      case None
      then show ?thesis using r ok by (simp add: refines_none pm_back_ref [OF here])
    next
      case (Some s1)
      show ?thesis unfolding Some option.case
        by (rule refines_weaken [OF later_ok_matches [OF later nz ok]]) (use r Some in \<open>simp add: pm_back_ref [OF here]\<close>)
    qed
  qed
qed

lemma ex_Suc: "(\<exists>n. Q n) \<longleftrightarrow> Q 0 \<or> (\<exists>n. Q (Suc n))"
  by (metis not0_implies_Suc)

lemma pm_optional:
  assumes "plain_item pat p" "classend pat p = Ok ep" "char_at pat ep = chr CHR ''?''"
  shows "pm src pat p s c s' c' \<longleftrightarrow>
    (s < length src \<and> singlematch (src ! s) pat p ep) \<and> pm src pat (ep + 1) (s + 1) c s' c' \<or> pm src pat (ep + 1) s c s' c'"
  unfolding pm_plain [OF assms(1,2)]
  by (subst ex_Suc, subst ex_Suc) (auto simp add: assms(3) quantifiers_iff allows_def all_single_simps)

lemma pm_plus:
  assumes "plain_item pat p" "classend pat p = Ok ep" "char_at pat ep = chr CHR ''+''"
  shows "pm src pat p s c s' c' \<longleftrightarrow> (s < length src \<and> singlematch (src ! s) pat p ep) \<and>
    (\<exists>n. all_single src pat p ep (s + 1) n \<and> pm src pat (ep + 1) (s + 1 + n) c s' c')"
  unfolding pm_plain [OF assms(1,2)]
  by (subst ex_Suc) (auto simp add: assms(3) quantifiers_iff allows_def all_single_simps)

lemma pm_single_item:
  assumes "plain_item pat p" "classend pat p = Ok ep" "char_at pat ep \<notin> quantifiers"
  shows "pm src pat p s c s' c' \<longleftrightarrow> (s < length src \<and> singlematch (src ! s) pat p ep) \<and> pm src pat ep (s + 1) c s' c'"
  unfolding pm_plain [OF assms(1,2)] using assms(3) by (simp add: all_single_def)

lemma refines_if:
  assumes "m \<Longrightarrow> refines x (caps_of ms) Q" and "ms_ok ms"
  shows "refines (if m then x else Ok (None, ms)) (caps_of ms) (\<lambda>e c'. m \<and> Q e c')"
  using assms by (cases m) (auto intro: refines_none)

lemma if_flip: "(if \<not> b then x else y) = (if b then y else x)"
  by simp

lemma do_match_item:
  assumes later: "later_ok src pat p" and ok: "ms_ok ms" and item: "plain_item pat p"
  shows "matches_ok src pat p s ms (do_match src pat s p ms)"
  unfolding do_match_plain [OF item]
proof (rule refines_bind [OF classend_not_stuck])
  fix ep assume ep: "classend pat p = Ok ep"
  note here = item ep and after = classend_after [OF ep]
  have after1: "p < ep + 1" using after by simp
  note expand = pattern_matcher.max_expand_refined [OF later_ok_matcher [OF later after1] ok]
  note go_on = later_ok_matches [OF later after1]
  let ?m = "s < length src \<and> singlematch (src ! s) pat p ep"
  consider (opt) "char_at pat ep = chr CHR ''?''" | (star) "char_at pat ep = chr CHR ''*''"
    | (plus) "char_at pat ep = chr CHR ''+''" | (minus) "char_at pat ep = chr CHR ''-''"
    | (one) "char_at pat ep \<notin> quantifiers"
    by (auto simp: quantifiers_iff)
  then show "matches_ok src pat p s ms (let m = ?m in if char_at pat ep = chr CHR ''?'' then
               or_else (if m then do_match src pat (s + 1) (ep + 1) ms else Ok (None, ms))
                 (\<lambda>ms. do_match src pat s (ep + 1) ms)
             else if char_at pat ep = chr CHR ''*'' then
               max_expand (\<lambda>s ms. do_match src pat s (ep + 1) ms) src pat s p ep ms
             else if char_at pat ep = chr CHR ''+'' then
               if m then max_expand (\<lambda>s ms. do_match src pat s (ep + 1) ms) src pat (s + 1) p ep ms else Ok (None, ms)
             else if char_at pat ep = chr CHR ''-'' then
               min_expand (\<lambda>s ms. do_match src pat s (ep + 1) ms) src pat s p ep ms
             else if \<not> m then Ok (None, ms) else do_match src pat (s + 1) ep ms)"
  proof cases
    case star
    have "matches_ok src pat p s ms (max_expand (\<lambda>s ms. do_match src pat s (ep + 1) ms) src pat s p ep ms)"
      by (rule refines_weaken [OF expand]) (simp add: pm_plain [OF here] star quantifiers_iff allows_def)
    then show ?thesis using star by (simp add: Let_def)
  next
    case minus
    have "matches_ok src pat p s ms (min_expand (\<lambda>s ms. do_match src pat s (ep + 1) ms) src pat s p ep ms)"
      by (rule refines_weaken [OF pattern_matcher.min_expand_refined [OF later_ok_matcher [OF later after1] ok]])
        (simp add: pm_plain [OF here] minus quantifiers_iff allows_def)
    then show ?thesis using minus by (simp add: Let_def)
  next
    case plus
    have "matches_ok src pat p s ms
        (if ?m then max_expand (\<lambda>s ms. do_match src pat s (ep + 1) ms) src pat (s + 1) p ep ms else Ok (None, ms))"
    proof (cases ?m)
      case True
      show ?thesis unfolding if_P [OF True]
        by (rule refines_weaken [OF expand]) (simp add: pm_plus [OF here plus] True)
    next
      case False
      then show ?thesis unfolding if_not_P [OF False]
        by (intro refines_none [OF ok]) (auto simp: pm_plus [OF here plus])
    qed
    then show ?thesis using plus by (simp add: Let_def)
  next
    case opt
    have "refines (if ?m then do_match src pat (s + 1) (ep + 1) ms else Ok (None, ms)) (caps_of ms)
        (\<lambda>e c'. ?m \<and> pm src pat (ep + 1) (s + 1) (caps_of ms) e c')"
      using refines_if [OF go_on [OF ok, of "s + 1"] ok, of ?m] by (simp add: conj_assoc)
    moreover have "refines (do_match src pat s (ep + 1) ms') (caps_of ms) (pm src pat (ep + 1) s (caps_of ms))"
      if "caps_of ms' = caps_of ms" "ms_ok ms'" for ms'
      using go_on [OF that(2), of s] that(1) by simp
    ultimately have "matches_ok src pat p s ms
        (or_else (if ?m then do_match src pat (s + 1) (ep + 1) ms else Ok (None, ms)) (\<lambda>ms. do_match src pat s (ep + 1) ms))"
      by (rule refines_or_else) (simp_all add: pm_optional [OF here opt])
    then show ?thesis using opt by (simp add: Let_def)
  next
    case one
    have "matches_ok src pat p s ms (if ?m then do_match src pat (s + 1) ep ms else Ok (None, ms))"
      by (rule refines_weaken [OF refines_if [OF later_ok_matches [OF later after ok] ok]])
        (simp add: pm_single_item [OF here one])
    then show ?thesis using one by (simp add: Let_def quantifiers_iff if_flip)
  qed
qed

lemma do_match_refined_core: "ms_ok ms \<Longrightarrow> matches_ok src pat p s ms (do_match src pat s p ms)"
proof (induction "length pat - p" arbitrary: s p ms rule: less_induct)
  case less
  have later: "later_ok src pat p" if "char_at pat p \<noteq> 0"
    unfolding later_ok_def using less.hyps [OF pattern_left [OF that]]
    by (intro allI impI pattern_matcher.intro)
  consider (pos) "char_at pat p = chr CHR ''(''" "char_at pat (p + 1) = chr CHR '')''"
    | (opn) "char_at pat p = chr CHR ''(''" "char_at pat (p + 1) \<noteq> chr CHR '')''"
    | (cls) "char_at pat p = chr CHR '')''" | (bal) "char_at pat p = L_ESC" "char_at pat (p + 1) = chr CHR ''b''"
    | (fro) "char_at pat p = L_ESC" "char_at pat (p + 1) = chr CHR ''f''"
    | (ref) "char_at pat p = L_ESC" "isdigit (char_at pat (p + 1))" | (eop) "char_at pat p = 0"
    | (dol) "char_at pat p = chr CHR ''$''" "char_at pat (p + 1) = 0" | (item) "plain_item pat p"
    by (auto simp: plain_item_def)
  then show ?case
  proof cases
    case pos
    then show ?thesis using later by (intro do_match_position less.prems) simp_all
  next
    case opn
    then show ?thesis using later by (intro do_match_open less.prems) simp_all
  next
    case cls
    then show ?thesis using later by (intro do_match_close less.prems) simp_all
  next
    case bal
    then show ?thesis using later by (intro do_match_balance less.prems) (simp_all add: L_ESC_def)
  next
    case fro
    then show ?thesis using later by (intro do_match_frontier less.prems) (simp_all add: L_ESC_def)
  next
    case ref
    then show ?thesis using later by (intro do_match_back_ref less.prems) (simp_all add: L_ESC_def)
  next
    case eop
    then show ?thesis using less.prems by (subst do_match.simps) (simp add: pm_end L_ESC_def refines_def)
  next
    case dol
    then show ?thesis using less.prems
      by (subst do_match.simps) (simp add: pm_dollar [OF dol] L_ESC_def refines_def)
  next
    case item
    then show ?thesis using later by (intro do_match_item less.prems) (simp_all add: plain_item_def)
  qed
qed

interpretation matcher: pattern_matcher "\<lambda>s. do_match src pat s p" "pm src pat p" for src pat p
  by unfold_locales (rule do_match_refined_core)

section \<open>Matches lie inside the subject\<close>

text \<open>
  Every capture starts before the current position; one that is closed ends before it.
\<close>

definition cap_inside :: "nat \<Rightarrow> nat \<times> int \<Rightarrow> bool" where
  "cap_inside s = (\<lambda>(i, n). i \<le> s \<and> (n = CAP_UNFINISHED \<or> n = CAP_POSITION \<or> 0 \<le> n \<and> int i + n \<le> int s))"

definition caps_inside :: "nat \<Rightarrow> captures \<Rightarrow> bool" where
  "caps_inside s c \<longleftrightarrow> (\<forall>x \<in> set c. cap_inside s x)"

lemma caps_inside_mono: "caps_inside s c \<Longrightarrow> s \<le> s1 \<Longrightarrow> caps_inside s1 c"
  by (fastforce simp: caps_inside_def cap_inside_def)

lemma caps_inside_snoc [simp]:
  "caps_inside s (c @ [(s, CAP_POSITION)]) \<longleftrightarrow> caps_inside s c"
  "caps_inside s (c @ [(s, CAP_UNFINISHED)]) \<longleftrightarrow> caps_inside s c"
  by (auto simp: caps_inside_def cap_inside_def)

lemma caps_inside_close:
  assumes "caps_inside s c" and "l < length c"
  shows "caps_inside s (c[l := (fst (c ! l), int s - int (fst (c ! l)))])"
proof -
  have "cap_inside s (c ! l)" using assms by (simp add: caps_inside_def)
  then have "cap_inside s (fst (c ! l), int s - int (fst (c ! l)))"
    by (auto simp: cap_inside_def split: prod.splits)
  then show ?thesis using assms by (auto simp: caps_inside_def dest!: set_update_subset_insert [THEN subsetD])
qed

lemma balance_loop_inside: "balance_loop src b e s cont = Some s1 \<Longrightarrow> s < s1 \<and> s1 \<le> length src"
proof (induction src b e s cont rule: balance_loop.induct)
  case (1 src b e s cont)
  show ?case using 1(4) 1(1,2,3) [OF refl]
    by (subst (asm) balance_loop.simps) (fastforce simp: Let_def split: if_splits)
qed

lemma again_inside: "again src c s l = Some s1 \<Longrightarrow> s \<le> length src \<Longrightarrow> s \<le> s1 \<and> s1 \<le> length src"
  by (auto simp: again_def Let_def split: if_splits)

lemma all_single_inside: "all_single src pat p ep s n \<Longrightarrow> s \<le> length src \<Longrightarrow> s + n \<le> length src"
  by (cases n) (auto simp: all_single_def)

lemma pm_inside:
  "pm src pat p s c s' c' \<Longrightarrow> s \<le> length src \<Longrightarrow> caps_inside s c \<Longrightarrow>
     s \<le> s' \<and> s' \<le> length src \<and> caps_inside s' c'"
proof (induction rule: pm.induct)
  case (close_capture p c l s s' c')
  then show ?case using caps_inside_close [OF close_capture.prems(2)] unfinished_below_Some by blast
next
  case (balance p s s1 c s' c')
  then have "s < s1" "s1 \<le> length src"
    by (auto simp: matchbalance_def dest: balance_loop_inside split: if_splits)
  then show ?case using balance caps_inside_mono by (meson le_trans less_imp_le)
next
  case (back_ref p c s s1 s' c')
  then show ?case using again_inside [OF back_ref.hyps(3)] caps_inside_mono by (meson le_trans)
next
  case (single p ep s c s' c')
  then show ?case using all_single_inside [OF single.hyps(4)] caps_inside_mono [of s c "s + 1"] by auto
next
  case (repeated p ep n s c s' c')
  then show ?case using all_single_inside [OF repeated.hyps(5)] caps_inside_mono [of s c "s + n"] by auto
qed simp_all

section \<open>Patterns that cannot be malformed\<close>

text \<open>Without brackets, parentheses and escapes a pattern has no way to be wrong.\<close>

definition simple_pattern :: "bytes \<Rightarrow> bool" where
  "simple_pattern pat \<longleftrightarrow> (\<forall>c \<in> set pat. c \<notin> {chr CHR ''('', chr CHR '')'', chr CHR ''['', L_ESC})"

definition no_error :: "match_result \<Rightarrow> bool" where
  "no_error m \<longleftrightarrow> (\<forall>e. m \<noteq> RunError e)"

lemma no_error_or_else: "no_error m \<Longrightarrow> (\<And>ms. no_error (next ms)) \<Longrightarrow> no_error (or_else m next)"
  by (cases m) (auto simp: no_error_def or_else_def split: option.splits)

lemma no_error_Ok [simp]: "no_error (Ok x)"
  by (simp add: no_error_def)

lemma max_loop_no_error: "(\<And>s ms. no_error (M s ms)) \<Longrightarrow> no_error (max_loop M s i ms)"
  by (induction i arbitrary: ms) (simp_all add: no_error_or_else)

lemma min_expand_no_error: "(\<And>s ms. no_error (M s ms)) \<Longrightarrow> no_error (min_expand M src pat s p ep ms)"
proof (induction "length src - s" arbitrary: s ms rule: less_induct)
  case less
  show ?case by (subst min_expand.simps) (auto intro!: no_error_or_else less)
qed

lemma simple_char: "simple_pattern pat \<Longrightarrow> char_at pat p \<notin> {chr CHR ''('', chr CHR '')'', chr CHR ''['', L_ESC}"
  by (auto simp: simple_pattern_def char_at_def L_ESC_def)

lemma simple_no_error: "simple_pattern pat \<Longrightarrow> no_error (do_match src pat s p ms)"
proof (induction "length pat - p" arbitrary: s p ms rule: less_induct)
  case less
  have later: "no_error (do_match src pat s' q ms')" if "char_at pat p \<noteq> 0" "p < q" for s' q ms'
    using less.hyps [OF pattern_left [OF that] less.prems] .
  note c = simple_char [OF less.prems, of p]
  show ?case
  proof (cases "plain_item pat p")
    case True
    then have nz: "char_at pat p \<noteq> 0" by (simp add: plain_item_def)
    have ep: "classend pat p = Ok (p + 1)" using c by (simp add: classend_def)
    show ?thesis
      using later [OF nz] unfolding do_match_plain [OF True] ep bind_outcome.simps Let_def max_expand_def
      by (auto intro!: no_error_or_else max_loop_no_error min_expand_no_error)
  next
    case False
    then have "char_at pat p = 0 \<or> char_at pat p = chr CHR ''$'' \<and> char_at pat (p + 1) = 0"
      using c by (auto simp: plain_item_def)
    then show ?thesis by (subst do_match.simps) (auto simp: L_ESC_def)
  qed
qed

section \<open>Properties\<close>

text \<open>
  Property C4. The backtracking matcher finds a match of the pattern whenever there is one: what it
  returns is a match with its captures; when it returns \<open>NULL\<close> no way of reading the pattern
  matches from there, and the captures are as they were before. It always ends, and it raises no
  error for a pattern without brackets, parentheses and escapes.
\<close>

theorem match_finds:
  assumes "ms_ok ms"
  shows "(case do_match src pat s p ms of
      Ok (Some e, ms') \<Rightarrow> pm src pat p s (caps_of ms) e (caps_of ms')
    | Ok (None, ms') \<Rightarrow> caps_of ms' = caps_of ms \<and> (\<forall>e c. \<not> pm src pat p s (caps_of ms) e c)
    | RunError _ \<Rightarrow> \<not> simple_pattern pat
    | Stuck \<Rightarrow> False)"
  using do_match_refined_core [OF assms, where src = src and pat = pat and s = s and p = p]
    simple_no_error [where src = src and pat = pat and s = s and p = p and ms = ms]
  by (auto simp: refines_def no_error_def split: outcome.splits option.splits)

lemma sample_match: "do_match (lit ''xaab'') (lit ''(a*)b'') 1 0 new_ms =
    Ok (Some 4, new_ms\<lparr>level := 1, capture := (capture new_ms)[0 := (1, 2)]\<rparr>)"
  by code_simp

lemma new_ms_ok [simp]: "ms_ok new_ms" "caps_of new_ms = []"
  by (simp_all add: new_ms_def ms_ok_def caps_of_def)

lemma sample_caps: "caps_of (new_ms\<lparr>level := 1, capture := (capture new_ms)[0 := (1, 2)]\<rparr>) = [(1, 2)]"
  by code_simp

theorem match_finds_witness:
  "pm (lit ''xaab'') (lit ''(a*)b'') 0 1 [] 4 [(1, 2)]"
  using match_finds [OF new_ms_ok(1), where src = "lit ''xaab''" and pat = "lit ''(a*)b''" and s = 1 and p = 0,
      unfolded sample_match] sample_caps by simp

text \<open>
  Property C33. A match ends inside the subject, not before it began, and every closed capture is a
  piece of the subject before the end of the match, provided the captures so far are.
\<close>

theorem match_inside:
  assumes "ms_ok ms" and "s \<le> length src" and "caps_inside s (caps_of ms)"
    and "do_match src pat s p ms = Ok (Some e, ms')"
  shows "s \<le> e \<and> e \<le> length src \<and> caps_inside e (caps_of ms')"
  using do_match_refined_core [OF assms(1), where src = src and pat = pat and s = s and p = p] assms(2-4)
  by (auto simp: refines_def dest: pm_inside)

theorem match_inside_witness:
  "1 \<le> (4 :: nat) \<and> 4 \<le> length (lit ''xaab'') \<and> caps_inside 4 [(1, 2)]"
  using match_inside [OF new_ms_ok(1) _ _ sample_match, unfolded sample_caps]
  by (simp add: caps_inside_def lit_def)

end
