(* ===== verification/Strlib.thy ===== *)
theory Strlib
  imports Arguments Matching
begin

text \<open>
  The string library (\<open>lstrlib.c\<close>) without patterns and formats: each function takes its arguments
  from the frame and leaves its results on the top; its value is their number.
\<close>

section \<open>Substrings\<close>

definition str_len :: "('z lua_State_scheme, 'h) lib_scheme \<Rightarrow> 'z lua_call \<Rightarrow> ('z lua_State_scheme, int) prog" where
  "str_len H C = bnd (luaL_checklstring H C 1) (\<lambda>s. seq (lua_pushinteger (int (length s))) (ret 1))"

text \<open>A position from the end when it is negative.\<close>

definition posrelat :: "int \<Rightarrow> nat \<Rightarrow> int" where
  "posrelat pos len = (let pos = (if pos < 0 then pos + (int len + 1) else pos) in if 0 \<le> pos then pos else 0)"

definition str_sub :: "('z lua_State_scheme, 'h) lib_scheme \<Rightarrow> 'z lua_call \<Rightarrow> ('z lua_State_scheme, int) prog" where
  "str_sub H C =
     bnd (luaL_checklstring H C 1) (\<lambda>s.
     bnd (luaL_checkinteger H C 2) (\<lambda>i.
     bnd (luaL_optinteger H C 3 (- 1)) (\<lambda>j.
       let start = posrelat i (length s); stop = posrelat j (length s);
           start = (if start < 1 then 1 else start); stop = (if int (length s) < stop then int (length s) else stop)
       in seq (if start \<le> stop then lua_pushlstring (take (nat (stop - start + 1)) (drop (nat (start - 1)) s))
               else lua_pushliteral '''')
            (ret 1))))"

definition str_byte :: "('z lua_State_scheme, 'h) lib_scheme \<Rightarrow> 'z lua_call \<Rightarrow> ('z lua_State_scheme, int) prog" where
  "str_byte H C =
     bnd (luaL_checklstring H C 1) (\<lambda>s.
     bnd (luaL_optinteger H C 2 1) (\<lambda>i. let posi = posrelat i (length s) in
     bnd (luaL_optinteger H C 3 posi) (\<lambda>j.
       let pose = posrelat j (length s); posi = (if posi \<le> 0 then 1 else posi);
           pose = (if int (length s) < pose then int (length s) else pose)
       in if pose < posi then ret 0
          else let n = to_int (pose - posi + 1) in
            seq (if posi + n \<le> pose then luaL_errormsg H C (lit ''string slice too long'') else ret ())
            (seq (luaL_checkstack H C n ''string slice too long'')
            (seq (steps (map (\<lambda>i. lua_pushinteger (uint (s ! nat (posi + int i - 1)))) [0..<nat n])) (ret n))))))"

section \<open>Building strings\<close>

primrec reverse_loop :: "('z lua_State_scheme, 'h) lib_scheme \<Rightarrow> 'z lua_call \<Rightarrow> bytes \<Rightarrow> nat \<Rightarrow> luaL_Buffer
    \<Rightarrow> ('z lua_State_scheme, luaL_Buffer) prog" where
  "reverse_loop H C s 0 B = ret B"
| "reverse_loop H C s (Suc l) B = bnd (luaL_addchar H C (s ! l) B) (reverse_loop H C s l)"

definition str_reverse :: "('z lua_State_scheme, 'h) lib_scheme \<Rightarrow> 'z lua_call \<Rightarrow> ('z lua_State_scheme, int) prog" where
  "str_reverse H C =
     bnd (luaL_checklstring H C 1) (\<lambda>s.
     bnd (reverse_loop H C s (length s) luaL_buffinit) (\<lambda>B.
     bnd (luaL_pushresult H C B) (\<lambda>_. ret 1)))"

primrec map_loop :: "('z lua_State_scheme, 'h) lib_scheme \<Rightarrow> 'z lua_call \<Rightarrow> (u8 \<Rightarrow> u8) \<Rightarrow> bytes \<Rightarrow> luaL_Buffer
    \<Rightarrow> ('z lua_State_scheme, luaL_Buffer) prog" where
  "map_loop H C f [] B = ret B"
| "map_loop H C f (c # s) B = bnd (luaL_addchar H C (f c) B) (map_loop H C f s)"

definition str_lower :: "('z lua_State_scheme, 'h) lib_scheme \<Rightarrow> 'z lua_call \<Rightarrow> ('z lua_State_scheme, int) prog" where
  "str_lower H C =
     bnd (luaL_checklstring H C 1) (\<lambda>s.
     bnd (map_loop H C tolower s luaL_buffinit) (\<lambda>B.
     bnd (luaL_pushresult H C B) (\<lambda>_. ret 1)))"

definition str_upper :: "('z lua_State_scheme, 'h) lib_scheme \<Rightarrow> 'z lua_call \<Rightarrow> ('z lua_State_scheme, int) prog" where
  "str_upper H C =
     bnd (luaL_checklstring H C 1) (\<lambda>s.
     bnd (map_loop H C toupper s luaL_buffinit) (\<lambda>B.
     bnd (luaL_pushresult H C B) (\<lambda>_. ret 1)))"

primrec rep_loop :: "('z lua_State_scheme, 'h) lib_scheme \<Rightarrow> 'z lua_call \<Rightarrow> bytes \<Rightarrow> nat \<Rightarrow> luaL_Buffer
    \<Rightarrow> ('z lua_State_scheme, luaL_Buffer) prog" where
  "rep_loop H C s 0 B = ret B"
| "rep_loop H C s (Suc n) B = bnd (luaL_addlstring H C s B) (rep_loop H C s n)"

definition str_rep :: "('z lua_State_scheme, 'h) lib_scheme \<Rightarrow> 'z lua_call \<Rightarrow> ('z lua_State_scheme, int) prog" where
  "str_rep H C =
     bnd (luaL_checklstring H C 1) (\<lambda>s.
     bnd (luaL_checkint H C 2) (\<lambda>n.
     bnd (rep_loop H C s (nat n) luaL_buffinit) (\<lambda>B.
     bnd (luaL_pushresult H C B) (\<lambda>_. ret 1))))"

text \<open>The loop over the arguments from \<open>i\<close> on, of which \<open>k\<close> are left.\<close>

primrec char_loop :: "('z lua_State_scheme, 'h) lib_scheme \<Rightarrow> 'z lua_call \<Rightarrow> int \<Rightarrow> nat \<Rightarrow> luaL_Buffer
    \<Rightarrow> ('z lua_State_scheme, luaL_Buffer) prog" where
  "char_loop H C i 0 B = ret B"
| "char_loop H C i (Suc k) B =
     bnd (luaL_checkint H C i) (\<lambda>c.
     seq (luaL_argcheck H C (uint (word_of_int c :: u8) = c) i ''invalid value'')
     (bnd (luaL_addchar H C (word_of_int c) B) (char_loop H C (i + 1) k)))"

definition str_char :: "('z lua_State_scheme, 'h) lib_scheme \<Rightarrow> 'z lua_call \<Rightarrow> ('z lua_State_scheme, int) prog" where
  "str_char H C =
     bnd lua_gettop (\<lambda>n.
     bnd (char_loop H C 1 (nat n) luaL_buffinit) (\<lambda>B.
     bnd (luaL_pushresult H C B) (\<lambda>_. ret 1)))"

section \<open>What the builders build\<close>

text \<open>The loops add the characters of a list; what follows them leaves its string.\<close>

lemma reverse_loop_each: "l \<le> length s \<Longrightarrow> reverse_loop H C s l = add_each (luaL_addchar H C) (rev (take l s))"
  by (induction l) ((rule ext)+, simp add: take_Suc_conv_app_nth)+

lemma map_loop_each: "map_loop H C f s = add_each (luaL_addchar H C) (map f s)"
  by (induction s) ((rule ext)+, simp)+

lemma add_each_append: "add_each put (xs @ ys) B s = bnd (add_each put xs B) (add_each put ys) s"
  by (induction xs arbitrary: B s) (simp_all add: bnd_def split: res.split)

lemma rep_loop_each: "rep_loop H C s n = add_each (luaL_addchar H C) (concat (replicate n s))"
  by (induction n) ((rule ext)+, simp add: add_each_append luaL_addlstring_def)+

lemma built_string:
  assumes "0 < bufsiz H" "length (stack s) + LIMIT + 1 < ci_top s" "length b < MAX_SIZET"
  shows "bnd (add_each (luaL_addchar H C) b luaL_buffinit) (\<lambda>B. bnd (luaL_pushresult H C B) (\<lambda>_. ret 1)) s
    = Val 1 (s\<lparr>stack := stack s @ [TString b]\<rparr>)"
proof -
  obtain B1 s1 where 1: "add_each (luaL_addchar H C) b luaL_buffinit s = Val B1 s1"
    "buffer_ok (bufsiz H) (stack s) b B1 s1" "restack s s1"
    using addlstring_ok [OF buffinit_ok [OF assms(1,2)], of b C] assms(3) by (auto simp: luaL_addlstring_def)
  from pushresult_ok [OF 1(2), of C] 1(1,3) show ?thesis by (auto simp: bnd_def restack_def)
qed

text \<open>Room for a buffer, and a string as first argument.\<close>

definition string_call :: "('z lua_State_scheme, 'h) lib_scheme \<Rightarrow> bytes \<Rightarrow> 'z lua_State_scheme \<Rightarrow> bool" where
  "string_call H b s \<longleftrightarrow> stack s \<noteq> [] \<and> hd (stack s) = TString b \<and> length b < MAX_SIZET \<and> 0 < bufsiz H \<and>
     length (stack s) + LIMIT + 1 < ci_top s"

lemma check_first: "string_call H b s \<Longrightarrow> luaL_checklstring H C 1 s = Val b s"
  using checklstring_string [of 0 s b H C] by (cases "stack s") (simp_all add: string_call_def)

lemma string_call_push: "string_call H b s \<Longrightarrow> length (stack s) < ci_top s"
  by (simp add: string_call_def)

lemma str_len_run: "string_call H b s \<Longrightarrow> str_len H C s = Val 1 (s\<lparr>stack := stack s @ [TNumber (cast_num (int (length b)))]\<rparr>)"
  by (simp add: str_len_def bnd_def check_first seq_def lua_pushinteger_def push_run string_call_push)

lemma built:
  assumes "string_call H b s" "length c < MAX_SIZET"
  shows "bnd (add_each (luaL_addchar H C) c luaL_buffinit) (\<lambda>B. bnd (luaL_pushresult H C B) (\<lambda>_. ret 1)) s
    = Val 1 (s\<lparr>stack := stack s @ [TString c]\<rparr>)"
  using assms by (intro built_string) (simp_all add: string_call_def)

lemma length_call: "string_call H b s \<Longrightarrow> length b < MAX_SIZET"
  by (simp add: string_call_def)

lemma str_reverse_run: "string_call H b s \<Longrightarrow> str_reverse H C s = Val 1 (s\<lparr>stack := stack s @ [TString (rev b)]\<rparr>)"
  using built [of H b s "rev b" C]
  by (simp add: str_reverse_def bnd_Val [where m = "luaL_checklstring H C 1", OF check_first] reverse_loop_each length_call)

lemma str_lower_run: "string_call H b s \<Longrightarrow> str_lower H C s = Val 1 (s\<lparr>stack := stack s @ [TString (map tolower b)]\<rparr>)"
  using built [of H b s "map tolower b" C]
  by (simp add: str_lower_def bnd_Val [where m = "luaL_checklstring H C 1", OF check_first] map_loop_each length_call)

lemma str_upper_run: "string_call H b s \<Longrightarrow> str_upper H C s = Val 1 (s\<lparr>stack := stack s @ [TString (map toupper b)]\<rparr>)"
  using built [of H b s "map toupper b" C]
  by (simp add: str_upper_def bnd_Val [where m = "luaL_checklstring H C 1", OF check_first] map_loop_each length_call)

lemma str_rep_run:
  assumes "string_call H b s" "2 \<le> length (stack s)" "stack s ! 1 = TNumber n" "to_int (lua_number2integer n) = k"
    and "nat k * length b < MAX_SIZET"
  shows "str_rep H C s = Val 1 (s\<lparr>stack := stack s @ [TString (concat (replicate (nat k) b))]\<rparr>)"
proof -
  have "luaL_checkint H C 2 s = Val k s"
    using checkinteger_number [of 1 s H n C] assms(2-4) by (simp add: luaL_checkint_def bnd_def luaV_tonumber_def)
  then show ?thesis
    using built [OF assms(1), of "concat (replicate (nat k) b)" C] assms(5)
    by (simp add: str_rep_def bnd_Val [where m = "luaL_checklstring H C 1", OF check_first [OF assms(1)]]
        bnd_Val [where m = "luaL_checkint H C 2"] rep_loop_each length_concat sum_list_replicate)
qed

section \<open>Substrings\<close>

text \<open>The position that an argument means: from the end when it is negative.\<close>

definition meant :: "int \<Rightarrow> nat \<Rightarrow> int" where
  "meant i len = (if i < 0 then int len + 1 + i else i)"

text \<open>The characters of \<open>b\<close> whose positions, counted from 1, lie between \<open>i\<close> and \<open>j\<close>.\<close>

definition between_positions :: "bytes \<Rightarrow> int \<Rightarrow> int \<Rightarrow> bytes" where
  "between_positions b i j = map ((!) b) (filter (\<lambda>k. i \<le> int k + 1 \<and> int k + 1 \<le> j) [0..<length b])"

lemma filter_upt: "filter (\<lambda>k. a \<le> k \<and> k < c) [0..<n] = [a..<min c n]"
proof (induction n)
  case (Suc n)
  then show ?case by (cases "c \<le> n") (auto simp: min_def le_Suc_eq)
qed simp

lemma map_nth_upt: "y \<le> length b \<Longrightarrow> map ((!) b) [x..<y] = take (y - x) (drop x b)"
  by (intro nth_equalityI) simp_all

lemma between_positions_slice:
  "between_positions b i j = take (nat (min j (int (length b)) - max i 1 + 1)) (drop (nat (max i 1 - 1)) b)"
proof -
  have "filter (\<lambda>k. i \<le> int k + 1 \<and> int k + 1 \<le> j) [0..<length b] = [nat (max i 1 - 1)..<min (nat j) (length b)]"
    unfolding filter_upt [symmetric] by (rule filter_cong) auto
  moreover have "min (nat j) (length b) - nat (max i 1 - 1) = nat (min j (int (length b)) - max i 1 + 1)"
    by linarith
  ultimately show ?thesis
    unfolding between_positions_def by (simp add: map_nth_upt)
qed

lemma str_sub_core:
  assumes "string_call H b s" and "3 \<le> length (stack s)" "stack s ! 1 = TNumber x" "stack s ! 2 = TNumber y"
  shows "str_sub H C s = Val 1 (s\<lparr>stack := stack s @ [TString (between_positions b
    (meant (lua_number2integer x) (length b)) (meant (lua_number2integer y) (length b)))]\<rparr>)"
proof -
  let ?i = "lua_number2integer x" and ?j = "lua_number2integer y" and ?n = "length b"
  have i: "luaL_checkinteger H C 2 s = Val ?i s"
    using checkinteger_number [of 1 s H x C] assms(2,3) by (simp add: luaV_tonumber_def)
  have j: "luaL_optinteger H C 3 (- 1) s = Val ?j s"
    using optinteger_number [of 2 s y H C] assms(2,4) by simp
  define start where "start = max (meant ?i ?n) 1"
  define stop where "stop = min (meant ?j ?n) (int ?n)"
  have slice: "between_positions b (meant ?i ?n) (meant ?j ?n) = take (nat (stop - start + 1)) (drop (nat (start - 1)) b)"
    unfolding between_positions_slice start_def stop_def ..
  have start: "(if posrelat ?i ?n < 1 then 1 else posrelat ?i ?n) = start"
    by (auto simp: posrelat_def meant_def start_def Let_def)
  have "str_sub H C s = Val 1 (s\<lparr>stack := stack s @ [TString
      (let stop = (if int ?n < posrelat ?j ?n then int ?n else posrelat ?j ?n)
       in if start \<le> stop then take (nat (stop - start + 1)) (drop (nat (start - 1)) b) else [])]\<rparr>)"
    by (simp add: str_sub_def bnd_def check_first [OF assms(1)] i j seq_def Let_def start lua_pushlstring_def lua_pushliteral_def
        push_run string_call_push [OF assms(1)] lit_def)
  also have "(let stop = (if int ?n < posrelat ?j ?n then int ?n else posrelat ?j ?n)
       in if start \<le> stop then take (nat (stop - start + 1)) (drop (nat (start - 1)) b) else [])
      = take (nat (stop - start + 1)) (drop (nat (start - 1)) b)"
  proof -
    have one: "1 \<le> start" by (simp add: start_def)
    have "(if int ?n < posrelat ?j ?n then int ?n else posrelat ?j ?n) = (if 0 \<le> meant ?j ?n then stop else 0)"
      by (simp add: posrelat_def meant_def stop_def Let_def min_def)
    moreover have "nat (stop - start + 1) = 0" if "\<not> 0 \<le> meant ?j ?n \<or> \<not> start \<le> stop"
      using that one by (auto simp: stop_def)
    ultimately show ?thesis using one by (auto simp: Let_def)
  qed
  finally show ?thesis unfolding slice .
qed

section \<open>Bytes and characters\<close>

lemma push_integers:
  "length (stack s) + length xs \<le> ci_top s \<Longrightarrow>
   steps (map (\<lambda>i. lua_pushinteger (f i)) xs) s = Val () (s\<lparr>stack := stack s @ map (\<lambda>i. TNumber (cast_num (f i))) xs\<rparr>)"
  by (induction xs arbitrary: s) (simp_all add: seq_def bnd_def lua_pushinteger_def push_run)

definition byte_values :: "bytes \<Rightarrow> TValue list" where
  "byte_values b = map (\<lambda>c. TNumber (cast_num (uint c))) b"

lemma str_byte_all:
  assumes "string_call H b s" and "stack s = [TString b, TNumber (cast_num 1), TNumber (cast_num (- 1))]" "length b \<le> 7000"
  shows "\<exists>m. str_byte H C s = Val (int (length b)) (s\<lparr>ci_top := m, stack := stack s @ byte_values b\<rparr>)"
proof -
  have i: "luaL_optinteger H C 2 1 s = Val 1 s"
    using optinteger_number [of 1 s "cast_num 1" H C 1] assms(2) by (simp add: number2integer_cast_num)
  have j: "luaL_optinteger H C 3 1 s = Val (- 1) s"
    using optinteger_number [of 2 s "cast_num (- 1)" H C 1] assms(2) by (simp add: number2integer_cast_num)
  have int: "to_int (int (length b)) = int (length b)" using assms(3) by (simp add: to_int_id)
  show ?thesis
  proof (cases "b = []")
    case True
    then show ?thesis
      by (intro exI [of _ "ci_top s"])
        (simp add: str_byte_def bnd_def check_first [OF assms(1)] i j posrelat_def Let_def byte_values_def)
  next
    case False
    then have pos: "1 \<le> int (length b)" and full: "int (length b) < 1 \<longleftrightarrow> False" by (cases b; simp)+
    let ?s = "s\<lparr>ci_top := max (ci_top s) (3 + length b)\<rparr>"
    have check: "luaL_checkstack H C (int (length b)) ''string slice too long'' s = Val () ?s"
      using False assms(2,3) by (simp add: luaL_checkstack_def lua_checkstack_def bnd_def LUAI_MAXCSTACK_def)
    have "map (\<lambda>i. TNumber (cast_num (uint (b ! nat (1 + int i - 1))))) [0..<length b] = byte_values b"
      unfolding byte_values_def by (rule nth_equalityI) simp_all
    then have push: "steps (map (\<lambda>i. lua_pushinteger (uint (b ! nat (1 + int i - 1)))) [0..<length b]) ?s
        = Val () (?s\<lparr>stack := stack s @ byte_values b\<rparr>)"
      using push_integers [of ?s "[0..<length b]" "\<lambda>i. uint (b ! nat (1 + int i - 1))"] assms(2) by simp
    show ?thesis
      using False pos by (intro exI [of _ "max (ci_top s) (3 + length b)"])
        (simp add: full str_byte_def bnd_def seq_def check_first [OF assms(1)] i j posrelat_def Let_def int check push [simplified])
  qed
qed

lemma checkint_byte:
  assumes "stack s = byte_values b @ ys" "i < length b"
  shows "luaL_checkint H C (int i + 1) s = Val (uint (b ! i)) s"
proof -
  have "uint (b ! i) < 256" "0 \<le> uint (b ! i)" using uint_lt2p [of "b ! i"] by simp_all
  then have "\<bar>uint (b ! i)\<bar> \<le> 2 ^ 31" "uint (b ! i) < 2 ^ 31" by auto
  moreover have "- (2 ^ 31) \<le> uint (b ! i)" by (rule order_trans [of _ 0]) simp_all
  ultimately have "lua_number2integer (cast_num (uint (b ! i))) = uint (b ! i)" "to_int (uint (b ! i)) = uint (b ! i)"
    by (auto intro: number2integer_cast_num to_int_id)
  then show ?thesis
    using checkinteger_number [of i s H "cast_num (uint (b ! i))" C] assms
    by (simp add: luaL_checkint_def bnd_def byte_values_def nth_append luaV_tonumber_def)
qed

lemma char_loop_ok:
  assumes "buffer_ok (bufsiz H) (byte_values b) (take i b) B s" and "i + k = length b" "length b < MAX_SIZET"
  shows "\<exists>B' s'. char_loop H C (int i + 1) k B s = Val B' s' \<and> buffer_ok (bufsiz H) (byte_values b) b B' s' \<and> restack s s'"
  using assms
proof (induction k arbitrary: i B s)
  case (Suc k)
  have i: "i < length b" using Suc.prems(2) by simp
  obtain ys where "stack s = byte_values b @ ys" using Suc.prems(1) by (auto simp: buffer_ok_def holds_def)
  note arg = checkint_byte [OF this i]
  obtain B1 s1 where 1: "luaL_addchar H C (b ! i) B s = Val B1 s1"
    "buffer_ok (bufsiz H) (byte_values b) (take i b @ [b ! i]) B1 s1" "restack s s1"
    using addchar_ok [OF Suc.prems(1), of C "b ! i"] Suc.prems(3) i by auto
  then obtain B2 s2 where "char_loop H C (int i + 2) k B1 s1 = Val B2 s2"
    "buffer_ok (bufsiz H) (byte_values b) b B2 s2" "restack s1 s2"
    using Suc.IH [of "Suc i" B1 s1] Suc.prems(2,3) i by (auto simp: take_Suc_conv_app_nth add.commute)
  then show ?case using 1
    by (auto simp: bnd_def seq_def arg luaL_argcheck_def word_of_int_uint add.assoc intro: restack_trans)
qed auto

lemma str_char_run:
  assumes "stack s = byte_values b" and "0 < bufsiz H" "length b + LIMIT + 1 < ci_top s" "length b < MAX_SIZET"
  shows "str_char H C s = Val 1 (s\<lparr>stack := stack s @ [TString b]\<rparr>)"
proof -
  have len: "length (byte_values b) = length b" by (simp add: byte_values_def)
  have "buffer_ok (bufsiz H) (byte_values b) (take 0 b) luaL_buffinit s"
    using buffinit_ok [of H s] assms len by simp
  from char_loop_ok [OF this _ assms(4), of "length b" C] obtain B1 s1 where
    1: "char_loop H C 1 (length b) luaL_buffinit s = Val B1 s1" "buffer_ok (bufsiz H) (byte_values b) b B1 s1" "restack s s1"
    by auto
  from pushresult_ok [OF 1(2), of C] 1(1,3) assms(1) len show ?thesis
    by (auto simp: str_char_def bnd_def lua_gettop_def restack_def)
qed

text \<open>
  \<open>string.sub\<close> returns the characters whose positions lie between its two arguments,
  where a negative argument counts from the end; positions outside the string are ignored.
\<close>

theorem str_sub_characters:
  assumes "string_call H b s" and "3 \<le> length (stack s)" "stack s ! 1 = TNumber x" "stack s ! 2 = TNumber y"
  shows "str_sub H C s = Val 1 (s\<lparr>stack := stack s @ [TString (between_positions b
    (meant (lua_number2integer x) (length b)) (meant (lua_number2integer y) (length b)))]\<rparr>)"
  using assms by (rule str_sub_core)

lemma sample_call: "string_call sample_lib (lit ''hello'') (sample_frame (TString (lit ''hello'') # xs))"
  by (simp add: string_call_def sample_lib_def sample_frame_def MAX_SIZET_def LIMIT_val LUA_MINSTACK_def lit_def)

theorem str_sub_characters_witness:
  "str_sub sample_lib (\<lambda>_ _. undef) (sample_frame [TString (lit ''hello''), TNumber (cast_num (- 3)), TNumber (cast_num 9)])
   = Val 1 ((sample_frame [TString (lit ''hello''), TNumber (cast_num (- 3)), TNumber (cast_num 9)])
       \<lparr>stack := [TString (lit ''hello''), TNumber (cast_num (- 3)), TNumber (cast_num 9), TString (lit ''llo'')]\<rparr>)"
proof -
  have "between_positions (lit ''hello'') 3 9 = lit ''llo''"
    by (simp add: between_positions_def lit_def upt_rec)
  then show ?thesis
    using str_sub_characters [OF sample_call, of "[TNumber (cast_num (- 3)), TNumber (cast_num 9)]" "cast_num (- 3)" "cast_num 9" "\<lambda>_ _. undef"]
    by (simp add: sample_frame_def number2integer_cast_num meant_def lit_def)
qed

text \<open>
  \<open>string.char\<close> undoes \<open>string.byte\<close>: called with all the numbers that
  \<open>string.byte(s, 1, -1)\<close> returns, it gives \<open>s\<close> back.
\<close>

theorem str_byte_char:
  assumes "string_call H b s" and "stack s = [TString b, TNumber (cast_num 1), TNumber (cast_num (- 1))]" "length b \<le> 7000"
  shows "\<exists>s1 args. str_byte H C s = Val (int (length b)) s1 \<and> stack s1 = stack s @ args \<and> length args = length b \<and>
    (\<forall>s2. stack s2 = args \<and> length b + LIMIT + 1 < ci_top s2 \<longrightarrow>
       str_char H C s2 = Val 1 (s2\<lparr>stack := args @ [TString b]\<rparr>))"
proof -
  obtain m where m: "str_byte H C s = Val (int (length b)) (s\<lparr>ci_top := m, stack := stack s @ byte_values b\<rparr>)"
    using str_byte_all [OF assms, of C] by auto
  have "str_char H C s2 = Val 1 (s2\<lparr>stack := byte_values b @ [TString b]\<rparr>)"
    if "stack s2 = byte_values b" "length b + LIMIT + 1 < ci_top s2" for s2
    using str_char_run [OF that(1) _ that(2), of H C] that(1) assms(1) by (simp add: string_call_def)
  then show ?thesis
    using m by (intro exI [of _ "s\<lparr>ci_top := m, stack := stack s @ byte_values b\<rparr>"] exI [of _ "byte_values b"])
      (simp add: byte_values_def)
qed

theorem str_byte_char_witness:
  "\<exists>s1 args. str_byte sample_lib (\<lambda>_ _. undef) (sample_frame [TString (lit ''hello''), TNumber (cast_num 1), TNumber (cast_num (- 1))])
    = Val 5 s1 \<and> stack s1 = [TString (lit ''hello''), TNumber (cast_num 1), TNumber (cast_num (- 1))] @ args \<and>
    str_char sample_lib (\<lambda>_ _. undef) (sample_frame args) = Val 1 (sample_frame args \<lparr>stack := args @ [TString (lit ''hello'')]\<rparr>)"
  using str_byte_char [OF sample_call, of "[TNumber (cast_num 1), TNumber (cast_num (- 1))]" "\<lambda>_ _. undef"]
  by (auto simp: sample_frame_def lit_def LIMIT_val LUA_MINSTACK_def)

end
