(* ===== verification/Strmatch.thy ===== *)
theory Strmatch
  imports Strlib
begin

text \<open>
  The functions of \<open>lstrlib.c\<close> that use patterns: searching, iterating and replacing. They leave
  captures on the stack and take the errors of the matcher to the caller.
\<close>

section \<open>Plain search\<close>

text \<open>\<open>memchr\<close> from position \<open>s1\<close> on, at most \<open>n\<close> characters.\<close>

primrec memchr :: "bytes \<Rightarrow> nat \<Rightarrow> u8 \<Rightarrow> nat \<Rightarrow> nat option" where
  "memchr src s1 c 0 = None"
| "memchr src s1 c (Suc n) = (if src ! s1 = c then Some s1 else memchr src (s1 + 1) c n)"

lemma from_Suc: "(\<forall>j. s1 \<le> j \<and> j < m \<longrightarrow> P j) \<longleftrightarrow> (s1 < m \<longrightarrow> P s1) \<and> (\<forall>j. Suc s1 \<le> j \<and> j < m \<longrightarrow> P j)"
  by (metis Suc_leI Suc_leD le_neq_implies_less order_refl)

lemma memchr_Some: "memchr src s1 c n = Some i \<Longrightarrow> s1 \<le> i \<and> i < s1 + n \<and> src ! i = c \<and> (\<forall>j. s1 \<le> j \<and> j < i \<longrightarrow> src ! j \<noteq> c)"
proof (induction n arbitrary: s1)
  case (Suc n)
  show ?case
  proof (cases "src ! s1 = c")
    case False
    then show ?thesis using Suc.IH [of "Suc s1"] Suc.prems by (subst from_Suc) simp
  qed (use Suc.prems in auto)
qed simp

lemma memchr_None: "memchr src s1 c n = None \<longleftrightarrow> (\<forall>j. s1 \<le> j \<and> j < s1 + n \<longrightarrow> src ! j \<noteq> c)"
proof (induction n arbitrary: s1)
  case (Suc n)
  show ?case by (subst from_Suc) (simp add: Suc)
qed auto

text \<open>The loop of \<open>lmemfind\<close>: \<open>l1\<close> positions from \<open>s1\<close> on are left to try.\<close>

function find_loop :: "bytes \<Rightarrow> bytes \<Rightarrow> nat \<Rightarrow> nat \<Rightarrow> nat option" where
  "find_loop src s2 s1 l1 =
     (if l1 = 0 then None
      else (case memchr src s1 (hd s2) l1 of
          None \<Rightarrow> None
        | Some i \<Rightarrow> (let init = i + 1
            in if take (length s2 - 1) (drop init src) = tl s2 then Some (init - 1)
               else find_loop src s2 init (l1 - (init - s1)))))"
  by pat_completeness auto
termination
  by (relation "measure (\<lambda>(src, s2, s1, l1). l1)") (auto dest: memchr_Some)

declare find_loop.simps [simp del]

text \<open>The search in the part of \<open>src\<close> that begins at \<open>s1\<close> and has \<open>l1\<close> characters.\<close>

definition lmemfind :: "bytes \<Rightarrow> nat \<Rightarrow> nat \<Rightarrow> bytes \<Rightarrow> nat option" where
  "lmemfind src s1 l1 s2 =
     (if s2 = [] then Some s1
      else if l1 < length s2 then None
      else find_loop src s2 s1 (l1 - (length s2 - 1)))"

definition occurs_at :: "bytes \<Rightarrow> bytes \<Rightarrow> nat \<Rightarrow> bool" where
  "occurs_at src s2 i \<longleftrightarrow> i + length s2 \<le> length src \<and> take (length s2) (drop i src) = s2"

lemma occurs_at_Cons:
  "s2 = c # r \<Longrightarrow> i + length s2 \<le> length src \<Longrightarrow>
   occurs_at src s2 i \<longleftrightarrow> src ! i = c \<and> take (length s2 - 1) (drop (i + 1) src) = r"
  by (auto simp: occurs_at_def Cons_nth_drop_Suc [symmetric] simp del: drop_Suc)

lemma find_loop_first:
  assumes "s2 \<noteq> []" and "s1 + l1 + (length s2 - 1) \<le> length src"
  shows "(find_loop src s2 s1 l1 = Some i \<longrightarrow> s1 \<le> i \<and> i < s1 + l1 \<and> occurs_at src s2 i \<and> (\<forall>j. s1 \<le> j \<and> j < i \<longrightarrow> \<not> occurs_at src s2 j)) \<and>
    (find_loop src s2 s1 l1 = None \<longrightarrow> (\<forall>j. s1 \<le> j \<and> j < s1 + l1 \<longrightarrow> \<not> occurs_at src s2 j))"
  using assms(2)
proof (induction l1 arbitrary: s1 rule: less_induct)
  case (less l1)
  obtain c r where s2: "s2 = c # r" using assms(1) by (cases s2) auto
  have at: "occurs_at src s2 j \<longleftrightarrow> src ! j = c \<and> take (length s2 - 1) (drop (j + 1) src) = r" if "j < s1 + l1" for j
    using occurs_at_Cons [OF s2, of j src] that less.prems s2 by simp
  show ?case
  proof (cases "memchr src s1 c l1")
    case None
    then have "find_loop src s2 s1 l1 = None" using s2 by (subst find_loop.simps) simp
    then show ?thesis using None at by (auto simp: memchr_None)
  next
    case (Some k)
    note k = memchr_Some [OF Some]
    have before: "\<not> occurs_at src s2 j" if "s1 \<le> j" "j < k" for j using at [of j] that k by auto
    show ?thesis
    proof (cases "take (length s2 - 1) (drop (k + 1) src) = r")
      case True
      then have "find_loop src s2 s1 l1 = Some k" using Some s2 k by (subst find_loop.simps) (auto simp: Let_def)
      then show ?thesis using True k at [of k] before by auto
    next
      case False
      then have step: "find_loop src s2 s1 l1 = find_loop src s2 (k + 1) (l1 - (k + 1 - s1))"
        using Some s2 k by (subst find_loop.simps) (auto simp: Let_def)
      have not: "\<not> occurs_at src s2 k" using False at [of k] k by auto
      have less1: "l1 - (k + 1 - s1) < l1" "k + 1 + (l1 - (k + 1 - s1)) = s1 + l1" using k by auto
      note IH = less.IH [OF less1(1), of "k + 1", unfolded less1(2), OF less.prems, folded step]
      have "\<not> occurs_at src s2 j" if "s1 \<le> j" "j < k + 1" for j using before not that by (metis less_Suc_eq Suc_eq_plus1)
      then show ?thesis using IH k by (auto) (meson le_less_linear)+
    qed
  qed
qed

section \<open>Captures\<close>

text \<open>An error of the matcher is raised by \<open>luaL_error\<close>.\<close>

fun lift_match :: "('z lua_State_scheme, 'h) host_scheme \<Rightarrow> 'z lua_call \<Rightarrow> 'a outcome \<Rightarrow> ('z lua_State_scheme, 'a) prog" where
  "lift_match H C (Ok a) = ret a"
| "lift_match H C (RunError msg) = luaL_errormsg H C (lit msg)"
| "lift_match H C Stuck = undef"

definition slice :: "bytes \<Rightarrow> nat \<Rightarrow> nat \<Rightarrow> bytes" where
  "slice src s e = take (e - s) (drop s src)"

definition push_onecapture :: "('z lua_State_scheme, 'h) host_scheme \<Rightarrow> 'z lua_call \<Rightarrow> bytes \<Rightarrow> MatchState \<Rightarrow> nat \<Rightarrow> nat \<Rightarrow> nat
    \<Rightarrow> ('z lua_State_scheme, unit) prog" where
  "push_onecapture H C src ms i s e =
     (if level ms \<le> i then
        if i = 0 then lua_pushlstring (slice src s e)
        else luaL_errormsg H C (lit ''invalid capture index'')
      else (let (from, l) = capture ms ! i
        in seq (if l = CAP_UNFINISHED then luaL_errormsg H C (lit ''unfinished capture'') else ret ())
           (if l = CAP_POSITION then lua_pushinteger (int from + 1)
            else lua_pushlstring (slice src from (from + nat l)))))"

text \<open>The whole match is \<open>None\<close> where the code passes \<open>NULL\<close>.\<close>

definition push_captures :: "('z lua_State_scheme, 'h) lib_scheme \<Rightarrow> 'z lua_call \<Rightarrow> bytes \<Rightarrow> MatchState \<Rightarrow> (nat \<times> nat) option
    \<Rightarrow> ('z lua_State_scheme, int) prog" where
  "push_captures H C src ms whole =
     (let nlevels = (if level ms = 0 \<and> whole \<noteq> None then 1 else level ms); (s, e) = (case whole of Some w \<Rightarrow> w | None \<Rightarrow> (0, 0))
      in seq (luaL_checkstack H C (int nlevels) ''too many captures'')
         (seq (steps (map (\<lambda>i. push_onecapture H C src ms i s e) [0..<nlevels])) (ret (int nlevels))))"

section \<open>Searching\<close>

text \<open>The loop of \<open>str_find_aux\<close>; the pattern is read from position \<open>p\<close> on.\<close>

function match_loop :: "bytes \<Rightarrow> bytes \<Rightarrow> nat \<Rightarrow> bool \<Rightarrow> nat \<Rightarrow> MatchState \<Rightarrow> ((nat \<times> nat) option \<times> MatchState) outcome" where
  "match_loop src pat p anchor s1 ms =
     bind_outcome (do_match src pat s1 p (ms\<lparr>level := 0\<rparr>)) (\<lambda>(res, ms).
       case res of
         Some e \<Rightarrow> Ok (Some (s1, e), ms)
       | None \<Rightarrow> if s1 < length src \<and> \<not> anchor then match_loop src pat p anchor (s1 + 1) ms else Ok (None, ms))"
  by pat_completeness auto
termination by (relation "measure (\<lambda>(src, pat, p, anchor, s1, ms). length src - s1)") auto

declare match_loop.simps [simp del]

text \<open>A pattern that begins with \<open>^\<close> is anchored; the matcher gets what follows.\<close>

definition anchored :: "bytes \<Rightarrow> bool" where "anchored pat \<longleftrightarrow> char_at pat 0 = chr CHR ''^''"
definition pattern_start :: "bytes \<Rightarrow> nat" where "pattern_start pat = (if anchored pat then 1 else 0)"

definition SPECIALS :: "u8 list" where "SPECIALS = lit ''^$*+?.([%-''"

definition str_find_aux :: "('z lua_State_scheme, 'h) lib_scheme \<Rightarrow> 'z lua_call \<Rightarrow> bool \<Rightarrow> ('z lua_State_scheme, int) prog" where
  "str_find_aux H C finding =
     bnd (luaL_checklstring H C 1) (\<lambda>src.
     bnd (luaL_checklstring H C 2) (\<lambda>pat.
     bnd (luaL_optinteger H C 3 1) (\<lambda>i. let init = posrelat i (length src) - 1;
         init = (if init < 0 then 0 else if length src < nat init then length src else nat init)
       in bnd (if finding then bnd (lua_toboolean 4) (\<lambda>plain.
                  ret (plain \<or> (\<forall>c \<in> set (c_string pat). c \<notin> set SPECIALS))) else ret False) (\<lambda>plain.
         if plain then
           (case lmemfind src init (length src - init) pat of
              Some s2 \<Rightarrow> seq (steps [lua_pushinteger (int s2 + 1), lua_pushinteger (int s2 + int (length pat))]) (ret 2)
            | None \<Rightarrow> seq lua_pushnil (ret 1))
         else
           bnd (lift_match H C (match_loop src pat (pattern_start pat) (anchored pat) init new_ms)) (\<lambda>(res, ms).
              case res of
                Some (s1, e) \<Rightarrow>
                  if finding then
                    seq (steps [lua_pushinteger (int s1 + 1), lua_pushinteger (int e)])
                      (bnd (push_captures H C src ms None) (\<lambda>n. ret (n + 2)))
                  else push_captures H C src ms (Some (s1, e))
              | None \<Rightarrow> seq lua_pushnil (ret 1))))))"

definition str_find :: "('z lua_State_scheme, 'h) lib_scheme \<Rightarrow> 'z lua_call \<Rightarrow> ('z lua_State_scheme, int) prog" where
  "str_find H C = str_find_aux H C True"

definition str_match :: "('z lua_State_scheme, 'h) lib_scheme \<Rightarrow> 'z lua_call \<Rightarrow> ('z lua_State_scheme, int) prog" where
  "str_match H C = str_find_aux H C False"

section \<open>Iterating\<close>

function gmatch_loop :: "bytes \<Rightarrow> bytes \<Rightarrow> nat \<Rightarrow> MatchState \<Rightarrow> ((nat \<times> nat) option \<times> MatchState) outcome" where
  "gmatch_loop s p src ms =
     (if \<not> src \<le> length s then Ok (None, ms)
      else bind_outcome (do_match s p src 0 (ms\<lparr>level := 0\<rparr>)) (\<lambda>(res, ms).
        case res of Some e \<Rightarrow> Ok (Some (src, e), ms) | None \<Rightarrow> gmatch_loop s p (src + 1) ms))"
  by pat_completeness auto
termination by (relation "measure (\<lambda>(s, p, src, ms). Suc (length s) - src)") auto

declare gmatch_loop.simps [simp del]

definition gmatch_aux :: "('z lua_State_scheme, 'h) lib_scheme \<Rightarrow> 'z lua_call \<Rightarrow> ('z lua_State_scheme, int) prog" where
  "gmatch_aux H C =
     bnd (lua_tolstring H (lua_upvalueindex 1)) (\<lambda>s. bnd (lua_tolstring H (lua_upvalueindex 2)) (\<lambda>p.
     bnd (lua_tointeger H (lua_upvalueindex 3)) (\<lambda>start.
       case (s, p) of
         (Some s, Some p) \<Rightarrow>
           bnd (lift_match H C (gmatch_loop s p (unat (word_of_int start :: u64)) new_ms)) (\<lambda>(res, ms).
             case res of
               Some (src, e) \<Rightarrow>
                 seq (steps [lua_pushinteger (if e = src then int e + 1 else int e), lua_replace (lua_upvalueindex 3)])
                   (push_captures H C s ms (Some (src, e)))
             | None \<Rightarrow> ret 0)
       | _ \<Rightarrow> undef)))"

definition gmatch :: "('z lua_State_scheme, 'h) lib_scheme \<Rightarrow> 'z lua_call \<Rightarrow> ('z lua_State_scheme, int) prog" where
  "gmatch H C =
     bnd (luaL_checklstring H C 1) (\<lambda>_. bnd (luaL_checklstring H C 2) (\<lambda>_.
       seq (steps [lua_settop 2, lua_pushinteger 0, lua_pushcclosure (Lib_function ''gmatch_aux'') 3]) (ret 1)))"

definition gfind_nodef :: "('z lua_State_scheme, 'h) lib_scheme \<Rightarrow> 'z lua_call \<Rightarrow> ('z lua_State_scheme, int) prog" where
  "gfind_nodef H C = luaL_error H C (lit [CHR 0x27] @ lit ''string.gfind'' @ lit [CHR 0x27] @ lit '' was renamed to ''
     @ lit [CHR 0x27] @ lit ''string.gmatch'' @ lit [CHR 0x27])"

section \<open>Replacing\<close>

text \<open>The loop of \<open>add_s\<close>. After the last character of the replacement the code reads its final zero.\<close>

fun add_s_loop :: "('z lua_State_scheme, 'h) lib_scheme \<Rightarrow> 'z lua_call \<Rightarrow> bytes \<Rightarrow> MatchState \<Rightarrow> nat \<Rightarrow> nat \<Rightarrow> bytes
    \<Rightarrow> luaL_Buffer \<Rightarrow> ('z lua_State_scheme, luaL_Buffer) prog" where
  "add_s_loop H C src ms s e [] B = ret B"
| "add_s_loop H C src ms s e (c # news) B =
     (if c \<noteq> L_ESC then bnd (luaL_addchar H C c B) (add_s_loop H C src ms s e news)
      else case news of
          [] \<Rightarrow> luaL_addchar H C 0 B
        | d # news' \<Rightarrow>
            bnd (if \<not> isdigit d then luaL_addchar H C d B
                 else if d = chr CHR ''0'' then luaL_addlstring H C (slice src s e) B
                 else seq (push_onecapture H C src ms (unat (d - chr CHR ''1'')) s e) (luaL_addvalue H C B))
              (add_s_loop H C src ms s e news'))"

definition add_s :: "('z lua_State_scheme, 'h) lib_scheme \<Rightarrow> 'z lua_call \<Rightarrow> bytes \<Rightarrow> MatchState \<Rightarrow> nat \<Rightarrow> nat
    \<Rightarrow> luaL_Buffer \<Rightarrow> ('z lua_State_scheme, luaL_Buffer) prog" where
  "add_s H C src ms s e B = bnd (lua_tolstring H 3) (\<lambda>news.
     case news of Some news \<Rightarrow> add_s_loop H C src ms s e news B | None \<Rightarrow> undef)"

definition add_value :: "('z lua_State_scheme, 'h) lib_scheme \<Rightarrow> 'z lua_call \<Rightarrow> bytes \<Rightarrow> MatchState \<Rightarrow> nat \<Rightarrow> nat
    \<Rightarrow> luaL_Buffer \<Rightarrow> ('z lua_State_scheme, luaL_Buffer) prog" where
  "add_value H C src ms s e B =
     bnd (lua_type 3) (\<lambda>t.
       if t = LUA_TNUMBER \<or> t = LUA_TSTRING then add_s H C src ms s e B
       else
         seq (if t = LUA_TFUNCTION then
                seq (lua_pushvalue 3) (bnd (push_captures H C src ms (Some (s, e))) (\<lambda>n. lua_call C (nat n) 1))
              else if t = LUA_TTABLE then seq (push_onecapture H C src ms 0 s e) (lua_gettable C 3)
              else ret ())
         (bnd (lua_toboolean (- 1)) (\<lambda>ok.
            seq (if \<not> ok then steps [lua_pop 1, lua_pushlstring (slice src s e)]
                 else bnd (lua_isstring (- 1)) (\<lambda>str.
                   if \<not> str then bnd (lua_type (- 1)) (\<lambda>t.
                     luaL_errormsg H C (lit (''invalid replacement value (a '' @ lua_typename t @ '')'')))
                   else ret ()))
              (luaL_addvalue H C B))))"

text \<open>
  The loop of \<open>str_gsub\<close>; its result is the position it stopped at, the count and the buffer. Each
  round but the last moves forward, so \<open>length src + 2\<close> rounds are enough (\<open>gsub_loop_ok\<close>).
\<close>

primrec gsub_loop :: "nat \<Rightarrow> ('z lua_State_scheme, 'h) lib_scheme \<Rightarrow> 'z lua_call \<Rightarrow> bytes \<Rightarrow> bytes \<Rightarrow> nat \<Rightarrow> bool \<Rightarrow> int
    \<Rightarrow> nat \<Rightarrow> int \<Rightarrow> MatchState \<Rightarrow> luaL_Buffer \<Rightarrow> ('z lua_State_scheme, nat \<times> int \<times> luaL_Buffer) prog" where
  "gsub_loop 0 H C src pat p anchor max_s s n ms B = undef"
| "gsub_loop (Suc f) H C src pat p anchor max_s s n ms B =
     (if \<not> n < max_s then ret (s, n, B)
      else
        bnd (lift_match H C (do_match src pat s p (ms\<lparr>level := 0\<rparr>))) (\<lambda>(res, ms).
        bnd (case res of Some e \<Rightarrow> add_value H C src ms s e B | None \<Rightarrow> ret B) (\<lambda>B.
        let n = (if res = None then n else n + 1)
        in bnd (if (case res of Some e \<Rightarrow> s < e | None \<Rightarrow> False) then ret (res, B)
                else if s < length src then bnd (luaL_addchar H C (src ! s) B) (\<lambda>B. ret (Some (s + 1), B))
                else ret (None, B)) (\<lambda>(go_on, B).
             case go_on of
               None \<Rightarrow> ret (s, n, B)
             | Some s \<Rightarrow> if anchor then ret (s, n, B) else gsub_loop f H C src pat p anchor max_s s n ms B))))"

definition str_gsub :: "('z lua_State_scheme, 'h) lib_scheme \<Rightarrow> 'z lua_call \<Rightarrow> ('z lua_State_scheme, int) prog" where
  "str_gsub H C =
     bnd (luaL_checklstring H C 1) (\<lambda>src.
     bnd (luaL_checklstring H C 2) (\<lambda>pat.
     bnd (lua_type 3) (\<lambda>tr.
     bnd (luaL_optint H C 4 (int (length src) + 1)) (\<lambda>max_s.
       seq (luaL_argcheck H C (tr \<in> {LUA_TNUMBER, LUA_TSTRING, LUA_TFUNCTION, LUA_TTABLE}) 3 ''string/function/table expected'')
         (bnd (gsub_loop (length src + 2) H C src pat (pattern_start pat) (anchored pat) max_s 0 0 new_ms luaL_buffinit) (\<lambda>(s, n, B).
          bnd (luaL_addlstring H C (drop s src) B) (\<lambda>B.
          bnd (luaL_pushresult H C B) (\<lambda>_. seq (lua_pushinteger n) (ret 2)))))))))"

end
