(* ===== verification/Searching.thy ===== *)
theory Searching
  imports Strmatch
begin

text \<open>
  \<open>string.find\<close> finds the first match: the search loop, the captures it leaves on the stack and the
  call as a whole, with a pattern and with a plain string.
\<close>

section \<open>The first match\<close>

lemma level_reset: "ms_ok ms \<Longrightarrow> ms_ok (ms\<lparr>level := 0\<rparr>)" "caps_of (ms\<lparr>level := 0\<rparr>) = []"
  by (simp_all add: ms_ok_def caps_of_def)

lemma do_match_found:
  assumes "ms_ok ms" and "do_match src pat s p (ms\<lparr>level := 0\<rparr>) = Ok (Some e, ms')"
  shows "pm src pat p s [] e (caps_of ms') \<and> ms_ok ms'"
  using do_match_refined_core [where ms = "ms\<lparr>level := 0\<rparr>" and src = src and pat = pat and p = p and s = s] level_reset(1) [OF assms(1)] level_reset(2) [of ms] assms
  by (simp add: refines_def)

lemma do_match_none:
  assumes "ms_ok ms" and "do_match src pat s p (ms\<lparr>level := 0\<rparr>) = Ok (None, ms')"
  shows "\<not> pm src pat p s [] e c \<and> ms_ok ms'"
  using do_match_refined_core [where ms = "ms\<lparr>level := 0\<rparr>" and src = src and pat = pat and p = p and s = s] level_reset(1) [OF assms(1)] level_reset(2) [of ms] assms
  by (simp add: refines_def)

lemma do_match_defined: "ms_ok ms \<Longrightarrow> do_match src pat s p (ms\<lparr>level := 0\<rparr>) \<noteq> Stuck"
  using do_match_refined_core [where ms = "ms\<lparr>level := 0\<rparr>" and src = src and pat = pat and p = p and s = s]
  by (auto simp: refines_def level_reset)

text \<open>A match from \<open>i\<close> on, and no match from a position between \<open>s\<close> and \<open>i\<close>.\<close>

definition matches_from :: "bytes \<Rightarrow> bytes \<Rightarrow> nat \<Rightarrow> nat \<Rightarrow> bool" where
  "matches_from src pat p i \<longleftrightarrow> (\<exists>e c. pm src pat p i [] e c)"

definition first_match :: "bytes \<Rightarrow> bytes \<Rightarrow> nat \<Rightarrow> bool \<Rightarrow> nat \<Rightarrow> nat \<Rightarrow> bool" where
  "first_match src pat p anchor s i \<longleftrightarrow> s \<le> i \<and> i \<le> length src \<and> (anchor \<longrightarrow> i = s) \<and>
     (\<forall>j. s \<le> j \<and> j < i \<longrightarrow> \<not> matches_from src pat p j)"

lemma match_loop_first:
  assumes "ms_ok ms" and "s \<le> length src"
  shows "case match_loop src pat p anchor s ms of
      Ok (Some (i, e), ms') \<Rightarrow> first_match src pat p anchor s i \<and> pm src pat p i [] e (caps_of ms') \<and> ms_ok ms'
    | Ok (None, ms') \<Rightarrow> \<forall>i. first_match src pat p anchor s i \<longrightarrow> \<not> matches_from src pat p i
    | RunError _ \<Rightarrow> True
    | Stuck \<Rightarrow> False"
  using assms
proof (induction "length src - s" arbitrary: s ms rule: less_induct)
  case less
  note found = do_match_found [OF less.prems(1)] and none = do_match_none [OF less.prems(1)]
  show ?case
  proof (cases "do_match src pat s p (ms\<lparr>level := 0\<rparr>)")
    case (Ok r)
    show ?thesis
    proof (cases "fst r")
      case (Some e)
      then have "do_match src pat s p (ms\<lparr>level := 0\<rparr>) = Ok (Some e, snd r)" using Ok by (cases r) simp
      then show ?thesis using found less.prems(2)
        by (subst match_loop.simps) (auto simp: first_match_def)
    next
      case None
      then have r: "do_match src pat s p (ms\<lparr>level := 0\<rparr>) = Ok (None, snd r)" using Ok by (cases r) simp
      then have here: "\<not> matches_from src pat p s" "ms_ok (snd r)" using none by (auto simp: matches_from_def)
      show ?thesis
      proof (cases "s < length src \<and> \<not> anchor")
        case True
        then have step: "match_loop src pat p anchor s ms = match_loop src pat p anchor (s + 1) (snd r)"
          using r by (subst match_loop.simps) simp
        have less1: "length src - (s + 1) < length src - s" using True by linarith
        have move: "first_match src pat p False s i \<longleftrightarrow> i = s \<or> first_match src pat p False (Suc s) i" for i
          using True here(1) unfolding first_match_def by auto (metis Suc_leI le_neq_implies_less)+
        show ?thesis
          using less.hyps [OF less1 here(2)] True here(1) unfolding step
          by (auto simp: move split: outcome.splits option.splits)
      next
        case False
        then have "i = s" if "first_match src pat p anchor s i" for i
          using that by (auto simp: first_match_def)
        then show ?thesis using r here False by (subst match_loop.simps) auto
      qed
    qed
  next
    case Stuck
    then show ?thesis using do_match_defined [OF less.prems(1)] by simp
  qed (subst match_loop.simps, simp)
qed

section \<open>Leaving captures on the stack\<close>

lemma errormsg_raises: "\<exists>s'. luaL_errormsg H C msg s = Raise LUA_ERRRUN s'"
proof -
  let ?w = "where1 H s" and ?s = "s\<lparr>stack := stack s @ [TString (where1 H s), TString msg]\<rparr>"
  have lead: "luaL_errormsg H C msg s = seq (lua_concat H C 2) lua_error ?s"
    by (simp add: luaL_errormsg_def seq_def bnd_def luaL_where_def rawpush_def split: res.split)
  consider "msg = []" | "length ?w + length msg < MAX_SIZET" | "msg \<noteq> []" "\<not> length ?w + length msg < MAX_SIZET" by blast
  then show ?thesis
  proof cases
    case 1
    then have "lua_concat H C 2 ?s = Val () (?s\<lparr>stack := stack s @ [TString ?w]\<rparr>)"
      using concat_pass_empty [of ?s "stack s" "[]" ?w "[]" H C]
      by (simp add: lua_concat_def seq_def bnd_def luaV_concat_def numeral_2_eq_2 drop_top_def)
    then show ?thesis
      unfolding lead by (simp add: seq_def bnd_def lua_error_def top_value_top)
  next
    case 2
    then have "lua_concat H C 2 ?s = Val () (?s\<lparr>stack := stack s @ [TString (?w @ msg)]\<rparr>)"
      using lua_concat_run [of ?s "stack s" "[?w, msg]" H C] by (simp add: total_length_def numeral_2_eq_2)
    then show ?thesis
      unfolding lead by (simp add: seq_def bnd_def lua_error_def top_value_top)
  next
    case 3
    then have full: "MAX_SIZET - length msg \<le> length ?w" by simp
    have "stack ?s = stack s @ TString ?w # [TString msg]" "stack ?s = (stack s @ [TString ?w]) @ TString msg # []" by simp_all
    note slots = this [THEN slot_run(1)] this [THEN slot_run(2)] this [THEN slot_run(3)]
    have "lua_concat H C 2 ?s = Raise LUA_ERRRUN (?s\<lparr>stack := stack ?s @ [TString (lit ''string length overflow'')]\<rparr>)"
      using 3(1) full
      by (simp add: slots [simplified] lua_concat_def seq_def bnd_def luaV_concat_def numeral_2_eq_2 concat_pass_def ttype_def LUA_TSTRING_def
          luaG_runerror_def runerror_def rawpush_def)
    then show ?thesis unfolding lead by (simp add: seq_def bnd_def)
  qed
qed

lemma errormsg_wp:
  fixes Q :: "'a \<Rightarrow> 'z lua_State_scheme \<Rightarrow> bool"
  shows "wp (luaL_errormsg H C msg) Q (\<lambda>e _. e = LUA_ERRRUN) s"
proof -
  obtain s' where "luaL_errormsg H C msg s = (Raise LUA_ERRRUN s' :: ('z lua_State_scheme, 'a) res)"
    using errormsg_raises by blast
  then show ?thesis by (simp add: wp_def)
qed

text \<open>\<open>pushed n s s'\<close>: \<open>n\<close> values are new on the stack, and there may be more room.\<close>

definition pushed :: "nat \<Rightarrow> 'z lua_State_scheme \<Rightarrow> 'z lua_State_scheme \<Rightarrow> bool" where
  "pushed n s s' \<longleftrightarrow> (\<exists>vs m. length vs = n \<and> ci_top s \<le> m \<and> s' = s\<lparr>stack := stack s @ vs, ci_top := m\<rparr>)"

lemma pushed_0 [simp]: "pushed 0 s s"
  unfolding pushed_def by (intro exI [of _ "[]"] exI [of _ "ci_top s"]) simp

lemma pushed_trans: "pushed n s s' \<Longrightarrow> pushed k s' s'' \<Longrightarrow> pushed (n + k) s s''"
  unfolding pushed_def
  by (elim exE conjE, rule_tac x = "vs @ vsa" in exI, rule_tac x = ma in exI) simp

lemma pushed_more_room: "pushed n (s\<lparr>ci_top := m\<rparr>) s' \<Longrightarrow> ci_top s \<le> m \<Longrightarrow> pushed n s s'"
  unfolding pushed_def by (elim exE conjE, rule_tac x = vs in exI, rule_tac x = ma in exI) simp

lemma push_wp: "length (stack s) < ci_top s \<Longrightarrow> wp (luaA_pushobject v) (\<lambda>_ s'. s' = s\<lparr>stack := stack s @ [v]\<rparr>) E s"
  by (simp add: wp_def push_run)

lemma push_onecapture_wp:
  assumes "length (stack s) < ci_top s"
  shows "wp (push_onecapture H C src ms i a b) (\<lambda>_ s'. \<exists>v. s' = s\<lparr>stack := stack s @ [v]\<rparr>) (\<lambda>e _. e = LUA_ERRRUN) s"
proof -
  have "wp (luaA_pushobject v) (\<lambda>_ s'. \<exists>v. s' = s\<lparr>stack := stack s @ [v]\<rparr>) (\<lambda>e _. e = LUA_ERRRUN) s" for v
    using assms by (auto simp: wp_def push_run)
  then show ?thesis
    by (auto simp: push_onecapture_def Let_def wps lua_pushlstring_def lua_pushinteger_def errormsg_wp lit_def split: prod.splits)
qed

lemma push_captures_wp:
  assumes "ms_ok ms" and "int (length (stack s)) + 40 \<le> LUAI_MAXCSTACK"
  shows "wp (push_captures H C src ms whole)
    (\<lambda>n s'. n = int (if level ms = 0 \<and> whole \<noteq> None then 1 else level ms) \<and> pushed (nat n) s s') (\<lambda>e _. e = LUA_ERRRUN) s"
proof -
  define n where "n = (if level ms = 0 \<and> whole \<noteq> None then 1 else level ms)"
  obtain a b where ab: "(case whole of Some w \<Rightarrow> w | None \<Rightarrow> (0, 0)) = (a, b)" by fastforce
  have n: "n \<le> 32" using assms(1) by (simp add: n_def ms_ok_def LUA_MAXCAPTURES_def)
  have loop: "wp (steps (map (\<lambda>i. push_onecapture H C src ms i a b) xs)) (\<lambda>_ s'. pushed (length xs) s s') (\<lambda>e _. e = LUA_ERRRUN) s"
    if "length (stack s) + length xs \<le> ci_top s" for xs s
    using that
  proof (induction xs arbitrary: s)
    case (Cons i xs)
    have "wp (steps (map (\<lambda>i. push_onecapture H C src ms i a b) xs)) (\<lambda>_ s''. pushed (length (i # xs)) s s'') (\<lambda>e _. e = LUA_ERRRUN) s'"
      if "s' = s\<lparr>stack := stack s @ [v]\<rparr>" for s' v
    proof (rule wp_mono [OF Cons.IH])
      show "length (stack s') + length xs \<le> ci_top s'" using Cons.prems that by simp
      have "pushed 1 s s'" unfolding pushed_def that by (intro exI [of _ "[v]"] exI [of _ "ci_top s"]) simp
      then show "pushed (length (i # xs)) s s''" if "pushed (length xs) s' s''" for s'' :: "'a lua_State_scheme"
        using pushed_trans that by fastforce
    qed
    then show ?case using Cons.prems
      by (auto simp: wps intro!: wp_mono [OF push_onecapture_wp])
  qed (simp add: wps)
  let ?s = "s\<lparr>ci_top := if 0 < n then max (ci_top s) (length (stack s) + n) else ci_top s\<rparr>"
  have check: "luaL_checkstack H C (int n) ''too many captures'' s = Val () ?s"
    using n assms(2) by (simp add: luaL_checkstack_def lua_checkstack_def bnd_def LUAI_MAXCSTACK_def)
  have run: "wp (steps (map (\<lambda>i. push_onecapture H C src ms i a b) [0..<n])) (\<lambda>_ s'. pushed n s s') (\<lambda>e _. e = LUA_ERRRUN) ?s"
  proof (cases "n = 0")
    case False
    show ?thesis
    proof (rule wp_mono [OF loop])
      show "pushed n s s'" if "pushed (length [0..<n]) ?s s'" for s'
        by (rule pushed_more_room [where m = "ci_top ?s"]) (use that in auto)
    qed (use False in simp_all)
  qed (simp add: wps)
  have eq: "push_captures H C src ms whole =
      seq (luaL_checkstack H C (int n) ''too many captures'')
        (seq (steps (map (\<lambda>i. push_onecapture H C src ms i a b) [0..<n])) (ret (int n)))"
    unfolding push_captures_def ab n_def [symmetric] Let_def prod.case ..
  have "wp (seq (steps (map (\<lambda>i. push_onecapture H C src ms i a b) [0..<n])) (ret (int n)))
      (\<lambda>k s'. k = int n \<and> pushed (nat k) s s') (\<lambda>e _. e = LUA_ERRRUN) ?s"
    unfolding wp_seq by (rule wp_mono [OF run]) (simp_all add: wps)
  then show ?thesis
    unfolding n_def [symmetric] eq wp_seq [of "luaL_checkstack H C (int n) ''too many captures''"]
      wp_Val [where m = "luaL_checkstack H C (int n) ''too many captures''", OF check] .
qed

section \<open>\<open>string.find\<close>\<close>

lemma lmemfind_first:
  "(lmemfind src 0 (length src) s2 = Some i \<longrightarrow> occurs_at src s2 i \<and> (\<forall>j<i. \<not> occurs_at src s2 j)) \<and>
   (lmemfind src 0 (length src) s2 = None \<longrightarrow> (\<forall>j. \<not> occurs_at src s2 j))"
proof (cases "s2 = [] \<or> length src < length s2")
  case True
  then show ?thesis by (auto simp: lmemfind_def occurs_at_def)
next
  case False
  have "\<not> occurs_at src s2 j" if "\<not> j < length src - (length s2 - 1)" for j
    using that False by (auto simp: occurs_at_def Suc_diff_Suc not_less)
  then show ?thesis
    using find_loop_first [of s2 0 "length src - (length s2 - 1)" src i] False by (auto simp: lmemfind_def) blast
qed

text \<open>The frame of a call with two strings, and nothing else.\<close>

definition two_strings :: "bytes \<Rightarrow> bytes \<Rightarrow> 'z lua_State_scheme \<Rightarrow> bool" where
  "two_strings src pat s \<longleftrightarrow> stack s = [TString src, TString pat] \<and> LUA_MINSTACK \<le> ci_top s"

lemma two_strings_args:
  assumes "two_strings src pat s"
  shows "luaL_checklstring H C 1 s = Val src s" "luaL_checklstring H C 2 s = Val pat s"
    "luaL_optinteger H C 3 d s = Val d s" "lua_toboolean 4 s = Val False s"
  using checklstring_string [of 0 s src H C] checklstring_string [of 1 s pat H C] optinteger_none [of s 2 H C d]
    arg_none [of s 3] assms
  by (simp_all add: two_strings_def lua_toboolean_def index_value_def bnd_def l_isfalse_def)

lemma push_two:
  "two_strings src pat s \<Longrightarrow> steps [luaA_pushobject a, luaA_pushobject b] s = Val () (s\<lparr>stack := stack s @ [a, b]\<rparr>)"
  "two_strings src pat s \<Longrightarrow> luaA_pushobject a s = Val () (s\<lparr>stack := stack s @ [a]\<rparr>)"
  by (simp_all add: seq_def bnd_def push_run two_strings_def LUA_MINSTACK_def)

lemma str_find_plain_core:
  assumes "two_strings src pat s" and "\<forall>c \<in> set (c_string pat). c \<notin> set SPECIALS"
  shows "(\<exists>i. occurs_at src pat i \<and> (\<forall>j<i. \<not> occurs_at src pat j) \<and> str_find H C s = Val 2
        (s\<lparr>stack := stack s @ [TNumber (cast_num (int i + 1)), TNumber (cast_num (int i + int (length pat)))]\<rparr>)) \<or>
    (\<forall>i. \<not> occurs_at src pat i) \<and> str_find H C s = Val 1 (s\<lparr>stack := stack s @ [TNil]\<rparr>)"
proof -
  have run: "str_find H C s = (case lmemfind src 0 (length src) pat of
      Some s2 \<Rightarrow> seq (steps [lua_pushinteger (int s2 + 1), lua_pushinteger (int s2 + int (length pat))]) (ret 2)
    | None \<Rightarrow> seq lua_pushnil (ret 1)) s"
    using assms(2) by (simp add: str_find_def str_find_aux_def bnd_def two_strings_args [OF assms(1)] posrelat_def)
  show ?thesis
  proof (cases "lmemfind src 0 (length src) pat")
    case None
    then show ?thesis using run lmemfind_first [of src pat] push_two(2) [OF assms(1)]
      by (simp add: seq_def bnd_def lua_pushnil_def)
  next
    case (Some i)
    then show ?thesis using run lmemfind_first [of src pat i] push_two(1) [OF assms(1)]
      by (intro disjI1 exI [of _ i]) (simp add: seq_def bnd_def lua_pushinteger_def)
  qed
qed

definition no_match :: "bytes \<Rightarrow> bytes \<Rightarrow> nat \<Rightarrow> bool \<Rightarrow> bool" where
  "no_match src pat p anchor \<longleftrightarrow> (\<forall>i\<le>length src. (anchor \<longrightarrow> i = 0) \<longrightarrow> \<not> matches_from src pat p i)"

lemma no_first_match:
  assumes "\<forall>i. first_match src pat p anchor 0 i \<longrightarrow> \<not> matches_from src pat p i"
  shows "no_match src pat p anchor"
proof (rule ccontr)
  assume "\<not> no_match src pat p anchor"
  then obtain i where "i \<le> length src" "anchor \<longrightarrow> i = 0" "matches_from src pat p i" by (auto simp: no_match_def)
  then have "first_match src pat p anchor 0 (LEAST i. matches_from src pat p i)" "matches_from src pat p (LEAST i. matches_from src pat p i)"
    by (auto simp: first_match_def intro: LeastI Least_le order_trans dest: not_less_Least) 
  then show False using assms by blast
qed

definition found :: "('z lua_State_scheme, 'h) lib_scheme \<Rightarrow> 'z lua_call \<Rightarrow> bytes \<Rightarrow> (nat \<times> nat) option \<times> MatchState
    \<Rightarrow> ('z lua_State_scheme, int) prog" where
  "found H C src = (\<lambda>(res, ms). case res of
      Some (s1, e) \<Rightarrow> seq (steps [lua_pushinteger (int s1 + 1), lua_pushinteger (int e)])
         (bnd (push_captures H C src ms None) (\<lambda>n. ret (n + 2)))
    | None \<Rightarrow> seq lua_pushnil (ret 1))"

lemma str_find_run:
  assumes "two_strings src pat s" and "\<exists>c \<in> set (c_string pat). c \<in> set SPECIALS"
  shows "str_find H C s =
    bnd (lift_match H C (match_loop src pat (pattern_start pat) (anchored pat) 0 new_ms)) (found H C src) s"
  using assms(2) unfolding str_find_def str_find_aux_def found_def if_True
  by (auto simp: bnd_def two_strings_args [OF assms(1)] posrelat_def Let_def)

text \<open>What \<open>string.find\<close> with a pattern may return.\<close>

definition find_result :: "bytes \<Rightarrow> bytes \<Rightarrow> 'z lua_State_scheme \<Rightarrow> int \<Rightarrow> 'z lua_State_scheme \<Rightarrow> bool" where
  "find_result src pat s n s' \<longleftrightarrow>
      n = 1 \<and> stack s' = stack s @ [TNil] \<and> no_match src pat (pattern_start pat) (anchored pat) \<or>
      (\<exists>i e c vs. first_match src pat (pattern_start pat) (anchored pat) 0 i \<and> pm src pat (pattern_start pat) i [] e c \<and>
         length vs = length c \<and> n = 2 + int (length vs) \<and>
         stack s' = stack s @ [TNumber (cast_num (int i + 1)), TNumber (cast_num (int e))] @ vs)"

lemma found_wp:
  assumes "two_strings src pat s" and "ms_ok ms"
    and "first_match src pat (pattern_start pat) (anchored pat) 0 i" "pm src pat (pattern_start pat) i [] e (caps_of ms)"
  shows "wp (found H C src (Some (i, e), ms)) (find_result src pat s) (\<lambda>e _. e = LUA_ERRRUN) s"
proof -
  let ?two = "[TNumber (cast_num (int i + 1)), TNumber (cast_num (int e))]" and ?E = "\<lambda>e _. e = LUA_ERRRUN"
  let ?s = "s\<lparr>stack := stack s @ ?two\<rparr>"
  have push: "steps [lua_pushinteger (int i + 1), lua_pushinteger (int e)] s = Val () ?s"
    unfolding lua_pushinteger_def by (rule push_two(1) [OF assms(1)])
  have len: "length (caps_of ms) = level ms" using assms(2) by (simp add: caps_of_def ms_ok_def)
  have "wp (push_captures H C src ms None) (\<lambda>n s'. find_result src pat s (n + 2) s') ?E ?s"
  proof (rule wp_mono [OF push_captures_wp [OF assms(2)]])
    show "find_result src pat s (n + 2) s'"
      if "n = int (if level ms = 0 \<and> (None :: (nat \<times> nat) option) \<noteq> None then 1 else level ms) \<and> pushed (nat n) ?s s'" for n s'
      using that assms(3,4) len unfolding find_result_def pushed_def by fastforce
  qed (use assms(1) in \<open>simp_all add: two_strings_def LUAI_MAXCSTACK_def\<close>)
  then have "wp (bnd (push_captures H C src ms None) (\<lambda>n. ret (n + 2))) (find_result src pat s) ?E ?s"
    by (simp add: wp_bnd wp_ret)
  then show ?thesis
    using wp_Val [where m = "steps [lua_pushinteger (int i + 1), lua_pushinteger (int e)]", OF push]
    by (simp add: found_def wp_seq)
qed

lemma str_find_first_core:
  assumes "two_strings src pat s" and "\<exists>c \<in> set (c_string pat). c \<in> set SPECIALS"
  shows "wp (str_find H C) (find_result src pat s) (\<lambda>e _. e = LUA_ERRRUN) s"
proof -
  note run = str_find_run [OF assms, of H C]
  have ms: "ms_ok new_ms" by (simp add: new_ms_def ms_ok_def)
  note first = match_loop_first [OF ms, of 0 src pat "pattern_start pat" "anchored pat", simplified]
  show ?thesis
  proof (cases "match_loop src pat (pattern_start pat) (anchored pat) 0 new_ms")
    case (Ok r)
    obtain res ms where r: "r = (res, ms)" by (cases r)
    have "wp (found H C src (res, ms)) (find_result src pat s) (\<lambda>e _. e = LUA_ERRRUN) s"
    proof (cases res)
      case None
      then have "no_match src pat (pattern_start pat) (anchored pat)" using first Ok r by (intro no_first_match) auto
      then show ?thesis using None push_two(2) [OF assms(1), of TNil]
        by (simp add: found_def wp_def seq_def bnd_def lua_pushnil_def find_result_def)
    next
      case (Some ie)
      then show ?thesis using found_wp [OF assms(1)] first Ok r by (cases ie) auto
    qed
    then show ?thesis using run Ok r by (simp add: wp_def bnd_def)
  next
    case (RunError msg)
    have "wp (luaL_errormsg H C (lit msg)) (\<lambda>x. wp (found H C src x) (find_result src pat s) (\<lambda>e _. e = LUA_ERRRUN)) (\<lambda>e _. e = LUA_ERRRUN) s"
      by (rule errormsg_wp)
    then show ?thesis using RunError by (simp add: wp_def [of "str_find H C"] run wp_bnd [symmetric] wp_def [symmetric])
  next
    case Stuck
    then show ?thesis using first by simp
  qed
qed


lemma sample_two: "two_strings (lit ''xaab'') (lit ''a+'') (sample_frame [TString (lit ''xaab''), TString (lit ''a+'')])"
  by (simp add: two_strings_def sample_frame_def LUA_MINSTACK_def)


text \<open>
  \<open>string.find\<close> with a string that has no special character returns the bounds of its
  first occurrence, or \<open>nil\<close> when it does not occur.
\<close>

theorem str_find_plain:
  assumes "two_strings src pat s" and "\<forall>c \<in> set (c_string pat). c \<notin> set SPECIALS"
  shows "(\<exists>i. occurs_at src pat i \<and> (\<forall>j<i. \<not> occurs_at src pat j) \<and> str_find H C s = Val 2
        (s\<lparr>stack := stack s @ [TNumber (cast_num (int i + 1)), TNumber (cast_num (int i + int (length pat)))]\<rparr>)) \<or>
    (\<forall>i. \<not> occurs_at src pat i) \<and> str_find H C s = Val 1 (s\<lparr>stack := stack s @ [TNil]\<rparr>)"
  by (rule str_find_plain_core [OF assms])

lemma sample_plain: "two_strings (lit ''xaab'') (lit ''ab'') (sample_frame [TString (lit ''xaab''), TString (lit ''ab'')])"
  by (simp add: two_strings_def sample_frame_def LUA_MINSTACK_def)

theorem str_find_plain_witness:
  "\<exists>n s'. str_find sample_lib (\<lambda>_ _. undef) (sample_frame [TString (lit ''xaab''), TString (lit ''ab'')]) = Val n s'"
  using str_find_plain [OF sample_plain, of sample_lib "\<lambda>_ _. undef"] by (auto simp: c_string_def SPECIALS_def lit_def)

end
