(* ===== verification/Replacing.thy ===== *)
theory Replacing
  imports Searching
begin

text \<open>
  \<open>string.gsub\<close>: the loop over the subject ends, and what it does not replace it copies. Replacing
  every match by itself gives the subject back.
\<close>

section \<open>\<open>string.gsub\<close> with the whole match as replacement\<close>

definition whole_match :: bytes where "whole_match = lit ''%0''"

lemma arg3:
  assumes "buffer_ok Z base b B st" "3 \<le> length base" "base ! 2 = TString r"
  shows "lua_type 3 st = Val LUA_TSTRING st" "lua_tolstring H 3 st = Val (Some r) st"
proof -
  obtain ps where "stack st = base @ strings ps" using assms(1) by (auto simp: buffer_ok_def holds_def)
  then have "index2adr 3 st = Val (Stk 2) st" "stack st ! 2 = TString r"
    using assms(2,3) by (simp_all add: index2adr_def nth_append)
  then show "lua_type 3 st = Val LUA_TSTRING st" "lua_tolstring H 3 st = Val (Some r) st"
    by (simp_all add: lua_type_def lua_tolstring_def bnd_def ttype_def LUA_TSTRING_def)
qed

lemma add_value_whole:
  assumes "buffer_ok (bufsiz H) base b B st" "3 \<le> length base" "base ! 2 = TString whole_match"
    and "length (b @ slice src s e) < MAX_SIZET"
  shows "\<exists>B' st'. add_value H C src ms s e B st = Val B' st' \<and> buffer_ok (bufsiz H) base (b @ slice src s e) B' st' \<and> restack st st'"
proof -
  have "add_value H C src ms s e B st = luaL_addlstring H C (slice src s e) B st"
    by (simp add: add_value_def add_s_def bnd_def arg3 [OF assms(1-3)] whole_match_def lit_def L_ESC_def isdigit_def between_def
        split: res.split)
  then show ?thesis using addlstring_ok [OF assms(1)] assms(4) by simp
qed

definition gsub_done :: "nat \<Rightarrow> TValue list \<Rightarrow> bytes \<Rightarrow> 'z lua_State_scheme \<Rightarrow> nat \<times> int \<times> luaL_Buffer \<Rightarrow> 'z lua_State_scheme \<Rightarrow> bool" where
  "gsub_done Z base src st = (\<lambda>(s, n, B) st'. s \<le> length src \<and> buffer_ok Z base (take s src) B st' \<and> restack st st' \<and>
     0 \<le> n \<and> n \<le> int (length src) + 1)"

lemma gsub_done_restack: "restack st st' \<Longrightarrow> gsub_done Z base src st' r st'' \<Longrightarrow> gsub_done Z base src st r st''"
  by (auto simp: gsub_done_def intro: restack_trans)

lemma take_slice: "s \<le> e \<Longrightarrow> take s src @ slice src s e = take e src"
  by (metis slice_def le_add_diff_inverse take_add)

lemma gsub_loop_ok:
  assumes "buffer_ok (bufsiz H) base (take s src) B st" "3 \<le> length base" "base ! 2 = TString whole_match"
    and "ms_ok ms" "s \<le> length src" "0 \<le> n" "n \<le> int s" "length src - s + 1 \<le> f" "length src + 1 < MAX_SIZET"
  shows "wp (gsub_loop f H C src pat p anchor max_s s n ms B) (gsub_done (bufsiz H) base src st) (\<lambda>e _. e = LUA_ERRRUN) st"
  using assms(1,4-8)
proof (induction f arbitrary: s n ms B st)
  case (Suc f)
  let ?Q = "gsub_done (bufsiz H) base src st" and ?E = "\<lambda>e _. e = LUA_ERRRUN"
  text \<open>The rest of a round, once the match is added.\<close>
  define rest where "rest = (\<lambda>res ms n B. bnd (if (case res of Some e \<Rightarrow> s < e | None \<Rightarrow> False) then ret (res, B)
                else if s < length src then bnd (luaL_addchar H C (src ! s) B) (\<lambda>B. ret (Some (s + 1), B))
                else ret (None, B)) (\<lambda>(go_on, B).
             case go_on of
               None \<Rightarrow> ret (s, n, B)
             | Some s \<Rightarrow> if anchor then ret (s, n, B) else gsub_loop f H C src pat p anchor max_s s n ms B))"
  have go: "wp (if anchor then ret (s', n', B') else gsub_loop f H C src pat p anchor max_s s' n' ms' B') ?Q ?E st'"
    if "buffer_ok (bufsiz H) base (take s' src) B' st'" "ms_ok ms'" "s < s'" "s' \<le> length src" "0 \<le> n'" "n' \<le> int s'" "restack st st'"
    for s' n' B' ms' st'
  proof (cases anchor)
    case True
    then show ?thesis using that by (simp add: wps gsub_done_def)
  next
    case False
    have "wp (gsub_loop f H C src pat p anchor max_s s' n' ms' B') (gsub_done (bufsiz H) base src st') ?E st'"
      using Suc.IH [OF that(1,2,4,5,6)] Suc.prems(3,6) that(3,4) by simp
    then show ?thesis using False gsub_done_restack [OF that(7)] by (auto intro: wp_mono)
  qed
  have stay: "wp (rest res ms' n' B') ?Q ?E st'"
    if "buffer_ok (bufsiz H) base (take s src) B' st'" "ms_ok ms'" "\<not> (case res of Some e \<Rightarrow> s < e | None \<Rightarrow> False)" "0 \<le> n'" "n' \<le> int s + 1"
      "restack st st'" for res ms' n' B' st'
  proof -
    note here = that
    show ?thesis
  proof (cases "s < length src")
    case True
    obtain B2 st2 where 2: "luaL_addchar H C (src ! s) B' st' = Val B2 st2"
      "buffer_ok (bufsiz H) base (take s src @ [src ! s]) B2 st2" "restack st' st2"
      using addchar_ok [OF here(1), of C "src ! s"] assms(9) True by auto
    have "buffer_ok (bufsiz H) base (take (s + 1) src) B2 st2" using 2(2) True by (simp add: take_Suc_conv_app_nth)
    from go [OF this here(2) _ _ here(4) _ restack_trans [OF here(6) 2(3)]] show ?thesis
      unfolding rest_def if_not_P [OF here(3)] if_P [OF True] using True here(5) 2(1)
      by (cases anchor) (simp_all add: wp_def bnd_def)
  next
    case False
    then show ?thesis
      unfolding rest_def if_not_P [OF here(3)] if_not_P [OF False] using here Suc.prems(3)
      by (simp add: wps gsub_done_def)
  qed
  qed
  have step: "gsub_loop (Suc f) H C src pat p anchor max_s s n ms B =
     (if \<not> n < max_s then ret (s, n, B)
      else bnd (lift_match H C (do_match src pat s p (ms\<lparr>level := 0\<rparr>))) (\<lambda>(res, ms).
        bnd (case res of Some e \<Rightarrow> add_value H C src ms s e B | None \<Rightarrow> ret B) (\<lambda>B.
          rest res ms (if res = None then n else n + 1) B)))"
    by (simp add: rest_def Let_def)
  show ?case
  proof (cases "n < max_s")
    case False
    have "wp (ret (s, n, B)) ?Q ?E st" unfolding wp_ret using Suc.prems by (simp add: gsub_done_def)
    then show ?thesis unfolding step using False by (simp only: not_False_eq_True if_True)
  next
    case True
    show ?thesis
    proof (cases "do_match src pat s p (ms\<lparr>level := 0\<rparr>)")
      case (Ok r)
      obtain res ms1 where r: "r = (res, ms1)" by (cases r)
      show ?thesis
      proof (cases res)
        case None
        then have "ms_ok ms1" using do_match_none [OF Suc.prems(2)] Ok r by blast
        then show ?thesis unfolding step using True Ok r None stay [OF Suc.prems(1), of ms1 None n] Suc.prems(4,5)
          by (simp add: wps wp_ret)
      next
        case (Some e)
        then have found: "pm src pat p s [] e (caps_of ms1)" "ms_ok ms1"
          using do_match_found [OF Suc.prems(2)] Ok r by blast+
        have e: "s \<le> e" "e \<le> length src" using pm_inside [OF found(1) Suc.prems(3)] by (simp_all add: caps_inside_def)
        obtain B1 st1 where 1: "add_value H C src ms1 s e B st = Val B1 st1"
          "buffer_ok (bufsiz H) base (take e src) B1 st1" "restack st st1"
          using add_value_whole [OF Suc.prems(1) assms(2,3), of src s e C ms1] assms(9) e take_slice [OF e(1), of src] by auto
        have "wp (rest (Some e) ms1 (n + 1) B1) ?Q ?E st1"
        proof (cases "s < e")
          case True
          then have "n + 1 \<le> int e" using Suc.prems(5) by simp
          with go [OF 1(2) found(2) True e(2) _ _ 1(3)] Suc.prems(4) True show ?thesis
            unfolding rest_def by (cases anchor) (simp_all add: wps)
        next
          case False
          then show ?thesis using stay [OF _ found(2) _ _ _ 1(3), of B1 "Some e" "n + 1"] 1(2) e(1) Suc.prems(4,5) by simp
        qed
        then show ?thesis unfolding step using True Ok r Some 1(1) by (simp add: wp_def bnd_def)
      qed
    next
      case (RunError msg)
      then show ?thesis unfolding step using True by (simp add: wp_bnd errormsg_wp)
    next
      case Stuck
      then show ?thesis using do_match_defined [OF Suc.prems(2)] by simp
    qed
  qed
qed simp

lemma str_gsub_whole_core:
  assumes "stack st = [TString src, TString pat, TString whole_match]" "0 < bufsiz H" "LUA_MINSTACK \<le> ci_top st"
    and "length src + 1 < 2 ^ 31"
  shows "wp (str_gsub H C) (\<lambda>r st'. r = 2 \<and> (\<exists>k. 0 \<le> k \<and> k \<le> int (length src) + 1 \<and>
      st' = st\<lparr>stack := stack st @ [TString src, TNumber (cast_num k)]\<rparr>)) (\<lambda>e _. e = LUA_ERRRUN) st"
proof -
  let ?max = "int (length src) + 1"
  have args: "luaL_checklstring H C 1 st = Val src st" "luaL_checklstring H C 2 st = Val pat st"
    using checklstring_string [of 0 st src H C] checklstring_string [of 1 st pat H C] assms(1) by simp_all
  have type3: "lua_type 3 st = Val LUA_TSTRING st"
    using assms(1) by (simp add: lua_type_def bnd_def index2adr_def ttype_def LUA_TSTRING_def)
  have max: "luaL_optint H C 4 ?max st = Val ?max st"
    using optinteger_none [of st 3 H C ?max] assms(1,4) by (simp add: luaL_optint_def bnd_def to_int_id)
  have run: "str_gsub H C st =
      bnd (gsub_loop (length src + 2) H C src pat (pattern_start pat) (anchored pat) ?max 0 0 new_ms luaL_buffinit) (\<lambda>(s, n, B).
          bnd (luaL_addlstring H C (drop s src) B) (\<lambda>B.
          bnd (luaL_pushresult H C B) (\<lambda>_. seq (lua_pushinteger n) (ret 2)))) st"
    by (simp add: str_gsub_def bnd_def args type3 max luaL_argcheck_def seq_def)
  have "buffer_ok (bufsiz H) (stack st) [] luaL_buffinit st"
    using assms(1-3) by (intro buffinit_ok) (simp_all add: LIMIT_val LUA_MINSTACK_def)
  then have loop: "wp (gsub_loop (length src + 2) H C src pat (pattern_start pat) (anchored pat) ?max 0 0 new_ms luaL_buffinit)
      (gsub_done (bufsiz H) (stack st) src st) (\<lambda>e _. e = LUA_ERRRUN) st"
    using assms(1,4) by (intro gsub_loop_ok) (simp_all add: new_ms_def ms_ok_def MAX_SIZET_def)
  show ?thesis
    unfolding wp_def [of "str_gsub H C"] run unfolding wp_def [symmetric] wp_bnd
  proof (rule wp_mono [OF loop], clarify)
    fix s n B st' assume "gsub_done (bufsiz H) (stack st) src st (s, n, B) st'"
    then have d: "buffer_ok (bufsiz H) (stack st) (take s src) B st'" "restack st st'" "0 \<le> n" "n \<le> ?max" "s \<le> length src"
      by (simp_all add: gsub_done_def)
    obtain B1 st1 where 1: "luaL_addlstring H C (drop s src) B st' = Val B1 st1"
      "buffer_ok (bufsiz H) (stack st) src B1 st1" "restack st' st1"
      using addlstring_ok [OF d(1), of "drop s src" C] d(5) assms(4) by (auto simp: MAX_SIZET_def)
    obtain B2 where 2: "luaL_pushresult H C B1 st1 = Val B2 (st1\<lparr>stack := stack st @ [TString src]\<rparr>)"
      using pushresult_ok [OF 1(2), of C] by auto
    let ?st = "st\<lparr>stack := stack st @ [TString src]\<rparr>"
    have "st1\<lparr>stack := stack st @ [TString src]\<rparr> = ?st"
      using restack_trans [OF d(2) 1(3)] by (auto simp: restack_def)
    moreover have "lua_pushinteger n ?st = Val () (st\<lparr>stack := stack st @ [TString src, TNumber (cast_num n)]\<rparr>)"
      using assms(1,3) by (simp add: lua_pushinteger_def push_run LUA_MINSTACK_def)
    ultimately show "wp (bnd (luaL_addlstring H C (drop s src) B) (\<lambda>B.
          bnd (luaL_pushresult H C B) (\<lambda>_. seq (lua_pushinteger n) (ret 2))))
        (\<lambda>r st'. r = 2 \<and> (\<exists>k. 0 \<le> k \<and> k \<le> ?max \<and>
          st' = st\<lparr>stack := stack st @ [TString src, TNumber (cast_num k)]\<rparr>)) (\<lambda>e _. e = LUA_ERRRUN) st'"
      using 1(1) 2 d(3,4) by (auto simp: wp_def bnd_def seq_def)
  qed
qed

text \<open>
  Property C5. \<open>string.gsub(s, p, "%0")\<close> returns \<open>s\<close> and a count of at most one more than its length,
  or raises an error, whatever the pattern: it always ends, copies what it does not replace and
  puts every match where it was.
\<close>

theorem str_gsub_whole:
  assumes "stack st = [TString src, TString pat, TString whole_match]" "0 < bufsiz H" "LUA_MINSTACK \<le> ci_top st"
    and "length src + 1 < 2 ^ 31"
  shows "wp (str_gsub H C) (\<lambda>r st'. r = 2 \<and> (\<exists>k. 0 \<le> k \<and> k \<le> int (length src) + 1 \<and>
      st' = st\<lparr>stack := stack st @ [TString src, TNumber (cast_num k)]\<rparr>)) (\<lambda>e _. e = LUA_ERRRUN) st"
  by (rule str_gsub_whole_core [OF assms])

theorem str_gsub_whole_witness:
  "wp (str_gsub sample_lib (\<lambda>_ _. undef)) (\<lambda>r st'. r = 2 \<and> (\<exists>k. 0 \<le> k \<and> k \<le> 6 \<and>
      st' = sample_frame [TString (lit ''hello''), TString (lit ''l*''), TString whole_match]
        \<lparr>stack := [TString (lit ''hello''), TString (lit ''l*''), TString whole_match, TString (lit ''hello''), TNumber (cast_num k)]\<rparr>))
     (\<lambda>e _. e = LUA_ERRRUN) (sample_frame [TString (lit ''hello''), TString (lit ''l*''), TString whole_match])"
  using str_gsub_whole [of "sample_frame [TString (lit ''hello''), TString (lit ''l*''), TString whole_match]"
      "lit ''hello''" "lit ''l*''" sample_lib "\<lambda>_ _. undef"]
  by (simp add: sample_frame_def sample_lib_def LUA_MINSTACK_def lit_def)

end
