(* ===== verification/Format.thy ===== *)
theory Format
  imports Strlib
begin

text \<open>
  \<open>string.format\<close> of \<open>lstrlib.c\<close>. What \<open>sprintf\<close> writes for one item is a parameter; quoting an
  argument (\<open>%q\<close>) is done by the library itself.
\<close>

section \<open>One item\<close>

text \<open>The argument of \<open>sprintf\<close>, after the cast of the code: \<open>int\<close>, \<open>long\<close>, \<open>unsigned long\<close>, \<open>double\<close>, \<open>char *\<close>.\<close>

datatype item = As_int lua_Number | As_long lua_Number | As_unsigned lua_Number | As_double lua_Number | As_string bytes

record 's fmtlib = "'s lib" +
  sprintf :: "bytes \<Rightarrow> item \<Rightarrow> bytes"

definition MAX_ITEM :: nat where "MAX_ITEM = 512"
definition FLAGS :: bytes where "FLAGS = lit ''-+ #0''"
definition LUA_INTFRMLEN :: bytes where "LUA_INTFRMLEN = lit ''l''"
definition MAX_FORMAT :: nat where "MAX_FORMAT = (length FLAGS + 1) + (length LUA_INTFRMLEN + 1) + 10"

definition escaped :: "u8 \<Rightarrow> bytes" where
  "escaped c =
     (if c = chr CHR 0x22 \<or> c = chr CHR 0x5C \<or> c = 0x0A then [chr CHR 0x5C, c]
      else if c = 0x0D then [chr CHR 0x5C, chr CHR ''r'']
      else if c = 0 then [chr CHR 0x5C, chr CHR ''0'', chr CHR ''0'', chr CHR ''0'']
      else [c])"

primrec quote_loop :: "('z lua_State_scheme, 'h) lib_scheme \<Rightarrow> 'z lua_call \<Rightarrow> bytes \<Rightarrow> luaL_Buffer
    \<Rightarrow> ('z lua_State_scheme, luaL_Buffer) prog" where
  "quote_loop H C [] B = ret B"
| "quote_loop H C (c # s) B = bnd (luaL_addlstring H C (escaped c) B) (quote_loop H C s)"

definition addquoted :: "('z lua_State_scheme, 'h) lib_scheme \<Rightarrow> 'z lua_call \<Rightarrow> luaL_Buffer \<Rightarrow> int
    \<Rightarrow> ('z lua_State_scheme, luaL_Buffer) prog" where
  "addquoted H C B arg =
     bnd (luaL_checklstring H C arg) (\<lambda>s.
     bnd (luaL_addchar H C (chr CHR 0x22) B) (\<lambda>B.
     bnd (quote_loop H C s B) (luaL_addchar H C (chr CHR 0x22))))"

text \<open>The position after at most \<open>k\<close> digits; the position after the flags.\<close>

definition skip_digit :: "bytes \<Rightarrow> nat \<Rightarrow> nat" where
  "skip_digit s p = (if isdigit (char_at s p) then p + 1 else p)"

definition skip_flags :: "bytes \<Rightarrow> nat \<Rightarrow> nat" where
  "skip_flags s p = p + length (takeWhile (\<lambda>c. c \<noteq> 0 \<and> c \<in> set FLAGS) (drop p s))"

definition scanformat :: "bytes \<Rightarrow> nat \<Rightarrow> string + bytes \<times> nat" where
  "scanformat s start =
     (let p = skip_flags s start
      in if length FLAGS + 1 \<le> p - start then Inl ''invalid format (repeated flags)''
         else (let p = skip_digit s (skip_digit s p);
                   p = (if char_at s p = chr CHR ''.'' then skip_digit s (skip_digit s (p + 1)) else p)
               in if isdigit (char_at s p) then Inl ''invalid format (width or precision too long)''
                  else Inr (chr CHR ''%'' # map (char_at s) [start..<p + 1], p)))"

definition addintlen :: "bytes \<Rightarrow> bytes" where
  "addintlen form = butlast form @ LUA_INTFRMLEN @ [List.last form]"

text \<open>Writing outside \<open>form\<close> or \<open>buff\<close> is \<open>Undef\<close>; the zero byte at the end takes one place.\<close>

definition sprint_item :: "('z lua_State_scheme, 'h) fmtlib_scheme \<Rightarrow> 'z lua_call \<Rightarrow> bytes \<Rightarrow> item \<Rightarrow> luaL_Buffer
    \<Rightarrow> ('z lua_State_scheme, luaL_Buffer) prog" where
  "sprint_item H C form x B =
     (let buff = sprintf H form x
      in if length form < MAX_FORMAT \<and> length buff < MAX_ITEM then luaL_addlstring H C (c_string buff) B else undef)"

definition format_item :: "('z lua_State_scheme, 'h) fmtlib_scheme \<Rightarrow> 'z lua_call \<Rightarrow> int \<Rightarrow> bytes \<Rightarrow> u8 \<Rightarrow> luaL_Buffer
    \<Rightarrow> ('z lua_State_scheme, luaL_Buffer) prog" where
  "format_item H C arg form c B =
     (let number = (\<lambda>form as. bnd (luaL_checknumber H C arg) (\<lambda>n. sprint_item H C form (as n) B)); spec = (\<lambda>cs. c \<in> set (lit cs))
      in if spec ''c'' then number form As_int
         else if spec ''di'' then number (addintlen form) As_long
         else if spec ''ouxX'' then number (addintlen form) As_unsigned
         else if spec ''eEfgG'' then number form As_double
         else if spec ''q'' then addquoted H C B arg
         else if spec ''s'' then
           bnd (luaL_checklstring H C arg) (\<lambda>s.
             if chr CHR ''.'' \<notin> set form \<and> 100 \<le> length s then seq (lua_pushvalue arg) (luaL_addvalue H C B)
             else sprint_item H C form (As_string (c_string s)) B)
         else luaL_errormsg H C (lit ''invalid option '' @ quoted (chr CHR ''%'' # c_string [c]) @ lit '' to '' @ quoted (lit ''format'')))"

section \<open>The format\<close>

lemma skip_digit_bounds: "p \<le> skip_digit s p" "skip_digit s p \<le> p + 1"
  by (simp_all add: skip_digit_def)

text \<open>A format item always has room in \<open>form\<close>, with the length modifier and the zero byte.\<close>

lemma scanformat_fits: "scanformat s start = Inr (form, p) \<Longrightarrow> length form + length LUA_INTFRMLEN < MAX_FORMAT"
  using skip_digit_bounds [where s = s and p = "skip_flags s start"] skip_digit_bounds [where s = s and p = "skip_digit s (skip_flags s start)"]
    skip_digit_bounds [where s = s and p = "Suc (skip_digit s (skip_digit s (skip_flags s start)))"]
    skip_digit_bounds [where s = s and p = "skip_digit s (Suc (skip_digit s (skip_digit s (skip_flags s start))))"]
  by (auto simp: scanformat_def Let_def MAX_FORMAT_def FLAGS_def LUA_INTFRMLEN_def lit_def split: if_splits)

lemma scanformat_forward: "scanformat s start = Inr (form, p) \<Longrightarrow> start \<le> p"
  by (auto simp: scanformat_def skip_flags_def skip_digit_def Let_def split: if_splits)

function format_loop :: "('z lua_State_scheme, 'h) fmtlib_scheme \<Rightarrow> 'z lua_call \<Rightarrow> int \<Rightarrow> bytes \<Rightarrow> nat \<Rightarrow> int \<Rightarrow> luaL_Buffer
    \<Rightarrow> ('z lua_State_scheme, luaL_Buffer) prog" where
  "format_loop H C ntop fmt s arg B =
     (if \<not> s < length fmt then ret B
      else if fmt ! s \<noteq> L_ESC then bnd (luaL_addchar H C (fmt ! s) B) (\<lambda>B. format_loop H C ntop fmt (s + 1) arg B)
      else if char_at fmt (s + 1) = L_ESC then bnd (luaL_addchar H C L_ESC B) (\<lambda>B. format_loop H C ntop fmt (s + 2) arg B)
      else seq (if ntop < arg + 1 then luaL_argerror H C (arg + 1) (lit ''no value'') else ret ())
        (case scanformat fmt (s + 1) of
           Inl msg \<Rightarrow> luaL_errormsg H C (lit msg)
         | Inr (form, p) \<Rightarrow> bnd (format_item H C (arg + 1) form (char_at fmt p) B) (\<lambda>B.
             format_loop H C ntop fmt (p + 1) (arg + 1) B)))"
  by pat_completeness auto
termination
  by (relation "measure (\<lambda>(H, C, ntop, fmt, s, arg, B). length fmt - s)") (auto dest: scanformat_forward)

declare format_loop.simps [simp del]

definition str_format :: "('z lua_State_scheme, 'h) fmtlib_scheme \<Rightarrow> 'z lua_call \<Rightarrow> ('z lua_State_scheme, int) prog" where
  "str_format H C =
     bnd lua_gettop (\<lambda>ntop.
     bnd (luaL_checklstring H C 1) (\<lambda>fmt.
     bnd (format_loop H C ntop fmt 0 1 luaL_buffinit) (\<lambda>B.
     bnd (luaL_pushresult H C B) (\<lambda>_. ret 1))))"

end
