(* ===== verification/Lexer.thy ===== *)
theory Lexer
  imports Ctype Zio Objects
begin

text \<open>
  The lexical analyser (\<open>llex.h\<close>, \<open>llex.c\<close>) over an input stream. Reading a character past the end of
  the input is \<open>Undef\<close>, since the code would read memory outside the last piece. Loops take an
  argument \<open>f\<close>, the rounds they may have; running out of them is \<open>Undef\<close> too.
\<close>

section \<open>Tokens and the state\<close>

definition FIRST_RESERVED :: int where "FIRST_RESERVED = 257"

definition luaX_tokens :: "string list" where
  "luaX_tokens = [''and'', ''break'', ''do'', ''else'', ''elseif'', ''end'', ''false'', ''for'', ''function'', ''if'',
    ''in'', ''local'', ''nil'', ''not'', ''or'', ''repeat'', ''return'', ''then'', ''true'', ''until'', ''while'',
    ''..'', ''...'', ''=='', ''>='', ''<='', ''~='', ''<number>'', ''<name>'', ''<string>'', ''<eof>'']"

definition NUM_RESERVED :: nat where "NUM_RESERVED = 21"
definition TK_CONCAT :: int where "TK_CONCAT = FIRST_RESERVED + 21"
definition TK_DOTS :: int where "TK_DOTS = FIRST_RESERVED + 22"
definition TK_EQ :: int where "TK_EQ = FIRST_RESERVED + 23"
definition TK_GE :: int where "TK_GE = FIRST_RESERVED + 24"
definition TK_LE :: int where "TK_LE = FIRST_RESERVED + 25"
definition TK_NE :: int where "TK_NE = FIRST_RESERVED + 26"
definition TK_NUMBER :: int where "TK_NUMBER = FIRST_RESERVED + 27"
definition TK_NAME :: int where "TK_NAME = FIRST_RESERVED + 28"
definition TK_STRING :: int where "TK_STRING = FIRST_RESERVED + 29"
definition TK_EOS :: int where "TK_EOS = FIRST_RESERVED + 30"

lemmas token_defs = TK_CONCAT_def TK_DOTS_def TK_EQ_def TK_GE_def TK_LE_def TK_NE_def TK_NUMBER_def TK_NAME_def
  TK_STRING_def TK_EOS_def FIRST_RESERVED_def

datatype SemInfo = NoInfo | SNumber lua_Number | SString bytes

record Token =
  token :: int
  seminfo :: SemInfo

text \<open>The contents of the buffer up to \<open>n\<close>, and its size. \<open>lex_error\<close> is the message of an error.\<close>

record 'd LexState =
  current :: int
  linenumber :: int
  lastline :: int
  ls_t :: Token
  ls_ahead :: Token
  ls_z :: "'d ZIO"
  buff :: bytes
  buffsize :: nat
  ls_source :: string
  decpoint :: u8
  lex_error :: bytes

type_synonym ('d, 'a) lexer = "('d LexState, 'a) prog"

section \<open>Characters\<close>

text \<open>\<open>zgetc\<close>: at the end of the input \<open>n\<close> wraps, and what is read next lies outside the piece.\<close>

definition zgetc :: "'d reader \<Rightarrow> ('d, int) lexer" where
  "zgetc rd ls =
     (let z = ls_z ls
      in if 0 < zn z then
           (if zp z < length (zpiece z)
            then Val (char2int (zpiece z ! zp z)) (ls\<lparr>ls_z := z\<lparr>zn := zn z - 1, zp := zp z + 1\<rparr>\<rparr>) else Undef)
         else (let (c, z) = luaZ_fill rd z
               in Val c (ls\<lparr>ls_z := if c = EOZ then z\<lparr>zn := 2 ^ 64 - 1\<rparr> else z\<rparr>)))"

definition next_char :: "'d reader \<Rightarrow> ('d, unit) lexer" where
  "next_char rd = bnd (zgetc rd) (\<lambda>c. upd (\<lambda>ls. ls\<lparr>current := c\<rparr>))"

definition is_char :: "char \<Rightarrow> int \<Rightarrow> bool" where
  "is_char c i \<longleftrightarrow> i = char2int (chr c)"

definition in_class :: "(u8 \<Rightarrow> bool) \<Rightarrow> int \<Rightarrow> bool" where
  "in_class p i \<longleftrightarrow> i \<noteq> EOZ \<and> p (word_of_int i)"

definition newline :: "int \<Rightarrow> bool" where
  "newline i \<longleftrightarrow> i = char2int 0x0A \<or> i = char2int 0x0D"

section \<open>Errors\<close>

definition fmt_dec :: "('s, 'h) host_scheme \<Rightarrow> int \<Rightarrow> bytes" where
  "fmt_dec H n = c_string (lua_number2str H (cast_num n))"

definition luaX_token2str :: "('s, 'h) host_scheme \<Rightarrow> int \<Rightarrow> bytes" where
  "luaX_token2str H tok =
     (if tok < FIRST_RESERVED then
        (if in_class iscntrl tok then lit ''char('' @ fmt_dec H tok @ lit '')'' else [word_of_int tok])
      else lit (luaX_tokens ! nat (tok - FIRST_RESERVED)))"

definition MAXSRC :: nat where "MAXSRC = 80"

text \<open>\<open>save\<close> without its error, which does not call \<open>txtToken\<close>.\<close>

definition where_text :: "('s, 'h) host_scheme \<Rightarrow> 'd LexState \<Rightarrow> bytes \<Rightarrow> bytes" where
  "where_text H ls msg = lit (luaO_chunkid (ls_source ls) MAXSRC) @ lit '':'' @ fmt_dec H (linenumber ls) @ lit '': '' @ msg"

definition throw_syntax :: "bytes \<Rightarrow> ('d, 'a) lexer" where
  "throw_syntax msg = seq (upd (\<lambda>ls. ls\<lparr>lex_error := msg\<rparr>)) (raise LUA_ERRSYNTAX)"

definition save :: "('s, 'h) host_scheme \<Rightarrow> int \<Rightarrow> ('d, unit) lexer" where
  "save H c =
     bnd (get (\<lambda>ls. length (buff ls) + 1 > buffsize ls)) (\<lambda>full.
     seq (if full then
            bnd (get buffsize) (\<lambda>sz.
              if MAX_SIZET div 2 \<le> sz then bnd (get (\<lambda>ls. where_text H ls (lit ''lexical element too long''))) throw_syntax
              else upd (\<lambda>ls. ls\<lparr>buffsize := sz * 2\<rparr>))
          else ret ())
       (upd (\<lambda>ls. ls\<lparr>buff := buff ls @ [word_of_int c]\<rparr>)))"

definition txtToken :: "('s, 'h) host_scheme \<Rightarrow> int \<Rightarrow> ('d, bytes) lexer" where
  "txtToken H tok =
     (if tok = TK_NAME \<or> tok = TK_STRING \<or> tok = TK_NUMBER then seq (save H 0) (get (\<lambda>ls. c_string (buff ls)))
      else ret (luaX_token2str H tok))"

definition luaX_lexerror :: "('s, 'h) host_scheme \<Rightarrow> string \<Rightarrow> int \<Rightarrow> ('d, 'a) lexer" where
  "luaX_lexerror H msg tok =
     bnd (get (\<lambda>ls. where_text H ls (lit msg))) (\<lambda>msg.
       if tok \<noteq> 0 then bnd (txtToken H tok) (\<lambda>txt. throw_syntax (msg @ lit '' near '' @ lit [CHR 0x27] @ txt @ lit [CHR 0x27]))
       else throw_syntax msg)"

definition luaX_syntaxerror :: "('s, 'h) host_scheme \<Rightarrow> string \<Rightarrow> ('d, 'a) lexer" where
  "luaX_syntaxerror H msg = bnd (get (\<lambda>ls. token (ls_t ls))) (luaX_lexerror H msg)"

section \<open>Helpers\<close>

definition MAX_INT :: int where "MAX_INT = 2 ^ 31 - 1 - 2"

definition save_and_next :: "('s, 'h) host_scheme \<Rightarrow> 'd reader \<Rightarrow> ('d, unit) lexer" where
  "save_and_next H rd = bnd (get current) (\<lambda>c. seq (save H c) (next_char rd))"

definition inclinenumber :: "('s, 'h) host_scheme \<Rightarrow> 'd reader \<Rightarrow> ('d, unit) lexer" where
  "inclinenumber H rd =
     bnd (get current) (\<lambda>old.
     seq (next_char rd)
     (bnd (get current) (\<lambda>c.
      seq (if newline c \<and> c \<noteq> old then next_char rd else ret ())
      (seq (upd (\<lambda>ls. ls\<lparr>linenumber := linenumber ls + 1\<rparr>))
      (bnd (get linenumber) (\<lambda>n. if MAX_INT \<le> n then luaX_syntaxerror H ''chunk has too many lines'' else ret ()))))))"

text \<open>\<open>strchr\<close> also finds the zero byte that ends the set.\<close>

definition check_next :: "('s, 'h) host_scheme \<Rightarrow> 'd reader \<Rightarrow> string \<Rightarrow> ('d, bool) lexer" where
  "check_next H rd chars = bnd (get current) (\<lambda>c.
     if \<not> in_class (\<lambda>c. c \<in> set (lit chars) \<or> c = 0) c then ret False
     else seq (save_and_next H rd) (ret True))"

definition buffreplace :: "u8 \<Rightarrow> u8 \<Rightarrow> ('d, unit) lexer" where
  "buffreplace from to = upd (\<lambda>ls. ls\<lparr>buff := map (\<lambda>c. if c = from then to else c) (buff ls)\<rparr>)"

text \<open>\<open>while (cond) body\<close>, with at most \<open>f\<close> rounds.\<close>

primrec while_do :: "nat \<Rightarrow> ('s, bool) prog \<Rightarrow> ('s, unit) prog \<Rightarrow> ('s, unit) prog" where
  "while_do 0 cond body = undef"
| "while_do (Suc f) cond body = bnd cond (\<lambda>go. if go then seq body (while_do f cond body) else ret ())"

abbreviation current_is :: "(int \<Rightarrow> bool) \<Rightarrow> ('d, bool) lexer" where
  "current_is p \<equiv> get (\<lambda>ls. p (current ls))"

definition resetbuffer :: "('d, unit) lexer" where
  "resetbuffer = upd (\<lambda>ls. ls\<lparr>buff := []\<rparr>)"

section \<open>Numbers\<close>

definition buffer_number :: "('s, 'h) host_scheme \<Rightarrow> ('d, lua_Number option) lexer" where
  "buffer_number H = get (\<lambda>ls. luaO_str2d H (c_string (buff ls)))"

definition trydecpoint :: "('s, 'h) host_scheme \<Rightarrow> ('d, SemInfo) lexer" where
  "trydecpoint H =
     bnd (get decpoint) (\<lambda>old.
     seq (steps [upd (\<lambda>ls. ls\<lparr>decpoint := chr CHR ''.''\<rparr>), buffreplace old (chr CHR ''.'')])
     (bnd (buffer_number H) (\<lambda>r. case r of
        Some n \<Rightarrow> ret (SNumber n)
      | None \<Rightarrow> seq (buffreplace (chr CHR ''.'') (chr CHR ''.'')) (luaX_lexerror H ''malformed number'' TK_NUMBER))))"

definition read_numeral :: "nat \<Rightarrow> ('s, 'h) host_scheme \<Rightarrow> 'd reader \<Rightarrow> ('d, SemInfo) lexer" where
  "read_numeral f H rd =
     seq (steps [save_and_next H rd,
            while_do f (current_is (\<lambda>c. in_class isdigit c \<or> is_char CHR ''.'' c)) (save_and_next H rd)])
     (bnd (check_next H rd ''Ee'') (\<lambda>e.
      seq (if e then bnd (check_next H rd ''+-'') (\<lambda>_. ret ()) else ret ())
      (seq (steps [while_do f (current_is (\<lambda>c. in_class isalnum c \<or> is_char CHR ''_'' c)) (save_and_next H rd),
              save H 0])
      (seq (bnd (get decpoint) (buffreplace (chr CHR ''.'')))
      (bnd (buffer_number H) (\<lambda>r. case r of Some n \<Rightarrow> ret (SNumber n) | None \<Rightarrow> trydecpoint H))))))"

section \<open>Long strings and comments\<close>

primrec sep_loop :: "nat \<Rightarrow> ('s, 'h) host_scheme \<Rightarrow> 'd reader \<Rightarrow> int \<Rightarrow> ('d, int) lexer" where
  "sep_loop 0 H rd cnt = undef"
| "sep_loop (Suc f) H rd cnt = bnd (current_is (is_char CHR ''='')) (\<lambda>eq.
     if eq then seq (save_and_next H rd) (sep_loop f H rd (cnt + 1)) else ret cnt)"

definition skip_sep :: "nat \<Rightarrow> ('s, 'h) host_scheme \<Rightarrow> 'd reader \<Rightarrow> ('d, int) lexer" where
  "skip_sep f H rd =
     bnd (get current) (\<lambda>s.
     seq (save_and_next H rd)
     (bnd (sep_loop f H rd 0) (\<lambda>cnt.
      bnd (get current) (\<lambda>c. ret (if c = s then cnt else - cnt - 1)))))"

text \<open>\<open>sem\<close>: whether the string is wanted (\<open>seminfo\<close> is not \<open>NULL\<close>); a long comment is not.\<close>

primrec long_loop :: "nat \<Rightarrow> ('s, 'h) host_scheme \<Rightarrow> 'd reader \<Rightarrow> bool \<Rightarrow> int \<Rightarrow> ('d, unit) lexer" where
  "long_loop 0 H rd sem sep = undef"
| "long_loop (Suc f) H rd sem sep =
     bnd (get current) (\<lambda>c.
       if c = EOZ then luaX_lexerror H (if sem then ''unfinished long string'' else ''unfinished long comment'') TK_EOS
       else if is_char CHR ''['' c then
         bnd (skip_sep f H rd) (\<lambda>s.
           if s = sep then
             seq (save_and_next H rd)
               (if sep = 0 then luaX_lexerror H ''nesting of [[...]] is deprecated'' (char2int (chr CHR ''[''))
                else long_loop f H rd sem sep)
           else long_loop f H rd sem sep)
       else if is_char CHR '']'' c then
         bnd (skip_sep f H rd) (\<lambda>s.
           if s = sep then save_and_next H rd else long_loop f H rd sem sep)
       else if newline c then
         seq (steps [save H 0x0A, inclinenumber H rd, if \<not> sem then resetbuffer else ret ()]) (long_loop f H rd sem sep)
       else seq (if sem then save_and_next H rd else next_char rd) (long_loop f H rd sem sep))"

definition read_long_string :: "nat \<Rightarrow> ('s, 'h) host_scheme \<Rightarrow> 'd reader \<Rightarrow> bool \<Rightarrow> int \<Rightarrow> ('d, SemInfo) lexer" where
  "read_long_string f H rd sem sep =
     seq (save_and_next H rd)
     (seq (bnd (current_is newline) (\<lambda>nl. if nl then inclinenumber H rd else ret ()))
     (seq (long_loop f H rd sem sep)
       (if sem then get (\<lambda>ls. SString (take (length (buff ls) - nat (2 * (2 + sep))) (drop (nat (2 + sep)) (buff ls))))
        else ret NoInfo)))"

section \<open>Strings\<close>

text \<open>\<open>\\ddd\<close>; \<open>k\<close> digits may follow.\<close>

primrec escape_digits :: "nat \<Rightarrow> 'd reader \<Rightarrow> int \<Rightarrow> ('d, int) lexer" where
  "escape_digits 0 rd c = ret c"
| "escape_digits (Suc k) rd c =
     bnd (get current) (\<lambda>d. let c = 10 * c + (d - char2int (chr CHR ''0'')) in
     seq (next_char rd)
     (bnd (current_is (in_class isdigit)) (\<lambda>more. if k \<noteq> 0 \<and> more then escape_digits k rd c else ret c)))"

definition escapes :: "(char \<times> u8) list" where
  "escapes = [(CHR ''a'', 7), (CHR ''b'', 8), (CHR ''f'', 12), (CHR ''n'', 10), (CHR ''r'', 13), (CHR ''t'', 9), (CHR ''v'', 11)]"

definition escape_char :: "int \<Rightarrow> u8 option" where
  "escape_char c = map_of (map (\<lambda>(k, v). (char2int (chr k), v)) escapes) c"

definition read_escape :: "('s, 'h) host_scheme \<Rightarrow> 'd reader \<Rightarrow> ('d, unit) lexer" where
  "read_escape H rd =
     seq (next_char rd)
     (bnd (get current) (\<lambda>c.
       case escape_char c of
         Some v \<Rightarrow> seq (save H (char2int v)) (next_char rd)
       | None \<Rightarrow>
           if newline c then seq (save H 0x0A) (inclinenumber H rd)
           else if c = EOZ then ret ()
           else if \<not> in_class isdigit c then save_and_next H rd
           else bnd (escape_digits 3 rd 0) (\<lambda>v.
             seq (if 255 < v then luaX_lexerror H ''escape sequence too large'' TK_STRING else ret ()) (save H v))))"

primrec string_loop :: "nat \<Rightarrow> ('s, 'h) host_scheme \<Rightarrow> 'd reader \<Rightarrow> int \<Rightarrow> ('d, unit) lexer" where
  "string_loop 0 H rd del = undef"
| "string_loop (Suc f) H rd del =
     bnd (get current) (\<lambda>c.
       if c = del then ret ()
       else if c = EOZ then luaX_lexerror H ''unfinished string'' TK_EOS
       else if newline c then luaX_lexerror H ''unfinished string'' TK_STRING
       else seq (if is_char CHR 0x5C c then read_escape H rd else save_and_next H rd) (string_loop f H rd del))"

definition read_string :: "nat \<Rightarrow> ('s, 'h) host_scheme \<Rightarrow> 'd reader \<Rightarrow> int \<Rightarrow> ('d, SemInfo) lexer" where
  "read_string f H rd del =
     seq (steps [save_and_next H rd, string_loop f H rd del, save_and_next H rd])
       (get (\<lambda>ls. SString (take (length (buff ls) - 2) (drop 1 (buff ls)))))"

section \<open>The analyser\<close>

fun index_of :: "bytes \<Rightarrow> string list \<Rightarrow> nat option" where
  "index_of b [] = None"
| "index_of b (x # xs) = (if b = lit x then Some 0 else map_option Suc (index_of b xs))"

text \<open>\<open>ts->tsv.reserved\<close>, as \<open>luaX_init\<close> sets it, less 1.\<close>

definition reserved :: "bytes \<Rightarrow> nat option" where
  "reserved b = index_of b (take NUM_RESERVED luaX_tokens)"

text \<open>A character, perhaps followed by \<open>=\<close>.\<close>

definition two_char :: "'d reader \<Rightarrow> int \<Rightarrow> int \<Rightarrow> ('d, int \<times> SemInfo) lexer" where
  "two_char rd c tk = seq (next_char rd) (bnd (current_is (is_char CHR ''='')) (\<lambda>eq.
     if \<not> eq then ret (c, NoInfo) else seq (next_char rd) (ret (tk, NoInfo))))"

definition read_name :: "nat \<Rightarrow> ('s, 'h) host_scheme \<Rightarrow> 'd reader \<Rightarrow> ('d, int \<times> SemInfo) lexer" where
  "read_name f H rd =
     seq (steps [save_and_next H rd,
            while_do f (current_is (\<lambda>c. in_class isalnum c \<or> is_char CHR ''_'' c)) (save_and_next H rd)])
     (bnd (get buff) (\<lambda>ts. case reserved ts of
        Some i \<Rightarrow> ret (int i + FIRST_RESERVED, NoInfo)
      | None \<Rightarrow> ret (TK_NAME, SString ts)))"

primrec llex_loop :: "nat \<Rightarrow> ('s, 'h) host_scheme \<Rightarrow> 'd reader \<Rightarrow> ('d, int \<times> SemInfo) lexer" where
  "llex_loop 0 H rd = undef"
| "llex_loop (Suc f) H rd =
     bnd (get current) (\<lambda>c.
       if newline c then seq (inclinenumber H rd) (llex_loop f H rd)
       else if is_char CHR ''-'' c then
         seq (next_char rd) (bnd (current_is (is_char CHR ''-'')) (\<lambda>minus.
           if \<not> minus then ret (c, NoInfo)
           else seq (next_char rd) (bnd (current_is (is_char CHR ''['')) (\<lambda>bracket.
             bnd (if bracket then bnd (skip_sep f H rd) (\<lambda>sep. seq resetbuffer (ret sep)) else ret (- 1)) (\<lambda>sep.
               if 0 \<le> sep then
                 bnd (read_long_string f H rd False sep) (\<lambda>_. seq resetbuffer (llex_loop f H rd))
               else
                 seq (while_do f (current_is (\<lambda>c. \<not> newline c \<and> c \<noteq> EOZ)) (next_char rd)) (llex_loop f H rd))))))
       else if is_char CHR ''['' c then
         bnd (skip_sep f H rd) (\<lambda>sep.
           if 0 \<le> sep then bnd (read_long_string f H rd True sep) (\<lambda>s. ret (TK_STRING, s))
           else if sep = - 1 then ret (c, NoInfo)
           else luaX_lexerror H ''invalid long string delimiter'' TK_STRING)
       else if is_char CHR ''='' c then two_char rd c TK_EQ
       else if is_char CHR ''<'' c then two_char rd c TK_LE
       else if is_char CHR ''>'' c then two_char rd c TK_GE
       else if is_char CHR ''~'' c then two_char rd c TK_NE
       else if is_char CHR 0x22 c \<or> is_char CHR 0x27 c then bnd (read_string f H rd c) (\<lambda>s. ret (TK_STRING, s))
       else if is_char CHR ''.'' c then
         seq (save_and_next H rd) (bnd (check_next H rd ''.'') (\<lambda>dot.
           if dot then bnd (check_next H rd ''.'') (\<lambda>dot. ret (if dot then TK_DOTS else TK_CONCAT, NoInfo))
           else bnd (current_is (in_class isdigit)) (\<lambda>digit.
             if \<not> digit then ret (c, NoInfo) else bnd (read_numeral f H rd) (\<lambda>n. ret (TK_NUMBER, n)))))
       else if c = EOZ then ret (TK_EOS, NoInfo)
       else if in_class isspace c then seq (next_char rd) (llex_loop f H rd)
       else if in_class isdigit c then bnd (read_numeral f H rd) (\<lambda>n. ret (TK_NUMBER, n))
       else if in_class isalpha c \<or> is_char CHR ''_'' c then read_name f H rd
       else seq (next_char rd) (ret (c, NoInfo)))"

definition llex :: "nat \<Rightarrow> ('s, 'h) host_scheme \<Rightarrow> 'd reader \<Rightarrow> ('d, int \<times> SemInfo) lexer" where
  "llex f H rd = seq resetbuffer (llex_loop f H rd)"

text \<open>A token without a value leaves the old one.\<close>

definition set_info :: "SemInfo \<Rightarrow> Token \<Rightarrow> SemInfo" where
  "set_info info t = (if info = NoInfo then seminfo t else info)"

definition luaX_next :: "nat \<Rightarrow> ('s, 'h) host_scheme \<Rightarrow> 'd reader \<Rightarrow> ('d, unit) lexer" where
  "luaX_next f H rd =
     seq (upd (\<lambda>ls. ls\<lparr>lastline := linenumber ls\<rparr>))
     (bnd (get ls_ahead) (\<lambda>a.
       if token a \<noteq> TK_EOS then upd (\<lambda>ls. ls\<lparr>ls_t := a, ls_ahead := a\<lparr>token := TK_EOS\<rparr>\<rparr>)
       else bnd (llex f H rd) (\<lambda>(tok, info). upd (\<lambda>ls. ls\<lparr>ls_t := \<lparr>token = tok, seminfo = set_info info (ls_t ls)\<rparr>\<rparr>))))"

definition luaX_lookahead :: "nat \<Rightarrow> ('s, 'h) host_scheme \<Rightarrow> 'd reader \<Rightarrow> ('d, unit) lexer" where
  "luaX_lookahead f H rd = bnd (llex f H rd) (\<lambda>(tok, info). upd (\<lambda>ls. ls\<lparr>ls_ahead := \<lparr>token = tok, seminfo = set_info info (ls_ahead ls)\<rparr>\<rparr>))"

definition MINBUFFER :: nat where "MINBUFFER = 32"

definition luaX_setinput :: "'d reader \<Rightarrow> 'd ZIO \<Rightarrow> string \<Rightarrow> ('d, unit) lexer" where
  "luaX_setinput rd z source =
     seq (upd (\<lambda>ls. ls\<lparr>decpoint := chr CHR ''.'', ls_ahead := (ls_ahead ls)\<lparr>token := TK_EOS\<rparr>, ls_z := z,
            linenumber := 1, lastline := 1, ls_source := source, buffsize := MINBUFFER\<rparr>))
       (next_char rd)"

end
