(* ===== verification/Lexing.thy ===== *)
theory Lexing
  imports Lexer "HOL-Library.Sublist"
begin

text \<open>
  The analyser on a stream that delivers a list of characters: it reads them in order, never past
  the end, and ends.
\<close>

section \<open>What is ahead\<close>

lemma char2int_eq [simp]: "char2int a = char2int b \<longleftrightarrow> a = b"
  by (simp add: char2int_def word_uint_eq_iff)

text \<open>The characters from the current one on.\<close>

fun ahead :: "'d reader \<Rightarrow> bytes \<Rightarrow> 'd LexState \<Rightarrow> bool" where
  "ahead rd [] ls \<longleftrightarrow> current ls = EOZ"
| "ahead rd (c # r) ls \<longleftrightarrow> current ls = char2int c \<and> stream rd (ls_z ls) r"

fun cur :: "bytes \<Rightarrow> int" where
  "cur [] = EOZ"
| "cur (c # r) = char2int c"

lemma ahead_current: "ahead rd xs ls \<Longrightarrow> current ls = cur xs"
  by (cases xs) auto

lemma ahead_iff: "ahead rd xs ls \<longleftrightarrow> current ls = cur xs \<and> (xs \<noteq> [] \<longrightarrow> stream rd (ls_z ls) (tl xs))"
  by (cases xs) auto

lemma zgetc_stream:
  assumes "stream rd (ls_z ls) r"
  shows "\<exists>z'. zgetc rd ls = Val (cur r) (ls\<lparr>ls_z := z'\<rparr>) \<and> (r \<noteq> [] \<longrightarrow> stream rd z' (tl r))"
proof (cases "0 < zn (ls_z ls)")
  case True
  then have "zp (ls_z ls) < length (zpiece (ls_z ls))" "unread (ls_z ls) \<noteq> []"
    using assms by (auto simp: stream_def unread_def)
  moreover have "cur r = char2int (zpiece (ls_z ls) ! zp (ls_z ls))"
    using assms calculation by (cases r) (auto simp: stream_def unread_def Cons_nth_drop_Suc [symmetric])
  moreover have "stream rd ((ls_z ls)\<lparr>zn := zn (ls_z ls) - 1, zp := zp (ls_z ls) + 1\<rparr>) (tl r)"
    using stream_skip(2) [OF assms, of 1] True by (simp add: drop_Suc)
  ultimately show ?thesis using True by (auto simp: zgetc_def Let_def)
next
  case False
  then have "delivers rd (zdata (ls_z ls)) r" using assms by (auto simp: stream_def unread_def)
  then show ?thesis
    by (cases rule: delivers_cases)
      (use False in \<open>auto simp: zgetc_def luaZ_fill_def stream_def unread_def Let_def neq_Nil_conv\<close>)
qed

text \<open>
  \<open>lx rd m xs Q\<close>: with \<open>xs\<close> ahead, \<open>m\<close> returns only with a value and characters ahead in \<open>Q\<close>, or it
  raises a syntax error; it is never \<open>Undef\<close>. It leaves the token that was read ahead.
\<close>

definition lx :: "'d reader \<Rightarrow> ('d, 'a) lexer \<Rightarrow> bytes \<Rightarrow> ('a \<Rightarrow> bytes \<Rightarrow> bool) \<Rightarrow> bool" where
  "lx rd m xs Q \<longleftrightarrow> (\<forall>ls. ahead rd xs ls \<longrightarrow>
     wp m (\<lambda>a ls'. ls_ahead ls' = ls_ahead ls \<and> (\<exists>ys. Q a ys \<and> ahead rd ys ls')) (\<lambda>e _. e = LUA_ERRSYNTAX) ls)"

declare ret_run [simp del] get_run [simp del] upd_run [simp del]

lemma lx_mono: "lx rd m xs Q \<Longrightarrow> (\<And>a ys. Q a ys \<Longrightarrow> Q' a ys) \<Longrightarrow> lx rd m xs Q'"
  unfolding lx_def by (blast intro: wp_mono)

lemma lx_bnd:
  assumes "lx rd m xs R" "\<And>a ys. R a ys \<Longrightarrow> lx rd (f a) ys Q"
  shows "lx rd (bnd m f) xs Q"
  unfolding lx_def wp_bnd
proof (intro allI impI)
  fix ls assume "ahead rd xs ls"
  then have "wp m (\<lambda>a ls'. ls_ahead ls' = ls_ahead ls \<and> (\<exists>ys. R a ys \<and> ahead rd ys ls')) (\<lambda>e _. e = LUA_ERRSYNTAX) ls"
    using assms(1) by (simp add: lx_def)
  then show "wp m (\<lambda>a. wp (f a) (\<lambda>a ls'. ls_ahead ls' = ls_ahead ls \<and> (\<exists>ys. Q a ys \<and> ahead rd ys ls'))
      (\<lambda>e _. e = LUA_ERRSYNTAX)) (\<lambda>e _. e = LUA_ERRSYNTAX) ls"
    by (rule wp_mono) (use assms(2) in \<open>fastforce simp: lx_def\<close>)+
qed

lemma lx_seq: "lx rd m xs R \<Longrightarrow> (\<And>a ys. R a ys \<Longrightarrow> lx rd n ys Q) \<Longrightarrow> lx rd (seq m n) xs Q"
  unfolding seq_def by (rule lx_bnd)

lemma lx_ret: "Q a xs \<Longrightarrow> lx rd (ret a) xs Q"
  unfolding lx_def by (auto simp: wps)

lemma lx_if: "(c \<Longrightarrow> lx rd m xs Q) \<Longrightarrow> (\<not> c \<Longrightarrow> lx rd n xs Q) \<Longrightarrow> lx rd (if c then m else n) xs Q"
  by simp

lemma lx_current: "lx rd (f (cur xs)) xs Q \<Longrightarrow> lx rd (bnd (get current) f) xs Q"
  unfolding lx_def by (auto simp: wps ahead_current)

lemma lx_current_is: "lx rd (f (p (cur xs))) xs Q \<Longrightarrow> lx rd (bnd (current_is p) f) xs Q"
  unfolding lx_def by (auto simp: wps ahead_current)

lemma lx_get: "(\<And>a. Q a xs) \<Longrightarrow> lx rd (get g) xs Q"
  unfolding lx_def by (auto simp: wps)

lemma lx_upd:
  "(\<And>ls. current (g ls) = current ls \<and> ls_z (g ls) = ls_z ls \<and> ls_ahead (g ls) = ls_ahead ls) \<Longrightarrow> Q () xs \<Longrightarrow> lx rd (upd g) xs Q"
  unfolding lx_def by (auto simp: wps ahead_iff)

lemma lx_next: "xs = c # r \<Longrightarrow> Q () r \<Longrightarrow> lx rd (next_char rd) xs Q"
  unfolding lx_def
proof (intro allI impI)
  fix ls
  assume *: "xs = c # r" "Q () r" "ahead rd xs ls"
  then obtain z' where z: "zgetc rd ls = Val (cur r) (ls\<lparr>ls_z := z'\<rparr>)" "r \<noteq> [] \<longrightarrow> stream rd z' (tl r)"
    using zgetc_stream [of rd ls r] by auto
  then have "ahead rd r (ls\<lparr>ls_z := z', current := cur r\<rparr>)" by (cases r) auto
  then show "wp (next_char rd) (\<lambda>a ls'. ls_ahead ls' = ls_ahead ls \<and> (\<exists>ys. Q a ys \<and> ahead rd ys ls')) (\<lambda>e _. e = LUA_ERRSYNTAX) ls"
    using * by (auto simp: next_char_def wp_bnd wp_Val [where m = "zgetc rd", OF z(1)] wps)
qed

section \<open>Errors and the buffer\<close>

lemma lx_throw: "lx rd (throw_syntax msg) xs Q"
  unfolding lx_def by (simp add: throw_syntax_def wps)

lemma lx_save: "Q () xs \<Longrightarrow> lx rd (save H c) xs Q"
  unfolding lx_def by (auto simp: save_def throw_syntax_def wps ahead_iff)

lemma lx_lexerror: "lx rd (luaX_lexerror H msg tok) xs Q"
  unfolding lx_def
  by (auto simp: luaX_lexerror_def txtToken_def save_def throw_syntax_def wps)

lemma lx_syntaxerror: "lx rd (luaX_syntaxerror H msg) xs Q"
  unfolding luaX_syntaxerror_def by (rule lx_bnd [OF lx_get [where Q = "\<lambda>_ _. True"]]) (simp_all add: lx_lexerror)

lemma lx_save_next: "xs = c # r \<Longrightarrow> Q () r \<Longrightarrow> lx rd (save_and_next H rd) xs Q"
  unfolding save_and_next_def
  by (rule lx_current, rule lx_seq [where R = "\<lambda>_ ys. ys = xs", OF lx_save]) (auto intro: lx_next)

lemma cur_EOZ: "cur xs = EOZ \<longleftrightarrow> xs = []"
  by (cases xs) auto

lemma not_EOZ [simp]: "\<not> is_char c EOZ" "\<not> in_class p EOZ" "\<not> newline EOZ"
proof -
  show "\<not> is_char c EOZ" "\<not> in_class p EOZ" by (simp_all add: is_char_def in_class_def)
  show "\<not> newline EOZ" by (simp add: newline_def)
qed

lemma cur_cases:
  assumes "p (cur xs)" "\<not> p EOZ"
  obtains c r where "xs = c # r" "p (char2int c)"
  using assms by (cases xs) auto

section \<open>The helpers\<close>

lemma lx_while:
  assumes "\<not> p EOZ" "\<And>c r. p (char2int c) \<Longrightarrow> lx rd body (c # r) (\<lambda>_ ys. ys = r)" "length xs < f"
  shows "lx rd (while_do f (current_is p) body) xs (\<lambda>_ ys. suffix ys xs \<and> \<not> p (cur ys))"
  using assms(3)
proof (induction f arbitrary: xs)
  case (Suc f)
  show ?case unfolding while_do.simps
  proof (rule lx_current_is, rule lx_if)
    assume "p (cur xs)"
    then obtain c r where xs: "xs = c # r" "p (char2int c)" using assms(1) by (rule cur_cases)
    then have "lx rd (while_do f (current_is p) body) r (\<lambda>_ ys. suffix ys r \<and> \<not> p (cur ys))"
      using Suc.prems by (intro Suc.IH) simp
    then have "lx rd (while_do f (current_is p) body) r (\<lambda>_ ys. suffix ys xs \<and> \<not> p (cur ys))"
      by (rule lx_mono) (auto simp: xs suffix_Cons)
    then show "lx rd (seq body (while_do f (current_is p) body)) xs (\<lambda>_ ys. suffix ys xs \<and> \<not> p (cur ys))"
      unfolding xs(1) by (intro lx_seq [OF assms(2) [OF xs(2)]]) auto
  qed (rule lx_ret, auto)
qed simp

lemma lx_check_next:
  "lx rd (check_next H rd chars) xs (\<lambda>b ys. if b then (\<exists>c. xs = c # ys) else ys = xs)"
  unfolding check_next_def
proof (rule lx_current, rule lx_if)
  assume "\<not> \<not> in_class (\<lambda>c. c \<in> set (lit chars) \<or> c = 0) (cur xs)"
  then obtain c r where xs: "xs = c # r" using not_EOZ(2) by (cases xs) auto
  show "lx rd (seq (save_and_next H rd) (ret True)) xs (\<lambda>b ys. if b then \<exists>c. xs = c # ys else ys = xs)"
    by (rule lx_seq [where R = "\<lambda>_ ys. ys = r"]) (auto intro!: lx_save_next lx_ret simp: xs)
qed (auto intro: lx_ret)

lemma lx_inclinenumber:
  assumes "newline (cur xs)"
  shows "lx rd (inclinenumber H rd) xs (\<lambda>_ ys. strict_suffix ys xs)"
proof -
  obtain c r where xs: "xs = c # r" using assms by (rule cur_cases) simp
  have count: "lx rd (seq (upd (\<lambda>ls. ls\<lparr>linenumber := linenumber ls + 1\<rparr>))
      (bnd (get linenumber) (\<lambda>n. if MAX_INT \<le> n then luaX_syntaxerror H ''chunk has too many lines'' else ret ())))
      ys (\<lambda>_ zs. zs = ys)" for ys
    by (rule lx_seq [where R = "\<lambda>_ zs. zs = ys"], rule lx_upd, simp, simp,
        rule lx_bnd [where R = "\<lambda>_ zs. zs = ys"], rule lx_get, simp)
      (auto intro: lx_if lx_syntaxerror lx_ret)
  have skip: "lx rd (if newline (cur r) \<and> b then next_char rd else ret ()) r (\<lambda>_ ys. suffix ys r)" for b
    by (rule lx_if) (cases r, auto intro!: lx_next lx_ret simp: suffix_Cons)
  show ?thesis unfolding inclinenumber_def
    by (rule lx_current, rule lx_seq [where R = "\<lambda>_ ys. ys = r", OF lx_next [OF xs]], simp, simp, rule lx_current,
        rule lx_seq [OF skip], rule lx_mono [OF count]) (auto simp: xs strict_suffix_def suffix_Cons dest: suffix_length_le)
qed

section \<open>Long strings\<close>

lemma lx_sep_loop:
  "length xs < f \<Longrightarrow> 0 \<le> n \<Longrightarrow> lx rd (sep_loop f H rd n) xs (\<lambda>m ys. suffix ys xs \<and> 0 \<le> m)"
proof (induction f arbitrary: xs n)
  case (Suc f)
  show ?case unfolding sep_loop.simps
  proof (rule lx_current_is, rule lx_if)
    assume "is_char CHR ''='' (cur xs)"
    then obtain c r where xs: "xs = c # r" by (rule cur_cases) simp
    have "lx rd (sep_loop f H rd (n + 1)) r (\<lambda>m ys. suffix ys xs \<and> 0 \<le> m)"
      using Suc xs by (intro lx_mono [OF Suc.IH]) (auto simp: suffix_Cons)
    then show "lx rd (seq (save_and_next H rd) (sep_loop f H rd (n + 1))) xs (\<lambda>m ys. suffix ys xs \<and> 0 \<le> m)"
      by (intro lx_seq [where R = "\<lambda>_ ys. ys = r", OF lx_save_next [OF xs]]) auto
  qed (rule lx_ret, use Suc.prems in auto)
qed simp

lemma lx_skip_sep:
  assumes "xs = c # r" "length r < f"
  shows "lx rd (skip_sep f H rd) xs (\<lambda>n ys. suffix ys r \<and> (0 \<le> n \<longrightarrow> cur ys = char2int c))"
  unfolding skip_sep_def
proof (rule lx_current, rule lx_seq [where R = "\<lambda>_ ys. ys = r", OF lx_save_next [OF assms(1)]],
    simp, simp only:, rule lx_bnd [OF lx_sep_loop [OF assms(2)]], simp, rule lx_current)
  show "lx rd (ret (if cur ys = cur xs then n else - n - 1)) ys (\<lambda>n ys. suffix ys r \<and> (0 \<le> n \<longrightarrow> cur ys = char2int c))"
    if "suffix ys r \<and> 0 \<le> n" for n :: int and ys
    using that assms(1) by (intro lx_ret) (auto split: if_splits)
qed

lemma lx_resetbuffer: "Q () xs \<Longrightarrow> lx rd resetbuffer xs Q"
  unfolding resetbuffer_def by (rule lx_upd) simp_all

lemma cur_is_char: "is_char c (cur xs) \<Longrightarrow> \<exists>r. xs = chr c # r"
  by (cases xs) (auto simp: is_char_def char2int_eq)

lemma lx_drop: "lx rd m r Q \<Longrightarrow> suffix r xs \<Longrightarrow> (\<And>a ys. Q a ys \<Longrightarrow> suffix ys r) \<Longrightarrow> lx rd m r (\<lambda>a ys. suffix ys xs)"
  by (erule lx_mono) (blast intro: suffix_order.trans)

lemma lx_long_loop:
  assumes "length xs < f" "0 \<le> sep"
  shows "lx rd (long_loop f H rd sem sep) xs (\<lambda>_ ys. suffix ys xs)"
  using assms(1)
proof (induction f arbitrary: xs)
  case (Suc f)
  have loop: "lx rd (long_loop f H rd sem sep) ys (\<lambda>_ zs. suffix zs xs)" if "strict_suffix ys xs" for ys
  proof -
    have "length ys < f" using that Suc.prems suffix_length_less [OF that] by linarith
    then show ?thesis using that
      by (intro lx_drop [OF Suc.IH]) (auto simp: strict_suffix_def)
  qed
  have sep: "lx rd (skip_sep f H rd) xs (\<lambda>n ys. strict_suffix ys xs \<and> (0 \<le> n \<longrightarrow> ys \<noteq> []))" if "xs = c # r" for c r
    using Suc.prems that
    by (intro lx_mono [OF lx_skip_sep [OF that]])
      (auto simp: strict_suffix_def suffix_Cons dest: suffix_length_le)
  have tail: "strict_suffix ys xs" if "strict_suffix (c # ys) xs" for c ys
    using that by (auto simp: strict_suffix_def dest: suffix_ConsD suffix_length_le)
  show ?case unfolding long_loop.simps
  proof (rule lx_current, intro lx_if)
    assume here: "is_char CHR ''['' (cur xs)"
    then obtain r where xs: "xs = chr CHR ''['' # r" using cur_is_char by blast
    show "lx rd (bnd (skip_sep f H rd) (\<lambda>s. if s = sep then seq (save_and_next H rd)
        (if sep = 0 then luaX_lexerror H ''nesting of [[...]] is deprecated'' (char2int (chr CHR ''[''))
         else long_loop f H rd sem sep) else long_loop f H rd sem sep)) xs (\<lambda>_ zs. suffix zs xs)"
    proof (rule lx_bnd [OF sep [OF xs]], rule lx_if)
      fix n ys
      assume *: "strict_suffix ys xs \<and> (0 \<le> n \<longrightarrow> ys \<noteq> [])" "n = sep"
      then obtain c zs where ys: "ys = c # zs" using assms(2) by (cases ys) auto
      show "lx rd (seq (save_and_next H rd)
          (if sep = 0 then luaX_lexerror H ''nesting of [[...]] is deprecated'' (char2int (chr CHR ''[''))
           else long_loop f H rd sem sep)) ys (\<lambda>_ zs. suffix zs xs)"
        by (rule lx_seq [where R = "\<lambda>_ us. us = zs", OF lx_save_next [OF ys]], simp, simp only:,
            rule lx_if, rule lx_lexerror, rule loop, rule tail [of c]) (use * ys in simp)
    qed (simp add: loop)
  next
    assume here: "is_char CHR '']'' (cur xs)"
    then obtain r where xs: "xs = chr CHR '']'' # r" using cur_is_char by blast
    show "lx rd (bnd (skip_sep f H rd) (\<lambda>s. if s = sep then save_and_next H rd else long_loop f H rd sem sep))
        xs (\<lambda>_ zs. suffix zs xs)"
    proof (rule lx_bnd [OF sep [OF xs]], rule lx_if)
      fix n ys
      assume *: "strict_suffix ys xs \<and> (0 \<le> n \<longrightarrow> ys \<noteq> [])" "n = sep"
      then obtain c zs where ys: "ys = c # zs" using assms(2) by (cases ys) auto
      show "lx rd (save_and_next H rd) ys (\<lambda>_ zs. suffix zs xs)"
        by (rule lx_save_next [OF ys]) (use tail [of c zs] * ys in \<open>simp add: strict_suffix_def\<close>)
    qed (simp add: loop)
  next
    assume nl: "newline (cur xs)"
    show "lx rd (seq (steps [save H 10, inclinenumber H rd, if \<not> sem then resetbuffer else ret ()])
        (long_loop f H rd sem sep)) xs (\<lambda>_ zs. suffix zs xs)"
      by (rule lx_seq [where R = "\<lambda>_ ys. strict_suffix ys xs"], unfold steps.simps,
          rule lx_seq [where R = "\<lambda>_ ys. ys = xs"], rule lx_save, simp, simp only:, rule lx_seq [OF lx_inclinenumber [OF nl]],
          rule lx_seq [where R = "\<lambda>_ ys. strict_suffix ys xs"], rule lx_if, rule lx_resetbuffer, assumption,
          rule lx_ret, assumption, rule lx_ret, assumption, rule loop)
  next
    assume "cur xs \<noteq> EOZ"
    then obtain c r where xs: "xs = c # r" by (cases xs) auto
    then have "strict_suffix r xs" by (simp add: strict_suffix_def suffix_Cons)
    then show "lx rd (seq (if sem then save_and_next H rd else next_char rd) (long_loop f H rd sem sep)) xs (\<lambda>_ zs. suffix zs xs)"
      by (intro lx_seq [where R = "\<lambda>_ ys. ys = r"])
        (auto intro: loop intro!: lx_if lx_save_next [OF xs] lx_next [OF xs])
  qed (auto intro: lx_lexerror)
qed simp

lemma lx_then: "lx rd m xs R \<Longrightarrow> (\<And>a ys. R a ys \<Longrightarrow> lx rd (f a) ys (\<lambda>_ zs. suffix zs ys)) \<Longrightarrow>
    (\<And>a ys. R a ys \<Longrightarrow> suffix ys zs) \<Longrightarrow> lx rd (bnd m f) xs (\<lambda>_ ys. suffix ys zs)"
  by (erule lx_bnd, rule lx_drop) auto

lemma lx_long_string:
  assumes "xs = c # r" "length xs \<le> f" "0 \<le> sep"
  shows "lx rd (read_long_string f H rd sem sep) xs (\<lambda>_ ys. suffix ys r)"
proof -
  have newline: "lx rd (bnd (current_is newline) (\<lambda>nl. if nl then inclinenumber H rd else ret ())) r (\<lambda>_ ys. suffix ys r)"
    by (rule lx_current_is, rule lx_if)
      (auto intro: lx_ret lx_mono [OF lx_inclinenumber] simp: strict_suffix_def)
  have loop: "lx rd (long_loop f H rd sem sep) ys (\<lambda>_ zs. suffix zs r)" if "suffix ys r" for ys
    using assms suffix_length_le [OF that] that by (intro lx_drop [OF lx_long_loop]) auto
  show ?thesis unfolding read_long_string_def
    by (rule lx_seq [where R = "\<lambda>_ ys. ys = r", OF lx_save_next [OF assms(1)]], simp, simp only:,
        rule lx_seq [OF newline], rule lx_seq [OF loop], assumption, rule lx_if, rule lx_get, assumption,
        rule lx_ret, assumption)
qed

section \<open>Strings\<close>

lemma lx_escape_digits:
  "k \<noteq> 0 \<Longrightarrow> in_class isdigit (cur xs) \<Longrightarrow> lx rd (escape_digits k rd n) xs (\<lambda>_ ys. strict_suffix ys xs)"
proof (induction k arbitrary: xs n)
  case (Suc k)
  then obtain c r where xs: "xs = c # r" using cur_cases not_EOZ(2) by metis
  then have less: "strict_suffix ys xs" if "ys = r \<or> strict_suffix ys r" for ys
    using that by (auto simp: strict_suffix_def suffix_Cons dest: suffix_length_le)
  show ?case unfolding escape_digits.simps Let_def
  proof (rule lx_current, rule lx_seq [where R = "\<lambda>_ ys. ys = r", OF lx_next [OF xs]], simp, simp only:,
      rule lx_current_is, rule lx_if)
    fix m
    assume "k \<noteq> 0 \<and> in_class isdigit (cur r)"
    then show "lx rd (escape_digits k rd m) r (\<lambda>_ ys. strict_suffix ys xs)"
      by (intro lx_mono [OF Suc.IH]) (auto intro: less)
  qed (auto intro: lx_ret less)
qed simp

lemma lx_read_escape:
  assumes "xs = c # r"
  shows "lx rd (read_escape H rd) xs (\<lambda>_ ys. suffix ys r)"
  unfolding read_escape_def
proof (rule lx_seq [where R = "\<lambda>_ ys. ys = r", OF lx_next [OF assms]], simp, simp only:, rule lx_current)
  have save: "lx rd (seq (save H v) (next_char rd)) r (\<lambda>_ ys. suffix ys r)" if "cur r \<noteq> EOZ" for v
    by (cases r, use that in simp, rule lx_seq [where R = "\<lambda>_ ys. ys = r"], rule lx_save, simp, simp only:, rule lx_next)
      (auto simp: suffix_Cons)
  have escape: "escape_char EOZ = None" by (simp add: escape_char_def escapes_def)
  have digits: "lx rd (bnd (escape_digits 3 rd 0) (\<lambda>v. seq (if 255 < v then luaX_lexerror H ''escape sequence too large'' TK_STRING
      else ret ()) (save H v))) r (\<lambda>_ ys. suffix ys r)" if "in_class isdigit (cur r)"
    using that by (intro lx_bnd [OF lx_escape_digits])
      (auto intro!: lx_seq [where R = "\<lambda>_ zs. suffix zs r"] lx_if lx_lexerror lx_ret lx_save simp: strict_suffix_def)
  have other: "lx rd (save_and_next H rd) r (\<lambda>_ ys. suffix ys r)" if "cur r \<noteq> EOZ"
    by (cases r, use that in simp) (auto intro!: lx_save_next simp: suffix_Cons)
  have nl: "lx rd (seq (save H 0x0A) (inclinenumber H rd)) r (\<lambda>_ ys. suffix ys r)" if "newline (cur r)"
    by (rule lx_seq [where R = "\<lambda>_ ys. ys = r"], rule lx_save, simp, simp only:, rule lx_mono [OF lx_inclinenumber [OF that]])
      (simp add: strict_suffix_def)
  show "lx rd (case escape_char (cur r) of
         Some v \<Rightarrow> seq (save H (char2int v)) (next_char rd)
       | None \<Rightarrow>
           if newline (cur r) then seq (save H 0x0A) (inclinenumber H rd)
           else if cur r = EOZ then ret ()
           else if \<not> in_class isdigit (cur r) then save_and_next H rd
           else bnd (escape_digits 3 rd 0) (\<lambda>v.
             seq (if 255 < v then luaX_lexerror H ''escape sequence too large'' TK_STRING else ret ()) (save H v)))
       r (\<lambda>_ ys. suffix ys r)"
    using escape
    by (cases "escape_char (cur r)"; cases "cur r = EOZ") (auto intro!: save lx_if digits other nl lx_ret)
qed

lemma lx_string_loop:
  assumes "length xs < f" "del \<noteq> EOZ"
  shows "lx rd (string_loop f H rd del) xs (\<lambda>_ ys. suffix ys xs \<and> cur ys = del)"
  using assms(1)
proof (induction f arbitrary: xs)
  case (Suc f)
  show ?case unfolding string_loop.simps
  proof (rule lx_current, intro lx_if)
    assume "cur xs \<noteq> EOZ"
    then obtain c r where xs: "xs = c # r" by (cases xs) auto
    have body: "lx rd (if is_char CHR 0x5C (cur xs) then read_escape H rd else save_and_next H rd) xs (\<lambda>_ ys. suffix ys r)"
      by (rule lx_if) (auto intro: lx_read_escape [OF xs] lx_save_next [OF xs])
    show "lx rd (seq (if is_char CHR 0x5C (cur xs) then read_escape H rd else save_and_next H rd) (string_loop f H rd del)) xs
        (\<lambda>_ ys. suffix ys xs \<and> cur ys = del)"
    proof (rule lx_seq [OF body])
      fix ys
      assume ys: "suffix ys r"
      then have "length ys < f" using Suc.prems xs suffix_length_le [OF ys] by simp
      then show "lx rd (string_loop f H rd del) ys (\<lambda>_ ys. suffix ys xs \<and> cur ys = del)"
        using ys xs by (intro lx_mono [OF Suc.IH]) (auto simp: suffix_Cons intro: suffix_order.trans)
    qed
  qed (auto intro: lx_lexerror lx_ret)
qed simp

lemma lx_read_string:
  assumes "xs = c # r" "length r < f"
  shows "lx rd (read_string f H rd (char2int c)) xs (\<lambda>_ ys. suffix ys r)"
proof -
  have last: "lx rd (save_and_next H rd) ys (\<lambda>_ zs. suffix zs r)" if "suffix ys r \<and> cur ys = char2int c" for ys
    using that by (cases ys) (auto intro!: lx_save_next dest: suffix_ConsD)
  show ?thesis unfolding read_string_def steps.simps
    by (rule lx_seq [where R = "\<lambda>_ ys. suffix ys r"],
        rule lx_seq [where R = "\<lambda>_ ys. ys = r", OF lx_save_next [OF assms(1)]], simp, simp only:,
        rule lx_seq [OF lx_string_loop [OF assms(2)]], simp,
        rule lx_seq [OF last], assumption, rule lx_ret, assumption, rule lx_get, assumption)
qed

section \<open>Numbers and names\<close>

lemma lx_save_next_is:
  "xs = c # r \<Longrightarrow> lx rd (save_and_next H rd) xs (\<lambda>_ ys. ys = r)"
  by (rule lx_save_next) simp_all

lemma lx_chars:
  assumes "xs = c # r" "length r < f" "\<not> p EOZ"
  shows "lx rd (steps [save_and_next H rd, while_do f (current_is p) (save_and_next H rd)]) xs (\<lambda>_ ys. suffix ys r)"
  unfolding steps.simps
proof (rule lx_seq [OF lx_save_next_is [OF assms(1)]], simp only:, rule lx_seq [OF lx_while])
  show "lx rd (save_and_next H rd) (c # r) (\<lambda>_ ys. ys = r)" for c r by (rule lx_save_next) simp_all
qed (use assms in \<open>auto intro: lx_ret\<close>)

lemma lx_number_end: "lx rd (seq (bnd (get decpoint) (buffreplace a)) (bnd (buffer_number H) (\<lambda>r. case r of
    Some n \<Rightarrow> ret (SNumber n) | None \<Rightarrow> trydecpoint H))) xs (\<lambda>_ ys. ys = xs)"
proof -
  have repl: "lx rd (buffreplace b d) xs (\<lambda>_ ys. ys = xs)" for b d
    unfolding buffreplace_def by (rule lx_upd) simp_all
  have num: "lx rd (buffer_number H) xs (\<lambda>_ ys. ys = xs)" unfolding buffer_number_def by (rule lx_get) simp
  have dec: "lx rd (upd (\<lambda>ls. ls\<lparr>decpoint := b\<rparr>)) xs (\<lambda>_ ys. ys = xs)" for b by (rule lx_upd) simp_all
  have get: "lx rd (get decpoint) xs (\<lambda>_ ys. ys = xs)" by (rule lx_get) simp
  have again: "lx rd (trydecpoint H) xs (\<lambda>_ ys. ys = xs)"
    unfolding trydecpoint_def steps.simps
    by (rule lx_bnd [OF get], simp only:, rule lx_seq [where R = "\<lambda>_ ys. ys = xs"], rule lx_seq [OF dec], simp only:,
        rule lx_seq [OF repl], rule lx_ret, simp, simp only:, rule lx_bnd [OF num])
      (auto intro: lx_ret lx_seq [OF repl] lx_lexerror split: option.split)
  show ?thesis
    by (rule lx_seq [where R = "\<lambda>_ ys. ys = xs"], rule lx_bnd [OF get], simp only:, rule repl, simp only:,
        rule lx_bnd [OF num]) (auto intro: lx_ret again split: option.split)
qed

lemma lx_read_numeral:
  assumes "xs = c # r" "length r < f"
  shows "lx rd (read_numeral f H rd) xs (\<lambda>_ ys. suffix ys r)"
proof -
  have sign: "lx rd (if e then bnd (check_next H rd chars) (\<lambda>_. ret ()) else ret ()) ys (\<lambda>_ zs. suffix zs r)"
    if "suffix ys r" for e ys chars
    using that by (intro lx_if lx_bnd [OF lx_check_next] lx_ret) (auto split: if_splits dest: suffix_ConsD)
  have rest: "lx rd (steps [while_do f (current_is (\<lambda>c. in_class isalnum c \<or> is_char CHR ''_'' c)) (save_and_next H rd),
      save H 0]) ys (\<lambda>_ zs. suffix zs r)" if "suffix ys r" for ys
    unfolding steps.simps
  proof (rule lx_seq [OF lx_while])
    show "length ys < f" using suffix_length_le [OF that] assms(2) by simp
    show "lx rd (save_and_next H rd) (c # r) (\<lambda>_ ys. ys = r)" for c r by (rule lx_save_next) simp_all
    show "lx rd (seq (save H 0) (ret ())) zs (\<lambda>_ zs. suffix zs r)"
      if "suffix zs ys \<and> \<not> (in_class isalnum (cur zs) \<or> is_char CHR ''_'' (cur zs))" for zs
      using that \<open>suffix ys r\<close>
      by (intro lx_seq [where R = "\<lambda>_ us. us = zs", OF lx_save]) (auto intro!: lx_ret intro: suffix_order.trans)
  qed simp
  show ?thesis unfolding read_numeral_def
  proof (rule lx_seq [OF lx_chars [OF assms]], simp, rule lx_bnd [OF lx_check_next], rule lx_seq [OF sign])
    show "suffix zs r" if "suffix ys r" "if e then \<exists>c. ys = c # zs else zs = ys" for e ys zs
      using that by (auto split: if_splits dest: suffix_ConsD)
  qed (rule lx_seq [OF rest], assumption, rule lx_mono [OF lx_number_end], simp)
qed

lemma lx_read_name:
  assumes "xs = c # r" "length r < f"
  shows "lx rd (read_name f H rd) xs (\<lambda>(tok, _) ys. suffix ys r \<and> tok \<noteq> TK_EOS)"
proof -
  have index: "index_of b ts = Some i \<Longrightarrow> i < length ts" for b ts i
    by (induction ts arbitrary: i) (auto split: if_splits)
  have "i < 21" if "reserved b = Some i" for b i
    using index [of b "take NUM_RESERVED luaX_tokens" i] that by (simp add: reserved_def NUM_RESERVED_def luaX_tokens_def)
  then have reserved: "reserved b = Some i \<Longrightarrow> int i + FIRST_RESERVED \<noteq> TK_EOS" for b i
    by (fastforce simp: token_defs)
  show ?thesis unfolding read_name_def
  proof (rule lx_seq [OF lx_chars [OF assms]], simp, rule lx_bnd [where R = "\<lambda>_ ys. suffix ys r", OF lx_get], assumption)
    show "lx rd (case reserved b of Some i \<Rightarrow> ret (int i + FIRST_RESERVED, NoInfo) | None \<Rightarrow> ret (TK_NAME, SString b))
        ys (\<lambda>(tok, _) ys. suffix ys r \<and> tok \<noteq> TK_EOS)" if "suffix ys r" for b ys
      using that reserved by (cases "reserved b") (auto intro!: lx_ret simp: TK_NAME_def TK_EOS_def)
  qed
qed

section \<open>The analyser\<close>

definition lexed :: "bytes \<Rightarrow> int \<times> SemInfo \<Rightarrow> bytes \<Rightarrow> bool" where
  "lexed xs t ys \<longleftrightarrow> suffix ys xs \<and> (if fst t = TK_EOS then ys = [] else ys \<noteq> xs)"

lemma lexed_suffix: "lexed ys t zs \<Longrightarrow> suffix ys xs \<Longrightarrow> lexed xs t zs"
  by (auto simp: lexed_def dest: suffix_order.trans suffix_order.antisym split: if_splits)

lemma lexed_char: "xs = c # r \<Longrightarrow> suffix ys r \<Longrightarrow> lexed xs (char2int d, i) ys"
proof -
  assume "xs = c # r" "suffix ys r"
  moreover have "char2int d \<noteq> TK_EOS"
  proof
    have "char2int d < 2 ^ 8" unfolding char2int_def using uint_lt2p [of d] by simp
    then show False if "char2int d = TK_EOS" using that by (simp add: token_defs)
  qed
  ultimately show ?thesis by (auto simp: lexed_def suffix_Cons dest: suffix_length_le)
qed

lemma lexed_token: "xs = c # r \<Longrightarrow> suffix ys r \<Longrightarrow> fst t \<noteq> TK_EOS \<Longrightarrow> lexed xs t ys"
  by (auto simp: lexed_def suffix_Cons dest: suffix_length_le)

lemma lx_two_char:
  assumes "xs = c # r" "tk \<noteq> TK_EOS"
  shows "lx rd (two_char rd (char2int c) tk) xs (lexed xs)"
  unfolding two_char_def
proof (rule lx_seq [where R = "\<lambda>_ ys. ys = r", OF lx_next [OF assms(1)]], simp, simp only:, rule lx_current_is, rule lx_if)
  show "lx rd (ret (char2int c, NoInfo)) r (lexed xs)" by (rule lx_ret, rule lexed_char [OF assms(1)]) simp
  assume "\<not> \<not> is_char CHR ''='' (cur r)"
  then obtain d r' where r: "r = d # r'" using cur_is_char by blast
  show "lx rd (seq (next_char rd) (ret (tk, NoInfo))) r (lexed xs)"
    by (rule lx_seq [where R = "\<lambda>_ ys. ys = r'", OF lx_next [OF r]], simp, simp only:, rule lx_ret,
        rule lexed_token [OF assms(1)]) (use r assms(2) in \<open>auto simp: suffix_Cons\<close>)
qed

lemma lx_dots:
  assumes "xs = c # r" "length r \<le> f"
  shows "lx rd (seq (save_and_next H rd) (bnd (check_next H rd ''.'') (\<lambda>dot.
           if dot then bnd (check_next H rd ''.'') (\<lambda>dot. ret (if dot then TK_DOTS else TK_CONCAT, NoInfo))
           else bnd (current_is (in_class isdigit)) (\<lambda>digit.
             if \<not> digit then ret (char2int c, NoInfo) else bnd (read_numeral f H rd) (\<lambda>n. ret (TK_NUMBER, n)))))) xs (lexed xs)"
proof (rule lx_seq [OF lx_save_next_is [OF assms(1)]], simp only:, rule lx_bnd [OF lx_check_next], rule lx_if)
  show "lx rd (bnd (check_next H rd ''.'') (\<lambda>dot. ret (if dot then TK_DOTS else TK_CONCAT, NoInfo))) ys (lexed xs)"
    if "if dot then \<exists>c. r = c # ys else ys = r" dot for dot ys
    using that
    by (intro lx_bnd [OF lx_check_next] lx_ret lexed_token [OF assms(1)])
      (auto simp: token_defs suffix_Cons split: if_splits)
  show "lx rd (bnd (current_is (in_class isdigit)) (\<lambda>digit.
      if \<not> digit then ret (char2int c, NoInfo) else bnd (read_numeral f H rd) (\<lambda>n. ret (TK_NUMBER, n)))) ys (lexed xs)"
    if "if dot then \<exists>c. r = c # ys else ys = r" "\<not> dot" for dot ys
  proof (rule lx_current_is, rule lx_if)
    show "lx rd (ret (char2int c, NoInfo)) ys (lexed xs)"
      using that by (intro lx_ret lexed_char [OF assms(1)]) simp
    assume "\<not> \<not> in_class isdigit (cur ys)"
    then obtain d zs where ys: "ys = d # zs" using not_EOZ(2) by (cases ys) auto
    then have r: "r = d # zs" using that by simp
    then have "length zs < f" using assms(2) by simp
    then show "lx rd (bnd (read_numeral f H rd) (\<lambda>n. ret (TK_NUMBER, n))) ys (lexed xs)"
      by (intro lx_bnd [OF lx_read_numeral [OF ys]] lx_ret lexed_token [OF assms(1)])
        (auto simp: token_defs suffix_Cons r)
  qed
qed

lemma lx_long_bracket:
  assumes "xs = c # r" "length xs \<le> f"
  shows "lx rd (bnd (skip_sep f H rd) (\<lambda>sep.
           if 0 \<le> sep then bnd (read_long_string f H rd True sep) (\<lambda>s. ret (TK_STRING, s))
           else if sep = - 1 then ret (char2int c, NoInfo)
           else luaX_lexerror H ''invalid long string delimiter'' TK_STRING)) xs (lexed xs)"
proof (rule lx_bnd [OF lx_skip_sep [OF assms(1)]])
  fix n :: int and ys
  assume ys: "suffix ys r \<and> (0 \<le> n \<longrightarrow> cur ys = char2int c)"
  show "lx rd (if 0 \<le> n then bnd (read_long_string f H rd True n) (\<lambda>s. ret (TK_STRING, s))
           else if n = - 1 then ret (char2int c, NoInfo)
           else luaX_lexerror H ''invalid long string delimiter'' TK_STRING) ys (lexed xs)"
  proof (intro lx_if)
    assume n: "0 \<le> n"
    then obtain d zs where zs: "ys = d # zs" using ys by (cases ys) auto
    show "lx rd (bnd (read_long_string f H rd True n) (\<lambda>s. ret (TK_STRING, s))) ys (lexed xs)"
      by (rule lx_bnd [OF lx_long_string [OF zs _ n]],
          use suffix_length_le [of ys r] ys assms in simp, rule lx_ret, rule lexed_token [OF assms(1)])
        (use ys zs in \<open>auto simp: token_defs dest: suffix_ConsD suffix_order.trans\<close>)
  qed (use ys in \<open>auto intro: lx_ret lexed_char [OF assms(1)] lx_lexerror\<close>)
qed (use assms in simp)

text \<open>The rest of a comment, after \<open>--\<close>.\<close>

definition comment :: "nat \<Rightarrow> ('s, 'h) host_scheme \<Rightarrow> 'd reader \<Rightarrow> ('d, int \<times> SemInfo) lexer" where
  "comment f H rd =
     bnd (current_is (is_char CHR ''['')) (\<lambda>bracket.
     bnd (if bracket then bnd (skip_sep f H rd) (\<lambda>sep. seq resetbuffer (ret sep)) else ret (- 1)) (\<lambda>sep.
       if 0 \<le> sep then
         bnd (read_long_string f H rd False sep) (\<lambda>_. seq resetbuffer (llex_loop f H rd))
       else
         seq (while_do f (current_is (\<lambda>c. \<not> newline c \<and> c \<noteq> EOZ)) (next_char rd)) (llex_loop f H rd)))"

lemma lx_comment:
  assumes loop: "\<And>zs. suffix zs ys \<Longrightarrow> lx rd (llex_loop f H rd) zs Q" and f: "length ys < f"
  shows "lx rd (comment f H rd) ys Q"
  unfolding comment_def
proof (rule lx_current_is, rule lx_bnd [where R = "\<lambda>n us. suffix us ys \<and> (0 \<le> n \<longrightarrow> us \<noteq> [])"])
  let ?R = "\<lambda>n us. suffix us ys \<and> (0 \<le> (n :: int) \<longrightarrow> us \<noteq> [])"
  show "lx rd (if is_char CHR ''['' (cur ys) then bnd (skip_sep f H rd) (\<lambda>sep. seq resetbuffer (ret sep)) else ret (- 1)) ys ?R"
  proof (rule lx_if)
    assume "is_char CHR ''['' (cur ys)"
    then obtain r where r: "ys = chr CHR ''['' # r" using cur_is_char by blast
    show "lx rd (bnd (skip_sep f H rd) (\<lambda>sep. seq resetbuffer (ret sep))) ys ?R"
      by (rule lx_bnd [OF lx_skip_sep [OF r]], use f r in simp, rule lx_seq [where R = "\<lambda>_. ?R a" for a], rule lx_resetbuffer)
        (auto intro: lx_ret simp: r suffix_Cons)
  qed (auto intro: lx_ret)
  fix n us
  assume us: "?R n us"
  have le: "length us < f" using us suffix_length_le [of us ys] f by simp
  show "lx rd (if 0 \<le> n then bnd (read_long_string f H rd False n) (\<lambda>_. seq resetbuffer (llex_loop f H rd))
      else seq (while_do f (current_is (\<lambda>c. \<not> newline c \<and> c \<noteq> EOZ)) (next_char rd)) (llex_loop f H rd)) us Q"
  proof (rule lx_if)
    assume n: "0 \<le> n"
    then obtain d r where r: "us = d # r" using us by (cases us) auto
    have "suffix zs ys" if "suffix zs r" for zs using that us r by (auto dest: suffix_ConsD suffix_order.trans)
    then show "lx rd (bnd (read_long_string f H rd False n) (\<lambda>_. seq resetbuffer (llex_loop f H rd))) us Q"
      using le by (intro lx_bnd [OF lx_long_string [OF r _ n]])
        (auto intro!: lx_seq [where R = "\<lambda>_ zs. suffix zs ys"] lx_resetbuffer loop)
  next
    show "lx rd (seq (while_do f (current_is (\<lambda>c. \<not> newline c \<and> c \<noteq> EOZ)) (next_char rd)) (llex_loop f H rd)) us Q"
    proof (rule lx_seq [OF lx_while [OF _ _ le]])
      show "lx rd (next_char rd) (c # r) (\<lambda>_ ys. ys = r)" for c r by (rule lx_next) simp_all
      show "lx rd (llex_loop f H rd) zs Q" if "suffix zs us \<and> \<not> (\<not> newline (cur zs) \<and> cur zs \<noteq> EOZ)" for zs
        using that us by (intro loop) (auto dest: suffix_order.trans)
    qed simp
  qed
qed

lemma llex_loop_Suc:
  "llex_loop (Suc f) H rd =
     bnd (get current) (\<lambda>c.
       if newline c then seq (inclinenumber H rd) (llex_loop f H rd)
       else if is_char CHR ''-'' c then
         seq (next_char rd) (bnd (current_is (is_char CHR ''-'')) (\<lambda>minus.
           if \<not> minus then ret (c, NoInfo) else seq (next_char rd) (comment f H rd)))
       else if is_char CHR ''['' c then
         bnd (skip_sep f H rd) (\<lambda>sep.
           if 0 \<le> sep then bnd (read_long_string f H rd True sep) (\<lambda>s. ret (TK_STRING, s))
           else if sep = - 1 then ret (c, NoInfo)
           else luaX_lexerror H ''invalid long string delimiter'' TK_STRING)
       else if is_char CHR ''='' c then two_char rd c TK_EQ
       else if is_char CHR ''<'' c then two_char rd c TK_LE
       else if is_char CHR ''>'' c then two_char rd c TK_GE
       else if is_char CHR ''~'' c then two_char rd c TK_NE
       else if is_char CHR 0x22 c \<or> is_char CHR 0x27 c then bnd (read_string f H rd c) (\<lambda>s. ret (TK_STRING, s))
       else if is_char CHR ''.'' c then
         seq (save_and_next H rd) (bnd (check_next H rd ''.'') (\<lambda>dot.
           if dot then bnd (check_next H rd ''.'') (\<lambda>dot. ret (if dot then TK_DOTS else TK_CONCAT, NoInfo))
           else bnd (current_is (in_class isdigit)) (\<lambda>digit.
             if \<not> digit then ret (c, NoInfo) else bnd (read_numeral f H rd) (\<lambda>n. ret (TK_NUMBER, n)))))
       else if c = EOZ then ret (TK_EOS, NoInfo)
       else if in_class isspace c then seq (next_char rd) (llex_loop f H rd)
       else if in_class isdigit c then bnd (read_numeral f H rd) (\<lambda>n. ret (TK_NUMBER, n))
       else if in_class isalpha c \<or> is_char CHR ''_'' c then read_name f H rd
       else seq (next_char rd) (ret (c, NoInfo)))"
  by (simp add: comment_def cong: if_cong)

lemma lx_llex_loop: "length xs < f \<Longrightarrow> lx rd (llex_loop f H rd) xs (lexed xs)"
proof (induction f arbitrary: xs)
  case (Suc f)
  have loop: "lx rd (llex_loop f H rd) ys (lexed xs)" if "strict_suffix ys xs" for ys
    using suffix_length_less [OF that] Suc.prems that
    by (intro lx_mono [OF Suc.IH]) (auto simp: strict_suffix_def intro: lexed_suffix)
  show ?case
  proof (cases xs)
    case Nil
    have "is_char c EOZ = False" "newline EOZ = False" for c by simp_all
    then show ?thesis
      by (simp only: llex_loop_Suc) (rule lx_current, simp add: Nil lexed_def lx_ret)
  next
    case (Cons c r)
    have xs: "xs = c # r" by fact
    have f: "length r < f" "length r \<le> f" "length xs \<le> f" using Suc.prems xs by auto
    have less: "strict_suffix ys xs" if "suffix ys r" for ys
      using that by (auto simp: xs strict_suffix_def suffix_Cons dest: suffix_length_le)
    have one: "lx rd (seq (next_char rd) m) xs Q" if "lx rd m r Q" for m :: "('a, 'e) lexer" and Q
      by (rule lx_seq [where R = "\<lambda>_ ys. ys = r", OF lx_next [OF xs]]) (use that in simp_all)
    have dash: "lx rd (bnd (current_is (is_char CHR ''-'')) (\<lambda>minus.
        if \<not> minus then ret (char2int c, NoInfo) else seq (next_char rd) (comment f H rd))) r (lexed xs)"
    proof (rule lx_current_is, rule lx_if)
      assume "\<not> \<not> is_char CHR ''-'' (cur r)"
      then obtain ys where r: "r = chr CHR ''-'' # ys" using cur_is_char by blast
      have "lx rd (llex_loop f H rd) zs (lexed xs)" if "suffix zs ys" for zs
        using that by (intro loop less) (simp add: r suffix_Cons)
      then show "lx rd (seq (next_char rd) (comment f H rd)) r (lexed xs)"
        using f r by (intro lx_seq [where R = "\<lambda>_ zs. zs = ys", OF lx_next [OF r]]) (auto intro!: lx_comment)
    qed (rule lx_ret, rule lexed_char [OF xs], simp)
    have nl: "lx rd (seq (inclinenumber H rd) (llex_loop f H rd)) xs (lexed xs)" if "newline (char2int c)"
      using that by (intro lx_seq [OF lx_inclinenumber]) (simp_all add: xs, use loop xs in blast)
    have string: "lx rd (bnd (read_string f H rd (char2int c)) (\<lambda>s. ret (TK_STRING, s))) xs (lexed xs)"
      by (rule lx_bnd [OF lx_read_string [OF xs f(1)]], rule lx_ret, rule lexed_token [OF xs]) (auto simp: token_defs)
    have number: "lx rd (bnd (read_numeral f H rd) (\<lambda>n. ret (TK_NUMBER, n))) xs (lexed xs)"
      by (rule lx_bnd [OF lx_read_numeral [OF xs f(1)]], rule lx_ret, rule lexed_token [OF xs]) (auto simp: token_defs)
    have name: "lx rd (read_name f H rd) xs (lexed xs)"
      by (rule lx_mono [OF lx_read_name [OF xs f(1)]]) (auto intro: lexed_token [OF xs])
    have two: "lx rd (two_char rd (char2int c) tk) xs (lexed xs)" if "tk \<noteq> TK_EOS" for tk
      by (rule lx_two_char [OF xs that])
    have space: "lx rd (llex_loop f H rd) r (lexed xs)" by (rule loop, rule less) simp
    have char: "lx rd (ret (char2int c, NoInfo)) r (lexed xs)" by (rule lx_ret, rule lexed_char [OF xs]) simp
    have first: "cur xs = char2int c" by (simp add: xs)
    show ?thesis unfolding llex_loop_Suc
      by (rule lx_current, unfold first, intro lx_if;
          (rule one [OF dash] lx_long_bracket [OF xs f(3)] string lx_dots [OF xs f(2)] number name
            one [OF space] one [OF char] | erule nl | rule two, simp add: token_defs | simp))
  qed
qed simp

theorem llex_forward:
  assumes "ahead rd xs ls" "length xs < f"
  shows "wp (llex f H rd) (\<lambda>t ls'. ls_ahead ls' = ls_ahead ls \<and> (\<exists>ys. lexed xs t ys \<and> ahead rd ys ls'))
           (\<lambda>e _. e = LUA_ERRSYNTAX) ls"
proof -
  have "lx rd (llex f H rd) xs (lexed xs)"
    unfolding llex_def
    by (rule lx_seq [where R = "\<lambda>_ ys. ys = xs"], rule lx_resetbuffer, simp, simp only:, rule lx_llex_loop [OF assms(2)])
  then show ?thesis using assms(1) by (simp add: lx_def)
qed

section \<open>A whole input\<close>

lemma luaX_next_forward:
  assumes "ahead rd xs ls" "length xs < f" "token (ls_ahead ls) = TK_EOS"
  shows "wp (luaX_next f H rd) (\<lambda>_ ls'. token (ls_ahead ls') = TK_EOS \<and>
           (\<exists>ys. lexed xs (token (ls_t ls'), seminfo (ls_t ls')) ys \<and> ahead rd ys ls')) (\<lambda>e _. e = LUA_ERRSYNTAX) ls"
proof -
  let ?ls = "ls\<lparr>lastline := linenumber ls\<rparr>"
  have "ahead rd xs ?ls" using assms(1) by (simp add: ahead_iff)
  note llex = llex_forward [OF this assms(2), of H]
  have "wp (bnd (llex f H rd) (\<lambda>(tok, info). upd (\<lambda>ls. ls\<lparr>ls_t := \<lparr>token = tok, seminfo = set_info info (ls_t ls)\<rparr>\<rparr>)))
     (\<lambda>_ ls'. token (ls_ahead ls') = TK_EOS \<and>
        (\<exists>ys. lexed xs (token (ls_t ls'), seminfo (ls_t ls')) ys \<and> ahead rd ys ls')) (\<lambda>e _. e = LUA_ERRSYNTAX) ?ls"
    unfolding wp_bnd
    by (rule wp_mono [OF llex]) (use assms(3) in \<open>fastforce simp: wps ahead_iff lexed_def\<close>)+
  then show ?thesis using assms(3) by (simp add: luaX_next_def wps)
qed

lemma luaX_next_rounds:
  assumes "ahead rd xs ls" "length xs < f" "token (ls_ahead ls) = TK_EOS" "length xs \<le> n"
  shows "wp (steps (replicate (Suc n) (luaX_next f H rd))) (\<lambda>_ ls'. token (ls_t ls') = TK_EOS) (\<lambda>e _. e = LUA_ERRSYNTAX) ls"
  using assms
proof (induction n arbitrary: xs ls)
  case 0
  then show ?case
    by (simp add: wps, intro wp_mono [OF luaX_next_forward [OF 0(1-3)]]) (auto simp: lexed_def wps split: if_splits)
next
  case (Suc n)
  have "wp (steps (replicate (Suc n) (luaX_next f H rd))) (\<lambda>_ ls'. token (ls_t ls') = TK_EOS) (\<lambda>e _. e = LUA_ERRSYNTAX) ls'"
    if "token (ls_ahead ls') = TK_EOS" "lexed xs t ys" "ahead rd ys ls'" for ls' t ys
  proof (rule Suc.IH [OF that(3) _ that(1)])
    have "suffix ys xs" "ys = [] \<or> ys \<noteq> xs" using that(2) by (auto simp: lexed_def split: if_splits)
    then have "length ys \<le> length xs" "ys = [] \<or> length ys < length xs"
      using suffix_length_less [of ys xs] by (auto dest: suffix_length_le simp: strict_suffix_def)
    then show "length ys < f" "length ys \<le> n" using Suc.prems(2,4) by auto
  qed
  then show ?case
    unfolding replicate_Suc [of "Suc n"] wp_steps
    by (intro wp_mono [OF luaX_next_forward [OF Suc.prems(1-3)]]) blast+
qed

text \<open>
  Property C8. Reading any input token by token ends: with the stream set up by \<open>luaX_setinput\<close> over
  a reader that delivers the characters \<open>xs\<close>, in whatever pieces, \<open>luaX_next\<close> called once more than
  there are characters has reached the end token, or one of the calls has raised a syntax error. No
  call runs forever, reads past the end of the input or past a piece, or needs more rounds of a loop
  than there are characters.
\<close>

theorem luaX_next_reaches_end:
  assumes "delivers rd d xs" "length xs < f"
  shows "wp (seq (luaX_setinput rd (luaZ_init d) source) (steps (replicate (Suc (length xs)) (luaX_next f H rd))))
           (\<lambda>_ ls'. token (ls_t ls') = TK_EOS) (\<lambda>e _. e = LUA_ERRSYNTAX) ls"
proof -
  define ls1 where "ls1 = ls\<lparr>decpoint := 46, ls_ahead := (ls_ahead ls)\<lparr>token := TK_EOS\<rparr>, ls_z := luaZ_init d,
            linenumber := 1, lastline := 1, ls_source := source, buffsize := MINBUFFER\<rparr>"
  have "stream rd (ls_z ls1) xs" using stream_init [OF assms(1)] by (simp add: ls1_def)
  from zgetc_stream [OF this] obtain z' where z': "zgetc rd ls1 = Val (cur xs) (ls1\<lparr>ls_z := z'\<rparr>)"
    "xs \<noteq> [] \<longrightarrow> stream rd z' (tl xs)" by blast
  let ?ls = "ls1\<lparr>ls_z := z', current := cur xs\<rparr>"
  have "ahead rd xs ?ls" "token (ls_ahead ?ls) = TK_EOS" using z'(2) by (simp_all add: ahead_iff ls1_def)
  then have "wp (steps (replicate (Suc (length xs)) (luaX_next f H rd))) (\<lambda>_ ls'. token (ls_t ls') = TK_EOS)
      (\<lambda>e _. e = LUA_ERRSYNTAX) ?ls"
    by (rule luaX_next_rounds [OF _ assms(2) _ order_refl])
  moreover have "luaX_setinput rd (luaZ_init d) source ls = Val () ?ls"
    by (simp add: luaX_setinput_def next_char_def seq_def bnd_def upd_run z'(1) flip: ls1_def)
  ultimately show ?thesis by (simp add: wp_seq wp_Val [where m = "luaX_setinput rd (luaZ_init d) source"])
qed

text \<open>A reader of one piece, and a state to start from.\<close>

fun one_piece :: "bytes option \<Rightarrow> bytes option \<times> bytes option" where
  "one_piece None = (None, None)"
| "one_piece (Some b) = (Some b, None)"

lemma one_piece_delivers: "b \<noteq> [] \<Longrightarrow> delivers one_piece (Some b) b"
  using piece [of one_piece "Some b" b None "[]"] at_end [of one_piece None None] by simp

definition sample_lexer :: "bytes option LexState" where
  "sample_lexer = \<lparr>current = EOZ, linenumber = 1, lastline = 1, ls_t = \<lparr>token = TK_EOS, seminfo = NoInfo\<rparr>,
     ls_ahead = \<lparr>token = TK_EOS, seminfo = NoInfo\<rparr>, ls_z = luaZ_init None, buff = [], buffsize = MINBUFFER, ls_source = '''',
     decpoint = chr CHR ''.'', lex_error = []\<rparr>"

definition sample_host :: "unit host" where
  "sample_host = \<lparr>strtod = \<lambda>_. (0, 0), strtoul16 = \<lambda>_. (0, 0), lua_number2str = \<lambda>_. lit ''1'', sprintf_p = \<lambda>_. [],
     strcoll = \<lambda>_ _. 0, str_addr = \<lambda>_. 0, where1 = \<lambda>_. [], call_foreign = \<lambda>_ _ _. Undef\<rparr>"

theorem luaX_next_reaches_end_witness:
  "wp (seq (luaX_setinput one_piece (luaZ_init (Some (lit ''a=b''))) ''@f'') (steps (replicate 4 (luaX_next 4 sample_host one_piece))))
     (\<lambda>_ ls'. token (ls_t ls') = TK_EOS) (\<lambda>e _. e = LUA_ERRSYNTAX) sample_lexer"
  using luaX_next_reaches_end [OF one_piece_delivers, of "lit ''a=b''" 4 "''@f''" sample_host sample_lexer]
  by (simp add: lit_def eval_nat_numeral)

end
