(* ===== verification/Quoting.thy ===== *)
theory Quoting
  imports Format Lexing
begin

text \<open>
  What \<open>string.format\<close> writes for \<open>%q\<close> is read back by the lexical analyser as the same string.
\<close>

section \<open>Writing\<close>

definition quote :: "bytes \<Rightarrow> bytes" where
  "quote b = chr CHR 0x22 # concat (map escaped b) @ [chr CHR 0x22]"

lemma length_quote: "length (quote b) \<le> 4 * length b + 2"
  by (induction b) (auto simp: quote_def escaped_def)

lemma quote_loop_each: "quote_loop H C s = add_each (luaL_addchar H C) (concat (map escaped s))"
  by (induction s) ((rule ext)+, simp add: luaL_addlstring_def add_each_append)+

lemma addquoted_each:
  "luaL_checklstring H C arg s = Val b s \<Longrightarrow> addquoted H C B arg s = add_each (luaL_addchar H C) (quote b) B s"
  by (simp add: addquoted_def quote_def quote_loop_each add_each_append bnd_def split: res.split)

lemma str_format_q:
  assumes "string_call H (lit ''%q'') s" "2 \<le> length (stack s)" "stack s ! 1 = TString b" "length (quote b) < MAX_SIZET"
  shows "str_format H C s = Val 1 (s\<lparr>stack := stack s @ [TString (quote b)]\<rparr>)"
proof -
  have arg: "luaL_checklstring H C 2 s = Val b s"
    using checklstring_string [of 1 s b H C] assms(2,3) by simp
  have scan: "scanformat (lit ''%q'') 1 = Inr (lit ''%q'', 1)"
    by (simp add: scanformat_def skip_flags_def skip_digit_def FLAGS_def lit_def Let_def char_at_def isdigit_def between_def)
  let ?fmt = "lit ''%q''" and ?n = "int (length (stack s))"
  have stop: "format_loop H C ?n ?fmt (Suc (Suc 0)) 2 B t = Val B t" for B t
    by (subst format_loop.simps) (simp add: lit_def)
  have item: "format_item H C 2 ?fmt 0x71 B = addquoted H C B 2" for B
    by (simp add: format_item_def lit_def Let_def)
  have "format_loop H C ?n ?fmt 0 1 luaL_buffinit s =
      bnd (format_item H C 2 ?fmt 0x71 luaL_buffinit) (\<lambda>B. format_loop H C ?n ?fmt (Suc (Suc 0)) 2 B) s"
    using assms(2) scan by (subst format_loop.simps) (simp add: lit_def L_ESC_def char_at_def seq_def bnd_def)
  also have "\<dots> = add_each (luaL_addchar H C) (quote b) luaL_buffinit s"
    by (simp add: item bnd_def addquoted_each [OF arg] stop split: res.split)
  finally have loop: "format_loop H C ?n ?fmt 0 1 luaL_buffinit s = add_each (luaL_addchar H C) (quote b) luaL_buffinit s" .
  have "str_format H C s = bnd (format_loop H C ?n ?fmt 0 1 luaL_buffinit) (\<lambda>B. bnd (luaL_pushresult H C B) (\<lambda>_. ret 1)) s"
    by (simp add: str_format_def bnd_def lua_gettop_def check_first [OF assms(1)])
  also have "\<dots> = bnd (add_each (luaL_addchar H C) (quote b) luaL_buffinit) (\<lambda>B. bnd (luaL_pushresult H C B) (\<lambda>_. ret 1)) s"
    by (simp add: bnd_def loop)
  finally show ?thesis using built [OF assms(1,4)] by simp
qed

section \<open>Reading\<close>

declare ret_run [simp del] get_run [simp del] upd_run [simp del] string_loop.simps [simp del]

text \<open>The analyser with \<open>xs\<close> ahead, \<open>b\<close> in the buffer and \<open>n\<close> lines counted.\<close>

definition reading :: "'d reader \<Rightarrow> bytes \<Rightarrow> bytes \<Rightarrow> int \<Rightarrow> 'd LexState \<Rightarrow> bool" where
  "reading rd xs b n ls \<longleftrightarrow> ahead rd xs ls \<and> buff ls = b \<and> linenumber ls = n"

text \<open>\<open>does m xs b n a ys c k\<close>: from there \<open>m\<close> returns \<open>a\<close> with \<open>ys\<close> ahead and so on.\<close>

definition does :: "'d reader \<Rightarrow> ('d, 'a) lexer \<Rightarrow> bytes \<times> bytes \<times> int \<Rightarrow> 'a \<Rightarrow> bytes \<times> bytes \<times> int \<Rightarrow> bool" where
  "does rd m st a st' \<longleftrightarrow> (\<forall>ls. (case st of (xs, b, n) \<Rightarrow> reading rd xs b n ls) \<longrightarrow>
     (\<exists>ls'. m ls = Val a ls' \<and> (case st' of (ys, c, k) \<Rightarrow> reading rd ys c k ls')))"

lemma does_bnd: "does rd m st a st1 \<Longrightarrow> does rd (f a) st1 c st2 \<Longrightarrow> does rd (bnd m f) st c st2"
  unfolding does_def bnd_def by fastforce

lemma does_seq: "does rd m st a st1 \<Longrightarrow> does rd m' st1 c st2 \<Longrightarrow> does rd (seq m m') st c st2"
  unfolding seq_def by (rule does_bnd)

lemma does_ret: "does rd (ret a) st a st"
  by (auto simp: does_def ret_run)

lemma does_current: "does rd (f (cur xs)) (xs, b, n) a st \<Longrightarrow> does rd (bnd (get current) f) (xs, b, n) a st"
  by (auto simp: does_def bnd_def get_run reading_def ahead_current)

lemma does_current_is: "does rd (f (p (cur xs))) (xs, b, n) a st \<Longrightarrow> does rd (bnd (current_is p) f) (xs, b, n) a st"
  by (auto simp: does_def bnd_def get_run reading_def ahead_current)

lemma does_next: "does rd (next_char rd) (c # xs, b, n) () (xs, b, n)"
proof -
  have "\<exists>ls'. next_char rd ls = Val () ls' \<and> reading rd xs b n ls'" if r: "reading rd (c # xs) b n ls" for ls
  proof -
    obtain z' where z: "zgetc rd ls = Val (cur xs) (ls\<lparr>ls_z := z'\<rparr>)" "xs \<noteq> [] \<longrightarrow> stream rd z' (tl xs)"
      using zgetc_stream [of rd ls xs] r by (auto simp: reading_def)
    then show ?thesis using r by (auto simp: next_char_def bnd_def upd_run reading_def ahead_iff)
  qed
  then show ?thesis by (simp add: does_def)
qed

lemma does_save:
  assumes "length b < MAX_SIZET div 2"
  shows "does rd (save H i) (xs, b, n) () (xs, b @ [word_of_int i], n)"
  using assms by (auto simp: does_def save_def bnd_def seq_def get_run upd_run ret_run reading_def ahead_iff)

lemma does_save_next:
  "length b < MAX_SIZET div 2 \<Longrightarrow> does rd (save_and_next H rd) (c # xs, b, n) () (xs, b @ [c], n)"
  unfolding save_and_next_def using does_save [of b rd H "char2int c" "c # xs" n]
  by (intro does_current does_seq [OF _ does_next]) (simp add: char2int_def)

text \<open>Tests of the current character.\<close>

lemma char_tests:
  "is_char d (char2int c) \<longleftrightarrow> c = chr d" "in_class p (char2int c) \<longleftrightarrow> p c"
  "newline (char2int c) \<longleftrightarrow> c = 0x0A \<or> c = 0x0D"
  by (simp_all add: is_char_def in_class_def newline_def) (simp_all add: char2int_def)

lemma escape_char_none:
  "c \<notin> set (map (\<lambda>(k, v). chr k) escapes) \<Longrightarrow> escape_char (char2int c) = None"
  by (auto simp: escape_char_def escapes_def)

lemma does_newline:
  assumes "c = 0x0A" "n + 1 < MAX_INT" "\<not> newline (cur xs)"
  shows "does rd (inclinenumber H rd) (c # xs, b, n) () (xs, b, n + 1)"
proof -
  have count: "does rd (upd (\<lambda>ls. ls\<lparr>linenumber := linenumber ls + 1\<rparr>)) (xs, b, n) () (xs, b, n + 1)"
    by (auto simp: does_def upd_run reading_def ahead_iff)
  have check: "does rd (bnd (get linenumber) (\<lambda>n. if MAX_INT \<le> n then luaX_syntaxerror H ''chunk has too many lines'' else ret ()))
      (xs, b, n + 1) () (xs, b, n + 1)"
    using assms(2) by (auto simp: does_def bnd_def get_run ret_run reading_def)
  have "does rd (if newline (cur xs) \<and> cur xs \<noteq> d then next_char rd else ret ()) (xs, b, n) () (xs, b, n)" for d
    using assms(3) by (simp add: does_ret)
  then show ?thesis unfolding inclinenumber_def
    by (intro does_current does_seq [OF does_next] does_seq [OF _ does_seq [OF count check]])
qed

lemma does_escape:
  assumes "length b < MAX_SIZET div 2" "c = 0x22 \<or> c = 0x5C"
  shows "does rd (read_escape H rd) (0x5C # c # xs, b, n) () (xs, b @ [c], n)"
proof -
  have none: "escape_char (char2int c) = None"
    by (rule escape_char_none) (use assms(2) in \<open>auto simp: escapes_def\<close>)
  show ?thesis unfolding read_escape_def
    by (rule does_seq [OF does_next], rule does_current)
      (use assms none in \<open>auto simp: char_tests isdigit_def between_def intro: does_save_next\<close>)
qed

lemma does_escape_newline:
  assumes "length b < MAX_SIZET div 2" "n + 1 < MAX_INT" "\<not> newline (cur xs)"
  shows "does rd (read_escape H rd) (0x5C # 0x0A # xs, b, n) () (xs, b @ [0x0A], n + 1)"
proof -
  have none: "escape_char (char2int 0x0A) = None"
    by (rule escape_char_none) (simp add: escapes_def)
  have "does rd (seq (save H 0x0A) (inclinenumber H rd)) (0x0A # xs, b, n) () (xs, b @ [0x0A], n + 1)"
    using does_save [OF assms(1), of rd H "0x0A" "0x0A # xs" n] by (intro does_seq [OF _ does_newline [OF refl assms(2,3)]]) simp
  then show ?thesis unfolding read_escape_def
    by (intro does_seq [OF does_next] does_current) (simp add: none char_tests)
qed

lemma does_escape_return:
  assumes "length b < MAX_SIZET div 2"
  shows "does rd (read_escape H rd) (0x5C # 0x72 # xs, b, n) () (xs, b @ [0x0D], n)"
proof -
  have some: "escape_char (char2int (0x72)) = Some 13"
    by (simp add: escape_char_def escapes_def)
  show ?thesis unfolding read_escape_def
    using does_save [OF assms, of rd H "char2int 13" "0x72 # xs" n]
    by (intro does_seq [OF does_next] does_current)
      (simp add: some, intro does_seq [OF _ does_next], simp add: char2int_def)
qed

lemma does_escape_zero:
  assumes "length b < MAX_SIZET div 2"
  shows "does rd (read_escape H rd) (0x5C # 0x30 # 0x30 # 0x30 # xs, b, n) () (xs, b @ [0], n)"
proof -
  have none: "escape_char (char2int (0x30)) = None"
    by (rule escape_char_none) (simp add: escapes_def)
  have digit: "in_class isdigit (char2int (0x30))" by (simp add: char_tests isdigit_def between_def)
  have "does rd (escape_digits 3 rd 0) (0x30 # 0x30 # 0x30 # xs, b, n) 0 (xs, b, n)"
    using digit by (simp add: eval_nat_numeral Let_def)
      ((intro does_current does_seq [OF does_next] does_current_is | simp add: does_ret)+)
  then have "does rd (bnd (escape_digits 3 rd 0) (\<lambda>v.
      seq (if 255 < v then luaX_lexerror H ''escape sequence too large'' TK_STRING else ret ()) (save H v)))
      (0x30 # 0x30 # 0x30 # xs, b, n) () (xs, b @ [0], n)"
    using does_save [OF assms, of rd H 0 xs n] by (intro does_bnd does_seq) (auto intro: does_ret)
  then show ?thesis unfolding read_escape_def using digit
    by (intro does_seq [OF does_next] does_current) (simp add: none char_tests)
qed

lemma quoted_body_head: "\<not> newline (cur (concat (map escaped s) @ 0x22 # xs))"
  by (cases s) (auto simp: escaped_def char_tests)

text \<open>One round of the loop reads what was written for one character.\<close>

lemma does_escaped:
  assumes "length b < MAX_SIZET div 2" "n + 1 < MAX_INT" "\<not> newline (cur xs)"
    and loop: "does rd (string_loop f H rd (char2int 0x22)) (xs, b @ [c], if c = 0x0A then n + 1 else n) () st"
  shows "does rd (string_loop (Suc f) H rd (char2int 0x22)) (escaped c @ xs, b, n) () st"
proof -
  have "escaped c \<noteq> []" by (simp add: escaped_def)
  then obtain d ds where e: "escaped c @ xs = d # ds" by (cases "escaped c") auto
  have d: "d \<noteq> 0x22" "d \<noteq> 0x0A" "d \<noteq> 0x0D" using e by (auto simp: escaped_def split: if_splits)
  have "does rd (if is_char CHR 0x5C (char2int d) then read_escape H rd else save_and_next H rd) (d # ds, b, n) ()
      (xs, b @ [c], if c = 0x0A then n + 1 else n)"
    using e does_escape [OF assms(1), of c rd H xs n] does_escape_newline [OF assms(1-3), of rd H]
      does_escape_return [OF assms(1), of rd H xs n] does_escape_zero [OF assms(1), of rd H xs n]
      does_save_next [OF assms(1), of rd H c xs n]
    by (auto simp: escaped_def char_tests split: if_splits)
  then show ?thesis
    unfolding string_loop.simps e using d by (intro does_current) (simp add: char_tests does_seq [OF _ loop])
qed

lemma does_quoted_body:
  assumes "length b + length s < MAX_SIZET div 2" "n + int (length s) < MAX_INT" "length s < f"
  shows "does rd (string_loop f H rd (char2int 0x22)) (concat (map escaped s) @ 0x22 # xs, b, n) ()
    (0x22 # xs, b @ s, n + int (count_list s 0x0A))"
  using assms
proof (induction s arbitrary: b n f)
  case Nil
  then obtain g where "f = Suc g" by (cases f) auto
  then show ?case by (auto intro!: does_current simp: string_loop.simps does_ret)
next
  case (Cons c s)
  then obtain g where f: "f = Suc g" by (cases f) auto
  have "does rd (string_loop g H rd (char2int 0x22)) (concat (map escaped s) @ 0x22 # xs, b @ [c], if c = 0x0A then n + 1 else n) ()
      (0x22 # xs, (b @ [c]) @ s, (if c = 0x0A then n + 1 else n) + int (count_list s 0x0A))"
    using Cons.prems f by (intro Cons.IH) auto
  then have "does rd (string_loop (Suc g) H rd (char2int 0x22)) (escaped c @ concat (map escaped s) @ 0x22 # xs, b, n) ()
      (0x22 # xs, (b @ [c]) @ s, (if c = 0x0A then n + 1 else n) + int (count_list s 0x0A))"
    using Cons.prems(1,2) by (intro does_escaped [OF _ _ quoted_body_head]) auto
  then show ?case unfolding f by (simp add: ac_simps split: if_splits)
qed

lemma does_get: "does rd (get (\<lambda>ls. g (buff ls))) (xs, b, n) (g b) (xs, b, n)"
  by (auto simp: does_def get_run reading_def)

lemma does_steps: "does rd m st () st1 \<Longrightarrow> does rd (steps ms) st1 () st2 \<Longrightarrow> does rd (steps (m # ms)) st () st2"
  by (simp add: does_seq)

lemma does_quoted:
  assumes "length b + 2 < MAX_SIZET div 2" "n + int (length b) < MAX_INT" "length b < f"
  shows "does rd (read_string f H rd (char2int 0x22)) (quote b @ xs, [], n) (SString b)
    (xs, 0x22 # b @ [0x22], n + int (count_list b 0x0A))"
proof -
  have "does rd (steps [save_and_next H rd, string_loop f H rd (char2int 0x22), save_and_next H rd]) (quote b @ xs, [], n) ()
      (xs, [0x22] @ b @ [0x22], n + int (count_list b 0x0A))"
  proof -
    have *: "does rd (save_and_next H rd) (0x22 # concat (map escaped b) @ 0x22 # xs, [], n) () (concat (map escaped b) @ 0x22 # xs, [] @ [0x22], n)"
      using assms(1) by (intro does_save_next) (simp add: MAX_SIZET_def)
    have "does rd (string_loop f H rd (char2int 0x22)) (concat (map escaped b) @ 0x22 # xs, [0x22], n) ()
        (0x22 # xs, [0x22] @ b, n + int (count_list b 0x0A))"
      using assms by (intro does_quoted_body) simp_all
    moreover have "does rd (save_and_next H rd) (0x22 # xs, [0x22] @ b, n + int (count_list b 0x0A)) ()
        (xs, ([0x22] @ b) @ [0x22], n + int (count_list b 0x0A))"
      using assms(1) by (intro does_save_next) simp
    ultimately show ?thesis using *
      by (simp add: quote_def) (rule does_seq, assumption, rule does_seq, assumption, rule does_seq, assumption, rule does_ret)
  qed
  from does_seq [OF this, of "get (\<lambda>ls. SString (take (length (buff ls) - 2) (drop 1 (buff ls))))"]
    does_get [of rd "\<lambda>b. SString (take (length b - 2) (drop 1 b))"]
  show ?thesis unfolding read_string_def by (fastforce simp del: steps.simps)
qed

lemma does_llex_quoted:
  assumes "length b + 2 < MAX_SIZET div 2" "n + int (length b) < MAX_INT" "length b + 1 < f"
  shows "does rd (llex f H rd) (quote b @ xs, c, n) (TK_STRING, SString b) (xs, 0x22 # b @ [0x22], n + int (count_list b 0x0A))"
proof -
  obtain g where f: "f = Suc g" "length b < g" using assms(3) by (cases f) auto
  have reset: "does rd resetbuffer (quote b @ xs, c, n) () (quote b @ xs, [], n)"
    by (auto simp: does_def resetbuffer_def upd_run reading_def ahead_iff)
  have "cur (quote b @ xs) = char2int 0x22" by (simp add: quote_def)
  then show ?thesis
    unfolding llex_def f(1) llex_loop_Suc using does_bnd [OF does_quoted [OF assms(1,2) f(2)] does_ret]
    by (intro does_seq [OF reset] does_current) (simp add: char_tests)
qed

lemma first_token_quoted:
  assumes "delivers rd d (quote b)" "length b < 2 ^ 31 - 4" "length b + 1 < f"
  shows "\<exists>ls'. seq (luaX_setinput rd (luaZ_init d) source) (luaX_next f H rd) ls = Val () ls' \<and>
           ls_t ls' = \<lparr>token = TK_STRING, seminfo = SString b\<rparr> \<and> current ls' = EOZ"
proof -
  define ls1 where "ls1 = ls\<lparr>decpoint := 46, ls_ahead := (ls_ahead ls)\<lparr>token := TK_EOS\<rparr>, ls_z := luaZ_init d,
            linenumber := 1, lastline := 1, ls_source := source, buffsize := MINBUFFER\<rparr>"
  have "stream rd (ls_z ls1) (quote b)" using stream_init [OF assms(1)] by (simp add: ls1_def)
  from zgetc_stream [OF this] obtain z' where z': "zgetc rd ls1 = Val (cur (quote b)) (ls1\<lparr>ls_z := z'\<rparr>)"
    "stream rd z' (tl (quote b))" by (auto simp: quote_def)
  let ?ls = "ls1\<lparr>ls_z := z', current := cur (quote b)\<rparr>" let ?ls' = "?ls\<lparr>lastline := linenumber ?ls\<rparr>"
  have set: "luaX_setinput rd (luaZ_init d) source ls = Val () ?ls"
    by (simp add: luaX_setinput_def next_char_def seq_def bnd_def upd_run z'(1) flip: ls1_def)
  have "reading rd (quote b @ []) (buff ?ls') 1 ?ls'"
    using z'(2) by (simp add: reading_def ahead_iff ls1_def)
  moreover have "does rd (llex f H rd) (quote b @ [], buff ?ls', 1) (TK_STRING, SString b) ([], 0x22 # b @ [0x22], 1 + int (count_list b 0x0A))"
    using assms(2,3) by (intro does_llex_quoted) (simp_all add: MAX_SIZET_def MAX_INT_def)
  ultimately obtain ls2 where 2: "llex f H rd ?ls' = Val (TK_STRING, SString b) ls2" "reading rd [] (0x22 # b @ [0x22]) (1 + int (count_list b 0x0A)) ls2"
    unfolding does_def by blast
  have "token (ls_ahead ?ls') = TK_EOS" by (simp add: ls1_def)
  then have "luaX_next f H rd ?ls = Val () (ls2\<lparr>ls_t := \<lparr>token = TK_STRING, seminfo = SString b\<rparr>\<rparr>)"
    using 2(1) by (simp add: luaX_next_def seq_def bnd_def upd_run get_run set_info_def)
  then show ?thesis using set 2(2) by (simp add: seq_Val reading_def)
qed

text \<open>
  Property C9. What \<open>string.format("%q", b)\<close> returns is a string literal of the language for \<open>b\<close>:
  whatever bytes \<open>b\<close> has (quotes, backslashes, line ends, zeros), the analyser that is given the result,
  in whatever pieces, reads one string token with the contents \<open>b\<close> and is at the end of its input.
\<close>

theorem format_q_reads_back:
  assumes "string_call H (lit ''%q'') s" and "2 \<le> length (stack s)" "stack s ! 1 = TString b"
    and "length b < 2 ^ 31 - 4" "length b + 1 < f"
  shows "\<exists>q. str_format H C s = Val 1 (s\<lparr>stack := stack s @ [TString q]\<rparr>) \<and>
    (\<forall>rd d ls. delivers rd d q \<longrightarrow> (\<exists>ls'. seq (luaX_setinput rd (luaZ_init d) source) (luaX_next f H' rd) ls = Val () ls' \<and>
       ls_t ls' = \<lparr>token = TK_STRING, seminfo = SString b\<rparr> \<and> current ls' = EOZ))"
proof -
  have "length (quote b) < MAX_SIZET" using length_quote [of b] assms(4) by (simp add: MAX_SIZET_def)
  note str_format_q [OF assms(1-3) this, of C]
  then show ?thesis
    by (intro exI [of _ "quote b"] conjI allI impI) (auto intro: first_token_quoted [OF _ assms(4,5)])
qed

text \<open>A call on a string with all the characters that are written in another way.\<close>

definition sample_format :: "lua_State fmtlib" where
  "sample_format = \<lparr>strtod = \<lambda>_. (0, 0), strtoul16 = \<lambda>_. (0, 0), lua_number2str = \<lambda>_. lit ''7'', sprintf_p = \<lambda>_. [],
     strcoll = \<lambda>_ _. 0, str_addr = \<lambda>_. 0, where1 = \<lambda>_. [], call_foreign = \<lambda>_ _ _. Undef, bufsiz = 4, called_as = None,
     sprintf = \<lambda>_ _. []\<rparr>"

theorem format_q_reads_back_witness:
  "\<exists>q. str_format sample_format (\<lambda>_ _. undef) (sample_frame [TString (lit ''%q''), TString [0x22, 0x5C, 0x0A, 0x0D, 0, 0x37]])
        = Val 1 (sample_frame [TString (lit ''%q''), TString [0x22, 0x5C, 0x0A, 0x0D, 0, 0x37]]
            \<lparr>stack := [TString (lit ''%q''), TString [0x22, 0x5C, 0x0A, 0x0D, 0, 0x37], TString q]\<rparr>) \<and>
     (\<exists>ls'. seq (luaX_setinput one_piece (luaZ_init (Some q)) ''=q'') (luaX_next 8 sample_host one_piece) sample_lexer = Val () ls' \<and>
       ls_t ls' = \<lparr>token = TK_STRING, seminfo = SString [0x22, 0x5C, 0x0A, 0x0D, 0, 0x37]\<rparr> \<and> current ls' = EOZ)"
proof -
  let ?s = "sample_frame [TString (lit ''%q''), TString [0x22, 0x5C, 0x0A, 0x0D, 0, 0x37]]"
  have call: "string_call sample_format (lit ''%q'') ?s"
    by (simp add: string_call_def sample_frame_def sample_format_def lit_def MAX_SIZET_def LIMIT_val LUA_MINSTACK_def)
  have delivered: "delivers one_piece (Some q) q" for q
    using one_piece_delivers [of q] at_empty [of one_piece "Some []" None] by (cases "q = []") auto
  have "2 \<le> length (stack ?s)" "stack ?s ! 1 = TString [0x22, 0x5C, 0x0A, 0x0D, 0, 0x37]"
    "length [0x22, 0x5C, 0x0A, 0x0D, 0, 0x37 :: u8] < 2 ^ 31 - 4" "length [0x22, 0x5C, 0x0A, 0x0D, 0, 0x37 :: u8] + 1 < 8"
    by (simp_all add: sample_frame_def)
  note read = format_q_reads_back [OF call this, where C = "\<lambda>_ _. undef" and source = "''=q''" and H' = sample_host]
  obtain q where "str_format sample_format (\<lambda>_ _. undef) ?s = Val 1 (?s\<lparr>stack := stack ?s @ [TString q]\<rparr>) \<and>
    (\<forall>rd d (ls :: bytes option LexState). delivers rd d q \<longrightarrow>
      (\<exists>ls'. seq (luaX_setinput rd (luaZ_init d) ''=q'') (luaX_next 8 sample_host rd) ls = Val () ls' \<and>
       ls_t ls' = \<lparr>token = TK_STRING, seminfo = SString [0x22, 0x5C, 0x0A, 0x0D, 0, 0x37]\<rparr> \<and> current ls' = EOZ))"
    using read by (rule exE)
  then show ?thesis using delivered by (intro exI [of _ q]) (simp add: sample_frame_def)
qed

end
