(* ===== verification/Codegen.thy ===== *)
theory Codegen
  imports Lexer Opcodes Protos LuaState "HOL-Library.Signed_Division"
begin

text \<open>
  The code generator (\<open>lcode.h\<close>, \<open>lcode.c\<close>) on the state of the function that is compiled
  (\<open>lparser.h\<close>). An expression is passed and returned where the code changes it through a pointer.
  Reading or writing the code array outside of what is generated is \<open>Undef\<close>, as is a list of jumps
  that never ends. \<open>lua_assert\<close> checks nothing (\<open>llimits.h\<close>).
\<close>

section \<open>The state\<close>

text \<open>
  \<open>code\<close> and \<open>lineinfo\<close> hold the first \<open>pc\<close> elements of the arrays, \<open>ktab\<close> the first \<open>nk\<close> constants.
  \<open>h\<close> holds the entries of the table \<open>fs->h\<close> whose value is a number, by key: keys are compared by raw
  equality, which is how \<open>luaH_set\<close> finds an entry. \<open>h_addr\<close> is the table itself as a key.
\<close>

record FuncState =
  code :: "instruction list"
  lineinfo :: "int list"
  ktab :: "TValue list"
  maxstacksize :: int
  h :: "(TValue \<times> nat) list"
  h_addr :: u64
  lasttarget :: int
  jpc :: int
  freereg :: int
  nactvar :: int

record 'd compiler =
  ls :: "'d LexState"
  fs :: FuncState

type_synonym ('d, 'z, 'a) gen = "(('d, 'z) compiler_scheme, 'a) prog"

datatype expkind = VVOID | VNIL | VTRUE | VFALSE | VK | VKNUM | VLOCAL | VUPVAL | VGLOBAL | VINDEXED | VJMP
  | VRELOCABLE | VNONRELOC | VCALL | VVARARG

text \<open>\<open>et\<close> and \<open>ef\<close> are the lists \<open>t\<close> and \<open>f\<close>.\<close>

record expdesc =
  kind :: expkind
  info :: int
  aux :: int
  nval :: lua_Number
  et :: int
  ef :: int

definition NO_JUMP :: int where "NO_JUMP = - 1"

datatype BinOpr = OPR_ADD | OPR_SUB | OPR_MUL | OPR_DIV | OPR_MOD | OPR_POW | OPR_CONCAT | OPR_NE | OPR_EQ | OPR_LT
  | OPR_LE | OPR_GT | OPR_GE | OPR_AND | OPR_OR | OPR_NOBINOPR

datatype UnOpr = OPR_MINUS | OPR_NOT | OPR_LEN | OPR_NOUNOPR

section \<open>Access\<close>

abbreviation get_fs :: "(FuncState \<Rightarrow> 'a) \<Rightarrow> ('d, 'z, 'a) gen" where "get_fs g \<equiv> get (\<lambda>s. g (fs s))"
abbreviation upd_fs :: "(FuncState \<Rightarrow> FuncState) \<Rightarrow> ('d, 'z, unit) gen" where "upd_fs g \<equiv> upd (\<lambda>s. s\<lparr>fs := g (fs s)\<rparr>)"

definition in_lexer :: "('d, 'a) lexer \<Rightarrow> ('d, 'z, 'a) gen" where
  "in_lexer m = (\<lambda>s. case m (ls s) of
       Val a l \<Rightarrow> Val a (s\<lparr>ls := l\<rparr>) | Raise e l \<Rightarrow> Raise e (s\<lparr>ls := l\<rparr>) | Undef \<Rightarrow> Undef)"

abbreviation pc :: "FuncState \<Rightarrow> int" where "pc F \<equiv> int (length (code F))"
abbreviation nk :: "FuncState \<Rightarrow> int" where "nk F \<equiv> int (length (ktab F))"

definition read_code :: "int \<Rightarrow> ('d, 'z, instruction) gen" where
  "read_code i = bnd (get_fs code) (\<lambda>c. if 0 \<le> i \<and> i < int (length c) then ret (c ! nat i) else undef)"

definition write_code :: "int \<Rightarrow> instruction \<Rightarrow> ('d, 'z, unit) gen" where
  "write_code i x = bnd (get_fs code) (\<lambda>c.
     if 0 \<le> i \<and> i < int (length c) then upd_fs (\<lambda>F. F\<lparr>code := (code F)[nat i := x]\<rparr>) else undef)"

definition has_op :: "instruction \<Rightarrow> OpCode \<Rightarrow> bool" where
  "has_op i c \<longleftrightarrow> GET_OPCODE i = op_num c"

section \<open>Jumps\<close>

definition fixjump :: "('s, 'h) host_scheme \<Rightarrow> int \<Rightarrow> int \<Rightarrow> ('d, 'z, unit) gen" where
  "fixjump H i dest =
     bnd (read_code i) (\<lambda>jmp. let offset = dest - (i + 1) in
     seq (if MAXARG_sBx < \<bar>offset\<bar> then in_lexer (luaX_syntaxerror H ''control structure too long'') else ret ())
       (write_code i (SETARG_sBx jmp offset)))"

definition luaK_getlabel :: "('d, 'z, int) gen" where
  "luaK_getlabel = seq (upd_fs (\<lambda>F. F\<lparr>lasttarget := pc F\<rparr>)) (get_fs pc)"

definition getjump :: "int \<Rightarrow> ('d, 'z, int) gen" where
  "getjump i = bnd (read_code i) (\<lambda>x. let offset = GETARG_sBx x in
     ret (if offset = NO_JUMP then NO_JUMP else (i + 1) + offset))"

text \<open>\<open>luaP_opmodes\<close> is read at the opcode, whatever the word is.\<close>

definition test_mode :: "instruction \<Rightarrow> ('d, 'z, bool) gen" where
  "test_mode i = (case op_of_num (GET_OPCODE i) of Some c \<Rightarrow> ret (testTMode c) | None \<Rightarrow> undef)"

text \<open>The position of the instruction that controls a jump.\<close>

definition getjumpcontrol :: "int \<Rightarrow> ('d, 'z, int) gen" where
  "getjumpcontrol i =
     bnd (if 1 \<le> i then bnd (read_code (i - 1)) test_mode else ret False) (\<lambda>t. ret (if t then i - 1 else i))"

text \<open>A list visits a position at most once, so that \<open>pc + 1\<close> rounds are enough.\<close>

abbreviation rounds :: "('d, 'z, nat) gen" where "rounds \<equiv> get_fs (\<lambda>F. length (code F) + 1)"

primrec need_value_loop :: "nat \<Rightarrow> int \<Rightarrow> ('d, 'z, bool) gen" where
  "need_value_loop 0 l = undef"
| "need_value_loop (Suc f) l =
     (if l = NO_JUMP then ret False
      else bnd (getjumpcontrol l) (\<lambda>c. bnd (read_code c) (\<lambda>i.
        if \<not> has_op i OP_TESTSET then ret True else bnd (getjump l) (need_value_loop f))))"

definition need_value :: "int \<Rightarrow> ('d, 'z, bool) gen" where
  "need_value l = bnd rounds (\<lambda>f. need_value_loop f l)"

definition patchtestreg :: "int \<Rightarrow> int \<Rightarrow> ('d, 'z, bool) gen" where
  "patchtestreg l reg =
     bnd (getjumpcontrol l) (\<lambda>c. bnd (read_code c) (\<lambda>i.
       if \<not> has_op i OP_TESTSET then ret False
       else seq (if reg \<noteq> NO_REG \<and> reg \<noteq> GETARG_B i then write_code c (SETARG_A i reg)
                 else write_code c (CREATE_ABC OP_TEST (GETARG_B i) 0 (GETARG_C i)))
              (ret True)))"

primrec removevalues_loop :: "nat \<Rightarrow> int \<Rightarrow> ('d, 'z, unit) gen" where
  "removevalues_loop 0 l = undef"
| "removevalues_loop (Suc f) l =
     (if l = NO_JUMP then ret () else bnd (patchtestreg l NO_REG) (\<lambda>_. bnd (getjump l) (removevalues_loop f)))"

definition removevalues :: "int \<Rightarrow> ('d, 'z, unit) gen" where
  "removevalues l = bnd rounds (\<lambda>f. removevalues_loop f l)"

primrec patchlist_loop :: "('s, 'h) host_scheme \<Rightarrow> nat \<Rightarrow> int \<Rightarrow> int \<Rightarrow> int \<Rightarrow> int \<Rightarrow> ('d, 'z, unit) gen" where
  "patchlist_loop H 0 l vtarget reg dtarget = undef"
| "patchlist_loop H (Suc f) l vtarget reg dtarget =
     (if l = NO_JUMP then ret ()
      else bnd (getjump l) (\<lambda>nxt.
           bnd (patchtestreg l reg) (\<lambda>patched.
           seq (fixjump H l (if patched then vtarget else dtarget)) (patchlist_loop H f nxt vtarget reg dtarget))))"

definition patchlistaux :: "('s, 'h) host_scheme \<Rightarrow> int \<Rightarrow> int \<Rightarrow> int \<Rightarrow> int \<Rightarrow> ('d, 'z, unit) gen" where
  "patchlistaux H l vtarget reg dtarget = bnd rounds (\<lambda>f. patchlist_loop H f l vtarget reg dtarget)"

definition dischargejpc :: "('s, 'h) host_scheme \<Rightarrow> ('d, 'z, unit) gen" where
  "dischargejpc H =
     bnd (get_fs jpc) (\<lambda>j. bnd (get_fs pc) (\<lambda>p. seq (patchlistaux H j p NO_REG p) (upd_fs (\<lambda>F. F\<lparr>jpc := NO_JUMP\<rparr>))))"

primrec last_jump :: "nat \<Rightarrow> int \<Rightarrow> ('d, 'z, int) gen" where
  "last_jump 0 l = undef"
| "last_jump (Suc f) l = bnd (getjump l) (\<lambda>nxt. if nxt \<noteq> NO_JUMP then last_jump f nxt else ret l)"

text \<open>The new value of \<open>*l1\<close>.\<close>

definition luaK_concat :: "('s, 'h) host_scheme \<Rightarrow> int \<Rightarrow> int \<Rightarrow> ('d, 'z, int) gen" where
  "luaK_concat H l1 l2 =
     (if l2 = NO_JUMP then ret l1
      else if l1 = NO_JUMP then ret l2
      else bnd rounds (\<lambda>f. bnd (last_jump f l1) (\<lambda>l. seq (fixjump H l l2) (ret l1))))"

definition luaK_patchtohere :: "('s, 'h) host_scheme \<Rightarrow> int \<Rightarrow> ('d, 'z, unit) gen" where
  "luaK_patchtohere H l =
     bnd luaK_getlabel (\<lambda>_. bnd (get_fs jpc) (\<lambda>j. bnd (luaK_concat H j l) (\<lambda>j. upd_fs (\<lambda>F. F\<lparr>jpc := j\<rparr>))))"

definition luaK_patchlist :: "('s, 'h) host_scheme \<Rightarrow> int \<Rightarrow> int \<Rightarrow> ('d, 'z, unit) gen" where
  "luaK_patchlist H l target =
     bnd (get_fs pc) (\<lambda>p. if target = p then luaK_patchtohere H l else patchlistaux H l target NO_REG target)"

section \<open>Instructions\<close>

text \<open>\<open>luaM_growvector\<close> raises its error when the array has reached the limit.\<close>

definition luaK_code :: "('s, 'h) host_scheme \<Rightarrow> instruction \<Rightarrow> int \<Rightarrow> ('d, 'z, int) gen" where
  "luaK_code H i line =
     seq (dischargejpc H)
     (bnd (get_fs pc) (\<lambda>p.
      if MAX_INT \<le> p then raise LUA_ERRRUN
      else seq (upd_fs (\<lambda>F. F\<lparr>code := code F @ [i], lineinfo := lineinfo F @ [line]\<rparr>)) (ret p)))"

definition luaK_codeABC :: "('s, 'h) host_scheme \<Rightarrow> OpCode \<Rightarrow> int \<Rightarrow> int \<Rightarrow> int \<Rightarrow> ('d, 'z, int) gen" where
  "luaK_codeABC H op a b c = bnd (get (\<lambda>s. lastline (ls s))) (luaK_code H (CREATE_ABC op a b c))"

definition luaK_codeABx :: "('s, 'h) host_scheme \<Rightarrow> OpCode \<Rightarrow> int \<Rightarrow> int \<Rightarrow> ('d, 'z, int) gen" where
  "luaK_codeABx H op a bc = bnd (get (\<lambda>s. lastline (ls s))) (luaK_code H (CREATE_ABx op a bc))"

definition luaK_codeAsBx :: "('s, 'h) host_scheme \<Rightarrow> OpCode \<Rightarrow> int \<Rightarrow> int \<Rightarrow> ('d, 'z, int) gen" where
  "luaK_codeAsBx H op a sbx = luaK_codeABx H op a (sbx + MAXARG_sBx)"

definition luaK_fixline :: "int \<Rightarrow> ('d, 'z, unit) gen" where
  "luaK_fixline line = bnd (get_fs pc) (\<lambda>p.
     if p < 1 then undef else upd_fs (\<lambda>F. F\<lparr>lineinfo := (lineinfo F)[nat (p - 1) := line]\<rparr>))"

definition luaK_nil :: "('s, 'h) host_scheme \<Rightarrow> int \<Rightarrow> int \<Rightarrow> ('d, 'z, unit) gen" where
  "luaK_nil H from n =
     bnd (get fs) (\<lambda>F. let code_it = bnd (luaK_codeABC H OP_LOADNIL from (from + n - 1) 0) (\<lambda>_. ret ()) in
       if lasttarget F < pc F then
         if pc F = 0 then (if nactvar F \<le> from then ret () else code_it)
         else bnd (read_code (pc F - 1)) (\<lambda>previous.
           if has_op previous OP_LOADNIL \<and> GETARG_A previous \<le> from \<and> from \<le> GETARG_B previous + 1 then
             (if GETARG_B previous < from + n - 1 then write_code (pc F - 1) (SETARG_B previous (from + n - 1)) else ret ())
           else code_it)
       else code_it)"

definition luaK_jump :: "('s, 'h) host_scheme \<Rightarrow> ('d, 'z, int) gen" where
  "luaK_jump H =
     bnd (get_fs jpc) (\<lambda>jp.
     seq (upd_fs (\<lambda>F. F\<lparr>jpc := NO_JUMP\<rparr>))
     (bnd (luaK_codeAsBx H OP_JMP 0 NO_JUMP) (\<lambda>j. luaK_concat H j jp)))"

definition luaK_ret :: "('s, 'h) host_scheme \<Rightarrow> int \<Rightarrow> int \<Rightarrow> ('d, 'z, unit) gen" where
  "luaK_ret H first nret = bnd (luaK_codeABC H OP_RETURN first (nret + 1) 0) (\<lambda>_. ret ())"

definition condjump :: "('s, 'h) host_scheme \<Rightarrow> OpCode \<Rightarrow> int \<Rightarrow> int \<Rightarrow> int \<Rightarrow> ('d, 'z, int) gen" where
  "condjump H op a b c = bnd (luaK_codeABC H op a b c) (\<lambda>_. luaK_jump H)"

definition luaK_setlist :: "('s, 'h) host_scheme \<Rightarrow> int \<Rightarrow> int \<Rightarrow> int \<Rightarrow> ('d, 'z, unit) gen" where
  "luaK_setlist H base nelems tostore =
     (let c = (nelems - 1) sdiv LFIELDS_PER_FLUSH + 1; b = (if tostore = LUA_MULTRET then 0 else tostore)
      in seq (if c \<le> MAXARG_C then bnd (luaK_codeABC H OP_SETLIST base b c) (\<lambda>_. ret ())
              else bnd (luaK_codeABC H OP_SETLIST base b 0) (\<lambda>_.
                bnd (get (\<lambda>s. lastline (ls s))) (\<lambda>line. bnd (luaK_code H (word_of_int c) line) (\<lambda>_. ret ()))))
           (upd_fs (\<lambda>F. F\<lparr>freereg := base + 1\<rparr>)))"

section \<open>Registers\<close>

definition luaK_checkstack :: "('s, 'h) host_scheme \<Rightarrow> int \<Rightarrow> ('d, 'z, unit) gen" where
  "luaK_checkstack H n =
     bnd (get_fs (\<lambda>F. freereg F + n)) (\<lambda>newstack.
     bnd (get_fs maxstacksize) (\<lambda>m.
       if m < newstack then
         seq (if MAXSTACK \<le> newstack then in_lexer (luaX_syntaxerror H ''function or expression too complex'') else ret ())
           (upd_fs (\<lambda>F. F\<lparr>maxstacksize := newstack mod 256\<rparr>))
       else ret ()))"

definition luaK_reserveregs :: "('s, 'h) host_scheme \<Rightarrow> int \<Rightarrow> ('d, 'z, unit) gen" where
  "luaK_reserveregs H n = seq (luaK_checkstack H n) (upd_fs (\<lambda>F. F\<lparr>freereg := freereg F + n\<rparr>))"

definition free_reg :: "int \<Rightarrow> ('d, 'z, unit) gen" where
  "free_reg reg = bnd (get fs) (\<lambda>F.
     if \<not> ISK reg \<and> nactvar F \<le> reg then upd_fs (\<lambda>F. F\<lparr>freereg := freereg F - 1\<rparr>) else ret ())"

definition freeexp :: "expdesc \<Rightarrow> ('d, 'z, unit) gen" where
  "freeexp e = (if kind e = VNONRELOC then free_reg (info e) else ret ())"

section \<open>Constants\<close>

fun number_at :: "TValue \<Rightarrow> (TValue \<times> nat) list \<Rightarrow> nat option" where
  "number_at k [] = None"
| "number_at k ((k', i) # es) = (if luaO_rawequalObj k k' then Some i else number_at k es)"

text \<open>A NaN is no key: \<open>luaH_set\<close> raises an error.\<close>

definition addk :: "TValue \<Rightarrow> TValue \<Rightarrow> ('d, 'z, int) gen" where
  "addk k v =
     bnd (get fs) (\<lambda>F.
       if (case k of TNumber n \<Rightarrow> num_nan n | _ \<Rightarrow> False) then raise LUA_ERRRUN
       else case number_at k (h F) of
         Some i \<Rightarrow> ret (int i)
       | None \<Rightarrow>
           seq (upd_fs (\<lambda>F. F\<lparr>h := (k, length (ktab F)) # h F\<rparr>))
             (if MAXARG_Bx \<le> nk F then raise LUA_ERRRUN
              else seq (upd_fs (\<lambda>F. F\<lparr>ktab := ktab F @ [v]\<rparr>)) (ret (nk F))))"

definition luaK_stringK :: "bytes \<Rightarrow> ('d, 'z, int) gen" where
  "luaK_stringK s = addk (TString s) (TString s)"

definition luaK_numberK :: "lua_Number \<Rightarrow> ('d, 'z, int) gen" where
  "luaK_numberK r = addk (TNumber r) (TNumber r)"

definition boolK :: "bool \<Rightarrow> ('d, 'z, int) gen" where
  "boolK b = addk (TBoolean b) (TBoolean b)"

definition nilK :: "('d, 'z, int) gen" where
  "nilK = bnd (get_fs h_addr) (\<lambda>t. addk (TTable t) TNil)"

section \<open>Values of expressions\<close>

definition hasjumps :: "expdesc \<Rightarrow> bool" where "hasjumps e \<longleftrightarrow> et e \<noteq> ef e"

definition isnumeral :: "expdesc \<Rightarrow> bool" where
  "isnumeral e \<longleftrightarrow> kind e = VKNUM \<and> et e = NO_JUMP \<and> ef e = NO_JUMP"

definition luaK_setreturns :: "('s, 'h) host_scheme \<Rightarrow> expdesc \<Rightarrow> int \<Rightarrow> ('d, 'z, unit) gen" where
  "luaK_setreturns H e nresults =
     (if kind e = VCALL then bnd (read_code (info e)) (\<lambda>i. write_code (info e) (SETARG_C i (nresults + 1)))
      else if kind e = VVARARG then
        bnd (read_code (info e)) (\<lambda>i. bnd (get_fs freereg) (\<lambda>r.
        seq (write_code (info e) (SETARG_A (SETARG_B i (nresults + 1)) r)) (luaK_reserveregs H 1)))
      else ret ())"

definition luaK_setoneret :: "expdesc \<Rightarrow> ('d, 'z, expdesc) gen" where
  "luaK_setoneret e =
     (if kind e = VCALL then bnd (read_code (info e)) (\<lambda>i. ret (e\<lparr>kind := VNONRELOC, info := GETARG_A i\<rparr>))
      else if kind e = VVARARG then
        bnd (read_code (info e)) (\<lambda>i. seq (write_code (info e) (SETARG_B i 2)) (ret (e\<lparr>kind := VRELOCABLE\<rparr>)))
      else ret e)"

definition luaK_dischargevars :: "('s, 'h) host_scheme \<Rightarrow> expdesc \<Rightarrow> ('d, 'z, expdesc) gen" where
  "luaK_dischargevars H e =
     (let relocable = (\<lambda>i. ret (e\<lparr>info := i, kind := VRELOCABLE\<rparr>))
      in case kind e of
        VLOCAL \<Rightarrow> ret (e\<lparr>kind := VNONRELOC\<rparr>)
      | VUPVAL \<Rightarrow> bnd (luaK_codeABC H OP_GETUPVAL 0 (info e) 0) relocable
      | VGLOBAL \<Rightarrow> bnd (luaK_codeABx H OP_GETGLOBAL 0 (info e)) relocable
      | VINDEXED \<Rightarrow>
          seq (free_reg (aux e)) (seq (free_reg (info e)) (bnd (luaK_codeABC H OP_GETTABLE 0 (info e) (aux e)) relocable))
      | VVARARG \<Rightarrow> luaK_setoneret e
      | VCALL \<Rightarrow> luaK_setoneret e
      | _ \<Rightarrow> ret e)"

definition code_label :: "('s, 'h) host_scheme \<Rightarrow> int \<Rightarrow> int \<Rightarrow> int \<Rightarrow> ('d, 'z, int) gen" where
  "code_label H a b jump = bnd luaK_getlabel (\<lambda>_. luaK_codeABC H OP_LOADBOOL a b jump)"

definition discharge2reg :: "('s, 'h) host_scheme \<Rightarrow> expdesc \<Rightarrow> int \<Rightarrow> ('d, 'z, expdesc) gen" where
  "discharge2reg H e reg =
     bnd (luaK_dischargevars H e) (\<lambda>e. let finished = ret (e\<lparr>info := reg, kind := VNONRELOC\<rparr>) in
       case kind e of
         VNIL \<Rightarrow> seq (luaK_nil H reg 1) finished
       | VFALSE \<Rightarrow> seq (luaK_codeABC H OP_LOADBOOL reg 0 0) finished
       | VTRUE \<Rightarrow> seq (luaK_codeABC H OP_LOADBOOL reg 1 0) finished
       | VK \<Rightarrow> seq (luaK_codeABx H OP_LOADK reg (info e)) finished
       | VKNUM \<Rightarrow> bnd (luaK_numberK (nval e)) (\<lambda>i. seq (luaK_codeABx H OP_LOADK reg i) finished)
       | VRELOCABLE \<Rightarrow> bnd (read_code (info e)) (\<lambda>i. seq (write_code (info e) (SETARG_A i reg)) finished)
       | VNONRELOC \<Rightarrow> (if reg \<noteq> info e then seq (luaK_codeABC H OP_MOVE reg (info e) 0) finished else finished)
       | _ \<Rightarrow> ret e)"

definition discharge2anyreg :: "('s, 'h) host_scheme \<Rightarrow> expdesc \<Rightarrow> ('d, 'z, expdesc) gen" where
  "discharge2anyreg H e =
     (if kind e \<noteq> VNONRELOC then
        seq (luaK_reserveregs H 1) (bnd (get_fs freereg) (\<lambda>r. discharge2reg H e (r - 1)))
      else ret e)"

definition exp2reg :: "('s, 'h) host_scheme \<Rightarrow> expdesc \<Rightarrow> int \<Rightarrow> ('d, 'z, expdesc) gen" where
  "exp2reg H e reg =
     bnd (discharge2reg H e reg) (\<lambda>e.
     bnd (if kind e = VJMP then bnd (luaK_concat H (et e) (info e)) (\<lambda>t. ret (e\<lparr>et := t\<rparr>)) else ret e) (\<lambda>e.
     seq (if hasjumps e then
            bnd (bnd (need_value (et e)) (\<lambda>v. if v then ret True else need_value (ef e))) (\<lambda>needed.
            bnd (if needed then
                   bnd (if kind e = VJMP then ret NO_JUMP else luaK_jump H) (\<lambda>fj.
                   bnd (code_label H reg 0 1) (\<lambda>p_f.
                   bnd (code_label H reg 1 0) (\<lambda>p_t.
                   seq (luaK_patchtohere H fj) (ret (p_f, p_t)))))
                 else ret (NO_JUMP, NO_JUMP)) (\<lambda>(p_f, p_t).
            bnd luaK_getlabel (\<lambda>final.
            seq (patchlistaux H (ef e) final reg p_f) (patchlistaux H (et e) final reg p_t))))
          else ret ())
       (ret (e\<lparr>ef := NO_JUMP, et := NO_JUMP, info := reg, kind := VNONRELOC\<rparr>))))"

definition luaK_exp2nextreg :: "('s, 'h) host_scheme \<Rightarrow> expdesc \<Rightarrow> ('d, 'z, expdesc) gen" where
  "luaK_exp2nextreg H e =
     bnd (luaK_dischargevars H e) (\<lambda>e.
     seq (freeexp e) (seq (luaK_reserveregs H 1) (bnd (get_fs freereg) (\<lambda>r. exp2reg H e (r - 1)))))"

text \<open>The functions that return a register or an operand return it in the expression or beside it.\<close>

definition luaK_exp2anyreg :: "('s, 'h) host_scheme \<Rightarrow> expdesc \<Rightarrow> ('d, 'z, expdesc) gen" where
  "luaK_exp2anyreg H e =
     bnd (luaK_dischargevars H e) (\<lambda>e.
     bnd (get_fs nactvar) (\<lambda>n.
       if kind e = VNONRELOC \<and> \<not> hasjumps e then ret e
       else if kind e = VNONRELOC \<and> n \<le> info e then exp2reg H e (info e)
       else luaK_exp2nextreg H e))"

definition luaK_exp2val :: "('s, 'h) host_scheme \<Rightarrow> expdesc \<Rightarrow> ('d, 'z, expdesc) gen" where
  "luaK_exp2val H e = (if hasjumps e then luaK_exp2anyreg H e else luaK_dischargevars H e)"

definition luaK_exp2RK :: "('s, 'h) host_scheme \<Rightarrow> expdesc \<Rightarrow> ('d, 'z, expdesc \<times> int) gen" where
  "luaK_exp2RK H e =
     bnd (luaK_exp2val H e) (\<lambda>e.
     bnd (get_fs nk) (\<lambda>n.
     let anyreg = bnd (luaK_exp2anyreg H e) (\<lambda>e. ret (e, info e));
         constant = (\<lambda>i. ret (e\<lparr>info := i, kind := VK\<rparr>, RKASK i))
     in case kind e of
          VKNUM \<Rightarrow> if n \<le> MAXINDEXRK then bnd (luaK_numberK (nval e)) constant else anyreg
        | VTRUE \<Rightarrow> if n \<le> MAXINDEXRK then bnd (boolK True) constant else anyreg
        | VFALSE \<Rightarrow> if n \<le> MAXINDEXRK then bnd (boolK False) constant else anyreg
        | VNIL \<Rightarrow> if n \<le> MAXINDEXRK then bnd nilK constant else anyreg
        | VK \<Rightarrow> if info e \<le> MAXINDEXRK then ret (e, RKASK (info e)) else anyreg
        | _ \<Rightarrow> anyreg))"

definition luaK_storevar :: "('s, 'h) host_scheme \<Rightarrow> expdesc \<Rightarrow> expdesc \<Rightarrow> ('d, 'z, unit) gen" where
  "luaK_storevar H var ex =
     (case kind var of
        VLOCAL \<Rightarrow> seq (freeexp ex) (bnd (exp2reg H ex (info var)) (\<lambda>_. ret ()))
      | VUPVAL \<Rightarrow> bnd (luaK_exp2anyreg H ex) (\<lambda>ex. bnd (luaK_codeABC H OP_SETUPVAL (info ex) (info var) 0) (\<lambda>_. freeexp ex))
      | VGLOBAL \<Rightarrow> bnd (luaK_exp2anyreg H ex) (\<lambda>ex. bnd (luaK_codeABx H OP_SETGLOBAL (info ex) (info var)) (\<lambda>_. freeexp ex))
      | VINDEXED \<Rightarrow> bnd (luaK_exp2RK H ex) (\<lambda>(ex, e). bnd (luaK_codeABC H OP_SETTABLE (info var) (aux var) e) (\<lambda>_. freeexp ex))
      | _ \<Rightarrow> freeexp ex)"

definition luaK_self :: "('s, 'h) host_scheme \<Rightarrow> expdesc \<Rightarrow> expdesc \<Rightarrow> ('d, 'z, expdesc) gen" where
  "luaK_self H e key =
     bnd (luaK_exp2anyreg H e) (\<lambda>e.
     seq (freeexp e)
     (bnd (get_fs freereg) (\<lambda>func.
      seq (luaK_reserveregs H 2)
      (bnd (luaK_exp2RK H key) (\<lambda>(key, c).
       bnd (luaK_codeABC H OP_SELF func (info e) c) (\<lambda>_.
       seq (freeexp key) (ret (e\<lparr>info := func, kind := VNONRELOC\<rparr>))))))))"

section \<open>Conditions\<close>

definition invertjump :: "expdesc \<Rightarrow> ('d, 'z, unit) gen" where
  "invertjump e = bnd (getjumpcontrol (info e)) (\<lambda>c. bnd (read_code c) (\<lambda>i.
     write_code c (SETARG_A i (if GETARG_A i = 0 then 1 else 0))))"

definition jumponcond :: "('s, 'h) host_scheme \<Rightarrow> expdesc \<Rightarrow> bool \<Rightarrow> ('d, 'z, expdesc \<times> int) gen" where
  "jumponcond H e cond =
     (let through = bnd (discharge2anyreg H e) (\<lambda>e. seq (freeexp e)
              (bnd (condjump H OP_TESTSET NO_REG (info e) (of_bool cond)) (\<lambda>j. ret (e, j))))
      in if kind e = VRELOCABLE then
           bnd (read_code (info e)) (\<lambda>ie.
             if has_op ie OP_NOT then
               seq (upd_fs (\<lambda>F. F\<lparr>code := butlast (code F), lineinfo := butlast (lineinfo F)\<rparr>))
                 (bnd (condjump H OP_TEST (GETARG_B ie) 0 (of_bool (\<not> cond))) (\<lambda>j. ret (e, j)))
             else through)
         else through)"

definition luaK_goiftrue :: "('s, 'h) host_scheme \<Rightarrow> expdesc \<Rightarrow> ('d, 'z, expdesc) gen" where
  "luaK_goiftrue H e =
     bnd (luaK_dischargevars H e) (\<lambda>e.
     bnd (if kind e \<in> {VK, VKNUM, VTRUE} then ret (e, NO_JUMP)
          else if kind e = VJMP then seq (invertjump e) (ret (e, info e))
          else jumponcond H e False) (\<lambda>(e, p).
     bnd (luaK_concat H (ef e) p) (\<lambda>f.
     seq (luaK_patchtohere H (et e)) (ret (e\<lparr>ef := f, et := NO_JUMP\<rparr>)))))"

definition luaK_goiffalse :: "('s, 'h) host_scheme \<Rightarrow> expdesc \<Rightarrow> ('d, 'z, expdesc) gen" where
  "luaK_goiffalse H e =
     bnd (luaK_dischargevars H e) (\<lambda>e.
     bnd (if kind e \<in> {VNIL, VFALSE} then ret (e, NO_JUMP)
          else if kind e = VJMP then ret (e, info e)
          else jumponcond H e True) (\<lambda>(e, p).
     bnd (luaK_concat H (et e) p) (\<lambda>t.
     seq (luaK_patchtohere H (ef e)) (ret (e\<lparr>et := t, ef := NO_JUMP\<rparr>)))))"

definition codenot :: "('s, 'h) host_scheme \<Rightarrow> expdesc \<Rightarrow> ('d, 'z, expdesc) gen" where
  "codenot H e =
     bnd (luaK_dischargevars H e) (\<lambda>e.
     bnd (if kind e \<in> {VNIL, VFALSE} then ret (e\<lparr>kind := VTRUE\<rparr>)
          else if kind e \<in> {VK, VKNUM, VTRUE} then ret (e\<lparr>kind := VFALSE\<rparr>)
          else if kind e = VJMP then seq (invertjump e) (ret e)
          else if kind e \<in> {VRELOCABLE, VNONRELOC} then
            bnd (discharge2anyreg H e) (\<lambda>e. seq (freeexp e)
              (bnd (luaK_codeABC H OP_NOT 0 (info e) 0) (\<lambda>i. ret (e\<lparr>info := i, kind := VRELOCABLE\<rparr>))))
          else ret e) (\<lambda>e.
     let e = e\<lparr>et := ef e, ef := et e\<rparr> in
     seq (removevalues (ef e)) (seq (removevalues (et e)) (ret e))))"

definition luaK_indexed :: "('s, 'h) host_scheme \<Rightarrow> expdesc \<Rightarrow> expdesc \<Rightarrow> ('d, 'z, expdesc) gen" where
  "luaK_indexed H t key = bnd (luaK_exp2RK H key) (\<lambda>(_, i). ret (t\<lparr>aux := i, kind := VINDEXED\<rparr>))"

section \<open>Operators\<close>

text \<open>\<open>N\<close> is the arithmetic of numbers: \<open>luai_numadd\<close> and the others of \<open>luaconf.h\<close>, by opcode.\<close>

type_synonym arithmetic = "OpCode \<Rightarrow> lua_Number \<Rightarrow> lua_Number \<Rightarrow> lua_Number"

definition constfolding :: "arithmetic \<Rightarrow> OpCode \<Rightarrow> expdesc \<Rightarrow> expdesc \<Rightarrow> expdesc option" where
  "constfolding N op e1 e2 =
     (if \<not> isnumeral e1 \<or> \<not> isnumeral e2 then None
      else if op \<in> {OP_DIV, OP_MOD} \<and> luai_numeq (nval e2) 0 then None
      else if op \<in> {OP_ADD, OP_SUB, OP_MUL, OP_DIV, OP_MOD, OP_POW, OP_UNM} then
        (let r = N op (nval e1) (nval e2) in if luai_numisnan r then None else Some (e1\<lparr>nval := r\<rparr>))
      else if op = OP_LEN then None
      else Some (e1\<lparr>nval := 0\<rparr>))"

definition codearith :: "arithmetic \<Rightarrow> ('s, 'h) host_scheme \<Rightarrow> OpCode \<Rightarrow> expdesc \<Rightarrow> expdesc \<Rightarrow> ('d, 'z, expdesc) gen" where
  "codearith N H op e1 e2 =
     (case constfolding N op e1 e2 of
        Some e \<Rightarrow> ret e
      | None \<Rightarrow>
          bnd (if op \<noteq> OP_UNM \<and> op \<noteq> OP_LEN then luaK_exp2RK H e2 else ret (e2, 0)) (\<lambda>(e2, o2).
          bnd (luaK_exp2RK H e1) (\<lambda>(e1, o1).
          seq (if o2 < o1 then seq (freeexp e1) (freeexp e2) else seq (freeexp e2) (freeexp e1))
          (bnd (luaK_codeABC H op 0 o1 o2) (\<lambda>i. ret (e1\<lparr>info := i, kind := VRELOCABLE\<rparr>))))))"

definition codecomp :: "('s, 'h) host_scheme \<Rightarrow> OpCode \<Rightarrow> bool \<Rightarrow> expdesc \<Rightarrow> expdesc \<Rightarrow> ('d, 'z, expdesc) gen" where
  "codecomp H op cond e1 e2 =
     bnd (luaK_exp2RK H e1) (\<lambda>(e1, o1).
     bnd (luaK_exp2RK H e2) (\<lambda>(e2, o2).
     seq (freeexp e2) (seq (freeexp e1)
     (bnd (if \<not> cond \<and> op \<noteq> OP_EQ then condjump H op 1 o2 o1 else condjump H op (of_bool cond) o1 o2) (\<lambda>i.
      ret (e1\<lparr>info := i, kind := VJMP\<rparr>))))))"

definition luaK_prefix :: "arithmetic \<Rightarrow> ('s, 'h) host_scheme \<Rightarrow> UnOpr \<Rightarrow> expdesc \<Rightarrow> ('d, 'z, expdesc) gen" where
  "luaK_prefix N H op e =
     (let e2 = \<lparr>kind = VKNUM, info = 0, aux = 0, nval = 0, et = NO_JUMP, ef = NO_JUMP\<rparr>
      in case op of
        OPR_MINUS \<Rightarrow> bnd (if \<not> isnumeral e then luaK_exp2anyreg H e else ret e) (\<lambda>e. codearith N H OP_UNM e e2)
      | OPR_NOT \<Rightarrow> codenot H e
      | OPR_LEN \<Rightarrow> bnd (luaK_exp2anyreg H e) (\<lambda>e. codearith N H OP_LEN e e2)
      | OPR_NOUNOPR \<Rightarrow> ret e)"

definition luaK_infix :: "('s, 'h) host_scheme \<Rightarrow> BinOpr \<Rightarrow> expdesc \<Rightarrow> ('d, 'z, expdesc) gen" where
  "luaK_infix H op v =
     (if op = OPR_AND then luaK_goiftrue H v
      else if op = OPR_OR then luaK_goiffalse H v
      else if op = OPR_CONCAT then luaK_exp2nextreg H v
      else if op \<in> {OPR_ADD, OPR_SUB, OPR_MUL, OPR_DIV, OPR_MOD, OPR_POW} \<and> isnumeral v then ret v
      else bnd (luaK_exp2RK H v) (\<lambda>(v, _). ret v))"

definition luaK_posfix :: "arithmetic \<Rightarrow> ('s, 'h) host_scheme \<Rightarrow> BinOpr \<Rightarrow> expdesc \<Rightarrow> expdesc \<Rightarrow> ('d, 'z, expdesc) gen" where
  "luaK_posfix N H op e1 e2 =
     (case op of
        OPR_AND \<Rightarrow> bnd (luaK_dischargevars H e2) (\<lambda>e2. bnd (luaK_concat H (ef e2) (ef e1)) (\<lambda>f. ret (e2\<lparr>ef := f\<rparr>)))
      | OPR_OR \<Rightarrow> bnd (luaK_dischargevars H e2) (\<lambda>e2. bnd (luaK_concat H (et e2) (et e1)) (\<lambda>t. ret (e2\<lparr>et := t\<rparr>)))
      | OPR_CONCAT \<Rightarrow>
          bnd (luaK_exp2val H e2) (\<lambda>e2.
          bnd (if kind e2 = VRELOCABLE then bnd (read_code (info e2)) (\<lambda>i. ret (has_op i OP_CONCAT)) else ret False) (\<lambda>c.
            if c then
              seq (freeexp e1)
              (bnd (read_code (info e2)) (\<lambda>i. seq (write_code (info e2) (SETARG_B i (info e1)))
                (ret (e1\<lparr>kind := VRELOCABLE, info := info e2\<rparr>))))
            else bnd (luaK_exp2nextreg H e2) (codearith N H OP_CONCAT e1)))
      | OPR_ADD \<Rightarrow> codearith N H OP_ADD e1 e2
      | OPR_SUB \<Rightarrow> codearith N H OP_SUB e1 e2
      | OPR_MUL \<Rightarrow> codearith N H OP_MUL e1 e2
      | OPR_DIV \<Rightarrow> codearith N H OP_DIV e1 e2
      | OPR_MOD \<Rightarrow> codearith N H OP_MOD e1 e2
      | OPR_POW \<Rightarrow> codearith N H OP_POW e1 e2
      | OPR_EQ \<Rightarrow> codecomp H OP_EQ True e1 e2
      | OPR_NE \<Rightarrow> codecomp H OP_EQ False e1 e2
      | OPR_LT \<Rightarrow> codecomp H OP_LT True e1 e2
      | OPR_LE \<Rightarrow> codecomp H OP_LE True e1 e2
      | OPR_GT \<Rightarrow> codecomp H OP_LT False e1 e2
      | OPR_GE \<Rightarrow> codecomp H OP_LE False e1 e2
      | OPR_NOBINOPR \<Rightarrow> ret e1)"

end
