(* ===== verification/Jumps.thy ===== *)
theory Jumps
  imports Codegen Lexing
begin

text \<open>
  The lists of jumps that the code generator threads through the operands of jump instructions, until
  their target is known: joining two lists and giving the jumps of a list their target.
\<close>

section \<open>Lists of jumps\<close>

definition link :: "instruction list \<Rightarrow> int \<Rightarrow> int" where
  "link c j = (if GETARG_sBx (c ! nat j) = NO_JUMP then NO_JUMP else j + 1 + GETARG_sBx (c ! nat j))"

definition jump_dest :: "instruction list \<Rightarrow> int \<Rightarrow> int" where
  "jump_dest c j = j + 1 + GETARG_sBx (c ! nat j)"

text \<open>A position of the code, and one with an instruction that takes a jump offset.\<close>

definition inside :: "instruction list \<Rightarrow> int \<Rightarrow> bool" where
  "inside c i \<longleftrightarrow> 0 \<le> i \<and> i < int (length c)"

definition offset_op :: "instruction \<Rightarrow> bool" where
  "offset_op i \<longleftrightarrow> has_op i OP_JMP \<or> has_op i OP_FORLOOP \<or> has_op i OP_FORPREP"

fun jlist :: "instruction list \<Rightarrow> int \<Rightarrow> int list \<Rightarrow> bool" where
  "jlist c l [] \<longleftrightarrow> l = NO_JUMP"
| "jlist c l (j # js) \<longleftrightarrow> l = j \<and> inside c j \<and> offset_op (c ! nat j) \<and> jlist c (link c j) js"

lemma jlist_inside: "jlist c l js \<Longrightarrow> j \<in> set js \<Longrightarrow> inside c j"
  by (induction js arbitrary: l) auto

lemma jlist_offset: "jlist c l js \<Longrightarrow> j \<in> set js \<Longrightarrow> offset_op (c ! nat j)"
  by (induction js arbitrary: l) auto

lemma inside_not [simp]: "\<not> inside c NO_JUMP"
  by (simp add: inside_def NO_JUMP_def)

lemma jlist_NO_JUMP: "jlist c NO_JUMP js \<longleftrightarrow> js = []"
  by (cases js) auto

lemma jlist_length: "jlist c l js \<Longrightarrow> distinct js \<Longrightarrow> length js \<le> length c"
proof -
  assume "jlist c l js" "distinct js"
  then have "set js \<subseteq> {0..<int (length c)}" by (auto dest: jlist_inside simp: inside_def)
  then have "card (set js) \<le> length c" using card_mono [of "{0..<int (length c)}" "set js"] by simp
  then show ?thesis using \<open>distinct js\<close> by (simp add: distinct_card)
qed

lemma jlist_cong:
  assumes "length c' = length c" "\<And>j. j \<in> set js \<Longrightarrow> c' ! nat j = c ! nat j"
  shows "jlist c' l js = jlist c l js"
  using assms(2) by (induction js arbitrary: l) (auto simp: inside_def link_def assms(1))

section \<open>Access\<close>

lemma wp_upd: "wp (upd g) R E = (\<lambda>s. R () (g s))"
  by (rule ext) (simp add: wps)

text \<open>Programs that only change the code.\<close>

abbreviation with_code :: "('d, 'z) compiler_scheme \<Rightarrow> instruction list \<Rightarrow> ('d, 'z) compiler_scheme" where
  "with_code s c \<equiv> s\<lparr>fs := (fs s)\<lparr>code := c\<rparr>\<rparr>"

lemma read_code_run: "inside (code (fs s)) i \<Longrightarrow> read_code i s = Val (code (fs s) ! nat i) s"
  by (simp add: read_code_def inside_def bnd_def)

lemma write_code_run: "inside (code (fs s)) i \<Longrightarrow> write_code i x s = Val () (with_code s ((code (fs s))[nat i := x]))"
  by (simp add: write_code_def inside_def bnd_def)

lemma code_wp [wps]:
  "inside (code (fs s)) i \<Longrightarrow> wp (read_code i) Q E s = Q (code (fs s) ! nat i) s"
  "inside (code (fs s)) i \<Longrightarrow> wp (write_code i x) R E s = R () (with_code s ((code (fs s))[nat i := x]))"
  by (simp_all add: wp_def read_code_run write_code_run)

lemma getjump_run: "inside (code (fs s)) i \<Longrightarrow> getjump i s = Val (link (code (fs s)) i) s"
  by (simp add: getjump_def bnd_def read_code_run link_def Let_def)

lemma syntaxerror_wp:
  fixes Q :: "'a \<Rightarrow> ('d, 'z) compiler_scheme \<Rightarrow> bool"
  shows "wp (in_lexer (luaX_syntaxerror H msg)) Q (\<lambda>e _. e = LUA_ERRSYNTAX) s"
proof -
  have "wp (luaX_syntaxerror H msg) (\<lambda>(_ :: 'a) _. False) (\<lambda>e _. e = LUA_ERRSYNTAX) (ls s)"
    by (simp add: luaX_syntaxerror_def luaX_lexerror_def txtToken_def save_def throw_syntax_def wps)
  then show ?thesis by (auto simp: wp_def in_lexer_def split: res.splits)
qed

definition redirect :: "instruction list \<Rightarrow> int \<Rightarrow> int \<Rightarrow> instruction list" where
  "redirect c j dest = c[nat j := SETARG_sBx (c ! nat j) (dest - (j + 1))]"

lemma redirect_simps [simp]:
  "length (redirect c j dest) = length c" "inside (redirect c j dest) i = inside c i"
  by (simp_all add: redirect_def inside_def)

lemma redirect_other: "inside c i \<Longrightarrow> inside c j \<Longrightarrow> i \<noteq> j \<Longrightarrow> redirect c j dest ! nat i = c ! nat i"
  by (auto simp: redirect_def inside_def)

lemma redirect_same:
  assumes "inside c j" "\<bar>dest - (j + 1)\<bar> \<le> MAXARG_sBx"
  shows "jump_dest (redirect c j dest) j = dest" "GET_OPCODE (redirect c j dest ! nat j) = GET_OPCODE (c ! nat j)"
    "GETARG_sBx (redirect c j dest ! nat j) = dest - (j + 1)"
proof -
  have "- MAXARG_sBx \<le> dest - (j + 1)" "dest - (j + 1) \<le> MAXARG_sBx + 1" using assms(2) by auto
  note SETARG_sBx_roundtrip [OF this, of "c ! nat j"]
  moreover have "redirect c j dest ! nat j = SETARG_sBx (c ! nat j) (dest - (j + 1))"
    using assms(1) by (simp add: redirect_def inside_def nat_less_iff)
  ultimately show "jump_dest (redirect c j dest) j = dest" "GET_OPCODE (redirect c j dest ! nat j) = GET_OPCODE (c ! nat j)"
    "GETARG_sBx (redirect c j dest ! nat j) = dest - (j + 1)"
    by (simp_all add: jump_dest_def)
qed

lemma fixjump_wp:
  assumes "inside (code (fs s)) j"
    and "\<bar>dest - (j + 1)\<bar> \<le> MAXARG_sBx \<Longrightarrow> Q () (with_code s (redirect (code (fs s)) j dest))"
  shows "wp (fixjump H j dest) Q (\<lambda>e _. e = LUA_ERRSYNTAX) s"
proof (cases "MAXARG_sBx < \<bar>dest - (j + 1)\<bar>")
  case True
  have "wp (in_lexer (luaX_syntaxerror H ''control structure too long'')) (\<lambda>_. wp (write_code j x) Q (\<lambda>e _. e = LUA_ERRSYNTAX))
      (\<lambda>e _. e = LUA_ERRSYNTAX) s" for x
    by (rule syntaxerror_wp)
  then show ?thesis using True
    by (simp add: fixjump_def wps assms(1) Let_def)
next
  case False
  then show ?thesis using assms
    by (simp add: fixjump_def wps Let_def redirect_def)
qed

section \<open>Joining lists\<close>

lemma last_jump_run:
  "jlist (code (fs s)) l js \<Longrightarrow> js \<noteq> [] \<Longrightarrow> length js \<le> f \<Longrightarrow> last_jump f l s = Val (List.last js) s"
proof (induction js arbitrary: l f)
  case (Cons j js)
  then obtain g where f: "f = Suc g" by (cases f) auto
  have j: "l = j" "inside (code (fs s)) j" "jlist (code (fs s)) (link (code (fs s)) j) js" using Cons.prems(1) by auto
  show ?case
  proof (cases "js = []")
    case True
    then show ?thesis using j f by (simp add: bnd_def getjump_run)
  next
    case False
    then have "link (code (fs s)) j \<noteq> NO_JUMP" using j(3) by (auto simp: jlist_NO_JUMP)
    then show ?thesis using j f False Cons by (simp add: bnd_def getjump_run)
  qed
qed simp

declare last_jump.simps [simp del]

lemma jlist_joined:
  assumes "jlist c l1 (js @ [j])" "jlist c l2 ks" "ks \<noteq> []" "distinct (js @ [j] @ ks)" "\<bar>l2 - (j + 1)\<bar> \<le> MAXARG_sBx"
  shows "jlist (redirect c j l2) l1 ((js @ [j]) @ ks)"
  using assms(1,4)
proof (induction js arbitrary: l1)
  case Nil
  have k: "jlist (redirect c j l2) l2 ks"
  proof -
    have "redirect c j l2 ! nat k = c ! nat k" if "k \<in> set ks" for k
      using Nil that assms(2) by (intro redirect_other) (auto dest: jlist_inside)
    then show ?thesis using assms(2) by (subst jlist_cong [of _ c]) auto
  qed
  have "l2 \<noteq> j" using Nil(2) assms(2,3) by (cases ks) auto
  then have "link (redirect c j l2) j = l2"
    using redirect_same [OF _ assms(5)] Nil(1) by (auto simp: link_def NO_JUMP_def)
  moreover have "offset_op (redirect c j l2 ! nat j)"
    using redirect_same(2) [OF _ assms(5)] Nil(1) by (auto simp: offset_op_def has_op_def)
  ultimately show ?case using Nil(1) k by simp
next
  case (Cons i js)
  then have "redirect c j l2 ! nat i = c ! nat i" by (intro redirect_other) (auto dest: jlist_inside)
  moreover from this have "link (redirect c j l2) i = link c i" by (simp add: link_def)
  moreover have "jlist (redirect c j l2) (link c i) ((js @ [j]) @ ks)" using Cons by (intro Cons.IH) auto
  ultimately show ?case using Cons.prems(1) by simp
qed

lemma concat_wp:
  assumes "jlist (code (fs s)) l1 js" "jlist (code (fs s)) l2 ks" "distinct (js @ ks)"
    and "\<And>c. length c = length (code (fs s)) \<Longrightarrow> jlist c (if js = [] then l2 else l1) (js @ ks) \<Longrightarrow>
      (\<And>i. inside c i \<Longrightarrow> i \<notin> set js \<Longrightarrow> c ! nat i = code (fs s) ! nat i) \<Longrightarrow>
      (\<And>i. inside c i \<Longrightarrow> GET_OPCODE (c ! nat i) = GET_OPCODE (code (fs s) ! nat i)) \<Longrightarrow>
      Q (if js = [] then l2 else l1) (with_code s c)"
  shows "wp (luaK_concat H l1 l2) Q (\<lambda>e _. e = LUA_ERRSYNTAX) s"
proof -
  have here: "with_code s (code (fs s)) = s" by simp
  show ?thesis
  proof (cases "ks = [] \<or> js = []")
    case True
    then have "js \<noteq> [] \<longleftrightarrow> l1 \<noteq> NO_JUMP" "ks \<noteq> [] \<longleftrightarrow> l2 \<noteq> NO_JUMP"
      using assms(1,2) by (cases js; cases ks; auto)+
    then show ?thesis using True assms(1,2) assms(4) [of "code (fs s)"]
      by (auto simp: luaK_concat_def wps)
  next
    case False
    then obtain us j where js: "js = us @ [j]" by (cases js rule: rev_cases) auto
    have ne: "l1 \<noteq> NO_JUMP" "l2 \<noteq> NO_JUMP" using False assms(1,2) by (auto simp: jlist_NO_JUMP)
    have "length js \<le> length (code (fs s)) + 1" using jlist_length [OF assms(1)] assms(3) by simp
    then have last: "last_jump (length (code (fs s)) + 1) l1 s = Val j s"
      using last_jump_run [OF assms(1)] False js by simp
    have j: "inside (code (fs s)) j" using jlist_inside [OF assms(1)] js by simp
    have "wp (fixjump H j l2) (\<lambda>_. Q l1) (\<lambda>e _. e = LUA_ERRSYNTAX) s"
    proof (rule fixjump_wp [OF j])
      assume small: "\<bar>l2 - (j + 1)\<bar> \<le> MAXARG_sBx"
      have "GET_OPCODE (redirect (code (fs s)) j l2 ! nat i) = GET_OPCODE (code (fs s) ! nat i)" if "inside (code (fs s)) i" for i
        using redirect_same(2) [OF j small] redirect_other [OF that j] by (cases "i = j") auto
      then show "Q l1 (with_code s (redirect (code (fs s)) j l2))"
        using assms(4) [of "redirect (code (fs s)) j l2"] jlist_joined [of _ l1 us j l2 ks] assms(1-3) False js small j
        by (auto intro: redirect_other)
    qed
    then show ?thesis using ne
      by (simp add: luaK_concat_def wps wp_ret wp_Val [where m = "last_jump (Suc (length (code (fs s)))) l1", OF last [simplified]])
  qed
qed

section \<open>Patching\<close>

text \<open>
  The instruction before a jump controls it when it is a test. Positions whose test can be looked at,
  and what a patch does to a test that yields a value.
\<close>

definition control :: "instruction list \<Rightarrow> int \<Rightarrow> int" where
  "control c j = (if 1 \<le> j \<and> (\<exists>t. op_of_num (GET_OPCODE (c ! nat (j - 1))) = Some t \<and> testTMode t) then j - 1 else j)"

definition readable :: "instruction list \<Rightarrow> int \<Rightarrow> bool" where
  "readable c j \<longleftrightarrow> (1 \<le> j \<longrightarrow> op_of_num (GET_OPCODE (c ! nat (j - 1))) \<noteq> None)"

definition yields :: "instruction list \<Rightarrow> int \<Rightarrow> bool" where
  "yields c j \<longleftrightarrow> has_op (c ! nat (control c j)) OP_TESTSET"

definition retest :: "int \<Rightarrow> instruction \<Rightarrow> instruction" where
  "retest reg i = (if reg \<noteq> NO_REG \<and> reg \<noteq> GETARG_B i then SETARG_A i reg else CREATE_ABC OP_TEST (GETARG_B i) 0 (GETARG_C i))"

lemma inside_control: "inside c j \<Longrightarrow> inside c (control c j)"
  by (auto simp: inside_def control_def)

lemma getjumpcontrol_run:
  assumes "inside (code (fs s)) j" "readable (code (fs s)) j"
  shows "getjumpcontrol j s = Val (control (code (fs s)) j) s"
proof (cases "1 \<le> j")
  case True
  then have "inside (code (fs s)) (j - 1)" using assms(1) by (auto simp: inside_def)
  then show ?thesis using assms(2) True
    by (auto simp: getjumpcontrol_def bnd_def read_code_run test_mode_def readable_def control_def split: option.split)
qed (simp add: getjumpcontrol_def bnd_def control_def)

lemma patchtestreg_run:
  assumes "inside (code (fs s)) j" "readable (code (fs s)) j"
  shows "patchtestreg j reg s = Val (yields (code (fs s)) j)
    (with_code s (if yields (code (fs s)) j then (code (fs s))[nat (control (code (fs s)) j) := retest reg (code (fs s) ! nat (control (code (fs s)) j))]
       else code (fs s)))"
  using getjumpcontrol_run [OF assms] inside_control [OF assms(1)]
  by (simp add: patchtestreg_def bnd_def seq_def read_code_run write_code_run yields_def retest_def)

definition tests :: "instruction list \<Rightarrow> int \<Rightarrow> bool" where
  "tests c i \<longleftrightarrow> (\<exists>t. op_of_num (GET_OPCODE (c ! nat i)) = Some t \<and> testTMode t)"

lemma control_tests: "control c j = (if 1 \<le> j \<and> tests c (j - 1) then j - 1 else j)"
  by (simp add: control_def tests_def)

lemma op_tests: "GET_OPCODE (c ! nat i) = op_num t \<Longrightarrow> tests c i = testTMode t"
  unfolding tests_def using op_of_num_op_num [of t] by simp

lemma offset_not_test:
  "offset_op (c ! nat i) \<Longrightarrow> \<not> tests c i" "offset_op i' \<Longrightarrow> \<not> has_op i' OP_TESTSET"
proof -
  show "offset_op (c ! nat i) \<Longrightarrow> \<not> tests c i"
    unfolding offset_op_def has_op_def using op_tests [of c i OP_JMP] op_tests [of c i OP_FORLOOP] op_tests [of c i OP_FORPREP]
    by (auto simp: testTMode_iff simp del: op_num.simps)
qed (auto simp: offset_op_def has_op_def)

lemma testset_tests: "has_op (c ! nat i) OP_TESTSET \<Longrightarrow> tests c i"
  using op_tests [of c i OP_TESTSET] by (simp add: has_op_def testTMode_iff)

lemma opcode_CREATE_ABC: "GET_OPCODE (CREATE_ABC t a b cc) = op_num t"
proof -
  have "drop_bit 0 (CREATE_ABC t a b cc) AND MASK1 6 0 = take_bit 6 (of_nat (op_num t))"
    by (rule bit_word_eqI) (auto simp: CREATE_ABC_def bit_simps bit_MASK1)
  then show ?thesis by (simp add: field_defs unat_take_bit_op_num)
qed

lemma retest_op: "has_op i OP_TESTSET \<Longrightarrow> GET_OPCODE (retest reg i) = op_num OP_TEST \<or> GET_OPCODE (retest reg i) = op_num OP_TESTSET"
  unfolding retest_def has_op_def by (cases "reg \<noteq> NO_REG \<and> reg \<noteq> GETARG_B i") (simp_all only: if_True if_False opcode_CREATE_ABC get_set_frame simp_thms)

text \<open>One jump of a list gets its target.\<close>

definition retested :: "int \<Rightarrow> int \<Rightarrow> instruction list \<Rightarrow> instruction list" where
  "retested reg j c = (if yields c j then c[nat (control c j) := retest reg (c ! nat (control c j))] else c)"

definition patched :: "int \<Rightarrow> int \<Rightarrow> int \<Rightarrow> int \<Rightarrow> instruction list \<Rightarrow> instruction list" where
  "patched vt reg dt j c = redirect (retested reg j c) j (if yields c j then vt else dt)"

lemma patched_length [simp]: "length (patched vt reg dt j c) = length c" "inside (patched vt reg dt j c) i = inside c i"
  by (simp_all add: patched_def retested_def inside_def)

definition patchable :: "int \<Rightarrow> int \<Rightarrow> int \<Rightarrow> instruction list \<Rightarrow> bool" where
  "patchable vt dt j c \<longleftrightarrow> inside c j \<and> offset_op (c ! nat j) \<and> \<bar>(if yields c j then vt else dt) - (j + 1)\<bar> \<le> MAXARG_sBx"

lemma yields_control:
  assumes "inside c j" "offset_op (c ! nat j)" "yields c j"
  shows "control c j = j - 1" "1 \<le> j" "inside c (j - 1)"
  using assms inside_control [OF assms(1)]
  by (auto simp: yields_def control_tests offset_not_test split: if_splits)

lemma retested_inside [simp]: "inside (retested reg j c) i = inside c i"
  by (simp add: retested_def inside_def)

lemma retested_other:
  assumes "patchable vt dt j c" "inside c i" "\<not> (yields c j \<and> i = j - 1)"
  shows "retested reg j c ! nat i = c ! nat i"
proof (cases "yields c j")
  case True
  then have "control c j = j - 1" "inside c (j - 1)" using assms(1) by (auto simp: patchable_def dest: yields_control)
  then show ?thesis using True assms(2,3) by (auto simp: retested_def inside_def nth_list_update)
qed (simp add: retested_def)

lemma patched_other:
  assumes "patchable vt dt j c" "inside c i" "i \<noteq> j" "\<not> (yields c j \<and> i = j - 1)"
  shows "patched vt reg dt j c ! nat i = c ! nat i"
  unfolding patched_def using assms by (subst redirect_other) (auto simp: patchable_def intro: retested_other)

lemma patched_control:
  assumes "patchable vt dt j c" "yields c j"
  shows "patched vt reg dt j c ! nat (j - 1) = retest reg (c ! nat (j - 1))"
proof -
  note at = yields_control [OF _ _ assms(2)]
  have j: "inside c j" "control c j = j - 1" "inside c (j - 1)" using assms at by (auto simp: patchable_def)
  then have "patched vt reg dt j c ! nat (j - 1) = retested reg j c ! nat (j - 1)"
    unfolding patched_def by (intro redirect_other) simp_all
  also have "\<dots> = retest reg (c ! nat (j - 1))" using j assms(2) by (simp add: retested_def inside_def nat_less_iff)
  finally show ?thesis .
qed

lemma patched_jump:
  assumes "patchable vt dt j c"
  shows "jump_dest (patched vt reg dt j c) j = (if yields c j then vt else dt)"
    "GET_OPCODE (patched vt reg dt j c ! nat j) = GET_OPCODE (c ! nat j)"
proof -
  have j: "inside c j" "\<bar>(if yields c j then vt else dt) - (j + 1)\<bar> \<le> MAXARG_sBx" using assms by (auto simp: patchable_def)
  have "inside (retested reg j c) j" using j(1) by simp
  note redirect_same [OF this j(2)]
  then show "jump_dest (patched vt reg dt j c) j = (if yields c j then vt else dt)"
    "GET_OPCODE (patched vt reg dt j c ! nat j) = GET_OPCODE (c ! nat j)"
    using retested_other [OF assms j(1)] by (simp_all add: patched_def)
qed

lemma patched_opcode:
  assumes "patchable vt dt j c" "inside c i"
  shows "tests (patched vt reg dt j c) i = tests c i \<and>
    (op_of_num (GET_OPCODE (patched vt reg dt j c ! nat i)) = None \<longleftrightarrow> op_of_num (GET_OPCODE (c ! nat i)) = None)"
proof -
  consider "i = j" | "i \<noteq> j" "yields c j" "i = j - 1" | "i \<noteq> j" "\<not> (yields c j \<and> i = j - 1)" by blast
  then show ?thesis
  proof cases
    case 1
    then show ?thesis using patched_jump(2) [OF assms(1)] by (simp add: tests_def)
  next
    case 2
    let ?c' = "patched vt reg dt j c"
    have "control c j = i" using assms(1) 2 by (auto simp: patchable_def dest: yields_control)
    then have op: "has_op (c ! nat i) OP_TESTSET" using 2(2) by (simp add: yields_def)
    then have old: "tests c i" "GET_OPCODE (c ! nat i) = op_num OP_TESTSET" by (rule testset_tests, simp add: has_op_def)
    have "?c' ! nat i = retest reg (c ! nat i)" using patched_control [OF assms(1) 2(2)] 2(3) by simp
    then obtain t where new: "GET_OPCODE (?c' ! nat i) = op_num t" "testTMode t"
      using retest_op [OF op, of reg] by (metis testTMode_iff insertCI)
    have "op_of_num (GET_OPCODE (?c' ! nat i)) \<noteq> None" "op_of_num (GET_OPCODE (c ! nat i)) \<noteq> None"
      unfolding new(1) old(2) op_of_num_op_num by simp_all
    moreover have "tests ?c' i" using op_tests [OF new(1)] new(2) by simp
    ultimately show ?thesis using old(1) by auto
  next
    case 3
    then show ?thesis using patched_other [OF assms] by (simp add: tests_def)
  qed
qed

lemma patched_keeps:
  assumes "patchable vt dt j c" "inside c i" "i \<noteq> j" "offset_op (c ! nat i)"
  shows "patched vt reg dt j c ! nat i = c ! nat i" "control (patched vt reg dt j c) i = control c i"
    "yields (patched vt reg dt j c) i = yields c i" "readable (patched vt reg dt j c) i = readable c i"
    "patched vt reg dt j c ! nat (control c i) = c ! nat (control c i)"
proof -
  let ?c' = "patched vt reg dt j c"
  have ne: "\<not> (yields c j \<and> i = j - 1)"
  proof
    assume "yields c j \<and> i = j - 1"
    moreover from this assms(1) have "control c j = j - 1" by (auto simp: patchable_def dest: yields_control)
    ultimately show False using assms(4) by (simp add: yields_def offset_not_test)
  qed
  show same: "?c' ! nat i = c ! nat i" by (rule patched_other [OF assms(1-3) ne])
  have pred: "inside c (i - 1)" if "1 \<le> i" using that assms(2) by (auto simp: inside_def)
  show ctl: "control ?c' i = control c i"
    using patched_opcode [OF assms(1) pred] by (auto simp: control_tests)
  show "readable ?c' i = readable c i"
    using patched_opcode [OF assms(1) pred] by (auto simp: readable_def)
  show control: "?c' ! nat (control c i) = c ! nat (control c i)"
  proof (cases "control c i = i")
    case False
    then have i: "1 \<le> i" "control c i = i - 1" "tests c (i - 1)" by (auto simp: control_tests split: if_splits)
    moreover have "offset_op (c ! nat j)" using assms(1) by (simp add: patchable_def)
    ultimately have "i - 1 \<noteq> j" using offset_not_test(1) by auto
    then show ?thesis using i pred assms(1,3) by (simp add: patched_other)
  qed (simp add: same)
  show "yields ?c' i = yields c i" by (simp add: yields_def ctl control)
qed

text \<open>
  What patching the jumps \<open>js\<close> does to the code: jumps after a test that yields a value go to \<open>vt\<close> and the
  test puts the value into \<open>reg\<close>, the others go to \<open>dt\<close>, and nothing else changes.
\<close>

definition patches :: "int \<Rightarrow> int \<Rightarrow> int \<Rightarrow> int list \<Rightarrow> instruction list \<Rightarrow> instruction list \<Rightarrow> bool" where
  "patches vt reg dt js c c' \<longleftrightarrow> length c' = length c \<and>
     (\<forall>j \<in> set js. jump_dest c' j = (if yields c j then vt else dt) \<and> GET_OPCODE (c' ! nat j) = GET_OPCODE (c ! nat j) \<and>
        (yields c j \<longrightarrow> c' ! nat (j - 1) = retest reg (c ! nat (j - 1)))) \<and>
     (\<forall>i. inside c i \<longrightarrow> i \<notin> set js \<longrightarrow> (\<forall>j \<in> set js. yields c j \<longrightarrow> i \<noteq> j - 1) \<longrightarrow> c' ! nat i = c ! nat i)"

lemma patches_Cons:
  assumes j: "patchable vt dt j c" and js: "\<And>i. i \<in> set js \<Longrightarrow> inside c i \<and> offset_op (c ! nat i)" "j \<notin> set js"
    and rest: "patches vt reg dt js (patched vt reg dt j c) c'"
  shows "patches vt reg dt (j # js) c c'"
proof -
  let ?c1 = "patched vt reg dt j c"
  note keep = patched_keeps [OF j, where reg = reg]
  have ins: "inside c j" "offset_op (c ! nat j)" using j by (auto simp: patchable_def)
  have off: "i - 1 \<notin> set js \<and> i - 1 \<noteq> j" if "yields c i" "i = j \<or> i \<in> set js" for i
  proof -
    have i: "inside c i" "offset_op (c ! nat i)" using that(2) js(1) ins by auto
    then have "has_op (c ! nat (i - 1)) OP_TESTSET" using yields_control [OF i that(1)] that(1) by (simp add: yields_def)
    then show ?thesis using js(1) ins(2) offset_not_test(2) by auto
  qed
  have ctl: "yields ?c1 i = yields c i" "inside c i" if "i \<in> set js" for i
    using keep(3) js that by auto
  have k: "jump_dest c' i = (if yields c i then vt else dt) \<and> GET_OPCODE (c' ! nat i) = GET_OPCODE (c ! nat i) \<and>
      (yields c i \<longrightarrow> c' ! nat (i - 1) = retest reg (c ! nat (i - 1)))" if "i \<in> set js" for i
  proof -
    have i: "inside c i" "i \<noteq> j" "offset_op (c ! nat i)" using js that by auto
    have "?c1 ! nat (i - 1) = c ! nat (i - 1)" if "yields c i"
      using keep(5) [OF i] yields_control(1) [OF i(1,3) that] by simp
    then show ?thesis using rest that keep(1,3) [OF i] by (simp add: patches_def)
  qed
  have other: "c' ! nat i = ?c1 ! nat i" if "inside c i" "i \<notin> set js" "\<And>k. k \<in> set js \<Longrightarrow> yields c k \<Longrightarrow> i \<noteq> k - 1" for i
    using rest that ctl by (auto simp: patches_def)
  have "c' ! nat j = ?c1 ! nat j" by (rule other [OF ins(1) js(2)]) (use off in auto)
  moreover have "c' ! nat (j - 1) = retest reg (c ! nat (j - 1))" if y: "yields c j"
  proof -
    have "c' ! nat (j - 1) = ?c1 ! nat (j - 1)"
      by (rule other) (use yields_control(3) [OF ins y] off [OF y] js(2) in auto)
    then show ?thesis using patched_control [OF j y] by simp
  qed
  moreover have "c' ! nat i = c ! nat i" if "inside c i" "i \<notin> set (j # js)" "\<And>k. k \<in> set (j # js) \<Longrightarrow> yields c k \<Longrightarrow> i \<noteq> k - 1" for i
    using other [of i] patched_other [OF j that(1), of reg] that by auto
  moreover have "length c' = length c" using rest by (simp add: patches_def)
  ultimately show ?thesis
    using k patched_jump [OF j, of reg] unfolding patches_def by (auto simp: jump_dest_def)
qed

lemma patchlist_loop_wp:
  assumes "jlist (code (fs s)) l js" "distinct js" "\<And>j. j \<in> set js \<Longrightarrow> readable (code (fs s)) j" "length js < f"
    and "\<And>c. patches vt reg dt js (code (fs s)) c \<Longrightarrow> Q () (with_code s c)"
  shows "wp (patchlist_loop H f l vt reg dt) Q (\<lambda>e _. e = LUA_ERRSYNTAX) s"
  using assms
proof (induction js arbitrary: s l f)
  case Nil
  then obtain g where "f = Suc g" by (cases f) auto
  moreover have "Q () (with_code s (code (fs s)))" by (rule Nil(5)) (simp add: patches_def)
  ultimately show ?case using Nil(1) by (simp add: wp_def)
next
  case (Cons j js)
  let ?c = "code (fs s)"
  obtain g where f: "f = Suc g" "length js < g" using Cons.prems(4) by (cases f) auto
  have j: "l = j" "inside ?c j" "offset_op (?c ! nat j)" "jlist ?c (link ?c j) js" "readable ?c j"
    using Cons.prems(1,3) by auto
  have in_js: "inside ?c i" "offset_op (?c ! nat i)" if "i \<in> set js" for i
    using jlist_inside [OF j(4) that] jlist_offset [OF j(4) that] by auto
  let ?dest = "if yields ?c j then vt else dt"
  let ?s = "with_code s (retested reg j ?c)"
  have "wp (fixjump H j ?dest) (\<lambda>_. wp (patchlist_loop H g (link ?c j) vt reg dt) Q (\<lambda>e _. e = LUA_ERRSYNTAX))
      (\<lambda>e _. e = LUA_ERRSYNTAX) ?s"
  proof (rule fixjump_wp)
    show "inside (code (fs ?s)) j" using j(2) by simp
    assume "\<bar>?dest - (j + 1)\<bar> \<le> MAXARG_sBx"
    then have p: "patchable vt dt j ?c" using j by (simp add: patchable_def)
    note keep = patched_keeps [OF p, where reg = reg]
    have "wp (patchlist_loop H g (link ?c j) vt reg dt) Q (\<lambda>e _. e = LUA_ERRSYNTAX) (with_code s (patched vt reg dt j ?c))"
    proof (rule Cons.IH)
      show "jlist (code (fs (with_code s (patched vt reg dt j ?c)))) (link ?c j) js"
        using j(4) Cons.prems(2) keep(1) in_js by (subst jlist_cong [of _ ?c]) auto
      show "readable (code (fs (with_code s (patched vt reg dt j ?c)))) i" if "i \<in> set js" for i
        using keep(4) [OF in_js(1) _ in_js(2)] that Cons.prems(2,3) by (cases "i = j") auto
      show "Q () (with_code (with_code s (patched vt reg dt j ?c)) c)"
        if "patches vt reg dt js (code (fs (with_code s (patched vt reg dt j ?c)))) c" for c
        using Cons.prems(5) [OF patches_Cons [OF p _ _ that [simplified]]] in_js Cons.prems(2) by simp
    qed (use Cons.prems(2) f in simp_all)
    then show "wp (patchlist_loop H g (link ?c j) vt reg dt) Q (\<lambda>e _. e = LUA_ERRSYNTAX)
        (with_code ?s (redirect (code (fs ?s)) j ?dest))" by (simp add: patched_def)
  qed
  then show ?case using j f
    by (simp add: wps wp_Val [where m = "getjump j", OF getjump_run] retested_def
        wp_Val [where m = "patchtestreg j reg", OF patchtestreg_run] NO_JUMP_def inside_def split: if_splits)
qed

declare patchlist_loop.simps [simp del]

lemma patchlistaux_wp:
  assumes "jlist (code (fs s)) l js" "distinct js" "\<And>j. j \<in> set js \<Longrightarrow> readable (code (fs s)) j"
    and "\<And>c. patches vt reg dt js (code (fs s)) c \<Longrightarrow> Q () (with_code s c)"
  shows "wp (patchlistaux H l vt reg dt) Q (\<lambda>e _. e = LUA_ERRSYNTAX) s"
  using jlist_length [OF assms(1,2)] patchlist_loop_wp [OF assms(1-3), where Q = Q and vt = vt and reg = reg and dt = dt and H = H] assms(4)
  by (simp add: patchlistaux_def wps)

lemma readable_cong:
  assumes "\<And>i. inside c i \<Longrightarrow> GET_OPCODE (c' ! nat i) = GET_OPCODE (c ! nat i)" "inside c j"
  shows "readable c' j = readable c j"
proof -
  have "1 \<le> j \<Longrightarrow> inside c (j - 1)" using assms(2) by (auto simp: inside_def)
  then show ?thesis using assms(1) by (auto simp: readable_def)
qed

lemma luaK_code_wp:
  assumes "jlist (code (fs s)) (jpc (fs s)) js" "distinct js" "\<And>j. j \<in> set js \<Longrightarrow> readable (code (fs s)) j"
    and "\<And>c. patches (pc (fs s)) NO_REG (pc (fs s)) js (code (fs s)) c \<Longrightarrow> pc (fs s) < MAX_INT \<Longrightarrow>
      Q (pc (fs s)) (s\<lparr>fs := (fs s)\<lparr>jpc := NO_JUMP, code := c @ [i], lineinfo := lineinfo (fs s) @ [line]\<rparr>\<rparr>)"
  shows "wp (luaK_code H i line) Q (\<lambda>e _. e \<in> {LUA_ERRSYNTAX, LUA_ERRRUN}) s"
proof -
  let ?p = "pc (fs s)" and ?E = "\<lambda>e _. e \<in> {LUA_ERRSYNTAX, LUA_ERRRUN}"
  define emit where "emit = (bnd (get_fs pc) (\<lambda>p. if MAX_INT \<le> p then raise LUA_ERRRUN
        else seq (upd_fs (\<lambda>F. F\<lparr>code := code F @ [i], lineinfo := lineinfo F @ [line]\<rparr>)) (ret p)) :: ('a, 'b, int) gen)"
  have emitted: "wp emit Q ?E ((with_code s c)\<lparr>fs := (fs (with_code s c))\<lparr>jpc := NO_JUMP\<rparr>\<rparr>)"
    if "patches ?p NO_REG ?p js (code (fs s)) c" for c
    using assms(4) [OF that] that by (auto simp: emit_def wps patches_def)
  have "wp (patchlistaux H (jpc (fs s)) ?p NO_REG ?p) (\<lambda>_ s'. wp emit Q ?E (s'\<lparr>fs := (fs s')\<lparr>jpc := NO_JUMP\<rparr>\<rparr>))
      (\<lambda>e _. e = LUA_ERRSYNTAX) s"
    by (rule patchlistaux_wp [OF assms(1,2)], erule assms(3), erule emitted)
  then have "wp (patchlistaux H (jpc (fs s)) ?p NO_REG ?p) (\<lambda>_ s'. wp emit Q ?E (s'\<lparr>fs := (fs s')\<lparr>jpc := NO_JUMP\<rparr>\<rparr>)) ?E s"
    by (rule wp_mono) simp_all
  then show ?thesis
    unfolding luaK_code_def dischargejpc_def emit_def [symmetric] by (simp add: wp_bnd wp_seq wp_basic wp_upd)
qed

text \<open>
  Property C29. \<open>luaK_patchtohere\<close> directs jumps to the next instruction: after it and the emission of an
  instruction, all jumps of the list, and all that were pending before, go to that instruction, which
  is the last of the code; nothing is pending any more, and apart from the patched jumps and the tests
  before them the code is as it was. It fails only with the error for jumps that are too long or for
  code that is too large, and it always ends.
\<close>

theorem patchtohere_targets_next:
  assumes "jlist (code (fs s)) (jpc (fs s)) ps" "jlist (code (fs s)) l js" "distinct (ps @ js)"
    and "\<forall>j \<in> set (ps @ js). readable (code (fs s)) j"
  shows "wp (seq (luaK_patchtohere H l) (luaK_code H i line))
    (\<lambda>p s'. p = pc (fs s) \<and> length (code (fs s')) = length (code (fs s)) + 1 \<and> code (fs s') ! nat p = i \<and> jpc (fs s') = NO_JUMP \<and>
       (\<forall>j \<in> set (ps @ js). jump_dest (code (fs s')) j = p) \<and>
       (\<forall>k. inside (code (fs s)) k \<and> k \<notin> set (ps @ js) \<and> k + 1 \<notin> set (ps @ js) \<longrightarrow> code (fs s') ! nat k = code (fs s) ! nat k))
    (\<lambda>e _. e \<in> {LUA_ERRSYNTAX, LUA_ERRRUN}) s"
  (is "wp _ ?Q _ _")
proof -
  let ?c = "code (fs s)" and ?s = "s\<lparr>fs := (fs s)\<lparr>lasttarget := pc (fs s)\<rparr>\<rparr>"
  have emit: "wp (luaK_code H i line) ?Q (\<lambda>e _. e \<in> {LUA_ERRSYNTAX, LUA_ERRRUN})
      (s\<lparr>fs := (fs s)\<lparr>lasttarget := pc (fs s), code := c, jpc := j\<rparr>\<rparr>)"
    if c: "length c = length ?c" "jlist c j (ps @ js)" "\<And>i. inside c i \<Longrightarrow> i \<notin> set ps \<Longrightarrow> c ! nat i = ?c ! nat i"
      "\<And>i. inside c i \<Longrightarrow> GET_OPCODE (c ! nat i) = GET_OPCODE (?c ! nat i)" for c j
  proof (rule luaK_code_wp)
    have ins: "inside c k = inside ?c k" for k using c(1) by (simp add: inside_def)
    let ?t = "s\<lparr>fs := (fs s)\<lparr>lasttarget := pc (fs s), code := c, jpc := j\<rparr>\<rparr>"
    show "readable (code (fs ?t)) k" if "k \<in> set (ps @ js)" for k
      using readable_cong [of ?c c k] that assms(4) jlist_inside [OF c(2) that] c(4) ins by auto
    show "?Q (pc (fs ?t)) (?t\<lparr>fs := (fs ?t)\<lparr>jpc := NO_JUMP, code := c' @ [i], lineinfo := lineinfo (fs ?t) @ [line]\<rparr>\<rparr>)"
      if p: "patches (pc (fs ?t)) NO_REG (pc (fs ?t)) (ps @ js) (code (fs ?t)) c'" for c'
    proof -
      have len: "length c' = length ?c" and dest: "\<And>j. j \<in> set (ps @ js) \<Longrightarrow> jump_dest c' j = pc (fs s)"
        using p c(1) by (auto simp: patches_def)
      have at: "(c' @ [i]) ! nat k = c' ! nat k" if "inside ?c k" for k
        using that len by (auto simp: inside_def nth_append)
      have in_js: "inside ?c k" if "k \<in> set (ps @ js)" for k using jlist_inside [OF c(2) that] ins by simp
      have "c' ! nat k = ?c ! nat k" if "inside ?c k" "k \<notin> set (ps @ js)" "k + 1 \<notin> set (ps @ js)" for k
      proof -
        have "k \<noteq> j - 1" if "j \<in> set (ps @ js)" for j using that \<open>k + 1 \<notin> set (ps @ js)\<close> by auto
        then have "c' ! nat k = c ! nat k" using p that ins by (auto simp: patches_def)
        then show ?thesis using c(3) that ins by simp
      qed
      then show ?thesis using len c(1) dest at in_js
        by (simp add: jump_dest_def nth_append del: set_append)
    qed
  qed (use c(2) assms(3) in simp_all)
  have "wp (luaK_concat H (jpc (fs s)) l) (\<lambda>j s'. wp (luaK_code H i line) ?Q (\<lambda>e _. e \<in> {LUA_ERRSYNTAX, LUA_ERRRUN})
      (s'\<lparr>fs := (fs s')\<lparr>jpc := j\<rparr>\<rparr>)) (\<lambda>e _. e = LUA_ERRSYNTAX) ?s"
  proof (rule concat_wp [where js = ps and ks = js])
    fix c
    assume c: "length c = length (code (fs ?s))" "jlist c (if ps = [] then l else jpc (fs s)) (ps @ js)"
      "\<And>i. inside c i \<Longrightarrow> i \<notin> set ps \<Longrightarrow> c ! nat i = code (fs ?s) ! nat i"
      "\<And>i. inside c i \<Longrightarrow> GET_OPCODE (c ! nat i) = GET_OPCODE (code (fs ?s) ! nat i)"
    show "wp (luaK_code H i line) ?Q (\<lambda>e _. e \<in> {LUA_ERRSYNTAX, LUA_ERRRUN})
      ((with_code ?s c)\<lparr>fs := (fs (with_code ?s c))\<lparr>jpc := if ps = [] then l else jpc (fs s)\<rparr>\<rparr>)"
      using emit [of c "if ps = [] then l else jpc (fs s)"] c by simp
  qed (use assms in simp_all)
  then have "wp (luaK_concat H (jpc (fs s)) l) (\<lambda>j s'. wp (luaK_code H i line) ?Q (\<lambda>e _. e \<in> {LUA_ERRSYNTAX, LUA_ERRRUN})
      (s'\<lparr>fs := (fs s')\<lparr>jpc := j\<rparr>\<rparr>)) (\<lambda>e _. e \<in> {LUA_ERRSYNTAX, LUA_ERRRUN}) ?s"
    by (rule wp_mono) simp_all
  then show ?thesis
    unfolding luaK_patchtohere_def luaK_getlabel_def by (simp only: wp_bnd wp_seq wp_basic wp_upd) simp
qed

text \<open>A pending jump, and a test with a jump of its own.\<close>

definition sample_function :: FuncState where
  "sample_function = \<lparr>code = [CREATE_ABx OP_JMP 0 131070, CREATE_ABC OP_TEST 0 0 1, CREATE_ABx OP_JMP 0 131070], lineinfo = [1, 1, 1],
     ktab = [], maxstacksize = 2, h = [], h_addr = 0, lasttarget = 0, jpc = 0, freereg = 1, nactvar = 0\<rparr>"

definition sample_compiler :: "bytes option compiler" where
  "sample_compiler = \<lparr>ls = sample_lexer, fs = sample_function\<rparr>"

theorem patchtohere_targets_next_witness:
  "wp (seq (luaK_patchtohere sample_host 2) (luaK_code sample_host (CREATE_ABC OP_RETURN 0 1 0) 1))
    (\<lambda>p s'. p = 3 \<and> length (code (fs s')) = 4 \<and> jump_dest (code (fs s')) 0 = 3 \<and> jump_dest (code (fs s')) 2 = 3 \<and> jpc (fs s') = NO_JUMP)
    (\<lambda>e _. e \<in> {LUA_ERRSYNTAX, LUA_ERRRUN}) sample_compiler"
proof -
  have "jlist (code (fs sample_compiler)) (jpc (fs sample_compiler)) [0]" "jlist (code (fs sample_compiler)) 2 [2]"
    "\<forall>j \<in> set ([0] @ [2]). readable (code (fs sample_compiler)) j" "distinct ([0] @ [2 :: int])"
    by (code_simp)+
  from patchtohere_targets_next [OF this(1,2,4,3), of sample_host "CREATE_ABC OP_RETURN 0 1 0" 1] show ?thesis
    by (rule wp_mono) (auto simp: sample_compiler_def sample_function_def)
qed

end
