(* ===== verification/Emission.thy ===== *)
theory Emission
  imports Jumps "HOL-Library.Sublist"
begin

text \<open>
  Constants and instructions of the code generator: where a constant is found again, joining
  instructions that set registers to nil, and two cases that go wrong.
\<close>

section \<open>Constants\<close>

text \<open>A key of \<open>fs->h\<close> stands for a value; the table itself stands for nil.\<close>

definition stands_for :: "FuncState \<Rightarrow> TValue \<Rightarrow> TValue \<Rightarrow> bool" where
  "stands_for F k v \<longleftrightarrow> (if k = TTable (h_addr F) then v = TNil else luaO_rawequalObj k v)"

definition consts_ok :: "FuncState \<Rightarrow> bool" where
  "consts_ok F \<longleftrightarrow> (\<forall>(k, i) \<in> set (h F). i < length (ktab F) \<and> stands_for F k (ktab F ! i)) \<and> nk F \<le> MAXARG_Bx"

lemma number_at_Some: "number_at k es = Some i \<Longrightarrow> \<exists>k'. (k', i) \<in> set es \<and> luaO_rawequalObj k k'"
  by (induction k es rule: number_at.induct) (auto split: if_splits)

lemma stands_for_trans:
  assumes "stands_for F k v" "stands_for F k' v'" "luaO_rawequalObj k k'"
  shows "luaO_rawequalObj v v'"
proof (cases "k = TTable (h_addr F)")
  case True
  then have "k' = k" using assms(3) by (auto simp: rawequal_cases)
  then show ?thesis using assms True by (simp add: stands_for_def)
next
  case False
  then have "k' \<noteq> TTable (h_addr F)" using assms(3) by (cases k) (auto simp: rawequal_cases)
  then show ?thesis using assms False rawequal_sym rawequal_trans by (metis stands_for_def)
qed

lemma addk_wp:
  assumes "consts_ok (fs s)" "stands_for (fs s) k v" "luaO_rawequalObj v v"
  shows "wp (addk k v) (\<lambda>i s'. 0 \<le> i \<and> i < nk (fs s') \<and> consts_ok (fs s') \<and> luaO_rawequalObj v (ktab (fs s') ! nat i) \<and>
      prefix (ktab (fs s)) (ktab (fs s')) \<and> s' = s\<lparr>fs := (fs s)\<lparr>h := h (fs s'), ktab := ktab (fs s')\<rparr>\<rparr>)
    (\<lambda>e _. e = LUA_ERRRUN) s"
proof (cases "case k of TNumber n \<Rightarrow> num_nan n | _ \<Rightarrow> False")
  case True
  then show ?thesis by (simp add: addk_def wps)
next
  case False
  show ?thesis
  proof (cases "number_at k (h (fs s))")
    case (Some i)
    then obtain k' where k': "(k', i) \<in> set (h (fs s))" "luaO_rawequalObj k k'" using number_at_Some by blast
    then have "i < length (ktab (fs s))" "stands_for (fs s) k' (ktab (fs s) ! i)" using assms(1) by (auto simp: consts_ok_def)
    then have "i < length (ktab (fs s))" "luaO_rawequalObj v (ktab (fs s) ! i)" using stands_for_trans [OF assms(2)] k'(2) by auto
    then show ?thesis using False Some assms(1) by (simp add: addk_def wps)
  next
    case None
    have "nk (fs s) < MAXARG_Bx \<Longrightarrow> consts_ok ((fs s)\<lparr>h := (k, length (ktab (fs s))) # h (fs s), ktab := ktab (fs s) @ [v]\<rparr>)"
      using assms(1,2) by (auto simp: consts_ok_def stands_for_def nth_append split: if_splits)
    then show ?thesis using False None assms(3) by (simp add: addk_def wps)
  qed
qed

text \<open>
  Property C37. The constant that an instruction refers to is the one that was meant: whatever was
  entered before, \<open>luaK_stringK\<close>, \<open>luaK_numberK\<close>, \<open>boolK\<close> and \<open>nilK\<close> return the index of a constant that is
  equal to the value, existing constants keep their indices, the table of constants stays right and
  nothing else changes. Only an overflow of the table, or a NaN, raises an error.
\<close>

theorem constant_index:
  assumes "consts_ok (fs s)"
    and "m = luaK_stringK b \<and> v = TString b \<or> m = luaK_numberK r \<and> \<not> num_nan r \<and> v = TNumber r \<or> m = boolK t \<and> v = TBoolean t \<or>
      m = nilK \<and> v = TNil"
  shows "wp m (\<lambda>i s'. 0 \<le> i \<and> i < nk (fs s') \<and> consts_ok (fs s') \<and> luaO_rawequalObj v (ktab (fs s') ! nat i) \<and>
      prefix (ktab (fs s)) (ktab (fs s')) \<and> s' = s\<lparr>fs := (fs s)\<lparr>h := h (fs s'), ktab := ktab (fs s')\<rparr>\<rparr>)
    (\<lambda>e _. e = LUA_ERRRUN) s"
proof -
  have self: "luaO_rawequalObj v v" using assms(2) by (auto simp: rawequal_cases luai_numeq_def)
  show ?thesis
    using assms(2) addk_wp [OF assms(1), of v v] addk_wp [OF assms(1), of "TTable (h_addr (fs s))" TNil] self
    by (auto simp: luaK_stringK_def luaK_numberK_def boolK_def nilK_def stands_for_def wps)
qed

text \<open>
  Equal means raw equality, and the two zeros are equal: a constant \<open>-0\<close> after a constant \<open>0\<close> becomes \<open>0\<close>.
\<close>

lemma numberK_joins_zeros:
  assumes "h (fs s) = []" "ktab (fs s) = []"
  shows "\<exists>s'. seq (luaK_numberK 0) (luaK_numberK 0x8000000000000000) s = Val 0 s' \<and> ktab (fs s') = [TNumber 0]"
proof -
  have "\<not> num_nan 0" "\<not> num_nan 0x8000000000000000" "luai_numeq 0x8000000000000000 0"
    by (simp_all add: num_nan_def num_exp_def num_man_def luai_numeq_def num_zero_def)
  then show ?thesis using assms
    by (simp add: luaK_numberK_def addk_def seq_def bnd_def MAXARG_eq rawequal_cases)
qed

section \<open>Registers set to nil\<close>

text \<open>What \<open>OP_LOADNIL\<close> does to the registers.\<close>

definition exec_nil :: "instruction \<Rightarrow> (int \<Rightarrow> TValue) \<Rightarrow> int \<Rightarrow> TValue" where
  "exec_nil i R = (\<lambda>r. if GETARG_A i \<le> r \<and> r \<le> GETARG_B i then TNil else R r)"

lemma codeABC_wp:
  assumes "jpc (fs s) = NO_JUMP"
    and "\<And>c. pc (fs s) < MAX_INT \<Longrightarrow> Q (pc (fs s)) (s\<lparr>fs := (fs s)\<lparr>jpc := NO_JUMP, code := code (fs s) @ [CREATE_ABC t a b cc],
      lineinfo := lineinfo (fs s) @ [lastline (ls s)]\<rparr>\<rparr>)"
  shows "wp (luaK_codeABC H t a b cc) Q (\<lambda>e _. e \<in> {LUA_ERRSYNTAX, LUA_ERRRUN}) s"
proof -
  have empty: "c = code (fs s)" if p: "patches (pc (fs s)) NO_REG (pc (fs s)) [] (code (fs s)) c" for c
  proof (rule nth_equalityI)
    fix k
    assume "k < length c"
    then have "inside (code (fs s)) (int k)" using p by (simp add: patches_def inside_def)
    then show "c ! k = code (fs s) ! k" using p unfolding patches_def by (metis empty_iff empty_set nat_int)
  qed (use p in \<open>simp add: patches_def\<close>)
  show ?thesis unfolding luaK_codeABC_def wp_bnd wp_basic
  proof (rule luaK_code_wp [where js = "[]"])
    fix c
    assume c: "patches (pc (fs s)) NO_REG (pc (fs s)) [] (code (fs s)) c" and room: "pc (fs s) < MAX_INT"
    have same: "c = code (fs s)" by (rule empty [OF c])
    show "Q (pc (fs s)) (s\<lparr>fs := (fs s)\<lparr>jpc := NO_JUMP, code := c @ [CREATE_ABC t a b cc],
        lineinfo := lineinfo (fs s) @ [lastline (ls s)]\<rparr>\<rparr>)"
      unfolding same by (rule assms(2) [OF room])
  qed (use assms(1) in simp_all)
qed


theorem constant_index_witness:
  "wp (luaK_stringK [97]) (\<lambda>i s'. i = 0 \<and> ktab (fs s') = [TString [97]]) (\<lambda>e _. e = LUA_ERRRUN) sample_compiler"
proof -
  have "consts_ok (fs sample_compiler)" by (simp add: consts_ok_def sample_compiler_def sample_function_def MAXARG_eq)
  from constant_index [OF this, of "luaK_stringK [97]" "[97]" "TString [97]"]
  have "wp (luaK_stringK [97]) (\<lambda>i s'. 0 \<le> i \<and> i < nk (fs s') \<and> consts_ok (fs s') \<and> luaO_rawequalObj (TString [97]) (ktab (fs s') ! nat i))
    (\<lambda>e _. e = LUA_ERRRUN) sample_compiler"
    by (rule wp_mono) auto
  then show ?thesis
    by (simp add: luaK_stringK_def addk_def wps sample_compiler_def sample_function_def MAXARG_eq)
qed


section \<open>A count that is taken for an instruction\<close>

text \<open>
  Past 25550 elements the count of \<open>OP_SETLIST\<close> is a word of its own in the code. A jump that is emitted
  next sees it as the instruction that controls the jump: here the count 539 has the opcode of
  \<open>OP_TESTSET\<close>, and patching the jump turns it into 26, the \<open>OP_TEST\<close> of register 0.
\<close>

lemma luaK_code_run:
  assumes "jpc (fs s) = NO_JUMP" "pc (fs s) < MAX_INT"
  shows "luaK_code H i line s = Val (pc (fs s)) (s\<lparr>fs := (fs s)\<lparr>jpc := NO_JUMP, code := code (fs s) @ [i],
      lineinfo := lineinfo (fs s) @ [line]\<rparr>\<rparr>)"
  using assms by (simp add: luaK_code_def dischargejpc_def patchlistaux_def seq_def bnd_def patchlist_loop.simps)

lemma luaK_setlist_run:
  assumes "jpc (fs s) = NO_JUMP" "code (fs s) = []"
  shows "luaK_setlist H 0 26901 1 s = Val () (s\<lparr>fs := (fs s)\<lparr>jpc := NO_JUMP, code := [CREATE_ABC OP_SETLIST 0 1 0, 539],
      lineinfo := lineinfo (fs s) @ [lastline (ls s), lastline (ls s)], freereg := 1\<rparr>\<rparr>)"
  using assms by (simp add: luaK_setlist_def luaK_codeABC_def seq_def bnd_def
      luaK_code_run LUA_MULTRET_def LFIELDS_PER_FLUSH_def MAXARG_eq MAX_INT_def signed_divide_int_def)

lemma luaK_jump_run:
  assumes "jpc (fs s) = NO_JUMP" "pc (fs s) < MAX_INT"
  shows "luaK_jump H s = Val (pc (fs s)) (s\<lparr>fs := (fs s)\<lparr>jpc := NO_JUMP, code := code (fs s) @ [CREATE_ABx OP_JMP 0 (MAXARG_sBx - 1)],
      lineinfo := lineinfo (fs s) @ [lastline (ls s)]\<rparr>\<rparr>)"
  using assms by (simp add: luaK_jump_def luaK_codeAsBx_def luaK_codeABx_def seq_def bnd_def luaK_code_run luaK_concat_def NO_JUMP_def)

lemma setlist_count_patched:
  assumes "code (fs s) = []" "jpc (fs s) = NO_JUMP"
  shows "\<exists>s'. seq (luaK_setlist H 0 26901 1) (bnd (luaK_jump H) (\<lambda>j. luaK_patchlist H j 0)) s = Val () s' \<and>
    code (fs s') = [CREATE_ABC OP_SETLIST 0 1 0, 26, CREATE_ABx OP_JMP 0 (MAXARG_sBx - 3)]"
proof -
  let ?set = "CREATE_ABC OP_SETLIST 0 1 0" and ?jmp = "CREATE_ABx OP_JMP 0 (MAXARG_sBx - 1)"
  have jmp: "GETARG_sBx ?jmp = - 1" "SETARG_sBx ?jmp (- 3) = CREATE_ABx OP_JMP 0 (MAXARG_sBx - 3)"
    by (code_simp)+
  have count: "GET_OPCODE 539 = 27" "op_of_num 27 = Some OP_TESTSET" "GETARG_B 539 = 0" "GETARG_C 539 = 0" "CREATE_ABC OP_TEST 0 0 0 = 26"
    "op_num OP_TESTSET = 27" "testTMode OP_TESTSET"
    by (code_simp)+
  have "\<exists>s'. luaK_patchlist H 2 0 t = Val () s' \<and> code (fs s') = [?set, 26, CREATE_ABx OP_JMP 0 (MAXARG_sBx - 3)]"
    if "code (fs t) = [?set, 539, ?jmp]" for t :: "('a, 'b) compiler_scheme"
    using that jmp count
    by (simp add: luaK_patchlist_def patchlistaux_def patchlist_loop.simps getjump_def patchtestreg_def getjumpcontrol_def test_mode_def
      fixjump_def seq_def bnd_def read_code_run write_code_run inside_def has_op_def NO_JUMP_def numeral_3_eq_3 MAXARG_eq)
  moreover have "\<exists>t. seq (luaK_setlist H 0 26901 1) (bnd (luaK_jump H) (\<lambda>j. luaK_patchlist H j 0)) s = luaK_patchlist H 2 0 t \<and>
      code (fs t) = [?set, 539, ?jmp]"
    using assms by (simp add: seq_def bnd_def luaK_setlist_run luaK_jump_run MAX_INT_def) (rule exI, rule conjI, rule refl, simp)
  ultimately show ?thesis by metis
qed

end
