(* ===== verification/Tablib.thy ===== *)
theory Tablib
  imports Arguments "HOL-Library.Signed_Division"
begin

text \<open>
  The table library (\<open>ltablib.c\<close>). \<open>luaL_getn\<close> is the length operator and \<open>luaL_setn\<close> does nothing, as
  \<open>lauxlib.h\<close> defines them without \<open>LUA_COMPAT_GETN\<close>. A variable of type \<open>int\<close> wraps around (\<open>to_int\<close>).
\<close>

section \<open>Lengths and loops\<close>

definition luaL_getn :: "('z lua_State_scheme, 'h) lib_scheme \<Rightarrow> int \<Rightarrow> ('z lua_State_scheme, int) prog" where
  "luaL_getn H i = bnd (lua_objlen H i) (\<lambda>l. ret (to_int (int l)))"

definition aux_getn :: "('z lua_State_scheme, 'h) lib_scheme \<Rightarrow> 'z lua_call \<Rightarrow> int \<Rightarrow> ('z lua_State_scheme, int) prog" where
  "aux_getn H C n = seq (luaL_checktype H C n LUA_TTABLE) (luaL_getn H n)"

text \<open>The loop of \<open>foreachi\<close> over the indices that are left.\<close>

primrec foreachi_loop :: "'z lua_call \<Rightarrow> int list \<Rightarrow> ('z lua_State_scheme, int) prog" where
  "foreachi_loop C [] = ret 0"
| "foreachi_loop C (i # is) =
     seq (steps [lua_pushvalue 2, lua_pushinteger i, lua_rawgeti 1 i, lua_call C 2 1])
     (bnd (lua_isnil (- 1)) (\<lambda>nil. if \<not> nil then ret 1 else seq (lua_pop 1) (foreachi_loop C is)))"

definition foreachi :: "('z lua_State_scheme, 'h) lib_scheme \<Rightarrow> 'z lua_call \<Rightarrow> ('z lua_State_scheme, int) prog" where
  "foreachi H C = bnd (aux_getn H C 1) (\<lambda>n. seq (luaL_checktype H C 2 LUA_TFUNCTION) (foreachi_loop C [1..n]))"

text \<open>The function may assign to the table, so that only \<open>f\<close> bounds the rounds of \<open>foreach\<close>.\<close>

primrec foreach_loop :: "nat \<Rightarrow> ('z lua_State_scheme, 'h) lib_scheme \<Rightarrow> 'z lua_call \<Rightarrow> ('z lua_State_scheme, int) prog" where
  "foreach_loop 0 H C = undef"
| "foreach_loop (Suc f) H C = bnd (lua_next H 1) (\<lambda>more.
     if \<not> more then ret 0
     else seq (steps [lua_pushvalue 2, lua_pushvalue (- 3), lua_pushvalue (- 3), lua_call C 2 1])
       (bnd (lua_isnil (- 1)) (\<lambda>nil. if \<not> nil then ret 1 else seq (lua_pop 2) (foreach_loop f H C))))"

definition foreach :: "nat \<Rightarrow> ('z lua_State_scheme, 'h) lib_scheme \<Rightarrow> 'z lua_call \<Rightarrow> ('z lua_State_scheme, int) prog" where
  "foreach f H C = seq (steps [luaL_checktype H C 1 LUA_TTABLE, luaL_checktype H C 2 LUA_TFUNCTION, lua_pushnil]) (foreach_loop f H C)"

primrec maxn_loop :: "nat \<Rightarrow> ('z lua_State_scheme, 'h) lib_scheme \<Rightarrow> lua_Number \<Rightarrow> ('z lua_State_scheme, lua_Number) prog" where
  "maxn_loop 0 H m = undef"
| "maxn_loop (Suc f) H m = bnd (lua_next H 1) (\<lambda>more.
     if \<not> more then ret m
     else seq (lua_pop 1) (bnd (lua_type (- 1)) (\<lambda>t.
       if t = LUA_TNUMBER then
         bnd (lua_tonumber H (- 1)) (\<lambda>v. maxn_loop f H (if luai_numlt m v then v else m))
       else maxn_loop f H m)))"

text \<open>A traversal has at most one round for each place of the table, and one more.\<close>

definition table_slots :: "'z lua_State_scheme \<Rightarrow> nat" where
  "table_slots s = (case stack s of
     TTable a # _ \<Rightarrow> (case tables s a of Some t \<Rightarrow> length (array t) + sizenode t | None \<Rightarrow> 0) | _ \<Rightarrow> 0)"

definition maxn :: "('z lua_State_scheme, 'h) lib_scheme \<Rightarrow> 'z lua_call \<Rightarrow> ('z lua_State_scheme, int) prog" where
  "maxn H C = seq (steps [luaL_checktype H C 1 LUA_TTABLE, lua_pushnil])
     (bnd (get table_slots) (\<lambda>n. bnd (maxn_loop (n + 1) H 0) (\<lambda>m. seq (lua_pushnumber m) (ret 1))))"

definition getn :: "('z lua_State_scheme, 'h) lib_scheme \<Rightarrow> 'z lua_call \<Rightarrow> ('z lua_State_scheme, int) prog" where
  "getn H C = bnd (aux_getn H C 1) (\<lambda>n. seq (lua_pushinteger n) (ret 1))"

definition setn :: "('z lua_State_scheme, 'h) lib_scheme \<Rightarrow> 'z lua_call \<Rightarrow> ('z lua_State_scheme, int) prog" where
  "setn H C = seq (luaL_checktype H C 1 LUA_TTABLE)
     (seq (luaL_errormsg H C (quoted (lit ''setn'') @ lit '' is obsolete'')) (seq (lua_pushvalue 1) (ret 1)))"

section \<open>Inserting and removing\<close>

primrec move_up_loop :: "int list \<Rightarrow> ('z lua_State_scheme, unit) prog" where
  "move_up_loop [] = ret ()"
| "move_up_loop (i # is) = seq (steps [lua_rawgeti 1 (i - 1), lua_rawseti 1 i]) (move_up_loop is)"

definition tinsert :: "('z lua_State_scheme, 'h) lib_scheme \<Rightarrow> 'z lua_call \<Rightarrow> ('z lua_State_scheme, int) prog" where
  "tinsert H C =
     bnd (aux_getn H C 1) (\<lambda>n. let e = to_int (n + 1) in
     bnd lua_gettop (\<lambda>top.
     bnd (if top = 2 then ret e
          else if top = 3 then
            bnd (luaL_checkint H C 2) (\<lambda>pos. let e = (if e < pos then pos else e) in
              seq (move_up_loop (rev [pos + 1..e])) (ret pos))
          else luaL_errormsg H C (lit ''wrong number of arguments to '' @ quoted (lit ''insert''))) (\<lambda>pos.
     seq (lua_rawseti 1 pos) (ret 0))))"

primrec move_down_loop :: "int list \<Rightarrow> ('z lua_State_scheme, unit) prog" where
  "move_down_loop [] = ret ()"
| "move_down_loop (i # is) = seq (steps [lua_rawgeti 1 (i + 1), lua_rawseti 1 i]) (move_down_loop is)"

definition tremove :: "('z lua_State_scheme, 'h) lib_scheme \<Rightarrow> 'z lua_call \<Rightarrow> ('z lua_State_scheme, int) prog" where
  "tremove H C =
     bnd (aux_getn H C 1) (\<lambda>e.
     bnd (luaL_optint H C 2 e) (\<lambda>pos.
       if \<not> (1 \<le> pos \<and> pos \<le> e) then ret 0
       else seq (lua_rawgeti 1 pos) (seq (move_down_loop [pos..e - 1]) (seq (steps [lua_pushnil, lua_rawseti 1 e]) (ret 1)))))"

section \<open>Joining\<close>

definition addfield :: "('z lua_State_scheme, 'h) lib_scheme \<Rightarrow> 'z lua_call \<Rightarrow> luaL_Buffer \<Rightarrow> int \<Rightarrow> ('z lua_State_scheme, luaL_Buffer) prog" where
  "addfield H C B i =
     seq (lua_rawgeti 1 i)
     (bnd (lua_isstring (- 1)) (\<lambda>str.
      seq (if \<not> str then bnd (lua_type (- 1)) (\<lambda>t.
             luaL_errormsg H C (lit (''invalid value ('' @ lua_typename t @ '') at index '') @ fmt_int H i @ lit '' in table for ''
               @ quoted (lit ''concat'')))
           else ret ())
        (luaL_addvalue H C B)))"

primrec concat_loop :: "('z lua_State_scheme, 'h) lib_scheme \<Rightarrow> 'z lua_call \<Rightarrow> bytes \<Rightarrow> int list \<Rightarrow> luaL_Buffer
    \<Rightarrow> ('z lua_State_scheme, luaL_Buffer) prog" where
  "concat_loop H C sep [] B = ret B"
| "concat_loop H C sep (i # is) B =
     bnd (addfield H C B i) (\<lambda>B. bnd (luaL_addlstring H C sep B) (concat_loop H C sep is))"

definition tconcat :: "('z lua_State_scheme, 'h) lib_scheme \<Rightarrow> 'z lua_call \<Rightarrow> ('z lua_State_scheme, int) prog" where
  "tconcat H C =
     bnd (luaL_optlstring H C 2 (Some [])) (\<lambda>sep. let sep = (case sep of Some b \<Rightarrow> b | None \<Rightarrow> []) in
     seq (luaL_checktype H C 1 LUA_TTABLE)
     (bnd (luaL_optint H C 3 1) (\<lambda>i.
      bnd (bnd (lua_isnoneornil 4) (\<lambda>none. if none then luaL_getn H 1 else luaL_checkint H C 4)) (\<lambda>final.
      bnd (concat_loop H C sep [i..final - 1] luaL_buffinit) (\<lambda>B.
      bnd (if i \<le> final then addfield H C B final else ret B) (\<lambda>B.
      bnd (luaL_pushresult H C B) (\<lambda>_. ret 1)))))))"

section \<open>Sorting\<close>

definition set2 :: "int \<Rightarrow> int \<Rightarrow> ('z lua_State_scheme, unit) prog" where
  "set2 i j = seq (lua_rawseti 1 i) (lua_rawseti 1 j)"

definition sort_comp :: "('z lua_State_scheme, 'h) host_scheme \<Rightarrow> 'z lua_call \<Rightarrow> int \<Rightarrow> int \<Rightarrow> ('z lua_State_scheme, bool) prog" where
  "sort_comp H C a b =
     bnd (lua_isnil 2) (\<lambda>nil.
       if \<not> nil then
         seq (steps [lua_pushvalue 2, lua_pushvalue (a - 1), lua_pushvalue (b - 2), lua_call C 2 1])
         (bnd (lua_toboolean (- 1)) (\<lambda>res. seq (lua_pop 1) (ret res)))
       else lua_lessthan H C a b)"

definition invalid_order :: "('z lua_State_scheme, 'h) host_scheme \<Rightarrow> 'z lua_call \<Rightarrow> ('z lua_State_scheme, 'a) prog" where
  "invalid_order H C = luaL_errormsg H C (lit ''invalid order function for sorting'')"

text \<open>
  The scans of a partition. An index outside of \<open>l\<close> and \<open>u\<close> ends them, so that a round for each index
  and two more are enough; every exchange brings the indices closer.
\<close>

primrec scan_up :: "nat \<Rightarrow> ('z lua_State_scheme, 'h) host_scheme \<Rightarrow> 'z lua_call \<Rightarrow> int \<Rightarrow> int \<Rightarrow> ('z lua_State_scheme, int) prog" where
  "scan_up 0 H C u i = undef"
| "scan_up (Suc f) H C u i = (let i = to_int (i + 1) in
     seq (lua_rawgeti 1 i) (bnd (sort_comp H C (- 1) (- 2)) (\<lambda>less.
       if less then seq (if u < i then invalid_order H C else ret ()) (seq (lua_pop 1) (scan_up f H C u i)) else ret i)))"

primrec scan_down :: "nat \<Rightarrow> ('z lua_State_scheme, 'h) host_scheme \<Rightarrow> 'z lua_call \<Rightarrow> int \<Rightarrow> int \<Rightarrow> ('z lua_State_scheme, int) prog" where
  "scan_down 0 H C l j = undef"
| "scan_down (Suc f) H C l j = (let j = to_int (j - 1) in
     seq (lua_rawgeti 1 j) (bnd (sort_comp H C (- 3) (- 1)) (\<lambda>less.
       if less then seq (if j < l then invalid_order H C else ret ()) (seq (lua_pop 1) (scan_down f H C l j)) else ret j)))"

primrec partition_loop :: "nat \<Rightarrow> ('z lua_State_scheme, 'h) host_scheme \<Rightarrow> 'z lua_call \<Rightarrow> int \<Rightarrow> int \<Rightarrow> int \<Rightarrow> int
    \<Rightarrow> ('z lua_State_scheme, int) prog" where
  "partition_loop 0 H C l u i j = undef"
| "partition_loop (Suc f) H C l u i j =
     bnd (scan_up (nat (u - i + 3)) H C u i) (\<lambda>i.
     bnd (scan_down (nat (j - l + 3)) H C l j) (\<lambda>j.
       if j < i then seq (lua_pop 3) (ret i) else seq (set2 i j) (partition_loop f H C l u i j)))"

text \<open>
  \<open>f\<close> bounds the rounds of the loop and the depth of the recursion; with an order that is consistent
  \<open>u - l + 1\<close> is enough, and with another one the code may never end.
\<close>

primrec auxsort :: "nat \<Rightarrow> ('z lua_State_scheme, 'h) host_scheme \<Rightarrow> 'z lua_call \<Rightarrow> int \<Rightarrow> int \<Rightarrow> ('z lua_State_scheme, unit) prog" where
  "auxsort 0 H C l u = undef"
| "auxsort (Suc f) H C l u =
     (if \<not> l < u then ret ()
      else
        seq (steps [lua_rawgeti 1 l, lua_rawgeti 1 u])
        (bnd (sort_comp H C (- 1) (- 2)) (\<lambda>less.
         seq (if less then set2 l u else lua_pop 2)
         (if u - l = 1 then ret ()
          else let i = to_int (l + u) sdiv 2 in
            seq (steps [lua_rawgeti 1 i, lua_rawgeti 1 l])
            (bnd (sort_comp H C (- 2) (- 1)) (\<lambda>less.
             seq (if less then set2 i l
                  else seq (steps [lua_pop 1, lua_rawgeti 1 u])
                    (bnd (sort_comp H C (- 1) (- 2)) (\<lambda>less. if less then set2 i u else lua_pop 2)))
             (if u - l = 2 then ret ()
              else
                seq (steps [lua_rawgeti 1 i, lua_pushvalue (- 1), lua_rawgeti 1 (u - 1), set2 i (u - 1)])
                (bnd (partition_loop (nat (u - l + 3)) H C l u l (u - 1)) (\<lambda>i.
                 seq (steps [lua_rawgeti 1 (u - 1), lua_rawgeti 1 i, set2 (u - 1) i])
                 (if i - l < u - i then seq (auxsort f H C l (i - 1)) (auxsort f H C (i + 1) u)
                  else seq (auxsort f H C (i + 1) u) (auxsort f H C l (i - 1))))))))))))"

definition tsort :: "nat \<Rightarrow> ('z lua_State_scheme, 'h) lib_scheme \<Rightarrow> 'z lua_call \<Rightarrow> ('z lua_State_scheme, int) prog" where
  "tsort f H C =
     bnd (aux_getn H C 1) (\<lambda>n.
     seq (luaL_checkstack H C 40 '''')
     (bnd (lua_isnoneornil 2) (\<lambda>none.
      seq (if \<not> none then luaL_checktype H C 2 LUA_TFUNCTION else ret ())
      (seq (lua_settop 2) (seq (auxsort f H C 1 n) (ret 0))))))"

end
