(* ===== verification/Tablesort.thy ===== *)
theory Tablesort
  imports Tablib IntTables
begin

text \<open>
  \<open>table.sort\<close>: that \<open>auxsort\<close> ends and sorts when the order is consistent. First what it does to a
  sequence, then the sequence in the table.
\<close>

section \<open>Rearranging a range\<close>

definition rearr :: "int \<Rightarrow> int \<Rightarrow> (int \<Rightarrow> 'v) \<Rightarrow> (int \<Rightarrow> 'v) \<Rightarrow> bool" where
  "rearr l u a b \<longleftrightarrow> (\<forall>k. k \<notin> {l..u} \<longrightarrow> b k = a k) \<and> image_mset b (mset_set {l..u}) = image_mset a (mset_set {l..u})"

lemma rearr_refl [simp]: "rearr l u a a"
  by (simp add: rearr_def)

lemma rearr_trans [trans]: "rearr l u a b \<Longrightarrow> rearr l u b c \<Longrightarrow> rearr l u a c"
  by (simp add: rearr_def)

lemma rearr_outside: "rearr l u a b \<Longrightarrow> k < l \<or> u < k \<Longrightarrow> b k = a k"
  by (auto simp: rearr_def)

lemma rearr_swap:
  assumes "i \<in> {l..u}" "j \<in> {l..u}"
  shows "rearr l u a (a(i := a j, j := a i))"
proof (cases "i = j")
  case True
  then show ?thesis by simp
next
  case False
  let ?b = "a(i := a j, j := a i)"
  have "{l..u} = insert i (insert j ({l..u} - {i, j}))" using assms by auto
  then have "mset_set {l..u} = mset_set (insert i (insert j ({l..u} - {i, j})))" by (rule arg_cong)
  also have "\<dots> = add_mset i (add_mset j (mset_set ({l..u} - {i, j})))" using False by simp
  finally have m: "mset_set {l..u} = add_mset i (add_mset j (mset_set ({l..u} - {i, j})))" .
  have "image_mset ?b (mset_set ({l..u} - {i, j})) = image_mset a (mset_set ({l..u} - {i, j}))"
    by (rule image_mset_cong) auto
  then show ?thesis using False assms by (auto simp: rearr_def m add_mset_commute)
qed

lemma rearr_widen:
  assumes "rearr l u a b" "L \<le> l" "u \<le> U"
  shows "rearr L U a b"
proof -
  have "{L..U} = {l..u} \<union> ({L..U} - {l..u})" using assms(2,3) by auto
  then have "mset_set {L..U} = mset_set ({l..u} \<union> ({L..U} - {l..u}))" by (rule arg_cong)
  also have "\<dots> = mset_set {l..u} + mset_set ({L..U} - {l..u})" by (rule mset_set_Union) auto
  finally have m: "mset_set {L..U} = mset_set {l..u} + mset_set ({L..U} - {l..u})" .
  have "image_mset b (mset_set ({L..U} - {l..u})) = image_mset a (mset_set ({L..U} - {l..u}))"
    by (rule image_mset_cong) (use assms(1) in \<open>auto simp: rearr_def\<close>)
  then show ?thesis using assms by (auto simp: rearr_def m)
qed

lemma rearr_image:
  assumes "rearr l u a b"
  shows "b ` {l..u} = a ` {l..u}"
proof -
  have "set_mset (image_mset b (mset_set {l..u})) = set_mset (image_mset a (mset_set {l..u}))"
    using assms by (simp add: rearr_def)
  then show ?thesis by simp
qed

lemma rearr_all: "rearr l u a b \<Longrightarrow> (\<forall>k \<in> {l..u}. P (b k)) \<longleftrightarrow> (\<forall>k \<in> {l..u}. P (a k))"
  using rearr_image [of l u a b] by (metis (no_types, lifting) image_iff)

section \<open>Orders\<close>

text \<open>A strict weak order on \<open>V\<close>: asymmetric, and what is not less is an order.\<close>

definition consistent :: "('v \<Rightarrow> 'v \<Rightarrow> bool) \<Rightarrow> 'v set \<Rightarrow> bool" where
  "consistent lt V \<longleftrightarrow> (\<forall>x \<in> V. \<forall>y \<in> V. lt x y \<longrightarrow> \<not> lt y x) \<and>
     (\<forall>x \<in> V. \<forall>y \<in> V. \<forall>z \<in> V. \<not> lt x y \<longrightarrow> \<not> lt y z \<longrightarrow> \<not> lt x z)"

lemma consistentD:
  assumes "consistent lt V"
  shows "x \<in> V \<Longrightarrow> y \<in> V \<Longrightarrow> lt x y \<Longrightarrow> \<not> lt y x" "x \<in> V \<Longrightarrow> \<not> lt x x"
    "x \<in> V \<Longrightarrow> y \<in> V \<Longrightarrow> z \<in> V \<Longrightarrow> \<not> lt x y \<Longrightarrow> \<not> lt y z \<Longrightarrow> \<not> lt x z"
  using assms unfolding consistent_def by blast+

definition ascending :: "('v \<Rightarrow> 'v \<Rightarrow> bool) \<Rightarrow> int \<Rightarrow> int \<Rightarrow> (int \<Rightarrow> 'v) \<Rightarrow> bool" where
  "ascending lt l u a \<longleftrightarrow> (\<forall>i j. l \<le> i \<longrightarrow> i < j \<longrightarrow> j \<le> u \<longrightarrow> \<not> lt (a j) (a i))"

lemma ascending_trivial: "u \<le> l \<Longrightarrow> ascending lt l u a"
  by (auto simp: ascending_def)

lemma ascending_two: "\<not> lt (a u) (a l) \<Longrightarrow> u - l = 1 \<Longrightarrow> ascending lt l u a"
proof -
  assume a: "\<not> lt (a u) (a l)" "u - l = 1"
  have "i = l \<and> j = u" if "l \<le> i" "i < j" "j \<le> u" for i j using that a(2) by linarith
  then show ?thesis using a(1) unfolding ascending_def by blast
qed

lemma ascending_three:
  assumes "\<not> lt (a u) (a l)" "\<not> lt (a u) (a i)" "\<not> lt (a i) (a l)" "u - l = 2" "l < i" "i < u"
  shows "ascending lt l u a"
  unfolding ascending_def
proof (intro allI impI)
  fix p q
  assume "l \<le> p" "p < q" "q \<le> u"
  then have "p = l \<and> q = i \<or> p = l \<and> q = u \<or> p = i \<and> q = u" using assms(4-6) by linarith
  then show "\<not> lt (a q) (a p)" using assms(1-3) by auto
qed

lemma ascending_join:
  assumes "consistent lt V" "a ` {l..u} \<subseteq> V" "l \<le> i" "i \<le> u"
    and "ascending lt l (i - 1) a" "ascending lt (i + 1) u a"
    and "\<forall>k \<in> {l..i - 1}. \<not> lt (a i) (a k)" "\<forall>k \<in> {i + 1..u}. \<not> lt (a k) (a i)"
  shows "ascending lt l u a"
  unfolding ascending_def
proof (intro allI impI)
  fix p q
  assume pq: "l \<le> p" "p < q" "q \<le> u"
  then have V: "a p \<in> V" "a q \<in> V" "a i \<in> V" using assms(2-4) by auto
  consider "q < i" | "q = i" | "p = i" | "p < i" "i < q" | "i < p" using pq by linarith
  then show "\<not> lt (a q) (a p)"
  proof cases
    case 4
    then have "\<not> lt (a q) (a i)" "\<not> lt (a i) (a p)" using assms(7,8) pq by simp_all
    then show ?thesis by (rule consistentD(3) [OF assms(1) V(2,3,1)])
  qed (use assms(5-8) pq in \<open>auto simp: ascending_def\<close>)
qed

section \<open>The sequence in the table\<close>

text \<open>A store under a key that is in use takes no room.\<close>

lemma room_replace:
  assumes "int_room (Suc n) t" "int_key i" "geti t i \<noteq> TNil"
  shows "int_room (Suc n) (seti t i v)"
proof -
  let ?k = "TNumber (cast_num i)" and ?t = "seti t i v"
  obtain t' p where t': "luaH_setnum t i = Ok (t', p)" "assigns t ?k t' p" using setnum_run [OF assms(1,2)] .
  then have s: "?t = put_slot t' p v" by (simp add: seti_def)
  have inv: "table_inv t" "table_inv ?t"
    and c: "\<And>k'. live k' \<Longrightarrow> content ?t k' = (if luaO_rawequalObj ?k k' then v else content t k')"
    using t'(2) assms(1) by (auto simp: assigns_def int_room_def s)
  have "classes ?t \<subseteq> classes t"
  proof
    fix x assume "x \<in> classes ?t"
    then obtain k' where k': "x = key_class k'" "live k'" "content ?t k' \<noteq> TNil" by (auto simp: classes_def)
    show "x \<in> classes t"
    proof (cases "luaO_rawequalObj ?k k'")
      case True
      then have "x = key_class ?k" using k' key_class_eq [OF k'(2)] rawequal_sym by auto
      then show ?thesis using assms(2,3) inv(1) live_int_key [OF assms(2)] by (auto simp: classes_def geti_content)
    next
      case False
      then show ?thesis using k' c by (auto simp: classes_def)
    qed
  qed
  then have "card (classes ?t) \<le> card (classes t)" using card_classes(2) [OF inv(1)] by (intro card_mono)
  then have "total_use ?t \<le> total_use t" using card_classes(1) inv total_use_pairs by simp
  then show ?thesis using assms(1) inv(2) by (simp add: int_room_def)
qed

text \<open>
  While \<open>sort\<close> runs on a frame with the table and the order: above them the stack holds \<open>xs\<close>, and the
  table has the elements \<open>a\<close> under integer keys and what it had under other keys.
\<close>

definition sorting :: "'z lua_State_scheme \<Rightarrow> u64 \<Rightarrow> (int \<Rightarrow> TValue) \<Rightarrow> TValue list \<Rightarrow> 'z lua_State_scheme \<Rightarrow> bool" where
  "sorting s h a xs s' \<longleftrightarrow> (\<exists>t. s' = s\<lparr>tables := (tables s)(h \<mapsto> t), stack := stack s @ xs\<rparr> \<and> int_room 1 t \<and>
     other_keys t = other_keys (the (tables s h)) \<and> (\<forall>i. int_key i \<longrightarrow> geti t i = a i))"

definition frame_of :: "'z lua_State_scheme \<Rightarrow> u64 \<Rightarrow> bool" where
  "frame_of s h \<longleftrightarrow> (\<exists>F. stack s = [TTable h, F]) \<and> 10 \<le> ci_top s"

lemma sorting_stack: "sorting s h a xs s' \<Longrightarrow> stack s' = stack s @ xs"
  by (auto simp: sorting_def)

lemma sorting_restack: "sorting s h a xs s' \<Longrightarrow> sorting s h a ys (s'\<lparr>stack := stack s @ ys\<rparr>)"
  by (auto simp: sorting_def)

lemma sorting_get:
  assumes "sorting s h a xs s'" "frame_of s h" "int_key i" "length xs < 8"
    and "\<And>s''. sorting s h a (xs @ [a i]) s'' \<Longrightarrow> Q () s''"
  shows "wp (lua_rawgeti 1 i) Q E s'"
proof -
  obtain F where F: "stack s = [TTable h, F]" "10 \<le> ci_top s" using assms(2) by (auto simp: frame_of_def)
  obtain t where t: "s' = s\<lparr>tables := (tables s)(h \<mapsto> t), stack := stack s @ xs\<rparr>" "int_room 1 t"
    "geti t i = a i" using assms(1,3) by (auto simp: sorting_def)
  have "lua_rawgeti 1 i s' = Val () (s'\<lparr>stack := stack s' @ [geti t i]\<rparr>)"
  proof (rule rawgeti_run)
    show "index_value 1 s' = Val (TTable h) s'" by (rule index_value_arg) (simp add: t(1) F(1))
  qed (use t F assms(3,4) in \<open>auto simp: int_room_def\<close>)
  moreover have "sorting s h a (xs @ [a i]) (s'\<lparr>stack := stack s' @ [a i]\<rparr>)"
    using sorting_restack [OF assms(1), of "xs @ [a i]"] by (simp add: sorting_stack [OF assms(1)])
  ultimately show ?thesis using assms(5) t(3) by (simp add: wp_Val)
qed

lemma sorting_set:
  assumes "sorting s h a (xs @ [v]) s'" "frame_of s h" "int_key i" "a i \<noteq> TNil"
    and "\<And>s''. sorting s h (a(i := v)) xs s'' \<Longrightarrow> Q () s''"
  shows "wp (lua_rawseti 1 i) Q E s'"
proof -
  obtain F where F: "stack s = [TTable h, F]" using assms(2) by (auto simp: frame_of_def)
  obtain t where t: "s' = s\<lparr>tables := (tables s)(h \<mapsto> t), stack := stack s @ xs @ [v]\<rparr>" "int_room (Suc 0) t"
    "other_keys t = other_keys (the (tables s h))" "\<And>i. int_key i \<Longrightarrow> geti t i = a i"
    using assms(1) by (auto simp: sorting_def)
  have "lua_rawseti 1 i s' = Val () (s'\<lparr>tables := (tables s')(h \<mapsto> seti t i v), stack := stack s @ xs\<rparr>)"
  proof (rule rawseti_run)
    show "index_value 1 s' = Val (TTable h) s'" by (rule index_value_arg) (simp add: t(1) F)
  qed (use t assms(3) in auto)
  moreover have "sorting s h (a(i := v)) xs (s'\<lparr>tables := (tables s')(h \<mapsto> seti t i v), stack := stack s @ xs\<rparr>)"
    unfolding sorting_def
    by (rule exI [of _ "seti t i v"])
      (use room_replace [OF t(2) assms(3), of v] tables.rest_store [OF t(2) assms(3), of v]
        tables.lookup_store [OF t(2) assms(3)] t assms(3,4) in auto)
  ultimately show ?thesis using assms(5) by (simp add: wp_Val)
qed

lemma sorting_pop:
  assumes "sorting s h a xs s'" "n \<le> length xs"
    and "\<And>s''. sorting s h a (take (length xs - n) xs) s'' \<Longrightarrow> Q () s''"
  shows "wp (lua_pop (int n)) Q E s'"
proof -
  have "nat (int (length xs) - int n) = length xs - n" using assms(2) by simp
  then have "lua_pop (int n) s' = Val () (s'\<lparr>stack := stack s @ take (length xs - n) xs\<rparr>)"
    using assms(2) sorting_stack [OF assms(1)] by (simp add: lua_pop_def lua_settop_def nat_add_distrib)
  then show ?thesis using assms(3) sorting_restack [OF assms(1)] by (simp add: wp_Val)
qed

lemma sorting_dup:
  assumes "sorting s h a (xs @ [v]) s'" "frame_of s h" "length xs < 7"
    and "\<And>s''. sorting s h a (xs @ [v, v]) s'' \<Longrightarrow> Q () s''"
  shows "wp (lua_pushvalue (- 1)) Q E s'"
proof -
  obtain F where F: "stack s = [TTable h, F]" "10 \<le> ci_top s" using assms(2) by (auto simp: frame_of_def)
  have st: "stack s' = (stack s @ xs) @ [v]" using sorting_stack [OF assms(1)] by simp
  have "ci_top s' = ci_top s" using assms(1) by (auto simp: sorting_def)
  then have "lua_pushvalue (- 1) s' = Val () (s'\<lparr>stack := stack s @ xs @ [v, v]\<rparr>)"
    using st F assms(3) by (simp add: lua_pushvalue_def bnd_def index_value_top [OF st] push_run)
  then show ?thesis using assms(4) sorting_restack [OF assms(1)] by (simp add: wp_Val)
qed

lemma sorting_set2:
  assumes "sorting s h a (xs @ [w, v]) s'" "frame_of s h" "int_key i" "int_key j" "a i \<noteq> TNil" "a j \<noteq> TNil" "v \<noteq> TNil"
    and "\<And>s''. sorting s h (a(i := v, j := w)) xs s'' \<Longrightarrow> Q () s''"
  shows "wp (set2 i j) Q E s'"
  unfolding set2_def wp_seq
proof (rule sorting_set [where xs = "xs @ [w]" and v = v and a = a and s = s and h = h])
  fix s''
  assume "sorting s h (a(i := v)) (xs @ [w]) s''"
  then show "wp (lua_rawseti 1 j) Q E s''"
    by (rule sorting_set [OF _ assms(2,4)]) (use assms(6-8) in auto)
qed (use assms(1-3,5) in simp_all)

section \<open>Comparing\<close>

text \<open>\<open>sort_comp\<close> answers with \<open>lt\<close> for two values above the frame, and leaves no trace.\<close>

definition decides :: "('z lua_State_scheme, 'h) host_scheme \<Rightarrow> 'z lua_call \<Rightarrow> (TValue \<Rightarrow> TValue \<Rightarrow> bool) \<Rightarrow> TValue set \<Rightarrow>
    'z lua_State_scheme \<Rightarrow> u64 \<Rightarrow> bool" where
  "decides H C lt V s h \<longleftrightarrow> (\<forall>a zs p q s'. sorting s h a zs s' \<longrightarrow> length zs \<le> 3 \<longrightarrow> p < length zs \<longrightarrow> q < length zs \<longrightarrow>
     zs ! p \<in> V \<longrightarrow> zs ! q \<in> V \<longrightarrow>
     sort_comp H C (int p - int (length zs)) (int q - int (length zs)) s' = Val (lt (zs ! p) (zs ! q)) s')"

lemma decidesD:
  assumes "decides H C lt V s h" "sorting s h a zs s'" "length zs \<le> 3" "p < length zs" "q < length zs"
    "zs ! p \<in> V" "zs ! q \<in> V" "Q (lt (zs ! p) (zs ! q)) s'" "i = int p - int (length zs)" "j = int q - int (length zs)"
  shows "wp (sort_comp H C i j) Q E s'"
  using assms(1-8) unfolding assms(9,10) decides_def by (simp add: wp_Val)

lemma decides_top:
  "decides H C lt V s h \<Longrightarrow> sorting s h a (xs @ [y, x]) s' \<Longrightarrow> length xs \<le> 1 \<Longrightarrow> x \<in> V \<Longrightarrow> y \<in> V \<Longrightarrow> Q (lt x y) s' \<Longrightarrow>
   wp (sort_comp H C (- 1) (- 2)) Q E s'"
  by (rule decidesD [where zs = "xs @ [y, x]" and p = "length xs + 1" and q = "length xs"]) (simp_all add: nth_append)

lemma decides_below:
  "decides H C lt V s h \<Longrightarrow> sorting s h a [x, y] s' \<Longrightarrow> x \<in> V \<Longrightarrow> y \<in> V \<Longrightarrow> Q (lt x y) s' \<Longrightarrow>
   wp (sort_comp H C (- 2) (- 1)) Q E s'"
  by (rule decidesD [where zs = "[x, y]" and p = 0 and q = 1]) simp_all

lemma decides_pivot:
  "decides H C lt V s h \<Longrightarrow> sorting s h a [x, z, y] s' \<Longrightarrow> x \<in> V \<Longrightarrow> y \<in> V \<Longrightarrow> Q (lt x y) s' \<Longrightarrow>
   wp (sort_comp H C (- 3) (- 1)) Q E s'"
  by (rule decidesD [where zs = "[x, z, y]" and p = 0 and q = 2]) simp_all

section \<open>Partitions\<close>

text \<open>A sequence from 1 to \<open>n\<close> of values that the order compares, with indices that do not overflow.\<close>

definition sequence :: "TValue set \<Rightarrow> int \<Rightarrow> (int \<Rightarrow> TValue) \<Rightarrow> bool" where
  "sequence V n a \<longleftrightarrow> a ` {1..n} \<subseteq> V \<and> TNil \<notin> V \<and> n < 2 ^ 30"

lemma sequenceD: "sequence V n a \<Longrightarrow> 1 \<le> k \<Longrightarrow> k \<le> n \<Longrightarrow> a k \<in> V \<and> a k \<noteq> TNil \<and> int_key k \<and> to_int k = k"
proof -
  assume "sequence V n a" "1 \<le> k" "k \<le> n"
  then have "a k \<in> V" "TNil \<notin> V" "k < 2 ^ 30" by (auto simp: sequence_def)
  then show ?thesis using \<open>1 \<le> k\<close> by (auto simp: int_key_def to_int_id)
qed

lemma sequence_rearr: "sequence V n a \<Longrightarrow> rearr l u a b \<Longrightarrow> 1 \<le> l \<Longrightarrow> u \<le> n \<Longrightarrow> sequence V n b"
  using rearr_image [OF rearr_widen [of l u a b 1 n]] by (simp add: sequence_def)

lemma scan_up_wp:
  assumes dec: "decides H C lt V s h" and fr: "frame_of s h" and sq: "sequence V n a" and P: "P \<in> V"
    and "sorting s h a [P] s'" "0 \<le> i" "i < k" "k \<le> u" "u \<le> n" "\<not> lt (a k) P" "nat (k - i) \<le> f"
    and "\<And>m s''. sorting s h a [P, a m] s'' \<Longrightarrow> i < m \<Longrightarrow> m \<le> k \<Longrightarrow> \<not> lt (a m) P \<Longrightarrow> \<forall>x \<in> {i + 1..m - 1}. lt (a x) P \<Longrightarrow> Q m s''"
  shows "wp (scan_up f H C u i) Q E s'"
  using assms(5-)
proof (induction f arbitrary: i s')
  case 0
  then show ?case by simp
next
  case (Suc f)
  have next_i: "a (i + 1) \<in> V" "int_key (i + 1)" "to_int (i + 1) = i + 1" using sequenceD [OF sq, of "i + 1"] Suc.prems by simp_all
  have "wp (lua_rawgeti 1 (i + 1)) (\<lambda>_. wp (bnd (sort_comp H C (- 1) (- 2)) (\<lambda>lt. if lt then
      seq (if u < i + 1 then invalid_order H C else ret ()) (seq (lua_pop 1) (scan_up f H C u (i + 1))) else ret (i + 1))) Q E) E s'"
  proof (rule sorting_get [OF Suc.prems(1) fr next_i(2)])
    fix s1
    assume "sorting s h a ([P] @ [a (i + 1)]) s1"
    then have s1: "sorting s h a ([] @ [P, a (i + 1)]) s1" "sorting s h a [P, a (i + 1)] s1" by simp_all
    show "wp (bnd (sort_comp H C (- 1) (- 2)) (\<lambda>lt. if lt then
      seq (if u < i + 1 then invalid_order H C else ret ()) (seq (lua_pop 1) (scan_up f H C u (i + 1))) else ret (i + 1))) Q E s1"
      unfolding wp_bnd
    proof (rule decides_top [OF dec s1(1) _ next_i(1) P])
      show "wp (if lt (a (i + 1)) P then
        seq (if u < i + 1 then invalid_order H C else ret ()) (seq (lua_pop 1) (scan_up f H C u (i + 1))) else ret (i + 1)) Q E s1"
      proof (cases "lt (a (i + 1)) P")
        case True
        then have "i + 1 \<noteq> k" using Suc.prems(6) by auto
        have "wp (lua_pop (int 1)) (\<lambda>_. wp (scan_up f H C u (i + 1)) Q E) E s1"
        proof (rule sorting_pop [OF s1(2)])
          fix s2
          assume "sorting s h a (take (length [P, a (i + 1)] - 1) [P, a (i + 1)]) s2"
          then have s2: "sorting s h a [P] s2" by simp
          show "wp (scan_up f H C u (i + 1)) Q E s2"
          proof (rule Suc.IH [OF s2])
            fix m s''
            assume m: "sorting s h a [P, a m] s''" "i + 1 < m" "m \<le> k" "\<not> lt (a m) P" "\<forall>x \<in> {i + 1 + 1..m - 1}. lt (a x) P"
            have "{i + 1..m - 1} = insert (i + 1) {i + 1 + 1..m - 1}" using m(2) by auto
            then show "Q m s''" using Suc.prems(8) m True by simp
          qed (use Suc.prems \<open>i + 1 \<noteq> k\<close> in auto)
        qed simp
        then show ?thesis using True \<open>i + 1 \<noteq> k\<close> Suc.prems(3,4) by (simp add: wp_seq wp_basic)
      next
        case False
        then show ?thesis using Suc.prems(8) [OF s1(2)] Suc.prems(3) by (simp add: wp_basic)
      qed
    qed simp
  qed simp
  then show ?case by (simp add: Let_def next_i(3) wp_seq)
qed

lemma scan_down_wp:
  assumes dec: "decides H C lt V s h" and fr: "frame_of s h" and sq: "sequence V n a" and P: "P \<in> V"
    and "sorting s h a [P, z] s'" "k < j" "j \<le> n + 1" "1 \<le> l" "l \<le> k" "\<not> lt P (a k)" "nat (j - k) \<le> f"
    and "\<And>m s''. sorting s h a [P, z, a m] s'' \<Longrightarrow> m < j \<Longrightarrow> k \<le> m \<Longrightarrow> \<not> lt P (a m) \<Longrightarrow> \<forall>x \<in> {m + 1..j - 1}. lt P (a x) \<Longrightarrow> Q m s''"
  shows "wp (scan_down f H C l j) Q E s'"
  using assms(5-)
proof (induction f arbitrary: j s')
  case 0
  then show ?case by simp
next
  case (Suc f)
  have next_j: "a (j - 1) \<in> V" "int_key (j - 1)" "to_int (j - 1) = j - 1" using sequenceD [OF sq, of "j - 1"] Suc.prems by simp_all
  have "wp (lua_rawgeti 1 (j - 1)) (\<lambda>_. wp (bnd (sort_comp H C (- 3) (- 1)) (\<lambda>lt. if lt then
      seq (if j - 1 < l then invalid_order H C else ret ()) (seq (lua_pop 1) (scan_down f H C l (j - 1))) else ret (j - 1))) Q E) E s'"
  proof (rule sorting_get [OF Suc.prems(1) fr next_j(2)])
    fix s1
    assume "sorting s h a ([P, z] @ [a (j - 1)]) s1"
    then have s1: "sorting s h a [P, z, a (j - 1)] s1" by simp
    show "wp (bnd (sort_comp H C (- 3) (- 1)) (\<lambda>lt. if lt then
      seq (if j - 1 < l then invalid_order H C else ret ()) (seq (lua_pop 1) (scan_down f H C l (j - 1))) else ret (j - 1))) Q E s1"
      unfolding wp_bnd
    proof (rule decides_pivot [OF dec s1 P next_j(1)])
      show "wp (if lt P (a (j - 1)) then
        seq (if j - 1 < l then invalid_order H C else ret ()) (seq (lua_pop 1) (scan_down f H C l (j - 1))) else ret (j - 1)) Q E s1"
      proof (cases "lt P (a (j - 1))")
        case True
        then have "j - 1 \<noteq> k" using Suc.prems(6) by auto
        have "wp (lua_pop (int 1)) (\<lambda>_. wp (scan_down f H C l (j - 1)) Q E) E s1"
        proof (rule sorting_pop [OF s1])
          fix s2
          assume "sorting s h a (take (length [P, z, a (j - 1)] - 1) [P, z, a (j - 1)]) s2"
          then have s2: "sorting s h a [P, z] s2" by simp
          show "wp (scan_down f H C l (j - 1)) Q E s2"
          proof (rule Suc.IH [OF s2])
            fix m s''
            assume m: "sorting s h a [P, z, a m] s''" "m < j - 1" "k \<le> m" "\<not> lt P (a m)" "\<forall>x \<in> {m + 1..j - 1 - 1}. lt P (a x)"
            have "{m + 1..j - 1} = insert (j - 1) {m + 1..j - 1 - 1}" using m(2) by auto
            then show "Q m s''" using Suc.prems(8) m True by simp
          qed (use Suc.prems \<open>j - 1 \<noteq> k\<close> in auto)
        qed simp
        then show ?thesis using True \<open>j - 1 \<noteq> k\<close> Suc.prems(2,5) by (simp add: wp_seq wp_basic)
      next
        case False
        then show ?thesis using Suc.prems(8) [OF s1] Suc.prems(2) by (simp add: wp_basic)
      qed
    qed
  qed simp
  then show ?case by (simp add: Let_def next_j(3) wp_seq)
qed

text \<open>
  The loop of a partition around \<open>P\<close>, which is at \<open>u - 1\<close>: what is left of \<open>i\<close> is not greater, what is
  right of \<open>j\<close> is not less.
\<close>

definition parted :: "(TValue \<Rightarrow> TValue \<Rightarrow> bool) \<Rightarrow> TValue \<Rightarrow> int \<Rightarrow> int \<Rightarrow> int \<Rightarrow> int \<Rightarrow> (int \<Rightarrow> TValue) \<Rightarrow> bool" where
  "parted lt P l u i j a \<longleftrightarrow> a (u - 1) = P \<and> (\<forall>k \<in> {l..i}. \<not> lt P (a k)) \<and> (\<forall>k \<in> {j..u}. \<not> lt (a k) P)"

lemma parted_exchange:
  assumes "parted lt P l u i j a" "i < i'" "j' < j" "i' \<le> j'" "j \<le> u - 1"
    and "\<forall>k \<in> {i + 1..i' - 1}. \<not> lt P (a k)" "\<forall>k \<in> {j' + 1..j - 1}. \<not> lt (a k) P" "\<not> lt (a i') P" "\<not> lt P (a j')"
  shows "parted lt P l u i' j' (a(i' := a j', j' := a i'))"
proof -
  let ?b = "a(i' := a j', j' := a i')"
  have "\<not> lt P (?b k)" if "k \<in> {l..i'}" for k
  proof -
    have "k \<in> {l..i} \<or> k \<in> {i + 1..i' - 1} \<or> k = i'" using that by auto
    then show ?thesis using assms by (auto simp: parted_def)
  qed
  moreover have "\<not> lt (?b k) P" if "k \<in> {j'..u}" for k
  proof -
    have "k \<in> {j..u} \<or> k \<in> {j' + 1..j - 1} \<or> k = j'" using that by auto
    then show ?thesis using assms by (auto simp: parted_def)
  qed
  moreover have "?b (u - 1) = P" using assms(1,3-5) by (auto simp: parted_def)
  ultimately show ?thesis by (simp add: parted_def)
qed

lemma partition_loop_wp:
  assumes dec: "decides H C lt V s h" and fr: "frame_of s h" and ord: "consistent lt V" and P: "P \<in> V"
    and lu: "1 \<le> l" "u \<le> n"
    and "sorting s h a [P] s'" "sequence V n a" "parted lt P l u i j a" "l \<le> i" "i \<le> j" "j \<le> u - 1" "i < j \<or> l < i \<and> j < u - 1" "nat (j - i) < f"
    and "\<And>b m s''. sorting s h b [] s'' \<Longrightarrow> rearr l u a b \<Longrightarrow> l < m \<Longrightarrow> m \<le> u - 1 \<Longrightarrow> parted lt P l u (m - 1) m b \<Longrightarrow> Q m s''"
  shows "wp (partition_loop f H C l u i j) Q E s'"
  using assms(7-)
proof (induction f arbitrary: i j a s')
  case 0
  then show ?case by simp
next
  case (Suc f)
  note sq = Suc.prems(2)
  have left: "\<And>k. k \<in> {l..i} \<Longrightarrow> \<not> lt P (a k)" and right: "\<And>k. k \<in> {j..u} \<Longrightarrow> \<not> lt (a k) P" and pv: "a (u - 1) = P"
    using Suc.prems(3) by (simp_all add: parted_def)
  have inV: "a k \<in> V" if "l \<le> k" "k \<le> u" for k using sequenceD [OF sq, of k] that lu by simp
  define k where "k = (if i < j then j else j + 1)"
  have k: "i < k" "k \<le> u" "\<not> lt (a k) P" "k \<le> u - 1" using Suc.prems(5-7) right by (auto simp: k_def)
  define k' where "k' = (if i < j then i else i - 1)"
  have k': "k' < j" "l \<le> k'" "\<not> lt P (a k')" "i - 1 \<le> k'" using Suc.prems(4-7) left by (auto simp: k'_def)
  show ?case unfolding partition_loop.simps wp_bnd
  proof (rule scan_up_wp [OF dec fr sq P Suc.prems(1) _ k(1,2) lu(2) k(3)])
    fix i' s1
    assume s1: "sorting s h a [P, a i'] s1" and i': "i < i'" "i' \<le> k" "\<not> lt (a i') P" "\<forall>x \<in> {i + 1..i' - 1}. lt (a x) P"
    have iV: "a i' \<in> V" "a i' \<noteq> TNil" "int_key i'" using sequenceD [OF sq, of i'] i' k(2) lu Suc.prems(4) by simp_all
    show "wp (scan_down (nat (j - l + 3)) H C l j) (\<lambda>j. wp (if j < i' then seq (lua_pop 3) (ret i')
        else seq (set2 i' j) (partition_loop f H C l u i' j)) Q E) E s1"
    proof (rule scan_down_wp [OF dec fr sq P s1 k'(1) _ lu(1) k'(2,3)])
      fix j' s2
      assume s2: "sorting s h a [P, a i', a j'] s2" and j': "j' < j" "k' \<le> j'" "\<not> lt P (a j')" "\<forall>x \<in> {j' + 1..j - 1}. lt P (a x)"
      have jV: "a j' \<in> V" "a j' \<noteq> TNil" "int_key j'" using sequenceD [OF sq, of j'] j' k'(2) lu Suc.prems(6) by simp_all
      have up: "\<forall>x \<in> {i + 1..i' - 1}. \<not> lt P (a x)"
      proof
        fix x
        assume "x \<in> {i + 1..i' - 1}"
        then show "\<not> lt P (a x)" using consistentD(1) [OF ord _ P, of "a x"] inV [of x] i' k Suc.prems(4) by auto
      qed
      have down: "\<forall>x \<in> {j' + 1..j - 1}. \<not> lt (a x) P"
      proof
        fix x
        assume "x \<in> {j' + 1..j - 1}"
        then show "\<not> lt (a x) P" using consistentD(1) [OF ord P, of "a x"] inV [of x] j' k' Suc.prems(6) by auto
      qed
      show "wp (if j' < i' then seq (lua_pop 3) (ret i') else seq (set2 i' j') (partition_loop f H C l u i' j')) Q E s2"
      proof (cases "j' < i'")
        case True
        have "\<not> lt P (a x)" if "x \<in> {l..i' - 1}" for x using that left up by (cases "x \<le> i") auto
        moreover have "\<not> lt (a x) P" if "x \<in> {i'..u}" for x using that right down True by (cases "j \<le> x") auto
        ultimately have pt: "parted lt P l u (i' - 1) i' a" using pv by (simp add: parted_def)
        have "wp (lua_pop (int 3)) (\<lambda>_. Q i') E s2"
        proof (rule sorting_pop [OF s2])
          fix s3
          assume "sorting s h a (take (length [P, a i', a j'] - 3) [P, a i', a j']) s3"
          then have "sorting s h a [] s3" by simp
          then show "Q i' s3" by (rule Suc.prems(9) [OF _ rearr_refl _ _ pt]) (use i' k Suc.prems(4) in auto)
        qed simp
        then show ?thesis using True by (simp add: wp_seq wp_ret)
      next
        case False
        let ?b = "a(i' := a j', j' := a i')"
        have re: "rearr l u a ?b" by (rule rearr_swap) (use i' j' k k' Suc.prems(4,6) False in auto)
        have pt: "parted lt P l u i' j' ?b"
          by (rule parted_exchange [OF Suc.prems(3) i'(1) j'(1) _ Suc.prems(6) up down i'(3) j'(3)]) (use False in simp)
        have "wp (set2 i' j') (\<lambda>_. wp (partition_loop f H C l u i' j') Q E) E s2"
        proof (rule sorting_set2 [OF _ fr iV(3) jV(3) iV(2) jV(2,2)])
          show "sorting s h a ([P] @ [a i', a j']) s2" using s2 by simp
          fix s3
          assume s3: "sorting s h ?b [P] s3"
          show "wp (partition_loop f H C l u i' j') Q E s3"
          proof (rule Suc.IH [OF s3 sequence_rearr [OF sq re lu] pt])
            fix b m s''
            assume "sorting s h b [] s''" "rearr l u ?b b" "l < m" "m \<le> u - 1" "parted lt P l u (m - 1) m b"
            then show "Q m s''" using Suc.prems(9) rearr_trans [OF re] by blast
          qed (use i' j' k k' Suc.prems(4-8) False in auto)
        qed
        then show ?thesis using False by (simp add: wp_seq)
      qed
    qed (use Suc.prems(6) lu(2) k' in auto)
  qed (use Suc.prems(4) lu k in auto)
qed

section \<open>The whole of it\<close>

declare ret_run [simp del] get_run [simp del] upd_run [simp del]

lemma wp_compose:
  "wp (seq m n) Q E = wp m (\<lambda>_. wp n Q E) E" "wp (bnd m g) Q E = wp m (\<lambda>a. wp (g a) Q E) E"
  "wp (steps []) Q E = Q ()" "wp (steps (m' # ms)) Q E = wp m' (\<lambda>_. wp (steps ms) Q E) E"
  by (rule ext, simp add: wps)+

text \<open>The first value is on the stack: get the other, compare, and exchange or drop both.\<close>

lemma order_pair_wp:
  assumes "decides H C lt V s h" "frame_of s h" "sequence V n a" "sorting s h a [a i] s'" "1 \<le> i" "i < u" "u \<le> n"
    and "\<And>b s''. sorting s h b [] s'' \<Longrightarrow> b = (if lt (a u) (a i) then a(i := a u, u := a i) else a) \<Longrightarrow> Q () s''"
  shows "wp (lua_rawgeti 1 u) (\<lambda>_. wp (sort_comp H C (- 1) (- 2)) (\<lambda>c. wp (if c then set2 i u else lua_pop 2) Q E) E) E s'"
proof -
  have i: "a i \<in> V" "a i \<noteq> TNil" "int_key i" and u: "a u \<in> V" "a u \<noteq> TNil" "int_key u"
    using sequenceD [OF assms(3), of i] sequenceD [OF assms(3), of u] assms(5-7) by simp_all
  show ?thesis
  proof (rule sorting_get [OF assms(4,2) u(3)])
    fix s1
    assume "sorting s h a ([a i] @ [a u]) s1"
    then have s1: "sorting s h a ([] @ [a i, a u]) s1" "sorting s h a [a i, a u] s1" by simp_all
    show "wp (sort_comp H C (- 1) (- 2)) (\<lambda>c. wp (if c then set2 i u else lua_pop 2) Q E) E s1"
    proof (rule decides_top [OF assms(1) s1(1) _ u(1) i(1)])
      show "wp (if lt (a u) (a i) then set2 i u else lua_pop 2) Q E s1"
      proof (cases "lt (a u) (a i)")
        case True
        have "wp (set2 i u) Q E s1"
          by (rule sorting_set2 [OF s1(1) assms(2) i(3) u(3) i(2) u(2,2)]) (use True assms(8) in auto)
        then show ?thesis using True by simp
      next
        case False
        have "wp (lua_pop (int 2)) Q E s1"
          by (rule sorting_pop [OF s1(2)]) (use False assms(8) in auto)
        then show ?thesis using False by simp
      qed
    qed simp
  qed simp
qed

text \<open>The median of three.\<close>

lemma median_wp:
  assumes dec: "decides H C lt V s h" and fr: "frame_of s h" and ord: "consistent lt V" and sq: "sequence V n a"
    and "sorting s h a [] s'" "1 \<le> l" "l < i" "i < u" "u \<le> n" "\<not> lt (a u) (a l)"
    and Q: "\<And>b s''. sorting s h b [] s'' \<Longrightarrow> rearr l u a b \<Longrightarrow> \<not> lt (b u) (b l) \<Longrightarrow> \<not> lt (b u) (b i) \<Longrightarrow> \<not> lt (b i) (b l) \<Longrightarrow> Q () s''"
  shows "wp (lua_rawgeti 1 i) (\<lambda>_. wp (lua_rawgeti 1 l) (\<lambda>_. wp (sort_comp H C (- 2) (- 1)) (\<lambda>c.
      wp (if c then set2 i l else seq (steps [lua_pop 1, lua_rawgeti 1 u])
                    (bnd (sort_comp H C (- 1) (- 2)) (\<lambda>c. if c then set2 i u else lua_pop 2))) Q E) E) E) E s'"
proof -
  have i: "a i \<in> V" "a i \<noteq> TNil" "int_key i" and l: "a l \<in> V" "a l \<noteq> TNil" "int_key l" and u: "a u \<in> V"
    using sequenceD [OF sq, of i] sequenceD [OF sq, of l] sequenceD [OF sq, of u] assms(6-9) by simp_all
  have cmp: "wp (if lt (a i) (a l) then set2 i l else seq (steps [lua_pop 1, lua_rawgeti 1 u])
                    (bnd (sort_comp H C (- 1) (- 2)) (\<lambda>c. if c then set2 i u else lua_pop 2))) Q E s1"
    if s1: "sorting s h a [a i, a l] s1" for s1
  proof (cases "lt (a i) (a l)")
    case True
    let ?b = "a(i := a l, l := a i)"
    have "\<not> lt (a l) (a i)" by (rule consistentD(1) [OF ord i(1) l(1) True])
    moreover have "\<not> lt (a u) (a i)" by (rule consistentD(3) [OF ord u l(1) i(1) assms(10) calculation])
    moreover have "wp (set2 i l) Q E s1" if "\<And>s''. sorting s h ?b [] s'' \<Longrightarrow> Q () s''"
      by (rule sorting_set2 [OF _ fr i(3) l(3) i(2) l(2,2)]) (use s1 that in auto)
    moreover have "rearr l u a ?b" by (rule rearr_swap) (use assms(7,8) in auto)
    ultimately show ?thesis using True Q [of ?b] assms(7,8,10) by simp
  next
    case False
    have "wp (lua_pop (int 1)) (\<lambda>_. wp (lua_rawgeti 1 u) (\<lambda>_. wp (sort_comp H C (- 1) (- 2)) (\<lambda>c. wp (if c then set2 i u else lua_pop 2) Q E) E) E) E s1"
    proof (rule sorting_pop [OF s1])
      fix s2
      assume "sorting s h a (take (length [a i, a l] - 1) [a i, a l]) s2"
      then have s2: "sorting s h a [a i] s2" by simp
      show "wp (lua_rawgeti 1 u) (\<lambda>_. wp (sort_comp H C (- 1) (- 2)) (\<lambda>c. wp (if c then set2 i u else lua_pop 2) Q E) E) E s2"
      proof (rule order_pair_wp [OF dec fr sq s2 _ assms(8,9)])
        fix b s''
        assume b: "sorting s h b [] s''" "b = (if lt (a u) (a i) then a(i := a u, u := a i) else a)"
        have "rearr l u a (a(i := a u, u := a i))" by (rule rearr_swap) (use assms(7,8) in auto)
        then have "rearr l u a b" using b(2) by simp
        moreover have "\<not> lt (a i) (a u) \<or> \<not> lt (a u) (a i)" using consistentD(1) [OF ord i(1) u] by blast
        ultimately show "Q () s''" using b Q [OF b(1)] False assms(7,8,10) by (simp split: if_splits)
      qed (use assms(6,7) in simp)
    qed simp
    then show ?thesis using False by (simp add: wp_compose wp_ret)
  qed
  show ?thesis
  proof (rule sorting_get [OF assms(5) fr i(3)])
    fix s1
    assume s1: "sorting s h a ([] @ [a i]) s1"
    show "wp (lua_rawgeti 1 l) (\<lambda>_. wp (sort_comp H C (- 2) (- 1)) (\<lambda>c.
      wp (if c then set2 i l else seq (steps [lua_pop 1, lua_rawgeti 1 u])
                    (bnd (sort_comp H C (- 1) (- 2)) (\<lambda>c. if c then set2 i u else lua_pop 2))) Q E) E) E s1"
    proof (rule sorting_get [OF s1 fr l(3)])
      fix s2
      assume "sorting s h a (([] @ [a i]) @ [a l]) s2"
      then have s2: "sorting s h a [a i, a l] s2" by simp
      show "wp (sort_comp H C (- 2) (- 1)) (\<lambda>c.
        wp (if c then set2 i l else seq (steps [lua_pop 1, lua_rawgeti 1 u])
                    (bnd (sort_comp H C (- 1) (- 2)) (\<lambda>c. if c then set2 i u else lua_pop 2))) Q E) E s2"
        by (rule decides_below [OF dec s2 i(1) l(1)], rule cmp [OF s2])
    qed simp
  qed simp
qed

text \<open>Sorting two ranges that do not meet.\<close>

lemma two_ranges:
  assumes "rearr p q b c" "ascending lt p q c" "rearr p' q' c d" "ascending lt p' q' d" "q < p' \<or> q' < p"
  shows "ascending lt p q d" "ascending lt p' q' d"
    "(\<forall>k \<in> {p..q}. G (d k)) \<longleftrightarrow> (\<forall>k \<in> {p..q}. G (b k))" "(\<forall>k \<in> {p'..q'}. G (d k)) \<longleftrightarrow> (\<forall>k \<in> {p'..q'}. G (b k))"
    "k \<notin> {p..q} \<Longrightarrow> k \<notin> {p'..q'} \<Longrightarrow> d k = b k"
proof -
  have d: "d k = c k" if "k \<in> {p..q}" for k using rearr_outside [OF assms(3)] assms(5) that by auto
  then show "ascending lt p q d" using assms(2) by (simp add: ascending_def)
  show "ascending lt p' q' d" by (rule assms(4))
  show "(\<forall>k \<in> {p..q}. G (d k)) \<longleftrightarrow> (\<forall>k \<in> {p..q}. G (b k))" using d rearr_all [OF assms(1)] by simp
  have "c k = b k" if "k \<in> {p'..q'}" for k using rearr_outside [OF assms(1)] assms(5) that by auto
  then show "(\<forall>k \<in> {p'..q'}. G (d k)) \<longleftrightarrow> (\<forall>k \<in> {p'..q'}. G (b k))" using rearr_all [OF assms(3)] by simp
  show "k \<notin> {p..q} \<Longrightarrow> k \<notin> {p'..q'} \<Longrightarrow> d k = b k"
    using rearr_outside [OF assms(1)] rearr_outside [OF assms(3)] by (metis atLeastAtMost_iff not_le)
qed

text \<open>\<open>auxsort f\<close> sorts every range of less than \<open>f\<close> and one elements.\<close>

definition sorts :: "('z lua_State_scheme, 'h) host_scheme \<Rightarrow> 'z lua_call \<Rightarrow> (TValue \<Rightarrow> TValue \<Rightarrow> bool) \<Rightarrow> TValue set \<Rightarrow>
    'z lua_State_scheme \<Rightarrow> u64 \<Rightarrow> int \<Rightarrow> (int \<Rightarrow> 'z lua_State_scheme \<Rightarrow> bool) \<Rightarrow> nat \<Rightarrow> bool" where
  "sorts H C lt V s h n E f \<longleftrightarrow> (\<forall>l u a s' Q. sorting s h a [] s' \<longrightarrow> sequence V n a \<longrightarrow> 1 \<le> l \<longrightarrow> u \<le> n \<longrightarrow> nat (u - l) < f \<longrightarrow>
     (\<forall>b s''. sorting s h b [] s'' \<longrightarrow> rearr l u a b \<longrightarrow> ascending lt l u b \<longrightarrow> Q () s'') \<longrightarrow> wp (auxsort f H C l u) Q E s')"

lemma sortsD:
  assumes "sorts H C lt V s h n E f" "sorting s h a [] s'" "sequence V n a" "1 \<le> l" "u \<le> n" "nat (u - l) < f"
    and "\<And>b s''. sorting s h b [] s'' \<Longrightarrow> rearr l u a b \<Longrightarrow> ascending lt l u b \<Longrightarrow> Q () s''"
  shows "wp (auxsort f H C l u) Q E s'"
  using assms unfolding sorts_def by blast

text \<open>Both parts, in one order or the other.\<close>

lemma parts_wp:
  assumes IH: "sorts H C lt V s h n E f" and b: "sorting s h b [] s1" "sequence V n b"
    and pq: "1 \<le> p" "q \<le> n" "1 \<le> p'" "q' \<le> n" "nat (q - p) < f" "nat (q' - p') < f" "q < p' \<or> q' < p"
    and Q: "\<And>d s2. sorting s h d [] s2 \<Longrightarrow> rearr (min p p') (max q q') b d \<Longrightarrow> ascending lt p q d \<Longrightarrow> ascending lt p' q' d \<Longrightarrow>
      (\<And>G. (\<forall>k \<in> {p..q}. G (d k)) \<longleftrightarrow> (\<forall>k \<in> {p..q}. G (b k))) \<Longrightarrow> (\<And>G. (\<forall>k \<in> {p'..q'}. G (d k)) \<longleftrightarrow> (\<forall>k \<in> {p'..q'}. G (b k))) \<Longrightarrow>
      (\<And>k. k \<notin> {p..q} \<Longrightarrow> k \<notin> {p'..q'} \<Longrightarrow> d k = b k) \<Longrightarrow> Q () s2"
  shows "wp (seq (auxsort f H C p q) (auxsort f H C p' q')) Q E s1"
  unfolding wp_seq
proof (rule sortsD [OF IH b pq(1,2,5)])
  fix c s2
  assume c: "sorting s h c [] s2" "rearr p q b c" "ascending lt p q c"
  show "wp (auxsort f H C p' q') Q E s2"
  proof (rule sortsD [OF IH c(1) sequence_rearr [OF b(2) c(2) pq(1,2)] pq(3,4,6)])
    fix d s3
    assume d: "sorting s h d [] s3" "rearr p' q' c d" "ascending lt p' q' d"
    have "rearr (min p p') (max q q') b d" by (rule rearr_trans [OF rearr_widen [OF c(2)] rearr_widen [OF d(2)]]) auto
    then show "Q () s3" by (rule Q [OF d(1)]) (rule two_ranges [OF c(2,3) d(2,3) pq(7)]; assumption?)+
  qed
qed

lemma halves_wp:
  assumes IH: "sorts H C lt V s h n E f" and ord: "consistent lt V"
    and b: "sorting s h b [] s1" "sequence V n b" and lu: "1 \<le> l" "u \<le> n" "nat (u - l) \<le> f"
    and m: "l < m" "m \<le> u - 1" "\<forall>k \<in> {l..m - 1}. \<not> lt (b m) (b k)" "\<forall>k \<in> {m + 1..u}. \<not> lt (b k) (b m)"
    and Q: "\<And>d s2. sorting s h d [] s2 \<Longrightarrow> rearr l u b d \<Longrightarrow> ascending lt l u d \<Longrightarrow> Q () s2"
  shows "wp (if m - l < u - m then seq (auxsort f H C l (m - 1)) (auxsort f H C (m + 1) u)
        else seq (auxsort f H C (m + 1) u) (auxsort f H C l (m - 1))) Q E s1"
proof -
  have fin: "Q () s2" if d: "sorting s h d [] s2" "rearr l u b d" "ascending lt l (m - 1) d" "ascending lt (m + 1) u d"
    "\<And>G. (\<forall>k \<in> {l..m - 1}. G (d k)) \<longleftrightarrow> (\<forall>k \<in> {l..m - 1}. G (b k))" "\<And>G. (\<forall>k \<in> {m + 1..u}. G (d k)) \<longleftrightarrow> (\<forall>k \<in> {m + 1..u}. G (b k))"
    "d m = b m" for d s2
  proof (rule Q [OF d(1,2)])
    have "d ` {l..u} \<subseteq> V" using sequenceD [OF sequence_rearr [OF b(2) d(2) lu(1,2)]] lu by auto
    then show "ascending lt l u d"
      by (rule ascending_join [OF ord, of d l u m])
        (use d(3,4,7) d(5) [of "\<lambda>x. \<not> lt (b m) x"] d(6) [of "\<lambda>x. \<not> lt x (b m)"] m in auto)
  qed
  have "wp (seq (auxsort f H C l (m - 1)) (auxsort f H C (m + 1) u)) Q E s1"
  proof (rule parts_wp [OF IH b])
    fix d s2
    assume d: "sorting s h d [] s2" "rearr (min (l) (m + 1)) (max (m - 1) (u)) b d" "ascending lt (l) (m - 1) d" "ascending lt (m + 1) (u) d"
      "\<And>G. (\<forall>k \<in> {l..m - 1}. G (d k)) \<longleftrightarrow> (\<forall>k \<in> {l..m - 1}. G (b k))" "\<And>G. (\<forall>k \<in> {m + 1..u}. G (d k)) \<longleftrightarrow> (\<forall>k \<in> {m + 1..u}. G (b k))"
      "\<And>k. k \<notin> {l..m - 1} \<Longrightarrow> k \<notin> {m + 1..u} \<Longrightarrow> d k = b k"
    then show "Q () s2" using m(1,2) by (intro fin [OF d(1) _ d(3-6)]) (simp_all add: min_def max_def)
  qed (use lu m in auto)
  moreover have "wp (seq (auxsort f H C (m + 1) u) (auxsort f H C l (m - 1))) Q E s1"
  proof (rule parts_wp [OF IH b])
    fix d s2
    assume d: "sorting s h d [] s2" "rearr (min (m + 1) (l)) (max (u) (m - 1)) b d" "ascending lt (m + 1) (u) d" "ascending lt (l) (m - 1) d"
      "\<And>G. (\<forall>k \<in> {m + 1..u}. G (d k)) \<longleftrightarrow> (\<forall>k \<in> {m + 1..u}. G (b k))" "\<And>G. (\<forall>k \<in> {l..m - 1}. G (d k)) \<longleftrightarrow> (\<forall>k \<in> {l..m - 1}. G (b k))"
      "\<And>k. k \<notin> {m + 1..u} \<Longrightarrow> k \<notin> {l..m - 1} \<Longrightarrow> d k = b k"
    then show "Q () s2" using m(1,2) by (intro fin [OF d(1) _ d(4,3,6,5)]) (simp_all add: min_def max_def)
  qed (use lu m in auto)
  ultimately show ?thesis by simp
qed

text \<open>From the median on: the pivot goes to \<open>u - 1\<close>, the rest is parted around it, and it goes between the parts.\<close>

lemma partition_wp:
  assumes dec: "decides H C lt V s h" and fr: "frame_of s h" and ord: "consistent lt V" and IH: "sorts H C lt V s h n E f"
    and b: "sorting s h b [] s1" "sequence V n b" and lu: "1 \<le> l" "u \<le> n" "nat (u - l) \<le> f"
    and i: "l < i" "i \<le> u - 1" "2 < u - l" "\<not> lt (b u) (b i)" "\<not> lt (b i) (b l)"
    and Q: "\<And>d s2. sorting s h d [] s2 \<Longrightarrow> rearr l u b d \<Longrightarrow> ascending lt l u d \<Longrightarrow> Q () s2"
  shows "wp (seq (steps [lua_rawgeti 1 i, lua_pushvalue (- 1), lua_rawgeti 1 (u - 1), set2 i (u - 1)])
        (bnd (partition_loop (nat (u - l + 3)) H C l u l (u - 1)) (\<lambda>m.
         seq (steps [lua_rawgeti 1 (u - 1), lua_rawgeti 1 m, set2 (u - 1) m])
         (if m - l < u - m then seq (auxsort f H C l (m - 1)) (auxsort f H C (m + 1) u)
          else seq (auxsort f H C (m + 1) u) (auxsort f H C l (m - 1)))))) Q E s1" (is "wp (seq _ (bnd _ ?K)) Q E s1")
proof -
  have range: "int_key k" "c k \<noteq> TNil" "c k \<in> V" if "sequence V n c" "l \<le> k" "k \<le> u" for c k
    using sequenceD [OF that(1), of k] that(2,3) lu by simp_all
  note ib = range [OF b(2), of i] and ub = range [OF b(2), of "u - 1"]
  let ?P = "b i" and ?c = "b(i := b (u - 1), u - 1 := b i)"
  have c: "rearr l u b ?c" by (rule rearr_swap) (use i in auto)
  have "{u - 1..u} = {u - 1, u}" by auto
  then have pt: "parted lt ?P l u l (u - 1) ?c"
    using i consistentD(2) [OF ord, of ?P] ib(3) by (auto simp: parted_def)
  have cont: "wp (?K m) Q E s2"
    if e: "sorting s h e [] s2" "rearr l u ?c e" "l < m" "m \<le> u - 1" "parted lt ?P l u (m - 1) m e" for e m s2
  proof -
    have re: "rearr l u b e" by (rule rearr_trans [OF c e(2)])
    have sq: "sequence V n e" by (rule sequence_rearr [OF b(2) re lu(1,2)])
    note me = range [OF sq, of m] and ue = range [OF sq, of "u - 1"]
    let ?d = "e(u - 1 := e m, m := e (u - 1))"
    have d: "rearr l u e ?d" by (rule rearr_swap) (use i e(3,4) in auto)
    have "wp (lua_rawgeti 1 (u - 1)) (\<lambda>_. wp (lua_rawgeti 1 m) (\<lambda>_. wp (set2 (u - 1) m) (\<lambda>_.
        wp (if m - l < u - m then seq (auxsort f H C l (m - 1)) (auxsort f H C (m + 1) u)
          else seq (auxsort f H C (m + 1) u) (auxsort f H C l (m - 1))) Q E) E) E) E s2"
    proof (rule sorting_get [OF e(1) fr], goal_cases)
      case (3 s3)
      show ?case
      proof (rule sorting_get [OF 3 fr], goal_cases)
        case (3 s4)
        then have s4: "sorting s h e ([] @ [e (u - 1), e m]) s4" by simp
        show ?case
        proof (rule sorting_set2 [OF s4 fr], goal_cases)
          case (6 s5)
          show ?case
          proof (rule halves_wp [OF IH ord 6 sequence_rearr [OF sq d lu(1,2)] lu e(3,4)], goal_cases)
            case (3 d' s6)
            then show ?case using Q rearr_trans [OF re rearr_trans [OF d]] by blast
          qed (use e(3-5) i in \<open>auto simp: parted_def\<close>)
        qed (use me ue e(3,4) i in auto)
      qed (use me e(3,4) in auto)
    qed (use ue i in auto)
    then show ?thesis by (simp add: wp_compose wp_ret)
  qed
  have "wp (lua_rawgeti 1 i) (\<lambda>_. wp (lua_pushvalue (- 1)) (\<lambda>_. wp (lua_rawgeti 1 (u - 1)) (\<lambda>_. wp (set2 i (u - 1)) (\<lambda>_.
      wp (partition_loop (nat (u - l + 3)) H C l u l (u - 1)) (\<lambda>m. wp (?K m) Q E) E) E) E) E) E s1"
  proof (rule sorting_get [OF b(1) fr], goal_cases)
    case (3 s2)
    show ?case
    proof (rule sorting_dup [OF 3 fr], goal_cases)
      case (2 s3)
      show ?case
      proof (rule sorting_get [OF 2 fr], goal_cases)
        case (3 s4)
        then have s4: "sorting s h b ([b i] @ [b i, b (u - 1)]) s4" by simp
        show ?case
        proof (rule sorting_set2 [OF s4 fr], goal_cases)
          case (6 s5)
          show ?case
            by (rule partition_loop_wp [OF dec fr ord _ lu(1,2) 6 sequence_rearr [OF b(2) c lu(1,2)] pt])
              (use ib i cont in auto)
        qed (use ib ub i in auto)
      qed (use ub i in auto)
    qed simp
  qed (use ib i in auto)
  then show ?thesis by (simp add: wp_compose wp_ret)
qed

lemma auxsort_sorts:
  assumes dec: "decides H C lt V s h" and fr: "frame_of s h" and ord: "consistent lt V"
  shows "sorts H C lt V s h n E f"
proof (induction f)
  case 0
  then show ?case by (simp add: sorts_def)
next
  case (Suc f)
  show ?case unfolding sorts_def
  proof (intro allI impI)
    fix l u a s' and Q :: "unit \<Rightarrow> _ \<Rightarrow> bool"
    assume s': "sorting s h a [] s'" and sq: "sequence V n a" and lu: "1 \<le> l" "u \<le> n" "nat (u - l) < Suc f"
      and Q: "\<forall>b s''. sorting s h b [] s'' \<longrightarrow> rearr l u a b \<longrightarrow> ascending lt l u b \<longrightarrow> Q () s''"
    show "wp (auxsort (Suc f) H C l u) Q E s'"
    proof (cases "l < u")
      case False
      then show ?thesis using Q s' by (simp add: wp_ret ascending_trivial)
    next
      case True
      have "u < 2 ^ 30" using sq lu by (simp add: sequence_def)
      then have "to_int (l + u) = l + u" using lu True by (simp add: to_int_id)
      then have i: "to_int (l + u) sdiv 2 = (l + u) div 2" using lu True by (simp add: signed_divide_int_def)
      have pair: "wp (lua_rawgeti 1 l) (\<lambda>_. wp (lua_rawgeti 1 u) (\<lambda>_. wp (sort_comp H C (- 1) (- 2)) (\<lambda>c.
          wp (if c then set2 l u else lua_pop 2) Q1 E) E) E) E s'"
        if Q1: "\<And>b s''. sorting s h b [] s'' \<Longrightarrow> rearr l u a b \<Longrightarrow> \<not> lt (b u) (b l) \<Longrightarrow> Q1 () s''" for Q1
      proof (rule sorting_get [OF s' fr], goal_cases)
        case (3 s1)
        then have s1: "sorting s h a [a l] s1" by simp
        show ?case
        proof (rule order_pair_wp [OF dec fr sq s1 lu(1) True lu(2)], goal_cases)
          case (1 b s2)
          have V: "a l \<in> V" "a u \<in> V" using sequenceD [OF sq] lu True by simp_all
          have "rearr l u a (a(l := a u, u := a l))" by (rule rearr_swap) (use True in auto)
          then show ?case using Q1 [OF 1(1)] 1(2) True consistentD(1) [OF ord V(2,1)] by (simp split: if_splits)
        qed
      qed (use sequenceD [OF sq, of l] lu True in auto)
      define m where "m = to_int (l + u) sdiv 2"
      define R2 where "R2 = (if u - l = 2 then ret ()
        else seq (steps [lua_rawgeti 1 m, lua_pushvalue (- 1), lua_rawgeti 1 (u - 1), set2 m (u - 1)])
          (bnd (partition_loop (nat (u - l + 3)) H C l u l (u - 1)) (\<lambda>i.
           seq (steps [lua_rawgeti 1 (u - 1), lua_rawgeti 1 i, set2 (u - 1) i])
           (if i - l < u - i then seq (auxsort f H C l (i - 1)) (auxsort f H C (i + 1) u)
            else seq (auxsort f H C (i + 1) u) (auxsort f H C l (i - 1))))) :: ('a lua_State_scheme, unit) prog)"
      define R1 where "R1 = (if u - l = 1 then ret ()
        else seq (steps [lua_rawgeti 1 m, lua_rawgeti 1 l])
          (bnd (sort_comp H C (- 2) (- 1)) (\<lambda>c.
           seq (if c then set2 m l else seq (steps [lua_pop 1, lua_rawgeti 1 u])
                  (bnd (sort_comp H C (- 1) (- 2)) (\<lambda>c. if c then set2 m u else lua_pop 2))) R2)) :: ('a lua_State_scheme, unit) prog)"
      have R2: "wp R2 Q E s1" if b: "sorting s h b [] s1" "rearr l u a b" "\<not> lt (b u) (b l)" "\<not> lt (b u) (b m)" "\<not> lt (b m) (b l)" "1 < u - l" for b s1
      proof (cases "u - l = 2")
        case True
        then have "l < m" "m < u" using i by (simp_all add: m_def)
        then have "ascending lt l u b" using ascending_three [of lt b u l m] b True by simp
        then show ?thesis using True Q b(1,2) by (simp add: R2_def wp_ret)
      next
        case False
        have "wp (seq (steps [lua_rawgeti 1 m, lua_pushvalue (- 1), lua_rawgeti 1 (u - 1), set2 m (u - 1)])
          (bnd (partition_loop (nat (u - l + 3)) H C l u l (u - 1)) (\<lambda>i.
           seq (steps [lua_rawgeti 1 (u - 1), lua_rawgeti 1 i, set2 (u - 1) i])
           (if i - l < u - i then seq (auxsort f H C l (i - 1)) (auxsort f H C (i + 1) u)
            else seq (auxsort f H C (i + 1) u) (auxsort f H C l (i - 1)))))) Q E s1"
          by (rule partition_wp [OF dec fr ord Suc.IH b(1) sequence_rearr [OF sq b(2) lu(1,2)] lu(1,2)])
            (use lu b False i Q rearr_trans [OF b(2)] in \<open>auto simp: m_def\<close>)
        then show ?thesis using False by (simp add: R2_def)
      qed
      have R1: "wp R1 Q E s1" if b: "sorting s h b [] s1" "rearr l u a b" "\<not> lt (b u) (b l)" for b s1
      proof (cases "u - l = 1")
        case True
        then show ?thesis using Q b ascending_two [of lt b u l] by (simp add: R1_def wp_ret)
      next
        case False
        then have m: "l < m" "m < u" using True i by (simp_all add: m_def)
        have "wp (lua_rawgeti 1 m) (\<lambda>_. wp (lua_rawgeti 1 l) (\<lambda>_. wp (sort_comp H C (- 2) (- 1)) (\<lambda>c.
            wp (if c then set2 m l else seq (steps [lua_pop 1, lua_rawgeti 1 u])
                    (bnd (sort_comp H C (- 1) (- 2)) (\<lambda>c. if c then set2 m u else lua_pop 2))) (\<lambda>_. wp R2 Q E) E) E) E) E s1"
          by (rule median_wp [OF dec fr ord sequence_rearr [OF sq b(2) lu(1,2)] b(1) lu(1) m lu(2) b(3)])
            (use R2 rearr_trans [OF b(2)] False True in auto)
        then show ?thesis using False by (simp add: R1_def wp_compose wp_ret)
      qed
      have "wp (auxsort (Suc f) H C l u) Q E s' = wp (lua_rawgeti 1 l) (\<lambda>_. wp (lua_rawgeti 1 u) (\<lambda>_. wp (sort_comp H C (- 1) (- 2)) (\<lambda>c.
          wp (if c then set2 l u else lua_pop 2) (\<lambda>_. wp R1 Q E) E) E) E) E s'"
        unfolding auxsort.simps Let_def m_def [symmetric] R1_def R2_def using True by (simp add: wp_compose wp_ret)
      then show ?thesis using pair [of "\<lambda>_. wp R1 Q E"] R1 by simp
    qed
  qed
qed

section \<open>Orders of a script\<close>

lemma above_frame_adr:
  assumes "stack s' = [v, w] @ zs" "p < length zs" "length zs \<le> 9"
  shows "index2adr (int p - int (length zs)) s' = Val (Stk (p + 2)) s'"
  using assms by (simp add: index2adr_def LUA_REGISTRYINDEX_def nat_add_distrib nat_diff_distrib')

fun number_less :: "TValue \<Rightarrow> TValue \<Rightarrow> bool" where
  "number_less (TNumber a) (TNumber b) = luai_numlt a b"
| "number_less _ _ = False"

lemma number_less_consistent:
  assumes "V \<subseteq> {TNumber r | r. \<not> num_nan r}"
  shows "consistent number_less V"
proof -
  have num: "\<exists>r. x = TNumber r \<and> \<not> num_nan r" if "x \<in> V" for x using assms that by blast
  show ?thesis unfolding consistent_def
  proof (intro conjI ballI impI)
    fix x y
    assume "x \<in> V" "y \<in> V" "number_less x y"
    then show "\<not> number_less y x" using num [of x] num [of y] by (auto simp: luai_numlt_def)
  next
    fix x y z
    assume "x \<in> V" "y \<in> V" "z \<in> V" "\<not> number_less x y" "\<not> number_less y z"
    then show "\<not> number_less x z" using num [of x] num [of y] num [of z] by (auto simp: luai_numlt_def)
  qed
qed

lemma decides_numbers:
  assumes "stack s = [TTable h, TNil]" "V \<subseteq> {TNumber r | r. \<not> num_nan r}"
  shows "decides H C number_less V s h"
  unfolding decides_def
proof (intro allI impI)
  fix a zs p q s'
  assume a: "sorting s h a zs s'" "length zs \<le> 3" "p < length zs" "q < length zs" "zs ! p \<in> V" "zs ! q \<in> V"
  have st: "stack s' = [TTable h, TNil] @ zs" using sorting_stack [OF a(1)] assms(1) by simp
  have num: "\<exists>r. v = TNumber r" if "v \<in> V" for v using assms(2) that by blast
  obtain x y where xy: "zs ! p = TNumber x" "zs ! q = TNumber y" using num [OF a(5)] num [OF a(6)] by blast
  have "index2adr 2 s' = Val (Stk 1) s'" by (simp add: index2adr_def st)
  moreover have "index2adr (int p - int (length zs)) s' = Val (Stk (p + 2)) s'" "index2adr (int q - int (length zs)) s' = Val (Stk (q + 2)) s'"
    using above_frame_adr [OF st] a(2-4) by simp_all
  ultimately show "sort_comp H C (int p - int (length zs)) (int q - int (length zs)) s' = Val (number_less (zs ! p) (zs ! q)) s'"
    using st xy
    by (simp add: sort_comp_def lua_isnil_def is_type_def lua_type_def lua_lessthan_def two_values_def bnd_def luaV_lessthan_def ret_def get_def ttype_def LUA_TNIL_def)
qed

text \<open>A function that is called with two values and answers with a boolean.\<close>

definition answers :: "'z lua_call \<Rightarrow> TValue \<Rightarrow> (TValue \<Rightarrow> TValue \<Rightarrow> bool) \<Rightarrow> TValue set \<Rightarrow> bool" where
  "answers C F lt V \<longleftrightarrow> (\<forall>x \<in> V. \<forall>y \<in> V. \<forall>xs s. stack s = xs @ [F, x, y] \<longrightarrow>
     C 2 1 s = Val () (s\<lparr>stack := xs @ [TBoolean (lt x y)]\<rparr>))"

lemma decides_function:
  assumes "stack s = [TTable h, TFunction a]" "10 \<le> ci_top s" "answers C (TFunction a) lt V"
  shows "decides H C lt V s h"
  unfolding decides_def
proof (intro allI impI)
  fix b zs p q s'
  assume a: "sorting s h b zs s'" "length zs \<le> 3" "p < length zs" "q < length zs" "zs ! p \<in> V" "zs ! q \<in> V"
  let ?st = "\<lambda>ys. s'\<lparr>stack := [TTable h, TFunction a] @ zs @ ys\<rparr>"
  have st: "stack s' = [TTable h, TFunction a] @ zs" using sorting_stack [OF a(1)] assms(1) by simp
  have top: "ci_top s' = ci_top s" using a(1) by (auto simp: sorting_def)
  have push: "lua_pushvalue (int r - int (length zs) - int (length ys)) (?st ys) = Val () (?st (ys @ [zs ! r]))"
    if "r < length zs" "length ys \<le> 2" for r ys
  proof -
    have "index2adr (int r - int (length (zs @ ys))) (?st ys) = Val (Stk (r + 2)) (?st ys)"
      by (rule above_frame_adr) (use that a(2) in auto)
    then have "index_value (int r - int (length zs) - int (length ys)) (?st ys) = Val (zs ! r) (?st ys)"
      using that by (simp add: index_value_def bnd_def get_def nth_append diff_diff_eq)
    then show ?thesis using that a(2) assms(2) top by (simp add: lua_pushvalue_def bnd_def push_run)
  qed
  have f: "lua_pushvalue 2 s' = Val () (?st [TFunction a])"
    using a(2) assms(2) top st by (simp add: lua_pushvalue_def bnd_def index_value_def index2adr_def get_def push_run)
  have x: "lua_pushvalue (int p - int (length zs) - 1) (?st [TFunction a]) = Val () (?st [TFunction a, zs ! p])"
    using push [OF a(3), of "[TFunction a]"] by simp
  have y: "lua_pushvalue (int q - int (length zs) - 2) (?st [TFunction a, zs ! p]) = Val () (?st [TFunction a, zs ! p, zs ! q])"
    using push [OF a(4), of "[TFunction a, zs ! p]"] by simp
  have c: "lua_call C 2 1 (?st [TFunction a, zs ! p, zs ! q]) = Val () (?st [TBoolean (lt (zs ! p) (zs ! q))])"
    using assms(3) a(5,6) unfolding answers_def
    by (simp add: lua_call_def adjustresults_def seq_def bnd_def upd_def LUA_MULTRET_def)
  have "index2adr 2 s' = Val (Stk 1) s'" by (simp add: index2adr_def st)
  moreover have "index_value (- 1) (?st [TBoolean v]) = Val (TBoolean v) (?st [TBoolean v])" for v
    by (rule index_value_top [where xs = "[TTable h, TFunction a] @ zs"]) simp
  moreover have "lua_pop 1 (?st [TBoolean v]) = Val () s'" for v
    using lua_pop_run(1) [of "?st [TBoolean v]" "[TTable h, TFunction a] @ zs" "TBoolean v"] st by simp
  moreover have "(\<not> l_isfalse (TBoolean v)) = v" for v by (cases v) (simp_all add: l_isfalse_def)
  ultimately show "sort_comp H C (int p - int (length zs)) (int q - int (length zs)) s' = Val (lt (zs ! p) (zs ! q)) s'"
    using f x y c st
    by (simp add: sort_comp_def lua_isnil_def is_type_def lua_type_def bnd_def seq_def ret_def get_def lua_toboolean_def ttype_def LUA_TNIL_def)
qed

text \<open>The order that a call of \<open>table.sort\<close> with second argument \<open>F\<close> sorts by.\<close>

definition compares_by :: "'z lua_call \<Rightarrow> TValue \<Rightarrow> (TValue \<Rightarrow> TValue \<Rightarrow> bool) \<Rightarrow> TValue set \<Rightarrow> bool" where
  "compares_by C F lt V \<longleftrightarrow>
     F = TNil \<and> V \<subseteq> {TNumber r | r. \<not> num_nan r} \<and> lt = number_less \<or>
     (\<exists>a. F = TFunction a) \<and> consistent lt V \<and> answers C F lt V"

lemma compares_byD:
  assumes "compares_by C F lt V" "stack s = [TTable h, F]" "10 \<le> ci_top s"
  shows "decides H C lt V s h" "consistent lt V"
  using assms decides_numbers [of s h V H C] decides_function [of s h _ C lt V H] number_less_consistent [of V]
  unfolding compares_by_def by blast+

lemma mset_range: "image_mset b (mset_set {l..u :: int}) = mset (map b [l..u])"
  by (simp flip: mset_set_set)

lemma ascending_list: "ascending lt 1 n b \<Longrightarrow> sorted_wrt (\<lambda>x y. \<not> lt y x) (map b [1..n])"
  by (auto simp: ascending_def sorted_wrt_iff_nth_less)

text \<open>
  Property C13. \<open>table.sort\<close> sorts: called with a table and an order function that is consistent (a strict
  weak order that has no effects), or with a table of numbers and no order, it ends without an error,
  the values from 1 to \<open>#t\<close> are the same ones rearranged, none of them is less than one before it, and
  all other keys and the other tables are as before. \<open>#t + 1\<close> rounds are enough.
\<close>

theorem table_sort_sorts:
  assumes "stack s = TTable h # args" "length (stack s) + 40 \<le> 8000" "tables s h = Some t" "int_room 1 t"
    and "luaH_getn t = Some n" "n < 2 ^ 30" "n < f"
    and "F = (case args of [] \<Rightarrow> TNil | x # _ \<Rightarrow> x)" "V = geti t ` {1..int n}" "TNil \<notin> V" "compares_by C F lt V"
  shows "\<exists>s' t'. tsort f H C s = Val 0 s' \<and> stack s' = [TTable h, F] \<and> tables s' = (tables s)(h \<mapsto> t') \<and> table_inv t'
    \<and> mset (map (geti t') [1..int n]) = mset (map (geti t) [1..int n])
    \<and> sorted_wrt (\<lambda>x y. \<not> lt y x) (map (geti t') [1..int n])
    \<and> (\<forall>i. int_key i \<and> \<not> (1 \<le> i \<and> i \<le> int n) \<longrightarrow> geti t' i = geti t i) \<and> other_keys t' = other_keys t"
proof -
  let ?s1 = "s\<lparr>ci_top := max (ci_top s) (length (stack s) + 40)\<rparr>"
  let ?s2 = "?s1\<lparr>stack := [TTable h, F]\<rparr>"
  have s2: "stack ?s2 = [TTable h, F]" "10 \<le> ci_top ?s2" by simp_all
  have fr: "frame_of ?s2 h" using s2 by (auto simp: frame_of_def)
  note cmp = compares_byD [OF assms(11) s2]
  have start: "sorting ?s2 h (geti t) [] ?s2"
    unfolding sorting_def by (rule exI [of _ t]) (use assms(3,4) in \<open>simp add: fun_upd_idem\<close>)
  have seq_n: "sequence V (int n) (geti t)" using assms(6,9,10) by (simp add: sequence_def)
  have getn: "aux_getn H C 1 s = Val (int n) s"
    using assms(1,3,5,6)
    by (simp add: aux_getn_def luaL_getn_def luaL_checktype_def lua_type_def lua_objlen_def index2adr_def bnd_def seq_def hvalue_def ret_def get_def
      ttype_def LUA_TTABLE_def to_int_id)
  have check: "luaL_checkstack H C 40 '''' s = Val () ?s1"
    using assms(2) by (simp add: luaL_checkstack_def lua_checkstack_def bnd_def ret_def LUAI_MAXCSTACK_def)
  have top: "lua_settop 2 ?s1 = Val () ?s2" using assms(1,8) by (cases args) (auto simp: lua_settop_def)
  have "\<exists>c. lua_isnoneornil 2 ?s1 = Val c ?s1 \<and> (if \<not> c then luaL_checktype H C 2 LUA_TFUNCTION else ret ()) ?s1 = Val () ?s1"
  proof (cases args)
    case Nil
    then show ?thesis using assms(1)
      by (auto simp: lua_isnoneornil_def lua_type_def index2adr_def bnd_def ret_def get_def LUA_TNONE_def)
  next
    case (Cons x xs)
    then have F: "F = TNil \<or> (\<exists>a. F = TFunction a)" "x = F" using assms(8,11) by (auto simp: compares_by_def)
    then show ?thesis using assms(1) Cons
      by (auto simp: lua_isnoneornil_def lua_type_def luaL_checktype_def index2adr_def bnd_def ret_def get_def ttype_def LUA_TNIL_def LUA_TFUNCTION_def)
  qed
  then obtain c where c: "lua_isnoneornil 2 ?s1 = Val c ?s1" "(if \<not> c then luaL_checktype H C 2 LUA_TFUNCTION else ret ()) ?s1 = Val () ?s1"
    by blast
  have "wp (auxsort f H C 1 (int n)) (\<lambda>_ s'. \<exists>b. sorting ?s2 h b [] s' \<and> rearr 1 (int n) (geti t) b \<and> ascending lt 1 (int n) b) (\<lambda>_ _. False) ?s2"
    by (rule sortsD [OF auxsort_sorts [OF cmp(1) fr cmp(2)] start seq_n]) (use assms(7) in auto)
  then obtain s' b where s': "auxsort f H C 1 (int n) ?s2 = Val () s'" "sorting ?s2 h b [] s'"
    and b: "rearr 1 (int n) (geti t) b" "ascending lt 1 (int n) b"
    by (auto simp: wp_def split: res.splits)
  obtain t' where t': "stack s' = [TTable h, F] \<and> tables s' = (tables s)(h \<mapsto> t')" "int_room 1 t'" "other_keys t' = other_keys t" "\<And>i. int_key i \<Longrightarrow> geti t' i = b i"
    using s'(2) assms(3) unfolding sorting_def by auto
  have run: "tsort f H C s = Val 0 s'"
    using getn check c top s'(1) by (simp add: tsort_def bnd_def seq_def ret_def)
  have same: "map (geti t') [1..int n] = map b [1..int n]"
    using t'(4) assms(6) by (simp add: int_key_def)
  have m: "mset (map (geti t') [1..int n]) = mset (map (geti t) [1..int n])"
    using b(1) unfolding same rearr_def mset_range by simp
  have o: "sorted_wrt (\<lambda>x y. \<not> lt y x) (map (geti t') [1..int n])" unfolding same by (rule ascending_list [OF b(2)])
  have r: "\<forall>i. int_key i \<and> \<not> (1 \<le> i \<and> i \<le> int n) \<longrightarrow> geti t' i = geti t i" using t'(4) rearr_outside [OF b(1)] by auto
  show ?thesis by (intro exI [of _ s'] exI [of _ t']) (use run t'(1-3) m o r in \<open>simp add: int_room_def\<close>)
qed

text \<open>Two numbers in the wrong order.\<close>

definition two_numbers :: Table where
  "two_numbers = new_table\<lparr>array := [TNumber (cast_num 2), TNumber (cast_num 1)]\<rparr>"

lemma two_numbers_inv: "table_inv two_numbers"
proof -
  note d = table_invD [OF new_table_inv]
  have "sizenode new_table = 1" by (simp add: new_table_def sizenode_def twoto_def)
  moreover have "dummy new_table" "node new_table = [dummynode]" "\<not> live (i_key dummynode)"
    by (simp_all add: new_table_def dummynode_def live_def)
  ultimately show ?thesis
    unfolding table_inv_def two_numbers_def using d(1,2,4-6) d(8) by (simp add: MAXASIZE_def MAXBITS_def)
qed

lemma two_numbers_room: "n \<le> 100 \<Longrightarrow> int_room n two_numbers"
proof -
  assume "n \<le> 100"
  have "[0..<2] = [0, 1 :: nat]" by (simp add: upt_rec)
  then have "length (pairs two_numbers) = 2"
    by (simp add: pairs_def array_pairs_def node_pairs_def two_numbers_def new_table_def dummynode_def sizenode_def twoto_def)
  then show ?thesis using \<open>n \<le> 100\<close> total_use_pairs [OF two_numbers_inv] two_numbers_inv by (simp add: int_room_def MAXASIZE_def MAXBITS_def)
qed

lemma two_numbers_geti: "geti two_numbers 1 = TNumber (cast_num 2)" "geti two_numbers 2 = TNumber (cast_num 1)"
  by (simp_all add: geti_def luaH_getnum_def two_numbers_def lookup_val_def)

theorem table_sort_sorts_witness:
  "\<exists>s' t'. tsort 3 sample_lib (\<lambda>_ _. undef) ((sample_frame [TTable 1])\<lparr>tables := [1 \<mapsto> two_numbers]\<rparr>) = Val 0 s' \<and>
    tables s' 1 = Some t' \<and> mset [geti t' 1, geti t' 2] = {#TNumber (cast_num 1), TNumber (cast_num 2)#} \<and>
    \<not> number_less (geti t' 2) (geti t' 1)"
proof -
  let ?s = "(sample_frame [TTable 1])\<lparr>tables := [1 \<mapsto> two_numbers]\<rparr>"
  have r: "{1..2 :: int} = {1, 2}" "[1..2 :: int] = [1, 2]" by (auto simp: upto.simps)
  have V: "geti two_numbers ` {1..int 2} = {TNumber (cast_num 2), TNumber (cast_num 1)}" using two_numbers_geti by (simp only: of_nat_numeral r) auto
  have "stack ?s = TTable 1 # []" "tables ?s 1 = Some two_numbers" by (simp_all add: sample_frame_def)
  moreover have "luaH_getn two_numbers = Some 2" by (simp add: luaH_getn_def two_numbers_def new_table_def)
  moreover have "compares_by (\<lambda>_ _. undef) TNil number_less (geti two_numbers ` {1..int 2})"
    using cast_num_not_nan [of 1] cast_num_not_nan [of 2] unfolding compares_by_def V by simp
  ultimately obtain s' t' where "tsort 3 sample_lib (\<lambda>_ _. undef) ?s = Val 0 s'" "tables s' = (tables ?s)(1 \<mapsto> t')"
    "mset (map (geti t') [1..int 2]) = mset (map (geti two_numbers) [1..int 2])"
    "sorted_wrt (\<lambda>x y. \<not> number_less y x) (map (geti t') [1..int 2])"
    using table_sort_sorts [of ?s 1 "[]" two_numbers 2 3 TNil "geti two_numbers ` {1..int 2}" "\<lambda>_ _. undef" number_less sample_lib]
      two_numbers_room [of 1] V by auto
  then show ?thesis using two_numbers_geti by (intro exI [of _ s'] exI [of _ t']) (simp add: r add_mset_commute)
qed

end
