(* ===== verification/Sequences.thy ===== *)
theory Sequences
  imports Tablesort
begin

text \<open>
  \<open>table.insert\<close> and \<open>table.remove\<close>: moving the values behind a position.
\<close>

section \<open>Inserting and removing\<close>

primrec move_by :: "int \<Rightarrow> int list \<Rightarrow> ('z lua_State_scheme, unit) prog" where
  "move_by d [] = ret ()"
| "move_by d (i # is) = seq (steps [lua_rawgeti 1 (i + d), lua_rawseti 1 i]) (move_by d is)"

lemma move_by: "move_up_loop is = move_by (- 1) is" "move_down_loop is = move_by 1 is"
  by (induction "is") simp_all

lemma move_by_run:
  assumes "stack s = TTable h # xs" "tables s h = Some t" "int_room (length is) t" "length (stack s) < ci_top s"
    and "\<And>i. i \<in> set is \<Longrightarrow> int_key i \<and> int_key (i + d)"
  shows "move_by d is s = Val () (s\<lparr>tables := (tables s)(h \<mapsto> foldl (\<lambda>t i. seti t (0 + i) (geti t (d + i))) t is)\<rparr>)"
  using assms
proof (induction "is" arbitrary: s t)
  case Nil
  then show ?case by (simp add: fun_upd_idem ret_def)
next
  case (Cons i "is")
  have k: "int_key i" "int_key (i + d)" using Cons.prems(5) by simp_all
  have inv: "table_inv t" using Cons.prems(3) by (simp add: int_room_def)
  have r: "int_room (Suc (length is)) t" using Cons.prems(3) by simp
  let ?s1 = "s\<lparr>stack := stack s @ [geti t (i + d)]\<rparr>"
  have g: "lua_rawgeti 1 (i + d) s = Val () ?s1"
    by (rule rawgeti_run [OF index_value_arg [OF Cons.prems(1)] Cons.prems(2) inv k(2) Cons.prems(4)])
  have "lua_rawseti 1 i ?s1 = Val () (?s1\<lparr>tables := (tables ?s1)(h \<mapsto> seti t i (geti t (i + d))), stack := stack s\<rparr>)"
    by (rule rawseti_run [OF _ index_value_arg _ r k(1)]) (use Cons.prems(1,2) in auto)
  also have "?s1\<lparr>tables := (tables ?s1)(h \<mapsto> seti t i (geti t (i + d))), stack := stack s\<rparr> = s\<lparr>tables := (tables s)(h \<mapsto> seti t i (geti t (i + d)))\<rparr>"
    using same_stack [OF refl, of s] by simp
  finally have "lua_rawseti 1 i ?s1 = Val () (s\<lparr>tables := (tables s)(h \<mapsto> seti t i (geti t (i + d)))\<rparr>)" .
  then show ?case
    using g Cons.IH [of "s\<lparr>tables := (tables s)(h \<mapsto> seti t i (geti t (i + d)))\<rparr>" "seti t i (geti t (i + d))"]
      Cons.prems tables.room_store [OF r k(1)]
    by (simp add: seq_def bnd_def ret_def add.commute cong: if_cong)
qed

text \<open>Moving a range up or down by one.\<close>

lemma shifted_range:
  assumes "int_room (nat (q - p + 1) + n) t" "d = - 1 \<and> is = rev [p..q] \<or> d = 1 \<and> is = [p..q]"
    and "\<And>i. p \<le> i \<Longrightarrow> i \<le> q \<Longrightarrow> int_key i \<and> int_key (i + d)"
    and "t1 = foldl (\<lambda>t i. seti t (0 + i) (geti t (d + i))) t is"
  shows "int_room n t1" and "other_keys t1 = other_keys t"
    and "int_key j \<Longrightarrow> geti t1 j = (if p \<le> j \<and> j \<le> q then geti t (j + d) else geti t j)"
proof -
  have l: "length is = nat (q - p + 1)" "distinct is" "set is = {p..q}" using assms(2) by auto
  have up: "sorted_wrt (<) [p..q]" by (simp add: sorted_wrt_upto)
  have s: "sorted_wrt (\<lambda>i i'. 0 + i \<noteq> d + i') is"
    using assms(2)
  proof (elim disjE conjE)
    assume i: "d = - 1" "is = rev [p..q]"
    show ?thesis unfolding i(2) sorted_wrt_rev by (rule sorted_wrt_mono_rel [OF _ up]) (use i(1) in simp)
  next
    assume i: "d = 1" "is = [p..q]"
    show ?thesis unfolding i(2) by (rule sorted_wrt_mono_rel [OF _ up]) (use i(1) in simp)
  qed
  have k: "int_key (d + i) \<and> int_key (0 + i)" if "i \<in> set is" for i using assms(3) [of i] that l(3) by (simp add: add.commute)
  have r: "int_room (length is + n) t" using assms(1) l(1) by simp
  note M = tables.move_list [OF r l(2) k s]
  show "int_room n t1" unfolding assms(4) by (rule M(1))
  show "other_keys t1 = other_keys t" unfolding assms(4) by (rule M(2))
  show "int_key j \<Longrightarrow> geti t1 j = (if p \<le> j \<and> j \<le> q then geti t (j + d) else geti t j)"
    unfolding assms(4) using M(3) [of j] l(3) by (simp add: add.commute)
qed

lemma aux_getn_run:
  assumes "stack s = TTable h # xs" "tables s h = Some t" "luaH_getn t = Some n" "n < 2 ^ 30"
  shows "aux_getn H C 1 s = Val (int n) s"
  using assms
  by (simp add: aux_getn_def luaL_getn_def luaL_checktype_def lua_type_def lua_objlen_def index2adr_def bnd_def seq_def hvalue_def ret_def get_def
      ttype_def LUA_TTABLE_def to_int_id)

lemma position_run:
  assumes "stack s = TTable h # TNumber (cast_num pos) # xs" "int_key pos"
  shows "luaL_checkint H C 2 s = Val pos s" "luaL_optint H C 2 e s = Val pos s"
proof -
  have p: "lua_number2integer (cast_num pos) = pos" "to_int pos = pos"
    using assms(2) by (auto simp: int_key_def to_int_id intro!: number2integer_cast_num)
  have "luaL_checkinteger H C 2 s = Val pos s" "luaL_optinteger H C 2 e s = Val pos s"
    using checkinteger_number [of 1 s H "cast_num pos" C] optinteger_number [of 1 s "cast_num pos" H C e] assms(1) p
    by (simp_all add: luaV_tonumber_def)
  then show "luaL_checkint H C 2 s = Val pos s" "luaL_optint H C 2 e s = Val pos s"
    using p by (simp_all add: luaL_checkint_def luaL_optint_def bnd_def ret_def)
qed

text \<open>
  Property C39. \<open>table.insert(t, pos, v)\<close> makes room: the values from \<open>pos\<close> to \<open>#t\<close> are one place further,
  \<open>v\<close> is at \<open>pos\<close>, and all other keys, of any type, and the other tables are as before.
\<close>

theorem table_insert_shifts:
  assumes "stack s = [TTable h, TNumber (cast_num pos), v]" "tables s h = Some t" "luaH_getn t = Some n" "n < 2 ^ 30"
    and "1 \<le> pos" "pos \<le> int n + 1" "int_room (n + 2) t" "3 < ci_top s"
  shows "\<exists>s' t'. tinsert H C s = Val 0 s' \<and> stack s' = [TTable h, TNumber (cast_num pos)] \<and> tables s' = (tables s)(h \<mapsto> t')
    \<and> table_inv t' \<and> other_keys t' = other_keys t
    \<and> (\<forall>j. int_key j \<longrightarrow> geti t' j = (if j < pos \<or> int n + 1 < j then geti t j else if j = pos then v else geti t (j - 1)))"
proof -
  let ?is = "rev [pos + 1..int n + 1]"
  let ?t = "foldl (\<lambda>t i. seti t (0 + i) (geti t (- 1 + i))) t ?is"
  let ?s = "s\<lparr>tables := (tables s)(h \<mapsto> ?t)\<rparr>"
  have pk: "int_key pos" using assms(4-6) by (simp add: int_key_def)
  have k: "int_key i \<and> int_key (i - 1)" if "pos + 1 \<le> i" "i \<le> int n + 1" for i using that assms(4-6) by (simp add: int_key_def)
  have "nat (int n + 1 - (pos + 1) + 1) \<le> n + 1" using assms(5) by simp
  then have room: "int_room (nat (int n + 1 - (pos + 1) + 1) + Suc 0) t" using assms(7) unfolding int_room_def by linarith
  note S = shifted_range [OF room, of "- 1" ?is, OF _ _ refl]
  have S1: "int_room (Suc 0) ?t" "other_keys ?t = other_keys t"
    "\<And>j. int_key j \<Longrightarrow> geti ?t j = (if pos + 1 \<le> j \<and> j \<le> int n + 1 then geti t (j - 1) else geti t j)"
    using S k by simp_all
  have "int_room (length ?is) t" using room by (simp add: int_room_def)
  then have "move_up_loop ?is s = Val () ?s"
    unfolding move_by by (intro move_by_run [OF assms(1,2)]) (use assms(1,8) k in auto)
  moreover have "lua_rawseti 1 pos ?s = Val () (?s\<lparr>tables := (tables ?s)(h \<mapsto> seti ?t pos v), stack := [TTable h, TNumber (cast_num pos)]\<rparr>)"
    by (rule rawseti_run [OF _ index_value_arg _ S1(1) pk]) (use assms(1) in simp_all)
  moreover have "to_int (int n + 1) = int n + 1" using assms(4) by (simp add: to_int_id)
  ultimately have "tinsert H C s = Val 0 (?s\<lparr>tables := (tables ?s)(h \<mapsto> seti ?t pos v), stack := [TTable h, TNumber (cast_num pos)]\<rparr>)"
    using aux_getn_run [OF assms(1-4), of H C] position_run(1) [OF assms(1) pk, of H C] assms(1,6)
    by (simp add: tinsert_def bnd_def seq_def ret_def lua_gettop_def get_def Let_def)
  moreover have "int_room 0 (seti ?t pos v)" "other_keys (seti ?t pos v) = other_keys t"
    "\<And>j. int_key j \<Longrightarrow> geti (seti ?t pos v) j = (if j = pos then v else geti ?t j)"
    using tables.room_store [OF S1(1) pk] tables.rest_store [OF S1(1) pk] tables.lookup_store [OF S1(1) pk] S1(2) by simp_all
  ultimately show ?thesis
    using assms(5,6) S1(3)
    by (intro exI [of _ "?s\<lparr>tables := (tables ?s)(h \<mapsto> seti ?t pos v), stack := [TTable h, TNumber (cast_num pos)]\<rparr>"] exI [of _ "seti ?t pos v"])
      (auto simp: int_room_def)
qed

text \<open>\<open>table.remove(t, pos)\<close> returns the value at \<open>pos\<close> and moves the values behind it down.\<close>

lemma table_remove_shifts:
  assumes "stack s = [TTable h, TNumber (cast_num pos)]" "tables s h = Some t" "luaH_getn t = Some n" "n < 2 ^ 30"
    and "1 \<le> pos" "pos \<le> int n" "int_room (n + 2) t" "4 < ci_top s"
  shows "\<exists>s' t'. tremove H C s = Val 1 s' \<and> stack s' = [TTable h, TNumber (cast_num pos), geti t pos] \<and> tables s' = (tables s)(h \<mapsto> t')
    \<and> table_inv t' \<and> other_keys t' = other_keys t
    \<and> (\<forall>j. int_key j \<longrightarrow> geti t' j = (if j < pos \<or> int n < j then geti t j else if j = int n then TNil else geti t (j + 1)))"
proof -
  let ?is = "[pos..int n - 1]"
  let ?t = "foldl (\<lambda>t i. seti t (0 + i) (geti t (1 + i))) t ?is"
  let ?st = "[TTable h, TNumber (cast_num pos), geti t pos]"
  let ?s1 = "s\<lparr>stack := ?st\<rparr>"
  let ?s2 = "?s1\<lparr>tables := (tables s)(h \<mapsto> ?t)\<rparr>"
  let ?s3 = "?s2\<lparr>stack := ?st @ [TNil]\<rparr>"
  let ?s4 = "?s3\<lparr>tables := (tables ?s3)(h \<mapsto> seti ?t (int n) TNil), stack := ?st\<rparr>"
  have pk: "int_key pos" "int_key (int n)" using assms(4-6) by (simp_all add: int_key_def)
  have k: "int_key i \<and> int_key (i + 1)" if "pos \<le> i" "i \<le> int n - 1" for i using that assms(4-6) by (simp add: int_key_def)
  have inv: "table_inv t" using assms(7) by (simp add: int_room_def)
  have "nat (int n - 1 - pos + 1) \<le> n" using assms(5) by simp
  then have room: "int_room (nat (int n - 1 - pos + 1) + Suc 0) t" using assms(7) unfolding int_room_def by linarith
  note S = shifted_range [OF room, of 1 ?is, OF _ _ refl]
  have S1: "int_room (Suc 0) ?t" "other_keys ?t = other_keys t"
    "\<And>j. int_key j \<Longrightarrow> geti ?t j = (if pos \<le> j \<and> j \<le> int n - 1 then geti t (j + 1) else geti t j)"
    using S k by simp_all
  have "lua_rawgeti 1 pos s = Val () (s\<lparr>stack := stack s @ [geti t pos]\<rparr>)"
    by (rule rawgeti_run [OF index_value_arg [OF assms(1)] assms(2) inv pk(1)]) (use assms(1,8) in simp)
  then have "lua_rawgeti 1 pos s = Val () ?s1" using assms(1) by simp
  moreover have "int_room (length ?is) t" using room by (simp add: int_room_def)
  then have "move_down_loop ?is ?s1 = Val () ?s2"
    unfolding move_by using move_by_run [of ?s1 h "tl ?st" t ?is 1] k assms(2,8) by auto
  moreover have "lua_pushnil ?s2 = Val () ?s3" using assms(8) by (simp add: lua_pushnil_def push_run)
  moreover have "lua_rawseti 1 (int n) ?s3 = Val () ?s4"
    by (rule rawseti_run [OF _ index_value_arg _ S1(1) pk(2)]) simp_all
  ultimately have "tremove H C s = Val 1 ?s4"
    using aux_getn_run [OF assms(1-4), of H C] position_run(2) [OF assms(1) pk(1), of H C] assms(5,6)
    by (simp add: tremove_def bnd_def seq_def ret_def)
  moreover have "int_room 0 (seti ?t (int n) TNil)" "other_keys (seti ?t (int n) TNil) = other_keys t"
    "\<And>j. int_key j \<Longrightarrow> geti (seti ?t (int n) TNil) j = (if j = int n then TNil else geti ?t j)"
    using tables.room_store [OF S1(1) pk(2)] tables.rest_store [OF S1(1) pk(2)] tables.lookup_store [OF S1(1) pk(2)] S1(2) by simp_all
  ultimately show ?thesis
    using assms(5,6) S1(3) by (intro exI [of _ ?s4] exI [of _ "seti ?t (int n) TNil"]) (auto simp: int_room_def)
qed

theorem table_insert_shifts_witness:
  "\<exists>s' t'. tinsert sample_lib (\<lambda>_ _. undef) ((sample_frame [TTable 1, TNumber (cast_num 1), TBoolean True])\<lparr>tables := [1 \<mapsto> two_numbers]\<rparr>) = Val 0 s' \<and>
    tables s' 1 = Some t' \<and> [geti t' 1, geti t' 2, geti t' 3] = [TBoolean True, TNumber (cast_num 2), TNumber (cast_num 1)]"
proof -
  let ?s = "(sample_frame [TTable 1, TNumber (cast_num 1), TBoolean True])\<lparr>tables := [1 \<mapsto> two_numbers]\<rparr>"
  have "int_room (2 + 2) two_numbers" by (rule two_numbers_room) simp
  moreover have "luaH_getn two_numbers = Some 2" by (simp add: luaH_getn_def two_numbers_def new_table_def)
  moreover have "int_key 1" "int_key 2" "int_key 3" by (simp_all add: int_key_def)
  ultimately show ?thesis
    using table_insert_shifts [of ?s 1 1 "TBoolean True" two_numbers 2 sample_lib "\<lambda>_ _. undef"] two_numbers_geti
    by (fastforce simp: sample_frame_def LUA_MINSTACK_def)
qed

end
