(* ===== verification/Parser.thy ===== *)
theory Parser
  imports Codegen
begin

text \<open>
  The parser (\<open>lparser.c\<close>) below the grammar: tokens, local variables, upvalues, blocks and the
  functions that are compiled. The state has the function being compiled in two records, the one the
  code generator works on and \<open>FnState\<close>, and those that enclose it. Strings are values, so that
  keeping them from the garbage collector (\<open>anchor_token\<close>, \<open>luaX_newstring\<close>, the stack slots of
  \<open>open_func\<close>) has no counterpart. \<open>lua_assert\<close> checks nothing (\<open>llimits.h\<close>).
\<close>

unbundle bit_operations_syntax

section \<open>The state\<close>

record BlockCnt =
  breaklist :: int
  bl_nactvar :: int
  bl_upval :: bool
  isbreakable :: bool

text \<open>
  \<open>blocks\<close> is the chain \<open>bl\<close>, the innermost first. \<open>actvar i\<close> is \<open>None\<close> until it is written.
  \<open>upvals\<close> joins \<open>f->upvalues\<close> and \<open>upvalues\<close>: names and descriptors; it has \<open>f->nups\<close> elements.
\<close>

record FnState =
  blocks :: "BlockCnt list"
  locvars :: "LocVar list"
  actvar :: "int \<Rightarrow> nat option"
  upvals :: "(bytes \<times> expkind \<times> int) list"
  protos :: "Proto list"
  is_vararg :: u8
  numparams :: u8
  linedefined :: int
  lastlinedefined :: int

type_synonym level = "FuncState \<times> FnState"

record 'd parser = "'d compiler" +
  fn :: FnState
  enclosing :: "level list"
  nCcalls :: int

type_synonym ('d, 'a) parsing = "('d parser, 'a) prog"

text \<open>
  What a grammar function is called with: the rounds a loop may have, the parts of the host, and the
  two functions through which the grammar is recursive. \<open>kaddress\<close> is the address of the table of
  constants of a function.
\<close>

record ('s, 'h, 'd) grammar =
  fuel :: nat
  host :: "('s, 'h) host_scheme"
  reader :: "'d reader"
  arith :: arithmetic
  kaddress :: u64
  subexpr_rec :: "int \<Rightarrow> ('d, expdesc \<times> BinOpr) parsing"
  chunk_rec :: "('d, unit) parsing"

definition LUAI_MAXVARS :: int where "LUAI_MAXVARS = 200"
definition LUAI_MAXUPVALUES :: int where "LUAI_MAXUPVALUES = 60"
definition SHRT_MAX :: int where "SHRT_MAX = 2 ^ 15 - 1"

text \<open>A loop that has had its rounds, which is no status of Lua.\<close>

definition OUT_OF_ROUNDS :: int where "OUT_OF_ROUNDS = - 1"

text \<open>\<open>while (cond) body\<close>, with the variables of the loop passed along.\<close>

primrec loop :: "nat \<Rightarrow> ('a \<Rightarrow> ('s, bool) prog) \<Rightarrow> ('a \<Rightarrow> ('s, 'a) prog) \<Rightarrow> 'a \<Rightarrow> ('s, 'a) prog" where
  "loop 0 cond body a = raise OUT_OF_ROUNDS"
| "loop (Suc f) cond body a = bnd (cond a) (\<lambda>go. if go then bnd (body a) (loop f cond body) else ret a)"

abbreviation get_fn :: "(FnState \<Rightarrow> 'a) \<Rightarrow> ('d, 'a) parsing" where "get_fn g \<equiv> get (\<lambda>s. g (fn s))"
abbreviation upd_fn :: "(FnState \<Rightarrow> FnState) \<Rightarrow> ('d, unit) parsing" where "upd_fn g \<equiv> upd (\<lambda>s. s\<lparr>fn := g (fn s)\<rparr>)"

section \<open>Tokens\<close>

definition TK_AND :: int where "TK_AND = FIRST_RESERVED"
definition TK_BREAK :: int where "TK_BREAK = FIRST_RESERVED + 1"
definition TK_DO :: int where "TK_DO = FIRST_RESERVED + 2"
definition TK_ELSE :: int where "TK_ELSE = FIRST_RESERVED + 3"
definition TK_ELSEIF :: int where "TK_ELSEIF = FIRST_RESERVED + 4"
definition TK_END :: int where "TK_END = FIRST_RESERVED + 5"
definition TK_FALSE :: int where "TK_FALSE = FIRST_RESERVED + 6"
definition TK_FOR :: int where "TK_FOR = FIRST_RESERVED + 7"
definition TK_FUNCTION :: int where "TK_FUNCTION = FIRST_RESERVED + 8"
definition TK_IF :: int where "TK_IF = FIRST_RESERVED + 9"
definition TK_IN :: int where "TK_IN = FIRST_RESERVED + 10"
definition TK_LOCAL :: int where "TK_LOCAL = FIRST_RESERVED + 11"
definition TK_NIL :: int where "TK_NIL = FIRST_RESERVED + 12"
definition TK_NOT :: int where "TK_NOT = FIRST_RESERVED + 13"
definition TK_OR :: int where "TK_OR = FIRST_RESERVED + 14"
definition TK_REPEAT :: int where "TK_REPEAT = FIRST_RESERVED + 15"
definition TK_RETURN :: int where "TK_RETURN = FIRST_RESERVED + 16"
definition TK_THEN :: int where "TK_THEN = FIRST_RESERVED + 17"
definition TK_TRUE :: int where "TK_TRUE = FIRST_RESERVED + 18"
definition TK_UNTIL :: int where "TK_UNTIL = FIRST_RESERVED + 19"
definition TK_WHILE :: int where "TK_WHILE = FIRST_RESERVED + 20"

abbreviation sym :: "char \<Rightarrow> int" where "sym c \<equiv> char2int (chr c)"

abbreviation cur_token :: "('d, int) parsing" where "cur_token \<equiv> get (\<lambda>s. token (ls_t (ls s)))"

definition lex_next :: "('s, 'h, 'd) grammar \<Rightarrow> ('d, unit) parsing" where
  "lex_next G = in_lexer (luaX_next (fuel G) (host G) (reader G))"

text \<open>\<open>luaO_pushfstring\<close> makes the message; its characters are those of a C string.\<close>

definition as_string :: "bytes \<Rightarrow> string" where
  "as_string b = map (\<lambda>c. char_of (unat c)) b"

definition quoted :: "bytes \<Rightarrow> bytes" where
  "quoted b = [chr CHR 0x27] @ b @ [chr CHR 0x27]"

definition syntax_error :: "('s, 'h, 'd) grammar \<Rightarrow> bytes \<Rightarrow> ('d, 'a) parsing" where
  "syntax_error G msg = in_lexer (luaX_syntaxerror (host G) (as_string msg))"

definition error_expected :: "('s, 'h, 'd) grammar \<Rightarrow> int \<Rightarrow> ('d, 'a) parsing" where
  "error_expected G tok = syntax_error G (quoted (luaX_token2str (host G) tok) @ lit '' expected'')"

definition errorlimit :: "('s, 'h, 'd) grammar \<Rightarrow> int \<Rightarrow> string \<Rightarrow> ('d, 'a) parsing" where
  "errorlimit G limit what =
     bnd (get_fn linedefined) (\<lambda>line.
     let msg = (if line = 0 then lit ''main function has more than '' @ fmt_dec (host G) limit @ lit '' '' @ lit what
                else lit ''function at line '' @ fmt_dec (host G) line @ lit '' has more than '' @ fmt_dec (host G) limit
                       @ lit '' '' @ lit what)
     in in_lexer (luaX_lexerror (host G) (as_string msg) 0))"

definition luaY_checklimit :: "('s, 'h, 'd) grammar \<Rightarrow> int \<Rightarrow> int \<Rightarrow> string \<Rightarrow> ('d, unit) parsing" where
  "luaY_checklimit G v l m = (if l < v then errorlimit G l m else ret ())"

definition testnext :: "('s, 'h, 'd) grammar \<Rightarrow> int \<Rightarrow> ('d, bool) parsing" where
  "testnext G c = bnd cur_token (\<lambda>t. if t = c then seq (lex_next G) (ret True) else ret False)"

definition check :: "('s, 'h, 'd) grammar \<Rightarrow> int \<Rightarrow> ('d, unit) parsing" where
  "check G c = bnd cur_token (\<lambda>t. if t \<noteq> c then error_expected G c else ret ())"

definition checknext :: "('s, 'h, 'd) grammar \<Rightarrow> int \<Rightarrow> ('d, unit) parsing" where
  "checknext G c = seq (check G c) (lex_next G)"

definition check_condition :: "('s, 'h, 'd) grammar \<Rightarrow> bool \<Rightarrow> bytes \<Rightarrow> ('d, unit) parsing" where
  "check_condition G c msg = (if \<not> c then syntax_error G msg else ret ())"

definition check_match :: "('s, 'h, 'd) grammar \<Rightarrow> int \<Rightarrow> int \<Rightarrow> int \<Rightarrow> ('d, unit) parsing" where
  "check_match G what who wher =
     bnd (testnext G what) (\<lambda>ok.
       if ok then ret ()
       else bnd (get (\<lambda>s. linenumber (ls s))) (\<lambda>line.
         if wher = line then error_expected G what
         else syntax_error G (quoted (luaX_token2str (host G) what) @ lit '' expected (to close ''
                @ quoted (luaX_token2str (host G) who) @ lit '' at line '' @ fmt_dec (host G) wher @ lit '')'')))"

text \<open>The token's string, through the union \<open>seminfo\<close>.\<close>

definition token_string :: "('d, bytes) parsing" where
  "token_string = bnd (get (\<lambda>s. seminfo (ls_t (ls s)))) (\<lambda>i. case i of SString b \<Rightarrow> ret b | _ \<Rightarrow> undef)"

definition str_checkname :: "('s, 'h, 'd) grammar \<Rightarrow> ('d, bytes) parsing" where
  "str_checkname G = seq (check G TK_NAME) (bnd token_string (\<lambda>ts. seq (lex_next G) (ret ts)))"

text \<open>A new descriptor: \<open>aux\<close> and \<open>nval\<close>, which \<open>init_exp\<close> leaves alone, are not read before they are set.\<close>

definition init_exp :: "expkind \<Rightarrow> int \<Rightarrow> expdesc" where
  "init_exp k i = \<lparr>kind = k, info = i, aux = 0, nval = 0, et = NO_JUMP, ef = NO_JUMP\<rparr>"

definition hasmultret :: "expkind \<Rightarrow> bool" where
  "hasmultret k \<longleftrightarrow> k = VCALL \<or> k = VVARARG"

definition codestring :: "bytes \<Rightarrow> ('d, expdesc) parsing" where
  "codestring s = bnd (luaK_stringK s) (\<lambda>i. ret (init_exp VK i))"

definition checkname :: "('s, 'h, 'd) grammar \<Rightarrow> ('d, expdesc) parsing" where
  "checkname G = bnd (str_checkname G) codestring"

section \<open>Local variables\<close>

text \<open>The index in \<open>locvars\<close> of the \<open>i\<close>-th active variable.\<close>

definition locvar_of :: "FnState \<Rightarrow> int \<Rightarrow> nat option" where
  "locvar_of N i = (case actvar N i of Some j \<Rightarrow> if j < length (locvars N) then Some j else None | None \<Rightarrow> None)"

definition upd_locvar :: "int \<Rightarrow> (LocVar \<Rightarrow> LocVar) \<Rightarrow> ('d, unit) parsing" where
  "upd_locvar i g = bnd (get_fn (\<lambda>N. locvar_of N i)) (\<lambda>j. case j of
       Some j \<Rightarrow> upd_fn (\<lambda>N. N\<lparr>locvars := (locvars N)[j := g (locvars N ! j)]\<rparr>)
     | None \<Rightarrow> undef)"

text \<open>\<open>startpc\<close> and \<open>endpc\<close> are set later, when the variable becomes active and when it leaves its block.\<close>

definition registerlocalvar :: "bytes \<Rightarrow> ('d, nat) parsing" where
  "registerlocalvar name =
     bnd (get_fn (\<lambda>N. length (locvars N))) (\<lambda>n.
       if SHRT_MAX \<le> int n then raise LUA_ERRRUN
       else seq (upd_fn (\<lambda>N. N\<lparr>locvars := locvars N @ [\<lparr>varname = Some name, startpc = 0, endpc = 0\<rparr>]\<rparr>)) (ret n))"

definition new_localvar :: "('s, 'h, 'd) grammar \<Rightarrow> bytes \<Rightarrow> int \<Rightarrow> ('d, unit) parsing" where
  "new_localvar G name n =
     bnd (get_fs nactvar) (\<lambda>act.
     seq (luaY_checklimit G (act + n + 1) LUAI_MAXVARS ''local variables'')
     (bnd (registerlocalvar name) (\<lambda>j. upd_fn (\<lambda>N. N\<lparr>actvar := (actvar N)(act + n \<mapsto> j)\<rparr>))))"

definition adjustlocalvars :: "int \<Rightarrow> ('d, unit) parsing" where
  "adjustlocalvars nvars =
     seq (upd_fs (\<lambda>F. F\<lparr>nactvar := (nactvar F + nvars) mod 256\<rparr>))
     (bnd (get fs) (\<lambda>F. steps (map (\<lambda>i. upd_locvar i (\<lambda>v. v\<lparr>startpc := pc F\<rparr>)) [nactvar F - nvars .. nactvar F - 1])))"

definition removevars :: "int \<Rightarrow> ('d, unit) parsing" where
  "removevars tolevel =
     bnd (get fs) (\<lambda>F. steps (map (\<lambda>i. seq (upd_fs (\<lambda>F. F\<lparr>nactvar := i\<rparr>)) (upd_locvar i (\<lambda>v. v\<lparr>endpc := pc F\<rparr>)))
       (rev [tolevel .. nactvar F - 1])))"

section \<open>Names\<close>

text \<open>The last variable of that name among the first \<open>k\<close>, or -1.\<close>

primrec search_from :: "nat \<Rightarrow> bytes \<Rightarrow> ('d, int) parsing" where
  "search_from 0 n = ret (- 1)"
| "search_from (Suc k) n = bnd (get fn) (\<lambda>N. case locvar_of N (int k) of
       Some j \<Rightarrow> if varname (locvars N ! j) = Some n then ret (int k) else search_from k n
     | None \<Rightarrow> undef)"

definition searchvar :: "bytes \<Rightarrow> ('d, int) parsing" where
  "searchvar n = bnd (get_fs nactvar) (\<lambda>k. search_from (nat k) n)"

fun mark_block :: "int \<Rightarrow> BlockCnt list \<Rightarrow> BlockCnt list" where
  "mark_block lev [] = []"
| "mark_block lev (b # bs) = (if lev < bl_nactvar b then b # mark_block lev bs else b\<lparr>bl_upval := True\<rparr> # bs)"

definition markupval :: "int \<Rightarrow> ('d, unit) parsing" where
  "markupval lev = upd_fn (\<lambda>N. N\<lparr>blocks := mark_block lev (blocks N)\<rparr>)"

fun upvalue_index :: "expkind \<Rightarrow> int \<Rightarrow> (bytes \<times> expkind \<times> int) list \<Rightarrow> nat option" where
  "upvalue_index k i [] = None"
| "upvalue_index k i ((_, k', i') # us) = (if k' = k \<and> i' = i then Some 0 else map_option Suc (upvalue_index k i us))"

definition indexupvalue :: "('s, 'h, 'd) grammar \<Rightarrow> bytes \<Rightarrow> expkind \<Rightarrow> int \<Rightarrow> ('d, int) parsing" where
  "indexupvalue G name k i =
     bnd (get_fn upvals) (\<lambda>us. case upvalue_index k i us of
       Some j \<Rightarrow> ret (int j)
     | None \<Rightarrow>
         seq (luaY_checklimit G (int (length us) + 1) LUAI_MAXUPVALUES ''upvalues'')
         (seq (upd_fn (\<lambda>N. N\<lparr>upvals := us @ [(name, k, i mod 256)]\<rparr>)) (ret (int (length us)))))"

text \<open>\<open>m\<close> with the enclosing function in place of the current one.\<close>

definition outside :: "('d, 'a) parsing \<Rightarrow> ('d, 'a) parsing" where
  "outside m = bnd (get (\<lambda>s. (fs s, fn s, enclosing s))) (\<lambda>(F, N, es). case es of
       (F', N') # es' \<Rightarrow>
         seq (upd (\<lambda>s. s\<lparr>fs := F', fn := N', enclosing := es'\<rparr>))
         (bnd m (\<lambda>a. bnd (get (\<lambda>s. (fs s, fn s) # enclosing s)) (\<lambda>es.
           seq (upd (\<lambda>s. s\<lparr>fs := F, fn := N, enclosing := es\<rparr>)) (ret a))))
     | [] \<Rightarrow> undef)"

text \<open>\<open>k\<close> levels enclose the current one.\<close>

primrec singlevaraux :: "nat \<Rightarrow> ('s, 'h, 'd) grammar \<Rightarrow> bytes \<Rightarrow> bool \<Rightarrow> ('d, expdesc) parsing" where
  "singlevaraux 0 G n base =
     bnd (searchvar n) (\<lambda>v. if 0 \<le> v then seq (if \<not> base then markupval v else ret ()) (ret (init_exp VLOCAL v))
       else ret (init_exp VGLOBAL NO_REG))"
| "singlevaraux (Suc k) G n base =
     bnd (searchvar n) (\<lambda>v. if 0 \<le> v then seq (if \<not> base then markupval v else ret ()) (ret (init_exp VLOCAL v))
       else bnd (outside (singlevaraux k G n False)) (\<lambda>var.
         if kind var = VGLOBAL then ret var
         else bnd (indexupvalue G n (kind var) (info var)) (\<lambda>i. ret (var\<lparr>info := i, kind := VUPVAL\<rparr>))))"

definition singlevar :: "('s, 'h, 'd) grammar \<Rightarrow> ('d, expdesc) parsing" where
  "singlevar G =
     bnd (str_checkname G) (\<lambda>name.
     bnd (get (\<lambda>s. length (enclosing s))) (\<lambda>k.
     bnd (singlevaraux k G name True) (\<lambda>var.
       if kind var = VGLOBAL then bnd (luaK_stringK name) (\<lambda>i. ret (var\<lparr>info := i\<rparr>)) else ret var)))"

definition adjust_assign :: "('s, 'h, 'd) grammar \<Rightarrow> int \<Rightarrow> int \<Rightarrow> expdesc \<Rightarrow> ('d, unit) parsing" where
  "adjust_assign G nvars nexps e =
     (let extra = nvars - nexps
      in if hasmultret (kind e) then
           let extra = max 0 (extra + 1)
           in seq (luaK_setreturns (host G) e extra) (if 1 < extra then luaK_reserveregs (host G) (extra - 1) else ret ())
         else
           seq (if kind e \<noteq> VVOID then bnd (luaK_exp2nextreg (host G) e) (\<lambda>_. ret ()) else ret ())
             (if 0 < extra then
                bnd (get_fs freereg) (\<lambda>reg. seq (luaK_reserveregs (host G) extra) (luaK_nil (host G) reg extra))
              else ret ()))"

section \<open>Levels, blocks and functions\<close>

definition enterlevel :: "('s, 'h, 'd) grammar \<Rightarrow> ('d, unit) parsing" where
  "enterlevel G =
     seq (upd (\<lambda>s. s\<lparr>nCcalls := nCcalls s + 1\<rparr>))
     (bnd (get nCcalls) (\<lambda>n.
       if int LUAI_MAXCCALLS < n then in_lexer (luaX_lexerror (host G) ''chunk has too many syntax levels'' 0) else ret ()))"

definition leavelevel :: "('d, unit) parsing" where
  "leavelevel = upd (\<lambda>s. s\<lparr>nCcalls := nCcalls s - 1\<rparr>)"

definition enterblock :: "bool \<Rightarrow> ('d, unit) parsing" where
  "enterblock breakable =
     bnd (get_fs nactvar) (\<lambda>n. upd_fn (\<lambda>N. N\<lparr>blocks :=
       \<lparr>breaklist = NO_JUMP, bl_nactvar = n, bl_upval = False, isbreakable = breakable\<rparr> # blocks N\<rparr>))"

definition leaveblock :: "('s, 'h, 'd) grammar \<Rightarrow> ('d, unit) parsing" where
  "leaveblock G =
     bnd (get_fn blocks) (\<lambda>bs. case bs of
       [] \<Rightarrow> undef
     | b # bs \<Rightarrow>
         seq (upd_fn (\<lambda>N. N\<lparr>blocks := bs\<rparr>))
         (seq (removevars (bl_nactvar b))
         (seq (if bl_upval b then bnd (luaK_codeABC (host G) OP_CLOSE (bl_nactvar b) 0 0) (\<lambda>_. ret ()) else ret ())
         (seq (upd_fs (\<lambda>F. F\<lparr>freereg := nactvar F\<rparr>))
           (luaK_patchtohere (host G) (breaklist b))))))"

definition pushclosure :: "('s, 'h, 'd) grammar \<Rightarrow> Proto \<Rightarrow> (bytes \<times> expkind \<times> int) list \<Rightarrow> ('d, expdesc) parsing" where
  "pushclosure G f us =
     bnd (get_fn (\<lambda>N. length (protos N))) (\<lambda>np.
       if MAXARG_Bx \<le> int np then raise LUA_ERRRUN
       else seq (upd_fn (\<lambda>N. N\<lparr>protos := protos N @ [f]\<rparr>))
         (bnd (luaK_codeABx (host G) OP_CLOSURE 0 (int np)) (\<lambda>i.
         seq (steps (map (\<lambda>(_, k, j).
                bnd (luaK_codeABC (host G) (if k = VLOCAL then OP_MOVE else OP_GETUPVAL) 0 j 0) (\<lambda>_. ret ())) us))
           (ret (init_exp VRELOCABLE i)))))"

definition new_FuncState :: "u64 \<Rightarrow> FuncState" where
  "new_FuncState t = \<lparr>code = [], lineinfo = [], ktab = [], maxstacksize = 2, h = [], h_addr = t, lasttarget = - 1,
     jpc = NO_JUMP, freereg = 0, nactvar = 0\<rparr>"

definition new_FnState :: FnState where
  "new_FnState = \<lparr>blocks = [], locvars = [], actvar = (\<lambda>_. None), upvals = [], protos = [], is_vararg = 0,
     numparams = 0, linedefined = 0, lastlinedefined = 0\<rparr>"

text \<open>\<open>prev\<close>: the levels that enclose the new function. The limit of the Lua stack is not modelled.\<close>

definition open_func :: "('s, 'h, 'd) grammar \<Rightarrow> level list \<Rightarrow> ('d, unit) parsing" where
  "open_func G prev = upd (\<lambda>s. s\<lparr>fs := new_FuncState (kaddress G), fn := new_FnState, enclosing := prev\<rparr>)"

definition proto_of :: "string \<Rightarrow> FuncState \<Rightarrow> FnState \<Rightarrow> Proto" where
  "proto_of src F N =
     Proto (ktab F) (code F) (protos N) (lineinfo F) (locvars N) (map (\<lambda>(n, _). Some n) (upvals N)) (Some (lit src))
       (linedefined N) (lastlinedefined N) (of_nat (length (upvals N))) (numparams N) (is_vararg N)
       (word_of_int (maxstacksize F))"

text \<open>The function that is closed, and its upvalues.\<close>

definition close_func :: "('s, 'h, 'd) grammar \<Rightarrow> ('d, Proto \<times> (bytes \<times> expkind \<times> int) list) parsing" where
  "close_func G =
     seq (removevars 0)
     (seq (luaK_ret (host G) 0 0)
     (bnd (get (\<lambda>s. (proto_of (ls_source (ls s)) (fs s) (fn s), upvals (fn s)))) (\<lambda>closed.
      seq (upd (\<lambda>s. case enclosing s of (F, N) # es \<Rightarrow> s\<lparr>fs := F, fn := N, enclosing := es\<rparr> | [] \<Rightarrow> s)) (ret closed))))"

end
