(* ===== verification/Grammar.thy ===== *)
theory Grammar
  imports Parser
begin

text \<open>
  The grammar rules of \<open>lparser.c\<close>. A rule calls \<open>subexpr\<close> and \<open>chunk\<close> through \<open>G\<close>; \<open>rules\<close> ties
  the knot, to the depth at which \<open>enterlevel\<close> raises its error. A descriptor that a rule fills is
  its result.
\<close>

section \<open>Expressions\<close>

definition expr :: "('s, 'h, 'd) grammar \<Rightarrow> ('d, expdesc) parsing" where
  "expr G = bnd (subexpr_rec G 0) (\<lambda>(e, _). ret e)"

definition field :: "('s, 'h, 'd) grammar \<Rightarrow> expdesc \<Rightarrow> ('d, expdesc) parsing" where
  "field G v =
     bnd (luaK_exp2anyreg (host G) v) (\<lambda>v.
     seq (lex_next G)
     (bnd (checkname G) (\<lambda>key. luaK_indexed (host G) v key)))"

definition yindex :: "('s, 'h, 'd) grammar \<Rightarrow> ('d, expdesc) parsing" where
  "yindex G =
     seq (lex_next G)
     (bnd (expr G) (\<lambda>v. bnd (luaK_exp2val (host G) v) (\<lambda>v. seq (checknext G (sym CHR '']'')) (ret v))))"

subsection \<open>Constructors\<close>

text \<open>The register of the table, \<open>cc->t\<close>, is passed along.\<close>

record ConsControl =
  cc_v :: expdesc
  cc_nh :: int
  cc_na :: int
  cc_tostore :: int

definition recfield :: "('s, 'h, 'd) grammar \<Rightarrow> int \<Rightarrow> ConsControl \<Rightarrow> ('d, ConsControl) parsing" where
  "recfield G t cc =
     bnd (get_fs freereg) (\<lambda>reg.
     bnd cur_token (\<lambda>tok.
     bnd (if tok = TK_NAME then
            seq (luaY_checklimit G (cc_nh cc) MAX_INT ''items in a constructor'') (checkname G)
          else yindex G) (\<lambda>key.
     seq (checknext G (sym CHR ''=''))
     (bnd (luaK_exp2RK (host G) key) (\<lambda>(_, rkkey).
      bnd (expr G) (\<lambda>val.
      bnd (luaK_exp2RK (host G) val) (\<lambda>(_, rkval).
      bnd (luaK_codeABC (host G) OP_SETTABLE t rkkey rkval) (\<lambda>_.
      seq (upd_fs (\<lambda>F. F\<lparr>freereg := reg\<rparr>)) (ret (cc\<lparr>cc_nh := cc_nh cc + 1\<rparr>))))))))))"

definition closelistfield :: "('s, 'h, 'd) grammar \<Rightarrow> int \<Rightarrow> ConsControl \<Rightarrow> ('d, ConsControl) parsing" where
  "closelistfield G t cc =
     (if kind (cc_v cc) = VVOID then ret cc
      else bnd (luaK_exp2nextreg (host G) (cc_v cc)) (\<lambda>v.
        let cc = cc\<lparr>cc_v := v\<lparr>kind := VVOID\<rparr>\<rparr>
        in if cc_tostore cc = LFIELDS_PER_FLUSH then
             seq (luaK_setlist (host G) t (cc_na cc) (cc_tostore cc)) (ret (cc\<lparr>cc_tostore := 0\<rparr>))
           else ret cc))"

definition lastlistfield :: "('s, 'h, 'd) grammar \<Rightarrow> int \<Rightarrow> ConsControl \<Rightarrow> ('d, ConsControl) parsing" where
  "lastlistfield G t cc =
     (if cc_tostore cc = 0 then ret cc
      else if hasmultret (kind (cc_v cc)) then
        seq (luaK_setreturns (host G) (cc_v cc) LUA_MULTRET)
          (seq (luaK_setlist (host G) t (cc_na cc) LUA_MULTRET) (ret (cc\<lparr>cc_na := cc_na cc - 1\<rparr>)))
      else
        bnd (if kind (cc_v cc) \<noteq> VVOID then luaK_exp2nextreg (host G) (cc_v cc) else ret (cc_v cc)) (\<lambda>v.
        seq (luaK_setlist (host G) t (cc_na cc) (cc_tostore cc)) (ret (cc\<lparr>cc_v := v\<rparr>))))"

definition listfield :: "('s, 'h, 'd) grammar \<Rightarrow> ConsControl \<Rightarrow> ('d, ConsControl) parsing" where
  "listfield G cc =
     bnd (expr G) (\<lambda>v.
     seq (luaY_checklimit G (cc_na cc) MAX_INT ''items in a constructor'')
       (ret (cc\<lparr>cc_v := v, cc_na := cc_na cc + 1, cc_tostore := cc_tostore cc + 1\<rparr>)))"

text \<open>One pass of the loop; \<open>True\<close>: the loop is left by \<open>break\<close>.\<close>

definition constructor_item :: "('s, 'h, 'd) grammar \<Rightarrow> int \<Rightarrow> ConsControl \<times> bool \<Rightarrow> ('d, ConsControl \<times> bool) parsing" where
  "constructor_item G t = (\<lambda>(cc, _).
     bnd cur_token (\<lambda>tok.
       if tok = sym CHR ''}'' then ret (cc, True)
       else bnd (closelistfield G t cc) (\<lambda>cc.
         bnd (if tok = TK_NAME then
                seq (in_lexer (luaX_lookahead (fuel G) (host G) (reader G)))
                (bnd (get (\<lambda>s. token (ls_ahead (ls s)))) (\<lambda>nxt.
                  if nxt \<noteq> sym CHR ''='' then listfield G cc else recfield G t cc))
              else if tok = sym CHR ''['' then recfield G t cc
              else listfield G cc) (\<lambda>cc. ret (cc, False)))))"

definition constructor_more :: "('s, 'h, 'd) grammar \<Rightarrow> ConsControl \<times> bool \<Rightarrow> ('d, bool) parsing" where
  "constructor_more G = (\<lambda>(_, stop).
     if stop then ret False
     else bnd (testnext G (sym CHR '','')) (\<lambda>comma. if comma then ret True else testnext G (sym CHR '';'')))"

definition constructor :: "('s, 'h, 'd) grammar \<Rightarrow> ('d, expdesc) parsing" where
  "constructor G =
     bnd (get (\<lambda>s. linenumber (ls s))) (\<lambda>line.
     bnd (luaK_codeABC (host G) OP_NEWTABLE 0 0 0) (\<lambda>p.
     bnd (luaK_exp2nextreg (host G) (init_exp VRELOCABLE p)) (\<lambda>t.
     seq (checknext G (sym CHR ''{''))
     (bnd (constructor_item G (info t) (\<lparr>cc_v = init_exp VVOID 0, cc_nh = 0, cc_na = 0, cc_tostore = 0\<rparr>, False)) (\<lambda>c.
      bnd (loop (fuel G) (constructor_more G) (constructor_item G (info t)) c) (\<lambda>(cc, _).
      seq (check_match G (sym CHR ''}'') (sym CHR ''{'') line)
      (bnd (lastlistfield G (info t) cc) (\<lambda>cc.
       bnd (read_code p) (\<lambda>i.
       seq (write_code p (SETARG_B i (luaO_int2fb (word_of_int (cc_na cc)))))
       (bnd (read_code p) (\<lambda>i.
       seq (write_code p (SETARG_C i (luaO_int2fb (word_of_int (cc_nh cc)))))
         (ret t))))))))))))"

subsection \<open>Functions\<close>

text \<open>A parameter. The state of the loop is \<open>nparams\<close>.\<close>

definition param :: "('s, 'h, 'd) grammar \<Rightarrow> int \<Rightarrow> ('d, int) parsing" where
  "param G nparams =
     bnd cur_token (\<lambda>tok.
       if tok = TK_NAME then
         bnd (str_checkname G) (\<lambda>n. seq (new_localvar G n nparams) (ret (nparams + 1)))
       else if tok = TK_DOTS then
         seq (lex_next G)
         (seq (new_localvar G (lit ''arg'') nparams)
         (seq (upd_fn (\<lambda>N. N\<lparr>is_vararg := VARARG_HASARG OR VARARG_NEEDSARG\<rparr>))
         (seq (upd_fn (\<lambda>N. N\<lparr>is_vararg := is_vararg N OR VARARG_ISVARARG\<rparr>))
           (ret (nparams + 1)))))
       else syntax_error G (lit ''<name> or '' @ quoted (lit ''...'') @ lit '' expected''))"

definition param_more :: "('s, 'h, 'd) grammar \<Rightarrow> int \<Rightarrow> ('d, bool) parsing" where
  "param_more G _ = bnd (get_fn is_vararg) (\<lambda>v. if v = 0 then testnext G (sym CHR '','') else ret False)"

definition parlist :: "('s, 'h, 'd) grammar \<Rightarrow> ('d, unit) parsing" where
  "parlist G =
     seq (upd_fn (\<lambda>N. N\<lparr>is_vararg := 0\<rparr>))
     (bnd cur_token (\<lambda>tok.
      bnd (if tok \<noteq> sym CHR '')'' then bnd (param G 0) (loop (fuel G) (param_more G) (param G)) else ret 0) (\<lambda>nparams.
      seq (adjustlocalvars nparams)
      (bnd (get_fs nactvar) (\<lambda>n.
       seq (upd_fn (\<lambda>N. N\<lparr>numparams := word_of_int (n - uint (is_vararg N AND VARARG_HASARG))\<rparr>))
         (luaK_reserveregs (host G) n))))))"

definition body :: "('s, 'h, 'd) grammar \<Rightarrow> bool \<Rightarrow> int \<Rightarrow> ('d, expdesc) parsing" where
  "body G needself line =
     seq (bnd (get (\<lambda>s. (fs s, fn s) # enclosing s)) (open_func G))
     (seq (upd_fn (\<lambda>N. N\<lparr>linedefined := line\<rparr>))
     (seq (checknext G (sym CHR ''(''))
     (seq (if needself then seq (new_localvar G (lit ''self'') 0) (adjustlocalvars 1) else ret ())
     (seq (parlist G)
     (seq (checknext G (sym CHR '')''))
     (seq (chunk_rec G)
     (seq (bnd (get (\<lambda>s. linenumber (ls s))) (\<lambda>l. upd_fn (\<lambda>N. N\<lparr>lastlinedefined := l\<rparr>)))
     (seq (check_match G TK_END TK_FUNCTION line)
     (bnd (close_func G) (\<lambda>(f, us). pushclosure G f us))))))))))"

definition explist1 :: "('s, 'h, 'd) grammar \<Rightarrow> ('d, int \<times> expdesc) parsing" where
  "explist1 G =
     bnd (expr G) (\<lambda>v.
     loop (fuel G) (\<lambda>_. testnext G (sym CHR '',''))
       (\<lambda>(n, v). bnd (luaK_exp2nextreg (host G) v) (\<lambda>_. bnd (expr G) (\<lambda>v. ret (n + 1, v)))) (1, v))"

definition args :: "('s, 'h, 'd) grammar \<Rightarrow> int \<Rightarrow> ('d, expdesc) parsing" where
  "args G line =
     bnd cur_token (\<lambda>tok.
       if tok = sym CHR ''('' then
         bnd (get (\<lambda>s. lastline (ls s))) (\<lambda>last_line.
         seq (if line \<noteq> last_line then syntax_error G (lit ''ambiguous syntax (function call x new statement)'') else ret ())
         (seq (lex_next G)
         (bnd cur_token (\<lambda>tok.
          bnd (if tok = sym CHR '')'' then ret (init_exp VVOID 0)
               else bnd (explist1 G) (\<lambda>(_, v). seq (luaK_setreturns (host G) v LUA_MULTRET) (ret v))) (\<lambda>v.
          seq (check_match G (sym CHR '')'') (sym CHR ''('') line) (ret v))))))
       else if tok = sym CHR ''{'' then constructor G
       else if tok = TK_STRING then
         bnd token_string (\<lambda>s. bnd (codestring s) (\<lambda>v. seq (lex_next G) (ret v)))
       else syntax_error G (lit ''function arguments expected''))"

definition funcargs :: "('s, 'h, 'd) grammar \<Rightarrow> expdesc \<Rightarrow> ('d, expdesc) parsing" where
  "funcargs G f =
     bnd (get (\<lambda>s. linenumber (ls s))) (\<lambda>line.
     bnd (args G line) (\<lambda>v.
     let base = info f in
     bnd (if hasmultret (kind v) then ret LUA_MULTRET
          else seq (if kind v \<noteq> VVOID then bnd (luaK_exp2nextreg (host G) v) (\<lambda>_. ret ()) else ret ())
            (get_fs (\<lambda>F. freereg F - (base + 1)))) (\<lambda>nparams.
     bnd (luaK_codeABC (host G) OP_CALL base (nparams + 1) 2) (\<lambda>i.
     seq (luaK_fixline line)
     (seq (upd_fs (\<lambda>F. F\<lparr>freereg := base + 1\<rparr>)) (ret (init_exp VCALL i)))))))"

subsection \<open>Operands and operators\<close>

definition prefixexp :: "('s, 'h, 'd) grammar \<Rightarrow> ('d, expdesc) parsing" where
  "prefixexp G =
     bnd cur_token (\<lambda>tok.
       if tok = sym CHR ''('' then
         bnd (get (\<lambda>s. linenumber (ls s))) (\<lambda>line.
         seq (lex_next G)
         (bnd (expr G) (\<lambda>v. seq (check_match G (sym CHR '')'') (sym CHR ''('') line) (luaK_dischargevars (host G) v))))
       else if tok = TK_NAME then singlevar G
       else syntax_error G (lit ''unexpected symbol''))"

definition suffix_tokens :: "int set" where
  "suffix_tokens = {sym CHR ''.'', sym CHR ''['', sym CHR '':'', sym CHR ''('', TK_STRING, sym CHR ''{''}"

definition suffixexp :: "('s, 'h, 'd) grammar \<Rightarrow> expdesc \<Rightarrow> ('d, expdesc) parsing" where
  "suffixexp G v =
     bnd cur_token (\<lambda>tok.
       if tok = sym CHR ''.'' then field G v
       else if tok = sym CHR ''['' then
         bnd (luaK_exp2anyreg (host G) v) (\<lambda>v. bnd (yindex G) (\<lambda>key. luaK_indexed (host G) v key))
       else if tok = sym CHR '':'' then
         seq (lex_next G)
         (bnd (checkname G) (\<lambda>key. bnd (luaK_self (host G) v key) (\<lambda>v. funcargs G v)))
       else bnd (luaK_exp2nextreg (host G) v) (\<lambda>v. funcargs G v))"

definition primaryexp :: "('s, 'h, 'd) grammar \<Rightarrow> ('d, expdesc) parsing" where
  "primaryexp G =
     bnd (prefixexp G) (loop (fuel G) (\<lambda>_. bnd cur_token (\<lambda>tok. ret (tok \<in> suffix_tokens))) (suffixexp G))"

definition simpleexp :: "('s, 'h, 'd) grammar \<Rightarrow> ('d, expdesc) parsing" where
  "simpleexp G =
     bnd cur_token (\<lambda>tok.
     let operand = (\<lambda>v. seq (lex_next G) (ret v)) in
       if tok = TK_NUMBER then
         bnd (get (\<lambda>s. seminfo (ls_t (ls s)))) (\<lambda>i. case i of
           SNumber r \<Rightarrow> operand ((init_exp VKNUM 0)\<lparr>nval := r\<rparr>) | _ \<Rightarrow> undef)
       else if tok = TK_STRING then bnd token_string (\<lambda>s. bnd (codestring s) operand)
       else if tok = TK_NIL then operand (init_exp VNIL 0)
       else if tok = TK_TRUE then operand (init_exp VTRUE 0)
       else if tok = TK_FALSE then operand (init_exp VFALSE 0)
       else if tok = TK_DOTS then
         bnd (get_fn is_vararg) (\<lambda>va.
         seq (check_condition G (va \<noteq> 0) (lit ''cannot use '' @ quoted (lit ''...'') @ lit '' outside a vararg function''))
         (seq (upd_fn (\<lambda>N. N\<lparr>is_vararg := is_vararg N AND NOT VARARG_NEEDSARG\<rparr>))
         (bnd (luaK_codeABC (host G) OP_VARARG 0 1 0) (\<lambda>i. operand (init_exp VVARARG i)))))
       else if tok = sym CHR ''{'' then constructor G
       else if tok = TK_FUNCTION then
         seq (lex_next G) (bnd (get (\<lambda>s. linenumber (ls s))) (body G False))
       else primaryexp G)"

definition getunopr :: "int \<Rightarrow> UnOpr" where
  "getunopr op =
     (if op = TK_NOT then OPR_NOT else if op = sym CHR ''-'' then OPR_MINUS else if op = sym CHR ''#'' then OPR_LEN
      else OPR_NOUNOPR)"

definition binary :: "(int \<times> BinOpr) list" where
  "binary = [(sym CHR ''+'', OPR_ADD), (sym CHR ''-'', OPR_SUB), (sym CHR ''*'', OPR_MUL), (sym CHR ''/'', OPR_DIV),
     (sym CHR ''%'', OPR_MOD), (sym CHR ''^'', OPR_POW), (TK_CONCAT, OPR_CONCAT), (TK_NE, OPR_NE), (TK_EQ, OPR_EQ),
     (sym CHR ''<'', OPR_LT), (TK_LE, OPR_LE), (sym CHR ''>'', OPR_GT), (TK_GE, OPR_GE), (TK_AND, OPR_AND), (TK_OR, OPR_OR)]"

definition getbinopr :: "int \<Rightarrow> BinOpr" where
  "getbinopr op = (case map_of binary op of Some b \<Rightarrow> b | None \<Rightarrow> OPR_NOBINOPR)"

text \<open>The left and the right priority.\<close>

fun priority :: "BinOpr \<Rightarrow> int \<times> int" where
  "priority OPR_ADD = (6, 6)" | "priority OPR_SUB = (6, 6)"
| "priority OPR_MUL = (7, 7)" | "priority OPR_DIV = (7, 7)" | "priority OPR_MOD = (7, 7)"
| "priority OPR_POW = (10, 9)" | "priority OPR_CONCAT = (5, 4)"
| "priority OPR_NE = (3, 3)" | "priority OPR_EQ = (3, 3)"
| "priority OPR_LT = (3, 3)" | "priority OPR_LE = (3, 3)" | "priority OPR_GT = (3, 3)" | "priority OPR_GE = (3, 3)"
| "priority OPR_AND = (2, 2)" | "priority OPR_OR = (1, 1)"
| "priority OPR_NOBINOPR = (0, 0)"

definition UNARY_PRIORITY :: int where "UNARY_PRIORITY = 8"

text \<open>The state of the loop is the expression so far and the operator that follows it.\<close>

definition subexpr :: "('s, 'h, 'd) grammar \<Rightarrow> int \<Rightarrow> ('d, expdesc \<times> BinOpr) parsing" where
  "subexpr G limit =
     seq (enterlevel G)
     (bnd cur_token (\<lambda>tok.
      let uop = getunopr tok in
      bnd (if uop \<noteq> OPR_NOUNOPR then
             seq (lex_next G)
             (bnd (subexpr_rec G UNARY_PRIORITY) (\<lambda>(v, _). luaK_prefix (arith G) (host G) uop v))
           else simpleexp G) (\<lambda>v.
      bnd cur_token (\<lambda>tok.
      bnd (loop (fuel G) (\<lambda>(v, op). ret (op \<noteq> OPR_NOBINOPR \<and> limit < fst (priority op)))
             (\<lambda>(v, op).
               seq (lex_next G)
               (bnd (luaK_infix (host G) op v) (\<lambda>v.
                bnd (subexpr_rec G (snd (priority op))) (\<lambda>(v2, nextop).
                bnd (luaK_posfix (arith G) (host G) op v v2) (\<lambda>v. ret (v, nextop))))))
             (v, getbinopr tok)) (\<lambda>r.
      seq leavelevel (ret r))))))"

section \<open>Statements\<close>

definition block_follow :: "int \<Rightarrow> bool" where
  "block_follow tok \<longleftrightarrow> tok \<in> {TK_ELSE, TK_ELSEIF, TK_END, TK_UNTIL, TK_EOS}"

definition block :: "('s, 'h, 'd) grammar \<Rightarrow> ('d, unit) parsing" where
  "block G = steps [enterblock False, chunk_rec G, leaveblock G]"

subsection \<open>Assignments\<close>

text \<open>The variables on the left, the last one first: the chain \<open>prev\<close>.\<close>

definition conflicts :: "expdesc \<Rightarrow> expdesc \<Rightarrow> bool" where
  "conflicts v lh \<longleftrightarrow> kind lh = VINDEXED \<and> (info lh = info v \<or> aux lh = info v)"

definition use_copy :: "int \<Rightarrow> expdesc \<Rightarrow> expdesc \<Rightarrow> expdesc" where
  "use_copy extra v lh =
     (if kind lh = VINDEXED then
        lh\<lparr>info := (if info lh = info v then extra else info lh), aux := (if aux lh = info v then extra else aux lh)\<rparr>
      else lh)"

definition check_conflict :: "('s, 'h, 'd) grammar \<Rightarrow> expdesc list \<Rightarrow> expdesc \<Rightarrow> ('d, expdesc list) parsing" where
  "check_conflict G lhs v =
     bnd (get_fs freereg) (\<lambda>extra.
     seq (if list_ex (conflicts v) lhs then
            bnd (luaK_codeABC (host G) OP_MOVE extra (info v) 0) (\<lambda>_. luaK_reserveregs (host G) 1)
          else ret ())
       (ret (map (use_copy extra v) lhs)))"

text \<open>The default assignment, from the last register.\<close>

definition assign_last :: "('s, 'h, 'd) grammar \<Rightarrow> expdesc \<Rightarrow> ('d, unit) parsing" where
  "assign_last G lh = bnd (get_fs freereg) (\<lambda>r. luaK_storevar (host G) lh (init_exp VNONRELOC (r - 1)))"

text \<open>The result is the chain of the variables before this one, which a conflict may have changed.\<close>

primrec assignment :: "nat \<Rightarrow> ('s, 'h, 'd) grammar \<Rightarrow> expdesc \<Rightarrow> expdesc list \<Rightarrow> int \<Rightarrow> ('d, expdesc list) parsing" where
  "assignment 0 G lh prev nvars = raise OUT_OF_ROUNDS"
| "assignment (Suc f) G lh prev nvars =
     seq (check_condition G (kind lh \<in> {VLOCAL, VUPVAL, VGLOBAL, VINDEXED}) (lit ''syntax error''))
     (bnd (testnext G (sym CHR '','')) (\<lambda>comma.
       if comma then
         bnd (primaryexp G) (\<lambda>nv.
         bnd (if kind nv = VLOCAL then check_conflict G (lh # prev) nv else ret (lh # prev)) (\<lambda>chain.
         bnd (get nCcalls) (\<lambda>n.
         seq (luaY_checklimit G nvars (int LUAI_MAXCCALLS - n) ''variables in assignment'')
         (bnd (assignment f G nv chain (nvars + 1)) (\<lambda>chain.
          seq (assign_last G (hd chain)) (ret (tl chain)))))))
       else
         seq (checknext G (sym CHR ''=''))
         (bnd (explist1 G) (\<lambda>(nexps, e).
           seq (if nexps \<noteq> nvars then
                  seq (adjust_assign G nvars nexps e)
                  (seq (if nvars < nexps then upd_fs (\<lambda>F. F\<lparr>freereg := freereg F - (nexps - nvars)\<rparr>) else ret ())
                    (assign_last G lh))
                else bnd (luaK_setoneret e) (luaK_storevar (host G) lh))
             (ret prev)))))"

subsection \<open>Control structures\<close>

definition cond :: "('s, 'h, 'd) grammar \<Rightarrow> ('d, int) parsing" where
  "cond G =
     bnd (expr G) (\<lambda>v.
     bnd (luaK_goiftrue (host G) (if kind v = VNIL then v\<lparr>kind := VFALSE\<rparr> else v)) (\<lambda>v. ret (ef v)))"

text \<open>The blocks up to the innermost loop: how many lie inside it, and whether one has an upvalue.\<close>

fun enclosing_loop :: "BlockCnt list \<Rightarrow> (nat \<times> bool) option" where
  "enclosing_loop [] = None"
| "enclosing_loop (b # bs) =
     (if isbreakable b then Some (0, False) else map_option (\<lambda>(i, u). (Suc i, bl_upval b \<or> u)) (enclosing_loop bs))"

definition breakstat :: "('s, 'h, 'd) grammar \<Rightarrow> ('d, unit) parsing" where
  "breakstat G =
     bnd (get_fn blocks) (\<lambda>bs. case enclosing_loop bs of
       None \<Rightarrow> syntax_error G (lit ''no loop to break'')
     | Some (i, u) \<Rightarrow>
         seq (if u then bnd (luaK_codeABC (host G) OP_CLOSE (bl_nactvar (bs ! i)) 0 0) (\<lambda>_. ret ()) else ret ())
         (bnd (luaK_jump (host G)) (\<lambda>j.
          bnd (luaK_concat (host G) (breaklist (bs ! i)) j) (\<lambda>l.
          upd_fn (\<lambda>N. N\<lparr>blocks := (blocks N)[i := (blocks N ! i)\<lparr>breaklist := l\<rparr>]\<rparr>)))))"

definition whilestat :: "('s, 'h, 'd) grammar \<Rightarrow> int \<Rightarrow> ('d, unit) parsing" where
  "whilestat G line =
     seq (lex_next G)
     (bnd luaK_getlabel (\<lambda>whileinit.
      bnd (cond G) (\<lambda>condexit.
      steps [enterblock True,
        checknext G TK_DO,
        block G,
        bnd (luaK_jump (host G)) (\<lambda>j. luaK_patchlist (host G) j whileinit),
        check_match G TK_END TK_WHILE line,
        leaveblock G,
        luaK_patchtohere (host G) condexit])))"

definition repeatstat :: "('s, 'h, 'd) grammar \<Rightarrow> int \<Rightarrow> ('d, unit) parsing" where
  "repeatstat G line =
     bnd luaK_getlabel (\<lambda>repeat_init.
     seq (steps [enterblock True, enterblock False, lex_next G, chunk_rec G, check_match G TK_UNTIL TK_REPEAT line])
     (bnd (cond G) (\<lambda>condexit.
      bnd (get_fn blocks) (\<lambda>bs. case bs of
        [] \<Rightarrow> undef
      | bl2 # _ \<Rightarrow>
          if \<not> bl_upval bl2 then
            steps [leaveblock G, luaK_patchlist (host G) condexit repeat_init, leaveblock G]
          else
            steps [breakstat G, luaK_patchtohere (host G) condexit, leaveblock G,
              bnd (luaK_jump (host G)) (\<lambda>j. luaK_patchlist (host G) j repeat_init), leaveblock G]))))"

definition exp1 :: "('s, 'h, 'd) grammar \<Rightarrow> ('d, expkind) parsing" where
  "exp1 G = bnd (expr G) (\<lambda>e. bnd (luaK_exp2nextreg (host G) e) (\<lambda>_. ret (kind e)))"

definition forbody :: "('s, 'h, 'd) grammar \<Rightarrow> int \<Rightarrow> int \<Rightarrow> int \<Rightarrow> bool \<Rightarrow> ('d, unit) parsing" where
  "forbody G base line nvars isnum =
     seq (adjustlocalvars 3)
     (seq (checknext G TK_DO)
     (bnd (if isnum then luaK_codeAsBx (host G) OP_FORPREP base NO_JUMP else luaK_jump (host G)) (\<lambda>prep.
      seq (steps [enterblock False,
             adjustlocalvars nvars,
             luaK_reserveregs (host G) nvars,
             block G,
             leaveblock G,
             luaK_patchtohere (host G) prep])
      (bnd (if isnum then luaK_codeAsBx (host G) OP_FORLOOP base NO_JUMP
            else luaK_codeABC (host G) OP_TFORLOOP base 0 nvars) (\<lambda>endfor.
       seq (luaK_fixline line)
       (bnd (if isnum then ret endfor else luaK_jump (host G)) (\<lambda>j. luaK_patchlist (host G) j (prep + 1))))))))"

definition fornum :: "('s, 'h, 'd) grammar \<Rightarrow> bytes \<Rightarrow> int \<Rightarrow> ('d, unit) parsing" where
  "fornum G name line =
     bnd (get_fs freereg) (\<lambda>base.
     steps [new_localvar G (lit ''(for index)'') 0,
       new_localvar G (lit ''(for limit)'') 1,
       new_localvar G (lit ''(for step)'') 2,
       new_localvar G name 3,
       checknext G (sym CHR ''=''),
       bnd (exp1 G) (\<lambda>_. ret ()),
       checknext G (sym CHR '',''),
       bnd (exp1 G) (\<lambda>_. ret ()),
       bnd (testnext G (sym CHR '','')) (\<lambda>step.
         if step then bnd (exp1 G) (\<lambda>_. ret ())
         else
           bnd (luaK_numberK 1) (\<lambda>i.
           bnd (get_fs freereg) (\<lambda>r.
           bnd (luaK_codeABx (host G) OP_LOADK r i) (\<lambda>_. luaK_reserveregs (host G) 1)))),
       forbody G base line 1 True])"

definition forlist :: "('s, 'h, 'd) grammar \<Rightarrow> bytes \<Rightarrow> ('d, unit) parsing" where
  "forlist G indexname =
     bnd (get_fs freereg) (\<lambda>base.
     seq (steps [new_localvar G (lit ''(for generator)'') 0,
            new_localvar G (lit ''(for state)'') 1,
            new_localvar G (lit ''(for control)'') 2,
            new_localvar G indexname 3])
     (bnd (loop (fuel G) (\<lambda>_. testnext G (sym CHR '',''))
             (\<lambda>nvars. bnd (str_checkname G) (\<lambda>n. seq (new_localvar G n nvars) (ret (nvars + 1)))) 4) (\<lambda>nvars.
      seq (checknext G TK_IN)
      (bnd (get (\<lambda>s. linenumber (ls s))) (\<lambda>line.
       bnd (explist1 G) (\<lambda>(n, e).
       steps [adjust_assign G 3 n e, luaK_checkstack (host G) 3, forbody G base line (nvars - 3) False]))))))"

definition forstat :: "('s, 'h, 'd) grammar \<Rightarrow> int \<Rightarrow> ('d, unit) parsing" where
  "forstat G line =
     seq (steps [enterblock True, lex_next G])
     (bnd (str_checkname G) (\<lambda>name.
      bnd cur_token (\<lambda>tok.
      steps [if tok = sym CHR ''='' then fornum G name line
             else if tok = sym CHR '','' \<or> tok = TK_IN then forlist G name
             else syntax_error G (quoted (lit ''='') @ lit '' or '' @ quoted (lit ''in'') @ lit '' expected''),
        check_match G TK_END TK_FOR line,
        leaveblock G])))"

definition test_then_block :: "('s, 'h, 'd) grammar \<Rightarrow> ('d, int) parsing" where
  "test_then_block G =
     seq (lex_next G) (bnd (cond G) (\<lambda>condexit. seq (steps [checknext G TK_THEN, block G]) (ret condexit)))"

text \<open>The jump out of a block that ran, and the start of the next test.\<close>

definition escape :: "('s, 'h, 'd) grammar \<Rightarrow> int \<Rightarrow> int \<Rightarrow> ('d, int) parsing" where
  "escape G escapelist flist =
     bnd (luaK_jump (host G)) (\<lambda>j.
     bnd (luaK_concat (host G) escapelist j) (\<lambda>l. seq (luaK_patchtohere (host G) flist) (ret l)))"

definition ifstat :: "('s, 'h, 'd) grammar \<Rightarrow> int \<Rightarrow> ('d, unit) parsing" where
  "ifstat G line =
     bnd (test_then_block G) (\<lambda>flist.
     bnd (loop (fuel G) (\<lambda>_. bnd cur_token (\<lambda>tok. ret (tok = TK_ELSEIF)))
            (\<lambda>(esc, flist). bnd (escape G esc flist) (\<lambda>esc. bnd (test_then_block G) (\<lambda>flist. ret (esc, flist))))
            (NO_JUMP, flist)) (\<lambda>(esc, flist).
     bnd cur_token (\<lambda>tok.
     bnd (if tok = TK_ELSE then bnd (escape G esc flist) (\<lambda>esc. seq (steps [lex_next G, block G]) (ret esc))
          else luaK_concat (host G) esc flist) (\<lambda>esc.
     steps [luaK_patchtohere (host G) esc, check_match G TK_END TK_IF line]))))"

subsection \<open>Declarations and other statements\<close>

definition localfunc :: "('s, 'h, 'd) grammar \<Rightarrow> ('d, unit) parsing" where
  "localfunc G =
     bnd (str_checkname G) (\<lambda>name.
     seq (new_localvar G name 0)
     (bnd (get_fs freereg) (\<lambda>r.
      seq (steps [luaK_reserveregs (host G) 1, adjustlocalvars 1])
      (bnd (bnd (get (\<lambda>s. linenumber (ls s))) (body G False)) (\<lambda>b.
       seq (luaK_storevar (host G) (init_exp VLOCAL r) b)
       (bnd (get fs) (\<lambda>F. upd_locvar (nactvar F - 1) (\<lambda>v. v\<lparr>startpc := pc F\<rparr>))))))))"

definition localstat :: "('s, 'h, 'd) grammar \<Rightarrow> ('d, unit) parsing" where
  "localstat G =
     (let declare_one = (\<lambda>nvars. bnd (str_checkname G) (\<lambda>n. seq (new_localvar G n nvars) (ret (nvars + 1))))
      in bnd (bnd (declare_one 0) (loop (fuel G) (\<lambda>_. testnext G (sym CHR '','')) declare_one)) (\<lambda>nvars.
         bnd (testnext G (sym CHR ''='')) (\<lambda>eq.
         bnd (if eq then explist1 G else ret (0, init_exp VVOID 0)) (\<lambda>(nexps, e).
         steps [adjust_assign G nvars nexps e, adjustlocalvars nvars]))))"

definition funcname :: "('s, 'h, 'd) grammar \<Rightarrow> ('d, bool \<times> expdesc) parsing" where
  "funcname G =
     bnd (bnd (singlevar G) (loop (fuel G) (\<lambda>_. bnd cur_token (\<lambda>tok. ret (tok = sym CHR ''.''))) (field G))) (\<lambda>v.
     bnd cur_token (\<lambda>tok.
       if tok = sym CHR '':'' then bnd (field G v) (\<lambda>v. ret (True, v)) else ret (False, v)))"

definition funcstat :: "('s, 'h, 'd) grammar \<Rightarrow> int \<Rightarrow> ('d, unit) parsing" where
  "funcstat G line =
     seq (lex_next G)
     (bnd (funcname G) (\<lambda>(needself, v).
      bnd (body G needself line) (\<lambda>b.
      steps [luaK_storevar (host G) v b, luaK_fixline line])))"

definition exprstat :: "('s, 'h, 'd) grammar \<Rightarrow> ('d, unit) parsing" where
  "exprstat G =
     bnd (primaryexp G) (\<lambda>v.
       if kind v = VCALL then bnd (read_code (info v)) (\<lambda>i. write_code (info v) (SETARG_C i 1))
       else bnd (assignment (fuel G) G v [] 1) (\<lambda>_. ret ()))"

definition retstat :: "('s, 'h, 'd) grammar \<Rightarrow> ('d, unit) parsing" where
  "retstat G =
     seq (lex_next G)
     (bnd cur_token (\<lambda>tok.
      bnd (if block_follow tok \<or> tok = sym CHR '';'' then ret (0, 0)
           else bnd (explist1 G) (\<lambda>(nret, e).
             if hasmultret (kind e) then
               seq (luaK_setreturns (host G) e LUA_MULTRET)
               (seq (if kind e = VCALL \<and> nret = 1 then
                       bnd (read_code (info e)) (\<lambda>i. write_code (info e) (SET_OPCODE i OP_TAILCALL))
                     else ret ())
                 (get_fs (\<lambda>F. (nactvar F, LUA_MULTRET))))
             else if nret = 1 then bnd (luaK_exp2anyreg (host G) e) (\<lambda>e. ret (info e, nret))
             else bnd (luaK_exp2nextreg (host G) e) (\<lambda>_. get_fs (\<lambda>F. (nactvar F, nret))))) (\<lambda>(first, nret).
      luaK_ret (host G) first nret)))"

text \<open>Whether the statement must be the last one.\<close>

definition statement :: "('s, 'h, 'd) grammar \<Rightarrow> ('d, bool) parsing" where
  "statement G =
     bnd (get (\<lambda>s. linenumber (ls s))) (\<lambda>line.
     bnd cur_token (\<lambda>tok.
       if tok = TK_IF then seq (ifstat G line) (ret False)
       else if tok = TK_WHILE then seq (whilestat G line) (ret False)
       else if tok = TK_DO then seq (steps [lex_next G, block G, check_match G TK_END TK_DO line]) (ret False)
       else if tok = TK_FOR then seq (forstat G line) (ret False)
       else if tok = TK_REPEAT then seq (repeatstat G line) (ret False)
       else if tok = TK_FUNCTION then seq (funcstat G line) (ret False)
       else if tok = TK_LOCAL then
         seq (lex_next G)
         (bnd (testnext G TK_FUNCTION) (\<lambda>func. seq (if func then localfunc G else localstat G) (ret False)))
       else if tok = TK_RETURN then seq (retstat G) (ret True)
       else if tok = TK_BREAK then seq (steps [lex_next G, breakstat G]) (ret True)
       else seq (exprstat G) (ret False)))"

definition chunk :: "('s, 'h, 'd) grammar \<Rightarrow> ('d, unit) parsing" where
  "chunk G =
     seq (enterlevel G)
     (bnd (loop (fuel G) (\<lambda>islast. bnd cur_token (\<lambda>tok. ret (\<not> islast \<and> \<not> block_follow tok)))
             (\<lambda>_. bnd (statement G) (\<lambda>islast.
               bnd (testnext G (sym CHR '';'')) (\<lambda>_.
               seq (upd_fs (\<lambda>F. F\<lparr>freereg := nactvar F\<rparr>)) (ret islast)))) False) (\<lambda>_.
     leavelevel))"

section \<open>The parser\<close>

text \<open>The grammar whose rules may be nested \<open>k\<close> deep.\<close>

primrec rules :: "nat \<Rightarrow> ('s, 'h, 'd) grammar \<Rightarrow> ('s, 'h, 'd) grammar" where
  "rules 0 G = G\<lparr>subexpr_rec := \<lambda>_. raise OUT_OF_ROUNDS, chunk_rec := raise OUT_OF_ROUNDS\<rparr>"
| "rules (Suc k) G = (let inner = rules k G in G\<lparr>subexpr_rec := subexpr inner, chunk_rec := chunk inner\<rparr>)"

definition luaY_parser :: "('s, 'h, 'd) grammar \<Rightarrow> 'd ZIO \<Rightarrow> string \<Rightarrow> ('d, Proto) parsing" where
  "luaY_parser G z name =
     (let G = rules LUAI_MAXCCALLS G
      in seq (steps [in_lexer (luaX_setinput (reader G) z name),
             open_func G [],
             upd_fn (\<lambda>N. N\<lparr>is_vararg := VARARG_ISVARARG\<rparr>),
             lex_next G,
             chunk G,
             check G TK_EOS])
         (bnd (close_func G) (\<lambda>(f, _). ret f)))"

end
