(* ===== verification/Judgements.thy ===== *)
theory Judgements
  imports Grammar Jumps Lexing
begin

text \<open>
  Judgements on programs of the parser: what they may raise, that they read on in the input, and that
  the functions being compiled stay well-formed. The code generator and the parts of the parser below
  the grammar leave the input alone.
\<close>

unbundle bit_operations_syntax

declare ret_run [simp del] get_run [simp del] upd_run [simp del]

section \<open>Judgements\<close>

text \<open>
  \<open>wl m Q s\<close>: \<open>m\<close> returns only in \<open>Q\<close> and raises only a syntax or a runtime error. It may be
  \<open>Undef\<close>, of which nothing is claimed here.
\<close>

definition wl :: "('s, 'a) prog \<Rightarrow> ('a \<Rightarrow> 's \<Rightarrow> bool) \<Rightarrow> 's \<Rightarrow> bool" where
  "wl m Q s \<longleftrightarrow> (case m s of Val a s' \<Rightarrow> Q a s' | Raise e _ \<Rightarrow> e = LUA_ERRSYNTAX \<or> e = LUA_ERRRUN | Undef \<Rightarrow> True)"

named_theorems wls \<open>the judgement wl, by rewriting\<close>

lemma wl_basic [wls]:
  "wl (ret a) Q s = Q a s" "wl (get f) Q s = Q (f s) s" "wl (upd g) R s = R () (g s)"
  "wl (raise e) Q s = (e = LUA_ERRSYNTAX \<or> e = LUA_ERRRUN)" "wl undef Q s"
  by (simp_all add: wl_def ret_def get_def upd_def)

lemma wl_bnd [wls]: "wl (bnd m f) Q s = wl m (\<lambda>a. wl (f a) Q) s"
  by (cases "m s") (simp_all add: wl_def bnd_def)

lemma wl_seq [wls]: "wl (seq m n) Q s = wl m (\<lambda>_. wl n Q) s"
  by (simp add: seq_def wl_bnd)

lemma wl_compose: "wl (seq m n) Q = wl m (\<lambda>_. wl n Q)" "wl (ret a) Q = Q a"
  by (rule ext, simp add: wl_seq wl_basic)+

lemma wl_steps_append: "wl (steps (ms @ ns)) Q = wl (steps ms) (\<lambda>_. wl (steps ns) Q)"
  by (induction ms) (simp_all add: wl_compose)

lemma wl_steps_one: "wl (steps [m]) Q = wl m (\<lambda>_. Q ())"
  by (simp add: wl_compose)

lemma wl_mono: "wl m Q s \<Longrightarrow> (\<And>a s. Q a s \<Longrightarrow> Q' a s) \<Longrightarrow> wl m Q' s"
  by (auto simp: wl_def split: res.splits)

lemma wl_bndI: "wl m R s \<Longrightarrow> (\<And>a s'. R a s' \<Longrightarrow> wl (f a) Q s') \<Longrightarrow> wl (bnd m f) Q s"
  unfolding wl_bnd by (rule wl_mono)

lemma wl_conj: "wl m Q s \<Longrightarrow> wl m R s \<Longrightarrow> wl m (\<lambda>a s. Q a s \<and> R a s) s"
  by (auto simp: wl_def split: res.splits)

lemma wl_if: "(b \<Longrightarrow> wl m Q s) \<Longrightarrow> (\<not> b \<Longrightarrow> wl n Q s) \<Longrightarrow> wl (if b then m else n) Q s"
  by simp

lemma wp_wl: "wp m Q (\<lambda>e _. e = LUA_ERRSYNTAX) s \<Longrightarrow> wl m Q s"
  by (auto simp: wp_def wl_def split: res.splits)

lemma wl_in_lexer: "wl (in_lexer m) Q s = wl m (\<lambda>a l. Q a (s\<lparr>ls := l\<rparr>)) (ls s)"
  by (auto simp: wl_def in_lexer_def split: res.splits)

section \<open>The functions being compiled\<close>

text \<open>\<open>prechecked p\<close>: \<open>p\<close> and all functions inside it pass the first checks of \<open>luaG_checkcode\<close>.\<close>

inductive prechecked :: "Proto \<Rightarrow> bool" where
  "precheck p = Go () \<Longrightarrow> (\<And>q. q \<in> set (pt_p p) \<Longrightarrow> prechecked q) \<Longrightarrow> prechecked p"

definition code_ok :: "FuncState \<Rightarrow> bool" where
  "code_ok F \<longleftrightarrow> length (lineinfo F) = length (code F) \<and> 2 \<le> maxstacksize F \<and> maxstacksize F < MAXSTACK"

definition header_ok :: "int \<Rightarrow> FnState \<Rightarrow> bool" where
  "header_ok m N \<longleftrightarrow> int (length (upvals N)) \<le> LUAI_MAXUPVALUES \<and> (\<forall>q \<in> set (protos N). prechecked q) \<and>
     (is_vararg N AND VARARG_NEEDSARG = 0 \<or> is_vararg N AND VARARG_HASARG \<noteq> 0) \<and>
     uint (numparams N) + uint (is_vararg N AND VARARG_HASARG) \<le> m"

fun level_ok :: "level \<Rightarrow> bool" where
  "level_ok (F, N) \<longleftrightarrow> code_ok F \<and> header_ok (maxstacksize F) N"

definition levels_ok :: "'d parser \<Rightarrow> bool" where
  "levels_ok s \<longleftrightarrow> level_ok (fs s, fn s) \<and> (\<forall>l \<in> set (enclosing s). level_ok l)"

lemma levels_ok_ls [simp]: "levels_ok (s\<lparr>ls := l\<rparr>) = levels_ok s" "levels_ok (s\<lparr>nCcalls := n\<rparr>) = levels_ok s"
  by (simp_all add: levels_ok_def)

section \<open>The input\<close>

text \<open>The characters and tokens that are not read yet, at most \<open>n\<close>, and the level \<open>c\<close>.\<close>

definition unread_tokens :: "'d LexState \<Rightarrow> bytes \<Rightarrow> nat" where
  "unread_tokens l xs = length xs + of_bool (token (ls_ahead l) \<noteq> TK_EOS) + of_bool (token (ls_t l) \<noteq> TK_EOS)"

definition input :: "('s, 'h, 'd) grammar \<Rightarrow> int \<Rightarrow> nat \<Rightarrow> 'd parser \<Rightarrow> bool" where
  "input G c n s \<longleftrightarrow> nCcalls s = c \<and> n < fuel G \<and> levels_ok s \<and>
     (\<exists>xs. ahead (reader G) xs (ls s) \<and> unread_tokens (ls s) xs \<le> n)"

text \<open>
  \<open>steady\<close> programs leave the input alone, \<open>calm\<close> ones may read on, and \<open>eats\<close> ones do so unless the
  current token is the end.
\<close>

definition steady :: "('d, 'a) parsing \<Rightarrow> bool" where
  "steady m \<longleftrightarrow> (\<forall>s. levels_ok s \<longrightarrow> wl m (\<lambda>_ s'. ls s' = ls s \<and> nCcalls s' = nCcalls s \<and> levels_ok s') s)"

definition calm :: "('s, 'h, 'd) grammar \<Rightarrow> int \<Rightarrow> ('d, 'a) parsing \<Rightarrow> bool" where
  "calm G c m \<longleftrightarrow> (\<forall>n s. input G c n s \<longrightarrow> wl m (\<lambda>_. input G c n) s)"

definition eats :: "('s, 'h, 'd) grammar \<Rightarrow> int \<Rightarrow> ('d, 'a) parsing \<Rightarrow> bool" where
  "eats G c m \<longleftrightarrow> (\<forall>n s. input G c n s \<and> token (ls_t (ls s)) \<noteq> TK_EOS \<longrightarrow> wl m (\<lambda>_ s'. 0 < n \<and> input G c (n - 1) s') s)"

named_theorems steady \<open>programs that leave the input alone\<close>
named_theorems calm \<open>programs that read on\<close>

lemma steadyD: "steady m \<Longrightarrow> levels_ok s \<Longrightarrow> ls s = l \<Longrightarrow> nCcalls s = c \<Longrightarrow>
    wl m (\<lambda>_ s'. ls s' = l \<and> nCcalls s' = c \<and> levels_ok s') s"
  by (auto simp: steady_def)

lemma steady_rules [steady]:
  "steady (ret a)" "steady (get g)" "steady undef" "steady (raise LUA_ERRRUN)"
  by (simp_all add: steady_def wls)

text \<open>An update may change what the promises of the level do not mention.\<close>

lemma steady_upd_fs [steady]:
  assumes "\<And>F. length (lineinfo F) = length (code F) \<Longrightarrow> length (lineinfo (u F)) = length (code (u F))"
    "\<And>F. maxstacksize (u F) = maxstacksize F"
  shows "steady (upd_fs u)"
  using assms by (auto simp: steady_def wls levels_ok_def code_ok_def)

lemma steady_upd_fn [steady]:
  assumes "\<And>N. upvals (u N) = upvals N \<and> protos (u N) = protos N \<and> is_vararg (u N) = is_vararg N \<and> numparams (u N) = numparams N"
  shows "steady (upd_fn u)"
  using assms by (simp add: steady_def wls levels_ok_def header_ok_def)

lemma steady_bnd [steady]:
  assumes "steady m" "\<And>a. steady (f a)"
  shows "steady (bnd m f)"
  unfolding steady_def wl_bnd
  by (intro allI impI wl_mono [OF steadyD [OF assms(1)]] steadyD [OF assms(2)]) auto

lemma steady_seq [steady]: "steady m \<Longrightarrow> steady n \<Longrightarrow> steady (seq m n)"
  unfolding seq_def by (rule steady_bnd)

lemma steady_if [steady]: "(c \<Longrightarrow> steady m) \<Longrightarrow> (\<not> c \<Longrightarrow> steady n) \<Longrightarrow> steady (if c then m else n)"
  by simp

lemma steady_steps: "(\<And>m. m \<in> set ms \<Longrightarrow> steady m) \<Longrightarrow> steady (steps ms)"
  by (induction ms) (simp_all add: steady)

lemma steady_case_prod [steady]: "(\<And>a b. steady (f a b)) \<Longrightarrow> steady (case x of (a, b) \<Rightarrow> f a b)"
  by (cases x) simp

lemma steady_case_option [steady]:
  "steady m \<Longrightarrow> (\<And>a. steady (f a)) \<Longrightarrow> steady (case x of None \<Rightarrow> m | Some a \<Rightarrow> f a)"
  by (cases x) simp_all

lemma steady_case_list [steady]:
  "steady m \<Longrightarrow> (\<And>a b. steady (f a b)) \<Longrightarrow> steady (case x of [] \<Rightarrow> m | a # b \<Rightarrow> f a b)"
  by (cases x) simp_all

lemma steady_let [steady]: "steady (f x) \<Longrightarrow> steady (Let x f)"
  by simp

lemma steady_needsarg [steady]: "steady (upd_fn (\<lambda>N. N\<lparr>is_vararg := is_vararg N AND NOT VARARG_NEEDSARG\<rparr>))"
proof -
  have "(v AND NOT VARARG_NEEDSARG) AND VARARG_NEEDSARG = 0"
    "(v AND NOT VARARG_NEEDSARG) AND VARARG_HASARG = v AND VARARG_HASARG" for v
    by (rule bit_word_eqI, auto simp: VARARG_NEEDSARG_def VARARG_HASARG_def bit_simps)+
  then show ?thesis by (simp add: steady_def wls levels_ok_def header_ok_def)
qed

lemma steady_no_arg [steady]: "steady (upd_fn (\<lambda>N. N\<lparr>is_vararg := 0\<rparr>))" "steady (upd_fn (\<lambda>N. N\<lparr>is_vararg := VARARG_ISVARARG\<rparr>))"
proof -
  have "uint (n :: u8) \<le> m" if "uint n + uint (v :: u8) \<le> m" for n v m
    using that uint_ge_0 [of v] by linarith
  then show "steady (upd_fn (\<lambda>N. N\<lparr>is_vararg := 0\<rparr>))" "steady (upd_fn (\<lambda>N. N\<lparr>is_vararg := VARARG_ISVARARG\<rparr>))"
    by (auto simp: steady_def wls levels_ok_def header_ok_def VARARG_ISVARARG_def VARARG_NEEDSARG_def VARARG_HASARG_def)
qed

text \<open>An error has no result.\<close>

lemma wl_lexerror: "wl (luaX_lexerror H msg tok) Q l"
  by (auto simp: luaX_lexerror_def txtToken_def save_def throw_syntax_def wls)

lemma lexerror_steady [steady]: "steady (in_lexer (luaX_lexerror H msg tok))"
  by (simp add: steady_def wl_in_lexer wl_lexerror)

lemma wl_syntaxerror: "wl (in_lexer (luaX_syntaxerror H msg)) Q s"
  by (simp add: wl_in_lexer luaX_syntaxerror_def wls wl_lexerror)

lemma syntaxerror_steady [steady]: "steady (in_lexer (luaX_syntaxerror H msg))"
  by (simp add: steady_def wl_syntaxerror)

section \<open>The code generator\<close>

lemma read_code_steady [steady]: "steady (read_code a0)"
  by (auto simp: read_code_def Let_def intro!: steady split: expkind.split UnOpr.split BinOpr.split)

lemma write_code_steady [steady]: "steady (write_code a0 a1)"
  by (auto simp: write_code_def Let_def intro!: steady split: expkind.split UnOpr.split BinOpr.split)

lemma fixjump_steady [steady]: "steady (fixjump a0 a1 a2)"
  by (auto simp: fixjump_def Let_def intro!: steady split: expkind.split UnOpr.split BinOpr.split)

lemma luaK_getlabel_steady [steady]: "steady (luaK_getlabel)"
  by (auto simp: luaK_getlabel_def Let_def intro!: steady split: expkind.split UnOpr.split BinOpr.split)

lemma getjump_steady [steady]: "steady (getjump a0)"
  by (auto simp: getjump_def Let_def intro!: steady split: expkind.split UnOpr.split BinOpr.split)

lemma test_mode_steady [steady]: "steady (test_mode a0)"
  by (auto simp: test_mode_def Let_def intro!: steady split: expkind.split UnOpr.split BinOpr.split)

lemma getjumpcontrol_steady [steady]: "steady (getjumpcontrol a0)"
  by (auto simp: getjumpcontrol_def Let_def intro!: steady split: expkind.split UnOpr.split BinOpr.split)

lemma need_value_loop_steady [steady]: "steady (need_value_loop a0 a1)"
  by (induction a0 arbitrary: a1) (auto intro!: steady)

lemma need_value_steady [steady]: "steady (need_value a0)"
  by (auto simp: need_value_def Let_def intro!: steady split: expkind.split UnOpr.split BinOpr.split)

lemma patchtestreg_steady [steady]: "steady (patchtestreg a0 a1)"
  by (auto simp: patchtestreg_def Let_def intro!: steady split: expkind.split UnOpr.split BinOpr.split)

lemma removevalues_loop_steady [steady]: "steady (removevalues_loop a0 a1)"
  by (induction a0 arbitrary: a1) (auto intro!: steady)

lemma removevalues_steady [steady]: "steady (removevalues a0)"
  by (auto simp: removevalues_def Let_def intro!: steady split: expkind.split UnOpr.split BinOpr.split)

lemma patchlist_loop_steady [steady]: "steady (patchlist_loop a0 a1 a2 a3 a4 a5)"
  by (induction a1 arbitrary: a0 a2 a3 a4 a5) (auto intro!: steady)

lemma patchlistaux_steady [steady]: "steady (patchlistaux a0 a1 a2 a3 a4)"
  by (auto simp: patchlistaux_def Let_def intro!: steady split: expkind.split UnOpr.split BinOpr.split)

lemma dischargejpc_steady [steady]: "steady (dischargejpc a0)"
  by (auto simp: dischargejpc_def Let_def intro!: steady split: expkind.split UnOpr.split BinOpr.split)

lemma last_jump_steady [steady]: "steady (last_jump a0 a1)"
  by (induction a0 arbitrary: a1) (auto intro!: steady)

lemma luaK_concat_steady [steady]: "steady (luaK_concat a0 a1 a2)"
  by (auto simp: luaK_concat_def Let_def intro!: steady split: expkind.split UnOpr.split BinOpr.split)

lemma luaK_patchtohere_steady [steady]: "steady (luaK_patchtohere a0 a1)"
  by (auto simp: luaK_patchtohere_def Let_def intro!: steady split: expkind.split UnOpr.split BinOpr.split)

lemma luaK_patchlist_steady [steady]: "steady (luaK_patchlist a0 a1 a2)"
  by (auto simp: luaK_patchlist_def Let_def intro!: steady split: expkind.split UnOpr.split BinOpr.split)

lemma luaK_code_steady [steady]: "steady (luaK_code a0 a1 a2)"
  by (auto simp: luaK_code_def Let_def intro!: steady split: expkind.split UnOpr.split BinOpr.split)

lemma luaK_codeABC_steady [steady]: "steady (luaK_codeABC a0 a1 a2 a3 a4)"
  by (auto simp: luaK_codeABC_def Let_def intro!: steady split: expkind.split UnOpr.split BinOpr.split)

lemma luaK_codeABx_steady [steady]: "steady (luaK_codeABx a0 a1 a2 a3)"
  by (auto simp: luaK_codeABx_def Let_def intro!: steady split: expkind.split UnOpr.split BinOpr.split)

lemma luaK_codeAsBx_steady [steady]: "steady (luaK_codeAsBx a0 a1 a2 a3)"
  by (auto simp: luaK_codeAsBx_def Let_def intro!: steady split: expkind.split UnOpr.split BinOpr.split)

lemma luaK_fixline_steady [steady]: "steady (luaK_fixline a0)"
  by (auto simp: luaK_fixline_def Let_def intro!: steady split: expkind.split UnOpr.split BinOpr.split)

lemma luaK_nil_steady [steady]: "steady (luaK_nil a0 a1 a2)"
  by (auto simp: luaK_nil_def Let_def intro!: steady split: expkind.split UnOpr.split BinOpr.split)

lemma luaK_jump_steady [steady]: "steady (luaK_jump a0)"
  by (auto simp: luaK_jump_def Let_def intro!: steady split: expkind.split UnOpr.split BinOpr.split)

lemma luaK_ret_steady [steady]: "steady (luaK_ret a0 a1 a2)"
  by (auto simp: luaK_ret_def Let_def intro!: steady split: expkind.split UnOpr.split BinOpr.split)

lemma condjump_steady [steady]: "steady (condjump a0 a1 a2 a3 a4)"
  by (auto simp: condjump_def Let_def intro!: steady split: expkind.split UnOpr.split BinOpr.split)

lemma luaK_setlist_steady [steady]: "steady (luaK_setlist a0 a1 a2 a3)"
  by (auto simp: luaK_setlist_def Let_def intro!: steady split: expkind.split UnOpr.split BinOpr.split)

lemma levels_ok_maxstack:
  assumes "levels_ok s" "maxstacksize (fs s) < m" "m < MAXSTACK"
  shows "levels_ok (s\<lparr>fs := (fs s)\<lparr>maxstacksize := m mod 256\<rparr>\<rparr>)"
  using assms by (auto simp: levels_ok_def code_ok_def header_ok_def MAXSTACK_def)

lemma luaK_checkstack_steady [steady]: "steady (luaK_checkstack H n)"
  by (auto simp: steady_def luaK_checkstack_def wls wl_syntaxerror levels_ok_maxstack)

lemma luaK_reserveregs_steady [steady]: "steady (luaK_reserveregs a0 a1)"
  by (auto simp: luaK_reserveregs_def Let_def intro!: steady split: expkind.split UnOpr.split BinOpr.split)

lemma free_reg_steady [steady]: "steady (free_reg a0)"
  by (auto simp: free_reg_def Let_def intro!: steady split: expkind.split UnOpr.split BinOpr.split)

lemma freeexp_steady [steady]: "steady (freeexp a0)"
  by (auto simp: freeexp_def Let_def intro!: steady split: expkind.split UnOpr.split BinOpr.split)

lemma addk_steady [steady]: "steady (addk a0 a1)"
  by (auto simp: addk_def Let_def intro!: steady split: expkind.split UnOpr.split BinOpr.split)

lemma luaK_stringK_steady [steady]: "steady (luaK_stringK a0)"
  by (auto simp: luaK_stringK_def Let_def intro!: steady split: expkind.split UnOpr.split BinOpr.split)

lemma luaK_numberK_steady [steady]: "steady (luaK_numberK a0)"
  by (auto simp: luaK_numberK_def Let_def intro!: steady split: expkind.split UnOpr.split BinOpr.split)

lemma boolK_steady [steady]: "steady (boolK a0)"
  by (auto simp: boolK_def Let_def intro!: steady split: expkind.split UnOpr.split BinOpr.split)

lemma nilK_steady [steady]: "steady (nilK)"
  by (auto simp: nilK_def Let_def intro!: steady split: expkind.split UnOpr.split BinOpr.split)

lemma luaK_setreturns_steady [steady]: "steady (luaK_setreturns a0 a1 a2)"
  by (auto simp: luaK_setreturns_def Let_def intro!: steady split: expkind.split UnOpr.split BinOpr.split)

lemma luaK_setoneret_steady [steady]: "steady (luaK_setoneret a0)"
  by (auto simp: luaK_setoneret_def Let_def intro!: steady split: expkind.split UnOpr.split BinOpr.split)

lemma luaK_dischargevars_steady [steady]: "steady (luaK_dischargevars a0 a1)"
  by (auto simp: luaK_dischargevars_def Let_def intro!: steady split: expkind.split UnOpr.split BinOpr.split)

lemma code_label_steady [steady]: "steady (code_label a0 a1 a2 a3)"
  by (auto simp: code_label_def Let_def intro!: steady split: expkind.split UnOpr.split BinOpr.split)

lemma discharge2reg_steady [steady]: "steady (discharge2reg a0 a1 a2)"
  by (auto simp: discharge2reg_def Let_def intro!: steady split: expkind.split UnOpr.split BinOpr.split)

lemma discharge2anyreg_steady [steady]: "steady (discharge2anyreg a0 a1)"
  by (auto simp: discharge2anyreg_def Let_def intro!: steady split: expkind.split UnOpr.split BinOpr.split)

lemma exp2reg_steady [steady]: "steady (exp2reg a0 a1 a2)"
  by (auto simp: exp2reg_def Let_def intro!: steady split: expkind.split UnOpr.split BinOpr.split)

lemma luaK_exp2nextreg_steady [steady]: "steady (luaK_exp2nextreg a0 a1)"
  by (auto simp: luaK_exp2nextreg_def Let_def intro!: steady split: expkind.split UnOpr.split BinOpr.split)

lemma luaK_exp2anyreg_steady [steady]: "steady (luaK_exp2anyreg a0 a1)"
  by (auto simp: luaK_exp2anyreg_def Let_def intro!: steady split: expkind.split UnOpr.split BinOpr.split)

lemma luaK_exp2val_steady [steady]: "steady (luaK_exp2val a0 a1)"
  by (auto simp: luaK_exp2val_def Let_def intro!: steady split: expkind.split UnOpr.split BinOpr.split)

lemma luaK_exp2RK_steady [steady]: "steady (luaK_exp2RK a0 a1)"
  by (auto simp: luaK_exp2RK_def Let_def intro!: steady split: expkind.split UnOpr.split BinOpr.split)

lemma luaK_storevar_steady [steady]: "steady (luaK_storevar a0 a1 a2)"
  by (auto simp: luaK_storevar_def Let_def intro!: steady split: expkind.split UnOpr.split BinOpr.split)

lemma luaK_self_steady [steady]: "steady (luaK_self a0 a1 a2)"
  by (auto simp: luaK_self_def Let_def intro!: steady split: expkind.split UnOpr.split BinOpr.split)

lemma invertjump_steady [steady]: "steady (invertjump a0)"
  by (auto simp: invertjump_def Let_def intro!: steady split: expkind.split UnOpr.split BinOpr.split)

lemma jumponcond_steady [steady]: "steady (jumponcond a0 a1 a2)"
  by (auto simp: jumponcond_def Let_def intro!: steady split: expkind.split UnOpr.split BinOpr.split)

lemma luaK_goiftrue_steady [steady]: "steady (luaK_goiftrue a0 a1)"
  by (auto simp: luaK_goiftrue_def Let_def intro!: steady split: expkind.split UnOpr.split BinOpr.split)

lemma luaK_goiffalse_steady [steady]: "steady (luaK_goiffalse a0 a1)"
  by (auto simp: luaK_goiffalse_def Let_def intro!: steady split: expkind.split UnOpr.split BinOpr.split)

lemma codenot_steady [steady]: "steady (codenot a0 a1)"
  by (auto simp: codenot_def Let_def intro!: steady split: expkind.split UnOpr.split BinOpr.split)

lemma luaK_indexed_steady [steady]: "steady (luaK_indexed a0 a1 a2)"
  by (auto simp: luaK_indexed_def Let_def intro!: steady split: expkind.split UnOpr.split BinOpr.split)

lemma codearith_steady [steady]: "steady (codearith a0 a1 a2 a3 a4)"
  by (auto simp: codearith_def Let_def intro!: steady split: expkind.split UnOpr.split BinOpr.split)

lemma codecomp_steady [steady]: "steady (codecomp a0 a1 a2 a3 a4)"
  by (auto simp: codecomp_def Let_def intro!: steady split: expkind.split UnOpr.split BinOpr.split)

lemma luaK_prefix_steady [steady]: "steady (luaK_prefix a0 a1 a2 a3)"
  by (auto simp: luaK_prefix_def Let_def intro!: steady split: expkind.split UnOpr.split BinOpr.split)

lemma luaK_infix_steady [steady]: "steady (luaK_infix a0 a1 a2)"
  by (auto simp: luaK_infix_def Let_def intro!: steady split: expkind.split UnOpr.split BinOpr.split)

lemma luaK_posfix_steady [steady]: "steady (luaK_posfix a0 a1 a2 a3 a4)"
  by (auto simp: luaK_posfix_def Let_def intro!: steady split: expkind.split UnOpr.split BinOpr.split)

section \<open>Variables, blocks and functions\<close>

lemma wl_errorlimit: "wl (errorlimit G limit what) Q s"
  by (simp add: errorlimit_def wls wl_in_lexer wl_lexerror Let_def)

lemma syntax_error_steady [steady]: "steady (syntax_error G msg)"
  by (simp add: syntax_error_def steady)

lemma error_expected_steady [steady]: "steady (error_expected G tok)"
  by (simp add: error_expected_def steady)

lemma errorlimit_steady [steady]: "steady (errorlimit G limit what)"
  by (auto simp: errorlimit_def Let_def intro!: steady)

lemma checks_steady [steady]:
  "steady (luaY_checklimit G v l m)" "steady (check_condition G b msg)" "steady (check G tok)"
  by (auto simp: luaY_checklimit_def check_condition_def check_def intro!: steady)

lemma token_string_steady [steady]: "steady token_string"
  by (auto simp: token_string_def intro!: steady split: SemInfo.split)

lemma codestring_steady [steady]: "steady (codestring b)"
  by (auto simp: codestring_def intro!: steady)

lemma upd_locvar_steady [steady]: "steady (upd_locvar i g)"
  by (auto simp: upd_locvar_def intro!: steady)

lemma registerlocalvar_steady [steady]: "steady (registerlocalvar name)"
  by (auto simp: registerlocalvar_def intro!: steady)

lemma new_localvar_steady [steady]: "steady (new_localvar G name n)"
  by (auto simp: new_localvar_def intro!: steady)

lemma adjustlocalvars_steady [steady]: "steady (adjustlocalvars n)"
  by (auto simp: adjustlocalvars_def intro!: steady steady_steps)

lemma removevars_steady [steady]: "steady (removevars n)"
  by (auto simp: removevars_def intro!: steady steady_steps)

lemma search_from_steady [steady]: "steady (search_from k n)"
  by (induction k) (auto intro!: steady)

lemma searchvar_steady [steady]: "steady (searchvar n)"
  by (auto simp: searchvar_def intro!: steady)

lemma markupval_steady [steady]: "steady (markupval lev)"
  by (auto simp: markupval_def intro!: steady)

lemma levels_ok_upvals:
  "levels_ok s \<Longrightarrow> int (length us) \<le> LUAI_MAXUPVALUES \<Longrightarrow> levels_ok (s\<lparr>fn := (fn s)\<lparr>upvals := us\<rparr>\<rparr>)"
  by (simp add: levels_ok_def header_ok_def)

lemma indexupvalue_steady [steady]: "steady (indexupvalue G name k i)"
  by (auto simp: steady_def indexupvalue_def luaY_checklimit_def wls wl_errorlimit levels_ok_upvals split: option.split)

lemma outside_steady [steady]:
  fixes m :: "('d, 'a) parsing"
  assumes "steady m"
  shows "steady (outside m)"
  unfolding steady_def
proof (intro allI impI)
  fix s :: "'d parser"
  assume s: "levels_ok s"
  show "wl (outside m) (\<lambda>_ s'. ls s' = ls s \<and> nCcalls s' = nCcalls s \<and> levels_ok s') s"
  proof (cases "enclosing s")
    case (Cons l es)
    then have "levels_ok (s\<lparr>fs := fst l, fn := snd l, enclosing := es\<rparr>)"
      using s by (cases l) (simp add: levels_ok_def)
    from steadyD [OF assms this refl refl] show ?thesis
      using s by (cases l) (auto simp: outside_def wls Cons levels_ok_def elim!: wl_mono)
  qed (simp add: outside_def wls)
qed

lemma singlevaraux_steady [steady]: "steady (singlevaraux k G n base)"
  by (induction k arbitrary: base) (auto intro!: steady)

lemma adjust_assign_steady [steady]: "steady (adjust_assign G nvars nexps e)"
  by (auto simp: adjust_assign_def Let_def intro!: steady)

lemma enterblock_steady [steady]: "steady (enterblock b)"
  by (auto simp: enterblock_def intro!: steady)

lemma leaveblock_steady [steady]: "steady (leaveblock G)"
  by (auto simp: leaveblock_def intro!: steady)

lemma protos_steady: "prechecked f \<Longrightarrow> steady (upd_fn (\<lambda>N. N\<lparr>protos := protos N @ [f]\<rparr>))"
  by (auto simp: steady_def wls levels_ok_def header_ok_def)

lemma pushclosure_steady: "prechecked f \<Longrightarrow> steady (pushclosure G f us)"
  unfolding pushclosure_def
  by (rule steady_bnd, rule steady, rule steady_if, rule steady, rule steady_seq, erule protos_steady)
    (auto intro!: steady steady_steps)

lemma new_level_ok: "level_ok (new_FuncState t, new_FnState)"
  by (simp add: new_FuncState_def new_FnState_def code_ok_def header_ok_def MAXSTACK_def LUAI_MAXUPVALUES_def)

lemma open_func_steady [steady]:
  "steady (open_func G [])" "steady (bnd (get (\<lambda>s. (fs s, fn s) # enclosing s)) (open_func G))"
  by (auto simp: steady_def open_func_def wls levels_ok_def new_level_ok simp del: level_ok.simps)

text \<open>The last instruction of a function is its final return.\<close>

lemma code_last: "levels_ok s \<Longrightarrow> wl (luaK_code H i line) (\<lambda>_ s'. code (fs s') \<noteq> [] \<and> last (code (fs s')) = i) s"
  unfolding luaK_code_def seq_def [of "dischargejpc H"]
  by (rule wl_bndI [OF steadyD [OF dischargejpc_steady _ refl refl]]) (simp_all add: wls)

lemma proto_prechecked:
  assumes "level_ok (F, N)" "code F \<noteq> []" "is_op (last (code F)) OP_RETURN"
  shows "prechecked (proto_of src F N)"
proof -
  let ?p = "proto_of src F N"
  have F: "length (lineinfo F) = length (code F)" "2 \<le> maxstacksize F" "maxstacksize F < 250"
    using assms(1) by (simp_all add: code_ok_def MAXSTACK_def)
  have N: "length (upvals N) \<le> 60" "\<forall>q \<in> set (protos N). prechecked q"
      "is_vararg N AND VARARG_NEEDSARG = 0 \<or> is_vararg N AND VARARG_HASARG \<noteq> 0"
      "uint (numparams N) + uint (is_vararg N AND VARARG_HASARG) \<le> maxstacksize F"
    using assms(1) by (simp_all add: header_ok_def LUAI_MAXUPVALUES_def)
  have "maxstack ?p = maxstacksize F" using F by (simp add: proto_of_def uint_word_of_int)
  moreover have "nups ?p = int (length (upvals N))" using N(1) by (simp add: proto_of_def uint_nat unat_of_nat)
  moreover have "nat (pc F - 1) = length (code F) - 1" by arith
  then have "fetch ?p (sizecode ?p - 1) = Go (last (code F))"
    using assms(2) by (simp add: fetch_def proto_of_def last_conv_nth)
  ultimately have "precheck ?p = Go ()"
    using F N assms(2,3) by (simp add: precheck_def andthen_def check_that_def proto_of_def MAXSTACK_def)
  then show ?thesis using N(2) by (auto intro: prechecked.intros simp: proto_of_def)
qed

lemma close_func_prechecked:
  fixes G :: "('s, 'h, 'd) grammar"
  assumes "levels_ok s"
  shows "wl (close_func G) (\<lambda>r s'. prechecked (fst r) \<and> ls s' = ls s \<and> nCcalls s' = nCcalls s \<and> levels_ok s') s"
proof -
  have ret: "wl (luaK_ret (host G) 0 0) (\<lambda>_ s''. (ls s'' = ls s \<and> nCcalls s'' = nCcalls s \<and> levels_ok s'') \<and>
      code (fs s'') \<noteq> [] \<and> is_op (last (code (fs s''))) OP_RETURN) s'"
    if s': "ls s' = ls s \<and> nCcalls s' = nCcalls s \<and> levels_ok s'" for s' :: "'d parser"
  proof (rule wl_conj)
    show "wl (luaK_ret (host G) 0 0) (\<lambda>_ s''. ls s'' = ls s \<and> nCcalls s'' = nCcalls s \<and> levels_ok s'') s'"
      using s' by (intro steadyD [OF luaK_ret_steady]) simp_all
    show "wl (luaK_ret (host G) 0 0) (\<lambda>_ s''. code (fs s'') \<noteq> [] \<and> is_op (last (code (fs s''))) OP_RETURN) s'"
      unfolding luaK_ret_def luaK_codeABC_def
      by (subst wl_bnd, subst wl_bnd, subst wl_basic, rule wl_mono [OF code_last])
        (use s' in \<open>simp_all add: wls is_op_def opcode_CREATE_ABC\<close>)
  qed
  show ?thesis
    unfolding close_func_def seq_def [of "removevars 0"] seq_def [of "luaK_ret _ _ _"]
    by (rule wl_bndI [OF steadyD [OF removevars_steady assms refl refl]], rule wl_bndI [OF ret], assumption)
      (auto simp: wls levels_ok_def intro!: proto_prechecked simp del: level_ok.simps split: list.split)
qed

lemma close_func_steady [steady]: "steady (close_func G)"
  by (auto simp: steady_def elim!: wl_mono [OF close_func_prechecked])

text \<open>A closed function joins the one around it.\<close>

lemma close_push_steady [steady]: "steady (bnd (close_func G) (\<lambda>(f, us). pushclosure G f us))"
  unfolding steady_def
  by (intro allI impI, rule wl_bndI, erule close_func_prechecked)
    (auto intro!: steadyD [OF pushclosure_steady])

lemma closelistfield_steady [steady]: "steady (closelistfield G t cc)"
  by (auto simp: closelistfield_def Let_def intro!: steady)

lemma lastlistfield_steady [steady]: "steady (lastlistfield G t cc)"
  by (auto simp: lastlistfield_def intro!: steady)

lemma check_conflict_steady [steady]: "steady (check_conflict G lhs v)"
  by (auto simp: check_conflict_def intro!: steady)

lemma assign_last_steady [steady]: "steady (assign_last G lh)"
  by (auto simp: assign_last_def intro!: steady)

lemma breakstat_steady [steady]: "steady (breakstat G)"
  by (auto simp: breakstat_def intro!: steady)

lemma escape_steady [steady]: "steady (escape G esc flist)"
  by (auto simp: escape_def intro!: steady)

section \<open>Reading tokens\<close>

lemma input_mono: "input G c n s \<Longrightarrow> n \<le> m \<Longrightarrow> m < fuel G \<Longrightarrow> input G c m s"
  unfolding input_def by (auto intro: le_trans)

lemma input_fuel: "input G c n s \<Longrightarrow> n < fuel G"
  by (simp add: input_def)

lemma lexed_shorter: "lexed xs t ys \<Longrightarrow> length ys + of_bool (fst t \<noteq> TK_EOS) \<le> length xs"
  using suffix_length_less [of ys xs] by (auto simp: lexed_def strict_suffix_def split: if_splits)

lemma llex_wl:
  assumes "ahead rd xs l" "length xs < f"
  shows "wl (llex f H rd) (\<lambda>t l'. ls_ahead l' = ls_ahead l \<and>
           (\<exists>ys. ahead rd ys l' \<and> length ys + of_bool (fst t \<noteq> TK_EOS) \<le> length xs)) l"
  by (rule wp_wl, rule wp_mono [OF llex_forward [OF assms, of H]]) (use lexed_shorter in fastforce)+

lemma lex_next_input:
  assumes "input G c n s"
  shows "wl (lex_next G) (\<lambda>_ s'. (token (ls_t (ls s)) \<noteq> TK_EOS \<longrightarrow> 0 < n) \<and>
           input G c (if token (ls_t (ls s)) = TK_EOS then n else n - 1) s') s"
proof -
  obtain xs where xs: "nCcalls s = c" "n < fuel G" "levels_ok s" "ahead (reader G) xs (ls s)" "unread_tokens (ls s) xs \<le> n"
    using assms by (auto simp: input_def)
  let ?l = "(ls s)\<lparr>lastline := linenumber (ls s)\<rparr>"
  have "ahead (reader G) xs ?l" "length xs < fuel G"
    using xs by (auto simp: ahead_iff unread_tokens_def)
  note llex = llex_wl [OF this, of "host G"]
  show ?thesis
  proof (cases "token (ls_ahead (ls s)) = TK_EOS")
    case True
    have "wl (bnd (llex (fuel G) (host G) (reader G))
        (\<lambda>(tok, info). upd (\<lambda>ls. ls\<lparr>ls_t := \<lparr>token = tok, seminfo = set_info info (ls_t ls)\<rparr>\<rparr>)))
        (\<lambda>_ l'. (token (ls_t (ls s)) \<noteq> TK_EOS \<longrightarrow> 0 < n) \<and>
          input G c (if token (ls_t (ls s)) = TK_EOS then n else n - 1) (s\<lparr>ls := l'\<rparr>)) ?l"
      unfolding wl_bnd
      by (rule wl_mono [OF llex])
        (use True xs in \<open>auto simp: wls input_def unread_tokens_def ahead_iff split: if_splits; force\<close>)
    then show ?thesis using True by (simp add: lex_next_def wl_in_lexer luaX_next_def wls)
  next
    case False
    then have "unread_tokens (?l\<lparr>ls_t := ls_ahead (ls s), ls_ahead := (ls_ahead (ls s))\<lparr>token := TK_EOS\<rparr>\<rparr>) xs
        + of_bool (token (ls_t (ls s)) \<noteq> TK_EOS) = unread_tokens (ls s) xs"
      by (simp add: unread_tokens_def)
    then show ?thesis using False xs
      by (auto simp: lex_next_def wl_in_lexer luaX_next_def wls input_def ahead_iff intro!: exI [of _ xs])
  qed
qed

lemma lookahead_input:
  assumes "input G c n s" "token (ls_t (ls s)) \<noteq> TK_EOS"
  shows "wl (in_lexer (luaX_lookahead (fuel G) (host G) (reader G))) (\<lambda>_. input G c n) s"
proof -
  obtain xs where xs: "nCcalls s = c" "n < fuel G" "levels_ok s" "ahead (reader G) xs (ls s)" "unread_tokens (ls s) xs \<le> n"
    using assms by (auto simp: input_def)
  then have "length xs < fuel G" by (simp add: unread_tokens_def)
  note llex = llex_wl [OF xs(4) this, of "host G"]
  show ?thesis
    unfolding wl_in_lexer luaX_lookahead_def wl_bnd
    by (rule wl_mono [OF llex])
      (use xs assms(2) in \<open>auto simp: wls input_def unread_tokens_def ahead_iff split: if_splits; force\<close>)
qed

section \<open>Rules of the judgements\<close>

lemma calmD: "calm G c m \<Longrightarrow> input G c n s \<Longrightarrow> wl m (\<lambda>_. input G c n) s"
  by (simp add: calm_def)

lemma steady_input: "steady m \<Longrightarrow> input G c n s \<Longrightarrow> wl m (\<lambda>_. input G c n) s"
  by (rule wl_mono [OF steadyD [OF _ _ refl refl]]) (auto simp: input_def)

lemma calm_steady: "steady m \<Longrightarrow> calm G c m"
  by (simp add: calm_def steady_input)

lemma calmI: "(\<And>n s. input G c n s \<Longrightarrow> wl m (\<lambda>_. input G c n) s) \<Longrightarrow> calm G c m"
  by (simp add: calm_def)

lemma calm_bnd [calm]:
  assumes "calm G c m" "\<And>a. calm G c (f a)"
  shows "calm G c (bnd m f)"
  by (rule calmI, rule wl_bndI, rule calmD [OF assms(1)], assumption, rule calmD [OF assms(2)])

lemma calm_seq [calm]: "calm G c m \<Longrightarrow> calm G c n \<Longrightarrow> calm G c (seq m n)"
  unfolding seq_def by (rule calm_bnd)

lemma calm_if [calm]: "(b \<Longrightarrow> calm G c m) \<Longrightarrow> (\<not> b \<Longrightarrow> calm G c n) \<Longrightarrow> calm G c (if b then m else n)"
  by simp

lemma calm_upd_fs [calm]:
  assumes "\<And>F. length (lineinfo F) = length (code F) \<Longrightarrow> length (lineinfo (u F)) = length (code (u F))"
    "\<And>F. maxstacksize (u F) = maxstacksize F"
  shows "calm G c (upd_fs u)"
  by (rule calm_steady) (rule steady_upd_fs [OF assms])

lemma calm_steps [calm]: "calm G c (steps [])" "calm G c m \<Longrightarrow> calm G c (steps ms) \<Longrightarrow> calm G c (steps (m # ms))"
  by (simp_all add: calm calm_steady steady)

lemma calm_case_prod [calm]: "(\<And>a b. calm G c (f a b)) \<Longrightarrow> calm G c (case x of (a, b) \<Rightarrow> f a b)"
  by (cases x) simp

lemma calm_case_SemInfo [calm]:
  "calm G c l \<Longrightarrow> (\<And>r. calm G c (m r)) \<Longrightarrow> (\<And>b. calm G c (n b)) \<Longrightarrow>
    calm G c (case i of NoInfo \<Rightarrow> l | SNumber r \<Rightarrow> m r | SString b \<Rightarrow> n b)"
  by (cases i) simp_all

lemma calm_case_list [calm]:
  "calm G c m \<Longrightarrow> (\<And>a b. calm G c (f a b)) \<Longrightarrow> calm G c (case x of [] \<Rightarrow> m | a # b \<Rightarrow> f a b)"
  by (cases x) simp_all

lemma calm_lex_next [calm]: "calm G c (lex_next G)"
  unfolding calm_def by (auto intro!: wl_mono [OF lex_next_input] intro: input_mono simp: input_def split: if_splits)

lemma eats_lex_next: "eats G c (lex_next G)"
  unfolding eats_def by (auto intro!: wl_mono [OF lex_next_input])

lemma eatsD: "eats G c m \<Longrightarrow> input G c n s \<Longrightarrow> token (ls_t (ls s)) \<noteq> TK_EOS \<Longrightarrow>
    wl m (\<lambda>_ s'. 0 < n \<and> input G c (n - 1) s') s"
  by (simp add: eats_def)

lemma eatsI: "(\<And>n s. input G c n s \<Longrightarrow> token (ls_t (ls s)) \<noteq> TK_EOS \<Longrightarrow> wl m (\<lambda>_ s'. 0 < n \<and> input G c (n - 1) s') s) \<Longrightarrow>
    eats G c m"
  by (simp add: eats_def)

lemma eats_first:
  assumes "eats G c m" "\<And>a. calm G c (f a)"
  shows "eats G c (bnd m f)"
  by (rule eatsI, rule wl_bndI, rule eatsD [OF assms(1)], assumption+) (auto intro: wl_mono [OF calmD [OF assms(2)]])

lemma steady_input_token:
  "steady m \<Longrightarrow> input G c n s \<Longrightarrow> wl m (\<lambda>_ s'. input G c n s' \<and> ls_t (ls s') = ls_t (ls s)) s"
  by (rule wl_mono [OF steadyD [OF _ _ refl refl]]) (auto simp: input_def)

lemma eats_skip:
  assumes "steady m" "\<And>a. eats G c (f a)"
  shows "eats G c (bnd m f)"
  by (rule eatsI, rule wl_bndI, rule steady_input_token [OF assms(1)], assumption, rule eatsD [OF assms(2)]) simp_all

lemmas eats_first_seq = eats_first [of _ _ _ "\<lambda>_. _", folded seq_def]
lemmas eats_skip_seq = eats_skip [of _ _ _ "\<lambda>_. _", folded seq_def]

lemma eats_if: "(b \<Longrightarrow> eats G c m) \<Longrightarrow> (\<not> b \<Longrightarrow> eats G c n) \<Longrightarrow> eats G c (if b then m else n)"
  by simp

lemma eats_error: "eats G c (syntax_error G msg)"
  by (simp add: eats_def syntax_error_def wl_in_lexer luaX_syntaxerror_def wls wl_lexerror)

text \<open>The condition of a loop that has read a token when it is true.\<close>

definition gate :: "('s, 'h, 'd) grammar \<Rightarrow> int \<Rightarrow> ('d, bool) parsing \<Rightarrow> bool" where
  "gate G c m \<longleftrightarrow> (\<forall>n s. input G c n s \<longrightarrow> wl m (\<lambda>go s'. if go then 0 < n \<and> input G c (n - 1) s' else input G c n s') s)"

lemma gateD: "gate G c m \<Longrightarrow> input G c n s \<Longrightarrow>
    wl m (\<lambda>go s'. if go then 0 < n \<and> input G c (n - 1) s' else input G c n s') s"
  by (simp add: gate_def)

named_theorems gate \<open>conditions that read on\<close>

lemma gate_testnext [gate]: "t \<noteq> TK_EOS \<Longrightarrow> gate G c (testnext G t)"
  by (auto simp: gate_def testnext_def wls intro!: wl_mono [OF lex_next_input])

lemma gate_False [gate]: "gate G c (ret False)"
  by (simp add: gate_def wls)

lemma gate_if [gate]: "(b \<Longrightarrow> gate G c m) \<Longrightarrow> (\<not> b \<Longrightarrow> gate G c n) \<Longrightarrow> gate G c (if b then m else n)"
  by simp

lemma gateI: "(\<And>n s. input G c n s \<Longrightarrow> wl m (\<lambda>go s'. if go then 0 < n \<and> input G c (n - 1) s' else input G c n s') s) \<Longrightarrow>
    gate G c m"
  by (simp add: gate_def)

lemma gate_or [gate]:
  assumes "gate G c m" "gate G c n"
  shows "gate G c (bnd m (\<lambda>go. if go then ret True else n))"
  by (rule gateI, rule wl_bndI, rule gateD [OF assms(1)], assumption) (auto simp: wls intro: wl_mono [OF gateD [OF assms(2)]] split: if_splits)

lemma gate_skip:
  assumes "steady m" "\<And>a. gate G c (f a)"
  shows "gate G c (bnd m f)"
  by (rule gateI, rule wl_bndI, rule steady_input [OF assms(1)], assumption, rule gateD [OF assms(2)])

lemma calm_gate: "gate G c m \<Longrightarrow> calm G c m"
  by (rule calmI, rule wl_mono [OF gateD], assumption+) (auto intro: input_mono simp: input_def split: if_splits)

text \<open>A loop, each round of which reads a token or is the last one; \<open>P\<close> is what its variables promise.\<close>

definition turns :: "('s, 'h, 'd) grammar \<Rightarrow> int \<Rightarrow> ('a \<Rightarrow> 'd parser \<Rightarrow> bool) \<Rightarrow> ('a \<Rightarrow> ('d, bool) parsing) \<Rightarrow> ('a \<Rightarrow> ('d, 'a) parsing) \<Rightarrow> bool" where
  "turns G c P test work \<longleftrightarrow> (\<forall>a n s. input G c n s \<and> P a s \<longrightarrow>
     wl (test a) (\<lambda>go s'. if go then wl (work a) (\<lambda>a s''. 0 < n \<and> input G c (n - 1) s'' \<and> P a s'') s'
                       else input G c n s' \<and> P a s') s)"

lemma turnsD: "turns G c P test work \<Longrightarrow> input G c n s \<Longrightarrow> P a s \<Longrightarrow>
    wl (test a) (\<lambda>go s'. if go then wl (work a) (\<lambda>a s''. 0 < n \<and> input G c (n - 1) s'' \<and> P a s'') s'
                       else input G c n s' \<and> P a s') s"
  by (simp add: turns_def)

lemma loop_input:
  assumes "turns G c P test work"
  shows "n < f \<Longrightarrow> input G c n s \<Longrightarrow> P a s \<Longrightarrow> wl (loop f test work a) (\<lambda>a s'. input G c n s' \<and> P a s') s"
proof (induction f arbitrary: n a s)
  case (Suc f)
  have again: "wl (loop f test work a') (\<lambda>a s'. input G c n s' \<and> P a s') s'"
    if "0 < n \<and> input G c (n - 1) s' \<and> P a' s'" for a' s'
    by (rule wl_mono [OF Suc.IH [of "n - 1"]])
      (use that Suc.prems in \<open>auto intro: input_mono simp: input_def\<close>)
  show ?case unfolding loop.simps wl_bnd
    by (rule wl_mono [OF turnsD [OF assms Suc.prems(2,3)]])
      (auto simp: wls intro!: again elim: wl_mono split: if_splits)
qed simp

lemma calm_loop:
  assumes "turns G c (\<lambda>_ _. True) test work"
  shows "calm G c (loop (fuel G) test work a)"
  unfolding calm_def by (auto intro!: wl_mono [OF loop_input [OF assms]] simp: input_def)

lemma turns_gate:
  assumes "\<And>a. gate G c (test a)" "\<And>a. calm G c (work a)"
  shows "turns G c (\<lambda>_ _. True) test work"
  unfolding turns_def
  by (intro allI impI, elim conjE, rule wl_mono [OF gateD [OF assms(1)]], assumption)
    (auto intro: wl_mono [OF calmD [OF assms(2)]] split: if_splits)

lemma turns_token:
  assumes "\<And>a. \<not> p a TK_EOS" "\<And>a. eats G c (work a)"
  shows "turns G c (\<lambda>_ _. True) (\<lambda>a. bnd cur_token (\<lambda>t. ret (p a t))) work"
  unfolding turns_def
proof (intro allI impI, elim conjE)
  fix a n s
  assume "input G c n s"
  then have "wl (work a) (\<lambda>_ s'. 0 < n \<and> input G c (n - 1) s') s" if "p a (token (ls_t (ls s)))"
    using that assms(1) [of a] by (intro eatsD [OF assms(2)]) auto
  then show "wl (bnd cur_token (\<lambda>t. ret (p a t)))
      (\<lambda>go s'. if go then wl (work a) (\<lambda>a s''. 0 < n \<and> input G c (n - 1) s'' \<and> True) s' else input G c n s' \<and> True) s"
    using \<open>input G c n s\<close> by (simp add: wls)
qed

end
