(* ===== verification/Parsing.thy ===== *)
theory Parsing
  imports Judgements
begin

text \<open>
  Parsing ends: the rules read on in the input, every loop and every level of the grammar has the
  rounds it needs, and the parser returns only at the end of the input. What it returns passes the
  first checks of the code checker.
\<close>

unbundle bit_operations_syntax

declare ret_run [simp del] get_run [simp del] upd_run [simp del]

section \<open>Expressions\<close>

text \<open>
  What the rules may rely on in the calls through \<open>G\<close>: they read on, and when \<open>subexpr\<close> returns an
  operator, that is the current token.
\<close>

definition before_operator :: "expdesc \<times> BinOpr \<Rightarrow> 'd parser \<Rightarrow> bool" where
  "before_operator r s \<longleftrightarrow> (snd r \<noteq> OPR_NOBINOPR \<longrightarrow> token (ls_t (ls s)) \<noteq> TK_EOS)"

definition calls_ok :: "('s, 'h, 'd) grammar \<Rightarrow> int \<Rightarrow> bool" where
  "calls_ok G c \<longleftrightarrow>
     (\<forall>lim n s. input G c n s \<longrightarrow> wl (subexpr_rec G lim) (\<lambda>r s'. input G c n s' \<and> before_operator r s') s) \<and>
     calm G c (chunk_rec G)"

lemma calm_subexpr_rec [calm]: "calls_ok G c \<Longrightarrow> calm G c (subexpr_rec G lim)"
  unfolding calls_ok_def by (rule calmI) (blast intro: wl_mono)

lemma calm_chunk_rec [calm]: "calls_ok G c \<Longrightarrow> calm G c (chunk_rec G)"
  by (simp add: calls_ok_def)

lemma sym_EOS [simp]: "char2int b \<noteq> TK_EOS" "TK_EOS \<noteq> char2int b"
proof -
  have "char2int b < 256" using uint_lt2p [of b] by (simp add: char2int_def)
  then show "char2int b \<noteq> TK_EOS" by (simp add: token_defs)
  then show "TK_EOS \<noteq> char2int b" by simp
qed

lemmas reserved_defs = TK_AND_def TK_BREAK_def TK_DO_def TK_ELSE_def TK_ELSEIF_def TK_END_def TK_FALSE_def TK_FOR_def
  TK_FUNCTION_def TK_IF_def TK_IN_def TK_LOCAL_def TK_NIL_def TK_NOT_def TK_OR_def TK_REPEAT_def TK_RETURN_def
  TK_THEN_def TK_TRUE_def TK_UNTIL_def TK_WHILE_def

lemma calm_testnext [calm]: "calm G c (testnext G t)"
  by (auto simp: testnext_def intro!: calm intro: calm_steady steady)

lemma calm_checknext [calm]: "calm G c (checknext G t)"
  by (auto simp: checknext_def intro!: calm intro: calm_steady steady)

lemma calm_check_match [calm]: "calm G c (check_match G what who wher)"
  by (auto simp: check_match_def intro!: calm intro: calm_steady steady)

lemma calm_str_checkname [calm]: "calm G c (str_checkname G)"
  by (auto simp: str_checkname_def intro!: calm intro: calm_steady steady)

lemma calm_checkname [calm]: "calm G c (checkname G)"
  by (auto simp: checkname_def intro!: calm intro: calm_steady steady)

lemma calm_singlevar [calm]: "calm G c (singlevar G)"
  by (auto simp: singlevar_def intro!: calm intro: calm_steady steady)

lemma calm_expr [calm]: "calls_ok G c \<Longrightarrow> calm G c (expr G)"
  by (auto simp: expr_def intro!: calm intro: calm_steady steady)

lemma calm_field [calm]: "calm G c (field G v)"
  by (auto simp: field_def intro!: calm intro: calm_steady steady)

lemma calm_yindex [calm]: "calls_ok G c \<Longrightarrow> calm G c (yindex G)"
  by (auto simp: yindex_def intro!: calm intro: calm_steady steady)

lemma calm_recfield [calm]: "calls_ok G c \<Longrightarrow> calm G c (recfield G t cc)"
  by (auto simp: recfield_def intro!: calm intro: calm_steady steady)

lemma calm_listfield [calm]: "calls_ok G c \<Longrightarrow> calm G c (listfield G cc)"
  by (auto simp: listfield_def intro!: calm intro: calm_steady steady)

text \<open>The token that is read ahead is asked for at a name, so that the current token is not the end.\<close>

lemma constructor_name:
  assumes "calls_ok G c" "input G c n s" "token (ls_t (ls s)) = TK_NAME"
  shows "wl (seq (in_lexer (luaX_lookahead (fuel G) (host G) (reader G)))
           (bnd (get (\<lambda>s. token (ls_ahead (ls s)))) (\<lambda>nxt.
             if nxt \<noteq> sym CHR ''='' then listfield G cc else recfield G t cc))) (\<lambda>_. input G c n) s"
  unfolding seq_def
proof (rule wl_bndI, rule lookahead_input [OF assms(2)])
  show "token (ls_t (ls s)) \<noteq> TK_EOS" using assms(3) by (simp add: token_defs)
  fix a s'
  assume "input G c n s'"
  then show "wl (bnd (get (\<lambda>s. token (ls_ahead (ls s)))) (\<lambda>nxt.
             if nxt \<noteq> sym CHR ''='' then listfield G cc else recfield G t cc)) (\<lambda>_. input G c n) s'"
    by (rule calmD [rotated]) (use assms(1) in \<open>auto intro!: calm intro: calm_steady steady\<close>)
qed

lemma calm_constructor_item [calm]:
  fixes G :: "('s, 'h, 'd) grammar"
  assumes "calls_ok G c"
  shows "calm G c (constructor_item G t x)"
proof (cases x, simp only: constructor_item_def prod.case, rule calmI, rule wl_bndI)
  fix cc n and s :: "'d parser"
  let ?item = "\<lambda>tok cc. if tok = TK_NAME then
      seq (in_lexer (luaX_lookahead (fuel G) (host G) (reader G)))
        (bnd (get (\<lambda>s. token (ls_ahead (ls s)))) (\<lambda>nxt. if nxt \<noteq> sym CHR ''='' then listfield G cc else recfield G t cc))
    else if tok = sym CHR ''['' then recfield G t cc else listfield G cc"
  assume "input G c n s"
  then show "wl cur_token (\<lambda>a s'. a = token (ls_t (ls s')) \<and> input G c n s') s" by (simp add: wls)
  fix tok and s' :: "'d parser"
  assume *: "tok = token (ls_t (ls s')) \<and> input G c n s'"
  have item: "wl (?item tok cc) (\<lambda>_. input G c n) s''"
    if "input G c n s'' \<and> ls_t (ls s'') = ls_t (ls s')" for cc s''
    using that * assms constructor_name [OF assms, of n s'' cc t] by (auto intro: calmD [OF calm_recfield] calmD [OF calm_listfield])
  have "wl (bnd (closelistfield G t cc) (\<lambda>cc. bnd (?item tok cc) (\<lambda>cc. ret (cc, False)))) (\<lambda>_. input G c n) s'"
    by (rule wl_bndI, rule steady_input_token [OF closelistfield_steady conjunct2 [OF *]], rule wl_bndI, rule item, assumption)
      (simp add: wls)
  then show "wl (if tok = sym CHR ''}'' then ret (cc, True)
      else bnd (closelistfield G t cc) (\<lambda>cc. bnd (?item tok cc) (\<lambda>cc. ret (cc, False)))) (\<lambda>_. input G c n) s'"
    using * by (simp add: wls)
qed

lemma gate_constructor_more [gate]: "gate G c (constructor_more G x)"
  by (cases x) (auto simp: constructor_more_def intro!: gate)

lemma calm_constructor [calm]: "calls_ok G c \<Longrightarrow> calm G c (constructor G)"
  by (auto simp: constructor_def intro!: calm calm_loop turns_gate gate intro: calm_steady steady)

subsection \<open>Parameters\<close>

text \<open>Reading and declaring variables leave the first free register and the header of the function alone.\<close>

definition header :: "'d parser \<Rightarrow> int \<times> int \<times> u8 \<times> u8" where
  "header s = (freereg (fs s), nactvar (fs s), numparams (fn s), is_vararg (fn s))"

definition bare :: "('d, 'a) parsing \<Rightarrow> bool" where
  "bare m \<longleftrightarrow> (\<forall>s a s'. m s = Val a s' \<longrightarrow> header s' = header s)"

named_theorems bare \<open>programs that leave the header alone\<close>

lemma wl_bare: "wl m Q s \<Longrightarrow> bare m \<Longrightarrow> wl m (\<lambda>a s'. Q a s' \<and> header s' = header s) s"
  by (auto simp: wl_def bare_def split: res.splits)

lemma bare_rules [bare]: "bare (ret a)" "bare (get g)" "bare undef" "bare (raise e)" "bare (in_lexer l)"
  by (auto simp: bare_def in_lexer_def header_def ret_run get_run split: res.splits)

lemma bare_bnd [bare]: "bare m \<Longrightarrow> (\<And>a. bare (f a)) \<Longrightarrow> bare (bnd m f)"
  unfolding bare_def bnd_eq_Val by metis

lemma bare_seq [bare]: "bare m \<Longrightarrow> bare n \<Longrightarrow> bare (seq m n)"
  unfolding seq_def by (rule bare_bnd)

lemma bare_if [bare]: "(b \<Longrightarrow> bare m) \<Longrightarrow> (\<not> b \<Longrightarrow> bare n) \<Longrightarrow> bare (if b then m else n)"
  by simp

lemma bare_steps: "(\<And>m. m \<in> set ms \<Longrightarrow> bare m) \<Longrightarrow> bare (steps ms)"
  by (induction ms) (simp_all add: bare)

lemma bare_upd_fn [bare]:
  "(\<And>N. numparams (u N) = numparams N \<and> is_vararg (u N) = is_vararg N) \<Longrightarrow> bare (upd_fn u)"
  by (auto simp: bare_def header_def upd_run)

lemma bare_tokens [bare]: "bare (lex_next G)" "bare (syntax_error G msg)" "bare (errorlimit G limit what)"
  by (auto simp: lex_next_def syntax_error_def errorlimit_def Let_def intro!: bare)

lemma bare_checks [bare]: "bare (luaY_checklimit G v lim what)" "bare (check G t)" "bare (checknext G t)" "bare (testnext G t)"
  by (auto simp: luaY_checklimit_def check_def checknext_def testnext_def error_expected_def intro!: bare)

lemma bare_str_checkname [bare]: "bare (str_checkname G)"
  by (auto simp: str_checkname_def token_string_def intro!: bare split: SemInfo.split)

lemma bare_upd_locvar [bare]: "bare (upd_locvar i u)"
  by (auto simp: upd_locvar_def intro!: bare split: option.split)

lemma bare_registerlocalvar [bare]: "bare (registerlocalvar name)"
  by (auto simp: registerlocalvar_def intro!: bare)

lemma bare_new_localvar [bare]: "bare (new_localvar G name k)"
  by (auto simp: new_localvar_def intro!: bare)

text \<open>
  Before its first instruction a function has no register in use, and \<open>k\<close> variables wait to become
  active; a vararg function has the parameter \<open>arg\<close> among them.
\<close>

definition waiting :: "int \<Rightarrow> 'd parser \<Rightarrow> bool" where
  "waiting k s \<longleftrightarrow> freereg (fs s) = 0 \<and> numparams (fn s) = 0 \<and> 0 \<le> k \<and> 0 \<le> nactvar (fs s) \<and>
     nactvar (fs s) + k \<le> LUAI_MAXVARS \<and> (is_vararg (fn s) AND VARARG_HASARG \<noteq> 0 \<longrightarrow> 0 < k)"

lemma waiting_header: "header s' = header s \<Longrightarrow> waiting k s' = waiting k s"
  by (simp add: waiting_def header_def)

lemma calm_waiting:
  "calm G c m \<Longrightarrow> bare m \<Longrightarrow> input G c n s \<and> waiting k s \<Longrightarrow> wl m (\<lambda>_ s'. input G c n s' \<and> waiting k s') s"
  by (rule wl_mono [OF wl_bare [OF calmD [of G c m n s]]]) (use waiting_header in blast)+

lemma new_localvar_waiting:
  assumes "input G c n s \<and> waiting k s"
  shows "wl (new_localvar G name k) (\<lambda>_ s'. input G c n s' \<and> waiting (k + 1) s' \<and> header s' = header s) s"
proof -
  have "wl (new_localvar G name k) (\<lambda>_ _. nactvar (fs s) + k + 1 \<le> LUAI_MAXVARS) s"
    using wl_errorlimit by (auto simp: new_localvar_def luaY_checklimit_def registerlocalvar_def wls)
  then have "wl (new_localvar G name k) (\<lambda>_ s'. (input G c n s' \<and> nactvar (fs s) + k + 1 \<le> LUAI_MAXVARS) \<and> header s' = header s) s"
    using assms by (intro wl_bare wl_conj steady_input [OF new_localvar_steady] bare) simp_all
  then show ?thesis
    by (rule wl_mono) (use assms in \<open>auto simp: waiting_def header_def\<close>)
qed

lemma vararg_waiting:
  assumes "input G c n s \<and> waiting k s" "0 < k" "v \<in> {VARARG_HASARG OR VARARG_NEEDSARG, (VARARG_HASARG OR VARARG_NEEDSARG) OR VARARG_ISVARARG}"
  shows "input G c n (s\<lparr>fn := (fn s)\<lparr>is_vararg := v\<rparr>\<rparr>) \<and> waiting k (s\<lparr>fn := (fn s)\<lparr>is_vararg := v\<rparr>\<rparr>)"
  using assms
  by (auto simp: input_def waiting_def levels_ok_def header_ok_def code_ok_def VARARG_HASARG_def VARARG_NEEDSARG_def VARARG_ISVARARG_def)

lemma param_waiting:
  assumes "input G c n s \<and> waiting k s"
  shows "wl (param G k) (\<lambda>k s'. input G c n s' \<and> waiting k s') s"
proof -
  have name: "wl (bnd (str_checkname G) (\<lambda>nm. seq (new_localvar G nm k) (ret (k + 1)))) (\<lambda>k s'. input G c n s' \<and> waiting k s') s"
    unfolding seq_def
    by (rule wl_bndI [OF calm_waiting [OF calm_str_checkname bare_str_checkname assms]],
        rule wl_bndI [OF new_localvar_waiting], assumption) (simp add: wls)
  have dots: "wl (seq (lex_next G) (seq (new_localvar G (lit ''arg'') k)
         (seq (upd_fn (\<lambda>N. N\<lparr>is_vararg := VARARG_HASARG OR VARARG_NEEDSARG\<rparr>))
         (seq (upd_fn (\<lambda>N. N\<lparr>is_vararg := is_vararg N OR VARARG_ISVARARG\<rparr>))
           (ret (k + 1)))))) (\<lambda>k s'. input G c n s' \<and> waiting k s') s"
    unfolding seq_def [of "lex_next G"] seq_def [of "new_localvar _ _ _"]
    by (rule wl_bndI [OF calm_waiting [OF calm_lex_next bare_tokens(1) assms]], rule wl_bndI [OF new_localvar_waiting], assumption)
      (use vararg_waiting [of G c n _ "k + 1"] assms in \<open>auto simp: wls waiting_def [of k]\<close>)
  show ?thesis unfolding param_def
    by (subst wl_bnd, subst wl_basic, intro wl_if name dots) (simp add: syntax_error_def wl_syntaxerror)
qed

lemma param_turn: "turns G c waiting (param_more G) (param G)"
  unfolding turns_def
proof (intro allI impI, elim conjE)
  fix k n s
  assume *: "input G c n s" "waiting k s"
  have "wl (param G k) (\<lambda>k s''. 0 < n \<and> input G c (n - 1) s'' \<and> waiting k s'') s'"
    if "0 < n \<and> input G c (n - 1) s'" "header s' = header s" for s'
    by (rule wl_mono [OF param_waiting [of G c "n - 1"]]) (use that * waiting_header [OF that(2)] in auto)
  moreover have "waiting k s'" if "header s' = header s" for s'
    using waiting_header [OF that] * by simp
  ultimately show "wl (param_more G k) (\<lambda>go s'. if go then wl (param G k) (\<lambda>k s''. 0 < n \<and> input G c (n - 1) s'' \<and> waiting k s'') s'
      else input G c n s' \<and> waiting k s') s"
    unfolding param_more_def wl_bnd wl_basic
    by (intro wl_if wl_mono [OF wl_bare [OF gateD [OF gate_testnext *(1)]]]) (auto simp: wls bare * split: if_splits)
qed

lemma adjustlocalvars_waiting:
  assumes "input G c n s \<and> waiting k s"
  shows "wl (adjustlocalvars k) (\<lambda>_ s'. input G c n s' \<and>
     header s' = (0, nactvar (fs s) + k, 0, is_vararg (fn s))) s"
proof -
  let ?s = "s\<lparr>fs := (fs s)\<lparr>nactvar := (nactvar (fs s) + k) mod 256\<rparr>\<rparr>"
  have s: "input G c n ?s" "header ?s = (0, nactvar (fs s) + k, 0, is_vararg (fn s))"
    using assms by (auto simp: input_def levels_ok_def code_ok_def waiting_def header_def LUAI_MAXVARS_def)
  let ?rest = "bnd (get fs) (\<lambda>F. steps (map (\<lambda>i. upd_locvar i (\<lambda>v. v\<lparr>startpc := pc F\<rparr>)) [nactvar F - k .. nactvar F - 1]))"
  have "steady ?rest" "bare ?rest"
    by (auto intro!: steady steady_steps bare bare_steps)
  then have "wl ?rest (\<lambda>_ s'. input G c n s' \<and> header s' = header ?s) ?s"
    using s(1) by (intro wl_bare steady_input)
  then show ?thesis using s(2) by (simp add: adjustlocalvars_def wls)
qed

lemma params_close:
  assumes "input G c n s \<and> waiting k s"
  shows "wl (seq (adjustlocalvars k) (bnd (get_fs nactvar) (\<lambda>m.
       seq (upd_fn (\<lambda>N. N\<lparr>numparams := word_of_int (m - uint (is_vararg N AND VARARG_HASARG))\<rparr>))
         (luaK_reserveregs (host G) m)))) (\<lambda>_. input G c n) s"
  unfolding seq_def [of "adjustlocalvars k"]
proof (rule wl_bndI [OF adjustlocalvars_waiting [OF assms]])
  fix s'
  assume s': "input G c n s' \<and> header s' = (0, nactvar (fs s) + k, 0, is_vararg (fn s))"
  define m where "m = nactvar (fs s) + k"
  have flag: "is_vararg (fn s) AND VARARG_HASARG = (if bit (is_vararg (fn s)) 0 then 1 else 0)"
    by (simp add: VARARG_HASARG_def and_one_eq odd_iff_mod_2_eq_one bit_0)
  have m: "0 \<le> m" "m \<le> 200" "bit (is_vararg (fn s)) 0 \<Longrightarrow> 0 < m"
    using assms by (auto simp: waiting_def m_def LUAI_MAXVARS_def flag)
  have np: "uint (word_of_int m :: u8) = m" "0 < m \<Longrightarrow> uint (word_of_int m - 1 :: u8) = m - 1"
    using m by (simp_all add: uint_word_of_int uint_word_ariths)
  show "wl (bnd (get_fs nactvar) (\<lambda>m.
       seq (upd_fn (\<lambda>N. N\<lparr>numparams := word_of_int (m - uint (is_vararg N AND VARARG_HASARG))\<rparr>))
         (luaK_reserveregs (host G) m))) (\<lambda>_. input G c n) s'"
    using s' m np
    by (auto simp: wls luaK_reserveregs_def luaK_checkstack_def wl_syntaxerror input_def levels_ok_def code_ok_def header_ok_def
      header_def MAXSTACK_def flag simp flip: m_def)
qed

lemma parlist_input:
  assumes "input G c n s \<and> waiting 0 s"
  shows "wl (parlist G) (\<lambda>_. input G c n) s"
proof -
  let ?s = "s\<lparr>fn := (fn s)\<lparr>is_vararg := 0\<rparr>\<rparr>"
  have s: "input G c n ?s \<and> waiting 0 ?s"
    using assms wl_basic(3) [of "\<lambda>s. s\<lparr>fn := (fn s)\<lparr>is_vararg := 0\<rparr>\<rparr>" "\<lambda>_. input G c n" s]
      steady_input [OF steady_no_arg(1), of G c n s] by (auto simp: waiting_def)
  then have fuel: "n < fuel G" by (simp add: input_def)
  have params: "wl (bnd (param G 0) (loop (fuel G) (param_more G) (param G))) (\<lambda>k s'. input G c n s' \<and> waiting k s') ?s"
    by (rule wl_bndI [OF param_waiting [OF s]], elim conjE, rule loop_input [OF param_turn fuel])
  have "wl (if tok \<noteq> sym CHR '')'' then bnd (param G 0) (loop (fuel G) (param_more G) (param G)) else ret 0)
      (\<lambda>k s'. input G c n s' \<and> waiting k s') ?s" for tok
    by (intro wl_if params) (use s in \<open>simp add: wls\<close>)
  then show ?thesis
    unfolding parlist_def wl_seq wl_bnd [of cur_token] wl_basic
    by (rule wl_bndI) (rule params_close)
qed

lemma open_waiting:
  assumes "input G c n s"
  shows "wl (bnd (get (\<lambda>s. (fs s, fn s) # enclosing s)) (open_func G)) (\<lambda>_ s'. input G c n s' \<and> waiting 0 s') s"
  using assms new_level_ok [of "kaddress G"]
  by (auto simp: wls open_func_def input_def levels_ok_def waiting_def new_FuncState_def new_FnState_def LUAI_MAXVARS_def
      simp del: level_ok.simps)

lemma self_waiting:
  assumes "input G c n s \<and> waiting 0 s"
  shows "wl (if needself then seq (new_localvar G name 0) (adjustlocalvars 1) else ret ()) (\<lambda>_ s'. input G c n s' \<and> waiting 0 s') s"
proof (rule wl_if)
  show "wl (seq (new_localvar G name 0) (adjustlocalvars 1)) (\<lambda>_ s'. input G c n s' \<and> waiting 0 s') s"
    unfolding seq_def
  proof (rule wl_bndI [OF new_localvar_waiting [OF assms]])
    fix s'
    assume "input G c n s' \<and> waiting (0 + 1) s' \<and> header s' = header s"
    then have s': "input G c n s' \<and> waiting 1 s'" "header s' = header s" by simp_all
    show "wl (adjustlocalvars 1) (\<lambda>_ s'. input G c n s' \<and> waiting 0 s') s'"
      by (rule wl_mono [OF adjustlocalvars_waiting [OF s'(1)]])
        (use assms s' in \<open>auto simp: waiting_def header_def\<close>)
  qed
qed (use assms in \<open>simp add: wls\<close>)

lemma calm_body [calm]:
  assumes "calls_ok G c"
  shows "calm G c (body G needself line)"
proof (rule calmI)
  fix n s
  assume s: "input G c n s"
  let ?rest = "seq (checknext G (sym CHR '')'')) (seq (chunk_rec G)
     (seq (bnd (get (\<lambda>s. linenumber (ls s))) (\<lambda>l. upd_fn (\<lambda>N. N\<lparr>lastlinedefined := l\<rparr>)))
     (seq (check_match G TK_END TK_FUNCTION line)
     (bnd (close_func G) (\<lambda>(f, us). pushclosure G f us)))))"
  have "steady (bnd (get (\<lambda>s. linenumber (ls s))) (\<lambda>l. upd_fn (\<lambda>N. N\<lparr>lastlinedefined := l\<rparr>)))"
    by (auto intro!: steady)
  then have rest: "calm G c ?rest"
    by (intro calm_seq calm_checknext calm_chunk_rec [OF assms] calm_check_match calm_steady [OF close_push_steady] calm_steady)
  have line: "calm G c (upd_fn (\<lambda>N. N\<lparr>linedefined := line\<rparr>))" "bare (upd_fn (\<lambda>N. N\<lparr>linedefined := line\<rparr>))"
    by (rule calm_steady, auto intro!: steady bare)
  show "wl (body G needself line) (\<lambda>_. input G c n) s"
    unfolding body_def seq_def [of "bnd (get _) (open_func G)"] seq_def [of "upd_fn (\<lambda>N. N\<lparr>linedefined := line\<rparr>)"]
      seq_def [of "checknext G (sym CHR ''('')"] seq_def [of "if needself then _ else _"] seq_def [of "parlist G"]
    by (rule wl_bndI [OF open_waiting [OF s]], rule wl_bndI [OF calm_waiting [OF line]], assumption,
        rule wl_bndI [OF calm_waiting [OF calm_checknext bare_checks(3)]], assumption,
        rule wl_bndI [OF self_waiting], assumption, rule wl_bndI [OF parlist_input], assumption,
        rule calmD [OF rest])
qed

subsection \<open>Calls and operands\<close>

lemma calm_explist1 [calm]: "calls_ok G c \<Longrightarrow> calm G c (explist1 G)"
  by (auto simp: explist1_def intro!: calm calm_loop turns_gate gate intro: calm_steady steady)

lemma calm_args [calm]: "calls_ok G c \<Longrightarrow> calm G c (args G line)"
  by (auto simp: args_def intro!: calm intro: calm_steady steady)

lemma calm_funcargs [calm]: "calls_ok G c \<Longrightarrow> calm G c (funcargs G v)"
  by (auto simp: funcargs_def Let_def intro!: calm intro: calm_steady steady)

lemma calm_prefixexp [calm]: "calls_ok G c \<Longrightarrow> calm G c (prefixexp G)"
  by (auto simp: prefixexp_def intro!: calm intro: calm_steady steady)

lemma reserved_EOS [simp]:
  "TK_AND \<noteq> TK_EOS" "TK_ELSEIF \<noteq> TK_EOS" "TK_FUNCTION \<noteq> TK_EOS" "TK_NAME \<noteq> TK_EOS" "TK_STRING \<noteq> TK_EOS" "TK_EOS \<noteq> TK_STRING"
  by (simp_all add: reserved_defs token_defs)

lemma eats_checknext: "eats G c (checknext G t)"
  unfolding checknext_def by (rule eats_skip_seq [OF checks_steady(3) eats_lex_next])

lemma eats_str_checkname: "eats G c (str_checkname G)"
  unfolding str_checkname_def
  by (intro eats_skip_seq eats_skip eats_first_seq eats_lex_next) (auto intro: calm_steady steady)

lemma eats_singlevar: "eats G c (singlevar G)"
  unfolding singlevar_def
  by (rule eats_first [OF eats_str_checkname]) (auto intro!: calm intro: calm_steady steady)

lemma eats_field: "eats G c (field G v)"
  unfolding field_def
  by (rule eats_skip, rule steady, rule eats_first_seq [OF eats_lex_next]) (auto intro!: calm intro: calm_steady steady)

lemma eats_yindex: "calls_ok G c \<Longrightarrow> eats G c (yindex G)"
  unfolding yindex_def
  by (rule eats_first_seq [OF eats_lex_next]) (auto intro!: calm intro: calm_steady steady)

lemma eats_constructor: "calls_ok G c \<Longrightarrow> eats G c (constructor G)"
  unfolding constructor_def
  by (intro eats_skip steady, rule eats_first_seq [OF eats_checknext])
    (auto intro!: calm calm_loop turns_gate gate intro: calm_steady steady)

lemma eats_args: "calls_ok G c \<Longrightarrow> eats G c (args G line)"
  unfolding args_def
proof (rule eats_skip [OF steady_rules(2)], intro eats_if eats_error eats_constructor)
  assume G: "calls_ok G c"
  let ?rest = "bnd cur_token (\<lambda>tok.
      bnd (if tok = sym CHR '')'' then ret (init_exp VVOID 0)
           else bnd (explist1 G) (\<lambda>(_, v). seq (luaK_setreturns (host G) v LUA_MULTRET) (ret v))) (\<lambda>v.
      seq (check_match G (sym CHR '')'') (sym CHR ''('') line) (ret v)))"
  have "calm G c ?rest" using G by (auto intro!: calm intro: calm_steady steady)
  then have more: "eats G c (seq (lex_next G) ?rest)" by (rule eats_first_seq [OF eats_lex_next])
  show "eats G c (bnd (get (\<lambda>s. lastline (ls s))) (\<lambda>last_line.
      seq (if line \<noteq> last_line then syntax_error G (lit ''ambiguous syntax (function call x new statement)'') else ret ())
      (seq (lex_next G) ?rest)))"
    by (rule eats_skip, rule steady, rule eats_skip_seq, rule steady_if, rule steady, rule steady, rule more)
  have "eats G c (seq (lex_next G) (ret v))" for v
    by (rule eats_first_seq [OF eats_lex_next calm_steady]) (rule steady)
  then show "eats G c (bnd token_string (\<lambda>s. bnd (codestring s) (\<lambda>v. seq (lex_next G) (ret v))))"
    by (intro eats_skip steady)
qed

lemma eats_funcargs: "calls_ok G c \<Longrightarrow> eats G c (funcargs G v)"
  unfolding funcargs_def
  by (rule eats_skip, rule steady, rule eats_first [OF eats_args], assumption)
    (auto simp: Let_def intro!: calm intro: calm_steady steady)

lemma eats_prefixexp: "calls_ok G c \<Longrightarrow> eats G c (prefixexp G)"
  unfolding prefixexp_def
  by (rule eats_skip, rule steady, intro eats_if eats_error eats_singlevar, rule eats_skip, rule steady,
      rule eats_first_seq [OF eats_lex_next])
    (auto intro!: calm intro: calm_steady steady)

lemma eats_suffixexp: "calls_ok G c \<Longrightarrow> eats G c (suffixexp G v)"
  unfolding suffixexp_def
  by (rule eats_skip, rule steady, intro eats_if eats_field,
      rule eats_skip, rule steady, rule eats_first [OF eats_yindex], assumption, rule calm_steady, rule steady,
      rule eats_first_seq [OF eats_lex_next], (auto intro!: calm intro: calm_steady steady)[1],
      rule eats_skip, rule steady, rule eats_funcargs)

lemma suffixes_turn: "calls_ok G c \<Longrightarrow>
    turns G c (\<lambda>_ _. True) (\<lambda>_. bnd cur_token (\<lambda>tok. ret (tok \<in> suffix_tokens))) (suffixexp G)"
  by (rule turns_token) (auto simp: suffix_tokens_def intro: eats_suffixexp)

lemma calm_primaryexp [calm]: "calls_ok G c \<Longrightarrow> calm G c (primaryexp G)"
  unfolding primaryexp_def by (intro calm calm_loop suffixes_turn)

lemma eats_primaryexp: "calls_ok G c \<Longrightarrow> eats G c (primaryexp G)"
  unfolding primaryexp_def by (intro eats_first eats_prefixexp calm_loop suffixes_turn)

lemma calm_simpleexp [calm]: "calls_ok G c \<Longrightarrow> calm G c (simpleexp G)"
  by (auto simp: simpleexp_def Let_def intro!: calm calm_steady [OF steady_needsarg] intro: calm_steady steady)

text \<open>A level of the grammar is entered below the limit.\<close>

lemma enterlevel_input:
  "input G c n s \<Longrightarrow> wl (enterlevel G) (\<lambda>_ s'. input G (c + 1) n s' \<and> c < int LUAI_MAXCCALLS) s"
  by (auto simp: enterlevel_def wls wl_in_lexer wl_lexerror input_def)

lemma leavelevel_input: "input G (c + 1) n s \<and> P (ls s) \<Longrightarrow> wl leavelevel (\<lambda>_ s'. input G c n s' \<and> P (ls s')) s"
  by (auto simp: leavelevel_def wls input_def)

lemma operator_not_EOS: "getbinopr t \<noteq> OPR_NOBINOPR \<Longrightarrow> t \<noteq> TK_EOS"
  by (auto simp: getbinopr_def binary_def reserved_defs token_defs char2int_def)

lemma operand_turn:
  assumes "calls_ok G c"
  shows "turns G c before_operator (\<lambda>(v, op). ret (op \<noteq> OPR_NOBINOPR \<and> lim < fst (priority op)))
     (\<lambda>(v, op). seq (lex_next G) (bnd (luaK_infix (host G) op v) (\<lambda>v.
        bnd (subexpr_rec G (snd (priority op))) (\<lambda>(v2, nextop).
        bnd (luaK_posfix (arith G) (host G) op v v2) (\<lambda>v. ret (v, nextop))))))"
  unfolding turns_def
proof (intro allI impI, elim conjE, clarsimp simp: wl_basic before_operator_def)
  fix v op n s
  assume *: "input G c n s" "token (ls_t (ls s)) \<noteq> TK_EOS"
  let ?Q = "\<lambda>r s'. 0 < n \<and> input G c (n - 1) s' \<and> before_operator r s'"
  have finish: "wl (bnd (luaK_posfix (arith G) (host G) op v v2) (\<lambda>v. ret (v, nextop))) ?Q s'"
    if "input G c (n - 1) s' \<and> before_operator (v2, nextop) s'" "0 < n" for v v2 nextop s'
    by (rule wl_bndI, rule steady_input_token [OF luaK_posfix_steady], rule conjunct1 [OF that(1)])
      (use that in \<open>simp add: wls before_operator_def\<close>)
  have "wl (bnd (subexpr_rec G (snd (priority op))) (\<lambda>(v2, nextop).
        bnd (luaK_posfix (arith G) (host G) op v v2) (\<lambda>v. ret (v, nextop)))) ?Q s'"
    if "input G c (n - 1) s'" "0 < n" for v s'
    by (rule wl_bndI [where R = "\<lambda>r s'. input G c (n - 1) s' \<and> before_operator r s'"])
      (use assms that finish in \<open>auto simp: calls_ok_def\<close>)
  then have "wl (bnd (luaK_infix (host G) op v) (\<lambda>v. bnd (subexpr_rec G (snd (priority op))) (\<lambda>(v2, nextop).
        bnd (luaK_posfix (arith G) (host G) op v v2) (\<lambda>v. ret (v, nextop))))) ?Q s'"
    if "0 < n \<and> input G c (n - 1) s'" for s'
    by (rule wl_bndI [OF steady_input [OF luaK_infix_steady conjunct2 [OF that]]]) (use that in simp_all)
  then have "wl (seq (lex_next G) (bnd (luaK_infix (host G) op v) (\<lambda>v. bnd (subexpr_rec G (snd (priority op))) (\<lambda>(v2, nextop).
        bnd (luaK_posfix (arith G) (host G) op v v2) (\<lambda>v. ret (v, nextop)))))) ?Q s"
    unfolding seq_def by (rule wl_bndI [OF eatsD [OF eats_lex_next *]])
  then show "wl (seq (lex_next G) (bnd (luaK_infix (host G) op v) (\<lambda>v. bnd (subexpr_rec G (snd (priority op))) (\<lambda>(v2, nextop).
        bnd (luaK_posfix (arith G) (host G) op v v2) (\<lambda>v. ret (v, nextop))))))
      (\<lambda>a s''. 0 < n \<and> input G c (n - Suc 0) s'' \<and> (snd a \<noteq> OPR_NOBINOPR \<longrightarrow> token (ls_t (ls s'')) \<noteq> TK_EOS)) s"
    by (simp add: before_operator_def)
qed

theorem subexpr_input:
  assumes "c < int LUAI_MAXCCALLS \<Longrightarrow> calls_ok G (c + 1)" "input G c n s"
  shows "wl (subexpr G lim) (\<lambda>r s'. input G c n s' \<and> before_operator r s') s"
  unfolding subexpr_def seq_def [of "enterlevel G"]
proof (rule wl_bndI [OF enterlevel_input [OF assms(2)]], elim conjE)
  fix s
  assume s: "input G (c + 1) n s" and "c < int LUAI_MAXCCALLS"
  then have G: "calls_ok G (c + 1)" using assms(1) by simp
  let ?first = "\<lambda>tok. if getunopr tok \<noteq> OPR_NOUNOPR then
        seq (lex_next G) (bnd (subexpr_rec G UNARY_PRIORITY) (\<lambda>(v, _). luaK_prefix (arith G) (host G) (getunopr tok) v))
      else simpleexp G"
  have first: "calm G (c + 1) (bnd cur_token ?first)"
    using G by (auto intro!: calm intro: calm_steady steady)
  let ?rest = "\<lambda>v. bnd cur_token (\<lambda>tok.
      bnd (loop (fuel G) (\<lambda>(v, op). ret (op \<noteq> OPR_NOBINOPR \<and> lim < fst (priority op)))
        (\<lambda>(v, op). seq (lex_next G) (bnd (luaK_infix (host G) op v) (\<lambda>v.
          bnd (subexpr_rec G (snd (priority op))) (\<lambda>(v2, nextop).
          bnd (luaK_posfix (arith G) (host G) op v v2) (\<lambda>v. ret (v, nextop)))))) (v, getbinopr tok))
      (\<lambda>r. seq leavelevel (ret r)))"
  have rest: "wl (?rest v) (\<lambda>r s'. input G c n s' \<and> before_operator r s') s" if "input G (c + 1) n s" for v s
  proof -
    have "before_operator (v, getbinopr (token (ls_t (ls s)))) s"
      using operator_not_EOS by (auto simp: before_operator_def)
    note loop_input [OF operand_turn [OF G] _ that this, of "fuel G" lim]
    moreover have "n < fuel G" using that by (simp add: input_def)
    moreover have "wl (seq leavelevel (ret r)) (\<lambda>r s'. input G c n s' \<and> before_operator r s') s'"
      if "input G (c + 1) n s' \<and> before_operator r s'" for r s'
      using that by (auto simp: wls leavelevel_def input_def before_operator_def)
    ultimately show ?thesis by (subst wl_bnd) (auto simp: wl_basic intro!: wl_bndI)
  qed
  have "wl (bnd (bnd cur_token ?first) ?rest) (\<lambda>r s'. input G c n s' \<and> before_operator r s') s"
    by (rule wl_bndI [OF calmD [OF first s] rest])
  then show "wl (bnd cur_token (\<lambda>tok. let uop = getunopr tok in bnd (if uop \<noteq> OPR_NOUNOPR then
        seq (lex_next G) (bnd (subexpr_rec G UNARY_PRIORITY) (\<lambda>(v, _). luaK_prefix (arith G) (host G) uop v))
      else simpleexp G) ?rest)) (\<lambda>r s'. input G c n s' \<and> before_operator r s') s"
    by (simp only: wl_bnd wl_basic Let_def)
qed

section \<open>Statements\<close>

lemma calm_block [calm]: "calls_ok G c \<Longrightarrow> calm G c (block G)"
  by (auto simp: block_def simp del: steps.simps intro!: calm intro: calm_steady steady)

lemma assignment_input:
  assumes "calls_ok G c"
  shows "n < f \<Longrightarrow> input G c n s \<Longrightarrow> wl (assignment f G lh prev nvars) (\<lambda>_. input G c n) s"
proof (induction f arbitrary: n lh prev nvars s)
  case (Suc f)
  have tail: "wl (bnd (assignment f G nv chain (nvars + 1)) (\<lambda>chain. seq (assign_last G (hd chain)) (ret (tl chain))))
      (\<lambda>_. input G c (n - 1)) s" if "input G c (n - 1) s" "0 < n" for nv chain s
    by (rule wl_bndI [OF Suc.IH [OF _ that(1)]], use Suc.prems that in simp, rule calmD)
      (auto intro!: calm intro: calm_steady steady)
  have limit: "wl (bnd (get nCcalls) (\<lambda>m. seq (luaY_checklimit G nvars (int LUAI_MAXCCALLS - m) ''variables in assignment'')
      (bnd (assignment f G nv chain (nvars + 1)) (\<lambda>chain. seq (assign_last G (hd chain)) (ret (tl chain))))))
      (\<lambda>_. input G c (n - 1)) s" if "input G c (n - 1) s" "0 < n" for nv chain s
    unfolding seq_def [of "luaY_checklimit G _ _ _"]
    by (subst wl_bnd, subst wl_basic, rule wl_bndI [OF steady_input [OF checks_steady(1) that(1)]])
      (rule tail [OF _ that(2)])
  have comma: "wl (bnd (primaryexp G) (\<lambda>nv.
         bnd (if kind nv = VLOCAL then check_conflict G (lh # prev) nv else ret (lh # prev)) (\<lambda>chain.
         bnd (get nCcalls) (\<lambda>m.
         seq (luaY_checklimit G nvars (int LUAI_MAXCCALLS - m) ''variables in assignment'')
         (bnd (assignment f G nv chain (nvars + 1)) (\<lambda>chain.
          seq (assign_last G (hd chain)) (ret (tl chain)))))))) (\<lambda>_. input G c n) s"
    if "0 < n" "input G c (n - 1) s" for s
    by (rule wl_mono, rule wl_bndI [OF calmD [OF calm_primaryexp [OF assms] that(2)]], rule wl_bndI, rule steady_input,
        (intro steady)[1], assumption, rule limit [OF _ that(1)])
      (use input_fuel [OF Suc.prems(2)] in \<open>auto elim!: input_mono\<close>)
  have assign: "calm G c (seq (checknext G (sym CHR ''='')) (bnd (explist1 G) (\<lambda>(nexps, e).
           seq (if nexps \<noteq> nvars then
                  seq (adjust_assign G nvars nexps e)
                  (seq (if nvars < nexps then upd_fs (\<lambda>F. F\<lparr>freereg := freereg F - (nexps - nvars)\<rparr>) else ret ())
                    (assign_last G lh))
                else bnd (luaK_setoneret e) (luaK_storevar (host G) lh))
             (ret prev))))"
    using assms by (auto intro!: calm intro: calm_steady steady)
  show ?case unfolding assignment.simps seq_def [of "check_condition G _ _"]
    by (rule wl_bndI [OF steady_input [OF checks_steady(2) Suc.prems(2)]], rule wl_bndI [OF gateD [OF gate_testnext]],
        simp, assumption, rule wl_if, rule comma, simp, simp, rule calmD [OF assign], simp)
qed simp

lemma calm_assignment [calm]: "calls_ok G c \<Longrightarrow> calm G c (assignment (fuel G) G lh prev nvars)"
  by (rule calmI, rule assignment_input) (auto simp: input_def)

lemma calm_cond [calm]: "calls_ok G c \<Longrightarrow> calm G c (cond G)"
  by (auto simp: cond_def intro!: calm intro: calm_steady steady)

lemma calm_exp1 [calm]: "calls_ok G c \<Longrightarrow> calm G c (exp1 G)"
  by (auto simp: exp1_def intro!: calm intro: calm_steady steady)

lemma eats_whilestat: "calls_ok G c \<Longrightarrow> eats G c (whilestat G line)"
  unfolding whilestat_def
  by (rule eats_first_seq [OF eats_lex_next])
    (auto simp del: steps.simps intro!: calm intro: calm_steady steady)

lemma eats_steps:
  "steady m \<Longrightarrow> eats G c (steps ms) \<Longrightarrow> eats G c (steps (m # ms))"
  "eats G c m \<Longrightarrow> calm G c (steps ms) \<Longrightarrow> eats G c (steps (m # ms))"
  by (simp_all add: eats_skip_seq eats_first_seq)

lemma eats_repeatstat: "calls_ok G c \<Longrightarrow> eats G c (repeatstat G line)"
  unfolding repeatstat_def
  by (rule eats_skip, rule steady, rule eats_first_seq, rule eats_steps(1), rule steady, rule eats_steps(1), rule steady,
      rule eats_steps(2) [OF eats_lex_next])
    (auto simp del: steps.simps intro!: calm intro: calm_steady steady)

lemma calm_forbody [calm]: "calls_ok G c \<Longrightarrow> calm G c (forbody G base line nvars isnum)"
  by (auto simp: forbody_def simp del: steps.simps intro!: calm intro: calm_steady steady)

lemma calm_fornum [calm]: "calls_ok G c \<Longrightarrow> calm G c (fornum G name line)"
  by (auto simp: fornum_def simp del: steps.simps intro!: calm intro: calm_steady steady)

lemma calm_forlist [calm]: "calls_ok G c \<Longrightarrow> calm G c (forlist G name)"
  by (auto simp: forlist_def simp del: steps.simps intro!: calm calm_loop turns_gate gate intro: calm_steady steady)

lemma eats_forstat: "calls_ok G c \<Longrightarrow> eats G c (forstat G line)"
  unfolding forstat_def
  by (rule eats_first_seq, rule eats_steps(1), rule steady, rule eats_steps(2) [OF eats_lex_next])
    (auto simp del: steps.simps intro!: calm intro: calm_steady steady)

lemma eats_test_then_block: "calls_ok G c \<Longrightarrow> eats G c (test_then_block G)"
  unfolding test_then_block_def
  by (rule eats_first_seq [OF eats_lex_next])
    (auto simp del: steps.simps intro!: calm intro: calm_steady steady)

lemma elseif_turn: "calls_ok G c \<Longrightarrow>
    turns G c (\<lambda>_ _. True) (\<lambda>_. bnd cur_token (\<lambda>tok. ret (tok = TK_ELSEIF)))
      (\<lambda>(esc, flist). bnd (escape G esc flist) (\<lambda>esc. bnd (test_then_block G) (\<lambda>flist. ret (esc, flist))))"
  by (rule turns_token, simp add: reserved_defs token_defs, clarify, rule eats_skip, rule steady,
      rule eats_first [OF eats_test_then_block], assumption, rule calm_steady, rule steady)

lemma eats_ifstat: "calls_ok G c \<Longrightarrow> eats G c (ifstat G line)"
  unfolding ifstat_def
  by (rule eats_first [OF eats_test_then_block], assumption)
    (auto simp del: steps.simps intro!: calm calm_loop elseif_turn intro: calm_steady steady)

lemma calm_localfunc [calm]: "calls_ok G c \<Longrightarrow> calm G c (localfunc G)"
  by (auto simp: localfunc_def simp del: steps.simps intro!: calm intro: calm_steady steady)

lemma calm_localstat [calm]: "calls_ok G c \<Longrightarrow> calm G c (localstat G)"
  by (auto simp: localstat_def simp del: steps.simps intro!: calm calm_loop turns_gate gate intro: calm_steady steady)

lemma calm_funcname [calm]: "calm G c (funcname G)"
  unfolding funcname_def
  by (intro calm calm_loop turns_token eats_field) (auto intro: calm_steady steady)

lemma eats_funcstat: "calls_ok G c \<Longrightarrow> eats G c (funcstat G line)"
  unfolding funcstat_def
  by (rule eats_first_seq [OF eats_lex_next])
    (auto simp del: steps.simps intro!: calm intro: calm_steady steady)

lemma eats_exprstat: "calls_ok G c \<Longrightarrow> eats G c (exprstat G)"
  unfolding exprstat_def
  by (rule eats_first [OF eats_primaryexp], assumption) (auto intro!: calm intro: calm_steady steady)

lemma eats_retstat: "calls_ok G c \<Longrightarrow> eats G c (retstat G)"
  unfolding retstat_def
  by (rule eats_first_seq [OF eats_lex_next]) (auto intro!: calm intro: calm_steady steady)

lemma eats_then_ret: "eats G c m \<Longrightarrow> eats G c (seq m (ret a))"
  by (rule eats_first_seq) (auto intro: calm_steady steady)

lemma eats_statement: "calls_ok G c \<Longrightarrow> eats G c (statement G)"
  unfolding statement_def
proof (rule eats_skip, rule steady, rule eats_skip, rule steady, intro eats_if eats_then_ret)
  assume G: "calls_ok G c"
  show "eats G c (steps [lex_next G, block G, check_match G TK_END TK_DO line])" for line
    using G by (intro eats_steps(2) eats_lex_next calm)
  show "eats G c (steps [lex_next G, breakstat G])"
    by (intro eats_steps(2) eats_lex_next calm) (intro calm_steady steady)
  show "eats G c (seq (lex_next G) (bnd (testnext G TK_FUNCTION) (\<lambda>func. seq (if func then localfunc G else localstat G) (ret False))))"
    by (rule eats_first_seq [OF eats_lex_next]) (auto intro!: calm G intro: calm_steady steady)
qed (rule eats_ifstat eats_whilestat eats_forstat eats_repeatstat eats_funcstat eats_retstat eats_exprstat, assumption)+

theorem chunk_input:
  assumes "c < int LUAI_MAXCCALLS \<Longrightarrow> calls_ok G (c + 1)"
  shows "calm G c (chunk G)"
proof (rule calmI, unfold chunk_def seq_def [of "enterlevel G"], rule wl_bndI, rule enterlevel_input, assumption, elim conjE)
  fix n and s
  assume s: "input G (c + 1) n s" and "c < int LUAI_MAXCCALLS"
  then have G: "calls_ok G (c + 1)" using assms by simp
  let ?round = "\<lambda>_. bnd (statement G) (\<lambda>islast. bnd (testnext G (sym CHR '';'')) (\<lambda>_.
               seq (upd_fs (\<lambda>F. F\<lparr>freereg := nactvar F\<rparr>)) (ret islast)))"
  have "turns G (c + 1) (\<lambda>_ _. True) (\<lambda>islast. bnd cur_token (\<lambda>tok. ret (\<not> islast \<and> \<not> block_follow tok))) ?round"
    by (rule turns_token, simp add: block_follow_def, rule eats_first [OF eats_statement [OF G]])
      (auto intro!: calm intro: calm_steady steady)
  then have statements: "calm G (c + 1) (loop (fuel G) (\<lambda>islast. bnd cur_token (\<lambda>tok. ret (\<not> islast \<and> \<not> block_follow tok))) ?round False)"
    by (rule calm_loop)
  show "wl (bnd (loop (fuel G) (\<lambda>islast. bnd cur_token (\<lambda>tok. ret (\<not> islast \<and> \<not> block_follow tok))) ?round False) (\<lambda>_. leavelevel))
      (\<lambda>_. input G c n) s"
    by (rule wl_bndI [OF calmD [OF statements s]]) (simp add: leavelevel_def wls input_def)
qed

section \<open>The whole input\<close>

lemma rules_parts [simp]: "fuel (rules k G) = fuel G" "reader (rules k G) = reader G"
  by (cases k; simp add: Let_def)+

lemma input_rules [simp]: "input (rules k G) = input G"
  by (intro ext) (simp add: input_def)

text \<open>\<open>enterlevel\<close> stops the parser before it runs out of levels.\<close>

theorem calls_ok_rules: "c \<le> int LUAI_MAXCCALLS \<Longrightarrow> int LUAI_MAXCCALLS < c + int k \<Longrightarrow> calls_ok (rules k G) c"
proof (induction k arbitrary: c)
  case (Suc k)
  have inner: "calls_ok (rules k G) (c + 1)" if "c < int LUAI_MAXCCALLS"
    using Suc that by (intro Suc.IH) auto
  have "input G c n s \<Longrightarrow> wl (subexpr (rules k G) lim) (\<lambda>r s'. input G c n s' \<and> before_operator r s') s" for lim n s
    using subexpr_input [of c "rules k G" n s lim] inner by simp
  moreover have "calm (rules k G) c (chunk (rules k G))" using chunk_input inner .
  moreover have "subexpr_rec (rules (Suc k) G) = subexpr (rules k G)" "chunk_rec (rules (Suc k) G) = chunk (rules k G)"
    by (simp_all add: Let_def)
  ultimately show ?case by (simp add: calls_ok_def calm_def del: rules.simps)
qed simp

lemma setinput_main:
  assumes "delivers (reader G) d xs" "length xs + 1 < fuel G"
  shows "wl (seq (in_lexer (luaX_setinput (reader G) (luaZ_init d) name)) (open_func G []))
     (\<lambda>_. input G (nCcalls s) (length xs + 1)) s"
proof -
  define l where "l = (ls s)\<lparr>decpoint := 46, ls_ahead := (ls_ahead (ls s))\<lparr>token := TK_EOS\<rparr>, ls_z := luaZ_init d,
            linenumber := 1, lastline := 1, ls_source := name, buffsize := MINBUFFER\<rparr>"
  have "stream (reader G) (ls_z l) xs" using stream_init [OF assms(1)] by (simp add: l_def)
  from zgetc_stream [OF this] obtain z' where z': "zgetc (reader G) l = Val (cur xs) (l\<lparr>ls_z := z'\<rparr>)"
    "xs \<noteq> [] \<longrightarrow> stream (reader G) z' (tl xs)" by blast
  then have "luaX_setinput (reader G) (luaZ_init d) name (ls s) = Val () (l\<lparr>ls_z := z', current := cur xs\<rparr>)"
    by (simp add: luaX_setinput_def next_char_def seq_def bnd_def upd_run flip: l_def)
  moreover have "ahead (reader G) xs (l\<lparr>ls_z := z', current := cur xs\<rparr>)" using z'(2) by (simp add: ahead_iff)
  ultimately show ?thesis
    unfolding wl_seq wl_in_lexer using assms(2) new_level_ok [of "kaddress G"]
    by (auto simp: wl_def open_func_def upd_run input_def unread_tokens_def l_def levels_ok_def
        simp del: level_ok.simps intro!: exI [of _ xs])
qed

lemma check_token: "wl (check G t) (\<lambda>_ s'. token (ls_t (ls s')) = t \<and> s' = s) s"
  by (auto simp: check_def error_expected_def syntax_error_def wls wl_in_lexer luaX_syntaxerror_def wl_lexerror)

theorem luaY_parser_input:
  assumes "delivers (reader G) d xs" "length xs + 1 < fuel G" "0 \<le> nCcalls s"
  shows "wl (luaY_parser G (luaZ_init d) name)
     (\<lambda>p s'. prechecked p \<and> token (ls_t (ls s')) = TK_EOS \<and> nCcalls s' = nCcalls s) s"
proof -
  let ?G = "rules LUAI_MAXCCALLS G" and ?c = "nCcalls s"
  let ?in = "input G ?c (length xs + 1)" and ?Q = "\<lambda>p s'. prechecked p \<and> token (ls_t (ls s')) = TK_EOS \<and> nCcalls s' = ?c"
  have "calls_ok ?G (?c + 1)" if "?c < int LUAI_MAXCCALLS"
    using that assms(3) by (intro calls_ok_rules) auto
  then have chunk: "calm ?G ?c (chunk ?G)" by (rule chunk_input)
  have "calm ?G ?c (steps [upd_fn (\<lambda>N. N\<lparr>is_vararg := VARARG_ISVARARG\<rparr>), lex_next ?G, chunk ?G])"
    by (intro calm_steps chunk calm_lex_next calm_steady [OF steady_no_arg(2)])
  then have parse: "wl (steps [upd_fn (\<lambda>N. N\<lparr>is_vararg := VARARG_ISVARARG\<rparr>), lex_next ?G, chunk ?G]) (\<lambda>_. ?in) s'"
    if "?in s'" for s'
    using calmD [of ?G ?c _ "length xs + 1" s'] that by simp
  have close: "wl (bnd (close_func ?G) (\<lambda>(f, _). ret f)) ?Q s'" if "token (ls_t (ls s')) = TK_EOS \<and> ?in s'" for s'
    by (rule wl_bndI, rule close_func_prechecked) (use that in \<open>auto simp: wls input_def\<close>)
  have finish: "wl (check ?G TK_EOS) (\<lambda>_ s'. token (ls_t (ls s')) = TK_EOS \<and> ?in s') s'" if "?in s'" for s'
    by (rule wl_mono [OF check_token]) (use that in simp)
  have "wl (seq (in_lexer (luaX_setinput (reader ?G) (luaZ_init d) name)) (open_func ?G [])) (\<lambda>_. ?in) s"
    using setinput_main [of ?G d xs name s] assms by simp
  then have "wl (steps [in_lexer (luaX_setinput (reader ?G) (luaZ_init d) name), open_func ?G []]) (\<lambda>_. ?in) s"
    by (simp add: wl_compose wl_seq)
  then have "wl (seq (steps ([in_lexer (luaX_setinput (reader ?G) (luaZ_init d) name), open_func ?G []]
      @ [upd_fn (\<lambda>N. N\<lparr>is_vararg := VARARG_ISVARARG\<rparr>), lex_next ?G, chunk ?G] @ [check ?G TK_EOS]))
      (bnd (close_func ?G) (\<lambda>(f, _). ret f))) ?Q s"
    unfolding wl_seq wl_steps_append wl_steps_one
    by (rule wl_mono) (rule wl_mono [OF parse], assumption, rule wl_mono [OF finish], assumption, rule close, assumption)
  then show ?thesis by (simp only: luaY_parser_def Let_def append.simps)
qed


text \<open>A grammar over a reader of one piece, and a state to start from.\<close>

definition sample_grammar :: "(unit, unit, bytes option) grammar" where
  "sample_grammar = \<lparr>fuel = 64, host = sample_host, reader = one_piece, arith = (\<lambda>_ a _. a), kaddress = 0,
     subexpr_rec = (\<lambda>_. undef), chunk_rec = undef\<rparr>"

definition sample_parser :: "bytes option parser" where
  "sample_parser = \<lparr>ls = sample_lexer, fs = new_FuncState 0, fn = new_FnState, enclosing = [], nCcalls = 1\<rparr>"

lemma sample_parts [simp]:
  "reader sample_grammar = one_piece" "fuel sample_grammar = 64" "nCcalls sample_parser = 1"
  by (simp_all add: sample_grammar_def sample_parser_def)


text \<open>
  Property C26. What the parser returns fits the code checker: the function compiled from any input, and
  every function inside it, passes \<open>precheck\<close>, the first part of \<open>luaG_checkcode\<close>. The registers are at
  most \<open>MAXSTACK\<close> and hold the parameters with the \<open>arg\<close> of a vararg function, there are no more names of
  upvalues than upvalues, every instruction has a line, and the last instruction is a \<open>RETURN\<close>.
\<close>

theorem luaY_parser_prechecked:
  assumes "luaY_parser G (luaZ_init d) name s = Val p s'" "delivers (reader G) d xs" "length xs + 1 < fuel G" "0 \<le> nCcalls s"
  shows "prechecked p"
  using luaY_parser_input [OF assms(2-4), of name] assms(1) by (simp add: wl_def)

lemma wp_in_lexer [wps]:
  "wp (in_lexer m) Q E s = wp m (\<lambda>a l. Q a (s\<lparr>ls := l\<rparr>)) (\<lambda>e l. E e (s\<lparr>ls := l\<rparr>)) (ls s)"
  by (auto simp: wp_def in_lexer_def split: res.splits)

lemma host_rules [simp]: "host (rules k G) = host G"
  by (cases k; simp add: Let_def)+

text \<open>The empty input, step by step.\<close>

lemma lex_next_end:
  assumes "current (ls s) = EOZ" "token (ls_ahead (ls s)) = TK_EOS" "fuel G = Suc f"
  shows "lex_next G s = Val () (s\<lparr>ls := (ls s)\<lparr>lastline := linenumber (ls s), buff := [],
           ls_t := \<lparr>token = TK_EOS, seminfo = seminfo (ls_t (ls s))\<rparr>\<rparr>\<rparr>)"
  using assms
  by (simp add: lex_next_def in_lexer_def luaX_next_def llex_def resetbuffer_def effect_defs set_info_def del: char2int_eq)

lemma chunk_end:
  assumes "token (ls_t (ls s)) = TK_EOS" "nCcalls s < int LUAI_MAXCCALLS" "fuel G = Suc f"
  shows "chunk G s = Val () s"
  using assms
  by (simp add: chunk_def enterlevel_def leavelevel_def block_follow_def effect_defs)

lemma close_empty:
  assumes "fs s = new_FuncState t" "enclosing s = []"
  shows "wp (close_func G) (\<lambda>_ _. True) (\<lambda>_ _. False) s"
  using assms
  by (simp add: close_func_def removevars_def luaK_ret_def luaK_codeABC_def luaK_code_def dischargejpc_def patchlistaux_def
      new_FuncState_def MAX_INT_def wps)

lemma check_passes: "token (ls_t (ls s)) = t \<Longrightarrow> check G t s = Val () s"
  by (simp add: check_def effect_defs)

lemma empty_chunk: "\<exists>p s'. luaY_parser sample_grammar (luaZ_init None) ''@f'' sample_parser = Val p s'"
proof -
  let ?G = "rules LUAI_MAXCCALLS sample_grammar"
  obtain l where l: "luaX_setinput one_piece (luaZ_init None) ''@f'' sample_lexer = Val () l"
    "current l = EOZ" "token (ls_ahead l) = TK_EOS"
    by (simp add: luaX_setinput_def next_char_def zgetc_def luaZ_fill_def luaZ_init_def sample_lexer_def effect_defs Let_def)
  define s1 where "s1 = sample_parser\<lparr>ls := l, fs := new_FuncState (kaddress ?G), fn := new_FnState\<lparr>is_vararg := VARARG_ISVARARG\<rparr>, enclosing := []\<rparr>"
  define s2 where "s2 = s1\<lparr>ls := l\<lparr>lastline := linenumber l, buff := [], ls_t := \<lparr>token = TK_EOS, seminfo = seminfo (ls_t l)\<rparr>\<rparr>\<rparr>"
  have "in_lexer (luaX_setinput (reader ?G) (luaZ_init None) ''@f'') sample_parser = Val () (sample_parser\<lparr>ls := l\<rparr>)"
    using l(1) by (simp add: in_lexer_def sample_parser_def)
  moreover have "open_func ?G [] (sample_parser\<lparr>ls := l\<rparr>) = Val () (sample_parser\<lparr>ls := l, fs := new_FuncState (kaddress ?G),
      fn := new_FnState, enclosing := []\<rparr>)"
    by (simp add: open_func_def upd_run)
  moreover have "upd_fn (\<lambda>N. N\<lparr>is_vararg := VARARG_ISVARARG\<rparr>) (sample_parser\<lparr>ls := l, fs := new_FuncState (kaddress ?G), fn := new_FnState,
      enclosing := []\<rparr>) = Val () s1"
    by (simp add: s1_def upd_run)
  moreover have "lex_next ?G s1 = Val () s2"
    using lex_next_end [of s1 ?G 63] l(2,3) by (simp add: s1_def s2_def)
  moreover have "chunk ?G s2 = Val () s2"
    using chunk_end [of s2 ?G 63] by (simp add: s1_def s2_def LUAI_MAXCCALLS_def)
  moreover have "check ?G TK_EOS s2 = Val () s2" by (rule check_passes) (simp add: s2_def)
  moreover have "wp (close_func ?G) (\<lambda>_ _. True) (\<lambda>_ _. False) s2"
    by (rule close_empty [where t = "kaddress ?G"]) (simp_all add: s1_def s2_def)
  then obtain r s' where "close_func ?G s2 = Val r s'" by (auto simp: wp_def split: res.splits)
  ultimately have "luaY_parser sample_grammar (luaZ_init None) ''@f'' sample_parser = Val (fst r) s'"
    by (cases r) (simp add: luaY_parser_def Let_def seq_def bnd_def ret_run)
  then show ?thesis by blast
qed

theorem luaY_parser_prechecked_witness:
  "\<exists>p s'. luaY_parser sample_grammar (luaZ_init None) ''@f'' sample_parser = Val p s' \<and> prechecked p"
proof -
  obtain p s' where run: "luaY_parser sample_grammar (luaZ_init None) ''@f'' sample_parser = Val p s'"
    using empty_chunk by blast
  have "delivers (reader sample_grammar) None []" using at_end [of one_piece None None] by simp
  from luaY_parser_prechecked [OF run this] have "prechecked p" by simp
  with run show ?thesis by blast
qed

end
