(* ===== verification/Scoping.thy ===== *)
theory Scoping
  imports Parsing "HOL-Library.Sublist"
begin

text \<open>
  Names are resolved lexically: \<open>singlevaraux\<close> against a search of the enclosing functions, from the
  inside out.
\<close>

section \<open>The scopes\<close>

definition levels :: "'d parser \<Rightarrow> level list" where
  "levels s = (fs s, fn s) # enclosing s"

definition name_at :: "FnState \<Rightarrow> int \<Rightarrow> bytes option" where
  "name_at N i = Option.bind (locvar_of N i) (\<lambda>j. varname (locvars N ! j))"

text \<open>The active variable of that name that was declared last.\<close>

fun declared :: "level \<Rightarrow> bytes \<Rightarrow> int option" where
  "declared (F, N) n = find (\<lambda>i. name_at N i = Some n) (rev [0 .. nactvar F - 1])"

text \<open>The innermost function that declares the name, by its distance, and the register there.\<close>

fun resolve :: "level list \<Rightarrow> bytes \<Rightarrow> (nat \<times> int) option" where
  "resolve [] n = None"
| "resolve (l # up) n = (case declared l n of
     Some v \<Rightarrow> Some (0, v)
   | None \<Rightarrow> map_option (\<lambda>(d, v). (Suc d, v)) (resolve up n))"

text \<open>
  A local variable is a register of its function. An upvalue leads where its descriptor does, in the
  function around: what \<open>OP_MOVE\<close> or \<open>OP_GETUPVAL\<close> after \<open>OP_CLOSURE\<close> captures at run time.
\<close>

fun leads :: "level list \<Rightarrow> expkind \<Rightarrow> int \<Rightarrow> nat \<Rightarrow> int \<Rightarrow> bool" where
  "leads (l # up) VLOCAL i 0 v \<longleftrightarrow> i = v"
| "leads ((F, N) # up) VUPVAL i (Suc d) v \<longleftrightarrow>
     0 \<le> i \<and> i < int (length (upvals N)) \<and> (case upvals N ! nat i of (_, k', i') \<Rightarrow> leads up k' i' d v)"
| "leads _ _ _ _ _ \<longleftrightarrow> False"

text \<open>The innermost block that has the variable knows that it is captured.\<close>

definition captured :: "level \<Rightarrow> int \<Rightarrow> bool" where
  "captured l v \<longleftrightarrow> (case dropWhile (\<lambda>b. v < bl_nactvar b) (blocks (snd l)) of [] \<Rightarrow> True | b # _ \<Rightarrow> bl_upval b)"

text \<open>A level may get new upvalues behind the others and marks in its blocks.\<close>

definition extends :: "level \<Rightarrow> level \<Rightarrow> bool" where
  "extends l l' \<longleftrightarrow> fst l' = fst l \<and> locvars (snd l') = locvars (snd l) \<and> actvar (snd l') = actvar (snd l) \<and>
     prefix (upvals (snd l)) (upvals (snd l'))"

definition scope_ok :: "level \<Rightarrow> bool" where
  "scope_ok l \<longleftrightarrow> nactvar (fst l) < 256 \<and> int (length (upvals (snd l))) \<le> LUAI_MAXUPVALUES"

declare ret_run [simp] get_run [simp] upd_run [simp]

section \<open>The search\<close>

lemma search_from_declared:
  "search_from k n s = Val v s' \<Longrightarrow>
     s' = s \<and> (case find (\<lambda>i. name_at (fn s) i = Some n) (rev [0 .. int k - 1]) of Some i \<Rightarrow> v = i | None \<Rightarrow> v = - 1)"
proof (induction k)
  case (Suc k)
  have "[0 .. int (Suc k) - 1] = [0 .. int k - 1] @ [int k]"
    using upto_rec2 [of 0 "int k"] by simp
  then show ?case using Suc
    by (auto simp: bnd_def name_at_def split: option.splits if_splits)
qed simp

lemma declared_bound: "declared (F, N) n = Some v \<Longrightarrow> 0 \<le> v \<and> v < nactvar F"
proof -
  assume "declared (F, N) n = Some v"
  then have "v \<in> set (rev [0 .. nactvar F - 1])" unfolding declared.simps find_Some_iff by (auto simp del: set_rev)
  then show ?thesis by simp
qed

lemma searchvar_declared:
  assumes "searchvar n s = Val v s'"
  shows "s' = s" "declared (fs s, fn s) n = (if 0 \<le> v then Some v else None)" "v < nactvar (fs s) \<or> v = - 1"
proof -
  let ?a = "nactvar (fs s)"
  have range: "[0 .. int (nat ?a) - 1] = [0 .. ?a - 1]" by (cases "0 \<le> ?a") auto
  have "search_from (nat ?a) n s = Val v s'" using assms by (simp add: searchvar_def bnd_def)
  from search_from_declared [OF this] show "s' = s" "declared (fs s, fn s) n = (if 0 \<le> v then Some v else None)" "v < ?a \<or> v = - 1"
    unfolding range using declared_bound [of "fs s" "fn s" n] by (auto split: option.splits)
qed

lemma outside_Val:
  assumes "outside m s = Val a s'"
  obtains F N es t where "enclosing s = (F, N) # es" "m (s\<lparr>fs := F, fn := N, enclosing := es\<rparr>) = Val a t"
    "levels s' = (fs s, fn s) # levels t" "levels s = (fs s, fn s) # levels (s\<lparr>fs := F, fn := N, enclosing := es\<rparr>)"
  using assms by (auto simp: outside_def bnd_def seq_def levels_def split: list.splits res.splits)

lemma captured_mark: "captured (F, N\<lparr>blocks := mark_block v (blocks N)\<rparr>) v"
proof -
  have "case dropWhile (\<lambda>b. v < bl_nactvar b) (mark_block v bs) of [] \<Rightarrow> True | b # _ \<Rightarrow> bl_upval b" for bs
    by (induction bs) auto
  then show ?thesis by (simp add: captured_def)
qed

lemma upvalue_index_Some: "upvalue_index k i us = Some j \<Longrightarrow> j < length us \<and> (\<exists>nm. us ! j = (nm, k, i))"
  by (induction k i us arbitrary: j rule: upvalue_index.induct) (auto split: if_splits)

text \<open>What a call of \<open>singlevaraux\<close> promises.\<close>

definition resolved :: "bool \<Rightarrow> bytes \<Rightarrow> level list \<Rightarrow> expdesc \<Rightarrow> level list \<Rightarrow> bool" where
  "resolved base n old var new \<longleftrightarrow> (\<forall>l \<in> set new. scope_ok l) \<and> list_all2 extends old new \<and>
     (case resolve old n of
        None \<Rightarrow> kind var = VGLOBAL \<and> new = old
      | Some (d, v) \<Rightarrow> kind var = (if d = 0 then VLOCAL else VUPVAL) \<and> leads new (kind var) (info var) d v \<and>
          (0 < d \<or> \<not> base \<longrightarrow> captured (new ! d) v))"

lemma extends_refl [simp]: "extends l l" "list_all2 extends up up"
  by (auto simp: extends_def list_all2_refl)

lemma here_resolved:
  assumes "declared (fs s, fn s) n = Some v" "\<forall>l \<in> set (levels s). scope_ok l"
    "seq (if \<not> base then markupval v else ret ()) (ret (init_exp VLOCAL v)) s = Val var s'"
  shows "resolved base n (levels s) var (levels s')"
  using assms captured_mark [where F = "fs s" and N = "fn s" and v = v]
  by (cases base) (auto simp: resolved_def levels_def seq_def bnd_def markupval_def init_exp_def extends_def scope_ok_def)

lemma leads_bound:
  assumes "leads up k i d v" "\<forall>l \<in> set up. scope_ok l" "resolve old n = Some (d, v)" "list_all2 extends old up"
  shows "0 \<le> i \<and> i < 256"
proof (cases up)
  case (Cons l up')
  then obtain F N old' where old: "old = (F, N) # old'" "fst l = F" using assms(4)
    by (cases old) (auto simp: extends_def)
  show ?thesis
  proof (cases d)
    case 0
    then have "declared (F, N) n = Some v" "i = v" using assms(1,3) Cons old
      by (auto split: option.splits elim: leads.elims)
    then show ?thesis using declared_bound [of F N n v] assms(2) Cons old by (auto simp: scope_ok_def)
  next
    case (Suc d')
    then show ?thesis using assms(1,2) Cons
      by (cases l; cases k) (auto simp: scope_ok_def LUAI_MAXUPVALUES_def)
  qed
qed (use assms(1) in simp)

lemma limit_Val: "luaY_checklimit G v m what s = Val a s' \<Longrightarrow> v \<le> m \<and> s' = s"
  using wl_errorlimit [of G m what "\<lambda>(_ :: unit) _. False" s]
  by (auto simp: luaY_checklimit_def wl_def split: if_splits res.splits)

lemma indexupvalue_leads:
  assumes "indexupvalue G n k i s = Val j s'" "leads up k i d v" "0 \<le> i \<and> i < 256" "scope_ok (fs s, fn s)"
  shows "leads ((fs s', fn s') # up) VUPVAL j (Suc d) v" "extends (fs s, fn s) (fs s', fn s')" "scope_ok (fs s', fn s')"
    "enclosing s' = enclosing s"
proof -
  have "leads ((fs s', fn s') # up) VUPVAL j (Suc d) v \<and> extends (fs s, fn s) (fs s', fn s') \<and> scope_ok (fs s', fn s') \<and>
      enclosing s' = enclosing s"
  proof (cases "upvalue_index k i (upvals (fn s))")
    case None
    then have len: "int (length (upvals (fn s))) + 1 \<le> LUAI_MAXUPVALUES" "j = int (length (upvals (fn s)))"
      and s': "s' = s\<lparr>fn := (fn s)\<lparr>upvals := upvals (fn s) @ [(n, k, i mod 256)]\<rparr>\<rparr>"
      using assms(1) by (auto simp: indexupvalue_def bnd_def seq_def split: res.splits dest: limit_Val)
    then show ?thesis using assms(2-4) by (auto simp: extends_def scope_ok_def nth_append)
  next
    case (Some m)
    then have "j = int m" "s' = s" using assms(1) by (simp_all add: indexupvalue_def bnd_def)
    then show ?thesis using upvalue_index_Some [OF Some] assms(2,4) by (auto simp: extends_def scope_ok_def)
  qed
  then show "leads ((fs s', fn s') # up) VUPVAL j (Suc d) v" "extends (fs s, fn s) (fs s', fn s')" "scope_ok (fs s', fn s')"
    "enclosing s' = enclosing s" by simp_all
qed

text \<open>
  Property C24. Names are resolved lexically. When \<open>singlevaraux\<close> returns for a function inside \<open>k\<close>
  others, a name that none of them declares is global and nothing has changed. Otherwise the innermost
  function that declares it is the one that is found, and there the variable declared last: as a
  register if that is the current function, else as an upvalue whose chain of descriptors leads to that
  register, each level of the chain one function out, and the block that has the variable is marked, so
  that it is closed when control leaves it. Upvalues that were there stay in their places, at most
  \<open>LUAI_MAXUPVALUES\<close> in each function.
\<close>

theorem singlevaraux_resolves:
  "singlevaraux k G n base s = Val var s' \<Longrightarrow> length (enclosing s) = k \<Longrightarrow> \<forall>l \<in> set (levels s). scope_ok l \<Longrightarrow>
     resolved base n (levels s) var (levels s')"
proof (induction k arbitrary: base s var s')
  case 0
  obtain v where v: "searchvar n s = Val v s" "declared (fs s, fn s) n = (if 0 \<le> v then Some v else None)"
    using 0(1) searchvar_declared [of n s] by (auto simp: bnd_def split: res.splits)
  show ?case
  proof (cases "0 \<le> v")
    case True
    then show ?thesis using 0 v by (intro here_resolved) (auto simp: bnd_Val)
  next
    case False
    then show ?thesis using 0 v by (auto simp: bnd_Val resolved_def levels_def init_exp_def)
  qed
next
  case (Suc k)
  obtain v where v: "searchvar n s = Val v s" "declared (fs s, fn s) n = (if 0 \<le> v then Some v else None)"
    using Suc.prems(1) searchvar_declared [of n s] by (auto simp: bnd_def split: res.splits)
  show ?case
  proof (cases "0 \<le> v")
    case True
    then show ?thesis using Suc.prems v by (intro here_resolved) (auto simp: bnd_Val)
  next
    case False
    then obtain e t where e: "outside (singlevaraux k G n False) s = Val e t"
      and rest: "(if kind e = VGLOBAL then ret e
        else bnd (indexupvalue G n (kind e) (info e)) (\<lambda>i. ret (e\<lparr>info := i, kind := VUPVAL\<rparr>))) t = Val var s'"
      using Suc.prems(1) v by (auto simp: bnd_Val bnd_eq_Val)
    from outside_Val [OF e] obtain F N es u where outer: "enclosing s = (F, N) # es"
      "singlevaraux k G n False (s\<lparr>fs := F, fn := N, enclosing := es\<rparr>) = Val e u"
      "levels t = (fs s, fn s) # levels u" "levels s = (fs s, fn s) # levels (s\<lparr>fs := F, fn := N, enclosing := es\<rparr>)"
      by blast
    let ?o = "s\<lparr>fs := F, fn := N, enclosing := es\<rparr>"
    have here: "declared (fs s, fn s) n = None" using v(2) False by simp
    have IH: "resolved False n (levels ?o) e (levels u)"
      using Suc.prems outer by (intro Suc.IH) (auto simp: levels_def)
    show ?thesis
    proof (cases "kind e = VGLOBAL")
      case True
      then show ?thesis using rest IH outer here Suc.prems(3)
        by (auto simp: resolved_def split: option.splits if_splits)
    next
      case False
      then obtain i where i: "indexupvalue G n (kind e) (info e) t = Val i s'" "var = e\<lparr>info := i, kind := VUPVAL\<rparr>"
        using rest by (auto simp: bnd_eq_Val)
      from IH False obtain d w where dw: "resolve (levels ?o) n = Some (d, w)" "leads (levels u) (kind e) (info e) d w"
        "captured (levels u ! d) w" "\<forall>l \<in> set (levels u). scope_ok l" "list_all2 extends (levels ?o) (levels u)"
        by (auto simp: resolved_def split: option.splits)
      have t: "(fs t, fn t) = (fs s, fn s)" "enclosing t = levels u" using outer(3) by (simp_all add: levels_def)
      have "scope_ok (fs t, fn t)" using Suc.prems(3) t by (simp add: levels_def)
      note step = indexupvalue_leads [OF i(1) dw(2) leads_bound [OF dw(2,4,1,5)] this]
      then show ?thesis using dw i(2) here outer(4) t
        by (auto simp: resolved_def levels_def [of s'])
    qed
  qed
qed

text \<open>A function inside one that has the local variable \<open>a\<close>.\<close>

definition sample_scopes :: "bytes option parser" where
  "sample_scopes = sample_parser\<lparr>enclosing := [((new_FuncState 0)\<lparr>nactvar := 1\<rparr>,
     new_FnState\<lparr>locvars := [\<lparr>varname = Some (lit ''a''), startpc = 0, endpc = 0\<rparr>], actvar := [0 \<mapsto> 0],
       blocks := [\<lparr>breaklist = NO_JUMP, bl_nactvar = 0, bl_upval = False, isbreakable = False\<rparr>]\<rparr>)]\<rparr>"

lemmas sample_scopes_defs = sample_scopes_def sample_parser_def new_FuncState_def new_FnState_def

lemma sample_scopes_run: "\<exists>var s'. singlevaraux 1 sample_grammar (lit ''a'') True sample_scopes = Val var s'"
  by (simp add: sample_scopes_defs searchvar_def outside_def markupval_def indexupvalue_def luaY_checklimit_def locvar_of_def
      LUAI_MAXUPVALUES_def init_exp_def seq_def bnd_def)

theorem singlevaraux_resolves_witness:
  "\<exists>var s'. singlevaraux 1 sample_grammar (lit ''a'') True sample_scopes = Val var s' \<and> kind var = VUPVAL \<and>
     leads (levels s') VUPVAL (info var) 1 0 \<and> captured (levels s' ! 1) 0"
proof -
  obtain var s' where run: "singlevaraux 1 sample_grammar (lit ''a'') True sample_scopes = Val var s'"
    using sample_scopes_run by blast
  have "resolve (levels sample_scopes) (lit ''a'') = Some (1, 0)"
    by (simp add: sample_scopes_defs levels_def name_at_def locvar_of_def)
  moreover have "resolved True (lit ''a'') (levels sample_scopes) var (levels s')"
    by (rule singlevaraux_resolves [OF run])
      (simp_all add: sample_scopes_defs levels_def scope_ok_def LUAI_MAXUPVALUES_def)
  ultimately show ?thesis using run by (auto simp: resolved_def)
qed

end
